(* ===== verification/Go_Prelude.thy ===== *)
theory Go_Prelude
  imports Main "HOL-Library.List_Lexorder" "HOL-Library.Char_ord" "HOL-Library.Monad_Syntax"
    "HOL-Library.Sublist"
begin

text \<open>
  Shared vocabulary of the development: Go's unsigned 64-bit arithmetic written out on
  \<^typ>\<open>nat\<close>, the parts of Go's standard library that the modelled code calls
  (\<open>sort.Search\<close>, \<open>strings.Index\<close>, \<open>strings.Split\<close>, \<open>strings.ToLower\<close>), and the
  generic facts about lists, options and maps that several components use.
  A Go panic is the value \<^const>\<open>None\<close> of an option type throughout.
\<close>

named_theorems u64_simps \<open>facts that remove the wrap-around of 64-bit arithmetic\<close>

section \<open>Unsigned 64-bit integers\<close>

type_synonym u64 = nat

definition u64_max :: nat where
  "u64_max = 2 ^ 64"

definition add64 :: "u64 \<Rightarrow> u64 \<Rightarrow> u64" where
  "add64 a b = (a + b) mod u64_max"

definition sub64 :: "u64 \<Rightarrow> u64 \<Rightarrow> u64" where
  "sub64 a b = (a + (u64_max - b mod u64_max)) mod u64_max"

definition mul64 :: "u64 \<Rightarrow> u64 \<Rightarrow> u64" where
  "mul64 a b = (a * b) mod u64_max"

lemma u64_max_pos [simp]: "0 < u64_max"
  by (simp add: u64_max_def)

lemma add64_small [u64_simps]: "a + b < u64_max \<Longrightarrow> add64 a b = a + b"
  by (simp add: add64_def)

lemma mul64_small [u64_simps]: "a * b < u64_max \<Longrightarrow> mul64 a b = a * b"
  by (simp add: mul64_def)

lemma sub64_small [u64_simps]:
  assumes "b \<le> a" and "a < u64_max"
  shows "sub64 a b = a - b"
proof -
  have "a + (u64_max - b mod u64_max) = u64_max + (a - b)" using assms by simp
  then have "sub64 a b = (u64_max + (a - b)) mod u64_max" by (simp only: sub64_def)
  also have "\<dots> = a - b" using assms by (simp only: mod_add_self1) simp
  finally show ?thesis .
qed

lemma add64_bound [simp]: "add64 a b < u64_max"
  by (simp add: add64_def)

text \<open>Signed 64-bit integers: the value a result wraps around to.\<close>

definition i64 :: "int \<Rightarrow> int" where
  "i64 x = (x + 2 ^ 63) mod 2 ^ 64 - 2 ^ 63"

lemma i64_id [simp]: "- (2 ^ 63) \<le> x \<Longrightarrow> x < 2 ^ 63 \<Longrightarrow> i64 x = x"
  by (simp add: i64_def)

section \<open>Lists and sums\<close>

lemma sum_list_take_Suc:
  fixes xs :: "nat list"
  shows "i < length xs \<Longrightarrow> sum_list (take (Suc i) xs) = sum_list (take i xs) + xs ! i"
  by (simp add: take_Suc_conv_app_nth)

lemma sum_list_take_mono:
  fixes xs :: "nat list"
  assumes "i \<le> j"
  shows "sum_list (take i xs) \<le> sum_list (take j xs)"
proof -
  have "take j xs = take i xs @ take (j - i) (drop i xs)"
    using assms by (metis le_add_diff_inverse take_add)
  then show ?thesis by simp
qed

lemma sum_list_take_le:
  fixes xs :: "nat list"
  shows "sum_list (take i xs) \<le> sum_list xs"
  by (metis append_take_drop_id le_add1 sum_list_append)

section \<open>The standard library's binary search\<close>

text \<open>
  \<open>sort.Search(n, f)\<close>: the loop of the Go standard library, which halves the interval
  \<open>[i, j)\<close> and keeps \<open>f\<close> false before \<open>i\<close> and true from \<open>j\<close> on.
\<close>

function sort_search_loop :: "(nat \<Rightarrow> bool) \<Rightarrow> nat \<Rightarrow> nat \<Rightarrow> nat" where
  "sort_search_loop f i j =
     (if i < j then
        (let h = (i + j) div 2 in
         if \<not> f h then sort_search_loop f (h + 1) j else sort_search_loop f i h)
      else i)"
  by pat_completeness auto
termination
  by (relation "measure (\<lambda>(f, i, j). j - i)") (auto simp: Let_def)

declare sort_search_loop.simps [simp del]

definition sort_search :: "nat \<Rightarrow> (nat \<Rightarrow> bool) \<Rightarrow> nat" where
  "sort_search n f = sort_search_loop f 0 n"

lemma sort_search_loop_step:
  assumes "i < j"
  shows "sort_search_loop f i j =
    (if f ((i + j) div 2) then sort_search_loop f i ((i + j) div 2)
     else sort_search_loop f ((i + j) div 2 + 1) j)"
  using assms by (subst sort_search_loop.simps) (simp add: Let_def)

definition search_split :: "nat \<Rightarrow> (nat \<Rightarrow> bool) \<Rightarrow> nat \<Rightarrow> bool" where
  "search_split n f r \<longleftrightarrow> r \<le> n \<and> (\<forall>k<r. \<not> f k) \<and> (\<forall>k. r \<le> k \<longrightarrow> k < n \<longrightarrow> f k)"

lemma sort_search_loop_spec:
  "(\<And>a b. a \<le> b \<Longrightarrow> b < n \<Longrightarrow> f a \<Longrightarrow> f b) \<Longrightarrow> i \<le> j \<Longrightarrow> j \<le> n \<Longrightarrow> \<forall>k<i. \<not> f k \<Longrightarrow>
    \<forall>k. j \<le> k \<longrightarrow> k < n \<longrightarrow> f k \<Longrightarrow> search_split n f (sort_search_loop f i j)"
proof (induction f i j rule: sort_search_loop.induct)
  case (1 f i j)
  note mono = "1.prems"(1)
  show ?case
  proof (cases "i < j")
    case False
    then have "sort_search_loop f i j = i" by (simp add: sort_search_loop.simps [of f i j])
    with False "1.prems"(2-5) show ?thesis by (simp add: search_split_def)
  next
    case True
    let ?h = "(i + j) div 2"
    have h: "i \<le> ?h" "?h < j" using True by auto
    show ?thesis
    proof (cases "f ?h")
      case False
      have below: "\<forall>k<?h + 1. \<not> f k"
      proof (intro allI impI notI)
        fix k assume "k < ?h + 1" "f k"
        then have "f ?h" using mono [of k ?h] h "1.prems"(3) by simp
        with False show False by simp
      qed
      have "search_split n f (sort_search_loop f (?h + 1) j)"
        using h by (intro "1.IH"(1) [OF True refl False mono] below "1.prems"(3,5)) auto
      with True False show ?thesis by (simp add: sort_search_loop_step)
    next
      case fh: True
      have above: "\<forall>k. ?h \<le> k \<longrightarrow> k < n \<longrightarrow> f k" using fh mono by blast
      have "search_split n f (sort_search_loop f i ?h)"
        using h "1.prems"(3) by (intro "1.IH"(2) [OF True refl _ mono] above "1.prems"(4)) (auto simp: fh)
      with True fh show ?thesis by (simp add: sort_search_loop_step)
    qed
  qed
qed

lemma sort_search_spec:
  assumes "\<And>a b. a \<le> b \<Longrightarrow> b < n \<Longrightarrow> f a \<Longrightarrow> f b"
  shows "search_split n f (sort_search n f)"
  unfolding sort_search_def by (rule sort_search_loop_spec) (use assms in auto)

lemma search_split_unique: "search_split n f r \<Longrightarrow> search_split n f r' \<Longrightarrow> r = r'"
  unfolding search_split_def by (metis le_antisym nat_le_linear not_le order.strict_trans2)

section \<open>Strings\<close>

text \<open>
  A Go string is a sequence of bytes: \<^typ>\<open>string\<close>.  Its order is the lexicographic order
  of the bytes, which is the order of \<open>HOL-Library.List_Lexorder\<close> over \<open>HOL-Library.Char_ord\<close>.
  \<open>strings.Split\<close> with a one-byte separator, and \<open>strconv.ParseUint\<close> in base 10.
\<close>

fun go_split :: "char \<Rightarrow> string \<Rightarrow> string list" where
  "go_split c [] = [[]]"
| "go_split c (x # xs) =
     (if x = c then [] # go_split c xs
      else case go_split c xs of [] \<Rightarrow> [[x]] | w # ws \<Rightarrow> (x # w) # ws)"

lemma go_split_nonempty [simp]: "go_split c s \<noteq> []"
  by (cases s) (auto split: list.splits)

fun digits_value :: "nat \<Rightarrow> string \<Rightarrow> nat option" where
  "digits_value acc [] = Some acc"
| "digits_value acc (x # xs) =
     (if CHR ''0'' \<le> x \<and> x \<le> CHR ''9''
      then digits_value (10 * acc + (of_char x - of_char CHR ''0'')) xs
      else None)"

definition parse_uint10 :: "nat \<Rightarrow> string \<Rightarrow> nat option" where
  "parse_uint10 bits s =
     (if s = [] then None
      else case digits_value 0 s of
        None \<Rightarrow> None
      | Some v \<Rightarrow> if v < 2 ^ bits then Some v else None)"

lemma parse_uint10_bound: "parse_uint10 bits s = Some v \<Longrightarrow> v < 2 ^ bits"
  by (auto simp: parse_uint10_def split: if_splits option.splits)

end
