(* ===== verification/Ordered_Map.thy ===== *)
theory Ordered_Map
  imports Go_Prelude
begin

text \<open>
  The interface to the ordered map that the program keeps its buffers and queues in,
  \<open>btree.Map[uint64, V]\<close> of the package \<open>github.com/tidwall/btree\<close>.  That package is not
  part of the repository, so its operations are an argument of every definition that
  uses them: a record \<open>btree\<close> of functions.  The locale \<open>btree_map\<close> states the documented
  behaviour the program relies on, and the client lemmas below are proved from it.
  An iteration (\<open>Ascend\<close>, \<open>Descend\<close>) is given by the list of entries it visits.
\<close>

record ('t, 'v) btree =
  bt_empty :: 't
  bt_get :: "'t \<Rightarrow> u64 \<Rightarrow> 'v option"
  bt_set :: "'t \<Rightarrow> u64 \<Rightarrow> 'v \<Rightarrow> 't"
  bt_del :: "'t \<Rightarrow> u64 \<Rightarrow> 't"
  bt_len :: "'t \<Rightarrow> nat"
  bt_asc :: "'t \<Rightarrow> u64 \<Rightarrow> (u64 \<times> 'v) list"
  bt_desc :: "'t \<Rightarrow> u64 \<Rightarrow> (u64 \<times> 'v) list"

locale btree_map =
  fixes B :: "('t, 'v) btree"
  assumes get_empty: "bt_get B (bt_empty B) = Map.empty"
    and get_set: "bt_get B (bt_set B m k v) = (bt_get B m)(k \<mapsto> v)"
    and get_del: "bt_get B (bt_del B m k) = (bt_get B m)(k := None)"
    and len_get: "bt_len B m = card (dom (bt_get B m))"
    and asc_sorted: "sorted_wrt (<) (map fst (bt_asc B m p))"
    and asc_set: "set (bt_asc B m p) = {(k, v). bt_get B m k = Some v \<and> p \<le> k}"
    and desc_sorted: "sorted_wrt (>) (map fst (bt_desc B m p))"
    and desc_set: "set (bt_desc B m p) = {(k, v). bt_get B m k = Some v \<and> k \<le> p}"
begin

lemmas get_simps [simp] = get_empty get_set get_del

lemma finite_dom: "finite (dom (bt_get B m))"
proof -
  have "dom (bt_get B m) \<subseteq> fst ` set (bt_asc B m 0)"
  proof
    fix k assume "k \<in> dom (bt_get B m)"
    then obtain v where "(k, v) \<in> set (bt_asc B m 0)" by (auto simp: asc_set)
    then show "k \<in> fst ` set (bt_asc B m 0)" by (rule image_eqI [rotated]) simp
  qed
  then show ?thesis by (rule finite_subset) simp
qed

text \<open>The visited list is determined by the entries it shows.\<close>

lemma asc_unique:
  assumes "sorted_wrt (<) (map fst xs)" and "set xs = {(k, v). bt_get B m k = Some v \<and> p \<le> k}"
  shows "bt_asc B m p = xs"
proof (rule map_sorted_distinct_set_unique)
  show "set (bt_asc B m p) = set xs" using assms(2) by (simp add: asc_set)
  show "inj_on fst (set (bt_asc B m p) \<union> set xs)"
    using assms(2) by (auto simp: asc_set inj_on_def)
qed (use asc_sorted [of m p] assms(1) in \<open>simp_all add: strict_sorted_iff\<close>)

lemma asc_first:
  assumes "bt_asc B m p = (k, v) # es"
  shows "bt_get B m k = Some v" "p \<le> k" "\<And>j w. bt_get B m j = Some w \<Longrightarrow> p \<le> j \<Longrightarrow> k \<le> j"
proof -
  have mem: "set ((k, v) # es) = {(k, v). bt_get B m k = Some v \<and> p \<le> k}"
    using asc_set [of m p] assms by simp
  then show "bt_get B m k = Some v" "p \<le> k" by auto
  have gt: "\<forall>e\<in>set es. k < fst e" using asc_sorted [of m p] assms by simp
  show "k \<le> j" if "bt_get B m j = Some w" "p \<le> j" for j w
  proof -
    have "(j, w) \<in> set ((k, v) # es)" using that by (simp only: mem) simp
    with gt show ?thesis by (auto simp: less_imp_le)
  qed
qed

lemma asc_Nil: "bt_asc B m p = [] \<longleftrightarrow> (\<forall>k v. bt_get B m k = Some v \<longrightarrow> k < p)"
proof -
  have "bt_asc B m p = [] \<longleftrightarrow> {(k, v). bt_get B m k = Some v \<and> p \<le> k} = {}"
    by (simp flip: asc_set)
  then show ?thesis by (auto simp: not_le)
qed

lemma asc_tail:
  assumes "bt_asc B m p = (k, v) # es"
  shows "es = bt_asc B m (Suc k)"
proof -
  have mem: "insert (k, v) (set es) = {(k, v). bt_get B m k = Some v \<and> p \<le> k}"
    and gt: "\<forall>e\<in>set es. k < fst e" and srt: "sorted_wrt (<) (map fst es)"
    using asc_set [of m p] asc_sorted [of m p] assms by auto
  have "set es = {(j, w). bt_get B m j = Some w \<and> Suc k \<le> j}"
  proof (intro set_eqI iffI)
    fix e assume e: "e \<in> set es"
    then have "e \<in> {(k, v). bt_get B m k = Some v \<and> p \<le> k}" using mem by blast
    with e gt show "e \<in> {(j, w). bt_get B m j = Some w \<and> Suc k \<le> j}" by auto
  next
    fix e assume e: "e \<in> {(j, w). bt_get B m j = Some w \<and> Suc k \<le> j}"
    moreover have "p \<le> k" using mem by auto
    ultimately have "e \<in> {(k, v). bt_get B m k = Some v \<and> p \<le> k}" by auto
    then have "e \<in> insert (k, v) (set es)" by (simp only: mem)
    with e show "e \<in> set es" by auto
  qed
  with srt show ?thesis by (intro asc_unique [symmetric])
qed

lemma asc_cong:
  assumes "\<And>j. p \<le> j \<Longrightarrow> bt_get B m j = bt_get B m' j"
  shows "bt_asc B m p = bt_asc B m' p"
  using assms asc_sorted [of m' p] by (intro asc_unique) (auto simp: asc_set)

lemma desc_first:
  assumes "bt_desc B m p = (k, v) # es"
  shows "bt_get B m k = Some v" "k \<le> p" "\<And>j w. bt_get B m j = Some w \<Longrightarrow> j \<le> p \<Longrightarrow> j \<le> k"
proof -
  have mem: "set ((k, v) # es) = {(k, v). bt_get B m k = Some v \<and> k \<le> p}"
    using desc_set [of m p] assms by simp
  then show "bt_get B m k = Some v" "k \<le> p" by auto
  have lt: "\<forall>e\<in>set es. fst e < k" using desc_sorted [of m p] assms by simp
  show "j \<le> k" if "bt_get B m j = Some w" "j \<le> p" for j w
  proof -
    have "(j, w) \<in> set ((k, v) # es)" using that by (simp only: mem) simp
    with lt show ?thesis by (auto simp: less_imp_le)
  qed
qed

lemma desc_Nil: "bt_desc B m p = [] \<longleftrightarrow> (\<forall>k v. bt_get B m k = Some v \<longrightarrow> p < k)"
proof -
  have "bt_desc B m p = [] \<longleftrightarrow> {(k, v). bt_get B m k = Some v \<and> k \<le> p} = {}"
    by (simp flip: desc_set)
  then show ?thesis by (auto simp: not_le)
qed

end

section \<open>A map that satisfies the interface\<close>

text \<open>
  Association lists in ascending key order implement the interface, so its laws can hold
  together.  The theorems of the development are stated for every implementation; the
  concrete inputs of their witnesses use this one.
\<close>

fun al_set :: "(u64 \<times> 'v) list \<Rightarrow> u64 \<Rightarrow> 'v \<Rightarrow> (u64 \<times> 'v) list" where
  "al_set [] k v = [(k, v)]"
| "al_set ((j, w) # es) k v =
     (if k < j then (k, v) # (j, w) # es
      else if k = j then (k, v) # es else (j, w) # al_set es k v)"

lemma al_set_keys: "fst ` set (al_set es k v) = insert k (fst ` set es)"
  by (induction es k v rule: al_set.induct) auto

lemma al_set_sorted: "sorted_wrt (<) (map fst es) \<Longrightarrow> sorted_wrt (<) (map fst (al_set es k v))"
proof (induction es k v rule: al_set.induct)
  case (2 j w es k v)
  have "\<forall>x\<in>fst ` set (al_set es k v). j < x" if "j < k"
    using that 2 by (auto simp: al_set_keys)
  with 2 show ?case by (auto simp: not_less_iff_gr_or_eq)
qed simp

lemma map_of_al_set: "map_of (al_set es k v) = (map_of es)(k \<mapsto> v)"
  by (induction es k v rule: al_set.induct) auto

typedef 'v omap = "{es :: (u64 \<times> 'v) list. sorted_wrt (<) (map fst es)}"
  morphisms om_list Om
  by (rule exI [of _ "[]"]) simp

setup_lifting type_definition_omap

lift_definition om_empty :: "'v omap" is "[]" by simp
lift_definition om_set :: "'v omap \<Rightarrow> u64 \<Rightarrow> 'v \<Rightarrow> 'v omap" is al_set by (rule al_set_sorted)
lift_definition om_del :: "'v omap \<Rightarrow> u64 \<Rightarrow> 'v omap" is "\<lambda>es k. filter (\<lambda>e. fst e \<noteq> k) es"
  by (simp add: sorted_wrt_map sorted_wrt_filter)

definition om_btree :: "('v omap, 'v) btree" where
  "om_btree =
     \<lparr>bt_empty = om_empty,
      bt_get = (\<lambda>m. map_of (om_list m)),
      bt_set = om_set,
      bt_del = om_del,
      bt_len = (\<lambda>m. length (om_list m)),
      bt_asc = (\<lambda>m p. filter (\<lambda>e. p \<le> fst e) (om_list m)),
      bt_desc = (\<lambda>m p. filter (\<lambda>e. fst e \<le> p) (rev (om_list m)))\<rparr>"

lemma om_sorted: "sorted_wrt (<) (map fst (om_list m))"
  using om_list [of m] by simp

lemma om_distinct: "distinct (map fst (om_list m))"
  using om_sorted [of m] by (simp add: strict_sorted_iff)

lemma map_of_filter_neq: "map_of (filter (\<lambda>e. fst e \<noteq> k) es) = (map_of es)(k := None)"
  by (induction es) auto

lemma map_of_mem_iff: "map_of (om_list m) k = Some v \<longleftrightarrow> (k, v) \<in> set (om_list m)"
  by (simp add: om_distinct)

interpretation om: btree_map "om_btree :: ('v omap, 'v) btree"
proof unfold_locales
  fix m :: "'v omap" and k p :: nat and v :: 'v
  show "bt_get om_btree (bt_empty (om_btree :: ('v omap, 'v) btree)) = Map.empty"
    by (simp add: om_btree_def om_empty.rep_eq)
  show "bt_get om_btree (bt_set om_btree m k v) = (bt_get om_btree m)(k \<mapsto> v)"
    by (simp add: om_btree_def om_set.rep_eq map_of_al_set)
  show "bt_get om_btree (bt_del om_btree m k) = (bt_get om_btree m)(k := None)"
    by (simp add: om_btree_def om_del.rep_eq map_of_filter_neq)
  show "bt_len om_btree m = card (dom (bt_get om_btree m))"
    using distinct_card [OF om_distinct [of m]]
    by (simp add: om_btree_def dom_map_of_conv_image_fst)
  show "sorted_wrt (<) (map fst (bt_asc om_btree m p))"
    using om_sorted [of m] by (simp add: om_btree_def sorted_wrt_map sorted_wrt_filter)
  show "sorted_wrt (>) (map fst (bt_desc om_btree m p))"
    using om_sorted [of m]
    by (simp add: om_btree_def sorted_wrt_map sorted_wrt_filter sorted_wrt_rev)
  show "set (bt_asc om_btree m p) = {(k, v). bt_get om_btree m k = Some v \<and> p \<le> k}"
    by (auto simp: om_btree_def map_of_mem_iff)
  show "set (bt_desc om_btree m p) = {(k, v). bt_get om_btree m k = Some v \<and> k \<le> p}"
    by (auto simp: om_btree_def map_of_mem_iff)
qed

end
