(* ===== verification/Buffer_List.thy ===== *)
theory Buffer_List
  imports Ordered_Map "HOL-Library.Word"
begin

text \<open>
  The model of \<open>core/buffer_list.go\<close>: the cached byte ranges of one file, their states, the
  reference counts of the memory behind them and of the dirty upload parts they touch.

  A \<open>*FileBuffer\<close> is held by the tree \<open>at\<close> only, under its end offset, so the tree holds the
  \<open>FileBuffer\<close> itself and a write through the pointer is \<open>store\<close>.  A \<open>*BufferPointer\<close> is
  shared by the buffers that slice the same array, so these live in an explicit store
  (\<open>bl_mem\<close>) under an address; a slice is a start and a length within the array of its
  pointer.  A \<open>*dirtyPart\<close> is shared by \<open>dirtyParts\<close> and \<open>dirtyQueue\<close>; the queue names it
  by its part number, under which \<open>dirtyParts\<close> holds it.

  The tree (a third-party package) and the methods of the interface \<open>BufferListHelpers\<close>
  are given by the record \<open>bufEnv\<close>, the first argument of every operation.  A panic is
  \<^const>\<open>None\<close>.
\<close>

section \<open>Data\<close>

type_synonym byte = "8 word"

definition MAX_BUF :: nat where
  "MAX_BUF = 2 * 1024 * 1024"

datatype BufferState = BUF_CLEAN | BUF_DIRTY | BUF_FLUSHED_FULL | BUF_FLUSHED_CUT | BUF_FL_CLEARED

record BufferPointer =
  bp_array :: "byte list"  \<comment> \<open>the array behind \<open>mem\<close>, up to its capacity\<close>
  bp_len :: nat            \<comment> \<open>\<open>len(mem)\<close>\<close>
  bp_refs :: int

record FileBuffer =
  fb_queueId :: nat
  fb_offset :: u64
  fb_length :: u64
  fb_state :: BufferState
  fb_loading :: bool
  fb_onDisk :: bool
  fb_zero :: bool
  fb_dirtyID :: nat
  fb_data :: "(nat \<times> nat) option"
  fb_ptr :: "nat option"

record dirtyPart =
  dp_partNum :: u64
  dp_queueId :: nat
  dp_refcnt :: int

record ('t, 'd, 'h) bufEnv =
  env_at :: "('t, FileBuffer) btree"
  env_dq :: "('d, u64) btree"
  PartNum :: "u64 \<Rightarrow> u64 option"
  QueueCleanBuffer :: "'h \<Rightarrow> FileBuffer \<Rightarrow> 'h \<times> FileBuffer"
  UnqueueCleanBuffer :: "'h \<Rightarrow> FileBuffer \<Rightarrow> 'h"

record ('t, 'd, 'h) BufferList =
  bl_at :: 't
  bl_dirtyQueue :: 'd
  bl_dirtyParts :: "u64 \<Rightarrow> dirtyPart option"
  bl_dirtyQid :: nat
  bl_uncleanCount :: int
  bl_curDirtyID :: nat
  bl_helpers :: 'h  \<comment> \<open>the state behind the helpers: the shared queue of clean buffers\<close>
  bl_mem :: "nat \<Rightarrow> BufferPointer option"
  bl_nextPtr :: nat

definition bend :: "FileBuffer \<Rightarrow> u64" where
  "bend b = add64 (fb_offset b) (fb_length b)"

definition store ::
  "('t, 'd, 'h) bufEnv \<Rightarrow> ('t, 'd, 'h) BufferList \<Rightarrow> FileBuffer \<Rightarrow> ('t, 'd, 'h) BufferList" where
  "store E l b = l\<lparr>bl_at := bt_set (env_at E) (bl_at l) (bend b) b\<rparr>"

definition nextID :: "('t, 'd, 'h) BufferList \<Rightarrow> ('t, 'd, 'h) BufferList \<times> nat" where
  "nextID l = (l\<lparr>bl_curDirtyID := Suc (bl_curDirtyID l)\<rparr>, Suc (bl_curDirtyID l))"

text \<open>Allocation of a \<open>BufferPointer\<close>, and the change of a reference count through it.\<close>

definition new_ptr ::
  "('t, 'd, 'h) BufferList \<Rightarrow> BufferPointer \<Rightarrow> ('t, 'd, 'h) BufferList \<times> nat" where
  "new_ptr l p =
     (l\<lparr>bl_mem := (bl_mem l)(bl_nextPtr l \<mapsto> p), bl_nextPtr := Suc (bl_nextPtr l)\<rparr>, bl_nextPtr l)"

definition add_refs :: "int \<Rightarrow> ('t, 'd, 'h) BufferList \<Rightarrow> nat option \<Rightarrow>
    (('t, 'd, 'h) BufferList \<times> BufferPointer) option" where
  "add_refs n l ptr =
     (case ptr of None \<Rightarrow> None
      | Some a \<Rightarrow> (case bl_mem l a of None \<Rightarrow> None
        | Some p \<Rightarrow> (let p' = p\<lparr>bp_refs := bp_refs p + n\<rparr>
                     in Some (l\<lparr>bl_mem := (bl_mem l)(a \<mapsto> p')\<rparr>, p'))))"

text \<open>Dropping a reference returns the negated size of the memory it frees.\<close>

definition release :: "('t, 'd, 'h) BufferList \<Rightarrow> nat option \<Rightarrow>
    (('t, 'd, 'h) BufferList \<times> int) option" where
  "release l ptr = do {
     (l, p) \<leftarrow> add_refs (- 1) l ptr;
     Some (l, if bp_refs p = 0 then - int (bp_len p) else 0)
   }"

definition write_at :: "'a list \<Rightarrow> nat \<Rightarrow> 'a list \<Rightarrow> 'a list" where
  "write_at xs i ys = take i xs @ ys @ drop (i + length ys) xs"

definition fb_cap :: "('t, 'd, 'h) BufferList \<Rightarrow> FileBuffer \<Rightarrow> nat" where
  "fb_cap l b =
     (case (fb_data b, fb_ptr b) of
        (Some (s, n), Some a) \<Rightarrow>
          (case bl_mem l a of None \<Rightarrow> 0 | Some p \<Rightarrow> length (bp_array p) - s)
      | _ \<Rightarrow> 0)"

definition fb_len :: "FileBuffer \<Rightarrow> nat" where
  "fb_len b = (case fb_data b of None \<Rightarrow> 0 | Some (s, n) \<Rightarrow> n)"

definition slice_bytes :: "('t, 'd, 'h) BufferList \<Rightarrow> FileBuffer \<Rightarrow> byte list" where
  "slice_bytes l b =
     (case (fb_data b, fb_ptr b) of
        (Some (s, n), Some a) \<Rightarrow>
          (case bl_mem l a of None \<Rightarrow> [] | Some p \<Rightarrow> take n (drop s (bp_array p)))
      | _ \<Rightarrow> [])"

definition FileBuffer_Append :: "('t, 'd, 'h) BufferList \<Rightarrow> FileBuffer \<Rightarrow> byte list \<Rightarrow>
    (('t, 'd, 'h) BufferList \<times> FileBuffer \<times> int) option" where
  "FileBuffer_Append l buf data =
     (let oldLen = fb_len buf; newLen = oldLen + length data in
      if fb_cap l buf \<ge> newLen then
        (case (fb_data buf, fb_ptr buf) of
           (Some (s, n), Some a) \<Rightarrow>
             (case bl_mem l a of None \<Rightarrow> None
              | Some p \<Rightarrow>
                  Some (l\<lparr>bl_mem := (bl_mem l)(a \<mapsto>
                            p\<lparr>bp_array := write_at (bp_array p) (s + oldLen) data\<rparr>)\<rparr>,
                        buf\<lparr>fb_data := Some (s, newLen), fb_length := newLen\<rparr>, 0))
         | _ \<Rightarrow> Some (l, buf\<lparr>fb_length := newLen\<rparr>, 0))
      else
        (let newCap = (if newLen < 2 * oldLen then 2 * oldLen else newLen);
             newData = slice_bytes l buf @ data @ replicate (newCap - newLen) 0
         in do {
           (l, freed) \<leftarrow> release l (fb_ptr buf);
           let (l, a) = new_ptr l \<lparr>bp_array = newData, bp_len = newCap, bp_refs = 1\<rparr>;
           Some (l, buf\<lparr>fb_data := Some (0, newLen), fb_length := newLen, fb_ptr := Some a\<rparr>,
                 int newCap + freed)
         }))"

section \<open>Iteration\<close>

text \<open>
  \<open>ascendChange\<close>: an ascending iteration whose callback may change the tree.  The callback
  returns \<open>(cont, changed)\<close>; after a change the iteration starts again at the current key
  and skips it.  \<open>n\<close> bounds the number of restarts: one per visited key is enough.
\<close>

fun ascendChange_loop :: "('t, 'v) btree \<Rightarrow> ('s \<Rightarrow> 't) \<Rightarrow>
    (u64 \<Rightarrow> 'v \<Rightarrow> 's \<Rightarrow> (bool \<times> bool \<times> 's) option) \<Rightarrow>
    nat \<Rightarrow> u64 option \<Rightarrow> (u64 \<times> 'v) list \<Rightarrow> 's \<Rightarrow> 's option" where
  "ascendChange_loop B tree iter n lst [] s = Some s"
| "ascendChange_loop B tree iter n lst ((key, v) # es) s =
     (if lst = Some key then ascendChange_loop B tree iter n lst es s
      else do {
        (cont, chg, s') \<leftarrow> iter key v s;
        if chg \<and> cont then
          (case n of 0 \<Rightarrow> None
           | Suc n' \<Rightarrow> ascendChange_loop B tree iter n' (Some key) (bt_asc B (tree s') key) s')
        else if cont then ascendChange_loop B tree iter n lst es s'
        else Some s'
      })"

definition ascendChange :: "('t, 'v) btree \<Rightarrow> ('s \<Rightarrow> 't) \<Rightarrow> u64 \<Rightarrow>
    (u64 \<Rightarrow> 'v \<Rightarrow> 's \<Rightarrow> (bool \<times> bool \<times> 's) option) \<Rightarrow> 's \<Rightarrow> 's option" where
  "ascendChange B tree start iter s =
     ascendChange_loop B tree iter (bt_len B (tree s)) None (bt_asc B (tree s) start) s"

definition BL_Count :: "('t, 'd, 'h) bufEnv \<Rightarrow> ('t, 'd, 'h) BufferList \<Rightarrow> nat" where
  "BL_Count E l = bt_len (env_at E) (bl_at l)"

definition BL_Get :: "('t, 'd, 'h) bufEnv \<Rightarrow> ('t, 'd, 'h) BufferList \<Rightarrow> u64 \<Rightarrow> FileBuffer option" where
  "BL_Get E l end = bt_get (env_at E) (bl_at l) end"

fun Select_loop :: "u64 \<Rightarrow> (FileBuffer \<Rightarrow> bool) \<Rightarrow> (u64 \<times> FileBuffer) list \<Rightarrow> FileBuffer list" where
  "Select_loop end cb [] = []"
| "Select_loop end cb ((k, b) # es) =
     (if fb_offset b \<ge> end then []
      else if cb b then b # Select_loop end cb es else Select_loop end cb es)"

definition Select :: "('t, 'd, 'h) bufEnv \<Rightarrow> ('t, 'd, 'h) BufferList \<Rightarrow> u64 \<Rightarrow> u64 \<Rightarrow>
    (FileBuffer \<Rightarrow> bool) \<Rightarrow> FileBuffer list" where
  "Select E l start end cb = Select_loop end cb (bt_asc (env_at E) (bl_at l) (add64 start 1))"

section \<open>Queues of dirty parts and clean buffers\<close>

fun unref_parts :: "('t, 'd, 'h) bufEnv \<Rightarrow> u64 list \<Rightarrow> ('t, 'd, 'h) BufferList \<Rightarrow>
    ('t, 'd, 'h) BufferList option" where
  "unref_parts E [] l = Some l"
| "unref_parts E (i # is) l =
     (case bl_dirtyParts l i of
        None \<Rightarrow> None
      | Some p \<Rightarrow>
          if dp_refcnt p = 0 then None
          else if dp_refcnt p - 1 = 0 then
            unref_parts E is (l\<lparr>bl_dirtyQueue := bt_del (env_dq E) (bl_dirtyQueue l) (dp_queueId p),
                                bl_dirtyParts := (bl_dirtyParts l)(i := None)\<rparr>)
          else unref_parts E is (l\<lparr>bl_dirtyParts :=
                 (bl_dirtyParts l)(i \<mapsto> p\<lparr>dp_refcnt := dp_refcnt p - 1\<rparr>)\<rparr>))"

definition unqueue :: "('t, 'd, 'h) bufEnv \<Rightarrow> ('t, 'd, 'h) BufferList \<Rightarrow> FileBuffer \<Rightarrow>
    ('t, 'd, 'h) BufferList option" where
  "unqueue E l b =
     (let l = (if fb_state b \<noteq> BUF_CLEAN
               then l\<lparr>bl_uncleanCount := bl_uncleanCount l - 1\<rparr> else l) in
      if fb_state b = BUF_DIRTY then do {
        sp \<leftarrow> PartNum E (fb_offset b);
        ep \<leftarrow> PartNum E (sub64 (bend b) 1);
        unref_parts E [sp..<ep + 1] l
      }
      else if fb_state b = BUF_CLEAN \<or> fb_state b = BUF_FLUSHED_FULL
      then Some (l\<lparr>bl_helpers := UnqueueCleanBuffer E (bl_helpers l) b\<rparr>)
      else Some l)"

definition referenceDirtyPart :: "('t, 'd, 'h) bufEnv \<Rightarrow> u64 \<Rightarrow> ('t, 'd, 'h) BufferList \<Rightarrow>
    ('t, 'd, 'h) BufferList" where
  "referenceDirtyPart E partNum l =
     (let q = Suc (bl_dirtyQid l) in
      case bl_dirtyParts l partNum of
        None \<Rightarrow>
          l\<lparr>bl_dirtyQid := q,
            bl_dirtyParts := (bl_dirtyParts l)(partNum \<mapsto>
              \<lparr>dp_partNum = partNum, dp_queueId = q, dp_refcnt = 1\<rparr>),
            bl_dirtyQueue := bt_set (env_dq E) (bl_dirtyQueue l) q partNum\<rparr>
      | Some p \<Rightarrow>
          l\<lparr>bl_dirtyQid := q,
            bl_dirtyParts := (bl_dirtyParts l)(partNum \<mapsto>
              p\<lparr>dp_refcnt := dp_refcnt p + 1, dp_queueId := q\<rparr>),
            bl_dirtyQueue := bt_set (env_dq E)
              (bt_del (env_dq E) (bl_dirtyQueue l) (dp_queueId p)) q partNum\<rparr>)"

definition queue_clean :: "('t, 'd, 'h) bufEnv \<Rightarrow> ('t, 'd, 'h) BufferList \<Rightarrow> FileBuffer \<Rightarrow>
    ('t, 'd, 'h) BufferList \<times> FileBuffer" where
  "queue_clean E l b =
     (let (h, b) = QueueCleanBuffer E (bl_helpers l) b
      in (store E (l\<lparr>bl_helpers := h\<rparr>) b, b))"

definition queue :: "('t, 'd, 'h) bufEnv \<Rightarrow> ('t, 'd, 'h) BufferList \<Rightarrow> FileBuffer \<Rightarrow>
    ('t, 'd, 'h) BufferList option" where
  "queue E l b =
     (if fb_length b = 0 then None
      else let l = (if fb_state b \<noteq> BUF_CLEAN
                    then l\<lparr>bl_uncleanCount := bl_uncleanCount l + 1\<rparr> else l) in
        if fb_state b = BUF_DIRTY then do {
          sp \<leftarrow> PartNum E (fb_offset b);
          ep \<leftarrow> PartNum E (sub64 (bend b) 1);
          Some (fold (referenceDirtyPart E) [sp..<ep + 1] l)
        }
        else if fb_state b = BUF_CLEAN \<or> fb_state b = BUF_FLUSHED_FULL
        then Some (fst (queue_clean E l b))
        else Some l)"

definition requeueSplit :: "('t, 'd, 'h) bufEnv \<Rightarrow> ('t, 'd, 'h) BufferList \<Rightarrow> FileBuffer \<Rightarrow>
    (('t, 'd, 'h) BufferList \<times> FileBuffer) option" where
  "requeueSplit E l left =
     (if fb_length left = 0 then None
      else let l = (if fb_state left \<noteq> BUF_CLEAN
                    then l\<lparr>bl_uncleanCount := bl_uncleanCount l + 1\<rparr> else l) in
        if fb_state left = BUF_DIRTY then do {
          lbound \<leftarrow> PartNum E (sub64 (bend left) 1);
          rbound \<leftarrow> PartNum E (bend left);
          Some (if lbound = rbound then referenceDirtyPart E lbound l else l, left)
        }
        else if fb_state left = BUF_CLEAN \<or> fb_state left = BUF_FLUSHED_FULL
        then Some (queue_clean E l left)
        else Some (l, left))"

definition IterateDirtyParts :: "('t, 'd, 'h) bufEnv \<Rightarrow> ('t, 'd, 'h) BufferList \<Rightarrow> u64 list" where
  "IterateDirtyParts E l = map snd (bt_asc (env_dq E) (bl_dirtyQueue l) 0)"

section \<open>Operations\<close>

text \<open>A buffer changes its state: it leaves the queues of the old one and joins those of the new.\<close>

definition retag :: "('t, 'd, 'h) bufEnv \<Rightarrow> (FileBuffer \<Rightarrow> FileBuffer) \<Rightarrow> FileBuffer \<Rightarrow>
    ('t, 'd, 'h) BufferList \<Rightarrow> ('t, 'd, 'h) BufferList option" where
  "retag E f b l = do {
     l \<leftarrow> unqueue E l b;
     queue E (store E l (f b)) (f b)
   }"

fun SetState_loop :: "('t, 'd, 'h) bufEnv \<Rightarrow> u64 \<Rightarrow> u64 \<Rightarrow> nat set \<Rightarrow> BufferState \<Rightarrow>
    (u64 \<times> FileBuffer) list \<Rightarrow> ('t, 'd, 'h) BufferList \<Rightarrow> ('t, 'd, 'h) BufferList option" where
  "SetState_loop E offset sz ids state [] l = Some l"
| "SetState_loop E offset sz ids state ((k, b) # es) l = do {
     l' \<leftarrow> (if fb_dirtyID b \<noteq> 0 \<and> fb_dirtyID b \<in> ids
           then retag E (\<lambda>b. b\<lparr>fb_dirtyID := 0, fb_state := state\<rparr>) b l else Some l);
     if fb_offset b < sub64 (add64 offset sz) 1
     then SetState_loop E offset sz ids state es l' else Some l'
   }"

definition SetState :: "('t, 'd, 'h) bufEnv \<Rightarrow> ('t, 'd, 'h) BufferList \<Rightarrow> u64 \<Rightarrow> u64 \<Rightarrow> nat set \<Rightarrow>
    BufferState \<Rightarrow> ('t, 'd, 'h) BufferList option" where
  "SetState E l offset sz ids state =
     SetState_loop E offset sz ids state (bt_asc (env_at E) (bl_at l) (add64 offset 1)) l"

definition BL_delete :: "('t, 'd, 'h) bufEnv \<Rightarrow> ('t, 'd, 'h) BufferList \<Rightarrow> FileBuffer \<Rightarrow>
    (('t, 'd, 'h) BufferList \<times> int) option" where
  "BL_delete E l b = do {
     (l, allocated) \<leftarrow> (if fb_data b \<noteq> None then release l (fb_ptr b) else Some (l, 0));
     l \<leftarrow> unqueue E (l\<lparr>bl_at := bt_del (env_at E) (bl_at l) (bend b)\<rparr>) b;
     Some (l, allocated)
   }"

definition SetFlushedClean_iter :: "('t, 'd, 'h) bufEnv \<Rightarrow> u64 \<Rightarrow> FileBuffer \<Rightarrow>
    ('t, 'd, 'h) BufferList \<Rightarrow> (bool \<times> bool \<times> ('t, 'd, 'h) BufferList) option" where
  "SetFlushedClean_iter E end b l =
     (if fb_state b = BUF_FL_CLEARED then do {
        (l, _) \<leftarrow> BL_delete E l b;
        Some (True, True, l)
      }
      else if fb_state b = BUF_FLUSHED_FULL \<or> fb_state b = BUF_FLUSHED_CUT then do {
        l \<leftarrow> retag E (\<lambda>b. b\<lparr>fb_dirtyID := 0, fb_state := BUF_CLEAN\<rparr>) b l;
        Some (True, False, l)
      }
      else Some (True, False, l))"

definition SetFlushedClean :: "('t, 'd, 'h) bufEnv \<Rightarrow> ('t, 'd, 'h) BufferList \<Rightarrow>
    ('t, 'd, 'h) BufferList option" where
  "SetFlushedClean E l = ascendChange (env_at E) bl_at 0 (SetFlushedClean_iter E) l"

definition split :: "('t, 'd, 'h) bufEnv \<Rightarrow> ('t, 'd, 'h) BufferList \<Rightarrow> FileBuffer \<Rightarrow> u64 \<Rightarrow>
    (('t, 'd, 'h) BufferList \<times> FileBuffer \<times> FileBuffer) option" where
  "split E l b offset =
     (let d = sub64 offset (fb_offset b); startBuf = b\<lparr>fb_length := d\<rparr> in do {
        (l, startBuf, b) \<leftarrow>
          (case fb_data b of
             None \<Rightarrow> Some (l, startBuf, b)
           | Some (s, n) \<Rightarrow>
               if d > fb_cap l b \<or> d > n then None
               else do {
                 (l, _) \<leftarrow> add_refs 1 l (fb_ptr b);
                 Some (l, startBuf\<lparr>fb_data := Some (s, d)\<rparr>, b\<lparr>fb_data := Some (s + d, n - d)\<rparr>)
               });
        let (l, b) = (if fb_dirtyID b \<noteq> 0
                      then (let (l, i) = nextID l in (l, b\<lparr>fb_dirtyID := i\<rparr>)) else (l, b));
        let b = b\<lparr>fb_length := sub64 (bend b) offset, fb_offset := offset\<rparr>;
        let l = store E l b;
        (l, startBuf) \<leftarrow>
          requeueSplit E (l\<lparr>bl_at := bt_set (env_at E) (bl_at l) offset startBuf\<rparr>) startBuf;
        Some (l, startBuf, b)
      })"

definition RemoveRange_iter :: "('t, 'd, 'h) bufEnv \<Rightarrow> u64 \<Rightarrow> u64 \<Rightarrow> (FileBuffer \<Rightarrow> bool) \<Rightarrow>
    u64 \<Rightarrow> FileBuffer \<Rightarrow> ('t, 'd, 'h) BufferList \<times> int \<Rightarrow>
    (bool \<times> bool \<times> ('t, 'd, 'h) BufferList \<times> int) option" where
  "RemoveRange_iter E removeOffset endOffset filt end b = (\<lambda>(l, allocated).
     if fb_offset b \<ge> endOffset then Some (False, False, l, allocated)
     else let bufEnd = bend b; bufStart = fb_offset b in
       if filt b \<and> bufEnd > removeOffset \<and> endOffset > fb_offset b then
         if removeOffset \<le> fb_offset b \<and> endOffset \<ge> bufEnd then do {
           (l, a) \<leftarrow> BL_delete E l b;
           Some (True, True, l, allocated + a)
         }
         else do {
           (l, rm) \<leftarrow> (if endOffset < bufEnd
                      then map_option (\<lambda>(l, left, _). (l, left)) (split E l b endOffset)
                      else Some (l, b));
           (l, rm) \<leftarrow> (if removeOffset > bufStart
                      then map_option (\<lambda>(l, _, right). (l, right)) (split E l rm removeOffset)
                      else Some (l, rm));
           if removeOffset > bufStart \<or> endOffset < bufEnd then do {
             (l, a) \<leftarrow> BL_delete E l rm;
             Some (True, True, l, allocated + a)
           }
           else Some (True, False, l, allocated)
         }
       else Some (True, False, l, allocated))"

definition RemoveRange :: "('t, 'd, 'h) bufEnv \<Rightarrow> ('t, 'd, 'h) BufferList \<Rightarrow> u64 \<Rightarrow> u64 \<Rightarrow>
    (FileBuffer \<Rightarrow> bool) \<Rightarrow> (('t, 'd, 'h) BufferList \<times> int) option" where
  "RemoveRange E l removeOffset removeSize filt =
     ascendChange (env_at E) (\<lambda>(l, _). bl_at l) (add64 removeOffset 1)
       (RemoveRange_iter E removeOffset (add64 removeOffset removeSize) filt) (l, 0)"

definition insertOrAppend :: "('t, 'd, 'h) bufEnv \<Rightarrow> u64 \<Rightarrow> nat \<times> nat \<Rightarrow> BufferState \<Rightarrow> bool \<Rightarrow> nat \<Rightarrow>
    ('t, 'd, 'h) BufferList \<Rightarrow> (('t, 'd, 'h) BufferList \<times> int) option" where
  "insertOrAppend E offset = (\<lambda>(s, n) state copyData dataPtr l.
     if n = 0 then Some (l, 0)
     else do {
       dp \<leftarrow> bl_mem l dataPtr;
       let data = take n (drop s (bp_array dp));
       let (l, dirtyID) = (if state = BUF_DIRTY then nextID l else (l, 0));
       let end = add64 offset n;
       let prev = (case bt_desc (env_at E) (bl_at l) end of [] \<Rightarrow> None | (_, b) # _ \<Rightarrow> Some b);
       append \<leftarrow>
         (case prev of
            None \<Rightarrow> Some None
          | Some b \<Rightarrow>
              if bend b = end then None
              else if copyData \<and> bend b = offset then do {
                pn \<leftarrow> PartNum E (fb_offset b);
                on \<leftarrow> PartNum E offset;
                Some (if pn = on \<and> fb_state b = state
                         \<and> (\<exists>a \<in> set_option (fb_ptr b). \<exists>p \<in> set_option (bl_mem l a). bp_refs p = 1)
                         \<and> (fb_len b + n \<le> fb_cap l b \<or> fb_cap l b \<le> MAX_BUF div 2)
                      then Some b else None)
              }
              else Some None);
       (case append of
          Some b \<Rightarrow> do {
            l \<leftarrow> unqueue E l b;
            let l = l\<lparr>bl_at := bt_del (env_at E) (bl_at l) (bend b)\<rparr>;
            (l, b, allocated) \<leftarrow> FileBuffer_Append l b data;
            let b = b\<lparr>fb_onDisk := False, fb_dirtyID := dirtyID\<rparr>;
            l \<leftarrow> queue E (store E l b) b;
            Some (l, allocated)
          }
        | None \<Rightarrow> do {
            let (l, a, s) = (if copyData
                             then (let (l, a) = new_ptr l \<lparr>bp_array = data, bp_len = n, bp_refs = 0\<rparr>
                                   in (l, a, 0))
                             else (l, dataPtr, s));
            (l, _) \<leftarrow> add_refs 1 l (Some a);
            let b = \<lparr>fb_queueId = 0, fb_offset = offset, fb_length = n, fb_state = state,
                     fb_loading = False, fb_onDisk = False, fb_zero = False, fb_dirtyID = dirtyID,
                     fb_data = Some (s, n), fb_ptr = Some a\<rparr>;
            l \<leftarrow> queue E (l\<lparr>bl_at := bt_set (env_at E) (bl_at l) end b\<rparr>) b;
            Some (l, int n)
          })
     })"

definition ZeroRange :: "('t, 'd, 'h) bufEnv \<Rightarrow> ('t, 'd, 'h) BufferList \<Rightarrow> u64 \<Rightarrow> u64 \<Rightarrow>
    (('t, 'd, 'h) BufferList \<times> bool \<times> int) option" where
  "ZeroRange E l offset sz =
     (if sz = 0 then Some (l, False, 0)
      else let existing = (case bt_asc (env_at E) (bl_at l) (add64 offset 1) of
                             [] \<Rightarrow> None | (_, b) # _ \<Rightarrow> Some b) in
        if \<exists>b \<in> set_option existing. fb_zero b \<and> fb_offset b \<le> offset \<and> bend b \<ge> add64 offset sz
        then Some (l, False, 0)
        else do {
          (l, allocated) \<leftarrow> RemoveRange E l offset sz (\<lambda>_. True);
          let (l, i) = nextID l;
          let buf = \<lparr>fb_queueId = 0, fb_offset = offset, fb_length = sz, fb_state = BUF_DIRTY,
                     fb_loading = False, fb_onDisk = False, fb_zero = True, fb_dirtyID = i,
                     fb_data = None, fb_ptr = None\<rparr>;
          l \<leftarrow> queue E (l\<lparr>bl_at := bt_set (env_at E) (bl_at l) (add64 offset sz) buf\<rparr>) buf;
          Some (l, True, allocated)
        })"

text \<open>
  \<open>fill\<close> calls back for every hole of a range.  \<open>fill_skip\<close> is its inner iteration: it moves
  the current offset over the buffers that cover it, and returns the first one beyond.
  Every round of the outer loop moves the offset, so the size of the range is enough fuel.
\<close>

fun fill_skip :: "u64 \<Rightarrow> u64 \<Rightarrow> (u64 \<times> FileBuffer) list \<Rightarrow> u64 \<times> FileBuffer option" where
  "fill_skip endOffset cur [] = (cur, None)"
| "fill_skip endOffset cur ((k, b) # es) =
     (if fb_offset b \<le> cur
      then if bend b < endOffset then fill_skip endOffset (bend b) es else (bend b, None)
      else (cur, Some b))"

fun fill_loop :: "nat \<Rightarrow> ('t, 'd, 'h) bufEnv \<Rightarrow> (u64 \<Rightarrow> u64 \<Rightarrow> ('t, 'd, 'h) BufferList \<times> 'a \<Rightarrow>
    (('t, 'd, 'h) BufferList \<times> 'a) option) \<Rightarrow> u64 \<Rightarrow> u64 \<Rightarrow>
    ('t, 'd, 'h) BufferList \<times> 'a \<Rightarrow> (('t, 'd, 'h) BufferList \<times> 'a) option" where
  "fill_loop n E cb endOffset cur s =
     (if cur < endOffset then
        (case n of 0 \<Rightarrow> None
         | Suc n' \<Rightarrow>
           (let (cur, nxt) = fill_skip endOffset cur (bt_asc (env_at E) (bl_at (fst s)) (add64 cur 1)) in
            if cur < endOffset then
              (let newEnd = (case nxt of None \<Rightarrow> endOffset
                             | Some b \<Rightarrow> if fb_offset b < endOffset then fb_offset b else endOffset)
               in do { s \<leftarrow> cb cur newEnd s; fill_loop n' E cb endOffset newEnd s })
            else fill_loop n' E cb endOffset cur s))
      else Some s)"

declare fill_loop.simps [simp del]

definition fill where
  "fill E cb offset sz s = fill_loop (Suc sz) E cb (add64 offset sz) offset s"

definition Add :: "('t, 'd, 'h) bufEnv \<Rightarrow> ('t, 'd, 'h) BufferList \<Rightarrow> u64 \<Rightarrow> byte list \<Rightarrow> byte list \<Rightarrow>
    BufferState \<Rightarrow> bool \<Rightarrow> (('t, 'd, 'h) BufferList \<times> int) option" where
  "Add E l offset data slack state copyData = do {
     (l, allocated) \<leftarrow> RemoveRange E l offset (length data)
                        (\<lambda>b. fb_state b = BUF_CLEAN \<or> state \<noteq> BUF_CLEAN);
     let (l, dataPtr) = new_ptr l \<lparr>bp_array = data @ slack, bp_len = length data, bp_refs = 0\<rparr>;
     fill E (\<lambda>curOffset curEnd (l, allocated). do {
         (l, a) \<leftarrow> insertOrAppend E curOffset
                    (sub64 curOffset offset, sub64 curEnd offset - sub64 curOffset offset)
                    state copyData dataPtr l;
         Some (l, allocated + a)
       }) offset (length data) (l, allocated)
   }"

definition loading_buffer :: "u64 \<Rightarrow> u64 \<Rightarrow> FileBuffer" where
  "loading_buffer offset len =
     \<lparr>fb_queueId = 0, fb_offset = offset, fb_length = len, fb_state = BUF_CLEAN, fb_loading = True,
      fb_onDisk = False, fb_zero = False, fb_dirtyID = 0, fb_data = None, fb_ptr = None\<rparr>"

definition AddLoading :: "('t, 'd, 'h) bufEnv \<Rightarrow> ('t, 'd, 'h) BufferList \<Rightarrow> u64 \<Rightarrow> u64 \<Rightarrow>
    ('t, 'd, 'h) BufferList option" where
  "AddLoading E l offset sz =
     map_option fst (fill E (\<lambda>curOffset curEnd (l, _).
         let b = loading_buffer curOffset (sub64 curEnd curOffset) in do {
           l \<leftarrow> queue E (l\<lparr>bl_at := bt_set (env_at E) (bl_at l) curEnd b\<rparr>) b;
           Some (l, ())
         }) offset sz (l, ()))"

type_synonym Range = "u64 \<times> u64"

definition AddLoadingFromDisk_iter :: "('t, 'd, 'h) bufEnv \<Rightarrow> u64 \<Rightarrow> u64 \<Rightarrow>
    u64 \<Rightarrow> FileBuffer \<Rightarrow> ('t, 'd, 'h) BufferList \<times> Range list \<Rightarrow>
    (bool \<times> bool \<times> ('t, 'd, 'h) BufferList \<times> Range list) option" where
  "AddLoadingFromDisk_iter E offset endOffset end b = (\<lambda>(l, readRanges).
     if fb_offset b \<ge> endOffset then Some (False, False, l, readRanges)
     else if fb_data b = None \<and> fb_onDisk b \<and> \<not> fb_loading b then do {
       (l, b, c1) \<leftarrow> (if fb_offset b < offset
                     then map_option (\<lambda>(l, _, right). (l, right, True)) (split E l b offset)
                     else Some (l, b, False));
       (l, b, c2) \<leftarrow> (if bend b > endOffset
                     then map_option (\<lambda>(l, left, _). (l, left, True)) (split E l b endOffset)
                     else Some (l, b, c1));
       Some (True, c2, store E l (b\<lparr>fb_loading := True\<rparr>), readRanges @ [(fb_offset b, bend b)])
     }
     else Some (True, False, l, readRanges))"

definition AddLoadingFromDisk :: "('t, 'd, 'h) bufEnv \<Rightarrow> ('t, 'd, 'h) BufferList \<Rightarrow> u64 \<Rightarrow> u64 \<Rightarrow>
    (('t, 'd, 'h) BufferList \<times> Range list) option" where
  "AddLoadingFromDisk E l offset sz =
     ascendChange (env_at E) (\<lambda>(l, _). bl_at l) (add64 offset 1)
       (AddLoadingFromDisk_iter E offset (add64 offset sz)) (l, [])"

definition ReviveFromDisk :: "('t, 'd, 'h) bufEnv \<Rightarrow> ('t, 'd, 'h) BufferList \<Rightarrow> u64 \<Rightarrow> byte list \<Rightarrow>
    ('t, 'd, 'h) BufferList option" where
  "ReviveFromDisk E l offset data =
     (case bt_asc (env_at E) (bl_at l) (add64 offset 1) of
        [] \<Rightarrow> Some l
      | (_, b) # _ \<Rightarrow>
          if fb_offset b = offset \<and> fb_length b = length data \<and> fb_loading b \<and> fb_onDisk b then
            (let (l, a) = new_ptr l \<lparr>bp_array = data, bp_len = length data, bp_refs = 1\<rparr>;
                 b = b\<lparr>fb_data := Some (0, length data), fb_ptr := Some a, fb_loading := False\<rparr>;
                 l = store E l b
             in if fb_state b = BUF_FL_CLEARED
                then retag E (\<lambda>b. b\<lparr>fb_state := BUF_FLUSHED_FULL\<rparr>) b l
                else Some l)
          else Some l)"

definition RemoveLoading :: "('t, 'd, 'h) bufEnv \<Rightarrow> ('t, 'd, 'h) BufferList \<Rightarrow> u64 \<Rightarrow> u64 \<Rightarrow>
    ('t, 'd, 'h) BufferList option" where
  "RemoveLoading E l offset sz =
     map_option fst (RemoveRange E l offset sz (\<lambda>b. \<not> fb_onDisk b \<and> fb_loading b))"

definition SplitAt :: "('t, 'd, 'h) bufEnv \<Rightarrow> ('t, 'd, 'h) BufferList \<Rightarrow> u64 \<Rightarrow>
    ('t, 'd, 'h) BufferList option" where
  "SplitAt E l offset =
     (case bt_asc (env_at E) (bl_at l) (add64 offset 1) of
        [] \<Rightarrow> Some l
      | (_, b) # _ \<Rightarrow> if fb_offset b < offset then map_option fst (split E l b offset) else Some l)"

definition EvictFromMemory :: "('t, 'd, 'h) bufEnv \<Rightarrow> ('t, 'd, 'h) BufferList \<Rightarrow> FileBuffer \<Rightarrow>
    (('t, 'd, 'h) BufferList \<times> int \<times> bool) option" where
  "EvictFromMemory E l buf = do {
     (l, allocated) \<leftarrow> release l (fb_ptr buf);
     let buf = buf\<lparr>fb_ptr := None, fb_data := None\<rparr>;
     let l = store E l buf;
     let prev = (case bt_desc (env_at E) (bl_at l) (fb_offset buf) of
                   [] \<Rightarrow> None | (_, b) # _ \<Rightarrow> if bend b = fb_offset buf then Some b else None);
     if fb_onDisk buf then
       (case prev of
          Some p \<Rightarrow>
            if fb_state p = fb_state buf \<and> fb_ptr p = None \<and> fb_onDisk p = fb_onDisk buf then do {
              l \<leftarrow> unqueue E l buf;
              l \<leftarrow> unqueue E l p;
              let l = l\<lparr>bl_at := bt_del (env_at E) (bl_at l) (bend p)\<rparr>;
              let buf = buf\<lparr>fb_length := add64 (fb_length buf) (fb_length p), fb_offset := fb_offset p\<rparr>;
              l \<leftarrow> queue E (store E l buf) buf;
              Some (l, allocated, True)
            }
            else Some (l, allocated, False)
        | None \<Rightarrow> Some (l, allocated, False))
     else if fb_state buf = BUF_CLEAN then do {
       l \<leftarrow> unqueue E l buf;
       Some (l\<lparr>bl_at := bt_del (env_at E) (bl_at l) (bend buf)\<rparr>, allocated, True)
     }
     else if fb_state buf = BUF_FLUSHED_FULL then do {
       l \<leftarrow> unqueue E l buf;
       let buf = buf\<lparr>fb_state := BUF_FL_CLEARED\<rparr>;
       let l = store E l buf;
       (case prev of
          Some p \<Rightarrow>
            if fb_state p = fb_state buf then do {
              l \<leftarrow> unqueue E l p;
              let l = l\<lparr>bl_at := bt_del (env_at E) (bl_at l) (bend p)\<rparr>;
              let buf = buf\<lparr>fb_length := add64 (fb_length buf) (fb_length p), fb_offset := fb_offset p\<rparr>;
              l \<leftarrow> queue E (store E l buf) buf;
              Some (l, allocated, True)
            }
            else do { l \<leftarrow> queue E l buf; Some (l, allocated, False) }
        | None \<Rightarrow> do { l \<leftarrow> queue E l buf; Some (l, allocated, False) })
     }
     else Some (l, allocated, False)
   }"

section \<open>Queries\<close>

definition AnyUnclean :: "('t, 'd, 'h) BufferList \<Rightarrow> bool" where
  "AnyUnclean l = (bl_uncleanCount l > 0)"

fun AnyFlushed_loop :: "u64 \<Rightarrow> (u64 \<times> FileBuffer) list \<Rightarrow> bool" where
  "AnyFlushed_loop endOffset [] = False"
| "AnyFlushed_loop endOffset ((k, b) # es) =
     (if fb_offset b \<ge> endOffset then False
      else if fb_state b \<in> {BUF_FLUSHED_FULL, BUF_FLUSHED_CUT, BUF_FL_CLEARED} then True
      else AnyFlushed_loop endOffset es)"

definition AnyFlushed :: "('t, 'd, 'h) bufEnv \<Rightarrow> ('t, 'd, 'h) BufferList \<Rightarrow> u64 \<Rightarrow> u64 \<Rightarrow> bool" where
  "AnyFlushed E l offset sz =
     AnyFlushed_loop (add64 offset sz) (bt_asc (env_at E) (bl_at l) (add64 offset 1))"

definition zeroBuf_len :: nat where
  "zeroBuf_len = 1048576"

function appendZero :: "byte list list \<Rightarrow> u64 \<Rightarrow> byte list list" where
  "appendZero data zeroLen =
     (if zeroLen > zeroBuf_len
      then appendZero (data @ [replicate zeroBuf_len 0]) (zeroLen - zeroBuf_len)
      else if zeroLen > 0 then data @ [replicate zeroLen 0] else data)"
  by pat_completeness auto
termination by (relation "measure snd") (auto simp: zeroBuf_len_def)

declare appendZero.simps [simp del]

fun GetHoles_loop :: "u64 \<Rightarrow> (u64 \<times> FileBuffer) list \<Rightarrow> u64 \<times> Range list \<times> bool \<times> bool \<Rightarrow>
    u64 \<times> Range list \<times> bool \<times> bool" where
  "GetHoles_loop endOffset [] s = s"
| "GetHoles_loop endOffset ((k, b) # es) (cur, holes, loading, flushCleared) =
     (if fb_offset b \<ge> endOffset then (cur, holes, loading, flushCleared)
      else GetHoles_loop endOffset es
        (bend b, if fb_offset b > cur then holes @ [(cur, min endOffset (fb_offset b))] else holes,
         loading \<or> fb_loading b, flushCleared \<or> fb_state b = BUF_FL_CLEARED))"

definition GetHoles :: "('t, 'd, 'h) bufEnv \<Rightarrow> ('t, 'd, 'h) BufferList \<Rightarrow> u64 \<Rightarrow> u64 \<Rightarrow>
    Range list \<times> bool \<times> bool" where
  "GetHoles E l offset sz =
     (let endOffset = add64 offset sz;
          (cur, holes, loading, flushCleared) =
            GetHoles_loop endOffset (bt_asc (env_at E) (bl_at l) (add64 offset 1)) (offset, [], False, False)
      in (if cur < endOffset then holes @ [(cur, endOffset)] else holes, loading, flushCleared))"

datatype bufErr = ErrBufferIsMissing | ErrBufferIsLoading

text \<open>\<open>b.data[lo:hi]\<close>: a slice may extend to the capacity; beyond it Go panics.\<close>

definition subslice :: "('t, 'd, 'h) BufferList \<Rightarrow> FileBuffer \<Rightarrow> nat \<Rightarrow> nat \<Rightarrow> byte list option" where
  "subslice l b lo hi =
     (if lo \<le> hi \<and> hi \<le> fb_cap l b then
        (case (fb_data b, fb_ptr b) of
           (Some (s, n), Some a) \<Rightarrow>
             (case bl_mem l a of None \<Rightarrow> Some []
              | Some p \<Rightarrow> Some (take (hi - lo) (drop (s + lo) (bp_array p))))
         | _ \<Rightarrow> Some [])
      else None)"

fun GetData_loop :: "('t, 'd, 'h) BufferList \<Rightarrow> bool \<Rightarrow> u64 \<Rightarrow> (u64 \<times> FileBuffer) list \<Rightarrow>
    u64 \<times> byte list list \<times> nat set \<Rightarrow> (u64 \<times> byte list list \<times> nat set \<times> bufErr option) option" where
  "GetData_loop l returnIds endOffset [] (cur, data, ids) = Some (cur, data, ids, None)"
| "GetData_loop l returnIds endOffset ((k, b) # es) (cur, data, ids) =
     (if fb_offset b > cur then Some (cur, [], ids, Some ErrBufferIsMissing)
      else if fb_offset b \<ge> endOffset then Some (cur, data, ids, None)
      else
        let curEnd = min endOffset (bend b);
            ids = (if returnIds \<and> fb_dirtyID b \<noteq> 0 then insert (fb_dirtyID b) ids else ids)
        in if fb_loading b then Some (cur, [], ids, Some ErrBufferIsLoading)
           else do {
             data \<leftarrow> (if fb_zero b then Some (appendZero data (sub64 curEnd cur))
                     else map_option (\<lambda>d. data @ [d])
                            (subslice l b (sub64 cur (fb_offset b)) (sub64 curEnd (fb_offset b))));
             if curEnd < endOffset then GetData_loop l returnIds endOffset es (curEnd, data, ids)
             else Some (curEnd, data, ids, None)
           })"

definition GetData :: "('t, 'd, 'h) bufEnv \<Rightarrow> ('t, 'd, 'h) BufferList \<Rightarrow> u64 \<Rightarrow> u64 \<Rightarrow> bool \<Rightarrow>
    (byte list list \<times> nat set \<times> bufErr option) option" where
  "GetData E l offset sz returnIds = do {
     let endOffset = add64 offset sz;
     (cur, data, ids, err) \<leftarrow> GetData_loop l returnIds endOffset
        (bt_asc (env_at E) (bl_at l) (add64 offset 1)) (offset, [], {});
     Some (if err = None \<and> cur < endOffset then ([], ids, Some ErrBufferIsMissing)
           else (data, ids, err))
   }"

end
