(* ===== verification/Buffer_List_Inv.thy ===== *)
theory Buffer_List_Inv
  imports Buffer_List
begin

text \<open>
  The invariant of a buffer list and the contract of its environment.  The invariant has
  a part about the ranges (\<open>shape\<close>), one about the memory behind the buffers (\<open>mem_ok\<close>) and
  one about the counters and queues (\<open>acct\<close>).  The last is stated relative to a map of the
  buffers that are counted, so that it also describes the states between \<open>unqueue\<close> and
  \<open>queue\<close>.  The locale \<open>buffer_env\<close> is the interface of the list to its tree and to
  \<open>BufferListHelpers\<close>.
\<close>

section \<open>Invariant\<close>

type_synonym bufMap = "u64 \<Rightarrow> FileBuffer option"

definition bufs :: "('t, 'd, 'h) bufEnv \<Rightarrow> ('t, 'd, 'h) BufferList \<Rightarrow> bufMap" where
  "bufs E l = bt_get (env_at E) (bl_at l)"

definition shape :: "u64 \<Rightarrow> bufMap \<Rightarrow> bool" where
  "shape M A \<longleftrightarrow>
     (\<forall>e b. A e = Some b \<longrightarrow> 0 < fb_length b \<and> fb_offset b + fb_length b = e \<and> e \<le> M) \<and>
     (\<forall>e b e' b'. A e = Some b \<longrightarrow> A e' = Some b' \<longrightarrow> e < e' \<longrightarrow> e \<le> fb_offset b')"

definition buf_mem_ok :: "('t, 'd, 'h) BufferList \<Rightarrow> FileBuffer \<Rightarrow> bool" where
  "buf_mem_ok l b \<longleftrightarrow>
     (case fb_data b of
        None \<Rightarrow> fb_ptr b = None \<and> (fb_zero b \<longrightarrow> \<not> fb_onDisk b \<and> \<not> fb_loading b)
      | Some (s, n) \<Rightarrow> n = fb_length b \<and> \<not> fb_zero b \<and> \<not> fb_loading b \<and> fb_state b \<noteq> BUF_FL_CLEARED \<and>
          (\<exists>a p. fb_ptr b = Some a \<and> bl_mem l a = Some p \<and> s + n \<le> length (bp_array p)))"

definition holders :: "bufMap \<Rightarrow> nat \<Rightarrow> u64 set" where
  "holders A a = {e. \<exists>b. A e = Some b \<and> fb_ptr b = Some a}"

definition mem_ok :: "('t, 'd, 'h) BufferList \<Rightarrow> bufMap \<Rightarrow> bool" where
  "mem_ok l A \<longleftrightarrow>
     (\<forall>e b. A e = Some b \<longrightarrow> buf_mem_ok l b) \<and>
     (\<forall>a p. bl_mem l a = Some p \<longrightarrow> bp_refs p = int (card (holders A a)) \<and> a < bl_nextPtr l)"

text \<open>Every part of \<open>dirtyParts\<close> is queued under its own identifier, and nothing else is.\<close>

definition pcount :: "('t, 'd, 'h) bufEnv \<Rightarrow> ('t, 'd, 'h) BufferList \<Rightarrow> (u64 \<Rightarrow> nat) \<Rightarrow> bool" where
  "pcount E l c \<longleftrightarrow>
     (\<forall>i. bl_dirtyParts l i = None \<longrightarrow> c i = 0) \<and>
     (\<forall>i p. bl_dirtyParts l i = Some p \<longrightarrow>
        dp_refcnt p = int (c i) \<and> 0 < c i \<and> dp_partNum p = i \<and> dp_queueId p \<le> bl_dirtyQid l \<and>
        bt_get (env_dq E) (bl_dirtyQueue l) (dp_queueId p) = Some i) \<and>
     (\<forall>q i. bt_get (env_dq E) (bl_dirtyQueue l) q = Some i \<longrightarrow>
        (\<exists>p. bl_dirtyParts l i = Some p \<and> dp_queueId p = q))"

definition buf_parts :: "('t, 'd, 'h) bufEnv \<Rightarrow> FileBuffer \<Rightarrow> u64 set" where
  "buf_parts E b =
     (case (PartNum E (fb_offset b), PartNum E (bend b - 1)) of
        (Some sp, Some ep) \<Rightarrow> {sp..ep} | _ \<Rightarrow> {})"

definition dirty_set :: "('t, 'd, 'h) bufEnv \<Rightarrow> bufMap \<Rightarrow> u64 \<Rightarrow> u64 set" where
  "dirty_set E A i = {e. \<exists>b. A e = Some b \<and> fb_state b = BUF_DIRTY \<and> i \<in> buf_parts E b}"

definition unclean_set :: "bufMap \<Rightarrow> u64 set" where
  "unclean_set A = {e. \<exists>b. A e = Some b \<and> fb_state b \<noteq> BUF_CLEAN}"

definition clean_queued :: "FileBuffer \<Rightarrow> bool" where
  "clean_queued b \<longleftrightarrow> fb_state b = BUF_CLEAN \<or> fb_state b = BUF_FLUSHED_FULL"

definition qid_at :: "bufMap \<Rightarrow> u64 \<Rightarrow> nat option" where
  "qid_at A e = (case A e of None \<Rightarrow> None | Some b \<Rightarrow> if clean_queued b then Some (fb_queueId b) else None)"

text \<open>The queue of clean buffers maps queue identifiers to buffer ends; it is the inverse of
  the identifiers the buffers hold.\<close>

definition clean_ok :: "(nat \<Rightarrow> u64 option) \<Rightarrow> (u64 \<Rightarrow> nat option) \<Rightarrow> bool" where
  "clean_ok C Q \<longleftrightarrow> (\<forall>q e. C q = Some e \<longleftrightarrow> Q e = Some q)"

lemma qid_at_simps [simp]:
  "qid_at (A(e := None)) = (qid_at A)(e := None)"
  "qid_at (A(e \<mapsto> b)) = (qid_at A)(e := (if clean_queued b then Some (fb_queueId b) else None))"
  by (auto simp: qid_at_def fun_eq_iff)

lemma clean_ok_inj: "clean_ok C Q \<Longrightarrow> Q e = Some q \<Longrightarrow> Q e' = Some q \<Longrightarrow> e = e'"
  unfolding clean_ok_def by (metis option.inject)

lemma clean_ok_del:
  assumes "clean_ok C Q" "Q e = Some q"
  shows "clean_ok (C(q := None)) (Q(e := None))"
  unfolding clean_ok_def
proof (intro allI)
  fix q' e'
  have "C q' = Some e' \<longleftrightarrow> Q e' = Some q'" using assms(1) by (simp add: clean_ok_def)
  moreover have "Q e' \<noteq> Some q" if "e' \<noteq> e" using clean_ok_inj [OF assms] that by blast
  ultimately show "(C(q := None)) q' = Some e' \<longleftrightarrow> (Q(e := None)) e' = Some q'"
    using assms(2) by (cases "e' = e"; cases "q' = q") simp_all
qed

lemma clean_ok_add:
  assumes "clean_ok C Q" "C q = None" "Q e = None"
  shows "clean_ok (C(q \<mapsto> e)) (Q(e \<mapsto> q))"
proof -
  have "Q e' \<noteq> Some q" for e' using assms unfolding clean_ok_def by (metis option.distinct(1))
  then show ?thesis using assms unfolding clean_ok_def by auto
qed

declare upt_Suc [simp del]

lemma set_upt_Suc [simp]: "set [a..<Suc b] = {a..b}"
  by auto

lemma shapeD:
  assumes "shape M A" "A e = Some b"
  shows "0 < fb_length b" "fb_offset b + fb_length b = e" "e \<le> M" "fb_offset b < e"
proof -
  show 1: "0 < fb_length b" and 2: "fb_offset b + fb_length b = e" and "e \<le> M"
    using assms unfolding shape_def by blast+
  from 1 2 show "fb_offset b < e" by linarith
qed

lemma shape_disj:
  assumes "shape M A" "A e = Some b" "A e' = Some b'" "e < e'"
  shows "e \<le> fb_offset b'"
  using assms by (auto simp: shape_def)

lemma shape_upd:
  assumes "shape M A" "0 < fb_length b" "fb_offset b + fb_length b = e" "e \<le> M"
    and "\<And>e' b'. A e' = Some b' \<Longrightarrow> e' \<noteq> e \<Longrightarrow> e' \<le> fb_offset b \<or> e \<le> fb_offset b'"
  shows "shape M (A(e \<mapsto> b))"
  unfolding shape_def
proof (intro conjI allI impI)
  fix e1 b1 assume "(A(e \<mapsto> b)) e1 = Some b1"
  then show "0 < fb_length b1" "fb_offset b1 + fb_length b1 = e1" "e1 \<le> M"
    using assms(2-4) shapeD [OF assms(1)] by (auto split: if_splits)
next
  fix e1 b1 e2 b2
  assume 1: "(A(e \<mapsto> b)) e1 = Some b1" and 2: "(A(e \<mapsto> b)) e2 = Some b2" and "e1 < e2"
  show "e1 \<le> fb_offset b2"
  proof (cases "e1 = e \<or> e2 = e")
    case True
    then show ?thesis
    proof
      assume "e1 = e"
      with 2 \<open>e1 < e2\<close> have "A e2 = Some b2" "e2 \<noteq> e" by auto
      moreover from this have "e2 \<le> fb_offset b \<or> e \<le> fb_offset b2" by (rule assms(5))
      ultimately show ?thesis using \<open>e1 = e\<close> \<open>e1 < e2\<close> assms(3) by linarith
    next
      assume "e2 = e"
      with 1 2 \<open>e1 < e2\<close> have A1: "A e1 = Some b1" "e1 \<noteq> e" "b2 = b" by auto
      have "fb_offset b1 < e1" by (rule shapeD(4) [OF assms(1) A1(1)])
      with assms(5) [OF A1(1,2)] \<open>e2 = e\<close> \<open>e1 < e2\<close> have "e1 \<le> fb_offset b" by linarith
      with A1(3) show ?thesis by simp
    qed
  next
    case False
    with 1 2 \<open>e1 < e2\<close> show ?thesis using shape_disj [OF assms(1)] by auto
  qed
qed

lemma shape_del: "shape M A \<Longrightarrow> shape M (A(e := None))"
  unfolding shape_def by (auto split: if_splits)

lemma shape_same:
  assumes "shape M A" "A e = Some b" "fb_offset b' = fb_offset b" "fb_length b' = fb_length b"
  shows "shape M (A(e \<mapsto> b'))"
proof (rule shape_upd [OF assms(1)])
  show "0 < fb_length b'" "fb_offset b' + fb_length b' = e" "e \<le> M"
    using shapeD [OF assms(1,2)] assms by auto
  show "e' \<le> fb_offset b' \<or> e \<le> fb_offset b1" if "A e' = Some b1" "e' \<noteq> e" for e' b1
    using shape_disj [OF assms(1)] assms(2,3) that by (metis linorder_neqE_nat)
qed

section \<open>Dirty parts\<close>

lemma pcountD:
  assumes "pcount E l c"
  shows "bl_dirtyParts l i = None \<Longrightarrow> c i = 0"
    and "bl_dirtyParts l i = Some p \<Longrightarrow> dp_refcnt p = int (c i) \<and> 0 < c i \<and> dp_partNum p = i \<and>
           dp_queueId p \<le> bl_dirtyQid l \<and> bt_get (env_dq E) (bl_dirtyQueue l) (dp_queueId p) = Some i"
    and "bt_get (env_dq E) (bl_dirtyQueue l) q = Some i \<Longrightarrow>
           \<exists>p. bl_dirtyParts l i = Some p \<and> dp_queueId p = q"
  using assms unfolding pcount_def by blast+

lemma pcount_inj:
  assumes "pcount E l c" "bl_dirtyParts l i = Some p" "bl_dirtyParts l j = Some p'" "i \<noteq> j"
  shows "dp_queueId p \<noteq> dp_queueId p'"
  using pcountD(2) [OF assms(1,2)] pcountD(2) [OF assms(1,3)] assms(4) by auto

lemma pcount_le:
  assumes "pcount E l c" "bt_get (env_dq E) (bl_dirtyQueue l) q = Some i"
  shows "q \<le> bl_dirtyQid l"
  using pcountD(3) [OF assms] pcountD(2) [OF assms(1)] by blast

definition parts_only :: "('t, 'd, 'h) BufferList \<Rightarrow> ('t, 'd, 'h) BufferList \<Rightarrow> bool" where
  "parts_only l l' \<longleftrightarrow> l' = l\<lparr>bl_dirtyQueue := bl_dirtyQueue l', bl_dirtyParts := bl_dirtyParts l',
     bl_dirtyQid := bl_dirtyQid l'\<rparr>"

lemma parts_only_refl: "parts_only l l"
  by (simp add: parts_only_def)

lemma parts_only_trans: "parts_only l l' \<Longrightarrow> parts_only l' l'' \<Longrightarrow> parts_only l l''"
  by (cases l; cases l'; cases l'') (simp add: parts_only_def)

lemma parts_only_reference: "parts_only l (referenceDirtyPart E i l)"
  by (cases l) (auto simp: parts_only_def referenceDirtyPart_def Let_def split: option.split)

lemma parts_only_references: "parts_only l (fold (referenceDirtyPart E) is l)"
proof (induction "is" arbitrary: l)
  case (Cons i "is")
  then show ?case using parts_only_trans parts_only_reference by fastforce
qed (simp add: parts_only_refl)

locale dirty_queue = dq: btree_map "env_dq E" for E :: "('t, 'd, 'h) bufEnv"
begin

lemma pcount_reference:
  assumes pc: "pcount E l c"
  shows "pcount E (referenceDirtyPart E i l) (c(i := Suc (c i)))"
proof -
  note D = pcountD [OF pc]
  have le: "bt_get (env_dq E) (bl_dirtyQueue l) q = Some j \<Longrightarrow> q \<le> bl_dirtyQid l" for q j
    by (rule pcount_le [OF pc])
  show ?thesis
  proof (cases "bl_dirtyParts l i")
    case None
    have "bt_get (env_dq E) (bl_dirtyQueue l) q \<noteq> Some i" for q using D(3) [of q i] None by auto
    with D None le show ?thesis
      unfolding pcount_def referenceDirtyPart_def Let_def by (auto split: if_splits) fastforce+
  next
    case (Some p)
    have "bl_dirtyParts l j = Some p' \<Longrightarrow> j \<noteq> i \<Longrightarrow> dp_queueId p' \<noteq> dp_queueId p" for j p'
      by (rule pcount_inj [OF pc _ Some])
    with D Some le show ?thesis
      unfolding pcount_def referenceDirtyPart_def Let_def by (auto split: if_splits) fastforce+
  qed
qed

lemma pcount_references:
  assumes "pcount E l c" "distinct is"
  shows "pcount E (fold (referenceDirtyPart E) is l) (\<lambda>i. c i + (if i \<in> set is then 1 else 0))"
  using assms
proof (induction "is" arbitrary: l c)
  case (Cons i "is")
  have "pcount E (fold (referenceDirtyPart E) is (referenceDirtyPart E i l))
      (\<lambda>j. (c(i := Suc (c i))) j + (if j \<in> set is then 1 else 0))"
    by (rule Cons.IH [OF pcount_reference [OF Cons.prems(1)]]) (use Cons.prems(2) in simp)
  moreover have "(\<lambda>j. (c(i := Suc (c i))) j + (if j \<in> set is then 1 else 0)) =
      (\<lambda>j. c j + (if j \<in> set (i # is) then 1 else 0))"
    using Cons.prems(2) by auto
  ultimately show ?case by simp
qed simp

lemma pcount_unref1:
  assumes pc: "pcount E l c" and ci: "0 < c i"
  obtains l1 where "pcount E l1 (c(i := c i - 1))" "parts_only l l1"
    "\<And>is. unref_parts E (i # is) l = unref_parts E is l1"
proof -
  note D = pcountD [OF pc]
  from D(1) [of i] ci obtain p where p: "bl_dirtyParts l i = Some p" by fastforce
  have ref: "dp_refcnt p = int (c i)" using D(2) [OF p] by simp
  have inj: "bl_dirtyParts l j = Some p' \<Longrightarrow> j \<noteq> i \<Longrightarrow> dp_queueId p' \<noteq> dp_queueId p" for j p'
    by (rule pcount_inj [OF pc _ p])
  define l1 where "l1 = (if dp_refcnt p - 1 = 0
     then l\<lparr>bl_dirtyQueue := bt_del (env_dq E) (bl_dirtyQueue l) (dp_queueId p),
            bl_dirtyParts := (bl_dirtyParts l)(i := None)\<rparr>
     else l\<lparr>bl_dirtyParts := (bl_dirtyParts l)(i \<mapsto> p\<lparr>dp_refcnt := dp_refcnt p - 1\<rparr>)\<rparr>)"
  show ?thesis
  proof
    show "pcount E l1 (c(i := c i - 1))"
      using D p ref ci inj unfolding pcount_def l1_def by (auto split: if_splits) fastforce+
    show "parts_only l l1" by (simp add: parts_only_def l1_def)
    show "unref_parts E (i # is) l = unref_parts E is l1" for "is"
      using p ref ci by (simp add: l1_def)
  qed
qed

lemma pcount_unref:
  assumes "pcount E l c" "distinct is" "\<forall>i\<in>set is. 0 < c i"
  shows "\<exists>l'. unref_parts E is l = Some l' \<and> parts_only l l' \<and>
    pcount E l' (\<lambda>i. c i - (if i \<in> set is then 1 else 0))"
  using assms
proof (induction "is" arbitrary: l c)
  case Nil
  then show ?case by (simp add: parts_only_refl)
next
  case (Cons i "is")
  have "0 < c i" using Cons.prems(3) by simp
  with Cons.prems(1) obtain l1 where l1: "pcount E l1 (c(i := c i - 1))" "parts_only l l1"
    "\<And>is. unref_parts E (i # is) l = unref_parts E is l1" by (rule pcount_unref1) blast
  have "\<forall>j\<in>set is. 0 < (c(i := c i - 1)) j" using Cons.prems by auto
  then obtain l' where l': "unref_parts E is l1 = Some l'" "parts_only l1 l'"
    "pcount E l' (\<lambda>j. (c(i := c i - 1)) j - (if j \<in> set is then 1 else 0))"
    using Cons.IH [OF l1(1)] Cons.prems(2) by auto
  have "(\<lambda>j. (c(i := c i - 1)) j - (if j \<in> set is then 1 else 0)) =
      (\<lambda>j. c j - (if j \<in> set (i # is) then 1 else 0))"
    using Cons.prems(2) by auto
  with l' l1(2,3) show ?case using parts_only_trans by auto
qed

end

section \<open>Counters and queues\<close>

definition acct :: "('t, 'd, 'h) bufEnv \<Rightarrow> ('h \<Rightarrow> bool) \<Rightarrow> ('h \<Rightarrow> nat \<Rightarrow> u64 option) \<Rightarrow>
    ('t, 'd, 'h) BufferList \<Rightarrow> bufMap \<Rightarrow> bool" where
  "acct E hinv cv l A \<longleftrightarrow>
     finite (dom A) \<and> bl_uncleanCount l = int (card (unclean_set A)) \<and>
     pcount E l (\<lambda>i. card (dirty_set E A i)) \<and>
     hinv (bl_helpers l) \<and> clean_ok (cv (bl_helpers l)) (qid_at A)"

lemma acct_cong:
  assumes "acct E hinv cv l A" "bl_uncleanCount l' = bl_uncleanCount l"
    "bl_dirtyParts l' = bl_dirtyParts l" "bl_dirtyQueue l' = bl_dirtyQueue l"
    "bl_dirtyQid l' = bl_dirtyQid l" "bl_helpers l' = bl_helpers l"
  shows "acct E hinv cv l' A"
  using assms unfolding acct_def pcount_def by simp

lemma finite_counted:
  assumes "finite (dom A)"
  shows "finite (unclean_set A)" "finite (dirty_set E A i)" "finite (holders A a)"
  by (auto intro: finite_subset [OF _ assms] simp: unclean_set_def dirty_set_def holders_def)

lemma counted_del:
  "unclean_set (A(e := None)) = unclean_set A - {e}"
  "dirty_set E (A(e := None)) i = dirty_set E A i - {e}"
  "holders (A(e := None)) a = holders A a - {e}"
  by (auto simp: unclean_set_def dirty_set_def holders_def)

lemma counted_upd:
  "unclean_set (A(e \<mapsto> b)) =
     (if fb_state b \<noteq> BUF_CLEAN then insert e (unclean_set A) else unclean_set A - {e})"
  "dirty_set E (A(e \<mapsto> b)) i =
     (if fb_state b = BUF_DIRTY \<and> i \<in> buf_parts E b then insert e (dirty_set E A i)
      else dirty_set E A i - {e})"
  "holders (A(e \<mapsto> b)) a =
     (if fb_ptr b = Some a then insert e (holders A a) else holders A a - {e})"
  by (auto simp: unclean_set_def dirty_set_def holders_def split: if_splits)

lemma counted_None:
  assumes "A e = None"
  shows "e \<notin> unclean_set A" "e \<notin> dirty_set E A i" "e \<notin> holders A a"
  using assms by (auto simp: unclean_set_def dirty_set_def holders_def)

lemma counted_Some:
  assumes "A e = Some b"
  shows "e \<in> unclean_set A \<longleftrightarrow> fb_state b \<noteq> BUF_CLEAN"
    "e \<in> dirty_set E A i \<longleftrightarrow> fb_state b = BUF_DIRTY \<and> i \<in> buf_parts E b"
    "e \<in> holders A a \<longleftrightarrow> fb_ptr b = Some a"
  using assms by (auto simp: unclean_set_def dirty_set_def holders_def)

lemma acct_same:
  assumes "acct E hinv cv l A" "A e = Some b" "fb_state b' = fb_state b"
    "fb_queueId b' = fb_queueId b" "fb_offset b' = fb_offset b" "fb_length b' = fb_length b"
  shows "acct E hinv cv l (A(e \<mapsto> b'))"
proof -
  have "unclean_set (A(e \<mapsto> b')) = unclean_set A"
    using assms by (auto simp: unclean_set_def)
  moreover have "buf_parts E b' = buf_parts E b" using assms by (simp add: buf_parts_def bend_def)
  then have "dirty_set E (A(e \<mapsto> b')) i = dirty_set E A i" for i
    unfolding counted_upd(2) using counted_Some(2) [where A = A and E = E and i = i, OF assms(2)] assms(3)
    by (simp add: insert_absorb)
  moreover have "qid_at (A(e \<mapsto> b')) = qid_at A"
    using assms by (auto simp: qid_at_def clean_queued_def fun_eq_iff)
  ultimately show ?thesis using assms(1) by (simp add: acct_def)
qed

definition frame :: "('t, 'd, 'h) BufferList \<Rightarrow> ('t, 'd, 'h) BufferList \<Rightarrow> bool" where
  "frame l l' \<longleftrightarrow> bl_mem l' = bl_mem l \<and> bl_nextPtr l' = bl_nextPtr l \<and>
     bl_curDirtyID l' = bl_curDirtyID l"

lemma parts_onlyD:
  assumes "parts_only l l'"
  shows "bl_at l' = bl_at l" "bl_uncleanCount l' = bl_uncleanCount l"
    "bl_helpers l' = bl_helpers l" "frame l l'"
  using assms by (cases l; cases l'; simp add: parts_only_def frame_def)+

locale buffer_env = at: btree_map "env_at E" + dirty_queue E for E :: "('t, 'd, 'h) bufEnv" +
  fixes M :: u64 and hinv :: "'h \<Rightarrow> bool" and cv :: "'h \<Rightarrow> nat \<Rightarrow> u64 option"
  assumes M_bound: "M < u64_max"
    and PartNum_total: "x < M \<Longrightarrow> \<exists>i. PartNum E x = Some i"
    and PartNum_mono: "x \<le> y \<Longrightarrow> y < u64_max \<Longrightarrow> PartNum E x = Some i \<Longrightarrow> PartNum E y = Some j \<Longrightarrow> i \<le> j"
    and PartNum_step: "Suc x < u64_max \<Longrightarrow> PartNum E x = Some i \<Longrightarrow> PartNum E (Suc x) = Some j \<Longrightarrow> j \<le> Suc i"
    and queue_law: "hinv h \<Longrightarrow> \<exists>q. cv h q = None \<and>
          snd (QueueCleanBuffer E h b) = b\<lparr>fb_queueId := q\<rparr> \<and>
          hinv (fst (QueueCleanBuffer E h b)) \<and>
          cv (fst (QueueCleanBuffer E h b)) = (cv h)(q \<mapsto> bend b)"
    and unqueue_law: "hinv h \<Longrightarrow> cv h (fb_queueId b) \<noteq> None \<Longrightarrow> hinv (UnqueueCleanBuffer E h b) \<and>
          cv (UnqueueCleanBuffer E h b) = (cv h)(fb_queueId b := None)"
begin

lemma bufs_simps [simp]:
  "bufs E (l\<lparr>bl_at := bt_set (env_at E) t k v\<rparr>) = (bt_get (env_at E) t)(k \<mapsto> v)"
  "bufs E (l\<lparr>bl_at := bt_del (env_at E) t k\<rparr>) = (bt_get (env_at E) t)(k := None)"
  "bufs E (store E l b) = (bufs E l)(bend b \<mapsto> b)"
  "bt_get (env_at E) (bl_at l) = bufs E l"
  by (simp_all add: bufs_def store_def)

lemma bufs_cong: "bl_at l' = bl_at l \<Longrightarrow> bufs E l' = bufs E l"
  by (simp add: bufs_def del: bufs_simps)

lemma bend_eq: "fb_offset b + fb_length b = e \<Longrightarrow> e \<le> M \<Longrightarrow> bend b = e"
  using M_bound by (simp add: bend_def u64_simps)

lemma parts_of:
  assumes "0 < fb_length b" "fb_offset b + fb_length b = e" "e \<le> M"
  obtains sp ep where "PartNum E (fb_offset b) = Some sp" "PartNum E (sub64 (bend b) 1) = Some ep"
    "PartNum E (bend b - 1) = Some ep" "buf_parts E b = {sp..ep}" "sp \<le> ep"
proof -
  have e: "bend b = e" using assms by (simp add: bend_eq)
  have "sub64 e 1 = e - 1" using assms M_bound by (simp add: u64_simps)
  moreover obtain sp where "PartNum E (fb_offset b) = Some sp"
    using PartNum_total [of "fb_offset b"] assms by auto
  moreover obtain ep where "PartNum E (e - 1) = Some ep" using PartNum_total [of "e - 1"] assms by fastforce
  moreover have "sp \<le> ep" by (rule PartNum_mono [of "fb_offset b" "e - 1"]) (use calculation assms M_bound in auto)
  ultimately show ?thesis using e by (intro that) (auto simp: buf_parts_def)
qed

lemma unqueue_acct:
  assumes ac: "acct E hinv cv l A" and A: "A e = Some b"
    and b: "0 < fb_length b" "fb_offset b + fb_length b = e" "e \<le> M"
  shows "\<exists>l'. unqueue E l b = Some l' \<and> acct E hinv cv l' (A(e := None)) \<and>
    bl_at l' = bl_at l \<and> frame l l'"
proof -
  have fin: "finite (dom A)" and pc: "pcount E l (\<lambda>i. card (dirty_set E A i))"
    and cl: "clean_ok (cv (bl_helpers l)) (qid_at A)" and hi: "hinv (bl_helpers l)"
    using ac by (simp_all add: acct_def)
  let ?l = "if fb_state b \<noteq> BUF_CLEAN then l\<lparr>bl_uncleanCount := bl_uncleanCount l - 1\<rparr> else l"
  have un: "bl_uncleanCount ?l = int (card (unclean_set (A(e := None))))"
  proof -
    have n: "bl_uncleanCount l = int (card (unclean_set A))" using ac by (simp add: acct_def)
    have "e \<in> unclean_set A \<longleftrightarrow> fb_state b \<noteq> BUF_CLEAN" by (rule counted_Some(1) [where A = A, OF A])
    with n show ?thesis
      using card_Suc_Diff1 [OF finite_counted(1) [OF fin], of e] unfolding counted_del(1) by auto
  qed
  have dm: "e \<in> dirty_set E A i \<longleftrightarrow> fb_state b = BUF_DIRTY \<and> i \<in> buf_parts E b" for i
    by (rule counted_Some(2) [where A = A, OF A])
  have dirty: "dirty_set E (A(e := None)) i = dirty_set E A i" if "fb_state b \<noteq> BUF_DIRTY" for i
    unfolding counted_del(2) using dm [of i] that by simp
  have fin': "finite (dom (A(e := None)))" using fin by simp
  have same: "clean_ok (cv (bl_helpers l)) (qid_at (A(e := None)))" if "\<not> clean_queued b"
  proof -
    have "(qid_at A)(e := None) = qid_at A" using A that by (auto simp: qid_at_def)
    then show ?thesis using cl by simp
  qed
  consider "fb_state b = BUF_DIRTY" "\<not> clean_queued b" | "clean_queued b" "fb_state b \<noteq> BUF_DIRTY"
    | "fb_state b \<noteq> BUF_DIRTY" "\<not> clean_queued b"
    by (auto simp: clean_queued_def)
  then show ?thesis
  proof cases
    case 1
    from parts_of [OF b] obtain sp ep where pe: "PartNum E (fb_offset b) = Some sp"
      "PartNum E (sub64 (bend b) 1) = Some ep" "buf_parts E b = {sp..ep}" by metis
    let ?c = "\<lambda>i. card (dirty_set E A i)"
    have "0 < ?c i" if "i \<in> {sp..ep}" for i
    proof -
      have "e \<in> dirty_set E A i" using dm [of i] that 1 pe(3) by simp
      then show ?thesis using finite_counted(2) [OF fin, of E i] by (auto simp: card_gt_0_iff)
    qed
    moreover have "pcount E ?l ?c" using pc by (simp add: pcount_def)
    moreover have "distinct [sp..<Suc ep]" by (rule distinct_upt)
    ultimately obtain l' where l': "unref_parts E [sp..<Suc ep] ?l = Some l'" "parts_only ?l l'"
      "pcount E l' (\<lambda>i. ?c i - (if i \<in> {sp..ep} then 1 else 0))"
      using pcount_unref [of ?l ?c "[sp..<Suc ep]"] unfolding set_upt_Suc by blast
    have "?c i - (if i \<in> {sp..ep} then 1 else 0) = card (dirty_set E (A(e := None)) i)" for i
      unfolding counted_del(2) using dm [of i] 1 pe(3) by (auto simp: card_Diff_singleton_if)
    moreover have "unqueue E l b = Some l'" using 1 pe l'(1) by (simp add: unqueue_def)
    moreover have "bl_helpers l' = bl_helpers l" "bl_at l' = bl_at l" "frame l l'"
      "bl_uncleanCount l' = bl_uncleanCount ?l"
      using parts_onlyD [OF l'(2)] by (simp_all add: frame_def split: if_splits)
    ultimately show ?thesis
      using l'(3) un fin' same [OF 1(2)] hi by (simp add: acct_def del: fun_upd_apply)
  next
    case 2
    let ?l' = "?l\<lparr>bl_helpers := UnqueueCleanBuffer E (bl_helpers l) b\<rparr>"
    have qid: "qid_at A e = Some (fb_queueId b)" using A 2 by (simp add: qid_at_def)
    then have queued: "cv (bl_helpers l) (fb_queueId b) \<noteq> None" using cl by (auto simp: clean_ok_def)
    from qid have "clean_ok (cv (UnqueueCleanBuffer E (bl_helpers l) b)) (qid_at (A(e := None)))"
      using clean_ok_del [OF cl] unqueue_law [OF hi queued] by (simp del: fun_upd_apply)
    moreover have "pcount E ?l' (\<lambda>i. card (dirty_set E A i))" using pc by (simp add: pcount_def)
    moreover have "unqueue E l b = Some ?l'" using 2 by (auto simp: unqueue_def clean_queued_def)
    moreover have "bl_uncleanCount ?l' = bl_uncleanCount ?l"
      "bl_helpers ?l' = UnqueueCleanBuffer E (bl_helpers l) b" "bl_at ?l' = bl_at l" "frame l ?l'"
      by (simp_all add: frame_def)
    ultimately show ?thesis
      using un fin' dirty [OF 2(2)] unqueue_law [OF hi queued]
      by (simp add: acct_def del: fun_upd_apply split del: if_split)
  next
    case 3
    have "unqueue E l b = Some ?l" using 3 by (auto simp: unqueue_def clean_queued_def)
    moreover have "pcount E ?l (\<lambda>i. card (dirty_set E A i))" using pc by (simp add: pcount_def)
    moreover have "bl_helpers ?l = bl_helpers l" "bl_at ?l = bl_at l" "frame l ?l"
      by (simp_all add: frame_def)
    ultimately show ?thesis
      using un fin' dirty [OF 3(1)] same [OF 3(2)] hi
      by (simp add: acct_def del: fun_upd_apply split del: if_split)
  qed
qed

lemma parts_qid [simp]: "buf_parts E (b\<lparr>fb_queueId := q\<rparr>) = buf_parts E b" "bend (b\<lparr>fb_queueId := q\<rparr>) = bend b"
  "clean_queued (b\<lparr>fb_queueId := q\<rparr>) = clean_queued b"
  by (simp_all add: buf_parts_def bend_def clean_queued_def)

lemma qid_self [simp]: "b\<lparr>fb_queueId := fb_queueId b\<rparr> = b"
  by (cases b) simp

text \<open>Joining the queue of clean buffers; the counts of the other queues are given.\<close>

lemma queue_clean_acct:
  assumes cl: "clean_ok (cv (bl_helpers l)) (qid_at A)" "hinv (bl_helpers l)"
    and A: "A e = None" and b: "bend b = e" "clean_queued b"
  shows "\<exists>l' q. queue_clean E l b = (l', b\<lparr>fb_queueId := q\<rparr>) \<and> hinv (bl_helpers l') \<and>
    clean_ok (cv (bl_helpers l')) (qid_at (A(e \<mapsto> b\<lparr>fb_queueId := q\<rparr>))) \<and>
    bufs E l' = (bufs E l)(e \<mapsto> b\<lparr>fb_queueId := q\<rparr>) \<and>
    l' = l\<lparr>bl_at := bl_at l', bl_helpers := bl_helpers l'\<rparr>"
proof -
  obtain h' b' where hb: "QueueCleanBuffer E (bl_helpers l) b = (h', b')" by fastforce
  with queue_law [OF cl(2), of b] obtain q where q: "cv (bl_helpers l) q = None"
    "b' = b\<lparr>fb_queueId := q\<rparr>" "hinv h'" "cv h' = (cv (bl_helpers l))(q \<mapsto> bend b)" by auto
  have "qid_at A e = None" using A by (simp add: qid_at_def)
  then have "clean_ok (cv h') (qid_at (A(e \<mapsto> b')))"
    using clean_ok_add [OF cl(1) q(1)] q b by (simp del: fun_upd_apply)
  moreover have "queue_clean E l b = (store E (l\<lparr>bl_helpers := h'\<rparr>) b', b')"
    using hb by (simp add: queue_clean_def)
  ultimately show ?thesis
    using q(2,3) b(1) by (intro exI [of _ "store E (l\<lparr>bl_helpers := h'\<rparr>) b'"] exI [of _ q])
      (simp add: store_def bufs_def del: fun_upd_apply bufs_simps)
qed

lemma queue_acct:
  assumes ac: "acct E hinv cv l A" and A: "A e = None" and at: "bufs E l e = Some b"
    and b: "0 < fb_length b" "fb_offset b + fb_length b = e" "e \<le> M"
  shows "\<exists>l' q. queue E l b = Some l' \<and> acct E hinv cv l' (A(e \<mapsto> b\<lparr>fb_queueId := q\<rparr>)) \<and>
    bufs E l' = (bufs E l)(e \<mapsto> b\<lparr>fb_queueId := q\<rparr>) \<and> frame l l'"
proof -
  have fin: "finite (dom A)" and pc: "pcount E l (\<lambda>i. card (dirty_set E A i))"
    and cl: "clean_ok (cv (bl_helpers l)) (qid_at A)" and hi: "hinv (bl_helpers l)"
    and n: "bl_uncleanCount l = int (card (unclean_set A))"
    using ac by (simp_all add: acct_def)
  let ?l = "if fb_state b \<noteq> BUF_CLEAN then l\<lparr>bl_uncleanCount := bl_uncleanCount l + 1\<rparr> else l"
  have un: "bl_uncleanCount ?l = int (card (unclean_set (A(e \<mapsto> b\<lparr>fb_queueId := q\<rparr>))))" for q
    unfolding counted_upd(1) using n counted_None(1) [where A = A, OF A] finite_counted(1) [OF fin] by simp
  have dirty: "dirty_set E (A(e \<mapsto> b\<lparr>fb_queueId := q\<rparr>)) i =
      (if fb_state b = BUF_DIRTY \<and> i \<in> buf_parts E b then insert e (dirty_set E A i)
       else dirty_set E A i)" for i q
    unfolding counted_upd(2) using counted_None(2) [where A = A and E = E and i = i, OF A] by simp
  have fin': "finite (dom (A(e \<mapsto> b\<lparr>fb_queueId := q\<rparr>)))" for q using fin by simp
  have self: "(bufs E l)(e \<mapsto> b) = bufs E l" using at by auto
  have same: "clean_ok (cv (bl_helpers l)) (qid_at (A(e \<mapsto> b)))" if "\<not> clean_queued b"
  proof -
    have "(qid_at A)(e := None) = qid_at A" using A by (auto simp: qid_at_def)
    then show ?thesis using cl that by simp
  qed
  have l: "bl_helpers ?l = bl_helpers l" "bl_at ?l = bl_at l" "frame l ?l"
    "pcount E ?l (\<lambda>i. card (dirty_set E A i))"
    using pc by (simp_all add: frame_def pcount_def)
  have bu: "bufs E ?l = bufs E l" by (rule bufs_cong) simp
  consider "fb_state b = BUF_DIRTY" "\<not> clean_queued b" | "clean_queued b" "fb_state b \<noteq> BUF_DIRTY"
    | "fb_state b \<noteq> BUF_DIRTY" "\<not> clean_queued b"
    by (auto simp: clean_queued_def)
  then show ?thesis
  proof cases
    case 1
    from parts_of [OF b] obtain sp ep where pe: "PartNum E (fb_offset b) = Some sp"
      "PartNum E (sub64 (bend b) 1) = Some ep" "buf_parts E b = {sp..ep}" by metis
    define l' where "l' = fold (referenceDirtyPart E) [sp..<Suc ep] ?l"
    have "pcount E l' (\<lambda>i. card (dirty_set E A i) + (if i \<in> {sp..ep} then 1 else 0))"
      unfolding l'_def using pcount_references [OF l(4) distinct_upt, of sp "Suc ep"]
      unfolding set_upt_Suc .
    moreover have "card (dirty_set E A i) + (if i \<in> {sp..ep} then 1 else 0) =
        card (dirty_set E (A(e \<mapsto> b)) i)" for i
      using dirty [of "fb_queueId b" i] 1 pe(3) counted_None(2) [where A = A and E = E and i = i, OF A] finite_counted(2) [OF fin, of E i]
      by simp
    moreover have "queue E l b = Some l'" using 1 pe b by (simp add: queue_def l'_def)
    moreover have at': "bl_helpers l' = bl_helpers l" "bl_at l' = bl_at l" "frame l l'"
      "bl_uncleanCount l' = bl_uncleanCount ?l"
      using parts_onlyD [OF parts_only_references [of ?l E "[sp..<Suc ep]"]]
      by (simp_all add: frame_def l'_def split: if_splits)
    moreover have "bufs E l' = bufs E l" by (rule bufs_cong) (rule at'(2))
    ultimately show ?thesis
      using un [of "fb_queueId b"] fin' [of "fb_queueId b"] same [OF 1(2)] hi self
      by (intro exI [of _ l'] exI [of _ "fb_queueId b"])
        (simp add: acct_def del: fun_upd_apply)
  next
    case 2
    have "clean_ok (cv (bl_helpers ?l)) (qid_at A)" "hinv (bl_helpers ?l)" using cl hi by simp_all
    from queue_clean_acct [OF this A bend_eq [OF b(2,3)] 2(1)] obtain l' q
      where l': "queue_clean E ?l b = (l', b\<lparr>fb_queueId := q\<rparr>)" "hinv (bl_helpers l')"
        "clean_ok (cv (bl_helpers l')) (qid_at (A(e \<mapsto> b\<lparr>fb_queueId := q\<rparr>)))"
        "bufs E l' = (bufs E ?l)(e \<mapsto> b\<lparr>fb_queueId := q\<rparr>)"
        "l' = ?l\<lparr>bl_at := bl_at l', bl_helpers := bl_helpers l'\<rparr>" by blast
    have "queue E l b = Some l'" using 2 b l'(1) by (auto simp: queue_def clean_queued_def)
    moreover have "bl_uncleanCount l' = bl_uncleanCount ?l" "frame l l'"
      by (subst l'(5), simp add: frame_def)+
    moreover have "pcount E l' (\<lambda>i. card (dirty_set E A i))"
      by (subst l'(5)) (use l(4) in \<open>simp add: pcount_def\<close>)
    moreover have "dirty_set E (A(e \<mapsto> b\<lparr>fb_queueId := q\<rparr>)) i = dirty_set E A i" for i
      using dirty [of q i] 2(2) by simp
    ultimately show ?thesis
      using un [of q] fin' [of q] l'(2-4) bu
      by (intro exI [of _ l'] exI [of _ q]) (simp add: acct_def del: fun_upd_apply)
  next
    case 3
    have "queue E l b = Some ?l" using 3 b by (auto simp: queue_def clean_queued_def)
    moreover have "dirty_set E (A(e \<mapsto> b)) i = dirty_set E A i" for i
      using dirty [of "fb_queueId b" i] 3(1) by simp
    ultimately show ?thesis
      using un [of "fb_queueId b"] fin' [of "fb_queueId b"] same [OF 3(2)] hi self l bu
      by (intro exI [of _ ?l] exI [of _ "fb_queueId b"])
        (simp add: acct_def del: fun_upd_apply split del: if_split)
  qed
qed

lemma card_upd:
  assumes fin: "finite (dom A)" and A: "A e = None"
  shows "card (unclean_set (A(e \<mapsto> b))) = card (unclean_set A) + (if fb_state b \<noteq> BUF_CLEAN then 1 else 0)"
    "card (dirty_set E (A(e \<mapsto> b)) i) =
       card (dirty_set E A i) + (if fb_state b = BUF_DIRTY \<and> i \<in> buf_parts E b then 1 else 0)"
    "card (holders (A(e \<mapsto> b)) a) = card (holders A a) + (if fb_ptr b = Some a then 1 else 0)"
  unfolding counted_upd
  using counted_None(1) [where A = A, OF A] counted_None(2) [where A = A and E = E and i = i, OF A]
    counted_None(3) [where A = A and a = a, OF A] finite_counted(1) [OF fin]
    finite_counted(2) [OF fin, of E i] finite_counted(3) [OF fin, of a] by auto

lemma split_parts:
  assumes b: "0 < fb_length b" "fb_offset b + fb_length b = e" "e \<le> M"
    and left: "fb_offset lf = fb_offset b" "0 < fb_length lf" "fb_offset lf + fb_length lf = mid" "mid < e"
    and right: "fb_offset r = mid" "mid + fb_length r = e"
  obtains lb rb where "PartNum E (sub64 (bend lf) 1) = Some lb" "PartNum E (bend lf) = Some rb"
    "\<And>i. (if i \<in> buf_parts E r then 1 else 0) + (if i \<in> buf_parts E lf then 1 else 0) =
      (if i \<in> buf_parts E b then 1 else 0 :: nat) + (if i = lb \<and> lb = rb then 1 else 0)"
proof -
  have l3: "0 < fb_length lf" "fb_offset lf + fb_length lf = mid" "mid \<le> M" using left b by auto
  have r3: "0 < fb_length r" "fb_offset r + fb_length r = e" "e \<le> M" using left right b by auto
  from parts_of [OF b] obtain sp ep where bp: "PartNum E (fb_offset b) = Some sp"
    "PartNum E (bend b - 1) = Some ep" "buf_parts E b = {sp..ep}" by metis
  from parts_of [OF l3] obtain sp' lb where lp: "PartNum E (fb_offset lf) = Some sp'"
    "PartNum E (sub64 (bend lf) 1) = Some lb" "PartNum E (bend lf - 1) = Some lb"
    "buf_parts E lf = {sp'..lb}" "sp' \<le> lb" by metis
  from parts_of [OF r3] obtain rb ep' where rp: "PartNum E (fb_offset r) = Some rb"
    "PartNum E (bend r - 1) = Some ep'" "buf_parts E r = {rb..ep'}" "rb \<le> ep'" by metis
  have bends: "bend b = e" "bend lf = mid" "bend r = e"
    using bend_eq [OF b(2,3)] bend_eq [OF l3(2,3)] bend_eq [OF r3(2,3)] by simp_all
  have eq: "sp' = sp" "ep' = ep" using bp lp rp left right bends by simp_all
  have "Suc (mid - 1) = mid" using left by linarith
  then have "rb \<le> Suc lb" using PartNum_step [of "mid - 1" lb rb] lp rp bends right l3(3) M_bound by simp
  moreover have "lb \<le> rb"
    by (rule PartNum_mono [of "mid - 1" mid]) (use lp rp bends right l3(3) M_bound in simp_all)
  ultimately have "(if i \<in> buf_parts E r then 1 else 0) + (if i \<in> buf_parts E lf then 1 else 0) =
      (if i \<in> buf_parts E b then 1 else 0 :: nat) + (if i = lb \<and> lb = rb then 1 else 0)" for i
    using eq bp(3) lp(4,5) rp(3,4) by auto
  with lp(2) rp(1) bends right show ?thesis by (intro that) simp_all
qed

lemma requeueSplit_acct:
  assumes ac: "acct E hinv cv l A" and A: "A e = Some b" and mid: "A mid = None"
    and at: "bufs E l mid = Some lf"
    and b: "0 < fb_length b" "fb_offset b + fb_length b = e" "e \<le> M"
    and left: "fb_offset lf = fb_offset b" "0 < fb_length lf" "fb_offset lf + fb_length lf = mid" "mid < e"
    and right: "fb_offset r = mid" "mid + fb_length r = e"
    and st: "fb_state lf = fb_state b" "fb_state r = fb_state b" "fb_queueId r = fb_queueId b"
  shows "\<exists>l' q. requeueSplit E l lf = Some (l', lf\<lparr>fb_queueId := q\<rparr>) \<and>
    acct E hinv cv l' (A(e \<mapsto> r, mid \<mapsto> lf\<lparr>fb_queueId := q\<rparr>)) \<and>
    bufs E l' = (bufs E l)(mid \<mapsto> lf\<lparr>fb_queueId := q\<rparr>) \<and> frame l l'"
proof -
  have fin: "finite (dom A)" and pc: "pcount E l (\<lambda>i. card (dirty_set E A i))"
    and cl: "clean_ok (cv (bl_helpers l)) (qid_at A)" and hi: "hinv (bl_helpers l)"
    and n: "bl_uncleanCount l = int (card (unclean_set A))"
    using ac by (simp_all add: acct_def)
  let ?l = "if fb_state lf \<noteq> BUF_CLEAN then l\<lparr>bl_uncleanCount := bl_uncleanCount l + 1\<rparr> else l"
  let ?A' = "\<lambda>q. A(e \<mapsto> r, mid \<mapsto> lf\<lparr>fb_queueId := q\<rparr>)"
  define A0 where "A0 = A(e := None)"
  have A0: "A = A0(e \<mapsto> b)" "finite (dom A0)" "A0 e = None" "A(e \<mapsto> r) = A0(e \<mapsto> r)"
    using A fin by (auto simp: A0_def)
  have A1: "finite (dom (A0(e \<mapsto> r)))" "(A0(e \<mapsto> r)) mid = None" using A0 mid left by (auto simp: A0_def)
  have un: "bl_uncleanCount ?l = int (card (unclean_set (?A' q)))" for q
    using n card_upd(1) [OF A0(2,3)] card_upd(1) [OF A1] st unfolding A0(4) by (simp add: A0(1) del: fun_upd_apply)
  have qid: "qid_at (A(e \<mapsto> r)) = qid_at A" using A st by (auto simp: qid_at_def clean_queued_def fun_eq_iff)
  have fin': "finite (dom (?A' q))" for q using fin by simp
  have self: "(bufs E l)(mid \<mapsto> lf) = bufs E l" using at by auto
  have same: "clean_ok (cv (bl_helpers l)) (qid_at (?A' q))" if "\<not> clean_queued lf" for q
  proof -
    have "(qid_at A)(mid := None) = qid_at A" using mid by (auto simp: qid_at_def)
    then show ?thesis using cl that qid by (simp del: fun_upd_apply)
  qed
  have l: "bl_helpers ?l = bl_helpers l" "bl_at ?l = bl_at l" "frame l ?l"
    "pcount E ?l (\<lambda>i. card (dirty_set E A i))"
    using pc by (simp_all add: frame_def pcount_def)
  have bu: "bufs E ?l = bufs E l" by (rule bufs_cong) simp
  have dirty: "card (dirty_set E (?A' q) i) = card (dirty_set E A i)" if "fb_state b \<noteq> BUF_DIRTY" for i q
    using card_upd(2) [OF A0(2,3)] card_upd(2) [OF A1] st that unfolding A0(4) by (simp add: A0(1) del: fun_upd_apply)
  consider "fb_state lf = BUF_DIRTY" "\<not> clean_queued lf" | "clean_queued lf" "fb_state lf \<noteq> BUF_DIRTY"
    | "fb_state lf \<noteq> BUF_DIRTY" "\<not> clean_queued lf"
    by (auto simp: clean_queued_def)
  then show ?thesis
  proof cases
    case 1
    obtain lb rb where lr: "PartNum E (sub64 (bend lf) 1) = Some lb" "PartNum E (bend lf) = Some rb"
      and cnt: "\<And>i. (if i \<in> buf_parts E r then 1 else 0) + (if i \<in> buf_parts E lf then 1 else 0) =
        (if i \<in> buf_parts E b then 1 else 0 :: nat) + (if i = lb \<and> lb = rb then 1 else 0)"
      by (rule split_parts [OF b left right]) blast
    define l1 where "l1 = ?l"
    define l' where "l' = (if lb = rb then referenceDirtyPart E lb l1 else l1)"
    let ?c = "\<lambda>i. card (dirty_set E A i)"
    have c': "card (dirty_set E (?A' q) i) = ?c i + (if i = lb \<and> lb = rb then 1 else 0)" for i q
    proof -
      have "?c i = card (dirty_set E A0 i) + (if i \<in> buf_parts E b then 1 else 0)"
        by (subst A0(1), subst card_upd(2) [OF A0(2,3)]) (use 1 st in simp)
      moreover have "card (dirty_set E (?A' q) i) = card (dirty_set E A0 i)
          + (if i \<in> buf_parts E r then 1 else 0) + (if i \<in> buf_parts E lf then 1 else 0)"
        unfolding A0(4) by (subst card_upd(2) [OF A1], subst card_upd(2) [OF A0(2,3)]) (use 1 st in simp)
      ultimately show ?thesis using cnt [of i] by linarith
    qed
    have ceq: "(\<lambda>i. card (dirty_set E (?A' q) i)) = (if lb = rb then ?c(lb := Suc (?c lb)) else ?c)" for q
      by (rule ext) (use c' [of q] in \<open>simp del: fun_upd_apply\<close>, simp)
    have pl1: "pcount E l1 ?c" using l(4) by (simp only: l1_def)
    have "pcount E l' (\<lambda>i. card (dirty_set E (?A' (fb_queueId lf)) i))"
      unfolding ceq using pl1 pcount_reference [OF pl1, of lb] by (cases "lb = rb") (auto simp: l'_def)
    moreover have "requeueSplit E l lf = Some (l', lf)"
      using 1 lr left by (simp add: requeueSplit_def l'_def l1_def)
    moreover have at': "bl_helpers l' = bl_helpers l" "bl_at l' = bl_at l" "frame l l'"
      "bl_uncleanCount l' = bl_uncleanCount ?l"
    proof -
      have "parts_only l1 l'" by (simp add: l'_def parts_only_refl parts_only_reference)
      from parts_onlyD [OF this] show "bl_helpers l' = bl_helpers l" "bl_at l' = bl_at l" "frame l l'"
        "bl_uncleanCount l' = bl_uncleanCount ?l"
        using l by (simp_all add: l1_def frame_def)
    qed
    moreover have "bufs E l' = bufs E l" by (rule bufs_cong) (rule at'(2))
    ultimately show ?thesis
      using un [of "fb_queueId lf"] fin' [of "fb_queueId lf"] same [OF 1(2), of "fb_queueId lf"] hi self
      by (intro exI [of _ l'] exI [of _ "fb_queueId lf"])
        (simp add: acct_def del: fun_upd_apply split del: if_split)
  next
    case 2
    have "clean_ok (cv (bl_helpers ?l)) (qid_at (A(e \<mapsto> r)))" "hinv (bl_helpers ?l)" "(A(e \<mapsto> r)) mid = None"
      using cl hi qid mid left by (simp_all del: qid_at_simps)
    moreover have "bend lf = mid" by (rule bend_eq) (use left b in auto)
    ultimately obtain l' q
      where l': "queue_clean E ?l lf = (l', lf\<lparr>fb_queueId := q\<rparr>)" "hinv (bl_helpers l')"
        "clean_ok (cv (bl_helpers l')) (qid_at (?A' q))"
        "bufs E l' = (bufs E ?l)(mid \<mapsto> lf\<lparr>fb_queueId := q\<rparr>)"
        "l' = ?l\<lparr>bl_at := bl_at l', bl_helpers := bl_helpers l'\<rparr>"
      using queue_clean_acct [OF _ _ _ _ 2(1)] by blast
    have "requeueSplit E l lf = Some (l', lf\<lparr>fb_queueId := q\<rparr>)"
      using 2 left l'(1) by (auto simp: requeueSplit_def clean_queued_def)
    moreover have "bl_uncleanCount l' = bl_uncleanCount ?l" "frame l l'"
      by (subst l'(5), simp add: frame_def)+
    moreover have "pcount E l' (\<lambda>i. card (dirty_set E A i))"
      by (subst l'(5)) (use l(4) in \<open>simp add: pcount_def\<close>)
    ultimately show ?thesis
      using un [of q] fin' [of q] l'(2-4) bu dirty [of q] 2(2) st(1)
      by (intro exI [of _ l'] exI [of _ q]) (simp add: acct_def del: fun_upd_apply)
  next
    case 3
    have "requeueSplit E l lf = Some (?l, lf)" using 3 left by (auto simp: requeueSplit_def clean_queued_def)
    then show ?thesis
      using un [of "fb_queueId lf"] fin' [of "fb_queueId lf"] same [OF 3(2), of "fb_queueId lf"] hi self l bu
        dirty [of "fb_queueId lf"] 3(1) st(1)
      by (intro exI [of _ ?l] exI [of _ "fb_queueId lf"])
        (simp add: acct_def del: fun_upd_apply split del: if_split)
  qed
qed

end

end
