(* ===== verification/Buffer_List_Ops.thy ===== *)
theory Buffer_List_Ops
  imports Buffer_List_Inv
begin

text \<open>
  The operations of a buffer list keep its invariant and do not panic, and what they do to
  the cached bytes.  The bytes are observed position by position: \<open>cell\<close> is the state of the
  buffer that covers a position together with the byte it holds there.
\<close>

section \<open>Memory\<close>

definition arrays :: "('t, 'd, 'h) BufferList \<Rightarrow> nat \<Rightarrow> byte list option" where
  "arrays l a = map_option bp_array (bl_mem l a)"

definition mem_total :: "('t, 'd, 'h) BufferList \<Rightarrow> int" where
  "mem_total l = (\<Sum>a | a < bl_nextPtr l.
     case bl_mem l a of None \<Rightarrow> 0 | Some p \<Rightarrow> if 0 < bp_refs p then int (bp_len p) else 0)"

lemma mem_total_upd:
  assumes "a < bl_nextPtr l" "bl_mem l a = Some p" "bp_len p' = bp_len p"
  shows "mem_total (l\<lparr>bl_mem := (bl_mem l)(a \<mapsto> p')\<rparr>) = mem_total l
    + (if 0 < bp_refs p' then int (bp_len p) else 0) - (if 0 < bp_refs p then int (bp_len p) else 0)"
proof -
  let ?f = "\<lambda>m a. case m a of None \<Rightarrow> 0 | Some p \<Rightarrow> if 0 < bp_refs p then int (bp_len p) else 0"
  let ?S = "{a. a < bl_nextPtr l}"
  have "(\<Sum>x\<in>?S. ?f ((bl_mem l)(a \<mapsto> p')) x) = ?f ((bl_mem l)(a \<mapsto> p')) a + (\<Sum>x\<in>?S - {a}. ?f (bl_mem l) x)"
    using assms by (subst sum.remove [of _ a]) (auto intro!: sum.cong)
  moreover have "(\<Sum>x\<in>?S. ?f (bl_mem l) x) = ?f (bl_mem l) a + (\<Sum>x\<in>?S - {a}. ?f (bl_mem l) x)"
    using assms by (subst sum.remove [of _ a]) auto
  ultimately show ?thesis using assms by (simp add: mem_total_def)
qed

lemma buf_mem_ok_cong: "arrays l' = arrays l \<Longrightarrow> buf_mem_ok l' b = buf_mem_ok l b"
proof -
  assume ar: "arrays l' = arrays l"
  have "(\<exists>p. bl_mem l' a = Some p \<and> n \<le> length (bp_array p)) =
      (\<exists>p. bl_mem l a = Some p \<and> n \<le> length (bp_array p))" for a n
    using fun_cong [OF ar, of a] by (cases "bl_mem l a"; cases "bl_mem l' a") (auto simp: arrays_def)
  then show ?thesis unfolding buf_mem_ok_def by (auto split: option.split)
qed

lemma arrays_refs: "bl_mem l a = Some p \<Longrightarrow>
    arrays (l\<lparr>bl_mem := (bl_mem l)(a \<mapsto> p\<lparr>bp_refs := r\<rparr>)\<rparr>) = arrays l"
  by (auto simp: arrays_def fun_eq_iff)

lemma mem_okD:
  assumes "mem_ok l A"
  shows "A e = Some b \<Longrightarrow> buf_mem_ok l b"
    and "bl_mem l a = Some p \<Longrightarrow> bp_refs p = int (card (holders A a))"
    and "bl_mem l a = Some p \<Longrightarrow> a < bl_nextPtr l"
  using assms unfolding mem_ok_def by blast+

lemma mem_ok_ptr:
  assumes "buf_mem_ok l b" "fb_ptr b = Some a"
  obtains p s n where "bl_mem l a = Some p" "fb_data b = Some (s, n)" "n = fb_length b"
    "s + n \<le> length (bp_array p)" "\<not> fb_zero b" "\<not> fb_loading b"
  using assms by (auto simp: buf_mem_ok_def split: option.splits)

lemma ptr_data: "buf_mem_ok l b \<Longrightarrow> fb_ptr b = None \<longleftrightarrow> fb_data b = None"
  by (cases "fb_data b") (auto simp: buf_mem_ok_def)

lemma ptr_slice:
  assumes "buf_mem_ok l b" "fb_ptr b = Some a" "bl_mem l a = Some p"
  obtains s where "fb_data b = Some (s, fb_length b)" "s + fb_length b \<le> length (bp_array p)"
    "\<not> fb_zero b" "\<not> fb_loading b"
  using assms by (auto simp: buf_mem_ok_def split: option.splits)

lemma ptr_mem: "buf_mem_ok l b \<Longrightarrow> fb_ptr b = Some a \<Longrightarrow> bl_mem l a \<noteq> None"
  by (auto simp: buf_mem_ok_def split: option.splits)

lemma buf_mem_ok_upds [simp]:
  "buf_mem_ok l (b\<lparr>fb_queueId := q\<rparr>) = buf_mem_ok l b"
  "buf_mem_ok l (b\<lparr>fb_dirtyID := i\<rparr>) = buf_mem_ok l b"
  "st \<noteq> BUF_FL_CLEARED \<Longrightarrow> buf_mem_ok l b \<Longrightarrow> buf_mem_ok l (b\<lparr>fb_state := st\<rparr>)"
  "buf_mem_ok l b \<Longrightarrow> buf_mem_ok l (b\<lparr>fb_onDisk := False\<rparr>)"
  by (cases "fb_data b"; auto simp: buf_mem_ok_def)+

lemma mem_ok_refs:
  assumes mem: "mem_ok l A" and p: "bl_mem l a = Some p"
    and B: "\<And>e b. B e = Some b \<Longrightarrow> buf_mem_ok l b"
    and r: "r = int (card (holders B a))" and h: "\<And>a'. a' \<noteq> a \<Longrightarrow> holders B a' = holders A a'"
  shows "mem_ok (l\<lparr>bl_mem := (bl_mem l)(a \<mapsto> p\<lparr>bp_refs := r\<rparr>)\<rparr>) B"
  unfolding mem_ok_def
proof (intro conjI allI impI)
  let ?l = "l\<lparr>bl_mem := (bl_mem l)(a \<mapsto> p\<lparr>bp_refs := r\<rparr>)\<rparr>"
  fix e b assume "B e = Some b"
  then show "buf_mem_ok ?l b" using B buf_mem_ok_cong [OF arrays_refs [OF p, of r]] by blast
next
  fix a' p' assume p': "bl_mem (l\<lparr>bl_mem := (bl_mem l)(a \<mapsto> p\<lparr>bp_refs := r\<rparr>)\<rparr>) a' = Some p'"
  show "bp_refs p' = int (card (holders B a'))"
    using p' r mem_okD(2) [OF mem, of a'] h [of a'] by (cases "a' = a") auto
  show "a' < bl_nextPtr (l\<lparr>bl_mem := (bl_mem l)(a \<mapsto> p\<lparr>bp_refs := r\<rparr>)\<rparr>)"
    using p' mem_okD(3) [OF mem, of a'] mem_okD(3) [OF mem p] by (cases "a' = a") auto
qed

lemma mem_ok_same:
  assumes mem: "mem_ok l A" and B: "\<And>e b. B e = Some b \<Longrightarrow> buf_mem_ok l b"
    and h: "\<And>a. holders B a = holders A a"
  shows "mem_ok l B"
  using mem_okD [OF mem] B h unfolding mem_ok_def by simp

lemma mem_ok_frame:
  assumes "mem_ok l A" "bl_mem l' = bl_mem l" "bl_nextPtr l' = bl_nextPtr l"
  shows "mem_ok l' A"
proof -
  have "buf_mem_ok l' b = buf_mem_ok l b" for b
    by (rule buf_mem_ok_cong) (simp add: arrays_def fun_eq_iff assms(2))
  then show ?thesis using assms unfolding mem_ok_def by simp
qed

lemma mem_ok_upd:
  assumes mem: "mem_ok l A" and A: "A e = Some b" and b': "fb_ptr b' = fb_ptr b" "buf_mem_ok l b'"
  shows "mem_ok l (A(e \<mapsto> b'))"
proof (rule mem_ok_same [OF mem])
  show "holders (A(e \<mapsto> b')) a = holders A a" for a
    unfolding counted_upd(3) using counted_Some(3) [where A = A and a = a, OF A] b'(1) by auto
  show "\<And>e' c. (A(e \<mapsto> b')) e' = Some c \<Longrightarrow> buf_mem_ok l c"
    using b'(2) mem_okD(1) [OF mem] by (auto split: if_splits)
qed

lemma mem_ok_add:
  assumes mem: "mem_ok l A" and fin: "finite (dom A)" and A: "A e = None"
    and b: "fb_ptr b = Some a" "bl_mem l a = Some p" "buf_mem_ok l b"
  shows "mem_ok (l\<lparr>bl_mem := (bl_mem l)(a \<mapsto> p\<lparr>bp_refs := bp_refs p + 1\<rparr>)\<rparr>) (A(e \<mapsto> b))"
proof (rule mem_ok_refs [OF mem b(2)])
  show "bp_refs p + 1 = int (card (holders (A(e \<mapsto> b)) a))"
    unfolding counted_upd(3) using b(1) mem_okD(2) [OF mem b(2)]
      counted_None(3) [where A = A and a = a, OF A] finite_counted(3) [OF fin, of a] by simp
  show "holders (A(e \<mapsto> b)) a' = holders A a'" if "a' \<noteq> a" for a'
    unfolding counted_upd(3) using b(1) that counted_None(3) [where A = A and a = a', OF A] by simp
  show "\<And>e' c. (A(e \<mapsto> b)) e' = Some c \<Longrightarrow> buf_mem_ok l c"
    using b(3) mem_okD(1) [OF mem] by (auto split: if_splits)
qed

lemma mem_ok_add_none:
  assumes mem: "mem_ok l A" and A: "A e = None" and b: "fb_ptr b = None" "buf_mem_ok l b"
  shows "mem_ok l (A(e \<mapsto> b))"
proof (rule mem_ok_same [OF mem])
  show "holders (A(e \<mapsto> b)) a = holders A a" for a
    unfolding counted_upd(3) using b(1) counted_None(3) [where A = A and a = a, OF A] by simp
  show "\<And>e' c. (A(e \<mapsto> b)) e' = Some c \<Longrightarrow> buf_mem_ok l c"
    using b(2) mem_okD(1) [OF mem] by (auto split: if_splits)
qed

lemma mem_ok_del_none:
  assumes mem: "mem_ok l A" and A: "A e = Some b" and b: "fb_ptr b = None"
  shows "mem_ok l (A(e := None))"
proof (rule mem_ok_same [OF mem])
  show "holders (A(e := None)) a = holders A a" for a
    unfolding counted_del(3) using b counted_Some(3) [where A = A and a = a, OF A] by simp
  show "\<And>e' c. (A(e := None)) e' = Some c \<Longrightarrow> buf_mem_ok l c"
    using mem_okD(1) [OF mem] by (auto split: if_splits)
qed

text \<open>Dropping the reference of a buffer that leaves the list.\<close>

lemma mem_ok_release:
  assumes mem: "mem_ok l A" and fin: "finite (dom A)" and A: "A e = Some b" and a: "fb_ptr b = Some a"
  shows "\<exists>p l' n. bl_mem l a = Some p \<and> release l (fb_ptr b) = Some (l', n) \<and>
    l' = l\<lparr>bl_mem := (bl_mem l)(a \<mapsto> p\<lparr>bp_refs := bp_refs p - 1\<rparr>)\<rparr> \<and>
    mem_ok l' (A(e := None)) \<and> arrays l' = arrays l \<and> n = mem_total l' - mem_total l"
proof -
  obtain p where p: "bl_mem l a = Some p"
    using mem_ok_ptr [OF mem_okD(1) [OF mem A] a] by metis
  let ?l' = "l\<lparr>bl_mem := (bl_mem l)(a \<mapsto> p\<lparr>bp_refs := bp_refs p - 1\<rparr>)\<rparr>"
  have "e \<in> holders A a" using counted_Some(3) [where A = A and a = a, OF A] a by simp
  then have c: "bp_refs p - 1 = int (card (holders A a - {e}))" "0 < bp_refs p"
    using mem_okD(2) [OF mem p] card_Suc_Diff1 [OF finite_counted(3) [OF fin], of e a] by auto
  have "mem_ok ?l' (A(e := None))"
  proof (rule mem_ok_refs [OF mem p])
    show "bp_refs p - 1 = int (card (holders (A(e := None)) a))" unfolding counted_del(3) by (rule c(1))
    show "holders (A(e := None)) a' = holders A a'" if "a' \<noteq> a" for a'
      unfolding counted_del(3) using a that counted_Some(3) [where A = A and a = a', OF A] by simp
    show "\<And>e' c. (A(e := None)) e' = Some c \<Longrightarrow> buf_mem_ok l c"
      using mem_okD(1) [OF mem] by (auto split: if_splits)
  qed
  moreover have "arrays ?l' = arrays l" by (rule arrays_refs [OF p])
  moreover have "release l (fb_ptr b) = Some (?l', if bp_refs p - 1 = 0 then - int (bp_len p) else 0)"
    using a p by (simp add: release_def add_refs_def Let_def)
  moreover have "(if bp_refs p - 1 = 0 then - int (bp_len p) else 0) = mem_total ?l' - mem_total l"
    using mem_total_upd [OF mem_okD(3) [OF mem p] p, of "p\<lparr>bp_refs := bp_refs p - 1\<rparr>"] c by simp
  ultimately show ?thesis using p by blast
qed

definition mem_only :: "('t, 'd, 'h) BufferList \<Rightarrow> ('t, 'd, 'h) BufferList \<Rightarrow> bool" where
  "mem_only l l' \<longleftrightarrow> l' = l\<lparr>bl_mem := bl_mem l', bl_nextPtr := bl_nextPtr l'\<rparr>"

lemma mem_only_trans: "mem_only l l' \<Longrightarrow> mem_only l' l'' \<Longrightarrow> mem_only l l''"
  by (cases l; cases l'; cases l'') (simp add: mem_only_def)

lemma mem_only_mem: "mem_only l (l\<lparr>bl_mem := m\<rparr>)"
  by (simp add: mem_only_def)

lemma mem_onlyD:
  assumes "mem_only l l'"
  shows "bl_at l' = bl_at l" "bl_curDirtyID l' = bl_curDirtyID l" "bufs E l' = bufs E l"
    "acct E hinv cv l A \<Longrightarrow> acct E hinv cv l' A"
proof -
  have e: "l' = l\<lparr>bl_mem := bl_mem l', bl_nextPtr := bl_nextPtr l'\<rparr>" using assms by (simp add: mem_only_def)
  show "bl_at l' = bl_at l" "bl_curDirtyID l' = bl_curDirtyID l" "bufs E l' = bufs E l"
    by (subst e; simp add: bufs_def)+
  show "acct E hinv cv l' A" if "acct E hinv cv l A"
    by (rule acct_cong [OF that]; subst e; simp)
qed

section \<open>The invariant of a list\<close>

definition ids_ok :: "nat \<Rightarrow> bufMap \<Rightarrow> bool" where
  "ids_ok cur A \<longleftrightarrow>
     (\<forall>e b. A e = Some b \<longrightarrow> fb_dirtyID b \<le> cur \<and> (fb_state b = BUF_DIRTY \<longleftrightarrow> fb_dirtyID b \<noteq> 0)) \<and>
     (\<forall>e b e' b'. A e = Some b \<longrightarrow> A e' = Some b' \<longrightarrow> fb_dirtyID b = fb_dirtyID b' \<longrightarrow>
        fb_dirtyID b \<noteq> 0 \<longrightarrow> e = e')"

definition BL_inv :: "('t, 'd, 'h) bufEnv \<Rightarrow> u64 \<Rightarrow> ('h \<Rightarrow> bool) \<Rightarrow> ('h \<Rightarrow> nat \<Rightarrow> u64 option) \<Rightarrow>
    ('t, 'd, 'h) BufferList \<Rightarrow> bool" where
  "BL_inv E M hinv cv l \<longleftrightarrow> shape M (bufs E l) \<and> mem_ok l (bufs E l) \<and>
     acct E hinv cv l (bufs E l) \<and> ids_ok (bl_curDirtyID l) (bufs E l)"

lemma BL_invD:
  assumes "BL_inv E M hinv cv l"
  shows "shape M (bufs E l)" "mem_ok l (bufs E l)" "acct E hinv cv l (bufs E l)"
    "ids_ok (bl_curDirtyID l) (bufs E l)" "finite (dom (bufs E l))"
  using assms by (auto simp: BL_inv_def acct_def)

lemma ids_okD:
  assumes "ids_ok cur A" "A e = Some b"
  shows "fb_dirtyID b \<le> cur" "fb_state b = BUF_DIRTY \<longleftrightarrow> fb_dirtyID b \<noteq> 0"
    "A e' = Some b' \<Longrightarrow> fb_dirtyID b = fb_dirtyID b' \<Longrightarrow> fb_dirtyID b \<noteq> 0 \<Longrightarrow> e = e'"
  using assms unfolding ids_ok_def by blast+

lemma ids_ok_del: "ids_ok cur A \<Longrightarrow> ids_ok cur (A(e := None))"
  unfolding ids_ok_def by (auto split: if_splits)

lemma ids_ok_mono: "ids_ok cur A \<Longrightarrow> cur \<le> cur' \<Longrightarrow> ids_ok cur' A"
  unfolding ids_ok_def by (meson le_trans)

lemma ids_ok_cong:
  assumes ids: "ids_ok cur A"
    and eq: "\<And>e. map_option (\<lambda>b. (fb_dirtyID b, fb_state b)) (B e) = map_option (\<lambda>b. (fb_dirtyID b, fb_state b)) (A e)"
  shows "ids_ok cur B"
proof -
  have old: "\<exists>c. A e = Some c \<and> fb_dirtyID c = fb_dirtyID b \<and> fb_state c = fb_state b" if "B e = Some b" for e b
    using eq [of e] that by (cases "A e") auto
  show ?thesis
    unfolding ids_ok_def
  proof (intro conjI allI impI)
    fix e b assume "B e = Some b"
    then obtain c where "A e = Some c" "fb_dirtyID c = fb_dirtyID b" "fb_state c = fb_state b" using old by blast
    then show "fb_dirtyID b \<le> cur" "fb_state b = BUF_DIRTY \<longleftrightarrow> fb_dirtyID b \<noteq> 0"
      using ids_okD(1,2) [OF ids, of e c] by auto
  next
    fix e b e' b' assume "B e = Some b" "B e' = Some b'" "fb_dirtyID b = fb_dirtyID b'" "fb_dirtyID b \<noteq> 0"
    then obtain c c' where "A e = Some c" "A e' = Some c'" "fb_dirtyID c = fb_dirtyID c'" "fb_dirtyID c \<noteq> 0"
      using old by metis
    then show "e = e'" by (rule ids_okD(3) [OF ids])
  qed
qed

lemma ids_ok_qid: "ids_ok cur (A(e \<mapsto> b)) \<Longrightarrow> ids_ok cur (A(e \<mapsto> b\<lparr>fb_queueId := q\<rparr>))"
  by (erule ids_ok_cong) auto

text \<open>A buffer may take no identifier, keep the one of the buffer it replaces, or a new one.\<close>

lemma ids_ok_upd:
  assumes ids: "ids_ok cur A" and st: "fb_state b = BUF_DIRTY \<longleftrightarrow> fb_dirtyID b \<noteq> 0"
    and new: "fb_dirtyID b = 0 \<or> fb_dirtyID b = Suc cur \<or> (\<exists>b'. A e = Some b' \<and> fb_dirtyID b = fb_dirtyID b')"
  shows "ids_ok (max cur (fb_dirtyID b)) (A(e \<mapsto> b))"
proof -
  note D = ids_okD [OF ids]
  have other: "fb_dirtyID b \<noteq> fb_dirtyID c" if "A e' = Some c" "e' \<noteq> e" "fb_dirtyID b \<noteq> 0" for e' c
    using new
  proof (elim disjE)
    assume "\<exists>b'. A e = Some b' \<and> fb_dirtyID b = fb_dirtyID b'"
    then show ?thesis using D(3) that by metis
  qed (use D(1) [OF that(1)] that(3) in auto)
  show ?thesis
    unfolding ids_ok_def
  proof (intro conjI allI impI)
    fix e1 b1 assume "(A(e \<mapsto> b)) e1 = Some b1"
    then show "fb_dirtyID b1 \<le> max cur (fb_dirtyID b)" "fb_state b1 = BUF_DIRTY \<longleftrightarrow> fb_dirtyID b1 \<noteq> 0"
      using D(1,2) [of e1 b1] st by (auto split: if_splits)
  next
    fix e1 b1 e2 b2
    assume "(A(e \<mapsto> b)) e1 = Some b1" "(A(e \<mapsto> b)) e2 = Some b2" "fb_dirtyID b1 = fb_dirtyID b2"
      "fb_dirtyID b1 \<noteq> 0"
    then show "e1 = e2"
      using D(3) [of e1 b1 e2 b2] other [of e1 b1] other [of e2 b2] by (auto split: if_splits)
  qed
qed

text \<open>\<open>c\<close> is the part of the buffer \<open>b\<close> of length \<open>n\<close> that starts at position \<open>x\<close>.\<close>

definition piece :: "FileBuffer \<Rightarrow> u64 \<Rightarrow> u64 \<Rightarrow> FileBuffer \<Rightarrow> bool" where
  "piece b x n c \<longleftrightarrow> fb_offset c = x \<and> fb_length c = n \<and> fb_state c = fb_state b \<and>
     fb_loading c = fb_loading b \<and> fb_onDisk c = fb_onDisk b \<and> fb_zero c = fb_zero b \<and>
     fb_ptr c = fb_ptr b \<and> fb_data c = map_option (\<lambda>(s, _). (s + (x - fb_offset b), n)) (fb_data b) \<and>
     (fb_dirtyID c = 0 \<longleftrightarrow> fb_dirtyID b = 0)"

lemma piece_qid: "piece b x n c \<Longrightarrow> piece b x n (c\<lparr>fb_queueId := q\<rparr>)"
  by (simp add: piece_def)

lemma piece_mem_ok:
  assumes "buf_mem_ok l b" "piece b x n c" "fb_offset b \<le> x" "x + n \<le> fb_offset b + fb_length b"
  shows "buf_mem_ok l c"
  using assms by (auto simp: buf_mem_ok_def piece_def split: option.splits)

context buffer_env
begin

lemma inv_shape:
  assumes "BL_inv E M hinv cv l" "bufs E l e = Some b"
  shows "0 < fb_length b" "fb_offset b + fb_length b = e" "e \<le> M" "fb_offset b < e" "bend b = e"
  using shapeD [OF BL_invD(1) [OF assms(1)] assms(2)] bend_eq by auto

lemma acct_frame:
  assumes "acct E hinv cv l A"
  shows "acct E hinv cv (l\<lparr>bl_at := t\<rparr>) A" "acct E hinv cv (l\<lparr>bl_mem := m\<rparr>) A"
    "acct E hinv cv (l\<lparr>bl_nextPtr := k\<rparr>) A" "acct E hinv cv (l\<lparr>bl_curDirtyID := i\<rparr>) A"
  by (rule acct_cong [OF assms]; simp)+

lemma bufs_frame [simp]:
  "bufs E (l\<lparr>bl_mem := m\<rparr>) = bufs E l" "bufs E (l\<lparr>bl_nextPtr := k\<rparr>) = bufs E l"
  "bufs E (l\<lparr>bl_curDirtyID := i\<rparr>) = bufs E l" "bufs E (l\<lparr>bl_helpers := h\<rparr>) = bufs E l"
  by (rule bufs_cong; simp)+

lemma frame_eqs:
  assumes "frame l l'"
  shows "arrays l' = arrays l" "mem_total l' = mem_total l" "bl_curDirtyID l' = bl_curDirtyID l"
    "mem_ok l A \<Longrightarrow> mem_ok l' A" "bl_mem l' = bl_mem l" "bl_nextPtr l' = bl_nextPtr l"
  using assms by (auto simp: frame_def arrays_def mem_total_def fun_eq_iff intro: mem_ok_frame)

lemma delete_inv:
  assumes inv: "BL_inv E M hinv cv l" and b: "bufs E l e = Some b"
  shows "\<exists>l' n. BL_delete E l b = Some (l', n) \<and> BL_inv E M hinv cv l' \<and>
    bufs E l' = (bufs E l)(e := None) \<and> arrays l' = arrays l \<and> n = mem_total l' - mem_total l \<and>
    bl_curDirtyID l' = bl_curDirtyID l \<and> bl_nextPtr l' = bl_nextPtr l"
proof -
  note D = BL_invD [OF inv] and s = inv_shape [OF inv b]
  have ok: "buf_mem_ok l b" by (rule mem_okD(1) [OF D(2) b])
  obtain l1 n where l1: "(if fb_data b \<noteq> None then release l (fb_ptr b) else Some (l, 0)) = Some (l1, n)"
    "mem_ok l1 ((bufs E l)(e := None))" "arrays l1 = arrays l" "n = mem_total l1 - mem_total l"
    "mem_only l l1" "bl_nextPtr l1 = bl_nextPtr l"
  proof (cases "fb_ptr b")
    case None
    then show ?thesis
      using ptr_data [OF ok] mem_ok_del_none [OF D(2) b None] by (intro that [of l 0]) (simp_all add: mem_only_def)
  next
    case (Some a)
    then have "fb_data b \<noteq> None" using ptr_data [OF ok] by simp
    moreover obtain p l' n where "release l (fb_ptr b) = Some (l', n)"
      "l' = l\<lparr>bl_mem := (bl_mem l)(a \<mapsto> p\<lparr>bp_refs := bp_refs p - 1\<rparr>)\<rparr>"
      "mem_ok l' ((bufs E l)(e := None))" "arrays l' = arrays l" "n = mem_total l' - mem_total l"
      using mem_ok_release [OF D(2,5) b Some] by blast
    ultimately show ?thesis by (intro that [of l' n]) (simp_all add: mem_only_def)
  qed
  define l2 where "l2 = l1\<lparr>bl_at := bt_del (env_at E) (bl_at l1) (bend b)\<rparr>"
  have "acct E hinv cv l2 (bufs E l)"
    unfolding l2_def by (intro acct_frame mem_onlyD(4) [OF l1(5)] D(3))
  from unqueue_acct [OF this b s(1-3)] obtain l' where l': "unqueue E l2 b = Some l'"
    "acct E hinv cv l' ((bufs E l)(e := None))" "bl_at l' = bl_at l2" "frame l2 l'" by blast
  have "bufs E l2 = (bufs E l)(e := None)" using s(5) mem_onlyD(3) [OF l1(5)] by (simp add: l2_def)
  then have bu: "bufs E l' = (bufs E l)(e := None)" using bufs_cong [OF l'(3)] by simp
  have m2: "arrays l2 = arrays l1" "mem_total l2 = mem_total l1" "bl_curDirtyID l2 = bl_curDirtyID l1"
    "bl_nextPtr l2 = bl_nextPtr l1" "mem_ok l2 ((bufs E l)(e := None))"
    by (simp_all add: l2_def arrays_def mem_total_def fun_eq_iff mem_ok_frame [OF l1(2)])
  note f = frame_eqs [OF l'(4)]
  have "BL_inv E M hinv cv l'"
    unfolding BL_inv_def bu using shape_del [OF D(1)] f(4) [OF m2(5)] l'(2) ids_ok_del [OF D(4)] f(3) m2(3)
      mem_onlyD(2) [OF l1(5)] by simp
  moreover have "BL_delete E l b = Some (l', n)"
    using l1(1) l'(1) by (simp add: BL_delete_def l2_def)
  ultimately show ?thesis using bu f m2 l1(3,4,6) mem_onlyD(2) [OF l1(5)] by simp
qed

lemma shape_split:
  assumes sh: "shape M A" and A: "A e = Some b" and m: "fb_offset b < mid" "mid < e"
    and lf: "piece b (fb_offset b) (mid - fb_offset b) lf" and r: "piece b mid (e - mid) r"
  shows "A mid = None" "shape M (A(e \<mapsto> r, mid \<mapsto> lf))"
proof -
  note sb = shapeD [OF sh A]
  show mid: "A mid = None"
  proof (rule ccontr)
    assume "A mid \<noteq> None"
    then obtain c where "A mid = Some c" by auto
    from shape_disj [OF sh this A m(2)] m(1) show False by simp
  qed
  have other: "e' \<le> fb_offset b \<or> e \<le> fb_offset b'" if "A e' = Some b'" "e' \<noteq> e" for e' b'
    using shape_disj [OF sh that(1) A] shape_disj [OF sh A that(1)] that(2) by linarith
  have "shape M (A(e \<mapsto> r))"
  proof (rule shape_upd [OF sh])
    show "0 < fb_length r" "fb_offset r + fb_length r = e" "e \<le> M" using r m sb by (auto simp: piece_def)
    show "e' \<le> fb_offset r \<or> e \<le> fb_offset b'" if "A e' = Some b'" "e' \<noteq> e" for e' b'
      using other [OF that] r m by (auto simp: piece_def)
  qed
  then show "shape M (A(e \<mapsto> r, mid \<mapsto> lf))"
  proof (rule shape_upd)
    show "0 < fb_length lf" "fb_offset lf + fb_length lf = mid" "mid \<le> M" using lf m sb by (auto simp: piece_def)
    show "e' \<le> fb_offset lf \<or> mid \<le> fb_offset b'" if "(A(e \<mapsto> r)) e' = Some b'" "e' \<noteq> mid" for e' b'
    proof (cases "e' = e")
      case False
      then have "A e' = Some b'" using that by simp
      from other [OF this False] show ?thesis using lf m by (auto simp: piece_def)
    qed (use that r in \<open>auto simp: piece_def\<close>)
  qed
qed

lemma split_mem:
  assumes mem: "mem_ok l A" and fin: "finite (dom A)" and A: "A e = Some b" "A mid = None"
    and m: "fb_offset b < mid" "mid < e" "fb_offset b + fb_length b = e"
    and lf: "piece b (fb_offset b) (mid - fb_offset b) lf" and r: "piece b mid (e - mid) r"
    and d: "fb_data b = Some (s, n)"
  shows "\<exists>l' p'. add_refs 1 l (fb_ptr b) = Some (l', p') \<and> mem_ok l' (A(e \<mapsto> r, mid \<mapsto> lf)) \<and>
    mem_only l l' \<and> arrays l' = arrays l \<and> mem_total l' = mem_total l \<and>
    bl_nextPtr l' = bl_nextPtr l \<and> mid - fb_offset b \<le> fb_cap l b \<and> n = e - fb_offset b"
proof -
  have ok: "buf_mem_ok l b" by (rule mem_okD(1) [OF mem A(1)])
  then obtain a where a: "fb_ptr b = Some a" using ptr_data d by fastforce
  obtain p where p: "bl_mem l a = Some p" "n = fb_length b" "s + n \<le> length (bp_array p)"
    using mem_ok_ptr [OF ok a] d by auto
  have okr: "buf_mem_ok l r" by (rule piece_mem_ok [OF ok r]) (use m in auto)
  have okl: "buf_mem_ok l lf" by (rule piece_mem_ok [OF ok lf]) (use m in auto)
  have "mem_ok l (A(e \<mapsto> r))" by (rule mem_ok_upd [OF mem A(1) _ okr]) (use r in \<open>simp add: piece_def\<close>)
  from mem_ok_add [OF this _ _ _ p(1) okl, of mid]
  have mem': "mem_ok (l\<lparr>bl_mem := (bl_mem l)(a \<mapsto> p\<lparr>bp_refs := bp_refs p + 1\<rparr>)\<rparr>) (A(e \<mapsto> r, mid \<mapsto> lf))"
    using fin A(2) m lf a by (simp add: piece_def)
  have "e \<in> holders A a" using counted_Some(3) [where A = A and a = a, OF A(1)] a by simp
  then have "0 < bp_refs p"
    using mem_okD(2) [OF mem p(1)] finite_counted(3) [OF fin, of a] by (auto simp: card_gt_0_iff)
  then have tot: "mem_total (l\<lparr>bl_mem := (bl_mem l)(a \<mapsto> p\<lparr>bp_refs := bp_refs p + 1\<rparr>)\<rparr>) = mem_total l"
    using mem_total_upd [OF mem_okD(3) [OF mem p(1)] p(1), of "p\<lparr>bp_refs := bp_refs p + 1\<rparr>"] by simp
  have "mid - fb_offset b \<le> fb_cap l b" using d a p m by (simp add: fb_cap_def)
  with mem' tot a p m show ?thesis
    using arrays_refs [OF p(1)] by (simp add: add_refs_def Let_def mem_only_def)
qed

lemma split_ids:
  assumes ids: "ids_ok cur A" and A: "A e = Some b" "A mid = None" "mid \<noteq> e"
    and lf: "fb_dirtyID lf = fb_dirtyID b" "fb_state lf = fb_state b"
    and r: "fb_dirtyID r = (if fb_dirtyID b \<noteq> 0 then Suc cur else 0)" "fb_state r = fb_state b"
  shows "ids_ok (if fb_dirtyID b \<noteq> 0 then Suc cur else cur) (A(e \<mapsto> r, mid \<mapsto> lf))"
proof -
  note D = ids_okD [OF ids]
  have "ids_ok (max cur (fb_dirtyID r)) (A(e \<mapsto> r))"
    by (rule ids_ok_upd [OF ids]) (use r D(2) [OF A(1)] in \<open>auto split: if_splits\<close>)
  then have ids': "ids_ok (if fb_dirtyID b \<noteq> 0 then Suc cur else cur) (A(e \<mapsto> r))"
    using r(1) by (auto simp: max_def split: if_splits)
  show ?thesis
    unfolding ids_ok_def
  proof (intro conjI allI impI)
    fix e1 b1 assume b1: "(A(e \<mapsto> r, mid \<mapsto> lf)) e1 = Some b1"
    show "fb_dirtyID b1 \<le> (if fb_dirtyID b \<noteq> 0 then Suc cur else cur)"
      "fb_state b1 = BUF_DIRTY \<longleftrightarrow> fb_dirtyID b1 \<noteq> 0"
      using b1 ids_okD(1,2) [OF ids', of e1 b1] lf D(1,2) [OF A(1)] by (auto split: if_splits)
  next
    fix e1 b1 e2 b2
    have old: "fb_dirtyID c \<noteq> fb_dirtyID b" if "(A(e \<mapsto> r)) e' = Some c" "fb_dirtyID b \<noteq> 0" for e' c
    proof (cases "e' = e")
      case True
      then show ?thesis using that r D(1) [OF A(1)] by auto
    next
      case False
      with that have "A e' = Some c" by simp
      with D(3) [OF A(1) this] False that show ?thesis by auto
    qed
    assume "(A(e \<mapsto> r, mid \<mapsto> lf)) e1 = Some b1" "(A(e \<mapsto> r, mid \<mapsto> lf)) e2 = Some b2"
      "fb_dirtyID b1 = fb_dirtyID b2" "fb_dirtyID b1 \<noteq> 0"
    then show "e1 = e2"
      using ids_okD(3) [OF ids', of e1 b1 e2 b2] old [of e1 b1] old [of e2 b2] lf(1)
      by (auto split: if_splits simp del: fun_upd_apply simp: fun_upd_def [of "A(e \<mapsto> r)"])
  qed
qed

text \<open>The data and identifiers of the two halves, before the left one is queued.\<close>

lemma split_unfold:
  assumes inv: "BL_inv E M hinv cv l" and b: "bufs E l e = Some b" and m: "fb_offset b < mid" "mid < e"
  obtains l1 lf r where "split E l b mid = do {
      (l, lf) \<leftarrow> requeueSplit E (l1\<lparr>bl_at := bt_set (env_at E) (bl_at l1) mid lf\<rparr>) lf; Some (l, lf, r) }"
    "piece b (fb_offset b) (mid - fb_offset b) lf" "piece b mid (e - mid) r"
    "fb_queueId r = fb_queueId b"
    "fb_dirtyID lf = fb_dirtyID b" "fb_dirtyID r = (if fb_dirtyID b \<noteq> 0 then Suc (bl_curDirtyID l) else 0)"
    "bufs E l1 = (bufs E l)(e \<mapsto> r)" "acct E hinv cv l1 (bufs E l)" "mem_ok l1 ((bufs E l)(e \<mapsto> r, mid \<mapsto> lf))"
    "arrays l1 = arrays l" "mem_total l1 = mem_total l" "bl_nextPtr l1 = bl_nextPtr l"
    "bl_curDirtyID l1 = (if fb_dirtyID b \<noteq> 0 then Suc (bl_curDirtyID l) else bl_curDirtyID l)"
proof -
  note D = BL_invD [OF inv] and sb = inv_shape [OF inv b]
  let ?d = "mid - fb_offset b"
  let ?id = "if fb_dirtyID b \<noteq> 0 then Suc (bl_curDirtyID l) else 0"
  define lf where "lf = b\<lparr>fb_length := ?d, fb_data := map_option (\<lambda>(s, n). (s, ?d)) (fb_data b)\<rparr>"
  define b1 where "b1 = b\<lparr>fb_data := map_option (\<lambda>(s, n). (s + ?d, e - mid)) (fb_data b)\<rparr>"
  define r where "r = (if fb_dirtyID b \<noteq> 0 then b1\<lparr>fb_dirtyID := Suc (bl_curDirtyID l)\<rparr> else b1)
    \<lparr>fb_length := e - mid, fb_offset := mid\<rparr>"
  have b1: "fb_dirtyID b1 = fb_dirtyID b" "bend b1 = bend b" by (simp_all add: b1_def bend_def)
  have pl: "piece b (fb_offset b) ?d lf" and pr: "piece b mid (e - mid) r"
    by (auto simp: piece_def lf_def r_def b1_def)
  have mid: "bufs E l mid = None" by (rule shape_split(1) [OF D(1) b m pl pr])
  have d: "sub64 mid (fb_offset b) = ?d" "sub64 e mid = e - mid"
    using m sb M_bound by (simp_all add: u64_simps)
  have ok: "buf_mem_ok l b" by (rule mem_okD(1) [OF D(2) b])
  obtain l0 where l0: "(case fb_data b of None \<Rightarrow> Some (l, b\<lparr>fb_length := ?d\<rparr>, b)
      | Some (s, n) \<Rightarrow> if ?d > fb_cap l b \<or> ?d > n then None
          else do { (l, _) \<leftarrow> add_refs 1 l (fb_ptr b);
                    Some (l, b\<lparr>fb_length := ?d, fb_data := Some (s, ?d)\<rparr>, b\<lparr>fb_data := Some (s + ?d, n - ?d)\<rparr>) })
      = Some (l0, lf, b1)"
    "mem_ok l0 ((bufs E l)(e \<mapsto> r, mid \<mapsto> lf))" "mem_only l l0" "arrays l0 = arrays l"
    "mem_total l0 = mem_total l" "bl_nextPtr l0 = bl_nextPtr l"
  proof (cases "fb_data b")
    case None
    have okl: "buf_mem_ok l lf" by (rule piece_mem_ok [OF ok pl]) (use m sb in auto)
    have okr: "buf_mem_ok l r" by (rule piece_mem_ok [OF ok pr]) (use m sb in auto)
    have "fb_ptr b = None" using None ptr_data [OF ok] by simp
    then have "mem_ok l ((bufs E l)(e \<mapsto> r, mid \<mapsto> lf))"
      using m mid by (intro mem_ok_add_none mem_ok_upd [OF D(2) b] okl okr) (auto simp: lf_def r_def b1_def)
    with None show ?thesis by (intro that [of l]) (simp_all add: lf_def b1_def mem_only_def)
  next
    case (Some x)
    obtain s n where "x = (s, n)" by fastforce
    with Some have sn: "fb_data b = Some (s, n)" by simp
    from split_mem [OF D(2,5) b mid m sb(2) pl pr sn] obtain l' p'
      where l': "add_refs 1 l (fb_ptr b) = Some (l', p')" "mem_ok l' ((bufs E l)(e \<mapsto> r, mid \<mapsto> lf))"
        "mem_only l l'" "arrays l' = arrays l" "mem_total l' = mem_total l" "bl_nextPtr l' = bl_nextPtr l"
        "?d \<le> fb_cap l b" "n = e - fb_offset b" by blast
    have "n - ?d = e - mid" "?d \<le> n" using l'(8) m by auto
    with l' sn show ?thesis by (intro that [of l']) (simp_all add: lf_def b1_def)
  qed
  define l1 where "l1 = store E (if fb_dirtyID b \<noteq> 0 then fst (nextID l0) else l0) r"
  have br: "bend r = e" by (rule bend_eq) (use m sb in \<open>simp_all add: r_def b1_def\<close>)
  have cur: "bl_curDirtyID l0 = bl_curDirtyID l" by (rule mem_onlyD(2) [OF l0(3)])
  have eq: "split E l b mid = do { (l, lf) \<leftarrow> requeueSplit E
      (l1\<lparr>bl_at := bt_set (env_at E) (bl_at l1) mid lf\<rparr>) lf; Some (l, lf, r) }"
  proof -
    have b': "bend (b1\<lparr>fb_dirtyID := i\<rparr>) = e" "bend b1 = e" for i using b1(2) sb(5) by (simp_all add: bend_def)
    show ?thesis
      unfolding split_def Let_def d l0(1) bind.bind_lunit prod.case b1(1)
      by (cases "fb_dirtyID b = 0") (simp_all add: l1_def r_def nextID_def b' d(2) cur)
  qed
  show thesis
  proof (rule that [OF eq pl pr])
    show "bufs E l1 = (bufs E l)(e \<mapsto> r)"
      unfolding l1_def by (simp add: nextID_def br mem_onlyD(3) [OF l0(3)])
    show "acct E hinv cv l1 (bufs E l)"
      using mem_onlyD(4) [OF l0(3) D(3)] unfolding l1_def store_def nextID_def by (auto intro: acct_frame)
    show "mem_ok l1 ((bufs E l)(e \<mapsto> r, mid \<mapsto> lf))"
      by (rule mem_ok_frame [OF l0(2)]) (simp_all add: l1_def store_def nextID_def)
    show "arrays l1 = arrays l" "mem_total l1 = mem_total l" "bl_nextPtr l1 = bl_nextPtr l"
      using l0(4-6) by (simp_all add: l1_def store_def nextID_def arrays_def mem_total_def fun_eq_iff)
  qed (simp_all add: lf_def r_def b1_def l1_def store_def nextID_def cur)
qed

lemma split_inv:
  assumes inv: "BL_inv E M hinv cv l" and b: "bufs E l e = Some b" and m: "fb_offset b < mid" "mid < e"
  shows "\<exists>l' lf r. split E l b mid = Some (l', lf, r) \<and> BL_inv E M hinv cv l' \<and>
    bufs E l' = (bufs E l)(e \<mapsto> r, mid \<mapsto> lf) \<and> piece b (fb_offset b) (mid - fb_offset b) lf \<and>
    piece b mid (e - mid) r \<and> bufs E l mid = None \<and> arrays l' = arrays l \<and> mem_total l' = mem_total l \<and>
    bl_nextPtr l' = bl_nextPtr l \<and> fb_dirtyID lf = fb_dirtyID b \<and>
    (fb_dirtyID r = 0 \<or> bl_curDirtyID l < fb_dirtyID r) \<and> bl_curDirtyID l \<le> bl_curDirtyID l'"
proof -
  note D = BL_invD [OF inv] and sb = inv_shape [OF inv b]
  from split_unfold [OF inv b m] obtain l1 lf r where u: "split E l b mid = do {
      (l, lf) \<leftarrow> requeueSplit E (l1\<lparr>bl_at := bt_set (env_at E) (bl_at l1) mid lf\<rparr>) lf; Some (l, lf, r) }"
    "piece b (fb_offset b) (mid - fb_offset b) lf" "piece b mid (e - mid) r" "fb_queueId r = fb_queueId b"
    "fb_dirtyID lf = fb_dirtyID b" "fb_dirtyID r = (if fb_dirtyID b \<noteq> 0 then Suc (bl_curDirtyID l) else 0)"
    "bufs E l1 = (bufs E l)(e \<mapsto> r)" "acct E hinv cv l1 (bufs E l)" "mem_ok l1 ((bufs E l)(e \<mapsto> r, mid \<mapsto> lf))"
    "arrays l1 = arrays l" "mem_total l1 = mem_total l" "bl_nextPtr l1 = bl_nextPtr l"
    "bl_curDirtyID l1 = (if fb_dirtyID b \<noteq> 0 then Suc (bl_curDirtyID l) else bl_curDirtyID l)" .
  have mid: "bufs E l mid = None" by (rule shape_split(1) [OF D(1) b m u(2,3)])
  let ?l = "l1\<lparr>bl_at := bt_set (env_at E) (bl_at l1) mid lf\<rparr>"
  have bl: "bufs E ?l = (bufs E l)(e \<mapsto> r, mid \<mapsto> lf)" using u(7) by simp
  have "\<exists>l' q. requeueSplit E ?l lf = Some (l', lf\<lparr>fb_queueId := q\<rparr>) \<and>
    acct E hinv cv l' ((bufs E l)(e \<mapsto> r, mid \<mapsto> lf\<lparr>fb_queueId := q\<rparr>)) \<and>
    bufs E l' = (bufs E ?l)(mid \<mapsto> lf\<lparr>fb_queueId := q\<rparr>) \<and> frame ?l l'"
    by (rule requeueSplit_acct [OF acct_frame(1) [OF u(8)] b mid _ sb(1-3)])
      (use u(2-4) m sb bl in \<open>auto simp: piece_def\<close>)
  then obtain l' q where l': "requeueSplit E ?l lf = Some (l', lf\<lparr>fb_queueId := q\<rparr>)"
    "acct E hinv cv l' ((bufs E l)(e \<mapsto> r, mid \<mapsto> lf\<lparr>fb_queueId := q\<rparr>))"
    "bufs E l' = (bufs E ?l)(mid \<mapsto> lf\<lparr>fb_queueId := q\<rparr>)" "frame ?l l'" by blast
  let ?lf = "lf\<lparr>fb_queueId := q\<rparr>"
  have bu: "bufs E l' = (bufs E l)(e \<mapsto> r, mid \<mapsto> ?lf)" unfolding l'(3) bl by simp
  have pl: "piece b (fb_offset b) (mid - fb_offset b) ?lf" by (rule piece_qid [OF u(2)])
  note f = frame_eqs [OF l'(4)]
  have "mem_ok l' (bufs E l')"
  proof -
    have "mem_ok l' ((bufs E l)(e \<mapsto> r, mid \<mapsto> lf))"
      by (rule f(4)) (rule mem_ok_frame [OF u(9)], simp_all)
    note m' = this
    have "mem_ok l' ((bufs E l)(e \<mapsto> r, mid \<mapsto> lf, mid \<mapsto> ?lf))"
      by (rule mem_ok_upd [OF m', of mid lf]) (use mem_okD(1) [OF m', of mid lf] in simp_all)
    then show ?thesis unfolding bu by simp
  qed
  moreover have "ids_ok (bl_curDirtyID l') (bufs E l')"
    using split_ids [OF D(4) b mid _ _ _ u(6), of ?lf] u(2,3,5,13) f(3) m bu by (simp add: piece_def del: fun_upd_apply)
  ultimately have "BL_inv E M hinv cv l'"
    unfolding BL_inv_def using shape_split(2) [OF D(1) b m pl u(3)] l'(2) bu by simp
  moreover have "arrays ?l = arrays l1" "mem_total ?l = mem_total l1"
    by (simp_all add: arrays_def mem_total_def fun_eq_iff)
  ultimately show ?thesis using l'(1) u(1,3,5,6,10-13) f pl bu mid by simp
qed

end

end
