(* ===== verification/Buffer_List_Cells.thy ===== *)
theory Buffer_List_Cells
  imports Buffer_List_Ops
begin

text \<open>
  The bytes of a buffer list.  A position of the file is observed as a \<open>cell\<close>: the state of
  the buffer that covers it and the byte held there.  \<open>split\<close> changes no cell and
  \<open>delete\<close> removes those of one buffer; an iteration with \<open>ascendChange\<close> is reduced to an
  induction over the keys it visits.
\<close>

record cell =
  c_state :: BufferState
  c_loading :: bool
  c_onDisk :: bool
  c_zero :: bool
  c_byte :: "byte option"

definition byte_at :: "('t, 'd, 'h) BufferList \<Rightarrow> FileBuffer \<Rightarrow> u64 \<Rightarrow> byte option" where
  "byte_at l b x =
     (case (fb_data b, fb_ptr b) of
        (Some (s, n), Some a) \<Rightarrow> map_option (\<lambda>xs. xs ! (s + (x - fb_offset b))) (arrays l a)
      | _ \<Rightarrow> None)"

definition cell_of :: "('t, 'd, 'h) BufferList \<Rightarrow> FileBuffer \<Rightarrow> u64 \<Rightarrow> cell" where
  "cell_of l b x = \<lparr>c_state = fb_state b, c_loading = fb_loading b, c_onDisk = fb_onDisk b,
     c_zero = fb_zero b, c_byte = byte_at l b x\<rparr>"

definition find_buf :: "('t, 'd, 'h) bufEnv \<Rightarrow> ('t, 'd, 'h) BufferList \<Rightarrow> u64 \<Rightarrow> FileBuffer option" where
  "find_buf E l x =
     (case bt_asc (env_at E) (bl_at l) (Suc x) of
        [] \<Rightarrow> None | (_, b) # _ \<Rightarrow> if fb_offset b \<le> x then Some b else None)"

definition cell :: "('t, 'd, 'h) bufEnv \<Rightarrow> ('t, 'd, 'h) BufferList \<Rightarrow> u64 \<Rightarrow> cell option" where
  "cell E l x = map_option (\<lambda>b. cell_of l b x) (find_buf E l x)"

text \<open>The dirty identifier of a position; 0 where nothing is dirty.\<close>

definition did :: "('t, 'd, 'h) bufEnv \<Rightarrow> ('t, 'd, 'h) BufferList \<Rightarrow> u64 \<Rightarrow> nat" where
  "did E l x = (case find_buf E l x of None \<Rightarrow> 0 | Some b \<Rightarrow> fb_dirtyID b)"

text \<open>An operation leaves the identifier of a position, clears it, or gives it one that is new.\<close>

definition idst :: "('t, 'd, 'h) bufEnv \<Rightarrow> ('t, 'd, 'h) BufferList \<Rightarrow> ('t, 'd, 'h) BufferList \<Rightarrow> bool" where
  "idst E l l' \<longleftrightarrow> bl_curDirtyID l \<le> bl_curDirtyID l' \<and>
     (\<forall>x. did E l' x = 0 \<or> bl_curDirtyID l < did E l' x \<or> did E l' x = did E l x)"

lemma idst_refl [simp]: "idst E l l"
  by (simp add: idst_def)

lemma idst_trans: "idst E l l' \<Longrightarrow> idst E l' l'' \<Longrightarrow> idst E l l''"
  unfolding idst_def by (metis le_trans order_le_less_trans)

definition covers :: "bufMap \<Rightarrow> u64 \<Rightarrow> FileBuffer \<Rightarrow> bool" where
  "covers A x b \<longleftrightarrow> (\<exists>e. A e = Some b \<and> fb_offset b \<le> x \<and> x < e)"

lemma covers_unique:
  assumes sh: "shape M A" and "covers A x b" "covers A x b'"
  shows "b = b'"
proof -
  obtain e e' where e: "A e = Some b" "fb_offset b \<le> x" "x < e" and e': "A e' = Some b'" "fb_offset b' \<le> x" "x < e'"
    using assms by (auto simp: covers_def)
  have "\<not> e < e'" using shape_disj [OF sh e(1) e'(1)] e e' by linarith
  moreover have "\<not> e' < e" using shape_disj [OF sh e'(1) e(1)] e e' by linarith
  ultimately have "e = e'" by simp
  then show ?thesis using e e' by simp
qed

lemma covers_del:
  assumes sh: "shape M A" and A: "A e = Some b"
  shows "covers (A(e := None)) x c \<longleftrightarrow> covers A x c \<and> \<not> (fb_offset b \<le> x \<and> x < e)"
proof
  assume "covers (A(e := None)) x c"
  then obtain e' where e': "e' \<noteq> e" "A e' = Some c" "fb_offset c \<le> x" "x < e'"
    by (auto simp: covers_def split: if_splits)
  then have "covers A x c" by (auto simp: covers_def)
  moreover have "\<not> (fb_offset b \<le> x \<and> x < e)"
    using shape_disj [OF sh A e'(2)] shape_disj [OF sh e'(2) A] e' by linarith
  ultimately show "covers A x c \<and> \<not> (fb_offset b \<le> x \<and> x < e)" by simp
next
  assume "covers A x c \<and> \<not> (fb_offset b \<le> x \<and> x < e)"
  then obtain e' where "A e' = Some c" "fb_offset c \<le> x" "x < e'" "\<not> (fb_offset b \<le> x \<and> x < e)"
    by (auto simp: covers_def)
  moreover from this have "e' \<noteq> e" using A by auto
  ultimately show "covers (A(e := None)) x c" unfolding covers_def by (intro exI [of _ e']) simp
qed

lemma covers_add:
  assumes "A e = None"
  shows "covers (A(e \<mapsto> b)) x c \<longleftrightarrow> covers A x c \<or> (c = b \<and> fb_offset b \<le> x \<and> x < e)"
  using assms unfolding covers_def by (metis fun_upd_apply option.distinct(1) option.inject)

lemma covers_upd:
  assumes sh: "shape M A" and A: "A e = Some b"
  shows "covers (A(e \<mapsto> b')) x c \<longleftrightarrow>
    (covers A x c \<and> \<not> (fb_offset b \<le> x \<and> x < e)) \<or> (c = b' \<and> fb_offset b' \<le> x \<and> x < e)"
proof -
  have "A(e \<mapsto> b') = (A(e := None))(e \<mapsto> b')" by simp
  then show ?thesis using covers_add [of "A(e := None)" e b'] covers_del [OF sh A] by (metis fun_upd_same)
qed

lemma byte_at_cong: "arrays l' = arrays l \<Longrightarrow> byte_at l' b x = byte_at l b x"
  by (cases "fb_data b"; cases "fb_ptr b") (simp_all add: byte_at_def)

lemma cell_of_cong: "arrays l' = arrays l \<Longrightarrow> cell_of l' b x = cell_of l b x"
  using byte_at_cong [of l' l b x] by (simp add: cell_of_def)

lemma cell_of_qid [simp]: "cell_of l (b\<lparr>fb_queueId := q\<rparr>) x = cell_of l b x"
  by (cases "fb_data b"; cases "fb_ptr b") (simp_all add: cell_of_def byte_at_def)

lemma cell_of_piece:
  assumes "piece b y n c" "fb_offset b \<le> y" "y \<le> x"
  shows "cell_of l c x = cell_of l b x"
proof -
  have "(y - fb_offset b) + (x - y) = x - fb_offset b" using assms by simp
  then have "s + (y - fb_offset b) + (x - y) = s + (x - fb_offset b)" for s by linarith
  then show ?thesis
    using assms by (cases "fb_data b"; cases "fb_ptr b") (auto simp: cell_of_def byte_at_def piece_def)
qed

section \<open>Iteration\<close>

context btree_map
begin

lemma length_asc: "length (bt_asc B m p) \<le> bt_len B m"
proof -
  have d: "distinct (map fst (bt_asc B m p))" using asc_sorted [of m p] by (simp add: strict_sorted_iff)
  have "length (bt_asc B m p) = card (set (map fst (bt_asc B m p)))"
    using distinct_card [OF d] by simp
  also have "\<dots> \<le> card (dom (bt_get B m))"
    by (rule card_mono [OF finite_dom]) (auto simp: asc_set)
  finally show ?thesis by (simp add: len_get)
qed

lemma asc_skip:
  assumes "bt_get B m k = None"
  shows "bt_asc B m k = bt_asc B m (Suc k)"
  by (rule asc_unique) (use asc_sorted [of m "Suc k"] assms in \<open>auto simp: asc_set Suc_le_eq order_le_less\<close>)

lemma asc_hit:
  assumes "bt_get B m k = Some v"
  shows "bt_asc B m k = (k, v) # bt_asc B m (Suc k)"
proof (cases "bt_asc B m k")
  case Nil
  with assms show ?thesis by (auto simp: asc_Nil)
next
  case (Cons e es)
  obtain k' v' where e: "e = (k', v')" by fastforce
  have "k \<le> k'" "k' \<le> k" using asc_first [OF Cons [unfolded e]] assms by auto
  then have "k' = k" by simp
  then show ?thesis using asc_first(1) [OF Cons [unfolded e]] asc_tail [OF Cons [unfolded e]] assms Cons e by simp
qed

lemma restart_skip:
  "ascendChange_loop B tree iter n (Some k) (bt_asc B t k) s =
   ascendChange_loop B tree iter n (Some k) (bt_asc B t (Suc k)) s"
  by (cases "bt_get B t k") (simp_all add: asc_skip asc_hit)

lemma ascendChange_loop_rule:
  assumes step: "\<And>p s k v. I p s \<Longrightarrow> bt_get B (tree s) k = Some v \<Longrightarrow> p \<le> k \<Longrightarrow>
      (\<And>j. p \<le> j \<Longrightarrow> j < k \<Longrightarrow> bt_get B (tree s) j = None) \<Longrightarrow>
      \<exists>c chg s'. iter k v s = Some (c, chg, s') \<and>
        (if c then I (Suc k) s' \<and> (\<forall>j. k < j \<longrightarrow> bt_get B (tree s') j = bt_get B (tree s) j) else Q s')"
    and exit: "\<And>p s. I p s \<Longrightarrow> (\<And>k. p \<le> k \<Longrightarrow> bt_get B (tree s) k = None) \<Longrightarrow> Q s"
  shows "I p s \<Longrightarrow> (\<forall>k. lst = Some k \<longrightarrow> k < p) \<Longrightarrow> length (bt_asc B (tree s) p) \<le> n \<Longrightarrow>
    \<exists>s'. ascendChange_loop B tree iter n lst (bt_asc B (tree s) p) s = Some s' \<and> Q s'"
proof (induction "length (bt_asc B (tree s) p)" arbitrary: p s n lst)
  case 0
  then have "bt_asc B (tree s) p = []" by simp
  moreover from this have "\<And>k. p \<le> k \<Longrightarrow> bt_get B (tree s) k = None"
    by (metis asc_Nil not_None_eq not_le)
  ultimately show ?case using exit [OF \<open>I p s\<close>] by simp
next
  case (Suc m)
  then obtain k v es where es: "bt_asc B (tree s) p = (k, v) # es" by (metis length_Suc_conv surj_pair)
  note f = asc_first [OF es] and t = asc_tail [OF es]
  have gap: "bt_get B (tree s) j = None" if "p \<le> j" "j < k" for j
    using f(3) [of j] that by (metis not_None_eq not_le)
  from step [OF \<open>I p s\<close> f(1,2) gap] obtain c chg s' where i: "iter k v s = Some (c, chg, s')"
    "if c then I (Suc k) s' \<and> (\<forall>j. k < j \<longrightarrow> bt_get B (tree s') j = bt_get B (tree s) j) else Q s'" by blast
  have ne: "lst \<noteq> Some k" using Suc.prems(2) f(2) by auto
  show ?case
  proof (cases c)
    case False
    then show ?thesis using i ne es by simp
  next
    case True
    with i(2) have I': "I (Suc k) s'" and eq: "\<And>j. Suc k \<le> j \<Longrightarrow> bt_get B (tree s') j = bt_get B (tree s) j"
      by auto
    have tl: "bt_asc B (tree s') (Suc k) = es" using t asc_cong [OF eq] by simp
    have m: "m = length (bt_asc B (tree s') (Suc k))" "Suc m \<le> n" using Suc.hyps(2) Suc.prems(3) es tl by auto
    obtain n' where n': "n = Suc n'" using m(2) by (cases n) auto
    show ?thesis
    proof (cases chg)
      case True
      have "\<exists>s''. ascendChange_loop B tree iter n' (Some k) (bt_asc B (tree s') (Suc k)) s' = Some s'' \<and> Q s''"
        by (rule Suc.hyps(1) [OF m(1) I']) (use m n' in auto)
      then show ?thesis using True \<open>c\<close> i(1) ne es n' by (simp add: restart_skip)
    next
      case False
      have "\<exists>s''. ascendChange_loop B tree iter n lst (bt_asc B (tree s') (Suc k)) s' = Some s'' \<and> Q s''"
        by (rule Suc.hyps(1) [OF m(1) I']) (use m f(2) Suc.prems(2) in \<open>auto simp: less_Suc_eq order_less_le_trans\<close>)
      then show ?thesis using False \<open>c\<close> i(1) ne es tl by simp
    qed
  qed
qed

lemma ascendChange_rule:
  assumes "I p s"
    and "\<And>p s k v. I p s \<Longrightarrow> bt_get B (tree s) k = Some v \<Longrightarrow> p \<le> k \<Longrightarrow>
      (\<And>j. p \<le> j \<Longrightarrow> j < k \<Longrightarrow> bt_get B (tree s) j = None) \<Longrightarrow>
      \<exists>c chg s'. iter k v s = Some (c, chg, s') \<and>
        (if c then I (Suc k) s' \<and> (\<forall>j. k < j \<longrightarrow> bt_get B (tree s') j = bt_get B (tree s) j) else Q s')"
    and "\<And>p s. I p s \<Longrightarrow> (\<And>k. p \<le> k \<Longrightarrow> bt_get B (tree s) k = None) \<Longrightarrow> Q s"
  shows "\<exists>s'. ascendChange B tree p iter s = Some s' \<and> Q s'"
  unfolding ascendChange_def
  by (rule ascendChange_loop_rule [where I = I, OF assms(2,3,1)]) (simp_all add: length_asc)

end

section \<open>Cells\<close>

context buffer_env
begin

lemma find_buf_iff:
  assumes sh: "shape M (bufs E l)"
  shows "find_buf E l x = Some b \<longleftrightarrow> covers (bufs E l) x b"
proof (cases "bt_asc (env_at E) (bl_at l) (Suc x)")
  case Nil
  then have "\<And>e c. bufs E l e = Some c \<Longrightarrow> e < Suc x" by (simp add: at.asc_Nil)
  then show ?thesis using Nil by (force simp: find_buf_def covers_def)
next
  case (Cons h es)
  obtain k c where h: "h = (k, c)" by fastforce
  note f = at.asc_first [OF Cons [unfolded h], unfolded bufs_simps(4)]
  have "find_buf E l x = Some b \<longleftrightarrow> fb_offset c \<le> x \<and> b = c" using Cons h by (auto simp: find_buf_def)
  also have "\<dots> \<longleftrightarrow> covers (bufs E l) x b"
  proof
    assume "fb_offset c \<le> x \<and> b = c"
    then show "covers (bufs E l) x b" using f by (auto simp: covers_def)
  next
    assume "covers (bufs E l) x b"
    then obtain e where e: "bufs E l e = Some b" "fb_offset b \<le> x" "x < e" by (auto simp: covers_def)
    have "k \<le> e" using f(3) [OF e(1)] e(3) by simp
    moreover have "\<not> k < e" using shape_disj [OF sh f(1) e(1)] e f(2) by linarith
    ultimately have "e = k" by simp
    then show "fb_offset c \<le> x \<and> b = c" using e f(1) by simp
  qed
  finally show ?thesis .
qed

lemma cell_Some:
  assumes "shape M (bufs E l)"
  shows "cell E l x = Some c \<longleftrightarrow> (\<exists>b. covers (bufs E l) x b \<and> c = cell_of l b x)"
  unfolding cell_def using find_buf_iff [OF assms, of x] by auto

lemma cell_None:
  assumes "shape M (bufs E l)"
  shows "cell E l x = None \<longleftrightarrow> (\<forall>b. \<not> covers (bufs E l) x b)"
  unfolding cell_def using find_buf_iff [OF assms, of x] by (metis not_None_eq option.map_disc_iff)

lemma cell_covers:
  assumes "shape M (bufs E l)" "bufs E l e = Some b" "fb_offset b \<le> x" "x < e"
  shows "cell E l x = Some (cell_of l b x)"
  using cell_Some [OF assms(1)] assms(2-4) by (auto simp: covers_def)

lemma did_covers:
  assumes "shape M (bufs E l)" "covers (bufs E l) x b"
  shows "did E l x = fb_dirtyID b"
  using find_buf_iff [OF assms(1), of x b] assms(2) by (simp add: did_def)

lemma did_None:
  assumes "shape M (bufs E l)" "cell E l x = None"
  shows "did E l x = 0"
  using assms(2) by (cases "find_buf E l x") (simp_all add: did_def cell_def)

lemma did_cases:
  assumes "shape M (bufs E l)"
  obtains "did E l x = 0" "cell E l x = None" | b where "covers (bufs E l) x b" "did E l x = fb_dirtyID b"
proof (cases "find_buf E l x")
  case None
  then show ?thesis using that(1) by (simp add: did_def cell_def)
next
  case (Some b)
  then show ?thesis using that(2) [of b] find_buf_iff [OF assms, of x b] by (simp add: did_def)
qed

lemma did_same:
  assumes "shape M (bufs E l)" "shape M (bufs E l')" "bufs E l' = bufs E l"
  shows "did E l' x = did E l x"
  using find_buf_iff [OF assms(1), of x] find_buf_iff [OF assms(2), of x] assms(3)
  by (metis did_def not_Some_eq)

lemma idst_delete:
  assumes sh: "shape M (bufs E l)" and b: "bufs E l e = Some b"
    and l': "bufs E l' = (bufs E l)(e := None)" "bl_curDirtyID l \<le> bl_curDirtyID l'"
  shows "idst E l l'"
proof -
  have "shape M (bufs E l')" unfolding l'(1) by (rule shape_del [OF sh])
  then have "did E l' x = 0 \<or> did E l' x = did E l x" for x
    by (rule did_cases [of l' x]) (use did_covers [OF sh] covers_del [OF sh b] in \<open>auto simp: l'(1)\<close>)
  then show ?thesis using l'(2) unfolding idst_def by metis
qed

lemma idst_upd:
  assumes sh: "shape M (bufs E l)" "shape M (bufs E l')" and b: "bufs E l e = Some b"
    and l': "bufs E l' = (bufs E l)(e \<mapsto> b')" "bl_curDirtyID l \<le> bl_curDirtyID l'"
    and b': "fb_dirtyID b' = 0 \<or> bl_curDirtyID l < fb_dirtyID b' \<or> fb_dirtyID b' = fb_dirtyID b \<and> fb_offset b \<le> fb_offset b'"
  shows "idst E l l'"
proof -
  have "did E l' x = 0 \<or> bl_curDirtyID l < did E l' x \<or> did E l' x = did E l x" for x
    using sh(2)
  proof (rule did_cases [of l' x])
    fix c assume c: "covers (bufs E l') x c" "did E l' x = fb_dirtyID c"
    then consider "covers (bufs E l) x c" | "c = b'" "fb_offset b' \<le> x" "x < e"
      unfolding l'(1) covers_upd [OF sh(1) b] by blast
    then show ?thesis
    proof cases
      case 1
      then show ?thesis using c(2) did_covers [OF sh(1)] by simp
    next
      case 2
      then have "fb_offset b \<le> fb_offset b' \<Longrightarrow> covers (bufs E l) x b" using b by (auto simp: covers_def)
      then show ?thesis using b' 2 c(2) did_covers [OF sh(1)] by auto
    qed
  qed simp
  then show ?thesis using l'(2) by (simp add: idst_def)
qed

lemma idst_add:
  assumes sh: "shape M (bufs E l)" "shape M (bufs E l')" and e: "bufs E l e = None"
    and l': "bufs E l' = (bufs E l)(e \<mapsto> b')" "bl_curDirtyID l \<le> bl_curDirtyID l'"
    and b': "fb_dirtyID b' = 0 \<or> bl_curDirtyID l < fb_dirtyID b' \<or>
      (\<forall>x. fb_offset b' \<le> x \<longrightarrow> x < e \<longrightarrow> fb_dirtyID b' = did E l x)"
  shows "idst E l l'"
proof -
  have "did E l' x = 0 \<or> bl_curDirtyID l < did E l' x \<or> did E l' x = did E l x" for x
    using sh(2)
  proof (rule did_cases [of l' x])
    fix c assume c: "covers (bufs E l') x c" "did E l' x = fb_dirtyID c"
    then consider "covers (bufs E l) x c" | "c = b'" "fb_offset b' \<le> x" "x < e"
      unfolding l'(1) covers_add [where A = "bufs E l", OF e] by blast
    then show ?thesis
    proof cases
      case 1
      then show ?thesis using c(2) did_covers [OF sh(1)] by simp
    next
      case 2
      then show ?thesis using b' c(2) by auto
    qed
  qed simp
  then show ?thesis using l'(2) by (simp add: idst_def)
qed

lemma idst_move:
  assumes sh: "shape M (bufs E l)" "shape M (bufs E l')" and e: "((bufs E l)(k := None)) e = None"
    and l': "bufs E l' = (bufs E l)(k := None, e \<mapsto> b')" "bl_curDirtyID l \<le> bl_curDirtyID l'"
    and b': "fb_dirtyID b' = 0 \<or> bl_curDirtyID l < fb_dirtyID b'"
  shows "idst E l l'"
proof -
  have co: "covers (bufs E l') x c \<longleftrightarrow> covers ((bufs E l)(k := None)) x c \<or> (c = b' \<and> fb_offset b' \<le> x \<and> x < e)" for x c
    unfolding l'(1) by (rule covers_add [where A = "(bufs E l)(k := None)", OF e])
  have old: "covers ((bufs E l)(k := None)) x c \<Longrightarrow> covers (bufs E l) x c" for x c
    by (auto simp: covers_def split: if_splits)
  have "did E l' x = 0 \<or> bl_curDirtyID l < did E l' x \<or> did E l' x = did E l x" for x
    by (rule did_cases [OF sh(2), of x]) (use co b' old did_covers [OF sh(1)] in fastforce)+
  then show ?thesis using l'(2) unfolding idst_def by blast
qed

lemma idst_split:
  assumes sh: "shape M (bufs E l)" "shape M (bufs E l')" and b: "bufs E l e = Some b" "bufs E l mid = None"
    and m: "fb_offset b < mid" "mid < e"
    and l': "bufs E l' = (bufs E l)(e \<mapsto> r, mid \<mapsto> lf)" "bl_curDirtyID l \<le> bl_curDirtyID l'"
    and pl: "piece b (fb_offset b) (mid - fb_offset b) lf" and pr: "piece b mid (e - mid) r"
    and ids: "fb_dirtyID lf = fb_dirtyID b" "fb_dirtyID r = 0 \<or> bl_curDirtyID l < fb_dirtyID r"
  shows "idst E l l'"
proof -
  have "((bufs E l)(e \<mapsto> r)) mid = None" using b(2) m by simp
  then have co: "covers (bufs E l') x c \<longleftrightarrow> (covers (bufs E l) x c \<and> \<not> (fb_offset b \<le> x \<and> x < e))
      \<or> (c = r \<and> mid \<le> x \<and> x < e) \<or> (c = lf \<and> fb_offset b \<le> x \<and> x < mid)" for x c
    unfolding l' using covers_add [of "(bufs E l)(e \<mapsto> r)" mid lf x c] covers_upd [OF sh(1) b(1), of r x c] pl pr
    by (simp add: piece_def)
  have "did E l' x = 0 \<or> bl_curDirtyID l < did E l' x \<or> did E l' x = did E l x" for x
    using sh(2)
  proof (rule did_cases [of l' x])
    fix c assume c: "covers (bufs E l') x c" "did E l' x = fb_dirtyID c"
    then consider "covers (bufs E l) x c" | "c = r" | "c = lf" "fb_offset b \<le> x" "x < mid" unfolding co by blast
    then show ?thesis
    proof cases
      case 3
      then have "covers (bufs E l) x b" using b(1) m by (auto simp: covers_def)
      then show ?thesis using 3 c(2) ids(1) did_covers [OF sh(1)] by simp
    qed (use c(2) ids(2) did_covers [OF sh(1)] in auto)
  qed simp
  then show ?thesis using l'(2) by (simp add: idst_def)
qed

lemma cell_delete:
  assumes sh: "shape M (bufs E l)" and b: "bufs E l e = Some b"
    and l': "bufs E l' = (bufs E l)(e := None)" "arrays l' = arrays l"
  shows "cell E l' x = (if fb_offset b \<le> x \<and> x < e then None else cell E l x)"
proof -
  have sh': "shape M (bufs E l')" unfolding l'(1) by (rule shape_del [OF sh])
  have co: "covers (bufs E l') x c \<longleftrightarrow> covers (bufs E l) x c \<and> \<not> (fb_offset b \<le> x \<and> x < e)" for c
    unfolding l'(1) by (rule covers_del [OF sh b])
  show ?thesis
  proof (cases "cell E l' x")
    case None
    then show ?thesis using cell_None [OF sh'] cell_None [OF sh] co by metis
  next
    case (Some c)
    then show ?thesis using cell_Some [OF sh'] cell_Some [OF sh] co cell_of_cong [OF l'(2)] by metis
  qed
qed

lemma cell_split:
  assumes sh: "shape M (bufs E l)" "shape M (bufs E l')" and b: "bufs E l e = Some b" "bufs E l mid = None"
    and m: "fb_offset b < mid" "mid < e" and ar: "arrays l' = arrays l"
    and l': "bufs E l' = (bufs E l)(e \<mapsto> r, mid \<mapsto> lf)"
    and pl: "piece b (fb_offset b) (mid - fb_offset b) lf" and pr: "piece b mid (e - mid) r"
  shows "cell E l' x = cell E l x"
proof -
  have "((bufs E l)(e \<mapsto> r)) mid = None" using b(2) m by simp
  then have co: "covers (bufs E l') x c \<longleftrightarrow> (covers (bufs E l) x c \<and> \<not> (fb_offset b \<le> x \<and> x < e))
      \<or> (c = r \<and> mid \<le> x \<and> x < e) \<or> (c = lf \<and> fb_offset b \<le> x \<and> x < mid)" for c
    unfolding l' using covers_add [of "(bufs E l)(e \<mapsto> r)" mid lf x c] covers_upd [OF sh(1) b(1), of r x c] pl pr
    by (simp add: piece_def)
  show ?thesis
  proof (cases "fb_offset b \<le> x \<and> x < e")
    case True
    then have c: "cell E l x = Some (cell_of l b x)" using cell_covers [OF sh(1) b(1)] by simp
    show ?thesis
    proof (cases "x < mid")
      case True
      then have "covers (bufs E l') x lf" using co [of lf] \<open>fb_offset b \<le> x \<and> x < e\<close> by simp
      moreover have "cell_of l' lf x = cell_of l b x"
        using cell_of_piece [OF pl, of x] True \<open>fb_offset b \<le> x \<and> x < e\<close> cell_of_cong [OF ar] by simp
      ultimately show ?thesis using c cell_Some [OF sh(2)] by metis
    next
      case False
      then have "covers (bufs E l') x r" using co [of r] \<open>fb_offset b \<le> x \<and> x < e\<close> by simp
      moreover have "cell_of l' r x = cell_of l b x"
        using cell_of_piece [OF pr, of x] False m cell_of_cong [OF ar] by simp
      ultimately show ?thesis using c cell_Some [OF sh(2)] by metis
    qed
  next
    case False
    then have "covers (bufs E l') x c \<longleftrightarrow> covers (bufs E l) x c" for c using co [of c] m by auto
    then show ?thesis
      using cell_None [OF sh(1)] cell_None [OF sh(2)] cell_Some [OF sh(1)] cell_Some [OF sh(2)] cell_of_cong [OF ar]
      by (metis not_None_eq)
  qed
qed

text \<open>What splitting and deleting do to an invariant list, in terms of its cells.\<close>

lemma delete_cells:
  assumes inv: "BL_inv E M hinv cv l" and b: "bufs E l e = Some b"
  shows "\<exists>l' n. BL_delete E l b = Some (l', n) \<and> BL_inv E M hinv cv l' \<and>
    bufs E l' = (bufs E l)(e := None) \<and> arrays l' = arrays l \<and> n = mem_total l' - mem_total l \<and>
    bl_curDirtyID l' = bl_curDirtyID l \<and> bl_nextPtr l' = bl_nextPtr l \<and>
    (\<forall>x. cell E l' x = (if fb_offset b \<le> x \<and> x < e then None else cell E l x)) \<and> idst E l l'"
  using delete_inv [OF inv b] cell_delete [OF BL_invD(1) [OF inv] b] idst_delete [OF BL_invD(1) [OF inv] b] by (metis order_refl)

lemma split_cells:
  assumes inv: "BL_inv E M hinv cv l" and b: "bufs E l e = Some b" and m: "fb_offset b < mid" "mid < e"
  shows "\<exists>l' lf r. split E l b mid = Some (l', lf, r) \<and> BL_inv E M hinv cv l' \<and>
    bufs E l' = (bufs E l)(e \<mapsto> r, mid \<mapsto> lf) \<and> piece b (fb_offset b) (mid - fb_offset b) lf \<and>
    piece b mid (e - mid) r \<and> arrays l' = arrays l \<and> mem_total l' = mem_total l \<and>
    bl_nextPtr l' = bl_nextPtr l \<and> (\<forall>x. cell E l' x = cell E l x) \<and> idst E l l'"
proof -
  from split_inv [OF inv b m] obtain l' lf r where s: "split E l b mid = Some (l', lf, r)" "BL_inv E M hinv cv l'"
    "bufs E l' = (bufs E l)(e \<mapsto> r, mid \<mapsto> lf)" "piece b (fb_offset b) (mid - fb_offset b) lf"
    "piece b mid (e - mid) r" "bufs E l mid = None" "arrays l' = arrays l" "mem_total l' = mem_total l"
    "bl_nextPtr l' = bl_nextPtr l" "fb_dirtyID lf = fb_dirtyID b" "fb_dirtyID r = 0 \<or> bl_curDirtyID l < fb_dirtyID r"
    "bl_curDirtyID l \<le> bl_curDirtyID l'" by blast
  have "\<forall>x. cell E l' x = cell E l x"
    using cell_split [OF BL_invD(1) [OF inv] BL_invD(1) [OF s(2)] b s(6) m s(7,3-5)] by blast
  moreover have "idst E l l'"
    by (rule idst_split [OF BL_invD(1) [OF inv] BL_invD(1) [OF s(2)] b s(6) m s(3,12,4,5,10,11)])
  ultimately show ?thesis using s by blast
qed

end

end
