(* ===== verification/Buffer_List_Range.thy ===== *)
theory Buffer_List_Range
  imports Buffer_List_Cells
begin

text \<open>
  The operations of a buffer list on a range of the file: removing, filling, adding
  written and loaded data, and zeroing.  Each keeps the invariant, does not panic, and has
  the stated effect on every cell.
\<close>

section \<open>Removing a range\<close>

definition removed :: "(cell \<Rightarrow> bool) \<Rightarrow> u64 \<Rightarrow> u64 \<Rightarrow> (u64 \<Rightarrow> cell option) \<Rightarrow> u64 \<Rightarrow> cell option" where
  "removed F lo hi C x =
     (case C x of None \<Rightarrow> None | Some c \<Rightarrow> if lo \<le> x \<and> x < hi \<and> F c then None else Some c)"

context buffer_env
begin

text \<open>One step removes the part of a buffer that lies in the range.\<close>

lemma remove_part:
  assumes inv: "BL_inv E M hinv cv l" and b: "bufs E l k = Some b"
    and r: "lo < hi" "lo < k" "fb_offset b < hi" and filt: "filt b"
  shows "\<exists>l' n. RemoveRange_iter E lo hi filt k b (l, al) = Some (True, True, l', al + n) \<and>
    BL_inv E M hinv cv l' \<and> (\<forall>j. k < j \<longrightarrow> bufs E l' j = bufs E l j) \<and> arrays l' = arrays l \<and>
    n = mem_total l' - mem_total l \<and> bl_nextPtr l' = bl_nextPtr l \<and>
    (\<forall>x. cell E l' x = (if fb_offset b \<le> x \<and> x < k \<and> lo \<le> x \<and> x < hi then None else cell E l x)) \<and> idst E l l'"
proof -
  note s = inv_shape [OF inv b]
  show ?thesis
  proof (cases "lo \<le> fb_offset b \<and> k \<le> hi")
    case True
    from delete_cells [OF inv b] obtain l' n where d: "BL_delete E l b = Some (l', n)"
      "BL_inv E M hinv cv l'" "bufs E l' = (bufs E l)(k := None)" "arrays l' = arrays l"
      "n = mem_total l' - mem_total l" "bl_nextPtr l' = bl_nextPtr l"
      "\<forall>x. cell E l' x = (if fb_offset b \<le> x \<and> x < k then None else cell E l x)" "idst E l l'" by blast
    have "RemoveRange_iter E lo hi filt k b (l, al) = Some (True, True, l', al + n)"
      using True r s filt d(1) by (simp add: RemoveRange_iter_def)
    moreover have "\<forall>x. cell E l' x = (if fb_offset b \<le> x \<and> x < k \<and> lo \<le> x \<and> x < hi then None else cell E l x)"
      using d(7) True by auto
    ultimately show ?thesis using d(2-6,8) by auto
  next
    case False
    obtain l1 rm where s1: "(if hi < k then map_option (\<lambda>(l, left, _). (l, left)) (split E l b hi)
          else Some (l, b)) = Some (l1, rm)"
      "BL_inv E M hinv cv l1" "bufs E l1 (min hi k) = Some rm" "fb_offset rm = fb_offset b" "fb_state rm = fb_state b"
      "\<forall>j. k < j \<longrightarrow> bufs E l1 j = bufs E l j" "arrays l1 = arrays l" "mem_total l1 = mem_total l"
      "bl_nextPtr l1 = bl_nextPtr l" "\<forall>x. cell E l1 x = cell E l x" "idst E l l1"
    proof (cases "hi < k")
      case True
      from split_cells [OF inv b r(3) True] obtain l' lf rt where c: "split E l b hi = Some (l', lf, rt)"
        "BL_inv E M hinv cv l'" "bufs E l' = (bufs E l)(k \<mapsto> rt, hi \<mapsto> lf)"
        "piece b (fb_offset b) (hi - fb_offset b) lf" "arrays l' = arrays l"
        "mem_total l' = mem_total l" "bl_nextPtr l' = bl_nextPtr l" "\<forall>x. cell E l' x = cell E l x" "idst E l l'" by blast
      show ?thesis by (rule that [of l' lf]) (use c True in \<open>auto simp: piece_def\<close>)
    next
      case False
      show ?thesis by (rule that [of l b]) (use False inv b in \<open>auto simp: min_def\<close>)
    qed
    obtain l2 rm' where s2: "(if lo > fb_offset b then map_option (\<lambda>(l, _, right). (l, right)) (split E l1 rm lo)
          else Some (l1, rm)) = Some (l2, rm')"
      "BL_inv E M hinv cv l2" "bufs E l2 (min hi k) = Some rm'" "fb_offset rm' = max lo (fb_offset b)"
      "\<forall>j. k < j \<longrightarrow> bufs E l2 j = bufs E l j" "arrays l2 = arrays l" "mem_total l2 = mem_total l"
      "bl_nextPtr l2 = bl_nextPtr l" "\<forall>x. cell E l2 x = cell E l x" "idst E l l2"
    proof (cases "lo > fb_offset b")
      case True
      have m: "fb_offset rm < lo" "lo < min hi k" using True s1(4) r by auto
      from split_cells [OF s1(2,3) m] obtain l' lf rt where c: "split E l1 rm lo = Some (l', lf, rt)"
        "BL_inv E M hinv cv l'" "bufs E l' = (bufs E l1)(min hi k \<mapsto> rt, lo \<mapsto> lf)"
        "piece rm lo (min hi k - lo) rt" "arrays l' = arrays l1"
        "mem_total l' = mem_total l1" "bl_nextPtr l' = bl_nextPtr l1" "\<forall>x. cell E l' x = cell E l1 x" "idst E l1 l'" by blast
      have t: "idst E l l'" by (rule idst_trans [OF s1(11) c(9)])
      show ?thesis
      proof (rule that [of l' rt])
        show "idst E l l'" by (rule t)
      qed (use c(1-8) True m r s1(6-10) in \<open>auto simp: piece_def\<close>)
    next
      case False
      then show ?thesis by (intro that [of l1 rm]) (use s1 in \<open>auto simp: max_def\<close>)
    qed
    from delete_cells [OF s2(2,3)] obtain l' n where d: "BL_delete E l2 rm' = Some (l', n)"
      "BL_inv E M hinv cv l'" "bufs E l' = (bufs E l2)(min hi k := None)" "arrays l' = arrays l2"
      "n = mem_total l' - mem_total l2" "bl_nextPtr l' = bl_nextPtr l2"
      "\<forall>x. cell E l' x = (if fb_offset rm' \<le> x \<and> x < min hi k then None else cell E l2 x)" "idst E l2 l'" by blast
    have "RemoveRange_iter E lo hi filt k b (l, al) = Some (True, True, l', al + n)"
      using False r s filt s1(1) s2(1) d(1) by (auto simp: RemoveRange_iter_def)
    moreover have "\<forall>x. cell E l' x = (if fb_offset b \<le> x \<and> x < k \<and> lo \<le> x \<and> x < hi then None else cell E l x)"
      using d(7) s2(4,9) by auto
    ultimately show ?thesis using d(2-6) s2(5-8) idst_trans [OF s2(10) d(8)] by auto
  qed
qed

lemma RemoveRange_cells:
  assumes inv: "BL_inv E M hinv cv l" and sz: "0 < sz" "off + sz < u64_max"
    and F: "\<And>(l :: ('t, 'd, 'h) BufferList) b x. filt b \<longleftrightarrow> F (cell_of l b x)"
  shows "\<exists>l' n. RemoveRange E l off sz filt = Some (l', n) \<and> BL_inv E M hinv cv l' \<and>
    arrays l' = arrays l \<and> bl_nextPtr l' = bl_nextPtr l \<and> n = mem_total l' - mem_total l \<and>
    cell E l' = removed F off (off + sz) (cell E l) \<and> idst E l l'"
proof -
  define I where "I p s \<longleftrightarrow> (case s of (l', n) \<Rightarrow> BL_inv E M hinv cv l' \<and> off < p \<and> arrays l' = arrays l \<and>
      bl_nextPtr l' = bl_nextPtr l \<and> n = mem_total l' - mem_total l \<and>
      (\<forall>x. Suc x < p \<longrightarrow> cell E l' x = removed F off (off + sz) (cell E l) x) \<and>
      (\<forall>x. p \<le> Suc x \<longrightarrow> cell E l' x = cell E l x) \<and> idst E l l')" for p s
  define Q where "Q s \<longleftrightarrow> (case s of (l', n) \<Rightarrow> BL_inv E M hinv cv l' \<and> arrays l' = arrays l \<and>
      bl_nextPtr l' = bl_nextPtr l \<and> n = mem_total l' - mem_total l \<and>
      cell E l' = removed F off (off + sz) (cell E l) \<and> idst E l l')" for s
  have QI: "Q s" if I: "I p s" and none: "\<And>x. p \<le> Suc x \<Longrightarrow> off \<le> x \<Longrightarrow> x < off + sz \<Longrightarrow> cell E (fst s) x = None" for p s
  proof -
    obtain l' n where s: "s = (l', n)" by fastforce
    have "cell E l' x = removed F off (off + sz) (cell E l) x" for x
    proof (cases "Suc x < p")
      case True
      then show ?thesis using I s by (simp add: I_def)
    next
      case False
      then have "cell E l' x = cell E l x" using I s by (simp add: I_def)
      moreover have "off \<le> x \<Longrightarrow> x < off + sz \<Longrightarrow> cell E l' x = None" using none [of x] False s by simp
      ultimately show ?thesis by (auto simp: removed_def split: option.splits)
    qed
    then show ?thesis using I s by (auto simp: I_def Q_def)
  qed
  have "\<exists>s'. ascendChange (env_at E) (\<lambda>(l, _). bl_at l) (Suc off) (RemoveRange_iter E off (off + sz) filt) (l, 0)
      = Some s' \<and> Q s'"
  proof (rule at.ascendChange_rule [where I = I])
    show "I (Suc off) (l, 0)" using inv by (auto simp: I_def removed_def split: option.splits)
  next
    fix p s k b
    assume I: "I p s" and get: "bt_get (env_at E) (case s of (l, _) \<Rightarrow> bl_at l) k = Some b" and pk: "p \<le> k"
      and gap: "\<And>j. p \<le> j \<Longrightarrow> j < k \<Longrightarrow> bt_get (env_at E) (case s of (l, _) \<Rightarrow> bl_at l) j = None"
    obtain l' n where s: "s = (l', n)" by fastforce
    have inv': "BL_inv E M hinv cv l'" and offp: "off < p" using I s by (simp_all add: I_def)
    have b: "bufs E l' k = Some b" using get s by simp
    note sb = inv_shape [OF inv' b] and sh = BL_invD(1) [OF inv']
    have none: "cell E l' x = None" if "p \<le> Suc x" "x < fb_offset b" for x
    proof -
      have "\<not> covers (bufs E l') x c" for c
      proof
        assume "covers (bufs E l') x c"
        then obtain e where e: "bufs E l' e = Some c" "fb_offset c \<le> x" "x < e" by (auto simp: covers_def)
        have "\<not> e < k" using gap [of e] e(1,3) that(1) s by (auto simp: bufs_simps)
        moreover have "e \<noteq> k" using e b that(2) by auto
        moreover have "\<not> k < e" using shape_disj [OF sh b e(1)] e(2) that(2) sb(4) by linarith
        ultimately show False by simp
      qed
      then show ?thesis using cell_None [OF sh] by simp
    qed
    show "\<exists>c chg s'. RemoveRange_iter E off (off + sz) filt k b s = Some (c, chg, s') \<and>
       (if c then I (Suc k) s' \<and> (\<forall>j. k < j \<longrightarrow> bt_get (env_at E) (case s' of (l, _) \<Rightarrow> bl_at l) j =
          bt_get (env_at E) (case s of (l, _) \<Rightarrow> bl_at l) j) else Q s')"
    proof (cases "off + sz \<le> fb_offset b")
      case True
      have "Q s" by (rule QI [OF I]) (use none True s in auto)
      moreover have "RemoveRange_iter E off (off + sz) filt k b s = Some (False, False, s)"
        using True s by (simp add: RemoveRange_iter_def)
      ultimately show ?thesis by (intro exI conjI) auto
    next
      case False
      have old: "cell E l' x = cell E l x" if "p \<le> Suc x" for x using I s that by (simp add: I_def)
      show ?thesis
      proof (cases "filt b")
        case True
        have "off < k" "fb_offset b < off + sz" using offp pk False by auto
        from remove_part [where filt = filt, OF inv' b _ this True, of n] obtain l2 m where d:
          "RemoveRange_iter E off (off + sz) filt k b (l', n) = Some (True, True, l2, n + m)"
          "BL_inv E M hinv cv l2" "\<forall>j. k < j \<longrightarrow> bufs E l2 j = bufs E l' j" "arrays l2 = arrays l'"
          "m = mem_total l2 - mem_total l'" "bl_nextPtr l2 = bl_nextPtr l'"
          "\<forall>x. cell E l2 x = (if fb_offset b \<le> x \<and> x < k \<and> off \<le> x \<and> x < off + sz then None else cell E l' x)"
          "idst E l' l2"
          using sz by auto
        have "cell E l2 x = removed F off (off + sz) (cell E l) x" if "x < k" for x
        proof -
          have cb: "cell E l' x = Some (cell_of l' b x)" "F (cell_of l' b x)" if "fb_offset b \<le> x"
            using cell_covers [OF sh b that \<open>x < k\<close>] F [of b l' x] \<open>filt b\<close> by simp_all
          show ?thesis
          proof (cases "p \<le> Suc x")
            case True
            then show ?thesis using d(7) old [OF True] none [OF True] that cb
              by (cases "fb_offset b \<le> x") (auto simp: removed_def split: option.splits)
          next
            case False
            then have "cell E l' x = removed F off (off + sz) (cell E l) x" using I s by (simp add: I_def)
            then show ?thesis using d(7) that cb
              by (cases "fb_offset b \<le> x") (auto simp: removed_def split: option.splits if_splits)
          qed
        qed
        moreover have "cell E l2 x = cell E l x" if "k \<le> x" for x using d(7) old [of x] pk that by simp
        moreover have "idst E l l2" using I s d(8) idst_trans by (auto simp: I_def)
        ultimately have "I (Suc k) (l2, n + m)" using I s d \<open>off < k\<close> by (auto simp: I_def)
        then show ?thesis using d(1,3) s by auto
      next
        case False
        have "cell E l' x = removed F off (off + sz) (cell E l) x" if "x < k" for x
        proof (cases "p \<le> Suc x")
          case True
          have "cell E l' x = Some (cell_of l' b x)" "\<not> F (cell_of l' b x)" if "fb_offset b \<le> x"
            using cell_covers [OF sh b that \<open>x < k\<close>] F [of b l' x] False by auto
          then show ?thesis using old [OF True] none [OF True]
            by (cases "fb_offset b \<le> x") (auto simp: removed_def split: option.splits)
        qed (use I s in \<open>simp add: I_def\<close>)
        then have "I (Suc k) s" using I s pk old by (auto simp: I_def)
        moreover have "RemoveRange_iter E off (off + sz) filt k b s = Some (True, False, s)"
          using False \<open>\<not> off + sz \<le> fb_offset b\<close> s by (simp add: RemoveRange_iter_def)
        ultimately show ?thesis by (intro exI conjI) auto
      qed
    qed
  next
    fix p s assume I: "I p s" and e: "\<And>k. p \<le> k \<Longrightarrow> bt_get (env_at E) (case s of (l, _) \<Rightarrow> bl_at l) k = None"
    show "Q s"
    proof (rule QI [OF I])
      fix x assume "p \<le> Suc x"
      obtain l' n where s: "s = (l', n)" by fastforce
      have "\<not> covers (bufs E l') x c" for c using e s \<open>p \<le> Suc x\<close> by (auto simp: covers_def)
      moreover have "shape M (bufs E l')" using I s BL_invD(1) by (auto simp: I_def)
      ultimately show "cell E (fst s) x = None" using s cell_None by auto
    qed
  qed
  moreover have "add64 off 1 = Suc off" "add64 off sz = off + sz" using sz by (simp_all add: u64_simps)
  ultimately show ?thesis unfolding RemoveRange_def by (auto simp: Q_def)
qed

section \<open>Filling the holes of a range\<close>

lemma fill_skip_spec:
  assumes inv: "BL_inv E M hinv cv l"
  shows "fill_skip hi cur (bt_asc (env_at E) (bl_at l) (Suc cur)) = (cur', nxt) \<Longrightarrow>
    cur \<le> cur' \<and> (\<forall>x. cur \<le> x \<longrightarrow> x < cur' \<longrightarrow> cell E l x \<noteq> None) \<and>
    (cur' < hi \<longrightarrow> (case nxt of None \<Rightarrow> \<forall>x \<ge> cur'. cell E l x = None
       | Some b \<Rightarrow> cur' < fb_offset b \<and> (\<forall>x. cur' \<le> x \<longrightarrow> x < fb_offset b \<longrightarrow> cell E l x = None)))"
proof (induction "length (bt_asc (env_at E) (bl_at l) (Suc cur))" arbitrary: cur)
  case 0
  then have "bt_asc (env_at E) (bl_at l) (Suc cur) = []" by simp
  then have "\<And>x b. cur \<le> x \<Longrightarrow> \<not> covers (bufs E l) x b" by (force simp: at.asc_Nil covers_def)
  with 0 show ?case using cell_None [OF BL_invD(1) [OF inv]] by auto
next
  case (Suc m)
  then obtain k b es where es: "bt_asc (env_at E) (bl_at l) (Suc cur) = (k, b) # es"
    by (metis length_Suc_conv surj_pair)
  note f = at.asc_first [OF es, unfolded bufs_simps(4)] and t = at.asc_tail [OF es]
  note sh = BL_invD(1) [OF inv] and sb = inv_shape [OF inv f(1)]
  show ?case
  proof (cases "fb_offset b \<le> cur")
    case True
    have cov: "cell E l x \<noteq> None" if "cur \<le> x" "x < k" for x
      using cell_covers [OF sh f(1), of x] that True by simp
    show ?thesis
    proof (cases "k < hi")
      case True
      have "fill_skip hi k (bt_asc (env_at E) (bl_at l) (Suc k)) = (cur', nxt)"
        using Suc.prems es t True \<open>fb_offset b \<le> cur\<close> sb by simp
      moreover have "m = length (bt_asc (env_at E) (bl_at l) (Suc k))" using Suc.hyps(2) es t by simp
      ultimately have ih: "k \<le> cur' \<and> (\<forall>x. k \<le> x \<longrightarrow> x < cur' \<longrightarrow> cell E l x \<noteq> None) \<and>
        (cur' < hi \<longrightarrow> (case nxt of None \<Rightarrow> \<forall>x \<ge> cur'. cell E l x = None
           | Some b \<Rightarrow> cur' < fb_offset b \<and> (\<forall>x. cur' \<le> x \<longrightarrow> x < fb_offset b \<longrightarrow> cell E l x = None)))"
        using Suc.hyps(1) by blast
      moreover have "\<forall>x. cur \<le> x \<longrightarrow> x < cur' \<longrightarrow> cell E l x \<noteq> None" using ih cov by (meson not_le)
      ultimately show ?thesis using f(2) by simp
    next
      case False
      then have "cur' = k" using Suc.prems es \<open>fb_offset b \<le> cur\<close> sb by simp
      then show ?thesis using cov f(2) False by auto
    qed
  next
    case False
    then have r: "cur' = cur" "nxt = Some b" using Suc.prems es by auto
    have "cell E l x = None" if "cur \<le> x" "x < fb_offset b" for x
    proof -
      have "\<not> covers (bufs E l) x c" for c
      proof
        assume "covers (bufs E l) x c"
        then obtain e where e: "bufs E l e = Some c" "fb_offset c \<le> x" "x < e" by (auto simp: covers_def)
        have "k \<le> e" using f(3) [OF e(1)] e(3) that(1) by simp
        moreover have "k \<noteq> e" using e f(1) that(2) by auto
        ultimately have "k \<le> fb_offset c" using shape_disj [OF sh f(1) e(1)] by simp
        then show False using e(2) that(2) sb(4) by simp
      qed
      then show ?thesis using cell_None [OF sh] by simp
    qed
    then show ?thesis using r False by simp
  qed
qed

lemma fill_loop_rule:
  assumes inv: "\<And>cur s. I cur s \<Longrightarrow> BL_inv E M hinv cv (fst s)" and hi: "hi < u64_max"
    and skip: "\<And>cur cur' s. I cur s \<Longrightarrow> cur \<le> cur' \<Longrightarrow>
      (\<And>x. cur \<le> x \<Longrightarrow> x < cur' \<Longrightarrow> cell E (fst s) x \<noteq> None) \<Longrightarrow> I cur' s"
    and step: "\<And>cur new s. I cur s \<Longrightarrow> cur < new \<Longrightarrow> new \<le> hi \<Longrightarrow>
      (\<And>x. cur \<le> x \<Longrightarrow> x < new \<Longrightarrow> cell E (fst s) x = None) \<Longrightarrow> \<exists>s'. cb cur new s = Some s' \<and> I new s'"
  shows "I cur s \<Longrightarrow> hi < n + cur \<or> hi \<le> cur \<Longrightarrow> \<exists>s' cur'. fill_loop n E cb hi cur s = Some s' \<and> hi \<le> cur' \<and> I cur' s'"
proof (induction n arbitrary: cur s)
  case 0
  then have "hi \<le> cur" by auto
  moreover from this have "fill_loop 0 E cb hi cur s = Some s" by (subst fill_loop.simps) simp
  ultimately show ?case using 0(1) by blast
next
  case (Suc n)
  show ?case
  proof (cases "cur < hi")
    case False
    then have "fill_loop (Suc n) E cb hi cur s = Some s" by (subst fill_loop.simps) simp
    moreover have "hi \<le> cur" using False by simp
    ultimately show ?thesis using Suc.prems(1) by blast
  next
    case True
    obtain cur' nxt where sk: "fill_skip hi cur (bt_asc (env_at E) (bl_at (fst s)) (Suc cur)) = (cur', nxt)"
      by fastforce
    note sp = fill_skip_spec [OF inv [OF Suc.prems(1)] sk]
    have I': "I cur' s" by (rule skip [OF Suc.prems(1)]) (use sp in auto)
    have suc: "add64 cur 1 = Suc cur" using True hi by (simp add: u64_simps)
    let ?new = "case nxt of None \<Rightarrow> hi | Some b \<Rightarrow> if fb_offset b < hi then fb_offset b else hi"
    show ?thesis
    proof (cases "cur' < hi")
      case False
      then have "\<exists>s' c. fill_loop n E cb hi cur' s = Some s' \<and> hi \<le> c \<and> I c s'" using Suc.IH [OF I'] by simp
      then show ?thesis using True False sk suc by (subst fill_loop.simps) simp
    next
      case c: True
      have new: "cur' < ?new" "?new \<le> hi" using sp c by (auto split: option.splits)
      have "cell E (fst s) x = None" if "cur' \<le> x" "x < ?new" for x
        using sp c that by (auto split: option.splits if_splits)
      from step [OF I' new this] obtain s' where s': "cb cur' ?new s = Some s'" "I ?new s'" by blast
      have "hi < n + ?new \<or> hi \<le> ?new" using Suc.prems(2) True sp new by linarith
      then have "\<exists>s'' c. fill_loop n E cb hi ?new s' = Some s'' \<and> hi \<le> c \<and> I c s''" using Suc.IH [OF s'(2)] by blast
      then show ?thesis using True c sk suc s'(1) by (subst fill_loop.simps) (simp add: Let_def)
    qed
  qed
qed

lemma fill_rule:
  assumes "\<And>cur s. I cur s \<Longrightarrow> BL_inv E M hinv cv (fst s)" and b: "off + sz < u64_max"
    and "\<And>cur cur' s. I cur s \<Longrightarrow> cur \<le> cur' \<Longrightarrow>
      (\<And>x. cur \<le> x \<Longrightarrow> x < cur' \<Longrightarrow> cell E (fst s) x \<noteq> None) \<Longrightarrow> I cur' s"
    and "\<And>cur new s. I cur s \<Longrightarrow> cur < new \<Longrightarrow> new \<le> off + sz \<Longrightarrow>
      (\<And>x. cur \<le> x \<Longrightarrow> x < new \<Longrightarrow> cell E (fst s) x = None) \<Longrightarrow> \<exists>s'. cb cur new s = Some s' \<and> I new s'"
    and I: "I off s"
  shows "\<exists>s' cur. fill E cb off sz s = Some s' \<and> off + sz \<le> cur \<and> I cur s'"
proof -
  have eq: "add64 off sz = off + sz" using b by (simp add: u64_simps)
  show ?thesis
    unfolding fill_def eq
  proof (rule fill_loop_rule [where I = I])
    show "off + sz < Suc sz + off \<or> off + sz \<le> off" by linarith
  qed (fact assms)+
qed

end

end
