(* ===== verification/Buffer_List_Add.thy ===== *)
theory Buffer_List_Add
  imports Buffer_List_Range
begin

text \<open>
  Inserting data into a buffer list: \<open>insertOrAppend\<close> puts a slice into a hole, either as a new
  buffer or at the end of the previous one, and \<open>Add\<close>, \<open>ZeroRange\<close> and \<open>AddLoading\<close> are built
  from it and from \<open>RemoveRange\<close> and \<open>fill\<close>.
\<close>

section \<open>Appending in memory\<close>

lemma slice_len: "buf_mem_ok l b \<Longrightarrow> fb_ptr b = Some a \<Longrightarrow> fb_len b = fb_length b"
  by (auto simp: buf_mem_ok_def fb_len_def split: option.splits)

lemma cell_of_old:
  assumes "mem_ok l A" "A e = Some b" "\<And>a. fb_ptr b = Some a \<Longrightarrow> arrays l' a = arrays l a"
  shows "cell_of l' b x = cell_of l b x"
  using assms(3) by (cases "fb_data b"; cases "fb_ptr b") (auto simp: cell_of_def byte_at_def)

lemma buf_mem_ok_old:
  assumes "buf_mem_ok l b" "\<And>a. fb_ptr b = Some a \<Longrightarrow> arrays l' a = arrays l a"
  shows "buf_mem_ok l' b"
proof (cases "fb_ptr b")
  case None
  then show ?thesis using assms(1) by (auto simp: buf_mem_ok_def split: option.splits)
next
  case (Some a)
  obtain p s n where p: "bl_mem l a = Some p" "fb_data b = Some (s, n)" "n = fb_length b"
    "s + n \<le> length (bp_array p)" "\<not> fb_zero b" "\<not> fb_loading b"
    by (rule mem_ok_ptr [OF assms(1) Some])
  have "arrays l' a = Some (bp_array p)" using assms(2) [OF Some] p(1) by (simp add: arrays_def)
  then show ?thesis using p Some assms(1) by (auto simp: buf_mem_ok_def arrays_def)
qed

lemma mem_ok_new:
  assumes mem: "mem_ok l A" and new: "new_ptr l p = (l', a)" and r: "bp_refs p = 0"
  shows "mem_ok l' A" "a = bl_nextPtr l" "bl_mem l' a = Some p" "mem_only l l'"
    "\<And>a'. a' \<noteq> a \<Longrightarrow> bl_mem l' a' = bl_mem l a'" "mem_total l' = mem_total l" "bl_mem l a = None"
proof -
  have l': "l' = l\<lparr>bl_mem := (bl_mem l)(bl_nextPtr l \<mapsto> p), bl_nextPtr := Suc (bl_nextPtr l)\<rparr>"
    and a: "a = bl_nextPtr l" using new by (auto simp: new_ptr_def)
  show "a = bl_nextPtr l" "bl_mem l' a = Some p" "mem_only l l'"
    "\<And>a'. a' \<noteq> a \<Longrightarrow> bl_mem l' a' = bl_mem l a'" by (simp_all add: l' a mem_only_def)
  show fresh: "bl_mem l a = None"
    using mem_okD(3) [OF mem, of a] a by (cases "bl_mem l a") auto
  have ptr: "fb_ptr b \<noteq> Some a" if "A e = Some b" for e b
    using mem_okD(1) [OF mem that] fresh by (auto elim!: mem_ok_ptr)
  then have "holders A a = {}" by (auto simp: holders_def)
  moreover have "buf_mem_ok l' b" if "A e = Some b" for e b
    by (rule buf_mem_ok_old [OF mem_okD(1) [OF mem that]]) (use ptr [OF that] a in \<open>auto simp: l' arrays_def\<close>)
  ultimately show "mem_ok l' A"
    unfolding mem_ok_def using mem_okD(2,3) [OF mem] r a by (auto simp: l' less_SucI)
  have "{a. a < Suc (bl_nextPtr l)} = insert (bl_nextPtr l) {a. a < bl_nextPtr l}" by auto
  then show "mem_total l' = mem_total l"
    using r by (auto simp: l' mem_total_def intro!: sum.cong)
qed

definition same_fields :: "FileBuffer \<Rightarrow> FileBuffer \<Rightarrow> bool" where
  "same_fields b b' \<longleftrightarrow> b' = b\<lparr>fb_data := fb_data b', fb_ptr := fb_ptr b', fb_length := fb_length b'\<rparr>"

lemma same_fieldsD:
  assumes "same_fields b b'"
  shows "fb_offset b' = fb_offset b" "fb_state b' = fb_state b" "fb_loading b' = fb_loading b"
    "fb_zero b' = fb_zero b" "fb_queueId b' = fb_queueId b" "fb_dirtyID b' = fb_dirtyID b"
    "fb_onDisk b' = fb_onDisk b"
  using assms by (cases b; cases b'; simp add: same_fields_def)+

lemma length_write_at: "i + length ys \<le> length xs \<Longrightarrow> length (write_at xs i ys) = length xs"
  by (simp add: write_at_def)

lemma nth_write_at:
  assumes "i + length ys \<le> length xs"
  shows "j < i \<Longrightarrow> write_at xs i ys ! j = xs ! j"
    and "j < length ys \<Longrightarrow> write_at xs i ys ! (i + j) = ys ! j"
  using assms by (simp_all add: write_at_def nth_append)

text \<open>
  \<open>FileBuffer_Append\<close> on the only buffer that holds its array: the buffer is extended by the
  data, in place or in a new array; no other buffer sees a change.
\<close>

lemma Append_in_place:
  assumes mem: "mem_ok l A" and fin: "finite (dom A)" and A: "A k = Some b" and a: "fb_ptr b = Some a"
    and p: "bl_mem l a = Some p" "bp_refs p = 1" and e: "(A(k := None)) e = None" "e \<noteq> k"
    and d: "fb_data b = Some (s, n)" "n = fb_length b" "s + n + length data \<le> length (bp_array p)"
  defines "p' \<equiv> p\<lparr>bp_array := write_at (bp_array p) (s + n) data\<rparr>"
  defines "l' \<equiv> l\<lparr>bl_mem := (bl_mem l)(a \<mapsto> p')\<rparr>"
  defines "b' \<equiv> b\<lparr>fb_data := Some (s, n + length data), fb_length := n + length data\<rparr>"
  shows "mem_ok l' ((A(k := None))(e \<mapsto> b'))" "mem_total l' = mem_total l"
    "\<And>x. fb_offset b \<le> x \<Longrightarrow> x < fb_offset b + n \<Longrightarrow> byte_at l' b' x = byte_at l b x"
    "\<And>j. j < length data \<Longrightarrow> byte_at l' b' (fb_offset b + n + j) = Some (data ! j)"
proof -
  let ?B = "(A(k := None))(e \<mapsto> b')"
  have kh: "k \<in> holders A a" using counted_Some(3) [where A = A and a = a, OF A] a by simp
  have "int (card (holders A a)) = 1" using mem_okD(2) [OF mem p(1)] p(2) by simp
  then obtain y where "holders A a = {y}" by (metis card_1_singletonE of_nat_1 of_nat_eq_iff)
  with kh have h: "holders A a = {k}" by auto
  have len: "length (bp_array p') = length (bp_array p)"
    unfolding p'_def using length_write_at [of "s + n" data "bp_array p"] d(3) by simp
  have other: "arrays l' a' = arrays l a'" if "a' \<noteq> a" for a' using that by (simp add: l'_def arrays_def)
  have ptr: "fb_ptr c \<noteq> Some a" if "(A(k := None)) e' = Some c" for e' c
    using h that by (auto simp: holders_def split: if_splits)
  show "mem_ok l' ?B"
    unfolding mem_ok_def
  proof (intro conjI allI impI)
    fix e1 c assume c: "?B e1 = Some c"
    show "buf_mem_ok l' c"
    proof (cases "e1 = e")
      case True
      with c have "c = b'" by simp
      moreover have "\<not> fb_zero b \<and> \<not> fb_loading b \<and> fb_state b \<noteq> BUF_FL_CLEARED"
        using mem_okD(1) [OF mem A] d(1) by (auto simp: buf_mem_ok_def)
      ultimately show ?thesis using a d len by (auto simp: buf_mem_ok_def b'_def l'_def)
    next
      case False
      with c have c': "(A(k := None)) e1 = Some c" by simp
      then have "A e1 = Some c" by (auto split: if_splits)
      then show ?thesis
        by (rule buf_mem_ok_old [OF mem_okD(1) [OF mem]]) (use other ptr [OF c'] in auto)
    qed
  next
    fix a' q assume q: "bl_mem l' a' = Some q"
    have hb: "holders ?B a' = (if a' = a then {e} else holders A a')"
    proof (cases "a' = a")
      case True
      then show ?thesis unfolding counted_upd(3) counted_del(3) using h a by (auto simp: b'_def)
    next
      case False
      have "e \<notin> holders A a'" "k \<notin> holders A a'"
        using e A a False by (auto simp: holders_def split: if_splits)
      then show ?thesis unfolding counted_upd(3) counted_del(3) using False a by (auto simp: b'_def)
    qed
    show "bp_refs q = int (card (holders ?B a'))"
      using q hb mem_okD(2) [OF mem, of a'] p(2) by (cases "a' = a") (auto simp: l'_def p'_def)
    show "a' < bl_nextPtr l'"
      using q mem_okD(3) [OF mem, of a'] mem_okD(3) [OF mem p(1)] by (cases "a' = a") (auto simp: l'_def)
  qed
  show "mem_total l' = mem_total l"
    unfolding l'_def using mem_total_upd [OF mem_okD(3) [OF mem p(1)] p(1), of p'] by (simp add: p'_def)
  have w: "s + n + length data \<le> length (bp_array p)" using d(3) .
  show "byte_at l' b' x = byte_at l b x" if "fb_offset b \<le> x" "x < fb_offset b + n" for x
    using that a d(1) p(1) nth_write_at(1) [OF w, of "s + (x - fb_offset b)"]
    by (simp add: byte_at_def b'_def l'_def p'_def arrays_def)
  show "byte_at l' b' (fb_offset b + n + j) = Some (data ! j)" if "j < length data" for j
    using that a d(1) p(1) nth_write_at(2) [OF w that]
    by (simp add: byte_at_def b'_def l'_def p'_def arrays_def add.assoc)
qed

lemma Append_spec:
  assumes mem: "mem_ok l A" and fin: "finite (dom A)" and A: "A k = Some b" and a: "fb_ptr b = Some a"
    and p: "bl_mem l a = Some p" "bp_refs p = 1" and e: "(A(k := None)) e = None" "e \<noteq> k"
    and data: "data \<noteq> []"
  shows "\<exists>l' b' m. FileBuffer_Append l b data = Some (l', b', m) \<and> mem_only l l' \<and> same_fields b b' \<and>
    fb_length b' = fb_length b + length data \<and> mem_ok l' ((A(k := None))(e \<mapsto> b')) \<and>
    m = mem_total l' - mem_total l \<and>
    (\<forall>a'. a' \<noteq> a \<longrightarrow> bl_mem l a' \<noteq> None \<longrightarrow> bl_mem l' a' = bl_mem l a') \<and>
    (\<forall>x. fb_offset b \<le> x \<longrightarrow> x < fb_offset b + fb_length b \<longrightarrow> byte_at l' b' x = byte_at l b x) \<and>
    (\<forall>j < length data. byte_at l' b' (fb_offset b + fb_length b + j) = Some (data ! j))"
proof -
  have ok: "buf_mem_ok l b" by (rule mem_okD(1) [OF mem A])
  obtain s n where d: "fb_data b = Some (s, n)" "n = fb_length b" "s + n \<le> length (bp_array p)"
    and flags: "\<not> fb_zero b" "\<not> fb_loading b"
    using ptr_slice [OF ok a p(1)] by metis
  have len: "fb_len b = n" "fb_cap l b = length (bp_array p) - s"
    using d a p by (simp_all add: fb_len_def fb_cap_def)
  show ?thesis
  proof (cases "n + length data \<le> length (bp_array p) - s")
    case True
    then have "s + n + length data \<le> length (bp_array p)" using d(3) by linarith
    note ip = Append_in_place [OF mem fin A a p e d(1,2) this]
    let ?l' = "l\<lparr>bl_mem := (bl_mem l)(a \<mapsto> p\<lparr>bp_array := write_at (bp_array p) (s + n) data\<rparr>)\<rparr>"
    let ?b' = "b\<lparr>fb_data := Some (s, n + length data), fb_length := n + length data\<rparr>"
    have "FileBuffer_Append l b data = Some (?l', ?b', 0)"
      using True len d(1) a p(1) by (simp add: FileBuffer_Append_def Let_def)
    moreover have "mem_only l ?l'" by (rule mem_only_mem)
    moreover have "same_fields b ?b'" by (simp add: same_fields_def)
    ultimately show ?thesis
      using ip d(2) by (intro exI [of _ ?l'] exI [of _ ?b'] exI [of _ 0]) (simp add: add.commute)
  next
    case False
    define newCap where "newCap = (if n + length data < 2 * n then 2 * n else n + length data)"
    define newData where "newData = slice_bytes l b @ data @ replicate (newCap - (n + length data)) 0"
    have sb: "slice_bytes l b = take n (drop s (bp_array p))" using d a p by (simp add: slice_bytes_def)
    have lsb: "length (slice_bytes l b) = n" using sb d(3) by simp
    obtain l1 m1 where l1: "release l (fb_ptr b) = Some (l1, m1)"
      "l1 = l\<lparr>bl_mem := (bl_mem l)(a \<mapsto> p\<lparr>bp_refs := bp_refs p - 1\<rparr>)\<rparr>" "mem_ok l1 (A(k := None))"
      "m1 = mem_total l1 - mem_total l"
      using mem_ok_release [OF mem fin A a] p(1) by auto
    let ?p0 = "\<lparr>bp_array = newData, bp_len = newCap, bp_refs = 0\<rparr>"
    let ?p1 = "\<lparr>bp_array = newData, bp_len = newCap, bp_refs = 1\<rparr>"
    obtain l2 a2 where n2: "new_ptr l1 ?p0 = (l2, a2)" by fastforce
    note nw = mem_ok_new [OF l1(3) n2, simplified]
    define l3 where "l3 = l2\<lparr>bl_mem := (bl_mem l2)(a2 \<mapsto> ?p1)\<rparr>"
    have n3: "new_ptr l1 ?p1 = (l3, a2)" using n2 by (auto simp: new_ptr_def l3_def)
    define b' where "b' = b\<lparr>fb_data := Some (0, n + length data), fb_length := n + length data, fb_ptr := Some a2\<rparr>"
    have p1: "?p1 = ?p0\<lparr>bp_refs := bp_refs ?p0 + 1\<rparr>" by simp
    have okb: "buf_mem_ok l2 b'"
      using nw(3) flags lsb ok d(1) by (simp add: buf_mem_ok_def b'_def newData_def)
    have m3: "mem_ok l3 ((A(k := None))(e \<mapsto> b'))"
      unfolding l3_def p1 by (rule mem_ok_add [OF nw(1)]) (use fin e nw(3) okb in \<open>simp_all add: b'_def\<close>)
    have "mem_total l3 = mem_total l2 + int newCap"
      unfolding l3_def using mem_total_upd [OF mem_okD(3) [OF nw(1,3)] nw(3), of ?p1] by simp
    then have tot: "int newCap + m1 = mem_total l3 - mem_total l" using l1(4) nw(6) by simp
    have ne: "a2 \<noteq> a" using nw(7) l1(2) by auto
    have ar: "arrays l3 a2 = Some newData" by (simp add: l3_def arrays_def)
    have "FileBuffer_Append l b data = Some (l3, b', int newCap + m1)"
      unfolding FileBuffer_Append_def Let_def len
      using False l1(1) n3 by (simp add: newCap_def newData_def b'_def)
    moreover have "mem_only l l3" unfolding l3_def
      by (rule mem_only_trans [OF mem_only_trans [OF _ nw(4)] mem_only_mem]) (simp add: l1(2) mem_only_mem)
    moreover have "same_fields b b'" by (simp add: same_fields_def b'_def)
    moreover have "bl_mem l3 a' = bl_mem l a'" if "a' \<noteq> a" "bl_mem l a' \<noteq> None" for a'
      using that nw(5) [of a'] nw(7) l1(2) by (auto simp: l3_def)
    moreover have "arrays l a = Some (bp_array p)" using p(1) by (simp add: arrays_def)
    then have "byte_at l3 b' x = byte_at l b x" if "fb_offset b \<le> x" "x < fb_offset b + n" for x
    proof -
      have "x - fb_offset b < n" using that by linarith
      then show ?thesis
        using d \<open>arrays l a = Some (bp_array p)\<close> a ar lsb sb by (simp add: byte_at_def b'_def newData_def nth_append)
    qed
    moreover have "byte_at l3 b' (fb_offset b + n + j) = Some (data ! j)" if "j < length data" for j
      using that ar lsb by (simp add: byte_at_def b'_def newData_def nth_append)
    ultimately show ?thesis using m3 tot d(2) by (auto simp: b'_def)
  qed
qed

section \<open>Filling a hole\<close>

definition data_cell :: "BufferState \<Rightarrow> byte \<Rightarrow> cell" where
  "data_cell st v = \<lparr>c_state = st, c_loading = False, c_onDisk = False, c_zero = False, c_byte = Some v\<rparr>"

definition same_data :: "cell option \<Rightarrow> cell option \<Rightarrow> bool" where
  "same_data c c' \<longleftrightarrow> c' = c \<or> c' = map_option (\<lambda>d. d\<lparr>c_onDisk := False\<rparr>) c"

lemma same_data_refl [simp]: "same_data c c"
  by (simp add: same_data_def)

lemma same_data_trans: "same_data c c' \<Longrightarrow> same_data c' c'' \<Longrightarrow> same_data c c''"
  by (cases c) (auto simp: same_data_def)

definition added :: "BufferState \<Rightarrow> u64 \<Rightarrow> byte list \<Rightarrow> (u64 \<Rightarrow> cell option) \<Rightarrow> u64 \<Rightarrow> cell option" where
  "added st off data C x =
     (if off \<le> x \<and> x < off + length data \<and> \<not> (st = BUF_CLEAN \<and> (\<exists>c. C x = Some c \<and> c_state c \<noteq> BUF_CLEAN))
      then Some (data_cell st (data ! (x - off))) else C x)"

definition zero_cell :: cell where
  "zero_cell = \<lparr>c_state = BUF_DIRTY, c_loading = False, c_onDisk = False, c_zero = True, c_byte = None\<rparr>"

definition loading_cell :: cell where
  "loading_cell = \<lparr>c_state = BUF_CLEAN, c_loading = True, c_onDisk = False, c_zero = False, c_byte = None\<rparr>"

definition plain_cell :: "FileBuffer \<Rightarrow> cell" where
  "plain_cell b = \<lparr>c_state = fb_state b, c_loading = fb_loading b, c_onDisk = fb_onDisk b,
     c_zero = fb_zero b, c_byte = None\<rparr>"

definition prev_buf :: "('t, 'd, 'h) bufEnv \<Rightarrow> ('t, 'd, 'h) BufferList \<Rightarrow> u64 \<Rightarrow> FileBuffer option" where
  "prev_buf E l x = (case bt_desc (env_at E) (bl_at l) x of [] \<Rightarrow> None | (_, b) # _ \<Rightarrow> Some b)"

context buffer_env
begin

lemma hole_shape:
  assumes sh: "shape M A" and hole: "\<And>x c. lo \<le> x \<Longrightarrow> x < e \<Longrightarrow> \<not> covers A x c" and e: "lo < e"
  shows "A e = None" "A e' = Some b' \<Longrightarrow> e' \<le> lo \<or> e \<le> fb_offset b'"
proof -
  show "A e = None"
  proof (rule ccontr)
    assume "A e \<noteq> None"
    then obtain c where c: "A e = Some c" by auto
    have "covers A (e - 1) c" using c shapeD [OF sh c] by (auto simp: covers_def)
    moreover have "lo \<le> e - 1" "e - 1 < e" using e by auto
    ultimately show False using hole by blast
  qed
  show "e' \<le> lo \<or> e \<le> fb_offset b'" if b': "A e' = Some b'"
  proof (rule ccontr)
    assume "\<not> (e' \<le> lo \<or> e \<le> fb_offset b')"
    then have "covers A (max lo (fb_offset b')) b'" "max lo (fb_offset b') < e"
      using b' e shapeD [OF sh b'] by (auto simp: covers_def)
    then show False using hole by simp
  qed
qed

lemma cell_hole:
  assumes "shape M (bufs E l)" "\<And>x. lo \<le> x \<Longrightarrow> x < e \<Longrightarrow> cell E l x = None"
  shows "lo \<le> x \<Longrightarrow> x < e \<Longrightarrow> \<not> covers (bufs E l) x c"
  using assms cell_None [OF assms(1)] by blast

text \<open>A buffer is put into a hole and queued.\<close>

lemma insert_buf:
  assumes sh: "shape M A" and hole: "\<And>x c. lo \<le> x \<Longrightarrow> x < e \<Longrightarrow> \<not> covers A x c"
    and b: "fb_offset b = lo" "lo + fb_length b = e" "lo < e" "e \<le> M"
    and l1: "bufs E l1 = A(e \<mapsto> b)" "acct E hinv cv l1 A" "mem_ok l1 (A(e \<mapsto> b))"
      "ids_ok (bl_curDirtyID l1) (A(e \<mapsto> b))"
  shows "\<exists>l' q. queue E l1 b = Some l' \<and> BL_inv E M hinv cv l' \<and> bufs E l' = A(e \<mapsto> b\<lparr>fb_queueId := q\<rparr>) \<and> frame l1 l'"
proof -
  note h = hole_shape [OF sh hole b(3)]
  have bl: "0 < fb_length b" "fb_offset b + fb_length b = e" using b by auto
  from queue_acct [OF l1(2) h(1) _ bl b(4)] l1(1) obtain l' q where q: "queue E l1 b = Some l'"
    "acct E hinv cv l' (A(e \<mapsto> b\<lparr>fb_queueId := q\<rparr>))"
    "bufs E l' = (bufs E l1)(e \<mapsto> b\<lparr>fb_queueId := q\<rparr>)" "frame l1 l'" by auto
  let ?b = "b\<lparr>fb_queueId := q\<rparr>"
  have bu: "bufs E l' = A(e \<mapsto> ?b)" using q(3) l1(1) by simp
  note f = frame_eqs [OF q(4)]
  have sh': "shape M (bufs E l')"
    unfolding bu by (rule shape_upd [OF sh]) (use b h(2) in auto)
  have "mem_ok l' ((A(e \<mapsto> b))(e \<mapsto> ?b))"
    by (rule mem_ok_upd [OF f(4) [OF l1(3)]]) (use mem_okD(1) [OF f(4) [OF l1(3)], of e b] in auto)
  then have "mem_ok l' (bufs E l')" by (simp add: bu)
  moreover have "ids_ok (bl_curDirtyID l') (bufs E l')"
    unfolding bu f(3) by (rule ids_ok_qid [OF l1(4)])
  ultimately have inv': "BL_inv E M hinv cv l'" unfolding BL_inv_def using sh' q(2) bu by simp
  then show ?thesis using q(1,4) bu by blast
qed

lemma cell_same:
  assumes sh: "shape M (bufs E l)" "shape M (bufs E l')"
    and co: "\<And>c. covers (bufs E l') x c \<longleftrightarrow> covers (bufs E l) x c"
    and old: "\<And>c. covers (bufs E l) x c \<Longrightarrow> cell_of l' c x = cell_of l c x"
  shows "cell E l' x = cell E l x"
proof (cases "\<exists>c. covers (bufs E l) x c")
  case True
  then obtain c where c: "covers (bufs E l) x c" by blast
  then have "cell E l' x = Some (cell_of l' c x)" "cell E l x = Some (cell_of l c x)"
    using co cell_Some [OF sh(1)] cell_Some [OF sh(2)] by metis+
  then show ?thesis using old [OF c] by simp
next
  case False
  then have "cell E l' x = None" "cell E l x = None"
    using co cell_None [OF sh(1), of x] cell_None [OF sh(2), of x] by auto
  then show ?thesis by simp
qed

lemma cell_of_kept:
  assumes inv: "BL_inv E M hinv cv l" and co: "covers (bufs E l) x c"
    and ar: "\<And>a. bl_mem l a \<noteq> None \<Longrightarrow> arrays l' a = arrays l a"
  shows "cell_of l' c y = cell_of l c y"
proof -
  obtain e where "bufs E l e = Some c" using co by (auto simp: covers_def)
  then show ?thesis
    using ar ptr_mem [OF mem_okD(1) [OF BL_invD(2) [OF inv]]] by (intro cell_of_old [OF BL_invD(2) [OF inv]]) simp_all
qed

lemma cell_insert:
  assumes inv: "BL_inv E M hinv cv l" and sh': "shape M (bufs E l')" and e: "bufs E l e = None"
    and bu: "bufs E l' = (bufs E l)(e \<mapsto> b)" and ar: "\<And>a. bl_mem l a \<noteq> None \<Longrightarrow> arrays l' a = arrays l a"
  shows "cell E l' x = (if fb_offset b \<le> x \<and> x < e then Some (cell_of l' b x) else cell E l x)"
proof (cases "fb_offset b \<le> x \<and> x < e")
  case True
  then show ?thesis using cell_covers [OF sh', of e b x] bu by simp
next
  case False
  note D = BL_invD [OF inv]
  have "cell E l' x = cell E l x"
  proof (rule cell_same [OF D(1) sh'])
    show "covers (bufs E l') x c \<longleftrightarrow> covers (bufs E l) x c" for c
      unfolding bu using covers_add [of "bufs E l" e b x c] e False by auto
    show "cell_of l' c x = cell_of l c x" if "covers (bufs E l) x c" for c
      by (rule cell_of_kept [OF inv that ar])
  qed
  then show ?thesis using False by auto
qed

section \<open>Inserting a slice\<close>

text \<open>A cell keeps its state and byte; it may only lose its copy on the disk.\<close>

text \<open>The slice is appended to the buffer that ends where it starts.\<close>

lemma append_prev:
  assumes inv: "BL_inv E M hinv cv l" and hole: "\<And>x. lo \<le> x \<Longrightarrow> x < e \<Longrightarrow> cell E l x = None"
    and b: "bufs E l lo = Some b" "fb_ptr b = Some a" "bl_mem l a = Some p" "bp_refs p = 1"
    and e: "lo + length data = e" "lo < e" "e \<le> M"
    and l0: "l0 = l\<lparr>bl_curDirtyID := cur\<rparr>"
    and id: "fb_state b = BUF_DIRTY \<longleftrightarrow> i \<noteq> 0" "i = 0 \<and> cur = bl_curDirtyID l \<or> i = Suc (bl_curDirtyID l) \<and> cur = i"
  shows "\<exists>l' n. do { l \<leftarrow> unqueue E l0 b;
      let l = l\<lparr>bl_at := bt_del (env_at E) (bl_at l) (bend b)\<rparr>;
      (l, b, allocated) \<leftarrow> FileBuffer_Append l b data;
      let b = b\<lparr>fb_onDisk := False, fb_dirtyID := i\<rparr>;
      l \<leftarrow> queue E (store E l b) b;
      Some (l, allocated) } = Some (l', n) \<and> BL_inv E M hinv cv l' \<and>
    n = mem_total l' - mem_total l \<and> (\<forall>a'. a' \<noteq> a \<longrightarrow> bl_mem l a' \<noteq> None \<longrightarrow> bl_mem l' a' = bl_mem l a') \<and>
    (\<forall>x. lo \<le> x \<longrightarrow> x < e \<longrightarrow> cell E l' x = Some (data_cell (fb_state b) (data ! (x - lo)))) \<and>
    (\<forall>x < lo. same_data (cell E l x) (cell E l' x)) \<and> (\<forall>x \<ge> e. cell E l' x = cell E l x) \<and> idst E l l'"
proof -
  note D = BL_invD [OF inv] and sb = inv_shape [OF inv b(1)]
  let ?A = "bufs E l" and ?B = "(bufs E l)(lo := None)"
  have nc: "lo \<le> x \<Longrightarrow> x < e \<Longrightarrow> \<not> covers ?A x c" for x c using cell_hole [OF D(1) hole] by blast
  have Ae: "?A e = None" by (rule hole_shape(1) [OF D(1) nc e(2)])
  have ac0: "acct E hinv cv l0 ?A" unfolding l0 by (rule acct_frame(4) [OF D(3)])
  from unqueue_acct [OF ac0 b(1) sb(1-3)] obtain l1 where l1: "unqueue E l0 b = Some l1"
    "acct E hinv cv l1 ?B" "bl_at l1 = bl_at l0" "frame l0 l1" by blast
  define l2 where "l2 = l1\<lparr>bl_at := bt_del (env_at E) (bl_at l1) (bend b)\<rparr>"
  have bu2: "bufs E l2 = ?B" using l1(3) sb(5) by (simp add: l2_def l0)
  have m2: "bl_mem l2 = bl_mem l" "bl_nextPtr l2 = bl_nextPtr l" "bl_curDirtyID l2 = cur"
    using l1(4) by (simp_all add: l2_def frame_def l0)
  have mem2: "mem_ok l2 ?A" by (rule mem_ok_frame [OF D(2) m2(1,2)])
  have tot2: "mem_total l2 = mem_total l" using m2 by (simp add: mem_total_def)
  have by2: "byte_at l2 c x = byte_at l c x" for c x by (rule byte_at_cong) (simp add: arrays_def fun_eq_iff m2)
  have data: "data \<noteq> []" using e by auto
  have p2: "bl_mem l2 a = Some p" using b(3) m2 by simp
  have Ae': "(?A(lo := None)) e = None" "e \<noteq> lo" using Ae e(2) by auto
  from Append_spec [OF mem2 D(5) b(1,2) p2 b(4) Ae' data] obtain l3 b3 n where ap:
    "FileBuffer_Append l2 b data = Some (l3, b3, n)" "mem_only l2 l3" "same_fields b b3"
    "fb_length b3 = fb_length b + length data" "mem_ok l3 (?B(e \<mapsto> b3))" "n = mem_total l3 - mem_total l2"
    "\<And>a'. a' \<noteq> a \<Longrightarrow> bl_mem l2 a' \<noteq> None \<Longrightarrow> bl_mem l3 a' = bl_mem l2 a'"
    "\<And>x. fb_offset b \<le> x \<Longrightarrow> x < fb_offset b + fb_length b \<Longrightarrow> byte_at l3 b3 x = byte_at l2 b x"
    "\<And>j. j < length data \<Longrightarrow> byte_at l3 b3 (fb_offset b + fb_length b + j) = Some (data ! j)" by blast
  note sf = same_fieldsD [OF ap(3)]
  define b4 where "b4 = b3\<lparr>fb_onDisk := False, fb_dirtyID := i\<rparr>"
  have b4: "fb_offset b4 = fb_offset b" "fb_offset b + fb_length b4 = e" "fb_state b4 = fb_state b" "fb_dirtyID b4 = i"
    "fb_ptr b4 = fb_ptr b3"
    using sf ap(4) e(1) sb(2) by (simp_all add: b4_def)
  have bend4: "bend b4 = e" by (rule bend_eq) (use b4 e in auto)
  define l4 where "l4 = store E l3 b4"
  have bu4: "bufs E l4 = ?B(e \<mapsto> b4)" using mem_onlyD(3) [OF ap(2), of E] bu2 bend4 by (simp add: l4_def)
  have ac4: "acct E hinv cv l4 ?B" unfolding l4_def store_def l2_def
    by (intro acct_frame mem_onlyD(4) [OF ap(2)]) (unfold l2_def, intro acct_frame l1(2))
  have "mem_ok l3 ((?B(e \<mapsto> b3))(e \<mapsto> b4))"
    by (rule mem_ok_upd [OF ap(5)]) (use mem_okD(1) [OF ap(5), of e b3] in \<open>auto simp: b4_def\<close>)
  then have m34: "mem_ok l3 (?B(e \<mapsto> b4))" by simp
  have mem4: "mem_ok l4 (?B(e \<mapsto> b4))" by (rule mem_ok_frame [OF m34]) (simp_all add: l4_def store_def)
  have cur4: "bl_curDirtyID l4 = cur" using mem_onlyD(2) [OF ap(2)] m2 by (simp add: l4_def store_def)
  have "ids_ok (max (bl_curDirtyID l) (fb_dirtyID b4)) (?B(e \<mapsto> b4))"
    by (rule ids_ok_upd [OF ids_ok_del [OF D(4)]]) (use id b4 in auto)
  then have ids4: "ids_ok (bl_curDirtyID l4) (?B(e \<mapsto> b4))" using id(2) b4(4) cur4 by (auto simp: max_def split: if_splits)
  have sh0: "shape M ?B" by (rule shape_del [OF D(1)])
  have hole0: "\<not> covers ?B x c" if "fb_offset b \<le> x" "x < e" for x c
    using covers_del [OF D(1) b(1), of x c] nc [of x c] that by auto
  from insert_buf [OF sh0 hole0 b4(1,2) _ e(3) bu4 ac4 mem4 ids4] sb(4) e(2) obtain l' q where q:
    "queue E l4 b4 = Some l'" "BL_inv E M hinv cv l'" "bufs E l' = ?B(e \<mapsto> b4\<lparr>fb_queueId := q\<rparr>)" "frame l4 l'"
    by auto
  note f = frame_eqs [OF q(4)] and sh' = BL_invD(1) [OF q(2)]
  have ar4: "arrays l4 = arrays l3" by (simp add: l4_def store_def arrays_def fun_eq_iff)
  have new: "cell E l' x = Some (cell_of l3 b4 x)" if "fb_offset b \<le> x" "x < e" for x
    using cell_covers [OF sh', of e "b4\<lparr>fb_queueId := q\<rparr>" x] q(3) b4(1) that f(1) ar4 cell_of_cong [of l' l3] by simp
  have by4: "byte_at l3 b4 x = byte_at l3 b3 x" for x by (cases "fb_data b3"; cases "fb_ptr b3") (simp_all add: b4_def byte_at_def)
  have flags: "\<not> fb_zero b" "\<not> fb_loading b" using ptr_slice [OF mem_okD(1) [OF D(2) b(1)] b(2,3)] by blast+
  have "cell E l' x = Some (data_cell (fb_state b) (data ! (x - lo)))" if "lo \<le> x" "x < e" for x
    using new [of x] that ap(9) [of "x - lo"] sb(2,4) e(1) flags b4(3) sf by4 [of x]
    by (auto simp: cell_of_def data_cell_def b4_def)
  moreover have left: "same_data (cell E l x) (cell E l' x)" if "x < lo" "fb_offset b \<le> x" for x
  proof -
    have "cell E l x = Some (cell_of l b x)" by (rule cell_covers [OF D(1) b(1)]) (use that in auto)
    moreover have "cell_of l3 b4 x = (cell_of l b x)\<lparr>c_onDisk := False\<rparr>"
      using ap(8) [of x] that sb(2) sf by4 [of x] by2 by (simp add: cell_of_def b4_def)
    ultimately show ?thesis using new [of x] that e by (simp add: same_data_def)
  qed
  moreover have out: "cell E l' x = cell E l x" if "x < fb_offset b \<or> e \<le> x" for x
  proof (rule cell_same [OF D(1) sh'])
    show "covers (bufs E l') x c \<longleftrightarrow> covers (bufs E l) x c" for c
      unfolding q(3) using covers_add [of ?B e "b4\<lparr>fb_queueId := q\<rparr>" x c] covers_del [OF D(1) b(1), of x c]
        Ae' b4(1) that e(2) by auto
    show "cell_of l' c x = cell_of l c x" if co: "covers (bufs E l) x c" for c
    proof -
      obtain e' where e': "bufs E l e' = Some c" "fb_offset c \<le> x" "x < e'" using co by (auto simp: covers_def)
      have "e' \<noteq> lo" using e' b(1) sb(2) e(2) \<open>x < fb_offset b \<or> e \<le> x\<close> by auto
      moreover have "holders ?A a = {lo}"
      proof -
        have "lo \<in> holders ?A a" using b(1,2) by (auto simp: holders_def)
        moreover have "card (holders ?A a) = 1" using mem_okD(2) [OF D(2) b(3)] b(4) by simp
        ultimately show ?thesis by (metis card_1_singletonE singletonD)
      qed
      ultimately have "fb_ptr c \<noteq> Some a" using e'(1) by (auto simp: holders_def)
      then show ?thesis
        using ap(7) ptr_mem [OF mem_okD(1) [OF D(2) e'(1)]] f(1) ar4 m2(1)
        by (intro cell_of_old [OF D(2) e'(1)]) (auto simp: arrays_def)
    qed
  qed
  moreover have "n = mem_total l' - mem_total l" using ap(6) tot2 f(2) by (simp add: l4_def store_def mem_total_def)
  moreover have "bl_mem l' a' = bl_mem l a'" if "a' \<noteq> a" "bl_mem l a' \<noteq> None" for a'
    using ap(7) [of a'] that f(5) m2 by (simp add: l4_def store_def)
  moreover have "do { l \<leftarrow> unqueue E l0 b;
      let l = l\<lparr>bl_at := bt_del (env_at E) (bl_at l) (bend b)\<rparr>;
      (l, b, allocated) \<leftarrow> FileBuffer_Append l b data;
      let b = b\<lparr>fb_onDisk := False, fb_dirtyID := i\<rparr>;
      l \<leftarrow> queue E (store E l b) b;
      Some (l, allocated) } = Some (l', n)"
    using l1(1) ap(1) q(1) by (simp add: l2_def l4_def b4_def)
  moreover have "same_data (cell E l x) (cell E l' x)" if "x < lo" for x
    using left [OF that] out [of x] by (cases "fb_offset b \<le> x") simp_all
  moreover have "idst E l l'"
    by (rule idst_move [OF D(1) sh' Ae'(1) q(3)]) (use id f(3) cur4 b4(4) in auto)
  ultimately show ?thesis using q(2) by (intro exI [of _ l'] exI [of _ n]) simp
qed

text \<open>The slice becomes a buffer of its own: of a new array, or of the given one.\<close>

lemma insert_new:
  assumes inv: "BL_inv E M hinv cv l" and hole: "\<And>x. lo \<le> x \<Longrightarrow> x < e \<Longrightarrow> cell E l x = None"
    and e: "lo + n = e" "lo < e" "e \<le> M"
    and id: "st = BUF_DIRTY \<longleftrightarrow> i \<noteq> 0" "i = 0 \<and> cur = bl_curDirtyID l \<or> i = Suc (bl_curDirtyID l) \<and> cur = i"
    and l1: "mem_only (l\<lparr>bl_curDirtyID := cur\<rparr>) l1" "mem_ok l1 (bufs E l)"
    and p: "bl_mem l1 a = Some p" "s + n \<le> length (bp_array p)"
    and old: "\<And>a'. bl_mem l a' \<noteq> None \<Longrightarrow> arrays l1 a' = arrays l a'"
    and st: "st \<noteq> BUF_FL_CLEARED"
  shows "\<exists>l'. do { (l, _) \<leftarrow> add_refs 1 l1 (Some a);
      let b = \<lparr>fb_queueId = 0, fb_offset = lo, fb_length = n, fb_state = st,
               fb_loading = False, fb_onDisk = False, fb_zero = False, fb_dirtyID = i,
               fb_data = Some (s, n), fb_ptr = Some a\<rparr>;
      l \<leftarrow> queue E (l\<lparr>bl_at := bt_set (env_at E) (bl_at l) e b\<rparr>) b;
      Some (l, int n) } = Some (l', int n) \<and> BL_inv E M hinv cv l' \<and>
    mem_total l' = mem_total l1 + (if bp_refs p = 0 then int (bp_len p) else 0) \<and>
    bl_mem l' = (bl_mem l1)(a \<mapsto> p\<lparr>bp_refs := bp_refs p + 1\<rparr>) \<and>
    (\<forall>x. cell E l' x = (if lo \<le> x \<and> x < e then Some (data_cell st (bp_array p ! (s + (x - lo)))) else cell E l x)) \<and> idst E l l'"
proof -
  note D = BL_invD [OF inv]
  let ?A = "bufs E l"
  define b where "b = \<lparr>fb_queueId = 0, fb_offset = lo, fb_length = n, fb_state = st,
     fb_loading = False, fb_onDisk = False, fb_zero = False, fb_dirtyID = i,
     fb_data = Some (s, n), fb_ptr = Some a\<rparr>"
  have bf: "fb_offset b = lo" "lo + fb_length b = e" "fb_ptr b = Some a" "fb_dirtyID b = i" "fb_state b = st"
    using e by (simp_all add: b_def)
  have nc: "lo \<le> x \<Longrightarrow> x < e \<Longrightarrow> \<not> covers ?A x c" for x c using cell_hole [OF D(1) hole] by blast
  have Ae: "?A e = None" by (rule hole_shape(1) [OF D(1) nc e(2)])
  define l2 where "l2 = l1\<lparr>bl_mem := (bl_mem l1)(a \<mapsto> p\<lparr>bp_refs := bp_refs p + 1\<rparr>)\<rparr>"
  have okb: "buf_mem_ok l1 b" using p st by (simp add: buf_mem_ok_def b_def)
  have m2: "mem_ok l2 (?A(e \<mapsto> b))"
    unfolding l2_def by (rule mem_ok_add [OF l1(2) D(5) Ae bf(3) p(1) okb])
  have tot2: "mem_total l2 = mem_total l1 + (if bp_refs p = 0 then int (bp_len p) else 0)"
  proof -
    have "0 \<le> bp_refs p" using mem_okD(2) [OF l1(2) p(1)] by simp
    then show ?thesis unfolding l2_def
      using mem_total_upd [OF mem_okD(3) [OF l1(2) p(1)] p(1), of "p\<lparr>bp_refs := bp_refs p + 1\<rparr>"] by simp
  qed
  have mo: "mem_only (l\<lparr>bl_curDirtyID := cur\<rparr>) l2"
    unfolding l2_def by (rule mem_only_trans [OF l1(1) mem_only_mem])
  define l3 where "l3 = l2\<lparr>bl_at := bt_set (env_at E) (bl_at l2) e b\<rparr>"
  have bu3: "bufs E l3 = ?A(e \<mapsto> b)" using mem_onlyD(3) [OF mo, of E] by (simp add: l3_def)
  have ac3: "acct E hinv cv l3 ?A" unfolding l3_def by (intro acct_frame mem_onlyD(4) [OF mo] D(3))
  have mem3: "mem_ok l3 (?A(e \<mapsto> b))" by (rule mem_ok_frame [OF m2]) (simp_all add: l3_def)
  have "ids_ok (max (bl_curDirtyID l) (fb_dirtyID b)) (?A(e \<mapsto> b))"
    by (rule ids_ok_upd [OF D(4)]) (use id bf in auto)
  then have ids3: "ids_ok (bl_curDirtyID l3) (?A(e \<mapsto> b))"
    using id(2) bf(4) mem_onlyD(2) [OF mo] by (auto simp: l3_def max_def split: if_splits)
  from insert_buf [OF D(1) nc bf(1,2) e(2,3) bu3 ac3 mem3 ids3] obtain l' q where q: "queue E l3 b = Some l'"
    "BL_inv E M hinv cv l'" "bufs E l' = ?A(e \<mapsto> b\<lparr>fb_queueId := q\<rparr>)" "frame l3 l'" by blast
  note f = frame_eqs [OF q(4)]
  have ar: "arrays l' = arrays l1"
    unfolding f(1) using arrays_refs [OF p(1), of "bp_refs p + 1"] by (simp add: l3_def l2_def arrays_def fun_eq_iff)
  have "cell E l' x = (if lo \<le> x \<and> x < e then Some (data_cell st (bp_array p ! (s + (x - lo)))) else cell E l x)" for x
  proof -
    have "cell_of l' (b\<lparr>fb_queueId := q\<rparr>) x = data_cell st (bp_array p ! (s + (x - lo)))"
      using ar p(1) by (simp add: cell_of_def byte_at_def b_def data_cell_def arrays_def)
    then show ?thesis
      using cell_insert [OF inv BL_invD(1) [OF q(2)] Ae q(3), of x] old ar bf(1) by simp
  qed
  moreover have "bl_mem l' = (bl_mem l1)(a \<mapsto> p\<lparr>bp_refs := bp_refs p + 1\<rparr>)" using f(5) by (simp add: l3_def l2_def)
  moreover have "mem_total l' = mem_total l2" using f(2) by (simp add: l3_def mem_total_def)
  moreover have "add_refs 1 l1 (Some a) = Some (l2, p\<lparr>bp_refs := bp_refs p + 1\<rparr>)"
    using p(1) by (simp add: add_refs_def l2_def Let_def)
  moreover have "idst E l l'"
    by (rule idst_add [OF D(1) BL_invD(1) [OF q(2)] Ae q(3)]) (use id f(3) mem_onlyD(2) [OF mo] bf(4) in \<open>auto simp: l3_def\<close>)
  ultimately show ?thesis
    using q(1,2) tot2 by (intro exI [of _ l']) (simp add: b_def l3_def)
qed

text \<open>The buffer that ends last before a position.\<close>

lemma prev_bufD:
  assumes "BL_inv E M hinv cv l" "prev_buf E l x = Some b"
  shows "bufs E l (bend b) = Some b" "bend b \<le> x"
proof -
  obtain k es where es: "bt_desc (env_at E) (bl_at l) x = (k, b) # es"
    using assms(2) by (auto simp: prev_buf_def split: list.splits)
  note f = at.desc_first [OF es, unfolded bufs_simps(4)]
  then show "bufs E l (bend b) = Some b" "bend b \<le> x" using inv_shape(5) [OF assms(1) f(1)] by auto
qed

lemma insertOrAppend_cells:
  assumes inv: "BL_inv E M hinv cv l" and hole: "\<forall>x. lo \<le> x \<longrightarrow> x < lo + n \<longrightarrow> cell E l x = None"
    and n: "0 < n" "lo + n \<le> M" and dp: "bl_mem l a = Some dp" "s + n \<le> length (bp_array dp)"
    and copy: "copyData \<longrightarrow> bp_refs dp = 0" and st: "st \<noteq> BUF_FL_CLEARED"
  shows "\<exists>l' k. insertOrAppend E lo (s, n) st copyData a l = Some (l', k) \<and> BL_inv E M hinv cv l' \<and>
    (\<exists>dp'. bl_mem l' a = Some dp' \<and> bp_array dp' = bp_array dp \<and> bp_len dp' = bp_len dp \<and>
       (copyData \<longrightarrow> bp_refs dp' = 0)) \<and>
    (copyData \<longrightarrow> k = mem_total l' - mem_total l) \<and>
    (\<forall>x. lo \<le> x \<longrightarrow> x < lo + n \<longrightarrow> cell E l' x = Some (data_cell st (bp_array dp ! (s + (x - lo))))) \<and>
    (\<forall>x < lo. same_data (cell E l x) (cell E l' x)) \<and> (\<forall>x \<ge> lo + n. cell E l' x = cell E l x) \<and> idst E l l'"
proof -
  note D = BL_invD [OF inv]
  define e where "e = lo + n"
  have e: "lo + n = e" "lo < e" "e \<le> M" using n by (simp_all add: e_def)
  have ae: "add64 lo n = e" using n M_bound by (simp add: e_def u64_simps)
  define data where "data = take n (drop s (bp_array dp))"
  have ld: "length data = n" using dp(2) by (simp add: data_def)
  have nd: "data ! (x - lo) = bp_array dp ! (s + (x - lo))" if "lo \<le> x" "x < e" for x
    using that dp(2) by (simp add: data_def e_def)
  define i where "i = (if st = BUF_DIRTY then Suc (bl_curDirtyID l) else 0)"
  define cur where "cur = (if st = BUF_DIRTY then Suc (bl_curDirtyID l) else bl_curDirtyID l)"
  define l0 where "l0 = l\<lparr>bl_curDirtyID := cur\<rparr>"
  have nx: "(if st = BUF_DIRTY then nextID l else (l, 0)) = (l0, i)"
    by (simp add: nextID_def l0_def cur_def i_def)
  have id: "st = BUF_DIRTY \<longleftrightarrow> i \<noteq> 0" "i = 0 \<and> cur = bl_curDirtyID l \<or> i = Suc (bl_curDirtyID l) \<and> cur = i"
    by (auto simp: i_def cur_def)
  have hole': "\<And>x. lo \<le> x \<Longrightarrow> x < e \<Longrightarrow> cell E l x = None" using hole by (simp add: e_def)
  have nc: "lo \<le> x \<Longrightarrow> x < e \<Longrightarrow> \<not> covers (bufs E l) x c" for x c using cell_hole [OF D(1) hole'] by blast
  have Ae: "bufs E l e = None" by (rule hole_shape(1) [OF D(1) nc e(2)])
  have l0: "bl_mem l0 = bl_mem l" "bl_at l0 = bl_at l" by (simp_all add: l0_def)
  have caps: "fb_cap l0 b = fb_cap l b" for b
    by (cases "fb_data b"; cases "fb_ptr b") (simp_all add: fb_cap_def l0(1))
  have pv: "(case bt_desc (env_at E) (bl_at l0) e of [] \<Rightarrow> None | (_, b) # _ \<Rightarrow> Some b) = prev_buf E l e"
    by (simp add: prev_buf_def l0_def)
  let ?merge = "\<lambda>b. copyData \<and> bend b = lo \<and> PartNum E (fb_offset b) = PartNum E lo \<and> fb_state b = st \<and>
     (\<exists>a \<in> set_option (fb_ptr b). \<exists>p \<in> set_option (bl_mem l a). bp_refs p = 1) \<and>
     (fb_len b + n \<le> fb_cap l b \<or> fb_cap l b \<le> MAX_BUF div 2)"
  define ap where "ap = (case prev_buf E l e of None \<Rightarrow> None | Some b \<Rightarrow> if ?merge b then Some b else None)"
  have ap_eq: "(case prev_buf E l e of None \<Rightarrow> Some None
     | Some b \<Rightarrow> if bend b = e then None
         else if copyData \<and> bend b = lo then do {
           pn \<leftarrow> PartNum E (fb_offset b);
           on \<leftarrow> PartNum E lo;
           Some (if pn = on \<and> fb_state b = st
                    \<and> (\<exists>a \<in> set_option (fb_ptr b). \<exists>p \<in> set_option (bl_mem l0 a). bp_refs p = 1)
                    \<and> (fb_len b + n \<le> fb_cap l0 b \<or> fb_cap l0 b \<le> MAX_BUF div 2)
                 then Some b else None) }
         else Some None) = Some ap"
  proof (cases "prev_buf E l e")
    case (Some b)
    note pb = prev_bufD [OF inv Some]
    have ne: "bend b \<noteq> e" using pb(1) Ae by auto
    show ?thesis
    proof (cases "copyData \<and> bend b = lo")
      case True
      have "fb_offset b < M" using inv_shape(3,4) [OF inv pb(1)] by linarith
      then obtain pn on where "PartNum E (fb_offset b) = Some pn" "PartNum E lo = Some on"
        using PartNum_total [of "fb_offset b"] PartNum_total [of lo] e by auto
      then show ?thesis using Some ne True by (simp add: ap_def l0(1) caps)
    qed (use Some ne in \<open>auto simp: ap_def\<close>)
  qed (simp add: ap_def)
  have unf: "insertOrAppend E lo (s, n) st copyData a l = (case ap of
          Some b \<Rightarrow> do {
            l \<leftarrow> unqueue E l0 b;
            let l = l\<lparr>bl_at := bt_del (env_at E) (bl_at l) (bend b)\<rparr>;
            (l, b, allocated) \<leftarrow> FileBuffer_Append l b data;
            let b = b\<lparr>fb_onDisk := False, fb_dirtyID := i\<rparr>;
            l \<leftarrow> queue E (store E l b) b;
            Some (l, allocated)
          }
        | None \<Rightarrow> do {
            let (l, a, s) = (if copyData
                             then (let (l, a) = new_ptr l0 \<lparr>bp_array = data, bp_len = n, bp_refs = 0\<rparr>
                                   in (l, a, 0))
                             else (l0, a, s));
            (l, _) \<leftarrow> add_refs 1 l (Some a);
            let b = \<lparr>fb_queueId = 0, fb_offset = lo, fb_length = n, fb_state = st,
                     fb_loading = False, fb_onDisk = False, fb_zero = False, fb_dirtyID = i,
                     fb_data = Some (s, n), fb_ptr = Some a\<rparr>;
            l \<leftarrow> queue E (l\<lparr>bl_at := bt_set (env_at E) (bl_at l) e b\<rparr>) b;
            Some (l, int n)
          })"
  proof -
    have n0: "(n = 0) = False" using n(1) by simp
    show ?thesis
      unfolding insertOrAppend_def data_def
      by (simp only: prod.case n0 if_False dp(1) bind.bind_lunit Let_def nx pv ae ap_eq)
  qed
  show ?thesis
  proof (cases ap)
    case (Some b)
    then have pb: "prev_buf E l e = Some b" and mg: "?merge b" by (auto simp: ap_def split: option.splits if_splits)
    then have b: "bufs E l lo = Some b" using prev_bufD(1) [OF inv pb] by simp
    from mg obtain a' p where a': "fb_ptr b = Some a'" "bl_mem l a' = Some p" "bp_refs p = 1" by auto
    have ne: "a \<noteq> a'" using copy mg dp(1) a' by auto
    have st: "fb_state b = st" using mg by blast
    from append_prev [OF inv hole' b a' _ e(2,3) l0_def, of data i] st ld e(1) id obtain l' k where ap':
      "insertOrAppend E lo (s, n) st copyData a l = Some (l', k)" "BL_inv E M hinv cv l'" "k = mem_total l' - mem_total l"
      "\<forall>a''. a'' \<noteq> a' \<longrightarrow> bl_mem l a'' \<noteq> None \<longrightarrow> bl_mem l' a'' = bl_mem l a''"
      "\<forall>x. lo \<le> x \<longrightarrow> x < e \<longrightarrow> cell E l' x = Some (data_cell st (data ! (x - lo)))"
      "\<forall>x < lo. same_data (cell E l x) (cell E l' x)" "\<forall>x \<ge> e. cell E l' x = cell E l x" "idst E l l'"
      unfolding unf Some by auto
    have "bl_mem l' a = Some dp" using ap'(4) ne dp(1) by simp
    then show ?thesis using ap' copy mg nd e(1) by (intro exI [of _ l'] exI [of _ k]) auto
  next
    case None
    have mo: "mem_only l0 l0" by (simp add: mem_only_def)
    have mok: "mem_ok l0 (bufs E l)" by (rule mem_ok_frame [OF D(2)]) (simp_all add: l0_def)
    show ?thesis
    proof (cases copyData)
      case True
      obtain l1 a1 where nw: "new_ptr l0 \<lparr>bp_array = data, bp_len = n, bp_refs = 0\<rparr> = (l1, a1)" by fastforce
      note np = mem_ok_new [OF mok nw, simplified]
      have ne: "a1 \<noteq> a" using np(7) dp(1) l0 by auto
      have old: "bl_mem l a' \<noteq> None \<Longrightarrow> arrays l1 a' = arrays l a'" for a'
        using np(5) [of a'] np(7) l0 by (cases "a' = a1") (auto simp: arrays_def)
      from insert_new [OF inv hole' e id np(4)[unfolded l0_def] np(1,3) _ old st, of 0] ld obtain l' where ins:
        "insertOrAppend E lo (s, n) st copyData a l = Some (l', int n)" "BL_inv E M hinv cv l'"
        "mem_total l' = mem_total l1 + int n" "bl_mem l' = (bl_mem l1)(a1 \<mapsto> \<lparr>bp_array = data, bp_len = n, bp_refs = 1\<rparr>)"
        "\<forall>x. cell E l' x = (if lo \<le> x \<and> x < e then Some (data_cell st (data ! (x - lo))) else cell E l x)" "idst E l l'"
        unfolding unf None using True nw by auto
      have "bl_mem l' a = Some dp" using ins(4) ne np(5) [of a] dp(1) l0 by simp
      moreover have "mem_total l1 = mem_total l" using np(6) by (simp add: l0_def mem_total_def)
      ultimately show ?thesis using ins(1-3,5,6) copy True nd e by (intro exI [of _ l'] exI [of _ "int n"]) auto
    next
      case False
      have old: "bl_mem l a' \<noteq> None \<Longrightarrow> arrays l0 a' = arrays l a'" for a' by (simp add: arrays_def l0)
      have dp0: "bl_mem l0 a = Some dp" using dp(1) l0 by simp
      from insert_new [OF inv hole' e id mo[unfolded l0_def] mok[unfolded l0_def] dp0[unfolded l0_def] dp(2)
          old[unfolded l0_def] st] obtain l' where ins:
        "insertOrAppend E lo (s, n) st copyData a l = Some (l', int n)" "BL_inv E M hinv cv l'"
        "bl_mem l' = (bl_mem l)(a \<mapsto> dp\<lparr>bp_refs := bp_refs dp + 1\<rparr>)"
        "\<forall>x. cell E l' x = (if lo \<le> x \<and> x < e then Some (data_cell st (bp_array dp ! (s + (x - lo)))) else cell E l x)" "idst E l l'"
        unfolding unf None using False by (auto simp: l0_def)
      then show ?thesis using False e by (intro exI [of _ l'] exI [of _ "int n"]) auto
    qed
  qed
qed

section \<open>Adding data\<close>

lemma Add_cells:
  assumes inv: "BL_inv E M hinv cv l" and data: "data \<noteq> []" "off + length data \<le> M" "st \<noteq> BUF_FL_CLEARED"
  shows "\<exists>l' n. Add E l off data slack st copyData = Some (l', n) \<and> BL_inv E M hinv cv l' \<and>
    (copyData \<longrightarrow> n = mem_total l' - mem_total l) \<and>
    (\<forall>x. same_data (added st off data (cell E l) x) (cell E l' x)) \<and> idst E l l' \<and>
    (st \<noteq> BUF_CLEAN \<longrightarrow> (\<forall>x. off \<le> x \<longrightarrow> x < off + length data \<longrightarrow> did E l' x = 0 \<or> bl_curDirtyID l < did E l' x))"
proof -
  define hi where "hi = off + length data"
  define F where "F c \<longleftrightarrow> c_state c = BUF_CLEAN \<or> st \<noteq> BUF_CLEAN" for c :: cell
  have sz: "0 < length data" "off + length data < u64_max" using data M_bound by auto
  have F: "(fb_state b = BUF_CLEAN \<or> st \<noteq> BUF_CLEAN) \<longleftrightarrow> F (cell_of l b x)"
    for l :: "('t, 'd, 'h) BufferList" and b x by (simp add: F_def cell_of_def)
  from RemoveRange_cells [where filt = "\<lambda>b. fb_state b = BUF_CLEAN \<or> st \<noteq> BUF_CLEAN" and F = F, OF inv sz F]
  obtain l1 n1 where l1: "RemoveRange E l off (length data) (\<lambda>b. fb_state b = BUF_CLEAN \<or> st \<noteq> BUF_CLEAN) = Some (l1, n1)"
    "BL_inv E M hinv cv l1" "n1 = mem_total l1 - mem_total l" "cell E l1 = removed F off hi (cell E l)" "idst E l l1"
    by (auto simp: hi_def)
  let ?p = "\<lparr>bp_array = data @ slack, bp_len = length data, bp_refs = 0\<rparr>"
  obtain l2 a where nw: "new_ptr l1 ?p = (l2, a)" by fastforce
  note np = mem_ok_new [OF BL_invD(2) [OF l1(2)] nw, simplified]
  have inv2: "BL_inv E M hinv cv l2"
    using l1(2) np(1) mem_onlyD(2,3,4) [OF np(4)] by (auto simp: BL_inv_def)
  have ar2: "arrays l2 a' = arrays l1 a'" if "bl_mem l1 a' \<noteq> None" for a'
    using np(5) [of a'] np(7) that by (cases "a' = a") (auto simp: arrays_def)
  have c2: "cell E l2 x = cell E l1 x" for x
    by (rule cell_same [OF BL_invD(1) [OF l1(2)] BL_invD(1) [OF inv2]])
      (simp_all add: mem_onlyD(3) [OF np(4)] cell_of_kept [OF l1(2) _ ar2])
  have i2: "idst E l l2"
  proof -
    have "did E l2 = did E l1"
      by (intro ext did_same [OF BL_invD(1) [OF l1(2)] BL_invD(1) [OF inv2]]) (simp add: mem_onlyD(3) [OF np(4)])
    then show ?thesis using l1(5) mem_onlyD(2) [OF np(4)] by (simp add: idst_def)
  qed
  define I where "I cur s \<longleftrightarrow> (case s of (l', n) \<Rightarrow> BL_inv E M hinv cv l' \<and> off \<le> cur \<and> idst E l2 l' \<and>
     (\<exists>dp. bl_mem l' a = Some dp \<and> bp_array dp = data @ slack \<and> (copyData \<longrightarrow> bp_refs dp = 0)) \<and>
     (copyData \<longrightarrow> n = mem_total l' - mem_total l) \<and>
     (\<forall>x < cur. same_data (added st off data (cell E l) x) (cell E l' x)) \<and>
     (\<forall>x \<ge> cur. cell E l' x = cell E l1 x))" for cur s
  have keep: "added st off data (cell E l) x = cell E l1 x" if "cell E l1 x \<noteq> None \<or> x < off \<or> hi \<le> x" for x
    using that by (cases "cell E l x") (auto simp: l1(4) removed_def added_def F_def hi_def split: if_splits)
  have new: "added st off data (cell E l) x = Some (data_cell st (data ! (x - off)))"
    if "cell E l1 x = None" "off \<le> x" "x < hi" for x
    using that by (cases "cell E l x") (auto simp: l1(4) removed_def added_def F_def hi_def split: if_splits)
  let ?cb = "\<lambda>curOffset curEnd (l, allocated). do {
      (l, a) \<leftarrow> insertOrAppend E curOffset (sub64 curOffset off, sub64 curEnd off - sub64 curOffset off) st copyData a l;
      Some (l, allocated + a) }"
  have "\<exists>s' cur. fill E ?cb off (length data) (l2, n1) = Some s' \<and> off + length data \<le> cur \<and> I cur s'"
  proof (rule fill_rule [OF _ sz(2)])
    show "BL_inv E M hinv cv (fst s)" if "I cur s" for cur s using that by (auto simp: I_def)
    show "I cur' s" if I: "I cur s" and "cur \<le> cur'" and cov: "\<And>x. cur \<le> x \<Longrightarrow> x < cur' \<Longrightarrow> cell E (fst s) x \<noteq> None" for cur cur' s
    proof -
      have "same_data (added st off data (cell E l) x) (cell E (fst s) x)" if "x < cur'" for x
        using I cov [of x] keep [of x] that by (cases "x < cur") (auto simp: I_def)
      then show ?thesis using I \<open>cur \<le> cur'\<close> by (auto simp: I_def)
    qed
    show "I off (l2, n1)" using inv2 np(3,6) l1(3) keep c2 i2 by (auto simp: I_def)
    show "\<exists>s'. ?cb cur end s = Some s' \<and> I end s'"
      if I: "I cur s" and ce: "cur < end" "end \<le> off + length data"
        and hole: "\<And>x. cur \<le> x \<Longrightarrow> x < end \<Longrightarrow> cell E (fst s) x = None" for cur "end" s
    proof -
      obtain l' n where s: "s = (l', n)" by fastforce
      obtain dp where dp: "bl_mem l' a = Some dp" "bp_array dp = data @ slack" "copyData \<longrightarrow> bp_refs dp = 0"
        using I s by (auto simp: I_def)
      have off: "off \<le> cur" "BL_inv E M hinv cv l'" using I s by (simp_all add: I_def)
      have sub: "sub64 cur off = cur - off" "sub64 end off = end - off" using off ce sz(2) by (simp_all add: u64_simps)
      have d: "end - off - (cur - off) = end - cur" "cur + (end - cur) = end" using off ce by auto
      have h: "\<forall>x. cur \<le> x \<longrightarrow> x < cur + (end - cur) \<longrightarrow> cell E l' x = None" using hole s d(2) by simp
      have b: "0 < end - cur" "cur + (end - cur) \<le> M" "cur - off + (end - cur) \<le> length (bp_array dp)"
        using ce data(2) dp(2) off(1) d(2) by auto
      from insertOrAppend_cells [where st = st, OF off(2) h b(1,2) dp(1) b(3) dp(3) data(3), unfolded d(2)] obtain l'' k dp' where r: "insertOrAppend E cur (cur - off, end - cur) st copyData a l' = Some (l'', k)"
        "BL_inv E M hinv cv l''" "bl_mem l'' a = Some dp'" "bp_array dp' = bp_array dp" "copyData \<longrightarrow> bp_refs dp' = 0"
        "copyData \<longrightarrow> k = mem_total l'' - mem_total l'"
        "\<forall>x. cur \<le> x \<longrightarrow> x < end \<longrightarrow> cell E l'' x = Some (data_cell st (bp_array dp ! (cur - off + (x - cur))))"
        "\<forall>x < cur. same_data (cell E l' x) (cell E l'' x)" "\<forall>x \<ge> end. cell E l'' x = cell E l' x" "idst E l' l''" by (elim exE conjE) (rule that)
      have ids: "idst E l2 l''" by (rule idst_trans [OF _ r(10)]) (use I s in \<open>simp add: I_def\<close>)
      have "same_data (added st off data (cell E l) x) (cell E l'' x)" if "x < end" for x
      proof (cases "x < cur")
        case True
        then have "same_data (added st off data (cell E l) x) (cell E l' x)" using I s by (simp add: I_def)
        then show ?thesis by (rule same_data_trans) (use r(8) True in simp)
      next
        case False
        then have "cell E l1 x = None" using I s hole [of x] that by (auto simp: I_def)
        then have "added st off data (cell E l) x = Some (data_cell st (data ! (x - off)))"
          using new [of x] False that off ce by (simp add: hi_def)
        moreover have "bp_array dp ! (cur - off + (x - cur)) = data ! (x - off)"
        proof -
          have "cur - off + (x - cur) = x - off" "x - off < length data" using False that off(1) ce by auto
          then show ?thesis using dp(2) by (simp add: nth_append)
        qed
        ultimately show ?thesis using r(7) False that by simp
      qed
      then have "I end (l'', n + k)" using I s r ids dp ce off by (auto simp: I_def)
      then show ?thesis using r(1) s sub d by auto
    qed
  qed
  then obtain l' n cur where fi: "fill E ?cb off (length data) (l2, n1) = Some (l', n)" "hi \<le> cur" "I cur (l', n)"
    by (auto simp: hi_def)
  have "same_data (added st off data (cell E l) x) (cell E l' x)" for x
    using fi(2,3) keep [of x] by (cases "x < cur") (auto simp: I_def)
  moreover have "Add E l off data slack st copyData = Some (l', n)"
    unfolding Add_def using l1(1) nw fi(1) by simp
  moreover have i3: "idst E l l'" by (rule idst_trans [OF i2]) (use fi(3) in \<open>simp add: I_def\<close>)
  moreover have "did E l' x = 0 \<or> bl_curDirtyID l < did E l' x" if "st \<noteq> BUF_CLEAN" "off \<le> x" "x < off + length data" for x
  proof -
    have "cell E l2 x = None" using that by (auto simp: c2 l1(4) removed_def F_def hi_def split: option.split)
    then have "did E l2 x = 0" by (rule did_None [OF BL_invD(1) [OF inv2]])
    moreover have "idst E l2 l'" using fi(3) by (simp add: I_def)
    ultimately show ?thesis using i2 unfolding idst_def by (metis le_less_trans)
  qed
  ultimately show ?thesis using fi(3) by (auto simp: I_def)
qed

section \<open>Buffers without data\<close>

lemma insert_plain:
  assumes inv: "BL_inv E M hinv cv l" and hole: "\<forall>x. lo \<le> x \<longrightarrow> x < e \<longrightarrow> cell E l x = None"
    and b: "fb_offset b = lo" "lo + fb_length b = e" "lo < e" "e \<le> M" "fb_data b = None" "fb_ptr b = None"
      "fb_zero b \<longrightarrow> \<not> fb_onDisk b \<and> \<not> fb_loading b"
    and id: "fb_state b = BUF_DIRTY \<longleftrightarrow> fb_dirtyID b \<noteq> 0"
      "fb_dirtyID b = 0 \<and> cur = bl_curDirtyID l \<or> fb_dirtyID b = Suc (bl_curDirtyID l) \<and> cur = fb_dirtyID b"
  shows "\<exists>l'. queue E (l\<lparr>bl_curDirtyID := cur, bl_at := bt_set (env_at E) (bl_at l) e b\<rparr>) b = Some l' \<and>
    BL_inv E M hinv cv l' \<and> arrays l' = arrays l \<and> mem_total l' = mem_total l \<and>
    (\<forall>x. cell E l' x = (if lo \<le> x \<and> x < e then Some (plain_cell b) else cell E l x)) \<and> idst E l l'"
proof -
  note D = BL_invD [OF inv]
  let ?A = "bufs E l"
  have nc: "lo \<le> x \<Longrightarrow> x < e \<Longrightarrow> \<not> covers ?A x c" for x c using cell_hole [OF D(1)] hole by blast
  have Ae: "?A e = None" by (rule hole_shape(1) [OF D(1) nc b(3)])
  define l1 where "l1 = l\<lparr>bl_curDirtyID := cur, bl_at := bt_set (env_at E) (bl_at l) e b\<rparr>"
  have bu1: "bufs E l1 = ?A(e \<mapsto> b)" by (simp add: l1_def)
  have ac1: "acct E hinv cv l1 ?A" unfolding l1_def by (intro acct_frame D(3))
  have "mem_ok l (?A(e \<mapsto> b))"
    by (rule mem_ok_add_none [OF D(2) Ae b(6)]) (use b in \<open>simp add: buf_mem_ok_def\<close>)
  then have mem1: "mem_ok l1 (?A(e \<mapsto> b))" by (rule mem_ok_frame) (simp_all add: l1_def)
  have "ids_ok (max (bl_curDirtyID l) (fb_dirtyID b)) (?A(e \<mapsto> b))"
    by (rule ids_ok_upd [OF D(4)]) (use id in auto)
  then have ids1: "ids_ok (bl_curDirtyID l1) (?A(e \<mapsto> b))"
    using id(2) by (auto simp: l1_def max_def split: if_splits)
  from insert_buf [OF D(1) nc b(1-4) bu1 ac1 mem1 ids1] obtain l' q where q: "queue E l1 b = Some l'"
    "BL_inv E M hinv cv l'" "bufs E l' = ?A(e \<mapsto> b\<lparr>fb_queueId := q\<rparr>)" "frame l1 l'" by blast
  note f = frame_eqs [OF q(4)]
  have ar: "arrays l' = arrays l" and tot: "mem_total l' = mem_total l"
    unfolding f by (simp_all add: l1_def arrays_def mem_total_def fun_eq_iff)
  have "cell_of l' (b\<lparr>fb_queueId := q\<rparr>) x = plain_cell b" for x
    using b(5) by (simp add: cell_of_def byte_at_def plain_cell_def)
  then have "\<forall>x. cell E l' x = (if lo \<le> x \<and> x < e then Some (plain_cell b) else cell E l x)"
    using cell_insert [OF inv BL_invD(1) [OF q(2)] Ae q(3)] ar b(1) by simp
  moreover have "idst E l l'"
    by (rule idst_add [OF D(1) BL_invD(1) [OF q(2)] Ae q(3)]) (use id f in \<open>auto simp: l1_def\<close>)
  ultimately show ?thesis using q(1,2) ar tot by (simp add: l1_def)
qed

lemma ZeroRange_cells:
  assumes inv: "BL_inv E M hinv cv l" and sz: "0 < sz" "off + sz \<le> M"
  shows "\<exists>l' z n. ZeroRange E l off sz = Some (l', z, n) \<and> BL_inv E M hinv cv l' \<and> n = mem_total l' - mem_total l \<and> idst E l l' \<and>
    (if z then cell E l' = (\<lambda>x. if off \<le> x \<and> x < off + sz then Some zero_cell else cell E l x) \<and>
       (\<forall>x. off \<le> x \<longrightarrow> x < off + sz \<longrightarrow> did E l' x = 0 \<or> bl_curDirtyID l < did E l' x)
     else l' = l \<and> (\<forall>x. off \<le> x \<longrightarrow> x < off + sz \<longrightarrow> (\<exists>c. cell E l x = Some c \<and> c_zero c)))"
proof -
  have b: "add64 off sz = off + sz" "add64 off 1 = Suc off" "off + sz < u64_max"
    using sz M_bound by (simp_all add: u64_simps)
  define ex where "ex = (case bt_asc (env_at E) (bl_at l) (Suc off) of [] \<Rightarrow> None | (_, b) # _ \<Rightarrow> Some b)"
  show ?thesis
  proof (cases "\<exists>b \<in> set_option ex. fb_zero b \<and> fb_offset b \<le> off \<and> bend b \<ge> off + sz")
    case True
    then obtain c where c: "ex = Some c" "fb_zero c" "fb_offset c \<le> off" "off + sz \<le> bend c" by auto
    then obtain k es where es: "bt_asc (env_at E) (bl_at l) (Suc off) = (k, c) # es"
      by (auto simp: ex_def split: list.splits)
    note f = at.asc_first [OF es, unfolded bufs_simps(4)]
    have "cell E l x = Some (cell_of l c x)" if "off \<le> x" "x < off + sz" for x
      by (rule cell_covers [OF BL_invD(1) [OF inv] f(1)]) (use that c inv_shape(5) [OF inv f(1)] in auto)
    then have "\<forall>x. off \<le> x \<longrightarrow> x < off + sz \<longrightarrow> (\<exists>d. cell E l x = Some d \<and> c_zero d)"
      using c(2) by (simp add: cell_of_def)
    moreover have "ZeroRange E l off sz = Some (l, False, 0)"
      using True sz(1) unfolding ZeroRange_def b ex_def [symmetric] Let_def by simp
    ultimately show ?thesis using inv by (intro exI [of _ l] exI [of _ False] exI [of _ 0]) simp
  next
    case False
    from RemoveRange_cells [where filt = "\<lambda>_. True" and F = "\<lambda>_. True", OF inv sz(1) b(3)] obtain l1 n where l1:
      "RemoveRange E l off sz (\<lambda>_. True) = Some (l1, n)" "BL_inv E M hinv cv l1" "n = mem_total l1 - mem_total l"
      "cell E l1 = removed (\<lambda>_. True) off (off + sz) (cell E l)" "idst E l l1" by auto
    let ?b = "\<lparr>fb_queueId = 0, fb_offset = off, fb_length = sz, fb_state = BUF_DIRTY, fb_loading = False,
       fb_onDisk = False, fb_zero = True, fb_dirtyID = Suc (bl_curDirtyID l1), fb_data = None, fb_ptr = None\<rparr>"
    have "\<forall>x. off \<le> x \<longrightarrow> x < off + sz \<longrightarrow> cell E l1 x = None"
      by (simp add: l1(4) removed_def split: option.split)
    from insert_plain [where b = ?b and cur = "Suc (bl_curDirtyID l1)", OF l1(2) this] sz obtain l' where l':
      "queue E (l1\<lparr>bl_curDirtyID := Suc (bl_curDirtyID l1), bl_at := bt_set (env_at E) (bl_at l1) (off + sz) ?b\<rparr>) ?b = Some l'"
      "BL_inv E M hinv cv l'" "mem_total l' = mem_total l1"
      "\<forall>x. cell E l' x = (if off \<le> x \<and> x < off + sz then Some (plain_cell ?b) else cell E l1 x)" "idst E l1 l'" by auto
    have "ZeroRange E l off sz = Some (l', True, n)"
      using False sz(1) l1(1) l'(1) unfolding ZeroRange_def b ex_def [symmetric] Let_def by (simp add: nextID_def)
    moreover have "cell E l' = (\<lambda>x. if off \<le> x \<and> x < off + sz then Some zero_cell else cell E l x)"
      using l'(4) by (auto simp: fun_eq_iff l1(4) removed_def plain_cell_def zero_cell_def split: option.split)
    moreover have "did E l' x = 0 \<or> bl_curDirtyID l < did E l' x" if "off \<le> x" "x < off + sz" for x
    proof -
      have "cell E l1 x = None" using that by (simp add: l1(4) removed_def split: option.split)
      then have "did E l1 x = 0" by (rule did_None [OF BL_invD(1) [OF l1(2)]])
      then show ?thesis using l1(5) l'(5) unfolding idst_def by (metis le_less_trans)
    qed
    ultimately show ?thesis using l'(2,3) l1(3) idst_trans [OF l1(5) l'(5)] by (intro exI [of _ l'] exI [of _ True] exI [of _ n]) simp
  qed
qed

lemma AddLoading_cells:
  assumes inv: "BL_inv E M hinv cv l" and sz: "off + sz \<le> M"
  shows "\<exists>l'. AddLoading E l off sz = Some l' \<and> BL_inv E M hinv cv l' \<and> mem_total l' = mem_total l \<and> idst E l l' \<and>
    cell E l' = (\<lambda>x. if off \<le> x \<and> x < off + sz \<and> cell E l x = None then Some loading_cell else cell E l x)"
proof -
  define N where "N x = (if off \<le> x \<and> x < off + sz \<and> cell E l x = None then Some loading_cell else cell E l x)" for x
  define I where "I cur s \<longleftrightarrow> BL_inv E M hinv cv (fst s) \<and> off \<le> cur \<and> mem_total (fst s) = mem_total l \<and> idst E l (fst s) \<and>
     (\<forall>x < cur. cell E (fst s) x = N x) \<and> (\<forall>x \<ge> cur. cell E (fst s) x = cell E l x)" for cur and s :: "('t, 'd, 'h) BufferList \<times> unit"
  let ?cb = "\<lambda>curOffset curEnd (l, _). let b = loading_buffer curOffset (sub64 curEnd curOffset) in do {
      l \<leftarrow> queue E (l\<lparr>bl_at := bt_set (env_at E) (bl_at l) curEnd b\<rparr>) b; Some (l, ()) }"
  have lim: "off + sz < u64_max" using sz M_bound by simp
  have "\<exists>s' cur. fill E ?cb off sz (l, ()) = Some s' \<and> off + sz \<le> cur \<and> I cur s'"
  proof (rule fill_rule [OF _ lim])
    show "BL_inv E M hinv cv (fst s)" if "I cur s" for cur s using that by (simp add: I_def)
    show "I cur' s" if I: "I cur s" and "cur \<le> cur'" and cov: "\<And>x. cur \<le> x \<Longrightarrow> x < cur' \<Longrightarrow> cell E (fst s) x \<noteq> None" for cur cur' s
    proof -
      have "cell E (fst s) x = N x" if "x < cur'" for x
        using I cov [of x] that by (cases "x < cur") (auto simp: I_def N_def)
      then show ?thesis using I \<open>cur \<le> cur'\<close> by (simp add: I_def)
    qed
    show "I off (l, ())" using inv by (simp add: I_def N_def)
    show "\<exists>s'. ?cb cur end s = Some s' \<and> I end s'"
      if I: "I cur s" and ce: "cur < end" "end \<le> off + sz"
        and hole: "\<And>x. cur \<le> x \<Longrightarrow> x < end \<Longrightarrow> cell E (fst s) x = None" for cur "end" s
    proof -
      let ?b = "loading_buffer cur (end - cur)"
      obtain l1 where s: "s = (l1, ())" by (cases s) auto
      have inv1: "BL_inv E M hinv cv l1" and sub: "sub64 end cur = end - cur"
        using I ce lim by (simp_all add: I_def s u64_simps)
      have h: "\<forall>x. cur \<le> x \<longrightarrow> x < end \<longrightarrow> cell E l1 x = None" using hole s by simp
      from insert_plain [where b = ?b and cur = "bl_curDirtyID l1", OF inv1 h] ce sz obtain l2 where l2:
        "queue E (l1\<lparr>bl_at := bt_set (env_at E) (bl_at l1) end ?b\<rparr>) ?b = Some l2" "BL_inv E M hinv cv l2"
        "mem_total l2 = mem_total l1" "\<forall>x. cell E l2 x = (if cur \<le> x \<and> x < end then Some (plain_cell ?b) else cell E l1 x)" "idst E l1 l2"
        by (auto simp: loading_buffer_def)
      have "plain_cell ?b = loading_cell" by (simp add: plain_cell_def loading_buffer_def loading_cell_def)
      then have "cell E l2 x = N x" if "x < end" for x
        using l2(4) I s h that ce by (cases "x < cur") (auto simp: I_def N_def)
      moreover have "idst E l l2" by (rule idst_trans [OF _ l2(5)]) (use I s in \<open>simp add: I_def\<close>)
      ultimately have "I end (l2, ())" using I s l2(2-4) ce by (auto simp: I_def)
      then show ?thesis using l2(1) s sub by (auto simp: Let_def)
    qed
  qed
  then obtain s' cur where fi: "fill E ?cb off sz (l, ()) = Some s'" "off + sz \<le> cur" "I cur s'" by blast
  have "cell E (fst s') x = N x" for x using fi(2,3) by (cases "x < cur") (auto simp: I_def N_def)
  moreover have "AddLoading E l off sz = Some (fst s')" unfolding AddLoading_def using fi(1) by simp
  ultimately show ?thesis using fi(3) by (auto simp: I_def N_def fun_eq_iff)
qed

end

end
