(* ===== verification/Buffer_List_Read.thy ===== *)
theory Buffer_List_Read
  imports Buffer_List_Add
begin

text \<open>
  The queries of a buffer list, stated on its cells: \<open>GetData\<close> returns the bytes of a range or
  the error of the first position that cannot be read, \<open>GetHoles\<close> the positions without a
  buffer.
\<close>

section \<open>Reading data\<close>

definition readable :: "cell \<Rightarrow> bool" where
  "readable c \<longleftrightarrow> \<not> c_loading c \<and> (c_zero c \<or> c_byte c \<noteq> None)"

definition cell_value :: "cell option \<Rightarrow> byte" where
  "cell_value c = (case c of None \<Rightarrow> 0 | Some d \<Rightarrow> if c_zero d then 0 else the (c_byte d))"

lemma concat_appendZero: "concat (appendZero data n) = concat data @ replicate n 0"
proof (induction data n rule: appendZero.induct)
  case (1 data n)
  show ?case
  proof (cases "n > zeroBuf_len")
    case True
    then have "replicate zeroBuf_len (0 :: byte) @ replicate (n - zeroBuf_len) 0 = replicate n 0"
      by (simp flip: replicate_add)
    with True 1 show ?thesis by (subst appendZero.simps) simp
  next
    case False
    then show ?thesis by (subst appendZero.simps) simp
  qed
qed

definition dirty_ids :: "bufMap \<Rightarrow> u64 \<Rightarrow> u64 \<Rightarrow> nat set" where
  "dirty_ids A lo hi = {fb_dirtyID b | b x. covers A x b \<and> lo \<le> x \<and> x < hi \<and> fb_dirtyID b \<noteq> 0}"

fun finish_read :: "u64 \<Rightarrow> u64 \<times> byte list list \<times> nat set \<times> bufErr option \<Rightarrow>
    byte list list \<times> nat set \<times> bufErr option" where
  "finish_read hi (cur, data, ids, err) =
     (if err = None \<and> cur < hi then ([], ids, Some ErrBufferIsMissing) else (data, ids, err))"

definition in_ranges :: "Range list \<Rightarrow> u64 \<Rightarrow> bool" where
  "in_ranges rs x \<longleftrightarrow> (\<exists>(a, b) \<in> set rs. a \<le> x \<and> x < b)"

fun ranges_in :: "u64 \<Rightarrow> Range list \<Rightarrow> u64 \<Rightarrow> bool" where
  "ranges_in lo [] hi \<longleftrightarrow> True"
| "ranges_in lo ((a, b) # rs) hi \<longleftrightarrow> lo \<le> a \<and> a < b \<and> b \<le> hi \<and> ranges_in (Suc b) rs hi"

lemma ranges_in_mono: "ranges_in lo rs hi \<Longrightarrow> lo' \<le> lo \<Longrightarrow> ranges_in lo' rs hi"
  by (cases rs) auto

definition any_cell :: "('t, 'd, 'h) bufEnv \<Rightarrow> ('t, 'd, 'h) BufferList \<Rightarrow> u64 \<Rightarrow> u64 \<Rightarrow> (cell \<Rightarrow> bool) \<Rightarrow> bool" where
  "any_cell E l lo hi P \<longleftrightarrow> (\<exists>x c. lo \<le> x \<and> x < hi \<and> cell E l x = Some c \<and> P c)"

context buffer_env
begin

lemma asc_covering:
  assumes inv: "BL_inv E M hinv cv l" and c: "cell E l cur \<noteq> None"
  obtains k b es where "bt_asc (env_at E) (bl_at l) (Suc cur) = (k, b) # es" "bufs E l k = Some b"
    "fb_offset b \<le> cur" "cur < k" "es = bt_asc (env_at E) (bl_at l) (Suc k)"
proof -
  obtain b where "find_buf E l cur = Some b" using c by (auto simp: cell_def)
  then obtain k es where es: "bt_asc (env_at E) (bl_at l) (Suc cur) = (k, b) # es" "fb_offset b \<le> cur"
    by (auto simp: find_buf_def split: list.splits if_splits)
  note f = at.asc_first [OF es(1), unfolded bufs_simps(4)]
  show ?thesis by (rule that [OF es(1) f(1) es(2)]) (use f(2) at.asc_tail [OF es(1)] in auto)
qed

lemma asc_missing:
  assumes inv: "BL_inv E M hinv cv l" and c: "cell E l cur = None"
  shows "bt_asc (env_at E) (bl_at l) (Suc cur) = [] \<or>
    (\<exists>k b es. bt_asc (env_at E) (bl_at l) (Suc cur) = (k, b) # es \<and> cur < fb_offset b)"
  using c by (auto simp: cell_def find_buf_def split: list.splits if_splits)

text \<open>The bytes of one buffer within the range.\<close>

lemma read_chunk:
  assumes inv: "BL_inv E M hinv cv l" and b: "bufs E l k = Some b" "fb_offset b \<le> cur" "cur < up" "up \<le> k"
    and r: "readable (cell_of l b cur)"
  shows "\<exists>data'. (if fb_zero b then Some (appendZero data (sub64 up cur))
      else map_option (\<lambda>d. data @ [d]) (subslice l b (sub64 cur (fb_offset b)) (sub64 up (fb_offset b)))) = Some data' \<and>
    concat data' = concat data @ map (\<lambda>x. cell_value (cell E l x)) [cur..<up]"
proof -
  note D = BL_invD [OF inv] and s = inv_shape [OF inv b(1)]
  have sub: "sub64 up cur = up - cur" "sub64 cur (fb_offset b) = cur - fb_offset b" "sub64 up (fb_offset b) = up - fb_offset b"
    using b s M_bound by (simp_all add: u64_simps)
  have c: "cell E l x = Some (cell_of l b x)" if "cur \<le> x" "x < up" for x
    by (rule cell_covers [OF D(1) b(1)]) (use that b in auto)
  show ?thesis
  proof (cases "fb_zero b")
    case True
    have "map (\<lambda>x. cell_value (cell E l x)) [cur..<up] = replicate (up - cur) 0"
      using True by (intro nth_equalityI) (simp_all add: c cell_value_def cell_of_def)
    then show ?thesis using True sub(1) by (simp add: concat_appendZero)
  next
    case False
    then obtain v where "byte_at l b cur = Some v" using r by (auto simp: readable_def cell_of_def)
    then obtain a where a: "fb_ptr b = Some a" by (auto simp: byte_at_def split: option.splits)
    have ok: "buf_mem_ok l b" by (rule mem_okD(1) [OF D(2) b(1)])
    obtain p where p: "bl_mem l a = Some p" using ptr_mem [OF ok a] by auto
    obtain st where st: "fb_data b = Some (st, fb_length b)" "st + fb_length b \<le> length (bp_array p)"
      using ptr_slice [OF ok a p] by metis
    let ?ch = "take (up - cur) (drop (st + (cur - fb_offset b)) (bp_array p))"
    have cap: "up - fb_offset b \<le> fb_cap l b" using st a p b s by (simp add: fb_cap_def)
    have "up - fb_offset b - (cur - fb_offset b) = up - cur" using b by simp
    then have "subslice l b (cur - fb_offset b) (up - fb_offset b) = Some ?ch"
      using cap st(1) a p b by (simp add: subslice_def)
    moreover have "?ch = map (\<lambda>x. cell_value (cell E l x)) [cur..<up]"
    proof (rule nth_equalityI)
      show "length ?ch = length (map (\<lambda>x. cell_value (cell E l x)) [cur..<up])" using st(2) b s by simp
      fix i assume i: "i < length ?ch"
      then have iu: "i < up - cur" "cur + i < up" by auto
      have "st + (cur - fb_offset b) \<le> length (bp_array p)" using st(2) b(2-4) s(2) by linarith
      then have "?ch ! i = bp_array p ! (st + (cur - fb_offset b) + i)" using iu(1) by simp
      also have "\<dots> = bp_array p ! (st + (cur + i - fb_offset b))"
        by (rule arg_cong [where f = "(!) (bp_array p)"]) (use b(2) in linarith)
      also have "\<dots> = cell_value (cell E l (cur + i))"
        using c [of "cur + i"] iu(2) False st(1) a p by (simp add: cell_value_def cell_of_def byte_at_def arrays_def)
      finally show "?ch ! i = map (\<lambda>x. cell_value (cell E l x)) [cur..<up] ! i" using iu(1) by simp
    qed
    ultimately show ?thesis using False sub by (intro exI [of _ "data @ [?ch]"]) simp
  qed
qed

lemma dirty_ids_split:
  assumes inv: "BL_inv E M hinv cv l" and b: "bufs E l k = Some b" "fb_offset b \<le> cur" "cur < k" "up = min hi k" "cur < hi"
  shows "dirty_ids (bufs E l) cur hi = (if fb_dirtyID b \<noteq> 0 then {fb_dirtyID b} else {}) \<union> dirty_ids (bufs E l) up hi"
proof -
  have co: "covers (bufs E l) x b" if "cur \<le> x" "x < k" for x using b that by (auto simp: covers_def)
  have only: "c = b" if "covers (bufs E l) x c" "cur \<le> x" "x < up" for x c
    using covers_unique [OF BL_invD(1) [OF inv] that(1) co [of x]] that b by auto
  have up: "cur \<le> up" "up \<le> hi" using b by auto
  show ?thesis
  proof (intro set_eqI iffI)
    fix i assume "i \<in> dirty_ids (bufs E l) cur hi"
    then obtain c x where c: "i = fb_dirtyID c" "covers (bufs E l) x c" "cur \<le> x" "x < hi" "i \<noteq> 0"
      by (auto simp: dirty_ids_def)
    then show "i \<in> (if fb_dirtyID b \<noteq> 0 then {fb_dirtyID b} else {}) \<union> dirty_ids (bufs E l) up hi"
      using only [OF c(2,3)] by (cases "x < up") (auto simp: dirty_ids_def not_less)
  next
    fix i assume "i \<in> (if fb_dirtyID b \<noteq> 0 then {fb_dirtyID b} else {}) \<union> dirty_ids (bufs E l) up hi"
    then consider "i = fb_dirtyID b" "i \<noteq> 0" | "i \<in> dirty_ids (bufs E l) up hi" by (auto split: if_splits)
    then show "i \<in> dirty_ids (bufs E l) cur hi"
    proof cases
      case 1
      then show ?thesis using co [of cur] b(3,5) by (auto simp: dirty_ids_def)
    next
      case 2
      then show ?thesis using up by (force simp: dirty_ids_def)
    qed
  qed
qed

lemma GetData_loop_ok:
  assumes inv: "BL_inv E M hinv cv l" and hi: "hi < u64_max"
  shows "cur < hi \<Longrightarrow> (\<forall>x. cur \<le> x \<longrightarrow> x < hi \<longrightarrow> (\<exists>c. cell E l x = Some c \<and> readable c)) \<Longrightarrow>
    \<exists>data'. GetData_loop l r hi (bt_asc (env_at E) (bl_at l) (Suc cur)) (cur, data, ids) =
        Some (hi, data', ids \<union> (if r then dirty_ids (bufs E l) cur hi else {}), None) \<and>
      concat data' = concat data @ map (\<lambda>x. cell_value (cell E l x)) [cur..<hi]"
proof (induction "hi - cur" arbitrary: cur data ids rule: less_induct)
  case less
  obtain c where c: "cell E l cur = Some c" "readable c" using less.prems by auto
  then obtain k b es where es: "bt_asc (env_at E) (bl_at l) (Suc cur) = (k, b) # es" "bufs E l k = Some b"
    "fb_offset b \<le> cur" "cur < k" "es = bt_asc (env_at E) (bl_at l) (Suc k)"
    using asc_covering [OF inv, of cur] by auto
  have cb: "c = cell_of l b cur" using cell_covers [OF BL_invD(1) [OF inv] es(2-4)] c(1) by simp
  have ld: "\<not> fb_loading b" using c(2) by (simp add: cb readable_def cell_of_def)
  have bk: "bend b = k" by (rule inv_shape(5) [OF inv es(2)])
  let ?up = "min hi k" and ?ids = "if r \<and> fb_dirtyID b \<noteq> 0 then insert (fb_dirtyID b) ids else ids"
  from read_chunk [OF inv es(2,3), of ?up data] c(2) cb es(4) less.prems(1) obtain d where d:
    "(if fb_zero b then Some (appendZero data (sub64 ?up cur))
      else map_option (\<lambda>d. data @ [d]) (subslice l b (sub64 cur (fb_offset b)) (sub64 ?up (fb_offset b)))) = Some d"
    "concat d = concat data @ map (\<lambda>x. cell_value (cell E l x)) [cur..<?up]" by auto
  note ids = dirty_ids_split [OF inv es(2-4) refl less.prems(1)]
  show ?case
  proof (cases "k < hi")
    case True
    have "\<exists>data'. GetData_loop l r hi (bt_asc (env_at E) (bl_at l) (Suc k)) (k, d, ?ids) =
        Some (hi, data', ?ids \<union> (if r then dirty_ids (bufs E l) k hi else {}), None) \<and>
      concat data' = concat d @ map (\<lambda>x. cell_value (cell E l x)) [k..<hi]"
      by (rule less.hyps) (use True es(4) less.prems in auto)
    moreover have "[cur..<k] @ [k..<hi] = [cur..<hi]" using True es(4) upt_add_eq_append [of cur k "hi - k"] by simp
    then have "map (\<lambda>x. cell_value (cell E l x)) [cur..<k] @ map (\<lambda>x. cell_value (cell E l x)) [k..<hi] =
        map (\<lambda>x. cell_value (cell E l x)) [cur..<hi]" by (metis map_append)
    moreover have "?ids \<union> (if r then dirty_ids (bufs E l) k hi else {}) = ids \<union> (if r then dirty_ids (bufs E l) cur hi else {})"
      using ids True by auto
    ultimately show ?thesis
      using True d ld es(1,3,4,5) bk less.prems(1) by (simp add: Let_def min_def split del: if_split) auto
  next
    case False
    have "dirty_ids (bufs E l) hi hi = {}" by (auto simp: dirty_ids_def)
    then have "?ids = ids \<union> (if r then dirty_ids (bufs E l) cur hi else {})" using ids False by (auto simp: min_def)
    then show ?thesis
      using False d ld es(1,3,4) bk less.prems(1) by (simp add: Let_def min_def split del: if_split) auto
  qed
qed

lemma GetData_loop_err:
  assumes inv: "BL_inv E M hinv cv l" and hi: "hi < u64_max"
    and x: "x < hi" "cell E l x = None \<or> (\<exists>c. cell E l x = Some c \<and> c_loading c)"
  shows "cur \<le> x \<Longrightarrow> (\<forall>y. cur \<le> y \<longrightarrow> y < x \<longrightarrow> (\<exists>c. cell E l y = Some c \<and> readable c)) \<Longrightarrow>
    \<exists>ids'. map_option (finish_read hi) (GetData_loop l r hi (bt_asc (env_at E) (bl_at l) (Suc cur)) (cur, data, ids)) =
      Some ([], ids', Some (if cell E l x = None then ErrBufferIsMissing else ErrBufferIsLoading))"
proof (induction "x - cur" arbitrary: cur data ids rule: less_induct)
  case less
  show ?case
  proof (cases "cell E l cur")
    case None
    then have cx: "cur = x" using less.prems by (metis le_neq_implies_less option.distinct(1) order_refl)
    from asc_missing [OF inv None] show ?thesis
    proof
      assume "bt_asc (env_at E) (bl_at l) (Suc cur) = []"
      then show ?thesis using cx None x(1) by simp
    next
      assume "\<exists>k b es. bt_asc (env_at E) (bl_at l) (Suc cur) = (k, b) # es \<and> cur < fb_offset b"
      then show ?thesis using cx None x(1) by (auto simp del: map_option_eq_Some)
    qed
  next
    case (Some c)
    then obtain k b es where es: "bt_asc (env_at E) (bl_at l) (Suc cur) = (k, b) # es" "bufs E l k = Some b"
      "fb_offset b \<le> cur" "cur < k" "es = bt_asc (env_at E) (bl_at l) (Suc k)"
      using asc_covering [OF inv, of cur] by auto
    note sh = BL_invD(1) [OF inv]
    have cb: "cell E l y = Some (cell_of l b y)" if "cur \<le> y" "y < k" for y
      by (rule cell_covers [OF sh es(2)]) (use that es in auto)
    have bk: "bend b = k" by (rule inv_shape(5) [OF inv es(2)])
    have ch: "cur < hi" using less.prems(1) x(1) by simp
    show ?thesis
    proof (cases "fb_loading b")
      case True
      have "cur = x"
      proof (rule ccontr)
        assume "cur \<noteq> x"
        then obtain c where "cell E l cur = Some c" "readable c" using less.prems by (metis le_neq_implies_less order_refl)
        then have "readable (cell_of l b cur)" using cb [of cur] es(4) by simp
        then show False using True by (simp add: readable_def cell_of_def)
      qed
      then show ?thesis using True es(1,3) ch Some by (auto simp: Let_def)
    next
      case False
      have xk: "k \<le> x"
      proof (rule ccontr)
        assume "\<not> k \<le> x"
        then have "cell E l x = Some (cell_of l b x)" using cb [of x] less.prems(1) by simp
        then show False using x(2) False by (auto simp: cell_of_def)
      qed
      then have "readable (cell_of l b cur)"
        using less.prems(2) cb [of cur] es(4) by (metis less_le_trans option.inject order_refl)
      from read_chunk [OF inv es(2,3,4) order_refl this, of data] obtain d where d:
        "(if fb_zero b then Some (appendZero data (sub64 k cur))
          else map_option (\<lambda>d. data @ [d]) (subslice l b (sub64 cur (fb_offset b)) (sub64 k (fb_offset b)))) = Some d" by auto
      let ?ids = "if r \<and> fb_dirtyID b \<noteq> 0 then insert (fb_dirtyID b) ids else ids"
      have "\<exists>ids'. map_option (finish_read hi) (GetData_loop l r hi (bt_asc (env_at E) (bl_at l) (Suc k)) (k, d, ?ids)) =
          Some ([], ids', Some (if cell E l x = None then ErrBufferIsMissing else ErrBufferIsLoading))"
        by (rule less.hyps) (use xk es(4) less.prems in auto)
      moreover have kh: "k < hi" using xk x(1) by simp
      ultimately show ?thesis
        using d False es(1,3,5) bk ch by (simp add: Let_def min_def split del: if_split)
    qed
  qed
qed

text \<open>\<open>GetData\<close> in terms of cells: all bytes, or the error of the first position that has none.\<close>

lemma GetData_cells:
  assumes inv: "BL_inv E M hinv cv l" and sz: "0 < sz" "off + sz < u64_max"
  shows "(\<forall>x. off \<le> x \<longrightarrow> x < off + sz \<longrightarrow> (\<exists>c. cell E l x = Some c \<and> readable c)) \<Longrightarrow>
    \<exists>data. GetData E l off sz r = Some (data, if r then dirty_ids (bufs E l) off (off + sz) else {}, None) \<and>
      concat data = map (\<lambda>x. cell_value (cell E l x)) [off..<off + sz]"
    and "off \<le> x \<Longrightarrow> x < off + sz \<Longrightarrow> \<forall>y. off \<le> y \<longrightarrow> y < x \<longrightarrow> (\<exists>c. cell E l y = Some c \<and> readable c) \<Longrightarrow>
      cell E l x = None \<or> (\<exists>c. cell E l x = Some c \<and> c_loading c) \<Longrightarrow>
      \<exists>ids. GetData E l off sz r = Some ([], ids, Some (if cell E l x = None then ErrBufferIsMissing else ErrBufferIsLoading))"
proof -
  have b: "add64 off sz = off + sz" "add64 off 1 = Suc off" using sz by (simp_all add: u64_simps)
  have eq: "GetData E l off sz r = map_option (finish_read (off + sz))
      (GetData_loop l r (off + sz) (bt_asc (env_at E) (bl_at l) (Suc off)) (off, [], {}))"
    unfolding GetData_def b Let_def
    by (cases "GetData_loop l r (off + sz) (bt_asc (env_at E) (bl_at l) (Suc off)) (off, [], {})") auto
  show "\<exists>data. GetData E l off sz r = Some (data, if r then dirty_ids (bufs E l) off (off + sz) else {}, None) \<and>
      concat data = map (\<lambda>x. cell_value (cell E l x)) [off..<off + sz]"
    if "\<forall>x. off \<le> x \<longrightarrow> x < off + sz \<longrightarrow> (\<exists>c. cell E l x = Some c \<and> readable c)"
    using GetData_loop_ok [OF inv sz(2) _ that, of r "[]" "{}"] sz(1) unfolding eq
    by (auto simp del: map_option_eq_Some)
  show "\<exists>ids. GetData E l off sz r = Some ([], ids, Some (if cell E l x = None then ErrBufferIsMissing else ErrBufferIsLoading))"
    if "off \<le> x" "x < off + sz" "\<forall>y. off \<le> y \<longrightarrow> y < x \<longrightarrow> (\<exists>c. cell E l y = Some c \<and> readable c)"
      "cell E l x = None \<or> (\<exists>c. cell E l x = Some c \<and> c_loading c)"
    unfolding eq by (rule GetData_loop_err [OF inv sz(2) that(2,4,1,3)])
qed

section \<open>Holes\<close>

lemma GetHoles_acc:
  "GetHoles_loop hi es (cur, hs, ld, fc) =
     (case GetHoles_loop hi es (cur, [], False, False) of (c, h, d, f) \<Rightarrow> (c, hs @ h, ld \<or> d, fc \<or> f))"
proof (induction es arbitrary: cur hs ld fc)
  case (Cons e es)
  obtain k b where e: "e = (k, b)" by fastforce
  show ?case
    unfolding e GetHoles_loop.simps
    by (subst Cons.IH, subst (2) Cons.IH)
      (auto split: prod.splits)
qed simp

lemma any_cell_split:
  assumes inv: "BL_inv E M hinv cv l" and b: "bufs E l k = Some b" "cur < k" "fb_offset b < hi" "cur < hi"
    and gap: "\<And>x. cur \<le> x \<Longrightarrow> x < fb_offset b \<Longrightarrow> cell E l x = None"
    and P: "\<And>x. P (cell_of l b x) \<longleftrightarrow> Q"
  shows "any_cell E l cur hi P \<longleftrightarrow> Q \<or> any_cell E l k hi P"
proof -
  have cb: "cell E l x = Some (cell_of l b x)" if "fb_offset b \<le> x" "x < k" for x
    by (rule cell_covers [OF BL_invD(1) [OF inv] b(1) that])
  show ?thesis
  proof
    assume "any_cell E l cur hi P"
    then obtain x c where x: "cur \<le> x" "x < hi" "cell E l x = Some c" "P c" by (auto simp: any_cell_def)
    show "Q \<or> any_cell E l k hi P"
    proof (cases "x < k")
      case True
      then have "fb_offset b \<le> x" using gap [OF x(1)] x(3) by (metis not_le option.distinct(1))
      then show ?thesis using cb [OF _ True] x(3,4) P by simp
    next
      case False
      then show ?thesis using x by (auto simp: any_cell_def)
    qed
  next
    assume q: "Q \<or> any_cell E l k hi P"
    show "any_cell E l cur hi P"
    proof (cases Q)
      case True
      let ?x = "max cur (fb_offset b)"
      have "cell E l ?x = Some (cell_of l b ?x)" using cb [of ?x] b inv_shape(4) [OF inv b(1)] by simp
      then show ?thesis using True P b unfolding any_cell_def by (intro exI [of _ ?x]) auto
    next
      case False
      with q show ?thesis using b(2) unfolding any_cell_def by (metis less_imp_le order_trans)
    qed
  qed
qed

lemma GetHoles_loop_spec:
  assumes inv: "BL_inv E M hinv cv l"
  shows "cur < hi \<Longrightarrow> GetHoles_loop hi (bt_asc (env_at E) (bl_at l) (Suc cur)) (cur, [], False, False) = (c', hs, ld, fc) \<Longrightarrow>
    (\<forall>x. in_ranges (hs @ (if c' < hi then [(c', hi)] else [])) x \<longleftrightarrow> cur \<le> x \<and> x < hi \<and> cell E l x = None) \<and>
    ranges_in cur (hs @ (if c' < hi then [(c', hi)] else [])) hi \<and>
    (ld \<longleftrightarrow> any_cell E l cur hi c_loading) \<and> (fc \<longleftrightarrow> any_cell E l cur hi (\<lambda>c. c_state c = BUF_FL_CLEARED))"
proof (induction "hi - cur" arbitrary: cur c' hs ld fc rule: less_induct)
  case less
  show ?case
  proof (cases "bt_asc (env_at E) (bl_at l) (Suc cur)")
    case Nil
    then have none: "cell E l x = None" if "cur \<le> x" for x
      using cell_None [OF BL_invD(1) [OF inv]] that by (force simp: at.asc_Nil covers_def)
    show ?thesis using less.prems Nil none by (auto simp: in_ranges_def any_cell_def)
  next
    case (Cons e es)
    obtain k b where e: "e = (k, b)" by fastforce
    note f = at.asc_first [OF Cons [unfolded e], unfolded bufs_simps(4)] and t = at.asc_tail [OF Cons [unfolded e]]
    note sh = BL_invD(1) [OF inv] and sb = inv_shape [OF inv f(1)]
    have gap: "cell E l x = None" if "cur \<le> x" "x < fb_offset b" for x
    proof -
      have "\<not> covers (bufs E l) x c" for c
      proof
        assume "covers (bufs E l) x c"
        then obtain e where e: "bufs E l e = Some c" "fb_offset c \<le> x" "x < e" by (auto simp: covers_def)
        have "k \<le> e" using f(3) [OF e(1)] e(3) that(1) by simp
        moreover have "k \<noteq> e" using e f(1) that(2) by auto
        ultimately have "k \<le> fb_offset c" using shape_disj [OF sh f(1) e(1)] by simp
        then show False using e(2) that(2) sb(4) by simp
      qed
      then show ?thesis using cell_None [OF sh] by simp
    qed
    show ?thesis
    proof (cases "hi \<le> fb_offset b")
      case True
      then show ?thesis using less.prems Cons e gap by (auto simp: in_ranges_def any_cell_def)
    next
      case False
      have ck: "cur < k" using f(2) by simp
      have cb: "cell E l x \<noteq> None" if "fb_offset b \<le> x" "x < k" for x
        using cell_covers [OF sh f(1) that] by simp
      obtain c1 h1 d1 f1 where r1: "GetHoles_loop hi es (k, [], False, False) = (c1, h1, d1, f1)" by (metis prod_cases4)
      let ?pre = "if cur < fb_offset b then [(cur, fb_offset b)] else []"
      have out: "c' = c1" "hs = ?pre @ h1" "ld = (fb_loading b \<or> d1)" "fc = (fb_state b = BUF_FL_CLEARED \<or> f1)"
        using less.prems(2) Cons e False sb(5) GetHoles_acc [of hi es k ?pre "fb_loading b" "fb_state b = BUF_FL_CLEARED"] r1
        by (auto simp: min_def split: if_splits)
      let ?H = "h1 @ (if c1 < hi then [(c1, hi)] else [])"
      have ih: "(\<forall>x. in_ranges ?H x \<longleftrightarrow> k \<le> x \<and> x < hi \<and> cell E l x = None) \<and> ranges_in k ?H hi \<and>
        (d1 \<longleftrightarrow> any_cell E l k hi c_loading) \<and> (f1 \<longleftrightarrow> any_cell E l k hi (\<lambda>c. c_state c = BUF_FL_CLEARED))"
      proof (cases "k < hi")
        case True
        show ?thesis by (rule less.hyps) (use True ck r1 t less.prems(1) in auto)
      next
        case False
        have "es = [] \<or> (\<exists>k' b' es'. es = (k', b') # es' \<and> hi \<le> fb_offset b')"
        proof (cases es)
          case (Cons e' es')
          obtain k' b' where e': "e' = (k', b')" by fastforce
          note f' = at.asc_first [OF t [symmetric, unfolded Cons e'], unfolded bufs_simps(4)]
          have "k \<le> fb_offset b'" by (rule shape_disj [OF sh f(1) f'(1)]) (use f'(2) in simp)
          then show ?thesis using Cons e' False by auto
        qed simp
        then have "c1 = k" "h1 = []" "\<not> d1" "\<not> f1" using r1 by auto
        then show ?thesis using False by (auto simp: in_ranges_def any_cell_def)
      qed
      have any: "any_cell E l cur hi P \<longleftrightarrow> Q \<or> any_cell E l k hi P" if "\<And>x. P (cell_of l b x) \<longleftrightarrow> Q" for P Q
        by (rule any_cell_split [OF inv f(1) ck _ less.prems(1)]) (use False gap that in auto)
      have "ld \<longleftrightarrow> any_cell E l cur hi c_loading" "fc \<longleftrightarrow> any_cell E l cur hi (\<lambda>c. c_state c = BUF_FL_CLEARED)"
        using any [of c_loading "fb_loading b"] any [of "\<lambda>c. c_state c = BUF_FL_CLEARED" "fb_state b = BUF_FL_CLEARED"]
          ih out by (simp_all add: cell_of_def)
      moreover have "in_ranges (?pre @ ?H) x \<longleftrightarrow> cur \<le> x \<and> x < hi \<and> cell E l x = None" for x
      proof -
        have "in_ranges (?pre @ ?H) x \<longleftrightarrow> (cur \<le> x \<and> x < fb_offset b) \<or> in_ranges ?H x" by (auto simp: in_ranges_def)
        moreover have "in_ranges ?H x \<longleftrightarrow> k \<le> x \<and> x < hi \<and> cell E l x = None" using ih by blast
        ultimately show ?thesis using gap [of x] cb [of x] ck False sb(4) by (cases "x < fb_offset b"; cases "x < k") auto
      qed
      moreover have "ranges_in cur (?pre @ ?H) hi"
      proof (cases "cur < fb_offset b")
        case True
        have "ranges_in (Suc (fb_offset b)) ?H hi" by (rule ranges_in_mono [of k]) (use ih sb(4) in auto)
        then show ?thesis using True False by simp
      next
        case False
        then show ?thesis using ih ck by (auto intro: ranges_in_mono)
      qed
      moreover have "hs @ (if c' < hi then [(c', hi)] else []) = ?pre @ ?H" using out by simp
      ultimately show ?thesis by (simp only:) simp
    qed
  qed
qed

lemma GetHoles_cells:
  assumes inv: "BL_inv E M hinv cv l" and sz: "0 < sz" "off + sz < u64_max"
    and r: "GetHoles E l off sz = (holes, loading, cleared)"
  shows "in_ranges holes x \<longleftrightarrow> off \<le> x \<and> x < off + sz \<and> cell E l x = None" "ranges_in off holes (off + sz)"
    "loading \<longleftrightarrow> any_cell E l off (off + sz) c_loading"
    "cleared \<longleftrightarrow> any_cell E l off (off + sz) (\<lambda>c. c_state c = BUF_FL_CLEARED)"
proof -
  have b: "add64 off sz = off + sz" "add64 off 1 = Suc off" using sz by (simp_all add: u64_simps)
  obtain c h d f where l: "GetHoles_loop (off + sz) (bt_asc (env_at E) (bl_at l) (Suc off)) (off, [], False, False) = (c, h, d, f)"
    by (metis prod_cases4)
  have "holes = h @ (if c < off + sz then [(c, off + sz)] else [])" "loading = d" "cleared = f"
    using r l unfolding GetHoles_def b by (auto simp: Let_def)
  then show "in_ranges holes x \<longleftrightarrow> off \<le> x \<and> x < off + sz \<and> cell E l x = None" "ranges_in off holes (off + sz)"
    "loading \<longleftrightarrow> any_cell E l off (off + sz) c_loading"
    "cleared \<longleftrightarrow> any_cell E l off (off + sz) (\<lambda>c. c_state c = BUF_FL_CLEARED)"
    using GetHoles_loop_spec [OF inv _ l] sz(1) by auto
qed

end

end
