(* ===== verification/Buffer_List_State.thy ===== *)
theory Buffer_List_State
  imports Buffer_List_Read
begin

text \<open>
  The operations that change the state of buffers in place: \<open>SetState\<close> and
  \<open>SetFlushedClean\<close> after uploads, \<open>SplitAt\<close> before them, eviction from memory and the
  return from the disk cache.  Each keeps the invariant and does not panic.
\<close>

definition retagged :: "BufferState \<Rightarrow> FileBuffer \<Rightarrow> FileBuffer option \<Rightarrow> bool" where
  "retagged st b c \<longleftrightarrow> (\<exists>q. c = Some (b\<lparr>fb_dirtyID := 0, fb_state := st, fb_queueId := q\<rparr>))"

definition flushed_clean :: "FileBuffer option \<Rightarrow> FileBuffer option \<Rightarrow> bool" where
  "flushed_clean c c' \<longleftrightarrow> (case c of None \<Rightarrow> c' = None
     | Some b \<Rightarrow> if fb_state b = BUF_FL_CLEARED then c' = None
         else if fb_state b = BUF_FLUSHED_FULL \<or> fb_state b = BUF_FLUSHED_CUT then retagged BUF_CLEAN b c'
         else c' = Some b)"

text \<open>A buffer that is not on disk leaves the list when it is clean; a flushed one stays without its data and
  joins a neighbour of its kind.\<close>

definition cleared :: "FileBuffer \<Rightarrow> FileBuffer" where
  "cleared b = b\<lparr>fb_ptr := None, fb_data := None, fb_state := BUF_FL_CLEARED\<rparr>"

definition evictedBufs :: "bufMap \<Rightarrow> u64 \<Rightarrow> FileBuffer \<Rightarrow> bufMap \<Rightarrow> bool" where
  "evictedBufs A e b A' \<longleftrightarrow>
     (if fb_state b = BUF_CLEAN then A' = A(e := None)
      else \<exists>q. A' = A(e \<mapsto> (cleared b)\<lparr>fb_queueId := q\<rparr>) \<or>
        (\<exists>p. A (fb_offset b) = Some p \<and> fb_state p = BUF_FL_CLEARED \<and>
           A' = A(fb_offset b := None, e \<mapsto> (cleared b)\<lparr>fb_length := add64 (fb_length b) (fb_length p), fb_offset := fb_offset p, fb_queueId := q\<rparr>)))"

context buffer_env
begin

section \<open>Changing the state of a buffer\<close>

lemma retag_inv:
  assumes inv: "BL_inv E M hinv cv l" and b: "bufs E l e = Some b"
    and f: "f b = b\<lparr>fb_dirtyID := i, fb_state := st\<rparr>" "i = 0 \<or> i = fb_dirtyID b" "st = BUF_DIRTY \<longleftrightarrow> i \<noteq> 0"
      "st \<noteq> BUF_FL_CLEARED"
  shows "\<exists>l' q. retag E f b l = Some l' \<and> BL_inv E M hinv cv l' \<and> frame l l' \<and>
    bufs E l' = (bufs E l)(e \<mapsto> b\<lparr>fb_dirtyID := i, fb_state := st, fb_queueId := q\<rparr>)"
proof -
  note D = BL_invD [OF inv] and s = inv_shape [OF inv b]
  let ?A = "bufs E l"
  from unqueue_acct [OF D(3) b s(1-3)] obtain l1 where l1: "unqueue E l b = Some l1"
    "acct E hinv cv l1 (?A(e := None))" "bl_at l1 = bl_at l" "frame l l1" by blast
  define c where "c = b\<lparr>fb_dirtyID := i, fb_state := st\<rparr>"
  define l2 where "l2 = store E l1 c"
  have bc: "bend c = e" using s(5) by (simp add: c_def bend_def)
  have bu2: "bufs E l2 = (?A(e := None))(e \<mapsto> c)" using bufs_cong [OF l1(3)] bc by (simp add: l2_def)
  have ac2: "acct E hinv cv l2 (?A(e := None))" unfolding l2_def store_def by (rule acct_frame(1) [OF l1(2)])
  note f1 = frame_eqs [OF l1(4)]
  have "mem_ok l1 (?A(e \<mapsto> c))"
    by (rule mem_ok_upd [OF f1(4) [OF D(2)] b]) (use mem_okD(1) [OF f1(4) [OF D(2)] b] f(4) in \<open>simp_all add: c_def\<close>)
  then have "mem_ok l1 ((?A(e := None))(e \<mapsto> c))" by simp
  then have mem2: "mem_ok l2 ((?A(e := None))(e \<mapsto> c))" by (rule mem_ok_frame) (simp_all add: l2_def store_def)
  have "ids_ok (max (bl_curDirtyID l) (fb_dirtyID c)) (?A(e \<mapsto> c))"
    by (rule ids_ok_upd [OF D(4)]) (use f b in \<open>auto simp: c_def\<close>)
  moreover have "max (bl_curDirtyID l) (fb_dirtyID c) = bl_curDirtyID l2"
    using f(2) ids_okD(1) [OF D(4) b] f1(3) by (auto simp: c_def l2_def store_def)
  ultimately have ids2: "ids_ok (bl_curDirtyID l2) ((?A(e := None))(e \<mapsto> c))" by simp
  have hole: "\<not> covers (?A(e := None)) x d" if "fb_offset b \<le> x" "x < e" for x d
    using covers_del [OF D(1) b, of x d] that by simp
  from insert_buf [where b = c, OF shape_del [OF D(1)] hole _ _ s(4,3) bu2 ac2 mem2 ids2] s(2)
  obtain l' q where q: "queue E l2 c = Some l'" "BL_inv E M hinv cv l'"
    "bufs E l' = (?A(e := None))(e \<mapsto> c\<lparr>fb_queueId := q\<rparr>)" "frame l2 l'" by (auto simp: c_def)
  have "frame l l'" using q(4) l1(4) by (simp add: frame_def l2_def store_def)
  moreover have "retag E f b l = Some l'" using l1(1) q(1) f(1) by (simp add: retag_def l2_def c_def)
  moreover have "bufs E l' = ?A(e \<mapsto> b\<lparr>fb_dirtyID := i, fb_state := st, fb_queueId := q\<rparr>)"
    using q(3) by (simp add: c_def)
  ultimately show ?thesis using q(2) by blast
qed

text \<open>A buffer of the list after some of them changed state: \<open>b\<close> itself or \<open>b\<close> retagged.\<close>

lemma SetState_loop_inv:
  assumes st: "st \<noteq> BUF_DIRTY" "st \<noteq> BUF_FL_CLEARED" and hi: "sub64 (add64 off sz) 1 = hi"
  shows "BL_inv E M hinv cv l \<Longrightarrow> es = bt_asc (env_at E) (bl_at l) p \<Longrightarrow>
    \<exists>l'. SetState_loop E off sz ids st es l = Some l' \<and> BL_inv E M hinv cv l' \<and> frame l l' \<and>
      (\<forall>e. bufs E l e = None \<longrightarrow> bufs E l' e = None) \<and>
      (\<forall>e b. bufs E l e = Some b \<longrightarrow>
         (bufs E l' e = Some b \<or> fb_dirtyID b \<in> ids \<and> fb_dirtyID b \<noteq> 0 \<and> retagged st b (bufs E l' e)) \<and>
         (p \<le> e \<longrightarrow> fb_offset b \<le> hi \<longrightarrow> fb_dirtyID b \<noteq> 0 \<longrightarrow> fb_dirtyID b \<in> ids \<longrightarrow> retagged st b (bufs E l' e)))"
proof (induction es arbitrary: l p)
  case Nil
  then have "\<forall>e b. bufs E l e = Some b \<longrightarrow> \<not> p \<le> e"
    using at.asc_Nil [of "bl_at l" p] by (metis bufs_simps(4) not_le)
  with Nil.prems show ?case by (auto simp: frame_def)
next
  case (Cons e es)
  obtain k b where e: "e = (k, b)" by fastforce
  have asc: "bt_asc (env_at E) (bl_at l) p = (k, b) # es" using Cons.prems(2) e by simp
  note f = at.asc_first [OF asc, unfolded bufs_simps(4)] and t = at.asc_tail [OF asc]
  define hit where "hit \<longleftrightarrow> fb_dirtyID b \<noteq> 0 \<and> fb_dirtyID b \<in> ids"
  obtain l1 where l1: "(if hit then retag E (\<lambda>b. b\<lparr>fb_dirtyID := 0, fb_state := st\<rparr>) b l else Some l) = Some l1"
    "BL_inv E M hinv cv l1" "frame l l1" "\<And>j. j \<noteq> k \<Longrightarrow> bufs E l1 j = bufs E l j"
    "if hit then retagged st b (bufs E l1 k) else bufs E l1 k = Some b"
  proof (cases hit)
    case True
    from retag_inv [where f = "\<lambda>b. b\<lparr>fb_dirtyID := 0, fb_state := st\<rparr>" and i = 0 and st = st, OF Cons.prems(1) f(1)] st obtain l' q where
      "retag E (\<lambda>b. b\<lparr>fb_dirtyID := 0, fb_state := st\<rparr>) b l = Some l'" "BL_inv E M hinv cv l'" "frame l l'"
      "bufs E l' = (bufs E l)(k \<mapsto> b\<lparr>fb_dirtyID := 0, fb_state := st, fb_queueId := q\<rparr>)" by auto
    then show ?thesis using True by (intro that [of l']) (auto simp: retagged_def)
  next
    case False
    then show ?thesis using Cons.prems(1) f(1) by (intro that [of l]) (auto simp: frame_def)
  qed
  have kept: "bufs E l1 k = Some b \<or> fb_dirtyID b \<in> ids \<and> fb_dirtyID b \<noteq> 0 \<and> retagged st b (bufs E l1 k)"
    using l1(5) by (auto simp: hit_def split: if_splits)
  have done_k: "fb_dirtyID b \<noteq> 0 \<Longrightarrow> fb_dirtyID b \<in> ids \<Longrightarrow> retagged st b (bufs E l1 k)"
    using l1(5) by (simp add: hit_def)
  have before: "\<not> p \<le> j \<or> j = k \<or> Suc k \<le> j" if "bufs E l j = Some c" for j c
    using f(3) [OF that] by linarith
  show ?case
  proof (cases "fb_offset b < hi")
    case True
    have es: "es = bt_asc (env_at E) (bl_at l1) (Suc k)"
      unfolding t by (rule at.asc_cong) (simp add: l1(4))
    from Cons.IH [OF l1(2) es] obtain l' where l': "SetState_loop E off sz ids st es l1 = Some l'"
      "BL_inv E M hinv cv l'" "frame l1 l'" "\<And>e. bufs E l1 e = None \<Longrightarrow> bufs E l' e = None"
      "\<And>e b. bufs E l1 e = Some b \<Longrightarrow> (bufs E l' e = Some b \<or> fb_dirtyID b \<in> ids \<and> fb_dirtyID b \<noteq> 0 \<and> retagged st b (bufs E l' e)) \<and>
         (Suc k \<le> e \<longrightarrow> fb_offset b \<le> hi \<longrightarrow> fb_dirtyID b \<noteq> 0 \<longrightarrow> fb_dirtyID b \<in> ids \<longrightarrow> retagged st b (bufs E l' e))" by blast
    have kk: "bufs E l' k = bufs E l1 k"
    proof (cases "bufs E l1 k")
      case (Some c)
      then have "fb_dirtyID c = 0 \<or> fb_dirtyID c \<notin> ids"
        using l1(5) by (auto simp: hit_def retagged_def split: if_splits)
      then show ?thesis using l'(5) [OF Some] Some by auto
    qed (simp add: l'(4))
    have "SetState_loop E off sz ids st (e # es) l = Some l'"
      using l1(1) l'(1) True e hi by (simp add: hit_def)
    moreover have "frame l l'" using l1(3) l'(3) by (simp add: frame_def)
    moreover have "\<forall>j. bufs E l j = None \<longrightarrow> bufs E l' j = None"
      using l'(4) l1(4) f(1) by (metis option.distinct(1))
    moreover have "(bufs E l' j = Some c \<or> fb_dirtyID c \<in> ids \<and> fb_dirtyID c \<noteq> 0 \<and> retagged st c (bufs E l' j)) \<and>
         (p \<le> j \<longrightarrow> fb_offset c \<le> hi \<longrightarrow> fb_dirtyID c \<noteq> 0 \<longrightarrow> fb_dirtyID c \<in> ids \<longrightarrow> retagged st c (bufs E l' j))"
      if c: "bufs E l j = Some c" for j c
    proof (cases "j = k")
      case True
      then have "c = b" using c f(1) by simp
      then show ?thesis using kept done_k kk True by simp
    next
      case False
      then show ?thesis using l'(5) [of j c] l1(4) [OF False] c before [OF c] by auto
    qed
    ultimately show ?thesis using l'(2) by blast
  next
    case False
    have "SetState_loop E off sz ids st (e # es) l = Some l1"
      using l1(1) False e hi by (simp add: hit_def)
    moreover have "hi < fb_offset c" if "bufs E l j = Some c" "Suc k \<le> j" for j c
      using shape_disj [OF BL_invD(1) [OF Cons.prems(1)] f(1) that(1)] that(2) False
        inv_shape(4) [OF Cons.prems(1) f(1)] by linarith
    moreover have "\<forall>j. bufs E l j = None \<longrightarrow> bufs E l1 j = None" using l1(4) f(1) by (metis option.distinct(1))
    moreover have "(bufs E l1 j = Some c \<or> fb_dirtyID c \<in> ids \<and> fb_dirtyID c \<noteq> 0 \<and> retagged st c (bufs E l1 j)) \<and>
         (p \<le> j \<longrightarrow> fb_offset c \<le> hi \<longrightarrow> fb_dirtyID c \<noteq> 0 \<longrightarrow> fb_dirtyID c \<in> ids \<longrightarrow> retagged st c (bufs E l1 j))"
      if c: "bufs E l j = Some c" for j c
    proof (cases "j = k")
      case True
      then have "c = b" using c f(1) by simp
      then show ?thesis using kept done_k True by simp
    next
      case False
      then show ?thesis using l1(4) [OF False] c before [OF c] calculation(2) [OF c] by fastforce
    qed
    ultimately show ?thesis using l1(2,3) by blast
  qed
qed

lemma SplitAt_inv:
  assumes inv: "BL_inv E M hinv cv l" and off: "off < u64_max - 1"
  shows "\<exists>l'. SplitAt E l off = Some l' \<and> BL_inv E M hinv cv l' \<and> arrays l' = arrays l \<and> mem_total l' = mem_total l \<and>
    (\<forall>x. cell E l' x = cell E l x) \<and> (\<forall>e b. bufs E l' e = Some b \<longrightarrow> e \<le> off \<or> off \<le> fb_offset b) \<and> idst E l l' \<and>
    (\<forall>c. (\<forall>e b. bufs E l e = Some b \<longrightarrow> e \<le> c \<or> c \<le> fb_offset b) \<longrightarrow> (\<forall>e b. bufs E l' e = Some b \<longrightarrow> e \<le> c \<or> c \<le> fb_offset b))"
proof -
  note D = BL_invD [OF inv]
  have b1: "add64 off 1 = Suc off" using off by (simp add: u64_simps)
  show ?thesis
  proof (cases "bt_asc (env_at E) (bl_at l) (Suc off)")
    case Nil
    then have "\<forall>e b. bufs E l e = Some b \<longrightarrow> e \<le> off" by (force simp: at.asc_Nil)
    then show ?thesis using Nil inv unfolding SplitAt_def b1 by auto
  next
    case (Cons h es)
    obtain k b where h: "h = (k, b)" by fastforce
    note f = at.asc_first [OF Cons [unfolded h], unfolded bufs_simps(4)]
    have right: "k \<le> fb_offset c" if "bufs E l e = Some c" "off < e" "e \<noteq> k" for e c
      using shape_disj [OF D(1) f(1) that(1)] f(3) [OF that(1)] that by simp
    show ?thesis
    proof (cases "fb_offset b < off")
      case True
      have ok: "off < k" using f(2) by simp
      from split_cells [OF inv f(1) True ok] obtain l' lf r where s: "split E l b off = Some (l', lf, r)" "BL_inv E M hinv cv l'"
        "bufs E l' = (bufs E l)(k \<mapsto> r, off \<mapsto> lf)" "piece b off (k - off) r" "arrays l' = arrays l"
        "mem_total l' = mem_total l" "\<forall>x. cell E l' x = cell E l x" "idst E l l'" "piece b (fb_offset b) (off - fb_offset b) lf" by blast
      have keep: "e \<le> c \<or> c \<le> fb_offset d" if A: "\<forall>e b. bufs E l e = Some b \<longrightarrow> e \<le> c \<or> c \<le> fb_offset b" and B: "bufs E l' e = Some d" for c e d
      proof -
        have kc: "k \<le> c \<or> c \<le> fb_offset b" using A f(1) by blast
        have "e = off \<and> d = lf \<or> e = k \<and> d = r \<or> bufs E l e = Some d"
          using B unfolding s(3) by (cases "e = off"; cases "e = k") simp_all
        moreover have "fb_offset lf = fb_offset b" "fb_offset r = off" using s(4,9) by (simp_all add: piece_def)
        ultimately show ?thesis using A [rule_format, of e d] kc True ok by (elim disjE conjE) auto
      qed
      have "e \<le> off \<or> off \<le> fb_offset c" if c: "bufs E l' e = Some c" for e c
      proof -
        consider "e = off" | "e = k" "c = r" | "e \<noteq> k" "bufs E l e = Some c"
          using c s(3) by (auto split: if_splits)
        then show ?thesis
        proof cases
          case 3
          then show ?thesis using right [of e c] ok by (cases "off < e") auto
        qed (use s(4) in \<open>auto simp: piece_def\<close>)
      qed
      moreover have "SplitAt E l off = Some l'" using True Cons h s(1) unfolding SplitAt_def b1 by simp
      ultimately show ?thesis using s(2,5-8) keep by blast
    next
      case False
      have "e \<le> off \<or> off \<le> fb_offset c" if "bufs E l e = Some c" for e c
        using that f(1,2) right [of e c] False by (cases "e = k"; cases "off < e") auto
      then show ?thesis using False Cons h inv unfolding SplitAt_def b1 by auto
    qed
  qed
qed

section \<open>After a completed upload\<close>

text \<open>Flushed buffers become clean; those that were evicted while flushed disappear.\<close>

lemma SetFlushedClean_inv:
  assumes inv: "BL_inv E M hinv cv l"
  shows "\<exists>l'. SetFlushedClean E l = Some l' \<and> BL_inv E M hinv cv l' \<and> arrays l' = arrays l \<and>
    (\<forall>e. flushed_clean (bufs E l e) (bufs E l' e)) \<and> bl_curDirtyID l' = bl_curDirtyID l"
proof -
  define I where "I p s \<longleftrightarrow> BL_inv E M hinv cv s \<and> arrays s = arrays l \<and> bl_curDirtyID s = bl_curDirtyID l \<and>
    (\<forall>e < p. flushed_clean (bufs E l e) (bufs E s e)) \<and> (\<forall>e \<ge> p. bufs E s e = bufs E l e)" for p s
  define Q where "Q s \<longleftrightarrow> BL_inv E M hinv cv s \<and> arrays s = arrays l \<and> bl_curDirtyID s = bl_curDirtyID l \<and>
    (\<forall>e. flushed_clean (bufs E l e) (bufs E s e))" for s
  have "\<exists>s'. ascendChange (env_at E) bl_at 0 (SetFlushedClean_iter E) l = Some s' \<and> Q s'"
  proof (rule at.ascendChange_rule [where I = I])
    show "I 0 l" using inv by (simp add: I_def)
  next
    fix p s k b
    assume I: "I p s" and get: "bt_get (env_at E) (bl_at s) k = Some b" and pk: "p \<le> k"
      and gap: "\<And>j. p \<le> j \<Longrightarrow> j < k \<Longrightarrow> bt_get (env_at E) (bl_at s) j = None"
    have inv': "BL_inv E M hinv cv s" and b: "bufs E s k = Some b" "bufs E l k = Some b" using I get pk by (simp_all add: I_def)
    have gapl: "bufs E l j = None" "bufs E s j = None" if "p \<le> j" "j < k" for j
      using gap [OF that] I that by (auto simp: I_def)
    have step: "I (Suc k) s'" if "BL_inv E M hinv cv s'" "arrays s' = arrays s" "bl_curDirtyID s' = bl_curDirtyID s" "\<And>j. j \<noteq> k \<Longrightarrow> bufs E s' j = bufs E s j"
      "flushed_clean (Some b) (bufs E s' k)" for s'
    proof -
      have "flushed_clean (bufs E l e) (bufs E s' e)" if "e < Suc k" for e
      proof (cases "e = k")
        case True
        then show ?thesis using \<open>flushed_clean (Some b) (bufs E s' k)\<close> b by simp
      next
        case False
        then show ?thesis
          using I gapl [of e] that \<open>\<And>j. j \<noteq> k \<Longrightarrow> bufs E s' j = bufs E s j\<close>
          by (cases "e < p") (auto simp: I_def flushed_clean_def)
      qed
      then show ?thesis using I that pk by (auto simp: I_def)
    qed
    show "\<exists>c chg s'. SetFlushedClean_iter E k b s = Some (c, chg, s') \<and>
       (if c then I (Suc k) s' \<and> (\<forall>j. k < j \<longrightarrow> bt_get (env_at E) (bl_at s') j = bt_get (env_at E) (bl_at s) j) else Q s')"
    proof (cases "fb_state b = BUF_FL_CLEARED")
      case True
      from delete_inv [OF inv' b(1)] obtain s' n where d: "BL_delete E s b = Some (s', n)" "BL_inv E M hinv cv s'"
        "bufs E s' = (bufs E s)(k := None)" "arrays s' = arrays s" "bl_curDirtyID s' = bl_curDirtyID s" by blast
      then have "I (Suc k) s'" using True by (intro step) (auto simp: flushed_clean_def)
      moreover have "SetFlushedClean_iter E k b s = Some (True, True, s')"
        using True d(1) by (simp add: SetFlushedClean_iter_def)
      ultimately show ?thesis using d(3) by (intro exI [of _ True] exI [of _ s']) simp
    next
      case nc: False
      show ?thesis
      proof (cases "fb_state b = BUF_FLUSHED_FULL \<or> fb_state b = BUF_FLUSHED_CUT")
        case True
        from retag_inv [where f = "\<lambda>b. b\<lparr>fb_dirtyID := 0, fb_state := BUF_CLEAN\<rparr>" and i = 0 and st = BUF_CLEAN, OF inv' b(1)]
        obtain s' q where d: "retag E (\<lambda>b. b\<lparr>fb_dirtyID := 0, fb_state := BUF_CLEAN\<rparr>) b s = Some s'"
          "BL_inv E M hinv cv s'" "frame s s'"
          "bufs E s' = (bufs E s)(k \<mapsto> b\<lparr>fb_dirtyID := 0, fb_state := BUF_CLEAN, fb_queueId := q\<rparr>)" by auto
        then have "I (Suc k) s'"
          using True nc frame_eqs(1,3) [OF d(3)] by (intro step) (auto simp: flushed_clean_def retagged_def)
        moreover have "SetFlushedClean_iter E k b s = Some (True, False, s')"
          using True nc d(1) by (simp add: SetFlushedClean_iter_def)
        ultimately show ?thesis using d(4) by (intro exI [of _ True] exI [of _ False] exI [of _ s']) simp
      next
        case False
        then have "I (Suc k) s" using nc inv' b by (intro step) (auto simp: flushed_clean_def)
        moreover have "SetFlushedClean_iter E k b s = Some (True, False, s)"
          using False nc by (simp add: SetFlushedClean_iter_def)
        ultimately show ?thesis by (intro exI [of _ True] exI [of _ False] exI [of _ s]) simp
      qed
    qed
  next
    fix p s assume I: "I p s" and e: "\<And>k. p \<le> k \<Longrightarrow> bt_get (env_at E) (bl_at s) k = None"
    have "flushed_clean (bufs E l j) (bufs E s j)" for j
    proof (cases "j < p")
      case False
      then have "bufs E s j = None" "bufs E l j = None" using I e [of j] by (auto simp: I_def)
      then show ?thesis by (simp add: flushed_clean_def)
    qed (use I in \<open>simp add: I_def\<close>)
    then show "Q s" using I by (simp add: I_def Q_def)
  qed
  then show ?thesis by (auto simp: SetFlushedClean_def Q_def)
qed

section \<open>Eviction from memory\<close>

text \<open>A buffer whose memory is released stays in the list without data.\<close>

lemma drop_data_inv:
  assumes inv: "BL_inv E M hinv cv l" and b: "bufs E l e = Some b" "fb_ptr b = Some a"
  defines "b0 \<equiv> b\<lparr>fb_ptr := None, fb_data := None\<rparr>"
  shows "\<exists>l1 n. release l (fb_ptr b) = Some (l1, n) \<and> BL_inv E M hinv cv (store E l1 b0) \<and>
    bufs E (store E l1 b0) = (bufs E l)(e \<mapsto> b0) \<and> arrays l1 = arrays l \<and>
    n = mem_total (store E l1 b0) - mem_total l \<and> bl_curDirtyID l1 = bl_curDirtyID l"
proof -
  note D = BL_invD [OF inv] and s = inv_shape [OF inv b(1)]
  obtain l1 n p where l1: "release l (fb_ptr b) = Some (l1, n)"
    "l1 = l\<lparr>bl_mem := (bl_mem l)(a \<mapsto> p\<lparr>bp_refs := bp_refs p - 1\<rparr>)\<rparr>"
    "mem_ok l1 ((bufs E l)(e := None))" "arrays l1 = arrays l" "n = mem_total l1 - mem_total l"
    using mem_ok_release [OF D(2,5) b] by blast
  let ?l = "store E l1 b0"
  have be: "bend b0 = e" using s(5) by (simp add: b0_def bend_def)
  have bu: "bufs E ?l = (bufs E l)(e \<mapsto> b0)" using be by (simp add: l1(2))
  have "mem_ok l1 (((bufs E l)(e := None))(e \<mapsto> b0))"
    by (rule mem_ok_add_none [OF l1(3)])
      (use mem_okD(1) [OF D(2) b(1)] b(2) in \<open>auto simp: b0_def buf_mem_ok_def split: option.splits\<close>)
  then have m0: "mem_ok l1 ((bufs E l)(e \<mapsto> b0))" by simp
  have m1: "mem_ok ?l ((bufs E l)(e \<mapsto> b0))"
    by (rule mem_ok_frame [OF m0]) (simp_all add: store_def)
  have "acct E hinv cv l1 (bufs E l)" unfolding l1(2) by (rule acct_frame(2) [OF D(3)])
  then have "acct E hinv cv ?l (bufs E l)" unfolding store_def by (rule acct_frame(1))
  from acct_same [OF this b(1)] have ac: "acct E hinv cv ?l ((bufs E l)(e \<mapsto> b0))" by (simp add: b0_def)
  have ids: "ids_ok (bl_curDirtyID ?l) ((bufs E l)(e \<mapsto> b0))"
    using ids_ok_cong [OF D(4), of "(bufs E l)(e \<mapsto> b0)"] b(1) by (simp add: b0_def l1(2) store_def)
  have sh: "shape M ((bufs E l)(e \<mapsto> b0))" by (rule shape_same [OF D(1) b(1)]) (simp_all add: b0_def)
  have "BL_inv E M hinv cv ?l" unfolding BL_inv_def bu using sh m1 ac ids by simp
  moreover have "mem_total ?l = mem_total l1" by (simp add: store_def mem_total_def)
  ultimately show ?thesis using l1(1,2,4,5) bu by auto
qed

text \<open>Two adjacent buffers without data become one.\<close>

lemma merge_inv:
  assumes inv: "BL_inv E M hinv cv l" and b: "bufs E l e = Some b" "fb_ptr b = None"
    and p: "bufs E l (fb_offset b) = Some p" "fb_ptr p = None"
    and st: "st = BUF_DIRTY \<longleftrightarrow> fb_dirtyID b \<noteq> 0"
    and l1: "acct E hinv cv l1 ((bufs E l)(e := None, fb_offset b := None))" "frame l l1"
      "bufs E l1 = (bufs E l)(e := x)"
  defines "m \<equiv> b\<lparr>fb_state := st, fb_length := add64 (fb_length b) (fb_length p), fb_offset := fb_offset p\<rparr>"
  shows "\<exists>l' q. queue E (store E (l1\<lparr>bl_at := bt_del (env_at E) (bl_at l1) (bend p)\<rparr>) m) m = Some l' \<and>
    BL_inv E M hinv cv l' \<and> frame l l' \<and>
    bufs E l' = (bufs E l)(e := None, fb_offset b := None, e \<mapsto> m\<lparr>fb_queueId := q\<rparr>)"
proof -
  note D = BL_invD [OF inv] and sb = inv_shape [OF inv b(1)] and sp = inv_shape [OF inv p(1)]
  let ?k = "fb_offset b"
  let ?A = "(bufs E l)(e := None, ?k := None)"
  have len: "add64 (fb_length b) (fb_length p) = fb_length b + fb_length p"
    using sb sp M_bound by (simp add: u64_simps)
  have mf: "fb_offset m = fb_offset p" "fb_offset p + fb_length m = e" "fb_ptr m = None" "fb_data m = None"
    "fb_dirtyID m = fb_dirtyID b" "fb_state m = st"
    using sb(2) sp(2) b(2) ptr_data [OF mem_okD(1) [OF D(2) b(1)]] len by (simp_all add: m_def)
  have zm: "fb_zero m \<longrightarrow> \<not> fb_onDisk m \<and> \<not> fb_loading m"
    using mem_okD(1) [OF D(2) b(1)] mf(4) by (simp add: buf_mem_ok_def m_def)
  have bm: "bend m = e" by (rule bend_eq) (use mf sb in auto)
  define l2 where "l2 = store E (l1\<lparr>bl_at := bt_del (env_at E) (bl_at l1) (bend p)\<rparr>) m"
  have sh: "shape M ?A" by (intro shape_del D(1))
  have bu2: "bufs E l2 = ?A(e \<mapsto> m)"
    using l1(3) bm sp(5) sb(4) by (auto simp: l2_def fun_eq_iff)
  have ac2: "acct E hinv cv l2 ?A" unfolding l2_def store_def by (intro acct_frame l1(1))
  have "mem_ok l ?A"
    by (rule mem_ok_del_none [OF mem_ok_del_none [OF D(2) b]]) (use p sb(4) in auto)
  then have "mem_ok l (?A(e \<mapsto> m))"
    by (rule mem_ok_add_none) (use mf zm sb(4) in \<open>auto simp: buf_mem_ok_def\<close>)
  then have mem2: "mem_ok l2 (?A(e \<mapsto> m))"
    by (rule mem_ok_frame) (use l1(2) in \<open>simp_all add: l2_def store_def frame_def\<close>)
  have "ids_ok (max (bl_curDirtyID l) (fb_dirtyID m)) (((bufs E l)(fb_offset b := None))(e \<mapsto> m))"
    by (rule ids_ok_upd [OF ids_ok_del [OF D(4)]]) (use mf st b(1) sb(4) in auto)
  moreover have "max (bl_curDirtyID l) (fb_dirtyID m) = bl_curDirtyID l2"
    using ids_okD(1) [OF D(4) b(1)] mf(5) l1(2) by (simp add: l2_def store_def frame_def)
  moreover have "((bufs E l)(fb_offset b := None))(e \<mapsto> m) = ?A(e \<mapsto> m)" by auto
  ultimately have ids2: "ids_ok (bl_curDirtyID l2) (?A(e \<mapsto> m))" by (simp only:)
  have hole: "\<not> covers ?A x c" if "fb_offset p \<le> x" "x < e" for x c
  proof -
    have "covers ?A x c \<longleftrightarrow> covers ((bufs E l)(e := None)) x c \<and> \<not> (fb_offset p \<le> x \<and> x < ?k)"
      by (rule covers_del [OF shape_del [OF D(1)]]) (use p(1) sb(4) in simp)
    then show ?thesis using covers_del [OF D(1) b(1), of x c] that by auto
  qed
  have lt: "fb_offset p < e" using sp(4) sb(4) by simp
  from insert_buf [OF sh hole mf(1,2) lt sb(3) bu2 ac2 mem2 ids2] obtain l' q where q: "queue E l2 m = Some l'"
    "BL_inv E M hinv cv l'" "bufs E l' = ?A(e \<mapsto> m\<lparr>fb_queueId := q\<rparr>)" "frame l2 l'" by blast
  have "frame l l'" using q(4) l1(2) by (simp add: frame_def l2_def store_def)
  then show ?thesis using q(1-3) by (auto simp: l2_def)
qed

lemma requeue_inv:
  assumes inv: "BL_inv E M hinv cv l" and b: "bufs E l e = Some b" "fb_ptr b = None"
    and l1: "acct E hinv cv l1 ((bufs E l)(e := None))" "frame l l1" "bufs E l1 = (bufs E l)(e \<mapsto> c)"
    and c: "fb_offset c = fb_offset b" "fb_offset b + fb_length c = e" "fb_ptr c = None" "fb_data c = None"
      "fb_dirtyID c = fb_dirtyID b" "fb_dirtyID b = 0" "fb_state c \<noteq> BUF_DIRTY"
      "fb_zero c \<longrightarrow> \<not> fb_onDisk c \<and> \<not> fb_loading c"
  shows "\<exists>l' q. queue E l1 c = Some l' \<and> BL_inv E M hinv cv l' \<and> frame l l' \<and>
    bufs E l' = (bufs E l)(e \<mapsto> c\<lparr>fb_queueId := q\<rparr>)"
proof -
  note D = BL_invD [OF inv] and sb = inv_shape [OF inv b(1)]
  let ?A = "(bufs E l)(e := None)"
  have bu: "bufs E l1 = ?A(e \<mapsto> c)" using l1(3) by simp
  have "mem_ok l ?A" by (rule mem_ok_del_none [OF D(2) b])
  then have "mem_ok l (?A(e \<mapsto> c))"
    by (rule mem_ok_add_none) (use c in \<open>auto simp: buf_mem_ok_def\<close>)
  then have mem: "mem_ok l1 (?A(e \<mapsto> c))" by (rule mem_ok_frame) (use l1(2) in \<open>simp_all add: frame_def\<close>)
  have "ids_ok (max (bl_curDirtyID l) (fb_dirtyID c)) ((bufs E l)(e \<mapsto> c))"
    by (rule ids_ok_upd [OF D(4)]) (use c b(1) in auto)
  moreover have "max (bl_curDirtyID l) (fb_dirtyID c) = bl_curDirtyID l1"
    using ids_okD(1) [OF D(4) b(1)] c(5) l1(2) by (simp add: frame_def)
  ultimately have ids: "ids_ok (bl_curDirtyID l1) (?A(e \<mapsto> c))" by simp
  have hole: "\<not> covers ?A x d" if "fb_offset b \<le> x" "x < e" for x d
    using covers_del [OF D(1) b(1), of x d] that by auto
  from insert_buf [OF shape_del [OF D(1)] hole c(1,2) sb(4,3) bu l1(1) mem ids] obtain l' q where
    "queue E l1 c = Some l'" "BL_inv E M hinv cv l'" "bufs E l' = ?A(e \<mapsto> c\<lparr>fb_queueId := q\<rparr>)" "frame l1 l'" by blast
  then show ?thesis using l1(2) by (auto simp: frame_def)
qed

lemma evict_unqueue:
  assumes inv: "BL_inv E M hinv cv l" and b: "bufs E l e = Some b"
  shows "\<exists>l'. unqueue E l b = Some l' \<and> acct E hinv cv l' ((bufs E l)(e := None)) \<and> frame l l' \<and> bufs E l' = bufs E l"
  using unqueue_acct [OF BL_invD(3) [OF inv] b inv_shape(1-3) [OF inv b]] bufs_cong by blast

lemma EvictFromMemory_inv:
  assumes inv: "BL_inv E M hinv cv l" and b: "bufs E l e = Some b" "fb_ptr b = Some a"
    and st: "fb_state b = BUF_CLEAN \<or> fb_state b = BUF_FLUSHED_FULL"
  shows "\<exists>l' n d. EvictFromMemory E l b = Some (l', n, d) \<and> BL_inv E M hinv cv l' \<and> n = mem_total l' - mem_total l \<and>
    arrays l' = arrays l \<and> bl_curDirtyID l' = bl_curDirtyID l \<and> (\<not> fb_onDisk b \<longrightarrow> evictedBufs (bufs E l) e b (bufs E l'))"
proof -
  define b0 where "b0 = b\<lparr>fb_ptr := None, fb_data := None\<rparr>"
  from drop_data_inv [OF inv b, folded b0_def] obtain l1 n where l1: "release l (fb_ptr b) = Some (l1, n)"
    "BL_inv E M hinv cv (store E l1 b0)" "bufs E (store E l1 b0) = (bufs E l)(e \<mapsto> b0)" "arrays l1 = arrays l"
    "n = mem_total (store E l1 b0) - mem_total l" "bl_curDirtyID l1 = bl_curDirtyID l" by blast
  define l2 where "l2 = store E l1 b0"
  note inv2 = l1(2) [folded l2_def]
  have b2: "bufs E l2 e = Some b0" "fb_ptr b0 = None" "fb_offset b0 = fb_offset b" "fb_state b0 = fb_state b"
    "fb_onDisk b0 = fb_onDisk b" using l1(3) by (simp_all add: l2_def b0_def)
  have s2: "bend b0 = e" by (rule inv_shape(5) [OF inv2 b2(1)])
  have ar2: "arrays l2 = arrays l" using l1(4) by (simp add: l2_def store_def arrays_def fun_eq_iff)
  have cur2: "bl_curDirtyID l2 = bl_curDirtyID l" using l1(6) by (simp add: l2_def store_def)
  have bu2: "bufs E l2 = (bufs E l)(e \<mapsto> b0)" using l1(3) by (simp add: l2_def)
  have fin: ?thesis if "EvictFromMemory E l b = Some (l', n, d)" "BL_inv E M hinv cv l'" "frame l2 l'"
      "fb_onDisk b \<or> evictedBufs (bufs E l) e b (bufs E l')" for l' d
    using that l1(5) ar2 cur2 frame_eqs(1,2,3) [OF that(3)] by (auto simp: l2_def)
  define pv where "pv = (case prev_buf E l2 (fb_offset b0) of None \<Rightarrow> None
    | Some c \<Rightarrow> if bend c = fb_offset b0 then Some c else None)"
  have pv_eq: "(case bt_desc (env_at E) (bl_at l2) (fb_offset b0) of [] \<Rightarrow> None
      | (_, b) # _ \<Rightarrow> if bend b = fb_offset b0 then Some b else None) = pv"
    by (auto simp: pv_def prev_buf_def split: list.split)
  have pvD: "bufs E l2 (fb_offset b0) = Some p" "bend p = fb_offset b0" if "pv = Some p" for p
    using that prev_bufD(1) [OF inv2, of "fb_offset b0" p] by (auto simp: pv_def split: option.splits if_splits)
  from evict_unqueue [OF inv2 b2(1)] obtain l3 where l3: "unqueue E l2 b0 = Some l3"
    "acct E hinv cv l3 ((bufs E l2)(e := None))" "frame l2 l3" "bufs E l3 = bufs E l2" by blast
  note ev = EvictFromMemory_def [of E l b, unfolded l1(1) bind.bind_lunit prod.case, folded b0_def, unfolded Let_def,
      folded l2_def, unfolded pv_eq l3(1) bind.bind_lunit]
  have unp: "\<exists>l4. unqueue E l' p = Some l4 \<and> acct E hinv cv l4 ((bufs E l2)(e := None, fb_offset b0 := None)) \<and>
      frame l2 l4 \<and> bufs E l4 = bufs E l'"
    if p: "bufs E l2 (fb_offset b0) = Some p" and l': "acct E hinv cv l' ((bufs E l2)(e := None))" "frame l2 l'" for p l'
  proof -
    note sp = inv_shape [OF inv2 p]
    have "((bufs E l2)(e := None)) (fb_offset b0) = Some p" using p inv_shape(4) [OF inv2 b2(1)] by auto
    from unqueue_acct [OF l'(1) this sp(1-3)] obtain l4 where l4: "unqueue E l' p = Some l4"
      "acct E hinv cv l4 ((bufs E l2)(e := None, fb_offset b0 := None))" "bl_at l4 = bl_at l'" "frame l' l4" by blast
    have "frame l2 l4" using l'(2) l4(4) by (simp add: frame_def)
    then show ?thesis using l4(1,2) bufs_cong [OF l4(3)] by blast
  qed
  have nodirty: "fb_state b0 \<noteq> BUF_DIRTY" using st b2 by auto
  have id0: "fb_dirtyID b0 = 0" using ids_okD(2) [OF BL_invD(4) [OF inv2] b2(1)] nodirty by simp
  show ?thesis
  proof (cases "fb_onDisk b0")
    case True
    show ?thesis
    proof (cases "\<exists>p. pv = Some p \<and> fb_state p = fb_state b0 \<and> fb_ptr p = None \<and> fb_onDisk p = fb_onDisk b0")
      case True
      then obtain p where p: "pv = Some p" "fb_state p = fb_state b0" "fb_ptr p = None" "fb_onDisk p = fb_onDisk b0" by blast
      from unp [OF pvD(1) [OF p(1)] l3(2,3)] obtain l4 where l4: "unqueue E l3 p = Some l4"
        "acct E hinv cv l4 ((bufs E l2)(e := None, fb_offset b0 := None))" "frame l2 l4" "bufs E l4 = bufs E l2"
        using l3(4) by auto
      have st0: "b0\<lparr>fb_state := fb_state b0\<rparr> = b0" by (cases b0) simp
      from merge_inv [where st = "fb_state b0" and x = "Some b0", OF inv2 b2(1,2) pvD(1) [OF p(1)] p(3) _ l4(2,3), unfolded st0]
      obtain l' where "queue E (store E (l4\<lparr>bl_at := bt_del (env_at E) (bl_at l4) (bend p)\<rparr>)
            (b0\<lparr>fb_length := add64 (fb_length b0) (fb_length p), fb_offset := fb_offset p\<rparr>))
            (b0\<lparr>fb_length := add64 (fb_length b0) (fb_length p), fb_offset := fb_offset p\<rparr>) = Some l'"
        "BL_inv E M hinv cv l'" "frame l2 l'"
        using l4(4) b2(1) nodirty id0 by (auto simp: fun_upd_idem)
      then show ?thesis
        using \<open>fb_onDisk b0\<close> b2(5) p l4(1) by (intro fin [of l' True]) (simp_all add: ev)
    next
      case False
      have "EvictFromMemory E l b = Some (l2, n, False)"
        using \<open>fb_onDisk b0\<close> False by (auto simp: ev split: option.split)
      then show ?thesis using inv2 \<open>fb_onDisk b0\<close> b2(5) by (intro fin [of l2 False]) (simp_all add: frame_def)
    qed
  next
    case nd: False
    show ?thesis
    proof (cases "fb_state b0 = BUF_CLEAN")
      case True
      let ?l = "l3\<lparr>bl_at := bt_del (env_at E) (bl_at l3) (bend b0)\<rparr>"
      have bu: "bufs E ?l = (bufs E l2)(e := None)" using l3(4) s2 by simp
      have "mem_ok l2 ((bufs E l2)(e := None))" by (rule mem_ok_del_none [OF BL_invD(2) [OF inv2] b2(1,2)])
      then have "mem_ok ?l ((bufs E l2)(e := None))"
        by (rule mem_ok_frame) (use l3(3) in \<open>simp_all add: frame_def\<close>)
      then have "BL_inv E M hinv cv ?l"
        unfolding BL_inv_def bu using shape_del [OF BL_invD(1) [OF inv2]] acct_frame(1) [OF l3(2)]
          ids_ok_del [OF BL_invD(4) [OF inv2]] l3(3) by (simp add: frame_def)
      moreover have "evictedBufs (bufs E l) e b (bufs E ?l)" using True b2(4) bu bu2 by (simp add: evictedBufs_def)
      ultimately show ?thesis using True nd l3(3) by (intro fin [of ?l True]) (simp_all add: ev frame_def)
    next
      case False
      then have ff: "fb_state b0 = BUF_FLUSHED_FULL" using st b2 by simp
      define c where "c = b0\<lparr>fb_state := BUF_FL_CLEARED\<rparr>"
      have bc: "bend c = e" using s2 by (simp add: c_def bend_def)
      define l4 where "l4 = store E l3 c"
      have l4: "acct E hinv cv l4 ((bufs E l2)(e := None))" "frame l2 l4" "bufs E l4 = (bufs E l2)(e \<mapsto> c)"
        using acct_frame(1) [OF l3(2)] l3(3,4) bc by (simp_all add: l4_def store_def frame_def)
      show ?thesis
      proof (cases "\<exists>p. pv = Some p \<and> fb_state p = BUF_FL_CLEARED")
        case True
        then obtain p where p: "pv = Some p" "fb_state p = BUF_FL_CLEARED" by blast
        have np: "fb_ptr p = None"
          using mem_okD(1) [OF BL_invD(2) [OF inv2] pvD(1) [OF p(1)]] p(2) by (auto simp: buf_mem_ok_def split: option.splits)
        from unp [OF pvD(1) [OF p(1)] l4(1,2)] obtain l5 where l5: "unqueue E l4 p = Some l5"
          "acct E hinv cv l5 ((bufs E l2)(e := None, fb_offset b0 := None))" "frame l2 l5" "bufs E l5 = bufs E l4" by blast
        from merge_inv [where st = BUF_FL_CLEARED and x = "Some c", OF inv2 b2(1,2) pvD(1) [OF p(1)] np _ l5(2,3)]
        obtain l' where "queue E (store E (l5\<lparr>bl_at := bt_del (env_at E) (bl_at l5) (bend p)\<rparr>)
              (c\<lparr>fb_length := add64 (fb_length c) (fb_length p), fb_offset := fb_offset p\<rparr>))
              (c\<lparr>fb_length := add64 (fb_length c) (fb_length p), fb_offset := fb_offset p\<rparr>) = Some l'"
          "BL_inv E M hinv cv l'" "frame l2 l'"
          and q: "\<exists>q. bufs E l' = (bufs E l2)(e := None, fb_offset b0 := None,
            e \<mapsto> c\<lparr>fb_length := add64 (fb_length c) (fb_length p), fb_offset := fb_offset p, fb_queueId := q\<rparr>)"
          using l5(4) l4(3) id0 by (auto simp: c_def)
        moreover have "evictedBufs (bufs E l) e b (bufs E l')"
        proof -
          have ob: "fb_offset b < e" using inv_shape(4) [OF inv b(1)] .
          have "bufs E l (fb_offset b) = Some p" using pvD(1) [OF p(1)] bu2 b2(3) ob by auto
          moreover have "c = cleared b" by (simp add: c_def b0_def cleared_def)
          ultimately show ?thesis using q p(2) ff b2(3,4) ob unfolding bu2 evictedBufs_def
            by (auto simp: cleared_def fun_upd_twist)
        qed
        ultimately show ?thesis
          using nd ff p l5(1) by (intro fin [of l' True]) (simp_all add: ev flip: c_def l4_def, simp_all add: c_def)
      next
        case False
        have fc: "fb_offset c = fb_offset b0" "fb_offset b0 + fb_length c = e" "fb_ptr c = None" "fb_data c = None"
          "fb_dirtyID c = fb_dirtyID b0" "fb_state c = BUF_FL_CLEARED"
          using inv_shape [OF inv2 b2(1)] ptr_data [OF mem_okD(1) [OF BL_invD(2) [OF inv2] b2(1)]] b2(2)
          by (simp_all add: c_def)
        have zc: "fb_zero c \<longrightarrow> \<not> fb_onDisk c \<and> \<not> fb_loading c"
          using mem_okD(1) [OF BL_invD(2) [OF inv2] b2(1)] fc(4) by (simp add: buf_mem_ok_def c_def)
        from requeue_inv [OF inv2 b2(1,2) l4(1,2) _ fc(1-5) id0 _ zc] l4(3) fc(6)
        obtain l' where "queue E l4 c = Some l'" "BL_inv E M hinv cv l'" "frame l2 l'"
          and q: "\<exists>q. bufs E l' = (bufs E l2)(e \<mapsto> c\<lparr>fb_queueId := q\<rparr>)" by auto
        moreover have "evictedBufs (bufs E l) e b (bufs E l')"
          using q ff b2(4) unfolding bu2 evictedBufs_def by (auto simp: c_def b0_def cleared_def)
        ultimately show ?thesis
          using nd ff False fc(6) by (intro fin [of l' False]) (auto simp: ev split: option.split simp flip: c_def l4_def)
      qed
    qed
  qed
qed

section \<open>Reading back from disk\<close>

lemma mem_ok_new_add:
  assumes mem: "mem_ok l A" and fin: "finite (dom A)" and A: "A e = None"
    and n1: "new_ptr l \<lparr>bp_array = xs, bp_len = length xs, bp_refs = 1\<rparr> = (l1, a)"
    and b: "fb_ptr b = Some a" "fb_data b = Some (0, length xs)" "fb_length b = length xs"
      "\<not> fb_zero b" "\<not> fb_loading b" "fb_state b \<noteq> BUF_FL_CLEARED"
  shows "mem_ok l1 (A(e \<mapsto> b))" "bl_curDirtyID l1 = bl_curDirtyID l" "bl_at l1 = bl_at l"
    "acct E hinv cv l B \<Longrightarrow> acct E hinv cv l1 B" "arrays l1 = (arrays l)(a \<mapsto> xs)"
proof -
  let ?p0 = "\<lparr>bp_array = xs, bp_len = length xs, bp_refs = 0\<rparr>"
  have l1: "l1 = l\<lparr>bl_mem := (bl_mem l)(a \<mapsto> \<lparr>bp_array = xs, bp_len = length xs, bp_refs = 1\<rparr>), bl_nextPtr := Suc a\<rparr>"
    "a = bl_nextPtr l" using n1 by (auto simp: new_ptr_def)
  obtain l0 where n0: "new_ptr l ?p0 = (l0, a)" using l1(2) by (simp add: new_ptr_def)
  note nw = mem_ok_new [OF mem n0, simplified]
  have "buf_mem_ok l0 b" using b nw(3) by (simp add: buf_mem_ok_def)
  from mem_ok_add [OF nw(1) fin A b(1) nw(3) this]
  have "mem_ok (l0\<lparr>bl_mem := (bl_mem l0)(a \<mapsto> \<lparr>bp_array = xs, bp_len = length xs, bp_refs = 1\<rparr>)\<rparr>) (A(e \<mapsto> b))" by simp
  moreover have "l0\<lparr>bl_mem := (bl_mem l0)(a \<mapsto> \<lparr>bp_array = xs, bp_len = length xs, bp_refs = 1\<rparr>)\<rparr> = l1"
    using n0 by (auto simp: new_ptr_def l1)
  ultimately show "mem_ok l1 (A(e \<mapsto> b))" by simp
  show "bl_curDirtyID l1 = bl_curDirtyID l" "bl_at l1 = bl_at l" "arrays l1 = (arrays l)(a \<mapsto> xs)"
    by (auto simp: l1 arrays_def)
  show "acct E hinv cv l B \<Longrightarrow> acct E hinv cv l1 B" by (erule acct_cong) (simp_all add: l1)
qed

lemma ReviveFromDisk_inv:
  assumes inv: "BL_inv E M hinv cv l" and data: "off + length data \<le> M"
    and b: "bufs E l (off + length data) = Some b" "fb_offset b = off" "fb_loading b" "fb_onDisk b"
  shows "\<exists>l' a q. ReviveFromDisk E l off data = Some l' \<and> BL_inv E M hinv cv l' \<and> arrays l' a = Some data \<and>
    bufs E l' = (bufs E l)(off + length data \<mapsto>
      b\<lparr>fb_data := Some (0, length data), fb_ptr := Some a, fb_loading := False,
        fb_state := (if fb_state b = BUF_FL_CLEARED then BUF_FLUSHED_FULL else fb_state b), fb_queueId := q\<rparr>)"
proof -
  define e where "e = off + length data"
  note D = BL_invD [OF inv] and be = b(1) [folded e_def] and sb = inv_shape [OF inv b(1) [folded e_def]]
  have len: "fb_length b = length data" using sb(2) b(2) by (simp add: e_def)
  have "off + 1 < u64_max" using sb(3,4) b(2) M_bound by linarith
  then have off1: "add64 off 1 = Suc off" by (simp add: u64_simps)
  have nd: "fb_ptr b = None" "fb_data b = None" "\<not> fb_zero b"
    using mem_okD(1) [OF D(2) be] b(3) by (auto simp: buf_mem_ok_def split: option.splits)
  have "\<exists>es. bt_asc (env_at E) (bl_at l) (Suc off) = (e, b) # es"
  proof (cases "bt_asc (env_at E) (bl_at l) (Suc off)")
    case Nil
    then show ?thesis using be sb(4) b(2) by (auto simp: at.asc_Nil)
  next
    case (Cons x es)
    obtain k c where x: "x = (k, c)" by fastforce
    note f = at.asc_first [OF Cons [unfolded x]]
    have "k \<le> e" using f(3) [of e b] be sb(4) b(2) by simp
    moreover have "\<not> k < e" using shape_disj [OF D(1) _ be, of k c] f(1,2) b(2) by auto
    ultimately show ?thesis using f(1) be Cons x by auto
  qed
  then obtain es where asc: "bt_asc (env_at E) (bl_at l) (Suc off) = (e, b) # es" by blast
  obtain l1 a where n1: "new_ptr l \<lparr>bp_array = data, bp_len = length data, bp_refs = 1\<rparr> = (l1, a)" by fastforce
  define st where "st = (if fb_state b = BUF_FL_CLEARED then BUF_FLUSHED_FULL else fb_state b)"
  define b1 where "b1 = b\<lparr>fb_data := Some (0, length data), fb_ptr := Some a, fb_loading := False\<rparr>"
  define c where "c = b1\<lparr>fb_state := st\<rparr>"
  have bends: "bend b1 = e" "bend c = e" using sb(5) by (simp_all add: b1_def c_def bend_def)
  have cf: "fb_ptr c = Some a" "fb_data c = Some (0, length data)" "fb_length c = length data" "\<not> fb_zero c"
    "\<not> fb_loading c" "fb_state c \<noteq> BUF_FL_CLEARED" using len nd(3) by (simp_all add: c_def b1_def st_def)
  let ?A = "bufs E l" and ?D = "(bufs E l)(e := None)"
  have "mem_ok l ?D" by (rule mem_ok_del_none [OF D(2) be nd(1)])
  note nw = mem_ok_new_add [OF this _ _ n1 cf]
  have fin: "finite (dom ?D)" using D(5) by simp
  have m1: "mem_ok l1 (?A(e \<mapsto> c))" using nw(1) [of e] fin by simp
  have l1: "bl_curDirtyID l1 = bl_curDirtyID l" "bl_at l1 = bl_at l" "arrays l1 = (arrays l)(a \<mapsto> data)"
    "\<And>B. acct E hinv cv l B \<Longrightarrow> acct E hinv cv l1 B" using nw(2-5) [of e] fin by simp_all
  have bu1: "bufs E l1 = ?A" by (rule bufs_cong [OF l1(2)])
  have sh: "shape M (?A(e \<mapsto> c))" by (rule shape_same [OF D(1) be]) (simp_all add: c_def b1_def)
  have ids: "ids_ok (bl_curDirtyID l) (?A(e \<mapsto> c))"
    using ids_ok_upd [OF D(4), of c e] ids_okD(1,2) [OF D(4) be] be
    by (cases "fb_state b = BUF_FL_CLEARED") (simp_all add: c_def b1_def st_def max_def)
  let ?L = "store E l1 b1"
  have bu2: "bufs E ?L = ?A(e \<mapsto> b1)" using bu1 bends by simp
  have ac2: "acct E hinv cv ?L (?A(e \<mapsto> b1))"
    unfolding store_def by (rule acct_same [OF acct_frame(1) [OF l1(4) [OF D(3)]] be]) (simp_all add: b1_def)
  have run: "ReviveFromDisk E l off data = (if fb_state b = BUF_FL_CLEARED
      then retag E (\<lambda>b. b\<lparr>fb_state := BUF_FLUSHED_FULL\<rparr>) b1 ?L else Some ?L)"
    using asc b(2-4) len off1 n1 by (simp add: ReviveFromDisk_def Let_def b1_def)
  show ?thesis
  proof (cases "fb_state b = BUF_FL_CLEARED")
    case False
    have c: "c = b1" using False by (simp add: c_def st_def b1_def)
    have "mem_ok ?L (?A(e \<mapsto> b1))" by (rule mem_ok_frame [OF m1 [unfolded c]]) (simp_all add: store_def)
    then have "BL_inv E M hinv cv ?L"
      unfolding BL_inv_def bu2 using sh ac2 ids l1(1) by (simp add: c store_def)
    moreover have "arrays ?L a = Some data" using l1(3) by (simp add: arrays_def store_def fun_eq_iff)
    moreover have "b1 = b\<lparr>fb_data := Some (0, length data), fb_ptr := Some a, fb_loading := False,
        fb_state := (if fb_state b = BUF_FL_CLEARED then BUF_FLUSHED_FULL else fb_state b), fb_queueId := fb_queueId b\<rparr>"
      using False by (simp add: b1_def)
    ultimately show ?thesis
      using run False bu2 unfolding e_def [symmetric] by (intro exI [of _ ?L] exI [of _ a] exI [of _ "fb_queueId b"]) simp
  next
    case True
    have "(?A(e \<mapsto> b1)) e = Some b1" by simp
    moreover have "0 < fb_length b1" "fb_offset b1 + fb_length b1 = e" using sb(1,2) by (simp_all add: b1_def)
    ultimately have "\<exists>l3. unqueue E ?L b1 = Some l3 \<and> acct E hinv cv l3 ((?A(e \<mapsto> b1))(e := None)) \<and>
        bl_at l3 = bl_at ?L \<and> frame ?L l3"
      using unqueue_acct [OF ac2 _ _ _ sb(3), of b1] by blast
    then obtain l3 where l3: "unqueue E ?L b1 = Some l3"
      "acct E hinv cv l3 ?D" "bl_at l3 = bl_at ?L" "frame ?L l3" by (simp only: fun_upd_upd) blast
    have fr: "frame l1 (store E l3 c)" using l3(4) by (simp add: frame_def store_def)
    have bu3: "bufs E (store E l3 c) = ?D(e \<mapsto> c)"
      using bufs_cong [OF l3(3)] bu2 bends by simp
    have ac3: "acct E hinv cv (store E l3 c) ?D" unfolding store_def by (rule acct_frame(1) [OF l3(2)])
    have m3: "mem_ok (store E l3 c) (?D(e \<mapsto> c))" using frame_eqs(4) [OF fr m1] by simp
    have i3: "ids_ok (bl_curDirtyID (store E l3 c)) (?D(e \<mapsto> c))" using ids l1(1) fr by (simp add: frame_def)
    have hole: "\<not> covers ?D x d" if "off \<le> x" "x < e" for x d
      using covers_del [OF D(1) be, of x d] that b(2) by auto
    have lo: "fb_offset c = off" "off + fb_length c = e" "off < e" using sb(4) b(2) len by (simp_all add: c_def b1_def e_def)
    from insert_buf [OF shape_del [OF D(1)] hole lo sb(3) bu3 ac3 m3 i3] obtain l' q where q:
      "queue E (store E l3 c) c = Some l'" "BL_inv E M hinv cv l'" "bufs E l' = ?D(e \<mapsto> c\<lparr>fb_queueId := q\<rparr>)"
      "frame (store E l3 c) l'" by blast
    have "c = b1\<lparr>fb_state := BUF_FLUSHED_FULL\<rparr>" using True by (simp add: c_def st_def)
    then have "ReviveFromDisk E l off data = Some l'" using run True l3(1) q(1) by (simp add: retag_def)
    moreover have "arrays l' a = Some data"
      using frame_eqs(1) [OF q(4)] frame_eqs(1) [OF fr] l1(3) by simp
    moreover have "bufs E l' = ?A(e \<mapsto> b\<lparr>fb_data := Some (0, length data), fb_ptr := Some a, fb_loading := False,
        fb_state := st, fb_queueId := q\<rparr>)" using q(3) by (simp add: c_def b1_def)
    ultimately show ?thesis using q(2) unfolding e_def [symmetric] st_def by blast
  qed
qed

end

end
