(* ===== verification/Buffer_List_Disk.thy ===== *)
theory Buffer_List_Disk
  imports Buffer_List_State Buffer_List_Read
begin

text \<open>
  Ranges whose data is on the local disk only: \<open>AddLoadingFromDisk\<close> marks exactly the cells of
  the requested range that have to be read, and returns exactly their positions.
\<close>

text \<open>A cell that has to be read from disk, and the cell while it is being read.\<close>

definition on_disk_only :: "cell \<Rightarrow> bool" where
  "on_disk_only c \<longleftrightarrow> c_byte c = None \<and> c_onDisk c \<and> \<not> c_loading c"

definition mark_loading :: "cell option \<Rightarrow> cell option" where
  "mark_loading = map_option (\<lambda>c. if on_disk_only c then c\<lparr>c_loading := True\<rparr> else c)"

definition to_read :: "cell option \<Rightarrow> bool" where
  "to_read c \<longleftrightarrow> (case c of None \<Rightarrow> False | Some c \<Rightarrow> on_disk_only c)"

lemma mark_loading_id: "\<not> to_read c \<Longrightarrow> mark_loading c = c"
  by (cases c) (simp_all add: to_read_def mark_loading_def)

lemma mark_None: "mark_loading None = None"
  by (simp add: mark_loading_def)

lemma mark_mark: "mark_loading (mark_loading c) = mark_loading c"
  by (cases c) (simp_all add: mark_loading_def on_disk_only_def)

lemma in_ranges_snoc: "in_ranges (rs @ [(a, b)]) x \<longleftrightarrow> in_ranges rs x \<or> a \<le> x \<and> x < b"
  by (auto simp: in_ranges_def)

context buffer_env
begin

lemma set_loading_inv:
  assumes inv: "BL_inv E M hinv cv l" and b: "bufs E l e = Some b" "fb_data b = None" "fb_onDisk b"
  defines "l' \<equiv> store E l (b\<lparr>fb_loading := True\<rparr>)"
  shows "BL_inv E M hinv cv l'" "bufs E l' = (bufs E l)(e \<mapsto> b\<lparr>fb_loading := True\<rparr>)" "arrays l' = arrays l"
    "mem_total l' = mem_total l"
    "cell E l' x = (if fb_offset b \<le> x \<and> x < e then map_option (\<lambda>c. c\<lparr>c_loading := True\<rparr>) (cell E l x) else cell E l x)"
proof -
  let ?b = "b\<lparr>fb_loading := True\<rparr>"
  note D = BL_invD [OF inv] and sb = inv_shape [OF inv b(1)]
  have bb: "bend ?b = e" using sb(5) by (simp add: bend_def)
  show bu: "bufs E l' = (bufs E l)(e \<mapsto> ?b)" using bb by (simp add: l'_def)
  show ar: "arrays l' = arrays l" and mt: "mem_total l' = mem_total l"
    by (simp_all add: l'_def store_def arrays_def mem_total_def fun_eq_iff)
  have ok: "buf_mem_ok l ?b" using mem_okD(1) [OF D(2) b(1)] b(2,3) by (simp add: buf_mem_ok_def)
  have "mem_ok l ((bufs E l)(e \<mapsto> ?b))" by (rule mem_ok_upd [OF D(2) b(1) _ ok]) simp
  then have m: "mem_ok l' ((bufs E l)(e \<mapsto> ?b))" by (rule mem_ok_frame) (simp_all add: l'_def store_def)
  have sh: "shape M ((bufs E l)(e \<mapsto> ?b))" by (rule shape_same [OF D(1) b(1)]) simp_all
  have "acct E hinv cv l' (bufs E l)" unfolding l'_def store_def by (rule acct_frame(1) [OF D(3)])
  from acct_same [OF this b(1)] have ac: "acct E hinv cv l' ((bufs E l)(e \<mapsto> ?b))" by simp
  have ids: "ids_ok (bl_curDirtyID l') ((bufs E l)(e \<mapsto> ?b))"
    using ids_ok_cong [OF D(4), of "(bufs E l)(e \<mapsto> ?b)"] b(1) by (simp add: l'_def store_def)
  show inv': "BL_inv E M hinv cv l'" unfolding BL_inv_def bu using sh m ac ids by simp
  show "cell E l' x = (if fb_offset b \<le> x \<and> x < e then map_option (\<lambda>c. c\<lparr>c_loading := True\<rparr>) (cell E l x) else cell E l x)"
  proof (cases "fb_offset b \<le> x \<and> x < e")
    case True
    then have "cell E l' x = Some (cell_of l' ?b x)"
      using cell_covers [OF BL_invD(1) [OF inv'], of e ?b x] bu by simp
    moreover have "cell E l x = Some (cell_of l b x)" using cell_covers [OF D(1) b(1)] True by simp
    moreover have "cell_of l' ?b x = (cell_of l b x)\<lparr>c_loading := True\<rparr>" using b(2) by (simp add: cell_of_def byte_at_def)
    ultimately show ?thesis using True by simp
  next
    case False
    have "cell E l' x = cell E l x"
      by (rule cell_same [OF D(1) BL_invD(1) [OF inv']])
        (use covers_upd [OF D(1) b(1), of ?b] False bu cell_of_cong [OF ar] in auto)
    with False show ?thesis by auto
  qed
qed

text \<open>Cutting a buffer without data to a range within it.\<close>

lemma cut_left:
  assumes inv: "BL_inv E M hinv cv l" and b: "bufs E l e = Some b" "fb_data b = None" and off: "off < e"
  shows "\<exists>l' c chg. (if fb_offset b < off then map_option (\<lambda>(l, _, right). (l, right, True)) (split E l b off)
      else Some (l, b, False)) = Some (l', c, chg) \<and> BL_inv E M hinv cv l' \<and> bufs E l' e = Some c \<and> fb_data c = None \<and>
    fb_onDisk c = fb_onDisk b \<and> fb_loading c = fb_loading b \<and> fb_offset c = max off (fb_offset b) \<and>
    (\<forall>x. cell E l' x = cell E l x) \<and> arrays l' = arrays l \<and> mem_total l' = mem_total l \<and>
    (\<forall>j > e. bufs E l' j = bufs E l j)"
proof (cases "fb_offset b < off")
  case True
  from split_cells [OF inv b(1) True off] obtain l' lf r where "split E l b off = Some (l', lf, r)" "BL_inv E M hinv cv l'"
    "bufs E l' = (bufs E l)(e \<mapsto> r, off \<mapsto> lf)" "piece b off (e - off) r" "arrays l' = arrays l" "mem_total l' = mem_total l"
    "\<forall>x. cell E l' x = cell E l x" by blast
  then show ?thesis using True b(2) off by (auto simp: piece_def max_def)
qed (use inv b in \<open>auto simp: max_def\<close>)

lemma cut_right:
  assumes inv: "BL_inv E M hinv cv l" and b: "bufs E l e = Some b" "fb_data b = None" and hi: "fb_offset b < hi"
  shows "\<exists>l' c chg. (if hi < bend b then map_option (\<lambda>(l, left, _). (l, left, True)) (split E l b hi)
      else Some (l, b, g)) = Some (l', c, chg) \<and> BL_inv E M hinv cv l' \<and> bufs E l' (min hi e) = Some c \<and> fb_data c = None \<and>
    fb_onDisk c = fb_onDisk b \<and> fb_loading c = fb_loading b \<and> fb_offset c = fb_offset b \<and>
    (\<forall>x. cell E l' x = cell E l x) \<and> arrays l' = arrays l \<and> mem_total l' = mem_total l \<and>
    (\<forall>j > e. bufs E l' j = bufs E l j)"
proof (cases "hi < e")
  case True
  from split_cells [OF inv b(1) hi True] obtain l' lf r where "split E l b hi = Some (l', lf, r)" "BL_inv E M hinv cv l'"
    "bufs E l' = (bufs E l)(e \<mapsto> r, hi \<mapsto> lf)" "piece b (fb_offset b) (hi - fb_offset b) lf" "arrays l' = arrays l"
    "mem_total l' = mem_total l" "\<forall>x. cell E l' x = cell E l x" by blast
  then show ?thesis using True b(2) inv_shape(5) [OF inv b(1)] by (auto simp: piece_def min_def)
next
  case False
  then have "min hi e = e" by simp
  then show ?thesis using False inv b inv_shape(5) [OF inv b(1)] by auto
qed

lemma cut_load:
  assumes inv: "BL_inv E M hinv cv l" and b: "bufs E l e = Some b" "fb_data b = None" "fb_onDisk b" "\<not> fb_loading b"
    and r: "off < e" "fb_offset b < hi" "off < hi"
  shows "\<exists>l' chg. AddLoadingFromDisk_iter E off hi e b (l, rs) =
      Some (True, chg, l', rs @ [(max off (fb_offset b), min hi e)]) \<and> BL_inv E M hinv cv l' \<and>
    arrays l' = arrays l \<and> mem_total l' = mem_total l \<and> (\<forall>j > e. bufs E l' j = bufs E l j) \<and>
    (\<forall>x. cell E l' x = (if off \<le> x \<and> x < hi \<and> fb_offset b \<le> x \<and> x < e then mark_loading (cell E l x) else cell E l x))"
proof -
  from cut_left [OF inv b(1,2) r(1)] obtain l1 c g where 1: "(if fb_offset b < off
      then map_option (\<lambda>(l, _, right). (l, right, True)) (split E l b off) else Some (l, b, False)) = Some (l1, c, g)"
    "BL_inv E M hinv cv l1" "bufs E l1 e = Some c" "fb_data c = None" "fb_onDisk c" "\<not> fb_loading c"
    "fb_offset c = max off (fb_offset b)" "\<forall>x. cell E l1 x = cell E l x" "arrays l1 = arrays l" "mem_total l1 = mem_total l"
    "\<forall>j > e. bufs E l1 j = bufs E l j" using b(3,4) by (elim exE conjE) simp
  have "fb_offset c < hi" using 1(7) r by simp
  from cut_right [OF 1(2-4) this, of g] obtain l2 d g' where 2: "(if hi < bend c
      then map_option (\<lambda>(l, left, _). (l, left, True)) (split E l1 c hi) else Some (l1, c, g)) = Some (l2, d, g')"
    "BL_inv E M hinv cv l2" "bufs E l2 (min hi e) = Some d" "fb_data d = None" "fb_onDisk d" "\<not> fb_loading d"
    "fb_offset d = max off (fb_offset b)" "\<forall>x. cell E l2 x = cell E l1 x" "arrays l2 = arrays l1"
    "mem_total l2 = mem_total l1" "\<forall>j > e. bufs E l2 j = bufs E l1 j" using 1(5-7) by (elim exE conjE) simp
  have bd: "bend d = min hi e" by (rule inv_shape(5) [OF 2(2,3)])
  let ?l = "store E l2 (d\<lparr>fb_loading := True\<rparr>)"
  note L = set_loading_inv [OF 2(2-5)]
  have "AddLoadingFromDisk_iter E off hi e b (l, rs) = Some (True, g', ?l, rs @ [(max off (fb_offset b), min hi e)])"
    using b(2-4) r(2) 1(1) 2(1,7) bd by (simp add: AddLoadingFromDisk_iter_def)
  moreover have "cell E ?l x = (if off \<le> x \<and> x < hi \<and> fb_offset b \<le> x \<and> x < e then mark_loading (cell E l x) else cell E l x)" for x
  proof (cases "off \<le> x \<and> x < hi \<and> fb_offset b \<le> x \<and> x < e")
    case True
    then have "cell E l x = Some (cell_of l b x)" using cell_covers [OF BL_invD(1) [OF inv] b(1)] by simp
    then have "mark_loading (cell E l x) = map_option (\<lambda>c. c\<lparr>c_loading := True\<rparr>) (cell E l x)"
      using b(2-4) by (simp add: mark_loading_def on_disk_only_def cell_of_def byte_at_def)
    then show ?thesis using L(5) [of x] True 1(8) 2(7,8) by simp
  next
    case False
    then show ?thesis using L(5) [of x] 1(8) 2(7,8) by auto
  qed
  moreover have "\<forall>j > e. bufs E ?l j = bufs E l j" using L(2) 1(11) 2(11) by (auto simp: min_def)
  ultimately show ?thesis using L(1,3,4) 1(9,10) 2(9,10) by auto
qed

lemma AddLoadingFromDisk_cells:
  assumes inv: "BL_inv E M hinv cv l" and sz: "0 < sz" "off + sz < u64_max"
  shows "\<exists>l' rs. AddLoadingFromDisk E l off sz = Some (l', rs) \<and> BL_inv E M hinv cv l' \<and> mem_total l' = mem_total l \<and>
    (\<forall>x. in_ranges rs x \<longleftrightarrow> off \<le> x \<and> x < off + sz \<and> to_read (cell E l x)) \<and>
    (\<forall>x. cell E l' x = (if off \<le> x \<and> x < off + sz then mark_loading (cell E l x) else cell E l x))"
proof -
  define hi where "hi = off + sz"
  have ar: "add64 off sz = hi" "add64 off 1 = Suc off" "off < hi" using sz by (simp_all add: hi_def u64_simps)
  define I where "I p = (\<lambda>(s, rs). Suc off \<le> p \<and> BL_inv E M hinv cv s \<and> mem_total s = mem_total l \<and>
    (\<forall>e \<ge> p. bufs E s e = bufs E l e) \<and>
    (\<forall>x. in_ranges rs x \<longleftrightarrow> off \<le> x \<and> x < hi \<and> Suc x < p \<and> to_read (cell E l x)) \<and>
    (\<forall>x. cell E s x = (if off \<le> x \<and> x < hi \<and> Suc x < p then mark_loading (cell E l x) else cell E l x)))" for p
  define Q where "Q = (\<lambda>(s, rs). BL_inv E M hinv cv s \<and> mem_total s = mem_total l \<and>
    (\<forall>x. in_ranges rs x \<longleftrightarrow> off \<le> x \<and> x < hi \<and> to_read (cell E l x)) \<and>
    (\<forall>x. cell E s x = (if off \<le> x \<and> x < hi then mark_loading (cell E l x) else cell E l x)))"
  note sh = BL_invD(1) [OF inv]
  have none: "cell E l x = None"
    if b: "bufs E l k = Some b" and x: "p \<le> Suc x" "x < fb_offset b" and gap: "\<And>j. p \<le> j \<Longrightarrow> j < k \<Longrightarrow> bufs E l j = None"
    for p x k b
  proof (rule ccontr)
    assume "cell E l x \<noteq> None"
    then obtain c e where c: "bufs E l e = Some c" "fb_offset c \<le> x" "x < e" using cell_None [OF sh] by (auto simp: covers_def)
    have "\<not> e < k" using gap [of e] c x by auto
    moreover have "\<not> k < e" using shape_disj [OF sh b c(1)] x(2) c(2) inv_shape(4) [OF inv b] by auto
    ultimately show False using b c x by auto
  qed
  have "\<exists>s'. ascendChange (env_at E) (\<lambda>(l, _). bl_at l) (Suc off) (AddLoadingFromDisk_iter E off hi) (l, []) = Some s' \<and> Q s'"
  proof (rule at.ascendChange_rule [where I = I])
    show "I (Suc off) (l, [])" using inv by (auto simp: I_def in_ranges_def)
  next
    fix p s k b
    assume I: "I p s" and get: "bt_get (env_at E) (case s of (l, _) \<Rightarrow> bl_at l) k = Some b" and pk: "p \<le> k"
      and gap: "\<And>j. p \<le> j \<Longrightarrow> j < k \<Longrightarrow> bt_get (env_at E) (case s of (l, _) \<Rightarrow> bl_at l) j = None"
    obtain l1 rs where s: "s = (l1, rs)" by fastforce
    note I1 = I [unfolded I_def s, simplified]
    have b: "bufs E l1 k = Some b" "bufs E l k = Some b" using get I1 pk s by auto
    have gapl: "bufs E l j = None" if "p \<le> j" "j < k" for j using gap [OF that] I1 that s by auto
    have hole: "cell E l x = None" if "p \<le> Suc x" "x < fb_offset b" for x
      by (rule none [OF b(2) that gapl])
    have cov: "cell E l x = Some (cell_of l b x)" if "fb_offset b \<le> x" "x < k" for x
      by (rule cell_covers [OF sh b(2) that])
    show "\<exists>c chg s'. AddLoadingFromDisk_iter E off hi k b s = Some (c, chg, s') \<and>
       (if c then I (Suc k) s' \<and> (\<forall>j. k < j \<longrightarrow> bt_get (env_at E) (case s' of (l, _) \<Rightarrow> bl_at l) j =
          bt_get (env_at E) (case s of (l, _) \<Rightarrow> bl_at l) j) else Q s')"
    proof (cases "hi \<le> fb_offset b")
      case True
      have h: "\<not> to_read (cell E l x)" if "x < hi" "\<not> Suc x < p" for x
        using hole [of x] True that by (simp add: to_read_def)
      have "Q (l1, rs)" using I1 h mark_loading_id by (simp add: Q_def) (metis (full_types))
      then show ?thesis using True
        by (intro exI [of _ False] exI [of _ False] exI [of _ s]) (simp add: AddLoadingFromDisk_iter_def s)
    next
      case lt: False
      show ?thesis
      proof (cases "fb_data b = None \<and> fb_onDisk b \<and> \<not> fb_loading b")
        case True
        have "off < k" "fb_offset b < hi" using I1 pk lt by simp_all
        from cut_load [OF _ b(1) _ _ _ this ar(3), of rs] True I1
        have "\<exists>l2 chg. AddLoadingFromDisk_iter E off hi k b (l1, rs) =
            Some (True, chg, l2, rs @ [(max off (fb_offset b), min hi k)]) \<and> BL_inv E M hinv cv l2 \<and>
          arrays l2 = arrays l1 \<and> mem_total l2 = mem_total l1 \<and> (\<forall>j > k. bufs E l2 j = bufs E l1 j) \<and>
          (\<forall>x. cell E l2 x = (if off \<le> x \<and> x < hi \<and> fb_offset b \<le> x \<and> x < k then mark_loading (cell E l1 x) else cell E l1 x))"
          by simp
        then obtain l2 chg where 2:
          "AddLoadingFromDisk_iter E off hi k b (l1, rs) = Some (True, chg, l2, rs @ [(max off (fb_offset b), min hi k)])"
          "BL_inv E M hinv cv l2" "mem_total l2 = mem_total l1" "\<forall>j > k. bufs E l2 j = bufs E l1 j"
          "\<forall>x. cell E l2 x = (if off \<le> x \<and> x < hi \<and> fb_offset b \<le> x \<and> x < k then mark_loading (cell E l1 x) else cell E l1 x)"
          by blast
        have dr: "to_read (cell E l x)" if "fb_offset b \<le> x" "x < k" for x
          using cov [OF that] True by (simp add: to_read_def on_disk_only_def cell_of_def byte_at_def)
        have rs: "in_ranges (rs @ [(max off (fb_offset b), min hi k)]) x \<longleftrightarrow>
            off \<le> x \<and> x < hi \<and> x < k \<and> to_read (cell E l x)" for x
          using I1 pk dr [of x] hole [of x] by (cases "Suc x < p") (auto simp: in_ranges_snoc to_read_def)
        have cl: "cell E l2 x = (if off \<le> x \<and> x < hi \<and> x < k then mark_loading (cell E l x) else cell E l x)" for x
          using I1 pk 2(5) mark_mark hole [of x] by (cases "Suc x < p"; cases "x < fb_offset b") (auto simp: mark_None)
        have "I (Suc k) (l2, rs @ [(max off (fb_offset b), min hi k)])"
          using rs cl I1 pk 2(2-4) by (auto simp: I_def)
        then show ?thesis using 2(1,4) by (intro exI [of _ True] exI [of _ chg] exI [of _ "(l2, _)"]) (simp add: s)
      next
        case False
        have nr: "\<not> to_read (cell E l x)" if "p \<le> Suc x" "x < k" for x
        proof (cases "fb_offset b \<le> x")
          case True
          have "fb_data b \<noteq> None \<Longrightarrow> c_byte (cell_of l b x) \<noteq> None"
            using mem_okD(1) [OF BL_invD(2) [OF inv] b(2)]
            by (auto simp: buf_mem_ok_def cell_of_def byte_at_def arrays_def split: option.splits)
          then show ?thesis using cov [OF True that(2)] False by (auto simp: to_read_def on_disk_only_def cell_of_def)
        qed (use hole that in \<open>simp add: to_read_def\<close>)
        have "in_ranges rs x \<longleftrightarrow> off \<le> x \<and> x < hi \<and> x < k \<and> to_read (cell E l x)"
          "cell E l1 x = (if off \<le> x \<and> x < hi \<and> x < k then mark_loading (cell E l x) else cell E l x)" for x
          using I1 pk nr [of x] mark_loading_id [of "cell E l x"] by (cases "Suc x < p"; auto)+
        then have "I (Suc k) (l1, rs)" using I1 pk by (simp add: I_def)
        then show ?thesis using False lt
          by (intro exI [of _ True] exI [of _ False] exI [of _ s]) (auto simp: AddLoadingFromDisk_iter_def s)
      qed
    qed
  next
    fix p s assume I: "I p s" and e: "\<And>k. p \<le> k \<Longrightarrow> bt_get (env_at E) (case s of (l, _) \<Rightarrow> bl_at l) k = None"
    obtain l1 rs where s: "s = (l1, rs)" by fastforce
    have "cell E l x = None" if "p \<le> Suc x" for x
      using I e that s cell_None [OF sh, of x] by (auto simp: I_def covers_def)
    then have "\<not> to_read (cell E l x)" if "\<not> Suc x < p" for x using that by (simp add: to_read_def)
    then show "Q s" using I s mark_loading_id by (simp add: I_def Q_def) (metis (full_types))
  qed
  then show ?thesis using ar by (auto simp: AddLoadingFromDisk_def Q_def hi_def)
qed

end

end
