(* ===== verification/Part_Sizes.thy ===== *)
theory Part_Sizes
  imports Go_Prelude
begin

text \<open>
  The layout of an object as upload parts: tiers of \<open>PartCount\<close> parts of \<open>PartSize\<close>
  bytes (\<open>core/cfg/config.go\<close>), the parser of the \<open>--part-sizes\<close> option
  (\<open>core/cfg/flags.go\<close>), the arithmetic between offsets and part numbers
  (\<open>core/file.go\<close>: \<open>partNum\<close>, \<open>partRange\<close>, \<open>numParts\<close>), and the multipart server-side
  copy that walks the same tiers (\<open>core/backend_s3.go\<close>).
  The reference definition is the list of part lengths written out (\<open>part_lens\<close>); a
  part starts where the parts before it end (\<open>part_start\<close>).
\<close>

section \<open>Configuration\<close>

record PartSizeConfig =
  PartSize :: u64
  PartCount :: u64

definition default_PartSizes :: "PartSizeConfig list" where
  "default_PartSizes =
     [\<lparr>PartSize = 5 * 1024 * 1024, PartCount = 1000\<rparr>,
      \<lparr>PartSize = 25 * 1024 * 1024, PartCount = 1000\<rparr>,
      \<lparr>PartSize = 125 * 1024 * 1024, PartCount = 8000\<rparr>]"

fun parsePartSizes_loop :: "string list \<Rightarrow> u64 \<Rightarrow> PartSizeConfig list option" where
  "parsePartSizes_loop [] totalCount = Some []"
| "parsePartSizes_loop (ps # rest) totalCount =
     (case go_split CHR '':'' ps of
        [] \<Rightarrow> None
      | a0 # a \<Rightarrow> do {
          sz \<leftarrow> parse_uint10 32 a0;
          count0 \<leftarrow> (case a of [] \<Rightarrow> Some 0 | a1 # _ \<Rightarrow> parse_uint10 32 a1);
          if count0 = 0 \<and> rest \<noteq> [] then None
          else
            (let count = (if count0 = 0 then sub64 10000 totalCount else count0);
                 total = add64 totalCount count
             in if total > 10000 then None
                else if sz < 5 then None
                else if sz > 5 * 1024 then None
                else do {
                  r \<leftarrow> parsePartSizes_loop rest total;
                  Some (\<lparr>PartSize = mul64 (mul64 sz 1024) 1024, PartCount = count\<rparr> # r)
                })
        })"

definition parsePartSizes :: "string \<Rightarrow> PartSizeConfig list option" where
  "parsePartSizes s = parsePartSizes_loop (go_split CHR '','' s) 0"

section \<open>Offsets and part numbers\<close>

fun partNum_loop :: "PartSizeConfig list \<Rightarrow> u64 \<Rightarrow> u64 \<Rightarrow> u64 \<Rightarrow> u64 option" where
  "partNum_loop [] offset n start = (if offset = start then Some n else None)"
| "partNum_loop (s # ss) offset n start =
     (if PartSize s = 0 then None
      else let p = sub64 offset start div PartSize s in
        if p < PartCount s then Some (add64 n p)
        else partNum_loop ss offset (add64 n (PartCount s))
               (add64 start (mul64 (PartSize s) (PartCount s))))"

definition partNum :: "PartSizeConfig list \<Rightarrow> u64 \<Rightarrow> u64 option" where
  "partNum ps offset = partNum_loop ps offset 0 0"

fun partRange_loop :: "PartSizeConfig list \<Rightarrow> u64 \<Rightarrow> u64 \<Rightarrow> u64 \<Rightarrow> (u64 \<times> u64) option" where
  "partRange_loop [] num n start = None"
| "partRange_loop (s # ss) num n start =
     (if num < add64 n (PartCount s)
      then Some (add64 start (mul64 (sub64 num n) (PartSize s)), PartSize s)
      else partRange_loop ss num (add64 n (PartCount s))
             (add64 start (mul64 (PartSize s) (PartCount s))))"

definition partRange :: "PartSizeConfig list \<Rightarrow> u64 \<Rightarrow> (u64 \<times> u64) option" where
  "partRange ps num = partRange_loop ps num 0 0"

definition maxParts :: "PartSizeConfig list \<Rightarrow> u64" where
  "maxParts ps = foldl (\<lambda>parts s. add64 parts (PartCount s)) 0 ps"

definition getMaxFileSize :: "PartSizeConfig list \<Rightarrow> u64" where
  "getMaxFileSize ps = foldl (\<lambda>sz s. add64 sz (mul64 (PartSize s) (PartCount s))) 0 ps"

definition numParts :: "PartSizeConfig list \<Rightarrow> u64 \<Rightarrow> u64 option" where
  "numParts ps sz = do {
     part \<leftarrow> partNum ps sz;
     if part = maxParts ps then Some part
     else do {
       (partOffset, _) \<leftarrow> partRange ps part;
       Some (if partOffset < sz then add64 part 1 else part)
     }
   }"

section \<open>Multipart server-side copy\<close>

text \<open>
  Object sizes are non-negative \<open>int64\<close> values; they are modelled as \<^typ>\<open>nat\<close>.
  \<open>mpuCopyParts_ranges\<close> is the sequence of byte ranges \<open>[startOffset, endOffset)\<close> that
  the two nested loops of \<open>mpuCopyParts\<close> request, in part number order from 1.
\<close>

fun partsRequired :: "PartSizeConfig list \<Rightarrow> nat \<Rightarrow> nat option" where
  "partsRequired [] sz = Some 0"
| "partsRequired (c # cs) sz =
     (let totalSize = mul64 (PartCount c) (PartSize c) in
      if sz \<le> totalSize
      then (if PartSize c = 0 then None else Some ((sz + PartSize c - 1) div PartSize c))
      else map_option (\<lambda>r. PartCount c + r) (partsRequired cs (sz - totalSize)))"

fun mpuCopy_tier :: "nat \<Rightarrow> nat \<Rightarrow> nat \<Rightarrow> nat \<Rightarrow> (nat \<times> nat) list \<times> nat" where
  "mpuCopy_tier 0 psize sz start = ([], start)"
| "mpuCopy_tier (Suc n) psize sz start =
     (if start < sz
      then (let (rs, s') = mpuCopy_tier n psize sz (start + psize)
            in ((start, min (start + psize) sz) # rs, s'))
      else ([], start))"

fun mpuCopyParts_ranges :: "PartSizeConfig list \<Rightarrow> nat \<Rightarrow> nat \<Rightarrow> (nat \<times> nat) list" where
  "mpuCopyParts_ranges [] sz start = []"
| "mpuCopyParts_ranges (c # cs) sz start =
     (let (rs, s') = mpuCopy_tier (PartCount c) (PartSize c) sz start
      in rs @ mpuCopyParts_ranges cs sz s')"

definition defaultCopyPartSizes :: "nat \<Rightarrow> PartSizeConfig list" where
  "defaultCopyPartSizes sz =
     [\<lparr>PartSize = max (sz div (10000 - 1)) (50 * 1024 * 1024), PartCount = 10000\<rparr>]"

section \<open>The layout written out\<close>

definition part_lens :: "PartSizeConfig list \<Rightarrow> nat list" where
  "part_lens ps = concat (map (\<lambda>s. replicate (PartCount s) (PartSize s)) ps)"

definition part_start :: "PartSizeConfig list \<Rightarrow> nat \<Rightarrow> nat" where
  "part_start ps i = sum_list (take i (part_lens ps))"

definition parts_ok :: "PartSizeConfig list \<Rightarrow> bool" where
  "parts_ok ps \<longleftrightarrow> (\<forall>s\<in>set ps. 0 < PartSize s) \<and>
     length (part_lens ps) < u64_max \<and> sum_list (part_lens ps) < u64_max"

subsection \<open>The layout of a list of tiers\<close>

lemma part_lens_Nil [simp]: "part_lens [] = []"
  by (simp add: part_lens_def)

lemma part_lens_Cons [simp]:
  "part_lens (s # ss) = replicate (PartCount s) (PartSize s) @ part_lens ss"
  by (simp add: part_lens_def)

lemma part_lens_pos: "\<forall>s\<in>set ps. 0 < PartSize s \<Longrightarrow> l \<in> set (part_lens ps) \<Longrightarrow> 0 < l"
  by (auto simp: part_lens_def)

lemma part_start_Suc:
  "i < length (part_lens ps) \<Longrightarrow> part_start ps (Suc i) = part_start ps i + part_lens ps ! i"
  by (simp add: part_start_def sum_list_take_Suc)

lemma part_start_less:
  assumes "\<forall>s\<in>set ps. 0 < PartSize s" and "i < j" and "i < length (part_lens ps)"
  shows "part_start ps i < part_start ps j"
proof -
  have "0 < part_lens ps ! i" using assms part_lens_pos nth_mem by blast
  then have "part_start ps i < part_start ps (Suc i)" using assms(3) by (simp add: part_start_Suc)
  also have "\<dots> \<le> part_start ps j" using assms(2) by (simp add: part_start_def sum_list_take_mono)
  finally show ?thesis .
qed

lemma part_start_end: "part_start ps (length (part_lens ps)) = sum_list (part_lens ps)"
  by (simp add: part_start_def)

subsection \<open>The loops compute the layout\<close>

lemma maxParts_eq:
  assumes "length (part_lens ps) < u64_max"
  shows "maxParts ps = length (part_lens ps)"
proof -
  have "n + length (part_lens ps) < u64_max \<Longrightarrow>
      foldl (\<lambda>parts s. add64 parts (PartCount s)) n ps = n + length (part_lens ps)" for n
    by (induction ps arbitrary: n) (simp_all add: u64_simps)
  with assms show ?thesis by (simp add: maxParts_def)
qed

lemma getMaxFileSize_eq:
  assumes "sum_list (part_lens ps) < u64_max"
  shows "getMaxFileSize ps = sum_list (part_lens ps)"
proof -
  have "n + sum_list (part_lens ps) < u64_max \<Longrightarrow>
      foldl (\<lambda>sz s. add64 sz (mul64 (PartSize s) (PartCount s))) n ps = n + sum_list (part_lens ps)" for n
    by (induction ps arbitrary: n) (simp_all add: u64_simps sum_list_replicate mult.commute)
  with assms show ?thesis by (simp add: getMaxFileSize_def)
qed

lemma partRange_loop_eq:
  assumes "n + length (part_lens ps) < u64_max" and "start + sum_list (part_lens ps) < u64_max"
    and "n \<le> num" and "num < u64_max"
  shows "partRange_loop ps num n start =
    (if num - n < length (part_lens ps)
     then Some (start + sum_list (take (num - n) (part_lens ps)), part_lens ps ! (num - n))
     else None)"
  using assms
proof (induction ps num n start rule: partRange_loop.induct)
  case (2 s ss num n start)
  have fits: "n + PartCount s < u64_max" "PartSize s * PartCount s < u64_max"
      "start + PartSize s * PartCount s < u64_max"
    using "2.prems" by (auto simp: sum_list_replicate mult.commute)
  show ?case
  proof (cases "num < n + PartCount s")
    case True
    have "(num - n) * PartSize s \<le> PartCount s * PartSize s"
      using True "2.prems" by (intro mult_le_mono1) auto
    then have "start + (num - n) * PartSize s < u64_max"
      using fits(3) by (simp only: mult.commute [of "PartSize s"])
    then show ?thesis
      using True fits "2.prems"
      by (auto simp: u64_simps sum_list_replicate nth_append min_def less_diff_conv2 less_imp_le)
  next
    case False
    have "num - (n + PartCount s) = num - n - PartCount s" by simp
    then show ?thesis
      using False fits 2
      by (auto simp: u64_simps sum_list_replicate nth_append mult.commute)
  qed
qed simp

text \<open>
  What a search for offset \<open>x\<close> in a list of consecutive lengths returns: the index of the
  part that holds \<open>x\<close>, the number of parts at the very end, nothing beyond it.
\<close>

definition part_hit :: "nat list \<Rightarrow> nat \<Rightarrow> nat option \<Rightarrow> bool" where
  "part_hit ls x r \<longleftrightarrow>
     (\<exists>k < length ls. r = Some k \<and> sum_list (take k ls) \<le> x \<and> x < sum_list (take (Suc k) ls))
     \<or> x = sum_list ls \<and> r = Some (length ls)
     \<or> sum_list ls < x \<and> r = None"

lemma part_hit_append:
  assumes hit: "part_hit ls (x - c * l) r" and ge: "c * l \<le> x"
  shows "part_hit (replicate c l @ ls) x (map_option ((+) c) r)"
proof -
  have lens: "sum_list (replicate c l @ ls) = c * l + sum_list ls"
    "\<And>k. sum_list (take (c + k) (replicate c l @ ls)) = c * l + sum_list (take k ls)"
    by (simp_all add: sum_list_replicate)
  consider k where "k < length ls" "r = Some k" "sum_list (take k ls) \<le> x - c * l"
      "x - c * l < sum_list (take (Suc k) ls)"
    | "x - c * l = sum_list ls" "r = Some (length ls)" | "sum_list ls < x - c * l" "r = None"
    using hit by (auto simp: part_hit_def)
  then show ?thesis
  proof cases
    case 1
    then show ?thesis
      using ge lens(2) [of k] lens(2) [of "Suc k"] unfolding part_hit_def
      by (intro disjI1 exI [of _ "c + k"]) auto
  qed (use ge lens(1) in \<open>auto simp: part_hit_def\<close>)
qed

lemma partNum_loop_hit:
  assumes "n + length (part_lens ps) < u64_max" and "start + sum_list (part_lens ps) < u64_max"
    and "start \<le> offset" and "offset < u64_max" and "\<forall>s\<in>set ps. 0 < PartSize s"
  shows "\<exists>r. partNum_loop ps offset n start = map_option ((+) n) r \<and>
    part_hit (part_lens ps) (offset - start) r"
  using assms
proof (induction ps offset n start rule: partNum_loop.induct)
  case (1 offset n start)
  then show ?case
    by (intro exI [of _ "if offset = start then Some 0 else None"]) (auto simp: part_hit_def)
next
  case (2 s ss offset n start)
  let ?x = "offset - start"
  have fits: "n + PartCount s < u64_max" "PartSize s * PartCount s < u64_max"
      "start + PartSize s * PartCount s < u64_max" and pos: "0 < PartSize s"
    using "2.prems" by (auto simp: sum_list_replicate mult.commute)
  have p: "sub64 offset start div PartSize s = ?x div PartSize s"
    using "2.prems" by (simp add: u64_simps)
  show ?case
  proof (cases "?x div PartSize s < PartCount s")
    case True
    let ?k = "?x div PartSize s"
    have "partNum_loop (s # ss) offset n start = Some (n + ?k)"
      using True pos fits p by (simp add: u64_simps Let_def)
    moreover have "?k * PartSize s \<le> ?x" "?x < Suc ?k * PartSize s"
      using pos by (simp_all add: div_times_less_eq_dividend dividend_less_div_times)
    ultimately show ?thesis
      using True by (intro exI [of _ "Some ?k"]) (auto simp: sum_list_replicate part_hit_def)
  next
    case False
    then have ge: "PartCount s * PartSize s \<le> ?x"
      using pos by (simp add: not_less less_eq_div_iff_mult_less_eq)
    have rec: "partNum_loop (s # ss) offset n start =
        partNum_loop ss offset (n + PartCount s) (start + PartSize s * PartCount s)"
      using False pos fits p by (simp add: u64_simps Let_def)
    have "\<exists>r. partNum_loop ss offset (n + PartCount s) (start + PartSize s * PartCount s) =
        map_option ((+) (n + PartCount s)) r \<and>
        part_hit (part_lens ss) (?x - PartCount s * PartSize s) r"
      using "2.IH" [OF _ refl] False pos fits ge p "2.prems"
      by (simp add: u64_simps mult.commute sum_list_replicate)
    then obtain r where
      r: "partNum_loop (s # ss) offset n start = map_option ((+) (n + PartCount s)) r"
      and hit: "part_hit (part_lens ss) (?x - PartCount s * PartSize s) r"
      unfolding rec by blast
    have "map_option ((+) (n + PartCount s)) r = map_option ((+) n) (map_option ((+) (PartCount s)) r)"
      by (cases r) simp_all
    with r part_hit_append [OF hit ge] show ?thesis
      by (intro exI [of _ "map_option ((+) (PartCount s)) r"]) simp
  qed
qed

lemma part_hit_Some:
  assumes pos: "\<forall>s\<in>set ps. 0 < PartSize s" and hit: "part_hit (part_lens ps) x r"
  shows "r = Some i \<longleftrightarrow>
    (i < length (part_lens ps) \<and> part_start ps i \<le> x \<and> x < part_start ps (Suc i))
    \<or> x = part_start ps (length (part_lens ps)) \<and> i = length (part_lens ps)"
proof -
  let ?n = "length (part_lens ps)"
  have unique: "i = k" if "i < ?n" "k < ?n" "part_start ps i \<le> x" "x < part_start ps (Suc i)"
    "part_start ps k \<le> x" "x < part_start ps (Suc k)" for i k
  proof (rule ccontr)
    assume "i \<noteq> k"
    then consider "Suc i \<le> k" | "Suc k \<le> i" by linarith
    then show False
      using that sum_list_take_mono [of "Suc i" k "part_lens ps"]
        sum_list_take_mono [of "Suc k" i "part_lens ps"]
      by cases (simp_all add: part_start_def)
  qed
  have below: "part_start ps (Suc k) \<le> part_start ps ?n" if "k < ?n" for k
    using that by (simp add: part_start_def sum_list_take_le)
  show ?thesis
    using hit unique below unfolding part_hit_def part_start_end
    by (auto simp flip: part_start_def part_start_end dest: leD) (meson leD less_trans)
qed

lemma part_start_0 [simp]: "part_start ps 0 = 0"
  by (simp add: part_start_def)

lemma partNum_hit:
  assumes "parts_ok ps" and "offset < u64_max"
  shows "part_hit (part_lens ps) offset (partNum ps offset)"
  using partNum_loop_hit [of 0 ps 0 offset] assms
  by (auto simp: parts_ok_def partNum_def option.map_ident_strong)

lemma partRange_cases:
  assumes "parts_ok ps" and "num < u64_max"
  shows "partRange ps num =
    (if num < length (part_lens ps) then Some (part_start ps num, part_lens ps ! num) else None)"
  using assms partRange_loop_eq [of 0 ps 0 num]
  by (simp add: parts_ok_def partRange_def part_start_def)

lemma partNum_cases:
  assumes "parts_ok ps" and "offset < u64_max"
  shows "partNum ps offset = Some i \<longleftrightarrow>
    (i < length (part_lens ps) \<and> part_start ps i \<le> offset \<and> offset < part_start ps (Suc i))
    \<or> offset = getMaxFileSize ps \<and> i = length (part_lens ps)"
  using part_hit_Some [OF _ partNum_hit [OF assms]] assms
  by (simp add: parts_ok_def getMaxFileSize_eq part_start_end)

lemma partNum_step:
  assumes ok: "parts_ok ps" and x: "Suc x < u64_max" and i: "partNum ps x = Some i" and j: "partNum ps (Suc x) = Some j"
  shows "j \<le> Suc i"
proof (rule ccontr)
  let ?n = "length (part_lens ps)"
  assume "\<not> j \<le> Suc i"
  then have ij: "Suc i < j" by simp
  have pos: "\<forall>s\<in>set ps. 0 < PartSize s" and total: "getMaxFileSize ps = part_start ps ?n"
    using ok by (auto simp: parts_ok_def getMaxFileSize_eq part_start_end)
  have j': "part_start ps j \<le> Suc x" "j \<le> ?n" using partNum_cases [OF ok x, of j] j total by auto
  then have i': "x < part_start ps (Suc i)" using partNum_cases [OF ok, of x i] i x ij by auto
  have "part_start ps (Suc i) < part_start ps j" by (rule part_start_less [OF pos ij]) (use ij j' in simp)
  with i' j'(1) show False by simp
qed

section \<open>Properties\<close>

text \<open>
  (C21) \<open>partRange\<close> returns exactly the start and the length of the part in the layout
  written out part by part, and panics exactly for part numbers past the last part.
\<close>

theorem partRange_layout:
  assumes "parts_ok ps" and "num < u64_max"
  shows "partRange ps num =
    (if num < length (part_lens ps) then Some (part_start ps num, part_lens ps ! num) else None)"
  by (rule partRange_cases [OF assms])

lemma default_parts_ok: "parts_ok default_PartSizes"
  by (simp add: parts_ok_def default_PartSizes_def u64_max_def sum_list_replicate)

theorem partRange_layout_witness:
  "partRange default_PartSizes 999 = Some (4995 * 1024 * 1024, 5 * 1024 * 1024)
   \<and> partRange default_PartSizes 10000 = None"
proof -
  have "(999::nat) < u64_max" "(10000::nat) < u64_max" by (simp_all add: u64_max_def)
  then show ?thesis
    using partRange_layout [OF default_parts_ok, of 999] partRange_layout [OF default_parts_ok, of 10000]
    by (simp add: default_PartSizes_def part_start_def nth_append sum_list_replicate min_def)
qed

text \<open>
  (C22) \<open>partNum\<close> returns \<open>i\<close> exactly when the offset lies inside part \<open>i\<close>, or when the
  offset is the maximal file size and \<open>i\<close> is the number of parts; otherwise it panics.
\<close>

theorem partNum_iff:
  assumes "parts_ok ps" and "offset < u64_max"
  shows "partNum ps offset = Some i \<longleftrightarrow>
    (i < length (part_lens ps) \<and> part_start ps i \<le> offset \<and> offset < part_start ps (Suc i))
    \<or> offset = getMaxFileSize ps \<and> i = length (part_lens ps)"
  by (rule partNum_cases [OF assms])

theorem partNum_iff_witness:
  "partNum default_PartSizes 5242880000 = Some 1000"
proof -
  have "(5242880000::nat) < u64_max" by (simp add: u64_max_def)
  then show ?thesis
    using partNum_iff [OF default_parts_ok, of 5242880000 1000]
    by (simp add: default_PartSizes_def part_start_def sum_list_replicate min_def)
qed

lemma partNum_total:
  assumes "parts_ok ps" and "offset \<le> getMaxFileSize ps"
  shows "\<exists>i \<le> length (part_lens ps). partNum ps offset = Some i"
  using partNum_hit [of ps offset] assms
  by (auto simp: part_hit_def parts_ok_def getMaxFileSize_eq)

lemma partNum_mono:
  assumes ok: "parts_ok ps" and "x \<le> y" and "y < u64_max"
    and i: "partNum ps x = Some i" and j: "partNum ps y = Some j"
  shows "i \<le> j"
proof (rule ccontr)
  assume "\<not> i \<le> j"
  then have "Suc j \<le> i" by simp
  have total: "getMaxFileSize ps = part_start ps (length (part_lens ps))"
    using ok by (simp add: parts_ok_def getMaxFileSize_eq part_start_end)
  have jy: "j < length (part_lens ps) \<and> y < part_start ps (Suc j)"
    using partNum_cases [OF ok, of y j] partNum_cases [OF ok, of x i] assms \<open>Suc j \<le> i\<close> by auto
  have "part_start ps i \<le> x"
    using partNum_cases [OF ok, of x i] assms total by auto
  moreover have "part_start ps (Suc j) \<le> part_start ps i"
    using \<open>Suc j \<le> i\<close> by (simp add: part_start_def sum_list_take_mono)
  ultimately show False using jy \<open>x \<le> y\<close> by simp
qed

lemma numParts_spec:
  assumes "parts_ok ps" and "sz \<le> getMaxFileSize ps"
  shows "\<exists>k. numParts ps sz = Some k \<and> sz \<le> part_start ps k \<and> (\<forall>j<k. part_start ps j < sz)"
proof -
  let ?n = "length (part_lens ps)"
  have sz: "sz < u64_max" and mp: "maxParts ps = ?n" and pos: "\<forall>s\<in>set ps. 0 < PartSize s"
    and n: "?n < u64_max" and total: "getMaxFileSize ps = part_start ps ?n"
    using assms by (auto simp: parts_ok_def getMaxFileSize_eq maxParts_eq part_start_end)
  obtain i where i: "i \<le> ?n" "partNum ps sz = Some i" using partNum_total [OF assms] by blast
  show ?thesis
  proof (cases "i = ?n")
    case True
    then have "sz = part_start ps ?n"
      using partNum_cases [OF assms(1) sz, of i] i total by auto
    then show ?thesis
      using True i mp part_start_less [OF pos] by (intro exI [of _ ?n]) (auto simp: numParts_def)
  next
    case False
    then have lt: "i < ?n" "part_start ps i \<le> sz" "sz < part_start ps (Suc i)"
      using partNum_cases [OF assms(1) sz, of i] i by auto
    have "numParts ps sz = Some (if part_start ps i < sz then i + 1 else i)"
      using lt i mp n partRange_cases [OF assms(1), of i]
      by (simp add: numParts_def u64_simps)
    then show ?thesis
      using lt part_start_less [OF pos, of _ i]
      by (intro exI [of _ "if part_start ps i < sz then i + 1 else i"])
         (auto simp: less_Suc_eq intro: less_trans)
  qed
qed

text \<open>
  (C23) \<open>numParts\<close> of a size the layout can hold returns the least number of parts whose
  total length reaches the size.
\<close>

theorem numParts_least:
  assumes "parts_ok ps" and "sz \<le> getMaxFileSize ps"
  shows "\<exists>k. numParts ps sz = Some k \<and> sz \<le> part_start ps k \<and> (\<forall>j<k. part_start ps j < sz)"
  by (rule numParts_spec [OF assms])

theorem numParts_least_witness:
  "\<exists>k. numParts default_PartSizes 5242881 = Some k \<and> 5242881 \<le> part_start default_PartSizes k
     \<and> (\<forall>j<k. part_start default_PartSizes j < 5242881)"
proof (rule numParts_least [OF default_parts_ok])
  show "5242881 \<le> getMaxFileSize default_PartSizes"
    by (simp add: getMaxFileSize_def default_PartSizes_def add64_def mul64_def u64_max_def)
qed

lemma parsePartSizes_loop_bounds:
  assumes "parsePartSizes_loop strs t = Some ps" and "t \<le> 10000"
  shows "(\<forall>c\<in>set ps. 5 * 1024 * 1024 \<le> PartSize c \<and> PartSize c \<le> 5 * 1024 * 1024 * 1024) \<and>
    t + length (part_lens ps) \<le> 10000"
  using assms
proof (induction strs t arbitrary: ps rule: parsePartSizes_loop.induct)
  case (2 str rest t)
  obtain a0 a where a: "go_split CHR '':'' str = a0 # a"
    by (cases "go_split CHR '':'' str") auto
  obtain sz count0 r where
    sz: "5 \<le> sz" "sz \<le> 5 * 1024" and cnt: "parse_uint10 32 a0 = Some sz"
      "(case a of [] \<Rightarrow> Some 0 | a1 # _ \<Rightarrow> parse_uint10 32 a1) = Some count0"
    and le: "add64 t (if count0 = 0 then sub64 10000 t else count0) \<le> 10000"
    and rest: "\<not> (count0 = 0 \<and> rest \<noteq> [])"
      "parsePartSizes_loop rest (add64 t (if count0 = 0 then sub64 10000 t else count0)) = Some r"
    and ps: "ps = \<lparr>PartSize = mul64 (mul64 sz 1024) 1024,
                  PartCount = (if count0 = 0 then sub64 10000 t else count0)\<rparr> # r"
    using "2.prems"(1) a
    by (auto simp: Let_def not_less split: bind_splits if_splits)
  let ?count = "if count0 = 0 then sub64 10000 t else count0"
  have "count0 < 2 ^ 32" using cnt(2) by (auto split: list.splits dest: parse_uint10_bound)
  then have "t + ?count < u64_max"
    using "2.prems"(2) by (auto simp: u64_max_def sub64_small)
  then have add: "add64 t ?count = t + ?count" by (rule add64_small)
  have "mul64 (mul64 sz 1024) 1024 = sz * 1024 * 1024"
    using sz by (simp add: mul64_def u64_max_def)
  moreover have "(\<forall>c\<in>set r. 5 * 1024 * 1024 \<le> PartSize c \<and> PartSize c \<le> 5 * 1024 * 1024 * 1024) \<and>
      add64 t ?count + length (part_lens r) \<le> 10000"
    using "2.IH" [OF a cnt rest(1) refl refl] le rest(2) sz by simp
  ultimately show ?case using ps add sz by auto
qed simp

lemma sum_part_lens_le:
  "\<forall>c\<in>set ps. PartSize c \<le> m \<Longrightarrow> sum_list (part_lens ps) \<le> length (part_lens ps) * m"
  by (induction ps) (auto simp: sum_list_replicate add_mult_distrib intro!: add_mono mult_le_mono2)

text \<open>
  (C24) Every configuration that the \<open>--part-sizes\<close> parser accepts is one the offset
  arithmetic is correct for: part sizes are between 5 MiB and 5 GiB, there are at most
  10000 parts, and no size or count computed from it can overflow 64 bits.
\<close>

theorem parsePartSizes_ok:
  assumes "parsePartSizes str = Some ps"
  shows "parts_ok ps \<and> maxParts ps \<le> 10000 \<and>
    (\<forall>c\<in>set ps. 5 * 1024 * 1024 \<le> PartSize c \<and> PartSize c \<le> 5 * 1024 * 1024 * 1024)"
proof -
  have b: "\<forall>c\<in>set ps. 5 * 1024 * 1024 \<le> PartSize c \<and> PartSize c \<le> 5 * 1024 * 1024 * 1024"
    and n: "length (part_lens ps) \<le> 10000"
    using parsePartSizes_loop_bounds [of _ 0 ps] assms by (auto simp: parsePartSizes_def)
  have "sum_list (part_lens ps) \<le> length (part_lens ps) * (5 * 1024 * 1024 * 1024)"
    using b by (intro sum_part_lens_le) auto
  also have "\<dots> \<le> 10000 * (5 * 1024 * 1024 * 1024)"
    using n by (rule mult_le_mono1)
  also have "\<dots> < u64_max" by (simp add: u64_max_def)
  finally have "sum_list (part_lens ps) < u64_max" .
  moreover have "length (part_lens ps) < u64_max" using n by (simp add: u64_max_def)
  moreover have "\<forall>c\<in>set ps. 0 < PartSize c" using b by fastforce
  ultimately show ?thesis using b n by (simp add: parts_ok_def maxParts_eq)
qed

theorem parsePartSizes_ok_witness:
  "parsePartSizes ''5:1000,25:1000,125'' = Some default_PartSizes \<and> parts_ok default_PartSizes"
proof -
  have "parsePartSizes ''5:1000,25:1000,125'' = Some default_PartSizes"
    by (simp add: parsePartSizes_def default_PartSizes_def parse_uint10_def Let_def
        mul64_def add64_def sub64_def u64_max_def less_eq_char_def)
  with parsePartSizes_ok [OF this] show ?thesis by simp
qed

text \<open>Consecutive non-empty ranges from \<open>a\<close> to \<open>b\<close>.\<close>

fun tiles :: "nat \<Rightarrow> (nat \<times> nat) list \<Rightarrow> nat \<Rightarrow> bool" where
  "tiles a [] b \<longleftrightarrow> a = b"
| "tiles a ((s, e) # rs) b \<longleftrightarrow> s = a \<and> s < e \<and> tiles e rs b"

lemma tiles_append: "tiles a rs m \<Longrightarrow> tiles m rs' b \<Longrightarrow> tiles a (rs @ rs') b"
  by (induction a rs m rule: tiles.induct) auto

lemma ceil_div_Suc:
  fixes p x :: nat
  assumes "0 < p" and "0 < x"
  shows "(x + p - 1) div p = Suc ((x - p + p - 1) div p)"
proof (cases "x \<le> p")
  case True
  then have "(x + p - 1) div p = 1"
    using assms by (intro div_nat_eqI) auto
  with True assms show ?thesis by simp
next
  case False
  then have "x + p - 1 = (x - p + p - 1) + p" using assms by linarith
  then have "(x + p - 1) div p = ((x - p + p - 1) + p) div p" by (rule arg_cong)
  also have "\<dots> = Suc ((x - p + p - 1) div p)" using assms(1) by (simp only: div_add_self2)
  finally show ?thesis .
qed

lemma mpuCopy_tier_tiles:
  assumes "mpuCopy_tier n p sz start = (rs, s')" and "0 < p" and "start \<le> sz"
  shows "tiles start rs (min (start + n * p) sz) \<and> length rs = min n ((sz - start + p - 1) div p) \<and>
    (if start + n * p \<le> sz then s' = start + n * p else sz \<le> s')"
  using assms
proof (induction n p sz start arbitrary: rs s' rule: mpuCopy_tier.induct)
  case (2 n p sz start)
  show ?case
  proof (cases "start < sz")
    case False
    with 2 show ?thesis by auto
  next
    case True
    obtain rs1 where rs: "mpuCopy_tier n p sz (start + p) = (rs1, s')"
        "rs = (start, min (start + p) sz) # rs1"
      using "2.prems"(1) True by (auto simp: Let_def split: prod.splits)
    show ?thesis
    proof (cases "start + p \<le> sz")
      case le: True
      have ceil: "(sz - start + p - 1) div p = Suc ((sz - (start + p) + p - 1) div p)"
        using ceil_div_Suc [of p "sz - start"] True "2.prems" by simp
      show ?thesis
        using "2.IH" [OF True rs(1) "2.prems"(2) le] rs(2) "2.prems"(2) le ceil
        by (auto simp: add.assoc)
    next
      case False
      then have "rs1 = []" "s' = start + p"
        using rs(1) by (cases n; simp)+
      moreover have "(sz - start + p - 1) div p = 1"
        using False True "2.prems" by (intro div_nat_eqI) auto
      ultimately show ?thesis using rs(2) False True by auto
    qed
  qed
qed auto

lemma mpuCopyParts_done: "sz \<le> start \<Longrightarrow> mpuCopyParts_ranges cs sz start = []"
proof (induction cs)
  case (Cons c cs)
  then have "mpuCopy_tier (PartCount c) (PartSize c) sz start = ([], start)"
    by (cases "PartCount c") auto
  with Cons show ?case by simp
qed simp

lemma mpuCopyParts_tiles:
  assumes "\<forall>c\<in>set cs. 0 < PartSize c" and "sum_list (part_lens cs) < u64_max"
    and "start \<le> sz" and "sz - start \<le> sum_list (part_lens cs)"
  shows "tiles start (mpuCopyParts_ranges cs sz start) sz \<and>
    partsRequired cs (sz - start) = Some (length (mpuCopyParts_ranges cs sz start))"
  using assms
proof (induction cs arbitrary: start)
  case Nil
  then have "start = sz" by simp
  then show ?case by simp
next
  case (Cons c cs)
  let ?t = "PartCount c * PartSize c"
  obtain rs s' where tier: "mpuCopy_tier (PartCount c) (PartSize c) sz start = (rs, s')"
    by (cases "mpuCopy_tier (PartCount c) (PartSize c) sz start")
  have p: "0 < PartSize c" and mul: "mul64 (PartCount c) (PartSize c) = ?t"
    using Cons.prems by (auto simp: u64_simps sum_list_replicate)
  note t = mpuCopy_tier_tiles [OF tier p Cons.prems(3)]
  show ?case
  proof (cases "sz - start \<le> ?t")
    case True
    then have "sz \<le> s'" "min (start + ?t) sz = sz" using t Cons.prems(3) by (auto split: if_splits)
    moreover have "(sz - start + PartSize c - 1) div PartSize c \<le> PartCount c"
    proof -
      have "sz - start + PartSize c - 1 < Suc (PartCount c) * PartSize c" using True p by simp
      then show ?thesis using p by (simp add: less_mult_imp_div_less flip: less_Suc_eq_le)
    qed
    ultimately show ?thesis using t True tier mul p by (simp add: mpuCopyParts_done Let_def)
  next
    case False
    then have s': "s' = start + ?t" "min (start + ?t) sz = start + ?t" "start + ?t \<le> sz"
      using t by auto
    have "PartCount c \<le> (sz - start + PartSize c - 1) div PartSize c"
      using False p by (simp add: less_eq_div_iff_mult_less_eq)
    then have len: "length rs = PartCount c" using t by simp
    have IH: "tiles s' (mpuCopyParts_ranges cs sz s') sz \<and>
        partsRequired cs (sz - s') = Some (length (mpuCopyParts_ranges cs sz s'))"
      using Cons.prems s' by (intro Cons.IH) (auto simp: sum_list_replicate)
    show ?thesis
      using t s' IH tier mul False len tiles_append [of start rs s' "mpuCopyParts_ranges cs sz s'" sz]
      by (simp add: Let_def)
  qed
qed



text \<open>
  (C26) With the default part size of a server-side copy, the 10000 parts are enough for
  an object of any size up to the S3 maximum of 5 TiB: the copy covers it completely.
\<close>

theorem defaultCopyPartSizes_covers:
  assumes "sz \<le> 5497558138880"
  shows "tiles 0 (mpuCopyParts_ranges (defaultCopyPartSizes sz) sz 0) sz"
proof -
  define q where "q = sz div 9999"
  define p where "p = max q (50 * 1024 * 1024)"
  have p: "q \<le> p" "52428800 \<le> p" by (simp_all add: p_def)
  have "sz < 9999 + 9999 * q"
    unfolding q_def by (rule dividend_less_times_div) simp
  moreover have "9999 * q \<le> 9999 * p" using p(1) by (rule mult_le_mono2)
  ultimately have enough: "sz \<le> 10000 * p" using p(2) by linarith
  have "q \<le> sz" unfolding q_def by (rule div_le_dividend)
  with assms have "q \<le> 5497558138880" by (rule order_trans [rotated])
  then have "p \<le> 5497558138880" by (simp add: p_def)
  then have "10000 * p < u64_max" by (simp add: u64_max_def)
  moreover have "defaultCopyPartSizes sz = [\<lparr>PartSize = p, PartCount = 10000\<rparr>]"
    by (simp add: defaultCopyPartSizes_def p_def q_def)
  ultimately show ?thesis
    using mpuCopyParts_tiles [of "defaultCopyPartSizes sz" 0 sz] enough p
    by (simp add: sum_list_replicate)
qed

theorem defaultCopyPartSizes_covers_witness:
  "tiles 0 (mpuCopyParts_ranges (defaultCopyPartSizes 600000000) 600000000 0) 600000000"
  by (rule defaultCopyPartSizes_covers) simp

end
