(* ===== verification/Buffer_Queues.thy ===== *)
theory Buffer_Queues
  imports Buffer_List_Disk Part_Sizes
begin

text \<open>
  The queues with increasing identifiers: clean buffers waiting for eviction and dirty
  inodes (\<open>core/buffer_queue.go\<close>), and open disk cache files (\<open>core/fd_queue.go\<close>).  The
  interface they share is the locale \<open>id_queue\<close>; its client lemma is that a walk with the
  \<open>Next\<close> operation visits every entry once, oldest first.  The clean queue together with
  the part layout is the environment (\<open>inode_env\<close>) in which the buffer list of an inode works.
\<close>

section \<open>The interface\<close>

locale id_queue =
  fixes view :: "'h \<Rightarrow> nat \<Rightarrow> 'v option" and cur :: "'h \<Rightarrow> nat"
    and add :: "'h \<Rightarrow> 'a \<Rightarrow> 'h" and val :: "'a \<Rightarrow> 'v"
    and del :: "'h \<Rightarrow> 'd \<Rightarrow> 'h" and key :: "'d \<Rightarrow> nat" and nxt :: "'h \<Rightarrow> nat \<Rightarrow> (nat \<times> 'v) option"
  assumes view_add: "view (add h a) = (view h)(Suc (cur h) \<mapsto> val a)" and cur_add: "cur (add h a) = Suc (cur h)"
    and view_del: "view (del h d) = (view h)(key d := None)" and cur_del: "cur (del h d) = cur h"
    and nxt_None: "nxt h p = None \<longleftrightarrow> (\<forall>q \<ge> p. view h q = None)"
    and nxt_Some: "nxt h p = Some (q, v) \<Longrightarrow> p \<le> q \<and> view h q = Some v \<and> (\<forall>r. p \<le> r \<longrightarrow> r < q \<longrightarrow> view h r = None)"
begin

text \<open>No identifier is reused: the queued ones are at most the last one given out.\<close>

definition ids_below :: "'h \<Rightarrow> bool" where
  "ids_below h \<longleftrightarrow> (\<forall>q v. view h q = Some v \<longrightarrow> 0 < q \<and> q \<le> cur h)"

lemma ids_below_add: "ids_below h \<Longrightarrow> ids_below (add h v)"
  by (auto simp: ids_below_def view_add cur_add split: if_splits)

lemma ids_below_del: "ids_below h \<Longrightarrow> ids_below (del h q)"
  by (auto simp: ids_below_def view_del cur_del split: if_splits)

lemma fresh_id: "ids_below h \<Longrightarrow> view h (Suc (cur h)) = None"
  by (cases "view h (Suc (cur h))") (auto simp: ids_below_def)

text \<open>The entries a walk from \<open>p\<close> sees, with \<open>n\<close> bounding the number of calls of \<open>Next\<close>.\<close>

fun walk :: "nat \<Rightarrow> 'h \<Rightarrow> nat \<Rightarrow> (nat \<times> 'v) list" where
  "walk 0 h p = []"
| "walk (Suc n) h p = (case nxt h p of None \<Rightarrow> [] | Some (q, v) \<Rightarrow> (q, v) # walk n h (Suc q))"

lemma walk_sorted:
  "sorted_wrt (<) (map fst (walk n h p)) \<and> (\<forall>x \<in> set (walk n h p). p \<le> fst x)"
proof (induction n arbitrary: p)
  case (Suc n)
  show ?case
  proof (cases "nxt h p")
    case (Some e)
    obtain q v where e: "e = (q, v)" by fastforce
    have "p \<le> q" using nxt_Some [of h p q v] Some e by simp
    with Suc.IH [of "Suc q"] Some e show ?thesis by fastforce
  qed simp
qed simp

lemma walk_complete:
  assumes "ids_below h" "cur h < p + n"
  shows "set (walk n h p) = {(q, v). view h q = Some v \<and> p \<le> q}"
  using assms(2)
proof (induction n arbitrary: p)
  case 0
  then show ?case using assms(1) by (auto simp: ids_below_def)
next
  case (Suc n)
  show ?case
  proof (cases "nxt h p")
    case None
    then show ?thesis using nxt_None [of h p] by auto
  next
    case (Some e)
    obtain q v where e: "e = (q, v)" by fastforce
    note s = nxt_Some [of h p q v, unfolded Some e, simplified]
    have "set (walk n h (Suc q)) = {(q', v). view h q' = Some v \<and> Suc q \<le> q'}"
      by (rule Suc.IH) (use Suc.prems s in simp)
    moreover have "{(q', v). view h q' = Some v \<and> p \<le> q'} = insert (q, v) {(q', v). view h q' = Some v \<and> Suc q \<le> q'}"
      using s by (auto simp: Suc_le_eq) (metis linorder_neqE_nat not_None_eq option.inject)+
    ultimately show ?thesis using Some e by simp
  qed
qed

end

section \<open>The queue of clean buffers\<close>

record 'q BufferQueue =
  bq_cleanQueue :: 'q
  bq_curQueueID :: nat

definition BufferQueue_Add :: "('q, 'i \<times> u64) btree \<Rightarrow> 'i \<Rightarrow> 'q BufferQueue \<Rightarrow> FileBuffer \<Rightarrow>
    'q BufferQueue \<times> FileBuffer" where
  "BufferQueue_Add C inode l b =
     (let l = l\<lparr>bq_curQueueID := Suc (bq_curQueueID l)\<rparr>;
          b = b\<lparr>fb_queueId := bq_curQueueID l\<rparr>
      in (l\<lparr>bq_cleanQueue := bt_set C (bq_cleanQueue l) (fb_queueId b) (inode, bend b)\<rparr>, b))"

definition BufferQueue_Delete :: "('q, 'i \<times> u64) btree \<Rightarrow> 'q BufferQueue \<Rightarrow> FileBuffer \<Rightarrow> 'q BufferQueue" where
  "BufferQueue_Delete C l b = l\<lparr>bq_cleanQueue := bt_del C (bq_cleanQueue l) (fb_queueId b)\<rparr>"

text \<open>Without a queued buffer the results keep their zero values (a nil inode, 0 and 0).\<close>

definition BufferQueue_NextClean :: "('q, 'i \<times> u64) btree \<Rightarrow> 'q BufferQueue \<Rightarrow> nat \<Rightarrow> 'i option \<times> u64 \<times> nat" where
  "BufferQueue_NextClean C l minQueueId =
     (case bt_asc C (bq_cleanQueue l) minQueueId of
        [] \<Rightarrow> (None, 0, 0)
      | (queueId, inode, end) # _ \<Rightarrow> (Some inode, end, queueId + 1))"

section \<open>The queue of dirty inodes\<close>

record 'q InodeQueue =
  iq_dirtyQueue :: 'q
  iq_curQueueID :: nat

definition InodeQueue_Add :: "('q, u64) btree \<Rightarrow> 'q InodeQueue \<Rightarrow> u64 \<Rightarrow> 'q InodeQueue \<times> nat" where
  "InodeQueue_Add C l inodeID =
     (let l = l\<lparr>iq_curQueueID := Suc (iq_curQueueID l)\<rparr>; queueID = iq_curQueueID l
      in (l\<lparr>iq_dirtyQueue := bt_set C (iq_dirtyQueue l) queueID inodeID\<rparr>, queueID))"

definition InodeQueue_Delete :: "('q, u64) btree \<Rightarrow> 'q InodeQueue \<Rightarrow> nat \<Rightarrow> 'q InodeQueue" where
  "InodeQueue_Delete C l queueID = l\<lparr>iq_dirtyQueue := bt_del C (iq_dirtyQueue l) queueID\<rparr>"

definition InodeQueue_Size :: "('q, u64) btree \<Rightarrow> 'q InodeQueue \<Rightarrow> nat" where
  "InodeQueue_Size C l = bt_len C (iq_dirtyQueue l)"

definition InodeQueue_Next :: "('q, u64) btree \<Rightarrow> 'q InodeQueue \<Rightarrow> nat \<Rightarrow> u64 \<times> nat" where
  "InodeQueue_Next C l minQueueID =
     (case bt_asc C (iq_dirtyQueue l) minQueueID of
        [] \<Rightarrow> (0, 0) | (queueID, ino) # _ \<Rightarrow> (ino, queueID + 1))"

text \<open>A walk of the dirty queue as the flusher does it: from 0 until \<open>Next\<close> returns inode 0.\<close>

fun InodeQueue_walk :: "('q, u64) btree \<Rightarrow> 'q InodeQueue \<Rightarrow> nat \<Rightarrow> nat \<Rightarrow> u64 list" where
  "InodeQueue_walk C l 0 p = []"
| "InodeQueue_walk C l (Suc n) p =
     (let (inodeID, nextQueueID) = InodeQueue_Next C l p in
      if inodeID = 0 then [] else inodeID # InodeQueue_walk C l n nextQueueID)"

section \<open>The queue of open disk cache files\<close>

text \<open>\<open>fdInode\<close> holds the fields of an inode that the queue changes: \<open>DiskFDQueueID\<close> and
  whether \<open>DiskCacheFD\<close> is open.\<close>

record fdInode =
  DiskFDQueueID :: nat
  DiskCacheFD :: bool

record 'q FDQueue =
  fq_q :: 'q
  fq_maxCount :: int
  fq_curQueueID :: nat

type_synonym fdInodes = "nat \<Rightarrow> fdInode"

definition NewFDQueue :: "('q, nat) btree \<Rightarrow> int \<Rightarrow> 'q FDQueue" where
  "NewFDQueue C maxCount = \<lparr>fq_q = bt_empty C, fq_maxCount = maxCount, fq_curQueueID = 0\<rparr>"

text \<open>The flag tells whether \<open>InsertFD\<close> wakes up the goroutine that closes files.\<close>

definition FDQueue_InsertFD :: "('q, nat) btree \<Rightarrow> nat \<Rightarrow> 'q FDQueue \<times> fdInodes \<Rightarrow> ('q FDQueue \<times> fdInodes) \<times> bool" where
  "FDQueue_InsertFD C inode = (\<lambda>(l, I).
     let l = l\<lparr>fq_curQueueID := Suc (fq_curQueueID l)\<rparr>;
         I = I(inode := (I inode)\<lparr>DiskFDQueueID := fq_curQueueID l\<rparr>);
         l = l\<lparr>fq_q := bt_set C (fq_q l) (DiskFDQueueID (I inode)) inode\<rparr>
     in ((l, I), fq_maxCount l > 0 \<and> int (bt_len C (fq_q l)) > fq_maxCount l))"

definition FDQueue_UseFD :: "('q, nat) btree \<Rightarrow> nat \<Rightarrow> 'q FDQueue \<times> fdInodes \<Rightarrow> 'q FDQueue \<times> fdInodes" where
  "FDQueue_UseFD C inode = (\<lambda>(l, I).
     let l = (if DiskFDQueueID (I inode) > 0 then l\<lparr>fq_q := bt_del C (fq_q l) (DiskFDQueueID (I inode))\<rparr> else l);
         l = l\<lparr>fq_curQueueID := Suc (fq_curQueueID l)\<rparr>;
         I = I(inode := (I inode)\<lparr>DiskFDQueueID := fq_curQueueID l\<rparr>)
     in (l\<lparr>fq_q := bt_set C (fq_q l) (DiskFDQueueID (I inode)) inode\<rparr>, I))"

definition FDQueue_DeleteFD :: "('q, nat) btree \<Rightarrow> nat \<Rightarrow> 'q FDQueue \<times> fdInodes \<Rightarrow> 'q FDQueue \<times> fdInodes" where
  "FDQueue_DeleteFD C inode = (\<lambda>(l, I).
     (l\<lparr>fq_q := bt_del C (fq_q l) (DiskFDQueueID (I inode))\<rparr>, I(inode := (I inode)\<lparr>DiskFDQueueID := 0\<rparr>)))"

text \<open>The loop of \<open>CloseExtra\<close> after the wake-up, with fuel.  The variable \<open>inode\<close> keeps its
  value when the iteration finds nothing.\<close>

fun FDQueue_CloseExtra_loop :: "('q, nat) btree \<Rightarrow> nat \<Rightarrow> nat \<Rightarrow> nat option \<Rightarrow> 'q FDQueue \<times> fdInodes \<Rightarrow>
    ('q FDQueue \<times> fdInodes) option" where
  "FDQueue_CloseExtra_loop C fuel nextQueueId inode (l, I) =
     (if fq_maxCount l > 0 \<and> int (bt_len C (fq_q l)) > fq_maxCount l then
        (let (inode, nextQueueId) =
           (case bt_asc C (fq_q l) nextQueueId of
              [] \<Rightarrow> (inode, nextQueueId) | (queueId, i) # _ \<Rightarrow> (Some i, queueId + 1))
         in case inode of
              None \<Rightarrow> Some (l, I)
            | Some i \<Rightarrow>
                (case fuel of 0 \<Rightarrow> None
                 | Suc n \<Rightarrow>
                     FDQueue_CloseExtra_loop C n nextQueueId inode
                       (if DiskCacheFD (I i)
                        then FDQueue_DeleteFD C i (l, I(i := (I i)\<lparr>DiskCacheFD := False\<rparr>))
                        else (l, I))))
      else Some (l, I))"

definition FDQueue_CloseExtra :: "('q, nat) btree \<Rightarrow> 'q FDQueue \<times> fdInodes \<Rightarrow> ('q FDQueue \<times> fdInodes) option" where
  "FDQueue_CloseExtra C = (\<lambda>(l, I). FDQueue_CloseExtra_loop C (bt_len C (fq_q l)) 0 None (l, I))"

section \<open>The interface on the queues\<close>

definition bt_next :: "('q, 'v) btree \<Rightarrow> 'q \<Rightarrow> nat \<Rightarrow> (nat \<times> 'v) option" where
  "bt_next C m p = (case bt_asc C m p of [] \<Rightarrow> None | e # _ \<Rightarrow> Some e)"

context btree_map
begin

lemma len_asc: "bt_len B m = length (bt_asc B m 0)"
proof -
  have "set (map fst (bt_asc B m 0)) = dom (bt_get B m)" by (force simp: asc_set)
  moreover have "distinct (map fst (bt_asc B m 0))" using asc_sorted [of m 0] by (simp add: strict_sorted_iff)
  ultimately show ?thesis by (metis distinct_card len_get length_map)
qed

lemma asc_del:
  assumes "bt_asc B m 0 = (q, v) # es"
  shows "bt_asc B (bt_del B m q) (Suc q) = es" "bt_asc B (bt_del B m q) 0 = es"
proof -
  have es: "es = bt_asc B m (Suc q)" by (rule asc_tail [OF assms])
  then show "bt_asc B (bt_del B m q) (Suc q) = es" using asc_cong [of "Suc q" m "bt_del B m q"] by simp
  have "q < k" if "bt_get B m k = Some w" "k \<noteq> q" for k w using asc_first(3) [OF assms that(1)] that(2) by simp
  then have "{(k, w). bt_get B (bt_del B m q) k = Some w \<and> 0 \<le> k} = {(k, w). bt_get B m k = Some w \<and> Suc q \<le> k}"
    by (auto simp: Suc_le_eq split: if_splits)
  then show "bt_asc B (bt_del B m q) 0 = es"
    using asc_sorted [of m "Suc q"] asc_set [of m "Suc q"] es by (intro asc_unique) auto
qed

lemma bt_next_None: "bt_next B m p = None \<longleftrightarrow> (\<forall>q \<ge> p. bt_get B m q = None)"
  using asc_Nil [of m p] by (auto simp: bt_next_def not_less [symmetric] split: list.splits)

lemma bt_next_Some:
  assumes "bt_next B m p = Some (q, v)"
  shows "p \<le> q \<and> bt_get B m q = Some v \<and> (\<forall>r. p \<le> r \<longrightarrow> r < q \<longrightarrow> bt_get B m r = None)"
proof -
  obtain es where "bt_asc B m p = (q, v) # es" using assms by (auto simp: bt_next_def split: list.splits)
  note f = asc_first [OF this]
  have "bt_get B m r = None" if "p \<le> r" "r < q" for r
    using f(3) [of r] that by (cases "bt_get B m r") auto
  with f show ?thesis by blast
qed

end

locale clean_queue = btree_map C for C :: "('q, 'i \<times> u64) btree"

sublocale clean_queue \<subseteq> cq: id_queue "\<lambda>l. bt_get C (bq_cleanQueue l)" bq_curQueueID
  "\<lambda>l (i, b). fst (BufferQueue_Add C i l b)" "\<lambda>(i, b). (i, bend b)" "BufferQueue_Delete C" fb_queueId
  "\<lambda>l. bt_next C (bq_cleanQueue l)"
  by unfold_locales
    (auto simp: BufferQueue_Add_def BufferQueue_Delete_def Let_def bend_def bt_next_None dest: bt_next_Some)

locale inode_queue = btree_map C for C :: "('q, u64) btree"

sublocale inode_queue \<subseteq> iq: id_queue "\<lambda>l. bt_get C (iq_dirtyQueue l)" iq_curQueueID
  "\<lambda>l i. fst (InodeQueue_Add C l i)" "\<lambda>i. i" "InodeQueue_Delete C" "\<lambda>q. q"
  "\<lambda>l. bt_next C (iq_dirtyQueue l)"
  by unfold_locales (auto simp: InodeQueue_Add_def InodeQueue_Delete_def Let_def bt_next_None dest: bt_next_Some)

interpretation omcq: clean_queue "om_btree :: ((nat \<times> u64) omap, nat \<times> u64) btree" ..

interpretation omiq: inode_queue "om_btree :: (u64 omap, u64) btree" ..

section \<open>Walking the dirty inodes\<close>

text \<open>The queue after a sequence of additions (of an inode) and deletions (of an identifier).\<close>

datatype iq_op = IqAdd u64 | IqDelete nat

fun iq_run :: "('q, u64) btree \<Rightarrow> iq_op list \<Rightarrow> 'q InodeQueue \<Rightarrow> 'q InodeQueue" where
  "iq_run C [] l = l"
| "iq_run C (IqAdd i # xs) l = iq_run C xs (fst (InodeQueue_Add C l i))"
| "iq_run C (IqDelete q # xs) l = iq_run C xs (InodeQueue_Delete C l q)"

text \<open>The inodes that are queued, in the order of their addition, with their identifiers.\<close>

fun iq_log :: "iq_op list \<Rightarrow> nat \<Rightarrow> (nat \<times> u64) list \<Rightarrow> (nat \<times> u64) list" where
  "iq_log [] n es = es"
| "iq_log (IqAdd i # xs) n es = iq_log xs (Suc n) (es @ [(Suc n, i)])"
| "iq_log (IqDelete q # xs) n es = iq_log xs n (filter (\<lambda>e. fst e \<noteq> q) es)"

context inode_queue
begin

lemma InodeQueue_walk_eq:
  assumes "\<forall>q v. bt_get C (iq_dirtyQueue l) q = Some v \<longrightarrow> v \<noteq> 0"
  shows "InodeQueue_walk C l n p = map snd (iq.walk n l p)"
proof (induction n arbitrary: p)
  case (Suc n)
  show ?case
  proof (cases "bt_asc C (iq_dirtyQueue l) p")
    case Nil
    then have "bt_next C (iq_dirtyQueue l) p = None" by (simp add: bt_next_def)
    then show ?thesis using Nil by (simp add: InodeQueue_Next_def)
  next
    case (Cons e es)
    obtain q i where e: "e = (q, i)" by fastforce
    have "i \<noteq> 0" using asc_first(1) [OF Cons [unfolded e]] assms by auto
    moreover have "bt_next C (iq_dirtyQueue l) p = Some (q, i)" using Cons e by (simp add: bt_next_def)
    ultimately show ?thesis using Cons e Suc.IH by (simp add: InodeQueue_Next_def)
  qed
qed simp

text \<open>The walk from 0 returns the queued inodes in the order of their identifiers.\<close>

lemma InodeQueue_walk_asc:
  assumes "iq.ids_below l" "\<forall>q v. bt_get C (iq_dirtyQueue l) q = Some v \<longrightarrow> v \<noteq> 0" "iq_curQueueID l < n"
  shows "InodeQueue_walk C l n 0 = map snd (bt_asc C (iq_dirtyQueue l) 0)"
proof -
  have "iq.walk n l 0 = bt_asc C (iq_dirtyQueue l) 0"
    using iq.walk_sorted [of n l 0] iq.walk_complete [OF assms(1), of 0 n] assms(3)
    by (intro asc_unique [symmetric]) auto
  then show ?thesis using InodeQueue_walk_eq [OF assms(2)] by simp
qed

end

context inode_queue
begin

lemma asc_add_last:
  assumes "\<forall>e \<in> set (bt_asc C m 0). fst e < n"
  shows "bt_asc C (bt_set C m n v) 0 = bt_asc C m 0 @ [(n, v)]"
proof (rule asc_unique)
  show "sorted_wrt (<) (map fst (bt_asc C m 0 @ [(n, v)]))" using asc_sorted [of m 0] assms by (auto simp: sorted_wrt_append)
  have "bt_get C m n = None" using assms by (cases "bt_get C m n") (auto simp: asc_set)
  then show "set (bt_asc C m 0 @ [(n, v)]) = {(k, w). bt_get C (bt_set C m n v) k = Some w \<and> 0 \<le> k}"
    by (auto simp: asc_set split: if_splits)
qed

lemma asc_filter: "bt_asc C (bt_del C m q) 0 = filter (\<lambda>e. fst e \<noteq> q) (bt_asc C m 0)"
  by (rule asc_unique) (use asc_sorted [of m 0] in \<open>auto simp: asc_set sorted_wrt_map sorted_wrt_filter split: if_splits\<close>)

lemma iq_run_log:
  assumes "\<forall>e \<in> set (bt_asc C (iq_dirtyQueue l) 0). fst e \<le> iq_curQueueID l"
  shows "bt_asc C (iq_dirtyQueue (iq_run C xs l)) 0 = iq_log xs (iq_curQueueID l) (bt_asc C (iq_dirtyQueue l) 0)"
  using assms
proof (induction xs arbitrary: l)
  case (Cons x xs)
  show ?case
  proof (cases x)
    case (IqAdd i)
    let ?l = "fst (InodeQueue_Add C l i)"
    have "bt_asc C (iq_dirtyQueue ?l) 0 = bt_asc C (iq_dirtyQueue l) 0 @ [(Suc (iq_curQueueID l), i)]"
      using asc_add_last [of "iq_dirtyQueue l" "Suc (iq_curQueueID l)" i] Cons.prems
      by (auto simp: InodeQueue_Add_def Let_def less_Suc_eq_le)
    moreover have "iq_curQueueID ?l = Suc (iq_curQueueID l)" by (simp add: InodeQueue_Add_def Let_def)
    ultimately show ?thesis using Cons.IH [of ?l] Cons.prems IqAdd by (auto simp: le_SucI)
  next
    case (IqDelete q)
    let ?l = "InodeQueue_Delete C l q"
    have "bt_asc C (iq_dirtyQueue ?l) 0 = filter (\<lambda>e. fst e \<noteq> q) (bt_asc C (iq_dirtyQueue l) 0)"
      "iq_curQueueID ?l = iq_curQueueID l" by (simp_all add: InodeQueue_Delete_def asc_filter)
    then show ?thesis using Cons.IH [of ?l] Cons.prems IqDelete by auto
  qed
qed simp

lemma iq_run_ids:
  assumes "iq.ids_below l"
  shows "iq.ids_below (iq_run C xs l)"
  using assms
proof (induction xs arbitrary: l)
  case (Cons x xs)
  then show ?case using iq.ids_below_add [of l] iq.ids_below_del [of l] by (cases x) auto
qed simp

lemma iq_fifo:
  assumes nz: "\<forall>e \<in> set (iq_log xs 0 []). snd e \<noteq> 0"
  defines "l \<equiv> iq_run C xs \<lparr>iq_dirtyQueue = bt_empty C, iq_curQueueID = 0\<rparr>"
  assumes n: "iq_curQueueID l < n"
  shows "InodeQueue_walk C l n 0 = map snd (iq_log xs 0 [])"
proof -
  let ?e = "\<lparr>iq_dirtyQueue = bt_empty C, iq_curQueueID = 0\<rparr>"
  have e: "bt_asc C (bt_empty C) 0 = []" by (simp add: asc_Nil)
  have log: "bt_asc C (iq_dirtyQueue l) 0 = iq_log xs 0 []" using iq_run_log [of ?e xs] e by (simp add: l_def)
  have nz: "\<forall>q v. bt_get C (iq_dirtyQueue l) q = Some v \<longrightarrow> v \<noteq> 0"
    using nz asc_set [of "iq_dirtyQueue l" 0] log by fastforce
  have "iq.ids_below ?e" by (simp add: iq.ids_below_def)
  from InodeQueue_walk_asc [OF iq_run_ids [OF this, of xs, folded l_def] nz n] log show ?thesis by simp
qed

end

section \<open>Open disk cache files\<close>

text \<open>The entries of the queue are the queued inodes, under their own identifier, with an open file.\<close>

definition fd_ok :: "('q, nat) btree \<Rightarrow> 'q FDQueue \<times> fdInodes \<Rightarrow> bool" where
  "fd_ok C = (\<lambda>(l, I). \<forall>q i. bt_get C (fq_q l) q = Some i \<longrightarrow>
     0 < q \<and> q \<le> fq_curQueueID l \<and> DiskFDQueueID (I i) = q \<and> DiskCacheFD (I i))"

definition closed :: "nat set \<Rightarrow> fdInodes \<Rightarrow> fdInodes" where
  "closed S I = (\<lambda>i. if i \<in> S then (I i)\<lparr>DiskCacheFD := False, DiskFDQueueID := 0\<rparr> else I i)"

locale fd_queue = btree_map C for C :: "('q, nat) btree"
begin

lemma fd_okD: "fd_ok C (l, I) \<Longrightarrow> bt_get C (fq_q l) q = Some i \<Longrightarrow>
    0 < q \<and> q \<le> fq_curQueueID l \<and> DiskFDQueueID (I i) = q \<and> DiskCacheFD (I i)"
  by (auto simp: fd_ok_def)

lemma InsertFD_ok:
  assumes "fd_ok C (l, I)" "DiskCacheFD (I i)" "\<forall>q. bt_get C (fq_q l) q \<noteq> Some i"
  shows "fd_ok C (fst (FDQueue_InsertFD C i (l, I)))"
  using assms by (fastforce simp: fd_ok_def FDQueue_InsertFD_def Let_def)

lemma UseFD_ok:
  assumes ok: "fd_ok C (l, I)" and i: "DiskCacheFD (I i)"
  shows "fd_ok C (FDQueue_UseFD C i (l, I))"
proof (cases "0 < DiskFDQueueID (I i)")
  case True
  then show ?thesis using fd_okD [OF ok] i by (fastforce simp: FDQueue_UseFD_def Let_def fd_ok_def)
next
  case False
  then have "bt_get C (fq_q l) q \<noteq> Some i" for q using fd_okD [OF ok, of q i] by auto
  then show ?thesis using False fd_okD [OF ok] i by (fastforce simp: FDQueue_UseFD_def Let_def fd_ok_def)
qed

lemma DeleteFD_ok: "fd_ok C (l, I) \<Longrightarrow> fd_ok C (FDQueue_DeleteFD C i (l, I))"
  by (fastforce simp: FDQueue_DeleteFD_def fd_ok_def)

lemma CloseExtra_loop_stop:
  assumes "0 < fq_maxCount l" "bt_len C (fq_q l) \<le> nat (fq_maxCount l)"
  shows "FDQueue_CloseExtra_loop C n p ino (l, I) = Some (l, I)"
  using assms by (subst FDQueue_CloseExtra_loop.simps) (simp add: nat_le_iff not_less le_nat_iff)

lemma CloseExtra_loop_next:
  assumes "0 < fq_maxCount l" "nat (fq_maxCount l) < bt_len C (fq_q l)" "bt_asc C (fq_q l) p = (q, i) # es" "DiskCacheFD (I i)"
  shows "FDQueue_CloseExtra_loop C (Suc n) p ino (l, I) =
    FDQueue_CloseExtra_loop C n (Suc q) (Some i) (FDQueue_DeleteFD C i (l, I(i := (I i)\<lparr>DiskCacheFD := False\<rparr>)))"
proof -
  have "fq_maxCount l < int (bt_len C (fq_q l))" using assms(1,2) by linarith
  then show ?thesis using assms by (subst FDQueue_CloseExtra_loop.simps) simp
qed

lemma CloseExtra_loop_spec:
  assumes "fd_ok C (l, I)" "fq_maxCount l > 0" "bt_asc C (fq_q l) p = bt_asc C (fq_q l) 0"
    "bt_len C (fq_q l) \<le> n + nat (fq_maxCount l)"
  shows "\<exists>l'. FDQueue_CloseExtra_loop C n p ino (l, I) =
      Some (l', closed (snd ` set (take (bt_len C (fq_q l) - nat (fq_maxCount l)) (bt_asc C (fq_q l) 0))) I) \<and>
    fq_maxCount l' = fq_maxCount l \<and> fd_ok C (l', closed (snd ` set (take (bt_len C (fq_q l) - nat (fq_maxCount l)) (bt_asc C (fq_q l) 0))) I) \<and>
    bt_asc C (fq_q l') 0 = drop (bt_len C (fq_q l) - nat (fq_maxCount l)) (bt_asc C (fq_q l) 0)"
  using assms
proof (induction n arbitrary: l I p ino)
  case 0
  then show ?case using CloseExtra_loop_stop [of l 0 p ino I] by (simp add: closed_def del: FDQueue_CloseExtra_loop.simps)
next
  case (Suc n)
  let ?m = "nat (fq_maxCount l)"
  show ?case
  proof (cases "?m < bt_len C (fq_q l)")
    case False
    then show ?thesis
      using Suc.prems CloseExtra_loop_stop [of l "Suc n" p ino I] by (simp add: closed_def del: FDQueue_CloseExtra_loop.simps)
  next
    case True
    have len: "bt_len C (fq_q l) = length (bt_asc C (fq_q l) 0)" for l :: "'q FDQueue" by (rule len_asc)
    obtain q i es where asc: "bt_asc C (fq_q l) 0 = (q, i) # es"
      using True len [of l] by (cases "bt_asc C (fq_q l) 0") auto
    have qi: "0 < q" "DiskFDQueueID (I i) = q" "DiskCacheFD (I i)" using fd_okD [OF Suc.prems(1) asc_first(1) [OF asc]] by auto
    define l1 where "l1 = l\<lparr>fq_q := bt_del C (fq_q l) q\<rparr>"
    define I1 where "I1 = I(i := (I i)\<lparr>DiskCacheFD := False, DiskFDQueueID := 0\<rparr>)"
    have es: "bt_asc C (fq_q l1) (Suc q) = es" "bt_asc C (fq_q l1) 0 = es"
      using asc_tail [OF asc] asc_del [OF asc] by (simp_all add: l1_def)
    have ok1: "fd_ok C (l1, I1)"
      using DeleteFD_ok [OF Suc.prems(1), of i] qi(2) fd_okD [OF Suc.prems(1)]
      by (fastforce simp: FDQueue_DeleteFD_def fd_ok_def l1_def I1_def)
    have le: "bt_len C (fq_q l) = Suc (bt_len C (fq_q l1))" using len [of l] len [of l1] asc es(2) by simp
    have run: "FDQueue_CloseExtra_loop C (Suc n) p ino (l, I) = FDQueue_CloseExtra_loop C n (Suc q) (Some i) (l1, I1)"
      using CloseExtra_loop_next [where I = I, OF Suc.prems(2) True Suc.prems(3) [unfolded asc] qi(3), of n ino] qi(2)
      by (simp add: FDQueue_DeleteFD_def l1_def I1_def del: FDQueue_CloseExtra_loop.simps)
    from Suc.IH [OF ok1, of "Suc q" "Some i"] Suc.prems(2,4) es le obtain l' where l':
      "FDQueue_CloseExtra_loop C n (Suc q) (Some i) (l1, I1) = Some (l', closed (snd ` set (take (bt_len C (fq_q l1) - ?m) es)) I1)"
      "fq_maxCount l' = fq_maxCount l" "fd_ok C (l', closed (snd ` set (take (bt_len C (fq_q l1) - ?m) es)) I1)"
      "bt_asc C (fq_q l') 0 = drop (bt_len C (fq_q l1) - ?m) es"
      by (auto simp: l1_def simp del: FDQueue_CloseExtra_loop.simps)
    have d: "bt_len C (fq_q l) - ?m = Suc (bt_len C (fq_q l1) - ?m)" using le True by simp
    have "closed (snd ` set (take (bt_len C (fq_q l1) - ?m) es)) I1 =
        closed (snd ` set (take (bt_len C (fq_q l) - ?m) (bt_asc C (fq_q l) 0))) I"
      unfolding d asc by (auto simp: closed_def I1_def fun_eq_iff)
    then show ?thesis using run l' d asc by (simp only:) auto
  qed
qed

end

interpretation omfd: fd_queue "om_btree :: (nat omap, nat) btree" ..

end
