(* ===== verification/Inode_Buffers.thy ===== *)
theory Inode_Buffers
  imports Buffer_Queues
begin

text \<open>
  The buffer list of an inode in its environment: the part layout of the file system answers
  \<open>PartNum\<close>, and the file system's queue of clean buffers takes the clean ones
  (\<open>core/handles.go\<close>).  Here the interface \<open>buffer_env\<close> of the buffer list meets its
  provider, and the theorems about the operations are stated for the program's own
  environment; the only assumptions left are the laws of the ordered map package.
\<close>

definition inode_env :: "('t, FileBuffer) btree \<Rightarrow> ('d, u64) btree \<Rightarrow> ('q, 'i \<times> u64) btree \<Rightarrow>
    PartSizeConfig list \<Rightarrow> 'i \<Rightarrow> ('t, 'd, 'q BufferQueue) bufEnv" where
  "inode_env A D C ps inode =
     \<lparr>env_at = A, env_dq = D, PartNum = partNum ps,
      QueueCleanBuffer = BufferQueue_Add C inode, UnqueueCleanBuffer = BufferQueue_Delete C\<rparr>"

text \<open>The queue seen by one inode.\<close>

definition bq_ok :: "('q, 'i \<times> u64) btree \<Rightarrow> 'q BufferQueue \<Rightarrow> bool" where
  "bq_ok C h \<longleftrightarrow> (\<forall>q v. bt_get C (bq_cleanQueue h) q = Some v \<longrightarrow> q \<le> bq_curQueueID h)"

definition bq_view :: "('q, 'i \<times> u64) btree \<Rightarrow> 'i \<Rightarrow> 'q BufferQueue \<Rightarrow> nat \<Rightarrow> u64 option" where
  "bq_view C inode h q =
     (case bt_get C (bq_cleanQueue h) q of
        Some (i, e) \<Rightarrow> if i = inode then Some e else None | None \<Rightarrow> None)"

text \<open>
  The environment keeps the queue well formed, and an operation on the buffers of one inode does
  not touch what the queue holds of the other inodes: \<open>V\<close> is the rest of the queue.
\<close>

definition bq_frame :: "('q, 'i \<times> u64) btree \<Rightarrow> 'i \<Rightarrow> ('i \<Rightarrow> nat \<Rightarrow> u64 option) \<Rightarrow> 'q BufferQueue \<Rightarrow> bool" where
  "bq_frame C inode V h \<longleftrightarrow> bq_ok C h \<and> (\<forall>j. j \<noteq> inode \<longrightarrow> bq_view C j h = V j)"

lemma bq_add:
  assumes C: "btree_map C" and h: "bq_ok C h"
  defines "q \<equiv> Suc (bq_curQueueID h)"
  shows "bt_get C (bq_cleanQueue h) q = None" "snd (BufferQueue_Add C inode h b) = b\<lparr>fb_queueId := q\<rparr>"
    "bq_ok C (fst (BufferQueue_Add C inode h b))"
    "bq_view C j (fst (BufferQueue_Add C inode h b)) = (if j = inode then (bq_view C j h)(q \<mapsto> bend b) else bq_view C j h)"
proof -
  show none: "bt_get C (bq_cleanQueue h) q = None"
    using h Suc_n_not_le_n [of "bq_curQueueID h"] unfolding bq_ok_def q_def by (metis not_None_eq)
  show "snd (BufferQueue_Add C inode h b) = b\<lparr>fb_queueId := q\<rparr>" by (simp add: BufferQueue_Add_def q_def Let_def)
  show "bq_ok C (fst (BufferQueue_Add C inode h b))"
    using h by (auto simp: BufferQueue_Add_def Let_def btree_map.get_set [OF C] bq_ok_def le_SucI)
  show "bq_view C j (fst (BufferQueue_Add C inode h b)) = (if j = inode then (bq_view C j h)(q \<mapsto> bend b) else bq_view C j h)"
    using none by (auto simp: bq_view_def BufferQueue_Add_def Let_def btree_map.get_set [OF C] bend_def q_def fun_eq_iff)
qed

lemma bq_delete:
  assumes C: "btree_map C" and h: "bq_ok C h" and b: "bq_view C inode h (fb_queueId b) \<noteq> None"
  shows "bq_ok C (BufferQueue_Delete C h b)"
    "bq_view C j (BufferQueue_Delete C h b) = (if j = inode then (bq_view C j h)(fb_queueId b := None) else bq_view C j h)"
  using h b by (auto simp: bq_ok_def bq_view_def BufferQueue_Delete_def btree_map.get_del [OF C] fun_eq_iff split: if_splits option.splits)

lemma inode_buffer_env_laws:
  assumes A: "btree_map A" and D: "btree_map D" and C: "btree_map C" and ps: "parts_ok ps"
    and hinv: "\<And>h. hinv h \<Longrightarrow> bq_ok C h"
    and add: "\<And>h b. hinv h \<Longrightarrow> hinv (fst (BufferQueue_Add C inode h b))"
    and del: "\<And>h b. hinv h \<Longrightarrow> bq_view C inode h (fb_queueId b) \<noteq> None \<Longrightarrow> hinv (BufferQueue_Delete C h b)"
  shows "buffer_env (inode_env A D C ps inode) (getMaxFileSize ps) hinv (bq_view C inode)"
proof -
  have M: "getMaxFileSize ps < u64_max" using ps by (simp add: parts_ok_def getMaxFileSize_eq)
  have env: "env_at (inode_env A D C ps inode) = A" "env_dq (inode_env A D C ps inode) = D"
    "PartNum (inode_env A D C ps inode) = partNum ps"
    "QueueCleanBuffer (inode_env A D C ps inode) = BufferQueue_Add C inode"
    "UnqueueCleanBuffer (inode_env A D C ps inode) = BufferQueue_Delete C" by (simp_all add: inode_env_def)
  show ?thesis
    unfolding buffer_env_def dirty_queue_def buffer_env_axioms_def env
  proof (intro conjI allI impI A D M)
    show "x < getMaxFileSize ps \<Longrightarrow> \<exists>i. partNum ps x = Some i" for x
      using partNum_total [OF ps, of x] by auto
    show "x \<le> y \<Longrightarrow> y < u64_max \<Longrightarrow> partNum ps x = Some i \<Longrightarrow> partNum ps y = Some j \<Longrightarrow> i \<le> j" for x y i j
      by (rule partNum_mono [OF ps])
    show "Suc x < u64_max \<Longrightarrow> partNum ps x = Some i \<Longrightarrow> partNum ps (Suc x) = Some j \<Longrightarrow> j \<le> Suc i" for x i j
      by (rule partNum_step [OF ps])
  next
    fix h b assume h: "hinv h"
    note a = bq_add [OF C hinv [OF h]]
    show "\<exists>q. bq_view C inode h q = None \<and> snd (BufferQueue_Add C inode h b) = b\<lparr>fb_queueId := q\<rparr> \<and>
        hinv (fst (BufferQueue_Add C inode h b)) \<and>
        bq_view C inode (fst (BufferQueue_Add C inode h b)) = (bq_view C inode h)(q \<mapsto> bend b)"
      using a(1) a(2) [of inode b] a(4) [of inode inode b] add [OF h]
      by (intro exI [of _ "Suc (bq_curQueueID h)"]) (simp add: bq_view_def [of C inode h])
  next
    fix h and b :: FileBuffer assume h: "hinv h" and b: "bq_view C inode h (fb_queueId b) \<noteq> None"
    show "hinv (BufferQueue_Delete C h b)" by (rule del [OF h b])
    show "bq_view C inode (BufferQueue_Delete C h b) = (bq_view C inode h)(fb_queueId b := None)"
      using bq_delete(2) [OF C hinv [OF h] b] by simp
  qed
qed

lemma inode_buffer_env:
  assumes "btree_map A" "btree_map D" "btree_map C" "parts_ok ps"
  shows "buffer_env (inode_env A D C ps inode) (getMaxFileSize ps) (bq_ok C) (bq_view C inode)"
  using assms by (intro inode_buffer_env_laws) (auto intro: bq_add bq_delete)

lemma inode_buffer_env_frame:
  assumes "btree_map A" "btree_map D" "btree_map C" "parts_ok ps"
  shows "buffer_env (inode_env A D C ps inode) (getMaxFileSize ps) (bq_frame C inode V) (bq_view C inode)"
  using assms by (intro inode_buffer_env_laws) (auto simp: bq_frame_def bq_add bq_delete)

interpretation ib: buffer_env
  "inode_env om_btree om_btree om_btree default_PartSizes (inode :: nat)" "getMaxFileSize default_PartSizes"
  "bq_ok om_btree" "bq_view om_btree inode"
  by (rule inode_buffer_env [OF om.btree_map_axioms om.btree_map_axioms om.btree_map_axioms default_parts_ok])

text \<open>The invariant of the buffer list of an inode.\<close>

definition file_inv :: "('t, FileBuffer) btree \<Rightarrow> ('d, u64) btree \<Rightarrow> ('q, 'i \<times> u64) btree \<Rightarrow>
    PartSizeConfig list \<Rightarrow> 'i \<Rightarrow> ('t, 'd, 'q BufferQueue) BufferList \<Rightarrow> bool" where
  "file_inv A D C ps inode l \<longleftrightarrow>
     BL_inv (inode_env A D C ps inode) (getMaxFileSize ps) (bq_ok C) (bq_view C inode) l"

lemma file_frame:
  "BL_inv (inode_env A D C ps inode) (getMaxFileSize ps) (bq_frame C inode V) (bq_view C inode) l \<longleftrightarrow>
    file_inv A D C ps inode l \<and> (\<forall>j. j \<noteq> inode \<longrightarrow> bq_view C j (bl_helpers l) = V j)"
  by (auto simp: file_inv_def BL_inv_def acct_def bq_frame_def)

section \<open>Sequences of operations\<close>

text \<open>An inode starts with an empty list.\<close>

definition BL_new :: "('t, 'd, 'h) bufEnv \<Rightarrow> 'h \<Rightarrow> ('t, 'd, 'h) BufferList" where
  "BL_new E h = \<lparr>bl_at = bt_empty (env_at E), bl_dirtyQueue = bt_empty (env_dq E), bl_dirtyParts = Map.empty,
     bl_dirtyQid = 0, bl_uncleanCount = 0, bl_curDirtyID = 0, bl_helpers = h, bl_mem = Map.empty, bl_nextPtr = 0\<rparr>"

datatype BL_op =
    OpAdd u64 "byte list" "byte list" BufferState bool
  | OpZeroRange u64 u64
  | OpRemoveRange u64 u64
  | OpAddLoading u64 u64
  | OpAddLoadingFromDisk u64 u64
  | OpReviveFromDisk u64 "byte list"
  | OpRemoveLoading u64 u64
  | OpSplitAt u64
  | OpSetState u64 u64 "nat set" BufferState
  | OpSetFlushedClean
  | OpEvict u64

fun BL_step :: "('t, 'd, 'h) bufEnv \<Rightarrow> BL_op \<Rightarrow> ('t, 'd, 'h) BufferList \<Rightarrow> ('t, 'd, 'h) BufferList option" where
  "BL_step E (OpAdd off data slack st copy) l = map_option fst (Add E l off data slack st copy)"
| "BL_step E (OpZeroRange off sz) l = map_option fst (ZeroRange E l off sz)"
| "BL_step E (OpRemoveRange off sz) l = map_option fst (RemoveRange E l off sz (\<lambda>_. True))"
| "BL_step E (OpAddLoading off sz) l = AddLoading E l off sz"
| "BL_step E (OpAddLoadingFromDisk off sz) l = map_option fst (AddLoadingFromDisk E l off sz)"
| "BL_step E (OpReviveFromDisk off data) l = ReviveFromDisk E l off data"
| "BL_step E (OpRemoveLoading off sz) l = RemoveLoading E l off sz"
| "BL_step E (OpSplitAt off) l = SplitAt E l off"
| "BL_step E (OpSetState off sz ids st) l = SetState E l off sz ids st"
| "BL_step E OpSetFlushedClean l = SetFlushedClean E l"
| "BL_step E (OpEvict end) l =
     (case BL_Get E l end of
        Some b \<Rightarrow> if (fb_state b = BUF_CLEAN \<or> fb_state b = BUF_FLUSHED_FULL) \<and> fb_ptr b \<noteq> None
                  then map_option fst (EvictFromMemory E l b) else Some l
      | None \<Rightarrow> Some l)"

text \<open>The calls the program makes: ranges are not empty and end within the largest file.\<close>

fun BL_op_ok :: "u64 \<Rightarrow> BL_op \<Rightarrow> bool" where
  "BL_op_ok M (OpAdd off data slack st copy) \<longleftrightarrow> data \<noteq> [] \<and> off + length data \<le> M \<and> (st = BUF_CLEAN \<or> st = BUF_DIRTY)"
| "BL_op_ok M (OpZeroRange off sz) \<longleftrightarrow> 0 < sz \<and> off + sz \<le> M"
| "BL_op_ok M (OpRemoveRange off sz) \<longleftrightarrow> 0 < sz \<and> off + sz < u64_max"
| "BL_op_ok M (OpAddLoading off sz) \<longleftrightarrow> off + sz \<le> M"
| "BL_op_ok M (OpAddLoadingFromDisk off sz) \<longleftrightarrow> 0 < sz \<and> off + sz < u64_max"
| "BL_op_ok M (OpReviveFromDisk off data) \<longleftrightarrow> data \<noteq> [] \<and> off + length data \<le> M"
| "BL_op_ok M (OpRemoveLoading off sz) \<longleftrightarrow> 0 < sz \<and> off + sz < u64_max"
| "BL_op_ok M (OpSplitAt off) \<longleftrightarrow> off < u64_max - 1"
| "BL_op_ok M (OpSetState off sz ids st) \<longleftrightarrow> 0 < sz \<and> off + sz < u64_max \<and>
     (st = BUF_CLEAN \<or> st = BUF_FLUSHED_FULL \<or> st = BUF_FLUSHED_CUT)"
| "BL_op_ok M OpSetFlushedClean \<longleftrightarrow> True"
| "BL_op_ok M (OpEvict end) \<longleftrightarrow> True"

fun BL_steps :: "('t, 'd, 'h) bufEnv \<Rightarrow> BL_op list \<Rightarrow> ('t, 'd, 'h) BufferList \<Rightarrow> ('t, 'd, 'h) BufferList option" where
  "BL_steps E [] l = Some l"
| "BL_steps E (x # xs) l = do { l \<leftarrow> BL_step E x l; BL_steps E xs l }"

context buffer_env
begin

lemma BL_new_inv:
  assumes "hinv h" "cv h = Map.empty"
  shows "BL_inv E M hinv cv (BL_new E h)"
proof -
  have b: "bufs E (BL_new E h) = Map.empty" by (simp add: BL_new_def bufs_def del: bufs_simps)
  show ?thesis
    unfolding BL_inv_def b using assms
    by (auto simp: shape_def mem_ok_def acct_def ids_ok_def pcount_def clean_ok_def qid_at_def unclean_set_def
        dirty_set_def BL_new_def)
qed

lemma RemoveLoading_cells:
  assumes inv: "BL_inv E M hinv cv l" and sz: "0 < sz" "off + sz < u64_max"
  shows "\<exists>l'. RemoveLoading E l off sz = Some l' \<and> BL_inv E M hinv cv l' \<and>
    cell E l' = removed (\<lambda>c. \<not> c_onDisk c \<and> c_loading c) off (off + sz) (cell E l)"
proof -
  have F: "(\<not> fb_onDisk b \<and> fb_loading b) \<longleftrightarrow> (\<lambda>c. \<not> c_onDisk c \<and> c_loading c) (cell_of l b x)"
    for l :: "('t, 'd, 'h) BufferList" and b x by (simp add: cell_of_def)
  from RemoveRange_cells [where filt = "\<lambda>b. \<not> fb_onDisk b \<and> fb_loading b" and F = "\<lambda>c. \<not> c_onDisk c \<and> c_loading c", OF inv sz F]
  show ?thesis by (auto simp: RemoveLoading_def)
qed

lemma ReviveFromDisk_total:
  assumes inv: "BL_inv E M hinv cv l" and d: "data \<noteq> []" "off + length data \<le> M"
  shows "\<exists>l'. ReviveFromDisk E l off data = Some l' \<and> BL_inv E M hinv cv l'"
proof (cases "\<exists>b. bufs E l (off + length data) = Some b \<and> fb_offset b = off \<and> fb_loading b \<and> fb_onDisk b")
  case True
  then show ?thesis using ReviveFromDisk_inv [OF inv d(2)] by blast
next
  case False
  have "ReviveFromDisk E l off data = Some l"
  proof (cases "bt_asc (env_at E) (bl_at l) (add64 off 1)")
    case (Cons e es)
    obtain k b where e: "e = (k, b)" by fastforce
    have "bufs E l k = Some b" using at.asc_first(1) [OF Cons [unfolded e]] by simp
    moreover from this have "k = fb_offset b + fb_length b" using inv_shape(2) [OF inv] by simp
    ultimately have "\<not> (fb_offset b = off \<and> fb_length b = length data \<and> fb_loading b \<and> fb_onDisk b)" using False by auto
    then show ?thesis using Cons e by (simp only: ReviveFromDisk_def list.case prod.case if_False)
  qed (simp add: ReviveFromDisk_def)
  then show ?thesis using inv by simp
qed

lemma BL_step_inv:
  assumes inv: "BL_inv E M hinv cv l" and ok: "BL_op_ok M x"
  shows "\<exists>l'. BL_step E x l = Some l' \<and> BL_inv E M hinv cv l'"
proof (cases x)
  case (OpAdd off data slack st copy)
  then show ?thesis using Add_cells [OF inv, of data off st slack copy] ok by auto
next
  case (OpZeroRange off sz)
  then show ?thesis using ZeroRange_cells [OF inv, of sz off] ok by auto
next
  case (OpRemoveRange off sz)
  have F: "True \<longleftrightarrow> (\<lambda>_. True) (cell_of l b x)" for l :: "('t, 'd, 'h) BufferList" and b x by simp
  show ?thesis
    using RemoveRange_cells [where filt = "\<lambda>_. True" and F = "\<lambda>_. True", OF inv _ _ F, of sz off] ok OpRemoveRange by auto
next
  case (OpAddLoading off sz)
  then show ?thesis using AddLoading_cells [OF inv, of off sz] ok by auto
next
  case (OpAddLoadingFromDisk off sz)
  then show ?thesis using AddLoadingFromDisk_cells [OF inv, of sz off] ok by auto
next
  case (OpReviveFromDisk off data)
  then show ?thesis using ReviveFromDisk_total [OF inv, of data off] ok by auto
next
  case (OpRemoveLoading off sz)
  then show ?thesis using RemoveLoading_cells [OF inv, of sz off] ok by auto
next
  case (OpSplitAt off)
  then show ?thesis using SplitAt_inv [OF inv, of off] ok by auto
next
  case (OpSetState off sz ids st)
  then have st: "st \<noteq> BUF_DIRTY" "st \<noteq> BUF_FL_CLEARED" and hi: "sub64 (add64 off sz) 1 = off + sz - 1"
    using ok by (auto simp: u64_simps)
  from SetState_loop_inv [OF st hi inv refl, of ids "add64 off 1"] show ?thesis using OpSetState by (auto simp: SetState_def)
next
  case OpSetFlushedClean
  then show ?thesis using SetFlushedClean_inv [OF inv] by auto
next
  case (OpEvict e)
  show ?thesis
  proof (cases "BL_Get E l e")
    case None
    then show ?thesis using OpEvict inv by simp
  next
    case (Some b)
    then have b: "bufs E l e = Some b" by (simp add: BL_Get_def bufs_def del: bufs_simps)
    show ?thesis using OpEvict Some inv EvictFromMemory_inv [OF inv b] by auto
  qed
qed

lemma BL_steps_inv:
  assumes "BL_inv E M hinv cv l" "\<forall>x \<in> set xs. BL_op_ok M x"
  shows "\<exists>l'. BL_steps E xs l = Some l' \<and> BL_inv E M hinv cv l'"
  using assms
proof (induction xs arbitrary: l)
  case (Cons x xs)
  from BL_step_inv [OF Cons.prems(1), of x] Cons.prems(2) obtain l1 where "BL_step E x l = Some l1" "BL_inv E M hinv cv l1" by auto
  then show ?case using Cons.IH [of l1] Cons.prems(2) by auto
qed simp

end

section \<open>Counters\<close>

context buffer_env
begin

lemma AnyUnclean_cells:
  assumes inv: "BL_inv E M hinv cv l"
  shows "AnyUnclean l \<longleftrightarrow> (\<exists>x c. cell E l x = Some c \<and> c_state c \<noteq> BUF_CLEAN)"
proof -
  note D = BL_invD [OF inv]
  have "AnyUnclean l \<longleftrightarrow> unclean_set (bufs E l) \<noteq> {}"
    using D(3) finite_counted(1) [OF D(5)] by (auto simp: AnyUnclean_def acct_def card_gt_0_iff)
  also have "\<dots> \<longleftrightarrow> (\<exists>x c. cell E l x = Some c \<and> c_state c \<noteq> BUF_CLEAN)"
  proof
    assume "unclean_set (bufs E l) \<noteq> {}"
    then obtain e b where b: "bufs E l e = Some b" "fb_state b \<noteq> BUF_CLEAN" by (auto simp: unclean_set_def)
    then have "cell E l (fb_offset b) = Some (cell_of l b (fb_offset b))"
      using cell_covers [OF D(1) b(1)] inv_shape(4) [OF inv b(1)] by simp
    then show "\<exists>x c. cell E l x = Some c \<and> c_state c \<noteq> BUF_CLEAN"
      using b(2) by (intro exI [of _ "fb_offset b"] exI [of _ "cell_of l b (fb_offset b)"]) (simp add: cell_of_def)
  next
    assume "\<exists>x c. cell E l x = Some c \<and> c_state c \<noteq> BUF_CLEAN"
    then show "unclean_set (bufs E l) \<noteq> {}"
      using cell_Some [OF D(1)] by (fastforce simp: unclean_set_def covers_def cell_of_def)
  qed
  finally show ?thesis .
qed

text \<open>Every part number between those of two positions is taken in between.\<close>

lemma part_between:
  assumes "PartNum E a = Some sp" "PartNum E (e - 1) = Some ep" "sp \<le> i \<and> i \<le> ep" "a < e" "e \<le> M"
  shows "\<exists>x. a \<le> x \<and> x < e \<and> PartNum E x = Some i"
  using assms
proof (induction "e - a" arbitrary: a sp rule: less_induct)
  case less
  show ?case
  proof (cases "sp = i")
    case True
    then show ?thesis using less.prems by auto
  next
    case False
    then have "Suc a < e" using less.prems by (cases "a = e - 1") auto
    moreover obtain j where j: "PartNum E (Suc a) = Some j" using PartNum_total [of "Suc a"] calculation less.prems(5) by auto
    moreover have "j \<le> Suc sp" by (rule PartNum_step [OF _ less.prems(1) j]) (use calculation less.prems(5) M_bound in auto)
    ultimately have "\<exists>x \<ge> Suc a. x < e \<and> PartNum E x = Some i" using less.hyps [of "Suc a" j] less.prems False by auto
    then show ?thesis by (meson Suc_leD)
  qed
qed

lemma dirty_part_cell:
  assumes inv: "BL_inv E M hinv cv l"
  shows "dirty_set E (bufs E l) i \<noteq> {} \<longleftrightarrow>
    (\<exists>x c. cell E l x = Some c \<and> c_state c = BUF_DIRTY \<and> PartNum E x = Some i)"
proof
  note D = BL_invD [OF inv]
  assume "dirty_set E (bufs E l) i \<noteq> {}"
  then obtain e b where b: "bufs E l e = Some b" "fb_state b = BUF_DIRTY" "i \<in> buf_parts E b" by (auto simp: dirty_set_def)
  note sb = inv_shape [OF inv b(1)]
  from parts_of [OF sb(1-3)] obtain sp ep where p: "PartNum E (fb_offset b) = Some sp" "PartNum E (bend b - 1) = Some ep"
    "buf_parts E b = {sp..ep}" by metis
  have "\<exists>x. fb_offset b \<le> x \<and> x < e \<and> PartNum E x = Some i"
    by (rule part_between [OF p(1) _ _ sb(4,3)]) (use p b(3) sb(5) in auto)
  then obtain x where x: "fb_offset b \<le> x" "x < e" "PartNum E x = Some i" by blast
  then show "\<exists>x c. cell E l x = Some c \<and> c_state c = BUF_DIRTY \<and> PartNum E x = Some i"
    using cell_covers [OF D(1) b(1) x(1,2)] b(2)
    by (intro exI [of _ x] exI [of _ "cell_of l b x"]) (simp add: cell_of_def)
next
  note D = BL_invD [OF inv]
  assume "\<exists>x c. cell E l x = Some c \<and> c_state c = BUF_DIRTY \<and> PartNum E x = Some i"
  then obtain x b e where x: "bufs E l e = Some b" "fb_offset b \<le> x" "x < e" "fb_state b = BUF_DIRTY" "PartNum E x = Some i"
    using cell_Some [OF D(1)] by (fastforce simp: covers_def cell_of_def)
  note sb = inv_shape [OF inv x(1)]
  from parts_of [OF sb(1-3)] obtain sp ep where p: "PartNum E (fb_offset b) = Some sp" "PartNum E (bend b - 1) = Some ep"
    "buf_parts E b = {sp..ep}" by metis
  have lt: "x < u64_max" "e - 1 < u64_max" using x(3) sb(3) M_bound by simp_all
  have "sp \<le> i" by (rule PartNum_mono [OF x(2) lt(1) p(1) x(5)])
  moreover have "i \<le> ep" by (rule PartNum_mono [OF _ lt(2) x(5)]) (use x(3) p(2) sb(5) in auto)
  ultimately have "e \<in> dirty_set E (bufs E l) i" using x p(3) by (simp add: dirty_set_def)
  then show "dirty_set E (bufs E l) i \<noteq> {}" by blast
qed

lemma IterateDirtyParts_set:
  assumes inv: "BL_inv E M hinv cv l"
  shows "distinct (IterateDirtyParts E l)" "set (IterateDirtyParts E l) = {i. dirty_set E (bufs E l) i \<noteq> {}}"
proof -
  note D = BL_invD [OF inv]
  have pc: "pcount E l (\<lambda>i. card (dirty_set E (bufs E l) i))" using D(3) by (simp add: acct_def)
  note P = pcountD [OF pc]
  let ?es = "bt_asc (env_dq E) (bl_dirtyQueue l) 0"
  have get: "(q, i) \<in> set ?es \<longleftrightarrow> bt_get (env_dq E) (bl_dirtyQueue l) q = Some i" for q i by (simp add: dq.asc_set)
  have "q = q'" if "(q, i) \<in> set ?es" "(q', i) \<in> set ?es" for q q' i
    using P(3) [of q i] P(3) [of q' i] that by (auto simp: get)
  then have "inj_on snd (set ?es)" by (auto simp: inj_on_def)
  moreover have "distinct ?es" using dq.asc_sorted [of "bl_dirtyQueue l" 0] by (auto simp: strict_sorted_iff distinct_map)
  ultimately show "distinct (IterateDirtyParts E l)" by (simp add: IterateDirtyParts_def distinct_map)
  have "i \<in> set (IterateDirtyParts E l) \<longleftrightarrow> (\<exists>q. (q, i) \<in> set ?es)" for i
    by (force simp: IterateDirtyParts_def)
  then have "i \<in> set (IterateDirtyParts E l) \<longleftrightarrow> bl_dirtyParts l i \<noteq> None" for i
    unfolding get using P(2) [of i] P(3) [of _ i] by (metis not_None_eq option.distinct(1))
  moreover have "bl_dirtyParts l i \<noteq> None \<longleftrightarrow> dirty_set E (bufs E l) i \<noteq> {}" for i
    using P(1,2) [of i] finite_counted(2) [OF D(5), of E i] by (cases "bl_dirtyParts l i") (auto simp: card_gt_0_iff)
  ultimately show "set (IterateDirtyParts E l) = {i. dirty_set E (bufs E l) i \<noteq> {}}" by auto
qed

end

end
