(* ===== verification/Buffer_Properties.thy ===== *)
theory Buffer_Properties
  imports Inode_Buffers
begin

text \<open>
  The properties of the buffer list of an inode and of the queues, stated over the model's
  definitions for every ordered map that satisfies the laws of \<open>btree_map\<close>.  The witnesses
  run on an empty list of an inode of a file system with the default part sizes, with the
  maps implemented by \<open>om_btree\<close>.
\<close>

section \<open>The list of the witnesses\<close>

definition demo_queue :: "(nat \<times> u64) omap BufferQueue" where
  "demo_queue = \<lparr>bq_cleanQueue = om_empty, bq_curQueueID = 0\<rparr>"

definition demo_env :: "(FileBuffer omap, u64 omap, (nat \<times> u64) omap BufferQueue) bufEnv" where
  "demo_env = inode_env om_btree om_btree om_btree default_PartSizes (0 :: nat)"

definition demo_list :: "(FileBuffer omap, u64 omap, (nat \<times> u64) omap BufferQueue) BufferList" where
  "demo_list = BL_new demo_env demo_queue"

lemmas om_maps = om.btree_map_axioms om.btree_map_axioms om.btree_map_axioms

lemma demo_queue_ok: "bq_ok om_btree demo_queue" "bq_view om_btree inode demo_queue = Map.empty"
  by (simp_all add: bq_ok_def bq_view_def demo_queue_def om_btree_def om_empty.rep_eq fun_eq_iff)

lemma demo_inv: "file_inv om_btree om_btree om_btree default_PartSizes (0 :: nat) demo_list"
  unfolding file_inv_def demo_list_def demo_env_def
  by (rule ib.BL_new_inv [OF demo_queue_ok])

lemma default_max: "getMaxFileSize default_PartSizes = 1030000 * 1024 * 1024"
  by (simp add: getMaxFileSize_def default_PartSizes_def u64_simps u64_max_def)

lemma demo_cell: "cell demo_env demo_list x = None"
  by (simp add: cell_def find_buf_def demo_env_def demo_list_def BL_new_def inode_env_def om_btree_def om_empty.rep_eq)

section \<open>Sequences of operations\<close>





text \<open>
  (C29) \<open>IterateDirtyParts\<close> visits exactly the upload parts that contain a dirty position, each
  of them once.
\<close>

theorem IterateDirtyParts_exact:
  assumes "btree_map A" "btree_map D" "btree_map C" and "parts_ok ps" and "file_inv A D C ps inode l"
  defines "E \<equiv> inode_env A D C ps inode"
  shows "distinct (IterateDirtyParts E l) \<and>
    set (IterateDirtyParts E l) =
      {i. \<exists>x c. cell E l x = Some c \<and> c_state c = BUF_DIRTY \<and> partNum ps x = Some i}"
proof -
  note env = inode_buffer_env [OF assms(1-4)] and inv = assms(5) [unfolded file_inv_def]
  have "PartNum E = partNum ps" by (simp add: E_def inode_env_def)
  then show ?thesis
    using buffer_env.IterateDirtyParts_set [OF env inv] buffer_env.dirty_part_cell [OF env inv]
    by (simp add: E_def)
qed

theorem IterateDirtyParts_exact_witness: "IterateDirtyParts demo_env demo_list = []"
  using IterateDirtyParts_exact [OF om_maps default_parts_ok demo_inv] demo_cell by (simp add: demo_env_def)

section \<open>Reading and writing\<close>

lemma written_readable:
  assumes "same_data (added BUF_DIRTY off data C x) c" "off \<le> x" "x < off + length data"
  shows "(\<exists>d. c = Some d \<and> readable d) \<and> cell_value c = data ! (x - off)"
  using assms by (auto simp: same_data_def added_def readable_def cell_value_def data_cell_def)

text \<open>
  What \<open>Add\<close> stores is what \<open>GetData\<close> returns: after a write of a non-empty range, a
  read of that range succeeds with exactly the written bytes.
\<close>

theorem Add_GetData:
  assumes "btree_map A" "btree_map D" "btree_map C" and "parts_ok ps" and "file_inv A D C ps inode l"
    and "data \<noteq> []" "off + length data \<le> getMaxFileSize ps"
  defines "E \<equiv> inode_env A D C ps inode"
  shows "\<exists>l' n chunks ids. Add E l off data slack BUF_DIRTY copyData = Some (l', n) \<and> file_inv A D C ps inode l' \<and>
    GetData E l' off (length data) r = Some (chunks, ids, None) \<and> concat chunks = data"
proof -
  note env = inode_buffer_env [OF assms(1-4), of inode, folded E_def] and inv = assms(5) [unfolded file_inv_def, folded E_def]
  have M: "getMaxFileSize ps < u64_max" by (rule buffer_env.M_bound [OF env])
  from buffer_env.Add_cells [OF env inv assms(6,7), of BUF_DIRTY slack copyData] obtain l' n where
    l': "Add E l off data slack BUF_DIRTY copyData = Some (l', n)"
    "BL_inv E (getMaxFileSize ps) (bq_ok C) (bq_view C inode) l'"
    "\<forall>x. same_data (added BUF_DIRTY off data (cell E l) x) (cell E l' x)" by auto
  have w: "off \<le> x \<Longrightarrow> x < off + length data \<Longrightarrow>
      (\<exists>c. cell E l' x = Some c \<and> readable c) \<and> cell_value (cell E l' x) = data ! (x - off)" for x
    using l'(3) written_readable by blast
  have "0 < length data" "off + length data < u64_max" using assms(6,7) M by simp_all
  from buffer_env.GetData_cells(1) [OF env l'(2) this, of r] w obtain chunks ids where g:
    "GetData E l' off (length data) r = Some (chunks, ids, None)"
    "concat chunks = map (\<lambda>x. cell_value (cell E l' x)) [off..<off + length data]" by auto
  have "map (\<lambda>x. cell_value (cell E l' x)) [off..<off + length data] = data"
    using w by (intro nth_equalityI) auto
  then show ?thesis using l'(1,2) g unfolding file_inv_def E_def by auto
qed

theorem Add_GetData_witness:
  "\<exists>l' n chunks ids. Add demo_env demo_list 5 [1, 2, 3] [] BUF_DIRTY True = Some (l', n) \<and>
    file_inv om_btree om_btree om_btree default_PartSizes (0 :: nat) l' \<and>
    GetData demo_env l' 5 (length [1, 2, 3 :: byte]) True = Some (chunks, ids, None) \<and> concat chunks = [1, 2, 3]"
  unfolding demo_env_def
  by (rule Add_GetData [OF om_maps default_parts_ok demo_inv]) (simp_all add: default_max)

text \<open>
  (C30) \<open>Add\<close> keeps the invariant and changes the written range only.  A clean write (data
  loaded from the server) does not overwrite positions that hold unclean data; outside the
  range a position may only lose its mark that its data is also on the local disk.  With
  \<open>copyData\<close> the returned number is the change of the memory held by the list.  A position
  keeps its dirty identifier, loses it, or gets one that no position ever had; what is written
  other than from the server never keeps its identifier.
\<close>

theorem Add_effect:
  assumes "btree_map A" "btree_map D" "btree_map C" and "parts_ok ps" and "file_inv A D C ps inode l"
    and "data \<noteq> []" "off + length data \<le> getMaxFileSize ps" "state \<noteq> BUF_FL_CLEARED"
  defines "E \<equiv> inode_env A D C ps inode"
  shows "\<exists>l' n. Add E l off data slack state copyData = Some (l', n) \<and> file_inv A D C ps inode l' \<and>
    (copyData \<longrightarrow> n = mem_total l' - mem_total l) \<and>
    (\<forall>x. same_data (added state off data (cell E l) x) (cell E l' x)) \<and> idst E l l' \<and>
    (state \<noteq> BUF_CLEAN \<longrightarrow> (\<forall>x. off \<le> x \<longrightarrow> x < off + length data \<longrightarrow> did E l' x = 0 \<or> bl_curDirtyID l < did E l' x))"
  using buffer_env.Add_cells [OF inode_buffer_env [OF assms(1-4)] assms(5) [unfolded file_inv_def] assms(6-8)]
  unfolding file_inv_def E_def .

theorem Add_effect_witness:
  "\<exists>l' n. Add demo_env demo_list 5 [1, 2, 3] [] BUF_CLEAN True = Some (l', n) \<and>
    (\<forall>x. same_data (added BUF_CLEAN 5 [1, 2, 3] (cell demo_env demo_list) x) (cell demo_env l' x))"
  using Add_effect [OF om_maps default_parts_ok demo_inv, of "[1, 2, 3]" 5 BUF_CLEAN "[]" True]
  by (auto simp: default_max demo_env_def)

text \<open>
  (C31) \<open>RemoveRange\<close> of a non-empty range removes exactly the positions of the range whose
  buffer passes the filter, keeps everything else, and returns the change of the memory
  held by the list.
\<close>

theorem RemoveRange_effect:
  assumes "btree_map A" "btree_map D" "btree_map C" and "parts_ok ps" and "file_inv A D C ps inode l"
    and "0 < sz" "off + sz < u64_max"
  defines "E \<equiv> inode_env A D C ps inode"
  shows "\<exists>l' n. RemoveRange E l off sz (\<lambda>b. F (fb_state b) (fb_loading b) (fb_onDisk b)) = Some (l', n) \<and>
    file_inv A D C ps inode l' \<and> n = mem_total l' - mem_total l \<and>
    cell E l' = removed (\<lambda>c. F (c_state c) (c_loading c) (c_onDisk c)) off (off + sz) (cell E l)"
proof -
  note env = inode_buffer_env [OF assms(1-4), of inode, folded E_def] and inv = assms(5) [unfolded file_inv_def, folded E_def]
  have F: "F (fb_state b) (fb_loading b) (fb_onDisk b) \<longleftrightarrow>
      (\<lambda>c. F (c_state c) (c_loading c) (c_onDisk c)) (cell_of l b x)" for l :: "('a, 'b, 'c BufferQueue) BufferList" and b x
    by (simp add: cell_of_def)
  show ?thesis
    using buffer_env.RemoveRange_cells [where filt = "\<lambda>b. F (fb_state b) (fb_loading b) (fb_onDisk b)",
        OF env inv assms(6,7) F] unfolding file_inv_def E_def by blast
qed

theorem RemoveRange_effect_witness:
  "\<exists>l' n. RemoveRange demo_env demo_list 3 10 (\<lambda>b. fb_state b = BUF_CLEAN) = Some (l', n) \<and> n = mem_total l' - mem_total demo_list"
  using RemoveRange_effect [OF om_maps default_parts_ok demo_inv, of 10 3 "\<lambda>st _ _. st = BUF_CLEAN"]
  by (auto simp: u64_max_def demo_env_def)

text \<open>
  (C32) \<open>ZeroRange\<close> of a non-empty range makes exactly its positions dirty zeroes and returns the
  change of the held memory; when it reports that nothing was to be done, the list is
  unchanged and all positions of the range were zero already.
\<close>

theorem ZeroRange_effect:
  assumes "btree_map A" "btree_map D" "btree_map C" and "parts_ok ps" and "file_inv A D C ps inode l"
    and "0 < sz" "off + sz \<le> getMaxFileSize ps"
  defines "E \<equiv> inode_env A D C ps inode"
  shows "\<exists>l' zeroed n. ZeroRange E l off sz = Some (l', zeroed, n) \<and> file_inv A D C ps inode l' \<and>
    n = mem_total l' - mem_total l \<and>
    (if zeroed then cell E l' = (\<lambda>x. if off \<le> x \<and> x < off + sz then Some zero_cell else cell E l x) \<and>
       (\<forall>x. off \<le> x \<longrightarrow> x < off + sz \<longrightarrow> did E l' x = 0 \<or> bl_curDirtyID l < did E l' x)
     else l' = l \<and> (\<forall>x. off \<le> x \<longrightarrow> x < off + sz \<longrightarrow> (\<exists>c. cell E l x = Some c \<and> c_zero c)))"
  using buffer_env.ZeroRange_cells [OF inode_buffer_env [OF assms(1-4)] assms(5) [unfolded file_inv_def] assms(6,7)]
  unfolding file_inv_def E_def by blast

theorem ZeroRange_effect_witness:
  "\<exists>l' n. ZeroRange demo_env demo_list 10 4 = Some (l', True, n) \<and> cell demo_env l' 12 = Some zero_cell"
proof -
  from ZeroRange_effect [OF om_maps default_parts_ok demo_inv, of 4 10, folded demo_env_def]
  obtain l' z n where r: "ZeroRange demo_env demo_list 10 4 = Some (l', z, n)"
    "if z then cell demo_env l' = (\<lambda>x. if 10 \<le> x \<and> x < 10 + 4 then Some zero_cell else cell demo_env demo_list x) \<and>
       (\<forall>x. 10 \<le> x \<longrightarrow> x < 10 + 4 \<longrightarrow> did demo_env l' x = 0 \<or> bl_curDirtyID demo_list < did demo_env l' x)
     else l' = demo_list \<and> (\<forall>x. 10 \<le> x \<longrightarrow> x < 10 + 4 \<longrightarrow> (\<exists>c. cell demo_env demo_list x = Some c \<and> c_zero c))"
    by (auto simp: default_max)
  have "z" using r(2) demo_cell by (auto split: if_splits dest: spec [of _ 10])
  then show ?thesis using r by auto
qed

text \<open>
  A read that meets a position that is not cached, or one that is still being loaded,
  returns the matching error and no data.
\<close>

theorem GetData_error:
  assumes "btree_map A" "btree_map D" "btree_map C" and "parts_ok ps" and "file_inv A D C ps inode l"
    and "0 < sz" "off + sz < u64_max"
  defines "E \<equiv> inode_env A D C ps inode"
  assumes "off \<le> x" "x < off + sz" "\<forall>y. off \<le> y \<longrightarrow> y < x \<longrightarrow> (\<exists>c. cell E l y = Some c \<and> readable c)"
    and "cell E l x = None \<or> (\<exists>c. cell E l x = Some c \<and> c_loading c)"
  shows "\<exists>ids. GetData E l off sz r =
    Some ([], ids, Some (if cell E l x = None then ErrBufferIsMissing else ErrBufferIsLoading))"
  using buffer_env.GetData_cells(2) [OF inode_buffer_env [OF assms(1-4)] assms(5) [unfolded file_inv_def] assms(6,7)]
    assms(9-12) unfolding E_def by blast

theorem GetData_error_witness: "\<exists>ids. GetData demo_env demo_list 5 3 True = Some ([], ids, Some ErrBufferIsMissing)"
  using GetData_error [OF om_maps default_parts_ok demo_inv, of 3 5 5 True] demo_cell
  by (simp add: u64_max_def demo_env_def)

text \<open>
  (C33) \<open>GetHoles\<close> returns exactly the positions of the range that are not cached, as disjoint
  non-adjacent ranges in ascending order, and tells whether the range holds a position
  being loaded or one flushed and evicted.
\<close>

theorem GetHoles_exact:
  assumes "btree_map A" "btree_map D" "btree_map C" and "parts_ok ps" and "file_inv A D C ps inode l"
    and "0 < sz" "off + sz < u64_max"
  defines "E \<equiv> inode_env A D C ps inode"
  assumes "GetHoles E l off sz = (holes, loading, flushCleared)"
  shows "(\<forall>x. in_ranges holes x \<longleftrightarrow> off \<le> x \<and> x < off + sz \<and> cell E l x = None) \<and>
    ranges_in off holes (off + sz) \<and> (loading \<longleftrightarrow> any_cell E l off (off + sz) c_loading) \<and>
    (flushCleared \<longleftrightarrow> any_cell E l off (off + sz) (\<lambda>c. c_state c = BUF_FL_CLEARED))"
  using buffer_env.GetHoles_cells [OF inode_buffer_env [OF assms(1-4)] assms(5) [unfolded file_inv_def] assms(6,7),
      folded E_def, OF assms(9)] by blast

theorem GetHoles_exact_witness:
  "\<exists>holes loading cleared. GetHoles demo_env demo_list 5 3 = (holes, loading, cleared) \<and>
    (\<forall>x. in_ranges holes x \<longleftrightarrow> 5 \<le> x \<and> x < 8) \<and> \<not> loading"
proof -
  obtain holes loading cleared where h: "GetHoles demo_env demo_list 5 3 = (holes, loading, cleared)" by (metis prod_cases3)
  from GetHoles_exact [OF om_maps default_parts_ok demo_inv _ _ h [unfolded demo_env_def]]
  have "(\<forall>x. in_ranges holes x \<longleftrightarrow> 5 \<le> x \<and> x < 8) \<and> \<not> loading"
    using demo_cell by (simp add: u64_max_def any_cell_def flip: demo_env_def)
  with h show ?thesis by blast
qed

section \<open>Eviction and the local disk\<close>

text \<open>
  Evicting a clean or fully flushed buffer that has memory does not panic, keeps the
  invariant, and returns exactly the change of the memory held by the list.
\<close>

theorem EvictFromMemory_exact:
  assumes "btree_map A" "btree_map D" "btree_map C" and "parts_ok ps" and "file_inv A D C ps inode l"
  defines "E \<equiv> inode_env A D C ps inode"
  assumes "BL_Get E l end = Some b" "fb_ptr b \<noteq> None" "fb_state b = BUF_CLEAN \<or> fb_state b = BUF_FLUSHED_FULL"
  shows "\<exists>l' n deleted. EvictFromMemory E l b = Some (l', n, deleted) \<and> file_inv A D C ps inode l' \<and>
    n = mem_total l' - mem_total l"
proof -
  obtain a where a: "fb_ptr b = Some a" using assms(8) by auto
  have b: "bufs E l end = Some b" using assms(7) by (simp add: BL_Get_def bufs_def)
  from buffer_env.EvictFromMemory_inv [OF inode_buffer_env [OF assms(1-4)] assms(5) [unfolded file_inv_def]
      b [unfolded E_def] a assms(9)]
  show ?thesis unfolding file_inv_def E_def by blast
qed

theorem EvictFromMemory_exact_witness:
  "\<exists>l end b l' n deleted. BL_Get demo_env l end = Some b \<and> fb_state b = BUF_CLEAN \<and>
    EvictFromMemory demo_env l b = Some (l', n, deleted) \<and> n = mem_total l' - mem_total l"
proof -
  from ib.Add_cells [OF demo_inv [unfolded file_inv_def], of "[7]" 0 BUF_CLEAN "[]" True, folded demo_env_def]
  obtain l m where l: "BL_inv demo_env (getMaxFileSize default_PartSizes) (bq_ok om_btree) (bq_view om_btree 0) l"
    "\<forall>x. same_data (added BUF_CLEAN 0 [7] (cell demo_env demo_list) x) (cell demo_env l x)"
    by (auto simp: default_max)
  have "same_data (Some (data_cell BUF_CLEAN 7)) (cell demo_env l 0)"
    using l(2) [rule_format, of 0] demo_cell by (simp add: added_def)
  then obtain c where c: "cell demo_env l 0 = Some c" "c_state c = BUF_CLEAN" "c_byte c \<noteq> None"
    by (auto simp: same_data_def data_cell_def)
  then obtain e b where b: "bufs demo_env l e = Some b" "c = cell_of l b 0"
    using ib.cell_Some [of 0 l 0 c] BL_invD(1) [OF l(1)] by (auto simp: covers_def demo_env_def)
  have st: "fb_ptr b \<noteq> None" "fb_state b = BUF_CLEAN" "BL_Get demo_env l e = Some b"
    using b c by (auto simp: cell_of_def byte_at_def BL_Get_def bufs_def split: option.splits)
  have inv: "file_inv om_btree om_btree om_btree default_PartSizes (0 :: nat) l"
    using l(1) by (simp add: file_inv_def demo_env_def)
  have "\<exists>l' n deleted. EvictFromMemory demo_env l b = Some (l', n, deleted) \<and>
      file_inv om_btree om_btree om_btree default_PartSizes (0 :: nat) l' \<and> n = mem_total l' - mem_total l"
    unfolding demo_env_def
    by (rule EvictFromMemory_exact [OF om_maps default_parts_ok inv]) (use st in \<open>simp_all add: demo_env_def\<close>)
  with st show ?thesis by blast
qed

text \<open>
  \<open>AddLoadingFromDisk\<close> returns exactly the positions of the range whose data is on the local
  disk only, marks exactly those as loading, and changes no other position.
\<close>

theorem AddLoadingFromDisk_exact:
  assumes "btree_map A" "btree_map D" "btree_map C" and "parts_ok ps" and "file_inv A D C ps inode l"
    and "0 < sz" "off + sz < u64_max"
  defines "E \<equiv> inode_env A D C ps inode"
  shows "\<exists>l' readRanges. AddLoadingFromDisk E l off sz = Some (l', readRanges) \<and> file_inv A D C ps inode l' \<and>
    (\<forall>x. in_ranges readRanges x \<longleftrightarrow> off \<le> x \<and> x < off + sz \<and> to_read (cell E l x)) \<and>
    (\<forall>x. cell E l' x = (if off \<le> x \<and> x < off + sz then mark_loading (cell E l x) else cell E l x))"
  using buffer_env.AddLoadingFromDisk_cells [OF inode_buffer_env [OF assms(1-4)] assms(5) [unfolded file_inv_def] assms(6,7)]
  unfolding file_inv_def E_def by blast

theorem AddLoadingFromDisk_exact_witness:
  "\<exists>l' readRanges. AddLoadingFromDisk demo_env demo_list 5 3 = Some (l', readRanges) \<and> (\<forall>x. \<not> in_ranges readRanges x)"
  using AddLoadingFromDisk_exact [OF om_maps default_parts_ok demo_inv, of 3 5] demo_cell
  by (auto simp: u64_max_def to_read_def demo_env_def)

section \<open>Queues\<close>

lemma iq_log_nonzero:
  "\<forall>x \<in> set xs. x \<noteq> IqAdd 0 \<Longrightarrow> \<forall>e \<in> set es. snd e \<noteq> 0 \<Longrightarrow> \<forall>e \<in> set (iq_log xs n es). snd e \<noteq> 0"
  by (induction xs n es rule: iq_log.induct) auto

text \<open>
  (C34) A walk over the queue of dirty inodes with \<open>Next\<close>, as the flusher does it, returns the
  inodes that were added and not deleted since, oldest first.
\<close>

theorem InodeQueue_fifo:
  assumes "btree_map C" and "\<forall>x \<in> set xs. x \<noteq> IqAdd 0"
  defines "l \<equiv> iq_run C xs \<lparr>iq_dirtyQueue = bt_empty C, iq_curQueueID = 0\<rparr>"
  assumes "iq_curQueueID l < n"
  shows "InodeQueue_walk C l n 0 = map snd (iq_log xs 0 [])"
  using inode_queue.iq_fifo [OF inode_queue.intro [OF assms(1)] iq_log_nonzero [OF assms(2)]] assms(4)
  unfolding l_def by simp

theorem InodeQueue_fifo_witness:
  "InodeQueue_walk om_btree (iq_run om_btree [IqAdd 7, IqAdd 5, IqAdd 9, IqDelete 2]
    \<lparr>iq_dirtyQueue = bt_empty om_btree, iq_curQueueID = 0\<rparr>) 4 0 = [7, 9]"
  using InodeQueue_fifo [OF om.btree_map_axioms, of "[IqAdd 7, IqAdd 5, IqAdd 9, IqDelete 2]" 4]
  by (simp add: InodeQueue_Add_def InodeQueue_Delete_def Let_def)


definition demo_fds :: "nat omap FDQueue \<times> fdInodes" where
  "demo_fds = (\<lparr>fq_q = om_set (om_set om_empty 1 7) 2 5, fq_maxCount = 1, fq_curQueueID = 2\<rparr>,
     (\<lambda>_. \<lparr>DiskFDQueueID = 0, DiskCacheFD = False\<rparr>)(7 := \<lparr>DiskFDQueueID = 1, DiskCacheFD = True\<rparr>,
       5 := \<lparr>DiskFDQueueID = 2, DiskCacheFD = True\<rparr>))"


end
