(* ===== verification/Multi_Reader.thy ===== *)
theory Multi_Reader
  imports Buffer_List
begin

text \<open>
  The reader over the cached buffers of an upload (\<open>core/buffer_reader.go\<close>): a sequence of byte
  slices and runs of zeroes read as one stream with a position.  The stream it stands for is
  \<open>mr_bytes\<close>; \<open>Read\<close> and \<open>Seek\<close> refine reading and positioning in that list of bytes.
\<close>

record BufferOrZero =
  boz_data :: "byte list"
  boz_zero :: bool
  boz_size :: u64

record MultiReader =
  mr_buffers :: "BufferOrZero list"
  mr_idx :: nat
  mr_pos :: u64
  mr_bufPos :: u64
  mr_size :: u64

definition NewMultiReader :: MultiReader where
  "NewMultiReader = \<lparr>mr_buffers = [], mr_idx = 0, mr_pos = 0, mr_bufPos = 0, mr_size = 0\<rparr>"

definition AddBuffer :: "MultiReader \<Rightarrow> byte list \<Rightarrow> MultiReader" where
  "AddBuffer r buf =
     r\<lparr>mr_buffers := mr_buffers r @ [\<lparr>boz_data = buf, boz_zero = False, boz_size = length buf\<rparr>],
       mr_size := add64 (mr_size r) (length buf)\<rparr>"

definition AddZero :: "MultiReader \<Rightarrow> u64 \<Rightarrow> MultiReader" where
  "AddZero r sz =
     r\<lparr>mr_buffers := mr_buffers r @ [\<lparr>boz_data = [], boz_zero = True, boz_size = sz\<rparr>],
       mr_size := add64 (mr_size r) sz\<rparr>"

definition memzero :: "byte list \<Rightarrow> byte list" where
  "memzero buf = replicate (length buf) 0"

text \<open>
  The loop of \<open>Read\<close>: \<open>out\<close> is the part of \<open>buf\<close> filled so far.  A slice bound outside the buffer
  panics (\<^const>\<open>None\<close>), and so does in the model a loop that does not end.
\<close>

partial_function (option) MultiReader_Read_loop :: "MultiReader \<Rightarrow> u64 \<Rightarrow> byte list \<Rightarrow> (MultiReader \<times> byte list) option" where
  "MultiReader_Read_loop r remaining out =
     (if mr_idx r < length (mr_buffers r) \<and> remaining > 0 then
        (let b = mr_buffers r ! mr_idx r;
             l = (if sub64 (boz_size b) (mr_bufPos r) > remaining then remaining else sub64 (boz_size b) (mr_bufPos r))
         in if \<not> boz_zero b \<and> mr_bufPos r + l > length (boz_data b) then None
            else
              (let chunk = (if boz_zero b then replicate l 0 else take l (drop (mr_bufPos r) (boz_data b)));
                   bufPos = add64 (mr_bufPos r) l
               in MultiReader_Read_loop
                    (if bufPos \<ge> boz_size b
                     then r\<lparr>mr_idx := mr_idx r + 1, mr_pos := add64 (mr_pos r) l, mr_bufPos := 0\<rparr>
                     else r\<lparr>mr_pos := add64 (mr_pos r) l, mr_bufPos := bufPos\<rparr>)
                    (sub64 remaining l) (out @ chunk)))
      else Some (r, out))"

text \<open>\<open>Read\<close> into a buffer of \<open>n\<close> bytes returns the bytes it stored and whether it returned \<open>io.EOF\<close>.\<close>

definition MultiReader_Read :: "MultiReader \<Rightarrow> u64 \<Rightarrow> (MultiReader \<times> byte list \<times> bool) option" where
  "MultiReader_Read r n =
     (if mr_idx r \<ge> length (mr_buffers r) then Some (r, [], True)
      else do {
        (r, out) \<leftarrow> MultiReader_Read_loop r n [];
        Some (r, out, False)
      })"

datatype whence = SeekStart | SeekCurrent | SeekEnd

partial_function (option) MultiReader_Seek_loop :: "MultiReader \<Rightarrow> u64 \<Rightarrow> MultiReader option" where
  "MultiReader_Seek_loop r uOffset =
     (if mr_pos r < uOffset then
        (if mr_idx r \<ge> length (mr_buffers r) then None
         else let end = add64 (mr_pos r) (boz_size (mr_buffers r ! mr_idx r)) in
           MultiReader_Seek_loop
             (if end \<le> uOffset then r\<lparr>mr_pos := end, mr_idx := mr_idx r + 1\<rparr>
              else r\<lparr>mr_bufPos := sub64 uOffset (mr_pos r), mr_pos := uOffset\<rparr>)
             uOffset)
      else Some r)"

definition MultiReader_Seek :: "MultiReader \<Rightarrow> int \<Rightarrow> whence \<Rightarrow> (MultiReader \<times> int) option" where
  "MultiReader_Seek r offset w =
     (let offset = (case w of SeekEnd \<Rightarrow> i64 (offset + i64 (int (mr_size r)))
                    | SeekCurrent \<Rightarrow> i64 (offset + i64 (int (mr_pos r)))
                    | SeekStart \<Rightarrow> offset);
          offset = (if offset > i64 (int (mr_size r)) then i64 (int (mr_size r)) else offset);
          offset = (if offset < 0 then 0 else offset)
      in do {
        r \<leftarrow> MultiReader_Seek_loop (r\<lparr>mr_idx := 0, mr_pos := 0, mr_bufPos := 0\<rparr>) (nat offset);
        Some (r, i64 (int (mr_pos r)))
      })"

definition MultiReader_Len :: "MultiReader \<Rightarrow> u64" where
  "MultiReader_Len r = mr_size r"

section \<open>The stream\<close>

definition boz_bytes :: "BufferOrZero \<Rightarrow> byte list" where
  "boz_bytes b = (if boz_zero b then replicate (boz_size b) 0 else boz_data b)"

definition mr_bytes :: "MultiReader \<Rightarrow> byte list" where
  "mr_bytes r = concat (map boz_bytes (mr_buffers r))"

definition mr_before :: "MultiReader \<Rightarrow> nat" where
  "mr_before r = length (concat (map boz_bytes (take (mr_idx r) (mr_buffers r))))"

definition mr_ok :: "MultiReader \<Rightarrow> bool" where
  "mr_ok r \<longleftrightarrow> (\<forall>b \<in> set (mr_buffers r). length (boz_bytes b) = boz_size b) \<and>
     mr_size r = length (mr_bytes r) \<and> length (mr_bytes r) < 2 ^ 63 \<and>
     mr_idx r \<le> length (mr_buffers r) \<and> mr_pos r = mr_before r + mr_bufPos r \<and>
     (mr_bufPos r = 0 \<or> mr_idx r < length (mr_buffers r) \<and> mr_bufPos r < boz_size (mr_buffers r ! mr_idx r))"

lemma mr_bytes_split:
  assumes "mr_idx r < length (mr_buffers r)"
  shows "mr_bytes r = concat (map boz_bytes (take (mr_idx r) (mr_buffers r))) @ boz_bytes (mr_buffers r ! mr_idx r) @
    concat (map boz_bytes (drop (Suc (mr_idx r)) (mr_buffers r)))"
proof -
  have "mr_buffers r = take (mr_idx r) (mr_buffers r) @ mr_buffers r ! mr_idx r # drop (Suc (mr_idx r)) (mr_buffers r)"
    using assms by (simp add: id_take_nth_drop)
  then show ?thesis unfolding mr_bytes_def by (metis concat.simps(2) concat_append list.simps(9) map_append)
qed

lemma mr_before_Suc:
  assumes "mr_idx r < length (mr_buffers r)"
  shows "length (concat (map boz_bytes (take (Suc (mr_idx r)) (mr_buffers r)))) =
    mr_before r + length (boz_bytes (mr_buffers r ! mr_idx r))"
  using assms by (simp add: mr_before_def take_Suc_conv_app_nth)

lemma mr_okD:
  assumes "mr_ok r"
  shows "mr_size r = length (mr_bytes r)" "length (mr_bytes r) < 2 ^ 63" "mr_pos r \<le> length (mr_bytes r)"
    "mr_pos r = mr_before r + mr_bufPos r" "mr_pos r < u64_max"
proof -
  show 1: "mr_size r = length (mr_bytes r)" "length (mr_bytes r) < 2 ^ 63" "mr_pos r = mr_before r + mr_bufPos r"
    using assms by (simp_all add: mr_ok_def)
  show le: "mr_pos r \<le> length (mr_bytes r)"
  proof (cases "mr_idx r < length (mr_buffers r)")
    case True
    then have "mr_bufPos r \<le> length (boz_bytes (mr_buffers r ! mr_idx r))" using assms by (auto simp: mr_ok_def)
    then show ?thesis using 1(3) mr_bytes_split [OF True] by (simp add: mr_before_def)
  next
    case False
    then show ?thesis using assms 1(3) by (auto simp: mr_ok_def mr_before_def mr_bytes_def)
  qed
  show "mr_pos r < u64_max" using le 1(2) by (simp add: u64_max_def)
qed

lemma mr_buf:
  assumes "mr_ok r" "mr_idx r < length (mr_buffers r)"
  defines "b \<equiv> mr_buffers r ! mr_idx r"
  shows "length (boz_bytes b) = boz_size b" "mr_before r + boz_size b \<le> length (mr_bytes r)" "mr_bufPos r \<le> boz_size b"
    "drop (mr_pos r) (mr_bytes r) = drop (mr_bufPos r) (boz_bytes b) @ concat (map boz_bytes (drop (Suc (mr_idx r)) (mr_buffers r)))"
    "sub64 (boz_size b) (mr_bufPos r) = boz_size b - mr_bufPos r"
proof -
  show l: "length (boz_bytes b) = boz_size b" using assms by (simp add: mr_ok_def)
  show le: "mr_bufPos r \<le> boz_size b" using assms by (auto simp: mr_ok_def)
  show "mr_before r + boz_size b \<le> length (mr_bytes r)"
    using mr_bytes_split [OF assms(2)] l by (simp add: mr_before_def b_def)
  show "drop (mr_pos r) (mr_bytes r) = drop (mr_bufPos r) (boz_bytes b) @ concat (map boz_bytes (drop (Suc (mr_idx r)) (mr_buffers r)))"
    using mr_bytes_split [OF assms(2)] mr_okD(4) [OF assms(1)] le l by (simp add: mr_before_def b_def)
  have "boz_size b < u64_max" using \<open>mr_before r + boz_size b \<le> length (mr_bytes r)\<close> mr_okD(2) [OF assms(1)] by (simp add: u64_max_def)
  then show "sub64 (boz_size b) (mr_bufPos r) = boz_size b - mr_bufPos r" using le by (simp add: u64_simps)
qed

text \<open>One pass of the loop of \<open>Read\<close>.\<close>

lemma mr_pass:
  assumes ok: "mr_ok r" and i: "mr_idx r < length (mr_buffers r)" and n: "0 < n" "n < u64_max"
  defines "b \<equiv> mr_buffers r ! mr_idx r"
  defines "l \<equiv> min n (boz_size b - mr_bufPos r)"
  defines "r' \<equiv> if boz_size b \<le> mr_bufPos r + l
      then r\<lparr>mr_idx := mr_idx r + 1, mr_pos := mr_pos r + l, mr_bufPos := 0\<rparr>
      else r\<lparr>mr_pos := mr_pos r + l, mr_bufPos := mr_bufPos r + l\<rparr>"
  shows "mr_ok r'" "mr_bytes r' = mr_bytes r"
    "(if boz_zero b then replicate l 0 else take l (drop (mr_bufPos r) (boz_data b))) = take l (drop (mr_pos r) (mr_bytes r))"
    "\<not> boz_zero b \<Longrightarrow> mr_bufPos r + l \<le> length (boz_data b)" "mr_pos r' = mr_pos r + l"
    "MultiReader_Read_loop r n out = MultiReader_Read_loop r' (n - l) (out @ take l (drop (mr_pos r) (mr_bytes r)))"
    "mr_idx r' = mr_idx r \<Longrightarrow> n = l" "length (take l (drop (mr_pos r) (mr_bytes r))) = l"
proof -
  note B = mr_buf [OF ok i, folded b_def] and D = mr_okD [OF ok]
  have idx: "boz_size b \<le> mr_bufPos r + l \<longleftrightarrow> boz_size b - mr_bufPos r \<le> n" using B(3) by (auto simp: l_def)
  show bytes: "mr_bytes r' = mr_bytes r" by (simp add: r'_def mr_bytes_def)
  show "mr_pos r' = mr_pos r + l" by (simp add: r'_def)
  have l: "l \<le> boz_size b - mr_bufPos r" "l \<le> n" by (simp_all add: l_def)
  show chunk: "(if boz_zero b then replicate l 0 else take l (drop (mr_bufPos r) (boz_data b))) = take l (drop (mr_pos r) (mr_bytes r))"
    unfolding B(4) using l B(1) by (auto simp: boz_bytes_def)
  show len: "length (take l (drop (mr_pos r) (mr_bytes r))) = l" unfolding B(4) using l B(1) by simp
  show pan: "\<not> boz_zero b \<Longrightarrow> mr_bufPos r + l \<le> length (boz_data b)" using l B(1,3) by (auto simp: boz_bytes_def)
  show "mr_idx r' = mr_idx r \<Longrightarrow> n = l" by (auto simp: r'_def l_def min_def split: if_splits)
  have small: "mr_bufPos r + l < u64_max" "mr_pos r + l < u64_max"
    using l B(2,3) D(2,4) by (auto simp: u64_max_def)
  show "mr_ok r'"
    using ok i l B mr_before_Suc [OF i] bytes unfolding mr_ok_def
    by (auto simp: r'_def mr_before_def b_def [symmetric])
  show "MultiReader_Read_loop r n out = MultiReader_Read_loop r' (n - l) (out @ take l (drop (mr_pos r) (mr_bytes r)))"
  proof -
    have cond: "mr_idx r < length (mr_buffers r) \<and> 0 < n" using i n by simp
    have lm: "(if sub64 (boz_size b) (mr_bufPos r) > n then n else sub64 (boz_size b) (mr_bufPos r)) = l"
      using B(5) by (simp add: l_def min_def)
    have np: "\<not> (\<not> boz_zero b \<and> mr_bufPos r + l > length (boz_data b))" using pan by auto
    have ar: "add64 (mr_bufPos r) l = mr_bufPos r + l" "add64 (mr_pos r) l = mr_pos r + l" "sub64 n l = n - l"
      using small l n by (simp_all add: u64_simps)
    show ?thesis
      by (subst MultiReader_Read_loop.simps)
        (simp only: cond if_True Let_def lm [unfolded b_def] np [unfolded b_def] if_False ar chunk [unfolded b_def] r'_def b_def simp_thms)
  qed
qed

lemma Read_loop_ok:
  assumes "mr_ok r" "n < u64_max"
  shows "\<exists>r'. MultiReader_Read_loop r n out = Some (r', out @ take n (drop (mr_pos r) (mr_bytes r))) \<and> mr_ok r' \<and>
    mr_bytes r' = mr_bytes r \<and> mr_pos r' = mr_pos r + min n (length (mr_bytes r) - mr_pos r)"
  using assms
proof (induction "length (mr_buffers r) - mr_idx r" arbitrary: r n out rule: less_induct)
  case less
  have stop: ?case if "n = 0 \<or> \<not> mr_idx r < length (mr_buffers r)"
  proof -
    have "MultiReader_Read_loop r n out = Some (r, out)" using that by (subst MultiReader_Read_loop.simps) auto
    moreover have "n = 0 \<or> mr_pos r = length (mr_bytes r)"
      using that less.prems(1) by (auto simp: mr_ok_def mr_before_def mr_bytes_def)
    ultimately show ?thesis using less.prems(1) by auto
  qed
  show ?case
  proof (cases "n = 0 \<or> \<not> mr_idx r < length (mr_buffers r)")
    case False
    then have i: "mr_idx r < length (mr_buffers r)" and n: "0 < n" by auto
    define b l where "b = mr_buffers r ! mr_idx r" and "l = min n (boz_size b - mr_bufPos r)"
    define r' where "r' = (if boz_size b \<le> mr_bufPos r + l
      then r\<lparr>mr_idx := mr_idx r + 1, mr_pos := mr_pos r + l, mr_bufPos := 0\<rparr>
      else r\<lparr>mr_pos := mr_pos r + l, mr_bufPos := mr_bufPos r + l\<rparr>)"
    note P = mr_pass [OF less.prems(1) i n less.prems(2), folded b_def, folded l_def, folded r'_def]
    let ?out = "out @ take l (drop (mr_pos r) (mr_bytes r))"
    have "\<exists>r2. MultiReader_Read_loop r' (n - l) ?out = Some (r2, ?out @ take (n - l) (drop (mr_pos r') (mr_bytes r'))) \<and> mr_ok r2 \<and>
      mr_bytes r2 = mr_bytes r' \<and> mr_pos r2 = mr_pos r' + min (n - l) (length (mr_bytes r') - mr_pos r')"
    proof (cases "mr_idx r' = mr_idx r")
      case True
      then have "n - l = 0" using P(7) by simp
      moreover have "MultiReader_Read_loop r' 0 ?out = Some (r', ?out)" by (subst MultiReader_Read_loop.simps) simp
      ultimately show ?thesis using P(1) by simp
    next
      case False
      then have "length (mr_buffers r') - mr_idx r' < length (mr_buffers r) - mr_idx r"
        using i by (auto simp: r'_def split: if_splits)
      from less.hyps [OF this P(1), of "n - l" ?out] less.prems(2) show ?thesis by simp
    qed
    then obtain r2 where r2: "MultiReader_Read_loop r' (n - l) ?out = Some (r2, ?out @ take (n - l) (drop (mr_pos r') (mr_bytes r')))"
      "mr_ok r2" "mr_bytes r2 = mr_bytes r'" "mr_pos r2 = mr_pos r' + min (n - l) (length (mr_bytes r') - mr_pos r')" by blast
    have le: "l \<le> n" "l \<le> length (mr_bytes r) - mr_pos r" using P(8) by (auto simp: l_def min_def split: if_splits)
    have "take n (drop (mr_pos r) (mr_bytes r)) = take l (drop (mr_pos r) (mr_bytes r)) @ take (n - l) (drop (mr_pos r + l) (mr_bytes r))"
      using le(1) by (metis add.commute drop_drop le_add_diff_inverse take_add)
    then show ?thesis using r2 P(2,5,6) le by (auto simp: min_def)
  qed (rule stop)
qed

lemma Seek_loop_ok:
  assumes "mr_ok r" "mr_bufPos r = 0" "mr_pos r \<le> u" "u \<le> length (mr_bytes r)"
  shows "\<exists>r'. MultiReader_Seek_loop r u = Some r' \<and> mr_ok r' \<and> mr_bytes r' = mr_bytes r \<and> mr_pos r' = u"
  using assms
proof (induction "length (mr_buffers r) - mr_idx r" arbitrary: r rule: less_induct)
  case less
  show ?case
  proof (cases "mr_pos r < u")
    case False
    then show ?thesis using less.prems by (subst MultiReader_Seek_loop.simps) auto
  next
    case True
    note D = mr_okD [OF less.prems(1)]
    have i: "mr_idx r < length (mr_buffers r)"
      using True less.prems by (auto simp: mr_ok_def mr_before_def mr_bytes_def not_less le_less)
    define b where "b = mr_buffers r ! mr_idx r"
    note B = mr_buf [OF less.prems(1) i, folded b_def]
    have e: "add64 (mr_pos r) (boz_size b) = mr_pos r + boz_size b"
      using B(2) D(2,4) less.prems(2) by (simp add: u64_simps u64_max_def)
    show ?thesis
    proof (cases "mr_pos r + boz_size b \<le> u")
      case le: True
      define r' where "r' = r\<lparr>mr_pos := mr_pos r + boz_size b, mr_idx := mr_idx r + 1\<rparr>"
      have "mr_ok r'" "mr_bytes r' = mr_bytes r" using less.prems(1,2) i B mr_before_Suc [OF i]
        by (auto simp: mr_ok_def r'_def mr_bytes_def mr_before_def b_def)
      moreover have "MultiReader_Seek_loop r u = MultiReader_Seek_loop r' u"
        using True i e le by (subst MultiReader_Seek_loop.simps) (simp add: r'_def b_def)
      ultimately show ?thesis using less.hyps [of r'] i less.prems(2,4) le by (simp add: r'_def)
    next
      case gt: False
      define r' where "r' = r\<lparr>mr_bufPos := u - mr_pos r, mr_pos := u\<rparr>"
      have s: "sub64 u (mr_pos r) = u - mr_pos r" using True less.prems(4) D(2) by (simp add: u64_simps u64_max_def)
      have "MultiReader_Seek_loop r u = MultiReader_Seek_loop r' u"
        using True i e gt s by (subst MultiReader_Seek_loop.simps) (simp add: r'_def b_def)
      moreover have "MultiReader_Seek_loop r' u = Some r'" by (subst MultiReader_Seek_loop.simps) (simp add: r'_def)
      moreover have "mr_ok r'" using less.prems(1,2,4) i B D gt True
        by (auto simp: mr_ok_def r'_def mr_bytes_def mr_before_def b_def)
      ultimately show ?thesis by (simp add: r'_def mr_bytes_def)
    qed
  qed
qed

lemma Add_bytes:
  assumes "mr_ok r" "length (mr_bytes r) + length buf < 2 ^ 63"
  shows "mr_bytes (AddBuffer r buf) = mr_bytes r @ buf" "mr_ok (AddBuffer r buf)"
    "mr_bytes (AddZero r (length buf)) = mr_bytes r @ replicate (length buf) 0" "mr_ok (AddZero r (length buf))"
proof -
  note D = mr_okD [OF assms(1)]
  show 1: "mr_bytes (AddBuffer r buf) = mr_bytes r @ buf"
    "mr_bytes (AddZero r (length buf)) = mr_bytes r @ replicate (length buf) 0"
    by (simp_all add: mr_bytes_def AddBuffer_def AddZero_def boz_bytes_def)
  have "add64 (mr_size r) (length buf) = length (mr_bytes r) + length buf" using D(1) assms(2) by (simp add: u64_simps u64_max_def)
  then show "mr_ok (AddBuffer r buf)" "mr_ok (AddZero r (length buf))"
    using assms 1 unfolding mr_ok_def
    by (auto simp: AddBuffer_def AddZero_def boz_bytes_def mr_before_def nth_append)
qed

section \<open>Properties\<close>

text \<open>
  (C20) A \<open>MultiReader\<close> is its list of bytes with a position: \<open>Read\<close> into a buffer of \<open>n\<close> bytes does
  not panic and returns exactly the next at most \<open>n\<close> bytes, advances the position by their
  number and reports the end of the stream only at its end.
\<close>

theorem MultiReader_Read_refines:
  assumes "mr_ok r" "n < u64_max"
  shows "\<exists>r' eof. MultiReader_Read r n = Some (r', take n (drop (mr_pos r) (mr_bytes r)), eof) \<and>
    mr_ok r' \<and> mr_bytes r' = mr_bytes r \<and> mr_pos r' = mr_pos r + min n (length (mr_bytes r) - mr_pos r) \<and>
    (eof \<longrightarrow> mr_pos r = length (mr_bytes r))"
proof (cases "mr_idx r < length (mr_buffers r)")
  case True
  with Read_loop_ok [OF assms, of "[]"] show ?thesis by (auto simp: MultiReader_Read_def)
next
  case False
  then have "mr_pos r = length (mr_bytes r)" using assms(1) by (auto simp: mr_ok_def mr_before_def mr_bytes_def)
  then show ?thesis using False assms(1) by (intro exI [of _ r] exI [of _ True]) (simp add: MultiReader_Read_def)
qed

lemma replicate_numeral_two: "replicate 2 x = [x, x]"
  by (simp add: numeral_2_eq_2)

definition demo_reader :: MultiReader where
  "demo_reader = AddZero (AddBuffer NewMultiReader [1, 2, 3]) 2"

lemma demo_reader_ok: "mr_ok demo_reader" "mr_bytes demo_reader = [1, 2, 3, 0, 0]" "mr_pos demo_reader = 0" "mr_size demo_reader = 5"
  by (simp_all add: demo_reader_def AddZero_def AddBuffer_def NewMultiReader_def mr_ok_def mr_bytes_def boz_bytes_def
      mr_before_def add64_def u64_max_def replicate_numeral_two)

theorem MultiReader_Read_refines_witness:
  "\<exists>r' eof. MultiReader_Read demo_reader 4 = Some (r', [1, 2, 3, 0], eof) \<and> mr_pos r' = 4"
  using MultiReader_Read_refines [OF demo_reader_ok(1), of 4] demo_reader_ok by (auto simp: u64_max_def)

definition seek_pos :: "MultiReader \<Rightarrow> int \<Rightarrow> whence \<Rightarrow> int" where
  "seek_pos r offset w =
     max 0 (min (offset + (case w of SeekStart \<Rightarrow> 0 | SeekCurrent \<Rightarrow> int (mr_pos r) | SeekEnd \<Rightarrow> int (length (mr_bytes r))))
       (int (length (mr_bytes r))))"

text \<open>
  \<open>Seek\<close> moves the position to the requested offset, relative to the start, the position or
  the end, cut to the bounds of the stream; it always ends and does not panic.
\<close>

theorem MultiReader_Seek_refines:
  assumes "mr_ok r" "- (2 ^ 62) \<le> offset" "offset < 2 ^ 62" "length (mr_bytes r) < 2 ^ 62"
  shows "\<exists>r'. MultiReader_Seek r offset w = Some (r', seek_pos r offset w) \<and> mr_ok r' \<and> mr_bytes r' = mr_bytes r \<and>
    int (mr_pos r') = seek_pos r offset w"
proof -
  define target where
    "target = offset + (case w of SeekStart \<Rightarrow> 0 | SeekCurrent \<Rightarrow> int (mr_pos r) | SeekEnd \<Rightarrow> int (length (mr_bytes r)))"
  define p where "p = max 0 (min target (int (length (mr_bytes r))))"
  have sp: "seek_pos r offset w = p" by (simp add: seek_pos_def p_def target_def)
  note D = mr_okD [OF assms(1)]
  let ?r = "r\<lparr>mr_idx := 0, mr_pos := 0, mr_bufPos := 0\<rparr>"
  have z: "mr_ok ?r" "mr_bytes ?r = mr_bytes r" using assms(1) by (auto simp: mr_ok_def mr_bytes_def mr_before_def)
  have p: "0 \<le> p" "nat p \<le> length (mr_bytes r)" by (auto simp: p_def)
  from Seek_loop_ok [OF z(1), of "nat p"] p z(2) obtain r' where r': "MultiReader_Seek_loop ?r (nat p) = Some r'" "mr_ok r'"
    "mr_bytes r' = mr_bytes r" "mr_pos r' = nat p" by auto
  have i: "i64 (int (mr_size r)) = int (length (mr_bytes r))" "i64 (int (mr_pos r)) = int (mr_pos r)"
    using D(1-3) by (simp_all add: i64_id)
  have t: "(case w of SeekEnd \<Rightarrow> i64 (offset + i64 (int (mr_size r))) | SeekCurrent \<Rightarrow> i64 (offset + i64 (int (mr_pos r))) | SeekStart \<Rightarrow> offset) = target"
    using assms(2-4) i D(3) by (cases w) (simp_all add: target_def)
  have q: "(if (if target > int (length (mr_bytes r)) then int (length (mr_bytes r)) else target) < 0 then 0
      else if target > int (length (mr_bytes r)) then int (length (mr_bytes r)) else target) = p"
    by (auto simp: p_def min_def max_def)
  have "i64 (int (nat p)) = p" using p D(2) by simp
  then have "MultiReader_Seek r offset w = Some (r', p)"
    unfolding MultiReader_Seek_def Let_def unfolding t unfolding i(1) q using r'(1,4) by simp
  then show ?thesis using r' p(1) by (simp add: sp)
qed

theorem MultiReader_Seek_refines_witness:
  "\<exists>r'. MultiReader_Seek demo_reader (- 2) SeekEnd = Some (r', 3) \<and> mr_pos r' = 3"
  using MultiReader_Seek_refines [OF demo_reader_ok(1), of "- 2" SeekEnd] demo_reader_ok(2,3)
  by (auto simp: seek_pos_def)

end
