(* ===== verification/Read_Ranges.thy ===== *)
theory Read_Ranges
  imports Buffer_List_Disk "HOL-Library.Multiset"
begin

text \<open>
  The ranges a read requests from the server (\<open>mergeRA\<close>, \<open>splitRA\<close> of
  \<open>core/buffer_list.go\<close>), the read-ahead heuristics of a file handle and the range locks
  that guard cached data against eviction (\<open>core/file.go\<close>).
\<close>

section \<open>Merging and splitting requests\<close>

text \<open>The slice is rewritten in place from the left; \<open>out\<close> holds the rewritten elements, the
  last one (\<open>rr[prev]\<close>) first.\<close>

fun mergeRA_loop :: "u64 \<Rightarrow> u64 \<Rightarrow> Range list \<Rightarrow> Range list \<Rightarrow> Range list" where
  "mergeRA_loop readAhead readMerge out [] = rev out"
| "mergeRA_loop readAhead readMerge out ((s, e) # rr) =
     (case out of
        (ps, pe) # out' \<Rightarrow>
          if add64 pe readMerge \<ge> s then mergeRA_loop readAhead readMerge ((ps, e) # out') rr
          else (let sz = sub64 e s; sz = (if sz < readAhead then readAhead else sz)
                in mergeRA_loop readAhead readMerge ((s, add64 s sz) # out) rr)
      | [] \<Rightarrow>
          (let sz = sub64 e s; sz = (if sz < readAhead then readAhead else sz)
           in mergeRA_loop readAhead readMerge ((s, add64 s sz) # out) rr))"

definition mergeRA :: "Range list \<Rightarrow> u64 \<Rightarrow> u64 \<Rightarrow> Range list" where
  "mergeRA rr readAhead readMerge =
     mergeRA_loop readAhead (if readMerge \<ge> readAhead then readMerge - readAhead else 0) [] rr"

text \<open>The loop over the chunks of one range; a loop that does not end is \<^const>\<open>None\<close>.\<close>

partial_function (option) splitRA_chunks :: "u64 \<Rightarrow> u64 \<Rightarrow> u64 \<Rightarrow> Range list option" where
  "splitRA_chunks maxPart off end =
     (if off < end then do {
        rest \<leftarrow> splitRA_chunks maxPart (add64 off maxPart) end;
        Some ((off, add64 off maxPart) # rest)
      }
      else Some [])"

declare splitRA_chunks.simps [code]

fun splitRA :: "Range list \<Rightarrow> u64 \<Rightarrow> Range list option" where
  "splitRA [] maxPart = Some []"
| "splitRA ((s, e) # rr) maxPart = do {
     res \<leftarrow> (if sub64 e s > maxPart then do {
               chunks \<leftarrow> splitRA_chunks maxPart s e;
               Some (if chunks = [] then [] else butlast chunks @ [(fst (last chunks), e)])
             }
             else Some [(s, e)]);
     rest \<leftarrow> splitRA rr maxPart;
     Some (res @ rest)
   }"

section \<open>Range locks\<close>

record ReadRange =
  rr_Offset :: u64
  rr_Size :: u64
  rr_Flushing :: bool

definition LockRange :: "u64 \<Rightarrow> u64 \<Rightarrow> bool \<Rightarrow> ReadRange list \<Rightarrow> ReadRange list" where
  "LockRange offset sz flushing readRanges =
     readRanges @ [\<lparr>rr_Offset = offset, rr_Size = sz, rr_Flushing = flushing\<rparr>]"

fun UnlockRange :: "u64 \<Rightarrow> u64 \<Rightarrow> bool \<Rightarrow> ReadRange list \<Rightarrow> ReadRange list" where
  "UnlockRange offset sz flushing [] = []"
| "UnlockRange offset sz flushing (v # vs) =
     (if rr_Offset v = offset \<and> rr_Size v = sz \<and> rr_Flushing v = flushing then vs
      else v # UnlockRange offset sz flushing vs)"

fun IsRangeLocked :: "u64 \<Rightarrow> u64 \<Rightarrow> bool \<Rightarrow> ReadRange list \<Rightarrow> bool" where
  "IsRangeLocked offset sz onlyFlushing [] = False"
| "IsRangeLocked offset sz onlyFlushing (r # rs) =
     (if rr_Offset r < add64 offset sz \<and> add64 (rr_Offset r) (rr_Size r) > offset \<and> (\<not> onlyFlushing \<or> rr_Flushing r)
      then True else IsRangeLocked offset sz onlyFlushing rs)"

section \<open>Read-ahead\<close>

record readFlags =
  ReadAheadKB :: u64
  LargeReadCutoffKB :: u64
  ReadAheadLargeKB :: u64
  SmallReadCutoffKB :: u64
  ReadAheadSmallKB :: u64
  ReadMergeKB :: u64
  ReadAheadParallelKB :: u64

text \<open>The part of a file handle that tracks reads.\<close>

record readTrack =
  lastReadEnd :: u64
  seqReadSize :: u64
  lastReadCount :: u64
  lastReadTotal :: u64
  lastReadSizes :: "u64 list"
  lastReadIdx :: nat

definition trackRead :: "readTrack \<Rightarrow> u64 \<Rightarrow> u64 \<Rightarrow> readTrack" where
  "trackRead fh offset sz =
     (let fh =
        (if sz = 0 then fh
         else if offset = lastReadEnd fh then fh\<lparr>seqReadSize := add64 (seqReadSize fh) sz\<rparr>
         else
           (let fh =
              (if length (lastReadSizes fh) > 0 then
                 (let fh = (if lastReadSizes fh ! lastReadIdx fh \<noteq> 0
                            then fh\<lparr>lastReadTotal := sub64 (lastReadTotal fh) (lastReadSizes fh ! lastReadIdx fh),
                                    lastReadCount := sub64 (lastReadCount fh) 1\<rparr>
                            else fh);
                      fh = fh\<lparr>lastReadSizes := (lastReadSizes fh)[lastReadIdx fh := seqReadSize fh]\<rparr>;
                      fh = fh\<lparr>lastReadTotal := add64 (lastReadTotal fh) (lastReadSizes fh ! lastReadIdx fh),
                              lastReadCount := add64 (lastReadCount fh) 1\<rparr>
                  in fh\<lparr>lastReadIdx := (lastReadIdx fh + 1) mod length (lastReadSizes fh)\<rparr>)
               else fh)
            in fh\<lparr>seqReadSize := sz\<rparr>))
      in fh\<lparr>lastReadEnd := add64 offset sz\<rparr>)"

text \<open>The division panics when the divisor wraps around to 0.\<close>

definition getReadAhead :: "readFlags \<Rightarrow> readTrack \<Rightarrow> u64 option" where
  "getReadAhead flags fh =
     (if seqReadSize fh \<ge> mul64 (LargeReadCutoffKB flags) 1024 then Some (mul64 (ReadAheadLargeKB flags) 1024)
      else if lastReadCount fh > 0 then
        (if add64 1 (lastReadCount fh) = 0 then None
         else let avg = add64 (seqReadSize fh) (lastReadTotal fh) div add64 1 (lastReadCount fh) in
           Some (if avg \<le> mul64 (SmallReadCutoffKB flags) 1024 then mul64 (ReadAheadSmallKB flags) 1024
                 else mul64 (ReadAheadKB flags) 1024))
      else Some (mul64 (ReadAheadKB flags) 1024))"

section \<open>Lemmas\<close>

lemma in_ranges_simps [simp]:
  "\<not> in_ranges [] x" "in_ranges ((a, b) # rs) x \<longleftrightarrow> a \<le> x \<and> x < b \<or> in_ranges rs x"
  "in_ranges (rs @ rs') x \<longleftrightarrow> in_ranges rs x \<or> in_ranges rs' x"
  by (auto simp: in_ranges_def)

text \<open>Ranges in ascending order that do not overlap, ending at most at \<open>hi\<close>.\<close>

fun ascending :: "u64 \<Rightarrow> Range list \<Rightarrow> u64 \<Rightarrow> bool" where
  "ascending lo [] hi \<longleftrightarrow> lo \<le> hi"
| "ascending lo ((s, e) # rr) hi \<longleftrightarrow> lo \<le> s \<and> s < e \<and> ascending e rr hi"

lemma ascending_mono: "ascending lo rr hi \<Longrightarrow> lo' \<le> lo \<Longrightarrow> ascending lo' rr hi"
  by (cases rr) auto

lemma ascending_le: "ascending lo rr hi \<Longrightarrow> lo \<le> hi"
  by (induction lo rr hi rule: ascending.induct) auto

definition ra_size :: "u64 \<Rightarrow> u64 \<Rightarrow> u64 \<Rightarrow> u64" where
  "ra_size ra s e = (let sz = sub64 e s in if sz < ra then ra else sz)"

lemma mergeRA_loop_Cons:
  "mergeRA_loop ra rm out ((s, e) # rr) =
     (if \<exists>ps pe out'. out = (ps, pe) # out' \<and> s \<le> add64 pe rm
      then mergeRA_loop ra rm ((fst (hd out), e) # tl out) rr
      else mergeRA_loop ra rm ((s, add64 s (ra_size ra s e)) # out) rr)"
  by (auto simp: ra_size_def Let_def split: list.splits)

declare mergeRA_loop.simps(2) [simp del]

lemma ra_size_le:
  assumes "s < e" "e \<le> hi" "hi + ra < u64_max"
  shows "add64 s (ra_size ra s e) = s + max ra (e - s)"
  using assms by (auto simp: ra_size_def Let_def u64_simps max_def)

lemma mergeRA_loop_covers:
  assumes "ascending lo rr hi" "hi + ra < u64_max" "\<forall>(s, e) \<in> set out. s \<le> lo"
    "x < lo \<and> in_ranges out x \<or> in_ranges rr x"
  shows "in_ranges (mergeRA_loop ra rm out rr) x"
  using assms
proof (induction rr arbitrary: lo out)
  case Nil
  then show ?case by (auto simp: in_ranges_def)
next
  case (Cons r rr)
  obtain s e where r: "r = (s, e)" by fastforce
  have se: "lo \<le> s" "s < e" "ascending e rr hi" "e \<le> hi" using Cons.prems(1) r ascending_le by auto
  show ?case
  proof (cases "\<exists>ps pe out'. out = (ps, pe) # out' \<and> s \<le> add64 pe rm")
    case True
    then obtain ps pe out' where o: "out = (ps, pe) # out'" by blast
    have "in_ranges (mergeRA_loop ra rm ((ps, e) # out') rr) x"
      by (rule Cons.IH [OF se(3) Cons.prems(2)]) (use Cons.prems(3,4) se r o in fastforce)+
    then show ?thesis using True o r by (simp add: mergeRA_loop_Cons)
  next
    case False
    have "in_ranges (mergeRA_loop ra rm ((s, add64 s (ra_size ra s e)) # out) rr) x"
      by (rule Cons.IH [OF se(3) Cons.prems(2)])
        (use Cons.prems(3,4) se r ra_size_le [OF se(2,4) Cons.prems(2)] in fastforce)+
    then show ?thesis using False r by (simp only: mergeRA_loop_Cons if_False)
  qed
qed

lemma mergeRA_covers:
  assumes "ascending lo rr hi" "hi + readAhead < u64_max" "in_ranges rr x"
  shows "in_ranges (mergeRA rr readAhead readMerge) x"
  using mergeRA_loop_covers [OF assms(1,2)] assms(3) by (simp add: mergeRA_def)

text \<open>Contiguous pieces.\<close>

fun pieces :: "u64 \<Rightarrow> Range list \<Rightarrow> u64 \<Rightarrow> bool" where
  "pieces lo [] hi \<longleftrightarrow> lo = hi"
| "pieces lo ((a, b) # cs) hi \<longleftrightarrow> a = lo \<and> a < b \<and> pieces b cs hi"

lemma pieces_ranges: "pieces lo cs hi \<Longrightarrow> lo \<le> hi \<and> (in_ranges cs x \<longleftrightarrow> lo \<le> x \<and> x < hi)"
  by (induction lo cs hi rule: pieces.induct) auto

lemma pieces_ascending: "pieces lo cs hi \<Longrightarrow> ascending hi rr h \<Longrightarrow> ascending lo (cs @ rr) h"
  by (induction lo cs hi rule: pieces.induct) auto

definition end_at :: "Range list \<Rightarrow> u64 \<Rightarrow> Range list" where
  "end_at cs e = (if cs = [] then [] else butlast cs @ [(fst (last cs), e)])"

lemma end_at_Cons: "end_at (c # cs) e = (if cs = [] then [(fst c, e)] else c # end_at cs e)"
  by (simp add: end_at_def)

lemma splitRA_chunks_ok:
  assumes "0 < mp" "hi + mp < u64_max" "off < hi"
  shows "\<exists>cs. splitRA_chunks mp off hi = Some cs \<and> cs \<noteq> [] \<and> pieces off (end_at cs hi) hi \<and>
    (\<forall>(a, b) \<in> set (end_at cs hi). b - a \<le> mp)"
  using assms(3)
proof (induction "hi - off" arbitrary: off rule: less_induct)
  case less
  have a: "add64 off mp = off + mp" using less.prems assms(2) by (simp add: u64_simps)
  show ?case
  proof (cases "off + mp < hi")
    case True
    then have "\<exists>cs. splitRA_chunks mp (off + mp) hi = Some cs \<and> cs \<noteq> [] \<and> pieces (off + mp) (end_at cs hi) hi \<and>
        (\<forall>(a, b) \<in> set (end_at cs hi). b - a \<le> mp)"
      by (intro less.hyps) (use less.prems assms(1) in auto)
    then obtain cs where cs: "splitRA_chunks mp (off + mp) hi = Some cs" "cs \<noteq> []"
      "pieces (off + mp) (end_at cs hi) hi" "\<forall>(a, b) \<in> set (end_at cs hi). b - a \<le> mp" by blast
    have "splitRA_chunks mp off hi = Some ((off, off + mp) # cs)" using less.prems a cs(1) by (subst splitRA_chunks.simps) simp
    then show ?thesis using cs assms(1) by (auto simp: end_at_Cons)
  next
    case False
    then have "splitRA_chunks mp (off + mp) hi = Some []" by (subst splitRA_chunks.simps) simp
    then have "splitRA_chunks mp off hi = Some [(off, off + mp)]" using less.prems a by (subst splitRA_chunks.simps) simp
    then show ?thesis using False less.prems by (auto simp: end_at_Cons)
  qed
qed

lemma splitRA_pieces:
  assumes "0 < maxPart" "ascending lo rr hi" "hi + maxPart < u64_max"
  shows "\<exists>res. splitRA rr maxPart = Some res \<and> (\<forall>x. in_ranges res x \<longleftrightarrow> in_ranges rr x) \<and>
    (\<forall>(a, b) \<in> set res. b - a \<le> maxPart) \<and> ascending lo res hi"
  using assms(2)
proof (induction rr arbitrary: lo)
  case (Cons r rr)
  obtain s e where r: "r = (s, e)" by fastforce
  have se: "lo \<le> s" "s < e" "ascending e rr hi" "e \<le> hi" using Cons.prems r ascending_le by auto
  have sub: "sub64 e s = e - s" using se assms(3) by (simp add: u64_simps)
  from Cons.IH [OF se(3)] obtain rest where rest: "splitRA rr maxPart = Some rest" "\<forall>x. in_ranges rest x \<longleftrightarrow> in_ranges rr x"
    "\<forall>(a, b) \<in> set rest. b - a \<le> maxPart" "ascending e rest hi" by blast
  obtain cs where cs: "splitRA (r # rr) maxPart = Some (cs @ rest)" "pieces s cs e" "\<forall>(a, b) \<in> set cs. b - a \<le> maxPart"
  proof (cases "e - s > maxPart")
    case True
    from splitRA_chunks_ok [OF assms(1) _ se(2)] se(4) assms(3) obtain ch where ch: "splitRA_chunks maxPart s e = Some ch"
      "ch \<noteq> []" "pieces s (end_at ch e) e" "\<forall>(a, b) \<in> set (end_at ch e). b - a \<le> maxPart" by auto
    have "splitRA (r # rr) maxPart = Some (end_at ch e @ rest)" using True sub r ch(1,2) rest(1) by (simp add: end_at_def)
    then show ?thesis using ch(3,4) by (rule that)
  next
    case False
    have "splitRA (r # rr) maxPart = Some ([(s, e)] @ rest)" using False sub r rest(1) by simp
    then show ?thesis by (rule that) (use False se in auto)
  qed
  have "ascending lo (cs @ rest) hi" using ascending_mono [OF pieces_ascending [OF cs(2) rest(4)] se(1)] .
  moreover have "in_ranges (cs @ rest) x \<longleftrightarrow> in_ranges (r # rr) x" for x
    using pieces_ranges [OF cs(2), of x] rest(2) r by simp
  ultimately show ?case using cs(1,3) rest(3) by (intro exI [of _ "cs @ rest"]) auto
qed simp

text \<open>With a limit of 0 the chunk loop of \<open>splitRA\<close> never ends.\<close>

lemma splitRA_chunks_0:
  assumes "off < hi" "hi < u64_max"
  shows "splitRA_chunks 0 off hi = None"
proof -
  have a: "add64 off 0 = off" using assms by (simp add: u64_simps)
  have "splitRA_chunks 0 off hi = do { rest \<leftarrow> splitRA_chunks 0 off hi; Some ((off, off) # rest) }"
    using assms(1) a by (subst splitRA_chunks.simps) simp
  then show ?thesis by (cases "splitRA_chunks 0 off hi") auto
qed

section \<open>Range locks\<close>

lemma IsRangeLocked_iff:
  "IsRangeLocked offset sz onlyFlushing rs \<longleftrightarrow>
     (\<exists>r \<in> set rs. rr_Offset r < add64 offset sz \<and> add64 (rr_Offset r) (rr_Size r) > offset \<and> (onlyFlushing \<longrightarrow> rr_Flushing r))"
  by (induction rs) auto

lemma UnlockRange_remove1:
  "UnlockRange off sz f rs = remove1 \<lparr>rr_Offset = off, rr_Size = sz, rr_Flushing = f\<rparr> rs"
  by (induction rs) auto

lemma Unlock_Lock: "mset (UnlockRange off sz f (LockRange off sz f rs)) = mset rs"
  by (simp add: UnlockRange_remove1 LockRange_def)

lemma IsRangeLocked_mset: "mset rs = mset rs' \<Longrightarrow> IsRangeLocked off sz f rs = IsRangeLocked off sz f rs'"
  unfolding IsRangeLocked_iff by (metis mset_eq_setD)

section \<open>Read tracking\<close>

text \<open>What the counters of a handle mean: the total and the number of the remembered sizes.\<close>

definition track_ok :: "readTrack \<Rightarrow> bool" where
  "track_ok fh \<longleftrightarrow> (lastReadSizes fh \<noteq> [] \<longrightarrow> lastReadIdx fh < length (lastReadSizes fh)) \<and>
     lastReadTotal fh = sum_list (lastReadSizes fh) mod u64_max \<and>
     (\<forall>x \<in> set (lastReadSizes fh). x < u64_max) \<and> seqReadSize fh < u64_max"

lemma sum_list_update_nat:
  fixes xs :: "nat list"
  assumes "i < length xs"
  shows "sum_list (xs[i := v]) + xs ! i = sum_list xs + v"
  using assms by (induction xs arbitrary: i) (auto split: nat.splits)

lemma sub64_mod:
  assumes "b \<le> a" "b < u64_max"
  shows "sub64 (a mod u64_max) b = (a - b) mod u64_max"
proof -
  have "sub64 (a mod u64_max) b = (a + (u64_max - b)) mod u64_max"
    using assms(2) mod_add_left_eq [of a u64_max "u64_max - b"] by (simp only: sub64_def mod_less)
  also have "a + (u64_max - b) = (a - b) + u64_max" using assms by simp
  finally show ?thesis by simp
qed

lemma add64_mod: "add64 (a mod u64_max) b = (a + b) mod u64_max"
  by (simp add: add64_def mod_add_left_eq)

lemma trackRead_total:
  assumes "i < length xs" "\<forall>x \<in> set xs. x < u64_max"
  shows "add64 (if xs ! i \<noteq> 0 then sub64 (sum_list xs mod u64_max) (xs ! i) else sum_list xs mod u64_max) v =
    sum_list (xs[i := v]) mod u64_max"
proof -
  have "xs ! i \<le> sum_list xs" using assms(1) by (simp add: elem_le_sum_list)
  moreover have "xs ! i < u64_max" using assms nth_mem by blast
  moreover have "sum_list (xs[i := v]) = sum_list xs - xs ! i + v"
    using sum_list_update_nat [OF assms(1), of v] calculation(1) by linarith
  ultimately show ?thesis by (simp add: sub64_mod add64_mod)
qed

lemma trackRead_ok:
  assumes ok: "track_ok fh" and sz: "sz < u64_max"
  shows "track_ok (trackRead fh off sz)"
proof (cases "sz = 0 \<or> off = lastReadEnd fh \<or> lastReadSizes fh = []")
  case True
  then show ?thesis using ok sz by (auto simp: trackRead_def Let_def track_ok_def)
next
  case False
  let ?i = "lastReadIdx fh" and ?xs = "lastReadSizes fh"
  have i: "?i < length ?xs" "\<forall>x \<in> set ?xs. x < u64_max" and f: "lastReadTotal fh = sum_list ?xs mod u64_max"
    "seqReadSize fh < u64_max" using ok False by (auto simp: track_ok_def)
  have t: "lastReadTotal (trackRead fh off sz) = sum_list (?xs[?i := seqReadSize fh]) mod u64_max"
    using False i f(1) trackRead_total [OF i, of "seqReadSize fh"] by (simp add: trackRead_def Let_def split: if_splits)
  have x: "lastReadSizes (trackRead fh off sz) = ?xs[?i := seqReadSize fh]"
    "lastReadIdx (trackRead fh off sz) = Suc ?i mod length ?xs" "seqReadSize (trackRead fh off sz) = sz"
    using False by (simp_all add: trackRead_def Let_def)
  have "\<forall>v \<in> set (?xs[?i := seqReadSize fh]). v < u64_max"
    using i(2) f(2) set_update_subset_insert [of ?xs ?i "seqReadSize fh"] by blast
  then show ?thesis using False t x sz i(1) by (auto simp: track_ok_def)
qed

end
