(* ===== verification/Backend.thy ===== *)
theory Backend
  imports Go_Prelude
begin

text \<open>
  The interface of the object store (\<open>core/backend.go\<close>): the requests and responses the file
  system exchanges with a \<open>StorageBackend\<close>, its error values, their translation to errno
  (\<open>mapHttpError\<close>, \<open>mapAwsError\<close> of \<open>core/goofys.go\<close>, \<open>shouldRetry\<close> of \<open>core/backend_s3.go\<close>) and
  the retry loop \<open>ReadBackoff\<close>.  The store itself is code outside the repository: every operation
  that talks to it takes its answer as an argument.  A pointer to a string that may be nil is an
  option; \<open>Key\<close> and \<open>Prefix\<close> of a response are never nil.  A \<open>time.Time\<close> is a number of
  nanoseconds since the Unix epoch.
\<close>

type_synonym gotime = int

definition time_zero :: gotime where
  "time_zero = - 62135596800 * 10 ^ 9"

definition Unix :: "gotime \<Rightarrow> int" where
  "Unix t = t div 10 ^ 9"

section \<open>Requests and responses\<close>

record Capabilities =
  MaxMultipartSize :: u64
  DirBlob :: bool
  CapName :: string

record BlobItemOutput =
  Key :: string
  ETag :: "string option"
  LastModified :: "gotime option"
  ItemSize :: u64
  StorageClass :: "string option"
  ItemMetadata :: "(string \<times> string) list option"

record ListBlobsInput =
  InPrefix :: "string option"
  Delimiter :: "string option"
  MaxKeys :: "nat option"
  StartAfter :: "string option"

record ListBlobsOutput =
  Prefixes :: "string list"
  Items :: "BlobItemOutput list"
  IsTruncated :: bool

section \<open>Errors\<close>

datatype errno = ENOENT | EINVAL | EACCES | ENOTSUP | EINTR | ERANGE | EAGAIN | ENXIO | EEXIST | EBUSY
  | ENOTDIR | EISDIR | ENOTEMPTY | ESTALE | EIO | EFBIG | ENODATA | EPERM | ENOSYS | ENOMEM | ESPIPE

text \<open>
  An error is an errno, an error of the AWS SDK with its code, a failed request of the SDK with its
  code and its HTTP status, or an error of another kind.
\<close>

datatype error = Errno errno | AwsError string | RequestFailure string nat | OtherError string

definition mapHttpError :: "nat \<Rightarrow> errno option" where
  "mapHttpError status =
     (if status = 400 then Some EINVAL
      else if status = 401 then Some EACCES
      else if status = 403 then Some EACCES
      else if status = 404 then Some ENOENT
      else if status = 405 then Some ENOTSUP
      else if status = 409 then Some EINTR
      else if status = 416 then Some ERANGE
      else if status = 429 then Some EAGAIN
      else if status = 503 then Some EAGAIN
      else if status = 500 then Some EAGAIN
      else None)"

definition awsCode :: "error \<Rightarrow> string \<Rightarrow> error option" where
  "awsCode err code =
     (if code = ''BucketRegionError'' then Some err
      else if code = ''NoSuchBucket'' then Some (Errno ENXIO)
      else if code = ''BucketAlreadyOwnedByYou'' then Some (Errno EEXIST)
      else if code = ''ConcurrentUpdatesPatchConflict'' \<or> code = ''ObjectVersionPatchConflict'' then Some (Errno EBUSY)
      else None)"

fun mapAwsError1 :: "error \<Rightarrow> error" where
  "mapAwsError1 (AwsError code) =
     (case awsCode (AwsError code) code of Some e \<Rightarrow> e | None \<Rightarrow> AwsError code)"
| "mapAwsError1 (RequestFailure code status) =
     (case awsCode (RequestFailure code status) code of Some e \<Rightarrow> e
      | None \<Rightarrow> (case mapHttpError status of Some e \<Rightarrow> Errno e | None \<Rightarrow> RequestFailure code status))"
| "mapAwsError1 err = err"

definition mapAwsError :: "error option \<Rightarrow> error option" where
  "mapAwsError err = map_option mapAwsError1 err"

definition shouldRetry :: "error option \<Rightarrow> bool" where
  "shouldRetry err0 =
     (let err = mapAwsError err0 in
      err \<noteq> Some (Errno ENOENT) \<and> err \<noteq> Some (Errno EINVAL) \<and>
      err \<noteq> Some (Errno EACCES) \<and> err \<noteq> Some (Errno ENOTSUP) \<and> err \<noteq> Some (Errno ERANGE))"

section \<open>Retries\<close>

text \<open>
  \<open>ReadBackoff\<close>: \<open>try\<close> is the attempt, \<open>mul\<close> the floating-point product of the interval with
  \<open>ReadRetryMultiplier\<close>.  The result is the final error and the list of the sleeps; \<^const>\<open>None\<close>
  is a loop that does not end.
\<close>

record retryFlags =
  ReadRetryInterval :: int
  ReadRetryMax :: int
  ReadRetryAttempts :: int

partial_function (option) ReadBackoff_loop ::
  "retryFlags \<Rightarrow> (int \<Rightarrow> int) \<Rightarrow> (nat \<Rightarrow> error option) \<Rightarrow> int \<Rightarrow> nat \<Rightarrow> int list \<Rightarrow> (error option \<times> nat \<times> int list) option" where
  "ReadBackoff_loop flags mul try interval attempt sleeps =
     (let err = try attempt in
      if err \<noteq> None \<and> shouldRetry err \<and>
         (ReadRetryAttempts flags < 1 \<or> int attempt < ReadRetryAttempts flags)
      then let i = mul interval in
           ReadBackoff_loop flags mul try (if i > ReadRetryMax flags then ReadRetryMax flags else i)
             (Suc attempt) (sleeps @ [interval])
      else Some (err, attempt, sleeps))"

definition ReadBackoff :: "retryFlags \<Rightarrow> (int \<Rightarrow> int) \<Rightarrow> (nat \<Rightarrow> error option) \<Rightarrow> (error option \<times> nat \<times> int list) option" where
  "ReadBackoff flags mul try = ReadBackoff_loop flags mul try (ReadRetryInterval flags) 1 []"

text \<open>The attempt is the last one: it succeeded, its error is final, or the attempts are used up.\<close>

definition last_try :: "retryFlags \<Rightarrow> (nat \<Rightarrow> error option) \<Rightarrow> nat \<Rightarrow> bool" where
  "last_try flags try n \<longleftrightarrow>
     try n = None \<or> \<not> shouldRetry (try n) \<or> 1 \<le> ReadRetryAttempts flags \<and> ReadRetryAttempts flags \<le> int n"

lemma ReadBackoff_loop_returns:
  assumes "\<And>k. attempt \<le> k \<Longrightarrow> k < attempt + d \<Longrightarrow> \<not> last_try flags try k"
      and "last_try flags try (attempt + d)"
  shows "\<exists>ss. ReadBackoff_loop flags mul try interval attempt sleeps =
      Some (try (attempt + d), attempt + d, sleeps @ ss) \<and> length ss = d \<and>
      (\<forall>s \<in> set (tl ss). s \<le> ReadRetryMax flags)
      \<and> (ss \<noteq> [] \<longrightarrow> hd ss = interval)"
  using assms
proof (induction d arbitrary: attempt interval sleeps)
  case 0
  then show ?case
    by (subst ReadBackoff_loop.simps) (auto simp: last_try_def Let_def)
next
  case (Suc d)
  let ?i = "if mul interval > ReadRetryMax flags then ReadRetryMax flags else mul interval"
  have nl: "\<not> last_try flags try attempt" using Suc.prems(1) [of attempt] by simp
  have later: "\<not> last_try flags try k" if "Suc attempt \<le> k" "k < Suc attempt + d" for k
    using Suc.prems(1) [of k] that by simp
  have end': "last_try flags try (Suc attempt + d)" using Suc.prems(2) by simp
  from Suc.IH [OF later end', of ?i "sleeps @ [interval]"] obtain ss where
    ss: "ReadBackoff_loop flags mul try ?i (Suc attempt) (sleeps @ [interval]) =
      Some (try (Suc attempt + d), Suc attempt + d, (sleeps @ [interval]) @ ss)"
      "length ss = d" "\<forall>s \<in> set (tl ss). s \<le> ReadRetryMax flags" "ss \<noteq> [] \<longrightarrow> hd ss = ?i" by blast
  have "ReadBackoff_loop flags mul try interval attempt sleeps =
      ReadBackoff_loop flags mul try ?i (Suc attempt) (sleeps @ [interval])"
    using nl by (subst ReadBackoff_loop.simps) (auto simp: last_try_def Let_def)
  moreover have "\<forall>s \<in> set ss. s \<le> ReadRetryMax flags" using ss(3,4) by (cases ss) auto
  ultimately show ?case using ss by (intro exI [of _ "interval # ss"]) auto
qed

text \<open>
  (C19) With a positive number of attempts the retry loop of the reads returns, whatever the store
  answers.  It makes between one attempt and \<open>ReadRetryAttempts\<close> of them, returns the answer of the
  last one, stops at the first attempt that succeeds or fails with an error that is not worth a
  retry, sleeps once between two attempts, and no sleep after the first is longer than
  \<open>ReadRetryMax\<close>.
\<close>
theorem ReadBackoff_bounded:
  assumes "1 \<le> ReadRetryAttempts flags"
  shows "\<exists>n ss. ReadBackoff flags mul try = Some (try n, n, ss) \<and>
    1 \<le> n \<and> int n \<le> ReadRetryAttempts flags \<and> length ss = n - 1 \<and>
    (\<forall>s \<in> set (tl ss). s \<le> ReadRetryMax flags) \<and>
    (\<forall>k. 1 \<le> k \<and> k < n \<longrightarrow> try k \<noteq> None \<and> shouldRetry (try k)) \<and>
    (try n = None \<or> \<not> shouldRetry (try n) \<or> int n = ReadRetryAttempts flags)"
proof -
  let ?P = "\<lambda>d. last_try flags try (1 + d)"
  have ex: "?P (nat (ReadRetryAttempts flags) - 1)" using assms by (simp add: last_try_def)
  define d where "d = (LEAST d. ?P d)"
  have d: "?P d" "\<And>k. k < d \<Longrightarrow> \<not> ?P k" "d \<le> nat (ReadRetryAttempts flags) - 1"
    unfolding d_def by (rule LeastI [of ?P, OF ex]) (fact not_less_Least, fact Least_le [of ?P, OF ex])
  have before: "\<not> last_try flags try k" if "1 \<le> k" "k < 1 + d" for k
    using d(2) [of "k - 1"] that by (simp add: less_diff_conv2)
  obtain ss where ss: "ReadBackoff flags mul try = Some (try (1 + d), 1 + d, ss)" "length ss = d"
      "\<forall>s \<in> set (tl ss). s \<le> ReadRetryMax flags"
    using ReadBackoff_loop_returns [OF before d(1), of mul "ReadRetryInterval flags" "[]"]
    by (auto simp: ReadBackoff_def)
  have le: "int (1 + d) \<le> ReadRetryAttempts flags" using d(3) assms by linarith
  have "\<forall>k. 1 \<le> k \<and> k < 1 + d \<longrightarrow> try k \<noteq> None \<and> shouldRetry (try k)"
    using before by (auto simp: last_try_def)
  moreover have "try (1 + d) = None \<or> \<not> shouldRetry (try (1 + d)) \<or> int (1 + d) = ReadRetryAttempts flags"
    using d(1) le by (auto simp: last_try_def)
  ultimately show ?thesis using ss le by (intro exI [of _ "1 + d"] exI [of _ ss]) auto
qed

theorem ReadBackoff_bounded_witness:
  "\<exists>n ss. ReadBackoff \<lparr>ReadRetryInterval = 10, ReadRetryMax = 15, ReadRetryAttempts = 3\<rparr> (\<lambda>i. 2 * i)
      (\<lambda>n. if n < 3 then Some (RequestFailure ''SlowDown'' 503) else None) = Some (None, n, ss)
      \<and> n \<le> 3"
proof -
  let ?f = "\<lparr>ReadRetryInterval = 10, ReadRetryMax = 15, ReadRetryAttempts = 3\<rparr> :: retryFlags"
  let ?t = "\<lambda>n::nat. if n < 3 then Some (RequestFailure ''SlowDown'' 503) else None"
  have r: "shouldRetry (Some (RequestFailure ''SlowDown'' 503))"
    by (simp add: shouldRetry_def mapAwsError_def awsCode_def mapHttpError_def)
  obtain n ss where n: "ReadBackoff ?f (\<lambda>i. 2 * i) ?t = Some (?t n, n, ss)" "int n \<le> 3"
      "?t n = None \<or> \<not> shouldRetry (?t n) \<or> int n = 3"
    using ReadBackoff_bounded [of ?f "\<lambda>i. 2 * i" ?t] by auto
  then have "n = 3" using r by (auto split: if_splits)
  with n show ?thesis by auto
qed

end
