(* ===== verification/Names.thy ===== *)
theory Names
  imports Backend
begin

text \<open>
  Names and keys (\<open>core/dir.go\<close>): which keys of the bucket can be files (\<open>isInvalidName\<close>), how a
  key is put together (\<open>appendChildName\<close>), and how a page of a listing is cut so that directories
  can be served in the order of their names although the store sorts \<open>x/\<close> after \<open>x-y\<close>
  (\<open>locateLtSlash\<close>, \<open>maxName\<close>, \<open>prefixLarger\<close>, \<open>intelligentListCut\<close>).
\<close>

section \<open>Strings of the standard library\<close>

text \<open>\<open>strings.Index(s, sub)\<close>; \<^const>\<open>None\<close> is \<open>-1\<close>.\<close>

fun go_index :: "string \<Rightarrow> string \<Rightarrow> nat option" where
  "go_index sub [] = (if sub = [] then Some 0 else None)"
| "go_index sub (x # xs) = (if prefix sub (x # xs) then Some 0 else map_option Suc (go_index sub xs))"

definition contains :: "string \<Rightarrow> string \<Rightarrow> bool" where
  "contains sub s \<longleftrightarrow> go_index sub s \<noteq> None"

lemma contains_simps [simp]:
  "contains sub [] \<longleftrightarrow> sub = []"
  "contains sub (x # xs) \<longleftrightarrow> prefix sub (x # xs) \<or> contains sub xs"
  by (auto simp: contains_def)

lemma go_index_slash:
  "go_index [c] s = Some i \<longleftrightarrow> i < length s \<and> s ! i = c \<and> c \<notin> set (take i s)"
proof (induction s arbitrary: i)
  case (Cons x xs)
  then show ?case by (cases i) auto
qed simp

lemma go_index_None: "go_index [c] s = None \<longleftrightarrow> c \<notin> set s"
  by (induction s) auto

section \<open>Names\<close>

definition appendChildName :: "string \<Rightarrow> string \<Rightarrow> string" where
  "appendChildName parent child = (if length parent \<noteq> 0 then parent @ ''/'' else parent) @ child"

definition isInvalidName :: "string \<Rightarrow> bool" where
  "isInvalidName name \<longleftrightarrow>
     name = [] \<or> name ! 0 = CHR ''/'' \<or>
     2 \<le> length name \<and> (take 2 name = ''./'' \<or> drop (length name - 2) name = ''/.'') \<or>
     3 \<le> length name \<and> (take 3 name = ''../'' \<or> drop (length name - 3) name = ''/..'') \<or>
     go_index ''//'' name \<noteq> None \<or>
     go_index ''/./'' name \<noteq> None \<or>
     go_index ''/../'' name \<noteq> None"

text \<open>A name put together from its components.\<close>

fun join_path :: "string list \<Rightarrow> string" where
  "join_path [] = []"
| "join_path [c] = c"
| "join_path (c # d # ds) = c @ CHR ''/'' # join_path (d # ds)"

lemma join_path_split: "join_path (go_split (CHR ''/'') s) = s"
proof (induction s)
  case (Cons x xs)
  then show ?case
    by (cases "go_split (CHR ''/'') xs"; cases "tl (go_split (CHR ''/'') xs)") auto
qed simp

lemma go_split_free: "c \<in> set (go_split s x) \<Longrightarrow> s \<notin> set c"
proof (induction x arbitrary: c)
  case (Cons y ys)
  then show ?case by (auto split: if_splits list.splits)
qed simp

lemma contains_free:
  "CHR ''/'' \<notin> set c \<Longrightarrow> contains (CHR ''/'' # sub) (c @ r) = contains (CHR ''/'' # sub) r"
  by (induction c) auto

lemma prefix_component:
  assumes "CHR ''/'' \<notin> set x" "CHR ''/'' \<notin> set d"
  shows "prefix (x @ ''/'') (join_path (d # ds)) \<longleftrightarrow> x = d \<and> ds \<noteq> []"
proof -
  have app: "prefix (x @ ''/'') (d @ CHR ''/'' # r) \<longleftrightarrow> x = d" for r
    using assms by (induction x arbitrary: d) (auto simp: prefix_Cons split: list.splits | case_tac d)+
  show ?thesis
  proof (cases ds)
    case Nil
    have "\<not> prefix (x @ ''/'') d" using assms(2) by (auto simp: prefix_def)
    with Nil show ?thesis by simp
  next
    case (Cons e es)
    with app show ?thesis by simp
  qed
qed

lemma contains_component:
  assumes "CHR ''/'' \<notin> set x" "\<forall>c \<in> set (d # ds). CHR ''/'' \<notin> set c"
  shows "contains (CHR ''/'' # x @ ''/'') (join_path (d # ds)) \<longleftrightarrow> x \<in> set (butlast ds)"
  using assms(2)
proof (induction ds arbitrary: d)
  case Nil
  then show ?case using contains_free [of d "x @ ''/''" "[]"] by simp
next
  case (Cons e es)
  have d: "CHR ''/'' \<notin> set d" and e: "CHR ''/'' \<notin> set e" and IH: "contains (CHR ''/'' # x @ ''/'') (join_path (e # es)) \<longleftrightarrow> x \<in> set (butlast es)"
    using Cons by auto
  have "contains (CHR ''/'' # x @ ''/'') (join_path (d # e # es)) \<longleftrightarrow>
      prefix (x @ ''/'') (join_path (e # es)) \<or> contains (CHR ''/'' # x @ ''/'') (join_path (e # es))"
    by (simp add: contains_free [OF d])
  also have "\<dots> \<longleftrightarrow> x = e \<and> es \<noteq> [] \<or> x \<in> set (butlast es)"
    by (simp add: prefix_component [OF assms(1) e] IH)
  finally show ?case by auto
qed

lemma join_path_snoc: "ds \<noteq> [] \<Longrightarrow> join_path (d # ds) = join_path (butlast (d # ds)) @ CHR ''/'' # List.last ds"
proof (induction ds arbitrary: d)
  case (Cons e es)
  then show ?case by (cases es) auto
qed simp

lemma suffix_component:
  assumes "c \<notin> set x" "c \<notin> set l"
  shows "suffix (c # x) (p @ c # l) \<longleftrightarrow> x = l"
proof
  assume "suffix (c # x) (p @ c # l)"
  then obtain q where q: "p @ c # l = q @ c # x" by (auto simp: suffix_def)
  show "x = l"
  proof (rule ccontr)
    assume "x \<noteq> l"
    with q have "p \<noteq> q" by auto
    with q obtain us where "p = q @ us \<and> us @ c # l = c # x \<and> us \<noteq> [] \<or> p @ us = q \<and> c # l = us @ c # x \<and> us \<noteq> []"
      by (auto simp: append_eq_append_conv2)
    with assms show False by (auto simp: Cons_eq_append_conv append_eq_Cons_conv)
  qed
qed (simp add: suffix_def)

lemma suffix_last:
  assumes "CHR ''/'' \<notin> set x" "\<forall>c \<in> set (d # ds). CHR ''/'' \<notin> set c"
  shows "suffix (CHR ''/'' # x) (join_path (d # ds)) \<longleftrightarrow> ds \<noteq> [] \<and> List.last ds = x"
proof (cases "ds = []")
  case True
  with assms(2) show ?thesis by (auto simp: suffix_def)
next
  case False
  then have "CHR ''/'' \<notin> set (List.last ds)" using assms(2) by simp
  with False assms(1) show ?thesis by (auto simp: join_path_snoc suffix_component)
qed

lemma take_prefix: "length p \<le> length s \<and> take (length p) s = p \<longleftrightarrow> prefix p s"
  by (metis append_take_drop_id prefix_def prefix_length_le append_eq_conv_conj)

lemma drop_suffix: "length p \<le> length s \<and> drop (length s - length p) s = p \<longleftrightarrow> suffix p s"
  by (auto simp: suffix_def intro: append_take_drop_id [symmetric]) (metis append_take_drop_id)

lemma isInvalidName_parts:
  "isInvalidName name \<longleftrightarrow> name = [] \<or> prefix ''/'' name \<or> prefix ''./'' name \<or> suffix ''/.'' name \<or>
     prefix ''../'' name \<or> suffix ''/..'' name \<or> contains ''//'' name \<or> contains ''/./'' name \<or> contains ''/../'' name"
proof -
  have "name \<noteq> [] \<Longrightarrow> name ! 0 = CHR ''/'' \<longleftrightarrow> prefix ''/'' name" by (cases name) auto
  moreover have "2 \<le> length name \<and> take 2 name = ''./'' \<longleftrightarrow> prefix ''./'' name"
    "3 \<le> length name \<and> take 3 name = ''../'' \<longleftrightarrow> prefix ''../'' name"
    "2 \<le> length name \<and> drop (length name - 2) name = ''/.'' \<longleftrightarrow> suffix ''/.'' name"
    "3 \<le> length name \<and> drop (length name - 3) name = ''/..'' \<longleftrightarrow> suffix ''/..'' name"
    using take_prefix [of "''./''" name] take_prefix [of "''../''" name]
      drop_suffix [of "''/.''" name] drop_suffix [of "''/..''" name]
    by (simp_all only: list.size add_0 add_Suc One_nat_def numeral_2_eq_2 numeral_3_eq_3)
  ultimately show ?thesis unfolding isInvalidName_def contains_def by blast
qed

text \<open>
  The keys that \<open>isInvalidName\<close> rejects are the empty one and those with a component that
  cannot be the name of a file: split at the slashes, a component before the last one is empty,
  \<open>.\<close> or \<open>..\<close>, or the last one is \<open>.\<close> or \<open>..\<close> and not the only one.  A trailing slash (the key of
  a directory object) is accepted, and so are the one-component keys \<open>.\<close> and \<open>..\<close>.
\<close>
theorem isInvalidName_iff:
  "isInvalidName name \<longleftrightarrow> name = [] \<or>
     (let cs = go_split (CHR ''/'') name in
      2 \<le> length cs \<and>
      ((\<exists>c. c \<in> set (butlast cs) \<and> (c = [] \<or> c = ''.'' \<or> c = ''..'')) \<or> List.last cs = ''.'' \<or> List.last cs = ''..''))"
proof (cases "go_split (CHR ''/'') name")
  case (Cons d ds)
  have free: "\<forall>c \<in> set (d # ds). CHR ''/'' \<notin> set c" using go_split_free [of _ "CHR ''/''" name] Cons by auto
  have name: "name = join_path (d # ds)" using join_path_split [of name] Cons by simp
  have pre: "prefix (x @ ''/'') name \<longleftrightarrow> x = d \<and> ds \<noteq> []" if "CHR ''/'' \<notin> set x" for x
    unfolding name using prefix_component [OF that, of d ds] free by simp
  have suf: "suffix (CHR ''/'' # x) name \<longleftrightarrow> ds \<noteq> [] \<and> List.last ds = x" if "CHR ''/'' \<notin> set x" for x
    unfolding name by (rule suffix_last [OF that free])
  have con: "contains (CHR ''/'' # x @ ''/'') name \<longleftrightarrow> x \<in> set (butlast ds)" if "CHR ''/'' \<notin> set x" for x
    unfolding name by (rule contains_component [OF that free])
  have "prefix ''/'' name \<longleftrightarrow> d = [] \<and> ds \<noteq> []" "prefix ''./'' name \<longleftrightarrow> d = ''.'' \<and> ds \<noteq> []"
    "prefix ''../'' name \<longleftrightarrow> d = ''..'' \<and> ds \<noteq> []"
    using pre [of "[]"] pre [of "''.''"] pre [of "''..''"] by auto
  moreover have "suffix ''/.'' name \<longleftrightarrow> ds \<noteq> [] \<and> List.last ds = ''.''"
    "suffix ''/..'' name \<longleftrightarrow> ds \<noteq> [] \<and> List.last ds = ''..''"
    using suf [of "''.''"] suf [of "''..''"] by auto
  moreover have "contains ''//'' name \<longleftrightarrow> [] \<in> set (butlast ds)" "contains ''/./'' name \<longleftrightarrow> ''.'' \<in> set (butlast ds)"
    "contains ''/../'' name \<longleftrightarrow> ''..'' \<in> set (butlast ds)"
    using con [of "[]"] con [of "''.''"] con [of "''..''"] by auto
  moreover have "2 \<le> length (d # ds) \<longleftrightarrow> ds \<noteq> []" by (cases ds) auto
  moreover have "ds \<noteq> [] \<Longrightarrow> set (butlast (d # ds)) = insert d (set (butlast ds))"
    "ds \<noteq> [] \<Longrightarrow> List.last (d # ds) = List.last ds" "ds = [] \<Longrightarrow> set (butlast ds) = {}" by auto
  ultimately show ?thesis unfolding isInvalidName_parts Cons Let_def
    by (cases "ds = []") (simp_all only: simp_thms insert_iff empty_iff not_False_eq_True, blast)
qed (use go_split_nonempty in blast)

end
