(* ===== verification/List_Cut.thy ===== *)
theory List_Cut
  imports Names
begin

text \<open>
  Cutting a page of a listing (\<open>core/dir.go\<close>).  The store returns a directory \<open>2019\<close> as the
  prefix \<open>2019/\<close>, which it sorts after \<open>2019-0001\<close>, while directories are served in the order of
  the names.  \<open>intelligentListCut\<close> drops the end of a truncated page so that no entry of a later
  page has a name that sorts before a name already served.
\<close>

text \<open>The loop of \<open>locateLtSlash\<close> over the rest of the string from position \<open>i\<close>.\<close>

fun locate_from :: "nat \<Rightarrow> string \<Rightarrow> nat option" where
  "locate_from i [] = None"
| "locate_from i (x # xs) = (if x < CHR ''/'' then Some i else locate_from (Suc i) xs)"

definition locateLtSlash :: "string \<Rightarrow> nat \<Rightarrow> nat option" where
  "locateLtSlash inp prefixLen =
     (let i = prefixLen + length (takeWhile (\<lambda>c. c = CHR ''/'') (drop prefixLen inp)) + 1 in
      locate_from i (drop i inp))"

definition maxName :: "ListBlobsOutput \<Rightarrow> nat \<Rightarrow> nat \<Rightarrow> string \<times> nat" where
  "maxName resp itemPos prefixPos =
     (if 0 < itemPos \<and> (prefixPos = 0 \<or> Prefixes resp ! (prefixPos - 1) < Key (Items resp ! (itemPos - 1)))
      then (Key (Items resp ! (itemPos - 1)), 0)
      else if prefixPos = 0 then ([], 0)
      else (Prefixes resp ! (prefixPos - 1), 1))"

definition prefixLarger :: "string \<Rightarrow> string \<Rightarrow> nat \<Rightarrow> bool" where
  "prefixLarger s1 s2 pos =
     (if length s2 > pos \<and> take pos s1 < take pos s2 \<or> length s2 \<le> pos \<and> take pos s1 < s2 then True
      else if length s2 \<ge> pos + 1 \<and> take pos s1 = take pos s2 \<and> s2 ! pos > CHR ''/'' then True
      else False)"

text \<open>
  The loop over the end of the page.  \<open>isPrefix\<close> is the kind of the entry that \<open>maxName\<close> named
  last, which is the last entry before the two positions.
\<close>

function cut_loop :: "ListBlobsOutput \<Rightarrow> nat \<Rightarrow> nat \<Rightarrow> nat \<Rightarrow> nat \<Rightarrow> string \<Rightarrow> bool \<times> nat \<times> nat \<times> string" where
  "cut_loop resp plen half itemPos prefixPos name =
     (if itemPos + prefixPos > half then
        (let isPrefix = snd (maxName resp itemPos prefixPos);
             prefixPos' = prefixPos - isPrefix;
             itemPos' = itemPos - (1 - isPrefix);
             prev = fst (maxName resp itemPos' prefixPos')
         in if (case locateLtSlash prev plen of None \<Rightarrow> True | Some ltPos \<Rightarrow> prefixLarger prev name ltPos)
            then (True, itemPos', prefixPos', prev)
            else cut_loop resp plen half itemPos' prefixPos' prev)
      else (False, itemPos, prefixPos, name))"
  by pat_completeness auto
termination
  by (relation "measure (\<lambda>(resp, plen, half, i, p, name). i + p)")
    (auto simp: maxName_def split: if_splits)

declare cut_loop.simps [simp del]

text \<open>\<open>.\<close> followed by U+FFFD, the key suffix after which only keys from \<open>/\<close> on follow.\<close>

definition before_slash :: string where
  "before_slash = [CHR ''.'', CHR 0xEF, CHR 0xBF, CHR 0xBD]"

text \<open>\<open>list\<close> is the answer of the store to the additional request.\<close>

definition intelligentListCut :: "ListBlobsOutput \<Rightarrow> (ListBlobsInput \<Rightarrow> error + ListBlobsOutput) \<Rightarrow> string \<Rightarrow>
    error + (ListBlobsOutput \<times> string)" where
  "intelligentListCut resp list pfx =
     (if \<not> IsTruncated resp then Inr (resp, [])
      else
        let itemPos = length (Items resp); prefixPos = length (Prefixes resp);
            count = itemPos + prefixPos;
            lastName = fst (maxName resp itemPos prefixPos)
        in case locateLtSlash lastName (length pfx) of
             None \<Rightarrow> Inr (resp, lastName)
           | Some lastLtPos \<Rightarrow>
               (case cut_loop resp (length pfx) (count div 2) itemPos prefixPos lastName of
                  (ok, itemPos', prefixPos', prev) \<Rightarrow>
                    if ok then
                      Inr (resp\<lparr>Items := take itemPos' (Items resp), Prefixes := take prefixPos' (Prefixes resp)\<rparr>, prev)
                    else
                      (case list \<lparr>InPrefix = None, Delimiter = None, MaxKeys = Some 1,
                                  StartAfter = Some (take lastLtPos lastName @ before_slash)\<rparr> of
                         Inl err \<Rightarrow> Inl err
                       | Inr dirobj \<Rightarrow>
                           (case Items dirobj of
                              [] \<Rightarrow> Inr (resp, lastName)
                            | item # _ \<Rightarrow>
                                if length (Key item) \<ge> lastLtPos + 1 \<and>
                                   take (lastLtPos + 1) (Key item) = take lastLtPos lastName @ ''/''
                                then Inr (resp\<lparr>Prefixes := Prefixes resp @ [take (lastLtPos + 1) (Key item)]\<rparr>, lastName)
                                else Inr (resp, lastName)))))"

section \<open>Order of keys and order of names\<close>

text \<open>The name an entry is served under: the key after the prefix, without a final slash.\<close>

definition strip_slash :: "string \<Rightarrow> string" where
  "strip_slash s = (if s \<noteq> [] \<and> List.last s = CHR ''/'' then butlast s else s)"

definition entry_name :: "nat \<Rightarrow> string \<Rightarrow> string" where
  "entry_name plen e = strip_slash (drop plen e)"

text \<open>The entries of a page before two positions.\<close>

definition page :: "ListBlobsOutput \<Rightarrow> nat \<Rightarrow> nat \<Rightarrow> string set" where
  "page resp itemPos prefixPos = Key ` set (take itemPos (Items resp)) \<union> set (take prefixPos (Prefixes resp))"

definition whole_page :: "ListBlobsOutput \<Rightarrow> string set" where
  "whole_page resp = page resp (length (Items resp)) (length (Prefixes resp))"

definition page_sorted :: "ListBlobsOutput \<Rightarrow> bool" where
  "page_sorted resp \<longleftrightarrow> sorted_wrt (<) (map Key (Items resp)) \<and> sorted_wrt (<) (Prefixes resp) \<and>
     (\<forall>e \<in> set (Prefixes resp). e \<notin> Key ` set (Items resp))"

lemma between_prefix:
  fixes d x :: "('a :: linorder) list"
  shows "d < x \<Longrightarrow> x \<le> d @ [c] \<Longrightarrow> \<exists>y. x = d @ y \<and> y \<noteq> [] \<and> y \<le> [c]"
proof (induction d arbitrary: x)
  case Nil
  then show ?case by auto
next
  case (Cons a d)
  then obtain b xs where x: "x = b # xs" by (cases x) auto
  with Cons.prems have "b = a" "d < xs" "xs \<le> d @ [c]" by auto
  with Cons.IH [of xs] x show ?case by auto
qed

lemma strip_slash_le: "strip_slash s \<le> s"
proof -
  have "butlast s \<le> s"
    by (induction s) auto
  then show ?thesis by (simp add: strip_slash_def)
qed

lemma strip_slash_order:
  assumes le: "k \<le> e" and not: "\<not> strip_slash k \<le> strip_slash e"
  obtains d y where "e = d @ ''/''" "k = d @ y" "y \<noteq> []" "y < ''/''"
proof -
  have e: "e \<noteq> [] \<and> List.last e = CHR ''/''"
    using le not strip_slash_le [of k] by (auto simp: strip_slash_def [of e] split: if_splits)
  then have d: "e = butlast e @ ''/''" by (metis append_butlast_last_id)
  have lt: "butlast e < strip_slash k" using not e by (simp add: strip_slash_def [of e])
  then have "butlast e < k" using strip_slash_le [of k] by (rule order_less_le_trans)
  moreover have "k \<le> butlast e @ ''/''" using le d by simp
  ultimately obtain y where y: "k = butlast e @ y" "y \<noteq> []" "y \<le> ''/''" using between_prefix by blast
  have "y \<noteq> ''/''" using lt y(1) by (auto simp: strip_slash_def)
  with y d that show thesis by (metis le_imp_less_or_eq)
qed

lemma lt_slash_Cons: "y \<noteq> [] \<Longrightarrow> y < ''/'' \<Longrightarrow> hd y < CHR ''/''"
  by (cases y) auto

lemma locate_from_None: "locate_from i xs = None \<longleftrightarrow> (\<forall>x \<in> set xs. \<not> x < CHR ''/'')"
  by (induction xs arbitrary: i) auto

lemma locate_from_Some:
  "locate_from i xs = Some j \<Longrightarrow> i \<le> j \<and> j - i < length xs \<and> xs ! (j - i) < CHR ''/'' \<and>
    (\<forall>k < j - i. \<not> xs ! k < CHR ''/'')"
proof (induction xs arbitrary: i)
  case (Cons x xs)
  show ?case
  proof (cases "x < CHR ''/''")
    case False
    with Cons.prems have "locate_from (Suc i) xs = Some j" by simp
    from Cons.IH [OF this] False show ?thesis
      by (auto simp: nth_Cons Suc_diff_le less_Suc_eq_0_disj split: nat.splits)
        (metis Suc_diff_Suc Suc_le_lessD diff_Suc_Suc lessI nat.inject)+
  qed (use Cons.prems in auto)
qed simp

lemma locateLtSlash_at:
  assumes "drop plen s = d @ y" "d \<noteq> []" "hd d \<noteq> CHR ''/''" "y \<noteq> []" "hd y < CHR ''/''"
  shows "\<exists>pos. locateLtSlash s plen = Some pos \<and> plen < pos \<and> pos \<le> plen + length d \<and> s ! pos < CHR ''/''"
proof -
  obtain c cs where d: "d = c # cs" "c \<noteq> CHR ''/''" using assms(2,3) by (cases d) auto
  have i: "locateLtSlash s plen = locate_from (plen + 1) (drop (plen + 1) s)"
    using assms(1) d by (simp add: locateLtSlash_def)
  have tl: "drop (plen + 1) s = cs @ y" using assms(1) d(1) by (metis append_Cons drop_drop drop_Suc_Cons drop0 One_nat_def add.commute)
  let ?r = "locate_from (plen + 1) (cs @ y)"
  have "?r \<noteq> None" using assms(4,5) by (cases y) (auto simp: locate_from_None)
  then obtain pos where pos: "?r = Some pos" by auto
  from locate_from_Some [OF pos] have p: "plen + 1 \<le> pos" "pos - (plen + 1) < length (cs @ y)"
    "(cs @ y) ! (pos - (plen + 1)) < CHR ''/''" "\<forall>k < pos - (plen + 1). \<not> (cs @ y) ! k < CHR ''/''" by auto
  have "\<not> length cs < pos - (plen + 1)"
    using p(4) assms(4,5) by (metis hd_conv_nth nth_append_length_plus add.right_neutral)
  moreover have "s ! pos = (cs @ y) ! (pos - (plen + 1))"
    using p(1,2) unfolding tl [symmetric] by simp
  ultimately show ?thesis using i tl pos p(1,3) d(1) by auto
qed

text \<open>What the cut needs of the last entry kept and of the first one dropped.\<close>

definition cut_ok :: "nat \<Rightarrow> string \<Rightarrow> string \<Rightarrow> bool" where
  "cut_ok plen prev name \<longleftrightarrow>
     (case locateLtSlash prev plen of None \<Rightarrow> True | Some pos \<Rightarrow> prefixLarger prev name pos)"

lemma cut_order:
  assumes pre: "prefix p k" "prefix p prev" "prefix p name" "prefix p e"
      and ord: "k \<le> prev" "prev < name" "name \<le> e"
      and ok: "cut_ok (length p) prev name"
      and valid: "entry_name (length p) e \<noteq> []" "hd (entry_name (length p) e) \<noteq> CHR ''/''"
  shows "entry_name (length p) k \<le> entry_name (length p) e"
proof (rule ccontr)
  let ?n = "length p"
  obtain k' prev' name' e' where eq: "k = p @ k'" "prev = p @ prev'" "name = p @ name'" "e = p @ e'"
    using pre by (auto simp: prefix_def)
  have app: "p @ a < p @ b \<longleftrightarrow> a < b" "p @ a \<le> p @ b \<longleftrightarrow> a \<le> b" for a b :: string by (induction p) auto
  have ord': "k' \<le> prev'" "prev' < name'" "name' \<le> e'" using ord by (simp_all add: eq app)
  assume "\<not> ?thesis"
  then have "\<not> strip_slash k' \<le> strip_slash e'" by (simp add: entry_name_def eq)
  then obtain d y where d: "e' = d @ ''/''" "k' = d @ y" "y \<noteq> []" "y < ''/''"
    using ord' by (elim strip_slash_order [rotated]) auto
  have dne: "d \<noteq> []" "hd d \<noteq> CHR ''/''" using valid d(1) by (auto simp: entry_name_def eq strip_slash_def)
  have less: "d < d @ z" if "z \<noteq> []" for z using that by (induction d) (auto simp: neq_Nil_conv)
  have cancel: "d @ a < d @ b \<longleftrightarrow> a < b" for a b :: string by (induction d) auto
  have "d < prev'" "prev' \<le> d @ ''/''" using less [OF d(3)] d(1,2) ord' by auto
  then obtain z where z: "prev' = d @ z" "z \<noteq> []" using between_prefix by blast
  have "d < name'" "name' \<le> d @ ''/''" using \<open>d < prev'\<close> ord' d(1) by auto
  then obtain w where w: "name' = d @ w" "w \<noteq> []" "w \<le> ''/''" using between_prefix by blast
  have "z < w" using ord'(2) by (simp add: z w cancel)
  then have "z < ''/''" using w(3) by (rule order_less_le_trans)
  then have hz: "hd z < CHR ''/''" using z(2) by (rule lt_slash_Cons [rotated])
  have "drop ?n prev = d @ z" by (simp add: eq z)
  from locateLtSlash_at [OF this dne z(2) hz] obtain pos where
    pos: "locateLtSlash prev ?n = Some pos" "pos \<le> ?n + length d" "prev ! pos < CHR ''/''" by auto
  have take: "take pos prev = take pos name" using pos(2) by (simp add: eq z w)
  have at: "\<not> name ! pos > CHR ''/''"
  proof (cases "pos = ?n + length d")
    case True
    then have "name ! pos = hd w" using w(2) by (simp add: eq w nth_append hd_conv_nth)
    with w(2,3) show ?thesis by (cases w) auto
  next
    case False
    with pos(2) have "pos < ?n \<or> pos - ?n < length d" by linarith
    then have "name ! pos = prev ! pos" by (auto simp: eq z w nth_append)
    with pos(3) show ?thesis by auto
  qed
  have "0 < length w" using w(2) by simp
  then have len: "pos < length name" using pos(2) unfolding eq w length_append by linarith
  from ok pos(1) have "prefixLarger prev name pos" by (simp add: cut_ok_def)
  with take at len show False by (auto simp: prefixLarger_def split: if_splits)
qed

section \<open>The cut\<close>

lemma take_last: "0 < n \<Longrightarrow> n \<le> length xs \<Longrightarrow> take n xs = take (n - 1) xs @ [xs ! (n - 1)]"
  by (metis Suc_diff_1 Suc_le_lessD take_Suc_conv_app_nth)

lemma sorted_take_last:
  assumes "sorted_wrt (<) xs" "0 < n" "n \<le> length xs" "e \<in> set (take (n - 1) xs)"
  shows "e < (xs ! (n - 1) :: string)"
  using assms by (auto simp: in_set_conv_nth sorted_wrt_nth_less)

lemma maxName_spec:
  assumes sorted: "page_sorted resp" and len: "ip \<le> length (Items resp)" "pp \<le> length (Prefixes resp)" and pos: "0 < ip + pp"
      and m: "maxName resp ip pp = (m, isP)"
  shows "page resp ip pp = insert m (page resp (ip - (1 - isP)) (pp - isP))"
    "\<forall>e \<in> page resp (ip - (1 - isP)) (pp - isP). e < m" "ip + pp = Suc (ip - (1 - isP) + (pp - isP))"
proof -
  let ?ks = "map Key (Items resp)"
  have ks: "Key ` set (take n (Items resp)) = set (take n ?ks)" for n by (metis set_map take_map)
  have s: "sorted_wrt (<) ?ks" "sorted_wrt (<) (Prefixes resp)" "\<forall>e \<in> set (Prefixes resp). e \<notin> set ?ks"
    using sorted by (auto simp: page_sorted_def)
  have keys: "set (take ip ?ks) = insert (?ks ! (ip - 1)) (set (take (ip - 1) ?ks))"
    "\<forall>e \<in> set (take (ip - 1) ?ks). e < ?ks ! (ip - 1)" "?ks ! (ip - 1) \<in> set ?ks" if "0 < ip"
    using that len(1) take_last [of ip ?ks] sorted_take_last [OF s(1), of ip] by auto
  have pres: "set (take pp (Prefixes resp)) = insert (Prefixes resp ! (pp - 1)) (set (take (pp - 1) (Prefixes resp)))"
    "\<forall>e \<in> set (take (pp - 1) (Prefixes resp)). e < Prefixes resp ! (pp - 1)" "Prefixes resp ! (pp - 1) \<in> set (Prefixes resp)" if "0 < pp"
    using that len(2) take_last [of pp "Prefixes resp"] sorted_take_last [OF s(2), of pp] by auto
  have key: "Key (Items resp ! (ip - 1)) = ?ks ! (ip - 1)" if "0 < ip" using that len(1) by simp
  consider (item) "0 < ip" "pp = 0 \<or> Prefixes resp ! (pp - 1) < ?ks ! (ip - 1)" "m = ?ks ! (ip - 1)" "isP = 0"
    | (pre) "0 < pp" "ip = 0 \<or> ?ks ! (ip - 1) < Prefixes resp ! (pp - 1)" "m = Prefixes resp ! (pp - 1)" "isP = 1"
  proof (cases "0 < ip \<and> (pp = 0 \<or> Prefixes resp ! (pp - 1) < ?ks ! (ip - 1))")
    case True
    with m key have "m = ?ks ! (ip - 1)" "isP = 0" by (simp_all add: maxName_def)
    with True item show thesis by blast
  next
    case False
    then have pp: "0 < pp" using pos by auto
    then have "m = Prefixes resp ! (pp - 1)" "isP = 1" using m key False by (auto simp: maxName_def split: if_splits)
    moreover have "ip = 0 \<or> ?ks ! (ip - 1) < Prefixes resp ! (pp - 1)"
    proof (cases "ip = 0")
      case ip: False
      then have "?ks ! (ip - 1) \<noteq> Prefixes resp ! (pp - 1)" using s(3) keys(3) pres(3) pp by auto
      moreover have "\<not> Prefixes resp ! (pp - 1) < ?ks ! (ip - 1)" using False ip by simp
      ultimately show ?thesis by (metis linorder_cases)
    qed simp
    ultimately show thesis using pp pre by blast
  qed
  then have "page resp ip pp = insert m (page resp (ip - (1 - isP)) (pp - isP)) \<and>
    (\<forall>e \<in> page resp (ip - (1 - isP)) (pp - isP). e < m) \<and> ip + pp = Suc (ip - (1 - isP) + (pp - isP))"
  proof cases
    case item
    have "\<forall>e \<in> set (take pp (Prefixes resp)). e < m"
      using item pres by (cases "pp = 0") (auto intro: less_trans)
    with item keys show ?thesis by (simp add: page_def ks) blast
  next
    case pre
    have "\<forall>e \<in> set (take ip ?ks). e < m"
      using pre keys by (cases "ip = 0") (auto intro: less_trans)
    with pre pres show ?thesis by (simp add: page_def ks) blast
  qed
  then show "page resp ip pp = insert m (page resp (ip - (1 - isP)) (pp - isP))"
    "\<forall>e \<in> page resp (ip - (1 - isP)) (pp - isP). e < m" "ip + pp = Suc (ip - (1 - isP) + (pp - isP))" by auto
qed

lemma maxName_max:
  assumes "page_sorted resp" "ip \<le> length (Items resp)" "pp \<le> length (Prefixes resp)" "0 < ip + pp"
  shows "fst (maxName resp ip pp) \<in> page resp ip pp" "\<forall>e \<in> page resp ip pp. e \<le> fst (maxName resp ip pp)"
proof -
  obtain m isP where m: "maxName resp ip pp = (m, isP)" by force
  show "fst (maxName resp ip pp) \<in> page resp ip pp" "\<forall>e \<in> page resp ip pp. e \<le> fst (maxName resp ip pp)"
    using maxName_spec(1,2) [OF assms m] by (auto simp: m)
qed

definition cut_at :: "ListBlobsOutput \<Rightarrow> nat \<Rightarrow> nat \<Rightarrow> nat \<Rightarrow> nat \<Rightarrow> nat \<Rightarrow> string \<Rightarrow> bool" where
  "cut_at resp plen ip pp ip' pp' prev \<longleftrightarrow> ip' \<le> ip \<and> pp' \<le> pp \<and> prev = fst (maxName resp ip' pp') \<and>
     (\<exists>name \<in> page resp ip pp. cut_ok plen prev name \<and> (\<forall>e \<in> page resp ip' pp'. e < name) \<and>
        (\<forall>e \<in> page resp ip pp - page resp ip' pp'. name \<le> e))"

lemma cut_loop_step:
  assumes "half < ip + pp" "maxName resp ip pp = (m, isP)"
  shows "cut_loop resp plen half ip pp name =
    (let prev = fst (maxName resp (ip - (1 - isP)) (pp - isP)) in
     if cut_ok plen prev name then (True, ip - (1 - isP), pp - isP, prev)
     else cut_loop resp plen half (ip - (1 - isP)) (pp - isP) prev)"
  using assms by (subst cut_loop.simps) (simp only: Let_def cut_ok_def if_True snd_conv)

lemma cut_loop_spec:
  assumes "page_sorted resp"
  shows "ip \<le> length (Items resp) \<Longrightarrow> pp \<le> length (Prefixes resp) \<Longrightarrow>
    name = fst (maxName resp ip pp) \<Longrightarrow> cut_loop resp plen half ip pp name = (True, ip', pp', prev) \<Longrightarrow>
    cut_at resp plen ip pp ip' pp' prev \<and> half \<le> ip' + pp'"
proof (induction "ip + pp" arbitrary: ip pp name rule: less_induct)
  case less
  obtain m isP where m: "maxName resp ip pp = (m, isP)" by force
  define ip2 where "ip2 = ip - (1 - isP)"
  define pp2 where "pp2 = pp - isP"
  define prev2 where "prev2 = fst (maxName resp ip2 pp2)"
  have half: "half < ip + pp" using less.prems(4) by (auto simp: cut_loop.simps split: if_splits)
  then have pos: "0 < ip + pp" by linarith
  note max = maxName_spec [OF assms less.prems(1,2) pos m, folded ip2_def pp2_def]
  have le: "ip2 \<le> ip" "pp2 \<le> pp" by (simp_all add: ip2_def pp2_def)
  have name: "name = m" using less.prems(3) m by simp
  note step = cut_loop_step [OF half m, of plen name, folded ip2_def pp2_def, folded prev2_def, unfolded Let_def]
  show ?case
  proof (cases "cut_ok plen prev2 name")
    case True
    then have eq: "ip' = ip2" "pp' = pp2" "prev = prev2" using less.prems(4) step by auto
    have "half \<le> ip2 + pp2" using max(3) half by linarith
    with True max name le show ?thesis by (auto simp: cut_at_def eq prev2_def)
  next
    case False
    then have rec: "cut_loop resp plen half ip2 pp2 prev2 = (True, ip', pp', prev)" using less.prems(4) step by simp
    have "cut_at resp plen ip2 pp2 ip' pp' prev" and h: "half \<le> ip' + pp'"
      using less.hyps [OF _ _ _ prev2_def rec] max(3) le less.prems(1,2) by auto
    then obtain nm where c: "ip' \<le> ip2" "pp' \<le> pp2" "prev = fst (maxName resp ip' pp')" "nm \<in> page resp ip2 pp2"
      "cut_ok plen prev nm" "\<forall>e \<in> page resp ip' pp'. e < nm" "\<forall>e \<in> page resp ip2 pp2 - page resp ip' pp'. nm \<le> e"
      by (auto simp: cut_at_def)
    have "nm \<le> m" using max(2) c(4) by (simp add: less_imp_le)
    with c max(1) have "\<forall>e \<in> page resp ip pp - page resp ip' pp'. nm \<le> e" by auto
    with c max(1) le h show ?thesis unfolding cut_at_def by auto
  qed
qed

text \<open>The page can be served as it is or after a cut, without the additional request.\<close>

definition cut_found :: "ListBlobsOutput \<Rightarrow> nat \<Rightarrow> bool" where
  "cut_found resp plen =
     (let ip = length (Items resp); pp = length (Prefixes resp); name = fst (maxName resp ip pp) in
      locateLtSlash name plen = None \<or> fst (cut_loop resp plen ((ip + pp) div 2) ip pp name))"

lemma whole_page_update [simp]:
  "ip \<le> length (Items resp) \<Longrightarrow> pp \<le> length (Prefixes resp) \<Longrightarrow>
    whole_page (resp\<lparr>Items := take ip (Items resp), Prefixes := take pp (Prefixes resp)\<rparr>) = page resp ip pp"
  by (simp add: whole_page_def page_def)

lemma intelligentListCut_found:
  assumes "page_sorted resp" "IsTruncated resp" "whole_page resp \<noteq> {}" "cut_found resp (length pfx)"
      and "intelligentListCut resp list pfx = Inr (resp', lastName)"
  shows "whole_page resp' = whole_page resp \<and> lastName = fst (maxName resp (length (Items resp)) (length (Prefixes resp))) \<and>
      locateLtSlash lastName (length pfx) = None \<or>
    (\<exists>ip pp. whole_page resp' = page resp ip pp \<and> (length (Items resp) + length (Prefixes resp)) div 2 \<le> ip + pp \<and>
      cut_at resp (length pfx) (length (Items resp)) (length (Prefixes resp)) ip pp lastName)"
proof (cases "locateLtSlash (fst (maxName resp (length (Items resp)) (length (Prefixes resp)))) (length pfx)")
  case None
  with assms(2,5) show ?thesis by (auto simp: intelligentListCut_def Let_def)
next
  case (Some pos)
  let ?ip = "length (Items resp)" and ?pp = "length (Prefixes resp)"
  obtain ok ip' pp' prev where loop:
    "cut_loop resp (length pfx) ((?ip + ?pp) div 2) ?ip ?pp (fst (maxName resp ?ip ?pp)) = (ok, ip', pp', prev)"
    by (metis prod_cases4)
  have ok: "ok" using assms(4) Some loop by (simp add: cut_found_def Let_def)
  note c = cut_loop_spec [OF assms(1) _ _ refl loop [unfolded ok [THEN eqTrueI]]]
  have "ip' \<le> ?ip" "pp' \<le> ?pp" using c by (auto simp: cut_at_def)
  moreover have "resp' = resp\<lparr>Items := take ip' (Items resp), Prefixes := take pp' (Prefixes resp)\<rparr>" "lastName = prev"
    using assms(2,5) Some loop ok by (auto simp: intelligentListCut_def Let_def)
  ultimately show ?thesis using c by auto
qed


definition demo_item :: "string \<Rightarrow> BlobItemOutput" where
  "demo_item k = \<lparr>Key = k, ETag = None, LastModified = None, ItemSize = 0, StorageClass = None, ItemMetadata = None\<rparr>"

definition demo_page :: "string list \<Rightarrow> string list \<Rightarrow> ListBlobsOutput" where
  "demo_page ks ps = \<lparr>Prefixes = ps, Items = map demo_item ks, IsTruncated = True\<rparr>"

lemmas list_cut_simps = demo_page_def demo_item_def maxName_def locateLtSlash_def cut_loop.simps prefixLarger_def Let_def
  page_def whole_page_def


lemma intelligentListCut_request:
  assumes "IsTruncated resp" "\<not> cut_found resp (length pfx)"
      and "intelligentListCut resp list pfx = Inr (resp', lastName)"
  shows "whole_page resp \<subseteq> whole_page resp' \<and> lastName = fst (maxName resp (length (Items resp)) (length (Prefixes resp)))"
proof -
  let ?ip = "length (Items resp)" and ?pp = "length (Prefixes resp)"
  obtain ok ip' pp' prev where loop:
    "cut_loop resp (length pfx) ((?ip + ?pp) div 2) ?ip ?pp (fst (maxName resp ?ip ?pp)) = (ok, ip', pp', prev)"
    by (metis prod_cases4)
  have "\<not> ok" using assms(2) loop by (simp add: cut_found_def Let_def)
  with assms loop show ?thesis
    by (auto simp: intelligentListCut_def Let_def cut_found_def whole_page_def page_def
        split: option.splits sum.splits list.splits if_splits)
qed






end
