(* ===== verification/Inflight.thy ===== *)
theory Inflight
  imports Go_Prelude
begin

text \<open>
  Changes and listings in flight (\<open>core/goofys.go\<close>).  A listing of the bucket and a change of an
  object are not ordered by the server, so a listing must not be believed about the keys that were
  being changed while it ran.  \<open>fs.inflightChanges\<close> counts the changes in flight of every key and
  \<open>fs.inflightListings\<close> holds the keys to skip of every listing in flight.  A \<open>map[string]bool\<close>
  that only ever stores \<open>true\<close> is the set of its keys.
\<close>

record inflight =
  inflightListingId :: nat
  inflightListings :: "nat \<Rightarrow> string set option"
  inflightChanges :: "string \<Rightarrow> int option"

definition inflight_new :: inflight where
  "inflight_new = \<lparr>inflightListingId = 0, inflightListings = (\<lambda>_. None), inflightChanges = (\<lambda>_. None)\<rparr>"

text \<open>Reading a missing key of a Go map gives the zero value.\<close>

definition map_int :: "('k \<Rightarrow> int option) \<Rightarrow> 'k \<Rightarrow> int" where
  "map_int m k = (case m k of None \<Rightarrow> 0 | Some v \<Rightarrow> v)"

definition addInflightChange :: "inflight \<Rightarrow> string \<Rightarrow> inflight" where
  "addInflightChange f key =
     f\<lparr>inflightChanges := (inflightChanges f)(key \<mapsto> map_int (inflightChanges f) key + 1),
       inflightListings := (\<lambda>i. map_option (insert key) (inflightListings f i))\<rparr>"

definition completeInflightChange :: "inflight \<Rightarrow> string \<Rightarrow> inflight" where
  "completeInflightChange f key =
     (let m = (inflightChanges f)(key \<mapsto> map_int (inflightChanges f) key - 1) in
      f\<lparr>inflightChanges := (if map_int m key \<le> 0 then m(key := None) else m)\<rparr>)"

definition addInflightListing :: "inflight \<Rightarrow> nat \<times> inflight" where
  "addInflightListing f =
     (let lid = Suc (inflightListingId f) in
      (lid, f\<lparr>inflightListingId := lid,
             inflightListings := (inflightListings f)(lid \<mapsto> dom (inflightChanges f))\<rparr>))"

definition completeInflightListing :: "inflight \<Rightarrow> nat \<Rightarrow> string set option \<times> inflight" where
  "completeInflightListing f lid =
     (inflightListings f lid, f\<lparr>inflightListings := (inflightListings f)(lid := None)\<rparr>)"

section \<open>Histories\<close>

datatype inflight_op =
    AddChange string
  | CompleteChange string
  | AddListing
  | CompleteListing nat

fun inflight_step :: "inflight \<Rightarrow> inflight_op \<Rightarrow> inflight" where
  "inflight_step f (AddChange k) = addInflightChange f k"
| "inflight_step f (CompleteChange k) = completeInflightChange f k"
| "inflight_step f AddListing = snd (addInflightListing f)"
| "inflight_step f (CompleteListing i) = snd (completeInflightListing f i)"

definition inflight_run :: "inflight_op list \<Rightarrow> inflight \<Rightarrow> inflight" where
  "inflight_run ops f = foldl inflight_step f ops"

text \<open>The number of changes of \<open>k\<close> that a history started and did not complete.\<close>

fun pending_step :: "string \<Rightarrow> nat \<Rightarrow> inflight_op \<Rightarrow> nat" where
  "pending_step k n (AddChange k') = (if k = k' then Suc n else n)"
| "pending_step k n (CompleteChange k') = (if k = k' then n - 1 else n)"
| "pending_step k n AddListing = n"
| "pending_step k n (CompleteListing i) = n"

definition pending :: "string \<Rightarrow> inflight_op list \<Rightarrow> nat" where
  "pending k ops = foldl (pending_step k) 0 ops"

lemma inflight_run_simps [simp]:
  "inflight_run [] f = f"
  "inflight_run (op # ops) f = inflight_run ops (inflight_step f op)"
  "inflight_run (a @ b) f = inflight_run b (inflight_run a f)"
  by (simp_all add: inflight_run_def)

lemmas inflight_defs = addInflightChange_def completeInflightChange_def addInflightListing_def
  completeInflightListing_def map_int_def Let_def

definition changes_ok :: "(string \<Rightarrow> nat) \<Rightarrow> inflight \<Rightarrow> bool" where
  "changes_ok p f \<longleftrightarrow> (\<forall>k. inflightChanges f k = (if p k = 0 then None else Some (int (p k))))"

lemma changes_ok_step:
  "changes_ok p f \<Longrightarrow> changes_ok (\<lambda>k. pending_step k (p k) op) (inflight_step f op)"
  by (cases op) (auto simp: changes_ok_def inflight_defs of_nat_diff)

lemma changes_ok_foldl:
  "changes_ok p f \<Longrightarrow> changes_ok (\<lambda>k. foldl (pending_step k) (p k) ops) (inflight_run ops f)"
proof (induction ops arbitrary: p f)
  case (Cons op ops)
  show ?case using Cons.IH [OF changes_ok_step [OF Cons.prems]] by simp
qed simp

lemma changes_ok_run: "changes_ok (\<lambda>k. pending k ops) (inflight_run ops inflight_new)"
  unfolding pending_def by (rule changes_ok_foldl) (simp add: changes_ok_def inflight_new_def)

lemma listing_step:
  assumes "inflightListings f i = Some S" "i \<le> inflightListingId f" "op \<noteq> CompleteListing i"
  shows "inflightListings (inflight_step f op) i = Some (S \<union> {k. op = AddChange k})"
    and "i \<le> inflightListingId (inflight_step f op)"
  using assms by (cases op; auto simp: inflight_defs)+

lemma listing_run:
  "inflightListings f i = Some S \<Longrightarrow> i \<le> inflightListingId f \<Longrightarrow> CompleteListing i \<notin> set ops \<Longrightarrow>
    inflightListings (inflight_run ops f) i = Some (S \<union> {k. AddChange k \<in> set ops})"
proof (induction ops arbitrary: f S)
  case (Cons op ops)
  have op: "op \<noteq> CompleteListing i" "CompleteListing i \<notin> set ops" using Cons.prems(3) by auto
  have "inflightListings (inflight_run ops (inflight_step f op)) i =
      Some (S \<union> {k. op = AddChange k} \<union> {k. AddChange k \<in> set ops})"
    by (rule Cons.IH [OF listing_step [OF Cons.prems(1,2) op(1)] op(2)])
  moreover have "S \<union> {k. op = AddChange k} \<union> {k. AddChange k \<in> set ops} =
      S \<union> {k. AddChange k \<in> set (op # ops)}" by auto
  ultimately show ?case by simp
qed simp

text \<open>
  (C16) A listing in flight skips exactly the keys whose change overlaps it.  Whatever history
  \<open>before\<close> precedes the start of the listing and whatever history \<open>during\<close> runs until its
  completion, \<open>completeInflightListing\<close> returns the keys with a change that was started and not
  completed when the listing began, together with the keys of which a change was started while it
  ran, and it removes the listing.
\<close>
theorem inflight_listing_exact:
  assumes "addInflightListing (inflight_run before inflight_new) = (lid, f)"
      and "CompleteListing lid \<notin> set during"
      and "completeInflightListing (inflight_run during f) lid = (skip, f')"
  shows "skip = Some ({k. 0 < pending k before} \<union> {k. AddChange k \<in> set during}) \<and>
    inflightListings f' lid = None"
proof -
  have "dom (inflightChanges (inflight_run before inflight_new)) = {k. 0 < pending k before}"
    using changes_ok_run [of before] by (auto simp: changes_ok_def split: if_splits)
  with assms(1) have "inflightListings f lid = Some {k. 0 < pending k before}" "lid \<le> inflightListingId f"
    by (auto simp: addInflightListing_def Let_def)
  from listing_run [OF this assms(2)] assms(3)
  show ?thesis
    by (auto simp: completeInflightListing_def)
qed

theorem inflight_listing_exact_witness:
  "fst (completeInflightListing
      (inflight_run [CompleteChange ''a'', AddChange ''c'', CompleteChange ''c'']
        (snd (addInflightListing
          (inflight_run [AddChange ''a'', AddChange ''b'', CompleteChange ''b''] inflight_new)))) 1)
    = Some {''a'', ''c''}"
proof -
  let ?b = "[AddChange ''a'', AddChange ''b'', CompleteChange ''b'']"
  let ?d = "[CompleteChange ''a'', AddChange ''c'', CompleteChange ''c'']"
  let ?s = "addInflightListing (inflight_run ?b inflight_new)"
  let ?r = "completeInflightListing (inflight_run ?d (snd ?s)) 1"
  have s: "?s = (1, snd ?s)" by (simp add: inflight_defs inflight_new_def)
  have "fst ?r = Some ({k. 0 < pending k ?b} \<union> {k. AddChange k \<in> set ?d})"
    using inflight_listing_exact [OF s, of ?d "fst ?r" "snd ?r"] by simp
  moreover have "{k. 0 < pending k ?b} = {''a''}" by (auto simp: pending_def)
  moreover have "{k. AddChange k \<in> set ?d} = {''c''}" by auto
  ultimately show ?thesis by auto
qed

end
