(* ===== verification/Go_Strings.thy ===== *)
theory Go_Strings
  imports Go_Prelude
begin

text \<open>
  The parts of Go's string library that the metadata code uses: the UTF-8 decoding of a range loop
  over a string and the encoding of a rune (\<open>unicode/utf8\<close>), \<open>strconv.ParseUint\<close> with base 0,
  \<open>url.PathUnescape\<close>, and the formats \<open>%d\<close> and \<open>%02X\<close>.
\<close>

section \<open>Bytes and runes\<close>

definition byte_of :: "char \<Rightarrow> nat" where
  "byte_of c = of_char c"

definition chr :: "nat \<Rightarrow> char" where
  "chr n = char_of n"

lemma byte_of_bound [simp]: "byte_of c < 256"
  by (simp add: byte_of_def)

lemma chr_byte_of [simp]: "chr (byte_of c) = c"
  by (simp add: chr_def byte_of_def)

lemma byte_of_chr [simp]: "n < 256 \<Longrightarrow> byte_of (chr n) = n"
  by (simp add: chr_def byte_of_def)

definition cont_byte :: "nat \<Rightarrow> nat \<Rightarrow> char \<Rightarrow> bool" where
  "cont_byte lo hi c \<longleftrightarrow> lo \<le> byte_of c \<and> byte_of c \<le> hi"

text \<open>The rune at the start of a non-empty string and its width; U+FFFD of width 1 for bytes that
  are not UTF-8.\<close>

definition RuneError :: nat where
  "RuneError = 0xFFFD"

fun decode_rune :: "string \<Rightarrow> nat \<times> nat" where
  "decode_rune [] = (RuneError, 0)"
| "decode_rune (c # cs) =
     (let b = byte_of c in
      if b < 0x80 then (b, 1)
      else if 0xC2 \<le> b \<and> b \<le> 0xDF then
        (case cs of c1 # _ \<Rightarrow> if cont_byte 0x80 0xBF c1 then ((b - 0xC0) * 64 + (byte_of c1 - 0x80), 2) else (RuneError, 1)
         | _ \<Rightarrow> (RuneError, 1))
      else if 0xE0 \<le> b \<and> b \<le> 0xEF then
        (case cs of c1 # c2 # _ \<Rightarrow>
           if cont_byte (if b = 0xE0 then 0xA0 else 0x80) (if b = 0xED then 0x9F else 0xBF) c1 \<and> cont_byte 0x80 0xBF c2
           then ((b - 0xE0) * 4096 + (byte_of c1 - 0x80) * 64 + (byte_of c2 - 0x80), 3) else (RuneError, 1)
         | _ \<Rightarrow> (RuneError, 1))
      else if 0xF0 \<le> b \<and> b \<le> 0xF4 then
        (case cs of c1 # c2 # c3 # _ \<Rightarrow>
           if cont_byte (if b = 0xF0 then 0x90 else 0x80) (if b = 0xF4 then 0x8F else 0xBF) c1 \<and> cont_byte 0x80 0xBF c2 \<and> cont_byte 0x80 0xBF c3
           then ((b - 0xF0) * 262144 + (byte_of c1 - 0x80) * 4096 + (byte_of c2 - 0x80) * 64 + (byte_of c3 - 0x80), 4) else (RuneError, 1)
         | _ \<Rightarrow> (RuneError, 1))
      else (RuneError, 1))"

lemma decode_rune_width: "s \<noteq> [] \<Longrightarrow> 0 < snd (decode_rune s)"
  by (cases s) (auto simp: Let_def split: list.splits)

function runes :: "string \<Rightarrow> nat list" where
  "runes s = (if s = [] then [] else let (r, w) = decode_rune s in r # runes (drop w s))"
  by pat_completeness auto
termination
  by (relation "measure length") (auto dest: decode_rune_width, metis decode_rune_width diff_less length_greater_0_conv snd_conv)

declare runes.simps [simp del]

lemma runes_ascii:
  "\<forall>c \<in> set s. byte_of c < 0x80 \<Longrightarrow> runes s = map byte_of s"
proof (induction s)
  case Nil
  then show ?case by (simp add: runes.simps)
next
  case (Cons c s)
  then show ?case by (subst runes.simps) (simp add: Let_def)
qed

text \<open>\<open>string(rune)\<close>: surrogates and values past U+10FFFF become U+FFFD.\<close>

definition encode_rune :: "nat \<Rightarrow> string" where
  "encode_rune r0 =
     (let r = (if 0xD800 \<le> r0 \<and> r0 \<le> 0xDFFF \<or> 0x10FFFF < r0 then RuneError else r0) in
      if r < 0x80 then [chr r]
      else if r < 0x800 then [chr (0xC0 + r div 64), chr (0x80 + r mod 64)]
      else if r < 0x10000 then [chr (0xE0 + r div 4096), chr (0x80 + r div 64 mod 64), chr (0x80 + r mod 64)]
      else [chr (0xF0 + r div 262144), chr (0x80 + r div 4096 mod 64), chr (0x80 + r div 64 mod 64), chr (0x80 + r mod 64)])"

section \<open>Numbers\<close>

definition hex_digit :: "nat \<Rightarrow> char" where
  "hex_digit d = (if d < 10 then chr (48 + d) else chr (55 + d))"

fun hex_digits :: "nat \<Rightarrow> nat \<Rightarrow> string" where
  "hex_digits 0 n = []"
| "hex_digits (Suc k) n = (if n < 16 then [hex_digit n] else hex_digits k (n div 16) @ [hex_digit (n mod 16)])"

text \<open>\<open>fmt.Sprintf("%02X", r)\<close> of a rune, which has at most eight digits.\<close>

definition format_02X :: "nat \<Rightarrow> string" where
  "format_02X r = (let ds = hex_digits 8 r in if length ds < 2 then ''0'' @ ds else ds)"

function format_d :: "nat \<Rightarrow> string" where
  "format_d n = (if n < 10 then [chr (48 + n)] else format_d (n div 10) @ [chr (48 + n mod 10)])"
  by pat_completeness auto
termination by (relation "measure id") auto

declare format_d.simps [simp del]

definition lower :: "char \<Rightarrow> char" where
  "lower c = (if CHR ''A'' \<le> c \<and> c \<le> CHR ''Z'' then chr (byte_of c + 32) else c)"

definition digit_val :: "char \<Rightarrow> nat option" where
  "digit_val c =
     (if CHR ''0'' \<le> c \<and> c \<le> CHR ''9'' then Some (byte_of c - 48)
      else if CHR ''a'' \<le> lower c \<and> lower c \<le> CHR ''z'' then Some (byte_of (lower c) - 97 + 10)
      else None)"

text \<open>\<open>strconv.ParseUint(s, 0, bits)\<close>: the base is taken from the prefix, and underscores may
  separate digits.\<close>

datatype saw = SawStart | SawDigit | SawUnderscore | SawOther

fun underscore_scan :: "bool \<Rightarrow> saw \<Rightarrow> string \<Rightarrow> bool" where
  "underscore_scan hex sw [] \<longleftrightarrow> sw \<noteq> SawUnderscore"
| "underscore_scan hex sw (c # cs) \<longleftrightarrow>
     (if CHR ''0'' \<le> c \<and> c \<le> CHR ''9'' \<or> hex \<and> CHR ''a'' \<le> lower c \<and> lower c \<le> CHR ''f'' then underscore_scan hex SawDigit cs
      else if c = CHR ''_'' then (if sw \<noteq> SawDigit then False else underscore_scan hex SawUnderscore cs)
      else if sw = SawUnderscore then False
      else underscore_scan hex SawOther cs)"

fun base_prefix :: "string \<Rightarrow> nat \<times> string" where
  "base_prefix (z # x # y # r) =
     (if z = CHR ''0'' \<and> lower x = CHR ''b'' then (2, y # r)
      else if z = CHR ''0'' \<and> lower x = CHR ''o'' then (8, y # r)
      else if z = CHR ''0'' \<and> lower x = CHR ''x'' then (16, y # r)
      else if z = CHR ''0'' then (8, x # y # r)
      else (10, z # x # y # r))"
| "base_prefix (z # r) = (if z = CHR ''0'' then (8, r) else (10, z # r))"
| "base_prefix [] = (10, [])"

definition underscoreOK :: "string \<Rightarrow> bool" where
  "underscoreOK s =
     (case s of
        z # x # r \<Rightarrow>
          if z = CHR ''0'' \<and> (lower x = CHR ''b'' \<or> lower x = CHR ''o'' \<or> lower x = CHR ''x'')
          then underscore_scan (lower x = CHR ''x'') SawDigit r
          else underscore_scan False SawStart s
      | _ \<Rightarrow> underscore_scan False SawStart s)"

fun base_value :: "nat \<Rightarrow> nat \<Rightarrow> string \<Rightarrow> nat option" where
  "base_value b acc [] = Some acc"
| "base_value b acc (c # cs) =
     (if c = CHR ''_'' then base_value b acc cs
      else case digit_val c of
             None \<Rightarrow> None
           | Some d \<Rightarrow> if d \<ge> b then None else base_value b (b * acc + d) cs)"

definition parse_uint0 :: "nat \<Rightarrow> string \<Rightarrow> nat option" where
  "parse_uint0 bits s =
     (if s = [] then None
      else let (b, ds) = base_prefix s in
           case base_value b 0 ds of
             None \<Rightarrow> None
           | Some v \<Rightarrow> if v \<ge> 2 ^ bits then None
                       else if CHR ''_'' \<in> set ds \<and> \<not> underscoreOK s then None else Some v)"

section \<open>Unescaping\<close>

definition unhex :: "char \<Rightarrow> nat option" where
  "unhex c =
     (if CHR ''0'' \<le> c \<and> c \<le> CHR ''9'' then Some (byte_of c - 48)
      else if CHR ''a'' \<le> c \<and> c \<le> CHR ''f'' then Some (byte_of c - 97 + 10)
      else if CHR ''A'' \<le> c \<and> c \<le> CHR ''F'' then Some (byte_of c - 65 + 10)
      else None)"

text \<open>\<open>url.PathUnescape\<close>; \<^const>\<open>None\<close> is an error.\<close>

fun path_unescape :: "string \<Rightarrow> string option" where
  "path_unescape [] = Some []"
| "path_unescape (c # cs) =
     (if c = CHR ''%'' then
        (case cs of
           a # b # r \<Rightarrow>
             (case (unhex a, unhex b) of
                (Some x, Some y) \<Rightarrow> map_option (\<lambda>t. chr (16 * x + y) # t) (path_unescape r)
              | _ \<Rightarrow> None)
         | _ \<Rightarrow> None)
      else map_option (\<lambda>t. c # t) (path_unescape cs))"

lemma unhex_hex_digit [simp]: "d < 16 \<Longrightarrow> unhex (hex_digit d) = Some d"
  by (auto simp: unhex_def hex_digit_def less_eq_char_def chr_def byte_of_def)

lemma path_unescape_hex: "n < 256 \<Longrightarrow> path_unescape (CHR ''%'' # hex_digit (n div 16) # hex_digit (n mod 16) # r) =
    map_option (\<lambda>t. chr n # t) (path_unescape r)"
  by (simp add: less_mult_imp_div_less)

lemma format_02X_byte: "n < 256 \<Longrightarrow> format_02X n = [hex_digit (n div 16), hex_digit (n mod 16)]"
proof -
  assume n: "n < 256"
  have "hex_digit 0 = CHR ''0''" by (simp add: hex_digit_def chr_def char_of_eq_iff)
  moreover have eight: "(8 :: nat) = Suc (Suc 6)" by simp
  moreover have "hex_digits 8 n = (if n < 16 then [hex_digit n] else [hex_digit (n div 16), hex_digit (n mod 16)])"
    using n unfolding eight hex_digits.simps by (simp add: less_mult_imp_div_less)
  ultimately show ?thesis by (simp add: format_02X_def)
qed

end
