(* ===== verification/Inode_State.thy ===== *)
theory Inode_State
  imports Inode_Buffers Read_Ranges List_Cut Inflight Go_Strings
begin

text \<open>
  The state of the file system: inodes, directories, directory handles and the \<open>Goofys\<close> structure
  (\<open>core/handles.go\<close>, \<open>core/goofys.go\<close>).  Go objects are shared by pointer, so inodes live in a
  heap: \<open>heap s p\<close> is the inode behind the pointer \<open>p\<close>, an optional pointer is an option, and the
  identifier \<open>Id\<close> that the kernel knows is a field, mapped back to a pointer by \<open>inodes\<close>.  Every
  operation is a function from state to state; it runs with the locks that its source requires, so
  it is atomic.  The current time is an argument, read once per operation.
\<close>

section \<open>Data\<close>

datatype CacheSt = ST_CACHED | ST_DEAD | ST_CREATED | ST_MODIFIED | ST_DELETED

fun st_num :: "CacheSt \<Rightarrow> nat" where
  "st_num ST_CACHED = 0" | "st_num ST_DEAD = 1" | "st_num ST_CREATED = 2" | "st_num ST_MODIFIED = 3" | "st_num ST_DELETED = 4"

instantiation CacheSt :: linorder
begin

definition less_eq_CacheSt :: "CacheSt \<Rightarrow> CacheSt \<Rightarrow> bool" where
  "less_eq_CacheSt a b \<longleftrightarrow> st_num a \<le> st_num b"

definition less_CacheSt :: "CacheSt \<Rightarrow> CacheSt \<Rightarrow> bool" where
  "less_CacheSt a b \<longleftrightarrow> st_num a < st_num b"

instance
proof
  fix a b :: CacheSt
  show "a \<le> b \<Longrightarrow> b \<le> a \<Longrightarrow> a = b" by (cases a; cases b; simp add: less_eq_CacheSt_def)
qed (auto simp: less_eq_CacheSt_def less_CacheSt_def)

end

type_synonym ptr = nat

record InodeAttributes =
  a_Size :: u64
  a_Mtime :: gotime
  a_Ctime :: gotime
  a_Uid :: nat
  a_Gid :: nat
  a_Rdev :: nat
  a_Mode :: "32 word"

record SlurpGap =
  gap_start :: string
  gap_end :: string
  gap_loadTime :: gotime

text \<open>\<open>cloud\<close> is the backend mounted at the directory.  A nil \<open>DeletedChildren\<close> map reads like an
  empty one, and it is made before it is written.\<close>

record DirInodeData =
  d_cloud :: "nat option"
  d_mountPrefix :: string
  d_lastOpenDirIdx :: int
  d_seqOpenDirScore :: nat
  d_DirTime :: gotime
  d_ImplicitDir :: bool
  d_listMarker :: string
  d_lastFromCloud :: "string option"
  d_listDone :: bool
  d_forgetDuringList :: bool
  d_refreshStartTime :: gotime
  d_ModifiedChildren :: int
  d_Children :: "ptr list"
  d_DeletedChildren :: "string \<Rightarrow> ptr option"
  d_Gaps :: "SlurpGap list"
  d_handles :: "nat list"
  d_generation :: u64

text \<open>\<open>mpu_ptr\<close> is the identity of the object, which the code compares.\<close>

record mpuState =
  mpu_ptr :: nat
  mpu_Key :: string
  mpu_Metadata :: "(string \<times> string) list option"
  mpu_UploadId :: string
  mpu_Parts :: "string option list"
  mpu_NumParts :: nat

text \<open>A map of metadata; the order of the list is the order in which a range loop visits it.\<close>

type_synonym metadata = "(string \<times> string) list"

record ('t, 'd, 'c) Inode =
  i_Id :: nat
  i_Name :: string
  i_Attributes :: InodeAttributes
  i_AttrTime :: gotime
  i_ExpireTime :: gotime
  i_pauseWriters :: int
  i_Parent :: "ptr option"
  i_dir :: "DirInodeData option"
  i_fileHandles :: int
  i_lastWriteEnd :: u64
  i_CacheState :: CacheSt
  i_dirtyQueueId :: nat
  i_buffers :: "('t, 'd, 'c BufferQueue) BufferList"
  i_readRanges :: "ReadRange list"
  i_OnDisk :: bool
  i_forceFlush :: bool
  i_IsFlushing :: int
  i_flushError :: "error option"
  i_flushErrorTime :: gotime
  i_readError :: "error option"
  i_oldParent :: "ptr option"
  i_oldName :: string
  i_renamingTo :: bool
  i_mpu :: "mpuState option"
  i_userMetadataDirty :: nat
  i_userMetadata :: "metadata option"
  i_s3Metadata :: "metadata option"
  i_knownSize :: u64
  i_knownETag :: string
  i_refcnt :: int

record DirHandle =
  dh_inode :: ptr
  dh_noSlurp :: bool
  dh_lastExternalOffset :: u64
  dh_lastInternalOffset :: int
  dh_generation :: u64
  dh_lastName :: string

record FlagStorage =
  f_Uid :: nat
  f_Gid :: nat
  f_FileMode :: "32 word"
  f_DirMode :: "32 word"
  f_StatCacheTTL :: int
  f_EnableMtime :: bool
  f_EnablePerms :: bool
  f_MtimeAttr :: string
  f_SymlinkAttr :: string
  f_EnableSpecials :: bool
  f_UidAttr :: string
  f_GidAttr :: string
  f_FileModeAttr :: string
  f_RdevAttr :: string
  f_UsePatch :: bool
  f_NoDirObject :: bool
  f_NoPreloadDir :: bool
  f_ExplicitDir :: bool
  f_Cheap :: bool
  f_CachePath :: string
  f_MaxParallelParts :: int
  f_EntryLimit :: int
  f_SmallReadCount :: u64
  f_read :: readFlags
  f_MaxFlushers :: int
  f_MaxParallelCopy :: int
  f_RetryInterval :: int
  f_SinglePartMB :: u64
  f_MaxMergeCopyMB :: u64
  f_IgnoreFsync :: bool
  f_FsyncOnClose :: bool
  f_PreferPatchUploads :: bool
  f_DropPatchConflicts :: bool
  f_UseEnomem :: bool
  f_IgnoreRootAttrErrors :: bool
  f_retry :: retryFlags

datatype notification = NotifyDelete nat nat string | NotifyInvalEntry nat string

text \<open>
  \<open>bufferPool_cur\<close> is the memory accounted to buffers; \<open>diskFds\<close> holds the fields
  \<open>DiskFDQueueID\<close> and \<open>DiskCacheFD\<close> of the inodes; \<open>aborted\<close> and \<open>notified\<close> record the multipart uploads
  that were handed to a goroutine for abortion and the notifications sent to the kernel.
  An entry of \<open>inodesByTime\<close> is deleted when it becomes empty, so a missing entry is the empty set.
\<close>

record ('t, 'd, 'c) Goofys =
  heap :: "ptr \<Rightarrow> ('t, 'd, 'c) Inode"
  nextPtr :: ptr
  nextInodeID :: nat
  inodes :: "nat \<Rightarrow> ptr option"
  inodesByTime :: "int \<Rightarrow> nat set"
  inflightState :: inflight
  dirHandleHeap :: "nat \<Rightarrow> DirHandle"
  nextDirHandle :: nat
  forgotCnt :: nat
  cleanQueue :: "'c BufferQueue"
  inodeQueue :: "'d InodeQueue"
  diskFdQueue :: "'d FDQueue"
  diskFds :: fdInodes
  bufferPool_cur :: int
  rootAttrs :: InodeAttributes
  flushPending :: bool
  flushRetrySet :: bool
  activeFlushers :: int
  wantFree :: int
  hasNewWrites :: bool
  flushPriorities :: "int list"
  nextMpu :: nat
  aborted :: "mpuState list"
  notified :: "notification list"

text \<open>
  The environment: the ordered maps of the btree package, the part layout and the flags, and what
  the file system asks of the world outside: the kind and the capabilities of a backend, whether
  its initialisation failed, the mode conversions of the fuse package, the Unicode tables, and
  whether the operating system removes or renames a cache file; \<open>g_poolMax\<close> is the limit of the
  buffer pool.
\<close>

record ('t, 'd, 'c) gEnv =
  g_A :: "('t, FileBuffer) btree"
  g_D :: "('d, u64) btree"
  g_C :: "('c, nat \<times> u64) btree"
  g_parts :: "PartSizeConfig list"
  g_flags :: FlagStorage
  g_isS3 :: "nat \<Rightarrow> bool"
  g_caps :: "nat \<Rightarrow> Capabilities"
  g_initErr :: "nat \<Rightarrow> bool"
  g_ConvertFileMode :: "32 word \<Rightarrow> 32 word"
  g_ConvertGoMode :: "32 word \<Rightarrow> 32 word"
  g_isPrint :: "nat \<Rightarrow> bool"
  g_toLower :: "nat \<Rightarrow> nat"
  g_osRemove :: "string \<Rightarrow> bool"
  g_osRename :: "string \<Rightarrow> string \<Rightarrow> bool"
  g_poolMax :: int

definition RootInodeID :: nat where
  "RootInodeID = 1"

definition zeroAttributes :: InodeAttributes where
  "zeroAttributes = \<lparr>a_Size = 0, a_Mtime = time_zero, a_Ctime = time_zero, a_Uid = 0, a_Gid = 0, a_Rdev = 0, a_Mode = 0\<rparr>"

definition zeroDir :: DirInodeData where
  "zeroDir = \<lparr>d_cloud = None, d_mountPrefix = [], d_lastOpenDirIdx = 0, d_seqOpenDirScore = 0, d_DirTime = time_zero,
     d_ImplicitDir = False, d_listMarker = [], d_lastFromCloud = None, d_listDone = False, d_forgetDuringList = False,
     d_refreshStartTime = time_zero, d_ModifiedChildren = 0, d_Children = [], d_DeletedChildren = Map.empty, d_Gaps = [],
     d_handles = [], d_generation = 0\<rparr>"

section \<open>Access\<close>

definition upd :: "ptr \<Rightarrow> (('t, 'd, 'c) Inode \<Rightarrow> ('t, 'd, 'c) Inode) \<Rightarrow> ('t, 'd, 'c) Goofys \<Rightarrow> ('t, 'd, 'c) Goofys" where
  "upd p f s = s\<lparr>heap := (heap s)(p := f (heap s p))\<rparr>"

text \<open>The methods of a directory are called on directories, whose \<open>dir\<close> is not nil.\<close>

definition dirOf :: "('t, 'd, 'c) Goofys \<Rightarrow> ptr \<Rightarrow> DirInodeData" where
  "dirOf s p = (case i_dir (heap s p) of Some d \<Rightarrow> d | None \<Rightarrow> zeroDir)"

definition updDir :: "ptr \<Rightarrow> (DirInodeData \<Rightarrow> DirInodeData) \<Rightarrow> ('t, 'd, 'c) Goofys \<Rightarrow> ('t, 'd, 'c) Goofys" where
  "updDir p f = upd p (\<lambda>i. i\<lparr>i_dir := map_option f (i_dir i)\<rparr>)"

definition isDir :: "('t, 'd, 'c) Goofys \<Rightarrow> ptr \<Rightarrow> bool" where
  "isDir s p \<longleftrightarrow> i_dir (heap s p) \<noteq> None"

text \<open>
  The chain of parents from a pointer.  In a tree no inode is met twice, so the number of
  allocated inodes bounds the chain.
\<close>

fun chain :: "nat \<Rightarrow> ('t, 'd, 'c) Goofys \<Rightarrow> ptr option \<Rightarrow> ptr list" where
  "chain 0 s p = []"
| "chain (Suc n) s None = []"
| "chain (Suc n) s (Some p) = p # chain n s (i_Parent (heap s p))"

definition ancestors :: "('t, 'd, 'c) Goofys \<Rightarrow> ptr option \<Rightarrow> ptr list" where
  "ancestors s p = chain (nextPtr s) s p"

section \<open>Inodes\<close>

text \<open>The zero value of an inode, with an empty buffer list, and a new inode.\<close>

definition zeroInode :: "('t, 'd, 'c) gEnv \<Rightarrow> 'c BufferQueue \<Rightarrow> ('t, 'd, 'c) Inode" where
  "zeroInode E q = \<lparr>i_Id = 0, i_Name = [], i_Attributes = zeroAttributes,
     i_AttrTime = time_zero, i_ExpireTime = time_zero, i_pauseWriters = 0, i_Parent = None, i_dir = None, i_fileHandles = 0,
     i_lastWriteEnd = 0, i_CacheState = ST_CACHED, i_dirtyQueueId = 0,
     i_buffers = \<lparr>bl_at = bt_empty (g_A E), bl_dirtyQueue = bt_empty (g_D E), bl_dirtyParts = Map.empty,
       bl_dirtyQid = 0, bl_uncleanCount = 0, bl_curDirtyID = 0, bl_helpers = q, bl_mem = Map.empty, bl_nextPtr = 0\<rparr>,
     i_readRanges = [], i_OnDisk = False, i_forceFlush = False, i_IsFlushing = 0, i_flushError = None, i_flushErrorTime = time_zero,
     i_readError = None, i_oldParent = None, i_oldName = [], i_renamingTo = False, i_mpu = None, i_userMetadataDirty = 0,
     i_userMetadata = None, i_s3Metadata = None, i_knownSize = 0, i_knownETag = [], i_refcnt = 0\<rparr>"

definition NewInode :: "('t, 'd, 'c) gEnv \<Rightarrow> gotime \<Rightarrow> ('t, 'd, 'c) Goofys \<Rightarrow> ptr option \<Rightarrow> string \<Rightarrow> ptr \<times> ('t, 'd, 'c) Goofys" where
  "NewInode E now s parent name =
     (let i = (zeroInode E (cleanQueue s))\<lparr>i_Name := name,
        i_Attributes := zeroAttributes\<lparr>a_Uid := f_Uid (g_flags E), a_Gid := f_Gid (g_flags E), a_Mode := f_FileMode (g_flags E)\<rparr>,
        i_Parent := parent, i_s3Metadata := Some [], i_refcnt := 0, i_AttrTime := now\<rparr>
      in (nextPtr s, s\<lparr>heap := (heap s)(nextPtr s := i), nextPtr := Suc (nextPtr s)\<rparr>))"

definition ModeDir :: "32 word" where
  "ModeDir = push_bit 31 1"

definition ModeSymlink :: "32 word" where
  "ModeSymlink = push_bit 27 1"

definition ModePerm :: "32 word" where
  "ModePerm = 0x1FF"

unbundle bit_operations_syntax

definition ToDir :: "('t, 'd, 'c) gEnv \<Rightarrow> ('t, 'd, 'c) Goofys \<Rightarrow> ptr \<Rightarrow> ('t, 'd, 'c) Goofys" where
  "ToDir E s p =
     (if i_dir (heap s p) = None then
        upd p (\<lambda>i. i\<lparr>i_Attributes := zeroAttributes\<lparr>a_Size := 4096, a_Uid := a_Uid (i_Attributes i), a_Gid := a_Gid (i_Attributes i),
                       a_Mode := f_DirMode (g_flags E) OR ModeDir\<rparr>,
                     i_dir := Some (zeroDir\<lparr>d_lastOpenDirIdx := - 1\<rparr>)\<rparr>) s
      else s)"

end
