(* ===== verification/Inode_Ops.thy ===== *)
theory Inode_Ops
  imports Inode_State
begin

text \<open>
  The operations on a single inode (\<open>core/handles.go\<close>, \<open>core/attr_time.go\<close>, and \<open>SetCacheState\<close>, \<open>addModified\<close> of
  \<open>core/dir.go\<close>, \<open>resetCache\<close> of \<open>core/file.go\<close>): its path, its attributes, its expiration
  time, its reference count, its state in the cache and the release of what it caches.
\<close>

unbundle bit_operations_syntax

section \<open>Paths\<close>

definition go_trim_right :: "char \<Rightarrow> string \<Rightarrow> string" where
  "go_trim_right c s = rev (dropWhile (\<lambda>x. x = c) (rev s))"

fun cloud_loop :: "('t, 'd, 'c) gEnv \<Rightarrow> ('t, 'd, 'c) Goofys \<Rightarrow> ptr list \<Rightarrow> string \<Rightarrow> nat option \<times> string \<times> string" where
  "cloud_loop E s [] path = (None, [], path)"
| "cloud_loop E s (p # ps) path =
     (case d_cloud (dirOf s p) of
        Some c \<Rightarrow> (Some c, if g_initErr E c then [] else d_mountPrefix (dirOf s p), path)
      | None \<Rightarrow>
          cloud_loop E s ps
            (if path = [] then i_Name (heap s p)
             else if i_Parent (heap s p) \<noteq> None then i_Name (heap s p) @ ''/'' @ path
             else path))"

definition cloud :: "('t, 'd, 'c) gEnv \<Rightarrow> ('t, 'd, 'c) Goofys \<Rightarrow> ptr \<Rightarrow> nat option \<times> string" where
  "cloud E s p =
     (let (path, dir) = (if i_dir (heap s p) = None then (i_Name (heap s p), i_Parent (heap s p)) else ([], Some p));
          (c, pfx, path) = cloud_loop E s (ancestors s dir) path
      in (c, if path = [] then go_trim_right (CHR ''/'') pfx else pfx @ path))"

fun full_name :: "('t, 'd, 'c) Goofys \<Rightarrow> ptr list \<Rightarrow> string" where
  "full_name s [] = []"
| "full_name s [p] = i_Name (heap s p)"
| "full_name s (p # q # ps) =
     (if i_Id (heap s q) = RootInodeID then i_Name (heap s p)
      else full_name s (q # ps) @ ''/'' @ i_Name (heap s p))"

definition FullName :: "('t, 'd, 'c) Goofys \<Rightarrow> ptr \<Rightarrow> string" where
  "FullName s p = full_name s (ancestors s (Some p))"

definition getChildName :: "('t, 'd, 'c) Goofys \<Rightarrow> ptr \<Rightarrow> string \<Rightarrow> string" where
  "getChildName s parent name =
     (if i_Id (heap s parent) = RootInodeID then name else FullName s parent @ ''/'' @ name)"

section \<open>Attributes and times\<close>

record fuseAttributes =
  fa_Size :: u64
  fa_Atime :: gotime
  fa_Mtime :: gotime
  fa_Ctime :: gotime
  fa_Crtime :: gotime
  fa_Uid :: nat
  fa_Gid :: nat
  fa_Mode :: "32 word"
  fa_Rdev :: nat
  fa_Nlink :: nat

definition InflateAttributes :: "('t, 'd, 'c) gEnv \<Rightarrow> ('t, 'd, 'c) Goofys \<Rightarrow> ptr \<Rightarrow> fuseAttributes" where
  "InflateAttributes E s p =
     (let i = heap s p; a = i_Attributes i;
          mtime = (if a_Mtime a = time_zero then a_Mtime (rootAttrs s) else a_Mtime a);
          attr = \<lparr>fa_Size = a_Size a, fa_Atime = a_Ctime a, fa_Mtime = mtime, fa_Ctime = a_Ctime a, fa_Crtime = mtime,
                  fa_Uid = a_Uid a, fa_Gid = a_Gid a, fa_Mode = a_Mode a, fa_Rdev = a_Rdev a, fa_Nlink = 0\<rparr>
      in if i_dir i \<noteq> None then attr\<lparr>fa_Nlink := 2, fa_Mode := (fa_Mode attr AND ModePerm) OR ModeDir\<rparr>
         else if (case i_userMetadata i of None \<Rightarrow> False | Some m \<Rightarrow> map_of m (f_SymlinkAttr (g_flags E)) \<noteq> None)
         then attr\<lparr>fa_Nlink := 1, fa_Mode := (fa_Mode attr AND ModePerm) OR ModeSymlink\<rparr>
         else attr\<lparr>fa_Nlink := 1\<rparr>)"

definition touch :: "gotime \<Rightarrow> ('t, 'd, 'c) Goofys \<Rightarrow> ptr \<Rightarrow> ('t, 'd, 'c) Goofys" where
  "touch now s p = upd p (\<lambda>i. i\<lparr>i_Attributes := (i_Attributes i)\<lparr>a_Mtime := now, a_Ctime := now\<rparr>\<rparr>) s"

definition expired :: "gotime \<Rightarrow> gotime \<Rightarrow> int \<Rightarrow> bool" where
  "expired now cache ttl = (if cache > now then False else \<not> cache + ttl > now)"

definition SetExpireTime :: "('t, 'd, 'c) Goofys \<Rightarrow> ptr \<Rightarrow> gotime \<Rightarrow> ('t, 'd, 'c) Goofys" where
  "SetExpireTime s p tm =
     (if i_ExpireTime (heap s p) > tm then s
      else
        let oldTime = Unix (i_ExpireTime (heap s p)); newTime = Unix tm; inodeId = i_Id (heap s p);
            s = upd p (\<lambda>i. i\<lparr>i_ExpireTime := tm\<rparr>) s;
            m = (inodesByTime s)(oldTime := inodesByTime s oldTime - {inodeId});
            m = (if tm \<noteq> time_zero then m(newTime := insert inodeId (m newTime)) else m)
        in s\<lparr>inodesByTime := m\<rparr>)"

definition SetAttrTime :: "('t, 'd, 'c) gEnv \<Rightarrow> ('t, 'd, 'c) Goofys \<Rightarrow> ptr \<Rightarrow> gotime \<Rightarrow> ('t, 'd, 'c) Goofys" where
  "SetAttrTime E s p tm =
     SetExpireTime (upd p (\<lambda>i. i\<lparr>i_AttrTime := tm\<rparr>) s) p (tm + f_StatCacheTTL (g_flags E))"

definition resetExpireTime :: "('t, 'd, 'c) Goofys \<Rightarrow> ptr \<Rightarrow> ('t, 'd, 'c) Goofys" where
  "resetExpireTime s p =
     (let oldTime = Unix (i_ExpireTime (heap s p));
          s = upd p (\<lambda>i. i\<lparr>i_ExpireTime := time_zero\<rparr>) s
      in s\<lparr>inodesByTime := (inodesByTime s)(oldTime := inodesByTime s oldTime - {i_Id (heap s p)})\<rparr>)"

section \<open>Cache state\<close>

definition addModified :: "('t, 'd, 'c) Goofys \<Rightarrow> ptr option \<Rightarrow> int \<Rightarrow> ('t, 'd, 'c) Goofys" where
  "addModified s parent inc =
     fold (\<lambda>q. updDir q (\<lambda>d. d\<lparr>d_ModifiedChildren := i64 (d_ModifiedChildren d + inc)\<rparr>)) (ancestors s parent) s"

definition modified :: "CacheSt \<Rightarrow> bool" where
  "modified st \<longleftrightarrow> st = ST_CREATED \<or> st = ST_DELETED \<or> st = ST_MODIFIED"

definition SetCacheState :: "('t, 'd, 'c) gEnv \<Rightarrow> ('t, 'd, 'c) Goofys \<Rightarrow> ptr \<Rightarrow> CacheSt \<Rightarrow> ('t, 'd, 'c) Goofys" where
  "SetCacheState E s p state =
     (let wasModified = modified (i_CacheState (heap s p)); willBeModified = modified state;
          s = upd p (\<lambda>i. i\<lparr>i_CacheState := state\<rparr>) s
      in if wasModified \<noteq> willBeModified then
           (let s = (if wasModified
                     then s\<lparr>inodeQueue := InodeQueue_Delete (g_D E) (inodeQueue s) (i_dirtyQueueId (heap s p))\<rparr>
                     else (let (q, qid) = InodeQueue_Add (g_D E) (inodeQueue s) (i_Id (heap s p))
                           in upd p (\<lambda>i. i\<lparr>i_dirtyQueueId := qid\<rparr>) (s\<lparr>inodeQueue := q\<rparr>)))
            in addModified s (i_Parent (heap s p)) (if wasModified then - 1 else 1))
         else s)"

definition WakeupFlusher :: "('t, 'd, 'c) Goofys \<Rightarrow> ('t, 'd, 'c) Goofys" where
  "WakeupFlusher s = s\<lparr>flushPending := True\<rparr>"

definition ScheduleRetryFlush :: "('t, 'd, 'c) Goofys \<Rightarrow> ('t, 'd, 'c) Goofys" where
  "ScheduleRetryFlush s = s\<lparr>flushRetrySet := True\<rparr>"

definition recordFlushError :: "gotime \<Rightarrow> ('t, 'd, 'c) Goofys \<Rightarrow> ptr \<Rightarrow> error option \<Rightarrow> ('t, 'd, 'c) Goofys" where
  "recordFlushError now s p err =
     ScheduleRetryFlush (upd p (\<lambda>i. i\<lparr>i_flushError := err, i_flushErrorTime := now\<rparr>) s)"

section \<open>Releasing the cache\<close>

definition abortMultipart :: "('t, 'd, 'c) Goofys \<Rightarrow> ptr \<Rightarrow> ('t, 'd, 'c) Goofys" where
  "abortMultipart s p =
     (case i_mpu (heap s p) of
        None \<Rightarrow> s
      | Some m \<Rightarrow> upd p (\<lambda>i. i\<lparr>i_mpu := None\<rparr>) (s\<lparr>aborted := aborted s @ [m]\<rparr>))"

text \<open>
  An operation on the buffers of an inode works on the list together with the queue of clean
  buffers, which all inodes share.
\<close>

definition withBuffers :: "ptr \<Rightarrow> (('t, 'd, 'c BufferQueue) BufferList \<Rightarrow> (('t, 'd, 'c BufferQueue) BufferList \<times> 'r) option) \<Rightarrow>
    ('t, 'd, 'c) Goofys \<Rightarrow> (('t, 'd, 'c) Goofys \<times> 'r) option" where
  "withBuffers p f s =
     do {
       (l, r) \<leftarrow> f ((i_buffers (heap s p))\<lparr>bl_helpers := cleanQueue s\<rparr>);
       Some ((upd p (\<lambda>i. i\<lparr>i_buffers := l\<rparr>) s)\<lparr>cleanQueue := bl_helpers l\<rparr>, r)
     }"

definition bufEnvOf :: "('t, 'd, 'c) gEnv \<Rightarrow> ptr \<Rightarrow> ('t, 'd, 'c BufferQueue) bufEnv" where
  "bufEnvOf E p = inode_env (g_A E) (g_D E) (g_C E) (g_parts E) p"

definition dropCacheFile :: "('t, 'd, 'c) gEnv \<Rightarrow> ('t, 'd, 'c) Goofys \<Rightarrow> ptr \<Rightarrow> ('t, 'd, 'c) Goofys" where
  "dropCacheFile E s p =
     (if i_OnDisk (heap s p) then
        (let s = (if DiskCacheFD (diskFds s p) then
                    (let (q, I) = FDQueue_DeleteFD (g_D E) p (diskFdQueue s, (diskFds s)(p := (diskFds s p)\<lparr>DiskCacheFD := False\<rparr>))
                     in s\<lparr>diskFdQueue := q, diskFds := I\<rparr>)
                  else s)
         in if g_osRemove E (f_CachePath (g_flags E) @ ''/'' @ FullName s p)
            then upd p (\<lambda>i. i\<lparr>i_OnDisk := False\<rparr>) s else s)
      else s)"

definition resetCache :: "('t, 'd, 'c) gEnv \<Rightarrow> ('t, 'd, 'c) Goofys \<Rightarrow> ptr \<Rightarrow> ('t, 'd, 'c) Goofys option" where
  "resetCache E s p =
     do {
       (s, allocated) \<leftarrow> withBuffers p (\<lambda>l. RemoveRange (bufEnvOf E p) l 0 (u64_max - 1) (\<lambda>_. True)) s;
       let s = s\<lparr>bufferPool_cur := bufferPool_cur s + allocated\<rparr>;
       let s = dropCacheFile E s p;
       let s = (if i_mpu (heap s p) \<noteq> None then abortMultipart s p else s);
       let s = upd p (\<lambda>i. i\<lparr>i_userMetadataDirty := 0\<rparr>) s;
       let s = SetCacheState E s p ST_CACHED;
       Some (SetAttrTime E s p time_zero)
     }"

section \<open>References\<close>

definition Ref :: "('t, 'd, 'c) Goofys \<Rightarrow> ptr \<Rightarrow> ('t, 'd, 'c) Goofys" where
  "Ref s p = upd p (\<lambda>i. i\<lparr>i_refcnt := i_refcnt i + 1\<rparr>) s"

definition DeRef :: "('t, 'd, 'c) gEnv \<Rightarrow> ('t, 'd, 'c) Goofys \<Rightarrow> ptr \<Rightarrow> int \<Rightarrow> (('t, 'd, 'c) Goofys \<times> bool) option" where
  "DeRef E s p n =
     (let res = i_refcnt (heap s p) - n;
          res = (if res < 0 then 0 else res);
          s = upd p (\<lambda>i. i\<lparr>i_refcnt := res\<rparr>) s
      in if res = 0 \<and> i_CacheState (heap s p) \<le> ST_DEAD then
           do {
             s \<leftarrow> resetCache E s p;
             let s = resetExpireTime s p;
             let s = s\<lparr>inodes := (inodes s)(i_Id (heap s p) := None), forgotCnt := forgotCnt s + 1\<rparr>;
             Some (s, True)
           }
         else Some (s, res = 0))"

definition allocateInodeId :: "('t, 'd, 'c) Goofys \<Rightarrow> nat \<times> ('t, 'd, 'c) Goofys" where
  "allocateInodeId s = (nextInodeID s, s\<lparr>nextInodeID := nextInodeID s + 1\<rparr>)"

end
