(* ===== verification/Inode_Frame.thy ===== *)
theory Inode_Frame
  imports Inode_Ops
begin

text \<open>
  What the operations on single inodes leave alone.  Four views of the state are enough for the
  directories: the tree (names, parents, children), the identities (identifiers, references, the
  table of inodes), the buffers with the queue of clean buffers, and the cache states.  For every
  operation a rewrite rule says which views it keeps.
\<close>

section \<open>The views\<close>

text \<open>
  The part of an inode that makes up the tree: its name, its parent and its directory data, apart
  from the count of modified children.
\<close>

definition inode_shape :: "('t, 'd, 'c) Inode \<Rightarrow> string \<times> ptr option \<times> DirInodeData option" where
  "inode_shape i = (i_Name i, i_Parent i, map_option (\<lambda>d. d\<lparr>d_ModifiedChildren := 0\<rparr>) (i_dir i))"

definition tree :: "('t, 'd, 'c) Goofys \<Rightarrow> (ptr \<Rightarrow> string \<times> ptr option \<times> DirInodeData option) \<times> ptr" where
  "tree s = (\<lambda>q. inode_shape (heap s q), nextPtr s)"

lemma treeD:
  assumes "tree s' = tree s"
  shows "i_Name (heap s' q) = i_Name (heap s q)" "i_Parent (heap s' q) = i_Parent (heap s q)"
    "d_Children (dirOf s' q) = d_Children (dirOf s q)" "d_generation (dirOf s' q) = d_generation (dirOf s q)"
    "d_DeletedChildren (dirOf s' q) = d_DeletedChildren (dirOf s q)" "d_cloud (dirOf s' q) = d_cloud (dirOf s q)"
    "d_mountPrefix (dirOf s' q) = d_mountPrefix (dirOf s q)" "isDir s' q = isDir s q" "nextPtr s' = nextPtr s"
proof -
  have sh: "inode_shape (heap s q) = inode_shape (heap s' q)" using assms by (simp add: tree_def fun_eq_iff)
  then show "i_Name (heap s' q) = i_Name (heap s q)" "i_Parent (heap s' q) = i_Parent (heap s q)"
    by (simp_all add: inode_shape_def)
  have d: "(dirOf s q)\<lparr>d_ModifiedChildren := 0\<rparr> = (dirOf s' q)\<lparr>d_ModifiedChildren := 0\<rparr>" "isDir s' q = isDir s q"
    using sh by (cases "i_dir (heap s q)"; cases "i_dir (heap s' q)"; simp add: inode_shape_def dirOf_def isDir_def)+
  then show "isDir s' q = isDir s q" by simp
  show "d_Children (dirOf s' q) = d_Children (dirOf s q)" "d_generation (dirOf s' q) = d_generation (dirOf s q)"
    "d_DeletedChildren (dirOf s' q) = d_DeletedChildren (dirOf s q)" "d_cloud (dirOf s' q) = d_cloud (dirOf s q)"
    "d_mountPrefix (dirOf s' q) = d_mountPrefix (dirOf s q)"
    using arg_cong [OF d(1), of d_Children] arg_cong [OF d(1), of d_generation] arg_cong [OF d(1), of d_DeletedChildren]
      arg_cong [OF d(1), of d_cloud] arg_cong [OF d(1), of d_mountPrefix] by simp_all
  show "nextPtr s' = nextPtr s" using assms by (simp add: tree_def)
qed


lemma upd_simps [simp]:
  "heap (upd p f s) q = (if q = p then f (heap s p) else heap s q)"
  "nextPtr (upd p f s) = nextPtr s" "inodes (upd p f s) = inodes s" "inodeQueue (upd p f s) = inodeQueue s"
  "cleanQueue (upd p f s) = cleanQueue s" "inodesByTime (upd p f s) = inodesByTime s" "nextInodeID (upd p f s) = nextInodeID s"
  "dirHandleHeap (upd p f s) = dirHandleHeap s" "bufferPool_cur (upd p f s) = bufferPool_cur s"
  "diskFds (upd p f s) = diskFds s" "diskFdQueue (upd p f s) = diskFdQueue s" "inflightState (upd p f s) = inflightState s"
  by (simp_all add: upd_def)

lemma updDir_simps [simp]:
  "heap (updDir p f s) q = (if q = p then (heap s p)\<lparr>i_dir := map_option f (i_dir (heap s p))\<rparr> else heap s q)"
  "nextPtr (updDir p f s) = nextPtr s" "inodes (updDir p f s) = inodes s" "inodeQueue (updDir p f s) = inodeQueue s"
  "cleanQueue (updDir p f s) = cleanQueue s" "inodesByTime (updDir p f s) = inodesByTime s" "nextInodeID (updDir p f s) = nextInodeID s"
  "dirHandleHeap (updDir p f s) = dirHandleHeap s" "bufferPool_cur (updDir p f s) = bufferPool_cur s"
  "diskFds (updDir p f s) = diskFds s" "diskFdQueue (updDir p f s) = diskFdQueue s" "inflightState (updDir p f s) = inflightState s"
  by (simp_all add: updDir_def)

lemma dirOf_updDir [simp]:
  "isDir s p \<Longrightarrow> dirOf (updDir p f s) q = (if q = p then f (dirOf s p) else dirOf s q)"
  "isDir (updDir p f s) q = isDir s q"
  by (auto simp: dirOf_def isDir_def)

definition meta :: "('t, 'd, 'c) Inode \<Rightarrow> nat \<times> int \<times> int \<times> ptr option \<times> string \<times> bool \<times> int" where
  "meta i = (i_Id i, i_refcnt i, i_fileHandles i, i_oldParent i, i_oldName i, i_renamingTo i, i_IsFlushing i)"

definition metas :: "('t, 'd, 'c) Goofys \<Rightarrow>
    (ptr \<Rightarrow> nat \<times> int \<times> int \<times> ptr option \<times> string \<times> bool \<times> int) \<times> (nat \<Rightarrow> ptr option) \<times> nat \<times> (nat \<Rightarrow> DirHandle) \<times> inflight" where
  "metas s = (\<lambda>q. meta (heap s q), inodes s, nextInodeID s, dirHandleHeap s, inflightState s)"

definition bufview :: "('t, 'd, 'c) Goofys \<Rightarrow> (ptr \<Rightarrow> ('t, 'd, 'c BufferQueue) BufferList) \<times> 'c BufferQueue" where
  "bufview s = (\<lambda>q. i_buffers (heap s q), cleanQueue s)"

definition states :: "('t, 'd, 'c) Goofys \<Rightarrow> ptr \<Rightarrow> CacheSt" where
  "states s = (\<lambda>q. i_CacheState (heap s q))"

lemma metasD:
  assumes "metas s' = metas s"
  shows "i_Id (heap s' q) = i_Id (heap s q)" "i_refcnt (heap s' q) = i_refcnt (heap s q)"
    "i_fileHandles (heap s' q) = i_fileHandles (heap s q)" "i_oldParent (heap s' q) = i_oldParent (heap s q)"
    "i_oldName (heap s' q) = i_oldName (heap s q)" "i_renamingTo (heap s' q) = i_renamingTo (heap s q)"
    "i_IsFlushing (heap s' q) = i_IsFlushing (heap s q)"
    "inodes s' = inodes s" "nextInodeID s' = nextInodeID s" "dirHandleHeap s' = dirHandleHeap s" "inflightState s' = inflightState s"
  using assms by (auto simp: metas_def meta_def fun_eq_iff)

section \<open>Rewrite rules\<close>

lemma inode_shape_simps [simp]:
  "inode_shape (i\<lparr>i_CacheState := x_CacheState\<rparr>) = inode_shape i"
  "inode_shape (i\<lparr>i_dirtyQueueId := x_dirtyQueueId\<rparr>) = inode_shape i"
  "inode_shape (i\<lparr>i_AttrTime := x_AttrTime\<rparr>) = inode_shape i"
  "inode_shape (i\<lparr>i_ExpireTime := x_ExpireTime\<rparr>) = inode_shape i"
  "inode_shape (i\<lparr>i_buffers := x_buffers\<rparr>) = inode_shape i"
  "inode_shape (i\<lparr>i_OnDisk := x_OnDisk\<rparr>) = inode_shape i"
  "inode_shape (i\<lparr>i_mpu := x_mpu\<rparr>) = inode_shape i"
  "inode_shape (i\<lparr>i_userMetadataDirty := x_userMetadataDirty\<rparr>) = inode_shape i"
  "inode_shape (i\<lparr>i_refcnt := x_refcnt\<rparr>) = inode_shape i"
  "inode_shape (i\<lparr>i_Id := x_Id\<rparr>) = inode_shape i"
  "inode_shape (i\<lparr>i_Attributes := x_Attributes\<rparr>) = inode_shape i"
  "inode_shape (i\<lparr>i_fileHandles := x_fileHandles\<rparr>) = inode_shape i"
  "inode_shape (i\<lparr>i_flushError := x_flushError\<rparr>) = inode_shape i"
  "inode_shape (i\<lparr>i_flushErrorTime := x_flushErrorTime\<rparr>) = inode_shape i"
  "inode_shape (i\<lparr>i_userMetadata := x_userMetadata\<rparr>) = inode_shape i"
  "inode_shape (i\<lparr>i_s3Metadata := x_s3Metadata\<rparr>) = inode_shape i"
  "inode_shape (i\<lparr>i_knownSize := x_knownSize\<rparr>) = inode_shape i"
  "inode_shape (i\<lparr>i_knownETag := x_knownETag\<rparr>) = inode_shape i"
  by (simp_all add: inode_shape_def)

lemma meta_simps [simp]:
  "meta (i\<lparr>i_CacheState := x_CacheState\<rparr>) = meta i"
  "meta (i\<lparr>i_dirtyQueueId := x_dirtyQueueId\<rparr>) = meta i"
  "meta (i\<lparr>i_AttrTime := x_AttrTime\<rparr>) = meta i"
  "meta (i\<lparr>i_ExpireTime := x_ExpireTime\<rparr>) = meta i"
  "meta (i\<lparr>i_buffers := x_buffers\<rparr>) = meta i"
  "meta (i\<lparr>i_OnDisk := x_OnDisk\<rparr>) = meta i"
  "meta (i\<lparr>i_mpu := x_mpu\<rparr>) = meta i"
  "meta (i\<lparr>i_userMetadataDirty := x_userMetadataDirty\<rparr>) = meta i"
  "meta (i\<lparr>i_Attributes := x_Attributes\<rparr>) = meta i"
  "meta (i\<lparr>i_flushError := x_flushError\<rparr>) = meta i"
  "meta (i\<lparr>i_flushErrorTime := x_flushErrorTime\<rparr>) = meta i"
  "meta (i\<lparr>i_userMetadata := x_userMetadata\<rparr>) = meta i"
  "meta (i\<lparr>i_s3Metadata := x_s3Metadata\<rparr>) = meta i"
  "meta (i\<lparr>i_knownSize := x_knownSize\<rparr>) = meta i"
  "meta (i\<lparr>i_knownETag := x_knownETag\<rparr>) = meta i"
  "meta (i\<lparr>i_dir := x_dir\<rparr>) = meta i"
  by (simp_all add: meta_def)

lemma tree_upd [simp]: "inode_shape (f (heap s p)) = inode_shape (heap s p) \<Longrightarrow> tree (upd p f s) = tree s"
  by (auto simp: tree_def)

lemma metas_upd [simp]: "meta (f (heap s p)) = meta (heap s p) \<Longrightarrow> metas (upd p f s) = metas s"
  by (auto simp: metas_def)

lemma bufview_upd [simp]: "i_buffers (f (heap s p)) = i_buffers (heap s p) \<Longrightarrow> bufview (upd p f s) = bufview s"
  by (auto simp: bufview_def)

lemma states_upd [simp]: "states (upd p f s) = (states s)(p := i_CacheState (f (heap s p)))"
  by (auto simp: states_def)

lemma states_self [simp]: "(states s)(p := i_CacheState (heap s p)) = states s"
  by (auto simp: states_def)

lemma tree_updDir [simp]:
  "(\<And>d. (f d)\<lparr>d_ModifiedChildren := 0\<rparr> = d\<lparr>d_ModifiedChildren := 0\<rparr>) \<Longrightarrow> tree (updDir p f s) = tree s"
  by (auto simp: tree_def inode_shape_def option.map_comp comp_def)

lemma views_updDir [simp]:
  "metas (updDir p f s) = metas s" "bufview (updDir p f s) = bufview s" "states (updDir p f s) = states s"
  by (simp_all add: updDir_def)

lemma tree_fields [simp]:
  "tree (s\<lparr>inodeQueue := x_inodeQueue\<rparr>) = tree s"
  "tree (s\<lparr>cleanQueue := x_cleanQueue\<rparr>) = tree s"
  "tree (s\<lparr>inodesByTime := x_inodesByTime\<rparr>) = tree s"
  "tree (s\<lparr>bufferPool_cur := x_bufferPool_cur\<rparr>) = tree s"
  "tree (s\<lparr>aborted := x_aborted\<rparr>) = tree s"
  "tree (s\<lparr>inodes := x_inodes\<rparr>) = tree s"
  "tree (s\<lparr>forgotCnt := x_forgotCnt\<rparr>) = tree s"
  "tree (s\<lparr>diskFdQueue := x_diskFdQueue\<rparr>) = tree s"
  "tree (s\<lparr>diskFds := x_diskFds\<rparr>) = tree s"
  "tree (s\<lparr>nextInodeID := x_nextInodeID\<rparr>) = tree s"
  "tree (s\<lparr>flushPending := x_flushPending\<rparr>) = tree s"
  "tree (s\<lparr>notified := x_notified\<rparr>) = tree s"
  "tree (s\<lparr>dirHandleHeap := x_dirHandleHeap\<rparr>) = tree s"
  "tree (s\<lparr>inflightState := x_inflightState\<rparr>) = tree s"
  "tree (s\<lparr>flushRetrySet := x_flushRetrySet\<rparr>) = tree s"
  "tree (s\<lparr>activeFlushers := x_activeFlushers\<rparr>) = tree s"
  by (simp_all add: tree_def)

lemma metas_fields [simp]:
  "metas (s\<lparr>inodeQueue := x_inodeQueue\<rparr>) = metas s"
  "metas (s\<lparr>cleanQueue := x_cleanQueue\<rparr>) = metas s"
  "metas (s\<lparr>inodesByTime := x_inodesByTime\<rparr>) = metas s"
  "metas (s\<lparr>bufferPool_cur := x_bufferPool_cur\<rparr>) = metas s"
  "metas (s\<lparr>aborted := x_aborted\<rparr>) = metas s"
  "metas (s\<lparr>forgotCnt := x_forgotCnt\<rparr>) = metas s"
  "metas (s\<lparr>diskFdQueue := x_diskFdQueue\<rparr>) = metas s"
  "metas (s\<lparr>diskFds := x_diskFds\<rparr>) = metas s"
  "metas (s\<lparr>flushPending := x_flushPending\<rparr>) = metas s"
  "metas (s\<lparr>notified := x_notified\<rparr>) = metas s"
  "metas (s\<lparr>flushRetrySet := x_flushRetrySet\<rparr>) = metas s"
  "metas (s\<lparr>activeFlushers := x_activeFlushers\<rparr>) = metas s"
  by (simp_all add: metas_def)

lemma bufview_fields [simp]:
  "bufview (s\<lparr>inodeQueue := x_inodeQueue\<rparr>) = bufview s"
  "bufview (s\<lparr>inodesByTime := x_inodesByTime\<rparr>) = bufview s"
  "bufview (s\<lparr>bufferPool_cur := x_bufferPool_cur\<rparr>) = bufview s"
  "bufview (s\<lparr>aborted := x_aborted\<rparr>) = bufview s"
  "bufview (s\<lparr>inodes := x_inodes\<rparr>) = bufview s"
  "bufview (s\<lparr>forgotCnt := x_forgotCnt\<rparr>) = bufview s"
  "bufview (s\<lparr>diskFdQueue := x_diskFdQueue\<rparr>) = bufview s"
  "bufview (s\<lparr>diskFds := x_diskFds\<rparr>) = bufview s"
  "bufview (s\<lparr>nextInodeID := x_nextInodeID\<rparr>) = bufview s"
  "bufview (s\<lparr>flushPending := x_flushPending\<rparr>) = bufview s"
  "bufview (s\<lparr>notified := x_notified\<rparr>) = bufview s"
  "bufview (s\<lparr>dirHandleHeap := x_dirHandleHeap\<rparr>) = bufview s"
  "bufview (s\<lparr>inflightState := x_inflightState\<rparr>) = bufview s"
  "bufview (s\<lparr>flushRetrySet := x_flushRetrySet\<rparr>) = bufview s"
  "bufview (s\<lparr>activeFlushers := x_activeFlushers\<rparr>) = bufview s"
  by (simp_all add: bufview_def)

lemma states_fields [simp]:
  "states (s\<lparr>inodeQueue := x_inodeQueue\<rparr>) = states s"
  "states (s\<lparr>cleanQueue := x_cleanQueue\<rparr>) = states s"
  "states (s\<lparr>inodesByTime := x_inodesByTime\<rparr>) = states s"
  "states (s\<lparr>bufferPool_cur := x_bufferPool_cur\<rparr>) = states s"
  "states (s\<lparr>aborted := x_aborted\<rparr>) = states s"
  "states (s\<lparr>inodes := x_inodes\<rparr>) = states s"
  "states (s\<lparr>forgotCnt := x_forgotCnt\<rparr>) = states s"
  "states (s\<lparr>diskFdQueue := x_diskFdQueue\<rparr>) = states s"
  "states (s\<lparr>diskFds := x_diskFds\<rparr>) = states s"
  "states (s\<lparr>nextInodeID := x_nextInodeID\<rparr>) = states s"
  "states (s\<lparr>flushPending := x_flushPending\<rparr>) = states s"
  "states (s\<lparr>notified := x_notified\<rparr>) = states s"
  "states (s\<lparr>dirHandleHeap := x_dirHandleHeap\<rparr>) = states s"
  "states (s\<lparr>inflightState := x_inflightState\<rparr>) = states s"
  "states (s\<lparr>flushRetrySet := x_flushRetrySet\<rparr>) = states s"
  "states (s\<lparr>activeFlushers := x_activeFlushers\<rparr>) = states s"
  by (simp_all add: states_def)

lemma fold_view: "(\<And>q s. V (f q s) = V s) \<Longrightarrow> V (fold f xs s) = V s"
  by (induction xs arbitrary: s) auto

lemma addModified_views [simp]:
  "tree (addModified s p inc) = tree s" "metas (addModified s p inc) = metas s"
  "bufview (addModified s p inc) = bufview s" "states (addModified s p inc) = states s"
  unfolding addModified_def by (rule fold_view; simp)+

lemma SetExpireTime_views [simp]:
  "tree (SetExpireTime s p tm) = tree s" "metas (SetExpireTime s p tm) = metas s"
  "bufview (SetExpireTime s p tm) = bufview s" "states (SetExpireTime s p tm) = states s"
  by (simp_all add: SetExpireTime_def Let_def)

lemma SetAttrTime_views [simp]:
  "tree (SetAttrTime E s p tm) = tree s" "metas (SetAttrTime E s p tm) = metas s"
  "bufview (SetAttrTime E s p tm) = bufview s" "states (SetAttrTime E s p tm) = states s"
  by (simp_all add: SetAttrTime_def)

lemma resetExpireTime_views [simp]:
  "tree (resetExpireTime s p) = tree s" "metas (resetExpireTime s p) = metas s"
  "bufview (resetExpireTime s p) = bufview s" "states (resetExpireTime s p) = states s"
  by (simp_all add: resetExpireTime_def Let_def)

lemma SetCacheState_views [simp]:
  "tree (SetCacheState E s p st) = tree s" "metas (SetCacheState E s p st) = metas s"
  "bufview (SetCacheState E s p st) = bufview s" "states (SetCacheState E s p st) = (states s)(p := st)"
  by (auto simp add: SetCacheState_def Let_def fun_upd_twist split: prod.splits)

lemma dropCacheFile_views [simp]:
  "tree (dropCacheFile E s p) = tree s" "metas (dropCacheFile E s p) = metas s"
  "bufview (dropCacheFile E s p) = bufview s" "states (dropCacheFile E s p) = states s"
  by (simp_all add: dropCacheFile_def Let_def split: prod.splits)

lemma abortMultipart_views [simp]:
  "tree (abortMultipart s p) = tree s" "metas (abortMultipart s p) = metas s"
  "bufview (abortMultipart s p) = bufview s" "states (abortMultipart s p) = states s"
  by (simp_all add: abortMultipart_def split: option.splits)

lemma touch_views [simp]:
  "tree (touch now s p) = tree s" "metas (touch now s p) = metas s"
  "bufview (touch now s p) = bufview s" "states (touch now s p) = states s"
  by (simp_all add: touch_def)

lemma WakeupFlusher_views [simp]:
  "tree (WakeupFlusher s) = tree s" "metas (WakeupFlusher s) = metas s"
  "bufview (WakeupFlusher s) = bufview s" "states (WakeupFlusher s) = states s"
  by (simp_all add: WakeupFlusher_def)

lemma recordFlushError_views [simp]:
  "tree (recordFlushError now s p e) = tree s" "metas (recordFlushError now s p e) = metas s"
  "bufview (recordFlushError now s p e) = bufview s" "states (recordFlushError now s p e) = states s"
  by (simp_all add: recordFlushError_def ScheduleRetryFlush_def)

lemma Ref_views [simp]:
  "tree (Ref s p) = tree s" "bufview (Ref s p) = bufview s" "states (Ref s p) = states s"
  by (simp_all add: Ref_def)

end
