(* ===== verification/Inode_Reset.thy ===== *)
theory Inode_Reset
  imports Inode_Frame
begin

text \<open>
  Dropping the cache of an inode and its references cannot fail: in a state whose buffer lists are
  all well formed (\<open>bufs_ok\<close>), \<open>resetCache\<close> and \<open>DeRef\<close> return, keep every buffer list of the file
  system well formed although the queue of clean buffers is shared, and change nothing else but the
  fields they mean to change.
\<close>

definition env_ok :: "('t, 'd, 'c) gEnv \<Rightarrow> bool" where
  "env_ok E \<longleftrightarrow> btree_map (g_A E) \<and> btree_map (g_D E) \<and> btree_map (g_C E) \<and> parts_ok (g_parts E)"

definition bufs_ok :: "('t, 'd, 'c) gEnv \<Rightarrow> ('t, 'd, 'c) Goofys \<Rightarrow> bool" where
  "bufs_ok E s \<longleftrightarrow> bq_ok (g_C E) (cleanQueue s) \<and>
     (\<forall>p \<ge> nextPtr s. bq_view (g_C E) p (cleanQueue s) = Map.empty) \<and>
     (\<forall>p < nextPtr s.
        file_inv (g_A E) (g_D E) (g_C E) (g_parts E) p ((i_buffers (heap s p))\<lparr>bl_helpers := cleanQueue s\<rparr>))"

lemma bufs_ok_cong:
  assumes "bufview s' = bufview s" "tree s' = tree s"
  shows "bufs_ok E s' = bufs_ok E s"
proof -
  have "i_buffers (heap s' p) = i_buffers (heap s p)" "cleanQueue s' = cleanQueue s" for p
    using assms(1) by (auto simp: bufview_def fun_eq_iff)
  with treeD(9) [OF assms(2)] show ?thesis by (simp add: bufs_ok_def)
qed

lemma file_inv_helpers:
  assumes "file_inv A D C ps j (l\<lparr>bl_helpers := h\<rparr>)" "bq_ok C h'" "bq_view C j h' = bq_view C j h"
  shows "file_inv A D C ps j (l\<lparr>bl_helpers := h'\<rparr>)"
  using assms unfolding file_inv_def BL_inv_def acct_def
  by (simp add: bufs_def mem_ok_def buf_mem_ok_def pcount_def cong: option.case_cong)

lemma bufs_okI:
  assumes ok: "bufs_ok E s" and p: "p < nextPtr s"
    and l: "BL_inv (bufEnvOf E p) (getMaxFileSize (g_parts E)) (bq_frame (g_C E) p (\<lambda>j. bq_view (g_C E) j (cleanQueue s))) (bq_view (g_C E) p) l"
  shows "bufs_ok E ((upd p (\<lambda>i. i\<lparr>i_buffers := l\<rparr>) s)\<lparr>cleanQueue := bl_helpers l\<rparr>)"
proof -
  let ?inv = "file_inv (g_A E) (g_D E) (g_C E) (g_parts E)"
  have l': "?inv p l" "\<And>j. j \<noteq> p \<Longrightarrow> bq_view (g_C E) j (bl_helpers l) = bq_view (g_C E) j (cleanQueue s)"
    using l by (simp_all add: bufEnvOf_def file_frame)
  have q: "bq_ok (g_C E) (bl_helpers l)" using l'(1) by (simp add: file_inv_def BL_inv_def acct_def)
  have "?inv j ((i_buffers (heap s j))\<lparr>bl_helpers := bl_helpers l\<rparr>)" if "j < nextPtr s" "j \<noteq> p" for j
  proof -
    have "?inv j ((i_buffers (heap s j))\<lparr>bl_helpers := cleanQueue s\<rparr>)" using ok that by (simp add: bufs_ok_def)
    then show ?thesis by (rule file_inv_helpers [OF _ q l'(2) [OF that(2)]])
  qed
  moreover have "\<forall>j \<ge> nextPtr s. bq_view (g_C E) j (bl_helpers l) = Map.empty"
    using ok p l'(2) by (auto simp: bufs_ok_def)
  ultimately show ?thesis using l'(1) q unfolding bufs_ok_def by simp
qed

lemma bufs_okD:
  assumes "bufs_ok E s" "p < nextPtr s"
  shows "BL_inv (bufEnvOf E p) (getMaxFileSize (g_parts E)) (bq_frame (g_C E) p (\<lambda>j. bq_view (g_C E) j (cleanQueue s))) (bq_view (g_C E) p)
    ((i_buffers (heap s p))\<lparr>bl_helpers := cleanQueue s\<rparr>)"
  using assms by (simp add: bufs_ok_def bufEnvOf_def file_frame)

lemma bufEnvOf_env:
  "env_ok E \<Longrightarrow> buffer_env (bufEnvOf E p) (getMaxFileSize (g_parts E)) (bq_frame (g_C E) p V) (bq_view (g_C E) p)"
  unfolding env_ok_def bufEnvOf_def by (intro inode_buffer_env_frame) auto

lemma drop_buffers_ok:
  assumes E: "env_ok E" and ok: "bufs_ok E s" and p: "p < nextPtr s"
  shows "\<exists>s' n. withBuffers p (\<lambda>l. RemoveRange (bufEnvOf E p) l 0 (u64_max - 1) (\<lambda>_. True)) s = Some (s', n) \<and>
    bufs_ok E s' \<and> tree s' = tree s \<and> metas s' = metas s \<and> states s' = states s"
proof -
  have sz: "0 < u64_max - 1" "0 + (u64_max - 1) < u64_max" by (simp_all add: u64_max_def)
  obtain l n where l: "RemoveRange (bufEnvOf E p) ((i_buffers (heap s p))\<lparr>bl_helpers := cleanQueue s\<rparr>) 0 (u64_max - 1) (\<lambda>_. True) = Some (l, n)"
    "BL_inv (bufEnvOf E p) (getMaxFileSize (g_parts E)) (bq_frame (g_C E) p (\<lambda>j. bq_view (g_C E) j (cleanQueue s))) (bq_view (g_C E) p) l"
    using buffer_env.RemoveRange_cells [OF bufEnvOf_env [OF E] bufs_okD [OF ok p] sz, of "\<lambda>_. True" "\<lambda>_. True"] by auto
  then show ?thesis
    using bufs_okI [OF ok p l(2)] by (auto simp: withBuffers_def)
qed

lemma resetCache_ok:
  assumes E: "env_ok E" and ok: "bufs_ok E s" and p: "p < nextPtr s"
  shows "\<exists>s'. resetCache E s p = Some s' \<and> bufs_ok E s' \<and> tree s' = tree s \<and> metas s' = metas s \<and>
    states s' = (states s)(p := ST_CACHED)"
proof -
  obtain s1 n where s1: "withBuffers p (\<lambda>l. RemoveRange (bufEnvOf E p) l 0 (u64_max - 1) (\<lambda>_. True)) s = Some (s1, n)"
    "bufs_ok E s1" "tree s1 = tree s" "metas s1 = metas s" "states s1 = states s"
    using drop_buffers_ok [OF assms] by blast
  have "\<exists>s'. resetCache E s p = Some s' \<and> bufview s' = bufview s1 \<and> tree s' = tree s1 \<and> metas s' = metas s1 \<and>
    states s' = (states s1)(p := ST_CACHED)"
    by (simp add: resetCache_def s1(1) Let_def del: One_nat_def)
  with s1 bufs_ok_cong show ?thesis by fastforce
qed

lemma DeRef_ok:
  assumes E: "env_ok E" and ok: "bufs_ok E s" and p: "p < nextPtr s"
  shows "\<exists>s' b. DeRef E s p n = Some (s', b) \<and> bufs_ok E s' \<and> tree s' = tree s \<and>
    (\<forall>q. meta (heap s' q) = meta ((heap s q)\<lparr>i_refcnt := (if q = p then max 0 (i_refcnt (heap s q) - n) else i_refcnt (heap s q))\<rparr>)) \<and>
    (if i_refcnt (heap s p) \<le> n \<and> i_CacheState (heap s p) \<le> ST_DEAD
     then states s' = (states s)(p := ST_CACHED) \<and> inodes s' = (inodes s)(i_Id (heap s p) := None)
     else states s' = states s \<and> inodes s' = inodes s) \<and>
    nextInodeID s' = nextInodeID s \<and> dirHandleHeap s' = dirHandleHeap s \<and> inflightState s' = inflightState s"
proof -
  let ?r = "max 0 (i_refcnt (heap s p) - n)"
  let ?s1 = "upd p (\<lambda>i. i\<lparr>i_refcnt := ?r\<rparr>) s"
  have s1: "bufs_ok E ?s1" "p < nextPtr ?s1" using ok p bufs_ok_cong [of ?s1 s E] by simp_all
  obtain s2 where s2: "resetCache E ?s1 p = Some s2" "bufs_ok E s2" "tree s2 = tree s" "metas s2 = metas ?s1"
    "states s2 = (states s)(p := ST_CACHED)"
    using resetCache_ok [OF E s1] by auto
  have r: "(if i_refcnt (heap s p) - n < 0 then 0 else i_refcnt (heap s p) - n) = ?r" "?r = 0 \<longleftrightarrow> i_refcnt (heap s p) \<le> n" by auto
  show ?thesis
  proof (cases "i_refcnt (heap s p) \<le> n \<and> i_CacheState (heap s p) \<le> ST_DEAD")
    case True
    let ?s3 = "resetExpireTime s2 p"
    let ?s4 = "?s3\<lparr>inodes := (inodes ?s3)(i_Id (heap ?s3 p) := None), forgotCnt := forgotCnt ?s3 + 1\<rparr>"
    have d: "DeRef E s p n = Some (?s4, True)"
      using True s2(1) by (simp add: DeRef_def Let_def r)
    have m: "metas ?s3 = metas ?s1" using s2(4) by simp
    have "bufs_ok E ?s4" using s2(2) bufs_ok_cong [of ?s4 s2 E] by simp
    moreover have "meta (heap ?s4 q) = meta (heap ?s1 q)" for q using m by (simp add: metas_def fun_eq_iff)
    ultimately show ?thesis
      using True d s2 metasD(1,8-11) [OF m] by (auto simp: meta_def)
  next
    case False
    then have "DeRef E s p n = Some (?s1, ?r = 0)" by (auto simp: DeRef_def Let_def r)
    with False s1 show ?thesis by (auto simp: meta_def)
  qed
qed

end
