(* ===== verification/Dir_Children.thy ===== *)
theory Dir_Children
  imports Inode_Reset
begin

text \<open>
  The children of a directory (\<open>core/dir.go\<close>): a slice of inodes sorted by name, searched by
  bisection.  The theory shows that the slice implements a finite map from names to inodes, and
  that every change that can move an entry of the slice bumps the generation of the directory.
\<close>

section \<open>Model\<close>

definition findInodeFunc :: "('t, 'd, 'c) Goofys \<Rightarrow> ptr \<Rightarrow> string \<Rightarrow> nat \<Rightarrow> bool" where
  "findInodeFunc s parent name =
     (if name = [] then (\<lambda>i. True) else (\<lambda>i. i_Name (heap s (d_Children (dirOf s parent) ! i)) \<ge> name))"

definition findChildUnlocked :: "('t, 'd, 'c) Goofys \<Rightarrow> ptr \<Rightarrow> string \<Rightarrow> ptr option" where
  "findChildUnlocked s parent name =
     (let cs = d_Children (dirOf s parent); l = length cs in
      if l = 0 then None
      else let i = sort_search l (findInodeFunc s parent name) in
           if i < l \<and> i_Name (heap s (cs ! i)) = name then Some (cs ! i) else None)"

definition findChildIdxUnlocked :: "('t, 'd, 'c) Goofys \<Rightarrow> ptr \<Rightarrow> string \<Rightarrow> int" where
  "findChildIdxUnlocked s parent name =
     (let cs = d_Children (dirOf s parent); l = length cs in
      if l = 0 then - 1
      else let i = sort_search l (findInodeFunc s parent name) in
           if i < l \<and> i_Name (heap s (cs ! i)) = name then int i else - 1)"

definition insertChildUnlocked :: "('t, 'd, 'c) Goofys \<Rightarrow> ptr \<Rightarrow> ptr \<Rightarrow> ('t, 'd, 'c) Goofys option" where
  "insertChildUnlocked s0 parent inode =
     (let s = Ref s0 inode; cs = d_Children (dirOf s parent); l = length cs in
      if l = 0 then Some (updDir parent (\<lambda>d. d\<lparr>d_Children := [inode]\<rparr>) s)
      else
        let i = sort_search l (findInodeFunc s parent (i_Name (heap s inode))) in
        if i = l then Some (updDir parent (\<lambda>d. d\<lparr>d_Children := cs @ [inode]\<rparr>) s)
        else if i_Name (heap s (cs ! i)) = i_Name (heap s inode) then None
        else Some (updDir parent (\<lambda>d. d\<lparr>d_generation := Suc (d_generation d),
                     d_lastOpenDirIdx := (if d_lastOpenDirIdx d \<ge> int i then d_lastOpenDirIdx d + 1 else d_lastOpenDirIdx d),
                     d_Children := take i cs @ [inode] @ drop i cs\<rparr>) s))"

definition removeChildUnlocked :: "('t, 'd, 'c) gEnv \<Rightarrow> ('t, 'd, 'c) Goofys \<Rightarrow> ptr \<Rightarrow> ptr \<Rightarrow> ('t, 'd, 'c) Goofys option" where
  "removeChildUnlocked E s parent inode =
     (let cs = d_Children (dirOf s parent); l = length cs in
      if l = 0 then Some s
      else
        let i = sort_search l (findInodeFunc s parent (i_Name (heap s inode))) in
        if i \<ge> l \<or> i_Name (heap s (cs ! i)) \<noteq> i_Name (heap s inode) then None
        else
          let s = updDir parent (\<lambda>d. d\<lparr>d_generation := Suc (d_generation d),
                     d_lastOpenDirIdx := (if d_lastOpenDirIdx d \<ge> int i then d_lastOpenDirIdx d - 1 else d_lastOpenDirIdx d),
                     d_Children := take i cs @ drop (Suc i) cs\<rparr>) s
          in map_option fst (DeRef E s inode 1))"

text \<open>The recursion into subdirectories is bounded by the number of inodes; the loop over the
  children reads a list that the calls do not change.\<close>

fun removeAllChildrenUnlocked :: "nat \<Rightarrow> ('t, 'd, 'c) gEnv \<Rightarrow> ('t, 'd, 'c) Goofys \<Rightarrow> ptr \<Rightarrow> ('t, 'd, 'c) Goofys option"
and removeChildren_loop :: "nat \<Rightarrow> ('t, 'd, 'c) gEnv \<Rightarrow> ('t, 'd, 'c) Goofys \<Rightarrow> ptr list \<Rightarrow> ('t, 'd, 'c) Goofys option" where
  "removeAllChildrenUnlocked 0 E s parent = None"
| "removeAllChildrenUnlocked (Suc n) E s parent =
     do {
       s \<leftarrow> removeChildren_loop n E s (d_Children (dirOf s parent));
       Some (updDir parent (\<lambda>d. d\<lparr>d_generation := Suc (d_generation d), d_Children := []\<rparr>) s)
     }"
| "removeChildren_loop n E s [] = Some s"
| "removeChildren_loop n E s (child # cs) =
     do {
       s \<leftarrow> (if isDir s child then removeAllChildrenUnlocked n E s child else Some s);
       (s, _) \<leftarrow> DeRef E s child 1;
       removeChildren_loop n E s cs
     }"

definition removeChild :: "('t, 'd, 'c) gEnv \<Rightarrow> ('t, 'd, 'c) Goofys \<Rightarrow> ptr \<Rightarrow> ptr \<Rightarrow> ('t, 'd, 'c) Goofys option" where
  "removeChild E s parent inode =
     (let cs = d_Children (dirOf s parent); l = length cs;
          i = sort_search l (findInodeFunc s parent (i_Name (heap s inode)))
      in if i \<ge> l \<or> cs ! i \<noteq> inode then Some s else removeChildUnlocked E s parent inode)"

definition insertInode :: "('t, 'd, 'c) Goofys \<Rightarrow> ptr \<Rightarrow> ptr \<Rightarrow> ('t, 'd, 'c) Goofys option" where
  "insertInode s parent inode =
     (if i_Id (heap s inode) \<noteq> 0 then None
      else do {
        let (newId, s) = allocateInodeId s;
        let s = upd inode (\<lambda>i. i\<lparr>i_Id := newId\<rparr>) s;
        s \<leftarrow> insertChildUnlocked s parent inode;
        Some (s\<lparr>inodes := (inodes s)(newId \<mapsto> inode)\<rparr>)
      })"

function findPath :: "('t, 'd, 'c) Goofys \<Rightarrow> ptr option \<Rightarrow> string \<Rightarrow> ptr option" where
  "findPath s None path = None"
| "findPath s (Some dir) path =
     (if \<not> isDir s dir then None
      else case go_index ''/'' path of
             None \<Rightarrow> findChildUnlocked s dir path
           | Some idx \<Rightarrow> findPath s (findChildUnlocked s dir (take idx path)) (drop (idx + 1) path))"
  by pat_completeness auto
termination
proof (relation "measure (\<lambda>(s, p, path). length path)")
  fix s :: "('t, 'd, 'c) Goofys" and dir path x
  assume "go_index ''/'' path = Some x"
  then show "((s, findChildUnlocked s dir (take x path), drop (x + 1) path), s, Some dir, path) \<in> measure (\<lambda>(s, p, path). length path)"
    using go_index_slash [of "CHR ''/''" path x] by auto
qed simp

section \<open>The children as a map\<close>

definition cnames :: "('t, 'd, 'c) Goofys \<Rightarrow> ptr \<Rightarrow> string list" where
  "cnames s parent = map (\<lambda>c. i_Name (heap s c)) (d_Children (dirOf s parent))"

definition dir_ok :: "('t, 'd, 'c) Goofys \<Rightarrow> ptr \<Rightarrow> bool" where
  "dir_ok s parent \<longleftrightarrow> isDir s parent \<and> sorted_wrt (<) (cnames s parent)"

definition entries :: "('t, 'd, 'c) Goofys \<Rightarrow> ptr \<Rightarrow> string \<Rightarrow> ptr option" where
  "entries s parent = map_of (zip (cnames s parent) (d_Children (dirOf s parent)))"

lemma cnames_tree: "tree s' = tree s \<Longrightarrow> cnames s' parent = cnames s parent"
  using treeD [of s' s] by (simp add: cnames_def)

lemma dir_ok_tree: "tree s' = tree s \<Longrightarrow> dir_ok s' parent = dir_ok s parent"
  using treeD(8) [of s' s] cnames_tree [of s' s] by (simp add: dir_ok_def)

lemma entries_tree: "tree s' = tree s \<Longrightarrow> entries s' parent = entries s parent"
  using treeD(3) [of s' s] cnames_tree [of s' s] by (simp add: entries_def)

lemma findInodeFunc_iff:
  "k < length (d_Children (dirOf s parent)) \<Longrightarrow> findInodeFunc s parent name k \<longleftrightarrow> name \<le> cnames s parent ! k"
  by (auto simp: findInodeFunc_def cnames_def)

lemma child_search:
  fixes name :: string
  assumes "dir_ok s parent"
  defines "i \<equiv> sort_search (length (d_Children (dirOf s parent))) (findInodeFunc s parent name)"
  shows "i \<le> length (d_Children (dirOf s parent))" "\<And>k. k < i \<Longrightarrow> cnames s parent ! k < name"
    "\<And>k. i \<le> k \<Longrightarrow> k < length (d_Children (dirOf s parent)) \<Longrightarrow> name \<le> cnames s parent ! k"
proof -
  let ?n = "length (d_Children (dirOf s parent))"
  have len: "length (cnames s parent) = ?n" by (simp add: cnames_def)
  have mono: "findInodeFunc s parent name b" if "a \<le> b" "b < ?n" "findInodeFunc s parent name a" for a b
  proof (cases "a = b")
    case False
    with that assms(1) len have "cnames s parent ! a < cnames s parent ! b" by (auto simp: dir_ok_def sorted_wrt_nth_less)
    with that show ?thesis by (simp add: findInodeFunc_iff)
  qed (use that in simp)
  have "search_split ?n (findInodeFunc s parent name) i" unfolding i_def by (rule sort_search_spec) (rule mono)
  then show "i \<le> ?n" "\<And>k. k < i \<Longrightarrow> cnames s parent ! k < name" "\<And>k. i \<le> k \<Longrightarrow> k < ?n \<Longrightarrow> name \<le> cnames s parent ! k"
    unfolding search_split_def by (force simp: findInodeFunc_iff not_le)+
qed

lemma entries_at:
  assumes "dir_ok s parent" "k < length (d_Children (dirOf s parent))"
  shows "entries s parent (cnames s parent ! k) = Some (d_Children (dirOf s parent) ! k)"
proof -
  have "distinct (cnames s parent)" using assms(1) by (auto simp: dir_ok_def strict_sorted_iff)
  with assms(2) show ?thesis unfolding entries_def by (subst map_of_zip_nth) (auto simp: cnames_def)
qed

lemma entries_None: "entries s parent name = None \<longleftrightarrow> name \<notin> set (cnames s parent)"
  unfolding entries_def by (subst map_of_zip_is_None) (auto simp: cnames_def)

lemma entries_Some:
  assumes "entries s parent name = Some c"
  shows "c \<in> set (d_Children (dirOf s parent))" "i_Name (heap s c) = name"
proof -
  have "(name, c) \<in> set (zip (cnames s parent) (d_Children (dirOf s parent)))"
    using assms unfolding entries_def by (rule map_of_SomeD)
  then show "c \<in> set (d_Children (dirOf s parent))" "i_Name (heap s c) = name"
    by (auto simp: cnames_def in_set_zip)
qed

lemma search_found:
  fixes name :: string
  assumes ok: "dir_ok s parent"
  defines "i \<equiv> sort_search (length (d_Children (dirOf s parent))) (findInodeFunc s parent name)"
  shows "(if i < length (d_Children (dirOf s parent)) \<and> i_Name (heap s (d_Children (dirOf s parent) ! i)) = name
      then Some (d_Children (dirOf s parent) ! i) else None) = entries s parent name"
proof -
  let ?cs = "d_Children (dirOf s parent)"
  note search = child_search [OF ok, where name = name, folded i_def]
  have nm: "cnames s parent ! k = i_Name (heap s (?cs ! k))" if "k < length ?cs" for k using that by (simp add: cnames_def)
  show ?thesis
  proof (cases "name \<in> set (cnames s parent)")
    case True
    then obtain k where k: "k < length ?cs" "cnames s parent ! k = name" by (auto simp: in_set_conv_nth cnames_def)
    have "i \<le> k" using search(2) [of k] k(2) by (metis not_le order.irrefl)
    moreover have "\<not> i < k"
    proof
      assume "i < k"
      then have "cnames s parent ! i < name"
        using ok k sorted_wrt_nth_less [of "(<)" "cnames s parent" i k] by (auto simp: dir_ok_def cnames_def)
      with search(3) [of i] \<open>i < k\<close> k(1) show False by (simp add: not_le [symmetric])
    qed
    ultimately have "i = k" by simp
    with k nm [OF k(1)] entries_at [OF ok k(1)] show ?thesis by simp
  next
    case False
    then have "\<not> (i < length ?cs \<and> i_Name (heap s (?cs ! i)) = name)" by (auto simp: cnames_def)
    with False entries_None show ?thesis by metis
  qed
qed

text \<open>The search by bisection is the lookup in the map.\<close>

lemma findChildUnlocked_entries: "dir_ok s parent \<Longrightarrow> findChildUnlocked s parent name = entries s parent name"
  using search_found [of s parent name] by (auto simp: findChildUnlocked_def Let_def entries_def)

lemma findChildIdxUnlocked_entries:
  assumes "dir_ok s parent"
  shows "findChildIdxUnlocked s parent name = - 1 \<longleftrightarrow> entries s parent name = None"
    "entries s parent name = Some c \<Longrightarrow> d_Children (dirOf s parent) ! nat (findChildIdxUnlocked s parent name) = c"
  using search_found [OF assms, of name]
  by (auto simp: findChildIdxUnlocked_def Let_def entries_def split: if_splits dest: sym)

section \<open>Insertion and removal\<close>

definition setDir :: "ptr \<Rightarrow> DirInodeData \<Rightarrow> ('t, 'd, 'c) Goofys \<Rightarrow> ('t, 'd, 'c) Goofys" where
  "setDir p d = upd p (\<lambda>i. i\<lparr>i_dir := Some d\<rparr>)"

lemma updDir_setDir: "isDir s p \<Longrightarrow> updDir p f s = setDir p (f (dirOf s p)) s"
  by (auto simp: updDir_def setDir_def upd_def isDir_def dirOf_def)

lemma setDir_simps [simp]:
  "dirOf (setDir p d s) q = (if q = p then d else dirOf s q)" "isDir (setDir p d s) q = (q = p \<or> isDir s q)"
  "i_Name (heap (setDir p d s) q) = i_Name (heap s q)" "i_Parent (heap (setDir p d s) q) = i_Parent (heap s q)"
  "nextPtr (setDir p d s) = nextPtr s" "inodes (setDir p d s) = inodes s"
  "metas (setDir p d s) = metas s" "bufview (setDir p d s) = bufview s" "states (setDir p d s) = states s"
  by (auto simp: setDir_def dirOf_def isDir_def)

lemma map_of_insert:
  assumes "length ns = length cs" "n \<notin> set ns"
  shows "map_of (zip (take i ns @ n # drop i ns) (take i cs @ c # drop i cs)) = (map_of (zip ns cs))(n \<mapsto> c)"
proof -
  have "zip (take i ns @ n # drop i ns) (take i cs @ c # drop i cs) =
      zip (take i ns) (take i cs) @ (n, c) # zip (drop i ns) (drop i cs)" using assms(1) by simp
  moreover have "zip ns cs = zip (take i ns) (take i cs) @ zip (drop i ns) (drop i cs)"
    using assms(1) by (metis append_take_drop_id length_take zip_append)
  moreover have "map_of (zip (take i ns) (take i cs)) n = None"
    using assms by (subst map_of_zip_is_None) (auto dest: in_set_takeD)
  ultimately show ?thesis by (auto simp: map_add_def fun_eq_iff split: option.splits)
qed

lemma map_of_remove:
  assumes "length ns = length cs" "distinct ns" "i < length ns"
  shows "map_of (zip (take i ns @ drop (Suc i) ns) (take i cs @ drop (Suc i) cs)) = (map_of (zip ns cs))(ns ! i := None)"
proof -
  let ?ns = "take i ns @ drop (Suc i) ns" and ?cs = "take i cs @ drop (Suc i) cs"
  have eq: "take i ?ns @ ns ! i # drop i ?ns = ns" "take i ?cs @ cs ! i # drop i ?cs = cs"
    using assms by (simp_all add: id_take_nth_drop [symmetric])
  have nin: "ns ! i \<notin> set ?ns"
    using assms(2,3) id_take_nth_drop [of i ns] by (metis distinct.simps(2) distinct_append not_distinct_conv_prefix
        Un_iff disjoint_iff list.set_intros(1) set_append)
  have "map_of (zip ns cs) = (map_of (zip ?ns ?cs))(ns ! i \<mapsto> cs ! i)"
    using map_of_insert [of ?ns ?cs "ns ! i" i "cs ! i", unfolded eq] assms(1) nin by (simp del: zip_append map_of_append)
  moreover have "map_of (zip ?ns ?cs) (ns ! i) = None" using nin assms(1) by (subst map_of_zip_is_None) auto
  ultimately show ?thesis by (auto simp: fun_eq_iff)
qed

text \<open>The directory data after an insertion at position \<open>i\<close> and after a removal there.\<close>

definition inserted :: "nat \<Rightarrow> ptr \<Rightarrow> DirInodeData \<Rightarrow> DirInodeData \<Rightarrow> bool" where
  "inserted i c d d' \<longleftrightarrow> i \<le> length (d_Children d) \<and>
     (\<exists>g k. d' = d\<lparr>d_generation := g, d_lastOpenDirIdx := k, d_Children := take i (d_Children d) @ c # drop i (d_Children d)\<rparr> \<and>
       (g = Suc (d_generation d) \<or> g = d_generation d \<and> i = length (d_Children d)))"

definition removed_at :: "nat \<Rightarrow> DirInodeData \<Rightarrow> DirInodeData \<Rightarrow> bool" where
  "removed_at i d d' \<longleftrightarrow> i < length (d_Children d) \<and>
     (\<exists>k. d' = d\<lparr>d_generation := Suc (d_generation d), d_lastOpenDirIdx := k,
        d_Children := take i (d_Children d) @ drop (Suc i) (d_Children d)\<rparr>)"

lemma inserted_entries:
  assumes ok: "dir_ok s parent" and ins: "inserted i c (dirOf s parent) d'" and nm: "i_Name (heap s c) = n"
    and lo: "\<And>k. k < i \<Longrightarrow> cnames s parent ! k < n"
    and hi: "\<And>k. i \<le> k \<Longrightarrow> k < length (d_Children (dirOf s parent)) \<Longrightarrow> n < cnames s parent ! k"
  shows "dir_ok (setDir parent d' s) parent" "entries (setDir parent d' s) parent = (entries s parent)(n \<mapsto> c)"
proof -
  let ?cs = "d_Children (dirOf s parent)" and ?ns = "cnames s parent"
  have cs: "d_Children d' = take i ?cs @ c # drop i ?cs" and i: "i \<le> length ?cs" using ins by (auto simp: inserted_def)
  have len: "length ?ns = length ?cs" by (simp add: cnames_def)
  have ns: "cnames (setDir parent d' s) parent = take i ?ns @ n # drop i ?ns"
    by (simp add: cnames_def cs nm take_map drop_map)
  have sorted: "sorted_wrt (<) ?ns" using ok by (simp add: dir_ok_def)
  have lo': "x < n" if "x \<in> set (take i ?ns)" for x using that lo i len by (auto simp: in_set_conv_nth)
  have hi': "n < x" if "x \<in> set (drop i ?ns)" for x using that hi len by (auto simp: in_set_conv_nth)
  have "sorted_wrt (<) (take i ?ns @ n # drop i ?ns)"
    using sorted lo' hi' by (auto simp: sorted_wrt_append sorted_wrt_take sorted_wrt_drop intro: less_trans)
  then show "dir_ok (setDir parent d' s) parent" by (simp add: dir_ok_def ns)
  have "n \<notin> set ?ns" using lo' hi' by (metis append_take_drop_id Un_iff less_irrefl set_append)
  then show "entries (setDir parent d' s) parent = (entries s parent)(n \<mapsto> c)"
    unfolding entries_def ns by (simp add: cs map_of_insert [OF len])
qed

lemma removed_entries:
  assumes ok: "dir_ok s parent" and rem: "removed_at i (dirOf s parent) d'"
  shows "dir_ok (setDir parent d' s) parent" "entries (setDir parent d' s) parent = (entries s parent)(cnames s parent ! i := None)"
proof -
  let ?cs = "d_Children (dirOf s parent)" and ?ns = "cnames s parent"
  have cs: "d_Children d' = take i ?cs @ drop (Suc i) ?cs" and i: "i < length ?cs" using rem by (auto simp: removed_at_def)
  have len: "length ?ns = length ?cs" by (simp add: cnames_def)
  have ns: "cnames (setDir parent d' s) parent = take i ?ns @ drop (Suc i) ?ns"
    by (simp add: cnames_def cs take_map drop_map)
  have sorted: "sorted_wrt (<) ?ns" using ok by (simp add: dir_ok_def)
  have "sorted_wrt (<) (take i ?ns @ ?ns ! i # drop (Suc i) ?ns)"
    using sorted i len by (simp add: id_take_nth_drop [symmetric])
  then have "sorted_wrt (<) (take i ?ns @ drop (Suc i) ?ns)" by (simp add: sorted_wrt_append)
  then show "dir_ok (setDir parent d' s) parent" by (simp add: dir_ok_def ns)
  have "distinct ?ns" using sorted by (simp add: strict_sorted_iff)
  then show "entries (setDir parent d' s) parent = (entries s parent)(?ns ! i := None)"
    unfolding entries_def ns using i len map_of_remove [OF len, of i] by (simp add: cs del: zip_append map_of_append)
qed

lemma Ref_simps [simp]:
  "dirOf (Ref s p) q = dirOf s q" "isDir (Ref s p) q = isDir s q" "i_Name (heap (Ref s p) q) = i_Name (heap s q)"
  "i_Parent (heap (Ref s p) q) = i_Parent (heap s q)" "nextPtr (Ref s p) = nextPtr s"
  by (simp_all add: Ref_def dirOf_def isDir_def)

lemma Ref_dir [simp]:
  "cnames (Ref s p) q = cnames s q" "dir_ok (Ref s p) q = dir_ok s q" "entries (Ref s p) q = entries s q"
  "findInodeFunc (Ref s p) q = findInodeFunc s q"
  by (simp_all add: cnames_tree [OF Ref_views(1)] dir_ok_tree [OF Ref_views(1)] entries_tree [OF Ref_views(1)] findInodeFunc_def fun_eq_iff)

lemma insertChildUnlocked_ok:
  assumes ok: "dir_ok s parent" and none: "entries s parent (i_Name (heap s inode)) = None"
  shows "\<exists>d' i. insertChildUnlocked s parent inode = Some (setDir parent d' (Ref s inode)) \<and>
    inserted i inode (dirOf s parent) d' \<and> dir_ok (setDir parent d' (Ref s inode)) parent \<and>
    entries (setDir parent d' (Ref s inode)) parent = (entries s parent)(i_Name (heap s inode) \<mapsto> inode)"
proof -
  let ?cs = "d_Children (dirOf s parent)" and ?n = "i_Name (heap s inode)"
  define i where "i = sort_search (length ?cs) (findInodeFunc s parent ?n)"
  note search = child_search [OF ok, where name = ?n, folded i_def]
  have dir: "isDir (Ref s inode) parent" using ok by (simp add: dir_ok_def)
  have nin: "?n \<notin> set (cnames s parent)" using none by (simp add: entries_None)
  have hi: "?n < cnames s parent ! k" if "i \<le> k" "k < length ?cs" for k
    using search(3) [OF that] nin that(2) by (metis cnames_def length_map nth_mem order_le_imp_less_or_eq)
  have ne: "i_Name (heap s (?cs ! i)) \<noteq> ?n" if "i < length ?cs" using hi [of i] that by (auto simp: cnames_def)
  let ?d = "\<lambda>g k. (dirOf s parent)\<lparr>d_generation := g, d_lastOpenDirIdx := k, d_Children := take i ?cs @ inode # drop i ?cs\<rparr>"
  have "\<exists>g k. insertChildUnlocked s parent inode = Some (setDir parent (?d g k) (Ref s inode)) \<and>
      (g = Suc (d_generation (dirOf s parent)) \<or> g = d_generation (dirOf s parent) \<and> i = length ?cs)"
  proof (cases "i < length ?cs")
    case True
    then have "?cs \<noteq> []" by auto
    then have "insertChildUnlocked s parent inode = Some (setDir parent (?d (Suc (d_generation (dirOf s parent)))
        (if int i \<le> d_lastOpenDirIdx (dirOf s parent) then d_lastOpenDirIdx (dirOf s parent) + 1
         else d_lastOpenDirIdx (dirOf s parent))) (Ref s inode))"
      using True ne by (simp add: insertChildUnlocked_def Let_def i_def [symmetric] updDir_setDir [OF dir] split del: if_split cong: if_cong)
    then show ?thesis by blast
  next
    case False
    with search(1) have i: "i = length ?cs" by simp
    have "insertChildUnlocked s parent inode = Some (setDir parent (?d (d_generation (dirOf s parent))
        (d_lastOpenDirIdx (dirOf s parent))) (Ref s inode))"
      using i by (simp add: insertChildUnlocked_def Let_def i_def [symmetric] updDir_setDir [OF dir])
    with i show ?thesis by blast
  qed
  then have "\<exists>d'. insertChildUnlocked s parent inode = Some (setDir parent d' (Ref s inode)) \<and> inserted i inode (dirOf s parent) d'"
    using search(1) unfolding inserted_def by blast
  then obtain d' where d': "insertChildUnlocked s parent inode = Some (setDir parent d' (Ref s inode))"
    "inserted i inode (dirOf s parent) d'" by blast
  have "dir_ok (setDir parent d' (Ref s inode)) parent \<and>
      entries (setDir parent d' (Ref s inode)) parent = (entries s parent)(?n \<mapsto> inode)"
    using inserted_entries [of "Ref s inode" parent i inode d' ?n] ok d'(2) search(2) hi by simp
  with d' show ?thesis by blast
qed

lemma insertChildUnlocked_double:
  assumes ok: "dir_ok s parent" and c: "entries s parent (i_Name (heap s inode)) = Some c"
  shows "insertChildUnlocked s parent inode = None"
  using search_found [OF ok, of "i_Name (heap s inode)"] c
  by (auto simp: insertChildUnlocked_def Let_def entries_def split: if_splits)

lemma removeChildUnlocked_ok:
  assumes E: "env_ok E" and bufs: "bufs_ok E s" and p: "inode < nextPtr s"
    and ok: "dir_ok s parent" and c: "entries s parent (i_Name (heap s inode)) = Some c"
  shows "\<exists>s' d' i. removeChildUnlocked E s parent inode = Some s' \<and> removed_at i (dirOf s parent) d' \<and>
    tree s' = tree (setDir parent d' s) \<and> bufs_ok E s' \<and> dir_ok s' parent \<and>
    entries s' parent = (entries s parent)(i_Name (heap s inode) := None) \<and>
    (\<exists>b. DeRef E (setDir parent d' s) inode 1 = Some (s', b))"
proof -
  let ?cs = "d_Children (dirOf s parent)" and ?n = "i_Name (heap s inode)"
  define i where "i = sort_search (length ?cs) (findInodeFunc s parent ?n)"
  have dir: "isDir s parent" using ok by (simp add: dir_ok_def)
  have found: "i < length ?cs" "i_Name (heap s (?cs ! i)) = ?n"
    using search_found [OF ok, of ?n] c by (auto simp: i_def split: if_splits)
  then have nm: "cnames s parent ! i = ?n" by (simp add: cnames_def)
  have ne: "length ?cs \<noteq> 0" using found(1) by auto
  let ?d = "\<lambda>k. (dirOf s parent)\<lparr>d_generation := Suc (d_generation (dirOf s parent)), d_lastOpenDirIdx := k,
    d_Children := take i ?cs @ drop (Suc i) ?cs\<rparr>"
  have "removeChildUnlocked E s parent inode = map_option fst (DeRef E (setDir parent
      (?d (if int i \<le> d_lastOpenDirIdx (dirOf s parent) then d_lastOpenDirIdx (dirOf s parent) - 1
         else d_lastOpenDirIdx (dirOf s parent))) s) inode 1)"
    using found ne by (simp add: removeChildUnlocked_def Let_def i_def [symmetric] updDir_setDir [OF dir] split del: if_split)
  then obtain d' where d': "removed_at i (dirOf s parent) d'"
    "removeChildUnlocked E s parent inode = map_option fst (DeRef E (setDir parent d' s) inode 1)"
    using found(1) unfolding removed_at_def by blast
  have s1: "bufs_ok E (setDir parent d' s)" "inode < nextPtr (setDir parent d' s)"
    using bufs p unfolding bufs_ok_def by (auto simp: setDir_def)
  from DeRef_ok [OF E s1, of 1] obtain s' b where s': "DeRef E (setDir parent d' s) inode 1 = Some (s', b)"
    "bufs_ok E s'" "tree s' = tree (setDir parent d' s)" by blast
  note rem = removed_entries [OF ok d'(1)]
  show ?thesis
    using d' s' rem nm dir_ok_tree [OF s'(3)] entries_tree [OF s'(3)] by auto
qed

end
