(* ===== verification/Fs_New.thy ===== *)
theory Fs_New
  imports Dir_Children
begin

text \<open>
  A new file system (\<open>core/goofys.go\<close>): the specification of the bucket, and the state that
  \<open>newGoofys\<close> builds, with the root directory as its only inode.  The invariants of the
  directories and of the buffer lists hold in it and are kept when an inode is created.
\<close>

definition go_trim :: "char \<Rightarrow> string \<Rightarrow> string" where
  "go_trim c s = go_trim_right c (dropWhile (\<lambda>x. x = c) s)"

record BucketSpec =
  Scheme :: string
  Bucket :: string
  SpecPrefix :: string

record url =
  u_Scheme :: string
  u_User :: "string option"
  u_Host :: string
  u_Path :: string

definition slashPrefix :: "string \<Rightarrow> string" where
  "slashPrefix p = (let p = go_trim (CHR ''/'') p in if p \<noteq> [] then p @ ''/'' else p)"

text \<open>\<open>parse\<close> is \<open>url.Parse\<close>.\<close>

definition ParseBucketSpec :: "(string \<Rightarrow> error + url) \<Rightarrow> string \<Rightarrow> error + BucketSpec" where
  "ParseBucketSpec parse bucket =
     (if go_index ''://'' bucket \<noteq> None then
        (case parse bucket of
           Inl e \<Rightarrow> Inl e
         | Inr u \<Rightarrow>
             Inr \<lparr>Scheme = u_Scheme u,
                  Bucket = (case u_User u of None \<Rightarrow> u_Host u | Some usr \<Rightarrow> usr @ ''@'' @ u_Host u),
                  SpecPrefix = slashPrefix (u_Path u)\<rparr>)
      else
        (case go_index '':'' bucket of
           Some colon \<Rightarrow> Inr \<lparr>Scheme = ''s3'', Bucket = take colon bucket, SpecPrefix = slashPrefix (drop (colon + 1) bucket)\<rparr>
         | None \<Rightarrow> Inr \<lparr>Scheme = ''s3'', Bucket = bucket, SpecPrefix = slashPrefix []\<rparr>))"

definition emptyGoofys :: "('t, 'd, 'c) gEnv \<Rightarrow> gotime \<Rightarrow> int \<Rightarrow> ('t, 'd, 'c) Goofys" where
  "emptyGoofys E now maxFD =
     \<lparr>heap = (\<lambda>_. zeroInode E \<lparr>bq_cleanQueue = bt_empty (g_C E), bq_curQueueID = 0\<rparr>), nextPtr = 0, nextInodeID = RootInodeID + 1, inodes = Map.empty, inodesByTime = (\<lambda>_. {}),
      inflightState = inflight_new, dirHandleHeap = (\<lambda>_. \<lparr>dh_inode = 0, dh_noSlurp = False, dh_lastExternalOffset = 0,
        dh_lastInternalOffset = 0, dh_generation = 0, dh_lastName = []\<rparr>), nextDirHandle = 0, forgotCnt = 0,
      cleanQueue = \<lparr>bq_cleanQueue = bt_empty (g_C E), bq_curQueueID = 0\<rparr>,
      inodeQueue = \<lparr>iq_dirtyQueue = bt_empty (g_D E), iq_curQueueID = 0\<rparr>,
      diskFdQueue = NewFDQueue (g_D E) maxFD, diskFds = (\<lambda>_. \<lparr>DiskFDQueueID = 0, DiskCacheFD = False\<rparr>), bufferPool_cur = 0,
      rootAttrs = zeroAttributes\<lparr>a_Size := 4096, a_Ctime := now, a_Mtime := now\<rparr>,
      flushPending = False, flushRetrySet = False, activeFlushers = 0, wantFree = 0, hasNewWrites = False,
      flushPriorities = replicate 4 0, nextMpu = 0, aborted = [], notified = []\<rparr>"

text \<open>The file system with the root directory, whose pointer is 0.\<close>

definition rootFs :: "('t, 'd, 'c) gEnv \<Rightarrow> gotime \<Rightarrow> int \<Rightarrow> nat \<Rightarrow> string \<Rightarrow> ('t, 'd, 'c) Goofys" where
  "rootFs E now maxFD c pfx =
     (let fs = emptyGoofys E now maxFD;
          root = fst (NewInode E now fs None []);
          fs = snd (NewInode E now fs None []);
          fs = upd root (\<lambda>i. i\<lparr>i_refcnt := 1, i_Id := RootInodeID\<rparr>) fs;
          fs = ToDir E fs root;
          fs = updDir root (\<lambda>d. d\<lparr>d_cloud := Some c, d_mountPrefix := pfx\<rparr>) fs;
          fs = upd root (\<lambda>i. i\<lparr>i_userMetadata := Some [],
                 i_Attributes := (i_Attributes i)\<lparr>a_Mtime := a_Mtime (rootAttrs fs), a_Ctime := a_Ctime (rootAttrs fs)\<rparr>\<rparr>) fs
      in fs\<lparr>inodes := (inodes fs)(RootInodeID \<mapsto> root)\<rparr>)"

text \<open>The backend and the result of its initialisation are arguments.\<close>

definition newGoofys :: "('t, 'd, 'c) gEnv \<Rightarrow> gotime \<Rightarrow> int \<Rightarrow> (string \<Rightarrow> error + nat) \<Rightarrow> (nat \<Rightarrow> error option) \<Rightarrow> string \<Rightarrow>
    error + ('t, 'd, 'c) Goofys" where
  "newGoofys E now maxFD newBackend Init bucket0 =
     (let (bucket, pfx) =
        (case go_index '':'' bucket0 of
           None \<Rightarrow> (bucket0, []) | Some colon \<Rightarrow> (take colon bucket0, slashPrefix (drop (colon + 1) bucket0)))
      in case newBackend bucket of
           Inl e \<Rightarrow> Inl (OtherError ''Unable to setup backend'')
         | Inr c \<Rightarrow>
             (case Init c of
                Some e \<Rightarrow> Inl (OtherError ''Unable to access bucket'')
              | None \<Rightarrow> Inr (rootFs E now maxFD c pfx)))"

section \<open>The structure of the tree\<close>

text \<open>
  Every directory is sorted by name; a child knows its directory as its parent; a deleted directory
  that is remembered for later keeps its name and its parent.
\<close>

definition dir_links :: "('t, 'd, 'c) Goofys \<Rightarrow> ptr \<Rightarrow> bool" where
  "dir_links s p \<longleftrightarrow> sorted_wrt (<) (cnames s p) \<and>
     (\<forall>c \<in> set (d_Children (dirOf s p)). c < nextPtr s \<and> i_Parent (heap s c) = Some p) \<and>
     (\<forall>n c. d_DeletedChildren (dirOf s p) n = Some c \<longrightarrow> c < nextPtr s \<and>
        (isDir s c \<longrightarrow> i_Name (heap s c) = n \<and> i_Parent (heap s c) = Some p))"

definition links_ok :: "('t, 'd, 'c) Goofys \<Rightarrow> bool" where
  "links_ok s \<longleftrightarrow> (\<forall>p < nextPtr s. isDir s p \<longrightarrow> dir_links s p)"

definition fs_ok :: "('t, 'd, 'c) gEnv \<Rightarrow> ('t, 'd, 'c) Goofys \<Rightarrow> bool" where
  "fs_ok E s \<longleftrightarrow> env_ok E \<and> bufs_ok E s \<and> links_ok s"

lemma dir_links_tree:
  assumes "tree s' = tree s"
  shows "dir_links s' p = dir_links s p"
  by (simp only: dir_links_def treeD [OF assms] cnames_tree [OF assms])

lemma links_ok_tree:
  assumes "tree s' = tree s"
  shows "links_ok s' = links_ok s"
  by (simp only: links_ok_def treeD [OF assms] dir_links_tree [OF assms])

lemma fs_ok_cong:
  assumes "tree s' = tree s" "bufview s' = bufview s"
  shows "fs_ok E s' = fs_ok E s"
  using links_ok_tree [OF assms(1)] bufs_ok_cong [OF assms(2,1)] by (simp add: fs_ok_def)

lemma fs_ok_links: "fs_ok E s \<Longrightarrow> p < nextPtr s \<Longrightarrow> isDir s p \<Longrightarrow> dir_links s p"
  unfolding fs_ok_def links_ok_def by blast

lemma fs_ok_dir: "fs_ok E s \<Longrightarrow> p < nextPtr s \<Longrightarrow> isDir s p \<Longrightarrow> dir_ok s p"
  unfolding dir_ok_def using fs_ok_links [of E s p] unfolding dir_links_def by blast

lemma fs_ok_child:
  assumes "fs_ok E s" "p < nextPtr s" "isDir s p" "entries s p n = Some c"
  shows "c < nextPtr s" "i_Parent (heap s c) = Some p" "i_Name (heap s c) = n"
  using entries_Some [OF assms(4)] fs_ok_links [OF assms(1-3)] unfolding dir_links_def by blast+

section \<open>Creating inodes\<close>

lemma NewInode_simps [simp]:
  "fst (NewInode E now s parent name) = nextPtr s" "nextPtr (snd (NewInode E now s parent name)) = Suc (nextPtr s)"
  "q \<noteq> nextPtr s \<Longrightarrow> heap (snd (NewInode E now s parent name)) q = heap s q"
  "cleanQueue (snd (NewInode E now s parent name)) = cleanQueue s" "inodes (snd (NewInode E now s parent name)) = inodes s"
  "i_Name (heap (snd (NewInode E now s parent name)) (nextPtr s)) = name"
  "i_Parent (heap (snd (NewInode E now s parent name)) (nextPtr s)) = parent"
  "i_dir (heap (snd (NewInode E now s parent name)) (nextPtr s)) = None"
  "i_Id (heap (snd (NewInode E now s parent name)) (nextPtr s)) = 0"
  "i_CacheState (heap (snd (NewInode E now s parent name)) (nextPtr s)) = ST_CACHED"
  "i_refcnt (heap (snd (NewInode E now s parent name)) (nextPtr s)) = 0"
  by (simp_all add: NewInode_def Let_def zeroInode_def)

lemma empty_file_inv:
  assumes E: "env_ok E" and q: "bq_ok (g_C E) h" "bq_view (g_C E) p h = Map.empty"
  shows "file_inv (g_A E) (g_D E) (g_C E) (g_parts E) p ((i_buffers (zeroInode E h'))\<lparr>bl_helpers := h\<rparr>)"
proof -
  have env: "buffer_env (inode_env (g_A E) (g_D E) (g_C E) (g_parts E) p) (getMaxFileSize (g_parts E)) (bq_ok (g_C E)) (bq_view (g_C E) p)"
    using E by (intro inode_buffer_env) (auto simp: env_ok_def)
  have "(i_buffers (zeroInode E h'))\<lparr>bl_helpers := h\<rparr> = BL_new (inode_env (g_A E) (g_D E) (g_C E) (g_parts E) p) h"
    by (simp add: zeroInode_def BL_new_def inode_env_def)
  with buffer_env.BL_new_inv [OF env q] show ?thesis by (simp add: file_inv_def)
qed

lemma NewInode_bufs:
  assumes E: "env_ok E" and ok: "bufs_ok E s"
  shows "bufs_ok E (snd (NewInode E now s parent name))"
proof -
  let ?s = "snd (NewInode E now s parent name)"
  have b: "i_buffers (heap ?s (nextPtr s)) = i_buffers (zeroInode E (cleanQueue s))" by (simp add: NewInode_def Let_def)
  have "file_inv (g_A E) (g_D E) (g_C E) (g_parts E) p ((i_buffers (heap ?s p))\<lparr>bl_helpers := cleanQueue s\<rparr>)"
    if "p < Suc (nextPtr s)" for p
  proof (cases "p = nextPtr s")
    case True
    then show ?thesis using ok b empty_file_inv [OF E, of "cleanQueue s" p] by (simp add: bufs_ok_def)
  next
    case False
    with that ok show ?thesis by (simp add: bufs_ok_def)
  qed
  with ok show ?thesis by (simp add: bufs_ok_def)
qed

text \<open>The structure is kept by a state that differs in the fresh inode only.\<close>

lemma dir_links_cong:
  assumes same: "\<And>q. q < nextPtr s \<Longrightarrow> inode_shape (heap s' q) = inode_shape (heap s q)" and n: "nextPtr s \<le> nextPtr s'"
    and p: "p < nextPtr s" and ok: "dir_links s p"
  shows "dir_links s' p"
proof -
  have nm: "i_Name (heap s' q) = i_Name (heap s q)" "i_Parent (heap s' q) = i_Parent (heap s q)" "isDir s' q = isDir s q"
    if "q < nextPtr s" for q
    using same [OF that] by (cases "i_dir (heap s q)"; cases "i_dir (heap s' q)"; simp add: inode_shape_def isDir_def)+
  have d: "d_Children (dirOf s' p) = d_Children (dirOf s p)" "d_DeletedChildren (dirOf s' p) = d_DeletedChildren (dirOf s p)"
  proof -
    have "(dirOf s p)\<lparr>d_ModifiedChildren := 0\<rparr> = (dirOf s' p)\<lparr>d_ModifiedChildren := 0\<rparr>"
      using same [OF p] by (cases "i_dir (heap s p)"; cases "i_dir (heap s' p)"; simp add: inode_shape_def dirOf_def)
    from arg_cong [OF this, of d_Children] arg_cong [OF this, of d_DeletedChildren]
    show "d_Children (dirOf s' p) = d_Children (dirOf s p)" "d_DeletedChildren (dirOf s' p) = d_DeletedChildren (dirOf s p)" by simp_all
  qed
  have cs: "\<And>c. c \<in> set (d_Children (dirOf s p)) \<Longrightarrow> c < nextPtr s \<and> i_Parent (heap s c) = Some p"
    and del: "\<And>m c. d_DeletedChildren (dirOf s p) m = Some c \<Longrightarrow> c < nextPtr s \<and> (isDir s c \<longrightarrow> i_Name (heap s c) = m \<and> i_Parent (heap s c) = Some p)"
    and sorted: "sorted_wrt (<) (cnames s p)"
    using ok unfolding dir_links_def by blast+
  have "cnames s' p = cnames s p" using cs nm(1) by (simp add: cnames_def d(1))
  moreover have "\<forall>c \<in> set (d_Children (dirOf s' p)). c < nextPtr s' \<and> i_Parent (heap s' c) = Some p"
    using cs nm(2) n unfolding d(1) by fastforce
  moreover have "\<forall>m c. d_DeletedChildren (dirOf s' p) m = Some c \<longrightarrow> c < nextPtr s' \<and>
      (isDir s' c \<longrightarrow> i_Name (heap s' c) = m \<and> i_Parent (heap s' c) = Some p)"
    using del nm n unfolding d(2) by fastforce
  ultimately show ?thesis unfolding dir_links_def using sorted by simp
qed

lemma NewInode_links:
  assumes "links_ok s"
  shows "links_ok (snd (NewInode E now s parent name))"
proof -
  let ?s = "snd (NewInode E now s parent name)"
  have "dir_links ?s p" if "p < nextPtr ?s" "isDir ?s p" for p
  proof -
    have "p \<noteq> nextPtr s" using that(2) by (auto simp: isDir_def)
    then have p: "p < nextPtr s" "isDir s p" using that by (auto simp: isDir_def)
    then have "dir_links s p" using assms by (simp add: links_ok_def)
    then show ?thesis by (rule dir_links_cong [rotated 3]) (use p in auto)
  qed
  then show ?thesis unfolding links_ok_def by blast
qed

lemma NewInode_ok: "fs_ok E s \<Longrightarrow> fs_ok E (snd (NewInode E now s parent name))"
  using NewInode_bufs NewInode_links unfolding fs_ok_def by blast

lemma ToDir_simps [simp]:
  "nextPtr (ToDir E s p) = nextPtr s" "inodes (ToDir E s p) = inodes s" "bufview (ToDir E s p) = bufview s"
  "states (ToDir E s p) = states s" "metas (ToDir E s p) = metas s"
  "q \<noteq> p \<Longrightarrow> heap (ToDir E s p) q = heap s q" "isDir (ToDir E s p) q = (q = p \<or> isDir s q)"
  "i_Name (heap (ToDir E s p) q) = i_Name (heap s q)" "i_Parent (heap (ToDir E s p) q) = i_Parent (heap s q)"
  by (auto simp: ToDir_def isDir_def)

lemma bufs_ok_bufview: "bufview s' = bufview s \<Longrightarrow> nextPtr s' = nextPtr s \<Longrightarrow> bufs_ok E s' = bufs_ok E s"
  unfolding bufs_ok_def bufview_def by (auto simp: fun_eq_iff)

text \<open>A new directory.\<close>

lemma NewDir_ok:
  fixes now :: gotime and parent :: "ptr option" and name :: string
  assumes "fs_ok E s"
  defines "s' \<equiv> ToDir E (snd (NewInode E now s parent name)) (nextPtr s)"
  shows "fs_ok E s'" "isDir s' (nextPtr s)" "d_Children (dirOf s' (nextPtr s)) = []"
proof -
  let ?s1 = "snd (NewInode E now s parent name)"
  have d: "dirOf s' (nextPtr s) = zeroDir\<lparr>d_lastOpenDirIdx := - 1\<rparr>" by (simp add: s'_def ToDir_def dirOf_def)
  then show "isDir s' (nextPtr s)" "d_Children (dirOf s' (nextPtr s)) = []" by (simp_all add: s'_def zeroDir_def)
  have "bufs_ok E s'" using NewInode_ok [OF assms(1)] bufs_ok_bufview [of s' ?s1 E] by (simp add: fs_ok_def s'_def)
  moreover have "links_ok s'"
    unfolding links_ok_def
  proof (intro allI impI)
    fix p assume p: "p < nextPtr s'" "isDir s' p"
    show "dir_links s' p"
    proof (cases "p = nextPtr s")
      case True
      then show ?thesis using d by (simp add: dir_links_def cnames_def zeroDir_def)
    next
      case False
      then have "p < nextPtr s" "isDir s p" using p by (auto simp: s'_def isDir_def)
      moreover from this have "dir_links s p" using assms(1) by (simp add: fs_ok_links)
      moreover have "inode_shape (heap s' q) = inode_shape (heap s q)" if "q < nextPtr s" for q
        using that by (simp add: s'_def)
      ultimately show ?thesis by (intro dir_links_cong [of s s' p]) (auto simp: s'_def)
    qed
  qed
  ultimately show "fs_ok E s'" using assms(1) by (simp add: fs_ok_def)
qed

end
