(* ===== verification/Dir_Tree.thy ===== *)
theory Dir_Tree
  imports Fs_New
begin

text \<open>
  The invariant of the file system, \<open>fs_ok\<close>, under insertion and removal of children, in the state
  that \<open>newGoofys\<close> builds, and in a small concrete file system that the witnesses use.
\<close>

section \<open>Insertion and removal\<close>

lemma dir_links_setDir:
  assumes "isDir s p"
  shows "q \<noteq> p \<Longrightarrow> dir_links (setDir p d s) q = dir_links s q"
    "d_DeletedChildren d = d_DeletedChildren (dirOf s p) \<Longrightarrow> dir_links s p \<Longrightarrow> dir_ok (setDir p d s) p \<Longrightarrow>
      (\<And>c. c \<in> set (d_Children d) \<Longrightarrow> c < nextPtr s \<and> i_Parent (heap s c) = Some p) \<Longrightarrow> dir_links (setDir p d s) p"
proof -
  have dir: "isDir (setDir p d s) c = isDir s c" for c using assms by auto
  show "q \<noteq> p \<Longrightarrow> dir_links (setDir p d s) q = dir_links s q"
    unfolding dir_links_def dir by (simp add: cnames_def)
  assume "d_DeletedChildren d = d_DeletedChildren (dirOf s p)" "dir_links s p" "dir_ok (setDir p d s) p"
    "\<And>c. c \<in> set (d_Children d) \<Longrightarrow> c < nextPtr s \<and> i_Parent (heap s c) = Some p"
  then show "dir_links (setDir p d s) p"
    unfolding dir_links_def dir dir_ok_def by simp
qed

lemma fs_ok_setDir:
  assumes ok: "fs_ok E s" and p: "p < nextPtr s" "isDir s p" and d: "dir_links (setDir p d s) p"
  shows "fs_ok E (setDir p d s)"
proof -
  have "bufs_ok E (setDir p d s)" using ok bufs_ok_bufview [of "setDir p d s" s E] by (simp add: fs_ok_def)
  moreover have "dir_links (setDir p d s) q" if "q < nextPtr s" "isDir (setDir p d s) q" for q
  proof (cases "q = p")
    case False
    with that p ok show ?thesis by (simp add: dir_links_setDir(1) fs_ok_links)
  qed (use d in simp)
  ultimately show ?thesis using ok unfolding fs_ok_def links_ok_def by simp
qed

lemma insertChild_fs_ok:
  assumes ok: "fs_ok E s" and p: "parent < nextPtr s" "isDir s parent"
    and c: "c < nextPtr s" "i_Parent (heap s c) = Some parent" and none: "entries s parent (i_Name (heap s c)) = None"
  shows "\<exists>d' i. insertChildUnlocked s parent c = Some (setDir parent d' (Ref s c)) \<and>
    inserted i c (dirOf s parent) d' \<and> fs_ok E (setDir parent d' (Ref s c)) \<and>
    entries (setDir parent d' (Ref s c)) parent = (entries s parent)(i_Name (heap s c) \<mapsto> c)"
proof -
  obtain d' i where d': "insertChildUnlocked s parent c = Some (setDir parent d' (Ref s c))"
    "inserted i c (dirOf s parent) d'" "dir_ok (setDir parent d' (Ref s c)) parent"
    "entries (setDir parent d' (Ref s c)) parent = (entries s parent)(i_Name (heap s c) \<mapsto> c)"
    using insertChildUnlocked_ok [OF fs_ok_dir [OF ok p] none] by blast
  have ok': "fs_ok E (Ref s c)" using ok fs_ok_cong [of "Ref s c" s E] by simp
  have links: "dir_links (Ref s c) parent" using fs_ok_links [OF ok'] p by simp
  have cs: "set (d_Children d') = insert c (set (d_Children (dirOf s parent)))" "d_DeletedChildren d' = d_DeletedChildren (dirOf s parent)"
    using d'(2) by (auto simp: inserted_def dest: in_set_takeD in_set_dropD) (metis Un_iff append_take_drop_id set_append)
  have "x < nextPtr s \<and> i_Parent (heap s x) = Some parent" if "x \<in> set (d_Children d')" for x
    using that c fs_ok_links [OF ok p] unfolding dir_links_def cs(1) by blast
  then have "dir_links (setDir parent d' (Ref s c)) parent"
    using p cs(2) links d'(3) by (intro dir_links_setDir(2)) auto
  then have "fs_ok E (setDir parent d' (Ref s c))" using ok' p by (intro fs_ok_setDir) auto
  with d' show ?thesis by blast
qed

lemma removeChild_fs_ok:
  assumes ok: "fs_ok E s" and p: "parent < nextPtr s" "isDir s parent" and c: "inode < nextPtr s"
    and e: "entries s parent (i_Name (heap s inode)) = Some c"
  shows "\<exists>s' d' i b. removeChildUnlocked E s parent inode = Some s' \<and> removed_at i (dirOf s parent) d' \<and>
    tree s' = tree (setDir parent d' s) \<and> fs_ok E s' \<and>
    entries s' parent = (entries s parent)(i_Name (heap s inode) := None) \<and>
    DeRef E (setDir parent d' s) inode 1 = Some (s', b)"
proof -
  have E: "env_ok E" and bufs: "bufs_ok E s" using ok by (auto simp: fs_ok_def)
  obtain s' d' i b where s': "removeChildUnlocked E s parent inode = Some s'" "removed_at i (dirOf s parent) d'"
    "tree s' = tree (setDir parent d' s)" "bufs_ok E s'" "dir_ok s' parent"
    "entries s' parent = (entries s parent)(i_Name (heap s inode) := None)"
    "DeRef E (setDir parent d' s) inode 1 = Some (s', b)"
    using removeChildUnlocked_ok [OF E bufs c fs_ok_dir [OF ok p] e] by blast
  have cs: "set (d_Children d') \<subseteq> set (d_Children (dirOf s parent))" "d_DeletedChildren d' = d_DeletedChildren (dirOf s parent)"
    using s'(2) by (auto simp: removed_at_def dest: in_set_takeD in_set_dropD)
  have "x < nextPtr s \<and> i_Parent (heap s x) = Some parent" if "x \<in> set (d_Children d')" for x
    using that cs(1) fs_ok_links [OF ok p] unfolding dir_links_def by blast
  moreover have "dir_ok (setDir parent d' s) parent" using s'(5) dir_ok_tree [OF s'(3)] by simp
  ultimately have "dir_links (setDir parent d' s) parent"
    using p cs(2) fs_ok_links [OF ok p] by (intro dir_links_setDir(2)) auto
  then have "fs_ok E (setDir parent d' s)" using ok p by (intro fs_ok_setDir)
  then have "fs_ok E s'" using links_ok_tree [OF s'(3)] s'(4) by (simp add: fs_ok_def)
  with s' show ?thesis by blast
qed

lemma insertInode_ok:
  assumes ok: "fs_ok E s" and p: "parent < nextPtr s" "isDir s parent"
    and c: "c < nextPtr s" "i_Parent (heap s c) = Some parent" "i_Id (heap s c) = 0" and none: "entries s parent (i_Name (heap s c)) = None"
  shows "\<exists>s'. insertInode s parent c = Some s' \<and> fs_ok E s' \<and> nextPtr s' = nextPtr s \<and>
    (\<forall>q. isDir s' q = isDir s q) \<and> (\<forall>q. i_Name (heap s' q) = i_Name (heap s q)) \<and> (\<forall>q. i_Parent (heap s' q) = i_Parent (heap s q)) \<and>
    entries s' parent = (entries s parent)(i_Name (heap s c) \<mapsto> c) \<and> (\<forall>q. q \<noteq> parent \<longrightarrow> dirOf s' q = dirOf s q) \<and>
    states s' = states s \<and> inodes s' = (inodes s)(nextInodeID s \<mapsto> c) \<and> nextInodeID s' = Suc (nextInodeID s) \<and>
    i_Id (heap s' c) = nextInodeID s \<and> i_refcnt (heap s' c) = i_refcnt (heap s c) + 1"
proof -
  let ?s1 = "upd c (\<lambda>i. i\<lparr>i_Id := nextInodeID s\<rparr>) (s\<lparr>nextInodeID := nextInodeID s + 1\<rparr>)"
  have t: "tree ?s1 = tree s" "bufview ?s1 = bufview s" by simp_all
  have ok1: "fs_ok E ?s1" using ok fs_ok_cong [OF t, of E] by simp
  note d = treeD [OF t(1)]
  have e: "entries ?s1 parent (i_Name (heap ?s1 c)) = None" unfolding entries_tree [OF t(1)] d by (rule none)
  obtain d' where d': "insertChildUnlocked ?s1 parent c = Some (setDir parent d' (Ref ?s1 c))"
    "fs_ok E (setDir parent d' (Ref ?s1 c))"
    "entries (setDir parent d' (Ref ?s1 c)) parent = (entries s parent)(i_Name (heap s c) \<mapsto> c)"
    using insertChild_fs_ok [OF ok1 _ _ _ _ e] p c(1,2) unfolding entries_tree [OF t(1)] d by blast
  let ?s2 = "setDir parent d' (Ref ?s1 c)"
  let ?s3 = "?s2\<lparr>inodes := (inodes ?s2)(nextInodeID s \<mapsto> c)\<rparr>"
  have ins: "insertInode s parent c = Some ?s3" using c(3) d'(1) by (simp add: insertInode_def allocateInodeId_def Let_def)
  have t3: "tree ?s3 = tree ?s2" "bufview ?s3 = bufview ?s2" by simp_all
  have "fs_ok E ?s3" using d'(2) fs_ok_cong [OF t3, of E] by simp
  moreover have "entries ?s3 parent = (entries s parent)(i_Name (heap s c) \<mapsto> c)" using d'(3) entries_tree [OF t3(1)] by simp
  moreover have "\<forall>q. isDir ?s3 q = isDir s q" using p(2) treeD(8) [OF t3(1)] by (auto simp: isDir_def setDir_def Ref_def)
  moreover have "\<forall>q. q \<noteq> parent \<longrightarrow> dirOf ?s3 q = dirOf s q" by (auto simp: dirOf_def setDir_def Ref_def)
  moreover have "\<forall>q. i_Name (heap ?s3 q) = i_Name (heap s q)" "\<forall>q. i_Parent (heap ?s3 q) = i_Parent (heap s q)"
    by (auto simp: setDir_def Ref_def)
  moreover have "states ?s3 = states s" "i_Id (heap ?s3 c) = nextInodeID s" "i_refcnt (heap ?s3 c) = i_refcnt (heap s c) + 1"
    by (auto simp: setDir_def Ref_def)
  ultimately show ?thesis using ins by (auto simp: setDir_def Ref_def)
qed

section \<open>A new file system\<close>

lemma emptyGoofys_bufs: "env_ok E \<Longrightarrow> bufs_ok E (emptyGoofys E now maxFD)"
  by (auto simp: bufs_ok_def emptyGoofys_def bq_ok_def bq_view_def env_ok_def btree_map.get_empty)

lemma rootFs_simps [simp]:
  "nextPtr (rootFs E now maxFD c pfx) = 1" "inodes (rootFs E now maxFD c pfx) RootInodeID = Some 0"
  "isDir (rootFs E now maxFD c pfx) 0" "i_Parent (heap (rootFs E now maxFD c pfx) 0) = None"
  "i_Name (heap (rootFs E now maxFD c pfx) 0) = []" "i_Id (heap (rootFs E now maxFD c pfx) 0) = RootInodeID"
  "dirOf (rootFs E now maxFD c pfx) 0 = zeroDir\<lparr>d_lastOpenDirIdx := - 1, d_cloud := Some c, d_mountPrefix := pfx\<rparr>"
  "bufview (rootFs E now maxFD c pfx) = bufview (snd (NewInode E now (emptyGoofys E now maxFD) None []))"
  by (simp_all add: rootFs_def Let_def emptyGoofys_def NewInode_def zeroInode_def ToDir_def dirOf_def isDir_def zeroDir_def)

lemma rootFs_ok:
  assumes E: "env_ok E"
  shows "fs_ok E (rootFs E now maxFD c pfx)"
proof -
  let ?s = "rootFs E now maxFD c pfx" and ?s1 = "snd (NewInode E now (emptyGoofys E now maxFD) None [])"
  have "bufs_ok E ?s1" by (rule NewInode_bufs [OF E emptyGoofys_bufs [OF E]])
  then have "bufs_ok E ?s" using bufs_ok_bufview [of ?s ?s1 E] by (simp add: emptyGoofys_def)
  moreover have "dir_links ?s 0" by (simp add: dir_links_def cnames_def zeroDir_def)
  ultimately show ?thesis using E by (simp add: fs_ok_def links_ok_def)
qed

lemma newGoofys_root:
  assumes "newGoofys E now maxFD newBackend Init bucket = Inr s"
  obtains c pfx where "s = rootFs E now maxFD c pfx"
  using assms by (auto simp: newGoofys_def split: sum.splits option.splits)

section \<open>A concrete file system\<close>

definition demo_flags :: FlagStorage where
  "demo_flags = \<lparr>f_Uid = 1000, f_Gid = 1000, f_FileMode = 0x1A4, f_DirMode = 0x1ED, f_StatCacheTTL = 60 * 10 ^ 9,
     f_EnableMtime = False, f_EnablePerms = False, f_MtimeAttr = ''mtime'', f_SymlinkAttr = ''--symlink-target'',
     f_EnableSpecials = False, f_UidAttr = ''uid'', f_GidAttr = ''gid'', f_FileModeAttr = ''mode'', f_RdevAttr = ''rdev'',
     f_UsePatch = False, f_NoDirObject = False, f_NoPreloadDir = False, f_ExplicitDir = False, f_Cheap = False,
     f_CachePath = [], f_MaxParallelParts = 8, f_EntryLimit = 100000,
     f_SmallReadCount = 4, f_read = \<lparr>ReadAheadKB = 5 * 1024, LargeReadCutoffKB = 20 * 1024, ReadAheadLargeKB = 100 * 1024,
       SmallReadCutoffKB = 128, ReadAheadSmallKB = 128, ReadMergeKB = 512, ReadAheadParallelKB = 20 * 1024\<rparr>,
     f_MaxFlushers = 16, f_MaxParallelCopy = 16, f_RetryInterval = 30 * 10 ^ 9, f_SinglePartMB = 5, f_MaxMergeCopyMB = 0,
     f_IgnoreFsync = False, f_FsyncOnClose = False, f_PreferPatchUploads = False, f_DropPatchConflicts = False, f_UseEnomem = False, f_IgnoreRootAttrErrors = False,
     f_retry = \<lparr>ReadRetryInterval = 10 ^ 9, ReadRetryMax = 60 * 10 ^ 9, ReadRetryAttempts = 0\<rparr>\<rparr>"

definition demo_E :: "(FileBuffer omap, u64 omap, (nat \<times> u64) omap) gEnv" where
  "demo_E = \<lparr>g_A = om_btree, g_D = om_btree, g_C = om_btree, g_parts = default_PartSizes, g_flags = demo_flags,
     g_isS3 = (\<lambda>_. True), g_caps = (\<lambda>_. \<lparr>MaxMultipartSize = 5 * 2 ^ 30, DirBlob = False, CapName = ''s3''\<rparr>),
     g_initErr = (\<lambda>_. False), g_ConvertFileMode = (\<lambda>m. m), g_ConvertGoMode = (\<lambda>m. m),
     g_isPrint = (\<lambda>r. 0x20 \<le> r \<and> r \<le> 0x7E), g_toLower = (\<lambda>r. r),
     g_osRemove = (\<lambda>_. True), g_osRename = (\<lambda>_ _. True), g_poolMax = 1000 * 2 ^ 20\<rparr>"

lemma demo_env_ok: "env_ok demo_E"
  by (simp add: env_ok_def demo_E_def om.btree_map_axioms default_parts_ok)

definition demo_fs :: "(FileBuffer omap, u64 omap, (nat \<times> u64) omap) Goofys" where
  "demo_fs = rootFs demo_E 0 0 7 ''dir/''"

lemma demo_fs_ok: "fs_ok demo_E demo_fs"
  unfolding demo_fs_def by (rule rootFs_ok [OF demo_env_ok])

text \<open>The same file system with a new inode \<open>a\<close>, not yet and already a child of the root.\<close>

definition demo_new :: "(FileBuffer omap, u64 omap, (nat \<times> u64) omap) Goofys" where
  "demo_new = snd (NewInode demo_E 0 demo_fs (Some 0) ''a'')"

definition demo_one :: "(FileBuffer omap, u64 omap, (nat \<times> u64) omap) Goofys" where
  "demo_one = (case insertInode demo_new 0 (Suc 0) of Some s \<Rightarrow> s | None \<Rightarrow> demo_new)"

lemma demo_new_simps [simp]:
  "nextPtr demo_new = 2" "isDir demo_new 0" "i_Parent (heap demo_new (Suc 0)) = Some 0" "i_Name (heap demo_new (Suc 0)) = ''a''"
  "entries demo_new 0 n = None" "i_Id (heap demo_new (Suc 0)) = 0" "fs_ok demo_E demo_new" "\<not> isDir demo_new (Suc 0)"
proof -
  have n: "nextPtr demo_fs = 1" by (simp add: demo_fs_def)
  show "nextPtr demo_new = 2" "i_Parent (heap demo_new (Suc 0)) = Some 0" "i_Name (heap demo_new (Suc 0)) = ''a''" "i_Id (heap demo_new (Suc 0)) = 0"
    using NewInode_simps(2) [of demo_E 0 demo_fs "Some 0" "''a''"] NewInode_simps(6,7,9) [of demo_E 0 demo_fs "Some 0" "''a''"]
    by (simp_all add: demo_new_def n)
  have h: "heap demo_new 0 = heap demo_fs 0" by (simp add: demo_new_def n)
  show "isDir demo_new 0" using rootFs_simps(3) by (simp add: isDir_def h demo_fs_def)
  have "d_Children (dirOf demo_new 0) = []" using rootFs_simps(7) [of demo_E 0 0 7 "''dir/''"] by (simp add: dirOf_def h demo_fs_def zeroDir_def)
  then show "entries demo_new 0 n = None" by (simp add: entries_def)
  show "fs_ok demo_E demo_new" unfolding demo_new_def by (rule NewInode_ok [OF demo_fs_ok])
  show "\<not> isDir demo_new (Suc 0)" using NewInode_simps(8) [of demo_E 0 demo_fs "Some 0" "''a''"] by (simp add: isDir_def demo_new_def n)
qed

lemma demo_one_simps:
  "fs_ok demo_E demo_one" "nextPtr demo_one = 2" "isDir demo_one 0" "i_Parent (heap demo_one (Suc 0)) = Some 0"
  "i_Name (heap demo_one (Suc 0)) = ''a''" "entries demo_one 0 = [''a'' \<mapsto> (Suc 0)]" "\<not> isDir demo_one (Suc 0)" "i_CacheState (heap demo_one (Suc 0)) = ST_CACHED"
proof -
  obtain s' where s': "insertInode demo_new 0 (Suc 0) = Some s'" "fs_ok demo_E s'" "nextPtr s' = nextPtr demo_new"
    "\<forall>q. isDir s' q = isDir demo_new q" "\<forall>q. i_Name (heap s' q) = i_Name (heap demo_new q)"
    "\<forall>q. i_Parent (heap s' q) = i_Parent (heap demo_new q)" "entries s' 0 = (entries demo_new 0)(''a'' \<mapsto> (Suc 0))" "states s' = states demo_new"
    using insertInode_ok [of demo_E demo_new 0 "Suc 0"] by auto
  have "states demo_new (Suc 0) = ST_CACHED" using NewInode_simps(10) [of demo_E 0 demo_fs "Some 0" "''a''"]
    by (simp add: demo_new_def states_def demo_fs_def)
  with s' show "fs_ok demo_E demo_one" "nextPtr demo_one = 2" "isDir demo_one 0" "i_Parent (heap demo_one (Suc 0)) = Some 0"
    "i_Name (heap demo_one (Suc 0)) = ''a''" "entries demo_one 0 = [''a'' \<mapsto> (Suc 0)]" "\<not> isDir demo_one (Suc 0)" "i_CacheState (heap demo_one (Suc 0)) = ST_CACHED"
    by (auto simp: demo_one_def states_def fun_eq_iff)
qed

section \<open>The children implement a map\<close>

text \<open>
  (C6) Inserting a child into a sorted directory: when the name is free the operation succeeds,
  keeps the invariant of the file system, and afterwards the lookup by bisection finds the child
  under its name and what it found before under every other name; when the name is taken it panics.
\<close>
theorem insertChild_find:
  assumes "fs_ok E s" "parent < nextPtr s" "isDir s parent" "c < nextPtr s" "i_Parent (heap s c) = Some parent"
  shows "case findChildUnlocked s parent (i_Name (heap s c)) of
      Some _ \<Rightarrow> insertChildUnlocked s parent c = None
    | None \<Rightarrow> \<exists>s'. insertChildUnlocked s parent c = Some s' \<and> fs_ok E s' \<and> i_refcnt (heap s' c) = i_refcnt (heap s c) + 1 \<and>
        (\<forall>n. findChildUnlocked s' parent n = (if n = i_Name (heap s c) then Some c else findChildUnlocked s parent n))"
proof -
  note dir = fs_ok_dir [OF assms(1-3)]
  show ?thesis
  proof (cases "entries s parent (i_Name (heap s c))")
    case None
    obtain d' where d': "insertChildUnlocked s parent c = Some (setDir parent d' (Ref s c))" "fs_ok E (setDir parent d' (Ref s c))"
      "entries (setDir parent d' (Ref s c)) parent = (entries s parent)(i_Name (heap s c) \<mapsto> c)"
      using insertChild_fs_ok [OF assms None] by blast
    have "dir_ok (setDir parent d' (Ref s c)) parent" using assms(2) by (intro fs_ok_dir [OF d'(2)]) auto
    with d' None dir show ?thesis by (simp add: findChildUnlocked_entries) (simp add: setDir_def Ref_def)
  next
    case (Some x)
    then show ?thesis using insertChildUnlocked_double [OF dir Some] dir by (simp add: findChildUnlocked_entries)
  qed
qed

theorem insertChild_find_witness:
  "\<exists>s'. insertChildUnlocked demo_new 0 (Suc 0) = Some s' \<and> findChildUnlocked s' 0 ''a'' = Some (Suc 0) \<and> findChildUnlocked s' 0 ''b'' = None"
proof -
  have "dir_ok demo_new 0" by (rule fs_ok_dir [OF demo_new_simps(7)]) simp_all
  then have f: "findChildUnlocked demo_new 0 n = None" for n by (simp add: findChildUnlocked_entries)
  show ?thesis using insertChild_find [of demo_E demo_new 0 "Suc 0"] by (auto simp: f)
qed

text \<open>
  (C7) Removing a child that the directory holds succeeds, keeps the invariant of the file system,
  and afterwards the lookup finds nothing under its name and what it found before under every
  other name.
\<close>
theorem removeChild_find:
  assumes "fs_ok E s" "parent < nextPtr s" "isDir s parent" "findChildUnlocked s parent (i_Name (heap s c)) = Some c"
  shows "\<exists>s'. removeChildUnlocked E s parent c = Some s' \<and> fs_ok E s' \<and> isDir s' parent \<and>
    (\<forall>n. findChildUnlocked s' parent n = (if n = i_Name (heap s c) then None else findChildUnlocked s parent n))"
proof -
  note dir = fs_ok_dir [OF assms(1-3)]
  have e: "entries s parent (i_Name (heap s c)) = Some c" using assms(4) dir by (simp add: findChildUnlocked_entries)
  have c: "c < nextPtr s" by (rule fs_ok_child [OF assms(1-3) e])
  obtain s' d' where s': "removeChildUnlocked E s parent c = Some s'" "tree s' = tree (setDir parent d' s)" "fs_ok E s'"
    "entries s' parent = (entries s parent)(i_Name (heap s c) := None)"
    using removeChild_fs_ok [OF assms(1-3) c e] by blast
  have "isDir s' parent" "nextPtr s' = nextPtr s" using treeD(8,9) [OF s'(2)] by auto
  moreover from this have "dir_ok s' parent" using assms(2) by (intro fs_ok_dir [OF s'(3)]) auto
  ultimately show ?thesis using s' dir by (auto simp: findChildUnlocked_entries)
qed

theorem removeChild_find_witness:
  "\<exists>s'. removeChildUnlocked demo_E demo_one 0 (Suc 0) = Some s' \<and> findChildUnlocked s' 0 ''a'' = None"
proof -
  have "dir_ok demo_one 0" by (rule fs_ok_dir [OF demo_one_simps(1)]) (simp_all add: demo_one_simps)
  then have "findChildUnlocked demo_one 0 (i_Name (heap demo_one (Suc 0))) = Some (Suc 0)"
    by (simp add: findChildUnlocked_entries demo_one_simps)
  from removeChild_find [OF demo_one_simps(1) _ demo_one_simps(3) this] show ?thesis by (auto simp: demo_one_simps)
qed

end
