(* ===== verification/Metadata.thy ===== *)
theory Metadata
  imports Dir_Tree "HOL-Library.AList"
begin

text \<open>
  The metadata of an object and the extended attributes of a file (\<open>core/handles.go\<close>,
  \<open>core/utils.go\<close>): the escaping of keys and values, the mapping of the stored times, owners and
  modes to attributes, and the operations on extended attributes.
\<close>

unbundle bit_operations_syntax

definition ENOATTR :: errno where
  "ENOATTR = ENODATA"

text \<open>The answers of the store: \<open>s_head c key\<close> and \<open>s_list c request\<close> are the results of
  \<open>RetryHeadBlob\<close> and \<open>RetryListBlobs\<close> on backend \<open>c\<close>, \<open>s_head1\<close> is a \<open>HeadBlob\<close> that is not retried.\<close>

record store =
  s_head1 :: "nat \<Rightarrow> string \<Rightarrow> error + BlobItemOutput"
  s_head :: "nat \<Rightarrow> string \<Rightarrow> error + BlobItemOutput"
  s_list :: "nat \<Rightarrow> ListBlobsInput \<Rightarrow> error + ListBlobsOutput"

section \<open>Escaping\<close>

definition strings_ToLower :: "('t, 'd, 'c) gEnv \<Rightarrow> string \<Rightarrow> string" where
  "strings_ToLower E s =
     (if \<forall>c \<in> set s. byte_of c < 0x80 then map lower s
      else concat (map (\<lambda>r. encode_rune (g_toLower E r)) (runes s)))"

definition xattrEscape :: "('t, 'd, 'c) gEnv \<Rightarrow> string \<Rightarrow> string" where
  "xattrEscape E value =
     concat (map (\<lambda>c. if c = 0x25 then ''%25''
                      else if g_isPrint E c then encode_rune c
                      else ''%'' @ format_02X c) (runes value))"

definition PMetadata :: "('t, 'd, 'c) gEnv \<Rightarrow> metadata \<Rightarrow> metadata" where
  "PMetadata E m =
     fold (\<lambda>(k, _) md. let k = strings_ToLower E k; v = (case map_of m k of None \<Rightarrow> [] | Some v \<Rightarrow> v) in AList.update k v md) m []"

definition escapeMetadata :: "('t, 'd, 'c) gEnv \<Rightarrow> metadata option \<Rightarrow> metadata option" where
  "escapeMetadata E mo =
     (case mo of None \<Rightarrow> None
      | Some m \<Rightarrow> Some (fold (\<lambda>(k, v) md. AList.update (strings_ToLower E (xattrEscape E k)) (xattrEscape E v) md) m []))"

definition unescapeMetadata :: "('t, 'd, 'c) gEnv \<Rightarrow> metadata \<Rightarrow> metadata" where
  "unescapeMetadata E m =
     fold (\<lambda>(k, v) md.
        case path_unescape (strings_ToLower E k) of None \<Rightarrow> md
        | Some uk \<Rightarrow> (case path_unescape v of None \<Rightarrow> md | Some uv \<Rightarrow> AList.update uk uv md)) m []"

section \<open>Stored attributes\<close>

definition ModeType :: "32 word" where
  "ModeType = ModeDir OR ModeSymlink OR push_bit 25 1 OR push_bit 24 1 OR push_bit 26 1 OR push_bit 21 1 OR push_bit 19 1"

definition ModeDevice :: "32 word" where
  "ModeDevice = push_bit 26 1"

definition setMode :: "('t, 'd, 'c) gEnv \<Rightarrow> metadata \<Rightarrow> InodeAttributes \<Rightarrow> InodeAttributes" where
  "setMode E m a =
     (if f_EnablePerms (g_flags E) \<or> f_EnableSpecials (g_flags E) then
        (case map_of m (f_FileModeAttr (g_flags E)) of
           None \<Rightarrow> a
         | Some modeStr \<Rightarrow>
             (case parse_uint0 32 modeStr of
                None \<Rightarrow> a
              | Some i \<Rightarrow>
                  let fm = g_ConvertFileMode E (word_of_nat i);
                      mask = (if f_EnablePerms (g_flags E) then ModePerm else 0);
                      mask = (if f_EnableSpecials (g_flags E) \<and> (a_Mode a AND ModeType) = 0 then mask OR ModeType else mask);
                      rmMask = (ModePerm OR ModeType) XOR mask;
                      a = a\<lparr>a_Mode := (a_Mode a AND rmMask) OR (fm AND mask)\<rparr>
                  in if a_Mode a AND ModeDevice \<noteq> 0 then
                       a\<lparr>a_Rdev := (case parse_uint0 32 (case map_of m (f_RdevAttr (g_flags E)) of None \<Rightarrow> [] | Some v \<Rightarrow> v) of
                                     None \<Rightarrow> 0 | Some r \<Rightarrow> r)\<rparr>
                     else a))
      else a)"

definition setMetadata :: "('t, 'd, 'c) gEnv \<Rightarrow> ('t, 'd, 'c) Goofys \<Rightarrow> ptr \<Rightarrow> metadata \<Rightarrow> ('t, 'd, 'c) Goofys" where
  "setMetadata E s p md =
     (let m = unescapeMetadata E md; flags = g_flags E;
          num = (\<lambda>bits key. case map_of m key of None \<Rightarrow> None | Some str \<Rightarrow> parse_uint0 bits str)
      in upd p (\<lambda>i.
           let a = i_Attributes i;
               a = (if f_EnableMtime flags
                    then (case num 64 (f_MtimeAttr flags) of None \<Rightarrow> a | Some t \<Rightarrow> a\<lparr>a_Mtime := i64 (int t) * 10 ^ 9\<rparr>) else a);
               a = (if f_EnablePerms flags
                    then (case num 32 (f_UidAttr flags) of None \<Rightarrow> a | Some u \<Rightarrow> a\<lparr>a_Uid := u\<rparr>) else a);
               a = (if f_EnablePerms flags
                    then (case num 32 (f_GidAttr flags) of None \<Rightarrow> a | Some g \<Rightarrow> a\<lparr>a_Gid := g\<rparr>) else a)
           in i\<lparr>i_userMetadata := Some m, i_Attributes := setMode E m a\<rparr>) s)"

definition fillXattrFromHead :: "('t, 'd, 'c) gEnv \<Rightarrow> ('t, 'd, 'c) Goofys \<Rightarrow> ptr \<Rightarrow> BlobItemOutput \<Rightarrow> ('t, 'd, 'c) Goofys option" where
  "fillXattrFromHead E s p resp =
     (if i_s3Metadata (heap s p) = None then None else Some (let put = (\<lambda>k v i. i\<lparr>i_s3Metadata := map_option (AList.update k v) (i_s3Metadata i)\<rparr>);
          s = (case ETag resp of None \<Rightarrow> s | Some e \<Rightarrow> upd p (put ''etag'' e) s);
          s = upd p (put ''storage-class'' (case StorageClass resp of None \<Rightarrow> ''STANDARD'' | Some c \<Rightarrow> c)) s
      in setMetadata E s p (case ItemMetadata resp of None \<Rightarrow> [] | Some m \<Rightarrow> m)))"

definition xattrKey :: "('t, 'd, 'c) gEnv \<Rightarrow> ('t, 'd, 'c) Goofys \<Rightarrow> ptr \<Rightarrow> string" where
  "xattrKey E s p =
     (let key = (case i_oldParent (heap s p) of
                   None \<Rightarrow> snd (cloud E s p)
                 | Some op \<Rightarrow> appendChildName (snd (cloud E s op)) (i_oldName (heap s p)))
      in if isDir s p then key @ ''/'' else key)"

text \<open>The outer \<^const>\<open>None\<close> is a panic: no backend to ask, or a write to a nil map.\<close>

definition fillXattr :: "store \<Rightarrow> ('t, 'd, 'c) gEnv \<Rightarrow> ('t, 'd, 'c) Goofys \<Rightarrow> ptr \<Rightarrow> (('t, 'd, 'c) Goofys \<times> error option) option" where
  "fillXattr St E s p =
     (if i_userMetadata (heap s p) \<noteq> None then Some (s, None)
      else if isDir s p \<and> d_ImplicitDir (dirOf s p) then Some (upd p (\<lambda>i. i\<lparr>i_userMetadata := Some []\<rparr>) s, None)
      else case fst (cloud E s p) of
        None \<Rightarrow> None
      | Some c \<Rightarrow>
          (case s_head St c (xattrKey E s p) of
             Inl e \<Rightarrow>
               (if mapAwsError1 e = Errno ENOENT then
                  (if isDir s p
                   then Some (upd p (\<lambda>i. i\<lparr>i_userMetadata := Some []\<rparr>) (updDir p (\<lambda>d. d\<lparr>d_ImplicitDir := True\<rparr>) s), None)
                   else Some (s, None))
                else Some (s, Some (mapAwsError1 e)))
           | Inr resp \<Rightarrow> map_option (\<lambda>s. (s, None)) (fillXattrFromHead E s p resp)))"

text \<open>A value of \<^const>\<open>None\<close> is nil and removes the key.  Writing to a nil map panics.\<close>

definition setUserMeta :: "store \<Rightarrow> ('t, 'd, 'c) gEnv \<Rightarrow> ('t, 'd, 'c) Goofys \<Rightarrow> ptr \<Rightarrow> string \<Rightarrow> string option \<Rightarrow>
    (('t, 'd, 'c) Goofys \<times> error option) option" where
  "setUserMeta St E s p key value =
     (if i_userMetadata (heap s p) = None \<and> value = None then Some (s, None)
      else do {
        (s, err) \<leftarrow> (if i_userMetadata (heap s p) = None then fillXattr St E s p else Some (s, None));
        if err \<noteq> None then Some (s, err)
        else case (value, i_userMetadata (heap s p)) of
          (None, None) \<Rightarrow> Some (s, None)
        | (None, Some m) \<Rightarrow>
            if map_of m key = None then Some (s, None)
            else Some (upd p (\<lambda>i. i\<lparr>i_userMetadata := Some (AList.delete key m), i_userMetadataDirty := 2\<rparr>) s, None)
        | (Some v, None) \<Rightarrow> None
        | (Some v, Some m) \<Rightarrow>
            if map_of m key = Some v then Some (s, None)
            else Some (upd p (\<lambda>i. i\<lparr>i_userMetadata := Some (AList.update key v m), i_userMetadataDirty := 2\<rparr>) s, None)
      })"

definition setFileMode :: "store \<Rightarrow> ('t, 'd, 'c) gEnv \<Rightarrow> ('t, 'd, 'c) Goofys \<Rightarrow> ptr \<Rightarrow> 32 word \<Rightarrow>
    (('t, 'd, 'c) Goofys \<times> bool \<times> error option) option" where
  "setFileMode St E s p newMode =
     (let flags = g_flags E; prevMode = a_Mode (i_Attributes (heap s p)); setM = (\<lambda>m. upd p (\<lambda>i. i\<lparr>i_Attributes := (i_Attributes i)\<lparr>a_Mode := m\<rparr>\<rparr>)) in
      if f_EnableSpecials flags \<and> newMode AND ModeDir \<noteq> prevMode AND ModeDir
      then Some (s, False, Some (Errno (if newMode AND ModeDir \<noteq> 0 then ENOTDIR else EISDIR)))
      else
        let mode = (if f_EnableSpecials flags then (prevMode AND ModePerm) OR (newMode AND ModeType) else prevMode);
            mode = (if f_EnablePerms flags then (mode AND ModeType) OR (newMode AND ModePerm) else mode);
            s = setM mode s;
            changed = (prevMode \<noteq> mode);
            defaultMode = (if isDir s p then f_DirMode flags OR ModeDir else f_FileMode flags)
        in do {
             (s, err) \<leftarrow> (if mode AND ModeDevice \<noteq> 0
                          then setUserMeta St E s p (f_RdevAttr flags) (Some (format_d (a_Rdev (i_Attributes (heap s p)))))
                          else Some (s, None));
             if err \<noteq> None then Some (s, changed, err)
             else do {
               (s, err) \<leftarrow> (if mode \<noteq> defaultMode
                            then setUserMeta St E s p (f_FileModeAttr flags) (Some (format_d (unat (g_ConvertGoMode E mode))))
                            else setUserMeta St E s p (f_FileModeAttr flags) None);
               Some (s, changed, err)
             }
           })"

section \<open>Extended attributes\<close>

definition getXattrMap :: "store \<Rightarrow> ('t, 'd, 'c) gEnv \<Rightarrow> ('t, 'd, 'c) Goofys \<Rightarrow> ptr \<Rightarrow> string \<Rightarrow> bool \<Rightarrow>
    (('t, 'd, 'c) Goofys \<times> (error + metadata \<times> string)) option" where
  "getXattrMap St E s p name userOnly =
     (case fst (cloud E s p) of
        None \<Rightarrow> None
      | Some c \<Rightarrow>
          let xattrPrefix = CapName (g_caps E c) @ ''.'';
              ret = (\<lambda>meta nm. case meta of None \<Rightarrow> Inl (Errno ENOATTR) | Some m \<Rightarrow> Inr (m, nm))
          in if prefix xattrPrefix name then
               (if userOnly then Some (s, Inl (Errno EPERM))
                else Some (s, ret (i_s3Metadata (heap s p)) (drop (length xattrPrefix) name)))
             else if prefix ''user.'' name \<and> name \<noteq> ''user.'' @ f_SymlinkAttr (g_flags E) then
               do {
                 (s, err) \<leftarrow> fillXattr St E s p;
                 case err of Some e \<Rightarrow> Some (s, Inl e)
                 | None \<Rightarrow> Some (s, ret (i_userMetadata (heap s p)) (drop 5 name))
               }
             else Some (s, Inl (Errno (if userOnly then EPERM else ENOATTR))))"

definition XATTR_CREATE :: nat where "XATTR_CREATE = 1"
definition XATTR_REPLACE :: nat where "XATTR_REPLACE = 2"

definition xattrChanged :: "('t, 'd, 'c) gEnv \<Rightarrow> ('t, 'd, 'c) Goofys \<Rightarrow> ptr \<Rightarrow> metadata \<Rightarrow> ('t, 'd, 'c) Goofys" where
  "xattrChanged E s p m =
     (let s = upd p (\<lambda>i. i\<lparr>i_userMetadata := Some m, i_userMetadataDirty := 2\<rparr>) s
      in if i_CacheState (heap s p) = ST_CACHED then WakeupFlusher (SetCacheState E s p ST_MODIFIED) else s)"

text \<open>The name \<open>debug\<close> dumps the tree to the log and changes nothing.\<close>

definition SetXattr :: "store \<Rightarrow> ('t, 'd, 'c) gEnv \<Rightarrow> ('t, 'd, 'c) Goofys \<Rightarrow> ptr \<Rightarrow> string \<Rightarrow> string \<Rightarrow> nat \<Rightarrow>
    (('t, 'd, 'c) Goofys \<times> error option) option" where
  "SetXattr St E s p name value flags =
     (if name = ''debug'' then Some (s, None)
      else if i_CacheState (heap s p) = ST_DELETED \<or> i_CacheState (heap s p) = ST_DEAD then Some (s, Some (Errno ENOENT))
      else do {
        (s, r) \<leftarrow> getXattrMap St E s p name True;
        case r of
          Inl e \<Rightarrow> Some (s, if e = Errno EPERM then None else Some e)
        | Inr (md, nm) \<Rightarrow>
            if flags = XATTR_CREATE \<and> map_of md nm \<noteq> None then Some (s, Some (Errno EEXIST))
            else if flags = XATTR_REPLACE \<and> map_of md nm = None then Some (s, Some (Errno ENOATTR))
            else Some (xattrChanged E s p (AList.update nm value md), None)
      })"

definition RemoveXattr :: "store \<Rightarrow> ('t, 'd, 'c) gEnv \<Rightarrow> ('t, 'd, 'c) Goofys \<Rightarrow> ptr \<Rightarrow> string \<Rightarrow>
    (('t, 'd, 'c) Goofys \<times> error option) option" where
  "RemoveXattr St E s p name =
     (if i_CacheState (heap s p) = ST_DELETED \<or> i_CacheState (heap s p) = ST_DEAD then Some (s, Some (Errno ENOENT))
      else do {
        (s, r) \<leftarrow> getXattrMap St E s p name True;
        case r of
          Inl e \<Rightarrow> Some (s, if e = Errno EPERM then None else Some e)
        | Inr (md, nm) \<Rightarrow>
            if map_of md nm \<noteq> None then Some (xattrChanged E s p (AList.delete nm md), None)
            else Some (s, Some (Errno ENOATTR))
      })"

definition GEESEFS_VERSION :: string where
  "GEESEFS_VERSION = ''0.43.9''"

definition GetXattr :: "store \<Rightarrow> ('t, 'd, 'c) gEnv \<Rightarrow> ('t, 'd, 'c) Goofys \<Rightarrow> ptr \<Rightarrow> string \<Rightarrow>
    (('t, 'd, 'c) Goofys \<times> (error + string)) option" where
  "GetXattr St E s p name =
     (if name = ''geesefs'' then Some (s, Inr GEESEFS_VERSION)
      else do {
        (s, r) \<leftarrow> getXattrMap St E s p name False;
        case r of
          Inl e \<Rightarrow> Some (s, Inl e)
        | Inr (md, nm) \<Rightarrow> Some (s, case map_of md nm of Some v \<Rightarrow> Inr v | None \<Rightarrow> Inl (Errno ENOATTR))
      })"

definition ListXattr :: "store \<Rightarrow> ('t, 'd, 'c) gEnv \<Rightarrow> ('t, 'd, 'c) Goofys \<Rightarrow> ptr \<Rightarrow>
    (('t, 'd, 'c) Goofys \<times> (error + string list)) option" where
  "ListXattr St E s p =
     do {
       (s, err) \<leftarrow> fillXattr St E s p;
       case err of
         Some e \<Rightarrow> Some (s, Inl e)
       | None \<Rightarrow>
           (case fst (cloud E s p) of
              None \<Rightarrow> None
            | Some c \<Rightarrow>
                let pre = CapName (g_caps E c) @ ''.'';
                    keys = (\<lambda>m. case m of None \<Rightarrow> [] | Some kvs \<Rightarrow> map fst kvs)
                in Some (s, Inr (sort (map (\<lambda>k. pre @ k) (keys (i_s3Metadata (heap s p))) @
                                       map (\<lambda>k. ''user.'' @ k) (keys (i_userMetadata (heap s p)))))))
     }"

section \<open>Round trips\<close>

text \<open>What the Unicode tables say of ASCII: the printable characters are those from space to tilde.\<close>

definition ascii_print :: "('t, 'd, 'c) gEnv \<Rightarrow> bool" where
  "ascii_print E \<longleftrightarrow> (\<forall>r < 0x80. g_isPrint E r \<longleftrightarrow> 0x20 \<le> r \<and> r \<le> 0x7E)"

definition ascii :: "string \<Rightarrow> bool" where
  "ascii s \<longleftrightarrow> (\<forall>c \<in> set s. byte_of c < 0x80)"

definition esc_char :: "('t, 'd, 'c) gEnv \<Rightarrow> char \<Rightarrow> string" where
  "esc_char E c = (if c = CHR ''%'' then ''%25'' else if g_isPrint E (byte_of c) then [c]
     else [CHR ''%'', hex_digit (byte_of c div 16), hex_digit (byte_of c mod 16)])"

lemma byte_of_percent: "byte_of c = 0x25 \<longleftrightarrow> c = CHR ''%''"
proof
  assume "byte_of c = 0x25"
  then have "c = chr 0x25" by (metis chr_byte_of)
  then show "c = CHR ''%''" by (simp add: chr_def char_of_eq_iff)
qed (simp add: byte_of_def)

lemma xattrEscape_ascii: "ascii s \<Longrightarrow> xattrEscape E s = concat (map (esc_char E) s)"
proof -
  assume a: "ascii s"
  then have "map (\<lambda>c. if byte_of c = 0x25 then ''%25'' else if g_isPrint E (byte_of c) then encode_rune (byte_of c)
      else ''%'' @ format_02X (byte_of c)) s = map (esc_char E) s"
    by (intro map_cong) (auto simp: ascii_def byte_of_percent format_02X_byte encode_rune_def Let_def esc_char_def)
  moreover have "runes s = map byte_of s" using a by (simp add: ascii_def runes_ascii)
  ultimately show ?thesis unfolding xattrEscape_def by (simp only: map_map comp_def)
qed

lemma chr_percent [simp]: "char_of (37 :: nat) = CHR ''%''"
  by (simp add: char_of_eq_iff)

lemma path_unescape_esc: "path_unescape (esc_char E c @ r) = map_option (\<lambda>t. c # t) (path_unescape r)"
proof -
  have "path_unescape (CHR ''%'' # hex_digit (byte_of c div 16) # hex_digit (byte_of c mod 16) # r) =
      map_option (\<lambda>t. c # t) (path_unescape r)" using path_unescape_hex [of "byte_of c" r] by simp
  moreover have "path_unescape (''%25'' @ r) = map_option (\<lambda>t. CHR ''%'' # t) (path_unescape r)"
    by (simp add: unhex_def byte_of_def chr_def char_of_eq_iff)
  ultimately show ?thesis by (auto simp: esc_char_def)
qed

lemma path_unescape_escape: "ascii s \<Longrightarrow> path_unescape (xattrEscape E s) = Some s"
proof -
  have "path_unescape (concat (map (esc_char E) s)) = Some s" by (induction s) (simp_all add: path_unescape_esc)
  then show "ascii s \<Longrightarrow> ?thesis" by (simp add: xattrEscape_ascii)
qed

lemma lower_hex: "d < 16 \<Longrightarrow> unhex (lower (hex_digit d)) = Some d"
  by (auto simp: unhex_def lower_def hex_digit_def less_eq_char_def chr_def byte_of_def)

text \<open>A key is lowered after it is escaped; keys without capitals survive.\<close>

definition no_capitals :: "string \<Rightarrow> bool" where
  "no_capitals s \<longleftrightarrow> (\<forall>c \<in> set s. \<not> (CHR ''A'' \<le> c \<and> c \<le> CHR ''Z''))"

lemma esc_char_lower:
  assumes "ascii_print E" "byte_of c < 0x80" "\<not> (CHR ''A'' \<le> c \<and> c \<le> CHR ''Z'')"
  shows "path_unescape (map lower (esc_char E c) @ r) = map_option (\<lambda>t. c # t) (path_unescape r)"
    "\<forall>x \<in> set (esc_char E c). byte_of x < 0x80"
proof -
  have "16 * (byte_of c div 16) + byte_of c mod 16 = byte_of c" by simp
  then have "path_unescape (CHR ''%'' # lower (hex_digit (byte_of c div 16)) # lower (hex_digit (byte_of c mod 16)) # r) =
      map_option (\<lambda>t. c # t) (path_unescape r)"
    using assms(2) by (simp add: lower_hex less_mult_imp_div_less)
  moreover have "path_unescape (map lower ''%25'' @ r) = map_option (\<lambda>t. CHR ''%'' # t) (path_unescape r)"
    by (simp add: lower_def unhex_def byte_of_def chr_def char_of_eq_iff)
  moreover have "lower c = c" "lower CHR ''%'' = CHR ''%''" using assms(3) by (auto simp: lower_def)
  ultimately show "path_unescape (map lower (esc_char E c) @ r) = map_option (\<lambda>t. c # t) (path_unescape r)"
    by (auto simp: esc_char_def)
  have "byte_of (hex_digit d) < 0x80" if "d < 16" for d using that by (simp add: hex_digit_def)
  then show "\<forall>x \<in> set (esc_char E c). byte_of x < 0x80"
    using assms(2) by (auto simp: esc_char_def byte_of_def less_mult_imp_div_less)
qed

lemma path_unescape_key:
  assumes "ascii_print E" "ascii s" "no_capitals s"
  shows "path_unescape (strings_ToLower E (strings_ToLower E (xattrEscape E s))) = Some s"
proof -
  have ll: "lower (lower c) = lower c" for c
    by (auto simp: lower_def less_eq_char_def chr_def byte_of_def)
  have a: "\<forall>x \<in> set (concat (map (esc_char E) s)). byte_of x < 0x80"
    using esc_char_lower(2) [OF assms(1)] assms(2,3) by (auto simp: ascii_def no_capitals_def)
  have lb: "byte_of c < 0x80 \<Longrightarrow> byte_of (lower c) < 0x80" for c
    by (auto simp: lower_def less_eq_char_def chr_def byte_of_def)
  have "path_unescape (map lower (concat (map (esc_char E) s))) = Some s"
    using assms(2,3)
  proof (induction s)
    case (Cons c s)
    then show ?case using esc_char_lower(1) [OF assms(1), of c "map lower (concat (map (esc_char E) s))"]
      by (simp add: ascii_def no_capitals_def)
  qed simp
  with a lb show ?thesis by (simp add: xattrEscape_ascii [OF assms(2)] strings_ToLower_def comp_def ll)
qed

text \<open>The metadata of a map whose keys and values are ASCII and whose keys have no capitals.\<close>

definition plain_metadata :: "metadata \<Rightarrow> bool" where
  "plain_metadata m \<longleftrightarrow> distinct (map fst m) \<and> (\<forall>x \<in> set m. ascii (fst x) \<and> no_capitals (fst x) \<and> ascii (snd x))"

lemma fold_update_keys:
  "distinct (map f m) \<Longrightarrow> f ` set m \<inter> fst ` set acc = {} \<Longrightarrow>
    fold (\<lambda>x. AList.update (f x) (g x)) m acc = acc @ map (\<lambda>x. (f x, g x)) m"
proof (induction m arbitrary: acc)
  case (Cons x m)
  have "AList.update (f x) (g x) acc = acc @ [(f x, g x)]"
    using Cons.prems(2) by (induction acc) auto
  with Cons show ?case by auto
qed simp

lemma escape_keys_distinct:
  assumes "ascii_print E" "plain_metadata m"
  shows "distinct (map (\<lambda>x. strings_ToLower E (xattrEscape E (fst x))) m)"
proof -
  have "inj_on (\<lambda>k. strings_ToLower E (xattrEscape E k)) (fst ` set m)"
  proof (rule inj_onI)
    fix a b assume *: "a \<in> fst ` set m" "b \<in> fst ` set m"
      "strings_ToLower E (xattrEscape E a) = strings_ToLower E (xattrEscape E b)"
    have "path_unescape (strings_ToLower E (strings_ToLower E (xattrEscape E k))) = Some k" if "k \<in> fst ` set m" for k
      using path_unescape_key [OF assms(1)] that assms(2) by (auto simp: plain_metadata_def)
    from this [OF *(1)] this [OF *(2)] show "a = b" unfolding *(3) by simp
  qed
  then have "distinct (map (\<lambda>k. strings_ToLower E (xattrEscape E k)) (map fst m))"
    using assms(2) unfolding plain_metadata_def distinct_map [of _ "map fst m"] by simp
  then show ?thesis by (simp add: comp_def)
qed

text \<open>
  (C15) Metadata survives the store.  For keys and values in ASCII and keys without capital letters,
  what \<open>escapeMetadata\<close> sends with an object is turned back by \<open>unescapeMetadata\<close> into the same map,
  whatever characters below 128 the keys and values contain.
\<close>
theorem metadata_roundtrip:
  assumes "ascii_print E" "plain_metadata m"
  shows "map_option (unescapeMetadata E) (escapeMetadata E (Some m)) = Some m"
proof -
  let ?k = "\<lambda>x. strings_ToLower E (xattrEscape E (fst x))" and ?v = "\<lambda>x. xattrEscape E (snd x)"
  have esc: "escapeMetadata E (Some m) = Some (map (\<lambda>x. (?k x, ?v x)) m)"
    using fold_update_keys [of ?k m "[]" ?v] escape_keys_distinct [OF assms]
    by (simp add: escapeMetadata_def case_prod_beta')
  have "unescapeMetadata E (map (\<lambda>x. (?k x, ?v x)) m) = fold (\<lambda>x. AList.update (fst x) (snd x)) m []"
    unfolding unescapeMetadata_def fold_map
  proof (rule fold_cong [OF refl refl])
    fix x assume "x \<in> set m"
    then have "path_unescape (strings_ToLower E (?k x)) = Some (fst x)" "path_unescape (?v x) = Some (snd x)"
      using assms path_unescape_key [OF assms(1)] path_unescape_escape by (auto simp: plain_metadata_def)
    then show "((\<lambda>(k, v) md. case path_unescape (strings_ToLower E k) of None \<Rightarrow> md
        | Some uk \<Rightarrow> (case path_unescape v of None \<Rightarrow> md | Some uv \<Rightarrow> AList.update uk uv md)) \<circ> (\<lambda>x. (?k x, ?v x))) x =
        AList.update (fst x) (snd x)" by (simp add: fun_eq_iff)
  qed
  also have "\<dots> = m"
    using fold_update_keys [of fst m "[]" snd] assms(2) by (simp add: plain_metadata_def)
  finally show ?thesis using esc by simp
qed

theorem metadata_roundtrip_witness:
  "map_option (unescapeMetadata demo_E) (escapeMetadata demo_E (Some [(''a%b'', ''50% '' @ [CHR 0x0A])])) = Some [(''a%b'', ''50% '' @ [CHR 0x0A])]"
proof (rule metadata_roundtrip)
  show "ascii_print demo_E" by (simp add: ascii_print_def demo_E_def)
  show "plain_metadata [(''a%b'', ''50% '' @ [CHR 0x0A])]"
    by (simp add: plain_metadata_def ascii_def no_capitals_def byte_of_def less_eq_char_def)
qed

section \<open>Extended attributes\<close>

text \<open>What the path of an object depends on.\<close>

definition place :: "('t, 'd, 'c) Inode \<Rightarrow> string \<times> ptr option \<times> (nat option \<times> string) option" where
  "place i = (i_Name i, i_Parent i, map_option (\<lambda>d. (d_cloud d, d_mountPrefix d)) (i_dir i))"

definition places :: "('t, 'd, 'c) Goofys \<Rightarrow> (ptr \<Rightarrow> string \<times> ptr option \<times> (nat option \<times> string) option) \<times> ptr" where
  "places s = (\<lambda>q. place (heap s q), nextPtr s)"

lemma placesD:
  assumes "places s' = places s"
  shows "i_Name (heap s' q) = i_Name (heap s q)" "i_Parent (heap s' q) = i_Parent (heap s q)" "nextPtr s' = nextPtr s"
    "(i_dir (heap s' q) = None) = (i_dir (heap s q) = None)" "d_cloud (dirOf s' q) = d_cloud (dirOf s q)" "d_mountPrefix (dirOf s' q) = d_mountPrefix (dirOf s q)"
proof -
  have q: "place (heap s q) = place (heap s' q)" using assms by (simp add: places_def fun_eq_iff)
  then show "i_Name (heap s' q) = i_Name (heap s q)" "i_Parent (heap s' q) = i_Parent (heap s q)"
    by (simp_all add: place_def)
  from q show "(i_dir (heap s' q) = None) = (i_dir (heap s q) = None)" "d_cloud (dirOf s' q) = d_cloud (dirOf s q)" "d_mountPrefix (dirOf s' q) = d_mountPrefix (dirOf s q)"
    by (cases "i_dir (heap s q)"; cases "i_dir (heap s' q)"; simp add: place_def dirOf_def)+
  show "nextPtr s' = nextPtr s" using assms by (simp add: places_def)
qed

lemma chain_places:
  assumes "places s' = places s"
  shows "chain n s' p = chain n s p"
proof (induction n arbitrary: p)
  case (Suc n)
  then show ?case by (cases p) (simp_all add: placesD(2) [OF assms])
qed simp

lemma cloud_loop_places:
  assumes "places s' = places s"
  shows "cloud_loop E s' ps path = cloud_loop E s ps path"
  by (induction ps arbitrary: path) (auto simp: placesD(1,2,5,6) [OF assms] split: option.splits)

lemma cloud_places:
  assumes "places s' = places s"
  shows "cloud E s' p = cloud E s p"
  unfolding cloud_def ancestors_def placesD(3) [OF assms] chain_places [OF assms] cloud_loop_places [OF assms] placesD(1,2,4) [OF assms]
  by simp

lemma places_tree: "tree s' = tree s \<Longrightarrow> places s' = places s"
proof -
  assume t: "tree s' = tree s"
  have "place (heap s' q) = place (heap s q)" for q
    using treeD(1,2,6,7,8) [OF t, of q]
    by (cases "i_dir (heap s q)"; cases "i_dir (heap s' q)") (simp_all add: place_def dirOf_def isDir_def)
  then show ?thesis using treeD(9) [OF t] by (simp add: places_def)
qed

lemma places_upd [simp]: "place (f (heap s p)) = place (heap s p) \<Longrightarrow> places (upd p f s) = places s"
  by (auto simp: places_def upd_def fun_eq_iff)

lemma places_updDir [simp]: "(\<And>d. d_cloud (f d) = d_cloud d \<and> d_mountPrefix (f d) = d_mountPrefix d) \<Longrightarrow> places (updDir p f s) = places s"
  by (auto simp: places_def fun_eq_iff place_def option.map_comp comp_def)

lemma setMetadata_places [simp]: "places (setMetadata E s p m) = places s"
  unfolding setMetadata_def Let_def by (rule places_upd) (simp add: place_def)

lemma fillXattr_places: "fillXattr St E s p = Some (s', e) \<Longrightarrow> places s' = places s"
  by (auto simp: fillXattr_def fillXattrFromHead_def Let_def place_def split: if_splits option.splits sum.splits)

lemma xattrChanged_places [simp]:
  fixes s :: "('t, 'd, 'c) Goofys"
  shows "places (xattrChanged E s p m) = places s"
proof -
  have "places (WakeupFlusher (SetCacheState E s p ST_MODIFIED)) = places s" for s :: "('t, 'd, 'c) Goofys"
    by (rule places_tree) simp
  then show ?thesis unfolding xattrChanged_def Let_def by (simp add: place_def)
qed

lemma addModified_userMetadata [simp]: "i_userMetadata (heap (addModified s parent n) q) = i_userMetadata (heap s q)"
  unfolding addModified_def by (rule fold_view [where V = "\<lambda>s. i_userMetadata (heap s q)"]) simp

lemma xattrChanged_userMetadata: "i_userMetadata (heap (xattrChanged E s p m) p) = Some m"
  by (auto simp: xattrChanged_def SetCacheState_def WakeupFlusher_def Let_def split: prod.splits)

lemma addModified_dirty [simp]: "i_userMetadataDirty (heap (addModified s parent n) q) = i_userMetadataDirty (heap s q)"
  unfolding addModified_def by (rule fold_view [where V = "\<lambda>s. i_userMetadataDirty (heap s q)"]) simp

lemma xattrChanged_dirty: "i_userMetadataDirty (heap (xattrChanged E s p m) p) = 2"
  by (auto simp: xattrChanged_def SetCacheState_def WakeupFlusher_def Let_def split: prod.splits)

text \<open>The names of user attributes: neither an attribute of the object nor the target of a symbolic link.\<close>

definition userXattr :: "('t, 'd, 'c) gEnv \<Rightarrow> ('t, 'd, 'c) Goofys \<Rightarrow> ptr \<Rightarrow> string \<Rightarrow> bool" where
  "userXattr E s p nm \<longleftrightarrow> nm \<noteq> f_SymlinkAttr (g_flags E) \<and>
     (case fst (cloud E s p) of None \<Rightarrow> False | Some c \<Rightarrow> \<not> prefix (CapName (g_caps E c) @ ''.'') (''user.'' @ nm))"

lemma getXattrMap_user:
  assumes "userXattr E s p nm"
  shows "getXattrMap St E s p (''user.'' @ nm) u =
    do {
      (s, err) \<leftarrow> fillXattr St E s p;
      Some (s, case err of Some e \<Rightarrow> Inl e | None \<Rightarrow> (case i_userMetadata (heap s p) of None \<Rightarrow> Inl (Errno ENOATTR) | Some m \<Rightarrow> Inr (m, nm)))
    }"
  using assms by (auto simp: userXattr_def getXattrMap_def Let_def split: option.splits bind_splits cong: option.case_cong)

lemma GetXattr_user:
  assumes "userXattr E s p nm" "fillXattr St E s p = Some (s1, None)" "i_userMetadata (heap s1 p) = Some m"
  shows "GetXattr St E s p (''user.'' @ nm) = Some (s1, case map_of m nm of Some v \<Rightarrow> Inr v | None \<Rightarrow> Inl (Errno ENOATTR))"
  unfolding GetXattr_def getXattrMap_user [OF assms(1)] using assms(2,3) by simp

text \<open>A file whose metadata has not been read, with and without an object in the store.\<close>

lemmas demo_defs = demo_one_def demo_new_def demo_fs_def rootFs_def emptyGoofys_def NewInode_def insertInode_def allocateInodeId_def
  insertChildUnlocked_def ToDir_def Ref_def zeroInode_def upd_def updDir_def dirOf_def isDir_def zeroDir_def demo_E_def Let_def

lemma demo_one_file:
  "i_userMetadata (heap demo_one (Suc 0)) = None" "fst (cloud demo_E demo_one (Suc 0)) = Some 7"
  "i_s3Metadata (heap demo_one (Suc 0)) = Some []"
  by (simp_all add: demo_defs cloud_def ancestors_def numeral_2_eq_2)

definition demo_gone :: store where
  "demo_gone = \<lparr>s_head1 = (\<lambda>_ _. Inl (Errno ENOENT)), s_head = (\<lambda>_ _. Inl (Errno ENOENT)), s_list = (\<lambda>_ _. Inl (Errno ENOENT))\<rparr>"

definition demo_held :: store where
  "demo_held = demo_gone\<lparr>s_head := (\<lambda>_ key. Inr \<lparr>Key = key, ETag = Some ''e'', LastModified = None, ItemSize = 0, StorageClass = None,
     ItemMetadata = Some [(''k'', ''old'')]\<rparr>)\<rparr>"



text \<open>
  (C37) A file whose object has gone from the store and whose metadata was never read: \<open>fillXattr\<close> reports
  success and leaves the map of the metadata nil, so storing a metadata value afterwards panics.
\<close>
theorem setUserMeta_nil_panics:
  assumes "i_userMetadata (heap s p) = None" "\<not> isDir s p" "fst (cloud E s p) = Some c"
    and "s_head St c (xattrKey E s p) = Inl (Errno ENOENT)"
  shows "fillXattr St E s p = Some (s, None) \<and> setUserMeta St E s p key (Some v) = None"
  using assms by (simp add: fillXattr_def setUserMeta_def)

theorem setUserMeta_nil_panics_witness: "setUserMeta demo_gone demo_E demo_one (Suc 0) ''k'' (Some ''v'') = None"
  using setUserMeta_nil_panics [OF demo_one_file(1) demo_one_simps(7) demo_one_file(2), of demo_gone "''k''" "''v''"]
  by (simp add: demo_gone_def)

end
