(* ===== verification/Slurp_Gaps.thy ===== *)
theory Slurp_Gaps
  imports Inode_State
begin

text \<open>
  The ranges of keys that a recursive listing has loaded (\<open>core/dir.go\<close>), kept in \<open>dir.Gaps\<close> so
  that a lookup of a key in a loaded range need not ask the store.  A gap is reached through one
  pointer only, so the gaps are values.  \<^const>\<open>None\<close> is an index out of range or a slice extended past
  its length.
\<close>

fun gap_back :: "SlurpGap list \<Rightarrow> string \<Rightarrow> nat \<Rightarrow> nat" where
  "gap_back gaps start 0 = 0"
| "gap_back gaps start (Suc pos) = (if gap_end (gaps ! pos) > start then gap_back gaps start pos else Suc pos)"

text \<open>Go's \<open>copy(xs[i:], xs[j:])\<close>.\<close>

definition slice_copy :: "'a list \<Rightarrow> nat \<Rightarrow> nat \<Rightarrow> 'a list" where
  "slice_copy xs i j =
     (let n = min (length xs - i) (length xs - j) in take i xs @ take n (drop j xs) @ drop (i + n) xs)"

definition markGapLoaded :: "gotime \<Rightarrow> SlurpGap list \<Rightarrow> string \<Rightarrow> string \<Rightarrow> SlurpGap list option" where
  "markGapLoaded now gaps start end =
     (let pos = (if start \<noteq> [] then sort_search (length gaps) (\<lambda>i. gap_start (gaps ! i) \<ge> start) else 0);
          pos = gap_back gaps start pos;
          endPos = sort_search (length gaps) (\<lambda>i. gap_start (gaps ! i) \<ge> end);
          (gaps, pos) = (if pos < length gaps \<and> gap_start (gaps ! pos) < start
                         then (gaps[pos := (gaps ! pos)\<lparr>gap_end := start\<rparr>], Suc pos) else (gaps, pos));
          (gaps, endPos) = (if 0 < endPos \<and> gap_end (gaps ! (endPos - 1)) > end
                            then (gaps[endPos - 1 := (gaps ! (endPos - 1))\<lparr>gap_start := end\<rparr>], endPos - 1) else (gaps, endPos));
          l = int (length gaps) - (int endPos - int pos);
          gap = \<lparr>gap_start = start, gap_end = end, gap_loadTime = now\<rparr>;
          gaps = (if pos = endPos then gaps @ [gap] else gaps)
      in if pos + 1 > length gaps then None
         else
           let gaps = (slice_copy gaps (pos + 1) endPos)[pos := gap] in
           if l < 0 \<or> l > int (length gaps) then None else Some (take (nat l) gaps))"

definition checkGapLoaded :: "SlurpGap list \<Rightarrow> string \<Rightarrow> gotime \<Rightarrow> SlurpGap list \<times> bool" where
  "checkGapLoaded gaps key newerThan =
     (let pos = sort_search (length gaps) (\<lambda>i. gap_end (gaps ! i) \<ge> key) in
      if pos < length gaps \<and> gap_start (gaps ! pos) < key then
        (if gap_loadTime (gaps ! pos) > newerThan then (gaps, True)
         else (take pos gaps @ drop (pos + 1) gaps, False))
      else (gaps, False))"

text \<open>A history of marks on a directory that starts without gaps.\<close>

fun mark_gaps :: "(gotime \<times> string \<times> string) list \<Rightarrow> SlurpGap list \<Rightarrow> SlurpGap list option" where
  "mark_gaps [] gaps = Some gaps"
| "mark_gaps ((now, start, end) # ms) gaps = do { gaps \<leftarrow> markGapLoaded now gaps start end; mark_gaps ms gaps }"

lemma sort_search_0 [simp]: "sort_search 0 f = 0"
  by (simp add: sort_search_def sort_search_loop.simps)

lemma markGapLoaded_empty: "markGapLoaded now [] start end = Some []"
  by (simp add: markGapLoaded_def Let_def slice_copy_def)

text \<open>
  (C40) No range is ever remembered as loaded.  The length of the new list of gaps is computed before
  the new gap is counted, so from an empty list every mark leaves the list empty, and after any
  history of marks the check of any key answers that it is not loaded.
\<close>
theorem gaps_never_loaded:
  "\<exists>gaps. mark_gaps ms [] = Some gaps \<and> checkGapLoaded gaps key newerThan = ([], False)"
proof -
  have "mark_gaps ms [] = Some []"
  proof (induction ms)
    case (Cons m ms)
    then show ?case by (cases m) (simp add: markGapLoaded_empty)
  qed simp
  then show ?thesis by (simp add: checkGapLoaded_def)
qed

end
