(* ===== verification/Dir_Listing.thy ===== *)
theory Dir_Listing
  imports Metadata Slurp_Gaps
begin

text \<open>
  Filling directories from listings (\<open>core/dir.go\<close>, \<open>SetFromBlobItem\<close> of \<open>core/handles.go\<close>): an
  object of a listing updates or creates its inode and the directories on its path
  (\<open>insertSubTree\<close>, \<open>handleListResult\<close>), expired children are dropped (\<open>removeExpired\<close>), and a
  directory is sealed when all of it has been listed.  The checks that the source repeats after
  taking the lock of a child repeat the same values here.
\<close>

section \<open>One object\<close>

definition setS3 :: "string \<Rightarrow> string option \<Rightarrow> ('t, 'd, 'c) Inode \<Rightarrow> ('t, 'd, 'c) Inode" where
  "setS3 k vo i =
     i\<lparr>i_s3Metadata := map_option (\<lambda>m. case vo of Some v \<Rightarrow> AList.update k v m | None \<Rightarrow> AList.delete k m) (i_s3Metadata i)\<rparr>"

text \<open>A write to a nil \<open>s3Metadata\<close> panics.\<close>

definition SetFromBlobItem :: "('t, 'd, 'c) gEnv \<Rightarrow> gotime \<Rightarrow> ('t, 'd, 'c) Goofys \<Rightarrow> ptr \<Rightarrow> BlobItemOutput \<Rightarrow> ('t, 'd, 'c) Goofys option" where
  "SetFromBlobItem E now s p item =
     (let i = heap s p;
          patchInProgress = (f_UsePatch (g_flags E) \<and> i_mpu i = None \<and> i_CacheState i = ST_MODIFIED \<and> i_IsFlushing i > 0);
          renameInProgress = (i_oldName i \<noteq> [])
      in do {
        s \<leftarrow> (if (ETag item \<noteq> None \<and> Some (i_knownETag i) \<noteq> ETag item \<or> ItemSize item \<noteq> i_knownSize i) \<and>
                 \<not> patchInProgress \<and> \<not> renameInProgress then
               do {
                 s \<leftarrow> resetCache E s p;
                 let tm = (case LastModified item of Some t \<Rightarrow> t | None \<Rightarrow> a_Ctime (rootAttrs s));
                 let s = upd p (\<lambda>i. i\<lparr>i_Attributes := (i_Attributes i)\<lparr>a_Size := ItemSize item, a_Mtime := tm, a_Ctime := tm\<rparr>,
                                      i_knownSize := ItemSize item\<rparr>) s;
                 Some (case ItemMetadata item of
                         None \<Rightarrow> s
                       | Some m \<Rightarrow> upd p (\<lambda>i. i\<lparr>i_userMetadataDirty := 0\<rparr>) (setMetadata E s p m))
               }
             else Some s);
        s \<leftarrow> (if i_s3Metadata (heap s p) = None \<and> (ETag item \<noteq> None \<or> StorageClass item \<noteq> None) then None
             else Some (upd p (\<lambda>i. setS3 ''storage-class'' (StorageClass item)
                    ((setS3 ''etag'' (ETag item) i)\<lparr>i_knownETag := (case ETag item of Some e \<Rightarrow> e | None \<Rightarrow> i_knownETag i)\<rparr>)) s));
        Some (if i_AttrTime (heap s p) < now then SetAttrTime E s p now else s)
      })"

definition isParentOf :: "('t, 'd, 'c) Goofys \<Rightarrow> ptr \<Rightarrow> ptr \<Rightarrow> bool" where
  "isParentOf s parent inode \<longleftrightarrow> parent \<in> set (ancestors s (i_Parent (heap s inode)))"

type_synonym dirMarks = "(ptr \<times> bool) list"

definition sealPastDirs :: "('t, 'd, 'c) Goofys \<Rightarrow> dirMarks \<Rightarrow> ptr \<Rightarrow> dirMarks" where
  "sealPastDirs s dirs d =
     AList.update d False (map (\<lambda>(p, sealed). (p, if p \<noteq> d \<and> \<not> sealed \<and> \<not> isParentOf s p d then True else sealed)) dirs)"

definition findOrNewDir :: "('t, 'd, 'c) gEnv \<Rightarrow> gotime \<Rightarrow> ('t, 'd, 'c) Goofys \<Rightarrow> ptr \<Rightarrow> string \<Rightarrow> (('t, 'd, 'c) Goofys \<times> ptr option) option" where
  "findOrNewDir E now s parent dir =
     (let newDir = (\<lambda>s. do {
            let (p, s) = NewInode E now s (Some parent) dir;
            let s = ToDir E s p;
            s \<leftarrow> insertInode s parent p;
            Some (s, Some p)
          })
      in case findChildUnlocked s parent dir of
           None \<Rightarrow> if d_DeletedChildren (dirOf s parent) dir = None then newDir s else Some (s, None)
         | Some inode \<Rightarrow>
             if \<not> isDir s inode then
               (if i_CacheState (heap s inode) \<le> ST_DEAD then
                  do {
                    s \<leftarrow> resetCache E s inode;
                    let s = SetCacheState E s inode ST_DEAD;
                    s \<leftarrow> removeChildUnlocked E s parent inode;
                    newDir s
                  }
                else Some (s, None))
             else Some (s, Some inode))"

function insertSubTree :: "('t, 'd, 'c) gEnv \<Rightarrow> gotime \<Rightarrow> ('t, 'd, 'c) Goofys \<Rightarrow> ptr \<Rightarrow> string \<Rightarrow> BlobItemOutput \<Rightarrow> dirMarks \<Rightarrow>
    (('t, 'd, 'c) Goofys \<times> dirMarks) option" where
  "insertSubTree E now s parent path obj dirs =
     (case go_index ''/'' path of
        None \<Rightarrow>
          do {
            s \<leftarrow> (case findChildUnlocked s parent path of
                   None \<Rightarrow>
                     if d_DeletedChildren (dirOf s parent) path = None then
                       do {
                         let (p, s) = NewInode E now s (Some parent) path;
                         s \<leftarrow> insertInode s parent p;
                         SetFromBlobItem E now s p obj
                       }
                     else Some s
                 | Some inode \<Rightarrow> SetFromBlobItem E now s inode obj);
            Some (s, sealPastDirs s dirs parent)
          }
      | Some slash \<Rightarrow>
          do {
            let rest = drop (slash + 1) path;
            (s, io) \<leftarrow> findOrNewDir E now s parent (take slash path);
            case io of
              None \<Rightarrow> Some (s, dirs)
            | Some inode \<Rightarrow>
                if rest = [] then
                  do {
                    s \<leftarrow> SetFromBlobItem E now s inode obj;
                    Some (s, AList.update inode False (sealPastDirs s dirs inode))
                  }
                else
                  (let s = (if i_AttrTime (heap s inode) < now then SetAttrTime E s inode now else s)
                   in insertSubTree E now s inode rest obj (AList.update inode False dirs))
          })"
  by pat_completeness auto
termination
proof (relation "measure (\<lambda>(E, now, s, parent, path, obj, dirs). length path)")
  fix path :: string and slash rest
  assume "go_index ''/'' path = Some slash" "rest = drop (slash + 1) path"
  then have "length rest < length path" using go_index_slash [of "CHR ''/''" path slash] by auto
  then show "((E, now, s', inode, rest, obj, AList.update inode False dirs), E', now', s, parent, path, obj', dirs')
      \<in> measure (\<lambda>(E, now, s, parent, path, obj, dirs). length path)"
    for E :: "('t, 'd, 'c) gEnv" and E' :: "('t, 'd, 'c) gEnv" and now now' s s' inode parent obj obj' dirs dirs'
    by simp
qed simp

declare insertSubTree.simps [simp del]

section \<open>Sealing and expiring\<close>

definition findChildMaxTime :: "('t, 'd, 'c) Goofys \<Rightarrow> ptr \<Rightarrow> gotime \<times> gotime" where
  "findChildMaxTime s parent =
     (let a = i_Attributes (heap s parent) in
      fold (\<lambda>c (maxMtime, maxCtime).
          (if a_Mtime (i_Attributes (heap s c)) > maxMtime then a_Mtime (i_Attributes (heap s c)) else maxMtime,
           if a_Ctime (i_Attributes (heap s c)) > maxCtime then a_Ctime (i_Attributes (heap s c)) else maxCtime))
        (d_Children (dirOf s parent)) (a_Mtime a, a_Ctime a))"

definition expirable :: "('t, 'd, 'c) Goofys \<Rightarrow> ptr \<Rightarrow> ptr \<Rightarrow> bool" where
  "expirable s parent c \<longleftrightarrow>
     i_AttrTime (heap s c) < d_refreshStartTime (dirOf s parent) \<and> i_fileHandles (heap s c) = 0 \<and>
     i_CacheState (heap s c) \<le> ST_DEAD \<and> (\<not> isDir s c \<or> d_ModifiedChildren (dirOf s c) = 0)"

definition expireChild :: "('t, 'd, 'c) gEnv \<Rightarrow> ('t, 'd, 'c) Goofys \<Rightarrow> ptr \<Rightarrow> ptr \<Rightarrow> ('t, 'd, 'c) Goofys option" where
  "expireChild E s parent c =
     do {
       s \<leftarrow> resetCache E s c;
       let s = SetCacheState E s c ST_DEAD;
       s \<leftarrow> (if isDir s c then removeAllChildrenUnlocked (nextPtr s) E s c else Some s);
       removeChildUnlocked E s parent c
     }"

text \<open>Every iteration either passes a child or removes it, so the number of children left bounds
  the loop; \<open>ns\<close> collects the notifications.\<close>

fun removeExpired_loop :: "nat \<Rightarrow> ('t, 'd, 'c) gEnv \<Rightarrow> ('t, 'd, 'c) Goofys \<Rightarrow> ptr \<Rightarrow> nat \<Rightarrow> notification list \<Rightarrow>
    (('t, 'd, 'c) Goofys \<times> notification list) option" where
  "removeExpired_loop 0 E s parent i ns = Some (s, ns)"
| "removeExpired_loop (Suc n) E s parent i ns =
     (if i < length (d_Children (dirOf s parent)) then
        (let c = d_Children (dirOf s parent) ! i in
         if (case d_lastFromCloud (dirOf s parent) of None \<Rightarrow> False | Some l \<Rightarrow> i_Name (heap s c) \<ge> l) then Some (s, ns)
         else if expirable s parent c then
           do {
             let ns = ns @ [NotifyDelete (i_Id (heap s parent)) (i_Id (heap s c)) (i_Name (heap s c))];
             s \<leftarrow> expireChild E s parent c;
             removeExpired_loop n E s parent i ns
           }
         else removeExpired_loop n E s parent (Suc i) ns)
      else Some (s, ns))"

definition removeExpired :: "('t, 'd, 'c) gEnv \<Rightarrow> ('t, 'd, 'c) Goofys \<Rightarrow> ptr \<Rightarrow> string \<Rightarrow> ('t, 'd, 'c) Goofys option" where
  "removeExpired E s parent from =
     do {
       let pos = (if from \<noteq> [] \<and> from \<noteq> ''.'' \<and> from \<noteq> ''..''
                  then sort_search (length (d_Children (dirOf s parent))) (findInodeFunc s parent from) else 0);
       (s, ns) \<leftarrow> removeExpired_loop (length (d_Children (dirOf s parent)) - pos) E s parent pos [];
       Some (s\<lparr>notified := notified s @ ns\<rparr>)
     }"

definition sealDir :: "('t, 'd, 'c) gEnv \<Rightarrow> gotime \<Rightarrow> ('t, 'd, 'c) Goofys \<Rightarrow> ptr \<Rightarrow> ('t, 'd, 'c) Goofys option" where
  "sealDir E now s p =
     (let s = updDir p (\<lambda>d. d\<lparr>d_listMarker := [], d_listDone := True, d_lastFromCloud := None, d_DirTime := now\<rparr>) s;
          (mt, ct) = findChildMaxTime s p;
          keepMtime = (f_EnableMtime (g_flags E) \<and>
            (case i_userMetadata (heap s p) of None \<Rightarrow> False | Some m \<Rightarrow> map_of m (f_MtimeAttr (g_flags E)) \<noteq> None));
          s = upd p (\<lambda>i. i\<lparr>i_Attributes := (i_Attributes i)\<lparr>a_Mtime := (if keepMtime then a_Mtime (i_Attributes i) else mt), a_Ctime := ct\<rparr>\<rparr>) s
      in removeExpired E s p [])"

section \<open>A page of a flat listing\<close>

definition noteFromCloud :: "('t, 'd, 'c) Goofys \<Rightarrow> ptr \<Rightarrow> string \<Rightarrow> ('t, 'd, 'c) Goofys" where
  "noteFromCloud s p name =
     updDir p (\<lambda>d. if (case d_lastFromCloud d of None \<Rightarrow> True | Some l \<Rightarrow> l < name) then d\<lparr>d_lastFromCloud := Some name\<rparr> else d) s"

fun handlePrefixes :: "('t, 'd, 'c) gEnv \<Rightarrow> gotime \<Rightarrow> ('t, 'd, 'c) Goofys \<Rightarrow> ptr \<Rightarrow> string \<Rightarrow> string set option \<Rightarrow> string list \<Rightarrow>
    ('t, 'd, 'c) Goofys option" where
  "handlePrefixes E now s parent pfx skip [] = Some s"
| "handlePrefixes E now s parent pfx skip (dir # ds) =
     (if (case skip of None \<Rightarrow> False | Some k \<Rightarrow> dir \<in> k) then handlePrefixes E now s parent pfx skip ds
      else if length dir < length pfx + 1 then None
      else
        let dirName = drop (length pfx) (butlast dir) in
        if isInvalidName dirName then handlePrefixes E now s parent pfx skip ds
        else do {
          s \<leftarrow> (case findChildUnlocked s parent dirName of
                 Some inode \<Rightarrow> Some (if i_AttrTime (heap s inode) < now then SetAttrTime E s inode now else s)
               | None \<Rightarrow>
                   if d_DeletedChildren (dirOf s parent) dirName = None then
                     (let (p, s) = NewInode E now s (Some parent) dirName in insertInode (ToDir E s p) parent p)
                   else Some s);
          handlePrefixes E now (noteFromCloud s parent dirName) parent pfx skip ds
        })"

fun handleItems :: "('t, 'd, 'c) gEnv \<Rightarrow> gotime \<Rightarrow> ('t, 'd, 'c) Goofys \<Rightarrow> ptr \<Rightarrow> string \<Rightarrow> string set option \<Rightarrow> BlobItemOutput list \<Rightarrow>
    ('t, 'd, 'c) Goofys option" where
  "handleItems E now s parent pfx skip [] = Some s"
| "handleItems E now s parent pfx skip (obj # os) =
     (if (case skip of None \<Rightarrow> False | Some k \<Rightarrow> Key obj \<in> k) then handleItems E now s parent pfx skip os
      else if length (Key obj) < length pfx then None
      else
        let baseName = drop (length pfx) (Key obj) in
        if isInvalidName baseName then handleItems E now s parent pfx skip os
        else
          (case go_index ''/'' baseName of
             Some slash \<Rightarrow> handleItems E now (noteFromCloud s parent (take slash baseName)) parent pfx skip os
           | None \<Rightarrow>
               do {
                 s \<leftarrow> (case findChildUnlocked s parent baseName of
                        Some inode \<Rightarrow> SetFromBlobItem E now s inode obj
                      | None \<Rightarrow>
                          if d_DeletedChildren (dirOf s parent) baseName = None then
                            do {
                              let (p, s) = NewInode E now s (Some parent) baseName;
                              s \<leftarrow> insertInode s parent p;
                              SetFromBlobItem E now s p obj
                            }
                          else Some s);
                 handleItems E now (noteFromCloud s parent baseName) parent pfx skip os
               }))"

definition handleListResult :: "('t, 'd, 'c) gEnv \<Rightarrow> gotime \<Rightarrow> ('t, 'd, 'c) Goofys \<Rightarrow> ptr \<Rightarrow> ListBlobsOutput \<Rightarrow> string \<Rightarrow> string set option \<Rightarrow>
    ('t, 'd, 'c) Goofys option" where
  "handleListResult E now s parent resp pfx skip =
     do {
       s \<leftarrow> handlePrefixes E now s parent pfx skip (Prefixes resp);
       handleItems E now s parent pfx skip (Items resp)
     }"

section \<open>Requests\<close>

definition startListing :: "('t, 'd, 'c) Goofys \<Rightarrow> nat \<times> ('t, 'd, 'c) Goofys" where
  "startListing s = (let (i, f) = addInflightListing (inflightState s) in (i, s\<lparr>inflightState := f\<rparr>))"

definition endListing :: "('t, 'd, 'c) Goofys \<Rightarrow> nat \<Rightarrow> string set option \<times> ('t, 'd, 'c) Goofys" where
  "endListing s i = (let (skip, f) = completeInflightListing (inflightState s) i in (skip, s\<lparr>inflightState := f\<rparr>))"

fun slurpItems :: "('t, 'd, 'c) gEnv \<Rightarrow> gotime \<Rightarrow> ('t, 'd, 'c) Goofys \<Rightarrow> ptr \<Rightarrow> string \<Rightarrow> string set option \<Rightarrow> BlobItemOutput list \<Rightarrow> dirMarks \<Rightarrow>
    (('t, 'd, 'c) Goofys \<times> dirMarks) option" where
  "slurpItems E now s parent pfx skip [] dirs = Some (s, dirs)"
| "slurpItems E now s parent pfx skip (obj # os) dirs =
     (if (case skip of None \<Rightarrow> False | Some k \<Rightarrow> Key obj \<in> k) then slurpItems E now s parent pfx skip os dirs
      else if length (Key obj) < length pfx then None
      else
        let baseName = drop (length pfx) (Key obj) in
        if isInvalidName baseName then slurpItems E now s parent pfx skip os dirs
        else do {
          (s, dirs) \<leftarrow> insertSubTree E now s parent baseName obj dirs;
          slurpItems E now s parent pfx skip os dirs
        })"

fun sealDirs :: "('t, 'd, 'c) gEnv \<Rightarrow> gotime \<Rightarrow> ('t, 'd, 'c) Goofys \<Rightarrow> ptr \<Rightarrow> bool \<Rightarrow> dirMarks \<Rightarrow> ('t, 'd, 'c) Goofys option" where
  "sealDirs E now s inode truncated [] = Some s"
| "sealDirs E now s inode truncated ((d, sealed) # ds) =
     do {
       s \<leftarrow> (if (sealed \<or> \<not> truncated) \<and> \<not> isParentOf s d inode then sealDir E now s d else Some s);
       sealDirs E now s inode truncated ds
     }"

text \<open>\<open>other\<close> is what the rest of the program does while the request is under way.\<close>

definition listObjectsSlurp :: "store \<Rightarrow> ('t, 'd, 'c) gEnv \<Rightarrow> gotime \<Rightarrow> (('t, 'd, 'c) Goofys \<Rightarrow> ('t, 'd, 'c) Goofys) \<Rightarrow> ('t, 'd, 'c) Goofys \<Rightarrow> ptr \<Rightarrow> ptr \<Rightarrow> string \<Rightarrow> bool \<Rightarrow>
    (('t, 'd, 'c) Goofys \<times> (error + string)) option" where
  "listObjectsSlurp St E now other s parent inode startAfter sealEnd =
     (case cloud E s parent of
        (None, _) \<Rightarrow> None
      | (Some c, pfx0) \<Rightarrow>
          let pfx = (if pfx0 \<noteq> [] then pfx0 @ ''/'' else pfx0);
              key = snd (cloud E s inode);
              startWith = (if startAfter \<noteq> [] then Some startAfter else if key \<noteq> [] then Some (key @ ''/'') else None);
              (myList, s) = startListing s;
              s = other s
          in case s_list St c \<lparr>InPrefix = Some pfx, Delimiter = None, MaxKeys = None, StartAfter = startWith\<rparr> of
               Inl err \<Rightarrow> Some (snd (endListing s myList), Inl err)
             | Inr resp \<Rightarrow>
                 do {
                   let (skip, s) = endListing s myList;
                   (s, dirs) \<leftarrow> slurpItems E now s parent pfx skip (Items resp) [];
                   s \<leftarrow> sealDirs E now s inode (IsTruncated resp) dirs;
                   let lastKey = (if Items resp = [] then None else Some (Key (List.last (Items resp))));
                   let seal = (sealEnd \<and>
                     (if pfx \<noteq> [] \<and> (case lastKey of None \<Rightarrow> False | Some k \<Rightarrow> \<not> prefix pfx k)
                      then (case lastKey of None \<Rightarrow> False | Some k \<Rightarrow> k > pfx)
                      else \<not> IsTruncated resp));
                   s \<leftarrow> (if seal then sealDir E now s inode else Some s);
                   let next = (if seal then [] else case lastKey of None \<Rightarrow> [] | Some k \<Rightarrow> k);
                   gaps \<leftarrow> markGapLoaded now (d_Gaps (dirOf s parent)) (case startWith of None \<Rightarrow> [] | Some k \<Rightarrow> k) next;
                   Some (updDir parent (\<lambda>d. d\<lparr>d_Gaps := gaps\<rparr>) s, Inr next)
                 })"

text \<open>The nearest directory with a backend of its own; nil panics.\<close>

definition mountOf :: "('t, 'd, 'c) Goofys \<Rightarrow> ptr \<Rightarrow> ptr option" where
  "mountOf s p = List.find (\<lambda>q. d_cloud (dirOf s q) \<noteq> None) (ancestors s (Some p))"

definition slurpOnce :: "store \<Rightarrow> ('t, 'd, 'c) gEnv \<Rightarrow> gotime \<Rightarrow> (('t, 'd, 'c) Goofys \<Rightarrow> ('t, 'd, 'c) Goofys) \<Rightarrow> ('t, 'd, 'c) Goofys \<Rightarrow> ptr \<Rightarrow> (('t, 'd, 'c) Goofys \<times> (error + bool)) option" where
  "slurpOnce St E now other s inode =
     do {
       parent \<leftarrow> mountOf s inode;
       (s, r) \<leftarrow> listObjectsSlurp St E now other s parent inode [] True;
       Some (s, case r of Inl err \<Rightarrow> Inl err | Inr next \<Rightarrow> Inr (next = []))
     }"

end
