(* ===== verification/Dir_Handles.thy ===== *)
theory Dir_Handles
  imports Dir_Listing
begin

text \<open>
  Directory handles (\<open>core/dir.go\<close>): opening and closing, the position of a handle, and \<open>ReadDir\<close>
  with the listings it needs.  A handle is a pointer into \<open>dirHandleHeap\<close>.  While a request is under way the
  locks are free; \<open>other\<close> stands for what other goroutines do to the state meanwhile.
\<close>

section \<open>Opening and closing\<close>

definition updDh :: "nat \<Rightarrow> (DirHandle \<Rightarrow> DirHandle) \<Rightarrow> ('t, 'd, 'c) Goofys \<Rightarrow> ('t, 'd, 'c) Goofys" where
  "updDh h f s = s\<lparr>dirHandleHeap := (dirHandleHeap s)(h := f (dirHandleHeap s h))\<rparr>"

definition NewDirHandle :: "('t, 'd, 'c) Goofys \<Rightarrow> ptr \<Rightarrow> nat \<times> ('t, 'd, 'c) Goofys" where
  "NewDirHandle s inode =
     (nextDirHandle s,
      s\<lparr>dirHandleHeap := (dirHandleHeap s)(nextDirHandle s := \<lparr>dh_inode = inode, dh_noSlurp = False, dh_lastExternalOffset = 0,
          dh_lastInternalOffset = 0, dh_generation = 0, dh_lastName = []\<rparr>),
        nextDirHandle := Suc (nextDirHandle s)\<rparr>)"

text \<open>The index of the first directory among the children from index \<open>i\<close> to before \<open>n\<close>, if it has
  the given name.\<close>

definition firstDirNamed :: "('t, 'd, 'c) Goofys \<Rightarrow> ptr \<Rightarrow> string \<Rightarrow> nat \<Rightarrow> nat \<Rightarrow> nat option" where
  "firstDirNamed s parent name i n =
     (case List.find (\<lambda>k. isDir s (d_Children (dirOf s parent) ! k)) [i..<n] of
        None \<Rightarrow> None
      | Some k \<Rightarrow> if i_Name (heap s (d_Children (dirOf s parent) ! k)) = name then Some k else None)"

definition bumpSeq :: "('t, 'd, 'c) Goofys \<Rightarrow> ptr \<Rightarrow> ptr \<Rightarrow> nat \<Rightarrow> bool \<Rightarrow> ('t, 'd, 'c) Goofys" where
  "bumpSeq s parent inode dirIdx firstDir =
     (let s = updDir parent (\<lambda>d. d\<lparr>d_seqOpenDirScore := (if d_seqOpenDirScore d < 255 then d_seqOpenDirScore d + 1 else d_seqOpenDirScore d),
                                d_lastOpenDirIdx := int dirIdx\<rparr>) s
      in if firstDir then updDir inode (\<lambda>d. d\<lparr>d_seqOpenDirScore := d_seqOpenDirScore (dirOf s parent)\<rparr>) s else s)"

definition noteOpenDir :: "('t, 'd, 'c) Goofys \<Rightarrow> ptr \<Rightarrow> ptr \<Rightarrow> ('t, 'd, 'c) Goofys" where
  "noteOpenDir s parent inode =
     (let d = dirOf s parent; n = length (d_Children d); name = i_Name (heap s inode); last = d_lastOpenDirIdx d in
      if last < 0 then
        (case firstDirNamed s parent name 0 (min n 1000) of
           Some i \<Rightarrow> bumpSeq s parent inode i True
         | None \<Rightarrow> updDir parent (\<lambda>d. d\<lparr>d_seqOpenDirScore := 0, d_lastOpenDirIdx := findChildIdxUnlocked s parent name\<rparr>) s)
      else if last < int n \<and> isDir s (d_Children d ! nat last) \<and> i_Name (heap s (d_Children d ! nat last)) = name then s
      else
        (case firstDirNamed s parent name (nat last + 1) (min n (nat last + 1000)) of
           Some i \<Rightarrow> bumpSeq s parent inode i False
         | None \<Rightarrow> updDir parent (\<lambda>d. d\<lparr>d_seqOpenDirScore := 0, d_lastOpenDirIdx := findChildIdxUnlocked s parent name\<rparr>) s))"

definition OpenDir :: "('t, 'd, 'c) gEnv \<Rightarrow> ('t, 'd, 'c) Goofys \<Rightarrow> ptr \<Rightarrow> (('t, 'd, 'c) Goofys \<times> nat) option" where
  "OpenDir E s inode =
     (if \<not> isDir s inode then None
      else
        let isS3 = (case fst (cloud E s inode) of None \<Rightarrow> False | Some c \<Rightarrow> g_isS3 E c);
            s = (case i_Parent (heap s inode) of
                   Some parent \<Rightarrow> if isS3 \<and> f_StatCacheTTL (g_flags E) \<noteq> 0 then noteOpenDir s parent inode else s
                 | None \<Rightarrow> s);
            (h, s) = NewDirHandle s inode;
            s = updDir inode (\<lambda>d. d\<lparr>d_handles := d_handles d @ [h]\<rparr>) s;
            s = upd inode (\<lambda>i. i\<lparr>i_fileHandles := i_fileHandles i + 1\<rparr>) s
        in Some (if i_fileHandles (heap s inode) = 1 then addModified s (i_Parent (heap s inode)) 1 else s, h))"

definition CloseDir :: "('t, 'd, 'c) Goofys \<Rightarrow> nat \<Rightarrow> ('t, 'd, 'c) Goofys" where
  "CloseDir s h =
     (let inode = dh_inode (dirHandleHeap s h) in
      if h \<in> set (d_handles (dirOf s inode)) then
        (let s = updDir inode (\<lambda>d. d\<lparr>d_handles := remove1 h (d_handles d)\<rparr>) s;
             s = upd inode (\<lambda>i. i\<lparr>i_fileHandles := i_fileHandles i - 1\<rparr>) s
         in if i_fileHandles (heap s inode) = 0 then addModified s (i_Parent (heap s inode)) (- 1) else s)
      else s)"

section \<open>The position\<close>

definition checkDirPosition :: "('t, 'd, 'c) Goofys \<Rightarrow> nat \<Rightarrow> ('t, 'd, 'c) Goofys" where
  "checkDirPosition s h =
     (let dh = dirHandleHeap s h; parent = dh_inode dh; d = dirOf s parent;
          dh = (if dh_generation dh \<noteq> d_generation d then dh\<lparr>dh_lastInternalOffset := - 1, dh_generation := d_generation d\<rparr> else dh);
          dh = (if dh_lastInternalOffset dh < 0 then
                  dh\<lparr>dh_lastInternalOffset :=
                    (if dh_lastExternalOffset dh = 0 then 0
                     else if dh_lastName dh = ''.'' then 1
                     else if dh_lastName dh = ''..'' then 2
                     else
                       let i = sort_search (length (d_Children d)) (findInodeFunc s parent (dh_lastName dh));
                           i = (if i < length (d_Children d) \<and> i_Name (heap s (d_Children d ! i)) = dh_lastName dh then Suc i else i)
                       in int i + 2)\<rparr>
                else dh)
      in updDh h (\<lambda>_. dh) s)"

text \<open>\<open>Seek\<close>: an offset that does not fit into an \<open>int\<close> indexes the children below zero.\<close>

definition Seek :: "('t, 'd, 'c) Goofys \<Rightarrow> nat \<Rightarrow> u64 \<Rightarrow> ('t, 'd, 'c) Goofys option" where
  "Seek s h newOffset =
     (let dh = dirHandleHeap s h; cs = d_Children (dirOf s (dh_inode dh)) in
      if newOffset \<noteq> 0 \<and> newOffset \<noteq> dh_lastExternalOffset dh then
        (let off = i64 (int newOffset); off = (if off > 2 + int (length cs) then 2 + int (length cs) else off) in
         if off = 1 then Some (updDh h (\<lambda>d. d\<lparr>dh_lastExternalOffset := newOffset, dh_lastInternalOffset := off, dh_lastName := ''.''\<rparr>) s)
         else if off = 2 then Some (updDh h (\<lambda>d. d\<lparr>dh_lastExternalOffset := newOffset, dh_lastInternalOffset := off, dh_lastName := ''..''\<rparr>) s)
         else if off < 3 then None
         else Some (updDh h (\<lambda>d. d\<lparr>dh_lastExternalOffset := newOffset, dh_lastInternalOffset := off,
                                  dh_lastName := i_Name (heap s (cs ! nat (off - 3)))\<rparr>) s))
      else if newOffset = 0 then Some (updDh h (\<lambda>d. d\<lparr>dh_lastExternalOffset := 0, dh_lastInternalOffset := 0, dh_lastName := []\<rparr>) s)
      else Some s)"

definition Next :: "('t, 'd, 'c) Goofys \<Rightarrow> nat \<Rightarrow> string \<Rightarrow> ('t, 'd, 'c) Goofys" where
  "Next s h name =
     updDh h (\<lambda>d. d\<lparr>dh_lastInternalOffset := (if dh_lastInternalOffset d \<ge> 0 then dh_lastInternalOffset d + 1 else dh_lastInternalOffset d),
                   dh_lastExternalOffset := add64 (dh_lastExternalOffset d) 1, dh_lastName := name\<rparr>) s"

section \<open>Listing\<close>

definition listObjectsFlat :: "store \<Rightarrow> ('t, 'd, 'c) gEnv \<Rightarrow> gotime \<Rightarrow> (('t, 'd, 'c) Goofys \<Rightarrow> ('t, 'd, 'c) Goofys) \<Rightarrow> ('t, 'd, 'c) Goofys \<Rightarrow> ptr \<Rightarrow>
    (('t, 'd, 'c) Goofys \<times> (error + string)) option" where
  "listObjectsFlat St E now other s inode =
     (case cloud E s inode of
        (None, _) \<Rightarrow> Some (s, Inl (Errno ESTALE))
      | (Some c, pfx0) \<Rightarrow>
          let pfx1 = (case i_oldParent (heap s inode) of
                        None \<Rightarrow> pfx0 | Some op \<Rightarrow> appendChildName (snd (cloud E s op)) (i_oldName (heap s inode)));
              pfx = (if length pfx1 \<noteq> 0 then pfx1 @ ''/'' else pfx1);
              marker = d_listMarker (dirOf s inode);
              start = (if length marker \<ge> length pfx \<and> take (length pfx) marker = pfx then drop (length pfx) marker else []);
              (myList, s) = startListing s;
              s = other s
          in case s_list St c \<lparr>InPrefix = Some pfx, Delimiter = Some ''/'', MaxKeys = None, StartAfter = Some marker\<rparr> of
               Inl err \<Rightarrow> Some (snd (endListing s myList), Inl err)
             | Inr resp0 \<Rightarrow>
                 (case intelligentListCut resp0 (s_list St c) pfx of
                    Inl err \<Rightarrow> Some (snd (endListing s myList), Inl err)
                  | Inr (resp, lastName) \<Rightarrow>
                      let (skip, s) = endListing s myList in
                      if d_listMarker (dirOf s inode) \<noteq> marker then Some (s, Inr start)
                      else do {
                        s \<leftarrow> handleListResult E now s inode resp pfx skip;
                        s \<leftarrow> (if IsTruncated resp then
                               Some (updDir inode (\<lambda>d. if d_listMarker d = [] \<or> d_listMarker d < lastName then d\<lparr>d_listMarker := lastName\<rparr> else d) s)
                             else sealDir E now s inode);
                        Some (s, Inr start)
                      }))"

text \<open>The loop of \<open>loadListing\<close>; \<open>start\<close> is the marker at the first page.  \<^const>\<open>None\<close> also stands
  for a loop that does not end.\<close>

partial_function (option) loadFlat :: "store \<Rightarrow> ('t, 'd, 'c) gEnv \<Rightarrow> gotime \<Rightarrow> (('t, 'd, 'c) Goofys \<Rightarrow> ('t, 'd, 'c) Goofys) \<Rightarrow>
    ptr \<Rightarrow> ('t, 'd, 'c) Goofys \<Rightarrow> string option \<Rightarrow> (('t, 'd, 'c) Goofys \<times> (error + string option)) option" where
  "loadFlat St E now other parent s start =
     (if d_lastFromCloud (dirOf s parent) = None \<and> \<not> d_listDone (dirOf s parent) then
        do {
          (s, r) \<leftarrow> listObjectsFlat St E now other s parent;
          (case r of
             Inl err \<Rightarrow> Some (s, Inl err)
           | Inr st \<Rightarrow> loadFlat St E now other parent s (case start of None \<Rightarrow> Some st | Some _ \<Rightarrow> start))
        }
      else Some (s, Inr start))"

definition loadListing :: "store \<Rightarrow> ('t, 'd, 'c) gEnv \<Rightarrow> gotime \<Rightarrow> (('t, 'd, 'c) Goofys \<Rightarrow> ('t, 'd, 'c) Goofys) \<Rightarrow> ('t, 'd, 'c) Goofys \<Rightarrow> nat \<Rightarrow>
    (('t, 'd, 'c) Goofys \<times> error option) option" where
  "loadListing St E now other s h =
     (let parent = dh_inode (dirHandleHeap s h);
          s = (if \<not> d_listDone (dirOf s parent) \<and> d_listMarker (dirOf s parent) = []
               then updDir parent (\<lambda>d. d\<lparr>d_listDone := False, d_lastFromCloud := None, d_refreshStartTime := now, d_Gaps := [],
                                        d_forgetDuringList := False\<rparr>) s
               else s);
          useSlurp = (\<not> dh_noSlurp (dirHandleHeap s h) \<and> d_listMarker (dirOf s parent) = [] \<and> f_StatCacheTTL (g_flags E) \<noteq> 0)
      in do {
        (s, err) \<leftarrow> (if useSlurp then
                      do {
                        (s, r) \<leftarrow> slurpOnce St E now other s parent;
                        (case r of
                           Inl err \<Rightarrow> Some (s, Some err)
                         | Inr fin \<Rightarrow>
                             if fin \<and> \<not> d_listDone (dirOf s parent)
                             then map_option (\<lambda>s. (s, None)) (sealDir E now s parent)
                             else Some (s, None))
                      }
                    else Some (s, None));
        if err \<noteq> None then Some (s, err)
        else do {
          (s, r) \<leftarrow> loadFlat St E now other parent s None;
          case r of
            Inl err \<Rightarrow> Some (s, Some err)
          | Inr start \<Rightarrow>
              if start \<noteq> None \<or> d_listDone (dirOf s parent)
              then map_option (\<lambda>s. (s, None)) (removeExpired E s parent (case start of None \<Rightarrow> [] | Some m \<Rightarrow> m))
              else Some (s, None)
        }
      })"

definition serveChild :: "('t, 'd, 'c) Goofys \<Rightarrow> nat \<Rightarrow> ('t, 'd, 'c) Goofys \<times> ptr option" where
  "serveChild s h =
     (let dh = dirHandleHeap s h; parent = dh_inode dh; d = dirOf s parent; i = dh_lastInternalOffset dh - 2 in
      if i \<ge> int (length (d_Children d)) then
        (updDir parent (\<lambda>d. let d = d\<lparr>d_listDone := False\<rparr> in
            if d_forgetDuringList d then d\<lparr>d_DirTime := time_zero, d_Gaps := []\<rparr> else d) s, None)
      else
        let child = d_Children d ! nat i in
        (if d_lastFromCloud d = Some (i_Name (heap s child))
         then updDir parent (\<lambda>d. d\<lparr>d_lastFromCloud := None\<rparr>) s else s, Some child))"

definition ReadDir :: "store \<Rightarrow> ('t, 'd, 'c) gEnv \<Rightarrow> gotime \<Rightarrow> (('t, 'd, 'c) Goofys \<Rightarrow> ('t, 'd, 'c) Goofys) \<Rightarrow> ('t, 'd, 'c) Goofys \<Rightarrow> nat \<Rightarrow>
    (('t, 'd, 'c) Goofys \<times> (error + ptr option)) option" where
  "ReadDir St E now other s h =
     (let parent = dh_inode (dirHandleHeap s h);
          dots = (\<lambda>s. if dh_lastInternalOffset (dirHandleHeap s h) = 1
                      then (case i_Parent (heap s parent) of Some p \<Rightarrow> p | None \<Rightarrow> parent) else parent)
      in
      if \<not> isDir s parent then None
      else
        let s = checkDirPosition s h in
        if dh_lastInternalOffset (dirHandleHeap s h) = 0 \<or> dh_lastInternalOffset (dirHandleHeap s h) = 1
        then Some (s, Inr (Some (dots s)))
        else if expired now (d_DirTime (dirOf s parent)) (f_StatCacheTTL (g_flags E)) then
          do {
            (s, err) \<leftarrow> loadListing St E now other s h;
            (case err of
               Some e \<Rightarrow> Some (s, Inl e)
             | None \<Rightarrow>
                 let s = checkDirPosition s h in
                 if dh_lastInternalOffset (dirHandleHeap s h) < 2 then Some (s, Inr (Some (dots s)))
                 else let (s, r) = serveChild s h in Some (s, Inr r))
          }
        else let (s, r) = serveChild s h in Some (s, Inr r))"

definition isEmptyDir :: "store \<Rightarrow> ('t, 'd, 'c) gEnv \<Rightarrow> gotime \<Rightarrow> (('t, 'd, 'c) Goofys \<Rightarrow> ('t, 'd, 'c) Goofys) \<Rightarrow> ('t, 'd, 'c) Goofys \<Rightarrow> ptr \<Rightarrow>
    (('t, 'd, 'c) Goofys \<times> (error + bool)) option" where
  "isEmptyDir St E now other s inode =
     do {
       let (h, s) = NewDirHandle s inode;
       let s = updDh h (\<lambda>d. d\<lparr>dh_noSlurp := True\<rparr>) s;
       s \<leftarrow> Seek s h 2;
       (s, r) \<leftarrow> ReadDir St E now other s h;
       Some (s, case r of Inl e \<Rightarrow> Inl e | Inr en \<Rightarrow> Inr (en = None))
     }"

end
