(* ===== verification/Dir_Ops.thy ===== *)
theory Dir_Ops
  imports Dir_Handles
begin

text \<open>
  The operations on a directory (\<open>core/dir.go\<close>): creating and removing files, directories and symbolic
  links, renaming, and the requests that carry the changes to the store.  A request runs in its own
  goroutine; it is modelled as a start, a record of what it sends, and a finish that takes the answer.
  The clock is read once per operation.
\<close>

section \<open>File handles\<close>

definition NewFileHandle :: "('t, 'd, 'c) gEnv \<Rightarrow> ptr \<Rightarrow> ptr \<times> readTrack" where
  "NewFileHandle E inode =
     (inode, \<lparr>lastReadEnd = 0, seqReadSize = 0, lastReadCount = 0, lastReadTotal = 0,
        lastReadSizes = (if f_SmallReadCount (g_flags E) > 1 then replicate (f_SmallReadCount (g_flags E) - 1) 0 else []), lastReadIdx = 0\<rparr>)"

definition OpenFile :: "('t, 'd, 'c) gEnv \<Rightarrow> ('t, 'd, 'c) Goofys \<Rightarrow> ptr \<Rightarrow> ('t, 'd, 'c) Goofys \<times> ptr \<times> readTrack" where
  "OpenFile E s inode =
     (let fh = NewFileHandle E inode;
          s = upd inode (\<lambda>i. i\<lparr>i_fileHandles := i_fileHandles i + 1\<rparr>) s;
          s = (if i_fileHandles (heap s inode) = 1 then addModified s (i_Parent (heap s inode)) 1 else s)
      in (s, fh))"

section \<open>Removing\<close>

definition addDeleted :: "ptr \<Rightarrow> string \<Rightarrow> ptr \<Rightarrow> ('t, 'd, 'c) Goofys \<Rightarrow> ('t, 'd, 'c) Goofys" where
  "addDeleted parent name inode = updDir parent (\<lambda>d. d\<lparr>d_DeletedChildren := (d_DeletedChildren d)(name \<mapsto> inode)\<rparr>)"

definition delDeleted :: "ptr \<Rightarrow> string \<Rightarrow> ('t, 'd, 'c) Goofys \<Rightarrow> ('t, 'd, 'c) Goofys" where
  "delDeleted parent name = updDir parent (\<lambda>d. d\<lparr>d_DeletedChildren := (d_DeletedChildren d)(name := None)\<rparr>)"

text \<open>Every branch of \<open>doUnlink\<close> starts with \<open>resetCache\<close>.\<close>

definition doUnlink :: "('t, 'd, 'c) gEnv \<Rightarrow> ('t, 'd, 'c) Goofys \<Rightarrow> ptr \<Rightarrow> ('t, 'd, 'c) Goofys option" where
  "doUnlink E s inode =
     (case i_Parent (heap s inode) of
        None \<Rightarrow> None
      | Some parent \<Rightarrow>
          let renamed = (i_oldParent (heap s inode) \<noteq> None \<and> \<not> i_renamingTo (heap s inode));
              sent = (i_CacheState (heap s inode) \<noteq> ST_CREATED \<or> i_IsFlushing (heap s inode) > 0)
          in do {
            s \<leftarrow> resetCache E s inode;
            let s = (if renamed then SetCacheState E s inode ST_DELETED
                     else if sent then
                       (if d_DeletedChildren (dirOf s parent) (i_Name (heap s inode)) = None
                        then addDeleted parent (i_Name (heap s inode)) inode (SetCacheState E s inode ST_DELETED)
                        else SetCacheState E s inode ST_DEAD)
                     else SetCacheState E s inode ST_DEAD);
            let s = upd inode (\<lambda>i. i\<lparr>i_Attributes := (i_Attributes i)\<lparr>a_Size := 0\<rparr>\<rparr>) s;
            removeChildUnlocked E s parent inode
          })"

definition Unlink :: "('t, 'd, 'c) gEnv \<Rightarrow> ('t, 'd, 'c) Goofys \<Rightarrow> ptr \<Rightarrow> string \<Rightarrow> ('t, 'd, 'c) Goofys option" where
  "Unlink E s parent name =
     (if \<not> isDir s parent then None
      else case findChildUnlocked s parent name of
             None \<Rightarrow> Some s
           | Some inode \<Rightarrow> map_option WakeupFlusher (doUnlink E s inode))"

text \<open>The second lookup of \<open>RmDir\<close> declares a new variable, and the call after it dereferences that one.\<close>

definition RmDir :: "store \<Rightarrow> ('t, 'd, 'c) gEnv \<Rightarrow> gotime \<Rightarrow> (('t, 'd, 'c) Goofys \<Rightarrow> ('t, 'd, 'c) Goofys) \<Rightarrow> ('t, 'd, 'c) Goofys \<Rightarrow> ptr \<Rightarrow> string \<Rightarrow>
    (('t, 'd, 'c) Goofys \<times> error option) option" where
  "RmDir St E now other s parent name =
     (if \<not> isDir s parent then None
      else case findChildUnlocked s parent name of
             None \<Rightarrow> Some (s, None)
           | Some inode \<Rightarrow>
               if \<not> isDir s inode then Some (s, Some (Errno ENOTDIR))
               else do {
                 let (h, s) = NewDirHandle s inode;
                 s \<leftarrow> Seek s h 2;
                 (s, r) \<leftarrow> ReadDir St E now other s h;
                 case r of
                   Inl e \<Rightarrow> Some (s, Some e)
                 | Inr (Some _) \<Rightarrow> Some (s, Some (Errno ENOTEMPTY))
                 | Inr None \<Rightarrow>
                     (case findChildUnlocked s parent name of
                        None \<Rightarrow> None
                      | Some inode \<Rightarrow> map_option (\<lambda>s. (WakeupFlusher s, None)) (doUnlink E s inode))
               })"

section \<open>Creating\<close>

definition newAttributes :: "('t, 'd, 'c) gEnv \<Rightarrow> gotime \<Rightarrow> InodeAttributes" where
  "newAttributes E now =
     zeroAttributes\<lparr>a_Size := 0, a_Ctime := now, a_Mtime := now, a_Uid := f_Uid (g_flags E), a_Gid := f_Gid (g_flags E),
       a_Mode := f_FileMode (g_flags E)\<rparr>"

definition CreateOrOpen :: "('t, 'd, 'c) gEnv \<Rightarrow> gotime \<Rightarrow> ('t, 'd, 'c) Goofys \<Rightarrow> ptr \<Rightarrow> string \<Rightarrow> bool \<Rightarrow>
    (('t, 'd, 'c) Goofys \<times> (error + ptr \<times> (ptr \<times> readTrack))) option" where
  "CreateOrOpen E now s parent name opn =
     (if \<not> isDir s parent then None
      else case findChildUnlocked s parent name of
             Some inode \<Rightarrow>
               (if opn then (let (s, fh) = OpenFile E s inode in Some (s, Inr (inode, fh)))
                else Some (s, Inl (Errno EEXIST)))
           | None \<Rightarrow>
               do {
                 let (inode, s) = NewInode E now s (Some parent) name;
                 let s = upd inode (\<lambda>i. i\<lparr>i_userMetadata := Some [], i_Attributes := newAttributes E now\<rparr>) s;
                 let s = Ref s inode;
                 s \<leftarrow> insertInode s parent inode;
                 let s = WakeupFlusher (SetCacheState E s inode ST_CREATED);
                 let fh = NewFileHandle E inode;
                 let s = upd inode (\<lambda>i. i\<lparr>i_fileHandles := 1\<rparr>) s;
                 let s = addModified s (Some parent) 1;
                 Some (touch now s parent, Inr (inode, fh))
               })"

definition Create :: "('t, 'd, 'c) gEnv \<Rightarrow> gotime \<Rightarrow> ('t, 'd, 'c) Goofys \<Rightarrow> ptr \<Rightarrow> string \<Rightarrow>
    (('t, 'd, 'c) Goofys \<times> (error + ptr \<times> (ptr \<times> readTrack))) option" where
  "Create E now s parent name = CreateOrOpen E now s parent name False"

definition raiseTimes :: "ptr \<Rightarrow> ptr \<Rightarrow> ('t, 'd, 'c) Goofys \<Rightarrow> ('t, 'd, 'c) Goofys" where
  "raiseTimes parent inode s =
     (let a = i_Attributes (heap s inode);
          s = upd parent (\<lambda>i. if a_Ctime (i_Attributes i) < a_Ctime a then i\<lparr>i_Attributes := (i_Attributes i)\<lparr>a_Ctime := a_Ctime a\<rparr>\<rparr> else i) s
      in upd parent (\<lambda>i. if a_Mtime (i_Attributes i) < a_Mtime a then i\<lparr>i_Attributes := (i_Attributes i)\<lparr>a_Mtime := a_Mtime a\<rparr>\<rparr> else i) s)"

text \<open>A new directory over a deleted one takes the deleted directory back under a new number; a new inode
  takes over the old number for the references that the kernel holds.\<close>

definition reviveDir :: "('t, 'd, 'c) gEnv \<Rightarrow> gotime \<Rightarrow> ('t, 'd, 'c) Goofys \<Rightarrow> ptr \<Rightarrow> string \<Rightarrow> ptr \<Rightarrow> ('t, 'd, 'c) Goofys" where
  "reviveDir E now s parent name oldInode =
     (let s = delDeleted parent name s;
          (inode, s) = NewInode E now s (Some parent) name;
          s = ToDir E s inode;
          oldId = i_Id (heap s oldInode); oldRef = i_refcnt (heap s oldInode);
          s = upd inode (\<lambda>i. i\<lparr>i_Id := oldId, i_refcnt := oldRef\<rparr>) s;
          s = s\<lparr>inodes := (inodes s)(oldId \<mapsto> inode)\<rparr>;
          (newId, s) = allocateInodeId s;
          s = upd oldInode (\<lambda>i. i\<lparr>i_Id := newId\<rparr>) s;
          s = s\<lparr>inodes := (inodes s)(newId \<mapsto> oldInode)\<rparr>;
          s = upd oldInode (\<lambda>i. i\<lparr>i_userMetadataDirty := 0, i_userMetadata := Some []\<rparr>) s;
          s = touch now s oldInode;
          s = upd oldInode (\<lambda>i. i\<lparr>i_refcnt := 0\<rparr>) s;
          s = Ref s oldInode;
          s = SetCacheState E s oldInode ST_MODIFIED;
          s = touch now s oldInode
      in raiseTimes parent oldInode s)"

definition resurrectDir :: "('t, 'd, 'c) gEnv \<Rightarrow> gotime \<Rightarrow> ('t, 'd, 'c) Goofys \<Rightarrow> ptr \<Rightarrow> string \<Rightarrow> ptr \<Rightarrow> (('t, 'd, 'c) Goofys \<times> ptr) option" where
  "resurrectDir E now s parent name oldInode =
     do {
       s \<leftarrow> insertChildUnlocked (reviveDir E now s parent name oldInode) parent oldInode;
       Some (s, oldInode)
     }"

definition newDir :: "('t, 'd, 'c) gEnv \<Rightarrow> gotime \<Rightarrow> ('t, 'd, 'c) Goofys \<Rightarrow> ptr \<Rightarrow> string \<Rightarrow> (('t, 'd, 'c) Goofys \<times> ptr) option" where
  "newDir E now s parent name =
     do {
       let (inode, s) = NewInode E now s (Some parent) name;
       let s = upd inode (\<lambda>i. i\<lparr>i_userMetadata := Some []\<rparr>) s;
       let s = ToDir E s inode;
       let s = touch now s inode;
       let s = updDir inode (\<lambda>d. d\<lparr>d_DirTime := a_Ctime (i_Attributes (heap s inode))\<rparr>) s;
       let s = raiseTimes parent inode s;
       let s = Ref s inode;
       s \<leftarrow> insertInode s parent inode;
       let s = (if \<not> f_NoDirObject (g_flags E) then SetCacheState E s inode ST_CREATED
                else updDir inode (\<lambda>d. d\<lparr>d_ImplicitDir := True\<rparr>) s);
       Some (SetAttrTime E s inode now, inode)
     }"

definition doMkDir :: "('t, 'd, 'c) gEnv \<Rightarrow> gotime \<Rightarrow> ('t, 'd, 'c) Goofys \<Rightarrow> ptr \<Rightarrow> string \<Rightarrow> (('t, 'd, 'c) Goofys \<times> ptr) option" where
  "doMkDir E now s parent name =
     (case d_DeletedChildren (dirOf s parent) name of
        Some oldInode \<Rightarrow> if isDir s oldInode then resurrectDir E now s parent name oldInode else newDir E now s parent name
      | None \<Rightarrow> newDir E now s parent name)"

definition MkDir :: "('t, 'd, 'c) gEnv \<Rightarrow> gotime \<Rightarrow> ('t, 'd, 'c) Goofys \<Rightarrow> ptr \<Rightarrow> string \<Rightarrow> (('t, 'd, 'c) Goofys \<times> (error + ptr)) option" where
  "MkDir E now s parent name =
     (if \<not> isDir s parent then None
      else case findChildUnlocked s parent name of
             Some _ \<Rightarrow> Some (s, Inl (Errno EEXIST))
           | None \<Rightarrow> map_option (\<lambda>(s, inode). (WakeupFlusher s, Inr inode)) (doMkDir E now s parent name))"

definition CreateSymlink :: "('t, 'd, 'c) gEnv \<Rightarrow> gotime \<Rightarrow> ('t, 'd, 'c) Goofys \<Rightarrow> ptr \<Rightarrow> string \<Rightarrow> string \<Rightarrow>
    (('t, 'd, 'c) Goofys \<times> (error + ptr)) option" where
  "CreateSymlink E now s parent name target =
     (if \<not> isDir s parent then None
      else case findChildUnlocked s parent name of
             Some _ \<Rightarrow> Some (s, Inl (Errno EEXIST))
           | None \<Rightarrow>
               do {
                 let (inode, s) = NewInode E now s (Some parent) name;
                 let s = upd inode (\<lambda>i. i\<lparr>i_userMetadata := Some [(f_SymlinkAttr (g_flags E), target)], i_userMetadataDirty := 2,
                                         i_Attributes := newAttributes E now\<rparr>) s;
                 let s = Ref s inode;
                 s \<leftarrow> insertInode s parent inode;
                 let s = WakeupFlusher (SetCacheState E s inode ST_CREATED);
                 Some (touch now s parent, Inr inode)
               })"

definition ReadSymlink :: "('t, 'd, 'c) gEnv \<Rightarrow> ('t, 'd, 'c) Goofys \<Rightarrow> ptr \<Rightarrow> error + string" where
  "ReadSymlink E s inode =
     (case i_userMetadata (heap s inode) of
        None \<Rightarrow> Inl (Errno EIO)
      | Some m \<Rightarrow> (case map_of m (f_SymlinkAttr (g_flags E)) of None \<Rightarrow> Inl (Errno EIO) | Some t \<Rightarrow> Inr t))"

section \<open>Requests\<close>

text \<open>A deletion under way: what the goroutine holds.\<close>

record deleteJob =
  sd_inode :: ptr
  sd_cloud :: "nat option"
  sd_key :: string
  sd_implicit :: bool
  sd_oldParent :: "ptr option"
  sd_oldName :: string

definition SendDelete :: "('t, 'd, 'c) gEnv \<Rightarrow> ('t, 'd, 'c) Goofys \<Rightarrow> ptr \<Rightarrow> (('t, 'd, 'c) Goofys \<times> deleteJob) option" where
  "SendDelete E s inode =
     (case i_Parent (heap s inode) of
        None \<Rightarrow> None
      | Some parent \<Rightarrow>
          let c = fst (cloud E s parent);
              oldParent = i_oldParent (heap s inode); oldName = i_oldName (heap s inode);
              key = (case oldParent of
                       None \<Rightarrow> appendChildName (snd (cloud E s parent)) (i_Name (heap s inode))
                     | Some op \<Rightarrow> appendChildName (snd (cloud E s op)) oldName);
              s = (if oldParent \<noteq> None then upd inode (\<lambda>i. i\<lparr>i_oldParent := None, i_oldName := []\<rparr>) s else s);
              implicit = (isDir s inode \<and> d_ImplicitDir (dirOf s inode))
          in if isDir s inode \<and> c = None then None
             else
               let key = (if isDir s inode \<and> \<not> (case c of None \<Rightarrow> False | Some c \<Rightarrow> DirBlob (g_caps E c)) then key @ ''/'' else key);
                   s = s\<lparr>activeFlushers := activeFlushers s + 1\<rparr>;
                   s = upd inode (\<lambda>i. i\<lparr>i_IsFlushing := i_IsFlushing i + f_MaxParallelParts (g_flags E)\<rparr>) s
               in Some (s, \<lparr>sd_inode = inode, sd_cloud = c, sd_key = key, sd_implicit = implicit, sd_oldParent = oldParent, sd_oldName = oldName\<rparr>))"

text \<open>The start of the goroutine; without a backend the request panics.\<close>

definition SendDelete_begin :: "('t, 'd, 'c) Goofys \<Rightarrow> deleteJob \<Rightarrow> ('t, 'd, 'c) Goofys option" where
  "SendDelete_begin s job =
     (if sd_implicit job then Some s
      else if sd_cloud job = None then None
      else Some (s\<lparr>inflightState := addInflightChange (inflightState s) (sd_key job)\<rparr>))"

text \<open>The end of a successful deletion.\<close>

definition forgetDeleted :: "('t, 'd, 'c) gEnv \<Rightarrow> ('t, 'd, 'c) Goofys \<Rightarrow> deleteJob \<Rightarrow> ('t, 'd, 'c) Goofys option" where
  "forgetDeleted E s job =
     (let inode = sd_inode job; deleted = (i_CacheState (heap s inode) = ST_DELETED) in
      do {
        s \<leftarrow> (if deleted then map_option (\<lambda>s. SetCacheState E s inode ST_DEAD) (resetCache E s inode) else Some s);
        let forget = (deleted \<and> i_refcnt (heap s inode) = 0);
        let s = (case sd_oldParent job of
                   None \<Rightarrow> s
                 | Some op \<Rightarrow> addModified (delDeleted op (sd_oldName job) s) (Some op) (- 1));
        parent \<leftarrow> i_Parent (heap s inode);
        let s = delDeleted parent (i_Name (heap s inode)) s;
        if forget then map_option fst (DeRef E s inode 0) else Some s
      })"

definition SendDelete_finish :: "('t, 'd, 'c) gEnv \<Rightarrow> gotime \<Rightarrow> ('t, 'd, 'c) Goofys \<Rightarrow> deleteJob \<Rightarrow> error option \<Rightarrow> ('t, 'd, 'c) Goofys option" where
  "SendDelete_finish E now s job answer =
     (let inode = sd_inode job;
          err = (if sd_implicit job then None else answer);
          s = (if sd_implicit job then s else s\<lparr>inflightState := completeInflightChange (inflightState s) (sd_key job)\<rparr>);
          s = s\<lparr>activeFlushers := activeFlushers s - 1\<rparr>;
          s = upd inode (\<lambda>i. i\<lparr>i_IsFlushing := i_IsFlushing i - f_MaxParallelParts (g_flags E)\<rparr>) s;
          err = (if mapAwsError err = Some (Errno ENOENT) then None else err);
          s = recordFlushError now s inode err
      in if err \<noteq> None then Some (WakeupFlusher s) else map_option WakeupFlusher (forgetDeleted E s job))"

record putDirJob =
  sm_dir :: ptr
  sm_cloud :: nat
  sm_key :: string
  sm_metadata :: "metadata option"

definition SendMkDir :: "('t, 'd, 'c) gEnv \<Rightarrow> ('t, 'd, 'c) Goofys \<Rightarrow> ptr \<Rightarrow> (('t, 'd, 'c) Goofys \<times> putDirJob) option" where
  "SendMkDir E s dir =
     (case i_Parent (heap s dir) of
        None \<Rightarrow> None
      | Some parent \<Rightarrow>
          (case cloud E s parent of
             (None, _) \<Rightarrow> None
           | (Some c, path) \<Rightarrow>
               let key = appendChildName path (i_Name (heap s dir));
                   key = (if \<not> DirBlob (g_caps E c) then key @ ''/'' else key);
                   md = escapeMetadata E (i_userMetadata (heap s dir));
                   s = updDir dir (\<lambda>d. d\<lparr>d_ImplicitDir := False\<rparr>) s;
                   s = upd dir (\<lambda>i. i\<lparr>i_IsFlushing := i_IsFlushing i + f_MaxParallelParts (g_flags E)\<rparr>) s;
                   s = s\<lparr>activeFlushers := activeFlushers s + 1\<rparr>
               in Some (s, \<lparr>sm_dir = dir, sm_cloud = c, sm_key = key, sm_metadata = md\<rparr>)))"

definition SendMkDir_finish :: "('t, 'd, 'c) gEnv \<Rightarrow> gotime \<Rightarrow> ('t, 'd, 'c) Goofys \<Rightarrow> putDirJob \<Rightarrow> error option \<Rightarrow> ('t, 'd, 'c) Goofys" where
  "SendMkDir_finish E now s job err =
     (let dir = sm_dir job;
          s = s\<lparr>activeFlushers := activeFlushers s - 1\<rparr>;
          s = upd dir (\<lambda>i. i\<lparr>i_IsFlushing := i_IsFlushing i - f_MaxParallelParts (g_flags E)\<rparr>) s;
          s = recordFlushError now s dir err
      in if err \<noteq> None then WakeupFlusher s
         else
           let s = (if i_CacheState (heap s dir) = ST_CREATED \<or> i_CacheState (heap s dir) = ST_MODIFIED
                    then SetAttrTime E (SetCacheState E s dir ST_CACHED) dir now else s)
           in WakeupFlusher s)"

section \<open>Renaming\<close>

definition renameCacheFile :: "('t, 'd, 'c) gEnv \<Rightarrow> ('t, 'd, 'c) Goofys \<Rightarrow> ptr \<Rightarrow> ptr \<Rightarrow> string \<Rightarrow> ('t, 'd, 'c) Goofys" where
  "renameCacheFile E s fromInode newParent to =
     (if i_OnDisk (heap s fromInode) then
        let oldFileName = f_CachePath (g_flags E) @ ''/'' @ FullName s fromInode;
            newDirName = f_CachePath (g_flags E) @ ''/'' @ FullName s newParent;
            newFileName = appendChildName newDirName to
        in if g_osRename E oldFileName newFileName then s
           else if DiskCacheFD (diskFds s fromInode) then
             (let (q, I) = FDQueue_DeleteFD (g_D E) fromInode (diskFdQueue s, (diskFds s)(fromInode := (diskFds s fromInode)\<lparr>DiskCacheFD := False\<rparr>))
              in s\<lparr>diskFdQueue := q, diskFds := I\<rparr>)
           else s
      else s)"

text \<open>What \<open>renameInCache\<close> remembers of the object under the old name.\<close>

definition noteOldName :: "('t, 'd, 'c) Goofys \<Rightarrow> ptr \<Rightarrow> ptr \<Rightarrow> ptr \<Rightarrow> ('t, 'd, 'c) Goofys" where
  "noteOldName s fromInode parent newParent =
     (let i = heap s fromInode;
          keepDeleted = (\<lambda>s. if d_DeletedChildren (dirOf s parent) (i_Name i) = None then addDeleted parent (i_Name i) fromInode s else s)
      in if i_CacheState i = ST_CREATED \<and> i_IsFlushing i = 0 \<and> i_mpu i = None \<or> i_oldParent i \<noteq> None then
           (if i_renamingTo i then upd fromInode (\<lambda>i. i\<lparr>i_renamingTo := False\<rparr>) (keepDeleted s)
            else
              let s = addModified s (Some parent) (- 1) in
              if i_oldParent i = Some newParent \<and> i_oldName i = i_Name i
              then upd fromInode (\<lambda>i. i\<lparr>i_oldParent := None, i_oldName := []\<rparr>) s else s)
         else
           let s = keepDeleted s;
               s = (if i_CacheState i = ST_CACHED then addModified s (Some parent) 1 else s)
           in upd fromInode (\<lambda>j. j\<lparr>i_oldParent := Some parent, i_oldName := i_Name i\<rparr>) s)"

definition renameInCache :: "('t, 'd, 'c) gEnv \<Rightarrow> ('t, 'd, 'c) Goofys \<Rightarrow> ptr \<Rightarrow> ptr \<Rightarrow> string \<Rightarrow> ('t, 'd, 'c) Goofys option" where
  "renameInCache E s fromInode newParent to =
     (case i_Parent (heap s fromInode) of
        None \<Rightarrow> None
      | Some parent \<Rightarrow>
          do {
            let s = noteOldName s fromInode parent newParent;
            let s = (if d_DeletedChildren (dirOf s newParent) to = Some fromInode then delDeleted newParent to s else s);
            let s = renameCacheFile E s fromInode newParent to;
            let s = Ref s fromInode;
            s \<leftarrow> removeChildUnlocked E s parent fromInode;
            let s = (if i_fileHandles (heap s fromInode) > 0 then addModified (addModified s (Some parent) (- 1)) (Some newParent) 1 else s);
            let s = upd fromInode (\<lambda>i. i\<lparr>i_Name := to, i_Parent := Some newParent\<rparr>) s;
            let s = (if i_CacheState (heap s fromInode) = ST_CACHED then SetCacheState E s fromInode ST_MODIFIED
                     else addModified s (Some newParent) 1);
            s \<leftarrow> insertChildUnlocked s newParent fromInode;
            map_option fst (DeRef E s fromInode 1)
          })"

definition swapDirs :: "('t, 'd, 'c) Goofys \<Rightarrow> ptr \<Rightarrow> ptr \<Rightarrow> ('t, 'd, 'c) Goofys" where
  "swapDirs s fromInode toDir =
     (let oldId = i_Id (heap s fromInode); newId = i_Id (heap s toDir);
          oldQ = i_dirtyQueueId (heap s fromInode); newQ = i_dirtyQueueId (heap s toDir);
          oldRef = i_refcnt (heap s fromInode); newRef = i_refcnt (heap s toDir);
          s = upd fromInode (\<lambda>i. i\<lparr>i_Id := newId, i_dirtyQueueId := newQ, i_refcnt := newRef\<rparr>) s;
          s = upd toDir (\<lambda>i. i\<lparr>i_Id := oldId, i_dirtyQueueId := oldQ, i_refcnt := oldRef\<rparr>) s
      in s\<lparr>inodes := (inodes s)(newId \<mapsto> fromInode, oldId \<mapsto> toDir)\<rparr>)"

text \<open>The recursion of \<open>renameRecursive\<close> and its loop over the children, with a bound on the depth of the
  calls; every step removes a child, so the number of inodes bounds it.\<close>

fun renameRecursive :: "nat \<Rightarrow> ('t, 'd, 'c) gEnv \<Rightarrow> gotime \<Rightarrow> ('t, 'd, 'c) Goofys \<Rightarrow> ptr \<Rightarrow> ptr \<Rightarrow> string \<Rightarrow> ('t, 'd, 'c) Goofys option"
and renameChildren :: "nat \<Rightarrow> ('t, 'd, 'c) gEnv \<Rightarrow> gotime \<Rightarrow> ('t, 'd, 'c) Goofys \<Rightarrow> ptr \<Rightarrow> ptr \<Rightarrow> ('t, 'd, 'c) Goofys option" where
  "renameRecursive 0 E now s fromInode newParent to = None"
| "renameRecursive (Suc n) E now s fromInode newParent to =
     do {
       (s, toDir) \<leftarrow> doMkDir E now s newParent to;
       let s = upd toDir (\<lambda>i. i\<lparr>i_userMetadata := i_userMetadata (heap s fromInode)\<rparr>) s;
       let s = updDir toDir (\<lambda>d. d\<lparr>d_ImplicitDir := d_ImplicitDir (dirOf s fromInode)\<rparr>) s;
       s \<leftarrow> doUnlink E s fromInode;
       let s = swapDirs s fromInode toDir;
       renameChildren n E now s fromInode toDir
     }"
| "renameChildren 0 E now s fromInode toDir = (if d_Children (dirOf s fromInode) = [] then Some s else None)"
| "renameChildren (Suc n) E now s fromInode toDir =
     (case d_Children (dirOf s fromInode) of
        [] \<Rightarrow> Some s
      | child # _ \<Rightarrow>
          do {
            s \<leftarrow> (if isDir s child then renameRecursive n E now s child toDir (i_Name (heap s child))
                 else renameInCache E s child toDir (i_Name (heap s child)));
            renameChildren n E now s fromInode toDir
          })"

text \<open>\<^const>\<open>None\<close> also stands for a listing that does not end.\<close>

partial_function (option) slurpAll :: "store \<Rightarrow> ('t, 'd, 'c) gEnv \<Rightarrow> gotime \<Rightarrow> (('t, 'd, 'c) Goofys \<Rightarrow> ('t, 'd, 'c) Goofys) \<Rightarrow>
    ptr \<Rightarrow> ('t, 'd, 'c) Goofys \<Rightarrow> string \<Rightarrow> (('t, 'd, 'c) Goofys \<times> error option) option" where
  "slurpAll St E now other inode s next =
     (if d_listDone (dirOf s inode) then Some (s, None)
      else do {
        (s, r) \<leftarrow> listObjectsSlurp St E now other s inode inode next True;
        (case r of
           Inl err \<Rightarrow> Some (s, Some (mapAwsError1 err))
         | Inr next \<Rightarrow> slurpAll St E now other inode s next)
      })"

text \<open>The checks of \<open>Rename\<close> on an existing target: an error, or the target may be replaced.\<close>

definition renameCheck :: "store \<Rightarrow> ('t, 'd, 'c) gEnv \<Rightarrow> gotime \<Rightarrow> (('t, 'd, 'c) Goofys \<Rightarrow> ('t, 'd, 'c) Goofys) \<Rightarrow>
    ('t, 'd, 'c) Goofys \<Rightarrow> ptr \<Rightarrow> ptr \<Rightarrow> (('t, 'd, 'c) Goofys \<times> error option) option" where
  "renameCheck St E now other s fromInode toInode =
     (if isDir s fromInode then
        (if \<not> isDir s toInode then Some (s, Some (Errno ENOTDIR))
         else do {
           (s, r) \<leftarrow> isEmptyDir St E now other s toInode;
           Some (s, case r of Inl e \<Rightarrow> Some e | Inr toEmpty \<Rightarrow> if toEmpty then None else Some (Errno ENOTEMPTY))
         })
      else Some (s, if isDir s toInode then Some (Errno EISDIR) else None))"

definition dropTarget :: "('t, 'd, 'c) gEnv \<Rightarrow> ('t, 'd, 'c) Goofys \<Rightarrow> ptr \<Rightarrow> ptr \<Rightarrow> ('t, 'd, 'c) Goofys option" where
  "dropTarget E s newParent toInode =
     (if isDir s toInode then doUnlink E s toInode
      else do {
        s \<leftarrow> removeChildUnlocked E s newParent toInode;
        s \<leftarrow> resetCache E s toInode;
        Some (SetCacheState E s toInode ST_DEAD)
      })"

text \<open>A target that is the source itself would be locked twice: the call never returns.\<close>

definition Rename :: "store \<Rightarrow> ('t, 'd, 'c) gEnv \<Rightarrow> gotime \<Rightarrow> (('t, 'd, 'c) Goofys \<Rightarrow> ('t, 'd, 'c) Goofys) \<Rightarrow>
    ('t, 'd, 'c) Goofys \<Rightarrow> ptr \<Rightarrow> string \<Rightarrow> ptr \<Rightarrow> string \<Rightarrow> (('t, 'd, 'c) Goofys \<times> error option) option" where
  "Rename St E now other s parent frm newParent to =
     (if \<not> isDir s parent \<or> \<not> isDir s newParent then None
      else if fst (cloud E s parent) \<noteq> fst (cloud E s newParent) then Some (s, Some (Errno EINVAL))
      else
        case findChildUnlocked s parent frm of
          None \<Rightarrow> Some (s, Some (Errno ENOENT))
        | Some fromInode \<Rightarrow>
            do {
              let toInode = findChildUnlocked s newParent to;
              (s, err) \<leftarrow> (case toInode of
                              None \<Rightarrow> Some (s, None)
                            | Some t \<Rightarrow> if t = fromInode then None else renameCheck St E now other s fromInode t);
              if err \<noteq> None then Some (s, err)
              else do {
                s \<leftarrow> (case toInode of None \<Rightarrow> Some s | Some t \<Rightarrow> dropTarget E s newParent t);
                if isDir s fromInode then
                  do {
                    let s = updDir fromInode (\<lambda>d. d\<lparr>d_listDone := False\<rparr>) s;
                    (s, err) \<leftarrow> slurpAll St E now other fromInode s [];
                    if err \<noteq> None then Some (s, err)
                    else map_option (\<lambda>s. (WakeupFlusher s, None)) (renameRecursive (2 * nextPtr s + 1) E now s fromInode newParent to)
                  }
                else map_option (\<lambda>s. (WakeupFlusher s, None)) (renameInCache E s fromInode newParent to)
              }
            })"

end
