(* ===== verification/File_Ops.thy ===== *)
theory File_Ops
  imports Dir_Ops Multi_Reader
begin

text \<open>
  Reading and writing files (\<open>core/file.go\<close>, \<open>core/buffer_pool.go\<close> and the eviction of \<open>core/goofys.go\<close>).
  An operation is written as its critical sections, the code between taking and releasing the lock
  of the inode, and a composition of them in the order of the code.  A function argument \<open>other\<close> (or
  \<open>wait\<close>) is what the rest of the program does while the lock is released.  The answers of the
  store and of the operating system are arguments.  The counters of \<open>stats\<close> are only printed and are
  left out; the clock is read once per section.
\<close>

type_synonym ('t, 'd, 'c) act = "('t, 'd, 'c) Goofys \<Rightarrow> ('t, 'd, 'c) Goofys"

definition bufsOf :: "('t, 'd, 'c) Goofys \<Rightarrow> ptr \<Rightarrow> ('t, 'd, 'c BufferQueue) BufferList" where
  "bufsOf s p = (i_buffers (heap s p))\<lparr>bl_helpers := cleanQueue s\<rparr>"

text \<open>The operations that return nothing, as \<^const>\<open>withBuffers\<close> takes them.\<close>

definition buffersDo :: "ptr \<Rightarrow> (('t, 'd, 'c BufferQueue) BufferList \<Rightarrow> ('t, 'd, 'c BufferQueue) BufferList option) \<Rightarrow>
    ('t, 'd, 'c) Goofys \<Rightarrow> ('t, 'd, 'c) Goofys option" where
  "buffersDo p f s = map_option fst (withBuffers p (\<lambda>l. map_option (\<lambda>l. (l, ())) (f l)) s)"

definition rangesDo :: "ptr \<Rightarrow> (ReadRange list \<Rightarrow> ReadRange list) \<Rightarrow> ('t, 'd, 'c) act" where
  "rangesDo p f = upd p (\<lambda>i. i\<lparr>i_readRanges := f (i_readRanges i)\<rparr>)"

definition sizeOf :: "('t, 'd, 'c) Goofys \<Rightarrow> ptr \<Rightarrow> u64" where
  "sizeOf s p = a_Size (i_Attributes (heap s p))"

text \<open>The object that holds the data of a file: a renamed file is still stored under its old name.\<close>

definition objectKey :: "('t, 'd, 'c) gEnv \<Rightarrow> ('t, 'd, 'c) Goofys \<Rightarrow> ptr \<Rightarrow> nat option \<times> string" where
  "objectKey E s p =
     (fst (cloud E s p),
      case i_oldParent (heap s p) of
        None \<Rightarrow> snd (cloud E s p)
      | Some op \<Rightarrow> appendChildName (snd (cloud E s op)) (i_oldName (heap s p)))"

section \<open>The disk cache\<close>

definition OpenCacheFD :: "('t, 'd, 'c) gEnv \<Rightarrow> (string \<Rightarrow> error option) \<Rightarrow> ('t, 'd, 'c) Goofys \<Rightarrow> ptr \<Rightarrow>
    ('t, 'd, 'c) Goofys \<times> error option" where
  "OpenCacheFD E openFile s p =
     (if \<not> DiskCacheFD (diskFds s p) then
        (case openFile (f_CachePath (g_flags E) @ ''/'' @ FullName s p) of
           Some err \<Rightarrow> (s, Some err)
         | None \<Rightarrow>
             let s = upd p (\<lambda>i. i\<lparr>i_OnDisk := True\<rparr>) (s\<lparr>diskFds := (diskFds s)(p := (diskFds s p)\<lparr>DiskCacheFD := True\<rparr>)\<rparr>);
                 ((q, I), _) = FDQueue_InsertFD (g_D E) p (diskFdQueue s, diskFds s)
             in (s\<lparr>diskFdQueue := q, diskFds := I\<rparr>, None))
      else
        let (q, I) = FDQueue_UseFD (g_D E) p (diskFdQueue s, diskFds s)
        in (s\<lparr>diskFdQueue := q, diskFds := I\<rparr>, None))"

record osFile =
  os_open :: "string \<Rightarrow> error option"
  os_readAt :: "u64 \<Rightarrow> nat \<Rightarrow> error + byte list"
  os_writeAt :: "u64 \<Rightarrow> byte list \<Rightarrow> error option"

definition tryEvictToDisk :: "('t, 'd, 'c) gEnv \<Rightarrow> osFile \<Rightarrow> ('t, 'd, 'c) Goofys \<Rightarrow> ptr \<Rightarrow> FileBuffer \<Rightarrow>
    ('t, 'd, 'c) Goofys \<times> FileBuffer" where
  "tryEvictToDisk E os s p buf =
     (if f_CachePath (g_flags E) \<noteq> [] \<and> \<not> fb_onDisk buf then
        (let (s, err) = OpenCacheFD E (os_open os) s p in
         if err \<noteq> None \<or> os_writeAt os (fb_offset buf) (slice_bytes (i_buffers (heap s p)) buf) \<noteq> None then (s, buf)
         else (let buf = buf\<lparr>fb_onDisk := True\<rparr>
               in (upd p (\<lambda>i. i\<lparr>i_buffers := store (bufEnvOf E p) (i_buffers i) buf\<rparr>) s, buf)))
      else (s, buf))"

text \<open>The error of an earlier range is overwritten by the result of the next one, and nothing is added to \<open>allocated\<close>.\<close>

fun loadFromDisk_loop :: "('t, 'd, 'c) gEnv \<Rightarrow> osFile \<Rightarrow> ptr \<Rightarrow> Range list \<Rightarrow> ('t, 'd, 'c) Goofys \<Rightarrow> error option \<Rightarrow>
    (('t, 'd, 'c) Goofys \<times> error option) option" where
  "loadFromDisk_loop E os p [] s err = Some (s, err)"
| "loadFromDisk_loop E os p ((a, b) # rs) s err =
     (case os_readAt os a (sub64 b a) of
        Inl e \<Rightarrow> loadFromDisk_loop E os p rs s (Some e)
      | Inr data \<Rightarrow> do {
          s \<leftarrow> buffersDo p (\<lambda>l. ReviveFromDisk (bufEnvOf E p) l a data) s;
          loadFromDisk_loop E os p rs s None
        })"

definition loadFromDisk :: "('t, 'd, 'c) gEnv \<Rightarrow> osFile \<Rightarrow> ('t, 'd, 'c) Goofys \<Rightarrow> ptr \<Rightarrow> Range list \<Rightarrow>
    (('t, 'd, 'c) Goofys \<times> int \<times> error option) option" where
  "loadFromDisk E os s p diskRanges =
     (case OpenCacheFD E (os_open os) s p of
        (s, Some err) \<Rightarrow> Some (s, 0, Some err)
      | (s, None) \<Rightarrow> map_option (\<lambda>(s, err). (s, 0, err)) (loadFromDisk_loop E os p diskRanges s None))"

section \<open>The buffer pool\<close>

text \<open>One round of the loop of \<open>FreeSomeCleanBuffers\<close>: the freed memory is the negated change of the pool.\<close>

definition evictBuffer :: "('t, 'd, 'c) gEnv \<Rightarrow> osFile \<Rightarrow> ('t, 'd, 'c) Goofys \<Rightarrow> ptr \<Rightarrow> u64 \<Rightarrow> (('t, 'd, 'c) Goofys \<times> int) option" where
  "evictBuffer E os s inode cleanEnd =
     (case BL_Get (bufEnvOf E inode) (bufsOf s inode) cleanEnd of
        None \<Rightarrow> Some (s, 0)
      | Some buf \<Rightarrow>
          if (fb_state buf = BUF_CLEAN \<or> fb_state buf = BUF_FLUSHED_FULL) \<and> fb_ptr buf \<noteq> None \<and>
             \<not> IsRangeLocked (fb_offset buf) (fb_length buf) False (i_readRanges (heap s inode))
          then do {
            let (s, buf) = tryEvictToDisk E os s inode buf;
            (s, allocated) \<leftarrow> withBuffers inode (\<lambda>l. map_option (\<lambda>(l, allocated, _). (l, allocated)) (EvictFromMemory (bufEnvOf E inode) l buf)) s;
            Some (s\<lparr>bufferPool_cur := bufferPool_cur s + allocated\<rparr>, allocated)
          }
          else Some (s, 0))"

partial_function (option) freeClean :: "('t, 'd, 'c) gEnv \<Rightarrow> osFile \<Rightarrow> int \<Rightarrow> ('t, 'd, 'c) Goofys \<Rightarrow> int \<Rightarrow> nat \<Rightarrow>
    (('t, 'd, 'c) Goofys \<times> int) option" where
  "freeClean E os sz s freed queueID =
     (if freed < sz then
        (case BufferQueue_NextClean (g_C E) (cleanQueue s) queueID of
           (Some inode, cleanEnd, queueID) \<Rightarrow> do {
             (s, allocated) \<leftarrow> evictBuffer E os s inode cleanEnd;
             freeClean E os sz s (freed - allocated) queueID
           }
         | (None, _, _) \<Rightarrow> Some (s, freed))
      else Some (s, freed))"

definition FreeSomeCleanBuffers :: "('t, 'd, 'c) gEnv \<Rightarrow> osFile \<Rightarrow> ('t, 'd, 'c) act \<Rightarrow> ('t, 'd, 'c) Goofys \<Rightarrow> int \<Rightarrow>
    (('t, 'd, 'c) Goofys \<times> int \<times> bool) option" where
  "FreeSomeCleanBuffers E os wait s origSize =
     do {
       (s, freed) \<leftarrow> freeClean E os (if origSize < 5 * 1024 * 1024 then 5 * 1024 * 1024 else origSize) s 0 0;
       let haveDirty = (InodeQueue_Size (g_D E) (inodeQueue s) > 0);
       let s = (if freed < origSize \<and> haveDirty then
                  (let s = WakeupFlusher (s\<lparr>wantFree := wantFree s + 1\<rparr>); s = wait s
                   in s\<lparr>wantFree := wantFree s - 1\<rparr>)
                else s);
       Some (s, freed, haveDirty)
     }"

text \<open>\<^const>\<open>None\<close> also stands for a loop that waits for ever.\<close>

partial_function (option) poolLoop :: "('t, 'd, 'c) gEnv \<Rightarrow> osFile \<Rightarrow> ('t, 'd, 'c) act \<Rightarrow> ('t, 'd, 'c) Goofys \<Rightarrow> bool \<Rightarrow> ('t, 'd, 'c) Goofys option" where
  "poolLoop E os wait s canFreeMore =
     (if bufferPool_cur s > g_poolMax E \<and> canFreeMore then do {
        (s, _, canFreeMore) \<leftarrow> FreeSomeCleanBuffers E os wait s (bufferPool_cur s - g_poolMax E);
        poolLoop E os wait s canFreeMore
      }
      else Some s)"

definition Use :: "('t, 'd, 'c) gEnv \<Rightarrow> osFile \<Rightarrow> ('t, 'd, 'c) act \<Rightarrow> ('t, 'd, 'c) Goofys \<Rightarrow> int \<Rightarrow> bool \<Rightarrow>
    (('t, 'd, 'c) Goofys \<times> error option) option" where
  "Use E os wait s sz ignoreMemoryLimit =
     (let s = s\<lparr>bufferPool_cur := bufferPool_cur s + sz\<rparr> in
      if sz > 0 \<and> bufferPool_cur s > g_poolMax E then do {
        (s, _, more) \<leftarrow> FreeSomeCleanBuffers E os wait s (bufferPool_cur s - g_poolMax E);
        s \<leftarrow> (if ignoreMemoryLimit then Some s else poolLoop E os wait s more);
        Some (if bufferPool_cur s > g_poolMax E \<and> \<not> ignoreMemoryLimit
              then (s\<lparr>bufferPool_cur := bufferPool_cur s - sz\<rparr>, Some (Errno ENOMEM)) else (s, None))
      }
      else Some (s, None))"

section \<open>Loading\<close>

text \<open>
  A request for a range of an object, as \<open>retryRead\<close> sends it: the backend, the key, the offset and the size.
\<close>

record readJob =
  rj_cloud :: "nat option"
  rj_key :: string
  rj_offset :: u64
  rj_size :: u64

fun addLoadings :: "('t, 'd, 'c) gEnv \<Rightarrow> ptr \<Rightarrow> Range list \<Rightarrow> ('t, 'd, 'c) Goofys \<Rightarrow> ('t, 'd, 'c) Goofys option" where
  "addLoadings E p [] s = Some s"
| "addLoadings E p ((a, b) # rs) s = do {
     s \<leftarrow> buffersDo p (\<lambda>l. AddLoading (bufEnvOf E p) l a (sub64 b a)) s;
     addLoadings E p rs s
   }"

text \<open>The last range is cut at the known size of the object; without a range the code panics.\<close>

definition cutLast :: "u64 \<Rightarrow> Range list \<Rightarrow> (error + Range list) option" where
  "cutLast knownSize rs =
     (if rs = [] then None
      else let (a, b) = last rs in
        if b > knownSize then
          (if a > knownSize then Some (Inl (Errno ERANGE)) else Some (Inr (butlast rs @ [(a, knownSize)])))
        else Some (Inr rs))"

definition loadFromServer :: "('t, 'd, 'c) gEnv \<Rightarrow> ('t, 'd, 'c) Goofys \<Rightarrow> ptr \<Rightarrow> Range list \<Rightarrow> u64 \<Rightarrow>
    (('t, 'd, 'c) Goofys \<times> (error + readJob list)) option" where
  "loadFromServer E s p readRanges readAheadSize =
     do {
       r \<leftarrow> cutLast (i_knownSize (heap s p)) (mergeRA readRanges readAheadSize (mul64 (ReadMergeKB (f_read (g_flags E))) 1024));
       (case r of
          Inl err \<Rightarrow> Some (s, Inl err)
        | Inr rs \<Rightarrow> do {
            rs \<leftarrow> splitRA rs (mul64 (ReadAheadParallelKB (f_read (g_flags E))) 1024);
            s \<leftarrow> addLoadings E p rs s;
            let (c, key) = objectKey E s p;
            Some (s, Inr (map (\<lambda>(a, b). \<lparr>rj_cloud = c, rj_key = key, rj_offset = a, rj_size = sub64 b a\<rparr>) rs))
          })
     }"

text \<open>
  \<open>LoadRange\<close> up to the point where it waits.  It either returns a pair of \<open>miss\<close> and an error, or
  goes on to wait for the range of the returned size with the returned requests under way.
\<close>

datatype loadResult = LoadReturn bool "error option" | LoadWait u64 "readJob list"

definition diskPart :: "('t, 'd, 'c) gEnv \<Rightarrow> osFile \<Rightarrow> ('t, 'd, 'c) act \<Rightarrow> ('t, 'd, 'c) Goofys \<Rightarrow> ptr \<Rightarrow> u64 \<Rightarrow> u64 \<Rightarrow>
    (('t, 'd, 'c) Goofys \<times> error option) option" where
  "diskPart E os other s p offset sz =
     (if f_CachePath (g_flags E) = [] then Some (s, None)
      else do {
        (s, diskRanges) \<leftarrow> withBuffers p (\<lambda>l. AddLoadingFromDisk (bufEnvOf E p) l offset sz) s;
        if diskRanges = [] then Some (s, None)
        else do {
          (s, allocated, err) \<leftarrow> loadFromDisk E os s p diskRanges;
          (s, _) \<leftarrow> Use E os other s allocated True;
          Some (other s, err)
        }
      })"

definition LoadRange_begin :: "('t, 'd, 'c) gEnv \<Rightarrow> osFile \<Rightarrow> ('t, 'd, 'c) act \<Rightarrow> ('t, 'd, 'c) Goofys \<Rightarrow> ptr \<Rightarrow> u64 \<Rightarrow> u64 \<Rightarrow> u64 \<Rightarrow>
    (('t, 'd, 'c) Goofys \<times> loadResult) option" where
  "LoadRange_begin E os other s p offset sz readAheadSize =
     (if offset \<ge> sizeOf s p then Some (s, LoadReturn False None)
      else
        let sz = (if add64 offset sz \<ge> sizeOf s p then sub64 (sizeOf s p) offset else sz);
            raSize = (if sz < readAheadSize then readAheadSize else sz);
            raSize = (if add64 offset raSize > sizeOf s p then sub64 (sizeOf s p) offset else raSize);
            (readRanges, loading, flushCleared) = GetHoles (bufEnvOf E p) (bufsOf s p) offset raSize
        in if flushCleared then Some (s, LoadReturn True (Some (Errno ESPIPE)))
           else do {
             (s, r) \<leftarrow> (if readRanges \<noteq> [] then loadFromServer E s p readRanges readAheadSize else Some (s, Inr []));
             (case r of
                Inl err \<Rightarrow> Some (s, LoadReturn True (Some err))
              | Inr jobs \<Rightarrow> do {
                  (s, err) \<leftarrow> diskPart E os other s p offset sz;
                  Some (s, if err \<noteq> None then LoadReturn (readRanges \<noteq> []) err
                           else if readRanges \<noteq> [] \<or> loading then LoadWait sz jobs
                           else LoadReturn False None)
                })
           })"

text \<open>One round of the waiting loop: \<^const>\<open>None\<close> inside is a range that is still loading.\<close>

definition LoadRange_check :: "('t, 'd, 'c) gEnv \<Rightarrow> ('t, 'd, 'c) Goofys \<Rightarrow> ptr \<Rightarrow> u64 \<Rightarrow> u64 \<Rightarrow> error option option option" where
  "LoadRange_check E s p offset sz =
     (case GetData (bufEnvOf E p) (bufsOf s p) offset sz False of
        None \<Rightarrow> None
      | Some (_, _, Some ErrBufferIsLoading) \<Rightarrow> Some None
      | Some (_, _, Some ErrBufferIsMissing) \<Rightarrow>
          Some (Some (Some (case i_readError (heap s p) of None \<Rightarrow> Errno EIO | Some err \<Rightarrow> err)))
      | Some (_, _, None) \<Rightarrow> Some (Some None))"

partial_function (option) LoadRange_wait :: "('t, 'd, 'c) gEnv \<Rightarrow> ('t, 'd, 'c) act \<Rightarrow> ptr \<Rightarrow> u64 \<Rightarrow> u64 \<Rightarrow> ('t, 'd, 'c) Goofys \<Rightarrow>
    (('t, 'd, 'c) Goofys \<times> error option) option" where
  "LoadRange_wait E wait p offset sz s =
     do {
       r \<leftarrow> LoadRange_check E s p offset sz;
       (case r of
          None \<Rightarrow> LoadRange_wait E wait p offset sz (wait s)
        | Some err \<Rightarrow> Some (s, err))
     }"

text \<open>\<open>wait\<close> is told the requests that were started.\<close>

definition LoadRange :: "('t, 'd, 'c) gEnv \<Rightarrow> osFile \<Rightarrow> (readJob list \<Rightarrow> ('t, 'd, 'c) act) \<Rightarrow> ('t, 'd, 'c) Goofys \<Rightarrow> ptr \<Rightarrow> u64 \<Rightarrow> u64 \<Rightarrow> u64 \<Rightarrow>
    (('t, 'd, 'c) Goofys \<times> bool \<times> error option) option" where
  "LoadRange E os wait s p offset sz readAheadSize =
     do {
       (s, r) \<leftarrow> LoadRange_begin E os (wait []) s p offset sz readAheadSize;
       (case r of
          LoadReturn miss err \<Rightarrow> Some (s, miss, err)
        | LoadWait sz jobs \<Rightarrow> do {
            (s, err) \<leftarrow> LoadRange_wait E (wait jobs) p offset sz s;
            Some (s, True, err)
          })
     }"

section \<open>The reading goroutine\<close>

text \<open>
  The body of a response, as the results of the calls of \<open>Read\<close>: the bytes and the error of each.  A
  call whose buffer is smaller returns the first bytes only.  After the last result \<open>Read\<close> returns
  \<open>io.EOF\<close>.
\<close>

type_synonym body = "(byte list \<times> error option) list"

definition io_EOF :: error where
  "io_EOF = OtherError ''EOF''"

definition READ_BUF_SIZE :: u64 where
  "READ_BUF_SIZE = 128 * 1024"

definition bodyRead :: "nat \<Rightarrow> body \<Rightarrow> byte list \<times> error option \<times> body" where
  "bodyRead room b =
     (case b of
        [] \<Rightarrow> ([], Some io_EOF, [])
      | (bs, e) # rest \<Rightarrow>
          if length bs \<le> room then (bs, e, rest) else (take room bs, None, (drop room bs, e) # rest))"

text \<open>The inner loop of \<open>sendRead\<close>: fill one buffer of \<open>bs\<close> bytes, or fail.\<close>

function readBlock :: "nat \<Rightarrow> byte list \<Rightarrow> body \<Rightarrow> error + byte list \<times> body" where
  "readBlock bs buf b =
     (if length buf < bs then
        (case b of
           [] \<Rightarrow> Inl io_EOF
         | _ \<Rightarrow>
             let (chunk, err, rest) = bodyRead (bs - length buf) b; buf = buf @ chunk in
             (case err of
                Some e \<Rightarrow> if e \<noteq> io_EOF \<or> length buf < bs then Inl e else readBlock bs buf rest
              | None \<Rightarrow> readBlock bs buf rest))
      else Inr (buf, b))"
  by pat_completeness auto
termination
  by (relation "measures [\<lambda>(bs, buf, b). length b, \<lambda>(bs, buf, b). bs - length buf]")
    (auto simp: bodyRead_def split: list.splits if_splits)

declare readBlock.simps [simp del]

text \<open>The critical section of \<open>sendRead\<close>: a block enters the cache.\<close>

definition sendRead_block :: "('t, 'd, 'c) gEnv \<Rightarrow> ('t, 'd, 'c) Goofys \<Rightarrow> ptr \<Rightarrow> BlobItemOutput \<Rightarrow> u64 \<Rightarrow> byte list \<Rightarrow>
    (('t, 'd, 'c) Goofys \<times> int) option" where
  "sendRead_block E s p resp offset buf =
     do {
       s \<leftarrow> (if i_userMetadata (heap s p) = None then fillXattrFromHead E s p resp else Some s);
       withBuffers p (\<lambda>l. Add (bufEnvOf E p) l offset buf [] BUF_CLEAN False) s
     }"

function sendRead_loop :: "('t, 'd, 'c) gEnv \<Rightarrow> ('t, 'd, 'c) act \<Rightarrow> ptr \<Rightarrow> BlobItemOutput \<Rightarrow> body \<Rightarrow> ('t, 'd, 'c) Goofys \<Rightarrow> u64 \<Rightarrow> u64 \<Rightarrow> int \<Rightarrow> u64 \<Rightarrow>
    (('t, 'd, 'c) Goofys \<times> int \<times> u64 \<times> error option) option" where
  "sendRead_loop E other p resp b s offset sz allocated totalDone =
     (if sz > 0 then
        let bs = (if sz > READ_BUF_SIZE then READ_BUF_SIZE else sz) in
        (case readBlock bs [] b of
           Inl err \<Rightarrow> Some (s, allocated, totalDone, Some err)
         | Inr (buf, b) \<Rightarrow> do {
             (s, alloc) \<leftarrow> sendRead_block E (other s) p resp offset buf;
             sendRead_loop E other p resp b s (add64 offset bs) (sz - bs) (allocated + alloc) (add64 totalDone bs)
           })
      else Some (s, allocated, totalDone, None))"
  by pat_completeness auto
termination
  by (relation "measure (\<lambda>(E, other, p, resp, b, s, offset, sz, al, td). sz)") (auto simp: READ_BUF_SIZE_def)

declare sendRead_loop.simps [simp del]

text \<open>\<open>getBlob\<close> is the answer of the store to the request.\<close>

definition sendRead :: "('t, 'd, 'c) gEnv \<Rightarrow> ('t, 'd, 'c) act \<Rightarrow> (u64 \<Rightarrow> u64 \<Rightarrow> error + BlobItemOutput \<times> body) \<Rightarrow> ('t, 'd, 'c) Goofys \<Rightarrow> ptr \<Rightarrow> u64 \<Rightarrow> u64 \<Rightarrow>
    (('t, 'd, 'c) Goofys \<times> int \<times> u64 \<times> error option) option" where
  "sendRead E other getBlob s p offset sz =
     (case getBlob offset sz of
        Inl err \<Rightarrow> Some (s, 0, 0, Some err)
      | Inr (resp, b) \<Rightarrow> sendRead_loop E other p resp b s offset sz 0 0)"

text \<open>\<open>retryRead\<close>: its start, the attempts of \<open>ReadBackoff\<close>, and its end.  \<open>getBlob n\<close> answers the attempt \<open>n\<close>.\<close>

definition retryRead_start :: "('t, 'd, 'c) gEnv \<Rightarrow> osFile \<Rightarrow> ('t, 'd, 'c) act \<Rightarrow> ('t, 'd, 'c) Goofys \<Rightarrow> ptr \<Rightarrow> u64 \<Rightarrow> u64 \<Rightarrow> bool \<Rightarrow>
    (('t, 'd, 'c) Goofys \<times> error option) option" where
  "retryRead_start E os wait s p offset sz ignoreMemoryLimit =
     do {
       (s, err) \<leftarrow> (if f_UseEnomem (g_flags E) then Use E os wait s (i64 (int sz)) ignoreMemoryLimit else Some (s, None));
       if err \<noteq> None then do {
         s \<leftarrow> buffersDo p (\<lambda>l. RemoveLoading (bufEnvOf E p) l offset sz) (upd p (\<lambda>i. i\<lparr>i_readError := err\<rparr>) s);
         Some (s, err)
       }
       else Some (rangesDo p (LockRange offset sz False) s, None)
     }"

partial_function (option) retryRead_loop :: "('t, 'd, 'c) gEnv \<Rightarrow> ('t, 'd, 'c) act \<Rightarrow> (nat \<Rightarrow> u64 \<Rightarrow> u64 \<Rightarrow> error + BlobItemOutput \<times> body) \<Rightarrow>
    ptr \<Rightarrow> nat \<Rightarrow> ('t, 'd, 'c) Goofys \<Rightarrow> u64 \<Rightarrow> u64 \<Rightarrow> int \<Rightarrow> (('t, 'd, 'c) Goofys \<times> int \<times> error option) option" where
  "retryRead_loop E other getBlob p attempt s curOffset curSize allocated =
     do {
       (s, alloc, done, err) \<leftarrow> sendRead E other (getBlob attempt) s p curOffset curSize;
       let allocated = allocated + alloc;
       if err \<noteq> None \<and> shouldRetry err \<and>
          (ReadRetryAttempts (f_retry (g_flags E)) < 1 \<or> int attempt < ReadRetryAttempts (f_retry (g_flags E)))
       then retryRead_loop E other getBlob p (Suc attempt) (other s) (add64 curOffset done) (sub64 curSize done) allocated
       else Some (s, allocated, err)
     }"

text \<open>The last section of \<open>retryRead\<close>, after the memory was accounted for.\<close>

definition retryRead_end :: "('t, 'd, 'c) gEnv \<Rightarrow> ('t, 'd, 'c) Goofys \<Rightarrow> ptr \<Rightarrow> u64 \<Rightarrow> u64 \<Rightarrow> error option \<Rightarrow> ('t, 'd, 'c) Goofys option" where
  "retryRead_end E s p offset sz err =
     map_option (\<lambda>s. upd p (\<lambda>i. i\<lparr>i_readError := err\<rparr>) (rangesDo p (UnlockRange offset sz False) s))
       (buffersDo p (\<lambda>l. RemoveLoading (bufEnvOf E p) l offset sz) s)"

definition retryRead_finish :: "('t, 'd, 'c) gEnv \<Rightarrow> osFile \<Rightarrow> ('t, 'd, 'c) act \<Rightarrow> ('t, 'd, 'c) Goofys \<Rightarrow> ptr \<Rightarrow> u64 \<Rightarrow> u64 \<Rightarrow> int \<Rightarrow> error option \<Rightarrow>
    ('t, 'd, 'c) Goofys option" where
  "retryRead_finish E os wait s p offset sz allocated err =
     do {
       (s, _) \<leftarrow> (if \<not> f_UseEnomem (g_flags E) then Use E os wait s allocated True
                  else if allocated \<noteq> i64 (int sz) then Use E os wait s (allocated - i64 (int sz)) True
                  else Some (s, None));
       retryRead_end E s p offset sz err
     }"

definition retryRead :: "('t, 'd, 'c) gEnv \<Rightarrow> osFile \<Rightarrow> ('t, 'd, 'c) act \<Rightarrow> (nat \<Rightarrow> u64 \<Rightarrow> u64 \<Rightarrow> error + BlobItemOutput \<times> body) \<Rightarrow>
    ('t, 'd, 'c) Goofys \<Rightarrow> ptr \<Rightarrow> u64 \<Rightarrow> u64 \<Rightarrow> bool \<Rightarrow> ('t, 'd, 'c) Goofys option" where
  "retryRead E os other getBlob s p offset sz ignoreMemoryLimit =
     do {
       (s, err) \<leftarrow> retryRead_start E os other s p offset sz ignoreMemoryLimit;
       if err \<noteq> None then Some s
       else do {
         (s, allocated, err) \<leftarrow> retryRead_loop E other getBlob p 1 (other s) offset sz 0;
         retryRead_finish E os other (other s) p offset sz allocated err
       }
     }"

section \<open>Reading\<close>

text \<open>
  \<open>sync\<close> is a call of \<open>SyncFile\<close> with everything else that runs until the lock is taken again: the new
  state and the error \<open>SyncFile\<close> returns.
\<close>

partial_function (option) syncLoad :: "('t, 'd, 'c) gEnv \<Rightarrow> osFile \<Rightarrow> (readJob list \<Rightarrow> ('t, 'd, 'c) act) \<Rightarrow>
    (('t, 'd, 'c) Goofys \<Rightarrow> ('t, 'd, 'c) Goofys \<times> error option) \<Rightarrow> ptr \<Rightarrow> u64 \<Rightarrow> u64 \<Rightarrow> u64 \<Rightarrow> ('t, 'd, 'c) Goofys \<Rightarrow> error option \<Rightarrow>
    (('t, 'd, 'c) Goofys \<times> error option) option" where
  "syncLoad E os wait sync p offset sz readAheadSize s err =
     (if err = Some (Errno ESPIPE) then do {
        let (s, err) = sync s;
        (s, err) \<leftarrow> (if err = None then map_option (\<lambda>(s, _, err). (s, err)) (LoadRange E os wait s p offset sz readAheadSize)
                     else Some (s, err));
        syncLoad E os wait sync p offset sz readAheadSize s err
      }
      else Some (s, err))"

definition CheckLoadRange :: "('t, 'd, 'c) gEnv \<Rightarrow> osFile \<Rightarrow> (readJob list \<Rightarrow> ('t, 'd, 'c) act) \<Rightarrow>
    (('t, 'd, 'c) Goofys \<Rightarrow> ('t, 'd, 'c) Goofys \<times> error option) \<Rightarrow> ('t, 'd, 'c) Goofys \<Rightarrow> ptr \<Rightarrow> u64 \<Rightarrow> u64 \<Rightarrow> u64 \<Rightarrow>
    (('t, 'd, 'c) Goofys \<times> bool \<times> error option) option" where
  "CheckLoadRange E os wait sync s p offset sz readAheadSize =
     do {
       (s, miss, err) \<leftarrow> LoadRange E os wait s p offset sz readAheadSize;
       if err = Some (Errno ESPIPE) then do {
         let s = upd p (\<lambda>i. i\<lparr>i_pauseWriters := i_pauseWriters i + 1\<rparr>) s;
         (s, err) \<leftarrow> syncLoad E os wait sync p offset sz readAheadSize s err;
         Some (upd p (\<lambda>i. i\<lparr>i_pauseWriters := i_pauseWriters i - 1\<rparr>) s, miss, err)
       }
       else Some (s, miss, err)
     }"

definition IOV_MAX :: nat where
  "IOV_MAX = 1024"

definition u64_of :: "int \<Rightarrow> u64" where
  "u64_of i = nat (i mod int u64_max)"

definition joinTail :: "byte list list \<Rightarrow> byte list list" where
  "joinTail data =
     (if length data > IOV_MAX - 1 then take (IOV_MAX - 2) data @ [concat (drop (IOV_MAX - 2) data)] else data)"

text \<open>The end of \<open>ReadFile\<close>, after the range was loaded; the result is the data, its size and the error.\<close>

definition ReadFile_end :: "('t, 'd, 'c) gEnv \<Rightarrow> ('t, 'd, 'c) Goofys \<Rightarrow> ptr \<Rightarrow> u64 \<Rightarrow> u64 \<Rightarrow> error option \<Rightarrow>
    (('t, 'd, 'c) Goofys \<times> byte list list \<times> u64 \<times> error option) option" where
  "ReadFile_end E s p offset sz requestErr =
     (if requestErr \<noteq> None then do {
        s \<leftarrow> (if mapAwsError requestErr = Some (Errno ENOENT) \<or> mapAwsError requestErr = Some (Errno ERANGE)
             then resetCache E s p else Some s);
        Some (s, [], 0, requestErr)
      }
      else do {
        (data, _, err) \<leftarrow> GetData (bufEnvOf E p) (bufsOf s p) offset sz False;
        Some (if err \<noteq> None then (s, [], 0, Some (Errno EIO)) else (s, joinTail data, sz, None))
      })"

definition ReadFile :: "('t, 'd, 'c) gEnv \<Rightarrow> osFile \<Rightarrow> (readJob list \<Rightarrow> ('t, 'd, 'c) act) \<Rightarrow>
    (('t, 'd, 'c) Goofys \<Rightarrow> ('t, 'd, 'c) Goofys \<times> error option) \<Rightarrow> ('t, 'd, 'c) Goofys \<Rightarrow> ptr \<times> readTrack \<Rightarrow> int \<Rightarrow> int \<Rightarrow>
    (('t, 'd, 'c) Goofys \<times> (ptr \<times> readTrack) \<times> byte list list \<times> u64 \<times> error option) option" where
  "ReadFile E os wait sync s = (\<lambda>(p, track) sOffset sLen.
     (let offset = u64_of sOffset; sz = u64_of sLen in
      if offset \<ge> sizeOf s p then Some (s, (p, track), [], 0, None)
      else
        let sz = (if add64 offset sz > sizeOf s p then sub64 (sizeOf s p) offset else sz);
            s = rangesDo p (LockRange offset sz False) s
        in do {
          ra \<leftarrow> getReadAhead (f_read (g_flags E)) track;
          let track = trackRead track offset sz;
          (s, _, requestErr) \<leftarrow> CheckLoadRange E os wait sync s p offset sz ra;
          (s, data, n, err) \<leftarrow> ReadFile_end E s p offset sz requestErr;
          let s = rangesDo p (UnlockRange offset sz False) s;
          Some (s, (p, track), data, n, if err = Some io_EOF then None else err)
        }))"

definition getMultiReader :: "('t, 'd, 'c) gEnv \<Rightarrow> ('t, 'd, 'c) Goofys \<Rightarrow> ptr \<Rightarrow> u64 \<Rightarrow> u64 \<Rightarrow>
    (('t, 'd, 'c) Goofys \<times> (bufErr + MultiReader \<times> nat set)) option" where
  "getMultiReader E s p offset sz =
     do {
       s \<leftarrow> buffersDo p (\<lambda>l. SplitAt (bufEnvOf E p) l offset) s;
       s \<leftarrow> buffersDo p (\<lambda>l. SplitAt (bufEnvOf E p) l (add64 offset sz)) s;
       (data, ids, err) \<leftarrow> GetData (bufEnvOf E p) (bufsOf s p) offset sz True;
       Some (s, case err of Some e \<Rightarrow> Inl e | None \<Rightarrow> Inr (fold (\<lambda>buf r. AddBuffer r buf) data NewMultiReader, ids))
     }"

section \<open>Writing\<close>

text \<open>\<open>checkPauseWriters\<close> waits until no operation pauses the writers; \<open>wait\<close> is all of that time.\<close>

definition checkPauseWriters :: "('t, 'd, 'c) act \<Rightarrow> ('t, 'd, 'c) Goofys \<Rightarrow> ptr \<Rightarrow> ('t, 'd, 'c) Goofys" where
  "checkPauseWriters wait s p = (if i_pauseWriters (heap s p) > 0 then wait s else s)"

definition resizeBlocked :: "('t, 'd, 'c) gEnv \<Rightarrow> ('t, 'd, 'c) Goofys \<Rightarrow> ptr \<Rightarrow> u64 \<Rightarrow> bool" where
  "resizeBlocked E s p newSize \<longleftrightarrow>
     IsRangeLocked newSize (sub64 (sizeOf s p) newSize) True (i_readRanges (heap s p)) \<or>
     AnyFlushed (bufEnvOf E p) (bufsOf s p) newSize (sub64 (sizeOf s p) newSize)"

partial_function (option) resizeWait :: "('t, 'd, 'c) gEnv \<Rightarrow> (('t, 'd, 'c) Goofys \<Rightarrow> ('t, 'd, 'c) Goofys \<times> error option) \<Rightarrow> ptr \<Rightarrow> u64 \<Rightarrow>
    ('t, 'd, 'c) Goofys \<Rightarrow> ('t, 'd, 'c) Goofys option" where
  "resizeWait E sync p newSize s =
     (if resizeBlocked E s p newSize then
        resizeWait E sync p newSize
          (upd p (\<lambda>i. i\<lparr>i_pauseWriters := i_pauseWriters i - 1\<rparr>)
             (fst (sync (upd p (\<lambda>i. i\<lparr>i_pauseWriters := i_pauseWriters i + 1\<rparr>) s))))
      else Some s)"

text \<open>The part of \<open>ResizeUnlocked\<close> that changes the file, once nothing blocks it.\<close>

definition resizeNow :: "('t, 'd, 'c) gEnv \<Rightarrow> ('t, 'd, 'c) Goofys \<Rightarrow> ptr \<Rightarrow> u64 \<Rightarrow> ('t, 'd, 'c) Goofys option" where
  "resizeNow E s p newSize =
     do {
       (s, allocated) \<leftarrow>
         (if sizeOf s p > newSize then withBuffers p (\<lambda>l. RemoveRange (bufEnvOf E p) l newSize (sub64 (sizeOf s p) newSize) (\<lambda>_. True)) s
          else if sizeOf s p < newSize then
            withBuffers p (\<lambda>l. map_option (\<lambda>(l, _, allocated). (l, allocated)) (ZeroRange (bufEnvOf E p) l (sizeOf s p) (sub64 newSize (sizeOf s p)))) s
          else Some (s, 0));
       let s = s\<lparr>bufferPool_cur := bufferPool_cur s + allocated\<rparr>;
       Some (upd p (\<lambda>i. i\<lparr>i_Attributes := (i_Attributes i)\<lparr>a_Size := newSize\<rparr>\<rparr>) s)
     }"

definition ResizeUnlocked :: "('t, 'd, 'c) gEnv \<Rightarrow> ('t, 'd, 'c) act \<Rightarrow> (('t, 'd, 'c) Goofys \<Rightarrow> ('t, 'd, 'c) Goofys \<times> error option) \<Rightarrow>
    ('t, 'd, 'c) Goofys \<Rightarrow> ptr \<Rightarrow> u64 \<Rightarrow> ('t, 'd, 'c) Goofys option" where
  "ResizeUnlocked E wait sync s p newSize =
     do {
       let s = checkPauseWriters wait s p;
       s \<leftarrow> (if sizeOf s p > newSize then resizeWait E sync p newSize s else Some s);
       resizeNow E s p newSize
     }"

text \<open>\<open>WriteFile\<close> from the check of the pause to the release of the lock.  \<open>slack\<close> are the bytes behind
  the data that the slice could grow into; they matter when the data is not copied.\<close>

definition WriteFile_section :: "('t, 'd, 'c) gEnv \<Rightarrow> ('t, 'd, 'c) act \<Rightarrow> (('t, 'd, 'c) Goofys \<Rightarrow> ('t, 'd, 'c) Goofys \<times> error option) \<Rightarrow> gotime \<Rightarrow>
    ('t, 'd, 'c) Goofys \<Rightarrow> ptr \<Rightarrow> u64 \<Rightarrow> byte list \<Rightarrow> byte list \<Rightarrow> bool \<Rightarrow> (('t, 'd, 'c) Goofys \<times> int) option" where
  "WriteFile_section E wait sync now s p offset data slack copyData =
     do {
       let end = add64 offset (length data);
       let s = checkPauseWriters wait s p;
       s \<leftarrow> (if sizeOf s p < end then ResizeUnlocked E wait sync s p end else Some s);
       (s, allocated) \<leftarrow> withBuffers p (\<lambda>l. Add (bufEnvOf E p) l offset data slack BUF_DIRTY copyData) s;
       let s = upd p (\<lambda>i. i\<lparr>i_lastWriteEnd := end\<rparr>) (s\<lparr>hasNewWrites := True\<rparr>);
       let s = (if i_CacheState (heap s p) = ST_CACHED then SetCacheState E s p ST_MODIFIED else s);
       let s = touch now (WakeupFlusher s) p;
       let mt = f_MtimeAttr (g_flags E);
       Some (if f_EnableMtime (g_flags E) \<and> (case i_userMetadata (heap s p) of None \<Rightarrow> False | Some m \<Rightarrow> map_of m mt \<noteq> None)
             then upd p (\<lambda>i. i\<lparr>i_userMetadata := map_option (AList.delete mt) (i_userMetadata i), i_userMetadataDirty := 2\<rparr>) s
             else s, allocated)
     }"

definition WriteFile :: "('t, 'd, 'c) gEnv \<Rightarrow> osFile \<Rightarrow> ('t, 'd, 'c) act \<Rightarrow> (('t, 'd, 'c) Goofys \<Rightarrow> ('t, 'd, 'c) Goofys \<times> error option) \<Rightarrow> gotime \<Rightarrow>
    ('t, 'd, 'c) Goofys \<Rightarrow> ptr \<Rightarrow> int \<Rightarrow> byte list \<Rightarrow> byte list \<Rightarrow> bool \<Rightarrow> (('t, 'd, 'c) Goofys \<times> error option) option" where
  "WriteFile E os wait sync now s p offset data slack copyData =
     (let end = add64 (u64_of offset) (length data); n = int (length data) in
      if end > getMaxFileSize (g_parts E) then Some (s, Some (Errno EFBIG))
      else do {
        (s, err) \<leftarrow> (if f_UseEnomem (g_flags E) then Use E os wait s n False else Some (s, None));
        if err \<noteq> None then Some (s, err)
        else if i_CacheState (heap s p) = ST_DELETED \<or> i_CacheState (heap s p) = ST_DEAD then do {
          (s, _) \<leftarrow> (if f_UseEnomem (g_flags E) then Use E os wait s (- n) False else Some (s, None));
          Some (s, Some (Errno ENOENT))
        }
        else do {
          (s, allocated) \<leftarrow> WriteFile_section E wait sync now s p (u64_of offset) data slack copyData;
          if \<not> f_UseEnomem (g_flags E) then map_option (\<lambda>(s, _). (s, None)) (Use E os wait s allocated True)
          else if allocated \<noteq> n then Use E os wait s (allocated - n) True
          else Some (s, None)
        }
      })"

section \<open>Attributes and handles\<close>

definition format_di :: "int \<Rightarrow> string" where
  "format_di i = (if i < 0 then CHR ''-'' # format_d (nat (- i)) else format_d (nat i))"

text \<open>One attribute with an optional entry in the metadata: \<open>dflt\<close> is the value that is not recorded.\<close>

definition setOwner :: "store \<Rightarrow> ('t, 'd, 'c) gEnv \<Rightarrow> ptr \<Rightarrow> string \<Rightarrow> nat \<Rightarrow> (InodeAttributes \<Rightarrow> nat) \<Rightarrow>
    ((nat \<Rightarrow> nat) \<Rightarrow> InodeAttributes \<Rightarrow> InodeAttributes) \<Rightarrow> nat option \<Rightarrow> ('t, 'd, 'c) Goofys \<Rightarrow> (('t, 'd, 'c) Goofys \<times> bool \<times> error option) option" where
  "setOwner St E p key dflt get put v s =
     (case v of
        None \<Rightarrow> Some (s, False, None)
      | Some v \<Rightarrow>
          if f_EnablePerms (g_flags E) \<and> get (i_Attributes (heap s p)) \<noteq> v then do {
            let s = upd p (\<lambda>i. i\<lparr>i_Attributes := put (\<lambda>_. v) (i_Attributes i)\<rparr>) s;
            (s, err) \<leftarrow> setUserMeta St E s p key (if v \<noteq> dflt then Some (format_d v) else None);
            Some (s, True, err)
          }
          else Some (s, False, None))"

definition setSize :: "('t, 'd, 'c) gEnv \<Rightarrow> ('t, 'd, 'c) act \<Rightarrow> (('t, 'd, 'c) Goofys \<Rightarrow> ('t, 'd, 'c) Goofys \<times> error option) \<Rightarrow> ptr \<Rightarrow>
    u64 option \<Rightarrow> ('t, 'd, 'c) Goofys \<Rightarrow> (('t, 'd, 'c) Goofys \<times> bool \<times> error option) option" where
  "setSize E wait sync p sz s =
     (case sz of
        None \<Rightarrow> Some (s, False, None)
      | Some n \<Rightarrow>
          if sizeOf s p \<noteq> n then
            (if n > getMaxFileSize (g_parts E) then Some (s, False, Some (Errno EFBIG))
             else map_option (\<lambda>s. (s, True, None)) (ResizeUnlocked E wait sync s p n))
          else Some (s, False, None))"

definition setMtime :: "store \<Rightarrow> ('t, 'd, 'c) gEnv \<Rightarrow> ptr \<Rightarrow> gotime option \<Rightarrow> ('t, 'd, 'c) Goofys \<Rightarrow>
    (('t, 'd, 'c) Goofys \<times> bool \<times> error option) option" where
  "setMtime St E p mtime s =
     (case mtime of
        None \<Rightarrow> Some (s, False, None)
      | Some t \<Rightarrow>
          if f_EnableMtime (g_flags E) \<and> a_Mtime (i_Attributes (heap s p)) \<noteq> t then do {
            let s = upd p (\<lambda>i. i\<lparr>i_Attributes := (i_Attributes i)\<lparr>a_Mtime := t\<rparr>\<rparr>) s;
            (s, err) \<leftarrow> setUserMeta St E s p (f_MtimeAttr (g_flags E)) (Some (format_di (Unix t)));
            Some (s, True, err)
          }
          else Some (s, False, None))"

text \<open>The steps of \<open>SetAttributes\<close> in their order: the first error ends the call.\<close>

fun attrSteps :: "(('t, 'd, 'c) Goofys \<Rightarrow> (('t, 'd, 'c) Goofys \<times> bool \<times> error option) option) list \<Rightarrow> bool \<Rightarrow> ('t, 'd, 'c) Goofys \<Rightarrow>
    (('t, 'd, 'c) Goofys \<times> bool \<times> error option) option" where
  "attrSteps [] chg s = Some (s, chg, None)"
| "attrSteps (f # fs) chg s = do {
     (s, m, err) \<leftarrow> f s;
     if err \<noteq> None then Some (s, chg, err) else attrSteps fs (chg \<or> m) s
   }"

definition SetAttributes :: "store \<Rightarrow> ('t, 'd, 'c) gEnv \<Rightarrow> ('t, 'd, 'c) act \<Rightarrow> (('t, 'd, 'c) Goofys \<Rightarrow> ('t, 'd, 'c) Goofys \<times> error option) \<Rightarrow>
    ('t, 'd, 'c) Goofys \<Rightarrow> ptr \<Rightarrow> u64 option \<Rightarrow> 32 word option \<Rightarrow> gotime option \<Rightarrow> nat option \<Rightarrow> nat option \<Rightarrow>
    (('t, 'd, 'c) Goofys \<times> error option) option" where
  "SetAttributes St E wait sync s p sz mode mtime uid gid =
     (if i_Parent (heap s p) = None then
        Some (s, if f_IgnoreRootAttrErrors (g_flags E) then None else Some (Errno ENOTSUP))
      else if (sz \<noteq> None \<or> mode \<noteq> None \<or> mtime \<noteq> None \<or> uid \<noteq> None \<or> gid \<noteq> None) \<and>
              (i_CacheState (heap s p) = ST_DELETED \<or> i_CacheState (heap s p) = ST_DEAD)
      then Some (s, Some (Errno ENOENT))
      else do {
        (s, modified, err) \<leftarrow> attrSteps
          [setSize E wait sync p sz,
           \<lambda>s. case mode of None \<Rightarrow> Some (s, False, None) | Some m \<Rightarrow> setFileMode St E s p m,
           setMtime St E p mtime,
           setOwner St E p (f_UidAttr (g_flags E)) (f_Uid (g_flags E)) a_Uid a_Uid_update uid,
           setOwner St E p (f_GidAttr (g_flags E)) (f_Gid (g_flags E)) a_Gid a_Gid_update gid] False s;
        Some (if err = None \<and> modified \<and> i_CacheState (heap s p) = ST_CACHED
              then WakeupFlusher (SetCacheState E s p ST_MODIFIED) else s, err)
      })"

definition Release :: "('t, 'd, 'c) Goofys \<Rightarrow> ptr \<Rightarrow> ('t, 'd, 'c) Goofys option" where
  "Release s p =
     (let s = upd p (\<lambda>i. i\<lparr>i_fileHandles := i_fileHandles i - 1\<rparr>) s; n = i_fileHandles (heap s p) in
      if n = - 1 then None
      else Some (WakeupFlusher (if n = 0 then addModified s (i_Parent (heap s p)) (- 1) else s)))"

end
