(* ===== verification/File_Flush.thy ===== *)
theory File_Flush
  imports File_Ops
begin

text \<open>
  Uploading files (\<open>core/file.go\<close>): a small file as one object, a large one part by part into a multipart
  upload that is completed by copying the parts that were not modified.  A goroutine is written as its
  critical sections, named after the function with the point where each starts, and the function itself is
  their composition: the argument that stands for a request is given the request and everything else that
  happens until the lock is taken again, and returns the state of that moment and the answer.  The content
  type of a request and the texts of the log are left out.
\<close>

text \<open>What the store tells about an object it has written.\<close>

record putOutput =
  po_ETag :: "string option"
  po_LastModified :: "gotime option"
  po_StorageClass :: "string option"

section \<open>Common parts\<close>

definition isStillDirty :: "('t, 'd, 'c) Goofys \<Rightarrow> ptr \<Rightarrow> bool" where
  "isStillDirty s p \<longleftrightarrow>
     i_userMetadataDirty (heap s p) \<noteq> 0 \<or> i_oldParent (heap s p) \<noteq> None \<or> sizeOf s p \<noteq> i_knownSize (heap s p) \<or>
     AnyUnclean (i_buffers (heap s p))"

text \<open>A nil ETag is dereferenced and a nil map is written, so both panic.\<close>

definition updateFromFlush :: "('t, 'd, 'c) gEnv \<Rightarrow> gotime \<Rightarrow> ('t, 'd, 'c) Goofys \<Rightarrow> ptr \<Rightarrow> u64 \<Rightarrow> putOutput \<Rightarrow> ('t, 'd, 'c) Goofys option" where
  "updateFromFlush E now s p sz out =
     (case (po_ETag out, i_s3Metadata (heap s p)) of
        (Some etag, Some md) \<Rightarrow>
          let md = AList.update ''etag'' etag md;
              md = (case po_StorageClass out of None \<Rightarrow> md | Some c \<Rightarrow> AList.update ''storage-class'' c md)
          in Some (SetAttrTime E
               (upd p (\<lambda>i. i\<lparr>i_s3Metadata := Some md,
                   i_Attributes := (case po_LastModified out of None \<Rightarrow> i_Attributes i | Some t \<Rightarrow> (i_Attributes i)\<lparr>a_Ctime := t\<rparr>),
                   i_knownSize := sz, i_knownETag := etag\<rparr>) s) p now)
      | _ \<Rightarrow> None)"

definition startFlush :: "int \<Rightarrow> ptr \<Rightarrow> ('t, 'd, 'c) act" where
  "startFlush n p s = (upd p (\<lambda>i. i\<lparr>i_IsFlushing := i_IsFlushing i + n\<rparr>) s)\<lparr>activeFlushers := activeFlushers s + 1\<rparr>"

definition endFlush :: "int \<Rightarrow> ptr \<Rightarrow> ('t, 'd, 'c) act" where
  "endFlush n p s = WakeupFlusher ((upd p (\<lambda>i. i\<lparr>i_IsFlushing := i_IsFlushing i - n\<rparr>) s)\<lparr>activeFlushers := activeFlushers s - 1\<rparr>)"

definition inflightAdd :: "string \<Rightarrow> ('t, 'd, 'c) act" where
  "inflightAdd key s = s\<lparr>inflightState := addInflightChange (inflightState s) key\<rparr>"

definition inflightEnd :: "string \<Rightarrow> ('t, 'd, 'c) act" where
  "inflightEnd key s = s\<lparr>inflightState := completeInflightChange (inflightState s) key\<rparr>"

definition conflict :: "error option \<Rightarrow> bool" where
  "conflict err \<longleftrightarrow> mapAwsError err = Some (Errno ENOENT) \<or> mapAwsError err = Some (Errno ERANGE)"

definition errorOf :: "error + 'a \<Rightarrow> error option" where
  "errorOf r = (case r of Inl err \<Rightarrow> Some err | Inr _ \<Rightarrow> None)"

definition uploading :: "CacheSt \<Rightarrow> bool" where
  "uploading st \<longleftrightarrow> st = ST_CREATED \<or> st = ST_MODIFIED"

text \<open>The state of the inode after its object was written.\<close>

definition flushedState :: "('t, 'd, 'c) gEnv \<Rightarrow> ('t, 'd, 'c) Goofys \<Rightarrow> ptr \<Rightarrow> ('t, 'd, 'c) Goofys" where
  "flushedState E s p =
     (if uploading (i_CacheState (heap s p))
      then SetCacheState E s p (if \<not> isStillDirty s p then ST_CACHED else ST_MODIFIED) else s)"

section \<open>Small files\<close>

record putJob =
  pj_cloud :: "nat option"
  pj_key :: string
  pj_body :: MultiReader
  pj_metadata :: "metadata option"
  pj_size :: u64
  pj_ids :: "nat set"

definition flushSmall_begin :: "('t, 'd, 'c) gEnv \<Rightarrow> ('t, 'd, 'c) Goofys \<Rightarrow> ptr \<Rightarrow> ('t, 'd, 'c) Goofys \<times> u64 option" where
  "flushSmall_begin E s p =
     (if \<not> uploading (i_CacheState (heap s p)) then (endFlush (f_MaxParallelParts (g_flags E)) p s, None)
      else (rangesDo p (LockRange 0 (sizeOf s p) True) s, Some (sizeOf s p)))"

text \<open>The result of loading the rest of the file; the flag tells whether the flush goes on.  The lock of the range stays
  when the local version is discarded.\<close>

definition flushSmall_loaded :: "('t, 'd, 'c) gEnv \<Rightarrow> ('t, 'd, 'c) Goofys \<Rightarrow> ptr \<Rightarrow> error option \<Rightarrow> (('t, 'd, 'c) Goofys \<times> bool) option" where
  "flushSmall_loaded E s p err =
     (if conflict err then map_option (\<lambda>s. (endFlush (f_MaxParallelParts (g_flags E)) p s, False)) (resetCache E s p)
      else Some (s, True))"

definition flushSmall_put :: "('t, 'd, 'c) gEnv \<Rightarrow> ('t, 'd, 'c) Goofys \<Rightarrow> ptr \<Rightarrow> u64 \<Rightarrow> (('t, 'd, 'c) Goofys \<times> putJob option) option" where
  "flushSmall_put E s p sz =
     (let (c, key) = objectKey E s p in
      do {
        (s, r) \<leftarrow> getMultiReader E s p 0 sz;
        Some (case r of
           Inl _ \<Rightarrow> (endFlush (f_MaxParallelParts (g_flags E)) p (rangesDo p (UnlockRange 0 sz True) s), None)
         | Inr (reader, ids) \<Rightarrow>
             let dirty = (i_userMetadataDirty (heap s p) \<noteq> 0);
                 md = (if dirty then escapeMetadata E (i_userMetadata (heap s p)) else None);
                 s = (if dirty then upd p (\<lambda>i. i\<lparr>i_userMetadataDirty := 0\<rparr>) s else s);
                 s = (if i_mpu (heap s p) \<noteq> None then abortMultipart s p else s)
             in (inflightAdd key s,
                 Some \<lparr>pj_cloud = c, pj_key = key, pj_body = reader, pj_metadata = md, pj_size = sz, pj_ids = ids\<rparr>))
      })"

definition flushSmall_done :: "('t, 'd, 'c) gEnv \<Rightarrow> gotime \<Rightarrow> ('t, 'd, 'c) Goofys \<Rightarrow> ptr \<Rightarrow> putJob \<Rightarrow> error + putOutput \<Rightarrow> ('t, 'd, 'c) Goofys option" where
  "flushSmall_done E now s p job answer =
     do {
       let s = recordFlushError now (inflightEnd (pj_key job) s) p (errorOf answer);
       s \<leftarrow> (case answer of
               Inl _ \<Rightarrow> Some (if pj_metadata job \<noteq> None then upd p (\<lambda>i. i\<lparr>i_userMetadataDirty := 2\<rparr>) s else s)
             | Inr out \<Rightarrow> do {
                 s \<leftarrow> buffersDo p (\<lambda>l. SetState (bufEnvOf E p) l 0 (pj_size job) (pj_ids job) BUF_CLEAN) s;
                 s \<leftarrow> updateFromFlush E now s p (pj_size job) out;
                 Some (flushedState E s p)
               });
       Some (endFlush (f_MaxParallelParts (g_flags E)) p (rangesDo p (UnlockRange 0 (pj_size job) True) s))
     }"

definition flushSmallObject :: "('t, 'd, 'c) gEnv \<Rightarrow> osFile \<Rightarrow> (readJob list \<Rightarrow> ('t, 'd, 'c) act) \<Rightarrow>
    (putJob \<Rightarrow> ('t, 'd, 'c) Goofys \<Rightarrow> ('t, 'd, 'c) Goofys \<times> (error + putOutput)) \<Rightarrow> gotime \<Rightarrow> ('t, 'd, 'c) Goofys \<Rightarrow> ptr \<Rightarrow> ('t, 'd, 'c) Goofys option" where
  "flushSmallObject E os wait put now s p =
     (case flushSmall_begin E s p of
        (s, None) \<Rightarrow> Some s
      | (s, Some sz) \<Rightarrow> do {
          (s, more) \<leftarrow> (if i_CacheState (heap s p) = ST_MODIFIED then do {
                          (s, _, err) \<leftarrow> LoadRange E os wait s p 0 sz 0;
                          flushSmall_loaded E s p err
                        }
                        else Some (s, True));
          if \<not> more then Some s
          else do {
            (s, job) \<leftarrow> flushSmall_put E s p sz;
            (case job of
               None \<Rightarrow> Some s
             | Some job \<Rightarrow> let (s, answer) = put job s in flushSmall_done E now s p job answer)
          }
        })"

section \<open>Parts\<close>

record partJob =
  aj_cloud :: "nat option"
  aj_mpu :: mpuState
  aj_part :: u64
  aj_body :: MultiReader
  aj_offset :: u64
  aj_size :: u64
  aj_full :: u64
  aj_ids :: "nat set"

text \<open>The last part may be shorter.\<close>

definition cutPart :: "('t, 'd, 'c) Goofys \<Rightarrow> ptr \<Rightarrow> u64 \<Rightarrow> u64 \<Rightarrow> u64" where
  "cutPart s p partOffset partSize =
     (if sizeOf s p < add64 partOffset partSize then sub64 (sizeOf s p) partOffset else partSize)"

text \<open>After loading the rest of a part: the size of the part to upload, if the flush goes on.\<close>

definition flushPart_loaded :: "('t, 'd, 'c) gEnv \<Rightarrow> ('t, 'd, 'c) Goofys \<Rightarrow> ptr \<Rightarrow> u64 \<Rightarrow> u64 \<Rightarrow> error option \<Rightarrow>
    (('t, 'd, 'c) Goofys \<times> u64 option) option" where
  "flushPart_loaded E s p partOffset partSize err =
     (if err = Some (Errno ESPIPE) then Some (s, None)
      else if conflict err then map_option (\<lambda>s. (s, None)) (resetCache E s p)
      else if err \<noteq> None then Some (s, None)
      else if sizeOf s p \<le> partOffset \<or> i_CacheState (heap s p) \<noteq> ST_MODIFIED then Some (s, None)
      else Some (s, Some (cutPart s p partOffset partSize)))"

definition flushPart_add :: "('t, 'd, 'c) gEnv \<Rightarrow> nat option \<Rightarrow> ('t, 'd, 'c) Goofys \<Rightarrow> ptr \<Rightarrow> u64 \<Rightarrow> u64 \<Rightarrow> u64 \<Rightarrow> u64 \<Rightarrow> (('t, 'd, 'c) Goofys \<times> partJob option) option" where
  "flushPart_add E c s p part partOffset partSize partFullSize =
     (case i_mpu (heap s p) of
        None \<Rightarrow> Some (s, None)
      | Some mpu \<Rightarrow> do {
          (s, r) \<leftarrow> getMultiReader E s p partOffset partSize;
          Some (s, case r of
             Inl _ \<Rightarrow> None
           | Inr (reader, ids) \<Rightarrow>
               Some \<lparr>aj_cloud = c, aj_mpu = mpu, aj_part = part, aj_body = reader, aj_offset = partOffset,
                      aj_size = partSize, aj_full = partFullSize, aj_ids = ids\<rparr>)
        })"

text \<open>Writing a part number outside the list of parts panics.\<close>

definition setPart :: "u64 \<Rightarrow> string option \<Rightarrow> mpuState \<Rightarrow> mpuState option" where
  "setPart part partId mpu =
     (if part < length (mpu_Parts mpu) then Some (mpu\<lparr>mpu_Parts := (mpu_Parts mpu)[part := partId]\<rparr>) else None)"

definition flushPart_done :: "('t, 'd, 'c) gEnv \<Rightarrow> gotime \<Rightarrow> ('t, 'd, 'c) Goofys \<Rightarrow> ptr \<Rightarrow> partJob \<Rightarrow> error + string option \<Rightarrow> ('t, 'd, 'c) Goofys option" where
  "flushPart_done E now s p job answer =
     (if i_CacheState (heap s p) = ST_DELETED then Some s
      else
        let s = recordFlushError now s p (errorOf answer) in
        (case answer of
           Inl err \<Rightarrow> if mapAwsError (Some err) = Some (Errno ENOENT) then resetCache E s p else Some s
         | Inr partId \<Rightarrow> do {
             s \<leftarrow> (case i_mpu (heap s p) of
                     None \<Rightarrow> Some s
                   | Some mpu \<Rightarrow> do {
                       mpu \<leftarrow> setPart (aj_part job) partId mpu;
                       Some (upd p (\<lambda>i. i\<lparr>i_mpu := Some mpu\<rparr>) s)
                     });
             let doneState = (if MultiReader_Len (aj_body job) < aj_full job \<or> aj_part job = 0 then BUF_FLUSHED_CUT else BUF_FLUSHED_FULL);
             buffersDo p (\<lambda>l. SetState (bufEnvOf E p) l (aj_offset job) (aj_size job) (aj_ids job) doneState) s
           }))"

definition flushPart :: "('t, 'd, 'c) gEnv \<Rightarrow> osFile \<Rightarrow> (readJob list \<Rightarrow> ('t, 'd, 'c) act) \<Rightarrow>
    (partJob \<Rightarrow> ('t, 'd, 'c) Goofys \<Rightarrow> ('t, 'd, 'c) Goofys \<times> (error + string option)) \<Rightarrow> gotime \<Rightarrow> ('t, 'd, 'c) Goofys \<Rightarrow> ptr \<Rightarrow> u64 \<Rightarrow> ('t, 'd, 'c) Goofys option" where
  "flushPart E os wait add now s p part =
     do {
       (partOffset, partFullSize) \<leftarrow> partRange (g_parts E) part;
       let c = fst (objectKey E s p);
       let partSize = cutPart s p partOffset partFullSize;
       (s, r) \<leftarrow> (if i_CacheState (heap s p) = ST_MODIFIED then do {
                    (s, _, err) \<leftarrow> LoadRange E os wait s p partOffset partSize 0;
                    flushPart_loaded E s p partOffset partSize err
                  }
                  else Some (s, Some partSize));
       (case r of
          None \<Rightarrow> Some s
        | Some partSize \<Rightarrow> do {
            (s, job) \<leftarrow> flushPart_add E c s p part partOffset partSize partFullSize;
            (case job of
               None \<Rightarrow> Some s
             | Some job \<Rightarrow> let (s, answer) = add job s in flushPart_done E now s p job answer)
          })
     }"

text \<open>The goroutine of \<open>goFlushPart\<close>: what the call does at once and what the goroutine does at its end.\<close>

definition flushLimitsExceeded :: "('t, 'd, 'c) gEnv \<Rightarrow> ('t, 'd, 'c) Goofys \<Rightarrow> ptr \<Rightarrow> bool" where
  "flushLimitsExceeded E s p \<longleftrightarrow>
     activeFlushers s \<ge> f_MaxFlushers (g_flags E) \<or> i_IsFlushing (heap s p) \<ge> f_MaxParallelParts (g_flags E)"

definition addPriority :: "nat \<Rightarrow> int \<Rightarrow> ('t, 'd, 'c) act" where
  "addPriority n d s = s\<lparr>flushPriorities := (flushPriorities s)[n := flushPriorities s ! n + d]\<rparr>"

definition goFlushPart :: "ptr \<Rightarrow> u64 \<Rightarrow> u64 \<Rightarrow> nat \<Rightarrow> ('t, 'd, 'c) act" where
  "goFlushPart p partOffset partSize priority s =
     addPriority priority 1 (startFlush 1 p (rangesDo p (LockRange partOffset partSize True) s))"

definition goFlushPart_end :: "ptr \<Rightarrow> u64 \<Rightarrow> u64 \<Rightarrow> nat \<Rightarrow> ('t, 'd, 'c) act" where
  "goFlushPart_end p partOffset partSize priority s =
     endFlush 1 p (addPriority priority (- 1) (rangesDo p (UnlockRange partOffset partSize True) s))"

section \<open>Choosing the parts to upload\<close>

text \<open>What the buffers of a part tell: dirty, evicted, with zeroes, with data, and the end of the last buffer.\<close>

fun partBuffers :: "u64 \<Rightarrow> (u64 \<times> FileBuffer) list \<Rightarrow> bool \<times> bool \<times> bool \<times> bool \<times> u64 \<Rightarrow> bool \<times> bool \<times> bool \<times> bool \<times> u64" where
  "partBuffers partEnd [] acc = acc"
| "partBuffers partEnd ((end, buf) # es) (dirty, evicted, zero, nonZero, lastEnd) =
     (if fb_offset buf \<ge> partEnd then (dirty, evicted, zero, nonZero, lastEnd)
      else partBuffers partEnd es
             (dirty \<or> fb_state buf = BUF_DIRTY, evicted \<or> fb_state buf = BUF_FL_CLEARED, zero \<or> fb_zero buf, nonZero \<or> \<not> fb_zero buf, end))"

record partChoice =
  pc_initiated :: bool
  pc_shouldComplete :: bool
  pc_partlyZero :: "u64 list"
  pc_fullyZero :: "u64 list"
  pc_anyEvicted :: bool
  pc_jobs :: "(u64 \<times> u64 \<times> u64 \<times> nat) list"

text \<open>The callback of \<open>IterateDirtyParts\<close> over the remaining parts.\<close>

fun chooseParts :: "('t, 'd, 'c) gEnv \<Rightarrow> ptr \<Rightarrow> nat \<Rightarrow> bool \<Rightarrow> bool \<Rightarrow> u64 list \<Rightarrow> ('t, 'd, 'c) Goofys \<Rightarrow> partChoice \<Rightarrow>
    (('t, 'd, 'c) Goofys \<times> partChoice) option" where
  "chooseParts E p priority flushInode pressed [] s c = Some (s, c)"
| "chooseParts E p priority flushInode pressed (part # parts) s c =
     do {
       (partOffset, partSize) \<leftarrow> partRange (g_parts E) part;
       if IsRangeLocked partOffset partSize True (i_readRanges (heap s p))
       then chooseParts E p priority flushInode pressed parts s (c\<lparr>pc_shouldComplete := False\<rparr>)
       else do {
         lastPart \<leftarrow> partNum (g_parts E) (i_lastWriteEnd (heap s p));
         if part = lastPart \<and> \<not> flushInode \<and> \<not> pressed
         then chooseParts E p priority flushInode pressed parts s (c\<lparr>pc_shouldComplete := False\<rparr>)
         else
           let partEnd = add64 partOffset partSize;
               (dirty, evicted, zero, nonZero, lastEnd) =
                 partBuffers partEnd (bt_asc (g_A E) (bl_at (i_buffers (heap s p))) (add64 partOffset 1)) (False, False, False, False, 0);
               zero = (zero \<or> lastEnd < partEnd)
           in if \<not> dirty \<or> evicted
              then chooseParts E p priority flushInode pressed parts s (c\<lparr>pc_anyEvicted := pc_anyEvicted c \<or> evicted\<rparr>)
              else if zero \<and> \<not> flushInode
              then chooseParts E p priority flushInode pressed parts s
                     (c\<lparr>pc_fullyZero := (if \<not> nonZero \<and> priority \<ge> 3 then pc_fullyZero c @ [part] else pc_fullyZero c),
                        pc_partlyZero := (if pressed \<and> nonZero \<and> priority \<ge> 2 then pc_partlyZero c @ [part] else pc_partlyZero c),
                        pc_shouldComplete := False\<rparr>)
              else
                let s = goFlushPart p partOffset partSize 1 s;
                    c = c\<lparr>pc_shouldComplete := False, pc_initiated := True, pc_jobs := pc_jobs c @ [(part, partOffset, partSize, 1)]\<rparr>
                in if flushLimitsExceeded E s p then Some (s, c)
                   else chooseParts E p priority flushInode pressed parts s c
       }
     }"

text \<open>The loops over the parts with zeroes: after the first part was started the others are skipped.\<close>

fun zeroParts :: "('t, 'd, 'c) gEnv \<Rightarrow> ptr \<Rightarrow> nat \<Rightarrow> u64 list \<Rightarrow> ('t, 'd, 'c) Goofys \<Rightarrow> partChoice \<Rightarrow> (('t, 'd, 'c) Goofys \<times> partChoice) option" where
  "zeroParts E p priority [] s c = Some (s, c)"
| "zeroParts E p priority (part # parts) s c =
     do {
       (partOffset, partSize) \<leftarrow> partRange (g_parts E) part;
       let (s, c) = (if pc_initiated c then (s, c)
                     else (goFlushPart p partOffset partSize priority s,
                           c\<lparr>pc_initiated := True, pc_jobs := pc_jobs c @ [(part, partOffset, partSize, priority)]\<rparr>));
       if flushLimitsExceeded E s p then Some (s, c) else zeroParts E p priority parts s c
     }"

text \<open>The last loop runs over the partly zero parts again, not over the fully zero ones.\<close>

definition sendUploadParts :: "('t, 'd, 'c) gEnv \<Rightarrow> ('t, 'd, 'c) Goofys \<Rightarrow> ptr \<Rightarrow> nat \<Rightarrow> (('t, 'd, 'c) Goofys \<times> partChoice) option" where
  "sendUploadParts E s p priority =
     do {
       let flushInode = (i_fileHandles (heap s p) = 0 \<or> i_forceFlush (heap s p));
       (s, c) \<leftarrow> chooseParts E p priority flushInode (wantFree s > 0) (IterateDirtyParts (bufEnvOf E p) (bufsOf s p)) s
         \<lparr>pc_initiated = False, pc_shouldComplete = True, pc_partlyZero = [], pc_fullyZero = [], pc_anyEvicted = False, pc_jobs = []\<rparr>;
       (s, c) \<leftarrow> (if \<not> pc_initiated c \<and> pc_partlyZero c \<noteq> [] then zeroParts E p 2 (pc_partlyZero c) s c else Some (s, c));
       if \<not> pc_initiated c \<and> pc_anyEvicted c \<and> pc_fullyZero c \<noteq> [] then zeroParts E p 3 (pc_partlyZero c) s c else Some (s, c)
     }"

section \<open>The multipart upload\<close>

record beginJob =
  bj_cloud :: "nat option"
  bj_key :: string
  bj_metadata :: "metadata option"

definition sendStartMultipart :: "('t, 'd, 'c) gEnv \<Rightarrow> ('t, 'd, 'c) Goofys \<Rightarrow> ptr \<Rightarrow> ('t, 'd, 'c) Goofys \<times> nat option \<times> string" where
  "sendStartMultipart E s p =
     (let (c, key) = cloud E s p in
      (startFlush (f_MaxParallelParts (g_flags E)) p s, c, if isDir s p then key @ ''/'' else key))"

text \<open>\<open>beginMultipartUpload\<close> before and after the request.  The first part runs without the lock.\<close>

definition beginMultipart_request :: "('t, 'd, 'c) gEnv \<Rightarrow> ('t, 'd, 'c) Goofys \<Rightarrow> ptr \<Rightarrow> nat option \<Rightarrow> string \<Rightarrow> ('t, 'd, 'c) Goofys \<times> beginJob" where
  "beginMultipart_request E s p c key =
     (if i_userMetadataDirty (heap s p) \<noteq> 0
      then (upd p (\<lambda>i. i\<lparr>i_userMetadataDirty := 1\<rparr>) s,
            \<lparr>bj_cloud = c, bj_key = key, bj_metadata = escapeMetadata E (i_userMetadata (heap s p))\<rparr>)
      else (s, \<lparr>bj_cloud = c, bj_key = key, bj_metadata = None\<rparr>))"

definition beginMultipart_done :: "gotime \<Rightarrow> ('t, 'd, 'c) Goofys \<Rightarrow> ptr \<Rightarrow> error + mpuState \<Rightarrow> ('t, 'd, 'c) Goofys" where
  "beginMultipart_done now s p answer =
     (let s = recordFlushError now s p (errorOf answer) in
      case answer of
        Inl _ \<Rightarrow> s
      | Inr mpu \<Rightarrow> (upd p (\<lambda>i. i\<lparr>i_mpu := Some (mpu\<lparr>mpu_ptr := nextMpu s\<rparr>)\<rparr>) s)\<lparr>nextMpu := Suc (nextMpu s)\<rparr>)"

definition beginMultipartUpload :: "('t, 'd, 'c) gEnv \<Rightarrow> (beginJob \<Rightarrow> ('t, 'd, 'c) Goofys \<Rightarrow> ('t, 'd, 'c) Goofys \<times> (error + mpuState)) \<Rightarrow> gotime \<Rightarrow>
    ('t, 'd, 'c) Goofys \<Rightarrow> ptr \<Rightarrow> nat option \<Rightarrow> string \<Rightarrow> ('t, 'd, 'c) Goofys" where
  "beginMultipartUpload E beg now s p c key =
     (let (s, job) = beginMultipart_request E s p c key; (s, answer) = beg job s in beginMultipart_done now s p answer)"

text \<open>
  The ranges to copy, collected part by part: \<open>(ranges, startPart, endPart, startOffset, endOffset)\<close>.  A
  range is the number of the part that receives it, its offset and its size.
\<close>

fun copyRanges_loop :: "PartSizeConfig list \<Rightarrow> u64 \<Rightarrow> u64 \<Rightarrow> string option list \<Rightarrow> u64 list \<Rightarrow>
    (u64 \<times> u64 \<times> u64) list \<times> u64 \<times> u64 \<times> u64 \<times> u64 \<Rightarrow> ((u64 \<times> u64 \<times> u64) list \<times> u64 \<times> u64 \<times> u64 \<times> u64) option" where
  "copyRanges_loop ps maxMerge sz parts [] acc = Some acc"
| "copyRanges_loop ps maxMerge sz parts (i # is) (ranges, startPart, endPart, startOffset, endOffset) =
     do {
       (partOffset, partSize) \<leftarrow> partRange ps i;
       let partEnd = add64 partOffset partSize;
       let partEnd = (if partEnd > sz then sz else partEnd);
       if i \<ge> length parts then None
       else if parts ! i = None then
         (let (startPart, startOffset) = (if endPart = 0 then (i, partOffset) else (startPart, startOffset));
              endPart = Suc i; endOffset = partEnd
          in if sub64 endOffset startOffset \<ge> maxMerge
             then copyRanges_loop ps maxMerge sz parts is (ranges @ [(startPart, startOffset, sub64 endOffset startOffset)], 0, 0, startOffset, endOffset)
             else copyRanges_loop ps maxMerge sz parts is (ranges, startPart, endPart, startOffset, endOffset))
       else if endPart \<noteq> 0 then
         copyRanges_loop ps maxMerge sz parts is (ranges @ [(startPart, startOffset, sub64 endOffset startOffset)], startPart, 0, startOffset, endOffset)
       else copyRanges_loop ps maxMerge sz parts is (ranges, startPart, endPart, startOffset, endOffset)
     }"

definition copyRanges :: "PartSizeConfig list \<Rightarrow> u64 \<Rightarrow> u64 \<Rightarrow> string option list \<Rightarrow> u64 \<Rightarrow> (u64 \<times> u64 \<times> u64) list option" where
  "copyRanges ps maxMerge sz parts n =
     do {
       (ranges, startPart, endPart, startOffset, endOffset) \<leftarrow> copyRanges_loop ps maxMerge sz parts [0..<n] ([], 0, 0, 0, 0);
       Some (if endPart \<noteq> 0 then ranges @ [(startPart, startOffset, sub64 endOffset startOffset)] else ranges)
     }"

record copyJob =
  yj_cloud :: "nat option"
  yj_mpu :: mpuState
  yj_part :: u64
  yj_source :: string
  yj_offset :: u64
  yj_size :: u64

text \<open>The end of a goroutine that copies a range: the part is recorded in the upload that was copied into, which may have
  been given up in the meantime.\<close>

definition copyPart_done :: "('t, 'd, 'c) Goofys \<Rightarrow> ptr \<Rightarrow> copyJob \<Rightarrow> string option \<Rightarrow> ('t, 'd, 'c) Goofys option" where
  "copyPart_done s p job partId =
     (case i_mpu (heap s p) of
        None \<Rightarrow> Some s
      | Some mpu \<Rightarrow>
          if mpu_ptr mpu = mpu_ptr (yj_mpu job) then do {
            mpu \<leftarrow> setPart (yj_part job) partId mpu;
            Some (upd p (\<lambda>i. i\<lparr>i_mpu := Some mpu\<rparr>) s)
          }
          else Some s)"

text \<open>The copies, one after the other; the code runs up to \<open>MaxParallelCopy\<close> of them at a time.\<close>

fun copyParts :: "(copyJob \<Rightarrow> ('t, 'd, 'c) Goofys \<Rightarrow> ('t, 'd, 'c) Goofys \<times> (error + string option)) \<Rightarrow> ptr \<Rightarrow> nat option \<Rightarrow> string \<Rightarrow> mpuState \<Rightarrow>
    (u64 \<times> u64 \<times> u64) list \<Rightarrow> ('t, 'd, 'c) Goofys \<Rightarrow> (('t, 'd, 'c) Goofys \<times> error option) option" where
  "copyParts copy p c key mpu [] s = Some (s, None)"
| "copyParts copy p c key mpu ((part, off, sz) # rs) s =
     (if i_mpu (heap s p) = None then Some (s, Some (Errno ENOENT))
      else
        let job = \<lparr>yj_cloud = c, yj_mpu = mpu, yj_part = part, yj_source = key, yj_offset = off, yj_size = sz\<rparr>;
            (s, answer) = copy job s
        in (case answer of
              Inl err \<Rightarrow> Some (s, Some err)
            | Inr partId \<Rightarrow> do {
                s \<leftarrow> copyPart_done s p job partId;
                copyParts copy p c key mpu rs s
              }))"

definition copyUnmodifiedParts :: "('t, 'd, 'c) gEnv \<Rightarrow> (copyJob \<Rightarrow> ('t, 'd, 'c) Goofys \<Rightarrow> ('t, 'd, 'c) Goofys \<times> (error + string option)) \<Rightarrow>
    ('t, 'd, 'c) Goofys \<Rightarrow> ptr \<Rightarrow> u64 \<Rightarrow> (('t, 'd, 'c) Goofys \<times> error option) option" where
  "copyUnmodifiedParts E copy s p n =
     do {
       mpu \<leftarrow> i_mpu (heap s p);
       ranges \<leftarrow> copyRanges (g_parts E) (mul64 (mul64 (f_MaxMergeCopyMB (g_flags E)) 1024) 1024) (sizeOf s p) (mpu_Parts mpu) n;
       let (c, key) = objectKey E s p;
       copyParts copy p c key mpu ranges s
     }"

record commitJob =
  cj_cloud :: "nat option"
  cj_key :: string
  cj_mpu :: mpuState
  cj_size :: u64

definition commit_request :: "('t, 'd, 'c) gEnv \<Rightarrow> ('t, 'd, 'c) Goofys \<Rightarrow> ptr \<Rightarrow> u64 \<Rightarrow> u64 \<Rightarrow> (('t, 'd, 'c) Goofys \<times> commitJob) option" where
  "commit_request E s p n finalSize =
     (case i_mpu (heap s p) of
        None \<Rightarrow> None
      | Some mpu \<Rightarrow>
          let (c, key) = objectKey E s p;
              mpu = mpu\<lparr>mpu_NumParts := n mod 2 ^ 32\<rparr>;
              s = upd p (\<lambda>i. i\<lparr>i_mpu := Some mpu\<rparr>) s
          in Some (inflightAdd key s, \<lparr>cj_cloud = c, cj_key = key, cj_mpu = mpu, cj_size = finalSize\<rparr>))"

definition commit_done :: "('t, 'd, 'c) gEnv \<Rightarrow> gotime \<Rightarrow> ('t, 'd, 'c) Goofys \<Rightarrow> ptr \<Rightarrow> commitJob \<Rightarrow> error + putOutput \<Rightarrow> ('t, 'd, 'c) Goofys option" where
  "commit_done E now s p job answer =
     (let s = inflightEnd (cj_key job) s in
      case i_mpu (heap s p) of
        None \<Rightarrow> Some s
      | Some mpu \<Rightarrow>
          if mpu_ptr mpu \<noteq> mpu_ptr (cj_mpu job) \<or> \<not> uploading (i_CacheState (heap s p)) then Some s
          else
            let s = recordFlushError now s p (errorOf answer) in
            (case answer of
               Inl _ \<Rightarrow> Some (if mpu_Metadata mpu \<noteq> None then upd p (\<lambda>i. i\<lparr>i_userMetadataDirty := 2\<rparr>) s else s)
             | Inr out \<Rightarrow> do {
                 let s = (if i_userMetadataDirty (heap s p) = 1 then upd p (\<lambda>i. i\<lparr>i_userMetadataDirty := 0\<rparr>) s else s);
                 let s = upd p (\<lambda>i. i\<lparr>i_mpu := None\<rparr>) s;
                 s \<leftarrow> buffersDo p (SetFlushedClean (bufEnvOf E p)) s;
                 s \<leftarrow> updateFromFlush E now s p (cj_size job) out;
                 Some (flushedState E s p)
               }))"

definition commitMultipartUpload :: "('t, 'd, 'c) gEnv \<Rightarrow> (commitJob \<Rightarrow> ('t, 'd, 'c) Goofys \<Rightarrow> ('t, 'd, 'c) Goofys \<times> (error + putOutput)) \<Rightarrow> gotime \<Rightarrow>
    ('t, 'd, 'c) Goofys \<Rightarrow> ptr \<Rightarrow> u64 \<Rightarrow> u64 \<Rightarrow> ('t, 'd, 'c) Goofys option" where
  "commitMultipartUpload E commit now s p n finalSize =
     do {
       (s, job) \<leftarrow> commit_request E s p n finalSize;
       let (s, answer) = commit job s;
       commit_done E now s p job answer
     }"

text \<open>\<open>completeMultipart\<close> after the copies: whether the upload is committed.\<close>

definition complete_copied :: "('t, 'd, 'c) gEnv \<Rightarrow> gotime \<Rightarrow> ('t, 'd, 'c) Goofys \<Rightarrow> ptr \<Rightarrow> error option \<Rightarrow> (('t, 'd, 'c) Goofys \<times> bool) option" where
  "complete_copied E now s p err =
     (if \<not> uploading (i_CacheState (heap s p)) then Some (s, False)
      else if conflict err then map_option (\<lambda>s. (s, False)) (resetCache E s p)
      else let s = recordFlushError now s p err
           in Some (s, err = None \<and> i_mpu (heap s p) \<noteq> None))"

definition completeMultipart :: "('t, 'd, 'c) gEnv \<Rightarrow> (copyJob \<Rightarrow> ('t, 'd, 'c) Goofys \<Rightarrow> ('t, 'd, 'c) Goofys \<times> (error + string option)) \<Rightarrow>
    (commitJob \<Rightarrow> ('t, 'd, 'c) Goofys \<Rightarrow> ('t, 'd, 'c) Goofys \<times> (error + putOutput)) \<Rightarrow> gotime \<Rightarrow> ('t, 'd, 'c) Goofys \<Rightarrow> ptr \<Rightarrow> ('t, 'd, 'c) Goofys option" where
  "completeMultipart E copy commit now s p =
     (if i_mpu (heap s p) = None then Some s
      else do {
        let finalSize = sizeOf s p;
        n \<leftarrow> numParts (g_parts E) finalSize;
        (s, err) \<leftarrow> copyUnmodifiedParts E copy s p n;
        (s, more) \<leftarrow> complete_copied E now s p err;
        if more then commitMultipartUpload E commit now s p n finalSize else Some s
      })"

end
