(* ===== verification/File_Sync.thy ===== *)
theory File_Sync
  imports File_Flush
begin

text \<open>
  The other ways to bring a file to the store (\<open>core/file.go\<close>): patching an object in place, renaming it,
  replacing its metadata; the choice between all of them (\<open>sendUpload\<close>, \<open>TryFlush\<close>), \<open>SyncFile\<close>, and the
  flusher of \<open>core/goofys.go\<close>.
\<close>

section \<open>Patching\<close>

record patchJob =
  hj_cloud :: "nat option"
  hj_key :: string
  hj_offset :: u64
  hj_size :: u64
  hj_partSize :: u64
  hj_body :: MultiReader

definition discardChanges :: "('t, 'd, 'c) gEnv \<Rightarrow> ('t, 'd, 'c) Goofys \<Rightarrow> ptr \<Rightarrow> u64 \<Rightarrow> u64 \<Rightarrow> ('t, 'd, 'c) Goofys option" where
  "discardChanges E s p offset sz =
     map_option (\<lambda>(s, allocated). s\<lparr>bufferPool_cur := bufferPool_cur s + allocated\<rparr>)
       (withBuffers p (\<lambda>l. RemoveRange (bufEnvOf E p) l offset sz (\<lambda>_. True)) s)"

definition sendPatch_request :: "('t, 'd, 'c) gEnv \<Rightarrow> ('t, 'd, 'c) Goofys \<Rightarrow> ptr \<Rightarrow> u64 \<Rightarrow> u64 \<Rightarrow> MultiReader \<Rightarrow> u64 \<Rightarrow> ('t, 'd, 'c) Goofys \<times> patchJob" where
  "sendPatch_request E s p offset sz r partSize =
     (let (c, key) = objectKey E s p in
      (inflightAdd key s, \<lparr>hj_cloud = c, hj_key = key, hj_offset = offset, hj_size = sz, hj_partSize = partSize, hj_body = r\<rparr>))"

definition sendPatch_done :: "('t, 'd, 'c) gEnv \<Rightarrow> gotime \<Rightarrow> ('t, 'd, 'c) Goofys \<Rightarrow> ptr \<Rightarrow> patchJob \<Rightarrow> error + putOutput \<Rightarrow> (('t, 'd, 'c) Goofys \<times> bool) option" where
  "sendPatch_done E now s p job answer =
     (let s = inflightEnd (hj_key job) s in
      if i_CacheState (heap s p) = ST_DELETED then Some (s, False)
      else
        let s = recordFlushError now s p (errorOf answer) in
        (case answer of
           Inl err \<Rightarrow>
             if conflict (Some err) then map_option (\<lambda>s. (s, False)) (resetCache E s p)
             else if mapAwsError (Some err) = Some (Errno EBUSY) \<and> f_DropPatchConflicts (g_flags E)
             then map_option (\<lambda>s. (s, False)) (discardChanges E s p (hj_offset job) (hj_size job))
             else Some (s, False)
         | Inr out \<Rightarrow>
             map_option (\<lambda>s. (s, True))
               (updateFromFlush E now s p (max (i_knownSize (heap s p)) (add64 (hj_offset job) (hj_size job))) (out\<lparr>po_StorageClass := None\<rparr>))))"

text \<open>
  \<open>bs\<close> are the buffers at the time of the call.  If they follow each other they are sent as they are,
  otherwise the range is loaded first.
\<close>

definition patchReader :: "('t, 'd, 'c) Goofys \<Rightarrow> ptr \<Rightarrow> FileBuffer list \<Rightarrow> MultiReader" where
  "patchReader s p bs =
     fold (\<lambda>buf r. if \<not> fb_zero buf then AddBuffer r (slice_bytes (i_buffers (heap s p)) buf) else AddZero r (fb_length buf)) bs NewMultiReader"

text \<open>After loading: \<^const>\<open>None\<close> gives the patch up.\<close>

definition patch_loaded :: "('t, 'd, 'c) gEnv \<Rightarrow> ('t, 'd, 'c) Goofys \<Rightarrow> ptr \<Rightarrow> u64 \<Rightarrow> u64 \<Rightarrow> error option \<Rightarrow>
    (('t, 'd, 'c) Goofys \<times> (MultiReader \<times> nat set) option) option" where
  "patch_loaded E s p offset sz err =
     (if err \<noteq> None then
        (if conflict err then map_option (\<lambda>s. (s, None)) (resetCache E s p) else Some (s, None))
      else if sizeOf s p < offset \<or> i_CacheState (heap s p) \<noteq> ST_MODIFIED then Some (s, None)
      else map_option (\<lambda>(s, r). (s, case r of Inl _ \<Rightarrow> None | Inr x \<Rightarrow> Some x)) (getMultiReader E s p offset sz))"

definition patch_finish :: "('t, 'd, 'c) gEnv \<Rightarrow> ('t, 'd, 'c) Goofys \<Rightarrow> ptr \<Rightarrow> u64 \<Rightarrow> u64 \<Rightarrow> nat set \<Rightarrow> ('t, 'd, 'c) Goofys option" where
  "patch_finish E s p offset sz ids =
     do {
       s \<leftarrow> buffersDo p (\<lambda>l. SetState (bufEnvOf E p) l offset sz ids BUF_CLEAN) s;
       Some (if \<not> isStillDirty s p then SetCacheState E s p ST_CACHED else s)
     }"

definition patchFromBuffers :: "('t, 'd, 'c) gEnv \<Rightarrow> osFile \<Rightarrow> (readJob list \<Rightarrow> ('t, 'd, 'c) act) \<Rightarrow>
    (patchJob \<Rightarrow> ('t, 'd, 'c) Goofys \<Rightarrow> ('t, 'd, 'c) Goofys \<times> (error + putOutput)) \<Rightarrow> gotime \<Rightarrow> ('t, 'd, 'c) Goofys \<Rightarrow> ptr \<Rightarrow> FileBuffer list \<Rightarrow> u64 \<Rightarrow>
    ('t, 'd, 'c) Goofys option" where
  "patchFromBuffers E os wait patch now s p bs partSize =
     (if bs = [] then Some s
      else
        let offset = fb_offset (hd bs);
            sz = sub64 (add64 (fb_offset (last bs)) (fb_length (last bs))) offset;
            bufsSize = fold (\<lambda>b n. add64 n (fb_length b)) bs 0
        in do {
          (s, r) \<leftarrow> (if bufsSize = sz then Some (s, Some (patchReader s p bs, fb_dirtyID ` set bs))
                     else do {
                       (s, _, err) \<leftarrow> LoadRange E os wait s p offset sz 0;
                       patch_loaded E s p offset sz err
                     });
          (case r of
             None \<Rightarrow> Some s
           | Some (reader, ids) \<Rightarrow> do {
               let (s, job) = sendPatch_request E s p offset sz reader partSize;
               let (s, answer) = patch job s;
               (s, ok) \<leftarrow> sendPatch_done E now s p job answer;
               if ok then patch_finish E s p offset sz ids else Some s
             })
        })"

text \<open>
  A patch that was started: the locked range, what it adds to \<open>IsFlushing\<close>, the ends of the buffers to
  send and the part size.
\<close>

record patchStart =
  ps_offset :: u64
  ps_size :: u64
  ps_weight :: int
  ps_bufs :: "FileBuffer list"
  ps_partSize :: u64

definition startPatch :: "ptr \<Rightarrow> patchStart \<Rightarrow> ('t, 'd, 'c) act" where
  "startPatch p j s = startFlush (ps_weight j) p (rangesDo p (LockRange (ps_offset j) (ps_size j) True) s)"

definition endPatch :: "ptr \<Rightarrow> patchStart \<Rightarrow> ('t, 'd, 'c) act" where
  "endPatch p j s = endFlush (ps_weight j) p (rangesDo p (UnlockRange (ps_offset j) (ps_size j) True) s)"

definition patchSimpleObj :: "('t, 'd, 'c) gEnv \<Rightarrow> ('t, 'd, 'c) Goofys \<Rightarrow> ptr \<Rightarrow> FileBuffer list \<Rightarrow> ('t, 'd, 'c) Goofys \<times> patchStart" where
  "patchSimpleObj E s p bs =
     (let j = \<lparr>ps_offset = 0, ps_size = sizeOf s p, ps_weight = f_MaxParallelParts (g_flags E), ps_bufs = bs,
               ps_partSize = mul64 (mul64 (f_SinglePartMB (g_flags E)) 1024) 1024\<rparr>
      in (startPatch p j s, j))"

definition patchPart :: "('t, 'd, 'c) Goofys \<Rightarrow> ptr \<Rightarrow> u64 \<Rightarrow> u64 \<Rightarrow> FileBuffer list \<Rightarrow> ('t, 'd, 'c) Goofys \<times> patchStart" where
  "patchPart s p partOffset partSize bs =
     (let j = \<lparr>ps_offset = partOffset, ps_size = partSize, ps_weight = 1, ps_bufs = bs, ps_partSize = partSize\<rparr>
      in (startPatch p j s, j))"

definition smallFile :: "('t, 'd, 'c) gEnv \<Rightarrow> ('t, 'd, 'c) Goofys \<Rightarrow> ptr \<Rightarrow> bool" where
  "smallFile E s p \<longleftrightarrow> sizeOf s p \<le> mul64 (mul64 (f_SinglePartMB (g_flags E)) 1024) 1024"

definition wantFlush :: "('t, 'd, 'c) Goofys \<Rightarrow> ptr \<Rightarrow> bool" where
  "wantFlush s p \<longleftrightarrow> i_fileHandles (heap s p) = 0 \<or> i_forceFlush (heap s p) \<or> wantFree s > 0"

text \<open>The range lock is asked for with the end of the part where its size is meant.\<close>

fun patchParts :: "('t, 'd, 'c) gEnv \<Rightarrow> ptr \<Rightarrow> bool \<Rightarrow> u64 \<Rightarrow> u64 list \<Rightarrow> ('t, 'd, 'c) Goofys \<Rightarrow> patchStart list \<Rightarrow>
    (('t, 'd, 'c) Goofys \<times> patchStart list) option" where
  "patchParts E p want updatedPart [] s js = Some (s, js)"
| "patchParts E p want updatedPart (part # parts) s js =
     (if flushLimitsExceeded E s p then Some (s, js)
      else do {
        (partStart, partSize) \<leftarrow> partRange (g_parts E) part;
        if partStart > i_knownSize (heap s p) then Some (s, js)
        else do {
          (_, prevSize) \<leftarrow> partRange (g_parts E) (if part > 0 then part - 1 else 0);
          let known = i_knownSize (heap s p);
          let partEnd = add64 partStart partSize;
          let rangeBorder = (partSize \<noteq> prevSize);
          let appendPatch = (partEnd > known);
          let newPart = (partStart = known);
          let (partEnd, partSize) = (if newPart \<and> rangeBorder then (add64 partStart prevSize, prevSize) else (partEnd, partSize));
          if appendPatch \<and> sub64 (sizeOf s p) partStart < partSize \<and> \<not> want then Some (s, js)
          else if IsRangeLocked partStart partEnd True (i_readRanges (heap s p)) \<or> \<not> want \<and> part = updatedPart
          then patchParts E p want updatedPart parts s js
          else do {
            s \<leftarrow> buffersDo p (\<lambda>l. SplitAt (bufEnvOf E p) l partStart) s;
            s \<leftarrow> buffersDo p (\<lambda>l. SplitAt (bufEnvOf E p) l partEnd) s;
            let bs = Select (bufEnvOf E p) (bufsOf s p) partStart partEnd
                         (\<lambda>buf. fb_state buf = BUF_DIRTY \<and> (\<not> fb_zero buf \<or> want \<or> appendPatch));
            if bs \<noteq> []
            then (let (s, j) = patchPart s p partStart partSize bs in patchParts E p want updatedPart parts s (js @ [j]))
            else patchParts E p want updatedPart parts s js
          }
        }
      })"

definition patchObjectRanges :: "('t, 'd, 'c) gEnv \<Rightarrow> ('t, 'd, 'c) Goofys \<Rightarrow> ptr \<Rightarrow> (('t, 'd, 'c) Goofys \<times> patchStart list) option" where
  "patchObjectRanges E s p =
     (if smallFile E s p then
        (if flushLimitsExceeded E s p \<or> \<not> wantFlush s p then Some (s, [])
         else let (s, j) = patchSimpleObj E s p (Select (bufEnvOf E p) (bufsOf s p) 0 (sizeOf s p) (\<lambda>buf. fb_state buf = BUF_DIRTY))
              in Some (s, [j]))
      else do {
        updatedPart \<leftarrow> partNum (g_parts E) (i_lastWriteEnd (heap s p));
        patchParts E p (wantFlush s p) updatedPart (IterateDirtyParts (bufEnvOf E p) (bufsOf s p)) s []
      })"

section \<open>The smallest multipart object\<close>

fun syncFlushPartsUpTo :: "('t, 'd, 'c) gEnv \<Rightarrow> osFile \<Rightarrow> (readJob list \<Rightarrow> ('t, 'd, 'c) act) \<Rightarrow>
    (partJob \<Rightarrow> ('t, 'd, 'c) Goofys \<Rightarrow> ('t, 'd, 'c) Goofys \<times> (error + string option)) \<Rightarrow> gotime \<Rightarrow> ptr \<Rightarrow> u64 list \<Rightarrow> ('t, 'd, 'c) Goofys \<Rightarrow>
    (('t, 'd, 'c) Goofys \<times> bool) option" where
  "syncFlushPartsUpTo E os wait add now p [] s = Some (s, True)"
| "syncFlushPartsUpTo E os wait add now p (i # is) s =
     do {
       s \<leftarrow> flushPart E os wait add now s p i;
       (case i_mpu (heap s p) of
          None \<Rightarrow> Some (s, False)
        | Some mpu \<Rightarrow>
            if i \<ge> length (mpu_Parts mpu) then None
            else if mpu_Parts mpu ! i = None then Some (s, False)
            else syncFlushPartsUpTo E os wait add now p is s)
     }"

definition abortIfAny :: "('t, 'd, 'c) Goofys \<Rightarrow> ptr \<Rightarrow> ('t, 'd, 'c) Goofys" where
  "abortIfAny s p = (if i_mpu (heap s p) \<noteq> None then abortMultipart s p else s)"

text \<open>The goroutine of \<open>uploadMinMultipart\<close>: it uploads the first two parts and commits them.  When the upload of a part
  discarded the file there is no upload left, and the backend dereferences the nil request to abort.\<close>

definition uploadMinMultipart :: "('t, 'd, 'c) gEnv \<Rightarrow> osFile \<Rightarrow> (readJob list \<Rightarrow> ('t, 'd, 'c) act) \<Rightarrow>
    (beginJob \<Rightarrow> ('t, 'd, 'c) Goofys \<Rightarrow> ('t, 'd, 'c) Goofys \<times> (error + mpuState)) \<Rightarrow>
    (partJob \<Rightarrow> ('t, 'd, 'c) Goofys \<Rightarrow> ('t, 'd, 'c) Goofys \<times> (error + string option)) \<Rightarrow>
    (commitJob \<Rightarrow> ('t, 'd, 'c) Goofys \<Rightarrow> ('t, 'd, 'c) Goofys \<times> (error + putOutput)) \<Rightarrow> gotime \<Rightarrow> ('t, 'd, 'c) Goofys \<Rightarrow> ptr \<Rightarrow> nat option \<Rightarrow> string \<Rightarrow>
    ('t, 'd, 'c) Goofys option" where
  "uploadMinMultipart E os wait beg add commit now s p c key =
     (let s = beginMultipartUpload E beg now s p c key; fin = endFlush (f_MaxParallelParts (g_flags E)) p in
      if i_mpu (heap s p) = None then Some (fin s)
      else do {
        (s, ok) \<leftarrow> syncFlushPartsUpTo E os wait add now p [0, 1] s;
        if \<not> ok then (if i_mpu (heap s p) = None then None else Some (fin (abortMultipart s p)))
        else do {
          (partOffset, partSize) \<leftarrow> partRange (g_parts E) 1;
          s \<leftarrow> commitMultipartUpload E commit now s p 2 (add64 partOffset (cutPart s p partOffset partSize));
          Some (fin (abortIfAny s p))
        }
      })"

section \<open>Renaming and metadata\<close>

record renameJob =
  rn_cloud :: "nat option"
  rn_key :: string
  rn_from :: string
  rn_oldParent :: ptr
  rn_oldName :: string
  rn_newParent :: "ptr option"
  rn_newName :: string

definition sendRename :: "('t, 'd, 'c) gEnv \<Rightarrow> ('t, 'd, 'c) Goofys \<Rightarrow> ptr \<Rightarrow> (('t, 'd, 'c) Goofys \<times> renameJob) option" where
  "sendRename E s p =
     (case i_oldParent (heap s p) of
        None \<Rightarrow> None
      | Some oldParent \<Rightarrow>
          let (c, key) = cloud E s p; slash = (if isDir s p then ''/'' else []); i = heap s p;
              s = startFlush (f_MaxParallelParts (g_flags E)) p s
          in Some (upd p (\<lambda>i. i\<lparr>i_renamingTo := True\<rparr>) s,
               \<lparr>rn_cloud = c, rn_key = key @ slash, rn_from = appendChildName (snd (cloud E s oldParent)) (i_oldName i) @ slash,
                rn_oldParent = oldParent, rn_oldName = i_oldName i, rn_newParent = i_Parent i, rn_newName = i_Name i\<rparr>))"

text \<open>Clean again, unless something is still to be written.\<close>

definition settle :: "('t, 'd, 'c) gEnv \<Rightarrow> gotime \<Rightarrow> ('t, 'd, 'c) Goofys \<Rightarrow> ptr \<Rightarrow> ('t, 'd, 'c) Goofys" where
  "settle E now s p =
     (if uploading (i_CacheState (heap s p)) \<and> \<not> isStillDirty s p
      then SetAttrTime E (SetCacheState E s p ST_CACHED) p now else s)"

text \<open>The copy found no object: the local file is dropped and leaves its directory.\<close>

definition rename_conflict :: "('t, 'd, 'c) gEnv \<Rightarrow> ('t, 'd, 'c) Goofys \<Rightarrow> ptr \<Rightarrow> ('t, 'd, 'c) Goofys option" where
  "rename_conflict E s p =
     do {
       let newParent = i_Parent (heap s p);
       let oldParent = i_oldParent (heap s p);
       let oldName = i_oldName (heap s p);
       s \<leftarrow> resetCache E (upd p (\<lambda>i. i\<lparr>i_oldParent := None, i_oldName := [], i_renamingTo := False\<rparr>) s) p;
       newParent \<leftarrow> newParent;
       s \<leftarrow> removeChild E s newParent p;
       Some (case oldParent of
          None \<Rightarrow> s
        | Some op \<Rightarrow>
            if d_DeletedChildren (dirOf s op) oldName \<noteq> None then addModified (delDeleted op oldName s) (Some op) (- 1) else s)
     }"

definition rename_failed :: "('t, 'd, 'c) gEnv \<Rightarrow> gotime \<Rightarrow> ('t, 'd, 'c) Goofys \<Rightarrow> ptr \<Rightarrow> renameJob \<Rightarrow> error \<Rightarrow> ('t, 'd, 'c) Goofys" where
  "rename_failed E now s p job err =
     (let s = recordFlushError now s p (Some err) in
      if i_Parent (heap s p) = Some (rn_oldParent job) \<and> i_Name (heap s p) = rn_oldName job then
        (let s = upd p (\<lambda>i. i\<lparr>i_oldParent := None, i_oldName := [], i_renamingTo := False\<rparr>) s;
             s = addModified s (i_Parent (heap s p)) (- 1)
         in settle E now s p)
      else s)"

text \<open>The copy is there: the key, the parent and the name of the object to delete.\<close>

definition rename_copied :: "('t, 'd, 'c) gEnv \<Rightarrow> gotime \<Rightarrow> ('t, 'd, 'c) Goofys \<Rightarrow> ptr \<Rightarrow> renameJob \<Rightarrow> ('t, 'd, 'c) Goofys \<times> string \<times> ptr option \<times> string" where
  "rename_copied E now s p job =
     (let here = (i_Parent (heap s p), i_Name (heap s p));
          (s, del) =
            (if here = (rn_newParent job, rn_newName job)
             then (upd p (\<lambda>i. i\<lparr>i_oldParent := None, i_oldName := []\<rparr>) s, rn_from job, Some (rn_oldParent job), rn_oldName job)
             else if here = (Some (rn_oldParent job), rn_oldName job)
             then (upd p (\<lambda>i. i\<lparr>i_oldParent := None, i_oldName := []\<rparr>) s, rn_key job, rn_newParent job, rn_newName job)
             else (upd p (\<lambda>i. i\<lparr>i_oldParent := rn_newParent job, i_oldName := rn_newName job\<rparr>) s,
                   rn_from job, Some (rn_oldParent job), rn_oldName job))
      in (upd p (\<lambda>i. i\<lparr>i_renamingTo := False\<rparr>) (settle E now s p), del))"

text \<open>After the deletion of the old object.  A failed one leaves a deleted inode that retries it.\<close>

definition rename_deleted :: "('t, 'd, 'c) gEnv \<Rightarrow> gotime \<Rightarrow> ('t, 'd, 'c) Goofys \<Rightarrow> ptr \<Rightarrow> string \<Rightarrow> error option \<Rightarrow> ('t, 'd, 'c) Goofys" where
  "rename_deleted E now s delParent delName err =
     (if err \<noteq> None then
        (let (tomb, s) = NewInode E now s (Some delParent) delName;
             (i, s) = allocateInodeId s;
             s = upd tomb (\<lambda>t. t\<lparr>i_Id := i, i_userMetadata := Some []\<rparr>) (s\<lparr>inodes := (inodes s)(i \<mapsto> tomb)\<rparr>);
             s = SetCacheState E s tomb ST_DELETED;
             s = recordFlushError now s tomb err
         in addDeleted delParent delName tomb s)
      else addModified (delDeleted delParent delName s) (Some delParent) (- 1))"

text \<open>The goroutine: \<open>copy\<close> and \<open>delete\<close> are the requests and what else happens during them.\<close>

definition rename_run :: "('t, 'd, 'c) gEnv \<Rightarrow> (string \<Rightarrow> string \<Rightarrow> ('t, 'd, 'c) Goofys \<Rightarrow> ('t, 'd, 'c) Goofys \<times> error option) \<Rightarrow>
    (string \<Rightarrow> ('t, 'd, 'c) Goofys \<Rightarrow> ('t, 'd, 'c) Goofys \<times> error option) \<Rightarrow> gotime \<Rightarrow> ('t, 'd, 'c) Goofys \<Rightarrow> ptr \<Rightarrow> renameJob \<Rightarrow> ('t, 'd, 'c) Goofys option" where
  "rename_run E copy delete now s p job =
     do {
       s \<leftarrow> (if isDir s p \<and> f_NoDirObject (g_flags E) then Some s
             else do {
               let (s, err) = copy (rn_from job) (rn_key job) (inflightAdd (rn_key job) s);
               let s = inflightEnd (rn_key job) s;
               let ignore = (mapAwsError err = Some (Errno ENOENT) \<and> isDir s p);
               let err = (if ignore then None else err);
               (case err of
                  Some e \<Rightarrow> if conflict err then rename_conflict E s p else Some (rename_failed E now s p job e)
                | None \<Rightarrow> do {
                    let (s, delKey, delParent, delName) = rename_copied E now s p job;
                    let (s, err) = (if ignore then (s, None)
                                    else let (s, err) = delete delKey (inflightAdd delKey s) in (inflightEnd delKey s, err));
                    delParent \<leftarrow> delParent;
                    Some (rename_deleted E now s delParent delName err)
                  })
             });
       Some (endFlush (f_MaxParallelParts (g_flags E)) p s)
     }"

record metaJob =
  mj_cloud :: "nat option"
  mj_key :: string
  mj_size :: u64
  mj_etag :: string
  mj_metadata :: "metadata option"

definition sendUpdateMeta :: "('t, 'd, 'c) gEnv \<Rightarrow> ('t, 'd, 'c) Goofys \<Rightarrow> ptr \<Rightarrow> ('t, 'd, 'c) Goofys \<times> metaJob" where
  "sendUpdateMeta E s p =
     (let (c, key) = cloud E s p; key = (if isDir s p then key @ ''/'' else key); i = heap s p in
      (startFlush (f_MaxParallelParts (g_flags E)) p (upd p (\<lambda>i. i\<lparr>i_userMetadataDirty := 0\<rparr>) s),
       \<lparr>mj_cloud = c, mj_key = key, mj_size = i_knownSize i, mj_etag = i_knownETag i, mj_metadata = escapeMetadata E (i_userMetadata i)\<rparr>))"

definition updateMeta_done :: "('t, 'd, 'c) gEnv \<Rightarrow> gotime \<Rightarrow> ('t, 'd, 'c) Goofys \<Rightarrow> ptr \<Rightarrow> metaJob \<Rightarrow> error option \<Rightarrow> ('t, 'd, 'c) Goofys option" where
  "updateMeta_done E now s p job err =
     do {
       let s = recordFlushError now (inflightEnd (mj_key job) s) p err;
       s \<leftarrow> (if err \<noteq> None then
               (let s = upd p (\<lambda>i. i\<lparr>i_userMetadataDirty := 2\<rparr>) s in if conflict err then resetCache E s p else Some s)
             else if i_CacheState (heap s p) = ST_MODIFIED \<and> \<not> isStillDirty s p
             then Some (SetAttrTime E (SetCacheState E s p ST_CACHED) p now)
             else Some s);
       Some (endFlush (f_MaxParallelParts (g_flags E)) p s)
     }"

section \<open>Choosing what to do\<close>

text \<open>The goroutines that were started.\<close>

datatype flushJob =
    DeleteJob deleteJob
  | MkDirJob putDirJob
  | RenameJob renameJob
  | MetaJob metaJob
  | PatchJob patchStart
  | SmallJob
  | MinMultipartJob "nat option" string
  | StartMultipartJob "nat option" string
  | PartJob u64 u64 u64 nat
  | CompleteJob

definition uploadedAsMultipart :: "('t, 'd, 'c) Goofys \<Rightarrow> ptr \<Rightarrow> bool" where
  "uploadedAsMultipart s p \<longleftrightarrow> CHR ''-'' \<in> set (i_knownETag (heap s p))"

definition canPatch :: "('t, 'd, 'c) gEnv \<Rightarrow> ('t, 'd, 'c) Goofys \<Rightarrow> ptr \<Rightarrow> bool" where
  "canPatch E s p \<longleftrightarrow>
     f_UsePatch (g_flags E) \<and> i_CacheState (heap s p) = ST_MODIFIED \<and> i_mpu (heap s p) = None \<and>
     (uploadedAsMultipart s p \<or> i_knownETag (heap s p) = [] \<or> smallFile E s p) \<and>
     i_knownSize (heap s p) > 0 \<and> i_knownSize (heap s p) \<le> sizeOf s p"

definition sendUpload :: "('t, 'd, 'c) gEnv \<Rightarrow> ('t, 'd, 'c) Goofys \<Rightarrow> ptr \<Rightarrow> nat \<Rightarrow> (('t, 'd, 'c) Goofys \<times> flushJob list) option" where
  "sendUpload E s p priority =
     (let i = heap s p; all = f_MaxParallelParts (g_flags E) in
      if i_oldParent i \<noteq> None \<and> i_IsFlushing i = 0 \<and> i_mpu i = None
      then map_option (\<lambda>(s, j). (s, [RenameJob j])) (sendRename E s p)
      else if i_CacheState i = ST_MODIFIED \<and> i_userMetadataDirty i \<noteq> 0 \<and> i_oldParent i = None \<and> i_IsFlushing i = 0 \<and>
              \<not> AnyUnclean (i_buffers i)
      then (let (s, j) = sendUpdateMeta E s p in Some (s, [MetaJob j]))
      else if i_IsFlushing i \<ge> all then Some (s, [])
      else if canPatch E s p then map_option (\<lambda>(s, js). (s, map PatchJob js)) (patchObjectRanges E s p)
      else if smallFile E s p \<and> i_mpu i = None then
        (if i_IsFlushing i = 0 \<and> wantFlush s p then Some (startFlush all p s, [SmallJob]) else Some (s, []))
      else if i_mpu i = None then
        (if i_IsFlushing i > 0 then Some (s, [])
         else let (s, c, key) = sendStartMultipart E s p
              in Some (s, [if f_UsePatch (g_flags E) \<and> f_PreferPatchUploads (g_flags E) then MinMultipartJob c key else StartMultipartJob c key]))
      else do {
        (s, ch) \<leftarrow> sendUploadParts E s p priority;
        if pc_initiated ch then Some (s, map (\<lambda>(a, b, c, d). PartJob a b c d) (pc_jobs ch))
        else if pc_shouldComplete ch \<and> \<not> IsRangeLocked 0 (sizeOf s p) True (i_readRanges (heap s p)) \<and> wantFlush s p
        then Some (startFlush all p s, [CompleteJob])
        else Some (s, [])
      })"

text \<open>\<open>overDeleted\<close> was read under the lock of the parent before the lock of the inode was taken.\<close>

definition TryFlush_section :: "('t, 'd, 'c) gEnv \<Rightarrow> gotime \<Rightarrow> ('t, 'd, 'c) Goofys \<Rightarrow> ptr \<Rightarrow> ptr option \<Rightarrow> bool \<Rightarrow> nat \<Rightarrow>
    (('t, 'd, 'c) Goofys \<times> flushJob list) option" where
  "TryFlush_section E now s p parent overDeleted priority =
     (let i = heap s p in
      if i_Parent i \<noteq> parent then Some (s, [])
      else if i_flushError i \<noteq> None \<and> now - i_flushErrorTime i < f_RetryInterval (g_flags E) then Some (ScheduleRetryFlush s, [])
      else if i_CacheState i = ST_DELETED then
        (if i_IsFlushing i = 0 \<and> (\<not> isDir s p \<or> d_ModifiedChildren (dirOf s p) = 0)
         then map_option (\<lambda>(s, j). (s, [DeleteJob j])) (SendDelete E s p) else Some (s, []))
      else if uploading (i_CacheState i) \<and> isDir s p then
        (if i_IsFlushing i = 0 \<and> \<not> overDeleted then map_option (\<lambda>(s, j). (s, [MkDirJob j])) (SendMkDir E s p) else Some (s, []))
      else if uploading (i_CacheState i) then (if overDeleted then Some (s, []) else sendUpload E s p priority)
      else Some (s, []))"

definition TryFlush :: "('t, 'd, 'c) gEnv \<Rightarrow> gotime \<Rightarrow> ('t, 'd, 'c) act \<Rightarrow> ('t, 'd, 'c) Goofys \<Rightarrow> ptr \<Rightarrow> nat \<Rightarrow>
    (('t, 'd, 'c) Goofys \<times> flushJob list) option" where
  "TryFlush E now other s p priority =
     (let parent = i_Parent (heap s p);
          overDeleted = (case parent of None \<Rightarrow> False | Some q \<Rightarrow> d_DeletedChildren (dirOf s q) (i_Name (heap s p)) \<noteq> None)
      in TryFlush_section E now (other s) p parent overDeleted priority)"

definition MAX_FLUSH_PRIORITY :: nat where
  "MAX_FLUSH_PRIORITY = 3"

text \<open>\<open>wait jobs\<close> runs the goroutines that were started and everything else until the next round.\<close>

partial_function (option) SyncFile :: "('t, 'd, 'c) gEnv \<Rightarrow> gotime \<Rightarrow> (flushJob list \<Rightarrow> ('t, 'd, 'c) act) \<Rightarrow> ptr \<Rightarrow> ('t, 'd, 'c) Goofys \<Rightarrow>
    (('t, 'd, 'c) Goofys \<times> error option) option" where
  "SyncFile E now wait p s =
     (let s = upd p (\<lambda>i. i\<lparr>i_forceFlush := False\<rparr>) s in
      if i_CacheState (heap s p) \<le> ST_DEAD then Some (s, None)
      else if i_flushError (heap s p) \<noteq> None then Some (s, i_flushError (heap s p))
      else do {
        (s, jobs) \<leftarrow> TryFlush E now id (upd p (\<lambda>i. i\<lparr>i_forceFlush := True\<rparr>) s) p MAX_FLUSH_PRIORITY;
        SyncFile E now wait p (wait jobs s)
      })"

section \<open>The flusher\<close>

record flusherState =
  fl_nextQueueID :: nat
  fl_priority :: nat

text \<open>The inner loop of \<open>Flusher\<close>; the jobs that were started are collected with their inodes.\<close>

partial_function (option) flusherLoop :: "('t, 'd, 'c) gEnv \<Rightarrow> gotime \<Rightarrow> ('t, 'd, 'c) act \<Rightarrow> int \<Rightarrow> bool \<Rightarrow> flusherState \<Rightarrow> ('t, 'd, 'c) Goofys \<Rightarrow>
    (ptr \<times> flushJob) list \<Rightarrow> (flusherState \<times> ('t, 'd, 'c) Goofys \<times> (ptr \<times> flushJob) list) option" where
  "flusherLoop E now other attempts curPriorityOk f s jobs =
     (if attempts > 0 \<and> activeFlushers s < f_MaxFlushers (g_flags E) then
        (let (inodeID, nextQueueID) = InodeQueue_Next (g_D E) (inodeQueue s) (fl_nextQueueID f);
             f = f\<lparr>fl_nextQueueID := nextQueueID\<rparr>
         in if inodeID = 0 then
              (if curPriorityOk then Some (f, s, jobs)
               else if Suc (fl_priority f) > MAX_FLUSH_PRIORITY
               then flusherLoop E now other (attempts - 1) curPriorityOk (f\<lparr>fl_priority := 1\<rparr>) (other s) jobs
               else flusherLoop E now other attempts curPriorityOk (f\<lparr>fl_priority := Suc (fl_priority f)\<rparr>) (other s) jobs)
            else if hasNewWrites s then
              (let s = s\<lparr>hasNewWrites := False\<rparr>
               in flusherLoop E now other 1 (flushPriorities s ! 1 > 0) \<lparr>fl_nextQueueID = 0, fl_priority = 1\<rparr> (other s) jobs)
            else
              (case inodes s inodeID of
                 None \<Rightarrow> flusherLoop E now other attempts curPriorityOk f (other s) jobs
               | Some inode \<Rightarrow> do {
                   (s, js) \<leftarrow> TryFlush E now other s inode (fl_priority f);
                   flusherLoop E now other attempts (curPriorityOk \<or> js \<noteq> []) f (other s) (jobs @ map (Pair inode) js)
                 }))
      else Some (f, s, jobs))"

text \<open>One round of \<open>Flusher\<close> after it was woken up.  The loop over the priorities reads the entry of the current one every time.\<close>

definition Flusher_round :: "('t, 'd, 'c) gEnv \<Rightarrow> gotime \<Rightarrow> ('t, 'd, 'c) act \<Rightarrow> flusherState \<Rightarrow> ('t, 'd, 'c) Goofys \<Rightarrow>
    (flusherState \<times> ('t, 'd, 'c) Goofys \<times> (ptr \<times> flushJob) list) option" where
  "Flusher_round E now other f s =
     (let s = s\<lparr>flushPending := False\<rparr>;
          attempts = (if fl_priority f > 1 \<or> fl_priority f = 1 \<and> fl_nextQueueID f \<noteq> 0 then 2 else 1);
          curPriorityOk = (\<exists>i \<in> set [1..<Suc (fl_priority f)]. flushPriorities s ! fl_priority f > 0)
      in flusherLoop E now other attempts curPriorityOk f s [])"

end
