(* ===== verification/Buffer_Pos.thy ===== *)
theory Buffer_Pos
  imports Inode_Buffers
begin

text \<open>
  A position of a file as its readers and writers see it: absent (not cached or still loading), present with
  a state and a byte, or evicted after it was uploaded.  Without a disk cache every cell of a list is of one of
  these kinds (\<open>all_mem\<close>).  Each operation of the list is described by its effect on the positions and
  on the dirty identifiers.
\<close>

datatype pos = Absent | Evicted | Here BufferState bool byte

definition pos_of :: "cell option \<Rightarrow> pos" where
  "pos_of c = (case c of None \<Rightarrow> Absent
     | Some d \<Rightarrow> if c_state d = BUF_FL_CLEARED then Evicted
                else if readable d then Here (c_state d) (c_zero d) (cell_value c) else Absent)"

definition in_mem :: "cell \<Rightarrow> bool" where
  "in_mem c \<longleftrightarrow> \<not> c_onDisk c \<and>
     (if c_state c = BUF_FL_CLEARED then \<not> c_loading c \<and> \<not> c_zero c \<and> c_byte c = None
      else c_loading c \<and> c_state c = BUF_CLEAN \<and> \<not> c_zero c \<or> readable c)"

definition lpos :: "('t, 'd, 'h) bufEnv \<Rightarrow> ('t, 'd, 'h) BufferList \<Rightarrow> u64 \<Rightarrow> pos" where
  "lpos E l x = pos_of (cell E l x)"

definition all_mem :: "('t, 'd, 'h) bufEnv \<Rightarrow> ('t, 'd, 'h) BufferList \<Rightarrow> bool" where
  "all_mem E l \<longleftrightarrow> (\<forall>x c. cell E l x = Some c \<longrightarrow> in_mem c)"

fun dirty :: "pos \<Rightarrow> bool" where
  "dirty (Here st _ _) \<longleftrightarrow> st = BUF_DIRTY"
| "dirty _ \<longleftrightarrow> False"

fun flushed :: "pos \<Rightarrow> bool" where
  "flushed (Here st _ _) \<longleftrightarrow> st = BUF_FLUSHED_FULL \<or> st = BUF_FLUSHED_CUT"
| "flushed Evicted \<longleftrightarrow> True"
| "flushed Absent \<longleftrightarrow> False"

fun retag_pos :: "BufferState \<Rightarrow> pos \<Rightarrow> pos" where
  "retag_pos st (Here _ z v) = Here st z v"
| "retag_pos st q = q"

fun clean_pos :: "pos \<Rightarrow> pos" where
  "clean_pos (Here st z v) = (if st = BUF_FLUSHED_FULL \<or> st = BUF_FLUSHED_CUT then Here BUF_CLEAN z v else Here st z v)"
| "clean_pos _ = Absent"

fun evict_pos :: "pos \<Rightarrow> pos" where
  "evict_pos (Here st z v) = (if st = BUF_CLEAN then Absent else Evicted)"
| "evict_pos q = q"

text \<open>Loaded data does not replace what is not clean.\<close>

fun load_pos :: "byte \<Rightarrow> pos \<Rightarrow> pos" where
  "load_pos v (Here st z w) = (if st = BUF_CLEAN then Here BUF_CLEAN False v else Here st z w)"
| "load_pos v Absent = Here BUF_CLEAN False v"
| "load_pos v Evicted = Evicted"

lemma pos_simps [simp]:
  "pos_of None = Absent"
  "pos_of (Some (data_cell st v)) = (if st = BUF_FL_CLEARED then Evicted else Here st False v)"
  "pos_of (Some zero_cell) = Here BUF_DIRTY True 0"
  "pos_of (Some loading_cell) = Absent"
  "st \<noteq> BUF_FL_CLEARED \<Longrightarrow> in_mem (data_cell st v)" "in_mem zero_cell" "in_mem loading_cell"
  by (simp_all add: pos_of_def in_mem_def data_cell_def zero_cell_def loading_cell_def readable_def cell_value_def)

lemma pos_same_data: "same_data c c' \<Longrightarrow> pos_of c' = pos_of c \<and> ((\<forall>d. c = Some d \<longrightarrow> in_mem d) \<longrightarrow> (\<forall>d. c' = Some d \<longrightarrow> in_mem d))"
  by (cases c) (auto simp: same_data_def pos_of_def in_mem_def readable_def cell_value_def)

lemma load_pos_cell:
  "c_state d = BUF_CLEAN \<Longrightarrow> load_pos v (pos_of (Some d)) = Here BUF_CLEAN False v"
  "in_mem d \<Longrightarrow> c_state d \<noteq> BUF_CLEAN \<Longrightarrow> load_pos v (pos_of (Some d)) = pos_of (Some d)"
  by (auto simp: pos_of_def in_mem_def split: if_splits)

lemma added_clean:
  assumes "\<forall>d. c x = Some d \<longrightarrow> in_mem d"
  shows "pos_of (added BUF_CLEAN off data c x) =
    (if off \<le> x \<and> x < off + length data then load_pos (data ! (x - off)) (pos_of (c x)) else pos_of (c x))"
  using assms by (cases "c x") (auto simp: added_def load_pos_cell)

lemma added_dirty:
  "pos_of (added BUF_DIRTY off data c x) =
    (if off \<le> x \<and> x < off + length data then Here BUF_DIRTY False (data ! (x - off)) else pos_of (c x))"
  by (auto simp: added_def)

lemma in_mem_added:
  "\<forall>d. c x = Some d \<longrightarrow> in_mem d \<Longrightarrow> st \<noteq> BUF_FL_CLEARED \<Longrightarrow> added st off data c x = Some d \<Longrightarrow> in_mem d"
  by (auto simp: added_def split: if_splits)

context buffer_env
begin

section \<open>Dirty identifiers\<close>

lemma did_dirty:
  assumes inv: "BL_inv E M hinv cv l" and am: "all_mem E l"
  shows "did E l x \<noteq> 0 \<longleftrightarrow> dirty (lpos E l x)" "did E l x \<le> bl_curDirtyID l"
proof -
  note D = BL_invD [OF inv]
  have "(did E l x \<noteq> 0 \<longleftrightarrow> dirty (lpos E l x)) \<and> did E l x \<le> bl_curDirtyID l"
    using D(1)
  proof (rule did_cases [of l x])
    fix b assume b: "covers (bufs E l) x b" "did E l x = fb_dirtyID b"
    then obtain e where e: "bufs E l e = Some b" by (auto simp: covers_def)
    have c: "cell E l x = Some (cell_of l b x)" using cell_Some [OF D(1)] b(1) by blast
    have "in_mem (cell_of l b x)" using am c by (simp add: all_mem_def)
    then have "dirty (lpos E l x) \<longleftrightarrow> fb_state b = BUF_DIRTY"
      by (auto simp: lpos_def c pos_of_def in_mem_def cell_of_def)
    then show ?thesis using ids_okD(1,2) [OF D(4) e] b(2) by simp
  qed (simp add: lpos_def)
  then show "did E l x \<noteq> 0 \<longleftrightarrow> dirty (lpos E l x)" "did E l x \<le> bl_curDirtyID l" by auto
qed

text \<open>Where no buffer crosses a border, the positions behind it share no identifier with those before it.\<close>

lemma dirty_ids_did:
  assumes inv: "BL_inv E M hinv cv l"
  shows "dirty_ids (bufs E l) lo hi = {did E l x | x. lo \<le> x \<and> x < hi \<and> did E l x \<noteq> 0}"
proof -
  note D = BL_invD [OF inv]
  have "covers (bufs E l) x b \<Longrightarrow> did E l x = fb_dirtyID b" for x b by (rule did_covers [OF D(1)])
  moreover have "did E l x \<noteq> 0 \<Longrightarrow> \<exists>b. covers (bufs E l) x b" for x by (rule did_cases [OF D(1), of x]) auto
  ultimately show ?thesis unfolding dirty_ids_def by (intro set_eqI iffI) (clarsimp, metis)+
qed

lemma did_border:
  assumes inv: "BL_inv E M hinv cv l"
    and cut: "\<And>e b. bufs E l e = Some b \<Longrightarrow> e \<le> lo \<or> lo \<le> fb_offset b" "\<And>e b. bufs E l e = Some b \<Longrightarrow> e \<le> hi \<or> hi \<le> fb_offset b"
    and x: "lo \<le> x" "x < hi" "did E l x \<noteq> 0" and y: "did E l y = did E l x"
  shows "lo \<le> y \<and> y < hi"
proof -
  note D = BL_invD [OF inv]
  obtain b where b: "covers (bufs E l) x b" "did E l x = fb_dirtyID b" by (rule did_cases [OF D(1), of x]) (use x in auto)
  obtain c where c: "covers (bufs E l) y c" "did E l y = fb_dirtyID c" by (rule did_cases [OF D(1), of y]) (use x y in auto)
  obtain e e' where e: "bufs E l e = Some b" "fb_offset b \<le> x" "x < e" "bufs E l e' = Some c" "fb_offset c \<le> y" "y < e'"
    using b(1) c(1) by (auto simp: covers_def)
  have "e = e'" by (rule ids_okD(3) [OF D(4) e(1,4)]) (use b c x y in auto)
  then show ?thesis using e cut [OF e(1)] x by auto
qed

section \<open>Operations\<close>

lemma all_memI: "(\<And>x c. cell E l x = Some c \<Longrightarrow> in_mem c) \<Longrightarrow> all_mem E l"
  by (auto simp: all_mem_def)

lemma all_memD: "all_mem E l \<Longrightarrow> cell E l x = Some c \<Longrightarrow> in_mem c"
  by (auto simp: all_mem_def)

lemma Add_pos:
  assumes inv: "BL_inv E M hinv cv l" and am: "all_mem E l" and data: "data \<noteq> []" "off + length data \<le> M"
    and st: "st = BUF_DIRTY \<or> st = BUF_CLEAN"
  shows "\<exists>l' n. Add E l off data slack st copyData = Some (l', n) \<and> BL_inv E M hinv cv l' \<and> all_mem E l' \<and> idst E l l' \<and>
    (\<forall>x. lpos E l' x = (if off \<le> x \<and> x < off + length data
       then (if st = BUF_DIRTY then Here BUF_DIRTY False (data ! (x - off)) else load_pos (data ! (x - off)) (lpos E l x))
       else lpos E l x)) \<and> (st = BUF_DIRTY \<longrightarrow> (\<forall>x. off \<le> x \<longrightarrow> x < off + length data \<longrightarrow> bl_curDirtyID l < did E l' x))"
proof -
  have nc: "st \<noteq> BUF_FL_CLEARED" using st by auto
  from Add_cells [OF inv data nc, of slack copyData] obtain l' n where l': "Add E l off data slack st copyData = Some (l', n)"
    "BL_inv E M hinv cv l'" "\<forall>x. same_data (added st off data (cell E l) x) (cell E l' x)" "idst E l l'"
    "st \<noteq> BUF_CLEAN \<longrightarrow> (\<forall>x. off \<le> x \<longrightarrow> x < off + length data \<longrightarrow> did E l' x = 0 \<or> bl_curDirtyID l < did E l' x)" by blast
  have m: "\<forall>d. cell E l x = Some d \<longrightarrow> in_mem d" for x using am by (simp add: all_mem_def)
  have eq: "lpos E l' x = pos_of (added st off data (cell E l) x)" for x
    using pos_same_data [OF l'(3) [rule_format, of x]] by (simp add: lpos_def)
  have am': "all_mem E l'"
  proof (rule all_memI)
    fix x c assume "cell E l' x = Some c"
    moreover have "\<forall>d. added st off data (cell E l) x = Some d \<longrightarrow> in_mem d"
      using in_mem_added [where c = "cell E l", OF m nc] by blast
    ultimately show "in_mem c" using pos_same_data [OF l'(3) [rule_format, of x]] by blast
  qed
  have pos: "lpos E l' x = (if off \<le> x \<and> x < off + length data
       then (if st = BUF_DIRTY then Here BUF_DIRTY False (data ! (x - off)) else load_pos (data ! (x - off)) (lpos E l x))
       else lpos E l x)" for x
    using st added_clean [where c = "cell E l", OF m [of x]] added_dirty [of off data "cell E l" x]
    unfolding eq by (auto simp: lpos_def)
  have "bl_curDirtyID l < did E l' x" if "st = BUF_DIRTY" "off \<le> x" "x < off + length data" for x
    using l'(5) that did_dirty(1) [OF l'(2) am', of x] pos [of x] by auto
  then show ?thesis using l'(1,2,4) am' pos by blast
qed

lemma RemoveRange_pos:
  assumes inv: "BL_inv E M hinv cv l" and am: "all_mem E l" and sz: "0 < sz" "off + sz < u64_max"
  shows "\<exists>l' n. RemoveRange E l off sz (\<lambda>_. True) = Some (l', n) \<and> BL_inv E M hinv cv l' \<and> all_mem E l' \<and> idst E l l' \<and>
    (\<forall>x. lpos E l' x = (if off \<le> x \<and> x < off + sz then Absent else lpos E l x))"
proof -
  from RemoveRange_cells [where filt = "\<lambda>_. True" and F = "\<lambda>_. True", OF inv sz] obtain l' n where l':
    "RemoveRange E l off sz (\<lambda>_. True) = Some (l', n)" "BL_inv E M hinv cv l'"
    "cell E l' = removed (\<lambda>_. True) off (off + sz) (cell E l)" "idst E l l'" by auto
  have "all_mem E l'" using am by (auto simp: all_mem_def l'(3) removed_def split: option.splits if_splits)
  moreover have "\<forall>x. lpos E l' x = (if off \<le> x \<and> x < off + sz then Absent else lpos E l x)"
    by (auto simp: lpos_def l'(3) removed_def split: option.split)
  ultimately show ?thesis using l'(1,2,4) by blast
qed

lemma RemoveLoading_pos:
  assumes inv: "BL_inv E M hinv cv l" and am: "all_mem E l" and sz: "0 < sz" "off + sz < u64_max"
  shows "\<exists>l'. RemoveLoading E l off sz = Some l' \<and> BL_inv E M hinv cv l' \<and> all_mem E l' \<and> idst E l l' \<and>
    (\<forall>x. lpos E l' x = lpos E l x)"
proof -
  have F: "(\<not> fb_onDisk b \<and> fb_loading b) \<longleftrightarrow> (\<lambda>c. \<not> c_onDisk c \<and> c_loading c) (cell_of l b x)"
    for l :: "('t, 'd, 'h) BufferList" and b x by (simp add: cell_of_def)
  from RemoveRange_cells [where filt = "\<lambda>b. \<not> fb_onDisk b \<and> fb_loading b" and F = "\<lambda>c. \<not> c_onDisk c \<and> c_loading c", OF inv sz F]
  obtain l' n where l': "RemoveRange E l off sz (\<lambda>b. \<not> fb_onDisk b \<and> fb_loading b) = Some (l', n)" "BL_inv E M hinv cv l'"
    "cell E l' = removed (\<lambda>c. \<not> c_onDisk c \<and> c_loading c) off (off + sz) (cell E l)" "idst E l l'" by auto
  have "all_mem E l'" using am by (auto simp: all_mem_def l'(3) removed_def split: option.splits if_splits)
  moreover have "lpos E l' x = lpos E l x" for x
    using am by (cases "cell E l x") (auto simp: lpos_def l'(3) removed_def pos_of_def all_mem_def in_mem_def readable_def)
  ultimately show ?thesis using l'(1,2,4) by (auto simp: RemoveLoading_def)
qed

lemma ZeroRange_any:
  assumes inv: "BL_inv E M hinv cv l" and am: "all_mem E l" and sz: "0 < sz" "off + sz \<le> M"
  shows "\<exists>l' z n. ZeroRange E l off sz = Some (l', z, n) \<and> BL_inv E M hinv cv l' \<and> all_mem E l' \<and> idst E l l' \<and>
    (if z then (\<forall>x. lpos E l' x = (if off \<le> x \<and> x < off + sz then Here BUF_DIRTY True 0 else lpos E l x)) \<and>
       (\<forall>x. off \<le> x \<longrightarrow> x < off + sz \<longrightarrow> bl_curDirtyID l < did E l' x)
     else l' = l \<and> (\<forall>x. off \<le> x \<longrightarrow> x < off + sz \<longrightarrow> (\<exists>st. lpos E l x = Here st True 0)))"
proof -
  from ZeroRange_cells [OF inv sz] obtain l' z n where l': "ZeroRange E l off sz = Some (l', z, n)" "BL_inv E M hinv cv l'" "idst E l l'"
    "if z then cell E l' = (\<lambda>x. if off \<le> x \<and> x < off + sz then Some zero_cell else cell E l x) \<and>
       (\<forall>x. off \<le> x \<longrightarrow> x < off + sz \<longrightarrow> did E l' x = 0 \<or> bl_curDirtyID l < did E l' x)
     else l' = l \<and> (\<forall>x. off \<le> x \<longrightarrow> x < off + sz \<longrightarrow> (\<exists>c. cell E l x = Some c \<and> c_zero c))" by blast
  show ?thesis
  proof (cases z)
    case False
    have "\<exists>st. lpos E l x = Here st True 0" if x: "off \<le> x" "x < off + sz" for x
    proof -
      obtain c where c: "cell E l x = Some c" "c_zero c" using l'(4) False x by auto
      then have "in_mem c" using am by (simp add: all_mem_def)
      then show ?thesis using c by (auto simp: in_mem_def lpos_def pos_of_def readable_def cell_value_def split: if_splits)
    qed
    then show ?thesis using l' False am by auto
  next
    case True
    then have ce: "cell E l' = (\<lambda>x. if off \<le> x \<and> x < off + sz then Some zero_cell else cell E l x)" using l'(4) by simp
    have am': "all_mem E l'" using am by (auto simp: all_mem_def ce split: if_splits)
    have pos: "\<forall>x. lpos E l' x = (if off \<le> x \<and> x < off + sz then Here BUF_DIRTY True 0 else lpos E l x)"
      by (simp add: lpos_def ce)
    have "bl_curDirtyID l < did E l' x" if "off \<le> x" "x < off + sz" for x
      using l'(4) True that did_dirty(1) [OF l'(2) am', of x] pos by auto
    then show ?thesis using l'(1-3) True am' pos by auto
  qed
qed

lemma ZeroRange_pos:
  assumes inv: "BL_inv E M hinv cv l" and am: "all_mem E l" and sz: "0 < sz" "off + sz \<le> M"
    and nz: "\<And>x st v. off \<le> x \<Longrightarrow> lpos E l x \<noteq> Here st True v"
  shows "\<exists>l' n. ZeroRange E l off sz = Some (l', True, n) \<and> BL_inv E M hinv cv l' \<and> all_mem E l' \<and> idst E l l' \<and>
    (\<forall>x. lpos E l' x = (if off \<le> x \<and> x < off + sz then Here BUF_DIRTY True 0 else lpos E l x)) \<and>
    (\<forall>x. off \<le> x \<longrightarrow> x < off + sz \<longrightarrow> bl_curDirtyID l < did E l' x)"
proof -
  from ZeroRange_any [OF inv am sz] obtain l' z n where l': "ZeroRange E l off sz = Some (l', z, n)" "BL_inv E M hinv cv l'" "all_mem E l'" "idst E l l'"
    "if z then (\<forall>x. lpos E l' x = (if off \<le> x \<and> x < off + sz then Here BUF_DIRTY True 0 else lpos E l x)) \<and>
       (\<forall>x. off \<le> x \<longrightarrow> x < off + sz \<longrightarrow> bl_curDirtyID l < did E l' x)
     else l' = l \<and> (\<forall>x. off \<le> x \<longrightarrow> x < off + sz \<longrightarrow> (\<exists>st. lpos E l x = Here st True 0))" by blast
  have z
  proof (rule ccontr)
    assume "\<not> z"
    then have "\<exists>st. lpos E l off = Here st True 0" using l'(5) sz(1) by simp
    then show False using nz [of off] by auto
  qed
  then show ?thesis using l' by auto
qed

lemma AddLoading_pos:
  assumes inv: "BL_inv E M hinv cv l" and am: "all_mem E l" and sz: "off + sz \<le> M"
  shows "\<exists>l'. AddLoading E l off sz = Some l' \<and> BL_inv E M hinv cv l' \<and> all_mem E l' \<and> idst E l l' \<and> (\<forall>x. lpos E l' x = lpos E l x)"
proof -
  from AddLoading_cells [OF inv sz] obtain l' where l': "AddLoading E l off sz = Some l'" "BL_inv E M hinv cv l'" "idst E l l'"
    "cell E l' = (\<lambda>x. if off \<le> x \<and> x < off + sz \<and> cell E l x = None then Some loading_cell else cell E l x)" by blast
  have "all_mem E l'" using am by (auto simp: all_mem_def l'(4) split: if_splits)
  moreover have "\<forall>x. lpos E l' x = lpos E l x" by (auto simp: lpos_def l'(4))
  ultimately show ?thesis using l'(1-3) by blast
qed

lemma SplitAt_pos:
  assumes inv: "BL_inv E M hinv cv l" and am: "all_mem E l" and off: "off < u64_max - 1"
  shows "\<exists>l'. SplitAt E l off = Some l' \<and> BL_inv E M hinv cv l' \<and> all_mem E l' \<and> idst E l l' \<and> (\<forall>x. lpos E l' x = lpos E l x) \<and>
    (\<forall>e b. bufs E l' e = Some b \<longrightarrow> e \<le> off \<or> off \<le> fb_offset b) \<and>
    (\<forall>c. (\<forall>e b. bufs E l e = Some b \<longrightarrow> e \<le> c \<or> c \<le> fb_offset b) \<longrightarrow> (\<forall>e b. bufs E l' e = Some b \<longrightarrow> e \<le> c \<or> c \<le> fb_offset b))"
proof -
  from SplitAt_inv [OF inv off] obtain l' where l': "SplitAt E l off = Some l'" "BL_inv E M hinv cv l'" "\<forall>x. cell E l' x = cell E l x"
    "\<forall>e b. bufs E l' e = Some b \<longrightarrow> e \<le> off \<or> off \<le> fb_offset b" "idst E l l'"
    "\<forall>c. (\<forall>e b. bufs E l e = Some b \<longrightarrow> e \<le> c \<or> c \<le> fb_offset b) \<longrightarrow> (\<forall>e b. bufs E l' e = Some b \<longrightarrow> e \<le> c \<or> c \<le> fb_offset b)" by blast
  then show ?thesis using am by (simp add: all_mem_def lpos_def)
qed

text \<open>Buffers that keep their place: the positions and identifiers follow the buffers.\<close>

lemma same_place:
  assumes inv: "BL_inv E M hinv cv l" "BL_inv E M hinv cv l'" and ar: "arrays l' = arrays l"
    and rel: "\<forall>e. bufs E l e = None \<longrightarrow> bufs E l' e = None"
      "\<forall>e b. bufs E l e = Some b \<longrightarrow> (bufs E l' e = None \<and> del b) \<or> (\<exists>q. bufs E l' e = Some ((f b)\<lparr>fb_queueId := q\<rparr>) \<and> \<not> del b)"
    and f: "\<forall>b. fb_offset (f b) = fb_offset b"
  shows "find_buf E l x = None \<Longrightarrow> find_buf E l' x = None"
    "find_buf E l x = Some b \<Longrightarrow> (find_buf E l' x = None \<and> del b) \<or> (\<exists>q. find_buf E l' x = Some ((f b)\<lparr>fb_queueId := q\<rparr>) \<and> \<not> del b)"
proof -
  note sh = BL_invD(1) [OF inv(1)] BL_invD(1) [OF inv(2)]
  have bk: "\<exists>b. bufs E l e = Some b \<and> \<not> del b \<and> (\<exists>q. c = (f b)\<lparr>fb_queueId := q\<rparr>)" if "bufs E l' e = Some c" for e c
    using rel(1) [rule_format, of e] rel(2) [rule_format, of e] that by (cases "bufs E l e") auto
  have cv: "covers (bufs E l') x c \<Longrightarrow> \<exists>b. covers (bufs E l) x b \<and> \<not> del b \<and> (\<exists>q. c = (f b)\<lparr>fb_queueId := q\<rparr>)" for c
    unfolding covers_def using bk f by fastforce
  show "find_buf E l' x = None" if "find_buf E l x = None"
  proof (rule ccontr)
    assume "find_buf E l' x \<noteq> None"
    then obtain c where "find_buf E l' x = Some c" by blast
    then show False using cv [of c] find_buf_iff [OF sh(2), of x c] find_buf_iff [OF sh(1), of x] that by auto
  qed
  assume b: "find_buf E l x = Some b"
  then have co: "covers (bufs E l) x b" using find_buf_iff [OF sh(1)] by blast
  then obtain e where e: "bufs E l e = Some b" "fb_offset b \<le> x" "x < e" by (auto simp: covers_def)
  show "(find_buf E l' x = None \<and> del b) \<or> (\<exists>q. find_buf E l' x = Some ((f b)\<lparr>fb_queueId := q\<rparr>) \<and> \<not> del b)"
  proof (cases "del b")
    case True
    have "find_buf E l' x \<noteq> Some c" for c
    proof
      assume "find_buf E l' x = Some c"
      then obtain b' where "covers (bufs E l) x b'" "\<not> del b'" using cv [of c] find_buf_iff [OF sh(2), of x c] by blast
      then show False using covers_unique [OF sh(1) co] True by blast
    qed
    then show ?thesis using True by (metis not_None_eq)
  next
    case False
    then obtain q where q: "bufs E l' e = Some ((f b)\<lparr>fb_queueId := q\<rparr>)" using rel(2) e(1) by blast
    then have "covers (bufs E l') x ((f b)\<lparr>fb_queueId := q\<rparr>)" using e f by (auto simp: covers_def)
    then show ?thesis using find_buf_iff [OF sh(2)] False by blast
  qed
qed

lemma SetState_pos:
  assumes inv: "BL_inv E M hinv cv l" and am: "all_mem E l" and sz: "off + sz < u64_max"
    and st: "st = BUF_CLEAN \<or> st = BUF_FLUSHED_FULL \<or> st = BUF_FLUSHED_CUT"
    and ids: "\<And>x. did E l x \<in> ids \<Longrightarrow> did E l x \<noteq> 0 \<Longrightarrow> off \<le> x \<and> x < off + sz"
  shows "\<exists>l'. SetState E l off sz ids st = Some l' \<and> BL_inv E M hinv cv l' \<and> all_mem E l' \<and> bl_curDirtyID l' = bl_curDirtyID l \<and>
    (\<forall>x. lpos E l' x = (if did E l x \<noteq> 0 \<and> did E l x \<in> ids then retag_pos st (lpos E l x) else lpos E l x)) \<and>
    (\<forall>x. did E l' x = (if did E l x \<in> ids then 0 else did E l x))"
proof -
  note D = BL_invD [OF inv]
  have stn: "st \<noteq> BUF_DIRTY" "st \<noteq> BUF_FL_CLEARED" using st by auto
  have off1: "add64 off 1 \<le> Suc off" using mod_less_eq_dividend [of "off + 1" u64_max] by (simp add: add64_def)
  obtain l' where l': "SetState E l off sz ids st = Some l'" "BL_inv E M hinv cv l'" "frame l l'"
    "\<forall>e. bufs E l e = None \<longrightarrow> bufs E l' e = None"
    "\<forall>e b. bufs E l e = Some b \<longrightarrow>
         (bufs E l' e = Some b \<or> fb_dirtyID b \<in> ids \<and> fb_dirtyID b \<noteq> 0 \<and> retagged st b (bufs E l' e)) \<and>
         (add64 off 1 \<le> e \<longrightarrow> fb_offset b \<le> sub64 (add64 off sz) 1 \<longrightarrow> fb_dirtyID b \<noteq> 0 \<longrightarrow> fb_dirtyID b \<in> ids \<longrightarrow> retagged st b (bufs E l' e))"
    using SetState_loop_inv [OF stn refl inv refl, of off sz ids "add64 off 1"] unfolding SetState_def by blast
  note fr = frame_eqs [OF l'(3)]
  define f where "f b = (if fb_dirtyID b \<noteq> 0 \<and> fb_dirtyID b \<in> ids then b\<lparr>fb_dirtyID := 0, fb_state := st\<rparr> else b)" for b :: FileBuffer
  have fo: "\<forall>b. fb_offset (f b) = fb_offset b" by (simp add: f_def)
  have rel: "(bufs E l' e = None \<and> False) \<or> (\<exists>q. bufs E l' e = Some ((f b)\<lparr>fb_queueId := q\<rparr>) \<and> \<not> False)" if b: "bufs E l e = Some b" for e b
  proof (cases "fb_dirtyID b \<noteq> 0 \<and> fb_dirtyID b \<in> ids")
    case True
    have dd: "did E l x = fb_dirtyID b" if "fb_offset b \<le> x" "x < e" for x
      by (rule did_covers [OF D(1)]) (use b that in \<open>auto simp: covers_def\<close>)
    have oe: "fb_offset b < e" by (rule inv_shape(4) [OF inv b])
    have x0: "off \<le> fb_offset b" "fb_offset b < off + sz" using ids [of "fb_offset b"] dd [of "fb_offset b"] oe True by auto
    have "add64 off 1 \<le> e" using off1 x0 oe by linarith
    moreover have "fb_offset b \<le> sub64 (add64 off sz) 1" using x0 sz by (simp add: u64_simps)
    ultimately have "retagged st b (bufs E l' e)" using l'(5) b True by blast
    then show ?thesis using True by (auto simp: retagged_def f_def)
  next
    case False
    then have "bufs E l' e = Some b" using l'(5) b by blast
    moreover have "f b = b" using False by (auto simp: f_def)
    ultimately show ?thesis by (intro disjI2 exI [of _ "fb_queueId b"]) simp
  qed
  then have rel': "\<forall>e b. bufs E l e = Some b \<longrightarrow> (bufs E l' e = None \<and> False) \<or> (\<exists>q. bufs E l' e = Some ((f b)\<lparr>fb_queueId := q\<rparr>) \<and> \<not> False)" by blast
  note sp = same_place [where f = f and del = "\<lambda>_. False", OF inv l'(2) fr(1) l'(4) rel' fo]
  have x: "lpos E l' x = (if did E l x \<noteq> 0 \<and> did E l x \<in> ids then retag_pos st (lpos E l x) else lpos E l x) \<and>
      did E l' x = (if did E l x \<in> ids then 0 else did E l x) \<and> (\<forall>c. cell E l' x = Some c \<longrightarrow> in_mem c)" for x
  proof (cases "find_buf E l x")
    case None
    then show ?thesis using sp(1) [OF None] by (simp add: lpos_def cell_def did_def)
  next
    case (Some b)
    then obtain q where q: "find_buf E l' x = Some ((f b)\<lparr>fb_queueId := q\<rparr>)" using sp(2) by blast
    have db: "did E l x = fb_dirtyID b" "cell E l x = Some (cell_of l b x)" using Some by (simp_all add: did_def cell_def)
    have im: "in_mem (cell_of l b x)" using all_memD [OF am db(2)] .
    have cl: "cell E l' x = Some (cell_of l (f b) x)" using q cell_of_cong [OF fr(1)] by (simp add: cell_def)
    obtain e where e: "bufs E l e = Some b" using find_buf_iff [OF D(1)] Some by (auto simp: covers_def)
    show ?thesis
    proof (cases "fb_dirtyID b \<noteq> 0 \<and> fb_dirtyID b \<in> ids")
      case True
      then have "fb_state b = BUF_DIRTY" using ids_okD(2) [OF D(4) e] by simp
      moreover have "cell_of l (f b) x = (cell_of l b x)\<lparr>c_state := st\<rparr>"
        using True by (cases "fb_data b"; cases "fb_ptr b") (simp_all add: f_def cell_of_def byte_at_def)
      ultimately show ?thesis using True st im db cl q
        by (auto simp: lpos_def pos_of_def in_mem_def readable_def cell_value_def did_def f_def cell_of_def)
    next
      case False
      then have "f b = b" by (auto simp: f_def)
      then show ?thesis using False cl db im q by (auto simp: lpos_def did_def)
    qed
  qed
  then have "all_mem E l'" by (auto simp: all_mem_def)
  then show ?thesis using l'(1,2) fr(3) x by blast
qed

lemma SetFlushedClean_pos:
  assumes inv: "BL_inv E M hinv cv l" and am: "all_mem E l"
  shows "\<exists>l'. SetFlushedClean E l = Some l' \<and> BL_inv E M hinv cv l' \<and> all_mem E l' \<and> bl_curDirtyID l' = bl_curDirtyID l \<and>
    (\<forall>x. lpos E l' x = clean_pos (lpos E l x)) \<and> (\<forall>x. did E l' x = did E l x)"
proof -
  note D = BL_invD [OF inv]
  from SetFlushedClean_inv [OF inv] obtain l' where l': "SetFlushedClean E l = Some l'" "BL_inv E M hinv cv l'" "arrays l' = arrays l"
    "\<And>e. flushed_clean (bufs E l e) (bufs E l' e)" "bl_curDirtyID l' = bl_curDirtyID l" by blast
  define f where "f b = (if fb_state b = BUF_FLUSHED_FULL \<or> fb_state b = BUF_FLUSHED_CUT then b\<lparr>fb_dirtyID := 0, fb_state := BUF_CLEAN\<rparr> else b)" for b :: FileBuffer
  let ?del = "\<lambda>b. fb_state b = BUF_FL_CLEARED"
  have fo: "\<forall>b. fb_offset (f b) = fb_offset b" by (simp add: f_def)
  have n: "\<forall>e. bufs E l e = None \<longrightarrow> bufs E l' e = None" proof (intro allI impI)
    fix e assume "bufs E l e = None"
    then show "bufs E l' e = None" using l'(4) [of e] by (simp add: flushed_clean_def)
  qed
  have rel: "(bufs E l' e = None \<and> ?del b) \<or> (\<exists>q. bufs E l' e = Some ((f b)\<lparr>fb_queueId := q\<rparr>) \<and> \<not> ?del b)" if b: "bufs E l e = Some b" for e b
  proof -
    have "\<exists>q. b = b\<lparr>fb_queueId := q\<rparr>" by (rule exI [of _ "fb_queueId b"]) simp
    then show ?thesis using l'(4) [of e] b by (auto simp: flushed_clean_def retagged_def f_def split: if_splits)
  qed
  then have rel': "\<forall>e b. bufs E l e = Some b \<longrightarrow> (bufs E l' e = None \<and> ?del b) \<or> (\<exists>q. bufs E l' e = Some ((f b)\<lparr>fb_queueId := q\<rparr>) \<and> \<not> ?del b)" by blast
  note sp = same_place [where f = f and del = ?del, OF inv l'(2,3) n rel' fo]
  have x: "lpos E l' x = clean_pos (lpos E l x) \<and> did E l' x = did E l x \<and> (\<forall>c. cell E l' x = Some c \<longrightarrow> in_mem c)" for x
  proof (cases "find_buf E l x")
    case None
    then show ?thesis using sp(1) [OF None] by (simp add: lpos_def cell_def did_def)
  next
    case (Some b)
    have db: "did E l x = fb_dirtyID b" "cell E l x = Some (cell_of l b x)" using Some by (simp_all add: did_def cell_def)
    have im: "in_mem (cell_of l b x)" using all_memD [OF am db(2)] .
    obtain e where e: "bufs E l e = Some b" using find_buf_iff [OF D(1)] Some by (auto simp: covers_def)
    have z: "fb_state b \<noteq> BUF_DIRTY \<Longrightarrow> fb_dirtyID b = 0" using ids_okD(2) [OF D(4) e] by simp
    show ?thesis
    proof (cases "?del b")
      case True
      then have "find_buf E l' x = None" using sp(2) [OF Some] by blast
      moreover have "lpos E l x = Evicted" using True db(2) by (simp add: lpos_def pos_of_def cell_of_def)
      moreover have "did E l x = 0" using True z db(1) by simp
      ultimately show ?thesis by (simp add: lpos_def cell_def did_def)
    next
      case False
      then obtain q where q: "find_buf E l' x = Some ((f b)\<lparr>fb_queueId := q\<rparr>)" using sp(2) [OF Some] by blast
      have cl: "cell E l' x = Some (cell_of l (f b) x)" using q cell_of_cong [OF l'(3)] by (simp add: cell_def)
      show ?thesis
      proof (cases "fb_state b = BUF_FLUSHED_FULL \<or> fb_state b = BUF_FLUSHED_CUT")
        case True
        then have "cell_of l (f b) x = (cell_of l b x)\<lparr>c_state := BUF_CLEAN\<rparr>"
          by (cases "fb_data b"; cases "fb_ptr b") (auto simp: f_def cell_of_def byte_at_def)
        moreover have "fb_dirtyID b = 0" using True z by auto
        ultimately show ?thesis using True im db cl q
          by (auto simp: lpos_def pos_of_def in_mem_def readable_def cell_value_def did_def f_def cell_of_def)
      next
        case nf: False
        then have "f b = b" by (simp add: f_def)
        then show ?thesis using False nf cl db im q by (auto simp: lpos_def did_def pos_of_def cell_of_def)
      qed
    qed
  qed
  then have "all_mem E l'" by (auto simp: all_mem_def)
  then show ?thesis using l'(1,2,5) x by blast
qed

end

end
