(* ===== verification/Buffer_Query.thy ===== *)
theory Buffer_Query
  imports Buffer_Pos
begin

text \<open>
  What the queries of a buffer list tell about its positions: a successful \<open>GetData\<close> returns the bytes of a
  range without gaps, the flags of a list tell whether a position is flushed or not clean, and an eviction
  drops what is clean and keeps a mark of what was uploaded.
\<close>

fun val :: "pos \<Rightarrow> byte" where
  "val (Here _ _ v) = v"
| "val _ = 0"

fun present :: "pos \<Rightarrow> bool" where
  "present (Here _ _ _) \<longleftrightarrow> True"
| "present _ \<longleftrightarrow> False"

lemma takeWhile_sorted:
  "sorted_wrt (\<lambda>x y. f x \<le> f y) es \<Longrightarrow> set (takeWhile (\<lambda>x. f x < (hi :: nat)) es) = {x \<in> set es. f x < hi}"
proof (induction es)
  case (Cons a es)
  then show ?case by (cases "f a < hi") force+
qed simp

lemma AnyFlushed_takeWhile:
  "AnyFlushed_loop hi es \<longleftrightarrow>
     (\<exists>(k, b) \<in> set (takeWhile (\<lambda>e. fb_offset (snd e) < hi) es). fb_state b \<in> {BUF_FLUSHED_FULL, BUF_FLUSHED_CUT, BUF_FL_CLEARED})"
proof (induction es)
  case (Cons a es)
  then show ?case by (cases a; cases "fb_offset (snd a) < hi") auto
qed simp

lemma present_cell:
  "in_mem c \<Longrightarrow> readable c \<longleftrightarrow> present (pos_of (Some c))"
  "in_mem c \<Longrightarrow> readable c \<Longrightarrow> val (pos_of (Some c)) = cell_value (Some c)"
  by (auto simp: in_mem_def pos_of_def readable_def)

definition is_cleared :: "FileBuffer \<Rightarrow> FileBuffer \<Rightarrow> bool" where
  "is_cleared b c \<longleftrightarrow> fb_state c = BUF_FL_CLEARED \<and> fb_ptr c = None \<and> fb_data c = None \<and> fb_zero c = fb_zero b \<and>
     fb_loading c = fb_loading b \<and> fb_onDisk c = fb_onDisk b \<and> fb_dirtyID c = fb_dirtyID b"

context buffer_env
begin

section \<open>The buffers of a range\<close>

lemma asc_window:
  assumes inv: "BL_inv E M hinv cv l"
  shows "set (takeWhile (\<lambda>e. fb_offset (snd e) < hi) (bt_asc (env_at E) (bl_at l) (Suc off))) =
    {(k, b). bufs E l k = Some b \<and> off < k \<and> fb_offset b < hi}"
proof -
  note sh = BL_invD(1) [OF inv]
  let ?es = "bt_asc (env_at E) (bl_at l) (Suc off)"
  have "sorted_wrt (\<lambda>x y. fst x < fst y) ?es" using at.asc_sorted [of "bl_at l" "Suc off"] by (simp add: sorted_wrt_map)
  then have "sorted_wrt (\<lambda>x y. fb_offset (snd x) \<le> fb_offset (snd y)) ?es"
  proof (rule sorted_wrt_mono_rel [rotated])
    fix x y assume xy: "x \<in> set ?es" "y \<in> set ?es" "fst x < fst y"
    then have b: "bufs E l (fst x) = Some (snd x)" "bufs E l (fst y) = Some (snd y)" by (auto simp: at.asc_set)
    show "fb_offset (snd x) \<le> fb_offset (snd y)"
      using shape_disj [OF sh b xy(3)] inv_shape(4) [OF inv b(1)] by linarith
  qed
  from takeWhile_sorted [OF this, of hi] show ?thesis by (simp add: at.asc_set Suc_le_eq) force
qed

lemma cell_pos:
  assumes inv: "BL_inv E M hinv cv l" and am: "all_mem E l" and b: "bufs E l k = Some b" "fb_offset b \<le> x" "x < k"
  shows "lpos E l x = pos_of (Some (cell_of l b x))" "in_mem (cell_of l b x)"
  using cell_covers [OF BL_invD(1) [OF inv] b] am by (auto simp: lpos_def all_mem_def)

lemma AnyFlushed_pos:
  assumes inv: "BL_inv E M hinv cv l" and am: "all_mem E l" and sz: "0 < sz" "off + sz < u64_max"
  shows "AnyFlushed E l off sz \<longleftrightarrow> (\<exists>x. off \<le> x \<and> x < off + sz \<and> flushed (lpos E l x))"
proof -
  have b: "add64 off sz = off + sz" "add64 off 1 = Suc off" using sz by (simp_all add: u64_simps)
  have fl: "flushed (pos_of (Some c)) \<longleftrightarrow> c_state c \<in> {BUF_FLUSHED_FULL, BUF_FLUSHED_CUT, BUF_FL_CLEARED}" if "in_mem c" for c
    using that by (auto simp: pos_of_def in_mem_def)
  have "AnyFlushed E l off sz \<longleftrightarrow>
      (\<exists>k b. bufs E l k = Some b \<and> off < k \<and> fb_offset b < off + sz \<and> fb_state b \<in> {BUF_FLUSHED_FULL, BUF_FLUSHED_CUT, BUF_FL_CLEARED})"
    unfolding AnyFlushed_def b AnyFlushed_takeWhile asc_window [OF inv] by auto
  also have "\<dots> \<longleftrightarrow> (\<exists>x. off \<le> x \<and> x < off + sz \<and> flushed (lpos E l x))" (is "?L \<longleftrightarrow> ?R")
  proof
    assume ?L
    then obtain k b where kb: "bufs E l k = Some b" "off < k" "fb_offset b < off + sz"
      "fb_state b \<in> {BUF_FLUSHED_FULL, BUF_FLUSHED_CUT, BUF_FL_CLEARED}" by blast
    let ?x = "max off (fb_offset b)"
    have x: "fb_offset b \<le> ?x" "?x < k" using kb(2) inv_shape(4) [OF inv kb(1)] by auto
    have "flushed (lpos E l ?x)" using fl [OF cell_pos(2) [OF inv am kb(1) x]] kb(4) cell_pos(1) [OF inv am kb(1) x]
      by (simp add: cell_of_def)
    then show ?R using kb(3) sz(1) by (intro exI [of _ ?x]) auto
  next
    assume ?R
    then obtain x where x: "off \<le> x" "x < off + sz" "flushed (lpos E l x)" by blast
    then have "cell E l x \<noteq> None" by (cases "cell E l x") (simp_all add: lpos_def)
    then obtain b where "covers (bufs E l) x b" using cell_None [OF BL_invD(1) [OF inv], of x] by auto
    then obtain k where k: "bufs E l k = Some b" "fb_offset b \<le> x" "x < k" by (auto simp: covers_def)
    then have "fb_state b \<in> {BUF_FLUSHED_FULL, BUF_FLUSHED_CUT, BUF_FL_CLEARED}"
      using fl [OF cell_pos(2) [OF inv am k]] x(3) cell_pos(1) [OF inv am k] by (simp add: cell_of_def)
    then show ?L using k x by (intro exI [of _ k] exI [of _ b]) auto
  qed
  finally show ?thesis .
qed

lemma AnyUnclean_pos:
  assumes inv: "BL_inv E M hinv cv l" and am: "all_mem E l"
  shows "AnyUnclean l \<longleftrightarrow> (\<exists>x. dirty (lpos E l x) \<or> flushed (lpos E l x))"
proof -
  have "c_state c \<noteq> BUF_CLEAN \<longleftrightarrow> dirty (pos_of (Some c)) \<or> flushed (pos_of (Some c))" if "in_mem c" for c
    using that by (cases "c_state c") (auto simp: pos_of_def in_mem_def)
  moreover have "dirty (lpos E l x) \<or> flushed (lpos E l x) \<Longrightarrow> \<exists>c. cell E l x = Some c" for x
    by (cases "cell E l x") (auto simp: lpos_def)
  ultimately show ?thesis unfolding AnyUnclean_cells [OF inv] using am unfolding lpos_def all_mem_def by metis
qed

lemma dirty_parts_pos:
  assumes inv: "BL_inv E M hinv cv l" and am: "all_mem E l"
  shows "set (IterateDirtyParts E l) = {i. \<exists>x. dirty (lpos E l x) \<and> PartNum E x = Some i}"
proof -
  have "dirty (lpos E l x) \<longleftrightarrow> (\<exists>c. cell E l x = Some c \<and> c_state c = BUF_DIRTY)" for x
    using all_memD [OF am, of x] by (cases "cell E l x") (auto simp: lpos_def pos_of_def in_mem_def)
  then show ?thesis unfolding IterateDirtyParts_set(2) [OF inv] dirty_part_cell [OF inv] by blast
qed

lemma GetHoles_pos:
  assumes inv: "BL_inv E M hinv cv l" and am: "all_mem E l" and sz: "0 < sz" "off + sz < u64_max"
    and r: "GetHoles E l off sz = (holes, loading, clr)"
  shows "in_ranges holes x \<Longrightarrow> off \<le> x \<and> x < off + sz \<and> lpos E l x = Absent" "ranges_in off holes (off + sz)"
    "clr \<longleftrightarrow> (\<exists>x. off \<le> x \<and> x < off + sz \<and> lpos E l x = Evicted)"
    "\<not> clr \<Longrightarrow> \<not> loading \<Longrightarrow> holes = [] \<Longrightarrow> off \<le> x \<Longrightarrow> x < off + sz \<Longrightarrow> present (lpos E l x)"
proof -
  note h = GetHoles_cells [OF inv sz r]
  show "in_ranges holes x \<Longrightarrow> off \<le> x \<and> x < off + sz \<and> lpos E l x = Absent" using h(1) [of x] by (auto simp: lpos_def)
  show "ranges_in off holes (off + sz)" by (rule h(2))
  have "lpos E l x = Evicted \<longleftrightarrow> (\<exists>c. cell E l x = Some c \<and> c_state c = BUF_FL_CLEARED)" for x
    by (cases "cell E l x") (auto simp: lpos_def pos_of_def split: if_splits)
  then show cl: "clr \<longleftrightarrow> (\<exists>x. off \<le> x \<and> x < off + sz \<and> lpos E l x = Evicted)"
    unfolding h(4) any_cell_def by blast
  assume n: "\<not> clr" "\<not> loading" "holes = []" "off \<le> x" "x < off + sz"
  then obtain c where c: "cell E l x = Some c" using h(1) [of x] by (auto simp: in_ranges_def)
  have "\<not> c_loading c" using n(2,4,5) c h(3) by (auto simp: any_cell_def)
  moreover have "c_state c \<noteq> BUF_FL_CLEARED" using n(1,4,5) c h(4) by (auto simp: any_cell_def)
  ultimately show "present (lpos E l x)" using all_memD [OF am c] c by (auto simp: lpos_def pos_of_def in_mem_def)
qed

section \<open>Reading\<close>

text \<open>A buffer without data is no error but a panic, so a read that returns has met data only.\<close>

lemma GetData_loop_step:
  assumes "fb_offset b \<le> cur" "cur < hi" "GetData_loop l r hi ((k, b) # es) (cur, data, ids) = Some (c', d', i', None)"
  obtains d ids' where "\<not> fb_loading b"
    "fb_zero b \<or> subslice l b (sub64 cur (fb_offset b)) (sub64 (min hi (bend b)) (fb_offset b)) \<noteq> None"
    "if min hi (bend b) < hi then GetData_loop l r hi es (min hi (bend b), d, ids') = Some (c', d', i', None) else c' = min hi (bend b)"
proof -
  let ?ids = "if r \<and> fb_dirtyID b \<noteq> 0 then insert (fb_dirtyID b) ids else ids" and ?up = "min hi (bend b)"
  have n: "\<not> cur < fb_offset b" "\<not> hi \<le> fb_offset b" using assms(1,2) by auto
  have ld: "\<not> fb_loading b" using assms(3) n by (auto simp: Let_def)
  let ?X = "if fb_zero b then Some (appendZero data (sub64 ?up cur))
      else map_option (\<lambda>d. data @ [d]) (subslice l b (sub64 cur (fb_offset b)) (sub64 ?up (fb_offset b)))"
  let ?F = "\<lambda>d. if ?up < hi then GetData_loop l r hi es (?up, d, ?ids) else Some (?up, d, ?ids, None)"
  have eq: "GetData_loop l r hi ((k, b) # es) (cur, data, ids) = Option.bind ?X ?F" using n ld by (simp add: Let_def)
  obtain d where d: "?X = Some d" using assms(3) unfolding eq by (cases ?X) auto
  then have "?F d = Some (c', d', i', None)" using assms(3) unfolding eq by simp
  moreover have "fb_zero b \<or> subslice l b (sub64 cur (fb_offset b)) (sub64 ?up (fb_offset b)) \<noteq> None" using d by (cases "fb_zero b") auto
  ultimately show ?thesis using ld by (intro that [of d ?ids]) (auto split: if_splits)
qed

lemma GetData_loop_present:
  assumes inv: "BL_inv E M hinv cv l" and am: "all_mem E l" and hi: "hi < u64_max"
  shows "cur < hi \<Longrightarrow> GetData_loop l r hi (bt_asc (env_at E) (bl_at l) (Suc cur)) (cur, data, ids) = Some (c', d', i', None) \<Longrightarrow>
    cur \<le> x \<Longrightarrow> x < c' \<Longrightarrow> \<exists>c. cell E l x = Some c \<and> readable c"
proof (induction "hi - cur" arbitrary: cur data ids rule: less_induct)
  case less
  have nn: "cell E l cur \<noteq> None"
  proof
    assume "cell E l cur = None"
    from asc_missing [OF inv this] show False using less.prems by auto
  qed
  then obtain k b es where es: "bt_asc (env_at E) (bl_at l) (Suc cur) = (k, b) # es" "bufs E l k = Some b"
    "fb_offset b \<le> cur" "cur < k" "es = bt_asc (env_at E) (bl_at l) (Suc k)" by (rule asc_covering [OF inv])
  have bk: "bend b = k" by (rule inv_shape(5) [OF inv es(2)])
  from GetData_loop_step [OF es(3) less.prems(1), of l r k es data ids c' d' i'] less.prems(2) es(1)
  obtain d ids' where st: "\<not> fb_loading b"
    "fb_zero b \<or> subslice l b (sub64 cur (fb_offset b)) (sub64 (min hi k) (fb_offset b)) \<noteq> None"
    "if min hi k < hi then GetData_loop l r hi es (min hi k, d, ids') = Some (c', d', i', None) else c' = min hi k"
    unfolding bk by metis
  note ld = st(1)
  have kM: "k < u64_max" using inv_shape(3) [OF inv es(2)] M_bound by simp
  have s64: "sub64 (min hi k) (fb_offset b) = min hi k - fb_offset b" using es(3,4) less.prems(1) hi kM by (simp add: u64_simps)
  have "fb_cap l b > 0" if "subslice l b (sub64 cur (fb_offset b)) (sub64 (min hi k) (fb_offset b)) \<noteq> None"
    using that es(3,4) less.prems(1) unfolding s64 by (auto simp: subslice_def split: if_splits)
  then have zd: "fb_zero b \<or> fb_cap l b > 0" using st(2) by metis
  have here: "readable (cell_of l b y)" if "cur \<le> y" "y < k" for y
  proof -
    have "in_mem (cell_of l b y)" by (rule cell_pos(2) [OF inv am es(2)]) (use es that in auto)
    moreover have "fb_cap l b > 0 \<Longrightarrow> byte_at l b y \<noteq> None"
      by (auto simp: fb_cap_def byte_at_def arrays_def split: option.splits prod.splits)
    ultimately show ?thesis using zd ld by (auto simp: readable_def cell_of_def)
  qed
  show ?case
  proof (cases "x < k")
    case True
    then show ?thesis using cell_covers [OF BL_invD(1) [OF inv] es(2), of x] es(3) less.prems(3) here by auto
  next
    case False
    have kh: "k < hi" using False less.prems(4) st(3) by (cases "k < hi") auto
    then have "GetData_loop l r hi (bt_asc (env_at E) (bl_at l) (Suc k)) (k, d, ids') = Some (c', d', i', None)"
      using st(3) es(5) by (simp add: min_def)
    from less.hyps [OF _ kh this] show ?thesis using False es(4) kh less.prems(4) by auto
  qed
qed

lemma GetData_present:
  assumes inv: "BL_inv E M hinv cv l" and am: "all_mem E l" and sz: "off + sz < u64_max"
    and g: "GetData E l off sz r = Some (data, ids, None)" and x: "off \<le> x" "x < off + sz"
  shows "present (lpos E l x)"
proof -
  have b: "add64 off sz = off + sz" "add64 off 1 = Suc off" using sz x by (simp_all add: u64_simps)
  obtain c d i where "GetData_loop l r (off + sz) (bt_asc (env_at E) (bl_at l) (Suc off)) (off, [], {}) = Some (c, d, i, None)" "\<not> c < off + sz"
    using g unfolding GetData_def b by (auto simp: Let_def bind_eq_Some_conv split: if_splits)
  from GetData_loop_present [OF inv am sz _ this(1), of x] this(2) x obtain e where "cell E l x = Some e" "readable e" by auto
  then show ?thesis using present_cell(1) [OF all_memD [OF am]] by (simp add: lpos_def)
qed

text \<open>\<open>GetData\<close> by positions: the bytes and the identifiers of a range without gaps, or an error.\<close>

lemma GetData_pos:
  assumes inv: "BL_inv E M hinv cv l" and am: "all_mem E l" and sz: "off + sz < u64_max" "0 < sz \<or> off = 0"
    and ev: "\<And>x. off \<le> x \<Longrightarrow> x < off + sz \<Longrightarrow> lpos E l x \<noteq> Evicted"
  obtains (err) ids e where "GetData E l off sz r = Some ([], ids, Some e)"
  | (ok) data where "GetData E l off sz r = Some (data, if r then {did E l x | x. off \<le> x \<and> x < off + sz \<and> did E l x \<noteq> 0} else {}, None)"
      "concat data = map (\<lambda>x. val (lpos E l x)) [off..<off + sz]" "\<And>x. off \<le> x \<Longrightarrow> x < off + sz \<Longrightarrow> present (lpos E l x)"
proof (cases "sz = 0")
  case True
  have [simp]: "add64 0 0 = 0" by (simp add: add64_def)
  have "GetData E l 0 0 r = Some ([], {}, None) \<or> GetData E l 0 0 r = Some ([], {}, Some ErrBufferIsMissing)"
  proof (cases "bt_asc (env_at E) (bl_at l) (add64 0 1)")
    case Nil
    then show ?thesis by (simp add: GetData_def)
  next
    case (Cons a es)
    then show ?thesis by (cases a) (simp add: GetData_def)
  qed
  then show ?thesis using that sz(2) True by (elim disjE) auto
next
  case False
  then have sz0: "0 < sz" by simp
  have rd: "present (lpos E l x) \<longleftrightarrow> (\<exists>c. cell E l x = Some c \<and> readable c)" for x
    using present_cell(1) [OF all_memD [OF am]] by (cases "cell E l x") (auto simp: lpos_def)
  show ?thesis
  proof (cases "\<forall>x. off \<le> x \<longrightarrow> x < off + sz \<longrightarrow> present (lpos E l x)")
    case True
    then have cl: "\<forall>x. off \<le> x \<longrightarrow> x < off + sz \<longrightarrow> (\<exists>c. cell E l x = Some c \<and> readable c)" by (simp add: rd)
    have "cell_value (cell E l x) = val (lpos E l x)" if "off \<le> x" "x < off + sz" for x
    proof -
      obtain c where "cell E l x = Some c" "readable c" using cl \<open>off \<le> x\<close> \<open>x < off + sz\<close> by blast
      then show ?thesis using present_cell(2) [OF all_memD [OF am]] by (simp add: lpos_def)
    qed
    then have "map (\<lambda>x. cell_value (cell E l x)) [off..<off + sz] = map (\<lambda>x. val (lpos E l x)) [off..<off + sz]" by simp
    moreover obtain data where "GetData E l off sz r = Some (data, if r then dirty_ids (bufs E l) off (off + sz) else {}, None)"
      "concat data = map (\<lambda>x. cell_value (cell E l x)) [off..<off + sz]" using GetData_cells(1) [OF inv sz0 sz(1) cl, of r] by blast
    ultimately show ?thesis using that(2) [of data] True unfolding dirty_ids_did [OF inv] by simp
  next
    case False
    define y where "y = (LEAST x. off \<le> x \<and> x < off + sz \<and> \<not> present (lpos E l x))"
    have y: "off \<le> y" "y < off + sz" "\<not> present (lpos E l y)"
      using LeastI_ex [of "\<lambda>x. off \<le> x \<and> x < off + sz \<and> \<not> present (lpos E l x)"] False unfolding y_def by blast+
    have "present (lpos E l z)" if "off \<le> z" "z < y" for z
      using not_less_Least [of z "\<lambda>x. off \<le> x \<and> x < off + sz \<and> \<not> present (lpos E l x)"] that y(2) unfolding y_def by force
    moreover have "cell E l y = None \<or> (\<exists>c. cell E l y = Some c \<and> c_loading c)"
      using all_memD [OF am, of y] y(3) ev [OF y(1,2)]
      by (cases "cell E l y") (auto simp: lpos_def pos_of_def in_mem_def readable_def split: if_splits)
    ultimately show ?thesis using GetData_cells(2) [OF inv sz0 sz(1) y(1,2), of r] that(1) unfolding rd by blast
  qed
qed

section \<open>Eviction\<close>

lemma pos_at:
  assumes inv: "BL_inv E M hinv cv l"
  shows "covers (bufs E l) x b \<Longrightarrow> cell E l x = Some (cell_of l b x) \<and> did E l x = fb_dirtyID b"
    "(\<And>b. \<not> covers (bufs E l) x b) \<Longrightarrow> cell E l x = None \<and> did E l x = 0"
proof -
  note sh = BL_invD(1) [OF inv]
  show "covers (bufs E l) x b \<Longrightarrow> cell E l x = Some (cell_of l b x) \<and> did E l x = fb_dirtyID b"
    using cell_Some [OF sh] did_covers [OF sh] by blast
  assume n: "\<And>b. \<not> covers (bufs E l) x b"
  then have "find_buf E l x = None" using find_buf_iff [OF sh, of x] by (metis not_None_eq)
  then show "cell E l x = None \<and> did E l x = 0" by (simp add: cell_def did_def)
qed

text \<open>What an eviction leaves of the buffers.\<close>

lemma evicted_covers:
  assumes inv: "BL_inv E M hinv cv l" and b: "bufs E l e = Some b" and ev: "evictedBufs (bufs E l) e b A'"
  shows "fb_state b = BUF_CLEAN \<Longrightarrow> covers A' x c \<longleftrightarrow> covers (bufs E l) x c \<and> \<not> (fb_offset b \<le> x \<and> x < e)"
    "fb_state b \<noteq> BUF_CLEAN \<Longrightarrow> fb_offset b \<le> x \<Longrightarrow> x < e \<Longrightarrow> \<exists>c. covers A' x c \<and> is_cleared b c"
    "fb_state b \<noteq> BUF_CLEAN \<Longrightarrow> \<not> (fb_offset b \<le> x \<and> x < e) \<Longrightarrow> (\<forall>c. covers A' x c \<longleftrightarrow> covers (bufs E l) x c) \<or>
       (\<exists>c d. covers A' x c \<and> covers (bufs E l) x d \<and> fb_state d = BUF_FL_CLEARED \<and> is_cleared b c)"
proof -
  note sh = BL_invD(1) [OF inv]
  have uniq: "(fb_offset b \<le> x \<and> x < e) \<longleftrightarrow> e' = e" if "bufs E l e' = Some c" "fb_offset c \<le> x" "x < e'" for e' c
  proof
    assume "fb_offset b \<le> x \<and> x < e"
    then have "c = b" using covers_unique [OF sh, of x c b] that b by (auto simp: covers_def)
    then show "e' = e" using inv_shape(5) [OF inv that(1)] inv_shape(5) [OF inv b] by simp
  qed (use that b in auto)
  show "covers A' x c \<longleftrightarrow> covers (bufs E l) x c \<and> \<not> (fb_offset b \<le> x \<and> x < e)" if "fb_state b = BUF_CLEAN"
  proof -
    have "A' = (bufs E l)(e := None)" using ev that by (simp add: evictedBufs_def)
    then show ?thesis using uniq unfolding covers_def by (auto split: if_splits)
  qed
  assume nc: "fb_state b \<noteq> BUF_CLEAN"
  have oe: "fb_offset b < e" by (rule inv_shape(4) [OF inv b])
  consider q where "A' = (bufs E l)(e \<mapsto> (cleared b)\<lparr>fb_queueId := q\<rparr>)"
    | p q where "bufs E l (fb_offset b) = Some p" "fb_state p = BUF_FL_CLEARED" "fb_offset p < fb_offset b"
      "A' = (bufs E l)(fb_offset b := None, e \<mapsto> (cleared b)\<lparr>fb_length := add64 (fb_length b) (fb_length p), fb_offset := fb_offset p, fb_queueId := q\<rparr>)"
    using ev nc inv_shape(4) [OF inv] unfolding evictedBufs_def by auto
  then have "(\<exists>c. fb_offset b \<le> x \<and> x < e \<longrightarrow> covers A' x c \<and> is_cleared b c) \<and>
    (\<not> (fb_offset b \<le> x \<and> x < e) \<longrightarrow> (\<forall>c. covers A' x c \<longleftrightarrow> covers (bufs E l) x c) \<or>
       (\<exists>c d. covers A' x c \<and> covers (bufs E l) x d \<and> fb_state d = BUF_FL_CLEARED \<and> is_cleared b c))"
  proof cases
    case 1
    let ?m = "(cleared b)\<lparr>fb_queueId := q\<rparr>"
    have "is_cleared b ?m" "fb_offset ?m = fb_offset b" by (simp_all add: is_cleared_def cleared_def)
    moreover have "covers A' x ?m" if "fb_offset b \<le> x" "x < e"
      unfolding covers_def 1 using that by (intro exI [of _ e]) (simp add: cleared_def)
    moreover have "covers A' x c \<longleftrightarrow> covers (bufs E l) x c" if "\<not> (fb_offset b \<le> x \<and> x < e)" for c
      unfolding covers_def 1 using that uniq by (auto simp: cleared_def split: if_splits)
    ultimately show ?thesis by blast
  next
    case 2
    let ?m = "(cleared b)\<lparr>fb_length := add64 (fb_length b) (fb_length p), fb_offset := fb_offset p, fb_queueId := q\<rparr>"
    have m: "is_cleared b ?m" "A' e = Some ?m" using 2(4) by (simp_all add: is_cleared_def cleared_def)
    have cov: "covers A' x ?m" if "fb_offset p \<le> x" "x < e"
      unfolding covers_def using that m(2) by (intro exI [of _ e]) simp
    have "(\<forall>c. covers A' x c \<longleftrightarrow> covers (bufs E l) x c) \<or>
       (\<exists>c d. covers A' x c \<and> covers (bufs E l) x d \<and> fb_state d = BUF_FL_CLEARED \<and> is_cleared b c)" if out: "\<not> (fb_offset b \<le> x \<and> x < e)"
    proof (cases "fb_offset p \<le> x \<and> x < fb_offset b")
      case True
      then have "covers (bufs E l) x p" using 2(1) by (auto simp: covers_def)
      then show ?thesis using 2(2) m(1) cov True oe by auto
    next
      case False
      have np: "e' \<noteq> fb_offset b" if "bufs E l e' = Some c" "fb_offset c \<le> x" "x < e'" for e' c using False 2(1) that by auto
      have at: "A' e' = Some c \<and> fb_offset c \<le> x \<and> x < e' \<longleftrightarrow> bufs E l e' = Some c \<and> fb_offset c \<le> x \<and> x < e'" for e' c
        unfolding 2(4) using out uniq [of e' c] np [of e' c] False oe by (auto simp: cleared_def)
      have "covers A' x c \<longleftrightarrow> covers (bufs E l) x c" for c unfolding covers_def at ..
      then show ?thesis by blast
    qed
    then show ?thesis using cov m(1) 2(3) by auto
  qed
  then show "fb_offset b \<le> x \<Longrightarrow> x < e \<Longrightarrow> \<exists>c. covers A' x c \<and> is_cleared b c"
    "\<not> (fb_offset b \<le> x \<and> x < e) \<Longrightarrow> (\<forall>c. covers A' x c \<longleftrightarrow> covers (bufs E l) x c) \<or>
       (\<exists>c d. covers A' x c \<and> covers (bufs E l) x d \<and> fb_state d = BUF_FL_CLEARED \<and> is_cleared b c)" by blast+
qed

lemma Evict_pos:
  assumes inv: "BL_inv E M hinv cv l" and am: "all_mem E l" and b: "bufs E l e = Some b" "fb_ptr b = Some a"
    and st: "fb_state b = BUF_CLEAN \<or> fb_state b = BUF_FLUSHED_FULL"
  shows "\<exists>l' n d. EvictFromMemory E l b = Some (l', n, d) \<and> BL_inv E M hinv cv l' \<and> all_mem E l' \<and> bl_curDirtyID l' = bl_curDirtyID l \<and>
    (\<forall>x. lpos E l' x = (if fb_offset b \<le> x \<and> x < e then evict_pos (lpos E l x) else lpos E l x) \<and> did E l' x = did E l x)"
proof -
  note D = BL_invD [OF inv] and sb = inv_shape [OF inv b(1)]
  have cb: "in_mem (cell_of l b x)" "lpos E l x = pos_of (Some (cell_of l b x))" if "fb_offset b \<le> x" "x < e" for x
    using cell_pos [OF inv am b(1) that] by auto
  have im: "in_mem (cell_of l b (fb_offset b))" using cb(1) sb(4) by simp
  have bm: "buf_mem_ok l b" using D(2) b(1) by (auto simp: mem_ok_def)
  have bb: "\<not> fb_onDisk b" "\<not> fb_zero b" "\<not> fb_loading b" "fb_dirtyID b = 0"
    using im bm b(2) st ids_okD(2) [OF D(4) b(1)] by (auto simp: in_mem_def cell_of_def buf_mem_ok_def split: option.splits)
  from EvictFromMemory_inv [OF inv b st] bb(1) obtain l' n d where l': "EvictFromMemory E l b = Some (l', n, d)" "BL_inv E M hinv cv l'"
    "arrays l' = arrays l" "bl_curDirtyID l' = bl_curDirtyID l" "evictedBufs (bufs E l) e b (bufs E l')" by blast
  note co = cell_of_cong [OF l'(3)]
  have keep: "cell E l' x = cell E l x \<and> did E l' x = did E l x" if "\<And>c. covers (bufs E l') x c \<longleftrightarrow> covers (bufs E l) x c" for x
    using pos_at [OF inv, of x] pos_at [OF l'(2), of x] that co by metis
  note ec = evicted_covers [OF inv b(1) l'(5)]
  have gone: "pos_of (Some (cell_of l' c x)) = Evicted \<and> in_mem (cell_of l' c x) \<and> fb_dirtyID c = 0" if "is_cleared b c" for c x
    using that bb by (auto simp: is_cleared_def pos_of_def in_mem_def cell_of_def byte_at_def)
  have x: "lpos E l' x = (if fb_offset b \<le> x \<and> x < e then evict_pos (lpos E l x) else lpos E l x) \<and> did E l' x = did E l x \<and>
     (\<forall>c. cell E l' x = Some c \<longrightarrow> in_mem c)" for x
  proof (cases "fb_offset b \<le> x \<and> x < e")
    case True
    then have lx: "lpos E l x = Here (fb_state b) False (val (lpos E l x))" "did E l x = 0"
      using cb [of x] bb st pos_at(1) [OF inv, of x b] b(1)
      by (auto simp: covers_def pos_of_def in_mem_def cell_of_def readable_def)
    show ?thesis
    proof (cases "fb_state b = BUF_CLEAN")
      case cl: True
      then have "cell E l' x = None \<and> did E l' x = 0" by (intro pos_at(2) [OF l'(2)]) (use ec(1) True in blast)
      then show ?thesis using True lx cl by (metis evict_pos.simps(1) lpos_def option.distinct(1) pos_simps(1))
    next
      case False
      then obtain c where c: "covers (bufs E l') x c" "is_cleared b c" using ec(2) True by blast
      then show ?thesis using pos_at(1) [OF l'(2) c(1)] gone [OF c(2)] True lx False by (metis evict_pos.simps(1) lpos_def option.inject)
    qed
  next
    case out: False
    have k: ?thesis if "\<forall>c. covers (bufs E l') x c \<longleftrightarrow> covers (bufs E l) x c"
      using keep [of x] that out all_memD [OF am, of x] by (auto simp: lpos_def)
    show ?thesis
    proof (cases "fb_state b = BUF_CLEAN")
      case True
      then show ?thesis using ec(1) out by (intro k) blast
    next
      case False
      from ec(3) [OF False out] show ?thesis
      proof
        assume "\<exists>c d. covers (bufs E l') x c \<and> covers (bufs E l) x d \<and> fb_state d = BUF_FL_CLEARED \<and> is_cleared b c"
        then obtain c d where c: "covers (bufs E l') x c" "is_cleared b c" "covers (bufs E l) x d" "fb_state d = BUF_FL_CLEARED" by blast
        have "lpos E l x = Evicted" using pos_at(1) [OF inv c(3)] c(4) by (simp add: lpos_def pos_of_def cell_of_def)
        moreover have "did E l x = 0"
          using pos_at(1) [OF inv c(3)] c(3,4) ids_okD(2) [OF D(4)] unfolding covers_def by fastforce
        ultimately show ?thesis using out pos_at(1) [OF l'(2) c(1)] gone [OF c(2)] by (metis lpos_def option.inject)
      qed (rule k)
    qed
  qed
  then have "all_mem E l'" by (auto simp: all_mem_def)
  then show ?thesis using l'(1,2,4) x by blast
qed

end

end
