(* ===== verification/File_View.thy ===== *)
theory File_View
  imports File_Sync Buffer_Query Inode_Reset
begin

text \<open>
  What matters of a file for its content (\<open>fview\<close>): its positions with their dirty identifiers, its sizes, its
  state in the cache, the multipart upload, the locked ranges and the number of uploads.  For every critical
  section of the file operations there is a lemma here that gives the view after it; the file system around
  the file is kept well formed (\<open>fok\<close>).
\<close>

record fview =
  v_pos :: "u64 \<Rightarrow> pos"
  v_did :: "u64 \<Rightarrow> nat"
  v_cur :: nat
  v_size :: u64
  v_known :: u64
  v_last :: u64
  v_st :: CacheSt
  v_mpu :: "mpuState option"
  v_flushing :: int
  v_ranges :: "ReadRange list"
  v_pause :: int

definition view :: "('t, 'd, 'c) gEnv \<Rightarrow> ('t, 'd, 'c) Goofys \<Rightarrow> ptr \<Rightarrow> fview" where
  "view E s p = \<lparr>v_pos = lpos (bufEnvOf E p) (bufsOf s p), v_did = did (bufEnvOf E p) (bufsOf s p), v_cur = bl_curDirtyID (bufsOf s p),
     v_size = sizeOf s p, v_known = i_knownSize (heap s p), v_last = i_lastWriteEnd (heap s p), v_st = i_CacheState (heap s p),
     v_mpu = i_mpu (heap s p), v_flushing = i_IsFlushing (heap s p), v_ranges = i_readRanges (heap s p),
     v_pause = i_pauseWriters (heap s p)\<rparr>"

text \<open>A regular file that is not being renamed, in a well-formed file system without a disk cache.\<close>

definition fok :: "('t, 'd, 'c) gEnv \<Rightarrow> ('t, 'd, 'c) Goofys \<Rightarrow> ptr \<Rightarrow> bool" where
  "fok E s p \<longleftrightarrow> env_ok E \<and> bufs_ok E s \<and> p < nextPtr s \<and> all_mem (bufEnvOf E p) (bufsOf s p) \<and>
     i_oldParent (heap s p) = None \<and> i_dir (heap s p) = None \<and> i_s3Metadata (heap s p) \<noteq> None"

section \<open>Operations that change a field\<close>

definition ffields :: "('t, 'd, 'c) Inode \<Rightarrow> u64 \<times> u64 \<times> u64 \<times> mpuState option \<times> int \<times> ReadRange list \<times> int \<times> ptr option \<times> bool \<times> bool" where
  "ffields i = (a_Size (i_Attributes i), i_knownSize i, i_lastWriteEnd i, i_mpu i, i_IsFlushing i, i_readRanges i, i_pauseWriters i,
     i_oldParent i, i_dir i = None, i_s3Metadata i = None)"

lemma view_cong:
  assumes "bufview s' = bufview s" "ffields (heap s' p) = ffields (heap s p)"
  shows "view E s' p = (view E s p)\<lparr>v_st := i_CacheState (heap s' p)\<rparr>"
  using assms by (simp add: view_def bufsOf_def sizeOf_def bufview_def ffields_def fun_eq_iff)

lemma fok_cong:
  assumes "bufview s' = bufview s" "i_oldParent (heap s' p) = i_oldParent (heap s p)" "i_dir (heap s' p) = None \<longleftrightarrow> i_dir (heap s p) = None"
    "i_s3Metadata (heap s' p) = None \<longleftrightarrow> i_s3Metadata (heap s p) = None" "nextPtr s' = nextPtr s"
  shows "fok E s' p = fok E s p"
proof -
  have "bufs_ok E s' = bufs_ok E s" "bufsOf s' p = bufsOf s p"
    using assms(1,5) by (auto simp: bufview_def bufs_ok_def bufsOf_def fun_eq_iff)
  then show ?thesis using assms(2-5) by (simp add: fok_def)
qed

text \<open>Operations that keep all of it but the state in the cache.\<close>

definition inert :: "('t, 'd, 'c) act \<Rightarrow> ptr \<Rightarrow> bool" where
  "inert f p \<longleftrightarrow> (\<forall>s. bufview (f s) = bufview s \<and> ffields (heap (f s) p) = ffields (heap s p) \<and> nextPtr (f s) = nextPtr s)"

lemma inert_view:
  assumes "inert f p"
  shows "view E (f s) p = (view E s p)\<lparr>v_st := i_CacheState (heap (f s) p)\<rparr>" "fok E (f s) p = fok E s p"
  using assms view_cong [of "f s" s p E] fok_cong [of "f s" s p E] by (auto simp: inert_def ffields_def)

lemma addModified_fields:
  "ffields (heap (addModified s q n) p) = ffields (heap s p)" "nextPtr (addModified s q n) = nextPtr s"
  unfolding addModified_def by (rule fold_view; auto simp: ffields_def)+

lemma SetExpireTime_fields:
  "ffields (heap (SetExpireTime s q t) p) = ffields (heap s p)" "nextPtr (SetExpireTime s q t) = nextPtr s"
  by (auto simp: SetExpireTime_def Let_def ffields_def)

lemma inert_ops:
  "inert (\<lambda>s. SetCacheState E s p st) p" "inert (\<lambda>s. SetAttrTime E s p t) p" "inert (\<lambda>s. touch now s p) p"
  "inert WakeupFlusher p" "inert ScheduleRetryFlush p" "inert (\<lambda>s. recordFlushError now s p e) p" "inert (inflightAdd key) p" "inert (inflightEnd key) p"
  "inert (addPriority n d) p"
  by (auto simp: inert_def SetCacheState_def SetAttrTime_def addModified_fields SetExpireTime_fields touch_def WakeupFlusher_def
      ScheduleRetryFlush_def recordFlushError_def inflightAdd_def inflightEnd_def addPriority_def Let_def split: prod.split)
    (auto simp: ffields_def addModified_fields bufview_def)

lemma cacheState_simps [simp]:
  "i_CacheState (heap (SetCacheState E s p st) q) = (if q = p then st else i_CacheState (heap s q))"
  "i_CacheState (heap (SetAttrTime E s p t) q) = i_CacheState (heap s q)" "i_CacheState (heap (touch now s p) q) = i_CacheState (heap s q)"
  "i_CacheState (heap (WakeupFlusher s) q) = i_CacheState (heap s q)" "i_CacheState (heap (ScheduleRetryFlush s) q) = i_CacheState (heap s q)"
  "i_CacheState (heap (recordFlushError now s p e) q) = i_CacheState (heap s q)"
  "i_CacheState (heap (inflightAdd key s) q) = i_CacheState (heap s q)" "i_CacheState (heap (inflightEnd key s) q) = i_CacheState (heap s q)"
  "i_CacheState (heap (addPriority n d s) q) = i_CacheState (heap s q)"
proof -
  have st: "i_CacheState (heap s' q) = states s' q" for s' :: "('a, 'b, 'c) Goofys" and q by (simp add: states_def)
  show "i_CacheState (heap (SetCacheState E s p st) q) = (if q = p then st else i_CacheState (heap s q))"
    "i_CacheState (heap (SetAttrTime E s p t) q) = i_CacheState (heap s q)"
    "i_CacheState (heap (recordFlushError now s p e) q) = i_CacheState (heap s q)" unfolding st by simp_all
qed (auto simp: touch_def WakeupFlusher_def ScheduleRetryFlush_def inflightAdd_def inflightEnd_def addPriority_def)

lemma view_inert [simp]:
  "view E (SetCacheState E s p st) p = (view E s p)\<lparr>v_st := st\<rparr>" "view E (SetAttrTime E' s p t) p = view E s p"
  "view E (touch now s p) p = view E s p" "view E (WakeupFlusher s) p = view E s p" "view E (ScheduleRetryFlush s) p = view E s p"
  "view E (recordFlushError now s p e) p = view E s p" "view E (inflightAdd key s) p = view E s p" "view E (inflightEnd key s) p = view E s p"
  "view E (addPriority n d s) p = view E s p"
  using inert_ops [THEN inert_view(1)] by (simp_all add: view_def)

lemma fok_inert [simp]:
  "fok E (SetCacheState E' s p st) p = fok E s p" "fok E (SetAttrTime E' s p t) p = fok E s p"
  "fok E (touch now s p) p = fok E s p" "fok E (WakeupFlusher s) p = fok E s p" "fok E (ScheduleRetryFlush s) p = fok E s p"
  "fok E (recordFlushError now s p e) p = fok E s p" "fok E (inflightAdd key s) p = fok E s p" "fok E (inflightEnd key s) p = fok E s p"
  "fok E (addPriority n d s) p = fok E s p"
  by (rule inert_view(2), rule inert_ops)+

lemma view_fields [simp]:
  "view E (s\<lparr>hasNewWrites := b\<rparr>) p = view E s p" "view E (s\<lparr>bufferPool_cur := n\<rparr>) p = view E s p"
  "view E (s\<lparr>activeFlushers := n\<rparr>) p = view E s p" "view E (s\<lparr>nextMpu := k\<rparr>) p = view E s p"
  "view E (rangesDo p f s) p = (view E s p)\<lparr>v_ranges := f (v_ranges (view E s p))\<rparr>"
  "view E (startFlush n p s) p = (view E s p)\<lparr>v_flushing := v_flushing (view E s p) + n\<rparr>"
  "view E (endFlush n p s) p = (view E s p)\<lparr>v_flushing := v_flushing (view E s p) - n\<rparr>"
  "view E (upd p (\<lambda>i. i\<lparr>i_mpu := m\<rparr>) s) p = (view E s p)\<lparr>v_mpu := m\<rparr>"
  "view E (upd p (\<lambda>i. i\<lparr>i_lastWriteEnd := e\<rparr>) s) p = (view E s p)\<lparr>v_last := e\<rparr>"
  "view E (upd p (\<lambda>i. i\<lparr>i_readError := err\<rparr>) s) p = view E s p"
  "view E (upd p (\<lambda>i. i\<lparr>i_userMetadataDirty := k\<rparr>) s) p = view E s p"
  "view E (upd p (\<lambda>i. i\<lparr>i_Attributes := (i_Attributes i)\<lparr>a_Size := sz\<rparr>\<rparr>) s) p = (view E s p)\<lparr>v_size := sz\<rparr>"
  by (simp_all add: view_def rangesDo_def startFlush_def endFlush_def WakeupFlusher_def bufsOf_def sizeOf_def)

lemma fok_fields [simp]:
  "fok E (s\<lparr>hasNewWrites := b\<rparr>) p = fok E s p" "fok E (s\<lparr>bufferPool_cur := n\<rparr>) p = fok E s p"
  "fok E (s\<lparr>activeFlushers := n\<rparr>) p = fok E s p" "fok E (s\<lparr>nextMpu := k\<rparr>) p = fok E s p"
  "fok E (rangesDo p f s) p = fok E s p" "fok E (startFlush n p s) p = fok E s p" "fok E (endFlush n p s) p = fok E s p"
  "fok E (upd p (\<lambda>i. i\<lparr>i_mpu := m\<rparr>) s) p = fok E s p" "fok E (upd p (\<lambda>i. i\<lparr>i_lastWriteEnd := e\<rparr>) s) p = fok E s p"
  "fok E (upd p (\<lambda>i. i\<lparr>i_readError := err\<rparr>) s) p = fok E s p" "fok E (upd p (\<lambda>i. i\<lparr>i_userMetadataDirty := k\<rparr>) s) p = fok E s p"
  "fok E (upd p (\<lambda>i. i\<lparr>i_Attributes := (i_Attributes i)\<lparr>a_Size := sz\<rparr>\<rparr>) s) p = fok E s p"
  by (rule fok_cong; auto simp: rangesDo_def startFlush_def endFlush_def WakeupFlusher_def bufview_def)+

lemma view_sel:
  "v_size (view E s p) = sizeOf s p" "v_known (view E s p) = i_knownSize (heap s p)" "v_st (view E s p) = i_CacheState (heap s p)"
  "v_mpu (view E s p) = i_mpu (heap s p)" "v_flushing (view E s p) = i_IsFlushing (heap s p)" "v_ranges (view E s p) = i_readRanges (heap s p)"
  "v_pause (view E s p) = i_pauseWriters (heap s p)" "v_last (view E s p) = i_lastWriteEnd (heap s p)"
  "v_pos (view E s p) = lpos (bufEnvOf E p) (bufsOf s p)" "v_did (view E s p) = did (bufEnvOf E p) (bufsOf s p)"
  "v_cur (view E s p) = bl_curDirtyID (bufsOf s p)"
  by (simp_all add: view_def)

section \<open>Operations on the buffers\<close>

abbreviation maxSize :: "('t, 'd, 'c) gEnv \<Rightarrow> u64" where
  "maxSize E \<equiv> getMaxFileSize (g_parts E)"

abbreviation fileInv :: "('t, 'd, 'c) gEnv \<Rightarrow> ('t, 'd, 'c) Goofys \<Rightarrow> ptr \<Rightarrow> ('t, 'd, 'c BufferQueue) BufferList \<Rightarrow> bool" where
  "fileInv E s p \<equiv> BL_inv (bufEnvOf E p) (maxSize E) (bq_frame (g_C E) p (\<lambda>j. bq_view (g_C E) j (cleanQueue s))) (bq_view (g_C E) p)"

text \<open>New identifiers are larger than all earlier ones.\<close>

definition vids :: "fview \<Rightarrow> fview \<Rightarrow> bool" where
  "vids v v' \<longleftrightarrow> v_cur v \<le> v_cur v' \<and> (\<forall>x. v_did v' x = 0 \<or> v_cur v < v_did v' x \<or> v_did v' x = v_did v x)"

lemma fokD:
  assumes "fok E s p"
  shows "buffer_env (bufEnvOf E p) (maxSize E) (bq_frame (g_C E) p (\<lambda>j. bq_view (g_C E) j (cleanQueue s))) (bq_view (g_C E) p)"
    "fileInv E s p (bufsOf s p)" "all_mem (bufEnvOf E p) (bufsOf s p)" "maxSize E < u64_max"
proof -
  show env: "buffer_env (bufEnvOf E p) (maxSize E) (bq_frame (g_C E) p (\<lambda>j. bq_view (g_C E) j (cleanQueue s))) (bq_view (g_C E) p)"
    using assms by (auto simp: fok_def intro: bufEnvOf_env)
  show "fileInv E s p (bufsOf s p)" using assms bufs_okD [of E s p] by (simp add: fok_def bufsOf_def)
  show "all_mem (bufEnvOf E p) (bufsOf s p)" using assms by (simp add: fok_def)
  show "maxSize E < u64_max" by (rule buffer_env.M_bound [OF env])
qed

lemma withBuffers_op:
  assumes ok: "fok E s p" and f: "\<exists>l r. f (bufsOf s p) = Some (l, r) \<and> fileInv E s p l \<and> all_mem (bufEnvOf E p) l \<and> Q l r"
  shows "\<exists>s' r. withBuffers p f s = Some (s', r) \<and> fok E s' p \<and> Q (bufsOf s' p) r \<and> heap s' p = (heap s p)\<lparr>i_buffers := bufsOf s' p\<rparr> \<and>
    view E s' p = (view E s p)\<lparr>v_pos := lpos (bufEnvOf E p) (bufsOf s' p), v_did := did (bufEnvOf E p) (bufsOf s' p), v_cur := bl_curDirtyID (bufsOf s' p)\<rparr>"
proof -
  from f obtain l r where l: "f (bufsOf s p) = Some (l, r)" "fileInv E s p l" "all_mem (bufEnvOf E p) l" "Q l r" by blast
  let ?s = "(upd p (\<lambda>i. i\<lparr>i_buffers := l\<rparr>) s)\<lparr>cleanQueue := bl_helpers l\<rparr>"
  have b: "bufsOf ?s p = l" by (simp add: bufsOf_def)
  have w: "withBuffers p f s = Some (?s, r)" using l(1) by (simp add: withBuffers_def bufsOf_def)
  have "bufs_ok E ?s" using ok l(2) by (intro bufs_okI) (auto simp: fok_def)
  then have "fok E ?s p" using ok l(3) b by (simp add: fok_def)
  then show ?thesis using w l(4) b by (intro exI [of _ ?s] exI [of _ r]) (simp add: view_def sizeOf_def)
qed

lemma buffersDo_op:
  assumes ok: "fok E s p" and f: "\<exists>l. f (bufsOf s p) = Some l \<and> fileInv E s p l \<and> all_mem (bufEnvOf E p) l \<and> Q l"
  shows "\<exists>s'. buffersDo p f s = Some s' \<and> fok E s' p \<and> Q (bufsOf s' p) \<and> heap s' p = (heap s p)\<lparr>i_buffers := bufsOf s' p\<rparr> \<and>
    view E s' p = (view E s p)\<lparr>v_pos := lpos (bufEnvOf E p) (bufsOf s' p), v_did := did (bufEnvOf E p) (bufsOf s' p), v_cur := bl_curDirtyID (bufsOf s' p)\<rparr>"
proof -
  have "\<exists>l r. map_option (\<lambda>l. (l, ())) (f (bufsOf s p)) = Some (l, r) \<and> fileInv E s p l \<and> all_mem (bufEnvOf E p) l \<and> Q l" using f by auto
  from withBuffers_op [where f = "\<lambda>l. map_option (\<lambda>l. (l, ())) (f l)" and Q = "\<lambda>l _. Q l", OF ok this] show ?thesis by (auto simp: buffersDo_def)
qed

lemma vids_idst: "idst (bufEnvOf E p) (bufsOf s p) (bufsOf s' p) \<Longrightarrow> vids (view E s p) (view E s' p)"
  by (auto simp: vids_def idst_def view_def)

lemma vids_refl [simp]: "vids v v"
  by (simp add: vids_def)

lemma view_dirty:
  assumes "fok E s p"
  shows "v_did (view E s p) x \<noteq> 0 \<longleftrightarrow> dirty (v_pos (view E s p) x)" "v_did (view E s p) x \<le> v_cur (view E s p)"
  using buffer_env.did_dirty [OF fokD(1) [OF assms] fokD(2,3) [OF assms]] by (simp_all add: view_def)

text \<open>The view after an operation on the buffers that never reuses an identifier: \<open>q\<close> are the new positions.\<close>

definition effect :: "('t, 'd, 'c) gEnv \<Rightarrow> ('t, 'd, 'c) Goofys \<Rightarrow> ptr \<Rightarrow> (u64 \<Rightarrow> pos) \<Rightarrow> ('t, 'd, 'c) Goofys \<Rightarrow> bool" where
  "effect E s p q s' \<longleftrightarrow> fok E s' p \<and> vids (view E s p) (view E s' p) \<and>
     (\<exists>D c. view E s' p = (view E s p)\<lparr>v_pos := q, v_did := D, v_cur := c\<rparr>)"

lemma withBuffers_effect':
  assumes ok: "fok E s p" and f: "\<exists>l r. f (bufsOf s p) = Some (l, r) \<and> fileInv E s p l \<and> all_mem (bufEnvOf E p) l \<and>
    idst (bufEnvOf E p) (bufsOf s p) l \<and> (\<forall>x. lpos (bufEnvOf E p) l x = q x) \<and> Q l"
  shows "\<exists>s' r. withBuffers p f s = Some (s', r) \<and> effect E s p q s' \<and> Q (bufsOf s' p)"
proof -
  from withBuffers_op [where f = f and Q = "\<lambda>l r. idst (bufEnvOf E p) (bufsOf s p) l \<and> (\<forall>x. lpos (bufEnvOf E p) l x = q x) \<and> Q l", OF ok f]
  obtain s' n where s': "withBuffers p f s = Some (s', n)" "fok E s' p" "idst (bufEnvOf E p) (bufsOf s p) (bufsOf s' p)"
    "(\<forall>x. lpos (bufEnvOf E p) (bufsOf s' p) x = q x) \<and> Q (bufsOf s' p)"
    "view E s' p = (view E s p)\<lparr>v_pos := lpos (bufEnvOf E p) (bufsOf s' p), v_did := did (bufEnvOf E p) (bufsOf s' p), v_cur := bl_curDirtyID (bufsOf s' p)\<rparr>"
    by blast
  have "lpos (bufEnvOf E p) (bufsOf s' p) = q" using s'(4) by (simp add: fun_eq_iff)
  then have "effect E s p q s'" using s'(2,5) vids_idst [OF s'(3)] unfolding effect_def by blast
  then show ?thesis using s'(1,4) by blast
qed

lemmas withBuffers_effect = withBuffers_effect' [where Q = "\<lambda>_. True", unfolded simp_thms]

lemma buffersDo_effect:
  assumes ok: "fok E s p" and f: "\<exists>l. f (bufsOf s p) = Some l \<and> fileInv E s p l \<and> all_mem (bufEnvOf E p) l \<and>
    idst (bufEnvOf E p) (bufsOf s p) l \<and> (\<forall>x. lpos (bufEnvOf E p) l x = q x)"
  shows "\<exists>s'. buffersDo p f s = Some s' \<and> effect E s p q s'"
proof -
  have "\<exists>l r. map_option (\<lambda>l. (l, ())) (f (bufsOf s p)) = Some (l, r) \<and> fileInv E s p l \<and> all_mem (bufEnvOf E p) l \<and>
    idst (bufEnvOf E p) (bufsOf s p) l \<and> (\<forall>x. lpos (bufEnvOf E p) l x = q x)" using f by auto
  from withBuffers_effect [where f = "\<lambda>l. map_option (\<lambda>l. (l, ())) (f l)", OF ok this] show ?thesis by (auto simp: buffersDo_def)
qed

lemma Add_view:
  assumes ok: "fok E s p" and d: "data \<noteq> []" "off + length data \<le> maxSize E" and st: "st = BUF_DIRTY \<or> st = BUF_CLEAN"
  shows "\<exists>s' n. withBuffers p (\<lambda>l. Add (bufEnvOf E p) l off data slack st cp) s = Some (s', n) \<and>
    effect E s p (\<lambda>x. if off \<le> x \<and> x < off + length data
       then (if st = BUF_DIRTY then Here BUF_DIRTY False (data ! (x - off)) else load_pos (data ! (x - off)) (v_pos (view E s p) x))
       else v_pos (view E s p) x) s' \<and>
    (st = BUF_DIRTY \<longrightarrow> (\<forall>x. off \<le> x \<longrightarrow> x < off + length data \<longrightarrow> v_cur (view E s p) < v_did (view E s' p) x))"
  unfolding view_sel
  by (rule withBuffers_effect' [where Q = "\<lambda>l. st = BUF_DIRTY \<longrightarrow>
        (\<forall>x. off \<le> x \<longrightarrow> x < off + length data \<longrightarrow> bl_curDirtyID (bufsOf s p) < did (bufEnvOf E p) l x)", OF ok],
      rule buffer_env.Add_pos [OF fokD(1-3) [OF ok] d st])

lemma RemoveRange_view:
  assumes ok: "fok E s p" and sz: "0 < sz" "off + sz < u64_max"
  shows "\<exists>s' n. withBuffers p (\<lambda>l. RemoveRange (bufEnvOf E p) l off sz (\<lambda>_. True)) s = Some (s', n) \<and>
    effect E s p (\<lambda>x. if off \<le> x \<and> x < off + sz then Absent else v_pos (view E s p) x) s'"
  unfolding view_sel(9) by (rule withBuffers_effect [OF ok], rule buffer_env.RemoveRange_pos [OF fokD(1-3) [OF ok] sz])

lemma RemoveLoading_view:
  assumes ok: "fok E s p" and sz: "0 < sz" "off + sz < u64_max"
  shows "\<exists>s'. buffersDo p (\<lambda>l. RemoveLoading (bufEnvOf E p) l off sz) s = Some s' \<and> effect E s p (v_pos (view E s p)) s'"
  unfolding view_sel(9) by (rule buffersDo_effect [OF ok], rule buffer_env.RemoveLoading_pos [OF fokD(1-3) [OF ok] sz])

lemma ZeroRange_view:
  assumes ok: "fok E s p" and sz: "0 < sz" "off + sz \<le> maxSize E"
    and nz: "\<And>x st v. off \<le> x \<Longrightarrow> v_pos (view E s p) x \<noteq> Here st True v"
  shows "\<exists>s' n. withBuffers p (\<lambda>l. map_option (\<lambda>(l, _, allocated). (l, allocated)) (ZeroRange (bufEnvOf E p) l off sz)) s = Some (s', n) \<and>
    effect E s p (\<lambda>x. if off \<le> x \<and> x < off + sz then Here BUF_DIRTY True 0 else v_pos (view E s p) x) s' \<and>
    (\<forall>x. off \<le> x \<longrightarrow> x < off + sz \<longrightarrow> v_cur (view E s p) < v_did (view E s' p) x)"
proof -
  from buffer_env.ZeroRange_pos [OF fokD(1-3) [OF ok] sz] nz [unfolded view_sel(9)]
  have "\<exists>l n. ZeroRange (bufEnvOf E p) (bufsOf s p) off sz = Some (l, True, n) \<and> fileInv E s p l \<and> all_mem (bufEnvOf E p) l \<and>
    idst (bufEnvOf E p) (bufsOf s p) l \<and> (\<forall>x. lpos (bufEnvOf E p) l x = (if off \<le> x \<and> x < off + sz then Here BUF_DIRTY True 0 else lpos (bufEnvOf E p) (bufsOf s p) x)) \<and>
    (\<forall>x. off \<le> x \<longrightarrow> x < off + sz \<longrightarrow> bl_curDirtyID (bufsOf s p) < did (bufEnvOf E p) l x)"
    by blast
  then show ?thesis unfolding view_sel
    by (intro withBuffers_effect' [where Q = "\<lambda>l. \<forall>x. off \<le> x \<longrightarrow> x < off + sz \<longrightarrow> bl_curDirtyID (bufsOf s p) < did (bufEnvOf E p) l x", OF ok]) force
qed

lemma ZeroRange_chg:
  assumes ok: "fok E s p" and sz: "off + sz \<le> maxSize E"
  shows "\<exists>s' chg. withBuffers p (\<lambda>l. map_option (\<lambda>(l, chg, _). (l, chg)) (ZeroRange (bufEnvOf E p) l off sz)) s = Some (s', chg) \<and>
    (if chg then effect E s p (\<lambda>x. if off \<le> x \<and> x < off + sz then Here BUF_DIRTY True 0 else v_pos (view E s p) x) s' \<and>
       (\<forall>x. off \<le> x \<longrightarrow> x < off + sz \<longrightarrow> v_cur (view E s p) < v_did (view E s' p) x)
     else fok E s' p \<and> view E s' p = view E s p \<and> (\<forall>x. off \<le> x \<longrightarrow> x < off + sz \<longrightarrow> (\<exists>st. v_pos (view E s p) x = Here st True 0)))"
proof -
  let ?f = "\<lambda>l. map_option (\<lambda>(l, chg, _). (l, chg)) (ZeroRange (bufEnvOf E p) l off sz)"
  define Q where "Q = (\<lambda>l chg. idst (bufEnvOf E p) (bufsOf s p) l \<and> (if chg then (\<forall>x. lpos (bufEnvOf E p) l x =
         (if off \<le> x \<and> x < off + sz then Here BUF_DIRTY True 0 else lpos (bufEnvOf E p) (bufsOf s p) x)) \<and>
       (\<forall>x. off \<le> x \<longrightarrow> x < off + sz \<longrightarrow> bl_curDirtyID (bufsOf s p) < did (bufEnvOf E p) l x)
     else l = bufsOf s p \<and> (\<forall>x. off \<le> x \<longrightarrow> x < off + sz \<longrightarrow> (\<exists>st. lpos (bufEnvOf E p) (bufsOf s p) x = Here st True 0))))"
  have "\<exists>l r. ?f (bufsOf s p) = Some (l, r) \<and> fileInv E s p l \<and> all_mem (bufEnvOf E p) l \<and> Q l r"
  proof (cases "sz = 0")
    case True
    then show ?thesis using fokD(2,3) [OF ok] by (intro exI [of _ "bufsOf s p"] exI [of _ False]) (simp add: ZeroRange_def idst_def Q_def)
  next
    case False
    then show ?thesis using buffer_env.ZeroRange_any [OF fokD(1-3) [OF ok] _ sz] unfolding Q_def by (auto split: if_splits)
  qed
  from withBuffers_op [where f = ?f and Q = Q, OF ok this] obtain s' chg where s': "withBuffers p ?f s = Some (s', chg)" "fok E s' p" "Q (bufsOf s' p) chg"
    "view E s' p = (view E s p)\<lparr>v_pos := lpos (bufEnvOf E p) (bufsOf s' p), v_did := did (bufEnvOf E p) (bufsOf s' p), v_cur := bl_curDirtyID (bufsOf s' p)\<rparr>"
    by blast
  note q = s'(3) [unfolded Q_def]
  show ?thesis
  proof (cases chg)
    case True
    then have "lpos (bufEnvOf E p) (bufsOf s' p) = (\<lambda>x. if off \<le> x \<and> x < off + sz then Here BUF_DIRTY True 0 else lpos (bufEnvOf E p) (bufsOf s p) x)"
      using q by (simp add: fun_eq_iff)
    then have "effect E s p (\<lambda>x. if off \<le> x \<and> x < off + sz then Here BUF_DIRTY True 0 else v_pos (view E s p) x) s'"
      using s'(2,4) q vids_idst [of E p s s'] unfolding effect_def view_sel(9) by auto
    then show ?thesis using s'(1) q True by (intro exI [of _ s'] exI [of _ chg]) (simp add: view_sel)
  next
    case False
    then have "view E s' p = view E s p" using q by (subst s'(4)) (simp add: view_def)
    then show ?thesis using s'(1,2) q False by (intro exI [of _ s'] exI [of _ chg]) (simp add: view_sel)
  qed
qed

lemma AddLoading_view:
  assumes ok: "fok E s p" and sz: "off + sz \<le> maxSize E"
  shows "\<exists>s'. buffersDo p (\<lambda>l. AddLoading (bufEnvOf E p) l off sz) s = Some s' \<and> effect E s p (v_pos (view E s p)) s'"
  unfolding view_sel(9) by (rule buffersDo_effect [OF ok], rule buffer_env.AddLoading_pos [OF fokD(1-3) [OF ok] sz])

text \<open>Changes of the state of what was uploaded: the identifiers of the snapshot disappear.\<close>

text \<open>The positions that a snapshot covers change their state and lose their identifier.\<close>

definition retagged :: "BufferState \<Rightarrow> nat set \<Rightarrow> fview \<Rightarrow> fview" where
  "retagged st ids v = v\<lparr>
     v_pos := \<lambda>x. if v_did v x \<noteq> 0 \<and> v_did v x \<in> ids then retag_pos st (v_pos v x) else v_pos v x,
     v_did := \<lambda>x. if v_did v x \<in> ids then 0 else v_did v x\<rparr>"

lemma retagged_simps [simp]:
  "v_mpu (retagged st ids v) = v_mpu v" "v_size (retagged st ids v) = v_size v" "v_known (retagged st ids v) = v_known v"
  "v_last (retagged st ids v) = v_last v" "v_st (retagged st ids v) = v_st v" "v_flushing (retagged st ids v) = v_flushing v"
  "v_ranges (retagged st ids v) = v_ranges v" "v_cur (retagged st ids v) = v_cur v"
  by (simp_all add: retagged_def)

lemma SetState_view:
  assumes ok: "fok E s p" and sz: "off + sz < u64_max" and st: "st = BUF_CLEAN \<or> st = BUF_FLUSHED_FULL \<or> st = BUF_FLUSHED_CUT"
    and ids: "\<And>x. v_did (view E s p) x \<in> ids \<Longrightarrow> v_did (view E s p) x \<noteq> 0 \<Longrightarrow> off \<le> x \<and> x < off + sz"
  shows "\<exists>s'. buffersDo p (\<lambda>l. SetState (bufEnvOf E p) l off sz ids st) s = Some s' \<and> fok E s' p \<and>
    view E s' p = retagged st ids (view E s p)"
proof -
  note D = fokD [OF ok]
  let ?E = "bufEnvOf E p" and ?l = "bufsOf s p"
  let ?q = "\<lambda>x. if did ?E ?l x \<noteq> 0 \<and> did ?E ?l x \<in> ids then retag_pos st (lpos ?E ?l x) else lpos ?E ?l x"
  let ?d = "\<lambda>x. if did ?E ?l x \<in> ids then 0 else did ?E ?l x"
  let ?Q = "\<lambda>l. bl_curDirtyID l = bl_curDirtyID ?l \<and> (\<forall>x. lpos ?E l x = ?q x) \<and> (\<forall>x. did ?E l x = ?d x)"
  have "\<exists>l. SetState ?E ?l off sz ids st = Some l \<and> fileInv E s p l \<and> all_mem ?E l \<and> ?Q l"
    by (rule buffer_env.SetState_pos [OF D(1-3) sz st]) (use ids [unfolded view_sel] in blast)
  from buffersDo_op [where f = "\<lambda>l. SetState ?E l off sz ids st" and Q = ?Q, OF ok this]
  obtain s' where s': "buffersDo p (\<lambda>l. SetState ?E l off sz ids st) s = Some s'" "fok E s' p" "?Q (bufsOf s' p)"
    "view E s' p = (view E s p)\<lparr>v_pos := lpos ?E (bufsOf s' p), v_did := did ?E (bufsOf s' p), v_cur := bl_curDirtyID (bufsOf s' p)\<rparr>" by blast
  have "lpos ?E (bufsOf s' p) = ?q" "did ?E (bufsOf s' p) = ?d" "bl_curDirtyID (bufsOf s' p) = v_cur (view E s p)"
    using s'(3) by (simp_all add: fun_eq_iff view_sel)
  then show ?thesis using s'(1,2,4) by (simp add: view_def fun_eq_iff retagged_def)
qed

lemma SetFlushedClean_view:
  assumes ok: "fok E s p"
  shows "\<exists>s'. buffersDo p (SetFlushedClean (bufEnvOf E p)) s = Some s' \<and> fok E s' p \<and>
    view E s' p = (view E s p)\<lparr>v_pos := \<lambda>x. clean_pos (v_pos (view E s p) x)\<rparr>"
proof -
  note D = fokD [OF ok]
  let ?E = "bufEnvOf E p" and ?l = "bufsOf s p"
  let ?Q = "\<lambda>l. bl_curDirtyID l = bl_curDirtyID ?l \<and> (\<forall>x. lpos ?E l x = clean_pos (lpos ?E ?l x)) \<and> (\<forall>x. did ?E l x = did ?E ?l x)"
  have "\<exists>l. SetFlushedClean ?E ?l = Some l \<and> fileInv E s p l \<and> all_mem ?E l \<and> ?Q l" by (rule buffer_env.SetFlushedClean_pos [OF D(1-3)])
  from buffersDo_op [where f = "SetFlushedClean ?E" and Q = ?Q, OF ok this]
  obtain s' where s': "buffersDo p (SetFlushedClean ?E) s = Some s'" "fok E s' p" "?Q (bufsOf s' p)"
    "view E s' p = (view E s p)\<lparr>v_pos := lpos ?E (bufsOf s' p), v_did := did ?E (bufsOf s' p), v_cur := bl_curDirtyID (bufsOf s' p)\<rparr>" by blast
  have "lpos ?E (bufsOf s' p) = (\<lambda>x. clean_pos (lpos ?E ?l x))" "did ?E (bufsOf s' p) = v_did (view E s p)" "bl_curDirtyID (bufsOf s' p) = v_cur (view E s p)"
    using s'(3) by (simp_all add: fun_eq_iff view_sel)
  then show ?thesis using s'(1,2,4) by (simp add: view_def fun_eq_iff)
qed

text \<open>Eviction without a disk cache: only what no lock covers and what can be had again.\<close>

definition evicts :: "fview \<Rightarrow> (u64 \<Rightarrow> pos) \<Rightarrow> bool" where
  "evicts v q \<longleftrightarrow> (\<forall>x. q x = v_pos v x \<or>
     q x = evict_pos (v_pos v x) \<and> (\<exists>st z w. v_pos v x = Here st z w \<and> (st = BUF_CLEAN \<or> st = BUF_FLUSHED_FULL)) \<and>
     (\<forall>r \<in> set (v_ranges v). rr_Offset r + rr_Size r < u64_max \<longrightarrow> \<not> (rr_Offset r \<le> x \<and> x < rr_Offset r + rr_Size r)))"

lemma evictBuffer_view:
  assumes ok: "fok E s p" and fl: "f_CachePath (g_flags E) = []"
  shows "\<exists>s' n q. evictBuffer E os s p e = Some (s', n) \<and> fok E s' p \<and> view E s' p = (view E s p)\<lparr>v_pos := q\<rparr> \<and> evicts (view E s p) q"
proof -
  note D = fokD [OF ok]
  let ?E = "bufEnvOf E p" and ?l = "bufsOf s p"
  have stay: ?thesis if "evictBuffer E os s p e = Some (s, 0)"
    using that ok by (intro exI [of _ s] exI [of _ 0] exI [of _ "v_pos (view E s p)"]) (simp add: evicts_def)
  show ?thesis
  proof (cases "BL_Get ?E ?l e")
    case None
    then show ?thesis by (intro stay) (simp add: evictBuffer_def)
  next
    case (Some buf)
    then have b: "bufs ?E ?l e = Some buf" by (simp add: BL_Get_def bufs_def)
    note sb = buffer_env.inv_shape [OF D(1,2) b]
    show ?thesis
    proof (cases "(fb_state buf = BUF_CLEAN \<or> fb_state buf = BUF_FLUSHED_FULL) \<and> fb_ptr buf \<noteq> None \<and>
             \<not> IsRangeLocked (fb_offset buf) (fb_length buf) False (i_readRanges (heap s p))")
      case False
      then show ?thesis using Some by (intro stay) (auto simp: evictBuffer_def)
    next
      case True
      then obtain a where a: "fb_ptr buf = Some a" by blast
      let ?q = "\<lambda>x. if fb_offset buf \<le> x \<and> x < e then evict_pos (lpos ?E ?l x) else lpos ?E ?l x"
      let ?Q = "\<lambda>l. bl_curDirtyID l = bl_curDirtyID ?l \<and> (\<forall>x. lpos ?E l x = ?q x \<and> did ?E l x = did ?E ?l x)"
      let ?f = "\<lambda>l. map_option (\<lambda>(l, allocated, _). (l, allocated)) (EvictFromMemory ?E l buf)"
      have "\<exists>l n d. EvictFromMemory ?E ?l buf = Some (l, n, d) \<and> fileInv E s p l \<and> all_mem ?E l \<and> ?Q l"
        by (rule buffer_env.Evict_pos [OF D(1-3) b a]) (use True in blast)
      then have "\<exists>l r. ?f ?l = Some (l, r) \<and> fileInv E s p l \<and> all_mem ?E l \<and> ?Q l" by force
      from withBuffers_op [where f = ?f and Q = "\<lambda>l _. ?Q l", OF ok this]
      obtain s' n where s': "withBuffers p ?f s = Some (s', n)" "fok E s' p" "?Q (bufsOf s' p)"
        "view E s' p = (view E s p)\<lparr>v_pos := lpos ?E (bufsOf s' p), v_did := did ?E (bufsOf s' p), v_cur := bl_curDirtyID (bufsOf s' p)\<rparr>" by blast
      have "lpos ?E (bufsOf s' p) = ?q" "did ?E (bufsOf s' p) = did ?E ?l" "bl_curDirtyID (bufsOf s' p) = bl_curDirtyID ?l"
        using s'(3) by (simp_all add: fun_eq_iff)
      then have v: "view E s' p = (view E s p)\<lparr>v_pos := ?q\<rparr>" using s'(4) by (simp add: view_def)
      have ev: "evictBuffer E os s p e = Some (s'\<lparr>bufferPool_cur := bufferPool_cur s' + n\<rparr>, n)"
        using Some True s'(1) fl by (simp add: evictBuffer_def tryEvictToDisk_def)
      have bm: "buf_mem_ok ?l buf" using BL_invD(2) [OF D(2)] b by (auto simp: mem_ok_def)
      have here: "\<exists>z w. lpos ?E ?l x = Here (fb_state buf) z w" if "fb_offset buf \<le> x" "x < e" for x
        using buffer_env.cell_pos [OF D(1-3) b that] bm a True
        by (auto simp: pos_of_def in_mem_def cell_of_def buf_mem_ok_def split: option.splits)
      have lock: "\<not> (rr_Offset r \<le> x \<and> x < rr_Offset r + rr_Size r)"
        if "r \<in> set (i_readRanges (heap s p))" "rr_Offset r + rr_Size r < u64_max" "fb_offset buf \<le> x" "x < e" for r x
      proof
        assume x: "rr_Offset r \<le> x \<and> x < rr_Offset r + rr_Size r"
        have "add64 (fb_offset buf) (fb_length buf) = e" using sb(2,3) D(4) by (simp add: u64_simps)
        then have "IsRangeLocked (fb_offset buf) (fb_length buf) False (i_readRanges (heap s p))"
          unfolding IsRangeLocked_iff using that x by (intro bexI [of _ r]) (auto simp: u64_simps)
        then show False using True by blast
      qed
      have "evicts (view E s p) ?q"
        unfolding evicts_def view_sel using here lock True by (metis (no_types, lifting))
      then show ?thesis using ev v s'(2) by (intro exI [of _ "s'\<lparr>bufferPool_cur := bufferPool_cur s' + n\<rparr>"] exI [of _ n] exI [of _ ?q]) simp
    qed
  qed
qed

end
