(* ===== verification/File_Inv.thy ===== *)
theory File_Inv
  imports File_View
begin

text \<open>
  The invariant of a file that is written, loaded, evicted and uploaded at the same time.  Next to its view
  stands what the outside knows (\<open>ghost\<close>): the content that was written, the object in the store, the parts
  of the multipart upload that the store holds, and the uploads under way with the point that each has reached.
\<close>

datatype partPhase =
    PartStart nat
  | PartLoading nat "nat option" u64
  | PartAdding nat partJob

datatype exJob =
    SmallStart
  | SmallLoading u64
  | SmallPutting putJob
  | MpuStart "nat option" string
  | MpuBeginning
  | CompStart u64
  | Copying u64 u64 "nat option" string mpuState "(u64 \<times> u64 \<times> u64) list"
  | Committing commitJob
  | MetaUpdating metaJob

record ghost =
  h_content :: "u64 \<Rightarrow> byte"
  h_obj :: "byte list"
  h_parts :: "nat \<Rightarrow> byte list"
  h_up :: "nat \<Rightarrow> partPhase option"
  h_ex :: "exJob option"

section \<open>Parts\<close>

definition inPart :: "PartSizeConfig list \<Rightarrow> nat \<Rightarrow> u64 \<Rightarrow> bool" where
  "inPart ps i x \<longleftrightarrow> i < length (part_lens ps) \<and> part_start ps i \<le> x \<and> x < part_start ps i + part_lens ps ! i"

definition recorded :: "fview \<Rightarrow> nat \<Rightarrow> bool" where
  "recorded v i \<longleftrightarrow> (\<exists>m. v_mpu v = Some m \<and> i < length (mpu_Parts m) \<and> mpu_Parts m ! i \<noteq> None)"

section \<open>The invariant\<close>

text \<open>What a position may be.\<close>

definition onServer :: "ghost \<Rightarrow> u64 \<Rightarrow> bool" where
  "onServer h x \<longleftrightarrow> x < length (h_obj h) \<and> h_obj h ! x = h_content h x"

definition uploaded :: "PartSizeConfig list \<Rightarrow> fview \<Rightarrow> ghost \<Rightarrow> bool \<Rightarrow> u64 \<Rightarrow> bool" where
  "uploaded ps v h full x \<longleftrightarrow> (\<exists>i. inPart ps i x \<and> recorded v i \<and> (full \<longrightarrow> length (h_parts h i) = part_lens ps ! i))"

fun cellOk :: "PartSizeConfig list \<Rightarrow> fview \<Rightarrow> ghost \<Rightarrow> u64 \<Rightarrow> pos \<Rightarrow> bool" where
  "cellOk ps v h x Absent \<longleftrightarrow> (x < v_size v \<longrightarrow> onServer h x)"
| "cellOk ps v h x Evicted \<longleftrightarrow> x < v_size v \<and> uploaded ps v h True x"
| "cellOk ps v h x (Here st z w) \<longleftrightarrow>
     (if x < v_size v then w = h_content h x \<and> st \<noteq> BUF_FL_CLEARED \<and> (st = BUF_CLEAN \<longrightarrow> onServer h x) \<and>
        (st = BUF_FLUSHED_FULL \<longrightarrow> uploaded ps v h True x) \<and> (st = BUF_FLUSHED_CUT \<longrightarrow> uploaded ps v h False x)
      else st = BUF_CLEAN \<and> \<not> z)"

definition sizesOk :: "PartSizeConfig list \<Rightarrow> fview \<Rightarrow> ghost \<Rightarrow> bool" where
  "sizesOk ps v h \<longleftrightarrow> v_size v \<le> getMaxFileSize ps \<and> v_known v \<le> getMaxFileSize ps \<and> v_last v \<le> getMaxFileSize ps \<and>
     length (h_obj h) = v_known v \<and> (v_st v = ST_CACHED \<or> uploading (v_st v)) \<and>
     (\<forall>m. v_mpu v = Some m \<longrightarrow> length (part_lens ps) \<le> length (mpu_Parts m))"

definition partsOk :: "PartSizeConfig list \<Rightarrow> fview \<Rightarrow> ghost \<Rightarrow> bool" where
  "partsOk ps v h \<longleftrightarrow> (\<forall>i. recorded v i \<longrightarrow> i < length (part_lens ps) \<and> 0 < length (h_parts h i) \<and>
     length (h_parts h i) \<le> part_lens ps ! i \<and> part_start ps i + length (h_parts h i) \<le> v_size v \<and>
     (\<forall>x. inPart ps i x \<longrightarrow> x < v_size v \<longrightarrow> \<not> dirty (v_pos v x) \<longrightarrow>
        x - part_start ps i < length (h_parts h i) \<and> h_parts h i ! (x - part_start ps i) = h_content h x))"

definition cachedOk :: "fview \<Rightarrow> bool" where
  "cachedOk v \<longleftrightarrow> (v_st v = ST_CACHED \<longrightarrow> v_size v = v_known v \<and> (\<forall>x. \<not> dirty (v_pos v x) \<and> \<not> flushed (v_pos v x)))"

text \<open>The bytes \<open>S\<close> were taken from \<open>off\<close> on with the dirty identifiers \<open>ids\<close>: what was written since has another identifier.\<close>

definition snapshot :: "fview \<Rightarrow> ghost \<Rightarrow> u64 \<Rightarrow> byte list \<Rightarrow> nat set \<Rightarrow> bool" where
  "snapshot v h off S ids \<longleftrightarrow>
     (\<forall>x. off \<le> x \<longrightarrow> x < off + length S \<longrightarrow> dirty (v_pos v x) \<and> v_did v x \<notin> ids \<or> S ! (x - off) = h_content h x) \<and>
     (\<forall>x. v_did v x \<in> ids \<longrightarrow> off \<le> x \<and> x < off + length S) \<and> (\<forall>k \<in> ids. 0 < k \<and> k \<le> v_cur v)"

definition sizeFits :: "PartSizeConfig list \<Rightarrow> fview \<Rightarrow> ghost \<Rightarrow> nat \<Rightarrow> u64 \<Rightarrow> bool" where
  "sizeFits ps v h i n \<longleftrightarrow> 0 < n \<and> n \<le> part_lens ps ! i \<and> part_start ps i + n \<le> v_size v \<and>
     (recorded v i \<longrightarrow> length (h_parts h i) \<le> n) \<and>
     (\<forall>x. part_start ps i + n \<le> x \<longrightarrow> inPart ps i x \<longrightarrow> x < v_size v \<longrightarrow> dirty (v_pos v x))"

fun phaseOk :: "PartSizeConfig list \<Rightarrow> fview \<Rightarrow> ghost \<Rightarrow> nat \<Rightarrow> partPhase \<Rightarrow> bool" where
  "phaseOk ps v h i (PartStart prio) \<longleftrightarrow> True"
| "phaseOk ps v h i (PartLoading prio c n) \<longleftrightarrow> sizeFits ps v h i n"
| "phaseOk ps v h i (PartAdding prio job) \<longleftrightarrow> sizeFits ps v h i (aj_size job) \<and> aj_part job = i \<and> aj_offset job = part_start ps i \<and>
     aj_full job = part_lens ps ! i \<and> MultiReader_Len (aj_body job) = aj_size job \<and> length (mr_bytes (aj_body job)) = aj_size job \<and>
     snapshot v h (part_start ps i) (mr_bytes (aj_body job)) (aj_ids job)"

definition upsOk :: "PartSizeConfig list \<Rightarrow> fview \<Rightarrow> ghost \<Rightarrow> bool" where
  "upsOk ps v h \<longleftrightarrow> (\<forall>i ph. h_up h i = Some ph \<longrightarrow> i < length (part_lens ps) \<and> part_start ps i < v_size v \<and> v_mpu v \<noteq> None \<and>
     (\<forall>x. inPart ps i x \<longrightarrow> v_pos v x \<noteq> Evicted) \<and> phaseOk ps v h i ph)"

definition smallOk :: "fview \<Rightarrow> u64 \<Rightarrow> bool" where
  "smallOk v n \<longleftrightarrow> v_mpu v = None \<and> n \<le> v_size v \<and> (\<forall>x. n \<le> x \<longrightarrow> x < v_size v \<longrightarrow> dirty (v_pos v x))"

text \<open>A completion for the size \<open>sz\<close>: the parts that are there are complete, the others are parts of the object.\<close>

definition compOk :: "PartSizeConfig list \<Rightarrow> fview \<Rightarrow> ghost \<Rightarrow> u64 \<Rightarrow> bool" where
  "compOk ps v h sz \<longleftrightarrow> v_mpu v \<noteq> None \<and> sz \<le> v_size v \<and>
     (\<forall>i. recorded v i \<longrightarrow> part_start ps i < sz \<and> length (h_parts h i) = min (part_lens ps ! i) (sz - part_start ps i)) \<and>
     (\<forall>i < length (part_lens ps). part_start ps i < sz \<longrightarrow> \<not> recorded v i \<longrightarrow>
        part_start ps i + min (part_lens ps ! i) (sz - part_start ps i) \<le> length (h_obj h)) \<and>
     (\<forall>x. sz \<le> x \<longrightarrow> x < v_size v \<longrightarrow> dirty (v_pos v x))"

fun jobOk :: "PartSizeConfig list \<Rightarrow> fview \<Rightarrow> ghost \<Rightarrow> exJob \<Rightarrow> bool" where
  "jobOk ps v h SmallStart \<longleftrightarrow> v_mpu v = None"
| "jobOk ps v h (SmallLoading n) \<longleftrightarrow> smallOk v n"
| "jobOk ps v h (SmallPutting job) \<longleftrightarrow> smallOk v (pj_size job) \<and> length (mr_bytes (pj_body job)) = pj_size job \<and>
     snapshot v h 0 (mr_bytes (pj_body job)) (pj_ids job)"
| "jobOk ps v h (MpuStart c key) \<longleftrightarrow> v_mpu v = None"
| "jobOk ps v h MpuBeginning \<longleftrightarrow> v_mpu v = None"
| "jobOk ps v h (CompStart sz) \<longleftrightarrow> compOk ps v h sz"
| "jobOk ps v h (Copying sz n c key mpu rs) \<longleftrightarrow> compOk ps v h sz \<and> numParts ps sz = Some n \<and> map_option mpu_ptr (v_mpu v) = Some (mpu_ptr mpu) \<and>
     distinct (map fst rs) \<and>
     set rs = {(i, part_start ps i, min (part_lens ps ! i) (sz - part_start ps i)) | i. i < length (part_lens ps) \<and> part_start ps i < sz \<and> \<not> recorded v i}"
| "jobOk ps v h (Committing job) \<longleftrightarrow> compOk ps v h (cj_size job) \<and> numParts ps (cj_size job) = Some (mpu_NumParts (cj_mpu job)) \<and>
     map_option mpu_ptr (v_mpu v) = Some (mpu_ptr (cj_mpu job)) \<and>
     (\<forall>i < length (part_lens ps). part_start ps i < cj_size job \<longrightarrow> recorded v i)"
| "jobOk ps v h (MetaUpdating job) \<longleftrightarrow> True"

definition partLock :: "PartSizeConfig list \<Rightarrow> nat \<Rightarrow> ReadRange" where
  "partLock ps i = \<lparr>rr_Offset = part_start ps i, rr_Size = part_lens ps ! i, rr_Flushing = True\<rparr>"

fun exLock :: "exJob option \<Rightarrow> ReadRange set" where
  "exLock (Some (SmallLoading n)) = {\<lparr>rr_Offset = 0, rr_Size = n, rr_Flushing = True\<rparr>}"
| "exLock (Some (SmallPutting job)) = {\<lparr>rr_Offset = 0, rr_Size = pj_size job, rr_Flushing = True\<rparr>}"
| "exLock _ = {}"

fun exSize :: "exJob option \<Rightarrow> u64 option" where
  "exSize (Some (CompStart sz)) = Some sz"
| "exSize (Some (Copying sz n c key mpu rs)) = Some sz"
| "exSize (Some (Committing job)) = Some (cj_size job)"
| "exSize _ = None"

definition locksOk :: "PartSizeConfig list \<Rightarrow> int \<Rightarrow> fview \<Rightarrow> ghost \<Rightarrow> bool" where
  "locksOk ps M v h \<longleftrightarrow> finite (dom (h_up h)) \<and> (h_ex h \<noteq> None \<longrightarrow> h_up h = Map.empty \<and> uploading (v_st v)) \<and>
     v_flushing v = int (card (dom (h_up h))) + (if h_ex h = None then 0 else M) \<and>
     distinct (filter rr_Flushing (v_ranges v)) \<and>
     set (filter rr_Flushing (v_ranges v)) = partLock ps ` dom (h_up h) \<union> exLock (h_ex h)"

definition vinv :: "PartSizeConfig list \<Rightarrow> int \<Rightarrow> fview \<Rightarrow> ghost \<Rightarrow> bool" where
  "vinv ps M v h \<longleftrightarrow> sizesOk ps v h \<and> (\<forall>x. cellOk ps v h x (v_pos v x)) \<and> partsOk ps v h \<and> cachedOk v \<and> upsOk ps v h \<and>
     (\<forall>j. h_ex h = Some j \<longrightarrow> jobOk ps v h j) \<and> locksOk ps M v h"

lemma vinvD:
  assumes "vinv ps M v h"
  shows "sizesOk ps v h" "cellOk ps v h x (v_pos v x)" "partsOk ps v h" "cachedOk v" "upsOk ps v h"
    "h_ex h = Some j \<Longrightarrow> jobOk ps v h j" "locksOk ps M v h"
  using assms by (simp_all add: vinv_def)

lemma partsOkD:
  assumes "partsOk ps v h" "recorded v i"
  shows "i < length (part_lens ps)" "0 < length (h_parts h i)" "length (h_parts h i) \<le> part_lens ps ! i"
    "part_start ps i + length (h_parts h i) \<le> v_size v"
    "inPart ps i x \<Longrightarrow> x < v_size v \<Longrightarrow> \<not> dirty (v_pos v x) \<Longrightarrow>
       x - part_start ps i < length (h_parts h i) \<and> h_parts h i ! (x - part_start ps i) = h_content h x"
  using assms by (simp_all add: partsOk_def)

lemma upsOkD:
  assumes "upsOk ps v h" "h_up h i = Some ph"
  shows "i < length (part_lens ps)" "part_start ps i < v_size v" "v_mpu v \<noteq> None" "inPart ps i x \<Longrightarrow> v_pos v x \<noteq> Evicted" "phaseOk ps v h i ph"
  using assms unfolding upsOk_def by blast+

section \<open>Parts and positions\<close>

lemma part_start_mono: "i \<le> j \<Longrightarrow> part_start ps i \<le> part_start ps j"
proof (induction j)
  case (Suc j)
  have "part_start ps j \<le> part_start ps (Suc j)" by (cases "j < length (part_lens ps)") (simp add: part_start_Suc, simp add: part_start_def)
  then show ?case using Suc by (cases "i = Suc j") auto
qed simp

lemma inPart_unique:
  assumes "inPart ps i x" "inPart ps j x"
  shows "i = j"
proof -
  have "\<not> a < b" if "inPart ps a x" "inPart ps b x" for a b
    using that part_start_mono [of "Suc a" b ps] part_start_Suc [of a ps] by (auto simp: inPart_def)
  then show ?thesis using assms linorder_neqE_nat by metis
qed

lemma inPart_partNum:
  assumes "parts_ok ps" "x < getMaxFileSize ps"
  shows "partNum ps x = Some i \<longleftrightarrow> inPart ps i x"
proof -
  have "getMaxFileSize ps < u64_max" using assms(1) by (simp add: parts_ok_def getMaxFileSize_eq)
  then show ?thesis using partNum_cases [OF assms(1), of x i] assms(2) part_start_Suc [of i ps] by (auto simp: inPart_def)
qed

lemma inPart_ex:
  assumes "parts_ok ps" "x < getMaxFileSize ps"
  shows "\<exists>i. inPart ps i x"
  using inPart_partNum [OF assms] partNum_total [OF assms(1), of x] assms(2) by auto

lemma inPart_start:
  assumes "parts_ok ps" "i < length (part_lens ps)"
  shows "inPart ps i (part_start ps i)" "0 < part_lens ps ! i" "part_start ps i + part_lens ps ! i \<le> getMaxFileSize ps"
proof -
  show l: "0 < part_lens ps ! i" using assms part_lens_pos [of ps "part_lens ps ! i"] by (simp add: parts_ok_def)
  then show "inPart ps i (part_start ps i)" using assms(2) by (simp add: inPart_def)
  show "part_start ps i + part_lens ps ! i \<le> getMaxFileSize ps"
    using part_start_mono [of "Suc i" "length (part_lens ps)" ps] part_start_Suc [OF assms(2)] part_start_end [of ps] assms
    by (simp add: parts_ok_def getMaxFileSize_eq)
qed

lemma partLock_inj:
  assumes "parts_ok ps" "i < length (part_lens ps)" "j < length (part_lens ps)" "partLock ps i = partLock ps j"
  shows "i = j"
  using assms inPart_start(1) [OF assms(1,2)] inPart_start(1) [OF assms(1,3)] inPart_unique by (auto simp: partLock_def)

lemma recorded_mpu: "v_mpu v' = v_mpu v \<Longrightarrow> recorded v' = recorded v"
  by (simp add: recorded_def fun_eq_iff)

section \<open>Changes of the cached data\<close>

text \<open>A snapshot stays one as long as every position is either written anew or keeps its content.\<close>

lemma snapshot_step:
  assumes "snapshot v h off S ids" "vids v v'"
    and x: "\<And>x. off \<le> x \<Longrightarrow> x < off + length S \<Longrightarrow> dirty (v_pos v' x) \<and> v_cur v < v_did v' x \<or>
      h_content h' x = h_content h x \<and> (dirty (v_pos v x) \<longrightarrow> dirty (v_pos v' x))"
  shows "snapshot v' h' off S ids"
proof -
  have ids: "\<forall>k \<in> ids. 0 < k \<and> k \<le> v_cur v" "v_cur v \<le> v_cur v'" using assms(1,2) by (auto simp: snapshot_def vids_def)
  have did: "v_did v' x \<in> ids \<Longrightarrow> v_did v' x = v_did v x" for x
    using assms(2) ids(1) unfolding vids_def by (metis leD less_irrefl)
  have "dirty (v_pos v' x) \<and> v_did v' x \<notin> ids \<or> S ! (x - off) = h_content h' x" if "off \<le> x" "x < off + length S" for x
    using assms(1) x [OF that] that did [of x] ids(1) unfolding snapshot_def by (metis leD)
  moreover have "off \<le> x \<and> x < off + length S" if "v_did v' x \<in> ids" for x using assms(1) that did [OF that] unfolding snapshot_def by metis
  moreover have "\<forall>k \<in> ids. 0 < k \<and> k \<le> v_cur v'" using ids le_trans by blast
  ultimately show ?thesis unfolding snapshot_def by blast
qed

lemma vinv_evolve:
  assumes inv: "vinv ps M v h"
    and same: "v_mpu v' = v_mpu v" "v_known v' = v_known v" "v_flushing v' = v_flushing v"
      "filter rr_Flushing (v_ranges v') = filter rr_Flushing (v_ranges v)"
    and h': "h' = h\<lparr>h_content := C'\<rparr>" and ids: "vids v v'"
    and sz: "v_size v' \<le> getMaxFileSize ps" "v_last v' \<le> getMaxFileSize ps"
    and st: "v_st v' = ST_CACHED \<or> uploading (v_st v')" "uploading (v_st v) \<longrightarrow> uploading (v_st v')"
    and cells: "\<And>x. cellOk ps v' h' x (v_pos v' x)" and cached: "cachedOk v'"
    and step: "\<And>x. x < v_size v' \<Longrightarrow> dirty (v_pos v' x) \<and> v_cur v < v_did v' x \<or>
      x < v_size v \<and> C' x = h_content h x \<and> dirty (v_pos v' x) = dirty (v_pos v x)"
    and ev: "\<And>x i. v_pos v' x = Evicted \<Longrightarrow> h_up h i \<noteq> None \<Longrightarrow> inPart ps i x \<Longrightarrow> v_pos v x = Evicted"
    and shrink: "v_size v' < v_size v \<Longrightarrow> (\<forall>i. h_up h i \<noteq> None \<longrightarrow> part_start ps i + part_lens ps ! i \<le> v_size v') \<and>
      (\<forall>i. recorded v i \<longrightarrow> part_start ps i + length (h_parts h i) \<le> v_size v') \<and> (\<forall>r \<in> exLock (h_ex h). rr_Size r \<le> v_size v') \<and>
      (\<forall>n. exSize (h_ex h) = Some n \<longrightarrow> n \<le> v_size v')"
    and pos: "parts_ok ps"
  shows "vinv ps M v' h'"
proof -
  note D = vinvD [OF inv]
  have rec: "recorded v' = recorded v" by (rule recorded_mpu [OF same(1)])
  have hs: "h_obj h' = h_obj h" "h_parts h' = h_parts h" "h_up h' = h_up h" "h_ex h' = h_ex h" "h_content h' = C'" by (simp_all add: h')
  have dirty: "dirty (v_pos v' x)" if "x < v_size v'" "x < v_size v \<longrightarrow> dirty (v_pos v x)" for x using step [OF that(1)] that by blast
  have snap: "snapshot v' h' off S js" if "snapshot v h off S js" "off + length S \<le> v_size v'" for off S js
  proof (rule snapshot_step [OF that(1) ids])
    fix x assume "off \<le> x" "x < off + length S"
    then have "x < v_size v'" using that(2) by linarith
    then show "dirty (v_pos v' x) \<and> v_cur v < v_did v' x \<or> h_content h' x = h_content h x \<and> (dirty (v_pos v x) \<longrightarrow> dirty (v_pos v' x))"
      using step unfolding hs by blast
  qed
  have parts: "partsOk ps v' h'"
  proof -
    have "part_start ps i + length (h_parts h i) \<le> v_size v'" if "recorded v i" for i
      using shrink that D(3) by (cases "v_size v' < v_size v") (auto simp: partsOk_def)
    moreover have "x < v_size v \<and> C' x = h_content h x \<and> \<not> dirty (v_pos v x)" if "x < v_size v'" "\<not> dirty (v_pos v' x)" for x
      using step [OF that(1)] that(2) by blast
    ultimately show ?thesis using partsOkD [OF D(3)] unfolding partsOk_def rec hs by metis
  qed
  have fits: "sizeFits ps v' h' i n" if "sizeFits ps v h i n" "h_up h i \<noteq> None" for i n
  proof -
    have "part_start ps i + n \<le> v_size v'" using that shrink by (cases "v_size v' < v_size v") (auto simp: sizeFits_def)
    then show ?thesis using that(1) dirty unfolding sizeFits_def rec hs by blast
  qed
  have "phaseOk ps v' h' i ph" if "h_up h i = Some ph" for i ph
  proof (cases ph)
    case (PartAdding prio job)
    then have "phaseOk ps v h i (PartAdding prio job)" using upsOkD(5) [OF D(5) that] by simp
    then show ?thesis using fits [of i "aj_size job"] snap [of "part_start ps i"] that PartAdding by (auto simp: sizeFits_def)
  next
    case (PartLoading prio c n)
    then have "phaseOk ps v h i (PartLoading prio c n)" using upsOkD(5) [OF D(5) that] by simp
    then show ?thesis using fits that PartLoading by auto
  qed simp
  moreover have "part_start ps i < v_size v'" if "h_up h i = Some ph" for i ph
  proof (cases "v_size v' < v_size v")
    case True
    have "0 < part_lens ps ! i" using D(5) that inPart_start(2) [OF pos] by (auto simp: upsOk_def)
    then show ?thesis using shrink True that by fastforce
  next
    case False
    then show ?thesis using D(5) that by (fastforce simp: upsOk_def)
  qed
  ultimately have ups: "upsOk ps v' h'" using D(5) ev unfolding upsOk_def hs same(1) by blast
  have small: "smallOk v' n" if "smallOk v n" "\<lparr>rr_Offset = 0, rr_Size = n, rr_Flushing = True\<rparr> \<in> exLock (h_ex h)" for n
  proof -
    have "n \<le> v_size v'" using that shrink by (cases "v_size v' < v_size v") (force simp: smallOk_def)+
    then show ?thesis using that(1) dirty unfolding smallOk_def same(1) by blast
  qed
  have comp: "compOk ps v' h' n" if "compOk ps v h n" "exSize (h_ex h) = Some n" for n
  proof -
    have "n \<le> v_size v'" using that shrink by (cases "v_size v' < v_size v") (force simp: compOk_def)+
    then show ?thesis using that(1) dirty unfolding compOk_def rec hs same(1) by blast
  qed
  have "jobOk ps v' h' j" if "h_ex h = Some j" for j
    using D(6) [OF that] that small comp snap [of 0] by (cases j) (auto simp: rec same(1) smallOk_def)
  moreover have "sizesOk ps v' h'" using D(1) sz st(1) by (simp add: sizesOk_def hs same)
  moreover have "locksOk ps M v' h'" using D(7) st(2) by (auto simp: locksOk_def hs same)
  ultimately show ?thesis unfolding vinv_def using cells cached parts ups hs(4) by auto
qed

section \<open>Uploads under way\<close>

lemma ok_frame [simp]:
  "recorded (v\<lparr>v_flushing := n\<rparr>) = recorded v" "recorded (v\<lparr>v_ranges := rs\<rparr>) = recorded v"
  "uploaded ps (v\<lparr>v_flushing := n\<rparr>) = uploaded ps v" "uploaded ps (v\<lparr>v_ranges := rs\<rparr>) = uploaded ps v"
  "uploaded ps v (h\<lparr>h_up := u\<rparr>) = uploaded ps v h" "uploaded ps v (h\<lparr>h_ex := e\<rparr>) = uploaded ps v h"
  "onServer (h\<lparr>h_up := u\<rparr>) = onServer h" "onServer (h\<lparr>h_ex := e\<rparr>) = onServer h"
  "sizesOk ps (v\<lparr>v_flushing := n\<rparr>) h = sizesOk ps v h" "sizesOk ps (v\<lparr>v_ranges := rs\<rparr>) h = sizesOk ps v h"
  "sizesOk ps v (h\<lparr>h_up := u\<rparr>) = sizesOk ps v h" "sizesOk ps v (h\<lparr>h_ex := e\<rparr>) = sizesOk ps v h"
  "partsOk ps (v\<lparr>v_flushing := n\<rparr>) h = partsOk ps v h" "partsOk ps (v\<lparr>v_ranges := rs\<rparr>) h = partsOk ps v h"
  "partsOk ps v (h\<lparr>h_up := u\<rparr>) = partsOk ps v h" "partsOk ps v (h\<lparr>h_ex := e\<rparr>) = partsOk ps v h"
  "cachedOk (v\<lparr>v_flushing := n\<rparr>) = cachedOk v" "cachedOk (v\<lparr>v_ranges := rs\<rparr>) = cachedOk v"
  "snapshot (v\<lparr>v_flushing := n\<rparr>) h = snapshot v h" "snapshot (v\<lparr>v_ranges := rs\<rparr>) h = snapshot v h"
  "snapshot v (h\<lparr>h_up := u\<rparr>) = snapshot v h" "snapshot v (h\<lparr>h_ex := e\<rparr>) = snapshot v h"
  "sizeFits ps (v\<lparr>v_flushing := n\<rparr>) h = sizeFits ps v h" "sizeFits ps (v\<lparr>v_ranges := rs\<rparr>) h = sizeFits ps v h"
  "sizeFits ps v (h\<lparr>h_up := u\<rparr>) = sizeFits ps v h" "sizeFits ps v (h\<lparr>h_ex := e\<rparr>) = sizeFits ps v h"
  "smallOk (v\<lparr>v_flushing := n\<rparr>) = smallOk v" "smallOk (v\<lparr>v_ranges := rs\<rparr>) = smallOk v"
  "compOk ps (v\<lparr>v_flushing := n\<rparr>) h = compOk ps v h" "compOk ps (v\<lparr>v_ranges := rs\<rparr>) h = compOk ps v h"
  "compOk ps v (h\<lparr>h_up := u\<rparr>) = compOk ps v h" "compOk ps v (h\<lparr>h_ex := e\<rparr>) = compOk ps v h"
  by (simp_all add: recorded_def uploaded_def onServer_def sizesOk_def partsOk_def cachedOk_def snapshot_def sizeFits_def smallOk_def compOk_def
      fun_eq_iff)

lemma cellOk_frame [simp]:
  "cellOk ps (v\<lparr>v_flushing := n\<rparr>) h x q = cellOk ps v h x q" "cellOk ps (v\<lparr>v_ranges := rs\<rparr>) h x q = cellOk ps v h x q"
  "cellOk ps v (h\<lparr>h_up := u\<rparr>) x q = cellOk ps v h x q" "cellOk ps v (h\<lparr>h_ex := e\<rparr>) x q = cellOk ps v h x q"
  by (cases q; simp)+

lemma phaseOk_frame [simp]:
  "phaseOk ps (v\<lparr>v_flushing := n\<rparr>) h i ph = phaseOk ps v h i ph" "phaseOk ps (v\<lparr>v_ranges := rs\<rparr>) h i ph = phaseOk ps v h i ph"
  "phaseOk ps v (h\<lparr>h_up := u\<rparr>) i ph = phaseOk ps v h i ph" "phaseOk ps v (h\<lparr>h_ex := e\<rparr>) i ph = phaseOk ps v h i ph"
  by (cases ph; simp)+

lemma jobOk_frame [simp]:
  "jobOk ps (v\<lparr>v_flushing := n\<rparr>) h j = jobOk ps v h j" "jobOk ps (v\<lparr>v_ranges := rs\<rparr>) h j = jobOk ps v h j"
  "jobOk ps v (h\<lparr>h_up := u\<rparr>) j = jobOk ps v h j" "jobOk ps v (h\<lparr>h_ex := e\<rparr>) j = jobOk ps v h j"
  by (cases j; simp)+

lemma upsOk_frame [simp]:
  "upsOk ps (v\<lparr>v_flushing := n\<rparr>) h = upsOk ps v h" "upsOk ps (v\<lparr>v_ranges := rs\<rparr>) h = upsOk ps v h"
  "upsOk ps v (h\<lparr>h_ex := e\<rparr>) = upsOk ps v h"
  by (simp_all add: upsOk_def)

lemma upsOk_upd:
  assumes "upsOk ps v h" "i < length (part_lens ps)" "part_start ps i < v_size v" "v_mpu v \<noteq> None"
    "\<And>x. inPart ps i x \<Longrightarrow> v_pos v x \<noteq> Evicted" "phaseOk ps v h i ph"
  shows "upsOk ps v (h\<lparr>h_up := (h_up h)(i \<mapsto> ph)\<rparr>)"
  using assms unfolding upsOk_def by simp

lemma vinv_startPart:
  assumes inv: "vinv ps M v h" and pos: "parts_ok ps" and i: "i < length (part_lens ps)" "part_start ps i < v_size v" "v_mpu v \<noteq> None"
    and free: "h_up h i = None" "h_ex h = None" and ev: "\<And>x. inPart ps i x \<Longrightarrow> v_pos v x \<noteq> Evicted"
  shows "vinv ps M (v\<lparr>v_flushing := v_flushing v + 1, v_ranges := LockRange (part_start ps i) (part_lens ps ! i) True (v_ranges v)\<rparr>)
    (h\<lparr>h_up := (h_up h)(i \<mapsto> PartStart prio)\<rparr>)"
proof -
  note D = vinvD [OF inv]
  have "partLock ps i \<notin> partLock ps ` dom (h_up h)"
  proof
    assume "partLock ps i \<in> partLock ps ` dom (h_up h)"
    then obtain k ph where k: "h_up h k = Some ph" "partLock ps i = partLock ps k" by auto
    then have "i = k" using partLock_inj [OF pos i(1) upsOkD(1) [OF D(5)]] by blast
    then show False using k(1) free(1) by simp
  qed
  moreover have "LockRange (part_start ps i) (part_lens ps ! i) True (v_ranges v) = v_ranges v @ [partLock ps i]" "rr_Flushing (partLock ps i)"
    by (simp_all add: LockRange_def partLock_def)
  moreover have "i \<notin> dom (h_up h)" using free(1) by (simp add: domIff)
  ultimately have "locksOk ps M (v\<lparr>v_flushing := v_flushing v + 1, v_ranges := LockRange (part_start ps i) (part_lens ps ! i) True (v_ranges v)\<rparr>)
      (h\<lparr>h_up := (h_up h)(i \<mapsto> PartStart prio)\<rparr>)"
    using D(7) free(2) by (simp add: locksOk_def del: set_filter)
  moreover have "upsOk ps v (h\<lparr>h_up := (h_up h)(i \<mapsto> PartStart prio)\<rparr>)" by (rule upsOk_upd [OF D(5) i ev]) simp_all
  ultimately show ?thesis using D free(2) by (simp add: vinv_def)
qed

lemma vinv_setPhase:
  assumes inv: "vinv ps M v h" and up: "h_up h i = Some ph" and ph: "phaseOk ps v h i ph'"
  shows "vinv ps M v (h\<lparr>h_up := (h_up h)(i \<mapsto> ph')\<rparr>)"
proof -
  note D = vinvD [OF inv]
  have d: "dom ((h_up h)(i \<mapsto> ph')) = dom (h_up h)" using up by auto
  then have "h_ex h = None" using D(7) up by (auto simp: locksOk_def)
  then have "locksOk ps M v (h\<lparr>h_up := (h_up h)(i \<mapsto> ph')\<rparr>)" using D(7) d by (simp add: locksOk_def)
  then show ?thesis using D upsOk_upd [OF D(5) upsOkD(1-4) [OF D(5) up] ph] by (simp add: vinv_def)
qed

lemma vinv_endPart:
  assumes inv: "vinv ps M v h" and pos: "parts_ok ps" and up: "h_up h i = Some ph"
  shows "vinv ps M (v\<lparr>v_flushing := v_flushing v - 1, v_ranges := UnlockRange (part_start ps i) (part_lens ps ! i) True (v_ranges v)\<rparr>)
    (h\<lparr>h_up := (h_up h)(i := None)\<rparr>)"
proof -
  note D = vinvD [OF inv]
  have ex: "h_ex h = None" using D(7) up by (auto simp: locksOk_def)
  have inj: "partLock ps ` (dom (h_up h) - {i}) = partLock ps ` dom (h_up h) - {partLock ps i}"
    using partLock_inj [OF pos] upsOkD(1) [OF D(5)] up by blast
  have "card (dom (h_up h)) = Suc (card (dom (h_up h) - {i}))" using D(7) up by (intro card.remove) (auto simp: locksOk_def)
  then have "locksOk ps M (v\<lparr>v_flushing := v_flushing v - 1, v_ranges := UnlockRange (part_start ps i) (part_lens ps ! i) True (v_ranges v)\<rparr>)
      (h\<lparr>h_up := (h_up h)(i := None)\<rparr>)"
    using D(7) ex inj by (auto simp: locksOk_def UnlockRange_remove1 filter_remove1 partLock_def)
  moreover have "upsOk ps v (h\<lparr>h_up := (h_up h)(i := None)\<rparr>)" using D(5) by (simp add: upsOk_def)
  ultimately show ?thesis using D ex by (simp add: vinv_def)
qed

text \<open>The job that has the file for itself.\<close>

lemma vinv_startEx:
  assumes inv: "vinv ps M v h" and free: "h_ex h = None" "h_up h = Map.empty" and st: "uploading (v_st v)" and j: "jobOk ps v h j" "exLock (Some j) = {}"
  shows "vinv ps M (v\<lparr>v_flushing := v_flushing v + M\<rparr>) (h\<lparr>h_ex := Some j\<rparr>)"
  using vinvD [OF inv] assms(2-) by (simp add: vinv_def locksOk_def)

lemma vinv_setEx:
  assumes inv: "vinv ps M v h" and ex: "h_ex h = Some j" and j: "jobOk ps v h j'" "exLock (Some j') = exLock (Some j)"
  shows "vinv ps M v (h\<lparr>h_ex := Some j'\<rparr>)"
  using vinvD [OF inv] assms(2-) by (simp add: vinv_def locksOk_def)

lemma vinv_lockEx:
  assumes inv: "vinv ps M v h" and ex: "h_ex h = Some j" "exLock (Some j) = {}" and j: "smallOk v n"
  shows "vinv ps M (v\<lparr>v_ranges := LockRange 0 n True (v_ranges v)\<rparr>) (h\<lparr>h_ex := Some (SmallLoading n)\<rparr>)"
proof -
  note D = vinvD [OF inv]
  have "set (filter rr_Flushing (v_ranges v)) = {}" using D(7) ex by (auto simp: locksOk_def simp del: set_filter)
  then have "filter rr_Flushing (v_ranges v) = []" by (simp only: set_empty)
  then have "locksOk ps M (v\<lparr>v_ranges := LockRange 0 n True (v_ranges v)\<rparr>) (h\<lparr>h_ex := Some (SmallLoading n)\<rparr>)"
    using D(7) ex by (simp add: locksOk_def LockRange_def del: set_filter)
  then show ?thesis using D j by (simp add: vinv_def)
qed

lemma vinv_endEx:
  assumes inv: "vinv ps M v h" and ex: "h_ex h = Some j"
  shows "exLock (Some j) = {} \<Longrightarrow> vinv ps M (v\<lparr>v_flushing := v_flushing v - M\<rparr>) (h\<lparr>h_ex := None\<rparr>)"
    "exLock (Some j) = {\<lparr>rr_Offset = 0, rr_Size = n, rr_Flushing = True\<rparr>} \<Longrightarrow>
      vinv ps M (v\<lparr>v_flushing := v_flushing v - M, v_ranges := UnlockRange 0 n True (v_ranges v)\<rparr>) (h\<lparr>h_ex := None\<rparr>)"
proof -
  note D = vinvD [OF inv]
  show "exLock (Some j) = {} \<Longrightarrow> vinv ps M (v\<lparr>v_flushing := v_flushing v - M\<rparr>) (h\<lparr>h_ex := None\<rparr>)"
    using D ex by (simp add: vinv_def locksOk_def)
  assume l: "exLock (Some j) = {\<lparr>rr_Offset = 0, rr_Size = n, rr_Flushing = True\<rparr>}"
  then have "locksOk ps M (v\<lparr>v_flushing := v_flushing v - M, v_ranges := UnlockRange 0 n True (v_ranges v)\<rparr>) (h\<lparr>h_ex := None\<rparr>)"
    using D(7) ex by (simp add: locksOk_def UnlockRange_remove1 filter_remove1 del: set_filter)
  then show "vinv ps M (v\<lparr>v_flushing := v_flushing v - M, v_ranges := UnlockRange 0 n True (v_ranges v)\<rparr>) (h\<lparr>h_ex := None\<rparr>)"
    using D by (simp add: vinv_def)
qed

section \<open>Answers\<close>

definition didOk :: "fview \<Rightarrow> bool" where
  "didOk v \<longleftrightarrow> (\<forall>x. (v_did v x \<noteq> 0 \<longleftrightarrow> dirty (v_pos v x)) \<and> v_did v x \<le> v_cur v)"

lemma retagged_pos:
  assumes d: "didOk v" and st: "st \<noteq> BUF_DIRTY"
  shows "dirty (v_pos (retagged st ids v) x) \<longleftrightarrow> dirty (v_pos v x) \<and> v_did v x \<notin> ids"
    "v_pos (retagged st ids v) x = Evicted \<longleftrightarrow> v_pos v x = Evicted"
    "v_did v x \<notin> ids \<Longrightarrow> v_pos (retagged st ids v) x = v_pos v x \<and> v_did (retagged st ids v) x = v_did v x"
proof -
  have *: "v_did v x \<noteq> 0 \<Longrightarrow> dirty (v_pos v x)" "dirty (v_pos v x) \<Longrightarrow> v_did v x \<noteq> 0" using d by (simp_all add: didOk_def)
  show "dirty (v_pos (retagged st ids v) x) \<longleftrightarrow> dirty (v_pos v x) \<and> v_did v x \<notin> ids"
    "v_pos (retagged st ids v) x = Evicted \<longleftrightarrow> v_pos v x = Evicted"
    using * st by (cases "v_pos v x"; auto simp: retagged_def)+
qed (simp add: retagged_def)

lemma retagged_cell:
  assumes d: "didOk v" and c: "cellOk ps v h x (v_pos v x)" and st: "st \<noteq> BUF_DIRTY" "st \<noteq> BUF_FL_CLEARED"
    and new: "v_did v x \<in> ids \<Longrightarrow> v_did v x \<noteq> 0 \<Longrightarrow> x < v_size v \<Longrightarrow> cellOk ps v' h' x (Here st False (h_content h' x))"
    and old: "v_did v x \<notin> ids \<or> v_did v x = 0 \<Longrightarrow> cellOk ps v' h' x (v_pos v x)"
    and sz: "v_size v' = v_size v" "h_content h' = h_content h"
  shows "cellOk ps v' h' x (v_pos (retagged st ids v) x)"
proof (cases "v_did v x \<in> ids \<and> v_did v x \<noteq> 0")
  case True
  then obtain z w where q: "v_pos v x = Here BUF_DIRTY z w" using d by (cases "v_pos v x") (auto simp: didOk_def)
  then have "x < v_size v" "w = h_content h x" using c by (auto split: if_splits)
  then show ?thesis using True new q sz by (auto simp: retagged_def)
next
  case False
  then show ?thesis using old by (auto simp: retagged_def)
qed

lemma snapshot_retagged:
  assumes "didOk v" "st \<noteq> BUF_DIRTY" "snapshot v h off S js" "\<And>x. off \<le> x \<Longrightarrow> x < off + length S \<Longrightarrow> v_did v x \<notin> ids"
    "h_content h' = h_content h" "v_pos v' = v_pos (retagged st ids v)" "v_did v' = v_did (retagged st ids v)" "v_cur v' = v_cur v"
  shows "snapshot v' h' off S js"
proof -
  have did: "v_did (retagged st ids v) x \<in> js \<Longrightarrow> v_did v x \<in> js" for x
    using assms(3) by (auto simp: retagged_def snapshot_def split: if_splits)
  have "dirty (v_pos v' x) \<and> v_did v' x \<notin> js \<or> S ! (x - off) = h_content h' x" if "off \<le> x" "x < off + length S" for x
    using assms(3) retagged_pos(3) [OF assms(1,2,4)] that assms(5-7) unfolding snapshot_def by metis
  then show ?thesis using assms(3,7,8) did unfolding snapshot_def by metis
qed

text \<open>A part is recorded in the upload.\<close>

definition setPartId :: "nat \<Rightarrow> string \<Rightarrow> mpuState \<Rightarrow> mpuState" where
  "setPartId i pid m = m\<lparr>mpu_Parts := (mpu_Parts m)[i := Some pid]\<rparr>"

lemma recorded_setPart:
  assumes "v_mpu v = Some m" "i < length (mpu_Parts m)" "v_mpu v' = Some (setPartId i pid m)"
  shows "recorded v' k \<longleftrightarrow> k = i \<or> recorded v k"
  using assms by (auto simp: recorded_def setPartId_def nth_list_update)

lemma uploaded_mono:
  assumes "uploaded ps v h full x" "\<And>i. recorded v i \<Longrightarrow> recorded v' i"
    "\<And>i. recorded v i \<Longrightarrow> length (h_parts h i) = part_lens ps ! i \<Longrightarrow> length (h_parts h' i) = part_lens ps ! i"
  shows "uploaded ps v' h' full x"
  using assms unfolding uploaded_def by blast

lemma cellOk_mono:
  assumes "cellOk ps v h x q" "v_size v' = v_size v" "h_content h' = h_content h" "h_obj h' = h_obj h"
    "\<And>full. uploaded ps v h full x \<Longrightarrow> uploaded ps v' h' full x"
  shows "cellOk ps v' h' x q"
  using assms by (cases q) (auto simp: onServer_def)

lemma vinv_partDone:
  fixes pid :: string
  assumes inv: "vinv ps M v h" and d: "didOk v" and up: "h_up h i = Some (PartAdding prio job)" and mpu: "v_mpu v = Some m"
  defines "st \<equiv> if MultiReader_Len (aj_body job) < aj_full job \<or> aj_part job = 0 then BUF_FLUSHED_CUT else BUF_FLUSHED_FULL"
  defines "v' \<equiv> (retagged st (aj_ids job) v)\<lparr>v_mpu := Some (setPartId i pid m)\<rparr>"
  defines "h' \<equiv> h\<lparr>h_parts := (h_parts h)(i := mr_bytes (aj_body job)), h_up := (h_up h)(i \<mapsto> PartStart prio)\<rparr>"
  shows "vinv ps M v' h'"
proof -
  note D = vinvD [OF inv] and U = upsOkD [OF vinvD(5) [OF inv]]
  let ?ids = "aj_ids job" and ?S = "mr_bytes (aj_body job)" and ?n = "aj_size job"
  have ph: "sizeFits ps v h i ?n" "aj_full job = part_lens ps ! i" "MultiReader_Len (aj_body job) = ?n" "length ?S = ?n"
    "snapshot v h (part_start ps i) ?S ?ids" using U(5) [OF up] by auto
  have i: "i < length (part_lens ps)" "i < length (mpu_Parts m)" using U(1) [OF up] D(1) mpu by (fastforce simp: sizesOk_def)+
  have st: "st \<noteq> BUF_DIRTY" "st \<noteq> BUF_FL_CLEARED" "st \<noteq> BUF_CLEAN" by (simp_all add: st_def)
  note R = retagged_pos [OF d st(1), where ids = ?ids]
  have ids: "inPart ps i x" if "v_did v x \<in> ?ids" for x
    using ph(1,4,5) that i(1) by (fastforce simp: snapshot_def sizeFits_def inPart_def)
  have other: "v_did v x \<notin> ?ids" if "inPart ps k x" "k \<noteq> i" for k x using ids inPart_unique that by blast
  have rec: "recorded v' k \<longleftrightarrow> k = i \<or> recorded v k" for k by (rule recorded_setPart [OF mpu i(2)]) (simp add: v'_def)
  have v': "v_pos v' = v_pos (retagged st ?ids v)" "v_did v' = v_did (retagged st ?ids v)" "v_size v' = v_size v" "v_cur v' = v_cur v" "v_mpu v' \<noteq> None"
    by (simp_all add: v'_def)
  have h': "h_content h' = h_content h" "h_obj h' = h_obj h" "h_parts h' k = (if k = i then ?S else h_parts h k)"
    "h_up h' = (h_up h)(i \<mapsto> PartStart prio)" "h_ex h' = h_ex h" for k by (simp_all add: h'_def)
  have ex: "h_ex h = None" using D(7) up by (auto simp: locksOk_def)
  have full: "length (h_parts h' k) = part_lens ps ! k" if "recorded v k" "length (h_parts h k) = part_lens ps ! k" for k
    using that ph(1,4) by (auto simp: h' sizeFits_def)
  have cells: "cellOk ps v' h' x (v_pos v' x)" for x
    unfolding v'(1)
  proof (rule retagged_cell [OF d D(2) st(1,2)])
    show "cellOk ps v' h' x (Here st False (h_content h' x))" if "v_did v x \<in> ?ids" "x < v_size v"
      using that ids [OF that(1)] rec ph by (auto simp: v' st_def h' sizeFits_def uploaded_def)
    show "cellOk ps v' h' x (v_pos v x)"
      by (rule cellOk_mono [OF D(2)]) (use rec full in \<open>auto simp: v' h'(1,2) intro: uploaded_mono\<close>)
  qed (simp_all add: v' h')
  have parts: "partsOk ps v' h'"
  proof -
    have "x - part_start ps i < ?n \<and> ?S ! (x - part_start ps i) = h_content h x"
      if "inPart ps i x" "x < v_size v" "\<not> dirty (v_pos v' x)" for x
    proof -
      have "\<not> part_start ps i + ?n \<le> x"
        using ph(1,4,5) that R(1) [of x] unfolding sizeFits_def snapshot_def v' by (metis linorder_not_less)
      then show ?thesis using ph(4,5) that R(1) [of x] unfolding snapshot_def v' inPart_def by (metis less_diff_conv2 linorder_not_less add.commute)
    qed
    then have "0 < length (h_parts h' i) \<and> length (h_parts h' i) \<le> part_lens ps ! i \<and> part_start ps i + length (h_parts h' i) \<le> v_size v' \<and>
       (\<forall>x. inPart ps i x \<longrightarrow> x < v_size v' \<longrightarrow> \<not> dirty (v_pos v' x) \<longrightarrow>
         x - part_start ps i < length (h_parts h' i) \<and> h_parts h' i ! (x - part_start ps i) = h_content h' x)"
      using ph(1,4) by (simp add: h' v'(3) sizeFits_def)
    moreover have "dirty (v_pos v' x) = dirty (v_pos v x)" if "inPart ps k x" "k \<noteq> i" for k x using R(3) [OF other [OF that]] by (simp add: v')
    ultimately show ?thesis using i(1) D(3) unfolding partsOk_def rec by (auto simp: h' v'(3))
  qed
  have "phaseOk ps v' h' k ph'" if "h_up h k = Some ph'" "k \<noteq> i" for k ph'
  proof -
    have eq: "dirty (v_pos v' x) = dirty (v_pos v x)" if "inPart ps k x" for x using R(3) [OF other [OF that \<open>k \<noteq> i\<close>]] by (simp add: v')
    have fits: "sizeFits ps v' h' k n" if "sizeFits ps v h k n" for n
      using that eq \<open>k \<noteq> i\<close> unfolding sizeFits_def rec h' v'(3) by simp
    have snap: "snapshot v' h' (part_start ps k) S js" if "snapshot v h (part_start ps k) S js" "length S \<le> part_lens ps ! k" for S js
      by (rule snapshot_retagged [OF d st(1) that(1)]) (use other [of k] U(1) [OF \<open>h_up h k = Some ph'\<close>] that \<open>k \<noteq> i\<close> in \<open>auto simp: v' h' inPart_def\<close>)
    show ?thesis using U(5) [OF that(1)] fits snap by (cases ph') (auto simp: sizeFits_def)
  qed
  then have "phaseOk ps v' h' k ph'" if "h_up h' k = Some ph'" for k ph' using that by (auto simp: h'(4) split: if_splits)
  moreover have "\<exists>ph. h_up h k = Some ph" if "h_up h' k = Some ph'" for k ph' using that up by (auto simp: h'(4) split: if_splits)
  ultimately have "upsOk ps v' h'" using U(1,2,4) R(2) v'(5) unfolding upsOk_def v'(1,3) by metis
  moreover have "cachedOk v'" using D(4) d ph(5) by (auto simp: cachedOk_def v'_def retagged_def didOk_def snapshot_def)
  moreover have "sizesOk ps v' h'" using D(1) mpu by (auto simp: sizesOk_def v'_def h' setPartId_def)
  moreover have "dom (h_up h') = dom (h_up h)" using up by (auto simp: h')
  then have "locksOk ps M v' h'" using D(7) ex by (simp add: locksOk_def h'(5) v'_def)
  ultimately show ?thesis unfolding vinv_def using cells parts ex by (simp add: h'(5))
qed

text \<open>The object was written in one piece.\<close>

lemma not_recorded: "v_mpu v = None \<Longrightarrow> \<not> recorded v i"
  by (simp add: recorded_def)

lemma vinv_smallDone:
  assumes inv: "vinv ps M v h" and d: "didOk v" and ex: "h_ex h = Some (SmallPutting job)"
  defines "w \<equiv> retagged BUF_CLEAN (pj_ids job) v"
  assumes st: "st = ST_CACHED \<or> st = ST_MODIFIED"
    "st = ST_CACHED \<Longrightarrow> v_size v = pj_size job \<and> (\<forall>x. \<not> dirty (v_pos w x) \<and> \<not> flushed (v_pos w x))"
  shows "vinv ps M (w\<lparr>v_known := pj_size job, v_st := st, v_flushing := v_flushing v - M, v_ranges := UnlockRange 0 (pj_size job) True (v_ranges v)\<rparr>)
    (h\<lparr>h_obj := mr_bytes (pj_body job), h_ex := None\<rparr>)" (is "vinv ps M ?v ?h")
proof -
  note D = vinvD [OF inv]
  let ?S = "mr_bytes (pj_body job)" and ?ids = "pj_ids job" and ?n = "pj_size job"
  have j: "v_mpu v = None" "?n \<le> v_size v" "\<And>x. ?n \<le> x \<Longrightarrow> x < v_size v \<Longrightarrow> dirty (v_pos v x)" "length ?S = ?n" "snapshot v h 0 ?S ?ids"
    using D(6) [OF ex] by (auto simp: smallOk_def)
  have rec: "\<not> recorded v i" "\<not> recorded ?v i" for i using j(1) by (auto simp: recorded_def w_def)
  have srv: "onServer ?h x" if "x < v_size v" "\<not> dirty (v_pos v x) \<or> v_did v x \<in> ?ids" for x
  proof -
    have "x < ?n" using that j(3-5) unfolding snapshot_def by (metis add_0 linorder_not_less)
    then show ?thesis using that(2) j(4,5) unfolding snapshot_def onServer_def by simp (metis diff_zero)
  qed
  have cells: "cellOk ps ?v ?h x (v_pos ?v x)" for x
  proof -
    have "cellOk ps ?v ?h x (v_pos w x)"
      unfolding w_def
    proof (rule retagged_cell [OF d D(2)])
      show "cellOk ps ((retagged BUF_CLEAN ?ids v)\<lparr>v_known := ?n, v_st := st, v_flushing := v_flushing v - M, v_ranges := UnlockRange 0 ?n True (v_ranges v)\<rparr>) ?h x
          (Here BUF_CLEAN False (h_content ?h x))" if "v_did v x \<in> ?ids" "x < v_size v" using srv that by simp
      show "cellOk ps ((retagged BUF_CLEAN ?ids v)\<lparr>v_known := ?n, v_st := st, v_flushing := v_flushing v - M, v_ranges := UnlockRange 0 ?n True (v_ranges v)\<rparr>) ?h x
          (v_pos v x)" using D(2) [of x] srv [of x] rec(1) by (cases "v_pos v x") (auto simp: uploaded_def)
    qed simp_all
    then show ?thesis by simp
  qed
  have "sizesOk ps ?v ?h" using D(1) j(1,2,4) st(1) by (auto simp: sizesOk_def w_def uploading_def)
  moreover have "partsOk ps ?v ?h" using rec(2) by (simp add: partsOk_def)
  moreover have "cachedOk ?v" using st(2) by (simp add: cachedOk_def w_def)
  moreover have up: "h_up h = Map.empty" using D(7) ex by (simp add: locksOk_def)
  then have "upsOk ps ?v ?h" by (simp add: upsOk_def)
  moreover have "locksOk ps M ?v ?h" using D(7) ex by (simp add: locksOk_def UnlockRange_remove1 filter_remove1 w_def del: set_filter)
  ultimately show ?thesis using cells by (simp add: vinv_def)
qed

text \<open>A new multipart upload, and changes of an upload that keep its parts.\<close>

lemma vinv_mpuDone:
  assumes inv: "vinv ps M v h" and ex: "h_ex h = Some MpuBeginning"
    and m: "length (part_lens ps) \<le> length (mpu_Parts m)" "\<And>i. i < length (mpu_Parts m) \<Longrightarrow> mpu_Parts m ! i = None"
  shows "vinv ps M (v\<lparr>v_mpu := Some m, v_flushing := v_flushing v - M\<rparr>) (h\<lparr>h_ex := None\<rparr>)" (is "vinv ps M ?v ?h")
proof -
  note D = vinvD [OF inv]
  have rec: "\<not> recorded v i" "\<not> recorded ?v i" for i using D(6) [OF ex] m(2) by (auto simp: recorded_def)
  have up: "h_up h = Map.empty" using D(7) ex by (simp add: locksOk_def)
  have "cellOk ps ?v ?h x (v_pos ?v x)" for x using cellOk_mono [OF D(2), of "?v" "?h"] rec(1) by (auto simp: uploaded_def)
  moreover have "partsOk ps ?v ?h" using rec(2) by (simp add: partsOk_def)
  moreover have "upsOk ps ?v ?h" using up by (simp add: upsOk_def)
  moreover have "cachedOk ?v" "sizesOk ps ?v ?h" using D(1,4) m(1) by (auto simp: cachedOk_def sizesOk_def)
  moreover have "locksOk ps M ?v ?h" using D(7) ex by (simp add: locksOk_def)
  ultimately show ?thesis by (simp add: vinv_def)
qed

lemma vinv_mpuSame:
  assumes inv: "vinv ps M v h" and m: "v_mpu v = Some m" "mpu_Parts m' = mpu_Parts m" "mpu_ptr m' = mpu_ptr m"
  shows "vinv ps M (v\<lparr>v_mpu := Some m'\<rparr>) h" (is "vinv ps M ?v h")
proof -
  note D = vinvD [OF inv]
  have rec: "recorded ?v = recorded v" using m by (simp add: recorded_def fun_eq_iff)
  have "cellOk ps ?v h x (v_pos ?v x)" for x using cellOk_mono [OF D(2), of "?v" h] rec by (auto simp: uploaded_def)
  moreover have "partsOk ps ?v h" "sizesOk ps ?v h" "cachedOk ?v" "locksOk ps M ?v h"
    using D(1,3,4,7) m by (simp_all add: partsOk_def rec sizesOk_def cachedOk_def locksOk_def)
  moreover have fits: "sizeFits ps ?v h i n = sizeFits ps v h i n" "snapshot ?v h off S ids = snapshot v h off S ids" for i n off S ids
    by (simp_all add: sizeFits_def snapshot_def rec)
  have "phaseOk ps ?v h i ph = phaseOk ps v h i ph" for i ph using fits by (cases ph) simp_all
  then have "upsOk ps ?v h" using D(5) by (simp add: upsOk_def)
  moreover have "smallOk ?v n \<longleftrightarrow> smallOk v n \<and> False" "compOk ps ?v h n = compOk ps v h n" for n using m(1) by (simp_all add: smallOk_def compOk_def rec)
  then have "jobOk ps ?v h j" if "jobOk ps v h j" for j using that m fits(2) by (cases j) (auto simp: rec smallOk_def)
  ultimately show ?thesis using D(6) by (simp add: vinv_def)
qed

text \<open>Nothing more is to be uploaded: the upload can be completed.\<close>

lemma vinv_complete:
  assumes inv: "vinv ps M v h" and pos: "parts_ok ps" and mpu: "v_mpu v \<noteq> None"
    and fin: "\<And>x i. dirty (v_pos v x) \<Longrightarrow> inPart ps i x \<Longrightarrow> \<exists>y. inPart ps i y \<and> v_pos v y = Evicted"
  shows "compOk ps v h (v_size v)"
proof -
  note D = vinvD [OF inv] and P = partsOkD [OF vinvD(3) [OF inv]]
  have ex: "part_start ps i < v_size v \<and> length (h_parts h i) = min (part_lens ps ! i) (v_size v - part_start ps i)" if r: "recorded v i" for i
  proof (cases "\<exists>y. inPart ps i y \<and> v_pos v y = Evicted")
    case True
    then obtain y where y: "inPart ps i y" "v_pos v y = Evicted" by blast
    then have "uploaded ps v h True y" using D(2) [of y] by simp
    then have "length (h_parts h i) = part_lens ps ! i" using inPart_unique y(1) by (auto simp: uploaded_def)
    then show ?thesis using P(2,4) [OF r] by auto
  next
    case False
    let ?x = "part_start ps i + length (h_parts h i)"
    have "\<not> (?x < v_size v \<and> length (h_parts h i) < part_lens ps ! i)"
    proof
      assume x: "?x < v_size v \<and> length (h_parts h i) < part_lens ps ! i"
      then have ip: "inPart ps i ?x" using P(1) [OF r] by (simp add: inPart_def)
      then have "\<not> dirty (v_pos v ?x)" using fin False by blast
      then show False using P(5) [OF r ip] x by simp
    qed
    then show ?thesis using P(2-4) [OF r] by (auto simp del: length_greater_0_conv)
  qed
  have "part_start ps i + min (part_lens ps ! i) (v_size v - part_start ps i) \<le> length (h_obj h)"
    if i: "i < length (part_lens ps)" "part_start ps i < v_size v" "\<not> recorded v i" for i
  proof -
    let ?x = "part_start ps i + min (part_lens ps ! i) (v_size v - part_start ps i) - 1"
    have ip: "inPart ps i ?x" "?x < v_size v" using i inPart_start(2) [OF pos i(1)] by (auto simp: inPart_def)
    have no: "\<not> uploaded ps v h full y" if "inPart ps i y" for full y using i(3) that inPart_unique by (auto simp: uploaded_def)
    have "v_pos v y \<noteq> Evicted" if "inPart ps i y" for y using D(2) [of y] no [OF that] by auto
    then have "\<not> dirty (v_pos v ?x)" using fin ip(1) by blast
    moreover have "onServer h x" if "\<not> dirty (v_pos v x)" "x < v_size v" "inPart ps i x" for x
      using D(2) [of x] that no [OF that(3)] by (cases "(ps, v, h, x, v_pos v x)" rule: cellOk.cases) (auto, metis BufferState.exhaust)
    ultimately have "onServer h ?x" using ip by blast
    then show ?thesis using i inPart_start(2) [OF pos i(1)] by (auto simp: onServer_def)
  qed
  then show ?thesis using ex mpu by (simp add: compOk_def)
qed

text \<open>A part of the object was copied.\<close>

lemma vinv_copyDone:
  fixes pid :: string
  assumes inv: "vinv ps M v h" and pos: "parts_ok ps" and ex: "h_ex h = Some (Copying sz n c key mpu rs)" and r: "(i, off, len) \<in> set rs" and m: "v_mpu v = Some m"
  defines "v' \<equiv> v\<lparr>v_mpu := Some (setPartId i pid m)\<rparr>"
  defines "h' \<equiv> h\<lparr>h_parts := (h_parts h)(i := take len (drop off (h_obj h))), h_ex := Some (Copying sz n c key mpu (remove1 (i, off, len) rs))\<rparr>"
  shows "vinv ps M v' h'"
proof -
  note D = vinvD [OF inv]
  have j: "compOk ps v h sz" "distinct (map fst rs)" "numParts ps sz = Some n" "mpu_ptr m = mpu_ptr mpu"
    "set rs = {(i, part_start ps i, min (part_lens ps ! i) (sz - part_start ps i)) | i. i < length (part_lens ps) \<and> part_start ps i < sz \<and> \<not> recorded v i}"
    using D(6) [OF ex] m by auto
  have i: "i < length (part_lens ps)" "part_start ps i < sz" "\<not> recorded v i" "off = part_start ps i" "len = min (part_lens ps ! i) (sz - part_start ps i)"
    using r j(5) by auto
  have im: "i < length (mpu_Parts m)" using i(1) D(1) m by (fastforce simp: sizesOk_def)
  have rec: "recorded v' k \<longleftrightarrow> k = i \<or> recorded v k" for k by (rule recorded_setPart [OF m im]) (simp add: v'_def)
  have len: "part_start ps i + len \<le> length (h_obj h)" "sz \<le> v_size v" "0 < len" "len \<le> part_lens ps ! i" "part_start ps i + len \<le> sz"
    using j(1) i inPart_start(2) [OF pos i(1)] by (auto simp: compOk_def)
  have S: "length (take len (drop off (h_obj h))) = len" "k < len \<Longrightarrow> take len (drop off (h_obj h)) ! k = h_obj h ! (part_start ps i + k)" for k
    using len i(4) by auto
  have v': "v_pos v' = v_pos v" "v_size v' = v_size v" "v_did v' = v_did v" "v_cur v' = v_cur v" "v_mpu v' \<noteq> None" by (simp_all add: v'_def)
  have h': "h_content h' = h_content h" "h_obj h' = h_obj h" "h_parts h' k = (if k = i then take len (drop off (h_obj h)) else h_parts h k)"
    "h_up h' = h_up h" for k by (simp_all add: h'_def)
  have srv: "onServer h x" if "inPart ps i x" "x < v_size v" "\<not> dirty (v_pos v x)" for x
  proof -
    have "\<not> uploaded ps v h full x" for full using i(3) that(1) inPart_unique by (auto simp: uploaded_def)
    then show ?thesis using D(2) [of x] that(2,3) by (cases "v_pos v x") (auto split: if_splits, metis BufferState.exhaust)
  qed
  have cells: "cellOk ps v' h' x (v_pos v' x)" for x
  proof -
    have "cellOk ps v' h' x (v_pos v x)"
      by (rule cellOk_mono [OF D(2)]) (use rec i(3) in \<open>auto simp: v' h'(1,2) intro!: uploaded_mono [of ps v h _ x v' h'] simp: h'(3)\<close>)
    then show ?thesis by (simp add: v')
  qed
  have "x - part_start ps i < len \<and> take len (drop off (h_obj h)) ! (x - part_start ps i) = h_content h x"
    if "inPart ps i x" "x < v_size v" "\<not> dirty (v_pos v x)" for x
  proof -
    have "x < sz" using j(1) that(2,3) unfolding compOk_def by (metis linorder_not_less)
    then have "x - part_start ps i < len" using that(1) i(5) by (auto simp: inPart_def)
    then show ?thesis using S(2) [of "x - part_start ps i"] srv [OF that] that(1) by (simp add: onServer_def inPart_def)
  qed
  then have parts: "partsOk ps v' h'" using D(3) i(1,3) len(2-5) S(1) unfolding partsOk_def rec v'(1,2) h' by (auto simp del: nth_take)
  moreover have "compOk ps v' h' sz" using j(1) i len S(1) unfolding compOk_def rec v' h' by (auto simp: v'_def)
  moreover have "set (remove1 (i, off, len) rs) = set rs - {(i, off, len)}" "distinct (map fst (remove1 (i, off, len) rs))"
    using j(2) distinct_map by (auto simp: distinct_map intro: inj_on_subset [of fst "set rs"])
  moreover have "set rs - {(i, off, len)} = {(i, part_start ps i, min (part_lens ps ! i) (sz - part_start ps i)) | i.
      i < length (part_lens ps) \<and> part_start ps i < sz \<and> \<not> recorded v' i}" unfolding rec i(4,5) j(5) by auto
  ultimately have "jobOk ps v' h' (Copying sz n c key mpu (remove1 (i, off, len) rs))" using j(3,4) by (simp add: v'_def setPartId_def)
  moreover have "h_up h = Map.empty" using D(7) ex by (simp add: locksOk_def)
  then have "upsOk ps v' h'" by (simp add: upsOk_def h'(4))
  moreover have "cachedOk v'" "sizesOk ps v' h'" using D(1,4) m by (auto simp: cachedOk_def sizesOk_def v'_def h'(2) setPartId_def)
  moreover have "locksOk ps M v' h'" using D(7) ex by (simp add: locksOk_def v'_def h'_def)
  ultimately show ?thesis using cells parts by (simp add: vinv_def h'_def)
qed

text \<open>The parts put together.\<close>

lemma concat_parts:
  assumes pos: "parts_ok ps" and n: "numParts ps sz = Some n" and sz: "sz \<le> getMaxFileSize ps"
    and P: "\<And>i. i < length (part_lens ps) \<Longrightarrow> part_start ps i < sz \<Longrightarrow> length (P i) = min (part_lens ps ! i) (sz - part_start ps i)"
  shows "length (concat (map P [0..<n])) = sz" "inPart ps i x \<Longrightarrow> x < sz \<Longrightarrow> concat (map P [0..<n]) ! x = P i ! (x - part_start ps i)"
proof -
  have k: "sz \<le> part_start ps n" "\<And>j. j < n \<Longrightarrow> part_start ps j < sz" using numParts_spec [OF pos sz] n by auto
  have "part_start ps (length (part_lens ps)) = getMaxFileSize ps" using pos by (simp add: parts_ok_def getMaxFileSize_eq part_start_end)
  then have nN: "n \<le> length (part_lens ps)" using k(2) [of "length (part_lens ps)"] sz by linarith
  have len: "length (concat (map P [0..<m])) = min (part_start ps m) sz" if "m \<le> n" for m
    using that
  proof (induction m)
    case (Suc m)
    then show ?case using P [of m] k(2) [of m] nN part_start_Suc [of m ps] by auto
  qed simp
  show "length (concat (map P [0..<n])) = sz" using len [of n] k(1) by simp
  have nth: "concat (map P [0..<m]) ! x = P i ! (x - part_start ps i)" if "m \<le> n" "inPart ps i x" "x < sz" "i < m" for m
    using that(1,4)
  proof (induction m)
    case (Suc m)
    have lm: "length (concat (map P [0..<m])) = part_start ps m" using len [of m] k(2) [of m] Suc.prems by auto
    show ?case
    proof (cases "i = m")
      case True
      then show ?thesis using lm that(2) by (simp add: nth_append inPart_def)
    next
      case False
      then have "part_start ps (Suc i) \<le> part_start ps m" using Suc.prems part_start_mono by simp
      then have "x < part_start ps m" using that(2) part_start_Suc [of i ps] by (simp add: inPart_def)
      then show ?thesis using lm Suc False by (simp add: nth_append)
    qed
  qed simp
  assume x: "inPart ps i x" "x < sz"
  then have "part_start ps i < part_start ps n" using k(1) by (simp add: inPart_def)
  then have "i < n" using part_start_mono [of n i ps] by (cases "i < n") auto
  then show "concat (map P [0..<n]) ! x = P i ! (x - part_start ps i)" using nth x by simp
qed

lemma vinv_commitDone:
  assumes inv: "vinv ps M v h" and pos: "parts_ok ps" and ex: "h_ex h = Some (Committing job)"
    and st: "st = ST_CACHED \<or> st = ST_MODIFIED" "st = ST_CACHED \<Longrightarrow> v_size v = cj_size job \<and> (\<forall>x. \<not> dirty (v_pos v x))"
  shows "vinv ps M (v\<lparr>v_mpu := None, v_pos := \<lambda>x. clean_pos (v_pos v x), v_known := cj_size job, v_st := st, v_flushing := v_flushing v - M\<rparr>)
    (h\<lparr>h_obj := concat (map (h_parts h) [0..<mpu_NumParts (cj_mpu job)]), h_ex := None\<rparr>)" (is "vinv ps M ?v ?h")
proof -
  note D = vinvD [OF inv] and P = partsOkD [OF vinvD(3) [OF inv]]
  let ?n = "cj_size job"
  have j: "?n \<le> v_size v" "\<And>i. i < length (part_lens ps) \<Longrightarrow> part_start ps i < ?n \<Longrightarrow> recorded v i"
    "\<And>x. ?n \<le> x \<Longrightarrow> x < v_size v \<Longrightarrow> dirty (v_pos v x)" "\<And>i. recorded v i \<Longrightarrow> length (h_parts h i) = min (part_lens ps ! i) (?n - part_start ps i)"
    using D(6) [OF ex] by (auto simp: compOk_def)
  have max: "?n \<le> getMaxFileSize ps" using j(1) D(1) by (simp add: sizesOk_def)
  have n: "numParts ps ?n = Some (mpu_NumParts (cj_mpu job))" using D(6) [OF ex] by simp
  have len: "\<And>i. i < length (part_lens ps) \<Longrightarrow> part_start ps i < ?n \<Longrightarrow> length (h_parts h i) = min (part_lens ps ! i) (?n - part_start ps i)" using j(2,4) by blast
  note C = concat_parts [OF pos n max len]
  have rec: "\<not> recorded ?v i" for i by (simp add: recorded_def)
  have srv: "onServer ?h x" if "x < v_size v" "\<not> dirty (v_pos v x)" for x
  proof -
    have x: "x < ?n" using j(3) [of x] that by (cases "x < ?n") auto
    then obtain i where i: "inPart ps i x" using inPart_ex [OF pos, of x] max by auto
    then have "recorded v i" using j(2) x by (simp add: inPart_def)
    then have "h_parts h i ! (x - part_start ps i) = h_content h x" using P(5) [OF _ i that] by blast
    moreover have "length (concat (map (h_parts h) [0..<mpu_NumParts (cj_mpu job)])) = ?n" "concat (map (h_parts h) [0..<mpu_NumParts (cj_mpu job)]) ! x = h_parts h i ! (x - part_start ps i)"
      using C(1) C(2) [OF _ _ i x] by blast+
    ultimately show ?thesis using x by (simp add: onServer_def)
  qed
  have "cellOk ps ?v ?h x (clean_pos (v_pos v x))" for x
  proof (cases "v_pos v x")
    case (Here s z w)
    then show ?thesis using D(2) [of x] srv [of x] by (cases s) (auto split: if_splits)
  qed (use D(2) [of x] srv [of x] in auto)
  then have "cellOk ps ?v ?h x (v_pos ?v x)" for x by simp
  moreover have "sizesOk ps ?v ?h" using D(1) C(1) j(2,4) max st(1) by (auto simp: sizesOk_def uploading_def)
  moreover have "partsOk ps ?v ?h" using rec by (simp add: partsOk_def)
  moreover have "\<not> flushed (clean_pos q)" "dirty (clean_pos q) \<longleftrightarrow> dirty q" for q by (cases q; auto)+
  then have "cachedOk ?v" using st(2) by (simp add: cachedOk_def)
  moreover have "h_up h = Map.empty" using D(7) ex by (simp add: locksOk_def)
  then have "upsOk ps ?v ?h" by (simp add: upsOk_def)
  moreover have "locksOk ps M ?v ?h" using D(7) ex by (simp add: locksOk_def)
  ultimately show ?thesis by (simp add: vinv_def)
qed

section \<open>What the invariant promises\<close>

lemma vinv_present:
  assumes "vinv ps M v h" "x < v_size v" "present (v_pos v x)"
  shows "val (v_pos v x) = h_content h x"
  using vinvD(2) [OF assms(1), of x] assms(2,3) by (cases "v_pos v x") auto

lemma vinv_cached:
  assumes inv: "vinv ps M v h" and st: "v_st v = ST_CACHED"
  shows "h_obj h = map (h_content h) [0..<v_size v]"
proof (rule nth_equalityI)
  note D = vinvD [OF inv]
  have c: "v_size v = v_known v" "\<not> dirty (v_pos v x)" "\<not> flushed (v_pos v x)" for x using D(4) st by (simp_all add: cachedOk_def)
  then show "length (h_obj h) = length (map (h_content h) [0..<v_size v])" using D(1) by (simp add: sizesOk_def)
  fix x assume "x < length (h_obj h)"
  then have x: "x < v_size v" using c(1) D(1) by (simp add: sizesOk_def)
  have "onServer h x"
    using D(2) [of x] c(2,3) [of x] x by (cases "v_pos v x") (auto, metis BufferState.exhaust)
  then show "h_obj h ! x = map (h_content h) [0..<v_size v] ! x" using x by (simp add: onServer_def)
qed

end
