(* ===== verification/File_Sections.thy ===== *)
theory File_Sections
  imports File_Inv
begin

text \<open>
  The critical sections of the file operations and of the uploads, each with the view of the file after it.  None
  of them panics on a well-formed file.
\<close>

lemma effect_refl: "fok E s p \<Longrightarrow> effect E s p (v_pos (view E s p)) s"
  unfolding effect_def by (simp, rule exI [of _ "v_did (view E s p)"], rule exI [of _ "v_cur (view E s p)"]) simp

lemma vids_trans: "vids u v \<Longrightarrow> vids v w \<Longrightarrow> vids u w"
  unfolding vids_def by (metis le_trans less_le_trans le_less_trans)

lemma effect_trans:
  assumes "effect E s p q s1" "effect E s1 p q' s2"
  shows "effect E s p q' s2"
proof -
  obtain D c where "view E s1 p = (view E s p)\<lparr>v_pos := q, v_did := D, v_cur := c\<rparr>" using assms(1) by (auto simp: effect_def)
  moreover obtain D' c' where "view E s2 p = (view E s1 p)\<lparr>v_pos := q', v_did := D', v_cur := c'\<rparr>" using assms(2) by (auto simp: effect_def)
  ultimately have "view E s2 p = (view E s p)\<lparr>v_pos := q', v_did := D', v_cur := c'\<rparr>" by simp
  then show ?thesis using assms vids_trans unfolding effect_def by blast
qed

lemma effectD:
  assumes "effect E s p q s'"
  shows "fok E s' p" "vids (view E s p) (view E s' p)" "v_pos (view E s' p) = q"
    "\<exists>D c. view E s' p = (view E s p)\<lparr>v_pos := q, v_did := D, v_cur := c\<rparr>"
  using assms by (auto simp: effect_def)

lemma vids_cases: "vids v v' \<Longrightarrow> v_did v' x \<noteq> 0 \<Longrightarrow> v_cur v < v_did v' x \<or> v_did v' x = v_did v x"
  unfolding vids_def by metis

section \<open>Loading\<close>

lemma ranges_in_ascending: "ranges_in lo rr hi \<Longrightarrow> lo \<le> hi \<Longrightarrow> ascending lo rr hi"
proof (induction rr arbitrary: lo)
  case (Cons r rr)
  obtain a b where r: "r = (a, b)" by fastforce
  then have "ranges_in (Suc b) rr hi" "b \<le> hi" "lo \<le> a" "a < b" using Cons.prems by auto
  then show ?case using Cons.IH [of b] ranges_in_mono [of "Suc b" rr hi b] r by simp
qed simp

lemma ascending_snoc: "ascending lo (rr @ [(a, b)]) hi \<longleftrightarrow> ascending lo rr a \<and> a < b \<and> b \<le> hi"
  by (induction lo rr hi rule: ascending.induct) auto

lemma ascending_less: "ascending lo rr hi \<Longrightarrow> (a, b) \<in> set rr \<Longrightarrow> a < b"
  by (induction lo rr hi rule: ascending.induct) auto

text \<open>Merged requests stay in order; each starts at a gap.\<close>

lemma mergeRA_loop_shape:
  assumes "ascending e0 rr hi" "hi + ra + rm < u64_max" "out \<noteq> []" "ascending lo (rev out) (hi + ra)" "fst (hd out) < e0" "fst ` set out \<subseteq> A" "fst ` set rr \<subseteq> A"
  shows "mergeRA_loop ra rm out rr \<noteq> [] \<and> ascending lo (mergeRA_loop ra rm out rr) (hi + ra) \<and> fst ` set (mergeRA_loop ra rm out rr) \<subseteq> A"
  using assms
proof (induction rr arbitrary: e0 out)
  case (Cons r rr)
  obtain s e where r: "r = (s, e)" by fastforce
  obtain ps pe out' where o: "out = (ps, pe) # out'" using Cons.prems(3) by (cases out) auto
  have se: "e0 \<le> s" "s < e" "ascending e rr hi" "e \<le> hi" using Cons.prems(1) r ascending_le by auto
  have p: "ascending lo (rev out') ps" "ps < pe" "pe \<le> hi + ra" using Cons.prems(4) o by (simp_all add: ascending_snoc)
  show ?case
  proof (cases "s \<le> add64 pe rm")
    case True
    have "ascending lo (rev ((ps, e) # out')) (hi + ra)" using p se Cons.prems(5) o by (simp add: ascending_snoc)
    then show ?thesis
      using Cons.IH [OF se(3) Cons.prems(2), of "(ps, e) # out'"] True o r Cons.prems(5-7) se(1,2) by (simp add: mergeRA_loop_Cons)
  next
    case False
    have "pe < s" using False p(3) Cons.prems(2) by (simp add: u64_simps)
    moreover have "add64 s (ra_size ra s e) = s + max ra (e - s)" using ra_size_le [OF se(2,4), of ra] Cons.prems(2) by linarith
    ultimately have "s < add64 s (ra_size ra s e)" "add64 s (ra_size ra s e) \<le> hi + ra" "ascending lo (rev out) s"
      using p se o by (simp_all add: ascending_snoc)
    then have "ascending lo (rev ((s, add64 s (ra_size ra s e)) # out)) (hi + ra)" by (simp add: ascending_snoc)
    then show ?thesis
      using Cons.IH [OF se(3) Cons.prems(2), of "(s, add64 s (ra_size ra s e)) # out"] False o r Cons.prems(6,7) se(2) by (simp add: mergeRA_loop_Cons)
  qed
qed simp

lemma mergeRA_shape:
  assumes "ascending lo rr hi" "hi + ra + rm < u64_max" "rr \<noteq> []"
  shows "mergeRA rr ra rm \<noteq> [] \<and> ascending lo (mergeRA rr ra rm) (hi + ra) \<and> fst ` set (mergeRA rr ra rm) \<subseteq> fst ` set rr"
proof -
  obtain s e rr' where r: "rr = (s, e) # rr'" using assms(3) by (cases rr) auto
  have se: "lo \<le> s" "s < e" "ascending e rr' hi" "e \<le> hi" using assms(1) r ascending_le by auto
  let ?m = "if ra \<le> rm then rm - ra else 0" and ?b = "add64 s (ra_size ra s e)"
  have b: "?b = s + max ra (e - s)" using ra_size_le [OF se(2,4), of ra] assms(2) by linarith
  have "ascending lo (rev [(s, ?b)]) (hi + ra)" using se unfolding b by (simp add: max_def)
  moreover have "hi + ra + ?m < u64_max" "fst ` set rr' \<subseteq> fst ` set rr" "mergeRA rr ra rm = mergeRA_loop ra ?m [(s, ?b)] rr'"
    using assms(2) by (auto simp: r mergeRA_def mergeRA_loop_Cons)
  ultimately show ?thesis using mergeRA_loop_shape [OF se(3), of ra ?m "[(s, ?b)]" lo "fst ` set rr"] se(2) r by simp
qed

lemma cutLast_shape:
  assumes "ascending lo rs hi" "rs \<noteq> []" "\<And>a. a \<in> fst ` set rs \<Longrightarrow> a < known"
  shows "\<exists>rs'. cutLast known rs = Some (Inr rs') \<and> ascending lo rs' known"
proof -
  obtain rs0 a b where r: "rs = rs0 @ [(a, b)]" using assms(2) by (metis old.prod.exhaust rev_exhaust)
  then have a: "ascending lo rs0 a" "a < b" "a < known" using assms(1,3) by (auto simp: ascending_snoc)
  then show ?thesis by (auto simp: cutLast_def r ascending_snoc)
qed

lemma addLoadings_view:
  assumes "fok E s p" "ascending lo rs hi" "hi \<le> maxSize E"
  shows "\<exists>s'. addLoadings E p rs s = Some s' \<and> effect E s p (v_pos (view E s p)) s'"
  using assms(1,2)
proof (induction rs arbitrary: s lo)
  case (Cons r rs)
  obtain a b where r: "r = (a, b)" by fastforce
  then have ab: "a < b" "ascending b rs hi" "b \<le> hi" using Cons.prems(2) ascending_le by auto
  have sz: "sub64 b a = b - a" "a + (b - a) \<le> maxSize E" using ab assms(3) fokD(4) [OF Cons.prems(1)] by (auto simp: u64_simps)
  obtain s1 where s1: "buffersDo p (\<lambda>l. AddLoading (bufEnvOf E p) l a (sub64 b a)) s = Some s1" "effect E s p (v_pos (view E s p)) s1"
    using AddLoading_view [OF Cons.prems(1) sz(2)] sz(1) by auto
  obtain s2 where "addLoadings E p rs s1 = Some s2" "effect E s1 p (v_pos (view E s1 p)) s2"
    using Cons.IH [OF effectD(1) [OF s1(2)] ab(2)] by blast
  then show ?case using s1 effect_trans [OF s1(2)] effectD(3) [OF s1(2)] by (simp add: r)
qed (simp add: effect_refl)

text \<open>Limits on the settings for reading ahead: the sums do not wrap.\<close>

definition loadOk :: "('t, 'd, 'c) gEnv \<Rightarrow> u64 \<Rightarrow> bool" where
  "loadOk E ra \<longleftrightarrow> 0 < mul64 (ReadAheadParallelKB (f_read (g_flags E))) 1024 \<and>
     maxSize E + mul64 (ReadAheadParallelKB (f_read (g_flags E))) 1024 < u64_max \<and>
     maxSize E + ra + mul64 (ReadMergeKB (f_read (g_flags E))) 1024 < u64_max"

lemma LoadRange_begin_view:
  assumes ok: "fok E s p" and fl: "f_CachePath (g_flags E) = []" "loadOk E ra" and sz: "v_size (view E s p) \<le> off \<or> 0 < sz \<or> 0 < ra" "off + sz < u64_max"
    and v: "v_size (view E s p) \<le> maxSize E" "v_known (view E s p) \<le> maxSize E"
      "\<And>x. x < v_size (view E s p) \<Longrightarrow> v_pos (view E s p) x = Absent \<Longrightarrow> x < v_known (view E s p)"
  shows "\<exists>s' r. LoadRange_begin E os other s p off sz ra = Some (s', r) \<and> effect E s p (v_pos (view E s p)) s'"
proof (cases "sizeOf s p \<le> off")
  case True
  then show ?thesis using effect_refl [OF ok] by (auto simp: LoadRange_begin_def)
next
  case False
  note D = fokD [OF ok]
  let ?sz = "if add64 off sz \<ge> sizeOf s p then sub64 (sizeOf s p) off else sz"
  let ?ra0 = "if ?sz < ra then ra else ?sz"
  let ?ra = "if add64 off ?ra0 > sizeOf s p then sub64 (sizeOf s p) off else ?ra0"
  have size: "sizeOf s p \<le> maxSize E" "sub64 (sizeOf s p) off = sizeOf s p - off"
    using v(1) D(4) False by (simp_all add: view_sel u64_simps)
  have ra: "0 < ?ra" "off + ?ra \<le> sizeOf s p" using False sz size fl(2) D(4) by (auto simp: u64_simps loadOk_def view_sel)
  obtain holes loading clr where g: "GetHoles (bufEnvOf E p) (bufsOf s p) off ?ra = (holes, loading, clr)" by (metis prod_cases3)
  note H = buffer_env.GetHoles_pos [OF D(1-3) ra(1) _ g]
  have H12: "in_ranges holes x \<Longrightarrow> off \<le> x \<and> x < off + ?ra \<and> lpos (bufEnvOf E p) (bufsOf s p) x = Absent" "ranges_in off holes (off + ?ra)" for x
    using H(1,2) ra(2) size(1) D(4) by (auto simp del: mult_Suc_right)
  have load: "\<exists>s' js. loadFromServer E s p holes ra = Some (s', Inr js) \<and> effect E s p (v_pos (view E s p)) s'" if "holes \<noteq> []"
  proof -
    let ?rm = "mul64 (ReadMergeKB (f_read (g_flags E))) 1024" and ?mp = "mul64 (ReadAheadParallelKB (f_read (g_flags E))) 1024"
    have asc: "ascending off holes (off + ?ra)" using ranges_in_ascending [OF H12(2)] by simp
    from mergeRA_shape [OF asc _ that, of ra ?rm] have m: "mergeRA holes ra ?rm \<noteq> []" "ascending off (mergeRA holes ra ?rm) (off + ?ra + ra)"
      "fst ` set (mergeRA holes ra ?rm) \<subseteq> fst ` set holes" using fl(2) ra(2) size(1) by (auto simp: loadOk_def)
    have "a < i_knownSize (heap s p)" if a: "a \<in> fst ` set holes" for a
    proof -
      obtain b where b: "(a, b) \<in> set holes" using a by auto
      have "a < b" by (rule ascending_less [OF asc b])
      then have "in_ranges holes a" using b unfolding in_ranges_def by fastforce
      then show ?thesis using H12(1) [of a] v(3) [of a] ra(2) by (simp add: view_sel)
    qed
    then obtain rs where rs: "cutLast (i_knownSize (heap s p)) (mergeRA holes ra ?rm) = Some (Inr rs)" "ascending off rs (i_knownSize (heap s p))"
      using cutLast_shape [OF m(2,1)] m(3) by blast
    have k: "i_knownSize (heap s p) \<le> maxSize E" using v(2) by (simp add: view_sel)
    obtain rs' where rs': "splitRA rs ?mp = Some rs'" "ascending off rs' (i_knownSize (heap s p))"
      using splitRA_pieces [OF _ rs(2), of ?mp] fl(2) k by (auto simp: loadOk_def)
    obtain s' where "addLoadings E p rs' s = Some s'" "effect E s p (v_pos (view E s p)) s'" using addLoadings_view [OF ok rs'(2) k] by blast
    then show ?thesis using rs(1) rs'(1) by (auto simp: loadFromServer_def split: prod.split)
  qed
  show ?thesis
  proof (cases "clr")
    case True
    then show ?thesis using effect_refl [OF ok] g False by (auto simp: LoadRange_begin_def Let_def)
  next
    case clr: False
    show ?thesis
    proof (cases "holes = []")
      case True
      then show ?thesis using effect_refl [OF ok] g False clr fl(1) by (auto simp: LoadRange_begin_def Let_def diskPart_def)
    next
      case h: False
      obtain s' js where "loadFromServer E s p holes ra = Some (s', Inr js)" "effect E s p (v_pos (view E s p)) s'" using load [OF h] by blast
      then show ?thesis using g False clr h fl(1) by (auto simp: LoadRange_begin_def Let_def diskPart_def)
    qed
  qed
qed

section \<open>Writing\<close>

text \<open>\<open>q\<close> are the positions after an operation, \<open>W\<close> those with a new identifier.\<close>

definition writes :: "('t, 'd, 'c) gEnv \<Rightarrow> ('t, 'd, 'c) Goofys \<Rightarrow> ptr \<Rightarrow> u64 set \<Rightarrow> (u64 \<Rightarrow> pos) \<Rightarrow> ('t, 'd, 'c) Goofys \<Rightarrow> bool" where
  "writes E s p W q s' \<longleftrightarrow> effect E s p q s' \<and> (\<forall>x \<in> W. v_cur (view E s p) < v_did (view E s' p) x)"

lemma writes_refl: "fok E s p \<Longrightarrow> writes E s p {} (v_pos (view E s p)) s"
  by (simp add: writes_def effect_refl)

lemma writes_trans:
  assumes "writes E s p W q s1" "writes E s1 p W' q' s2" "\<And>x. x \<in> W \<Longrightarrow> dirty (q' x)"
  shows "writes E s p (W \<union> W') q' s2"
proof -
  have e: "effect E s p q s1" "effect E s1 p q' s2" using assms(1,2) by (simp_all add: writes_def)
  have c: "v_cur (view E s p) \<le> v_cur (view E s1 p)" using effectD(2) [OF e(1)] by (simp add: vids_def)
  have "v_cur (view E s p) < v_did (view E s2 p) x" if "x \<in> W" for x
  proof -
    have "v_did (view E s2 p) x \<noteq> 0" using view_dirty(1) [OF effectD(1) [OF e(2)]] effectD(3) [OF e(2)] assms(3) [OF that] by simp
    then have "v_cur (view E s1 p) < v_did (view E s2 p) x \<or> v_did (view E s2 p) x = v_did (view E s1 p) x"
      using vids_cases [OF effectD(2) [OF e(2)]] by simp
    moreover have "v_cur (view E s p) < v_did (view E s1 p) x" using assms(1) that by (simp add: writes_def)
    ultimately show ?thesis using c by auto
  qed
  moreover have "v_cur (view E s p) < v_did (view E s2 p) x" if "x \<in> W'" for x using assms(2) that c by (fastforce simp: writes_def)
  ultimately show ?thesis using effect_trans [OF e] by (auto simp: writes_def)
qed

lemma view_meta [simp]:
  "view E (upd p (\<lambda>i. i\<lparr>i_userMetadata := f (i_userMetadata i), i_userMetadataDirty := k\<rparr>) s) p = view E s p"
  "fok E (upd p (\<lambda>i. i\<lparr>i_userMetadata := f (i_userMetadata i), i_userMetadataDirty := k\<rparr>) s) p = fok E s p"
proof -
  show "view E (upd p (\<lambda>i. i\<lparr>i_userMetadata := f (i_userMetadata i), i_userMetadataDirty := k\<rparr>) s) p = view E s p"
    by (simp add: view_def bufsOf_def sizeOf_def)
  show "fok E (upd p (\<lambda>i. i\<lparr>i_userMetadata := f (i_userMetadata i), i_userMetadataDirty := k\<rparr>) s) p = fok E s p"
    by (rule fok_cong) (auto simp: bufview_def)
qed

text \<open>The positions of a file that is resized from \<open>n0\<close> to \<open>n\<close>.\<close>

definition resized :: "u64 \<Rightarrow> u64 \<Rightarrow> (u64 \<Rightarrow> pos) \<Rightarrow> u64 \<Rightarrow> pos" where
  "resized n0 n q x = (if n \<le> x \<and> x < n0 then Absent else if n0 \<le> x \<and> x < n then Here BUF_DIRTY True 0 else q x)"

lemma resizeNow_view:
  assumes ok: "fok E s p" and n: "n \<le> maxSize E" "v_size (view E s p) \<le> maxSize E"
    and nz: "\<And>x st v. v_size (view E s p) \<le> x \<Longrightarrow> v_pos (view E s p) x \<noteq> Here st True v"
  shows "\<exists>s1 s'. resizeNow E s p n = Some s' \<and> writes E s p {v_size (view E s p)..<n} (resized (v_size (view E s p)) n (v_pos (view E s p))) s1 \<and>
    fok E s' p \<and> view E s' p = (view E s1 p)\<lparr>v_size := n\<rparr>"
proof -
  let ?n0 = "v_size (view E s p)"
  have max: "maxSize E < u64_max" by (rule fokD(4) [OF ok])
  have n0: "sizeOf s p = ?n0" by (simp add: view_sel)
  let ?f = "if ?n0 > n then withBuffers p (\<lambda>l. RemoveRange (bufEnvOf E p) l n (sub64 ?n0 n) (\<lambda>_. True)) s
    else if ?n0 < n then withBuffers p (\<lambda>l. map_option (\<lambda>(l, _, allocated). (l, allocated)) (ZeroRange (bufEnvOf E p) l ?n0 (sub64 n ?n0))) s
    else Some (s, 0)"
  obtain s1 a where s1: "?f = Some (s1, a)" "writes E s p {?n0..<n} (resized ?n0 n (v_pos (view E s p))) s1"
  proof (cases "?n0 = n")
    case True
    have "resized ?n0 n (v_pos (view E s p)) = v_pos (view E s p)" using True by (auto simp: resized_def fun_eq_iff)
    then show ?thesis using that [of s 0] writes_refl [OF ok] True by simp
  next
    case ne: False
    show ?thesis
    proof (cases "?n0 > n")
      case True
      have b: "sub64 ?n0 n = ?n0 - n" "0 < ?n0 - n" "n + (?n0 - n) < u64_max" using True n max by (auto simp: u64_simps)
      have eq: "(\<lambda>x. if n \<le> x \<and> x < n + (?n0 - n) then Absent else v_pos (view E s p) x) = resized ?n0 n (v_pos (view E s p))"
        using True by (auto simp: resized_def fun_eq_iff)
      from RemoveRange_view [OF ok b(2,3)] show ?thesis using that True b(1) unfolding eq by (auto simp: writes_def)
    next
      case False
      then have lt: "?n0 < n" using ne by simp
      have b: "sub64 n ?n0 = n - ?n0" "0 < n - ?n0" "?n0 + (n - ?n0) \<le> maxSize E" using lt n max by (auto simp: u64_simps)
      have eq: "(\<lambda>x. if ?n0 \<le> x \<and> x < ?n0 + (n - ?n0) then Here BUF_DIRTY True 0 else v_pos (view E s p) x) = resized ?n0 n (v_pos (view E s p))"
        using lt by (auto simp: resized_def fun_eq_iff)
      from ZeroRange_view [OF ok b(2,3) nz] show ?thesis using that lt b(1) unfolding eq by (auto simp: writes_def)
    qed
  qed
  have "fok E s1 p" using s1(2) by (simp add: writes_def effect_def)
  then show ?thesis using s1 unfolding resizeNow_def n0 by auto
qed

lemma ResizeUnlocked_now:
  assumes "i_pauseWriters (heap s p) \<le> 0" "n < sizeOf s p \<Longrightarrow> \<not> resizeBlocked E s p n"
  shows "ResizeUnlocked E wait sync s p n = resizeNow E s p n"
  using assms by (simp add: ResizeUnlocked_def checkPauseWriters_def resizeWait.simps)

definition written :: "u64 \<Rightarrow> u64 \<Rightarrow> byte list \<Rightarrow> (u64 \<Rightarrow> pos) \<Rightarrow> u64 \<Rightarrow> pos" where
  "written n0 off data q x = (if off \<le> x \<and> x < off + length data then Here BUF_DIRTY False (data ! (x - off))
     else if n0 \<le> x \<and> x < off + length data then Here BUF_DIRTY True 0 else q x)"

lemma fresh_keep:
  assumes "vids v1 v2" "v_cur v \<le> v_cur v1" "v_cur v < v_did v1 x" "v_did v2 x \<noteq> 0"
  shows "v_cur v < v_did v2 x"
  using vids_cases [OF assms(1,4)] assms(2,3) by auto

text \<open>A file that is made to reach \<open>hi\<close>: the positions past its old end are new zeroes.\<close>

lemma grown_view:
  assumes ok: "fok E s p" and hi: "hi \<le> maxSize E" and v: "v_size (view E s p) \<le> maxSize E" "v_pause (view E s p) \<le> 0"
    and nz: "\<And>x st v. v_size (view E s p) \<le> x \<Longrightarrow> v_pos (view E s p) x \<noteq> Here st True v"
  shows "\<exists>s1 D0 k0. (if sizeOf s p < hi then ResizeUnlocked E wait sync s p hi else Some s) = Some s1 \<and> fok E s1 p \<and>
    view E s1 p = (view E s p)\<lparr>v_pos := resized (v_size (view E s p)) (max (v_size (view E s p)) hi) (v_pos (view E s p)), v_did := D0, v_cur := k0,
      v_size := max (v_size (view E s p)) hi\<rparr> \<and> vids (view E s p) (view E s1 p) \<and>
    (\<forall>x. v_size (view E s p) \<le> x \<and> x < hi \<longrightarrow> v_cur (view E s p) < D0 x)"
proof -
  let ?v = "view E s p"
  let ?q1 = "resized (v_size ?v) (max (v_size ?v) hi) (v_pos ?v)"
  have n0: "sizeOf s p = v_size ?v" "i_pauseWriters (heap s p) \<le> 0" using v(2) by (simp_all add: view_sel)
  obtain s0 s1 where s1: "(if sizeOf s p < hi then ResizeUnlocked E wait sync s p hi else Some s) = Some s1" "fok E s1 p"
    "writes E s p {v_size ?v..<hi} ?q1 s0" "view E s1 p = (view E s0 p)\<lparr>v_size := max (v_size ?v) hi\<rparr>"
  proof (cases "v_size ?v < hi")
    case True
    then show ?thesis using resizeNow_view [OF ok hi v(1) nz] that ResizeUnlocked_now [OF n0(2), of hi E wait sync] n0(1) by (auto simp: max_def)
  next
    case False
    then have "?q1 = v_pos ?v" "{v_size ?v..<hi} = {}" by (auto simp: resized_def fun_eq_iff)
    then show ?thesis using that [of s s] writes_refl [OF ok] ok False n0(1) by (simp add: max_def)
  qed
  have c0: "effect E s p ?q1 s0" "\<forall>x \<in> {v_size ?v..<hi}. v_cur ?v < v_did (view E s0 p) x" using s1(3) by (simp_all add: writes_def)
  obtain D0 k0 where v0: "view E s0 p = ?v\<lparr>v_pos := ?q1, v_did := D0, v_cur := k0\<rparr>" using effectD(4) [OF c0(1)] by blast
  have "vids ?v (view E s1 p)" using effectD(2) [OF c0(1)] s1(4) by (simp add: vids_def)
  then show ?thesis using s1 v0 c0(2) by (intro exI [of _ s1] exI [of _ D0] exI [of _ k0]) simp
qed

lemma WriteFile_section_view:
  assumes ok: "fok E s p" and d: "data \<noteq> []" "off + length data \<le> maxSize E" and v: "v_size (view E s p) \<le> maxSize E" "v_pause (view E s p) \<le> 0"
    and nz: "\<And>x st v. v_size (view E s p) \<le> x \<Longrightarrow> v_pos (view E s p) x \<noteq> Here st True v"
  shows "\<exists>s' n D c. WriteFile_section E wait sync now s p off data slack cp = Some (s', n) \<and> fok E s' p \<and>
    view E s' p = (view E s p)\<lparr>v_pos := written (v_size (view E s p)) off data (v_pos (view E s p)), v_did := D, v_cur := c,
      v_size := max (v_size (view E s p)) (off + length data), v_last := off + length data,
      v_st := (if v_st (view E s p) = ST_CACHED then ST_MODIFIED else v_st (view E s p))\<rparr> \<and> vids (view E s p) (view E s' p) \<and>
    (\<forall>x. x < off + length data \<and> (off \<le> x \<or> v_size (view E s p) \<le> x) \<longrightarrow> v_cur (view E s p) < D x)"
proof -
  let ?v = "view E s p" and ?hi = "off + length data"
  have e: "add64 off (length data) = ?hi" using d(2) fokD(4) [OF ok] by (simp add: u64_simps)
  have n0: "i_pauseWriters (heap s p) \<le> 0" using v(2) by (simp add: view_sel)
  let ?q1 = "resized (v_size ?v) (max (v_size ?v) ?hi) (v_pos ?v)"
  obtain s1 D0 k0 where s1: "(if sizeOf s p < ?hi then ResizeUnlocked E wait sync s p ?hi else Some s) = Some s1" "fok E s1 p"
    and v1: "view E s1 p = ?v\<lparr>v_pos := ?q1, v_did := D0, v_cur := k0, v_size := max (v_size ?v) ?hi\<rparr>" and ids1: "vids ?v (view E s1 p)"
    and c0: "\<forall>x. v_size ?v \<le> x \<and> x < ?hi \<longrightarrow> v_cur ?v < D0 x" using grown_view [OF ok d(2) v nz, of wait sync] by blast
  let ?q = "written (v_size ?v) off data (v_pos ?v)"
  have q: "(\<lambda>x. if off \<le> x \<and> x < ?hi then (if BUF_DIRTY = BUF_DIRTY then Here BUF_DIRTY False (data ! (x - off)) else load_pos (data ! (x - off)) (v_pos (view E s1 p) x))
      else v_pos (view E s1 p) x) = ?q" by (auto simp: v1 written_def resized_def fun_eq_iff)
  obtain s2 n where s2: "withBuffers p (\<lambda>l. Add (bufEnvOf E p) l off data slack BUF_DIRTY cp) s1 = Some (s2, n)" "effect E s1 p ?q s2"
    "\<forall>x. off \<le> x \<longrightarrow> x < ?hi \<longrightarrow> v_cur (view E s1 p) < v_did (view E s2 p) x"
    using Add_view [OF s1(2) d, of BUF_DIRTY slack cp] unfolding q by blast
  note eD = effectD [OF s2(2)]
  obtain D c where "view E s2 p = (view E s1 p)\<lparr>v_pos := ?q, v_did := D, v_cur := c\<rparr>" using eD(4) by blast
  then have v2: "view E s2 p = ?v\<lparr>v_pos := ?q, v_did := D, v_cur := c, v_size := max (v_size ?v) ?hi\<rparr>" by (simp add: v1)
  have ids: "vids ?v (view E s2 p)" "v_cur ?v \<le> v_cur (view E s1 p)" using vids_trans [OF ids1 eD(2)] ids1 by (blast, simp add: vids_def)
  have fresh: "v_cur ?v < D x" if x: "x < ?hi" "off \<le> x \<or> v_size ?v \<le> x" for x
  proof (cases "off \<le> x")
    case True
    then show ?thesis using s2(3) x(1) ids(2) v1 v2 by fastforce
  next
    case False
    then have "v_did (view E s2 p) x \<noteq> 0" using view_dirty(1) [OF eD(1)] eD(3) x by (simp add: written_def)
    then show ?thesis using fresh_keep [OF eD(2) ids(2)] c0 x False v1 v2 by simp
  qed
  let ?s3 = "upd p (\<lambda>i. i\<lparr>i_lastWriteEnd := ?hi\<rparr>) (s2\<lparr>hasNewWrites := True\<rparr>)"
  let ?s4 = "touch now (WakeupFlusher (if i_CacheState (heap ?s3 p) = ST_CACHED then SetCacheState E ?s3 p ST_MODIFIED else ?s3)) p"
  have st: "i_CacheState (heap s2 p) = v_st ?v" using v2 view_sel(3) [of E s2 p] by simp
  have v4: "view E ?s4 p = ?v\<lparr>v_pos := ?q, v_did := D, v_cur := c, v_size := max (v_size ?v) ?hi, v_last := ?hi,
      v_st := (if v_st ?v = ST_CACHED then ST_MODIFIED else v_st ?v)\<rparr>"
    using st v2 by simp
  obtain s5 where s5: "WriteFile_section E wait sync now s p off data slack cp = Some (s5, n)" "view E s5 p = view E ?s4 p" "fok E s5 p = fok E ?s4 p"
  proof -
    have "WriteFile_section E wait sync now s p off data slack cp = Some
      (if f_EnableMtime (g_flags E) \<and> (case i_userMetadata (heap ?s4 p) of None \<Rightarrow> False | Some m \<Rightarrow> map_of m (f_MtimeAttr (g_flags E)) \<noteq> None)
       then upd p (\<lambda>i. i\<lparr>i_userMetadata := map_option (AList.delete (f_MtimeAttr (g_flags E))) (i_userMetadata i), i_userMetadataDirty := 2\<rparr>) ?s4 else ?s4, n)"
      using s1(1) s2(1) n0 by (simp add: WriteFile_section_def e checkPauseWriters_def Let_def)
    then show ?thesis by (rule that) (simp_all split: if_split)
  qed
  have "fok E s5 p" using s5(3) eD(1) by simp
  moreover have "vids ?v (view E s5 p)" using ids s5(2) v2 v4 by (simp add: vids_def)
  moreover note s5(2) [unfolded v4]
  ultimately show ?thesis using s5(1) fresh by blast
qed

text \<open>A call of \<open>SetAttributes\<close> for the size only: nothing happens, or the file has the new size.\<close>

lemma SetAttributes_view:
  assumes ok: "fok E s p" and v: "v_size (view E s p) \<le> maxSize E" "v_pause (view E s p) \<le> 0"
    and st: "v_st (view E s p) \<noteq> ST_DELETED" "v_st (view E s p) \<noteq> ST_DEAD"
    and nz: "\<And>x st v. v_size (view E s p) \<le> x \<Longrightarrow> v_pos (view E s p) x \<noteq> Here st True v"
    and free: "n < v_size (view E s p) \<Longrightarrow> \<not> resizeBlocked E s p n"
  obtains (same) err where "SetAttributes St E wait sync s p (Some n) None None None None = Some (s, err)"
      "i_Parent (heap s p) = None \<or> n = sizeOf s p \<or> maxSize E < n"
  | (size) s' D c where "SetAttributes St E wait sync s p (Some n) None None None None = Some (s', None)" "n \<le> maxSize E" "fok E s' p"
      "view E s' p = (view E s p)\<lparr>v_pos := resized (v_size (view E s p)) n (v_pos (view E s p)), v_did := D, v_cur := c, v_size := n,
        v_st := (if v_st (view E s p) = ST_CACHED then ST_MODIFIED else v_st (view E s p))\<rparr>" "vids (view E s p) (view E s' p)"
      "\<And>x. v_size (view E s p) \<le> x \<Longrightarrow> x < n \<Longrightarrow> v_cur (view E s p) < D x"
proof (cases "i_Parent (heap s p) = None \<or> n = sizeOf s p \<or> maxSize E < n")
  case True
  have "i_CacheState (heap s p) \<noteq> ST_DELETED" "i_CacheState (heap s p) \<noteq> ST_DEAD" using st by (simp_all add: view_sel)
  then have "SetAttributes St E wait sync s p (Some n) None None None None = Some (s,
      if i_Parent (heap s p) = None then (if f_IgnoreRootAttrErrors (g_flags E) then None else Some (Errno ENOTSUP))
      else if n = sizeOf s p then None else Some (Errno EFBIG))"
    using True by (auto simp: SetAttributes_def setSize_def setMtime_def setOwner_def)
  then show ?thesis using True by (rule same)
next
  case False
  let ?v = "view E s p"
  have n: "n \<le> maxSize E" "sizeOf s p \<noteq> n" using False by auto
  have s0: "i_pauseWriters (heap s p) \<le> 0" "n < sizeOf s p \<Longrightarrow> \<not> resizeBlocked E s p n" "i_CacheState (heap s p) \<noteq> ST_DELETED" "i_CacheState (heap s p) \<noteq> ST_DEAD"
    using v(2) st free by (simp_all add: view_sel)
  obtain s1 s2 where s1: "resizeNow E s p n = Some s2" "writes E s p {v_size ?v..<n} (resized (v_size ?v) n (v_pos ?v)) s1" "fok E s2 p"
    "view E s2 p = (view E s1 p)\<lparr>v_size := n\<rparr>" using resizeNow_view [OF ok n(1) v(1) nz] by blast
  have e: "effect E s p (resized (v_size ?v) n (v_pos ?v)) s1" using s1(2) by (simp add: writes_def)
  obtain D c where v1: "view E s1 p = ?v\<lparr>v_pos := resized (v_size ?v) n (v_pos ?v), v_did := D, v_cur := c\<rparr>" using effectD(4) [OF e] by blast
  then have v2: "view E s2 p = ?v\<lparr>v_pos := resized (v_size ?v) n (v_pos ?v), v_did := D, v_cur := c, v_size := n\<rparr>" using s1(4) by simp
  let ?s3 = "if i_CacheState (heap s2 p) = ST_CACHED then WakeupFlusher (SetCacheState E s2 p ST_MODIFIED) else s2"
  have "SetAttributes St E wait sync s p (Some n) None None None None = Some (?s3, None)"
    using False s0 s1(1) by (auto simp: SetAttributes_def setSize_def setMtime_def setOwner_def ResizeUnlocked_now)
  moreover have "i_CacheState (heap s2 p) = v_st ?v" using v2 view_sel(3) [of E s2 p] by simp
  then have "view E ?s3 p = ?v\<lparr>v_pos := resized (v_size ?v) n (v_pos ?v), v_did := D, v_cur := c, v_size := n,
      v_st := (if v_st ?v = ST_CACHED then ST_MODIFIED else v_st ?v)\<rparr>" using v2 by simp
  moreover have "fok E ?s3 p" using s1(3) by simp
  moreover have "vids ?v (view E ?s3 p)" using effectD(2) [OF e] v1 calculation(2) by (simp add: vids_def)
  moreover have "v_cur ?v < D x" if "v_size ?v \<le> x" "x < n" for x using s1(2) v1 that by (simp add: writes_def)
  ultimately show ?thesis using n(1) by (intro size) blast+
qed

section \<open>Data from the store\<close>

lemma setMode_Size [simp]: "a_Size (setMode E m a) = a_Size a"
  by (simp add: setMode_def Let_def split: option.split)

text \<open>Changes that the view does not show.\<close>

definition quiet :: "ptr \<Rightarrow> ('t, 'd, 'c) Goofys \<Rightarrow> ('t, 'd, 'c) Goofys \<Rightarrow> bool" where
  "quiet p s s' \<longleftrightarrow> bufview s' = bufview s \<and> ffields (heap s' p) = ffields (heap s p) \<and> i_CacheState (heap s' p) = i_CacheState (heap s p) \<and>
     nextPtr s' = nextPtr s"

lemma quiet_upd:
  assumes "\<And>i. i_buffers (f i) = i_buffers i \<and> ffields (f i) = ffields i \<and> i_CacheState (f i) = i_CacheState i"
  shows "quiet p s (upd q f s)"
  using assms by (simp add: quiet_def bufview_def fun_eq_iff)

lemma quiet_trans: "quiet p s s1 \<Longrightarrow> quiet p s1 s2 \<Longrightarrow> quiet p s s2"
  by (simp add: quiet_def)

lemma quiet_view: "quiet p s s' \<Longrightarrow> view E s' p = view E s p \<and> fok E s' p = fok E s p"
  using view_cong [of s' s p E] fok_cong [of s' s p E] by (auto simp: quiet_def ffields_def view_def)

lemma fillXattrFromHead_view:
  assumes "fok E s p"
  shows "\<exists>s'. fillXattrFromHead E s p resp = Some s' \<and> view E s' p = view E s p \<and> fok E s' p"
proof -
  let ?put = "\<lambda>k v i. i\<lparr>i_s3Metadata := map_option (AList.update k v) (i_s3Metadata i)\<rparr>"
  let ?s1 = "case ETag resp of None \<Rightarrow> s | Some e \<Rightarrow> upd p (?put ''etag'' e) s"
  let ?s2 = "upd p (?put ''storage-class'' (case StorageClass resp of None \<Rightarrow> ''STANDARD'' | Some c \<Rightarrow> c)) ?s1"
  let ?s3 = "setMetadata E ?s2 p (case ItemMetadata resp of None \<Rightarrow> [] | Some m \<Rightarrow> m)"
  have put: "quiet p s (upd p (?put k v) s)" for k v and s :: "('a, 'b, 'c) Goofys"
    by (rule quiet_upd) (simp add: ffields_def)
  have "quiet p s ?s1" using put by (cases "ETag resp") (simp_all add: quiet_def)
  then have "quiet p s ?s2" using put quiet_trans by blast
  moreover have "quiet p ?s2 ?s3"
    unfolding setMetadata_def Let_def by (rule quiet_upd) (simp add: ffields_def split: option.split)
  ultimately have "quiet p s ?s3" by (rule quiet_trans)
  moreover have "fillXattrFromHead E s p resp = Some ?s3" using assms by (auto simp: fillXattrFromHead_def fok_def Let_def)
  ultimately show ?thesis using quiet_view [of p s ?s3 E] assms by blast
qed

definition loaded :: "u64 \<Rightarrow> byte list \<Rightarrow> (u64 \<Rightarrow> pos) \<Rightarrow> u64 \<Rightarrow> pos" where
  "loaded off data q x = (if off \<le> x \<and> x < off + length data then load_pos (data ! (x - off)) (q x) else q x)"

lemma sendRead_block_view:
  assumes ok: "fok E s p" and d: "data \<noteq> []" "off + length data \<le> maxSize E"
  shows "\<exists>s' n. sendRead_block E s p resp off data = Some (s', n) \<and> effect E s p (loaded off data (v_pos (view E s p))) s'"
proof -
  obtain s1 where s1: "(if i_userMetadata (heap s p) = None then fillXattrFromHead E s p resp else Some s) = Some s1" "view E s1 p = view E s p" "fok E s1 p"
    using fillXattrFromHead_view [OF ok, of resp] ok by (cases "i_userMetadata (heap s p) = None") auto
  have q: "(\<lambda>x. if off \<le> x \<and> x < off + length data
       then (if BUF_CLEAN = BUF_DIRTY then Here BUF_DIRTY False (data ! (x - off)) else load_pos (data ! (x - off)) (v_pos (view E s1 p) x))
       else v_pos (view E s1 p) x) = loaded off data (v_pos (view E s1 p))" by (simp add: loaded_def fun_eq_iff)
  from Add_view [OF s1(3) d, of BUF_CLEAN "[]" False] obtain s' n where
    s': "withBuffers p (\<lambda>l. Add (bufEnvOf E p) l off data [] BUF_CLEAN False) s1 = Some (s', n)" "effect E s1 p (loaded off data (v_pos (view E s1 p))) s'"
    unfolding q by blast
  moreover have "effect E s p (loaded off data (v_pos (view E s p))) s'" using s'(2) s1(2) by (simp add: effect_def)
  ultimately show ?thesis using s1(1) by (simp add: sendRead_block_def)
qed

lemma retryRead_end_view:
  assumes ok: "fok E s p" and sz: "0 < sz" "off + sz < u64_max"
  shows "\<exists>s1 s'. retryRead_end E s p off sz err = Some s' \<and> effect E s p (v_pos (view E s p)) s1 \<and> fok E s' p \<and>
    view E s' p = (view E s1 p)\<lparr>v_ranges := UnlockRange off sz False (v_ranges (view E s p))\<rparr>"
proof -
  obtain s1 where s1: "buffersDo p (\<lambda>l. RemoveLoading (bufEnvOf E p) l off sz) s = Some s1" "effect E s p (v_pos (view E s p)) s1"
    using RemoveLoading_view [OF ok sz] by blast
  obtain D c where "view E s1 p = (view E s p)\<lparr>v_pos := v_pos (view E s p), v_did := D, v_cur := c\<rparr>" using effectD(4) [OF s1(2)] by blast
  then have "v_ranges (view E s1 p) = v_ranges (view E s p)" by simp
  then show ?thesis using s1 effectD(1) [OF s1(2)] by (auto simp: retryRead_end_def)
qed

section \<open>Taking a snapshot\<close>

lemma fold_AddBuffer:
  assumes "length (concat data) + mr_size r < u64_max"
  shows "mr_bytes (fold (\<lambda>buf r. AddBuffer r buf) data r) = mr_bytes r @ concat data \<and> mr_size (fold (\<lambda>buf r. AddBuffer r buf) data r) = mr_size r + length (concat data)"
  using assms
proof (induction data arbitrary: r)
  case (Cons d data)
  have "mr_bytes (AddBuffer r d) = mr_bytes r @ d" "mr_size (AddBuffer r d) = mr_size r + length d"
    using Cons.prems by (simp_all add: AddBuffer_def mr_bytes_def boz_bytes_def u64_simps)
  then show ?case using Cons.IH [of "AddBuffer r d"] Cons.prems by simp
qed simp

definition cutAt :: "('t, 'd, 'c) gEnv \<Rightarrow> ('t, 'd, 'c) Goofys \<Rightarrow> ptr \<Rightarrow> u64 \<Rightarrow> bool" where
  "cutAt E s p c \<longleftrightarrow> (\<forall>e b. bufs (bufEnvOf E p) (bufsOf s p) e = Some b \<longrightarrow> e \<le> c \<or> c \<le> fb_offset b)"

lemma SplitAt_view:
  assumes ok: "fok E s p" and off: "off \<le> maxSize E" "maxSize E + 1 < u64_max"
  shows "\<exists>s'. buffersDo p (\<lambda>l. SplitAt (bufEnvOf E p) l off) s = Some s' \<and> effect E s p (v_pos (view E s p)) s' \<and> cutAt E s' p off \<and>
    (\<forall>c. cutAt E s p c \<longrightarrow> cutAt E s' p c)"
proof -
  let ?E = "bufEnvOf E p" and ?l = "bufsOf s p"
  let ?Q = "\<lambda>l. idst ?E ?l l \<and> (\<forall>x. lpos ?E l x = lpos ?E ?l x) \<and> (\<forall>e b. bufs ?E l e = Some b \<longrightarrow> e \<le> off \<or> off \<le> fb_offset b) \<and>
    (\<forall>c. (\<forall>e b. bufs ?E ?l e = Some b \<longrightarrow> e \<le> c \<or> c \<le> fb_offset b) \<longrightarrow> (\<forall>e b. bufs ?E l e = Some b \<longrightarrow> e \<le> c \<or> c \<le> fb_offset b))"
  have "\<exists>l. SplitAt ?E ?l off = Some l \<and> fileInv E s p l \<and> all_mem ?E l \<and> ?Q l"
    by (rule buffer_env.SplitAt_pos [OF fokD(1-3) [OF ok]]) (use off in linarith)
  from buffersDo_op [where f = "\<lambda>l. SplitAt ?E l off" and Q = ?Q, OF ok this]
  obtain s' where s': "buffersDo p (\<lambda>l. SplitAt ?E l off) s = Some s'" "fok E s' p" "?Q (bufsOf s' p)"
    "view E s' p = (view E s p)\<lparr>v_pos := lpos ?E (bufsOf s' p), v_did := did ?E (bufsOf s' p), v_cur := bl_curDirtyID (bufsOf s' p)\<rparr>" by blast
  have "lpos ?E (bufsOf s' p) = v_pos (view E s p)" using s'(3) by (simp add: fun_eq_iff view_sel)
  then have "effect E s p (v_pos (view E s p)) s'" using s'(2,4) vids_idst [of E p s s'] s'(3) unfolding effect_def by metis
  then show ?thesis using s'(1,3) by (auto simp: cutAt_def)
qed

lemma getMultiReader_view:
  assumes ok: "fok E s p" and sz: "off + sz \<le> maxSize E" "maxSize E + 1 < u64_max" "0 < sz \<or> off = 0"
    and ev: "\<And>x. off \<le> x \<Longrightarrow> x < off + sz \<Longrightarrow> v_pos (view E s p) x \<noteq> Evicted"
  obtains (missing) s' e where "getMultiReader E s p off sz = Some (s', Inl e)" "effect E s p (v_pos (view E s p)) s'"
  | (taken) s' r ids where "getMultiReader E s p off sz = Some (s', Inr (r, ids))" "effect E s p (v_pos (view E s p)) s'"
      "mr_bytes r = map (\<lambda>x. val (v_pos (view E s p) x)) [off..<off + sz]" "MultiReader_Len r = sz"
      "\<And>x. off \<le> x \<Longrightarrow> x < off + sz \<Longrightarrow> present (v_pos (view E s p) x)"
      "ids = {v_did (view E s' p) x | x. off \<le> x \<and> x < off + sz \<and> v_did (view E s' p) x \<noteq> 0}"
      "\<And>x. v_did (view E s' p) x \<in> ids \<Longrightarrow> off \<le> x \<and> x < off + sz"
proof -
  have e: "add64 off sz = off + sz" using sz by (simp add: u64_simps)
  obtain s1 where s1: "buffersDo p (\<lambda>l. SplitAt (bufEnvOf E p) l off) s = Some s1" "effect E s p (v_pos (view E s p)) s1" "cutAt E s1 p off"
    using SplitAt_view [OF ok _ sz(2), of off] sz(1) by auto
  note e1 = effectD [OF s1(2)]
  obtain s2 where s2: "buffersDo p (\<lambda>l. SplitAt (bufEnvOf E p) l (off + sz)) s1 = Some s2" "effect E s1 p (v_pos (view E s1 p)) s2" "cutAt E s2 p (off + sz)"
    "cutAt E s2 p off" using SplitAt_view [OF e1(1) sz(1,2)] s1(3) by auto
  have eff: "effect E s p (v_pos (view E s p)) s2" using effect_trans [OF s1(2) s2(2)] e1(3) by simp
  note e2 = effectD [OF eff]
  note D = fokD [OF e2(1)]
  have q: "lpos (bufEnvOf E p) (bufsOf s2 p) = v_pos (view E s p)" using e2(3) by (simp add: view_sel)
  have u: "off + sz < u64_max" using sz by linarith
  have ev2: "lpos (bufEnvOf E p) (bufsOf s2 p) x \<noteq> Evicted" if "off \<le> x" "x < off + sz" for x using ev that q by simp
  show ?thesis
  proof (rule buffer_env.GetData_pos [OF D(1-3) u sz(3) ev2, where r = True], goal_cases)
    case (3 ids e)
    then have "getMultiReader E s p off sz = Some (s2, Inl e)" using s1(1) s2(1) e by (simp add: getMultiReader_def)
    then show ?thesis using eff by (rule missing)
  next
    case (4 data)
    let ?r = "fold (\<lambda>buf r. AddBuffer r buf) data NewMultiReader"
    let ?ids = "{did (bufEnvOf E p) (bufsOf s2 p) x | x. off \<le> x \<and> x < off + sz \<and> did (bufEnvOf E p) (bufsOf s2 p) x \<noteq> 0}"
    have g: "getMultiReader E s p off sz = Some (s2, Inr (?r, ?ids))" using 4(1) s1(1) s2(1) e by (simp add: getMultiReader_def)
    have "length (concat data) = sz" using 4(2) by simp
    then have r: "mr_bytes ?r = concat data" "MultiReader_Len ?r = sz"
      using fold_AddBuffer [of data NewMultiReader] u by (simp_all add: NewMultiReader_def mr_bytes_def MultiReader_Len_def)
    show ?thesis
    proof (rule taken [OF g eff _ r(2)])
      show "mr_bytes ?r = map (\<lambda>x. val (v_pos (view E s p) x)) [off..<off + sz]" using r(1) 4(2) q by simp
      show "present (v_pos (view E s p) x)" if "off \<le> x" "x < off + sz" for x using 4(3) that q by simp
      show "off \<le> x \<and> x < off + sz" if x: "v_did (view E s2 p) x \<in> ?ids" for x
      proof -
        obtain y where "did (bufEnvOf E p) (bufsOf s2 p) x = did (bufEnvOf E p) (bufsOf s2 p) y" "off \<le> y" "y < off + sz" "did (bufEnvOf E p) (bufsOf s2 p) y \<noteq> 0"
          using x by (auto simp: view_sel)
        then show ?thesis using buffer_env.did_border [OF D(1,2), of off "off + sz" y x] s2(3,4) by (auto simp: cutAt_def)
      qed
    qed (simp add: view_sel)
  qed
qed

section \<open>Answers\<close>

lemma updateFromFlush_view:
  assumes ok: "fok E s p" and e: "po_ETag out \<noteq> None"
  shows "\<exists>s'. updateFromFlush E now s p sz out = Some s' \<and> fok E s' p \<and> view E s' p = (view E s p)\<lparr>v_known := sz\<rparr>"
proof -
  obtain etag md where m: "po_ETag out = Some etag" "i_s3Metadata (heap s p) = Some md" using ok e by (auto simp: fok_def)
  let ?md = "let md = AList.update ''etag'' etag md in case po_StorageClass out of None \<Rightarrow> md | Some c \<Rightarrow> AList.update ''storage-class'' c md"
  let ?s1 = "upd p (\<lambda>i. i\<lparr>i_s3Metadata := Some ?md,
                   i_Attributes := (case po_LastModified out of None \<Rightarrow> i_Attributes i | Some t \<Rightarrow> (i_Attributes i)\<lparr>a_Ctime := t\<rparr>),
                   i_knownSize := sz, i_knownETag := etag\<rparr>) s"
  have u: "updateFromFlush E now s p sz out = Some (SetAttrTime E ?s1 p now)" using m by (simp add: updateFromFlush_def Let_def)
  have "view E ?s1 p = (view E s p)\<lparr>v_known := sz\<rparr>" by (simp add: view_def bufsOf_def sizeOf_def split: option.split)
  moreover have "fok E ?s1 p = fok E s p" by (rule fok_cong) (use m(2) in \<open>auto simp: bufview_def\<close>)
  ultimately show ?thesis using u ok by simp
qed

lemma AnyUnclean_helpers: "AnyUnclean (l\<lparr>bl_helpers := h\<rparr>) = AnyUnclean l"
  by (simp add: AnyUnclean_def)

lemma isStillDirty_view:
  assumes ok: "fok E s p" and d: "\<not> isStillDirty s p"
  shows "v_size (view E s p) = v_known (view E s p)" "\<not> dirty (v_pos (view E s p) x)" "\<not> flushed (v_pos (view E s p) x)"
proof -
  have "\<not> AnyUnclean (bufsOf s p)" using d by (simp add: isStillDirty_def bufsOf_def AnyUnclean_helpers)
  then show "\<not> dirty (v_pos (view E s p) x)" "\<not> flushed (v_pos (view E s p) x)"
    using buffer_env.AnyUnclean_pos [OF fokD(1-3) [OF ok]] by (auto simp: view_sel)
  show "v_size (view E s p) = v_known (view E s p)" using d by (simp add: isStillDirty_def view_sel)
qed

lemma flushedState_view:
  assumes ok: "fok E s p" and st: "uploading (v_st (view E s p))"
  obtains st' where "view E (flushedState E s p) p = (view E s p)\<lparr>v_st := st'\<rparr>" "fok E (flushedState E s p) p" "st' = ST_CACHED \<or> st' = ST_MODIFIED"
    "st' = ST_CACHED \<Longrightarrow> v_size (view E s p) = v_known (view E s p) \<and> (\<forall>x. \<not> dirty (v_pos (view E s p) x) \<and> \<not> flushed (v_pos (view E s p) x))"
proof (rule that [of "if \<not> isStillDirty s p then ST_CACHED else ST_MODIFIED"])
  show "view E (flushedState E s p) p = (view E s p)\<lparr>v_st := if \<not> isStillDirty s p then ST_CACHED else ST_MODIFIED\<rparr>" "fok E (flushedState E s p) p"
    using ok st by (simp_all add: flushedState_def view_sel)
qed (use isStillDirty_view [OF ok] in \<open>auto split: if_splits\<close>)

lemma flushSmall_done_view:
  assumes ok: "fok E s p" and st: "uploading (v_st (view E s p))" and sz: "pj_size job < u64_max"
    and ids: "\<And>x. v_did (view E s p) x \<in> pj_ids job \<Longrightarrow> v_did (view E s p) x \<noteq> 0 \<Longrightarrow> x < pj_size job"
    and a: "\<And>out. answer = Inr out \<Longrightarrow> po_ETag out \<noteq> None"
  defines "v \<equiv> (view E s p)\<lparr>v_flushing := v_flushing (view E s p) - f_MaxParallelParts (g_flags E), v_ranges := UnlockRange 0 (pj_size job) True (v_ranges (view E s p))\<rparr>"
  defines "w \<equiv> retagged BUF_CLEAN (pj_ids job) (view E s p)"
  obtains (failed) s' e where "answer = Inl e" "flushSmall_done E now s p job answer = Some s'" "fok E s' p" "view E s' p = v"
  | (stored) s' out st' where "answer = Inr out" "flushSmall_done E now s p job answer = Some s'" "fok E s' p"
      "view E s' p = w\<lparr>v_known := pj_size job, v_st := st', v_flushing := v_flushing v, v_ranges := v_ranges v\<rparr>"
      "st' = ST_CACHED \<or> st' = ST_MODIFIED"
      "st' = ST_CACHED \<Longrightarrow> v_size (view E s p) = pj_size job \<and> (\<forall>x. \<not> dirty (v_pos w x) \<and> \<not> flushed (v_pos w x))"
proof -
  let ?s1 = "recordFlushError now (inflightEnd (pj_key job) s) p (errorOf answer)" and ?M = "f_MaxParallelParts (g_flags E)"
  let ?fin = "\<lambda>s. endFlush ?M p (rangesDo p (UnlockRange 0 (pj_size job) True) s)"
  show ?thesis
  proof (cases answer)
    case (Inl e)
    let ?s2 = "if pj_metadata job \<noteq> None then upd p (\<lambda>i. i\<lparr>i_userMetadataDirty := 2\<rparr>) ?s1 else ?s1"
    have "flushSmall_done E now s p job answer = Some (?fin ?s2)" using Inl by (simp add: flushSmall_done_def)
    then show ?thesis by (rule failed [OF Inl]) (simp_all add: ok v_def split: if_split)
  next
    case (Inr out)
    have ok1: "fok E ?s1 p" and v1: "view E ?s1 p = view E s p" using ok by simp_all
    from SetState_view [OF ok1, of 0 "pj_size job" BUF_CLEAN "pj_ids job"] sz ids v1 obtain s2 where
      s2: "buffersDo p (\<lambda>l. SetState (bufEnvOf E p) l 0 (pj_size job) (pj_ids job) BUF_CLEAN) ?s1 = Some s2" "fok E s2 p"
      "view E s2 p = w" by (auto simp: w_def)
    obtain s3 where s3: "updateFromFlush E now s2 p (pj_size job) out = Some s3" "fok E s3 p" "view E s3 p = (view E s2 p)\<lparr>v_known := pj_size job\<rparr>"
      using updateFromFlush_view [OF s2(2) a [OF Inr]] by blast
    have u: "uploading (v_st (view E s3 p))" using assms(2) s2(3) s3(3) by (simp add: w_def)
    obtain st' where f: "view E (flushedState E s3 p) p = (view E s3 p)\<lparr>v_st := st'\<rparr>" "fok E (flushedState E s3 p) p" "st' = ST_CACHED \<or> st' = ST_MODIFIED"
      "st' = ST_CACHED \<Longrightarrow> v_size (view E s3 p) = v_known (view E s3 p) \<and> (\<forall>x. \<not> dirty (v_pos (view E s3 p) x) \<and> \<not> flushed (v_pos (view E s3 p) x))"
      by (rule flushedState_view [OF s3(2) u]) blast
    have "flushSmall_done E now s p job answer = Some (?fin (flushedState E s3 p))" using Inr s2(1) s3(1) by (simp add: flushSmall_done_def)
    then show ?thesis by (rule stored [OF Inr]) (use f s2(3) s3(3) in \<open>auto simp: v_def w_def\<close>)
  qed
qed

lemma setPart_eq: "i < length (mpu_Parts m) \<Longrightarrow> setPart i (Some pid) m = Some (setPartId i pid m)"
  by (simp add: setPart_def setPartId_def)

lemma flushPart_done_view:
  assumes ok: "fok E s p" and st: "v_st (view E s p) \<noteq> ST_DELETED" and m: "v_mpu (view E s p) = Some m" "aj_part job < length (mpu_Parts m)"
    and sz: "aj_offset job + aj_size job < u64_max"
    and ids: "\<And>x. v_did (view E s p) x \<in> aj_ids job \<Longrightarrow> aj_offset job \<le> x \<and> x < aj_offset job + aj_size job"
    and a: "\<And>e. answer = Inl e \<Longrightarrow> mapAwsError (Some e) \<noteq> Some (Errno ENOENT)" "answer \<noteq> Inr None"
  defines "st \<equiv> if MultiReader_Len (aj_body job) < aj_full job \<or> aj_part job = 0 then BUF_FLUSHED_CUT else BUF_FLUSHED_FULL"
  obtains (failed) s' e where "answer = Inl e" "flushPart_done E now s p job answer = Some s'" "fok E s' p" "view E s' p = view E s p"
  | (stored) s' pid where "answer = Inr (Some pid)" "flushPart_done E now s p job answer = Some s'" "fok E s' p"
      "view E s' p = (retagged st (aj_ids job) (view E s p))\<lparr>v_mpu := Some (setPartId (aj_part job) pid m)\<rparr>"
proof -
  let ?s1 = "recordFlushError now s p (errorOf answer)"
  have cs: "i_CacheState (heap s p) \<noteq> ST_DELETED" and mp: "i_mpu (heap ?s1 p) = Some m" using st m(1) view_sel(4) [of E ?s1 p] by (simp_all add: view_sel(3))
  show ?thesis
  proof (cases answer)
    case (Inl e)
    then have "flushPart_done E now s p job answer = Some ?s1" using cs a(1) by (simp add: flushPart_done_def Let_def)
    then show ?thesis by (rule failed [OF Inl]) (simp_all add: ok)
  next
    case (Inr po)
    then obtain pid where pid: "answer = Inr (Some pid)" using a(2) by (cases po) auto
    let ?s2 = "upd p (\<lambda>i. i\<lparr>i_mpu := Some (setPartId (aj_part job) pid m)\<rparr>) ?s1"
    have ok2: "fok E ?s2 p" and v2: "view E ?s2 p = (view E s p)\<lparr>v_mpu := Some (setPartId (aj_part job) pid m)\<rparr>" using ok by simp_all
    have st': "st = BUF_CLEAN \<or> st = BUF_FLUSHED_FULL \<or> st = BUF_FLUSHED_CUT" by (simp add: st_def)
    have ids2: "aj_offset job \<le> x \<and> x < aj_offset job + aj_size job" if "v_did (view E ?s2 p) x \<in> aj_ids job" for x using ids that v2 by simp
    obtain s3 where s3: "buffersDo p (\<lambda>l. SetState (bufEnvOf E p) l (aj_offset job) (aj_size job) (aj_ids job) st) ?s2 = Some s3" "fok E s3 p"
      "view E s3 p = retagged st (aj_ids job) (view E ?s2 p)" using SetState_view [OF ok2 sz st' ids2] by blast
    have "flushPart_done E now s p job answer = Some s3"
      using pid cs mp s3(1) setPart_eq [OF m(2)] by (simp add: flushPart_done_def Let_def st_def)
    then show ?thesis using s3(2) by (rule stored [OF pid]) (simp add: s3(3) v2 retagged_def cong: if_cong)
  qed
qed

lemma commit_done_view:
  assumes ok: "fok E s p" and st: "uploading (v_st (view E s p))" and m: "map_option mpu_ptr (v_mpu (view E s p)) = Some (mpu_ptr (cj_mpu job))"
    and a: "\<And>out. answer = Inr out \<Longrightarrow> po_ETag out \<noteq> None"
  obtains (failed) s' e where "answer = Inl e" "commit_done E now s p job answer = Some s'" "fok E s' p" "view E s' p = view E s p"
  | (stored) s' out st' where "answer = Inr out" "commit_done E now s p job answer = Some s'" "fok E s' p"
      "view E s' p = (view E s p)\<lparr>v_mpu := None, v_pos := \<lambda>x. clean_pos (v_pos (view E s p) x), v_known := cj_size job, v_st := st'\<rparr>"
      "st' = ST_CACHED \<or> st' = ST_MODIFIED" "st' = ST_CACHED \<Longrightarrow> v_size (view E s p) = cj_size job \<and> (\<forall>x. \<not> dirty (clean_pos (v_pos (view E s p) x)))"
proof -
  let ?s0 = "inflightEnd (cj_key job) s"
  let ?s1 = "recordFlushError now ?s0 p (errorOf answer)"
  obtain mpu where mpu: "v_mpu (view E s p) = Some mpu" "mpu_ptr mpu = mpu_ptr (cj_mpu job)" using m by auto
  have h: "i_mpu (heap ?s0 p) = Some mpu" "uploading (i_CacheState (heap ?s0 p))"
    using mpu(1) st view_sel(3,4) [of E ?s0 p] by simp_all
  show ?thesis
  proof (cases answer)
    case (Inl e)
    let ?s2 = "if mpu_Metadata mpu \<noteq> None then upd p (\<lambda>i. i\<lparr>i_userMetadataDirty := 2\<rparr>) ?s1 else ?s1"
    have "commit_done E now s p job answer = Some ?s2" using Inl h mpu(2) by (simp add: commit_done_def Let_def)
    then show ?thesis by (rule failed [OF Inl]) (simp_all add: ok split: if_split)
  next
    case (Inr out)
    let ?s2 = "upd p (\<lambda>i. i\<lparr>i_mpu := None\<rparr>) (if i_userMetadataDirty (heap ?s1 p) = 1 then upd p (\<lambda>i. i\<lparr>i_userMetadataDirty := 0\<rparr>) ?s1 else ?s1)"
    have ok2: "fok E ?s2 p" and v2: "view E ?s2 p = (view E s p)\<lparr>v_mpu := None\<rparr>" using ok by simp_all
    obtain s3 where s3: "buffersDo p (SetFlushedClean (bufEnvOf E p)) ?s2 = Some s3" "fok E s3 p"
      "view E s3 p = (view E s p)\<lparr>v_mpu := None, v_pos := \<lambda>x. clean_pos (v_pos (view E s p) x)\<rparr>"
      using SetFlushedClean_view [OF ok2] unfolding v2 by auto
    obtain s4 where s4: "updateFromFlush E now s3 p (cj_size job) out = Some s4" "fok E s4 p" "view E s4 p = (view E s3 p)\<lparr>v_known := cj_size job\<rparr>"
      using updateFromFlush_view [OF s3(2) a [OF Inr]] by blast
    have u: "uploading (v_st (view E s4 p))" using st s3(3) s4(3) by simp
    obtain st' where f: "view E (flushedState E s4 p) p = (view E s4 p)\<lparr>v_st := st'\<rparr>" "fok E (flushedState E s4 p) p" "st' = ST_CACHED \<or> st' = ST_MODIFIED"
      "st' = ST_CACHED \<Longrightarrow> v_size (view E s4 p) = v_known (view E s4 p) \<and> (\<forall>x. \<not> dirty (v_pos (view E s4 p) x) \<and> \<not> flushed (v_pos (view E s4 p) x))"
      by (rule flushedState_view [OF s4(2) u]) blast
    have "commit_done E now s p job answer = Some (flushedState E s4 p)" using Inr h mpu(2) s3(1) s4(1) by (simp add: commit_done_def Let_def cong: if_cong)
    then show ?thesis using f(2) by (rule stored [OF Inr]) (use f s3(3) s4(3) in auto)
  qed
qed

lemma updateMeta_done_view:
  assumes ok: "fok E s p" and err: "\<not> conflict err"
  obtains s' st' where "updateMeta_done E now s p job err = Some s'" "fok E s' p"
    "view E s' p = (view E s p)\<lparr>v_st := st', v_flushing := v_flushing (view E s p) - f_MaxParallelParts (g_flags E)\<rparr>"
    "st' = v_st (view E s p) \<or> st' = ST_CACHED \<and> v_st (view E s p) = ST_MODIFIED \<and> v_size (view E s p) = v_known (view E s p) \<and>
       (\<forall>x. \<not> dirty (v_pos (view E s p) x) \<and> \<not> flushed (v_pos (view E s p) x))"
proof -
  let ?s1 = "recordFlushError now (inflightEnd (mj_key job) s) p err" and ?M = "f_MaxParallelParts (g_flags E)"
  have ok1: "fok E ?s1 p" and v1: "view E ?s1 p = view E s p" using ok by simp_all
  consider (failed) "err \<noteq> None" | (clean) "err = None" "i_CacheState (heap ?s1 p) = ST_MODIFIED" "\<not> isStillDirty ?s1 p"
    | (other) "err = None" "\<not> (i_CacheState (heap ?s1 p) = ST_MODIFIED \<and> \<not> isStillDirty ?s1 p)" by blast
  then show ?thesis
  proof cases
    case failed
    then have "updateMeta_done E now s p job err = Some (endFlush ?M p (upd p (\<lambda>i. i\<lparr>i_userMetadataDirty := 2\<rparr>) ?s1))"
      using err by (simp add: updateMeta_done_def Let_def)
    then show ?thesis by (rule that [where st' = "v_st (view E s p)"]) (use ok1 v1 in simp_all)
  next
    case clean
    then have "updateMeta_done E now s p job err = Some (endFlush ?M p (SetAttrTime E (SetCacheState E ?s1 p ST_CACHED) p now))"
      by (simp add: updateMeta_done_def)
    moreover have "v_st (view E s p) = ST_MODIFIED" using clean(2) view_sel(3) [of E ?s1 p] v1 by simp
    ultimately show ?thesis using isStillDirty_view [OF ok1 clean(3)] ok1 v1
      by (intro that [of "endFlush ?M p (SetAttrTime E (SetCacheState E ?s1 p ST_CACHED) p now)" ST_CACHED]) auto
  next
    case other
    then have "updateMeta_done E now s p job err = Some (endFlush ?M p ?s1)" by (auto simp: updateMeta_done_def)
    then show ?thesis by (rule that [where st' = "v_st (view E s p)"]) (use ok1 v1 in simp_all)
  qed
qed

end
