(* ===== verification/Lookup.thy ===== *)
theory Lookup
  imports Dir_Ops
begin

text \<open>
  Looking up a name (\<open>core/dir.go\<close>, \<open>core/goofys.go\<close>, \<open>core/refresh_inode_cache.go\<close>): the cache, the probes of
  the store, paths, and the refresh of a single entry.
\<close>

section \<open>The probes\<close>

text \<open>Three requests run in parallel: for an object, for the object of a directory and for anything under
  the name as a prefix.\<close>

datatype probe = ProbeObject | ProbeDir | ProbeList

record probes =
  pr_object :: "BlobItemOutput option"
  pr_dirObject :: "BlobItemOutput option"
  pr_prefixList :: "ListBlobsOutput option"
  pr_objectError :: "error option"
  pr_dirError :: "error option"
  pr_prefixError :: "error option"

definition noProbes :: probes where
  "noProbes = \<lparr>pr_object = None, pr_dirObject = None, pr_prefixList = None, pr_objectError = None, pr_dirError = None, pr_prefixError = None\<rparr>"

fun receiveResult :: "store \<Rightarrow> nat \<Rightarrow> string \<Rightarrow> probe \<Rightarrow> probes \<Rightarrow> probes" where
  "receiveResult St c key ProbeObject r =
     (case s_head1 St c key of
        Inl e \<Rightarrow> r\<lparr>pr_object := None, pr_objectError := Some e\<rparr> | Inr b \<Rightarrow> r\<lparr>pr_object := Some b, pr_objectError := None\<rparr>)"
| "receiveResult St c key ProbeDir r =
     (case s_head1 St c (key @ ''/'') of
        Inl e \<Rightarrow> r\<lparr>pr_dirObject := None, pr_dirError := Some e\<rparr> | Inr b \<Rightarrow> r\<lparr>pr_dirObject := Some b, pr_dirError := None\<rparr>)"
| "receiveResult St c key ProbeList r =
     (case s_list St c \<lparr>InPrefix = Some (key @ ''/''), Delimiter = Some ''/'', MaxKeys = Some 1, StartAfter = None\<rparr> of
        Inl e \<Rightarrow> r\<lparr>pr_prefixList := None, pr_prefixError := Some e\<rparr> | Inr l \<Rightarrow> r\<lparr>pr_prefixList := Some l, pr_prefixError := None\<rparr>)"

text \<open>The probes that are started in parallel, and those of the cheap mode, which are received one by one
  until one does not answer that the object is missing.\<close>

definition startedProbes :: "('t, 'd, 'c) gEnv \<Rightarrow> nat \<Rightarrow> probe list" where
  "startedProbes E c =
     (if DirBlob (g_caps E c) then [ProbeObject]
      else ProbeObject # (if \<not> f_NoDirObject (g_flags E) then [ProbeDir] else []) @ (if \<not> f_ExplicitDir (g_flags E) then [ProbeList] else []))"

definition missing :: "error option \<Rightarrow> bool" where
  "missing e \<longleftrightarrow> mapAwsError e = Some (Errno ENOENT)"

fun cheapProbes :: "store \<Rightarrow> nat \<Rightarrow> string \<Rightarrow> probe list \<Rightarrow> probes \<Rightarrow> nat \<Rightarrow> nat \<times> probes" where
  "cheapProbes St c key [] r n = (n, r)"
| "cheapProbes St c key (p # ps) r n =
     (let r = receiveResult St c key p r in
      if p = ProbeObject \<and> \<not> missing (pr_objectError r) \<or> p = ProbeDir \<and> \<not> missing (pr_dirError r) then (Suc n, r)
      else cheapProbes St c key ps r (Suc n))"

text \<open>The answer that the results received so far give: none yet, or an object.  The outer \<^const>\<open>None\<close> is a
  slice out of range.\<close>

definition lookupAnswer :: "string \<Rightarrow> probes \<Rightarrow> BlobItemOutput option option" where
  "lookupAnswer key r =
     (case pr_object r of Some b \<Rightarrow> Some (Some b)
      | None \<Rightarrow>
          (case pr_dirObject r of Some b \<Rightarrow> Some (Some b)
           | None \<Rightarrow>
               (case pr_prefixList r of
                  None \<Rightarrow> Some None
                | Some l \<Rightarrow>
                    let dirBlob = \<lparr>Key = key @ ''/'', ETag = None, LastModified = None, ItemSize = 0, StorageClass = None, ItemMetadata = None\<rparr> in
                    if Prefixes l = [] \<and> Items l = [] then Some None
                    else
                      (case Items l of
                         [] \<Rightarrow> Some (Some dirBlob)
                       | item # _ \<Rightarrow>
                           if Key item = key then Some (Some item)
                           else if length (Key item) < length key + 1 then None
                           else if take (length key + 1) (Key item) = key @ ''/'' then Some (Some item)
                           else Some (Some dirBlob)))))"

text \<open>The loop over the results in the order in which they arrive.\<close>

fun awaitAnswer :: "store \<Rightarrow> nat \<Rightarrow> string \<Rightarrow> probe list \<Rightarrow> probes \<Rightarrow> (probes \<times> BlobItemOutput option) option" where
  "awaitAnswer St c key [] r = Some (r, None)"
| "awaitAnswer St c key (p # ps) r =
     (let r = receiveResult St c key p r in
      case lookupAnswer key r of
        None \<Rightarrow> None
      | Some (Some b) \<Rightarrow> Some (r, Some b)
      | Some None \<Rightarrow> awaitAnswer St c key ps r)"

definition lookupError :: "probes \<Rightarrow> error" where
  "lookupError r =
     (case List.find (\<lambda>e. e \<noteq> None \<and> \<not> missing e) [pr_objectError r, pr_dirError r, pr_prefixError r] of
        Some (Some e) \<Rightarrow> e
      | _ \<Rightarrow> Errno ENOENT)"

text \<open>\<open>arrive\<close> puts the started probes into the order in which their results arrive.\<close>

definition LookUpInodeMaybeDir :: "store \<Rightarrow> ('t, 'd, 'c) gEnv \<Rightarrow> (probe list \<Rightarrow> probe list) \<Rightarrow> ('t, 'd, 'c) Goofys \<Rightarrow> ptr \<Rightarrow> string \<Rightarrow>
    (error + BlobItemOutput) option" where
  "LookUpInodeMaybeDir St E arrive s parent name =
     (case cloud E s parent of
        (None, _) \<Rightarrow> None
      | (Some c, parentKey) \<Rightarrow>
          let key = appendChildName parentKey name; started = startedProbes E c in
          if DirBlob (g_caps E c) \<or> f_Cheap (g_flags E) then
            (let (n, r) = cheapProbes St c key started noProbes 0 in
             case lookupAnswer key r of
               None \<Rightarrow> None
             | Some (Some b) \<Rightarrow> Some (Inr b)
             | Some None \<Rightarrow> Some (Inl (lookupError r)))
          else
            (case awaitAnswer St c key (arrive started) noProbes of
               None \<Rightarrow> None
             | Some (r, Some b) \<Rightarrow> Some (Inr b)
             | Some (r, None) \<Rightarrow> Some (Inl (lookupError r))))"

section \<open>Lookups\<close>

definition checkLoaded :: "ptr \<Rightarrow> string \<Rightarrow> gotime \<Rightarrow> ('t, 'd, 'c) Goofys \<Rightarrow> ('t, 'd, 'c) Goofys \<times> bool" where
  "checkLoaded root key expire s =
     (let (gaps, l1) = checkGapLoaded (d_Gaps (dirOf s root)) key expire in
      if \<not> l1 then (updDir root (\<lambda>d. d\<lparr>d_Gaps := gaps\<rparr>) s, False)
      else let (gaps, l2) = checkGapLoaded gaps (key @ ''/'') expire in (updDir root (\<lambda>d. d\<lparr>d_Gaps := gaps\<rparr>) s, l2))"

text \<open>The last part of \<open>LookUp\<close>: ask the store for the one name.\<close>

definition lookUpStore :: "store \<Rightarrow> ('t, 'd, 'c) gEnv \<Rightarrow> gotime \<Rightarrow> (('t, 'd, 'c) Goofys \<Rightarrow> ('t, 'd, 'c) Goofys) \<Rightarrow> (probe list \<Rightarrow> probe list) \<Rightarrow>
    ('t, 'd, 'c) Goofys \<Rightarrow> ptr \<Rightarrow> string \<Rightarrow> (('t, 'd, 'c) Goofys \<times> (error + ptr option)) option" where
  "lookUpStore St E now other arrive s parent name =
     (let parentKey = snd (cloud E s parent);
          (myList, s) = startListing s
      in do {
        r \<leftarrow> LookUpInodeMaybeDir St E arrive s parent name;
        let s = other s;
        case r of
          Inl err \<Rightarrow> Some (snd (endListing s myList), Inl err)
        | Inr blob \<Rightarrow>
            let prefixLen = (if parentKey \<noteq> [] then length parentKey + 1 else 0);
                (skip, s) = endListing s myList
            in do {
              s \<leftarrow> (if skip = None \<or> (case skip of None \<Rightarrow> False | Some ks \<Rightarrow> Key blob \<notin> ks) then
                     (if length (Key blob) < prefixLen then None
                      else map_option fst (insertSubTree E now s parent (drop prefixLen (Key blob)) blob []))
                   else Some s);
              Some (s, Inr (findChildUnlocked s parent name))
            }
      })"

text \<open>\<open>LookUp\<close> passes a temporary inode below the directory to the listing.\<close>

definition LookUp :: "store \<Rightarrow> ('t, 'd, 'c) gEnv \<Rightarrow> gotime \<Rightarrow> (('t, 'd, 'c) Goofys \<Rightarrow> ('t, 'd, 'c) Goofys) \<Rightarrow> (probe list \<Rightarrow> probe list) \<Rightarrow>
    ('t, 'd, 'c) Goofys \<Rightarrow> ptr \<Rightarrow> string \<Rightarrow> bool \<Rightarrow> (('t, 'd, 'c) Goofys \<times> (error + ptr option)) option" where
  "LookUp St E now other arrive s parent name doSlurp =
     do {
       let key = appendChildName (snd (cloud E s parent)) name;
       root \<leftarrow> mountOf s parent;
       let expire = now - f_StatCacheTTL (g_flags E);
       let (s, loaded) = checkLoaded root key expire s;
       if loaded then Some (s, Inr (findChildUnlocked s parent name))
       else if doSlurp then
         do {
           let tmp = nextPtr s;
           let s = s\<lparr>heap := (heap s)(tmp := (zeroInode E (cleanQueue s))\<lparr>i_Parent := Some parent\<rparr>), nextPtr := Suc tmp\<rparr>;
           (s, r) \<leftarrow> listObjectsSlurp St E now other s root tmp key False;
           case r of
             Inl err \<Rightarrow> Some (s, Inl err)
           | Inr _ \<Rightarrow>
               let inode = findChildUnlocked s parent name;
                   (s, loaded) = checkLoaded root key expire s
               in if inode \<noteq> None \<or> loaded then Some (s, Inr inode)
                  else lookUpStore St E now other arrive s parent name
         }
       else lookUpStore St E now other arrive s parent name
     }"

definition recheckInode :: "store \<Rightarrow> ('t, 'd, 'c) gEnv \<Rightarrow> gotime \<Rightarrow> (('t, 'd, 'c) Goofys \<Rightarrow> ('t, 'd, 'c) Goofys) \<Rightarrow> (probe list \<Rightarrow> probe list) \<Rightarrow>
    ('t, 'd, 'c) Goofys \<Rightarrow> ptr \<Rightarrow> ptr option \<Rightarrow> string \<Rightarrow> (('t, 'd, 'c) Goofys \<times> (error + ptr option)) option" where
  "recheckInode St E now other arrive s parent inode name =
     do {
       (s, r) \<leftarrow> LookUp St E now other arrive s parent name (inode = None \<and> \<not> f_NoPreloadDir (g_flags E));
       case r of
         Inl err \<Rightarrow> (case inode of None \<Rightarrow> Some (s, Inl err) | Some i \<Rightarrow> map_option (\<lambda>s. (s, Inl err)) (removeChild E s parent i))
       | Inr n \<Rightarrow> Some (s, Inr n)
     }"

definition LookUpCached :: "store \<Rightarrow> ('t, 'd, 'c) gEnv \<Rightarrow> gotime \<Rightarrow> (('t, 'd, 'c) Goofys \<Rightarrow> ('t, 'd, 'c) Goofys) \<Rightarrow> (probe list \<Rightarrow> probe list) \<Rightarrow>
    ('t, 'd, 'c) Goofys \<Rightarrow> ptr \<Rightarrow> string \<Rightarrow> (('t, 'd, 'c) Goofys \<times> (error + ptr)) option" where
  "LookUpCached St E now other arrive s parent name =
     (let recheck = (\<lambda>inode. do {
            (s, r) \<leftarrow> recheckInode St E now other arrive s parent inode name;
            Some (s, case r of
                       Inl err \<Rightarrow> Inl (mapAwsError1 err)
                     | Inr None \<Rightarrow> Inl (Errno ENOENT)
                     | Inr (Some i) \<Rightarrow> Inr i)
          })
      in if \<not> isDir s parent then None
         else case findChildUnlocked s parent name of
           Some inode \<Rightarrow>
             if expired now (i_AttrTime (heap s inode)) (f_StatCacheTTL (g_flags E)) \<and>
                \<not> (i_CacheState (heap s inode) \<noteq> ST_CACHED \<or> isDir s inode \<and> d_ModifiedChildren (dirOf s inode) > 0)
             then recheck (Some inode) else Some (s, Inr inode)
         | None \<Rightarrow>
             if d_DeletedChildren (dirOf s parent) name \<noteq> None then Some (s, Inl (Errno ENOENT))
             else if \<not> expired now (d_DirTime (dirOf s parent)) (f_StatCacheTTL (g_flags E)) then Some (s, Inl (Errno ENOENT))
             else recheck None)"

section \<open>Paths\<close>

fun lookupParent_loop :: "store \<Rightarrow> ('t, 'd, 'c) gEnv \<Rightarrow> gotime \<Rightarrow> (('t, 'd, 'c) Goofys \<Rightarrow> ('t, 'd, 'c) Goofys) \<Rightarrow> (probe list \<Rightarrow> probe list) \<Rightarrow>
    ('t, 'd, 'c) Goofys \<Rightarrow> ptr \<Rightarrow> string list \<Rightarrow> (('t, 'd, 'c) Goofys \<times> (error + ptr)) option" where
  "lookupParent_loop St E now other arrive s parent [] = Some (s, Inr parent)"
| "lookupParent_loop St E now other arrive s parent (part # parts) =
     (if part = [] then lookupParent_loop St E now other arrive s parent parts
      else do {
        (s, r) \<leftarrow> LookUpCached St E now other arrive s parent part;
        case r of
          Inl err \<Rightarrow> Some (s, Inl err)
        | Inr p \<Rightarrow>
            if \<not> isDir s p then Some (s, Inl (Errno ENOTDIR))
            else if i_CacheState (heap s p) = ST_DEAD then Some (s, Inl (Errno ESTALE))
            else lookupParent_loop St E now other arrive s p parts
      })"

definition LookupParent :: "store \<Rightarrow> ('t, 'd, 'c) gEnv \<Rightarrow> gotime \<Rightarrow> (('t, 'd, 'c) Goofys \<Rightarrow> ('t, 'd, 'c) Goofys) \<Rightarrow> (probe list \<Rightarrow> probe list) \<Rightarrow>
    ('t, 'd, 'c) Goofys \<Rightarrow> string \<Rightarrow> (('t, 'd, 'c) Goofys \<times> (error + ptr \<times> string)) option" where
  "LookupParent St E now other arrive s path =
     do {
       let parts = go_split (CHR ''/'') path;
       root \<leftarrow> inodes s RootInodeID;
       (s, r) \<leftarrow> lookupParent_loop St E now other arrive s root (butlast parts);
       Some (s, case r of Inl err \<Rightarrow> Inl err | Inr p \<Rightarrow> Inr (p, List.last parts))
     }"

fun lookupPath_loop :: "store \<Rightarrow> ('t, 'd, 'c) gEnv \<Rightarrow> gotime \<Rightarrow> (('t, 'd, 'c) Goofys \<Rightarrow> ('t, 'd, 'c) Goofys) \<Rightarrow> (probe list \<Rightarrow> probe list) \<Rightarrow>
    ('t, 'd, 'c) Goofys \<Rightarrow> ptr \<Rightarrow> string list \<Rightarrow> (('t, 'd, 'c) Goofys \<times> (error + ptr)) option" where
  "lookupPath_loop St E now other arrive s inode [] = Some (s, Inr inode)"
| "lookupPath_loop St E now other arrive s inode (part # parts) =
     (if part = [] then lookupPath_loop St E now other arrive s inode parts
      else if \<not> isDir s inode then Some (s, Inl (Errno ENOTDIR))
      else do {
        (s, r) \<leftarrow> LookUpCached St E now other arrive s inode part;
        case r of
          Inl err \<Rightarrow> Some (s, Inl err)
        | Inr p \<Rightarrow>
            if i_CacheState (heap s p) = ST_DEAD then Some (s, Inl (Errno ESTALE))
            else lookupPath_loop St E now other arrive s p parts
      })"

definition LookupPath :: "store \<Rightarrow> ('t, 'd, 'c) gEnv \<Rightarrow> gotime \<Rightarrow> (('t, 'd, 'c) Goofys \<Rightarrow> ('t, 'd, 'c) Goofys) \<Rightarrow> (probe list \<Rightarrow> probe list) \<Rightarrow>
    ('t, 'd, 'c) Goofys \<Rightarrow> string \<Rightarrow> (('t, 'd, 'c) Goofys \<times> (error + ptr)) option" where
  "LookupPath St E now other arrive s path =
     do {
       root \<leftarrow> inodes s RootInodeID;
       lookupPath_loop St E now other arrive s root (go_split (CHR ''/'') path)
     }"

section \<open>Refreshing one entry\<close>

definition isDirtyLocked :: "('t, 'd, 'c) Goofys \<Rightarrow> ptr \<Rightarrow> bool" where
  "isDirtyLocked s inode \<longleftrightarrow> i_CacheState (heap s inode) \<noteq> ST_CACHED \<or> isDir s inode \<and> d_ModifiedChildren (dirOf s inode) > 0"

definition removeChildUnlessDirty :: "('t, 'd, 'c) gEnv \<Rightarrow> ('t, 'd, 'c) Goofys \<Rightarrow> ptr \<Rightarrow> ptr \<Rightarrow> (('t, 'd, 'c) Goofys \<times> bool) option" where
  "removeChildUnlessDirty E s parent inode =
     (let cs = d_Children (dirOf s parent); l = length cs;
          i = sort_search l (findInodeFunc s parent (i_Name (heap s inode)))
      in if i \<ge> l \<or> cs ! i \<noteq> inode then Some (s, False)
         else if isDirtyLocked s inode then Some (s, True)
         else map_option (\<lambda>s. (s, False)) (removeChildUnlocked E s parent inode))"

definition refreshCurrentChild :: "store \<Rightarrow> ('t, 'd, 'c) gEnv \<Rightarrow> gotime \<Rightarrow> (('t, 'd, 'c) Goofys \<Rightarrow> ('t, 'd, 'c) Goofys) \<Rightarrow> (probe list \<Rightarrow> probe list) \<Rightarrow>
    ('t, 'd, 'c) Goofys \<Rightarrow> ptr \<Rightarrow> ptr \<Rightarrow> string \<Rightarrow> (('t, 'd, 'c) Goofys \<times> error option) option" where
  "refreshCurrentChild St E now other arrive s parent inode name =
     (case findChildUnlocked s parent name of
        Some current \<Rightarrow>
          if current = inode then map_option (\<lambda>(s, r). (s, case r of Inl e \<Rightarrow> Some e | Inr _ \<Rightarrow> None)) (recheckInode St E now other arrive s parent (Some inode) name)
          else if isDirtyLocked s current then Some (s, None)
          else do {
            (s, r) \<leftarrow> LookUp St E now other arrive s parent name False;
            case r of
              Inr _ \<Rightarrow> Some (s, None)
            | Inl err \<Rightarrow>
                if missing (Some err) then
                  do {
                    (s, dirty) \<leftarrow> removeChildUnlessDirty E s parent current;
                    Some (s, if dirty then None else Some err)
                  }
                else Some (s, Some err)
          }
      | None \<Rightarrow> map_option (\<lambda>(s, r). (s, case r of Inl e \<Rightarrow> Some e | Inr _ \<Rightarrow> None)) (recheckInode St E now other arrive s parent (Some inode) name))"

end
