(* ===== verification/Fs_Ops.thy ===== *)
theory Fs_Ops
  imports Lookup
begin

text \<open>
  The operations of the file system as a whole (\<open>core/goofys.go\<close>): eviction of inodes, mounting and
  unmounting of backends, and the refresh of a subtree.
\<close>

section \<open>Eviction\<close>

text \<open>
  The locks are taken with \<open>TryLock\<close>: \<open>locked p\<close> tells that inode \<open>p\<close> is locked by someone else.  Between the
  first look at the inode and the moment both locks are held, other parts of the program run (\<open>other\<close>).
\<close>

definition inUse :: "('t, 'd, 'c) Goofys \<Rightarrow> ptr \<Rightarrow> bool" where
  "inUse s child \<longleftrightarrow> i_fileHandles (heap s child) > 0 \<or> i_CacheState (heap s child) > ST_DEAD \<or>
     isDir s child \<and> d_ModifiedChildren (dirOf s child) > 0"

definition evictInode :: "('t, 'd, 'c) gEnv \<Rightarrow> ('t, 'd, 'c) Goofys \<Rightarrow> ptr \<Rightarrow> ptr \<Rightarrow> ('t, 'd, 'c) Goofys option" where
  "evictInode E s parent child =
     do {
       s \<leftarrow> (if findChildUnlocked s parent (i_Name (heap s child)) = Some child then
              map_option (updDir parent (\<lambda>d. d\<lparr>d_DirTime := time_zero, d_forgetDuringList := True\<rparr>))
                (removeChildUnlocked E s parent child)
            else Some s);
       s \<leftarrow> resetCache E s child;
       let s = SetCacheState E s child ST_DEAD;
       let s = resetExpireTime s child;
       Some (s\<lparr>inodes := (inodes s)(i_Id (heap s child) := None), forgotCnt := forgotCnt s + 1\<rparr>)
     }"

definition EvictEntry :: "('t, 'd, 'c) gEnv \<Rightarrow> gotime \<Rightarrow> (ptr \<Rightarrow> bool) \<Rightarrow> (('t, 'd, 'c) Goofys \<Rightarrow> ('t, 'd, 'c) Goofys) \<Rightarrow>
    ('t, 'd, 'c) Goofys \<Rightarrow> nat \<Rightarrow> (('t, 'd, 'c) Goofys \<times> bool) option" where
  "EvictEntry E now locked other s num =
     (case inodes s num of
        None \<Rightarrow> Some (s, False)
      | Some child \<Rightarrow>
          if i_Id (heap s child) = RootInodeID \<or> inUse s child then Some (s, False)
          else if locked child \<or> i_ExpireTime (heap s child) > now then Some (s, False)
          else
            (case i_Parent (heap s child) of
               None \<Rightarrow> None
             | Some parent \<Rightarrow>
                 let s = other s in
                 if locked parent \<or> locked child then Some (s, False)
                 else if i_Parent (heap s child) \<noteq> Some parent \<or> i_fileHandles (heap s parent) > 0 \<or> inUse s child then Some (s, False)
                 else map_option (\<lambda>s. (s, True)) (evictInode E s parent child)))"

text \<open>The choice of inodes in a round of \<open>MetaEvictor\<close>: the map of inodes by expiry time is visited in an
  unspecified order, given as a list.\<close>

definition evictTarget :: "int \<Rightarrow> int \<Rightarrow> int option" where
  "evictTarget totalInodes limit =
     (let toEvict = (totalInodes - limit) * 2 in
      if toEvict < 0 then None
      else
        let q = (if limit \<ge> 0 then limit div 100 else - ((- limit) div 100));
            toEvict = (if toEvict < q then q else toEvict)
        in Some (if toEvict < 10 then 10 else toEvict))"

fun scan_ids :: "nat list \<Rightarrow> nat set \<Rightarrow> int \<Rightarrow> nat list \<Rightarrow> nat list" where
  "scan_ids [] seen toEvict scan = scan"
| "scan_ids (i # is) seen toEvict scan =
     (let scan = (if i \<notin> seen then scan @ [i] else scan) in
      if int (length scan) \<ge> toEvict then scan else scan_ids is seen toEvict scan)"

fun scan_times :: "(int \<times> nat list) list \<Rightarrow> int \<Rightarrow> nat set \<Rightarrow> int \<Rightarrow> nat list \<Rightarrow> nat list" where
  "scan_times [] expireUnix seen toEvict scan = scan"
| "scan_times ((tm, is) # ts) expireUnix seen toEvict scan =
     (let scan = (if tm < expireUnix then scan_ids is seen toEvict scan else scan) in
      if int (length scan) \<ge> toEvict then scan else scan_times ts expireUnix seen toEvict scan)"

fun evict_all :: "('t, 'd, 'c) gEnv \<Rightarrow> gotime \<Rightarrow> (ptr \<Rightarrow> bool) \<Rightarrow> (('t, 'd, 'c) Goofys \<Rightarrow> ('t, 'd, 'c) Goofys) \<Rightarrow> ('t, 'd, 'c) Goofys \<Rightarrow> nat list \<Rightarrow> nat set \<Rightarrow> nat \<Rightarrow>
    (('t, 'd, 'c) Goofys \<times> nat set \<times> nat) option" where
  "evict_all E now locked other s [] seen evicted = Some (s, seen, evicted)"
| "evict_all E now locked other s (i # is) seen evicted =
     do {
       (s, ok) \<leftarrow> EvictEntry E now locked other s i;
       if ok then evict_all E now locked other s is seen (Suc evicted) else evict_all E now locked other s is (insert i seen) evicted
     }"

text \<open>One round; the results are the inodes seen, the number of evicted inodes and whether to go on at once.\<close>

definition MetaEvictor_round :: "('t, 'd, 'c) gEnv \<Rightarrow> gotime \<Rightarrow> (ptr \<Rightarrow> bool) \<Rightarrow> (('t, 'd, 'c) Goofys \<Rightarrow> ('t, 'd, 'c) Goofys) \<Rightarrow> (int \<times> nat list) list \<Rightarrow> int \<Rightarrow> ('t, 'd, 'c) Goofys \<Rightarrow> nat set \<Rightarrow>
    (('t, 'd, 'c) Goofys \<times> nat set \<times> nat \<times> bool) option" where
  "MetaEvictor_round E now locked other byTime totalInodes s seen =
     (case evictTarget totalInodes (f_EntryLimit (g_flags E)) of
        None \<Rightarrow> Some (s, seen, 0, False)
      | Some toEvict \<Rightarrow>
          let scan = scan_times byTime (Unix (now - f_StatCacheTTL (g_flags E))) seen toEvict [] in
          do {
            (s, seen, evicted) \<leftarrow> evict_all E now locked other s scan seen 0;
            Some (s, seen, evicted, int (length scan) \<ge> toEvict \<and> totalInodes > f_EntryLimit (g_flags E))
          })"

section \<open>Mounts\<close>

definition TIME_MAX :: gotime where
  "TIME_MAX = (2 ^ 63 - 62135596801) * 10 ^ 9 + 999999999"

record Mount =
  m_name :: string
  m_cloud :: nat
  m_prefix :: string
  m_mounted :: bool

text \<open>\<open>resetDirTimeRec\<close> on the subtree below an inode, with the depth of the calls bounded by the number of inodes.\<close>

fun resetDirTimeRec :: "nat \<Rightarrow> ('t, 'd, 'c) gEnv \<Rightarrow> ptr \<Rightarrow> ('t, 'd, 'c) Goofys \<Rightarrow> ('t, 'd, 'c) Goofys option"
and resetDirTimes :: "nat \<Rightarrow> ('t, 'd, 'c) gEnv \<Rightarrow> ptr list \<Rightarrow> ('t, 'd, 'c) Goofys \<Rightarrow> ('t, 'd, 'c) Goofys option" where
  "resetDirTimeRec 0 E inode s = None"
| "resetDirTimeRec (Suc n) E inode s =
     (let s = SetAttrTime E s inode time_zero in
      if i_dir (heap s inode) = None then Some s
      else
        let s = updDir inode (\<lambda>d. d\<lparr>d_listDone := False, d_DirTime := time_zero\<rparr>) s
        in resetDirTimes n E (d_Children (dirOf s inode)) s)"
| "resetDirTimes n E [] s = Some s"
| "resetDirTimes n E (child # cs) s =
     do {
       s \<leftarrow> resetDirTimeRec n E child s;
       resetDirTimes n E cs s
     }"

definition newMountDir :: "('t, 'd, 'c) gEnv \<Rightarrow> gotime \<Rightarrow> ('t, 'd, 'c) Goofys \<Rightarrow> ptr \<Rightarrow> string \<Rightarrow> (DirInodeData \<Rightarrow> DirInodeData) \<Rightarrow>
    (('t, 'd, 'c) Goofys \<times> ptr) option" where
  "newMountDir E now s mp name f =
     do {
       let (p, s) = NewInode E now s (Some mp) name;
       let s = ToDir E s p;
       let s = updDir p f s;
       let s = SetAttrTime E s p TIME_MAX;
       let s = upd p (\<lambda>i. i\<lparr>i_userMetadata := Some []\<rparr>) s;
       s \<leftarrow> insertInode s mp p;
       Some (s, p)
     }"

fun mountPath :: "('t, 'd, 'c) gEnv \<Rightarrow> gotime \<Rightarrow> ('t, 'd, 'c) Goofys \<Rightarrow> ptr \<Rightarrow> string list \<Rightarrow> (('t, 'd, 'c) Goofys \<times> ptr) option" where
  "mountPath E now s mp [] = Some (s, mp)"
| "mountPath E now s mp (dirName # names) =
     (if \<not> isDir s mp then None
      else do {
        (s, d) \<leftarrow> (case findChildUnlocked s mp dirName of
                    None \<Rightarrow> newMountDir E now s mp dirName (\<lambda>d. d)
                  | Some d \<Rightarrow> Some (s, d));
        mountPath E now s d names
      })"

definition mount :: "('t, 'd, 'c) gEnv \<Rightarrow> gotime \<Rightarrow> ('t, 'd, 'c) Goofys \<Rightarrow> ptr \<Rightarrow> Mount \<Rightarrow> (('t, 'd, 'c) Goofys \<times> Mount) option" where
  "mount E now s mp b =
     (if m_mounted b then Some (s, b)
      else do {
        let parts = go_split (CHR ''/'') (go_trim (CHR ''/'') (m_name b));
        (s, mp) \<leftarrow> mountPath E now s mp (butlast parts);
        let setCloud = (\<lambda>d. d\<lparr>d_cloud := Some (m_cloud b), d_mountPrefix := m_prefix b\<rparr>);
        (s, prev) \<leftarrow>
          (if \<not> isDir s mp then None
           else case findChildUnlocked s mp (List.last parts) of
             None \<Rightarrow> newMountDir E now s mp (List.last parts) setCloud
           | Some prev \<Rightarrow>
               if \<not> isDir s prev then None
               else do {
                 s \<leftarrow> resetDirTimeRec (Suc (nextPtr s)) E prev s;
                 Some (SetAttrTime E (updDir prev setCloud s) prev TIME_MAX, prev)
               });
        Some (addModified s (Some prev) 1, b\<lparr>m_mounted := True\<rparr>)
      })"

fun MountAll_loop :: "('t, 'd, 'c) gEnv \<Rightarrow> gotime \<Rightarrow> ptr \<Rightarrow> ('t, 'd, 'c) Goofys \<Rightarrow> Mount list \<Rightarrow> (('t, 'd, 'c) Goofys \<times> Mount list) option" where
  "MountAll_loop E now root s [] = Some (s, [])"
| "MountAll_loop E now root s (m # ms) =
     do {
       (s, m) \<leftarrow> mount E now s root m;
       (s, ms) \<leftarrow> MountAll_loop E now root s ms;
       Some (s, m # ms)
     }"

definition getInodeOrDie :: "('t, 'd, 'c) Goofys \<Rightarrow> nat \<Rightarrow> ptr option" where
  "getInodeOrDie s num = inodes s num"

definition MountAll :: "('t, 'd, 'c) gEnv \<Rightarrow> gotime \<Rightarrow> ('t, 'd, 'c) Goofys \<Rightarrow> Mount list \<Rightarrow> (('t, 'd, 'c) Goofys \<times> Mount list) option" where
  "MountAll E now s ms = do { root \<leftarrow> getInodeOrDie s RootInodeID; MountAll_loop E now root s ms }"

definition ResetForUnmount :: "('t, 'd, 'c) gEnv \<Rightarrow> ('t, 'd, 'c) Goofys \<Rightarrow> ptr \<Rightarrow> ('t, 'd, 'c) Goofys option" where
  "ResetForUnmount E s inode =
     (if \<not> isDir s inode then None
      else
        let s = updDir inode (\<lambda>d. d\<lparr>d_cloud := None, d_mountPrefix := []\<rparr>) s;
            s = upd inode (\<lambda>i. i\<lparr>i_userMetadata := None, i_s3Metadata := None, i_Attributes := zeroAttributes\<rparr>) s;
            s = updDir inode (\<lambda>d. d\<lparr>d_ImplicitDir := False\<rparr>) s
        in resetDirTimeRec (Suc (nextPtr s)) E inode s)"

fun unmountPath :: "('t, 'd, 'c) Goofys \<Rightarrow> ptr \<Rightarrow> string list \<Rightarrow> ptr option" where
  "unmountPath s mp [] = Some mp"
| "unmountPath s mp (n # ns) =
     (case findChildUnlocked s mp n of
        Some d \<Rightarrow> if isDir s d then unmountPath s d ns else None
      | None \<Rightarrow> None)"

definition Unmount :: "('t, 'd, 'c) gEnv \<Rightarrow> ('t, 'd, 'c) Goofys \<Rightarrow> string \<Rightarrow> ('t, 'd, 'c) Goofys option" where
  "Unmount E s mountPoint =
     do {
       root \<leftarrow> getInodeOrDie s RootInodeID;
       case unmountPath s root (go_split (CHR ''/'') (go_trim (CHR ''/'') mountPoint)) of
         None \<Rightarrow> Some s
       | Some mp \<Rightarrow> ResetForUnmount E (addModified s (Some mp) (- 1)) mp
     }"

section \<open>Refreshing\<close>

text \<open>The loop over the root directory.  \<^const>\<open>None\<close> also stands for a listing that does not end.\<close>

partial_function (option) refreshRoot :: "store \<Rightarrow> ('t, 'd, 'c) gEnv \<Rightarrow> gotime \<Rightarrow> (('t, 'd, 'c) Goofys \<Rightarrow> ('t, 'd, 'c) Goofys) \<Rightarrow> ptr \<Rightarrow> nat \<Rightarrow>
    ('t, 'd, 'c) Goofys \<Rightarrow> notification list \<Rightarrow> (('t, 'd, 'c) Goofys \<times> notification list \<times> error option) option" where
  "refreshRoot St E now other inode h s notes =
     do {
       (s, r) \<leftarrow> ReadDir St E now other s h;
       (case r of
          Inl err \<Rightarrow> Some (s, notes, Some (mapAwsError1 err))
        | Inr None \<Rightarrow> Some (s, notes, None)
        | Inr (Some en) \<Rightarrow>
            let off = dh_lastInternalOffset (dirHandleHeap s h);
                nm = i_Name (heap s en);
                notes = (if off \<ge> 2 then notes @ [NotifyInvalEntry (i_Id (heap s inode)) nm] else notes);
                nm = (if off = 0 then ''.'' else if off = 1 then ''..'' else nm)
            in refreshRoot St E now other inode h (Next s h nm) notes)
     }"

definition RefreshInodeCache :: "store \<Rightarrow> ('t, 'd, 'c) gEnv \<Rightarrow> gotime \<Rightarrow> (('t, 'd, 'c) Goofys \<Rightarrow> ('t, 'd, 'c) Goofys) \<Rightarrow> (probe list \<Rightarrow> probe list) \<Rightarrow>
    ('t, 'd, 'c) Goofys \<Rightarrow> ptr \<Rightarrow> (('t, 'd, 'c) Goofys \<times> error option) option" where
  "RefreshInodeCache St E now other arrive s inode =
     (let parent = i_Parent (heap s inode); name = i_Name (heap s inode); inodeId = i_Id (heap s inode) in
      do {
        s \<leftarrow> resetDirTimeRec (Suc (nextPtr s)) E inode s;
        case parent of
          None \<Rightarrow>
            do {
              (s, h) \<leftarrow> OpenDir E s inode;
              (s, notes, err) \<leftarrow> refreshRoot St E now other inode h s [];
              let s = CloseDir s h;
              Some (s\<lparr>notified := notified s @ notes\<rparr>, err)
            }
        | Some p \<Rightarrow>
            do {
              let parentId = i_Id (heap s p);
              (s, err) \<leftarrow> refreshCurrentChild St E now other arrive s p inode name;
              let note = (if missing err then NotifyDelete parentId inodeId name else NotifyInvalEntry parentId name);
              Some (s\<lparr>notified := notified s @ [note]\<rparr>, if missing err then None else mapAwsError err)
            }
      })"

end
