(* ===== verification/Go_Path.thy ===== *)
theory Go_Path
  imports Names
begin

text \<open>
  The part of Go's \<open>path/filepath\<close> (on a Unix system) that the emulation of hard links uses:
  \<open>Clean\<close>, which is a stack of components, and \<open>Rel\<close>, which drops the common components and goes
  up for the rest of the base.  The main fact is that a relative path, resolved from its base,
  leads to its target.
\<close>

section \<open>Definitions\<close>

text \<open>The components seen so far are held in reverse.\<close>

fun clean_loop :: "bool \<Rightarrow> string list \<Rightarrow> string list \<Rightarrow> string list" where
  "clean_loop rooted acc [] = acc"
| "clean_loop rooted acc (c # cs) =
     (if c = [] \<or> c = ''.'' then clean_loop rooted acc cs
      else if c = ''..'' then
        (case acc of
           a # as \<Rightarrow> if a \<noteq> ''..'' then clean_loop rooted as cs else clean_loop rooted (''..'' # acc) cs
         | [] \<Rightarrow> if rooted then clean_loop rooted [] cs else clean_loop rooted [''..''] cs)
      else clean_loop rooted (c # acc) cs)"

definition filepath_Clean :: "string \<Rightarrow> string" where
  "filepath_Clean path =
     (let rooted = (path \<noteq> [] \<and> hd path = CHR ''/'');
          cs = rev (clean_loop rooted [] (go_split (CHR ''/'') path))
      in if rooted then CHR ''/'' # join_path cs else if cs = [] then ''.'' else join_path cs)"

text \<open>The elements that the loop of \<open>Rel\<close> compares: a trailing separator ends the last one.\<close>

definition rel_elems :: "string \<Rightarrow> string list" where
  "rel_elems p = (if p = [] then [] else if p = ''/'' then [[]] else go_split (CHR ''/'') p)"

fun rel_strip :: "string list \<Rightarrow> string list \<Rightarrow> string list \<times> string list" where
  "rel_strip (b # bs) (t # ts) = (if b = t then rel_strip bs ts else (b # bs, t # ts))"
| "rel_strip bs ts = (bs, ts)"

definition filepath_Rel :: "string \<Rightarrow> string \<Rightarrow> string option" where
  "filepath_Rel basepath targpath =
     (let base = filepath_Clean basepath; targ = filepath_Clean targpath in
      if targ = base then Some ''.''
      else
        let base = (if base = ''.'' then [] else base) in
        if (base \<noteq> [] \<and> hd base = CHR ''/'') \<noteq> (targ \<noteq> [] \<and> hd targ = CHR ''/'') then None
        else
          let (b, t) = rel_strip (rel_elems base) (rel_elems targ) in
          if b \<noteq> [] \<and> t \<noteq> [] \<and> hd b = ''..'' then None
          else if b \<noteq> [] then Some (join_path (replicate (length b) ''..'' @ t))
          else Some (join_path t))"

section \<open>Normal paths\<close>

definition normal :: "string list \<Rightarrow> bool" where
  "normal cs \<longleftrightarrow> (\<forall>c \<in> set cs. c \<noteq> [] \<and> c \<noteq> ''.'' \<and> c \<noteq> ''..'' \<and> CHR ''/'' \<notin> set c)"

lemma normal_simps [simp]:
  "normal []"
  "normal (c # cs) \<longleftrightarrow> (c \<noteq> [] \<and> c \<noteq> ''.'' \<and> c \<noteq> ''..'' \<and> CHR ''/'' \<notin> set c) \<and> normal cs"
  "normal (as @ bs) \<longleftrightarrow> normal as \<and> normal bs"
  by (auto simp: normal_def)

lemma go_split_word: "c \<notin> set w \<Longrightarrow> go_split c w = [w]"
  by (induction w) auto

lemma go_split_sep: "c \<notin> set w \<Longrightarrow> go_split c (w @ c # r) = w # go_split c r"
  by (induction w) auto

lemma go_split_join:
  "cs \<noteq> [] \<Longrightarrow> \<forall>c \<in> set cs. CHR ''/'' \<notin> set c \<Longrightarrow> go_split (CHR ''/'') (join_path cs) = cs"
  by (induction cs rule: join_path.induct) (simp_all add: go_split_word go_split_sep)

lemma normal_free: "normal cs \<Longrightarrow> \<forall>c \<in> set cs. CHR ''/'' \<notin> set c"
  by (auto simp: normal_def)

lemma join_not_nil: "cs \<noteq> [] \<Longrightarrow> hd cs \<noteq> [] \<Longrightarrow> join_path cs \<noteq> [] \<and> hd (join_path cs) = hd (hd cs)"
  by (cases cs rule: join_path.cases) auto

lemma clean_normal: "normal cs \<Longrightarrow> clean_loop r acc (cs @ ds) = clean_loop r (rev cs @ acc) ds"
  by (induction cs arbitrary: acc) auto

lemma clean_up: "normal bs \<Longrightarrow> clean_loop r (rev bs @ acc) (replicate (length bs) ''..'' @ ds) = clean_loop r acc ds"
  by (induction bs rule: rev_induct) auto

lemma clean_elems:
  assumes "cs \<noteq> []" "hd cs \<noteq> []" "\<forall>c \<in> set cs. CHR ''/'' \<notin> set c" "normal (clean_loop False [] cs)"
  shows "filepath_Clean (join_path cs) =
    (if clean_loop False [] cs = [] then ''.'' else join_path (rev (clean_loop False [] cs)))"
proof -
  have j: "join_path cs \<noteq> []" "hd (join_path cs) = hd (hd cs)" using assms(1,2) join_not_nil by blast+
  have "hd (hd cs) \<in> set (hd cs)" using assms(2) by simp
  then have "hd (hd cs) \<noteq> CHR ''/''" using assms(1,3) hd_in_set by metis
  with j assms show ?thesis by (simp add: filepath_Clean_def go_split_join)
qed

lemma normal_hd: "normal cs \<Longrightarrow> cs \<noteq> [] \<Longrightarrow> hd cs \<noteq> [] \<and> hd (hd cs) \<noteq> CHR ''/''"
  by (cases cs) (auto dest: hd_in_set)

lemma normal_rev [simp]: "normal (rev cs) = normal cs"
  by (simp add: normal_def)

lemma clean_path: "normal cs \<Longrightarrow> filepath_Clean (join_path cs) = (if cs = [] then ''.'' else join_path cs)"
proof (cases "cs = []")
  case False
  assume n: "normal cs"
  have "clean_loop False [] cs = rev cs" using clean_normal [OF n, of False "[]" "[]"] by simp
  with n False normal_hd [OF n False] show ?thesis by (simp add: clean_elems normal_free)
qed (simp add: filepath_Clean_def)

lemma clean_dot [simp]: "filepath_Clean [] = ''.''" "filepath_Clean ''.'' = ''.''"
  by (simp_all add: filepath_Clean_def)

lemma elems_path: "normal cs \<Longrightarrow> rel_elems (join_path cs) = cs"
proof (cases "cs = []")
  case False
  assume n: "normal cs"
  have "join_path cs \<noteq> []" "hd (join_path cs) \<noteq> CHR ''/''"
    using join_not_nil [OF False] normal_hd [OF n False] by auto
  with False n show ?thesis by (auto simp: rel_elems_def go_split_join normal_free)
qed (simp add: rel_elems_def)

lemma rel_strip_parts:
  "rel_strip bs ts = (b, t) \<Longrightarrow> \<exists>common. bs = common @ b \<and> ts = common @ t"
  by (induction bs ts rule: rel_strip.induct) (auto split: if_splits intro: exI [of _ "_ # _"])

section \<open>A relative path leads to its target\<close>

definition resolve :: "string list \<Rightarrow> string \<Rightarrow> string" where
  "resolve dir link = filepath_Clean (if dir = [] then link else join_path dir @ CHR ''/'' # link)"

lemma join_append: "as \<noteq> [] \<Longrightarrow> bs \<noteq> [] \<Longrightarrow> join_path as @ CHR ''/'' # join_path bs = join_path (as @ bs)"
proof (induction as rule: join_path.induct)
  case (2 c)
  then show ?case by (cases bs) auto
qed auto

theorem rel_resolves:
  assumes B: "normal B" and T: "normal T" "T \<noteq> []" "T \<noteq> B"
  shows "\<exists>rel. filepath_Rel (filepath_Clean (join_path B)) (filepath_Clean (join_path T)) = Some rel \<and> resolve B rel = join_path T"
proof -
  obtain b t where bt: "rel_strip B T = (b, t)" by force
  then obtain common where c: "B = common @ b" "T = common @ t" using rel_strip_parts by blast
  let ?up = "replicate (length b) ''..'' @ t"
  have ne: "b \<noteq> [] \<or> t \<noteq> []" using c T(3) by auto
  have hdT: "join_path T \<noteq> []" "hd (join_path T) \<noteq> CHR ''/''"
    using join_not_nil [OF T(2)] normal_hd [OF T(1,2)] by auto
  have hdB: "\<not> (join_path B \<noteq> [] \<and> hd (join_path B) = CHR ''/'')"
    using join_not_nil [of B] normal_hd [OF B] by (cases "B = []") auto
  have dotT: "join_path T \<noteq> ''.''"
    using T(1) elems_path [OF T(1)] by (auto simp: rel_elems_def)
  have dotB: "join_path B \<noteq> ''.''"
    using B elems_path [OF B] by (auto simp: rel_elems_def)
  have neq: "join_path T \<noteq> join_path B" using elems_path [OF T(1)] elems_path [OF B] T(3) by metis
  have "\<not> (b \<noteq> [] \<and> t \<noteq> [] \<and> hd b = ''..'')" using B c by (cases b) auto
  moreover have "filepath_Clean (filepath_Clean (join_path T)) = join_path T" using T(1,2) by (simp add: clean_path)
  moreover have "filepath_Clean (filepath_Clean (join_path B)) = (if B = [] then ''.'' else join_path B)"
    using B by (cases "B = []") (simp_all add: clean_path)
  moreover have "(if (if B = [] then ''.'' else join_path B) = ''.'' then [] else (if B = [] then ''.'' else join_path B)) = join_path B"
    using dotB by auto
  ultimately have rel: "filepath_Rel (filepath_Clean (join_path B)) (filepath_Clean (join_path T)) = Some (join_path ?up)"
    using B T(1) bt hdT hdB neq dotT by (auto simp: filepath_Rel_def Let_def elems_path)
  have up_ne: "?up \<noteq> []" using ne by auto
  have loop: "clean_loop False [] (B @ ?up) = rev T"
    using B T(1) c clean_normal [of B False "[]" ?up] clean_up [of b False "rev common" t]
      clean_normal [of t False "rev common" "[]"] by simp
  have each: "x \<noteq> [] \<and> CHR ''/'' \<notin> set x" if "x \<in> set (B @ ?up)" for x
  proof -
    have "x \<in> set B \<or> x = ''..'' \<or> x \<in> set T" using that c(2) by auto
    then show ?thesis using B T(1) unfolding normal_def by (elim disjE) auto
  qed
  have all_ne: "B @ ?up \<noteq> []" using up_ne by simp
  have hdne: "hd (B @ ?up) \<noteq> []" using each [OF hd_in_set [OF all_ne]] by blast
  have free: "\<forall>x \<in> set (B @ ?up). CHR ''/'' \<notin> set x" using each by blast
  have "filepath_Clean (join_path (B @ ?up)) = join_path T"
    using clean_elems [OF all_ne hdne free] T(1,2) by (simp only: loop normal_rev rev_is_Nil_conv rev_rev_ident if_False simp_thms)
  then have "resolve B (join_path ?up) = join_path T"
    using up_ne by (cases "B = []") (simp_all add: resolve_def join_append)
  with rel show ?thesis by blast
qed

end
