(* ===== verification/Fuse.thy ===== *)
theory Fuse
  imports File_Sync Fs_Ops Go_Path
begin

text \<open>
  The adapter between the FUSE library and the inode operations (\<open>core/goofys_fuse.go\<close>), with the
  tables of open handles and \<open>SyncTree\<close> of \<open>core/goofys.go\<close>.  One definition per request: the
  fields of the request that the handler reads are arguments, the fields it sets are the result.
  A request that names an unknown inode or a handle that is not open panics.  The statistics
  counters and the log are left out, and the clock is read once per request.
\<close>

section \<open>State and environment\<close>

record ('t, 'd, 'c) GoofysFuse =
  gf_fs :: "('t, 'd, 'c) Goofys"
  gf_dirHandles :: "nat \<Rightarrow> nat option"
  gf_fileHandles :: "nat \<Rightarrow> (ptr \<times> readTrack) option"
  gf_nextHandleID :: u64

text \<open>The options that only the adapter reads.\<close>

record fuseFlags =
  f_DisableXattr :: bool
  f_RefreshAttr :: string
  f_EmulateHardlinks :: bool
  f_MountOptions :: "string list"
  f_Setuid :: int
  f_Setgid :: int

text \<open>
  What a request finds around it: the environment of the file system, the store, the clock, the
  local cache file, and what the other goroutines do while the request waits (\<open>fx_other\<close> during a
  listing, \<open>fx_load\<close> during loads, \<open>fx_pause\<close> while writers are paused, \<open>fx_flush\<close> between the
  rounds of \<open>SyncFile\<close>).  \<open>fx_sync\<close> is the flush that a load or a truncation waits for, and
  \<open>fx_order\<close> the order in which a loop over the map of inodes visits its keys.  The two functions
  of the FUSE library that write a directory entry take the room that is left and return the number
  of bytes written, zero when the entry does not fit.
\<close>

record ChildInodeEntry =
  ce_Child :: nat
  ce_Attributes :: fuseAttributes
  ce_AttributesExpiration :: gotime
  ce_EntryExpiration :: gotime

datatype DirentType = DT_File | DT_Directory

record Dirent =
  de_Name :: string
  de_Type :: DirentType
  de_Inode :: nat
  de_Offset :: u64

record ('t, 'd, 'c) fuseEnv =
  fx_E :: "('t, 'd, 'c) gEnv"
  fx_flags :: fuseFlags
  fx_St :: store
  fx_now :: gotime
  fx_other :: "('t, 'd, 'c) act"
  fx_arrive :: "probe list \<Rightarrow> probe list"
  fx_os :: osFile
  fx_load :: "readJob list \<Rightarrow> ('t, 'd, 'c) act"
  fx_pause :: "('t, 'd, 'c) act"
  fx_sync :: "('t, 'd, 'c) Goofys \<Rightarrow> ('t, 'd, 'c) Goofys \<times> error option"
  fx_flush :: "flushJob list \<Rightarrow> ('t, 'd, 'c) act"
  fx_order :: "('t, 'd, 'c) Goofys \<Rightarrow> nat list"
  fx_WriteDirent :: "nat \<Rightarrow> Dirent \<Rightarrow> nat"
  fx_WriteDirentPlus :: "nat \<Rightarrow> ChildInodeEntry \<Rightarrow> Dirent \<Rightarrow> nat"

definition NewGoofysFuse :: "('t, 'd, 'c) Goofys \<Rightarrow> ('t, 'd, 'c) GoofysFuse" where
  "NewGoofysFuse s = \<lparr>gf_fs = s, gf_dirHandles = (\<lambda>_. None), gf_fileHandles = (\<lambda>_. None), gf_nextHandleID = 1\<rparr>"

definition AddDirHandle :: "('t, 'd, 'c) GoofysFuse \<Rightarrow> nat \<Rightarrow> ('t, 'd, 'c) GoofysFuse \<times> nat" where
  "AddDirHandle g dh =
     (let handleID = gf_nextHandleID g
      in (g\<lparr>gf_nextHandleID := add64 handleID 1, gf_dirHandles := (gf_dirHandles g)(handleID \<mapsto> dh)\<rparr>, handleID))"

definition AddFileHandle :: "('t, 'd, 'c) GoofysFuse \<Rightarrow> ptr \<times> readTrack \<Rightarrow> ('t, 'd, 'c) GoofysFuse \<times> nat" where
  "AddFileHandle g fh =
     (let handleID = gf_nextHandleID g
      in (g\<lparr>gf_nextHandleID := add64 handleID 1, gf_fileHandles := (gf_fileHandles g)(handleID \<mapsto> fh)\<rparr>, handleID))"

section \<open>Attributes\<close>

definition stale :: "('t, 'd, 'c) Goofys \<Rightarrow> ptr \<Rightarrow> bool" where
  "stale s p \<longleftrightarrow> i_CacheState (heap s p) = ST_DEAD"

definition SetExpireLocked :: "('t, 'd, 'c) Goofys \<Rightarrow> ptr \<Rightarrow> gotime \<Rightarrow> ('t, 'd, 'c) Goofys" where
  "SetExpireLocked s p tm = SetExpireTime s p tm"

definition GetAttributes :: "('t, 'd, 'c) gEnv \<Rightarrow> ('t, 'd, 'c) Goofys \<Rightarrow> ptr \<Rightarrow> fuseAttributes" where
  "GetAttributes E s p = InflateAttributes E s p"

text \<open>The lines that fill the entry of an answer, the same in every handler that returns an inode.\<close>

definition fillEntry :: "('t, 'd, 'c) fuseEnv \<Rightarrow> ('t, 'd, 'c) Goofys \<Rightarrow> ptr \<Rightarrow> ('t, 'd, 'c) Goofys \<times> ChildInodeEntry" where
  "fillEntry X s inode =
     (let tm = fx_now X + f_StatCacheTTL (g_flags (fx_E X));
          entry = \<lparr>ce_Child = i_Id (heap s inode), ce_Attributes = InflateAttributes (fx_E X) s inode,
                   ce_AttributesExpiration = tm, ce_EntryExpiration = tm\<rparr>
      in (SetExpireLocked s inode tm, entry))"

record statFS =
  sf_BlockSize :: nat
  sf_Blocks :: nat
  sf_BlocksFree :: nat
  sf_BlocksAvailable :: nat
  sf_IoSize :: nat
  sf_Inodes :: nat
  sf_InodesFree :: nat

definition StatFS :: statFS where
  "StatFS =
     (let BLOCK_SIZE = 4096; TOTAL_SPACE = 1 * 1024 * 1024 * 1024 * 1024 * 1024;
          TOTAL_BLOCKS = TOTAL_SPACE div BLOCK_SIZE; INODES = 1 * 1000 * 1000 * 1000
      in \<lparr>sf_BlockSize = BLOCK_SIZE, sf_Blocks = TOTAL_BLOCKS, sf_BlocksFree = TOTAL_BLOCKS,
          sf_BlocksAvailable = TOTAL_BLOCKS, sf_IoSize = 1 * 1024 * 1024, sf_Inodes = INODES, sf_InodesFree = INODES\<rparr>)"

definition GetInodeAttributes :: "('t, 'd, 'c) fuseEnv \<Rightarrow> ('t, 'd, 'c) Goofys \<Rightarrow> nat \<Rightarrow>
    (('t, 'd, 'c) Goofys \<times> (error + fuseAttributes \<times> gotime)) option" where
  "GetInodeAttributes X s opInode =
     do {
       inode \<leftarrow> getInodeOrDie s opInode;
       if stale s inode then Some (s, Inl (Errno ESTALE))
       else
         let attr = GetAttributes (fx_E X) s inode; tm = fx_now X + f_StatCacheTTL (g_flags (fx_E X))
         in Some (SetExpireLocked s inode tm, Inr (attr, tm))
     }"

definition SetInodeAttributes :: "('t, 'd, 'c) fuseEnv \<Rightarrow> ('t, 'd, 'c) Goofys \<Rightarrow> nat \<Rightarrow> u64 option \<Rightarrow> 32 word option \<Rightarrow>
    gotime option \<Rightarrow> nat option \<Rightarrow> nat option \<Rightarrow> (('t, 'd, 'c) Goofys \<times> (error + fuseAttributes \<times> gotime)) option" where
  "SetInodeAttributes X s opInode sz mode mtime uid gid =
     do {
       inode \<leftarrow> getInodeOrDie s opInode;
       if stale s inode then Some (s, Inl (Errno ESTALE))
       else do {
         (s, err) \<leftarrow> SetAttributes (fx_St X) (fx_E X) (fx_pause X) (fx_sync X) s inode sz mode mtime uid gid;
         case err of
           Some e \<Rightarrow> Some (s, Inl e)
         | None \<Rightarrow>
             let attr = GetAttributes (fx_E X) s inode; tm = fx_now X + f_StatCacheTTL (g_flags (fx_E X))
             in Some (SetExpireLocked s inode tm, Inr (attr, tm))
       }
     }"

section \<open>Extended attributes\<close>

text \<open>The destination buffer of the request is a list of bytes of a fixed length; the result is the
  buffer afterwards, \<open>BytesRead\<close> and the error.\<close>

definition copy_into :: "string \<Rightarrow> nat \<Rightarrow> string \<Rightarrow> string" where
  "copy_into dst at src = take at dst @ take (length dst - at) src @ drop (at + length src) dst"

definition GetXattr_op :: "('t, 'd, 'c) fuseEnv \<Rightarrow> ('t, 'd, 'c) Goofys \<Rightarrow> nat \<Rightarrow> string \<Rightarrow> string \<Rightarrow>
    (('t, 'd, 'c) Goofys \<times> string \<times> nat \<times> error option) option" where
  "GetXattr_op X s opInode name dst =
     (if f_DisableXattr (fx_flags X) then Some (s, dst, 0, Some (Errno ENOSYS))
      else do {
        inode \<leftarrow> getInodeOrDie s opInode;
        if stale s inode then Some (s, dst, 0, Some (Errno ESTALE))
        else do {
          (s, r) \<leftarrow> GetXattr (fx_St X) (fx_E X) s inode name;
          case r of
            Inl e \<Rightarrow> Some (s, dst, 0, mapAwsError (Some e))
          | Inr value \<Rightarrow>
              if length dst \<noteq> 0 then
                (if length dst < length value then Some (s, dst, length value, Some (Errno ERANGE))
                 else Some (s, copy_into dst 0 value, length value, None))
              else Some (s, dst, length value, None)
        }
      })"

text \<open>The loop of \<open>ListXattr\<close>: a name that does not fit is skipped and counted.\<close>

fun listXattr_loop :: "string list \<Rightarrow> string \<Rightarrow> nat \<Rightarrow> nat \<Rightarrow> string \<times> nat \<times> nat" where
  "listXattr_loop [] dst ncopied bytesRead = (dst, ncopied, bytesRead)"
| "listXattr_loop (name # names) dst ncopied bytesRead =
     (let nlen = length name + 1 in
      if nlen \<le> length dst - ncopied
      then listXattr_loop names (copy_into dst ncopied (name @ [CHR 0x00])) (ncopied + nlen) (bytesRead + nlen)
      else listXattr_loop names dst ncopied (bytesRead + nlen))"

definition ListXattr_op :: "('t, 'd, 'c) fuseEnv \<Rightarrow> ('t, 'd, 'c) Goofys \<Rightarrow> nat \<Rightarrow> string \<Rightarrow>
    (('t, 'd, 'c) Goofys \<times> string \<times> nat \<times> error option) option" where
  "ListXattr_op X s opInode dst =
     (if f_DisableXattr (fx_flags X) then Some (s, dst, 0, Some (Errno ENOSYS))
      else do {
        inode \<leftarrow> getInodeOrDie s opInode;
        if stale s inode then Some (s, dst, 0, Some (Errno ESTALE))
        else do {
          (s, r) \<leftarrow> ListXattr (fx_St X) (fx_E X) s inode;
          let (xattrs, err) = (case r of Inl e \<Rightarrow> ([], mapAwsError (Some e)) | Inr xs \<Rightarrow> (xs, None));
          let (dst, ncopied, bytesRead) = listXattr_loop xattrs dst 0 0;
          Some (s, dst, bytesRead, if length dst \<noteq> 0 \<and> ncopied < bytesRead then Some (Errno ERANGE) else err)
        }
      })"

definition RemoveXattr_op :: "('t, 'd, 'c) fuseEnv \<Rightarrow> ('t, 'd, 'c) Goofys \<Rightarrow> nat \<Rightarrow> string \<Rightarrow> (('t, 'd, 'c) Goofys \<times> error option) option" where
  "RemoveXattr_op X s opInode name =
     (if f_DisableXattr (fx_flags X) then Some (s, Some (Errno ENOSYS))
      else do {
        inode \<leftarrow> getInodeOrDie s opInode;
        if stale s inode then Some (s, Some (Errno ESTALE))
        else do {
          (s, err) \<leftarrow> RemoveXattr (fx_St X) (fx_E X) s inode name;
          Some (s, mapAwsError err)
        }
      })"

text \<open>Setting the attribute named by \<open>RefreshAttr\<close> refreshes the cache of the inode.\<close>

definition SetXattr_op :: "('t, 'd, 'c) fuseEnv \<Rightarrow> ('t, 'd, 'c) Goofys \<Rightarrow> nat \<Rightarrow> string \<Rightarrow> string \<Rightarrow> nat \<Rightarrow>
    (('t, 'd, 'c) Goofys \<times> error option) option" where
  "SetXattr_op X s opInode name value flags =
     (if f_DisableXattr (fx_flags X) then Some (s, Some (Errno ENOSYS))
      else do {
        inode \<leftarrow> getInodeOrDie s opInode;
        if stale s inode then Some (s, Some (Errno ESTALE))
        else if name = f_RefreshAttr (fx_flags X)
        then RefreshInodeCache (fx_St X) (fx_E X) (fx_now X) (fx_other X) (fx_arrive X) s inode
        else do {
          (s, err) \<leftarrow> SetXattr (fx_St X) (fx_E X) s inode name value flags;
          Some (s, mapAwsError err)
        }
      })"

section \<open>Links\<close>

definition CreateSymlink_op :: "('t, 'd, 'c) fuseEnv \<Rightarrow> ('t, 'd, 'c) Goofys \<Rightarrow> nat \<Rightarrow> string \<Rightarrow> string \<Rightarrow>
    (('t, 'd, 'c) Goofys \<times> (error + ChildInodeEntry)) option" where
  "CreateSymlink_op X s opParent name target =
     do {
       parent \<leftarrow> getInodeOrDie s opParent;
       if stale s parent then Some (s, Inl (Errno ESTALE))
       else do {
         (s, r) \<leftarrow> CreateSymlink (fx_E X) (fx_now X) s parent name target;
         case r of
           Inl e \<Rightarrow> Some (s, Inl e)
         | Inr inode \<Rightarrow> let (s, entry) = fillEntry X s inode in Some (s, Inr entry)
       }
     }"

definition ReadSymlink_op :: "('t, 'd, 'c) fuseEnv \<Rightarrow> ('t, 'd, 'c) Goofys \<Rightarrow> nat \<Rightarrow> (error + string) option" where
  "ReadSymlink_op X s opInode =
     do {
       inode \<leftarrow> getInodeOrDie s opInode;
       if stale s inode then Some (Inl (Errno ESTALE))
       else Some (case ReadSymlink (fx_E X) s inode of Inl e \<Rightarrow> Inl (mapAwsError1 e) | Inr target \<Rightarrow> Inr target)
     }"

text \<open>A hard link becomes a symbolic link with a relative target.\<close>

definition CreateLink :: "('t, 'd, 'c) fuseEnv \<Rightarrow> ('t, 'd, 'c) Goofys \<Rightarrow> nat \<Rightarrow> string \<Rightarrow> nat \<Rightarrow>
    (('t, 'd, 'c) Goofys \<times> (error + ChildInodeEntry)) option" where
  "CreateLink X s opParent name opTarget =
     (if \<not> f_EmulateHardlinks (fx_flags X) then Some (s, Inl (Errno ENOTSUP))
      else do {
        target \<leftarrow> getInodeOrDie s opTarget;
        parent \<leftarrow> getInodeOrDie s opParent;
        if stale s target \<or> stale s parent then Some (s, Inl (Errno ESTALE))
        else if isDir s target then Some (s, Inl (Errno EPERM))
        else
          let base = filepath_Clean (FullName s parent);
              tgt = filepath_Clean (FullName s target);
              rel = (case filepath_Rel base tgt of Some rel \<Rightarrow> rel | None \<Rightarrow> tgt)
          in CreateSymlink_op X s opParent name rel
      })"

section \<open>Lookups\<close>

definition LookUpInode :: "('t, 'd, 'c) fuseEnv \<Rightarrow> ('t, 'd, 'c) Goofys \<Rightarrow> nat \<Rightarrow> string \<Rightarrow>
    (('t, 'd, 'c) Goofys \<times> (error + ChildInodeEntry)) option" where
  "LookUpInode X s opParent name =
     do {
       parent \<leftarrow> getInodeOrDie s opParent;
       (s, r) \<leftarrow> LookUpCached (fx_St X) (fx_E X) (fx_now X) (fx_other X) (fx_arrive X) s parent name;
       case r of
         Inl e \<Rightarrow> Some (s, Inl e)
       | Inr inode \<Rightarrow> let (s, entry) = fillEntry X (Ref s inode) inode in Some (s, Inr entry)
     }"

definition ForgetInode :: "('t, 'd, 'c) fuseEnv \<Rightarrow> ('t, 'd, 'c) Goofys \<Rightarrow> nat \<Rightarrow> u64 \<Rightarrow> ('t, 'd, 'c) Goofys option" where
  "ForgetInode X s opInode n =
     (case inodes s opInode of
        None \<Rightarrow> Some s
      | Some inode \<Rightarrow> map_option fst (DeRef (fx_E X) s inode (i64 (int n))))"

section \<open>Directories\<close>

definition OpenDir_op :: "('t, 'd, 'c) fuseEnv \<Rightarrow> ('t, 'd, 'c) GoofysFuse \<Rightarrow> nat \<Rightarrow>
    (('t, 'd, 'c) GoofysFuse \<times> (error + nat)) option" where
  "OpenDir_op X g opInode =
     do {
       inode \<leftarrow> getInodeOrDie (gf_fs g) opInode;
       if stale (gf_fs g) inode then Some (g, Inl (Errno ESTALE))
       else do {
         (s, dh) \<leftarrow> OpenDir (fx_E X) (gf_fs g) inode;
         let (g, h) = AddDirHandle (g\<lparr>gf_fs := s\<rparr>) dh;
         Some (g, Inr h)
       }
     }"

definition makeDirEntry :: "('t, 'd, 'c) Goofys \<Rightarrow> ptr \<Rightarrow> u64 \<Rightarrow> Dirent" where
  "makeDirEntry s inode offset =
     \<lparr>de_Name = (if offset = 0 then ''.'' else if offset = 1 then ''..'' else i_Name (heap s inode)),
      de_Type = (if isDir s inode then DT_Directory else DT_File),
      de_Inode = i_Id (heap s inode),
      de_Offset = add64 offset 1\<rparr>"

text \<open>One entry: what is written and the state before the position moves on.  An entry that does not
  fit has refreshed the expiration all the same; the reference is counted only for an entry that was
  written and is neither the directory nor its parent.\<close>

definition emitEntry :: "('t, 'd, 'c) fuseEnv \<Rightarrow> nat \<Rightarrow> bool \<Rightarrow> nat \<Rightarrow> ('t, 'd, 'c) Goofys \<Rightarrow> ptr \<Rightarrow> ('t, 'd, 'c) Goofys \<times> Dirent \<times> nat" where
  "emitEntry X h opPlus room s e =
     (let dir = dh_inode (dirHandleHeap s h) in
      if opPlus then
        (let (s, inodeEntry) = fillEntry X s e;
             dirent = makeDirEntry s e (dh_lastExternalOffset (dirHandleHeap s h));
             n = fx_WriteDirentPlus X room inodeEntry dirent
         in if n = 0 then (s, dirent, 0)
            else (if e \<noteq> dir \<and> Some e \<noteq> i_Parent (heap s dir) then Ref s e else s, dirent, n))
      else
        (let dirent = makeDirEntry s e (dh_lastExternalOffset (dirHandleHeap s h))
         in (s, dirent, fx_WriteDirent X room dirent)))"

text \<open>The loop of \<open>ReadDir\<close>.  The entries written so far are collected; slicing the buffer past its
  end panics.\<close>

function readDir_loop :: "('t, 'd, 'c) fuseEnv \<Rightarrow> nat \<Rightarrow> bool \<Rightarrow> nat \<Rightarrow> ('t, 'd, 'c) Goofys \<Rightarrow> nat \<Rightarrow> Dirent list \<Rightarrow>
    (('t, 'd, 'c) Goofys \<times> Dirent list \<times> nat \<times> error option) option" where
  "readDir_loop X h opPlus len s bytesRead out =
     do {
       (s, r) \<leftarrow> ReadDir (fx_St X) (fx_E X) (fx_now X) (fx_other X) s h;
       case r of
         Inl e \<Rightarrow> Some (s, out, bytesRead, mapAwsError (Some e))
       | Inr None \<Rightarrow> Some (s, out, bytesRead, None)
       | Inr (Some e) \<Rightarrow>
           if bytesRead > len then None
           else
             case emitEntry X h opPlus (len - bytesRead) s e of
               (s, dirent, n) \<Rightarrow>
                 if n = 0 then Some (s, out, bytesRead, None)
                 else readDir_loop X h opPlus len (Next s h (de_Name dirent)) (bytesRead + n) (out @ [dirent])
     }"
  by pat_completeness auto
termination
  by (relation "measure (\<lambda>(X, h, opPlus, len, s, bytesRead, out). Suc len - bytesRead)") auto

declare readDir_loop.simps [simp del]

definition ReadDir_op :: "('t, 'd, 'c) fuseEnv \<Rightarrow> ('t, 'd, 'c) GoofysFuse \<Rightarrow> nat \<Rightarrow> u64 \<Rightarrow> bool \<Rightarrow> nat \<Rightarrow>
    (('t, 'd, 'c) GoofysFuse \<times> Dirent list \<times> nat \<times> error option) option" where
  "ReadDir_op X g handle offset opPlus len =
     do {
       h \<leftarrow> gf_dirHandles g handle;
       s \<leftarrow> Seek (gf_fs g) h offset;
       (s, out, bytesRead, err) \<leftarrow> readDir_loop X h opPlus len s 0 [];
       Some (g\<lparr>gf_fs := s\<rparr>, out, bytesRead, err)
     }"

definition ReleaseDirHandle :: "('t, 'd, 'c) GoofysFuse \<Rightarrow> nat \<Rightarrow> ('t, 'd, 'c) GoofysFuse option" where
  "ReleaseDirHandle g handle =
     do {
       h \<leftarrow> gf_dirHandles g handle;
       Some (g\<lparr>gf_fs := CloseDir (gf_fs g) h, gf_dirHandles := (gf_dirHandles g)(handle := None)\<rparr>)
     }"

section \<open>Flushing\<close>

text \<open>\<open>SyncTree\<close> takes the inodes it has to flush first and drops the errors of their flushes.\<close>

definition syncTreeIds :: "('t, 'd, 'c) fuseEnv \<Rightarrow> ('t, 'd, 'c) Goofys \<Rightarrow> ptr option \<Rightarrow> nat list" where
  "syncTreeIds X s parent =
     (let parent = (case parent of None \<Rightarrow> None | Some p \<Rightarrow> if i_Id (heap s p) = RootInodeID then None else Some p)
      in filter (\<lambda>k. case inodes s k of
                      None \<Rightarrow> False
                    | Some inode \<Rightarrow> (case parent of None \<Rightarrow> True | Some p \<Rightarrow> isParentOf s p inode)) (fx_order X s))"

fun syncTree_loop :: "('t, 'd, 'c) fuseEnv \<Rightarrow> nat list \<Rightarrow> ('t, 'd, 'c) Goofys \<Rightarrow> ('t, 'd, 'c) Goofys option" where
  "syncTree_loop X [] s = Some s"
| "syncTree_loop X (k # ks) s =
     (case inodes s k of
        None \<Rightarrow> syncTree_loop X ks s
      | Some inode \<Rightarrow> do {
          (s, _) \<leftarrow> SyncFile (fx_E X) (fx_now X) (fx_flush X) inode s;
          syncTree_loop X ks s
        })"

definition SyncTree :: "('t, 'd, 'c) fuseEnv \<Rightarrow> ('t, 'd, 'c) Goofys \<Rightarrow> ptr option \<Rightarrow> (('t, 'd, 'c) Goofys \<times> error option) option" where
  "SyncTree X s parent = map_option (\<lambda>s. (s, None)) (syncTree_loop X (syncTreeIds X s parent) s)"

definition SyncFile_op :: "('t, 'd, 'c) fuseEnv \<Rightarrow> ('t, 'd, 'c) Goofys \<Rightarrow> nat \<Rightarrow> (('t, 'd, 'c) Goofys \<times> error option) option" where
  "SyncFile_op X s opInode =
     (if \<not> f_IgnoreFsync (g_flags (fx_E X)) then
        do {
          inode \<leftarrow> getInodeOrDie s opInode;
          (s, err) \<leftarrow> (if i_Id (heap s inode) = RootInodeID then SyncTree X s None
                      else if isDir s inode then SyncTree X s (Some inode)
                      else SyncFile (fx_E X) (fx_now X) (fx_flush X) inode s);
          Some (s, mapAwsError err)
        }
      else Some (s, None))"

definition SyncFS :: "('t, 'd, 'c) fuseEnv \<Rightarrow> ('t, 'd, 'c) Goofys \<Rightarrow> (('t, 'd, 'c) Goofys \<times> error option) option" where
  "SyncFS X s =
     (if \<not> f_IgnoreFsync (g_flags (fx_E X)) then
        do {
          (s, err) \<leftarrow> SyncTree X s None;
          Some (s, mapAwsError err)
        }
      else Some (s, None))"

definition FlushFile :: "('t, 'd, 'c) Goofys \<Rightarrow> ('t, 'd, 'c) Goofys \<times> error option" where
  "FlushFile s = (s, None)"

section \<open>Files\<close>

definition OpenFile_op :: "('t, 'd, 'c) fuseEnv \<Rightarrow> ('t, 'd, 'c) GoofysFuse \<Rightarrow> nat \<Rightarrow>
    (('t, 'd, 'c) GoofysFuse \<times> (error + nat)) option" where
  "OpenFile_op X g opInode =
     do {
       inode \<leftarrow> getInodeOrDie (gf_fs g) opInode;
       if stale (gf_fs g) inode then Some (g, Inl (Errno ESTALE))
       else
         let (s, fh) = OpenFile (fx_E X) (gf_fs g) inode;
             (g, h) = AddFileHandle (g\<lparr>gf_fs := s\<rparr>) fh
         in Some (g, Inr h)
     }"

text \<open>The read tracking belongs to the handle, which the table points to.\<close>

definition ReadFile_op :: "('t, 'd, 'c) fuseEnv \<Rightarrow> ('t, 'd, 'c) GoofysFuse \<Rightarrow> nat \<Rightarrow> int \<Rightarrow> int \<Rightarrow>
    (('t, 'd, 'c) GoofysFuse \<times> byte list list \<times> u64 \<times> error option) option" where
  "ReadFile_op X g handle offset sz =
     do {
       fh \<leftarrow> gf_fileHandles g handle;
       (s, fh, data, n, err) \<leftarrow> ReadFile (fx_E X) (fx_os X) (fx_load X) (fx_sync X) (gf_fs g) fh offset sz;
       Some (g\<lparr>gf_fs := s, gf_fileHandles := (gf_fileHandles g)(handle \<mapsto> fh)\<rparr>, data, n, mapAwsError err)
     }"

text \<open>\<open>slack\<close> are the bytes of the request's buffer behind the data.  The library leaves room for a
  header, and a buffer with much more room than that is copied.\<close>

definition WriteFile_op :: "('t, 'd, 'c) fuseEnv \<Rightarrow> ('t, 'd, 'c) GoofysFuse \<Rightarrow> nat \<Rightarrow> int \<Rightarrow> byte list \<Rightarrow> byte list \<Rightarrow>
    (('t, 'd, 'c) GoofysFuse \<times> bool \<times> error option) option" where
  "WriteFile_op X g handle offset data slack =
     do {
       fh \<leftarrow> gf_fileHandles g handle;
       let copyData = (int (length data) < int (length data + length slack) - 4096);
       (s, err) \<leftarrow> WriteFile (fx_E X) (fx_os X) (fx_pause X) (fx_sync X) (fx_now X) (gf_fs g) (fst fh) offset data slack copyData;
       Some (g\<lparr>gf_fs := s\<rparr>, \<not> copyData, mapAwsError err)
     }"

definition ReleaseFileHandle :: "('t, 'd, 'c) fuseEnv \<Rightarrow> ('t, 'd, 'c) GoofysFuse \<Rightarrow> nat \<Rightarrow>
    (('t, 'd, 'c) GoofysFuse \<times> error option) option" where
  "ReleaseFileHandle X g handle =
     do {
       fh \<leftarrow> gf_fileHandles g handle;
       s \<leftarrow> Release (gf_fs g) (fst fh);
       let g = g\<lparr>gf_fs := s, gf_fileHandles := (gf_fileHandles g)(handle := None)\<rparr>;
       if f_FsyncOnClose (g_flags (fx_E X)) then do {
         (s, err) \<leftarrow> SyncFile (fx_E X) (fx_now X) (fx_flush X) (fst fh) (gf_fs g);
         Some (g\<lparr>gf_fs := s\<rparr>, err)
       }
       else Some (g, None)
     }"

section \<open>Creating and removing\<close>

definition CreateFile :: "('t, 'd, 'c) fuseEnv \<Rightarrow> ('t, 'd, 'c) GoofysFuse \<Rightarrow> nat \<Rightarrow> string \<Rightarrow> 32 word \<Rightarrow> nat \<Rightarrow> nat \<Rightarrow>
    (('t, 'd, 'c) GoofysFuse \<times> (error + ChildInodeEntry \<times> nat)) option" where
  "CreateFile X g opParent name mode uid gid =
     do {
       parent \<leftarrow> getInodeOrDie (gf_fs g) opParent;
       if stale (gf_fs g) parent then Some (g, Inl (Errno ESTALE))
       else do {
         (s, r) \<leftarrow> Create (fx_E X) (fx_now X) (gf_fs g) parent name;
         case r of
           Inl e \<Rightarrow> Some (g\<lparr>gf_fs := s\<rparr>, Inl e)
         | Inr (inode, fh) \<Rightarrow> do {
             (s, _) \<leftarrow> SetAttributes (fx_St X) (fx_E X) (fx_pause X) (fx_sync X) s inode None (Some mode) None (Some uid) (Some gid);
             let (s, entry) = fillEntry X s inode;
             let (g, h) = AddFileHandle (g\<lparr>gf_fs := s\<rparr>) fh;
             Some (g, Inr (entry, h))
           }
       }
     }"

text \<open>\<open>mkNodeInode\<close> is the part of \<open>MkNode\<close> that makes the inode: a directory, or a file whose handle is
  released at once.\<close>

definition mkNodeInode :: "('t, 'd, 'c) fuseEnv \<Rightarrow> ('t, 'd, 'c) Goofys \<Rightarrow> ptr \<Rightarrow> string \<Rightarrow> 32 word \<Rightarrow>
    (('t, 'd, 'c) Goofys \<times> (error + ptr)) option" where
  "mkNodeInode X s parent name mode =
     (if mode AND ModeDir \<noteq> 0 then do {
        (s, r) \<leftarrow> MkDir (fx_E X) (fx_now X) s parent name;
        Some (s, case r of Inl e \<Rightarrow> Inl (mapAwsError1 e) | Inr inode \<Rightarrow> Inr inode)
      }
      else do {
        (s, r) \<leftarrow> Create (fx_E X) (fx_now X) s parent name;
        case r of
          Inl e \<Rightarrow> Some (s, Inl (mapAwsError1 e))
        | Inr (inode, fh) \<Rightarrow> map_option (\<lambda>s. (s, Inr inode)) (Release s (fst fh))
      })"

definition MkNode :: "('t, 'd, 'c) fuseEnv \<Rightarrow> ('t, 'd, 'c) Goofys \<Rightarrow> nat \<Rightarrow> string \<Rightarrow> 32 word \<Rightarrow> nat \<Rightarrow> nat \<Rightarrow> nat \<Rightarrow>
    (('t, 'd, 'c) Goofys \<times> (error + ChildInodeEntry)) option" where
  "MkNode X s opParent name mode rdev uid gid =
     (if mode AND ModeType \<noteq> ModeDir \<and> mode AND ModeType \<noteq> 0 \<and> \<not> f_EnableSpecials (g_flags (fx_E X))
      then Some (s, Inl (Errno ENOTSUP))
      else do {
        parent \<leftarrow> getInodeOrDie s opParent;
        if stale s parent then Some (s, Inl (Errno ESTALE))
        else do {
          (s, r) \<leftarrow> mkNodeInode X s parent name mode;
          case r of
            Inl e \<Rightarrow> Some (s, Inl e)
          | Inr inode \<Rightarrow> do {
              let s = upd inode (\<lambda>i. i\<lparr>i_Attributes := (i_Attributes i)\<lparr>a_Rdev := rdev\<rparr>\<rparr>) s;
              (s, _) \<leftarrow> SetAttributes (fx_St X) (fx_E X) (fx_pause X) (fx_sync X) s inode None (Some mode) None (Some uid) (Some gid);
              let (s, entry) = fillEntry X s inode;
              if f_FsyncOnClose (g_flags (fx_E X)) then do {
                (s, err) \<leftarrow> SyncFile (fx_E X) (fx_now X) (fx_flush X) inode s;
                Some (s, case err of Some e \<Rightarrow> Inl (mapAwsError1 e) | None \<Rightarrow> Inr entry)
              }
              else Some (s, Inr entry)
            }
        }
      })"

definition MkDir_op :: "('t, 'd, 'c) fuseEnv \<Rightarrow> ('t, 'd, 'c) Goofys \<Rightarrow> nat \<Rightarrow> string \<Rightarrow> 32 word \<Rightarrow> nat \<Rightarrow> nat \<Rightarrow>
    (('t, 'd, 'c) Goofys \<times> (error + ChildInodeEntry)) option" where
  "MkDir_op X s opParent name mode uid gid =
     do {
       parent \<leftarrow> getInodeOrDie s opParent;
       if stale s parent then Some (s, Inl (Errno ESTALE))
       else do {
         (s, r) \<leftarrow> MkDir (fx_E X) (fx_now X) s parent name;
         case r of
           Inl e \<Rightarrow> Some (s, Inl (mapAwsError1 e))
         | Inr inode \<Rightarrow> do {
             let mode = (if f_EnablePerms (g_flags (fx_E X)) then ModeDir OR (mode AND ModePerm)
                         else ModeDir OR f_DirMode (g_flags (fx_E X)));
             let s = upd inode (\<lambda>i. i\<lparr>i_Attributes := (i_Attributes i)\<lparr>a_Mode := mode\<rparr>\<rparr>) s;
             (s, _) \<leftarrow> SetAttributes (fx_St X) (fx_E X) (fx_pause X) (fx_sync X) s inode None None None (Some uid) (Some gid);
             let (s, entry) = fillEntry X s inode;
             Some (s, Inr entry)
           }
       }
     }"

definition RmDir_op :: "('t, 'd, 'c) fuseEnv \<Rightarrow> ('t, 'd, 'c) Goofys \<Rightarrow> nat \<Rightarrow> string \<Rightarrow> (('t, 'd, 'c) Goofys \<times> error option) option" where
  "RmDir_op X s opParent name =
     do {
       parent \<leftarrow> getInodeOrDie s opParent;
       if stale s parent then Some (s, Some (Errno ESTALE))
       else do {
         (s, err) \<leftarrow> RmDir (fx_St X) (fx_E X) (fx_now X) (fx_other X) s parent name;
         Some (s, mapAwsError err)
       }
     }"

definition Unlink_op :: "('t, 'd, 'c) fuseEnv \<Rightarrow> ('t, 'd, 'c) Goofys \<Rightarrow> nat \<Rightarrow> string \<Rightarrow> (('t, 'd, 'c) Goofys \<times> error option) option" where
  "Unlink_op X s opParent name =
     do {
       parent \<leftarrow> getInodeOrDie s opParent;
       if stale s parent then Some (s, Some (Errno ESTALE))
       else do {
         s \<leftarrow> Unlink (fx_E X) s parent name;
         Some (s, None)
       }
     }"

definition Rename_op :: "('t, 'd, 'c) fuseEnv \<Rightarrow> ('t, 'd, 'c) Goofys \<Rightarrow> nat \<Rightarrow> string \<Rightarrow> nat \<Rightarrow> string \<Rightarrow>
    (('t, 'd, 'c) Goofys \<times> error option) option" where
  "Rename_op X s oldParent oldName newParent newName =
     do {
       parent \<leftarrow> getInodeOrDie s oldParent;
       newParent \<leftarrow> getInodeOrDie s newParent;
       if stale s parent \<or> stale s newParent then Some (s, Some (Errno ESTALE))
       else do {
         (s, err) \<leftarrow> Rename (fx_St X) (fx_E X) (fx_now X) (fx_other X) s parent oldName newParent newName;
         Some (s, mapAwsError err)
       }
     }"

section \<open>Allocation\<close>

definition FALLOC_FL_KEEP_SIZE :: "32 word" where
  "FALLOC_FL_KEEP_SIZE = 0x01"

definition FALLOC_FL_PUNCH_HOLE :: "32 word" where
  "FALLOC_FL_PUNCH_HOLE = 0x02"

definition FALLOC_FL_COLLAPSE_RANGE :: "32 word" where
  "FALLOC_FL_COLLAPSE_RANGE = 0x08"

definition FALLOC_FL_ZERO_RANGE :: "32 word" where
  "FALLOC_FL_ZERO_RANGE = 0x10"

definition FALLOC_FL_INSERT_RANGE :: "32 word" where
  "FALLOC_FL_INSERT_RANGE = 0x20"

text \<open>The first part of \<open>Fallocate\<close> under the lock: the file grows, or the range is cut to the file.\<close>

definition fallocRange :: "('t, 'd, 'c) gEnv \<Rightarrow> ('t, 'd, 'c) act \<Rightarrow> (('t, 'd, 'c) Goofys \<Rightarrow> ('t, 'd, 'c) Goofys \<times> error option) \<Rightarrow>
    ('t, 'd, 'c) Goofys \<Rightarrow> ptr \<Rightarrow> u64 \<Rightarrow> u64 \<Rightarrow> 32 word \<Rightarrow> (('t, 'd, 'c) Goofys \<times> (error + u64 \<times> u64 \<times> bool)) option" where
  "fallocRange E wait sync s inode offset len mode =
     (if add64 offset len > sizeOf s inode then
        (if mode AND FALLOC_FL_KEEP_SIZE = 0 then
           (if add64 offset len > getMaxFileSize (g_parts E) then Some (s, Inl (Errno EFBIG))
            else map_option (\<lambda>s. (s, Inr (offset, len, True))) (ResizeUnlocked E wait sync s inode (add64 offset len)))
         else
           let offset = (if offset > sizeOf s inode then sizeOf s inode else offset)
           in Some (s, Inr (offset, sub64 (sizeOf s inode) offset, False)))
      else Some (s, Inr (offset, len, False)))"

text \<open>\<open>Fallocate\<close> from the lock of the inode to its release.  The memory that \<open>ZeroRange\<close> frees is not
  returned to the pool.\<close>

definition fallocLocked :: "('t, 'd, 'c) gEnv \<Rightarrow> ('t, 'd, 'c) act \<Rightarrow> (('t, 'd, 'c) Goofys \<Rightarrow> ('t, 'd, 'c) Goofys \<times> error option) \<Rightarrow>
    ('t, 'd, 'c) Goofys \<Rightarrow> ptr \<Rightarrow> u64 \<Rightarrow> u64 \<Rightarrow> 32 word \<Rightarrow> (('t, 'd, 'c) Goofys \<times> error option) option" where
  "fallocLocked E wait sync s inode offset len mode =
     (if mode AND (FALLOC_FL_COLLAPSE_RANGE OR FALLOC_FL_INSERT_RANGE) \<noteq> 0 then Some (s, Some (Errno ENOTSUP))
      else do {
        (s, r) \<leftarrow> fallocRange E wait sync s inode offset len mode;
        case r of
          Inl e \<Rightarrow> Some (s, Some e)
        | Inr (offset, len, grown) \<Rightarrow> do {
            (s, chg) \<leftarrow> (if mode AND (FALLOC_FL_PUNCH_HOLE OR FALLOC_FL_ZERO_RANGE) \<noteq> 0
                        then withBuffers inode (\<lambda>l. map_option (\<lambda>(l, chg, _). (l, chg)) (ZeroRange (bufEnvOf E inode) l offset len)) s
                        else Some (s, False));
            Some (if (grown \<or> chg) \<and> i_CacheState (heap s inode) = ST_CACHED
                  then WakeupFlusher (SetCacheState E s inode ST_MODIFIED) else s, None)
          }
      })"

definition Fallocate :: "('t, 'd, 'c) fuseEnv \<Rightarrow> ('t, 'd, 'c) Goofys \<Rightarrow> nat \<Rightarrow> u64 \<Rightarrow> u64 \<Rightarrow> 32 word \<Rightarrow>
    (('t, 'd, 'c) Goofys \<times> error option) option" where
  "Fallocate X s opInode offset len mode =
     do {
       inode \<leftarrow> getInodeOrDie s opInode;
       if stale s inode then Some (s, Some (Errno ESTALE))
       else if len = 0 then Some (s, None)
       else fallocLocked (fx_E X) (fx_pause X) (fx_sync X) s inode offset len mode
     }"

section \<open>Mounting\<close>

definition splitOption :: "string \<Rightarrow> string \<times> string" where
  "splitOption p = (case go_index ''='' p of Some i \<Rightarrow> (take i p, drop (i + 1) p) | None \<Rightarrow> (p, []))"

definition convertFuseOptions :: "fuseFlags \<Rightarrow> string \<Rightarrow> string option" where
  "convertFuseOptions flags =
     (let optMap = fold (\<lambda>p m. let (k, v) = splitOption p in m(k \<mapsto> v)) (concat (map (go_split (CHR '','')) (f_MountOptions flags))) Map.empty;
          optMap = (if f_Setuid flags > 0 \<and> optMap ''user_id'' = None then optMap(''user_id'' \<mapsto> format_d (nat (f_Setuid flags))) else optMap);
          optMap = (if f_Setgid flags > 0 \<and> optMap ''group_id'' = None then optMap(''group_id'' \<mapsto> format_d (nat (f_Setgid flags))) else optMap)
      in optMap)"

text \<open>\<open>answers\<close> are the results of the calls of \<open>fuse.Unmount\<close>, one after the other.\<close>

fun tryUnmount_loop :: "nat \<Rightarrow> (nat \<Rightarrow> error option) \<Rightarrow> nat \<Rightarrow> error option \<Rightarrow> error option \<times> nat" where
  "tryUnmount_loop 0 answers i err = (err, i)"
| "tryUnmount_loop (Suc n) answers i err =
     (case answers i of
        Some e \<Rightarrow> tryUnmount_loop n answers (Suc i) (Some e)
      | None \<Rightarrow> (None, Suc i))"

definition TryUnmount :: "(nat \<Rightarrow> error option) \<Rightarrow> error option \<times> nat" where
  "TryUnmount answers = tryUnmount_loop 20 answers 0 None"

end
