(* ===== verification/File_World.thy ===== *)
theory File_World
  imports File_Sections Fuse
begin

text \<open>
  A file, the store and the goroutines that work on the file, as one system.  An event is a critical section of
  an operation or of a goroutine, or an answer of the store.  The goroutines interleave at every point where the
  code releases the lock of the inode; the model lets them interleave at some more points.
\<close>

type_synonym ('t, 'd, 'c) world = "('t, 'd, 'c) Goofys \<times> ghost"

datatype ('t, 'd, 'c) fileEvent =
    EWrite gotime u64 "byte list" "byte list" bool
  | ESize u64
  | EFalloc u64 u64 "32 word"
  | ELoad u64 u64 u64
  | EBlock BlobItemOutput u64 "byte list"
  | ELoadEnd u64 u64 "error option"
  | EEvict u64
  | EOther "('t, 'd, 'c) Goofys"
  | ETry gotime "ptr option" bool nat
  | EPartBegin nat
  | EPartLoaded nat "error option"
  | EPartAnswer gotime nat "error + string option"
  | ESmallBegin
  | ESmallLoaded "error option"
  | ESmallAnswer gotime "error + putOutput"
  | EMpuRequest
  | EMpuAnswer gotime "error + mpuState"
  | ECompBegin
  | ECopied nat string
  | ECopyEnd gotime "error option"
  | ECommitAnswer gotime "error + putOutput"
  | EMetaAnswer gotime "error option"

text \<open>The goroutines that a call of \<open>TryFlush\<close> starts.\<close>

fun addJob :: "u64 \<Rightarrow> flushJob \<Rightarrow> ghost \<Rightarrow> ghost" where
  "addJob sz (PartJob i off n prio) h = h\<lparr>h_up := (h_up h)(i \<mapsto> PartStart prio)\<rparr>"
| "addJob sz SmallJob h = h\<lparr>h_ex := Some SmallStart\<rparr>"
| "addJob sz (StartMultipartJob c key) h = h\<lparr>h_ex := Some (MpuStart c key)\<rparr>"
| "addJob sz CompleteJob h = h\<lparr>h_ex := Some (CompStart sz)\<rparr>"
| "addJob sz (MetaJob j) h = h\<lparr>h_ex := Some (MetaUpdating j)\<rparr>"
| "addJob sz _ h = h"

text \<open>The end of the goroutine of a part, and its request.\<close>

definition partEnds :: "('t, 'd, 'c) gEnv \<Rightarrow> ptr \<Rightarrow> nat \<Rightarrow> nat \<Rightarrow> ('t, 'd, 'c) world \<Rightarrow> ('t, 'd, 'c) world option" where
  "partEnds E p i prio = (\<lambda>(s, h).
     do {
       (off, full) \<leftarrow> partRange (g_parts E) i;
       Some (goFlushPart_end p off full prio s, h\<lparr>h_up := (h_up h)(i := None)\<rparr>)
     })"

definition partSends :: "('t, 'd, 'c) gEnv \<Rightarrow> ptr \<Rightarrow> nat \<Rightarrow> nat \<Rightarrow> nat option \<Rightarrow> u64 \<Rightarrow> ('t, 'd, 'c) world \<Rightarrow> ('t, 'd, 'c) world option" where
  "partSends E p i prio c n = (\<lambda>(s, h).
     do {
       (off, full) \<leftarrow> partRange (g_parts E) i;
       (s, job) \<leftarrow> flushPart_add E c s p i off n full;
       (case job of
          None \<Rightarrow> partEnds E p i prio (s, h)
        | Some job \<Rightarrow> Some (s, h\<lparr>h_up := (h_up h)(i \<mapsto> PartAdding prio job)\<rparr>))
     })"

definition exEnds :: "('t, 'd, 'c) gEnv \<Rightarrow> ptr \<Rightarrow> ('t, 'd, 'c) world \<Rightarrow> ('t, 'd, 'c) world" where
  "exEnds E p = (\<lambda>(s, h). (endFlush (f_MaxParallelParts (g_flags E)) p s, h\<lparr>h_ex := None\<rparr>))"

definition smallSends :: "('t, 'd, 'c) gEnv \<Rightarrow> ptr \<Rightarrow> u64 \<Rightarrow> ('t, 'd, 'c) world \<Rightarrow> ('t, 'd, 'c) world option" where
  "smallSends E p sz = (\<lambda>(s, h).
     do {
       (s, job) \<leftarrow> flushSmall_put E s p sz;
       Some (s, h\<lparr>h_ex := map_option SmallPutting job\<rparr>)
     })"

text \<open>The modes of \<open>Fallocate\<close>: the file may grow, and the range is filled with zeroes.\<close>

definition extends :: "32 word \<Rightarrow> bool" where
  "extends mode \<longleftrightarrow> mode AND FALLOC_FL_KEEP_SIZE = 0"

definition zeroes :: "32 word \<Rightarrow> bool" where
  "zeroes mode \<longleftrightarrow> mode AND (FALLOC_FL_PUNCH_HOLE OR FALLOC_FL_ZERO_RANGE) \<noteq> 0"

fun fileExec :: "osFile \<Rightarrow> ('t, 'd, 'c) act \<Rightarrow> (('t, 'd, 'c) Goofys \<Rightarrow> ('t, 'd, 'c) Goofys \<times> error option) \<Rightarrow> store \<Rightarrow> ('t, 'd, 'c) gEnv \<Rightarrow> ptr \<Rightarrow>
    ('t, 'd, 'c) fileEvent \<Rightarrow> ('t, 'd, 'c) world \<Rightarrow> ('t, 'd, 'c) world option" where
  "fileExec os wait sync St E p (EWrite now off data slack cp) (s, h) =
     map_option (\<lambda>(s', _). (s', h\<lparr>h_content := \<lambda>x. if off \<le> x \<and> x < off + length data then data ! (x - off)
                                                  else if x < sizeOf s p then h_content h x else 0\<rparr>))
       (WriteFile_section E wait sync now s p off data slack cp)"
| "fileExec os wait sync St E p (ESize n) (s, h) =
     map_option (\<lambda>(s', _). (s', h\<lparr>h_content := \<lambda>x. if x < sizeOf s p then h_content h x else 0\<rparr>))
       (SetAttributes St E wait sync s p (Some n) None None None None)"
| "fileExec os wait sync St E p (EFalloc off len mode) (s, h) =
     map_option (\<lambda>(s', _). (s', h\<lparr>h_content := \<lambda>x. if zeroes mode \<and> off \<le> x \<and> x < off + len then 0
                                                  else if x < sizeOf s p then h_content h x else 0\<rparr>))
       (fallocLocked E wait sync s p off len mode)"
| "fileExec os wait sync St E p (ELoad off sz ra) (s, h) = map_option (\<lambda>(s, _). (s, h)) (LoadRange_begin E os wait s p off sz ra)"
| "fileExec os wait sync St E p (EBlock resp off data) (s, h) = map_option (\<lambda>(s, _). (s, h)) (sendRead_block E s p resp off data)"
| "fileExec os wait sync St E p (ELoadEnd off sz err) (s, h) = map_option (\<lambda>s. (s, h)) (retryRead_end E s p off sz err)"
| "fileExec os wait sync St E p (EEvict e) (s, h) = map_option (\<lambda>(s, _). (s, h)) (evictBuffer E os s p e)"
| "fileExec os wait sync St E p (EOther s') (s, h) = Some (s', h)"
| "fileExec os wait sync St E p (ETry now parent over prio) (s, h) =
     map_option (\<lambda>(s', jobs). (s', fold (addJob (sizeOf s p)) jobs h)) (TryFlush_section E now s p parent over prio)"
| "fileExec os wait sync St E p (EPartBegin i) (s, h) =
     (case h_up h i of
        Some (PartStart prio) \<Rightarrow> do {
          (off, full) \<leftarrow> partRange (g_parts E) i;
          let c = fst (objectKey E s p);
          let n = cutPart s p off full;
          if i_CacheState (heap s p) = ST_MODIFIED then do {
            (s, _) \<leftarrow> LoadRange_begin E os wait s p off n 0;
            Some (s, h\<lparr>h_up := (h_up h)(i \<mapsto> PartLoading prio c n)\<rparr>)
          }
          else partSends E p i prio c n (s, h)
        }
      | _ \<Rightarrow> Some (s, h))"
| "fileExec os wait sync St E p (EPartLoaded i err) (s, h) =
     (case h_up h i of
        Some (PartLoading prio c n) \<Rightarrow> do {
          (off, full) \<leftarrow> partRange (g_parts E) i;
          (s, r) \<leftarrow> flushPart_loaded E s p off n err;
          (case r of None \<Rightarrow> partEnds E p i prio (s, h) | Some n \<Rightarrow> partSends E p i prio c n (s, h))
        }
      | _ \<Rightarrow> Some (s, h))"
| "fileExec os wait sync St E p (EPartAnswer now i answer) (s, h) =
     (case h_up h i of
        Some (PartAdding prio job) \<Rightarrow> do {
          s \<leftarrow> flushPart_done E now s p job answer;
          partEnds E p i prio
            (s, case answer of Inl _ \<Rightarrow> h | Inr _ \<Rightarrow> h\<lparr>h_parts := (h_parts h)(i := mr_bytes (aj_body job))\<rparr>)
        }
      | _ \<Rightarrow> Some (s, h))"
| "fileExec os wait sync St E p ESmallBegin (s, h) =
     (case h_ex h of
        Some SmallStart \<Rightarrow>
          (case flushSmall_begin E s p of
             (s, None) \<Rightarrow> Some (s, h\<lparr>h_ex := None\<rparr>)
           | (s, Some sz) \<Rightarrow>
               if i_CacheState (heap s p) = ST_MODIFIED
               then map_option (\<lambda>(s, _). (s, h\<lparr>h_ex := Some (SmallLoading sz)\<rparr>)) (LoadRange_begin E os wait s p 0 sz 0)
               else smallSends E p sz (s, h))
      | _ \<Rightarrow> Some (s, h))"
| "fileExec os wait sync St E p (ESmallLoaded err) (s, h) =
     (case h_ex h of
        Some (SmallLoading sz) \<Rightarrow> do {
          (s, more) \<leftarrow> flushSmall_loaded E s p err;
          if more then smallSends E p sz (s, h) else Some (s, h\<lparr>h_ex := None\<rparr>)
        }
      | _ \<Rightarrow> Some (s, h))"
| "fileExec os wait sync St E p (ESmallAnswer now answer) (s, h) =
     (case h_ex h of
        Some (SmallPutting job) \<Rightarrow>
          map_option (\<lambda>s. (s, h\<lparr>h_obj := (case answer of Inl _ \<Rightarrow> h_obj h | Inr _ \<Rightarrow> mr_bytes (pj_body job)), h_ex := None\<rparr>))
            (flushSmall_done E now s p job answer)
      | _ \<Rightarrow> Some (s, h))"
| "fileExec os wait sync St E p EMpuRequest (s, h) =
     (case h_ex h of
        Some (MpuStart c key) \<Rightarrow> Some (fst (beginMultipart_request E s p c key), h\<lparr>h_ex := Some MpuBeginning\<rparr>)
      | _ \<Rightarrow> Some (s, h))"
| "fileExec os wait sync St E p (EMpuAnswer now answer) (s, h) =
     (case h_ex h of
        Some MpuBeginning \<Rightarrow> Some (exEnds E p (beginMultipart_done now s p answer, h))
      | _ \<Rightarrow> Some (s, h))"
| "fileExec os wait sync St E p ECompBegin (s, h) =
     (case h_ex h of
        Some (CompStart sz) \<Rightarrow>
          (case i_mpu (heap s p) of
             None \<Rightarrow> Some (exEnds E p (s, h))
           | Some mpu \<Rightarrow> do {
               n \<leftarrow> numParts (g_parts E) (sizeOf s p);
               ranges \<leftarrow> copyRanges (g_parts E) (mul64 (mul64 (f_MaxMergeCopyMB (g_flags E)) 1024) 1024) (sizeOf s p) (mpu_Parts mpu) n;
               Some (s, h\<lparr>h_ex := Some (Copying (sizeOf s p) n (fst (objectKey E s p)) (snd (objectKey E s p)) mpu ranges)\<rparr>)
             })
      | _ \<Rightarrow> Some (s, h))"
| "fileExec os wait sync St E p (ECopied k pid) (s, h) =
     (case h_ex h of
        Some (Copying sz n c key mpu rs) \<Rightarrow>
          if k < length rs then
            (let (i, off, len) = rs ! k in do {
               s \<leftarrow> copyPart_done s p \<lparr>yj_cloud = c, yj_mpu = mpu, yj_part = i, yj_source = key, yj_offset = off, yj_size = len\<rparr> (Some pid);
               Some (s, h\<lparr>h_parts := (h_parts h)(i := take len (drop off (h_obj h))), h_ex := Some (Copying sz n c key mpu (remove1 (i, off, len) rs))\<rparr>)
             })
          else Some (s, h)
      | _ \<Rightarrow> Some (s, h))"
| "fileExec os wait sync St E p (ECopyEnd now err) (s, h) =
     (case h_ex h of
        Some (Copying sz n c key mpu rs) \<Rightarrow> do {
          (s, more) \<leftarrow> complete_copied E now s p err;
          if more then do {
            (s, job) \<leftarrow> commit_request E s p n sz;
            Some (s, h\<lparr>h_ex := Some (Committing job)\<rparr>)
          }
          else Some (exEnds E p (s, h))
        }
      | _ \<Rightarrow> Some (s, h))"
| "fileExec os wait sync St E p (ECommitAnswer now answer) (s, h) =
     (case h_ex h of
        Some (Committing job) \<Rightarrow> do {
          s \<leftarrow> commit_done E now s p job answer;
          Some (exEnds E p (s, case answer of Inl _ \<Rightarrow> h | Inr _ \<Rightarrow> h\<lparr>h_obj := concat (map (h_parts h) [0..<mpu_NumParts (cj_mpu job)])\<rparr>))
        }
      | _ \<Rightarrow> Some (s, h))"
| "fileExec os wait sync St E p (EMetaAnswer now err) (s, h) =
     (case h_ex h of
        Some (MetaUpdating job) \<Rightarrow> map_option (\<lambda>s. (s, h\<lparr>h_ex := None\<rparr>)) (updateMeta_done E now s p job err)
      | _ \<Rightarrow> Some (s, h))"

section \<open>Which events can happen\<close>

text \<open>
  The configuration: nothing is evicted to a disk cache, objects are not patched in place, parts are copied one by
  one, there is a limit on the parallel parts, and sizes are far from \<open>2^64\<close>.
\<close>

definition fileEnv :: "('t, 'd, 'c) gEnv \<Rightarrow> bool" where
  "fileEnv E \<longleftrightarrow> f_CachePath (g_flags E) = [] \<and> \<not> f_UsePatch (g_flags E) \<and> f_MaxMergeCopyMB (g_flags E) = 0 \<and>
     1 \<le> f_MaxParallelParts (g_flags E) \<and> loadOk E 0 \<and> maxSize E + 1 < u64_max \<and> length (part_lens (g_parts E)) < 2 ^ 32"

text \<open>Everything else that happens to the inode: other reads lock and unlock ranges, writers pause, the metadata is changed.\<close>

definition otherChange :: "fview \<Rightarrow> fview \<Rightarrow> bool" where
  "otherChange v v' \<longleftrightarrow> v_pos v' = v_pos v \<and> vids v v' \<and> v_size v' = v_size v \<and> v_known v' = v_known v \<and> v_last v' = v_last v \<and>
     v_mpu v' = v_mpu v \<and> v_flushing v' = v_flushing v \<and> filter rr_Flushing (v_ranges v') = filter rr_Flushing (v_ranges v) \<and>
     (v_st v' = v_st v \<or> v_st v = ST_CACHED \<and> v_st v' = ST_MODIFIED)"

text \<open>
  A write, an allocation and a change of the size start when no writer is told to wait, and an allocation does not
  collapse or insert a range.  The file is made shorter when nothing
  above the new size is being uploaded or was uploaded.  A block is a piece of the stored object.  No other
  client writes the object, so no answer is a conflict; a successful answer carries what the protocol promises.
  The object is completed at the size for which the completion was started.
\<close>

fun fileValid :: "('t, 'd, 'c) gEnv \<Rightarrow> ptr \<Rightarrow> ('t, 'd, 'c) fileEvent \<Rightarrow> ('t, 'd, 'c) world \<Rightarrow> bool" where
  "fileValid E p (EWrite now off data slack cp) (s, h) \<longleftrightarrow> data \<noteq> [] \<and> off + length data \<le> maxSize E \<and> i_pauseWriters (heap s p) \<le> 0"
| "fileValid E p (ESize n) (s, h) \<longleftrightarrow> n \<le> maxSize E \<and> i_pauseWriters (heap s p) \<le> 0 \<and> i_Parent (heap s p) \<noteq> None \<and>
     (n < sizeOf s p \<longrightarrow> \<not> resizeBlocked E s p n \<and> (\<forall>i < length (part_lens (g_parts E)). recorded (view E s p) i \<longrightarrow> part_start (g_parts E) i + length (h_parts h i) \<le> n) \<and>
        (\<forall>sz. exSize (h_ex h) = Some sz \<longrightarrow> sz \<le> n))"
| "fileValid E p (EFalloc off len mode) (s, h) \<longleftrightarrow> off + len < u64_max \<and> (extends mode \<longrightarrow> off + len \<le> maxSize E) \<and>
     i_pauseWriters (heap s p) \<le> 0 \<and> mode AND (FALLOC_FL_COLLAPSE_RANGE OR FALLOC_FL_INSERT_RANGE) = 0"
| "fileValid E p (ELoad off sz ra) (s, h) \<longleftrightarrow> (sizeOf s p \<le> off \<or> 0 < sz \<or> 0 < ra) \<and> off + sz < u64_max \<and> loadOk E ra"
| "fileValid E p (EBlock resp off data) (s, h) \<longleftrightarrow> data \<noteq> [] \<and> off + length data \<le> length (h_obj h) \<and> data = take (length data) (drop off (h_obj h))"
| "fileValid E p (ELoadEnd off sz err) (s, h) \<longleftrightarrow> 0 < sz \<and> off + sz < u64_max"
| "fileValid E p (EOther s') (s, h) \<longleftrightarrow> fok E s' p \<and> otherChange (view E s p) (view E s' p)"
| "fileValid E p (EPartLoaded i err) (s, h) \<longleftrightarrow> \<not> conflict err"
| "fileValid E p (EPartAnswer now i answer) (s, h) \<longleftrightarrow>
     (case answer of Inl e \<Rightarrow> mapAwsError (Some e) \<noteq> Some (Errno ENOENT) | Inr pid \<Rightarrow> pid \<noteq> None)"
| "fileValid E p (ESmallLoaded err) (s, h) \<longleftrightarrow> \<not> conflict err"
| "fileValid E p (ESmallAnswer now answer) (s, h) \<longleftrightarrow> (case answer of Inl _ \<Rightarrow> True | Inr out \<Rightarrow> po_ETag out \<noteq> None)"
| "fileValid E p (EMpuAnswer now answer) (s, h) \<longleftrightarrow>
     (case answer of Inl _ \<Rightarrow> True | Inr m \<Rightarrow> length (part_lens (g_parts E)) \<le> length (mpu_Parts m) \<and> list_all (\<lambda>q. q = None) (mpu_Parts m))"
| "fileValid E p ECompBegin (s, h) \<longleftrightarrow> (\<forall>sz. h_ex h = Some (CompStart sz) \<longrightarrow> sizeOf s p = sz)"
| "fileValid E p (ECopyEnd now err) (s, h) \<longleftrightarrow> \<not> conflict err \<and>
     (err = None \<longrightarrow> (case h_ex h of Some (Copying sz n c key mpu rs) \<Rightarrow> rs = [] | _ \<Rightarrow> True))"
| "fileValid E p (ECommitAnswer now answer) (s, h) \<longleftrightarrow> (case answer of Inl _ \<Rightarrow> True | Inr out \<Rightarrow> po_ETag out \<noteq> None)"
| "fileValid E p (EMetaAnswer now err) (s, h) \<longleftrightarrow> \<not> conflict err"
| "fileValid E p _ (s, h) \<longleftrightarrow> True"

text \<open>Running a list of events, and that each is possible when it happens.\<close>

fun fileRun :: "osFile \<Rightarrow> ('t, 'd, 'c) act \<Rightarrow> (('t, 'd, 'c) Goofys \<Rightarrow> ('t, 'd, 'c) Goofys \<times> error option) \<Rightarrow> store \<Rightarrow> ('t, 'd, 'c) gEnv \<Rightarrow> ptr \<Rightarrow>
    ('t, 'd, 'c) fileEvent list \<Rightarrow> ('t, 'd, 'c) world \<Rightarrow> ('t, 'd, 'c) world option" where
  "fileRun os wait sync St E p [] w = Some w"
| "fileRun os wait sync St E p (ev # evs) w = Option.bind (fileExec os wait sync St E p ev w) (fileRun os wait sync St E p evs)"

fun fileValids :: "osFile \<Rightarrow> ('t, 'd, 'c) act \<Rightarrow> (('t, 'd, 'c) Goofys \<Rightarrow> ('t, 'd, 'c) Goofys \<times> error option) \<Rightarrow> store \<Rightarrow> ('t, 'd, 'c) gEnv \<Rightarrow> ptr \<Rightarrow>
    ('t, 'd, 'c) fileEvent list \<Rightarrow> ('t, 'd, 'c) world \<Rightarrow> bool" where
  "fileValids os wait sync St E p [] w \<longleftrightarrow> True"
| "fileValids os wait sync St E p (ev # evs) w \<longleftrightarrow> fileValid E p ev w \<and>
     (case fileExec os wait sync St E p ev w of None \<Rightarrow> True | Some w' \<Rightarrow> fileValids os wait sync St E p evs w')"

section \<open>What a file promises\<close>

text \<open>A file is a list of bytes.  A write past its end and a larger size fill the gap with zeroes; an allocation
  extends the file with zeroes or replaces a range by zeroes; nothing else changes it.\<close>

fun fileSpec :: "('t, 'd, 'c) fileEvent \<Rightarrow> byte list \<Rightarrow> byte list" where
  "fileSpec (EWrite now off data slack cp) F = take off (F @ replicate (off - length F) 0) @ data @ drop (off + length data) F"
| "fileSpec (ESize n) F = take n F @ replicate (n - length F) 0"
| "fileSpec (EFalloc off len mode) F =
     (let G = (if extends mode then F @ replicate (off + len - length F) 0 else F)
      in if zeroes mode then take off G @ replicate (min len (length G - off)) 0 @ drop (off + len) G else G)"
| "fileSpec _ F = F"

definition fileBytes :: "ptr \<Rightarrow> ('t, 'd, 'c) world \<Rightarrow> byte list" where
  "fileBytes p = (\<lambda>(s, h). map (h_content h) [0..<sizeOf s p])"

text \<open>The file when its inode is looked up or created: nothing is cached, the object holds its bytes.\<close>

definition freshFile :: "('t, 'd, 'c) gEnv \<Rightarrow> ptr \<Rightarrow> byte list \<Rightarrow> ('t, 'd, 'c) Goofys \<Rightarrow> bool" where
  "freshFile E p F s \<longleftrightarrow> fok E s p \<and> (\<forall>x. v_pos (view E s p) x = Absent) \<and> sizeOf s p = length F \<and> i_knownSize (heap s p) = length F \<and>
     length F \<le> maxSize E \<and> i_lastWriteEnd (heap s p) = 0 \<and> (i_CacheState (heap s p) = ST_CACHED \<or> i_CacheState (heap s p) = ST_CREATED) \<and>
     i_mpu (heap s p) = None \<and> i_IsFlushing (heap s p) = 0 \<and> list_all (\<lambda>r. \<not> rr_Flushing r) (i_readRanges (heap s p))"

definition freshGhost :: "byte list \<Rightarrow> ghost" where
  "freshGhost F = \<lparr>h_content = \<lambda>x. if x < length F then F ! x else 0, h_obj = F, h_parts = \<lambda>_. [], h_up = Map.empty, h_ex = None\<rparr>"

end
