(* ===== verification/File_Steps.thy ===== *)
theory File_Steps
  imports File_World
begin

text \<open>
  Every event keeps the invariant of the file and its bytes, except a write and a change of the size, which change
  the bytes as promised.
\<close>

definition winv :: "('t, 'd, 'c) gEnv \<Rightarrow> ptr \<Rightarrow> ('t, 'd, 'c) world \<Rightarrow> bool" where
  "winv E p = (\<lambda>(s, h). fok E s p \<and> vinv (g_parts E) (f_MaxParallelParts (g_flags E)) (view E s p) h)"

text \<open>An event that leaves the bytes alone.\<close>

definition keeps :: "('t, 'd, 'c) gEnv \<Rightarrow> ptr \<Rightarrow> ('t, 'd, 'c) world \<Rightarrow> ('t, 'd, 'c) world option \<Rightarrow> bool" where
  "keeps E p w r \<longleftrightarrow> (\<exists>w'. r = Some w' \<and> winv E p w' \<and> sizeOf (fst w') p = sizeOf (fst w) p \<and> h_content (snd w') = h_content (snd w))"

lemma keepsI:
  assumes "r = Some (s', h')" "fok E s' p" "vinv (g_parts E) (f_MaxParallelParts (g_flags E)) (view E s' p) h'"
    "v_size (view E s' p) = v_size (view E s p)" "h_content h' = h_content h"
  shows "keeps E p (s, h) r"
  using assms by (auto simp: keeps_def winv_def view_sel)

lemma keeps_Some:
  "keeps E p (s, h) (Some (s', h')) \<longleftrightarrow> fok E s' p \<and> vinv (g_parts E) (f_MaxParallelParts (g_flags E)) (view E s' p) h' \<and>
     v_size (view E s' p) = v_size (view E s p) \<and> h_content h' = h_content h"
  by (simp add: keeps_def winv_def view_sel)

lemma keeps_id: "winv E p w \<Longrightarrow> keeps E p w (Some w)"
  by (simp add: keeps_def)

lemma keeps_trans: "keeps E p w' r \<Longrightarrow> sizeOf (fst w') p = sizeOf (fst w) p \<Longrightarrow> h_content (snd w') = h_content (snd w) \<Longrightarrow> keeps E p w r"
  by (simp add: keeps_def)

lemma fok_parts: "fok E s p \<Longrightarrow> parts_ok (g_parts E)"
  by (simp add: fok_def env_ok_def)

lemma fok_didOk: "fok E s p \<Longrightarrow> didOk (view E s p)"
  using view_dirty [of E s p] by (simp add: didOk_def)

lemma partRange_start:
  assumes "parts_ok ps" "i < length (part_lens ps)"
  shows "partRange ps i = Some (part_start ps i, part_lens ps ! i)"
  using partRange_cases [OF assms(1), of i] assms by (simp add: parts_ok_def)

section \<open>Events that keep the cached data\<close>

text \<open>Ranges that are not locked for an upload come and go; a metadata change makes the file modified.\<close>

lemma vinv_other:
  assumes inv: "vinv ps M v h" and pos: "parts_ok ps" and v': "otherChange v v'"
  shows "vinv ps M v' h"
proof (rule vinv_evolve [OF inv, where C' = "h_content h"])
  note D = vinvD [OF inv]
  have e: "v_mpu v' = v_mpu v" "v_known v' = v_known v" "v_flushing v' = v_flushing v" "v_pos v' = v_pos v"
    "v_size v' = v_size v" "v_last v' = v_last v" and st: "v_st v' = v_st v \<or> v_st v = ST_CACHED \<and> v_st v' = ST_MODIFIED"
    using v' by (auto simp: otherChange_def)
  show "v_mpu v' = v_mpu v" "v_known v' = v_known v" "v_flushing v' = v_flushing v" by (simp_all add: e)
  show "filter rr_Flushing (v_ranges v') = filter rr_Flushing (v_ranges v)" "vids v v'" using v' by (simp_all add: otherChange_def)
  show "h = h\<lparr>h_content := h_content h\<rparr>" "parts_ok ps" by (simp_all add: pos)
  show "v_size v' \<le> getMaxFileSize ps" "v_last v' \<le> getMaxFileSize ps" "v_st v' = ST_CACHED \<or> uploading (v_st v')"
    using D(1) st by (auto simp: e sizesOk_def uploading_def)
  show "uploading (v_st v) \<longrightarrow> uploading (v_st v')" using st by (auto simp: uploading_def)
  show "cachedOk v'" using D(4) st by (auto simp: e cachedOk_def)
  have "uploaded ps v' = uploaded ps v" by (simp add: uploaded_def recorded_def e fun_eq_iff)
  then show "cellOk ps v' h x (v_pos v' x)" for x unfolding e by (intro cellOk_mono [OF D(2)]) (simp_all add: e)
qed (use v' in \<open>simp_all add: otherChange_def\<close>)

lemma winv_other:
  assumes w: "winv E p (s, h)" and o: "fok E s' p" "otherChange (view E s p) (view E s' p)"
  shows "winv E p (s', h)" "sizeOf s' p = sizeOf s p"
proof -
  show "winv E p (s', h)" using w o vinv_other [OF _ fok_parts [OF o(1)] o(2)] by (auto simp: winv_def)
  show "sizeOf s' p = sizeOf s p" using o(2) by (simp add: otherChange_def view_sel)
qed

lemma effect_other: "effect E s p (v_pos (view E s p)) s' \<Longrightarrow> fok E s' p \<and> otherChange (view E s p) (view E s' p)"
  by (auto simp: effect_def otherChange_def)

lemma winv_effect:
  assumes "winv E p (s, h)" "effect E s p (v_pos (view E s p)) s'"
  shows "winv E p (s', h)" "sizeOf s' p = sizeOf s p"
  using winv_other [OF assms(1)] effect_other [OF assms(2)] by blast+

lemma UnlockRange_flushing: "filter rr_Flushing (UnlockRange off sz False rs) = filter rr_Flushing rs"
  by (induction rs) auto

lemma winvD:
  assumes "winv E p (s, h)"
  shows "fok E s p" "parts_ok (g_parts E)" "vinv (g_parts E) (f_MaxParallelParts (g_flags E)) (view E s p) h" "didOk (view E s p)"
    "v_size (view E s p) \<le> maxSize E" "v_known (view E s p) \<le> maxSize E" "maxSize E < u64_max"
    "x < v_size (view E s p) \<Longrightarrow> v_pos (view E s p) x = Absent \<Longrightarrow> x < v_known (view E s p)"
proof -
  show f: "fok E s p" and v: "vinv (g_parts E) (f_MaxParallelParts (g_flags E)) (view E s p) h" using assms by (simp_all add: winv_def)
  show "parts_ok (g_parts E)" "didOk (view E s p)" "maxSize E < u64_max" using fok_parts [OF f] fok_didOk [OF f] fokD(4) [OF f] by simp_all
  show "v_size (view E s p) \<le> maxSize E" "v_known (view E s p) \<le> maxSize E" using vinvD(1) [OF v] by (simp_all add: sizesOk_def)
  show "x < v_known (view E s p)" if "x < v_size (view E s p)" "v_pos (view E s p) x = Absent"
    using vinvD(1) [OF v] vinvD(2) [OF v, of x] that by (simp add: sizesOk_def onServer_def)
qed

lemma winv_load:
  assumes "fileEnv E" "winv E p (s, h)" "sizeOf s p \<le> off \<or> 0 < sz \<or> 0 < ra" "off + sz < u64_max" "loadOk E ra"
  obtains s' r D c where "LoadRange_begin E os wait s p off sz ra = Some (s', r)" "effect E s p (v_pos (view E s p)) s'" "winv E p (s', h)"
    "view E s' p = (view E s p)\<lparr>v_did := D, v_cur := c\<rparr>"
proof -
  note W = winvD [OF assms(2)]
  have c: "f_CachePath (g_flags E) = []" using assms(1) by (simp add: fileEnv_def)
  have "\<exists>s' r. LoadRange_begin E os wait s p off sz ra = Some (s', r) \<and> effect E s p (v_pos (view E s p)) s'"
    by (rule LoadRange_begin_view [OF W(1) c assms(5) _ assms(4) W(5,6) W(8)]) (use assms(3) in \<open>simp_all add: view_sel\<close>)
  then obtain s' r where s': "LoadRange_begin E os wait s p off sz ra = Some (s', r)" "effect E s p (v_pos (view E s p)) s'" by blast
  obtain D c where "view E s' p = (view E s p)\<lparr>v_pos := v_pos (view E s p), v_did := D, v_cur := c\<rparr>" using effectD(4) [OF s'(2)] by blast
  then have "view E s' p = (view E s p)\<lparr>v_did := D, v_cur := c\<rparr>" by simp
  then show ?thesis by (rule that [OF s' winv_effect(1) [OF assms(2) s'(2)]])
qed

lemma step_ELoad:
  assumes "fileEnv E" "winv E p (s, h)" "fileValid E p (ELoad off sz ra) (s, h)"
  shows "keeps E p (s, h) (fileExec os wait sync St E p (ELoad off sz ra) (s, h))"
proof -
  have v: "sizeOf s p \<le> off \<or> 0 < sz \<or> 0 < ra" "off + sz < u64_max" "loadOk E ra" using assms(3) by simp_all
  obtain s' r where s': "LoadRange_begin E os wait s p off sz ra = Some (s', r)" "effect E s p (v_pos (view E s p)) s'"
    by (rule winv_load [OF assms(1,2) v])
  then show ?thesis using winv_effect [OF assms(2) s'(2)] by (simp add: keeps_def)
qed

lemma step_EBlock:
  assumes w: "winv E p (s, h)" and v: "fileValid E p (EBlock resp off data) (s, h)"
  shows "keeps E p (s, h) (fileExec os wait sync St E p (EBlock resp off data) (s, h))"
proof -
  note W = winvD [OF w] and D = vinvD [OF winvD(3) [OF w]]
  let ?v = "view E s p" and ?q = "loaded off data (v_pos (view E s p))"
  have len: "length (h_obj h) = v_known ?v" using D(1) by (simp add: sizesOk_def)
  then have d: "data \<noteq> []" "off + length data \<le> maxSize E" using v W(6) by auto
  have byte: "data ! (x - off) = h_obj h ! x" if "off \<le> x" "x < off + length data" for x
  proof -
    have n: "take n (drop off (h_obj h)) ! (x - off) = h_obj h ! x" if "off \<le> x" "x < off + n" "off + n \<le> length (h_obj h)" for n using that by simp
    have "off + length data \<le> length (h_obj h)" using v by simp
    then have "take (length data) (drop off (h_obj h)) ! (x - off) = h_obj h ! x" by (rule n [OF that])
    moreover have "take (length data) (drop off (h_obj h)) = data" using v by (metis fileValid.simps(5))
    ultimately show ?thesis by simp
  qed
  obtain s' n where s': "sendRead_block E s p resp off data = Some (s', n)" "effect E s p ?q s'" using sendRead_block_view [OF W(1) d] by blast
  then obtain Di c where v': "view E s' p = ?v\<lparr>v_pos := ?q, v_did := Di, v_cur := c\<rparr>" using effectD(4) by blast
  have q: "?q x = v_pos ?v x \<or> (v_pos ?v x = Absent \<or> (\<exists>z w. v_pos ?v x = Here BUF_CLEAN z w)) \<and> ?q x = Here BUF_CLEAN False (h_obj h ! x) \<and> x < length (h_obj h)" for x
    using byte [of x] v by (cases "v_pos ?v x") (auto simp: loaded_def)
  have qd: "dirty (?q x) = dirty (v_pos ?v x)" "flushed (?q x) = flushed (v_pos ?v x)" "?q x = Evicted \<longleftrightarrow> v_pos ?v x = Evicted" for x
    using q [of x] by auto
  have "vinv (g_parts E) (f_MaxParallelParts (g_flags E)) (view E s' p) h"
  proof (rule vinv_evolve [OF W(3), where C' = "h_content h"])
    show "cellOk (g_parts E) (view E s' p) h x (v_pos (view E s' p) x)" for x
    proof (cases "?q x = v_pos ?v x")
      case True
      then show ?thesis using cellOk_mono [OF D(2) [of x], of "view E s' p" h] by (simp add: v' uploaded_def recorded_def)
    next
      case False
      then show ?thesis using q [of x] D(2) [of x] by (auto simp: v' onServer_def split: if_splits)
    qed
    show "cachedOk (view E s' p)" using D(4) by (simp add: v' cachedOk_def qd)
    show "vids ?v (view E s' p)" by (rule effectD(2) [OF s'(2)])
    show "dirty (v_pos (view E s' p) x) \<and> v_cur ?v < v_did (view E s' p) x \<or>
        x < v_size ?v \<and> h_content h x = h_content h x \<and> dirty (v_pos (view E s' p) x) = dirty (v_pos ?v x)" if "x < v_size (view E s' p)" for x
      using that by (simp add: v' qd)
    show "v_pos (view E s' p) x = Evicted \<Longrightarrow> v_pos ?v x = Evicted" for x by (simp add: v' qd)
  qed (use D(1) W(2) in \<open>simp_all add: v' sizesOk_def\<close>)
  then show ?thesis using s'(1) by (intro keepsI [OF _ effectD(1) [OF s'(2)]]) (simp_all add: v')
qed

lemma step_ELoadEnd:
  assumes w: "winv E p (s, h)" and v: "fileValid E p (ELoadEnd off sz err) (s, h)"
  shows "keeps E p (s, h) (fileExec os wait sync St E p (ELoadEnd off sz err) (s, h))"
proof -
  have sz: "0 < sz" "off + sz < u64_max" using v by simp_all
  obtain s1 s' where s': "retryRead_end E s p off sz err = Some s'" "effect E s p (v_pos (view E s p)) s1" "fok E s' p"
    "view E s' p = (view E s1 p)\<lparr>v_ranges := UnlockRange off sz False (v_ranges (view E s p))\<rparr>"
    using retryRead_end_view [OF winvD(1) [OF w] sz] by blast
  have "otherChange (view E s p) (view E s' p)"
    using effect_other [OF s'(2)] by (simp add: s'(4) otherChange_def UnlockRange_flushing vids_def)
  then show ?thesis using winv_other [OF w s'(3)] s'(1) by (simp add: keeps_def)
qed

lemma step_EOther:
  assumes "winv E p (s, h)" "fileValid E p (EOther s') (s, h)"
  shows "keeps E p (s, h) (fileExec os wait sync St E p (EOther s') (s, h))"
  using winv_other [OF assms(1), of s'] assms(2) by (simp add: keeps_def)

section \<open>Eviction\<close>

lemma vinv_evict:
  assumes inv: "vinv ps M v h" and pos: "parts_ok ps" and q: "evicts v q"
  shows "vinv ps M (v\<lparr>v_pos := q\<rparr>) h"
proof -
  note D = vinvD [OF inv]
  have qd: "dirty (q x) = dirty (v_pos v x)" for x using q [unfolded evicts_def, rule_format, of x] by auto
  have flushed: "flushed (q x) \<Longrightarrow> flushed (v_pos v x)" for x using q [unfolded evicts_def, rule_format, of x] by auto
  have "v_pos v x = Evicted" if e: "q x = Evicted" and i: "h_up h i \<noteq> None" "inPart ps i x" for x i
  proof (rule ccontr)
    assume "v_pos v x \<noteq> Evicted"
    then have un: "r \<in> set (v_ranges v) \<Longrightarrow> rr_Offset r + rr_Size r < u64_max \<Longrightarrow> \<not> (rr_Offset r \<le> x \<and> x < rr_Offset r + rr_Size r)" for r
      using q e unfolding evicts_def by metis
    have "partLock ps i \<in> set (filter rr_Flushing (v_ranges v))" using D(7) i(1) unfolding locksOk_def by blast
    then have "partLock ps i \<in> set (v_ranges v)" by simp
    moreover have "getMaxFileSize ps < u64_max" using pos by (simp add: parts_ok_def getMaxFileSize_eq)
    ultimately show False using un [of "partLock ps i"] i(2) inPart_start(3) [OF pos, of i] by (auto simp: partLock_def inPart_def)
  qed
  moreover have "cellOk ps (v\<lparr>v_pos := q\<rparr>) h x (q x)" for x
  proof -
    have m: "cellOk ps (v\<lparr>v_pos := q\<rparr>) h x r \<longleftrightarrow> cellOk ps v h x r" for r by (cases r) (simp_all add: uploaded_def recorded_def)
    show ?thesis unfolding m using q [unfolded evicts_def, rule_format, of x] D(2) [of x] by (auto split: if_splits)
  qed
  moreover have "cachedOk (v\<lparr>v_pos := q\<rparr>)" using D(4) qd flushed by (auto simp: cachedOk_def)
  ultimately show ?thesis
    by (intro vinv_evolve [OF inv, where C' = "h_content h"]) (use D(1) pos qd in \<open>auto simp: sizesOk_def vids_def\<close>)
qed

lemma step_EEvict:
  assumes "fileEnv E" and w: "winv E p (s, h)"
  shows "keeps E p (s, h) (fileExec os wait sync St E p (EEvict e) (s, h))"
proof -
  have "f_CachePath (g_flags E) = []" using assms(1) by (simp add: fileEnv_def)
  then obtain s' n q where s': "evictBuffer E os s p e = Some (s', n)" "fok E s' p" "view E s' p = (view E s p)\<lparr>v_pos := q\<rparr>" "evicts (view E s p) q"
    using evictBuffer_view [OF winvD(1) [OF w]] by blast
  then show ?thesis by (intro keepsI [OF _ s'(2)]) (simp_all add: vinv_evict [OF winvD(3,2) [OF w]])
qed

section \<open>Writing and changing the size\<close>

lemma cellOk_beyond: "cellOk ps v h x q \<Longrightarrow> v_size v \<le> x \<Longrightarrow> q = Absent \<or> (\<exists>w. q = Here BUF_CLEAN False w)"
  by (cases q) auto

lemma cellOk_beyondI: "v_size v \<le> x \<Longrightarrow> q = Absent \<or> (\<exists>w. q = Here BUF_CLEAN False w) \<Longrightarrow> cellOk ps v h x q"
  by auto

lemma vinv_write:
  assumes inv: "vinv ps M v h" and pos: "parts_ok ps" and d: "data \<noteq> []" "off + length data \<le> getMaxFileSize ps"
    and v': "v' = v\<lparr>v_pos := written (v_size v) off data (v_pos v), v_did := Di, v_cur := c, v_size := max (v_size v) (off + length data),
      v_last := off + length data, v_st := (if v_st v = ST_CACHED then ST_MODIFIED else v_st v)\<rparr>" and ids: "vids v v'"
    and new: "\<And>x. x < off + length data \<Longrightarrow> off \<le> x \<or> v_size v \<le> x \<Longrightarrow> v_cur v < Di x"
  defines "C \<equiv> \<lambda>x. if off \<le> x \<and> x < off + length data then data ! (x - off) else if x < v_size v then h_content h x else 0"
  shows "vinv ps M v' (h\<lparr>h_content := C\<rparr>)"
proof (rule vinv_evolve [OF inv _ _ _ _ refl ids])
  note D = vinvD [OF inv]
  show "cellOk ps v' (h\<lparr>h_content := C\<rparr>) x (v_pos v' x)" for x
  proof (cases "x < off + length data \<and> (off \<le> x \<or> v_size v \<le> x)")
    case True
    then show ?thesis by (auto simp: v' written_def C_def)
  next
    case False
    then have p: "v_pos v' x = v_pos v x" "x < v_size v \<or> v_size v' \<le> x" by (auto simp: v' written_def)
    show ?thesis
    proof (cases "x < v_size v")
      case True
      then have "h_content h x = C x" "x < v_size v'" using False by (auto simp: C_def v')
      then show ?thesis unfolding p using D(2) [of x] True by (cases "v_pos v x") (auto simp: onServer_def uploaded_def recorded_def v')
    next
      case f: False
      then show ?thesis unfolding p(1) using cellOk_beyond [OF D(2) [of x]] p(2) by (intro cellOk_beyondI) auto
    qed
  qed
  show "cachedOk v'" by (auto simp: v' cachedOk_def)
  show "dirty (v_pos v' x) \<and> v_cur v < v_did v' x \<or> x < v_size v \<and> C x = h_content h x \<and> dirty (v_pos v' x) = dirty (v_pos v x)" if "x < v_size v'" for x
    using that new [of x] by (auto simp: v' written_def C_def)
  show "v_pos v' x = Evicted \<Longrightarrow> v_pos v x = Evicted" for x by (auto simp: v' written_def split: if_splits)
qed (use vinvD(1) [OF inv] pos d in \<open>auto simp: v' sizesOk_def uploading_def\<close>)

lemma winv_noZero:
  assumes "winv E p (s, h)" "v_size (view E s p) \<le> x"
  shows "v_pos (view E s p) x \<noteq> Here st True w"
  using cellOk_beyond [OF vinvD(2) [OF winvD(3) [OF assms(1)]] assms(2)] by auto

lemma step_EWrite:
  assumes w: "winv E p (s, h)" and v: "fileValid E p (EWrite now off data slack cp) (s, h)"
  shows "\<exists>w'. fileExec os wait sync St E p (EWrite now off data slack cp) (s, h) = Some w' \<and> winv E p w' \<and>
    fileBytes p w' = fileSpec (EWrite now off data slack cp) (fileBytes p (s, h))"
proof -
  note W = winvD [OF w]
  have d: "data \<noteq> []" "off + length data \<le> maxSize E" "v_pause (view E s p) \<le> 0" using v by (simp_all add: view_sel)
  obtain s' n D c where s': "WriteFile_section E wait sync now s p off data slack cp = Some (s', n)" "fok E s' p"
    "view E s' p = (view E s p)\<lparr>v_pos := written (v_size (view E s p)) off data (v_pos (view E s p)), v_did := D, v_cur := c,
      v_size := max (v_size (view E s p)) (off + length data), v_last := off + length data,
      v_st := (if v_st (view E s p) = ST_CACHED then ST_MODIFIED else v_st (view E s p))\<rparr>" "vids (view E s p) (view E s' p)"
    "\<And>x. x < off + length data \<Longrightarrow> off \<le> x \<or> v_size (view E s p) \<le> x \<Longrightarrow> v_cur (view E s p) < D x"
    using WriteFile_section_view [OF W(1) d(1,2) W(5) d(3) winv_noZero [OF w], of wait sync now slack cp] by blast
  have sz: "sizeOf s' p = max (sizeOf s p) (off + length data)" using arg_cong [OF s'(3), of v_size] by (simp add: view_sel)
  have "winv E p (s', h\<lparr>h_content := \<lambda>x. if off \<le> x \<and> x < off + length data then data ! (x - off) else if x < sizeOf s p then h_content h x else 0\<rparr>)"
    using vinv_write [OF W(3,2) d(1,2) s'(3,4,5)] s'(2) by (simp add: winv_def view_sel cong: if_cong)
  moreover have "map (\<lambda>x. if off \<le> x \<and> x < off + length data then data ! (x - off) else if x < n then f x else 0) [0..<max n (off + length data)] =
      take off (map f [0..<n] @ replicate (off - n) 0) @ data @ drop (off + length data) (map f [0..<n])" for n and f :: "nat \<Rightarrow> byte"
    by (rule nth_equalityI) (auto simp: nth_append min_def)
  ultimately show ?thesis using s'(1) by (simp add: fileBytes_def sz)
qed

lemma vinv_resize:
  assumes inv: "vinv ps M v h" and pos: "parts_ok ps" and n: "n \<le> getMaxFileSize ps"
    and v': "v' = v\<lparr>v_pos := resized (v_size v) n (v_pos v), v_did := Di, v_cur := c, v_size := n, v_st := (if v_st v = ST_CACHED then ST_MODIFIED else v_st v)\<rparr>"
    and ids: "vids v v'" and new: "\<And>x. v_size v \<le> x \<Longrightarrow> x < n \<Longrightarrow> v_cur v < Di x"
    and shrink: "n < v_size v \<Longrightarrow> \<not> IsRangeLocked n (sub64 (v_size v) n) True (v_ranges v) \<and>
      (\<forall>i < length (part_lens ps). recorded v i \<longrightarrow> part_start ps i + length (h_parts h i) \<le> n) \<and> (\<forall>sz. exSize (h_ex h) = Some sz \<longrightarrow> sz \<le> n)"
  defines "C \<equiv> \<lambda>x. if x < v_size v then h_content h x else 0"
  shows "vinv ps M v' (h\<lparr>h_content := C\<rparr>)"
proof (rule vinv_evolve [OF inv _ _ _ _ refl ids])
  note D = vinvD [OF inv]
  have max: "getMaxFileSize ps < u64_max" "v_size v \<le> getMaxFileSize ps" using pos D(1) by (simp_all add: parts_ok_def getMaxFileSize_eq sizesOk_def)
  show "cellOk ps v' (h\<lparr>h_content := C\<rparr>) x (v_pos v' x)" for x
  proof (cases "x < n")
    case True
    then show ?thesis using D(2) [of x] by (cases "v_pos v x") (auto simp: v' resized_def C_def onServer_def uploaded_def recorded_def)
  next
    case False
    then show ?thesis using cellOk_beyond [OF D(2) [of x]] by (intro cellOk_beyondI) (auto simp: v' resized_def)
  qed
  show "cachedOk v'" by (auto simp: v' cachedOk_def)
  show "dirty (v_pos v' x) \<and> v_cur v < v_did v' x \<or> x < v_size v \<and> C x = h_content h x \<and> dirty (v_pos v' x) = dirty (v_pos v x)" if "x < v_size v'" for x
    using that new [of x] by (auto simp: v' resized_def C_def)
  show "v_pos v' x = Evicted \<Longrightarrow> v_pos v x = Evicted" for x by (auto simp: v' resized_def split: if_splits)
  assume "v_size v' < v_size v"
  then have lt: "n < v_size v" by (simp add: v')
  then have "sub64 (v_size v) n = v_size v - n" "add64 n (v_size v - n) = v_size v" using max by (simp_all add: u64_simps)
  then have un: "rr_Offset r < v_size v \<Longrightarrow> add64 (rr_Offset r) (rr_Size r) \<le> n" if "r \<in> set (filter rr_Flushing (v_ranges v))" for r
    using shrink [OF lt] that by (force simp: IsRangeLocked_iff)
  have locks: "set (filter rr_Flushing (v_ranges v)) = partLock ps ` dom (h_up h) \<union> exLock (h_ex h)" using D(7) by (simp add: locksOk_def)
  have "part_start ps i + part_lens ps ! i \<le> v_size v'" if "h_up h i \<noteq> None" for i
  proof -
    have i: "i < length (part_lens ps)" "part_start ps i < v_size v" using that upsOkD [OF D(5)] by blast+
    moreover have "partLock ps i \<in> set (filter rr_Flushing (v_ranges v))" unfolding locks using that by blast
    ultimately show ?thesis using un [of "partLock ps i"] inPart_start(3) [OF pos i(1)] max by (simp add: partLock_def v' u64_simps)
  qed
  moreover have "rr_Size r \<le> v_size v'" if "r \<in> exLock (h_ex h)" for r
  proof -
    have "rr_Offset r = 0" "rr_Size r \<le> v_size v" using that D(6) by (cases "h_ex h" rule: exLock.cases; fastforce simp: smallOk_def)+
    then show ?thesis using un [of r] that lt max unfolding locks by (simp add: v' u64_simps)
  qed
  moreover have "part_start ps i + length (h_parts h i) \<le> v_size v'" if "recorded v i" for i
    using shrink [OF lt] partsOkD(1) [OF D(3) that] that by (simp add: v')
  ultimately show "(\<forall>i. h_up h i \<noteq> None \<longrightarrow> part_start ps i + part_lens ps ! i \<le> v_size v') \<and>
      (\<forall>i. recorded v i \<longrightarrow> part_start ps i + length (h_parts h i) \<le> v_size v') \<and> (\<forall>r \<in> exLock (h_ex h). rr_Size r \<le> v_size v') \<and>
      (\<forall>sz. exSize (h_ex h) = Some sz \<longrightarrow> sz \<le> v_size v')"
    using shrink [OF lt] by (simp add: v')
qed (use vinvD(1) [OF inv] pos n in \<open>auto simp: v' sizesOk_def uploading_def\<close>)

text \<open>Only the bytes inside the file matter.\<close>

lemma vinv_same:
  assumes inv: "vinv ps M v h" and pos: "parts_ok ps" and C: "\<And>x. x < v_size v \<Longrightarrow> C x = h_content h x"
  shows "vinv ps M v (h\<lparr>h_content := C\<rparr>)"
proof (rule vinv_evolve [OF inv _ _ _ _ refl])
  show "cellOk ps v (h\<lparr>h_content := C\<rparr>) x (v_pos v x)" for x
  proof (cases "x < v_size v")
    case True
    then show ?thesis using vinvD(2) [OF inv, of x] C [of x] by (cases "v_pos v x") (auto simp: onServer_def uploaded_def)
  next
    case False
    then show ?thesis using cellOk_beyond [OF vinvD(2) [OF inv, of x]] by (intro cellOk_beyondI) auto
  qed
qed (use vinvD(1,4) [OF inv] pos C in \<open>simp_all add: sizesOk_def\<close>)

lemma step_ESize:
  assumes w: "winv E p (s, h)" and v: "fileValid E p (ESize n) (s, h)"
  shows "\<exists>w'. fileExec os wait sync St E p (ESize n) (s, h) = Some w' \<and> winv E p w' \<and> fileBytes p w' = fileSpec (ESize n) (fileBytes p (s, h))"
proof -
  note W = winvD [OF w]
  let ?h = "h\<lparr>h_content := \<lambda>x. if x < sizeOf s p then h_content h x else 0\<rparr>"
  have pause: "v_pause (view E s p) \<le> 0" using v by (simp add: view_sel)
  have st: "v_st (view E s p) \<noteq> ST_DELETED" "v_st (view E s p) \<noteq> ST_DEAD" using vinvD(1) [OF W(3)] by (auto simp: sizesOk_def uploading_def)
  have free: "n < v_size (view E s p) \<Longrightarrow> \<not> resizeBlocked E s p n" using v by (simp add: view_sel)
  have bytes: "fileBytes p (s', ?h) = fileSpec (ESize n) (fileBytes p (s, h))" if "sizeOf s' p = n" for s' :: "('a, 'b, 'c) Goofys"
    unfolding fileBytes_def using that by (auto intro: nth_equalityI simp: nth_append min_def)
  show ?thesis
  proof (rule SetAttributes_view [OF W(1,5) pause st winv_noZero [OF w] free, where St = St and wait = wait and sync = sync])
    fix err assume a: "SetAttributes St E wait sync s p (Some n) None None None None = Some (s, err)" "i_Parent (heap s p) = None \<or> n = sizeOf s p \<or> maxSize E < n"
    then have n: "n = sizeOf s p" using v by auto
    have "vinv (g_parts E) (f_MaxParallelParts (g_flags E)) (view E s p) ?h"
      by (rule vinv_same [OF W(3,2)]) (simp add: view_sel)
    then have "winv E p (s, ?h)" using W(1) by (simp add: winv_def)
    then show ?thesis using a(1) bytes [of s] n by simp
  next
    fix s' D c assume a: "SetAttributes St E wait sync s p (Some n) None None None None = Some (s', None)" "n \<le> maxSize E" "fok E s' p"
      "view E s' p = (view E s p)\<lparr>v_pos := resized (v_size (view E s p)) n (v_pos (view E s p)), v_did := D, v_cur := c, v_size := n,
        v_st := (if v_st (view E s p) = ST_CACHED then ST_MODIFIED else v_st (view E s p))\<rparr>" "vids (view E s p) (view E s' p)"
      "\<And>x. v_size (view E s p) \<le> x \<Longrightarrow> x < n \<Longrightarrow> v_cur (view E s p) < D x"
    have "vinv (g_parts E) (f_MaxParallelParts (g_flags E)) (view E s' p) ?h"
      unfolding view_sel(1) [of E s p, symmetric] by (rule vinv_resize [OF W(3,2) a(2,4,5,6)]) (use v in \<open>simp_all add: view_sel resizeBlocked_def\<close>)
    then have "winv E p (s', ?h)" using a(3) by (simp add: winv_def)
    moreover have "sizeOf s' p = n" using arg_cong [OF a(4), of v_size] by (simp add: view_sel)
    ultimately show ?thesis using a(1) bytes [of s'] by simp
  qed
qed

end
