(* ===== verification/File_Uploads.thy ===== *)
theory File_Uploads
  imports File_Steps
begin

text \<open>The events of the goroutines that upload a file: its parts, the small object, the multipart upload.\<close>

section \<open>Parts\<close>

lemma snapshot_taken:
  assumes inv: "vinv ps M v h" and d: "didOk v" and sz: "off + n \<le> v_size v"
    and S: "S = map (\<lambda>x. val (v_pos v x)) [off..<off + n]" "\<And>x. off \<le> x \<Longrightarrow> x < off + n \<Longrightarrow> present (v_pos v x)"
    and ids: "ids = {v_did v x | x. off \<le> x \<and> x < off + n \<and> v_did v x \<noteq> 0}" "\<And>x. v_did v x \<in> ids \<Longrightarrow> off \<le> x \<and> x < off + n"
  shows "snapshot v h off S ids"
proof -
  have "S ! (x - off) = h_content h x" if "off \<le> x" "x < off + n" for x
  proof -
    have "[off..<off + n] ! (x - off) = x" using that by (subst nth_upt) auto
    then show ?thesis using vinv_present [OF inv, of x] S(2) [OF that] that sz by (simp add: S(1))
  qed
  moreover have "length S = n" by (simp add: S(1))
  moreover have "0 < k \<and> k \<le> v_cur v" if "k \<in> ids" for k using that d unfolding ids(1) didOk_def by blast
  ultimately show ?thesis using ids(2) unfolding snapshot_def by metis
qed

lemma partEnds_up: "partEnds E p i prio (s, h\<lparr>h_up := (h_up h)(i := x)\<rparr>) = partEnds E p i prio (s, h)"
  by (simp add: partEnds_def)

lemma partEnds_keeps:
  assumes w: "winv E p (s, h)" and up: "h_up h i = Some ph"
  shows "keeps E p (s, h) (partEnds E p i prio (s, h))"
proof -
  note W = winvD [OF w]
  have i: "i < length (part_lens (g_parts E))" by (rule upsOkD(1) [OF vinvD(5) [OF W(3)] up])
  have "view E (goFlushPart_end p off n prio s) p = (view E s p)\<lparr>v_flushing := v_flushing (view E s p) - 1, v_ranges := UnlockRange off n True (v_ranges (view E s p))\<rparr>"
    "fok E (goFlushPart_end p off n prio s) p" for off n using W(1) by (simp_all add: goFlushPart_end_def)
  then show ?thesis
    by (simp add: partEnds_def partRange_start [OF W(2) i] vinv_endPart [OF W(3,2) up] keeps_Some)
qed

lemma keeps_winv: "keeps E p w r \<Longrightarrow> \<exists>w'. r = Some w' \<and> winv E p w'"
  by (auto simp: keeps_def)

lemma partSends_keeps:
  assumes E: "fileEnv E" and w: "winv E p (s, h)" and up: "h_up h i = Some ph" and n: "sizeFits (g_parts E) (view E s p) h i n"
  shows "keeps E p (s, h) (partSends E p i prio c n (s, h))"
proof -
  note W = winvD [OF w] and U = upsOkD [OF vinvD(5) [OF winvD(3) [OF w]] up]
  let ?ps = "g_parts E" let ?off = "part_start ?ps i" let ?v = "view E s p"
  obtain m where m: "i_mpu (heap s p) = Some m" using U(3) by (auto simp: view_sel)
  have fits: "0 < n" "n \<le> part_lens ?ps ! i" "?off + n \<le> v_size ?v" using n by (simp_all add: sizeFits_def)
  have max: "?off + n \<le> maxSize E" "maxSize E + 1 < u64_max" "0 < n \<or> ?off = 0" using fits W(5) E by (auto simp: fileEnv_def)
  have ev: "v_pos ?v x \<noteq> Evicted" if "?off \<le> x" "x < ?off + n" for x using U(1) U(4) [of x] that fits(2) by (auto simp: inPart_def)
  have step: "partSends E p i prio c n (s, h) = (case getMultiReader E s p ?off n of None \<Rightarrow> None | Some (s, Inl _) \<Rightarrow> partEnds E p i prio (s, h)
      | Some (s, Inr (reader, ids)) \<Rightarrow> Some (s, h\<lparr>h_up := (h_up h)(i \<mapsto> PartAdding prio \<lparr>aj_cloud = c, aj_mpu = m, aj_part = i, aj_body = reader, aj_offset = ?off,
          aj_size = n, aj_full = part_lens ?ps ! i, aj_ids = ids\<rparr>)\<rparr>))"
    by (simp add: partSends_def partRange_start [OF W(2) U(1)] flushPart_add_def m split: option.split sum.split)
  show ?thesis
  proof (rule getMultiReader_view [OF W(1) max ev])
    fix s' e assume a: "getMultiReader E s p ?off n = Some (s', Inl e)" "effect E s p (v_pos ?v) s'"
    note w' = winv_effect [OF w a(2)]
    show ?thesis using keeps_trans [OF partEnds_keeps [OF w'(1) up]] w'(2) a(1) by (simp add: step)
  next
    fix s' r ids assume a: "getMultiReader E s p ?off n = Some (s', Inr (r, ids))" "effect E s p (v_pos ?v) s'"
      "mr_bytes r = map (\<lambda>x. val (v_pos ?v x)) [?off..<?off + n]" "MultiReader_Len r = n"
      "\<And>x. ?off \<le> x \<Longrightarrow> x < ?off + n \<Longrightarrow> present (v_pos ?v x)"
      "ids = {v_did (view E s' p) x | x. ?off \<le> x \<and> x < ?off + n \<and> v_did (view E s' p) x \<noteq> 0}"
      "\<And>x. v_did (view E s' p) x \<in> ids \<Longrightarrow> ?off \<le> x \<and> x < ?off + n"
    obtain D c' where v': "view E s' p = ?v\<lparr>v_pos := v_pos ?v, v_did := D, v_cur := c'\<rparr>" using effectD(4) [OF a(2)] by blast
    note w' = winv_effect [OF w a(2)] and W' = winvD [OF winv_effect(1) [OF w a(2)]]
    have "snapshot (view E s' p) h ?off (mr_bytes r) ids"
      by (rule snapshot_taken [OF W'(3,4) _ _ _ a(6,7)]) (use fits(3) a(3,5) in \<open>simp_all add: v'\<close>)
    moreover have "sizeFits ?ps (view E s' p) h i n" using n by (simp add: v' sizeFits_def recorded_def)
    moreover have "length (mr_bytes r) = n" by (simp add: a(3))
    ultimately show ?thesis using a(1,4) vinv_setPhase [OF W'(3) up] W'(1) by (simp add: step keeps_Some) (simp add: v')
  qed
qed

lemma sizeFits_cut:
  assumes W: "winv E p (s, h)" and i: "i < length (part_lens (g_parts E))" "part_start (g_parts E) i < sizeOf s p"
  shows "sizeFits (g_parts E) (view E s p) h i (cutPart s p (part_start (g_parts E) i) (part_lens (g_parts E) ! i))"
proof -
  note D = winvD [OF W]
  let ?off = "part_start (g_parts E) i" and ?len = "part_lens (g_parts E) ! i"
  have l: "0 < ?len" "?off + ?len \<le> maxSize E" using inPart_start [OF D(2) i(1)] by blast+
  then have "cutPart s p ?off ?len = min ?len (sizeOf s p - ?off)" using D(5,7) i(2) by (simp add: cutPart_def u64_simps view_sel)
  then show ?thesis using l i partsOkD(3,4) [OF vinvD(3) [OF D(3)], of i] by (auto simp: sizeFits_def inPart_def view_sel)
qed

lemma step_EPartBegin:
  assumes E: "fileEnv E" and w: "winv E p (s, h)"
  shows "keeps E p (s, h) (fileExec os wait sync St E p (EPartBegin i) (s, h))"
proof (cases "\<exists>prio. h_up h i = Some (PartStart prio)")
  case True
  then obtain prio where up: "h_up h i = Some (PartStart prio)" by blast
  note W = winvD [OF w] and U = upsOkD [OF vinvD(5) [OF winvD(3) [OF w]] up]
  let ?off = "part_start (g_parts E) i"
  let ?n = "cutPart s p ?off (part_lens (g_parts E) ! i)"
  have n: "sizeFits (g_parts E) (view E s p) h i ?n" by (rule sizeFits_cut [OF w U(1)]) (use U(2) in \<open>simp add: view_sel\<close>)
  show ?thesis
  proof (cases "i_CacheState (heap s p) = ST_MODIFIED")
    case True
    have b: "sizeOf s p \<le> ?off \<or> 0 < ?n \<or> 0 < (0::u64)" "?off + ?n < u64_max" "loadOk E 0"
      using n W(5,7) E by (auto simp: sizeFits_def fileEnv_def)
    obtain s' r D c where s': "LoadRange_begin E os wait s p ?off ?n 0 = Some (s', r)" "winv E p (s', h)"
      "view E s' p = (view E s p)\<lparr>v_did := D, v_cur := c\<rparr>" by (rule winv_load [OF E w b])
    have "phaseOk (g_parts E) (view E s' p) h i (PartLoading prio c' ?n)" for c'
      using n unfolding phaseOk.simps sizeFits_def recorded_def s'(3) by simp
    then have "vinv (g_parts E) (f_MaxParallelParts (g_flags E)) (view E s' p) (h\<lparr>h_up := (h_up h)(i \<mapsto> PartLoading prio c' ?n)\<rparr>)" for c'
      by (rule vinv_setPhase [OF winvD(3) [OF s'(2)] up])
    then show ?thesis using winvD(1) [OF s'(2)] by (simp add: up partRange_start [OF W(2) U(1)] True s'(1) keeps_Some) (simp add: s'(3))
  next
    case False
    then show ?thesis using partSends_keeps [OF E w up n] by (simp add: up partRange_start [OF W(2) U(1)])
  qed
qed (use w in \<open>auto simp: keeps_id split: option.split partPhase.split\<close>)

lemma step_EPartLoaded:
  assumes E: "fileEnv E" and w: "winv E p (s, h)" and v: "fileValid E p (EPartLoaded i err) (s, h)"
  shows "keeps E p (s, h) (fileExec os wait sync St E p (EPartLoaded i err) (s, h))"
proof (cases "\<exists>prio c n. h_up h i = Some (PartLoading prio c n)")
  case True
  then obtain prio c n where up: "h_up h i = Some (PartLoading prio c n)" by blast
  note W = winvD [OF w] and U = upsOkD [OF vinvD(5) [OF winvD(3) [OF w]] up]
  let ?off = "part_start (g_parts E) i"
  have n: "sizeFits (g_parts E) (view E s p) h i n" using U(5) by simp
  then have "cutPart s p ?off n = n" using W(5,7) by (simp add: cutPart_def sizeFits_def view_sel u64_simps)
  then have "flushPart_loaded E s p ?off n err = Some (s, None) \<or> flushPart_loaded E s p ?off n err = Some (s, Some n)"
    using v by (simp add: flushPart_loaded_def)
  then show ?thesis using partSends_keeps [OF E w up n] partEnds_keeps [OF w up] by (auto simp: up partRange_start [OF W(2) U(1)])
qed (use w in \<open>auto simp: keeps_id split: option.split partPhase.split\<close>)

lemma step_EPartAnswer:
  assumes w: "winv E p (s, h)" and v: "fileValid E p (EPartAnswer now i answer) (s, h)"
  shows "keeps E p (s, h) (fileExec os wait sync St E p (EPartAnswer now i answer) (s, h))"
proof (cases "\<exists>prio job. h_up h i = Some (PartAdding prio job)")
  case True
  then obtain prio job where up: "h_up h i = Some (PartAdding prio job)" by blast
  note W = winvD [OF w] and U = upsOkD [OF vinvD(5) [OF winvD(3) [OF w]] up]
  let ?v = "view E s p"
  have ph: "sizeFits (g_parts E) ?v h i (aj_size job)" "aj_part job = i" "aj_offset job = part_start (g_parts E) i" "length (mr_bytes (aj_body job)) = aj_size job"
    "snapshot ?v h (part_start (g_parts E) i) (mr_bytes (aj_body job)) (aj_ids job)" using U(5) by simp_all
  obtain m where m: "v_mpu ?v = Some m" using U(3) by blast
  have S: "v_st ?v \<noteq> ST_DELETED" "aj_part job < length (mpu_Parts m)" using vinvD(1) [OF W(3)] m U(1) ph(2) by (auto simp: sizesOk_def uploading_def)
  have sz: "aj_offset job + aj_size job < u64_max" using ph(1,3) W(5,7) by (simp add: sizeFits_def)
  have ids: "aj_offset job \<le> x \<and> x < aj_offset job + aj_size job" if "v_did ?v x \<in> aj_ids job" for x
    using ph(3-5) that unfolding snapshot_def by metis
  have a: "\<And>e. answer = Inl e \<Longrightarrow> mapAwsError (Some e) \<noteq> Some (Errno ENOENT)" "answer \<noteq> Inr None" using v by (auto split: sum.splits)
  show ?thesis
  proof (rule flushPart_done_view [OF W(1) S(1) m S(2) sz ids a, where now = now])
    fix s' e assume s': "answer = Inl e" "flushPart_done E now s p job answer = Some s'" "fok E s' p" "view E s' p = ?v"
    then have "winv E p (s', h)" using W(3) by (simp add: winv_def)
    from keeps_trans [OF partEnds_keeps [OF this up]] show ?thesis using s' view_sel(1) [of E s' p] view_sel(1) [of E s p] by (simp add: up)
  next
    fix s' pid
    let ?st = "if MultiReader_Len (aj_body job) < aj_full job \<or> aj_part job = 0 then BUF_FLUSHED_CUT else BUF_FLUSHED_FULL"
    assume s': "answer = Inr (Some pid)" "flushPart_done E now s p job answer = Some s'" "fok E s' p"
      "view E s' p = (retagged ?st (aj_ids job) ?v)\<lparr>v_mpu := Some (setPartId (aj_part job) pid m)\<rparr>"
    let ?h = "h\<lparr>h_parts := (h_parts h)(i := mr_bytes (aj_body job))\<rparr>"
    let ?h' = "?h\<lparr>h_up := (h_up ?h)(i \<mapsto> PartStart prio)\<rparr>"
    have w': "winv E p (s', ?h')" using vinv_partDone [OF W(3,4) up m, of pid] s'(3,4) by (simp add: winv_def ph(2))
    have "sizeOf s' p = sizeOf s p" using arg_cong [OF s'(4), of v_size] by (simp add: view_sel)
    then have "keeps E p (s, h) (partEnds E p i prio (s', ?h'))" by (intro keeps_trans [OF partEnds_keeps [OF w']]) simp_all
    then show ?thesis unfolding partEnds_up using s'(1,2) by (simp add: up)
  qed
qed (use w in \<open>auto simp: keeps_id split: option.split partPhase.split\<close>)

section \<open>Small files\<close>

lemma view_swap: "v\<lparr>v_flushing := a, v_ranges := b\<rparr> = v\<lparr>v_ranges := b, v_flushing := a\<rparr>"
  by simp

lemma smallSends_ex: "smallSends E p sz (s, h\<lparr>h_ex := x\<rparr>) = smallSends E p sz (s, h)"
  by (simp add: smallSends_def)

lemma smallSends_keeps:
  assumes E: "fileEnv E" and w: "winv E p (s, h)" and ex: "h_ex h = Some (SmallLoading n)"
  shows "keeps E p (s, h) (smallSends E p n (s, h))"
proof -
  note W = winvD [OF w]
  let ?v = "view E s p" let ?M = "f_MaxParallelParts (g_flags E)"
  have j: "smallOk ?v n" using vinvD(6) [OF W(3) ex] by simp
  then have mpu: "v_mpu ?v = None" "n \<le> v_size ?v" by (simp_all add: smallOk_def)
  have max: "0 + n \<le> maxSize E" "maxSize E + 1 < u64_max" "0 < n \<or> (0::u64) = 0" using mpu(2) W(5) E by (simp_all add: fileEnv_def)
  have ev: "v_pos ?v x \<noteq> Evicted" for x using vinvD(2) [OF W(3), of x] mpu(1) by (auto simp: uploaded_def recorded_def)
  obtain c key where key: "objectKey E s p = (c, key)" by (cases "objectKey E s p")
  show ?thesis
  proof (rule getMultiReader_view [OF W(1) max ev])
    fix s' e assume a: "getMultiReader E s p 0 n = Some (s', Inl e)" "effect E s p (v_pos ?v) s'"
    note w' = winv_effect [OF w a(2)]
    have "exLock (Some (SmallLoading n)) = {\<lparr>rr_Offset = 0, rr_Size = n, rr_Flushing = True\<rparr>}" by simp
    from vinv_endEx(2) [OF winvD(3) [OF w'(1)] ex this] show ?thesis using winvD(1) [OF w'(1)] w'(2)
      by (simp add: smallSends_def flushSmall_put_def key a(1) keeps_Some view_sel(1) view_swap)
  next
    fix s' r ids assume a: "getMultiReader E s p 0 n = Some (s', Inr (r, ids))" "effect E s p (v_pos ?v) s'"
      "mr_bytes r = map (\<lambda>x. val (v_pos ?v x)) [0..<0 + n]" "MultiReader_Len r = n" "\<And>x. 0 \<le> x \<Longrightarrow> x < 0 + n \<Longrightarrow> present (v_pos ?v x)"
      "ids = {v_did (view E s' p) x | x. 0 \<le> x \<and> x < 0 + n \<and> v_did (view E s' p) x \<noteq> 0}" "\<And>x. v_did (view E s' p) x \<in> ids \<Longrightarrow> 0 \<le> x \<and> x < 0 + n"
    obtain D c' where v': "view E s' p = ?v\<lparr>v_pos := v_pos ?v, v_did := D, v_cur := c'\<rparr>" using effectD(4) [OF a(2)] by blast
    note W' = winvD [OF winv_effect(1) [OF w a(2)]]
    have snap: "snapshot (view E s' p) h 0 (mr_bytes r) ids"
      by (rule snapshot_taken [OF W'(3,4) _ _ _ a(6,7)]) (use mpu(2) a(3,5) in \<open>simp_all add: v'\<close>)
    have small: "smallOk (view E s' p) n" using j by (simp add: v' smallOk_def)
    have m: "i_mpu (heap s' p) = None" using arg_cong [OF v', of v_mpu] mpu(1) by (simp add: view_sel)
    let ?dirty = "i_userMetadataDirty (heap s' p) \<noteq> 0"
    let ?job = "\<lparr>pj_cloud = c, pj_key = key, pj_body = r, pj_metadata = (if ?dirty then escapeMetadata E (i_userMetadata (heap s' p)) else None),
      pj_size = n, pj_ids = ids\<rparr>"
    let ?s = "inflightAdd key (if ?dirty then upd p (\<lambda>i. i\<lparr>i_userMetadataDirty := 0\<rparr>) s' else s')"
    have "smallSends E p n (s, h) = Some (?s, h\<lparr>h_ex := Some (SmallPutting ?job)\<rparr>)"
      using m by (simp add: smallSends_def flushSmall_put_def key a(1) Let_def upd_def)
    moreover have "jobOk (g_parts E) (view E s' p) h (SmallPutting ?job)" using snap small by (simp add: a(3))
    then have "vinv (g_parts E) ?M (view E s' p) (h\<lparr>h_ex := Some (SmallPutting ?job)\<rparr>)" by (rule vinv_setEx [OF W'(3) ex]) simp
    moreover have "view E ?s p = view E s' p" "fok E ?s p" using W'(1) by simp_all
    moreover have "v_size (view E s' p) = v_size ?v" by (simp add: v')
    ultimately show ?thesis by (simp only: keeps_Some) simp
  qed
qed

lemma step_ESmallBegin:
  assumes E: "fileEnv E" and w: "winv E p (s, h)"
  shows "keeps E p (s, h) (fileExec os wait sync St E p ESmallBegin (s, h))"
proof (cases "h_ex h = Some SmallStart")
  case True
  note W = winvD [OF w]
  let ?v = "view E s p" let ?n = "sizeOf s p"
  let ?s = "rangesDo p (LockRange 0 ?n True) s" and ?h = "h\<lparr>h_ex := Some (SmallLoading ?n)\<rparr>"
  have up: "uploading (i_CacheState (heap s p))" using vinvD(7) [OF W(3)] True by (simp add: locksOk_def view_sel)
  have "smallOk ?v ?n" using vinvD(6) [OF W(3) True] by (simp add: smallOk_def view_sel)
  then have "vinv (g_parts E) (f_MaxParallelParts (g_flags E)) (?v\<lparr>v_ranges := LockRange 0 ?n True (v_ranges ?v)\<rparr>) ?h"
    by (intro vinv_lockEx [OF W(3) True]) simp_all
  then have w': "winv E p (?s, ?h)" using W(1) by (simp add: winv_def)
  have sz: "sizeOf ?s p = ?n" "i_CacheState (heap ?s p) = i_CacheState (heap s p)" by (simp_all add: rangesDo_def upd_def sizeOf_def)
  show ?thesis
  proof (cases "i_CacheState (heap s p) = ST_MODIFIED")
    case mod: True
    have b: "sizeOf ?s p \<le> 0 \<or> 0 < ?n \<or> 0 < (0::u64)" "0 + ?n < u64_max" "loadOk E 0" using E W(5,7) sz by (auto simp: fileEnv_def view_sel)
    obtain s' r D c where s': "LoadRange_begin E os wait ?s p 0 ?n 0 = Some (s', r)" "effect E ?s p (v_pos (view E ?s p)) s'" "winv E p (s', ?h)"
      by (rule winv_load [OF E w' b])
    then show ?thesis using True up mod sz winv_effect(2) [OF w' s'(2)] by (simp add: flushSmall_begin_def keeps_def)
  next
    case False
    have "keeps E p (s, h) (smallSends E p ?n (?s, ?h))" by (rule keeps_trans [OF smallSends_keeps [OF E w']]) (simp_all add: sz)
    then show ?thesis unfolding smallSends_ex using True up False sz by (simp add: flushSmall_begin_def)
  qed
qed (use w in \<open>auto simp: keeps_id split: option.split exJob.split\<close>)

lemma step_ESmallLoaded:
  assumes E: "fileEnv E" and w: "winv E p (s, h)" and v: "fileValid E p (ESmallLoaded err) (s, h)"
  shows "keeps E p (s, h) (fileExec os wait sync St E p (ESmallLoaded err) (s, h))"
  using v w smallSends_keeps [OF E w] by (auto simp: flushSmall_loaded_def keeps_id split: option.split exJob.split)

lemma step_ESmallAnswer:
  assumes w: "winv E p (s, h)" and v: "fileValid E p (ESmallAnswer now answer) (s, h)"
  shows "keeps E p (s, h) (fileExec os wait sync St E p (ESmallAnswer now answer) (s, h))"
proof (cases "\<exists>job. h_ex h = Some (SmallPutting job)")
  case True
  then obtain job where ex: "h_ex h = Some (SmallPutting job)" by blast
  note W = winvD [OF w]
  let ?v = "view E s p" let ?w = "retagged BUF_CLEAN (pj_ids job) ?v"
  have j: "smallOk ?v (pj_size job)" "length (mr_bytes (pj_body job)) = pj_size job" "snapshot ?v h 0 (mr_bytes (pj_body job)) (pj_ids job)"
    using vinvD(6) [OF W(3) ex] by simp_all
  have st: "uploading (v_st ?v)" using vinvD(7) [OF W(3)] ex by (simp add: locksOk_def)
  have sz: "pj_size job < u64_max" using j(1) W(5,7) by (simp add: smallOk_def)
  have ids: "x < pj_size job" if "v_did ?v x \<in> pj_ids job" for x using j(2,3) that unfolding snapshot_def by auto
  have a: "\<And>out. answer = Inr out \<Longrightarrow> po_ETag out \<noteq> None" using v by auto
  show ?thesis
  proof (rule flushSmall_done_view [OF W(1) st sz ids a, where now = now])
    fix s' e assume s': "answer = Inl e" "flushSmall_done E now s p job answer = Some s'" "fok E s' p"
      "view E s' p = ?v\<lparr>v_flushing := v_flushing ?v - f_MaxParallelParts (g_flags E), v_ranges := UnlockRange 0 (pj_size job) True (v_ranges ?v)\<rparr>"
    have "exLock (Some (SmallPutting job)) = {\<lparr>rr_Offset = 0, rr_Size = pj_size job, rr_Flushing = True\<rparr>}" by simp
    from vinv_endEx(2) [OF W(3) ex this] show ?thesis using s' by (simp add: ex keeps_Some)
  next
    fix s' out st' assume s': "answer = Inr out" "flushSmall_done E now s p job answer = Some s'" "fok E s' p"
      "view E s' p = ?w\<lparr>v_known := pj_size job, v_st := st',
         v_flushing := v_flushing (?v\<lparr>v_flushing := v_flushing ?v - f_MaxParallelParts (g_flags E), v_ranges := UnlockRange 0 (pj_size job) True (v_ranges ?v)\<rparr>),
         v_ranges := v_ranges (?v\<lparr>v_flushing := v_flushing ?v - f_MaxParallelParts (g_flags E), v_ranges := UnlockRange 0 (pj_size job) True (v_ranges ?v)\<rparr>)\<rparr>"
      "st' = ST_CACHED \<or> st' = ST_MODIFIED"
      "st' = ST_CACHED \<Longrightarrow> v_size ?v = pj_size job \<and> (\<forall>x. \<not> dirty (v_pos ?w x) \<and> \<not> flushed (v_pos ?w x))"
    show ?thesis using vinv_smallDone [OF W(3,4) ex s'(5,6)] s'(1-4) by (simp add: ex keeps_Some)
  qed
qed (use w in \<open>auto simp: keeps_id split: option.split exJob.split\<close>)

section \<open>The multipart upload\<close>

lemma exEnds_keeps:
  assumes "winv E p (s, h)" "h_ex h = Some j" "exLock (Some j) = {}"
  shows "keeps E p (s, h) (Some (exEnds E p (s, h)))"
  using vinv_endEx(1) [OF winvD(3) [OF assms(1)] assms(2,3)] winvD(1) [OF assms(1)] by (simp add: exEnds_def keeps_Some)

lemma step_EMpuRequest:
  assumes w: "winv E p (s, h)"
  shows "keeps E p (s, h) (fileExec os wait sync St E p EMpuRequest (s, h))"
proof (cases "\<exists>c key. h_ex h = Some (MpuStart c key)")
  case True
  then obtain c key where ex: "h_ex h = Some (MpuStart c key)" by blast
  have "jobOk (g_parts E) (view E s p) h MpuBeginning" using vinvD(6) [OF winvD(3) [OF w] ex] by simp
  from vinv_setEx [OF winvD(3) [OF w] ex this] show ?thesis using winvD(1) [OF w] by (simp add: ex keeps_Some beginMultipart_request_def)
qed (use w in \<open>auto simp: keeps_id split: option.split exJob.split\<close>)

lemma step_EMpuAnswer:
  assumes w: "winv E p (s, h)" and v: "fileValid E p (EMpuAnswer now answer) (s, h)"
  shows "keeps E p (s, h) (fileExec os wait sync St E p (EMpuAnswer now answer) (s, h))"
proof (cases "h_ex h = Some MpuBeginning")
  case True
  note W = winvD [OF w]
  show ?thesis
  proof (cases answer)
    case (Inl e)
    then show ?thesis using vinv_endEx(1) [OF W(3) True] W(1) by (simp add: True exEnds_def beginMultipart_done_def keeps_Some)
  next
    case (Inr m)
    let ?m = "m\<lparr>mpu_ptr := nextMpu (recordFlushError now s p None)\<rparr>"
    have "length (part_lens (g_parts E)) \<le> length (mpu_Parts ?m)" "\<And>i. i < length (mpu_Parts ?m) \<Longrightarrow> mpu_Parts ?m ! i = None"
      using v Inr by (simp_all add: list_all_length)
    from vinv_mpuDone [OF W(3) True this] show ?thesis using W(1) Inr
      by (simp add: True exEnds_def beginMultipart_done_def keeps_Some errorOf_def Let_def)
  qed
qed (use w in \<open>auto simp: keeps_id split: option.split exJob.split\<close>)

text \<open>With parts that are copied one by one, the ranges to copy are the parts that were not uploaded.\<close>

lemma copyRanges_loop_each:
  assumes pos: "parts_ok ps" and sz: "sz \<le> getMaxFileSize ps"
    and "\<And>i. i \<in> set is \<Longrightarrow> i < length (part_lens ps) \<and> i < length parts \<and> part_start ps i < sz"
  shows "\<exists>sp so eo. copyRanges_loop ps 0 sz parts is (ranges, startPart, 0, startOffset, endOffset) =
    Some (ranges @ map (\<lambda>i. (i, part_start ps i, min (part_lens ps ! i) (sz - part_start ps i))) (filter (\<lambda>i. parts ! i = None) is), sp, 0, so, eo)"
  using assms(3)
proof (induction "is" arbitrary: ranges startPart startOffset endOffset)
  case (Cons i "is")
  have i: "i < length (part_lens ps)" "i < length parts" "part_start ps i < sz" using Cons.prems by simp_all
  have max: "getMaxFileSize ps < u64_max" using pos by (simp add: parts_ok_def getMaxFileSize_eq)
  have len: "part_start ps i + part_lens ps ! i \<le> getMaxFileSize ps" by (rule inPart_start(3) [OF pos i(1)])
  have cut: "sub64 (if add64 (part_start ps i) (part_lens ps ! i) > sz then sz else add64 (part_start ps i) (part_lens ps ! i)) (part_start ps i) =
      min (part_lens ps ! i) (sz - part_start ps i)"
    using i(3) len max sz by (simp add: u64_simps)
  have IH: "\<exists>sp so eo. copyRanges_loop ps 0 sz parts is (r, st, 0, a, b) =
    Some (r @ map (\<lambda>i. (i, part_start ps i, min (part_lens ps ! i) (sz - part_start ps i))) (filter (\<lambda>i. parts ! i = None) is), sp, 0, so, eo)" for r st a b
    by (rule Cons.IH) (use Cons.prems in simp)
  show ?case
  proof (cases "parts ! i")
    case None
    then show ?thesis using IH [of "ranges @ [(i, part_start ps i, min (part_lens ps ! i) (sz - part_start ps i))]"] i cut
      by (simp add: partRange_start [OF pos i(1)] Let_def)
  next
    case (Some a)
    then show ?thesis using IH [of ranges] i by (simp add: partRange_start [OF pos i(1)] Let_def)
  qed
qed simp

lemma numParts_parts:
  assumes pos: "parts_ok ps" and sz: "sz \<le> getMaxFileSize ps" and n: "numParts ps sz = Some n"
  shows "n \<le> length (part_lens ps)" "i < n \<longleftrightarrow> i < length (part_lens ps) \<and> part_start ps i < sz"
proof -
  have k: "sz \<le> part_start ps n" "\<And>j. j < n \<Longrightarrow> part_start ps j < sz" using numParts_spec [OF pos sz] n by auto
  have "part_start ps (length (part_lens ps)) = getMaxFileSize ps" using pos by (simp add: parts_ok_def getMaxFileSize_eq part_start_end)
  then show le: "n \<le> length (part_lens ps)" using k(2) [of "length (part_lens ps)"] sz by linarith
  show "i < n \<longleftrightarrow> i < length (part_lens ps) \<and> part_start ps i < sz"
    using le k part_start_mono [of n i ps] by (cases "i < n") auto
qed

lemma copyRanges_each:
  assumes pos: "parts_ok ps" and sz: "sz \<le> getMaxFileSize ps" and n: "numParts ps sz = Some n" and len: "length (part_lens ps) \<le> length parts"
  obtains rs where "copyRanges ps 0 sz parts n = Some rs" "distinct (map fst rs)"
    "set rs = {(i, part_start ps i, min (part_lens ps ! i) (sz - part_start ps i)) | i. i < length (part_lens ps) \<and> part_start ps i < sz \<and> parts ! i = None}"
proof -
  note N = numParts_parts [OF pos sz n]
  let ?f = "\<lambda>i. (i, part_start ps i, min (part_lens ps ! i) (sz - part_start ps i))"
  have "i < length (part_lens ps) \<and> i < length parts \<and> part_start ps i < sz" if "i \<in> set [0..<n]" for i using that N(2) [of i] len by auto
  then have "copyRanges ps 0 sz parts n = Some (map ?f (filter (\<lambda>i. parts ! i = None) [0..<n]))"
    using copyRanges_loop_each [OF pos sz, of "[0..<n]" parts "[]" 0 0 0] by (auto simp: copyRanges_def)
  then show ?thesis by (rule that) (use N(2) in \<open>auto simp: comp_def\<close>)
qed

lemma step_ECompBegin:
  assumes E: "fileEnv E" and w: "winv E p (s, h)" and v: "fileValid E p ECompBegin (s, h)"
  shows "keeps E p (s, h) (fileExec os wait sync St E p ECompBegin (s, h))"
proof (cases "\<exists>sz. h_ex h = Some (CompStart sz)")
  case True
  then obtain sz where ex: "h_ex h = Some (CompStart sz)" by blast
  note W = winvD [OF w]
  let ?ps = "g_parts E" let ?v = "view E s p"
  have sz: "sizeOf s p = sz" "sz \<le> maxSize E" using v ex W(5) by (auto simp: view_sel)
  have comp: "compOk ?ps ?v h sz" using vinvD(6) [OF W(3) ex] by simp
  then obtain m where m: "v_mpu ?v = Some m" by (auto simp: compOk_def)
  have mp: "i_mpu (heap s p) = Some m" using m by (simp add: view_sel)
  have len: "length (part_lens ?ps) \<le> length (mpu_Parts m)" using vinvD(1) [OF W(3)] m by (simp add: sizesOk_def)
  obtain n where n: "numParts ?ps sz = Some n" using numParts_spec [OF W(2) sz(2)] by blast
  obtain rs where rs: "copyRanges ?ps 0 sz (mpu_Parts m) n = Some rs" "distinct (map fst rs)"
    "set rs = {(i, part_start ?ps i, min (part_lens ?ps ! i) (sz - part_start ?ps i)) | i. i < length (part_lens ?ps) \<and> part_start ?ps i < sz \<and> mpu_Parts m ! i = None}"
    by (rule copyRanges_each [OF W(2) sz(2) n len])
  have rec: "\<not> recorded ?v i \<longleftrightarrow> mpu_Parts m ! i = None" if "i < length (part_lens ?ps)" for i using that len m by (auto simp: recorded_def)
  have "jobOk ?ps ?v h (Copying sz n (fst (objectKey E s p)) (snd (objectKey E s p)) m rs)"
    using comp n m rs(2) unfolding jobOk.simps rs(3) by (auto simp: rec)
  from vinv_setEx [OF W(3) ex this] show ?thesis using W(1) E rs(1) n sz(1) mp by (simp add: ex keeps_Some fileEnv_def u64_simps)
qed (use w in \<open>auto simp: keeps_id split: option.split exJob.split\<close>)

lemma step_ECopied:
  assumes w: "winv E p (s, h)"
  shows "keeps E p (s, h) (fileExec os wait sync St E p (ECopied k pid) (s, h))"
proof (cases "\<exists>sz n c key mpu rs. h_ex h = Some (Copying sz n c key mpu rs) \<and> k < length rs")
  case True
  then obtain sz n c key mpu rs where ex: "h_ex h = Some (Copying sz n c key mpu rs)" and k: "k < length rs" by blast
  obtain i off len where r: "rs ! k = (i, off, len)" by (cases "rs ! k") auto
  then have mem: "(i, off, len) \<in> set rs" using k by (metis nth_mem)
  note W = winvD [OF w]
  have j: "jobOk (g_parts E) (view E s p) h (Copying sz n c key mpu rs)" by (rule vinvD(6) [OF W(3) ex])
  then obtain m where m: "v_mpu (view E s p) = Some m" "mpu_ptr m = mpu_ptr mpu" by auto
  have mp: "i_mpu (heap s p) = Some m" using m(1) by (simp add: view_sel)
  have "i < length (part_lens (g_parts E))" using j mem by auto
  then have i: "i < length (mpu_Parts m)" using vinvD(1) [OF W(3)] m(1) by (simp add: sizesOk_def)
  show ?thesis using vinv_copyDone [OF W(3,2) ex mem m(1), of pid] W(1) mp m(2)
    by (simp add: ex k r copyPart_done_def setPart_eq [OF i] keeps_Some)
qed (use w in \<open>auto simp: keeps_id split: option.split exJob.split\<close>)

lemma step_ECopyEnd:
  assumes E: "fileEnv E" and w: "winv E p (s, h)" and v: "fileValid E p (ECopyEnd now err) (s, h)"
  shows "keeps E p (s, h) (fileExec os wait sync St E p (ECopyEnd now err) (s, h))"
proof (cases "\<exists>sz n c key mpu rs. h_ex h = Some (Copying sz n c key mpu rs)")
  case True
  then obtain sz n c key mpu rs where ex: "h_ex h = Some (Copying sz n c key mpu rs)" by blast
  note W = winvD [OF w]
  let ?ps = "g_parts E" let ?v = "view E s p"
  have j: "jobOk ?ps ?v h (Copying sz n c key mpu rs)" by (rule vinvD(6) [OF W(3) ex])
  then obtain m where m: "v_mpu ?v = Some m" "mpu_ptr m = mpu_ptr mpu" by auto
  have mp: "i_mpu (heap s p) = Some m" using m(1) by (simp add: view_sel)
  have up: "uploading (i_CacheState (heap s p))" using vinvD(7) [OF W(3)] ex by (simp add: locksOk_def view_sel)
  let ?s = "recordFlushError now s p err"
  have mp': "i_mpu (heap ?s p) = Some m" using view_sel(4) [of E ?s p] m(1) by simp
  have w': "winv E p (?s, h)" using w by (simp add: winv_def)
  have sz: "sizeOf ?s p = sizeOf s p" using view_sel(1) [of E ?s p] view_sel(1) [of E s p] by simp
  have copied: "complete_copied E now s p err = Some (?s, err = None)" using up v mp' by (simp add: complete_copied_def Let_def)
  show ?thesis
  proof (cases "err = None")
    case True
    have "sz \<le> maxSize E" using j W(5) by (auto simp: compOk_def)
    then have n: "n mod 2 ^ 32 = n" using numParts_parts(1) [OF W(2), of sz n] j E by (simp add: fileEnv_def)
    obtain c' key' where key: "objectKey E ?s p = (c', key')" by (cases "objectKey E ?s p")
    let ?m = "m\<lparr>mpu_NumParts := n\<rparr>"
    let ?job = "\<lparr>cj_cloud = c', cj_key = key', cj_mpu = ?m, cj_size = sz\<rparr>"
    have "commit_request E ?s p n sz = Some (inflightAdd key' (upd p (\<lambda>i. i\<lparr>i_mpu := Some ?m\<rparr>) ?s), ?job)"
      by (simp add: commit_request_def mp' key n [simplified] Let_def)
    moreover have v1: "vinv ?ps (f_MaxParallelParts (g_flags E)) (?v\<lparr>v_mpu := Some ?m\<rparr>) h" by (rule vinv_mpuSame [OF W(3) m(1)]) simp_all
    have "rs = []" using v ex True by simp
    then have "jobOk ?ps (?v\<lparr>v_mpu := Some ?m\<rparr>) h (Committing ?job)" using vinvD(6) [OF v1 ex] by simp
    then have "vinv ?ps (f_MaxParallelParts (g_flags E)) (?v\<lparr>v_mpu := Some ?m\<rparr>) (h\<lparr>h_ex := Some (Committing ?job)\<rparr>)"
      by (rule vinv_setEx [OF v1 ex]) simp
    ultimately show ?thesis using copied True W(1) by (simp add: ex keeps_Some)
  next
    case False
    have "keeps E p (s, h) (Some (exEnds E p (?s, h)))" by (rule keeps_trans [OF exEnds_keeps [OF w' ex]]) (simp_all add: sz)
    then show ?thesis using copied False by (simp add: ex)
  qed
qed (use w in \<open>auto simp: keeps_id split: option.split exJob.split\<close>)

lemma step_ECommitAnswer:
  assumes w: "winv E p (s, h)" and v: "fileValid E p (ECommitAnswer now answer) (s, h)"
  shows "keeps E p (s, h) (fileExec os wait sync St E p (ECommitAnswer now answer) (s, h))"
proof (cases "\<exists>job. h_ex h = Some (Committing job)")
  case True
  then obtain job where ex: "h_ex h = Some (Committing job)" by blast
  note W = winvD [OF w]
  let ?v = "view E s p"
  have m: "map_option mpu_ptr (v_mpu ?v) = Some (mpu_ptr (cj_mpu job))" using vinvD(6) [OF W(3) ex] by simp
  have up: "uploading (v_st ?v)" using vinvD(7) [OF W(3)] ex by (simp add: locksOk_def)
  have a: "\<And>out. answer = Inr out \<Longrightarrow> po_ETag out \<noteq> None" using v by auto
  show ?thesis
  proof (rule commit_done_view [OF W(1) up m a, where now = now])
    fix s' e assume s': "answer = Inl e" "commit_done E now s p job answer = Some s'" "fok E s' p" "view E s' p = ?v"
    then have w': "winv E p (s', h)" using W(3) by (simp add: winv_def)
    have "sizeOf s' p = sizeOf s p" using s'(4) view_sel(1) [of E s' p] view_sel(1) [of E s p] by simp
    then have "keeps E p (s, h) (Some (exEnds E p (s', h)))" by (intro keeps_trans [OF exEnds_keeps [OF w' ex]]) simp_all
    then show ?thesis using s'(1,2) by (simp add: ex)
  next
    fix s' out st' assume s': "answer = Inr out" "commit_done E now s p job answer = Some s'" "fok E s' p"
      "view E s' p = ?v\<lparr>v_mpu := None, v_pos := \<lambda>x. clean_pos (v_pos ?v x), v_known := cj_size job, v_st := st'\<rparr>"
      "st' = ST_CACHED \<or> st' = ST_MODIFIED" "st' = ST_CACHED \<Longrightarrow> v_size ?v = cj_size job \<and> (\<forall>x. \<not> dirty (clean_pos (v_pos ?v x)))"
    have "dirty (clean_pos q) = dirty q" for q by (cases q) auto
    then have "st' = ST_CACHED \<Longrightarrow> v_size ?v = cj_size job \<and> (\<forall>x. \<not> dirty (v_pos ?v x))" using s'(6) by simp
    from vinv_commitDone [OF W(3,2) ex s'(5) this] show ?thesis using s'(1-4) by (simp add: ex exEnds_def keeps_Some)
  qed
qed (use w in \<open>auto simp: keeps_id split: option.split exJob.split\<close>)

lemma vinv_settle:
  assumes inv: "vinv ps M v h" and ex: "h_ex h = None" and c: "v_size v = v_known v" "\<And>x. \<not> dirty (v_pos v x) \<and> \<not> flushed (v_pos v x)"
  shows "vinv ps M (v\<lparr>v_st := ST_CACHED\<rparr>) h"
proof -
  note D = vinvD [OF inv]
  let ?v = "v\<lparr>v_st := ST_CACHED\<rparr>"
  have rec: "recorded ?v = recorded v" by (rule recorded_mpu) simp
  then have "uploaded ps ?v = uploaded ps v" by (simp add: uploaded_def fun_eq_iff)
  then have cells: "cellOk ps ?v h x (v_pos ?v x)" for x using cellOk_mono [OF D(2) [of x], of ?v h] by simp
  have "snapshot ?v = snapshot v" by (simp add: snapshot_def fun_eq_iff)
  then have "phaseOk ps ?v h i ph = phaseOk ps v h i ph" for i ph by (cases ph) (simp_all add: sizeFits_def rec)
  moreover have "partsOk ps ?v h = partsOk ps v h" by (simp add: partsOk_def rec)
  ultimately show ?thesis using D cells ex c
    by (simp add: vinv_def sizesOk_def cachedOk_def upsOk_def locksOk_def)
qed

lemma step_EMetaAnswer:
  assumes w: "winv E p (s, h)" and v: "fileValid E p (EMetaAnswer now err) (s, h)"
  shows "keeps E p (s, h) (fileExec os wait sync St E p (EMetaAnswer now err) (s, h))"
proof (cases "\<exists>job. h_ex h = Some (MetaUpdating job)")
  case True
  then obtain job where ex: "h_ex h = Some (MetaUpdating job)" by blast
  note W = winvD [OF w]
  let ?v = "view E s p" let ?M = "f_MaxParallelParts (g_flags E)"
  have err: "\<not> conflict err" using v by simp
  have v1: "vinv (g_parts E) ?M (?v\<lparr>v_flushing := v_flushing ?v - ?M\<rparr>) (h\<lparr>h_ex := None\<rparr>)" by (rule vinv_endEx(1) [OF W(3) ex]) simp
  show ?thesis
  proof (rule updateMeta_done_view [OF W(1) err, where now = now and job = job])
    fix s' st' assume s': "updateMeta_done E now s p job err = Some s'" "fok E s' p" "view E s' p = ?v\<lparr>v_st := st', v_flushing := v_flushing ?v - ?M\<rparr>"
      "st' = v_st ?v \<or> st' = ST_CACHED \<and> v_st ?v = ST_MODIFIED \<and> v_size ?v = v_known ?v \<and> (\<forall>x. \<not> dirty (v_pos ?v x) \<and> \<not> flushed (v_pos ?v x))"
    have swap: "view E s' p = ?v\<lparr>v_flushing := v_flushing ?v - ?M, v_st := st'\<rparr>" using s'(3) by simp
    have "vinv (g_parts E) ?M (view E s' p) (h\<lparr>h_ex := None\<rparr>)"
    proof (cases "st' = v_st ?v")
      case True
      then show ?thesis using v1 unfolding swap by simp
    next
      case False
      then show ?thesis using s'(4) vinv_settle [OF v1] unfolding swap by simp
    qed
    then show ?thesis using s'(1-3) by (simp add: ex keeps_Some)
  qed
qed (use w in \<open>auto simp: keeps_id split: option.split exJob.split\<close>)

end
