(* ===== verification/File_Try.thy ===== *)
theory File_Try
  imports File_Uploads
begin

text \<open>Which uploads \<open>TryFlush\<close> starts: it starts none that would lose data.\<close>

section \<open>The buffers of a part\<close>

lemma partBuffers_flags:
  "fst (partBuffers hi es (d, e, z, nz, le)) \<longleftrightarrow> d \<or> (\<exists>x \<in> set (takeWhile (\<lambda>x. fb_offset (snd x) < hi) es). fb_state (snd x) = BUF_DIRTY)"
  "fst (snd (partBuffers hi es (d, e, z, nz, le))) \<longleftrightarrow> e \<or> (\<exists>x \<in> set (takeWhile (\<lambda>x. fb_offset (snd x) < hi) es). fb_state (snd x) = BUF_FL_CLEARED)"
proof (induction es arbitrary: d e z nz le)
  case (Cons x es)
  case 1
  show ?case by (cases x) (simp add: Cons(1) disj_assoc, force)
  case 2
  show ?case by (cases x) (simp add: Cons(2) disj_assoc, force)
qed simp_all

context buffer_env
begin

lemma window_state:
  assumes inv: "BL_inv E M hinv cv l" and am: "all_mem E l" and sz: "0 < sz"
    and P: "\<And>c. in_mem c \<Longrightarrow> P (pos_of (Some c)) \<longleftrightarrow> c_state c = st" "\<not> P Absent"
  shows "(\<exists>e \<in> set (takeWhile (\<lambda>e. fb_offset (snd e) < off + sz) (bt_asc (env_at E) (bl_at l) (Suc off))). fb_state (snd e) = st) \<longleftrightarrow>
    (\<exists>x. off \<le> x \<and> x < off + sz \<and> P (lpos E l x))" (is "?L \<longleftrightarrow> ?R")
proof
  assume ?L
  then obtain k b where kb: "bufs E l k = Some b" "off < k" "fb_offset b < off + sz" "fb_state b = st" unfolding asc_window [OF inv] by auto
  let ?x = "max off (fb_offset b)"
  have x: "fb_offset b \<le> ?x" "?x < k" using kb(2) inv_shape(4) [OF inv kb(1)] by auto
  have "P (lpos E l ?x)" using P(1) [OF cell_pos(2) [OF inv am kb(1) x]] kb(4) cell_pos(1) [OF inv am kb(1) x] by (simp add: cell_of_def)
  then show ?R using kb(3) sz by (intro exI [of _ ?x]) auto
next
  assume ?R
  then obtain x where x: "off \<le> x" "x < off + sz" "P (lpos E l x)" by blast
  then have "cell E l x \<noteq> None" using P(2) by (cases "cell E l x") (auto simp: lpos_def pos_of_def)
  then obtain b where "covers (bufs E l) x b" using cell_None [OF BL_invD(1) [OF inv], of x] by auto
  then obtain k where k: "bufs E l k = Some b" "fb_offset b \<le> x" "x < k" by (auto simp: covers_def)
  then have "fb_state b = st" using P(1) [OF cell_pos(2) [OF inv am k]] x(3) cell_pos(1) [OF inv am k] by (simp add: cell_of_def)
  then show ?L using k x unfolding asc_window [OF inv] by (intro bexI [of _ "(k, b)"]) auto
qed

end

lemma partBuffers_view:
  assumes ok: "fok E s p" and i: "i < length (part_lens (g_parts E))"
  defines "off \<equiv> part_start (g_parts E) i" and "hi \<equiv> part_start (g_parts E) i + part_lens (g_parts E) ! i"
  shows "fst (partBuffers hi (bt_asc (g_A E) (bl_at (i_buffers (heap s p))) (Suc off)) (False, False, False, False, 0)) \<longleftrightarrow>
      (\<exists>x. inPart (g_parts E) i x \<and> dirty (v_pos (view E s p) x))"
    "fst (snd (partBuffers hi (bt_asc (g_A E) (bl_at (i_buffers (heap s p))) (Suc off)) (False, False, False, False, 0))) \<longleftrightarrow>
      (\<exists>x. inPart (g_parts E) i x \<and> v_pos (view E s p) x = Evicted)"
proof -
  note D = fokD [OF ok]
  let ?es = "takeWhile (\<lambda>e. fb_offset (snd e) < hi) (bt_asc (env_at (bufEnvOf E p)) (bl_at (bufsOf s p)) (Suc off))"
  have l: "0 < part_lens (g_parts E) ! i" by (rule inPart_start(2) [OF fok_parts [OF ok] i])
  have at: "bt_asc (g_A E) (bl_at (i_buffers (heap s p))) (Suc off) = bt_asc (env_at (bufEnvOf E p)) (bl_at (bufsOf s p)) (Suc off)"
    by (simp add: bufEnvOf_def inode_env_def bufsOf_def)
  have m: "dirty (pos_of (Some c)) \<longleftrightarrow> c_state c = BUF_DIRTY" "pos_of (Some c) = Evicted \<longleftrightarrow> c_state c = BUF_FL_CLEARED" if "in_mem c" for c
    using that by (cases "c_state c"; auto simp: pos_of_def in_mem_def)+
  have ip: "inPart (g_parts E) i x \<longleftrightarrow> off \<le> x \<and> x < hi" for x using i by (simp add: inPart_def off_def hi_def)
  have "(\<exists>e \<in> set ?es. fb_state (snd e) = BUF_DIRTY) \<longleftrightarrow> (\<exists>x. off \<le> x \<and> x < hi \<and> dirty (lpos (bufEnvOf E p) (bufsOf s p) x))"
    unfolding hi_def off_def by (rule buffer_env.window_state [OF D(1-3) l]) (simp_all add: m)
  then show "fst (partBuffers hi (bt_asc (g_A E) (bl_at (i_buffers (heap s p))) (Suc off)) (False, False, False, False, 0)) \<longleftrightarrow>
      (\<exists>x. inPart (g_parts E) i x \<and> dirty (v_pos (view E s p) x))" unfolding partBuffers_flags at ip view_sel by auto
  have "(\<exists>e \<in> set ?es. fb_state (snd e) = BUF_FL_CLEARED) \<longleftrightarrow> (\<exists>x. off \<le> x \<and> x < hi \<and> lpos (bufEnvOf E p) (bufsOf s p) x = Evicted)"
    unfolding hi_def off_def by (rule buffer_env.window_state [OF D(1-3) l, where P = "\<lambda>q. q = Evicted"]) (simp_all add: m)
  then show "fst (snd (partBuffers hi (bt_asc (g_A E) (bl_at (i_buffers (heap s p))) (Suc off)) (False, False, False, False, 0))) \<longleftrightarrow>
      (\<exists>x. inPart (g_parts E) i x \<and> v_pos (view E s p) x = Evicted)" unfolding partBuffers_flags at ip view_sel by auto
qed

section \<open>Starting uploads of parts\<close>

text \<open>A part whose upload may be started.\<close>

definition freePart :: "('t, 'd, 'c) gEnv \<Rightarrow> ptr \<Rightarrow> ('t, 'd, 'c) world \<Rightarrow> nat \<Rightarrow> bool" where
  "freePart E p = (\<lambda>(s, h) i. i < length (part_lens (g_parts E)) \<and> part_start (g_parts E) i < sizeOf s p \<and> h_up h i = None \<and>
     (\<forall>x. inPart (g_parts E) i x \<longrightarrow> v_pos (view E s p) x \<noteq> Evicted))"

abbreviation partJob :: "u64 \<times> u64 \<times> u64 \<times> nat \<Rightarrow> flushJob" where
  "partJob \<equiv> \<lambda>(a, b, c, d). PartJob a b c d"

text \<open>States that differ in the uploads of parts only.\<close>

definition sameData :: "('t, 'd, 'c) gEnv \<Rightarrow> ptr \<Rightarrow> ('t, 'd, 'c) Goofys \<Rightarrow> ('t, 'd, 'c) Goofys \<Rightarrow> bool" where
  "sameData E p s s' \<longleftrightarrow> v_pos (view E s' p) = v_pos (view E s p) \<and> v_size (view E s' p) = v_size (view E s p) \<and> v_mpu (view E s' p) = v_mpu (view E s p)"

lemma start_part:
  assumes w: "winv E p (s, h)" and ex: "h_ex h = None" and mpu: "v_mpu (view E s p) \<noteq> None" and i: "freePart E p (s, h) i"
  defines "off \<equiv> part_start (g_parts E) i" and "len \<equiv> part_lens (g_parts E) ! i"
  shows "winv E p (goFlushPart p off len prio s, addJob sz (PartJob i off len prio) h)" "sameData E p s (goFlushPart p off len prio s)"
proof -
  note W = winvD [OF w]
  have v: "view E (goFlushPart p off len prio s) p = (view E s p)\<lparr>v_ranges := LockRange off len True (v_ranges (view E s p)), v_flushing := v_flushing (view E s p) + 1\<rparr>"
    by (simp add: goFlushPart_def)
  show "sameData E p s (goFlushPart p off len prio s)" by (simp add: sameData_def v)
  have "vinv (g_parts E) (f_MaxParallelParts (g_flags E)) (view E (goFlushPart p off len prio s) p) (addJob sz (PartJob i off len prio) h)"
    unfolding v using vinv_startPart [OF W(3,2) _ _ mpu _ ex, of i prio] i by (simp add: freePart_def view_sel(1) view_swap off_def len_def)
  then show "winv E p (goFlushPart p off len prio s, addJob sz (PartJob i off len prio) h)" using W(1) by (simp add: winv_def goFlushPart_def)
qed

lemma unlocked_free:
  assumes w: "winv E p (s, h)" and i: "i < length (part_lens (g_parts E))"
    and r: "\<not> IsRangeLocked (part_start (g_parts E) i) (part_lens (g_parts E) ! i) True (i_readRanges (heap s p))"
  shows "h_up h i = None"
proof (rule ccontr)
  note W = winvD [OF w]
  assume "h_up h i \<noteq> None"
  then have "partLock (g_parts E) i \<in> set (filter rr_Flushing (v_ranges (view E s p)))"
    using vinvD(7) [OF W(3)] unfolding locksOk_def by blast
  then show False using r inPart_start(2,3) [OF W(2) i] W(7) by (auto simp: IsRangeLocked_iff partLock_def view_sel u64_simps)
qed

text \<open>What the choice of parts started and found out.\<close>

definition chosen :: "('t, 'd, 'c) gEnv \<Rightarrow> ptr \<Rightarrow> u64 \<Rightarrow> u64 list \<Rightarrow> ('t, 'd, 'c) world \<Rightarrow> partChoice \<Rightarrow> (('t, 'd, 'c) Goofys \<times> partChoice) option \<Rightarrow> bool" where
  "chosen E p n parts w c r \<longleftrightarrow> (\<exists>s' c' js. r = Some (s', c') \<and> pc_jobs c' = pc_jobs c @ js \<and> winv E p (s', fold (addJob n) (map partJob js) (snd w)) \<and>
     sameData E p (fst w) s' \<and> (pc_initiated c' \<longleftrightarrow> pc_initiated c \<or> js \<noteq> []) \<and> (js = [] \<longrightarrow> s' = fst w) \<and>
     (pc_shouldComplete c' \<longrightarrow> pc_shouldComplete c \<and> (\<forall>i \<in> set parts. \<exists>x. inPart (g_parts E) i x \<and> v_pos (view E (fst w) p) x = Evicted)) \<and>
     (js = [] \<longrightarrow> set (pc_partlyZero c') \<subseteq> set (pc_partlyZero c) \<union> {i. freePart E p w i}))"

lemma chosen_skip:
  assumes "chosen E p n parts w c' r" "pc_jobs c' = pc_jobs c" "pc_initiated c' = pc_initiated c"
    "pc_shouldComplete c' \<Longrightarrow> pc_shouldComplete c \<and> (\<exists>x. inPart (g_parts E) i x \<and> v_pos (view E (fst w) p) x = Evicted)"
    "set (pc_partlyZero c') \<subseteq> set (pc_partlyZero c) \<union> {i. freePart E p w i}"
  shows "chosen E p n (i # parts) w c r"
proof -
  obtain s' c'' js where r: "r = Some (s', c'')" "pc_jobs c'' = pc_jobs c' @ js" "winv E p (s', fold (addJob n) (map partJob js) (snd w))"
    "sameData E p (fst w) s'" "pc_initiated c'' \<longleftrightarrow> pc_initiated c' \<or> js \<noteq> []" "js = [] \<longrightarrow> s' = fst w"
    "pc_shouldComplete c'' \<longrightarrow> pc_shouldComplete c' \<and> (\<forall>i \<in> set parts. \<exists>x. inPart (g_parts E) i x \<and> v_pos (view E (fst w) p) x = Evicted)"
    "js = [] \<longrightarrow> set (pc_partlyZero c'') \<subseteq> set (pc_partlyZero c') \<union> {i. freePart E p w i}" using assms(1) unfolding chosen_def by blast
  show ?thesis unfolding chosen_def using r assms(2-5) by (intro exI [of _ s'] exI [of _ c''] exI [of _ js]) auto
qed

lemma addJob_part [simp]: "h_ex (addJob n (partJob j) h) = h_ex h" "h_content (addJob n (partJob j) h) = h_content h"
  by (cases j; simp)+

lemma chosen_start:
  assumes "chosen E p n parts (s1, addJob n (partJob j) h) c1 r" "sameData E p s s1" "pc_jobs c1 = pc_jobs c @ [j]" "pc_initiated c1" "\<not> pc_shouldComplete c1"
  shows "chosen E p n parts' (s, h) c r"
proof -
  obtain s' c' js where r: "r = Some (s', c')" "pc_jobs c' = pc_jobs c1 @ js" "winv E p (s', fold (addJob n) (map partJob js) (addJob n (partJob j) h))"
    "sameData E p s1 s'" "pc_initiated c'" "\<not> pc_shouldComplete c'" using assms(1,4,5) unfolding chosen_def by auto
  have "sameData E p s s'" using assms(2) r(4) by (simp add: sameData_def)
  then show ?thesis unfolding chosen_def using r assms(3) by (intro exI [of _ s'] exI [of _ c'] exI [of _ "j # js"]) simp
qed

lemma chooseParts_chosen:
  assumes "winv E p (s, h)" "h_ex h = None" "v_mpu (view E s p) \<noteq> None"
    "\<And>i. i \<in> set parts \<Longrightarrow> i < length (part_lens (g_parts E)) \<and> part_start (g_parts E) i < v_size (view E s p) \<and>
       (\<exists>x. inPart (g_parts E) i x \<and> dirty (v_pos (view E s p) x))"
  shows "chosen E p n parts (s, h) c (chooseParts E p prio flushInode pressed parts s c)"
  using assms
proof (induction parts arbitrary: s h c)
  case (Cons i parts)
  note w = Cons.prems(1) and W = winvD [OF Cons.prems(1)]
  let ?ps = "g_parts E" let ?off = "part_start ?ps i" and ?len = "part_lens ?ps ! i"
  have i: "i < length (part_lens ?ps)" "?off < v_size (view E s p)" "\<exists>x. inPart ?ps i x \<and> dirty (v_pos (view E s p) x)" using Cons.prems(4) [of i] by auto
  have IH: "chosen E p n parts (s, h) c' (chooseParts E p prio flushInode pressed parts s c')" for c'
    by (rule Cons.IH [OF w Cons.prems(2,3)]) (use Cons.prems(4) in simp)
  have u: "add64 ?off (Suc 0) = Suc ?off" "add64 ?off ?len = ?off + ?len" using inPart_start(2,3) [OF W(2) i(1)] W(7) by (simp_all add: u64_simps)
  have "v_last (view E s p) \<le> maxSize E" using vinvD(1) [OF W(3)] by (simp add: sizesOk_def)
  then obtain lp where lp: "partNum ?ps (i_lastWriteEnd (heap s p)) = Some lp" using partNum_total [OF W(2)] by (auto simp: view_sel)
  obtain d e z nz le where pb: "partBuffers (?off + ?len) (bt_asc (g_A E) (bl_at (i_buffers (heap s p))) (Suc ?off)) (False, False, False, False, 0) = (d, e, z, nz, le)"
    by (metis surj_pair)
  have d: "d" and e: "e \<longleftrightarrow> (\<exists>x. inPart ?ps i x \<and> v_pos (view E s p) x = Evicted)"
    using partBuffers_view [OF W(1) i(1)] i(3) unfolding pb by auto
  let ?c0 = "c\<lparr>pc_shouldComplete := False\<rparr>" and ?c1 = "c\<lparr>pc_anyEvicted := pc_anyEvicted c \<or> e\<rparr>"
  let ?c2 = "c\<lparr>pc_fullyZero := (if \<not> nz \<and> prio \<ge> 3 then pc_fullyZero c @ [i] else pc_fullyZero c),
    pc_partlyZero := (if pressed \<and> nz \<and> prio \<ge> 2 then pc_partlyZero c @ [i] else pc_partlyZero c), pc_shouldComplete := False\<rparr>"
  let ?s = "goFlushPart p ?off ?len 1 s" and ?j = "(i, ?off, ?len, 1 :: nat)"
  let ?c3 = "c\<lparr>pc_shouldComplete := False, pc_initiated := True, pc_jobs := pc_jobs c @ [?j]\<rparr>"
  have step: "chooseParts E p prio flushInode pressed (i # parts) s c =
      (if IsRangeLocked ?off ?len True (i_readRanges (heap s p)) \<or> i = lp \<and> \<not> flushInode \<and> \<not> pressed then chooseParts E p prio flushInode pressed parts s ?c0
       else if e then chooseParts E p prio flushInode pressed parts s ?c1
       else if (z \<or> le < ?off + ?len) \<and> \<not> flushInode then chooseParts E p prio flushInode pressed parts s ?c2
       else if flushLimitsExceeded E ?s p then Some (?s, ?c3) else chooseParts E p prio flushInode pressed parts ?s ?c3)"
    using d by (simp add: partRange_start [OF W(2) i(1)] lp u pb Let_def)
  consider (skip) "IsRangeLocked ?off ?len True (i_readRanges (heap s p)) \<or> i = lp \<and> \<not> flushInode \<and> \<not> pressed"
    | (ev) "\<not> (IsRangeLocked ?off ?len True (i_readRanges (heap s p)) \<or> i = lp \<and> \<not> flushInode \<and> \<not> pressed)" e
    | (free) "\<not> (IsRangeLocked ?off ?len True (i_readRanges (heap s p)) \<or> i = lp \<and> \<not> flushInode \<and> \<not> pressed)" "\<not> e" by blast
  then show ?case
  proof cases
    case skip
    have "chosen E p n (i # parts) (s, h) c (chooseParts E p prio flushInode pressed parts s ?c0)" by (rule chosen_skip [OF IH]) auto
    then show ?thesis unfolding step using skip by simp
  next
    case ev
    have "chosen E p n (i # parts) (s, h) c (chooseParts E p prio flushInode pressed parts s ?c1)" by (rule chosen_skip [OF IH]) (use e ev in auto)
    then show ?thesis unfolding step if_not_P [OF ev(1)] using ev(2) by simp
  next
    case free
    have fp: "freePart E p (s, h) i" using unlocked_free [OF w i(1)] i e free by (auto simp: freePart_def view_sel(1))
    have st: "winv E p (?s, addJob n (partJob ?j) h)" "sameData E p s ?s" using start_part [OF w Cons.prems(2,3) fp] by simp_all
    have zero: "chosen E p n (i # parts) (s, h) c (chooseParts E p prio flushInode pressed parts s ?c2)"
      by (rule chosen_skip [OF IH]) (use fp in auto)
    have "chosen E p n [] (?s, addJob n (partJob ?j) h) ?c3 (Some (?s, ?c3))" using st(1) by (simp add: chosen_def sameData_def)
    then have limit: "chosen E p n (i # parts) (s, h) c (Some (?s, ?c3))" by (rule chosen_start [OF _ st(2)]) simp_all
    have "chosen E p n parts (?s, addJob n (partJob ?j) h) ?c3 (chooseParts E p prio flushInode pressed parts ?s ?c3)"
      by (rule Cons.IH [OF st(1)]) (use Cons.prems st(2) in \<open>simp_all add: sameData_def\<close>)
    then have "chosen E p n (i # parts) (s, h) c (chooseParts E p prio flushInode pressed parts ?s ?c3)" by (rule chosen_start [OF _ st(2)]) simp_all
    then show ?thesis unfolding step if_not_P [OF free(1)] if_not_P [OF free(2)] using zero limit by presburger
  qed
qed (simp add: chosen_def sameData_def)

lemma zeroParts_skip:
  assumes "parts_ok (g_parts E)" "\<And>i. i \<in> set parts \<Longrightarrow> i < length (part_lens (g_parts E))" "pc_initiated c"
  shows "zeroParts E p prio parts s c = Some (s, c)"
  using assms(2) by (induction parts) (simp_all add: partRange_start [OF assms(1)] assms(3))

text \<open>The loop over the partly zero parts starts the first of them.\<close>

lemma zeroParts_first:
  assumes w: "winv E p (s, h)" and ex: "h_ex h = None" and mpu: "v_mpu (view E s p) \<noteq> None"
    and free: "\<And>i. i \<in> set parts \<Longrightarrow> freePart E p (s, h) i" and p: "parts \<noteq> []" "\<not> pc_initiated c"
  obtains s' j where "zeroParts E p prio parts s c = Some (s', c\<lparr>pc_initiated := True, pc_jobs := pc_jobs c @ [j]\<rparr>)"
    "winv E p (s', addJob n (partJob j) h)" "sameData E p s s'"
proof -
  note W = winvD [OF w]
  obtain i rest where parts: "parts = i # rest" using p(1) by (cases parts) auto
  have i: "k < length (part_lens (g_parts E))" if "k \<in> set parts" for k using free [OF that] by (simp add: freePart_def)
  let ?off = "part_start (g_parts E) i" and ?len = "part_lens (g_parts E) ! i"
  let ?j = "(i, ?off, ?len, prio)" let ?s = "goFlushPart p ?off ?len prio s" let ?c = "c\<lparr>pc_initiated := True, pc_jobs := pc_jobs c @ [?j]\<rparr>"
  have "zeroParts E p prio rest ?s ?c = Some (?s, ?c)" by (rule zeroParts_skip [OF W(2)]) (use i parts in simp_all)
  then have "zeroParts E p prio parts s c = Some (?s, ?c)" using p(2) i [of i] by (simp add: parts partRange_start [OF W(2)])
  then show ?thesis by (rule that) (use start_part [OF w ex mpu free [of i]] parts in simp_all)
qed

lemma dirty_part:
  assumes w: "winv E p (s, h)" and d: "dirty (v_pos (view E s p) x)" and i: "inPart (g_parts E) i x"
  shows "i \<in> set (IterateDirtyParts (bufEnvOf E p) (bufsOf s p))"
proof -
  note W = winvD [OF w] and D = fokD [OF winvD(1) [OF w]]
  have "x < maxSize E" using i inPart_start(3) [OF W(2), of i] by (simp add: inPart_def)
  then have "partNum (g_parts E) x = Some i" using inPart_partNum [OF W(2)] i by blast
  then show ?thesis using d unfolding buffer_env.dirty_parts_pos [OF D(1-3)] by (auto simp: view_sel bufEnvOf_def inode_env_def)
qed

lemma dirty_parts:
  assumes w: "winv E p (s, h)" and i: "i \<in> set (IterateDirtyParts (bufEnvOf E p) (bufsOf s p))"
  shows "i < length (part_lens (g_parts E)) \<and> part_start (g_parts E) i < v_size (view E s p) \<and>
    (\<exists>x. inPart (g_parts E) i x \<and> dirty (v_pos (view E s p) x))"
proof -
  note W = winvD [OF w] and D = fokD [OF winvD(1) [OF w]]
  obtain x where x: "dirty (v_pos (view E s p) x)" "partNum (g_parts E) x = Some i"
    using i unfolding buffer_env.dirty_parts_pos [OF D(1-3)] by (auto simp: view_sel bufEnvOf_def inode_env_def)
  have "x < v_size (view E s p)"
  proof (rule ccontr)
    assume "\<not> x < v_size (view E s p)"
    then show False using cellOk_beyond [OF vinvD(2) [OF W(3)], of x] x(1) by auto
  qed
  moreover from this have "inPart (g_parts E) i x" using inPart_partNum [OF W(2)] x(2) W(5) by auto
  ultimately show ?thesis using x(1) by (auto simp: inPart_def)
qed

lemma sendUploadParts_ok:
  assumes w: "winv E p (s, h)" and ex: "h_ex h = None" and mpu: "v_mpu (view E s p) \<noteq> None"
  obtains s' c where "sendUploadParts E s p prio = Some (s', c)" "winv E p (s', fold (addJob n) (map partJob (pc_jobs c)) h)" "sameData E p s s'"
    "\<not> pc_initiated c \<Longrightarrow> s' = s"
    "\<And>x i. \<not> pc_initiated c \<Longrightarrow> pc_shouldComplete c \<Longrightarrow> dirty (v_pos (view E s p) x) \<Longrightarrow> inPart (g_parts E) i x \<Longrightarrow>
       \<exists>y. inPart (g_parts E) i y \<and> v_pos (view E s p) y = Evicted"
proof -
  let ?parts = "IterateDirtyParts (bufEnvOf E p) (bufsOf s p)"
  let ?c = "\<lparr>pc_initiated = False, pc_shouldComplete = True, pc_partlyZero = [], pc_fullyZero = [], pc_anyEvicted = False, pc_jobs = []\<rparr>"
  let ?fi = "i_fileHandles (heap s p) = 0 \<or> i_forceFlush (heap s p)"
  have "chosen E p n ?parts (s, h) ?c (chooseParts E p prio ?fi (wantFree s > 0) ?parts s ?c)"
    by (rule chooseParts_chosen [OF w ex mpu dirty_parts [OF w]])
  then obtain s' c where c: "chooseParts E p prio ?fi (wantFree s > 0) ?parts s ?c = Some (s', c)"
    "winv E p (s', fold (addJob n) (map partJob (pc_jobs c)) h)" "sameData E p s s'" "pc_initiated c \<longleftrightarrow> pc_jobs c \<noteq> []" "pc_jobs c = [] \<longrightarrow> s' = s"
    "pc_shouldComplete c \<longrightarrow> (\<forall>i \<in> set ?parts. \<exists>x. inPart (g_parts E) i x \<and> v_pos (view E s p) x = Evicted)"
    "pc_jobs c = [] \<longrightarrow> set (pc_partlyZero c) \<subseteq> {i. freePart E p (s, h) i}" unfolding chosen_def by auto
  show ?thesis
  proof (cases "\<not> pc_initiated c \<and> pc_partlyZero c \<noteq> []")
    case True
    then have e: "s' = s" "pc_jobs c = []" "\<And>i. i \<in> set (pc_partlyZero c) \<Longrightarrow> freePart E p (s, h) i" using c by auto
    obtain s2 j where z: "zeroParts E p 2 (pc_partlyZero c) s c = Some (s2, c\<lparr>pc_initiated := True, pc_jobs := pc_jobs c @ [j]\<rparr>)"
      "winv E p (s2, addJob n (partJob j) h)" "sameData E p s s2"
      using zeroParts_first [OF w ex mpu e(3), where parts = "pc_partlyZero c" and c = c and prio = 2 and n = n] True by blast
    have "sendUploadParts E s p prio = Some (s2, c\<lparr>pc_initiated := True, pc_jobs := pc_jobs c @ [j]\<rparr>)"
      using c(1) z(1) True by (simp add: sendUploadParts_def e(1) cong: if_cong)
    then show ?thesis by (rule that) (use z e in simp_all)
  next
    case False
    then have "sendUploadParts E s p prio = Some (s', c)" using c(1) by (auto simp: sendUploadParts_def)
    then show ?thesis by (rule that) (use c dirty_part [OF w] in blast)+
  qed
qed

section \<open>Trying to flush\<close>

lemma no_uploads:
  assumes w: "winv E p (s, h)" and M: "1 \<le> f_MaxParallelParts (g_flags E)"
  shows "0 \<le> i_IsFlushing (heap s p)" "i_IsFlushing (heap s p) < f_MaxParallelParts (g_flags E) \<Longrightarrow> h_ex h = None"
    "i_IsFlushing (heap s p) = 0 \<Longrightarrow> h_up h = Map.empty"
  using vinvD(7) [OF winvD(3) [OF w]] M by (auto simp: locksOk_def view_sel card_eq_0_iff split: if_splits)

definition startsWell :: "('t, 'd, 'c) gEnv \<Rightarrow> ptr \<Rightarrow> ('t, 'd, 'c) world \<Rightarrow> (('t, 'd, 'c) Goofys \<times> flushJob list) option \<Rightarrow> bool" where
  "startsWell E p = (\<lambda>(s, h) r. keeps E p (s, h) (map_option (\<lambda>(s', jobs). (s', fold (addJob (sizeOf s p)) jobs h)) r))"

lemma startsWell_none: "winv E p (s, h) \<Longrightarrow> startsWell E p (s, h) (Some (s, []))"
  by (simp add: startsWell_def keeps_id)

lemma startsWell_ex:
  assumes w: "winv E p (s, h)" and M: "1 \<le> f_MaxParallelParts (g_flags E)" and up: "uploading (i_CacheState (heap s p))"
    and free: "h_ex h = None" "h_up h = Map.empty" and s0: "view E s0 p = view E s p" "fok E s0 p"
    and j: "\<And>h. addJob (sizeOf s p) job h = h\<lparr>h_ex := Some j\<rparr>" "jobOk (g_parts E) (view E s p) h j" "exLock (Some j) = {}"
  shows "startsWell E p (s, h) (Some (startFlush (f_MaxParallelParts (g_flags E)) p s0, [job]))"
  using vinv_startEx [OF winvD(3) [OF w] free _ j(2,3)] up s0 by (simp add: startsWell_def keeps_Some j(1) view_sel(3))

lemma fold_addJob_content: "h_content (fold (addJob n) (map partJob js) h) = h_content h"
  by (induction js arbitrary: h) simp_all

lemma sendUpload_keeps:
  assumes E: "fileEnv E" and w: "winv E p (s, h)" and up: "uploading (i_CacheState (heap s p))"
  shows "startsWell E p (s, h) (sendUpload E s p prio)"
proof -
  note W = winvD [OF w]
  let ?M = "f_MaxParallelParts (g_flags E)" let ?i = "heap s p"
  have M: "1 \<le> ?M" "\<not> f_UsePatch (g_flags E)" using E by (simp_all add: fileEnv_def)
  note N = no_uploads [OF w M(1)] and none = startsWell_none [OF w]
  have old: "i_oldParent ?i = None" using W(1) by (simp add: fok_def)
  have canP: "\<not> canPatch E s p" using M(2) by (simp add: canPatch_def)
  have free: "h_ex h = None" "h_up h = Map.empty" if "i_IsFlushing ?i = 0" using N(2,3) that M(1) by auto
  obtain j where meta: "sendUpdateMeta E s p = (startFlush ?M p (upd p (\<lambda>i. i\<lparr>i_userMetadataDirty := 0\<rparr>) s), j)"
    by (cases "cloud E s p") (simp add: sendUpdateMeta_def Let_def)
  obtain c key where start: "sendStartMultipart E s p = (startFlush ?M p s, c, key)" by (cases "cloud E s p") (simp add: sendStartMultipart_def)
  let ?A = "i_CacheState ?i = ST_MODIFIED \<and> i_userMetadataDirty ?i \<noteq> 0 \<and> i_IsFlushing ?i = 0 \<and> \<not> AnyUnclean (i_buffers ?i)"
  have su: "sendUpload E s p prio =
      (if ?A then Some (startFlush ?M p (upd p (\<lambda>i. i\<lparr>i_userMetadataDirty := 0\<rparr>) s), [MetaJob j])
       else if ?M \<le> i_IsFlushing ?i then Some (s, [])
       else if smallFile E s p \<and> i_mpu ?i = None then (if i_IsFlushing ?i = 0 \<and> wantFlush s p then Some (startFlush ?M p s, [SmallJob]) else Some (s, []))
       else if i_mpu ?i = None then (if i_IsFlushing ?i > 0 then Some (s, []) else Some (startFlush ?M p s, [StartMultipartJob c key]))
       else do {
         (s, ch) \<leftarrow> sendUploadParts E s p prio;
         if pc_initiated ch then Some (s, map partJob (pc_jobs ch))
         else if pc_shouldComplete ch \<and> \<not> IsRangeLocked 0 (sizeOf s p) True (i_readRanges (heap s p)) \<and> wantFlush s p
         then Some (startFlush ?M p s, [CompleteJob])
         else Some (s, [])
       })"
    unfolding sendUpload_def Let_def meta start prod.case by (simp add: old canP M(2) cong: if_cong)
  consider (metadata) "?A" | (busy) "\<not> ?A" "?M \<le> i_IsFlushing ?i" | (whole) "\<not> ?A" "\<not> ?M \<le> i_IsFlushing ?i" "i_mpu ?i = None"
    | (parts) "\<not> ?A" "\<not> ?M \<le> i_IsFlushing ?i" "i_mpu ?i \<noteq> None" by blast
  then show ?thesis
  proof cases
    case metadata
    then have "sendUpload E s p prio = Some (startFlush ?M p (upd p (\<lambda>i. i\<lparr>i_userMetadataDirty := 0\<rparr>) s), [MetaJob j])"
      unfolding su by simp
    then show ?thesis using startsWell_ex [OF w M(1) up free, of _ "MetaJob j" "MetaUpdating j"] metadata W(1) by simp
  next
    case busy
    then have "sendUpload E s p prio = Some (s, [])" unfolding su if_not_P [OF busy(1)] by simp
    then show ?thesis using none by simp
  next
    case whole
    have m: "v_mpu (view E s p) = None" using whole(3) by (simp add: view_sel)
    consider (small) "sendUpload E s p prio = Some (startFlush ?M p s, [SmallJob])" "i_IsFlushing ?i = 0"
      | (mpu) "sendUpload E s p prio = Some (startFlush ?M p s, [StartMultipartJob c key])" "i_IsFlushing ?i = 0"
      | (nothing) "sendUpload E s p prio = Some (s, [])"
      using N(1) whole(3) unfolding su if_not_P [OF whole(1)] if_not_P [OF whole(2)]
      by (cases "smallFile E s p"; cases "i_IsFlushing ?i = 0"; cases "wantFlush s p"; simp)
    then show ?thesis
    proof cases
      case small
      then show ?thesis using startsWell_ex [OF w M(1) up free, of s SmallJob SmallStart] m W(1) by simp
    next
      case mpu
      then show ?thesis using startsWell_ex [OF w M(1) up free, of s "StartMultipartJob c key" "MpuStart c key"] m W(1) by simp
    qed (simp add: none)
  next
    case parts
    have ex: "h_ex h = None" and mpu: "v_mpu (view E s p) \<noteq> None" using N(2) parts by (simp_all add: view_sel)
    obtain s' c where s': "sendUploadParts E s p prio = Some (s', c)" "winv E p (s', fold (addJob (sizeOf s p)) (map partJob (pc_jobs c)) h)" "sameData E p s s'"
      "\<not> pc_initiated c \<Longrightarrow> s' = s"
      "\<And>x i. \<not> pc_initiated c \<Longrightarrow> pc_shouldComplete c \<Longrightarrow> dirty (v_pos (view E s p) x) \<Longrightarrow> inPart (g_parts E) i x \<Longrightarrow>
         \<exists>y. inPart (g_parts E) i y \<and> v_pos (view E s p) y = Evicted"
      using sendUploadParts_ok [OF w ex mpu, where prio = prio and n = "sizeOf s p"] by blast
    have no: "\<not> (smallFile E s p \<and> i_mpu ?i = None)" using parts(3) by blast
    have eq: "sendUpload E s p prio = (if pc_initiated c then Some (s', map partJob (pc_jobs c))
        else if pc_shouldComplete c \<and> \<not> IsRangeLocked 0 (sizeOf s' p) True (i_readRanges (heap s' p)) \<and> wantFlush s' p then Some (startFlush ?M p s', [CompleteJob])
        else Some (s', []))"
      unfolding su if_not_P [OF parts(1)] if_not_P [OF parts(2)] if_not_P [OF parts(3)] if_not_P [OF no] s'(1) by simp
    show ?thesis
    proof (cases "pc_initiated c")
      case True
      then show ?thesis using s'(2,3) by (simp add: eq startsWell_def keeps_def fold_addJob_content sameData_def view_sel(1))
    next
      case False
      have "startsWell E p (s, h) (Some (startFlush ?M p s, [CompleteJob]))"
        if c: "pc_shouldComplete c" "\<not> IsRangeLocked 0 (sizeOf s p) True (i_readRanges (heap s p))"
      proof -
        have "h_up h i = None" for i
        proof (rule ccontr)
          assume i: "h_up h i \<noteq> None"
          then have "partLock (g_parts E) i \<in> set (filter rr_Flushing (v_ranges (view E s p)))" using vinvD(7) [OF W(3)] unfolding locksOk_def by blast
          moreover have "i < length (part_lens (g_parts E))" "part_start (g_parts E) i < sizeOf s p"
            using i upsOkD [OF vinvD(5) [OF W(3)]] by (auto simp: view_sel(1))
          ultimately show False using c(2) inPart_start(2,3) [OF W(2), of i] W(5,7) by (auto simp: IsRangeLocked_iff partLock_def view_sel u64_simps)
        qed
        then have "h_up h = Map.empty" by blast
        moreover have "jobOk (g_parts E) (view E s p) h (CompStart (sizeOf s p))"
          using vinv_complete [OF W(3,2) mpu s'(5) [OF False c(1)]] by (simp add: view_sel(1))
        ultimately show ?thesis using startsWell_ex [OF w M(1) up ex, of s CompleteJob "CompStart (sizeOf s p)"] W(1) by simp
      qed
      then show ?thesis using False s'(4) none by (simp add: eq)
    qed
  qed
qed

lemma step_ETry:
  assumes E: "fileEnv E" and w: "winv E p (s, h)"
  shows "keeps E p (s, h) (fileExec os wait sync St E p (ETry now parent over prio) (s, h))"
proof -
  note W = winvD [OF w]
  have st: "i_CacheState (heap s p) \<noteq> ST_DELETED" using vinvD(1) [OF W(3)] by (auto simp: sizesOk_def uploading_def view_sel)
  have dir: "\<not> isDir s p" using W(1) by (simp add: fok_def isDir_def)
  have "keeps E p (s, h) (Some (ScheduleRetryFlush s, h))" using W(1,3) by (simp add: keeps_Some)
  then have "startsWell E p (s, h) (Some (ScheduleRetryFlush s, []))" by (simp add: startsWell_def)
  then have "startsWell E p (s, h) (TryFlush_section E now s p parent over prio)"
    using sendUpload_keeps [OF E w] startsWell_none [OF w] st dir by (simp add: TryFlush_section_def Let_def)
  then show ?thesis by (simp add: startsWell_def)
qed

end
