(* ===== verification/File_Zero.thy ===== *)
theory File_Zero
  imports File_Steps
begin

text \<open>
  \<open>Fallocate\<close> on a file: what it does to the cached positions, and that it keeps the invariant of the
  file and makes its bytes those of the specification.
\<close>

section \<open>The positions\<close>

text \<open>A position inside the new size is a new zero, or what it was; it was a zero already when it had to become one.\<close>

definition zeroed :: "fview \<Rightarrow> u64 \<Rightarrow> (u64 \<Rightarrow> bool) \<Rightarrow> (u64 \<Rightarrow> pos) \<Rightarrow> (u64 \<Rightarrow> nat) \<Rightarrow> bool" where
  "zeroed v sz Z q Di \<longleftrightarrow>
     (\<forall>x. x < sz \<and> q x = Here BUF_DIRTY True 0 \<and> v_cur v < Di x \<and> (v_size v \<le> x \<or> Z x) \<or>
          q x = v_pos v x \<and> (x < v_size v \<or> sz \<le> x) \<and> (x < sz \<and> Z x \<longrightarrow> (\<exists>st. q x = Here st True 0)))"

abbreviation falloc_size :: "u64 \<Rightarrow> u64 \<Rightarrow> u64 \<Rightarrow> 32 word \<Rightarrow> u64" where
  "falloc_size n0 off len mode \<equiv> if extends mode then max n0 (off + len) else n0"

lemma fallocRange_view:
  assumes ok: "fok E s p" and len: "off + len < u64_max" and ext: "extends mode \<Longrightarrow> off + len \<le> maxSize E"
    and v: "v_size (view E s p) \<le> maxSize E" "v_pause (view E s p) \<le> 0"
    and nz: "\<And>x st v. v_size (view E s p) \<le> x \<Longrightarrow> v_pos (view E s p) x \<noteq> Here st True v"
  defines "n0 \<equiv> v_size (view E s p)"
  defines "sz \<equiv> falloc_size n0 off len mode"
  shows "\<exists>s1 o1 l1 D0 k0. fallocRange E wait sync s p off len mode = Some (s1, Inr (o1, l1, n0 < sz)) \<and> fok E s1 p \<and>
    view E s1 p = (view E s p)\<lparr>v_pos := resized n0 sz (v_pos (view E s p)), v_did := D0, v_cur := k0, v_size := sz\<rparr> \<and>
    vids (view E s p) (view E s1 p) \<and> (\<forall>x. n0 \<le> x \<and> x < sz \<longrightarrow> v_cur (view E s p) < D0 x) \<and>
    o1 + l1 \<le> sz \<and> (\<forall>x < sz. off \<le> x \<and> x < off + len \<longleftrightarrow> o1 \<le> x \<and> x < o1 + l1) \<and> (\<not> n0 < sz \<longrightarrow> s1 = s)"
proof -
  have e: "add64 off len = off + len" using len by (simp add: u64_simps)
  have n0: "sizeOf s p = n0" by (simp add: n0_def view_sel)
  have q0: "resized n0 n0 (v_pos (view E s p)) = v_pos (view E s p)" by (auto simp: resized_def fun_eq_iff)
  have same: "view E s p = (view E s p)\<lparr>v_pos := resized n0 n0 (v_pos (view E s p)), v_did := v_did (view E s p), v_cur := v_cur (view E s p), v_size := n0\<rparr>"
    unfolding q0 by (simp add: n0_def)
  consider "extends mode" "n0 < off + len" | "\<not> extends mode" "n0 < off + len" | "off + len \<le> n0" by linarith
  then show ?thesis
  proof cases
    case 1
    then have sz: "sz = off + len" "max n0 (off + len) = off + len" by (simp_all add: sz_def)
    obtain s1 D0 k0 where s1: "ResizeUnlocked E wait sync s p (off + len) = Some s1" "fok E s1 p"
      "view E s1 p = (view E s p)\<lparr>v_pos := resized n0 sz (v_pos (view E s p)), v_did := D0, v_cur := k0, v_size := sz\<rparr>"
      "vids (view E s p) (view E s1 p)" "\<forall>x. n0 \<le> x \<and> x < sz \<longrightarrow> v_cur (view E s p) < D0 x"
      using grown_view [OF ok ext [OF 1(1)] v nz, of wait sync] 1(2) unfolding n0 n0_def [symmetric] sz by auto
    have "fallocRange E wait sync s p off len mode = Some (s1, Inr (off, len, True))"
      using 1 ext s1(1) by (simp add: fallocRange_def e n0 extends_def)
    then show ?thesis using s1 1(2) sz(1) by (intro exI [of _ s1] exI [of _ off] exI [of _ len] exI [of _ D0] exI [of _ k0]) auto
  next
    case 2
    have "n0 < u64_max" using v(1) fokD(4) [OF ok] by (simp add: n0_def)
    then have "fallocRange E wait sync s p off len mode = Some (s, Inr (min off n0, n0 - min off n0, False))"
      using 2 by (simp add: fallocRange_def e n0 extends_def Let_def min_def u64_simps)
    then show ?thesis using 2 ok same
      by (intro exI [of _ s] exI [of _ "min off n0"] exI [of _ "n0 - min off n0"] exI [of _ "v_did (view E s p)"] exI [of _ "v_cur (view E s p)"])
        (auto simp: sz_def)
  next
    case 3
    then have "fallocRange E wait sync s p off len mode = Some (s, Inr (off, len, False))" by (simp add: fallocRange_def e n0)
    then show ?thesis using 3 ok same
      by (intro exI [of _ s] exI [of _ off] exI [of _ len] exI [of _ "v_did (view E s p)"] exI [of _ "v_cur (view E s p)"]) (auto simp: sz_def)
  qed
qed

lemma fallocLocked_view:
  assumes ok: "fok E s p" and len: "off + len < u64_max" and ext: "extends mode \<Longrightarrow> off + len \<le> maxSize E"
    and v: "v_size (view E s p) \<le> maxSize E" "v_pause (view E s p) \<le> 0"
    and nz: "\<And>x st v. v_size (view E s p) \<le> x \<Longrightarrow> v_pos (view E s p) x \<noteq> Here st True v"
    and mode: "mode AND (FALLOC_FL_COLLAPSE_RANGE OR FALLOC_FL_INSERT_RANGE) = 0"
  defines "n0 \<equiv> v_size (view E s p)" and "Z \<equiv> \<lambda>x. zeroes mode \<and> off \<le> x \<and> x < off + len"
  defines "sz \<equiv> falloc_size n0 off len mode"
  shows "\<exists>s'. fallocLocked E wait sync s p off len mode = Some (s', None) \<and> fok E s' p \<and>
    (view E s' p = view E s p \<and> sz = n0 \<and> (\<forall>x < sz. Z x \<longrightarrow> (\<exists>st. v_pos (view E s p) x = Here st True 0)) \<or>
     (\<exists>q Di c. view E s' p = (view E s p)\<lparr>v_pos := q, v_did := Di, v_cur := c, v_size := sz,
        v_st := (if v_st (view E s p) = ST_CACHED then ST_MODIFIED else v_st (view E s p))\<rparr> \<and>
        vids (view E s p) (view E s' p) \<and> zeroed (view E s p) sz Z q Di))"
proof -
  let ?v = "view E s p"
  obtain s1 o1 l1 D0 k0 where r: "fallocRange E wait sync s p off len mode = Some (s1, Inr (o1, l1, n0 < sz))" and ok1: "fok E s1 p"
    and v1: "view E s1 p = ?v\<lparr>v_pos := resized n0 sz (v_pos ?v), v_did := D0, v_cur := k0, v_size := sz\<rparr>"
    and ids1: "vids ?v (view E s1 p)" and f1: "\<forall>x. n0 \<le> x \<and> x < sz \<longrightarrow> v_cur ?v < D0 x"
    and rng: "o1 + l1 \<le> sz" "\<forall>x < sz. off \<le> x \<and> x < off + len \<longleftrightarrow> o1 \<le> x \<and> x < o1 + l1" and s1: "\<not> n0 < sz \<longrightarrow> s1 = s"
    using fallocRange_view [where mode = mode and wait = wait and sync = sync, OF ok len ext v nz] unfolding n0_def sz_def by blast
  have szmax: "o1 + l1 \<le> maxSize E" "n0 \<le> sz" using rng(1) v(1) ext by (auto simp: sz_def n0_def split: if_splits)
  let ?f = "withBuffers p (\<lambda>l. map_option (\<lambda>(l, chg, _). (l, chg)) (ZeroRange (bufEnvOf E p) l o1 l1)) s1"
  obtain s2 chg where s2: "(if zeroes mode then ?f else Some (s1, False)) = Some (s2, chg)"
    "if chg then zeroes mode \<and> effect E s1 p (\<lambda>x. if o1 \<le> x \<and> x < o1 + l1 then Here BUF_DIRTY True 0 else v_pos (view E s1 p) x) s2 \<and>
       (\<forall>x. o1 \<le> x \<longrightarrow> x < o1 + l1 \<longrightarrow> v_cur (view E s1 p) < v_did (view E s2 p) x)
     else fok E s2 p \<and> view E s2 p = view E s1 p \<and> (zeroes mode \<longrightarrow> (\<forall>x. o1 \<le> x \<longrightarrow> x < o1 + l1 \<longrightarrow> (\<exists>st. v_pos (view E s1 p) x = Here st True 0)))"
    using ZeroRange_chg [OF ok1 szmax(1)] ok1 by (cases "zeroes mode") (auto split: if_splits)
  let ?s3 = "if (n0 < sz \<or> chg) \<and> i_CacheState (heap s2 p) = ST_CACHED then WakeupFlusher (SetCacheState E s2 p ST_MODIFIED) else s2"
  have run: "fallocLocked E wait sync s p off len mode = Some (?s3, None)"
    using r s2(1) mode by (simp add: fallocLocked_def zeroes_def)
  have zx: "Z x \<longleftrightarrow> zeroes mode \<and> o1 \<le> x \<and> x < o1 + l1" if "x < sz" for x using rng(2) that by (auto simp: Z_def)
  have ok2: "fok E s2 p" using s2(2) by (auto simp: effect_def split: if_splits)
  have st2: "i_CacheState (heap s2 p) = v_st ?v"
    using s2(2) v1 view_sel(3) [of E s2 p] by (auto simp: effect_def split: if_splits)
  have ok3: "fok E ?s3 p" using ok2 by simp
  show ?thesis
  proof (cases "n0 < sz \<or> chg")
    case False
    then have "s1 = s" "view E s2 p = ?v" "?s3 = s2" "sz = n0" using s1 s2(2) szmax(2) by auto
    moreover have "\<forall>x < sz. Z x \<longrightarrow> (\<exists>st. v_pos ?v x = Here st True 0)" using s2(2) False zx \<open>s1 = s\<close> by auto
    ultimately show ?thesis using run ok3 by auto
  next
    case True
    define q where "q = (if chg then (\<lambda>x. if o1 \<le> x \<and> x < o1 + l1 then Here BUF_DIRTY True 0 else v_pos (view E s1 p) x) else v_pos (view E s1 p))"
    obtain Di c where v2: "view E s2 p = ?v\<lparr>v_pos := q, v_did := Di, v_cur := c, v_size := sz\<rparr>" and ids2: "vids (view E s1 p) (view E s2 p)"
    proof (cases chg)
      case True
      then have e: "effect E s1 p q s2" using s2(2) by (simp add: q_def)
      obtain Di c where "view E s2 p = (view E s1 p)\<lparr>v_pos := q, v_did := Di, v_cur := c\<rparr>" using effectD(4) [OF e] by blast
      then have "view E s2 p = ?v\<lparr>v_pos := q, v_did := Di, v_cur := c, v_size := sz\<rparr>" by (simp add: v1)
      then show ?thesis using effectD(2) [OF e] by (rule that)
    next
      case False
      then have "view E s2 p = ?v\<lparr>v_pos := q, v_did := D0, v_cur := k0, v_size := sz\<rparr>" "vids (view E s1 p) (view E s2 p)"
        using s2(2) v1 by (simp_all add: q_def)
      then show ?thesis by (rule that)
    qed
    have "view E ?s3 p = ?v\<lparr>v_pos := q, v_did := Di, v_cur := c, v_size := sz, v_st := (if v_st ?v = ST_CACHED then ST_MODIFIED else v_st ?v)\<rparr>"
      using True st2 v2 by simp
    moreover have "vids ?v (view E ?s3 p)" using vids_trans [OF ids1 ids2] calculation v2 by (simp add: vids_def)
    moreover have "zeroed ?v sz Z q Di"
      unfolding zeroed_def
    proof
      fix x
      have cur: "v_cur ?v \<le> v_cur (view E s1 p)" using ids1 by (simp add: vids_def)
      have q: "q x = (if chg \<and> o1 \<le> x \<and> x < o1 + l1 then Here BUF_DIRTY True 0 else resized n0 sz (v_pos ?v) x)" by (simp add: q_def v1)
      consider "chg" "o1 \<le> x" "x < o1 + l1" | "n0 \<le> x" "x < sz" "\<not> (chg \<and> o1 \<le> x \<and> x < o1 + l1)"
        | "x < n0 \<or> sz \<le> x" "\<not> (chg \<and> o1 \<le> x \<and> x < o1 + l1)" by linarith
      then show "x < sz \<and> q x = Here BUF_DIRTY True 0 \<and> v_cur ?v < Di x \<and> (v_size ?v \<le> x \<or> Z x) \<or>
          q x = v_pos ?v x \<and> (x < v_size ?v \<or> sz \<le> x) \<and> (x < sz \<and> Z x \<longrightarrow> (\<exists>st. q x = Here st True 0))"
      proof cases
        case 1
        then have "x < sz" "Z x" "v_cur (view E s1 p) < Di x" using rng(1) s2(2) zx [of x] v2 by auto
        then show ?thesis using 1 q cur by auto
      next
        case 2
        then have d: "q x = Here BUF_DIRTY True 0" using q by (simp add: resized_def)
        then have "v_did (view E s2 p) x \<noteq> 0" using view_dirty(1) [OF ok2, of x] v2 by simp
        then have "v_cur ?v < v_did (view E s2 p) x" using fresh_keep [OF ids2 cur, of x] f1 2 v1 by simp
        then show ?thesis using d 2 v2 by (simp add: n0_def)
      next
        case 3
        then have e: "q x = v_pos ?v x" using q szmax(2) by (auto simp: resized_def)
        moreover have "\<exists>st. q x = Here st True 0" if "x < sz" "Z x"
        proof -
          have "\<not> chg" "o1 \<le> x" "x < o1 + l1" "zeroes mode" using zx [OF that(1)] that(2) 3(2) by auto
          then have "\<exists>st. v_pos (view E s1 p) x = Here st True 0" using s2(2) by simp
          then show ?thesis using \<open>\<not> chg\<close> by (simp add: q_def)
        qed
        ultimately show ?thesis using 3(1) by (auto simp: n0_def)
      qed
    qed
    ultimately show ?thesis using run ok3 by blast
  qed
qed

lemma vinv_zero:
  assumes inv: "vinv ps M v h" and pos: "parts_ok ps" and sz: "v_size v \<le> sz" "sz \<le> getMaxFileSize ps"
    and v': "v' = v\<lparr>v_pos := q, v_did := Di, v_cur := c, v_size := sz, v_st := (if v_st v = ST_CACHED then ST_MODIFIED else v_st v)\<rparr>"
    and ids: "vids v v'" and z: "zeroed v sz Z q Di"
  defines "C \<equiv> \<lambda>x. if Z x then 0 else if x < v_size v then h_content h x else 0"
  shows "vinv ps M v' (h\<lparr>h_content := C\<rparr>)"
proof (rule vinv_evolve [OF inv _ _ _ _ refl ids])
  note D = vinvD [OF inv]
  have x: "x < sz \<and> q x = Here BUF_DIRTY True 0 \<and> v_cur v < Di x \<and> C x = 0 \<or>
      x < v_size v \<and> q x = v_pos v x \<and> C x = h_content h x \<or> v_size v \<le> x \<and> sz \<le> x \<and> q x = v_pos v x" for x
  proof -
    have zero: "h_content h x = 0" if "x < v_size v" "v_pos v x = Here st True 0" for st using D(2) [of x] that by simp
    consider "x < sz" "q x = Here BUF_DIRTY True 0" "v_cur v < Di x" "v_size v \<le> x \<or> Z x"
      | "q x = v_pos v x" "x < v_size v \<or> sz \<le> x" "x < sz \<and> Z x \<longrightarrow> (\<exists>st. q x = Here st True 0)"
      using z [unfolded zeroed_def, rule_format, of x] by blast
    then show ?thesis
    proof cases
      case 2
      then show ?thesis using zero sz(1) unfolding C_def by (metis not_le_imp_less order_less_le_trans)
    qed (auto simp: C_def)
  qed
  show "cellOk ps v' (h\<lparr>h_content := C\<rparr>) x (v_pos v' x)" for x
    using x [of x]
  proof (elim disjE conjE)
    assume a: "x < v_size v" "q x = v_pos v x" "C x = h_content h x"
    then show ?thesis using D(2) [of x] sz(1) by (cases "v_pos v x") (auto simp: v' onServer_def uploaded_def recorded_def)
  next
    assume a: "v_size v \<le> x" "sz \<le> x" "q x = v_pos v x"
    then show ?thesis using cellOk_beyond [OF D(2) [of x]] by (intro cellOk_beyondI) (auto simp: v')
  qed (simp add: v')
  show "cachedOk v'" by (auto simp: v' cachedOk_def)
  show "dirty (v_pos v' x) \<and> v_cur v < v_did v' x \<or> x < v_size v \<and> C x = h_content h x \<and> dirty (v_pos v' x) = dirty (v_pos v x)" if "x < v_size v'" for x
    using that x [of x] by (auto simp: v')
  show "v_pos v' x = Evicted \<Longrightarrow> v_pos v x = Evicted" for x using x [of x] by (auto simp: v')
qed (use vinvD(1) [OF inv] pos sz in \<open>auto simp: v' sizesOk_def uploading_def\<close>)

section \<open>The step\<close>

lemma zero_range_bytes:
  "take off G @ replicate (min len (length G - off)) 0 @ drop (off + len) G =
   map (\<lambda>x. if off \<le> x \<and> x < off + len then 0 else G ! x) [0..<length G]" for G :: "byte list"
  by (rule nth_equalityI) (auto simp: nth_append min_def)

lemma extend_bytes:
  "map f [0..<n] @ replicate (m - n) 0 = map (\<lambda>x. if x < n then f x else 0) [0..<max n m]" for f :: "nat \<Rightarrow> byte"
  by (rule nth_equalityI) (auto simp: nth_append max_def)

lemma falloc_bytes:
  "fileSpec (EFalloc off len mode) (map f [0..<n]) =
   map (\<lambda>x. if zeroes mode \<and> off \<le> x \<and> x < off + len then 0 else if x < n then f x else 0) [0..<falloc_size n off len mode]"
proof -
  have G: "(if extends mode then map f [0..<n] @ replicate (off + len - length (map f [0..<n])) 0 else map f [0..<n]) =
      map (\<lambda>x. if x < n then f x else 0) [0..<falloc_size n off len mode]"
    using extend_bytes [of f n "off + len"] by simp
  show ?thesis unfolding fileSpec.simps G Let_def zero_range_bytes by simp
qed

lemma step_EFalloc:
  assumes w: "winv E p (s, h)" and v: "fileValid E p (EFalloc off len mode) (s, h)"
  shows "\<exists>w'. fileExec os wait sync St E p (EFalloc off len mode) (s, h) = Some w' \<and> winv E p w' \<and>
    fileBytes p w' = fileSpec (EFalloc off len mode) (fileBytes p (s, h))"
proof -
  note W = winvD [OF w]
  let ?v = "view E s p"
  let ?Z = "\<lambda>x. zeroes mode \<and> off \<le> x \<and> x < off + len"
  let ?sz = "falloc_size (v_size (view E s p)) off len mode"
  let ?h = "h\<lparr>h_content := \<lambda>x. if ?Z x then 0 else if x < sizeOf s p then h_content h x else 0\<rparr>"
  have d: "off + len < u64_max" "extends mode \<Longrightarrow> off + len \<le> maxSize E" "v_pause ?v \<le> 0"
    "mode AND (FALLOC_FL_COLLAPSE_RANGE OR FALLOC_FL_INSERT_RANGE) = 0" using v by (simp_all add: view_sel)
  obtain s' where s': "fallocLocked E wait sync s p off len mode = Some (s', None)" "fok E s' p"
    "view E s' p = ?v \<and> ?sz = v_size ?v \<and> (\<forall>x < ?sz. ?Z x \<longrightarrow> (\<exists>st. v_pos ?v x = Here st True 0)) \<or>
     (\<exists>q Di c. view E s' p = ?v\<lparr>v_pos := q, v_did := Di, v_cur := c, v_size := ?sz, v_st := (if v_st ?v = ST_CACHED then ST_MODIFIED else v_st ?v)\<rparr> \<and>
        vids ?v (view E s' p) \<and> zeroed ?v ?sz ?Z q Di)"
    using fallocLocked_view [where mode = mode and wait = wait and sync = sync, OF W(1) d(1,2) W(5) d(3) winv_noZero [OF w] d(4)] by blast
  have n0: "v_size ?v = sizeOf s p" by (simp add: view_sel)
  have "vinv (g_parts E) (f_MaxParallelParts (g_flags E)) (view E s' p) ?h \<and> v_size (view E s' p) = ?sz"
    using s'(3)
  proof (elim disjE exE conjE)
    assume a: "view E s' p = ?v" "?sz = v_size ?v" "\<forall>x < ?sz. ?Z x \<longrightarrow> (\<exists>st. v_pos ?v x = Here st True 0)"
    have "h_content h x = 0" if x: "x < v_size ?v" "?Z x" for x
    proof -
      have "x < ?sz" using x(1) a(2) by simp
      then obtain st where "v_pos ?v x = Here st True 0" using a(3) x(2) by blast
      then show ?thesis using vinvD(2) [OF W(3), of x] x(1) by simp
    qed
    then have "vinv (g_parts E) (f_MaxParallelParts (g_flags E)) ?v ?h" by (intro vinv_same [OF W(3,2)]) (auto simp: n0)
    then show ?thesis using a(1,2) by simp
  next
    fix q Di c assume a: "view E s' p = ?v\<lparr>v_pos := q, v_did := Di, v_cur := c, v_size := ?sz, v_st := (if v_st ?v = ST_CACHED then ST_MODIFIED else v_st ?v)\<rparr>"
      "vids ?v (view E s' p)" "zeroed ?v ?sz ?Z q Di"
    have "v_size ?v \<le> ?sz" "?sz \<le> maxSize E" using W(5) d(2) by auto
    from vinv_zero [OF W(3,2) this a] show ?thesis using a(1) unfolding n0 by simp
  qed
  then have inv: "vinv (g_parts E) (f_MaxParallelParts (g_flags E)) (view E s' p) ?h" and size: "sizeOf s' p = falloc_size (sizeOf s p) off len mode"
    by (simp_all add: view_sel)
  have "winv E p (s', ?h)" using inv s'(2) by (simp add: winv_def)
  moreover have "fileBytes p (s', ?h) = fileSpec (EFalloc off len mode) (fileBytes p (s, h))"
    unfolding fileBytes_def prod.case falloc_bytes size by simp
  ultimately show ?thesis using s'(1) by simp
qed

end
