(* ===== verification/Dir_Skel.thy ===== *)
theory Dir_Skel
  imports Dir_Ops
begin

text \<open>
  The skeleton of the tree: names, parents, children and remembered deletions.  The invariant of the
  file system depends on it and on the buffers only, so an operation that keeps both keeps the
  invariant.  The theory also has the invariant under the deletions a directory remembers, under the
  release of a cache and under the creation of inodes.
\<close>

section \<open>The skeleton\<close>

definition skel_of :: "('t, 'd, 'c) Inode \<Rightarrow> string \<times> ptr option \<times> (ptr list \<times> (string \<Rightarrow> ptr option)) option" where
  "skel_of i = (i_Name i, i_Parent i, map_option (\<lambda>d. (d_Children d, d_DeletedChildren d)) (i_dir i))"

definition skel :: "('t, 'd, 'c) Goofys \<Rightarrow> (ptr \<Rightarrow> string \<times> ptr option \<times> (ptr list \<times> (string \<Rightarrow> ptr option)) option) \<times> ptr" where
  "skel s = (\<lambda>q. skel_of (heap s q), nextPtr s)"

lemma skelD:
  assumes "skel s' = skel s"
  shows "i_Name (heap s' q) = i_Name (heap s q)" "i_Parent (heap s' q) = i_Parent (heap s q)"
    "d_Children (dirOf s' q) = d_Children (dirOf s q)" "d_DeletedChildren (dirOf s' q) = d_DeletedChildren (dirOf s q)"
    "isDir s' q = isDir s q" "nextPtr s' = nextPtr s"
proof -
  have q: "skel_of (heap s q) = skel_of (heap s' q)" using assms by (simp add: skel_def fun_eq_iff)
  then show "i_Name (heap s' q) = i_Name (heap s q)" "i_Parent (heap s' q) = i_Parent (heap s q)" by (simp_all add: skel_of_def)
  from q show "d_Children (dirOf s' q) = d_Children (dirOf s q)" "d_DeletedChildren (dirOf s' q) = d_DeletedChildren (dirOf s q)" "isDir s' q = isDir s q"
    by (cases "i_dir (heap s q)"; cases "i_dir (heap s' q)"; simp add: skel_of_def dirOf_def isDir_def)+
  show "nextPtr s' = nextPtr s" using assms by (simp add: skel_def)
qed

lemma skel_dirs:
  assumes "skel s' = skel s"
  shows "cnames s' p = cnames s p" "entries s' p = entries s p" "dir_ok s' p = dir_ok s p" "dir_links s' p = dir_links s p" "links_ok s' = links_ok s"
proof -
  show c: "cnames s' p = cnames s p" for p by (simp only: cnames_def skelD [OF assms])
  show "entries s' p = entries s p" by (simp only: entries_def c skelD [OF assms])
  show "dir_ok s' p = dir_ok s p" by (simp only: dir_ok_def c skelD [OF assms])
  show d: "dir_links s' p = dir_links s p" for p by (simp only: dir_links_def c skelD [OF assms])
  show "links_ok s' = links_ok s" by (simp only: links_ok_def d skelD [OF assms])
qed

lemma fs_ok_skel:
  assumes "skel s' = skel s" "bufview s' = bufview s"
  shows "fs_ok E s' = fs_ok E s"
  using skel_dirs(5) [OF assms(1)] bufs_ok_bufview [OF assms(2) skelD(6) [OF assms(1)]] by (simp add: fs_ok_def)

lemma skel_tree: "tree s' = tree s \<Longrightarrow> skel s' = skel s"
proof -
  assume t: "tree s' = tree s"
  have "skel_of (heap s' q) = skel_of (heap s q)" for q
    using treeD(1,2,3,5,8) [OF t, of q]
    by (cases "i_dir (heap s q)"; cases "i_dir (heap s' q)") (simp_all add: skel_of_def dirOf_def isDir_def)
  then show ?thesis using treeD(9) [OF t] by (simp add: skel_def)
qed

lemma skel_upd [simp]: "skel_of (f (heap s p)) = skel_of (heap s p) \<Longrightarrow> skel (upd p f s) = skel s"
  by (auto simp: skel_def fun_eq_iff)

lemma skel_updDir [simp]:
  "(\<And>d. d_Children (f d) = d_Children d \<and> d_DeletedChildren (f d) = d_DeletedChildren d) \<Longrightarrow> skel (updDir p f s) = skel s"
  by (cases "i_dir (heap s p)") (auto simp: skel_def fun_eq_iff skel_of_def)

lemma skel_fields [simp]:
  "skel (s\<lparr>inodeQueue := x1\<rparr>) = skel s" "skel (s\<lparr>inodes := x2\<rparr>) = skel s" "skel (s\<lparr>nextInodeID := x3\<rparr>) = skel s"
  "skel (s\<lparr>inflightState := x4\<rparr>) = skel s" "skel (s\<lparr>activeFlushers := x5\<rparr>) = skel s" "skel (s\<lparr>dirHandleHeap := x6\<rparr>) = skel s"
  "skel (s\<lparr>diskFdQueue := x7\<rparr>) = skel s" "skel (s\<lparr>diskFds := x8\<rparr>) = skel s" "skel (s\<lparr>nextDirHandle := x9\<rparr>) = skel s"
  "skel (s\<lparr>forgotCnt := x10\<rparr>) = skel s" "skel (s\<lparr>notified := x11\<rparr>) = skel s" "skel (s\<lparr>flushPending := x12\<rparr>) = skel s"
  "skel (s\<lparr>bufferPool_cur := x13\<rparr>) = skel s" "skel (s\<lparr>cleanQueue := x14\<rparr>) = skel s"
  by (simp_all add: skel_def)

lemma bufview_handles [simp]: "bufview (s\<lparr>nextDirHandle := x\<rparr>) = bufview s" "states (s\<lparr>nextDirHandle := x\<rparr>) = states s"
  by (simp_all add: bufview_def states_def)

lemma skel_ops [simp]:
  "skel (addModified s q n) = skel s" "skel (SetExpireTime s p tm) = skel s" "skel (SetAttrTime E s p tm) = skel s"
  "skel (resetExpireTime s p) = skel s" "skel (SetCacheState E s p st) = skel s" "skel (touch now s p) = skel s"
  "skel (WakeupFlusher s) = skel s" "skel (recordFlushError now s p e) = skel s" "skel (Ref s p) = skel s"
  by (rule skel_tree, simp)+

lemma skel_of_simps [simp]:
  "skel_of (i\<lparr>i_Id := x1\<rparr>) = skel_of i" "skel_of (i\<lparr>i_Attributes := x2\<rparr>) = skel_of i" "skel_of (i\<lparr>i_fileHandles := x3\<rparr>) = skel_of i"
  "skel_of (i\<lparr>i_IsFlushing := x4\<rparr>) = skel_of i" "skel_of (i\<lparr>i_oldParent := x5\<rparr>) = skel_of i" "skel_of (i\<lparr>i_oldName := x6\<rparr>) = skel_of i"
  "skel_of (i\<lparr>i_renamingTo := x7\<rparr>) = skel_of i" "skel_of (i\<lparr>i_userMetadata := x8\<rparr>) = skel_of i" "skel_of (i\<lparr>i_userMetadataDirty := x9\<rparr>) = skel_of i"
  "skel_of (i\<lparr>i_refcnt := x10\<rparr>) = skel_of i" "skel_of (i\<lparr>i_dirtyQueueId := x11\<rparr>) = skel_of i" "skel_of (i\<lparr>i_CacheState := x12\<rparr>) = skel_of i"
  "skel_of (i\<lparr>i_AttrTime := x13\<rparr>) = skel_of i" "skel_of (i\<lparr>i_buffers := x14\<rparr>) = skel_of i"
  by (simp_all add: skel_of_def)

text \<open>Operations that change neither the skeleton nor the buffers.\<close>

definition soft :: "('t, 'd, 'c) Goofys \<Rightarrow> ('t, 'd, 'c) Goofys \<Rightarrow> bool" where
  "soft s s' \<longleftrightarrow> skel s' = skel s \<and> bufview s' = bufview s"

lemma soft_ok: "soft s s' \<Longrightarrow> fs_ok E s \<Longrightarrow> fs_ok E s'"
  using fs_ok_skel by (auto simp: soft_def)

lemma raiseTimes_soft [simp]: "skel (raiseTimes parent inode s) = skel s" "bufview (raiseTimes parent inode s) = bufview s" "states (raiseTimes parent inode s) = states s"
proof -
  have "skel (raiseTimes parent inode s) = skel s \<and> bufview (raiseTimes parent inode s) = bufview s \<and> states (raiseTimes parent inode s) = states s"
    unfolding raiseTimes_def Let_def by (auto simp: states_def fun_eq_iff)
  then show "skel (raiseTimes parent inode s) = skel s" "bufview (raiseTimes parent inode s) = bufview s" "states (raiseTimes parent inode s) = states s" by auto
qed

lemma raiseTimes_metas [simp]: "metas (raiseTimes parent inode s) = metas s"
  unfolding raiseTimes_def Let_def by (simp split: if_splits)

lemma OpenFile_soft: "soft s (fst (OpenFile E s p))"
  by (simp add: soft_def OpenFile_def Let_def)

lemma renameCacheFile_soft [simp]:
  "skel (renameCacheFile E s p q n) = skel s" "bufview (renameCacheFile E s p q n) = bufview s" "states (renameCacheFile E s p q n) = states s"
  by (simp_all add: renameCacheFile_def Let_def split: prod.splits)

lemma SetCacheState_state [simp]: "i_CacheState (heap (SetCacheState E s p st) q) = (if q = p then st else i_CacheState (heap s q))"
proof -
  have "states (SetCacheState E s p st) q = ((states s)(p := st)) q" by (simp only: SetCacheState_views)
  then show ?thesis by (simp add: states_def)
qed

section \<open>Remembered deletions\<close>

lemma fs_ok_deleted:
  assumes ok: "fs_ok E s"
    and f: "\<And>d. d_Children (f d) = d_Children d"
    and del: "\<And>n c. isDir s p \<Longrightarrow> p < nextPtr s \<Longrightarrow> d_DeletedChildren (f (dirOf s p)) n = Some c \<Longrightarrow>
      c < nextPtr s \<and> (isDir s c \<longrightarrow> i_Name (heap s c) = n \<and> i_Parent (heap s c) = Some p)"
  shows "fs_ok E (updDir p f s)"
proof -
  let ?s = "updDir p f s"
  have nm: "i_Name (heap ?s q) = i_Name (heap s q)" "i_Parent (heap ?s q) = i_Parent (heap s q)" "isDir ?s q = isDir s q"
    "d_Children (dirOf ?s q) = d_Children (dirOf s q)" for q
    using f by (auto simp: updDir_def upd_def dirOf_def isDir_def split: option.splits)
  have c: "cnames ?s q = cnames s q" for q by (simp only: cnames_def nm)
  have d: "d_DeletedChildren (dirOf ?s q) = (if q = p then d_DeletedChildren (f (dirOf s p)) else d_DeletedChildren (dirOf s q))" if "isDir s q" for q
    using that by (auto simp: updDir_def upd_def dirOf_def isDir_def split: option.splits)
  have "dir_links ?s q" if q: "q < nextPtr s" "isDir s q" for q
    using fs_ok_links [OF ok q] del q unfolding dir_links_def c nm d [OF q(2)] by (cases "q = p") auto
  then have "links_ok ?s" unfolding links_ok_def nm by simp
  moreover have "bufs_ok E ?s" using ok bufs_ok_bufview [of ?s s E] by (simp add: fs_ok_def)
  ultimately show ?thesis using ok by (simp add: fs_ok_def)
qed

lemma delDeleted_ok: "fs_ok E s \<Longrightarrow> fs_ok E (delDeleted p n s)"
  unfolding delDeleted_def using fs_ok_links [of E s p]
  by (intro fs_ok_deleted) (auto simp: dir_links_def split: if_splits)

lemma addDeleted_ok:
  assumes "fs_ok E s" "c < nextPtr s" "isDir s c \<Longrightarrow> i_Name (heap s c) = n \<and> i_Parent (heap s c) = Some p"
  shows "fs_ok E (addDeleted p n c s)"
  unfolding addDeleted_def
proof (rule fs_ok_deleted [OF assms(1)])
  fix m x assume p: "isDir s p" "p < nextPtr s"
    and x: "d_DeletedChildren ((dirOf s p)\<lparr>d_DeletedChildren := (d_DeletedChildren (dirOf s p))(n \<mapsto> c)\<rparr>) m = Some x"
  show "x < nextPtr s \<and> (isDir s x \<longrightarrow> i_Name (heap s x) = m \<and> i_Parent (heap s x) = Some p)"
    using x assms(2,3) fs_ok_links [OF assms(1) p(2,1)] unfolding dir_links_def by (cases "m = n") auto
qed simp

lemma deleted_frame [simp]:
  "entries (addDeleted p n c s) q = entries s q" "entries (delDeleted p n s) q = entries s q"
  "nextPtr (addDeleted p n c s) = nextPtr s" "nextPtr (delDeleted p n s) = nextPtr s"
  "isDir (addDeleted p n c s) q = isDir s q" "isDir (delDeleted p n s) q = isDir s q"
  "i_Name (heap (addDeleted p n c s) q) = i_Name (heap s q)" "i_Name (heap (delDeleted p n s) q) = i_Name (heap s q)"
  "i_Parent (heap (addDeleted p n c s) q) = i_Parent (heap s q)" "i_Parent (heap (delDeleted p n s) q) = i_Parent (heap s q)"
  "states (addDeleted p n c s) = states s" "states (delDeleted p n s) = states s"
  "metas (addDeleted p n c s) = metas s" "metas (delDeleted p n s) = metas s"
proof -
  have "d_Children (dirOf (updDir p f s) q) = d_Children (dirOf s q)" if "\<And>d. d_Children (f d) = d_Children d" for f
    using that by (auto simp: updDir_def upd_def dirOf_def split: option.splits)
  moreover have "i_Name (heap (updDir p f s) x) = i_Name (heap s x)" for f x by simp
  ultimately have "entries (updDir p f s) q = entries s q" if "\<And>d. d_Children (f d) = d_Children d" for f
    unfolding entries_def cnames_def using that by presburger
  then show "entries (addDeleted p n c s) q = entries s q" "entries (delDeleted p n s) q = entries s q"
    by (simp_all add: addDeleted_def delDeleted_def)
qed (simp_all add: addDeleted_def delDeleted_def)

text \<open>What an inode remembers of a rename.\<close>

definition olds :: "('t, 'd, 'c) Goofys \<Rightarrow> ptr \<Rightarrow> ptr option \<times> string \<times> bool" where
  "olds s = (\<lambda>q. (i_oldParent (heap s q), i_oldName (heap s q), i_renamingTo (heap s q)))"

lemma olds_metas: "metas s' = metas s \<Longrightarrow> olds s' = olds s"
  using metasD(4-6) [of s' s] by (simp add: olds_def)

lemma olds_simps [simp]:
  "olds (addModified s q n) = olds s" "olds (SetCacheState E s p st) = olds s" "olds (updDir p f s) = olds s"
  "olds (delDeleted p m s) = olds s" "olds (addDeleted p m c s) = olds s" "olds (WakeupFlusher s) = olds s"
  by (rule olds_metas, simp)+

lemma olds_fields [simp]: "olds (s\<lparr>inodes := x1\<rparr>) = olds s" "olds (s\<lparr>nextInodeID := x2\<rparr>) = olds s"
  by (simp_all add: olds_def)

lemma olds_upd [simp]:
  "i_oldParent (f (heap s p)) = i_oldParent (heap s p) \<and> i_oldName (f (heap s p)) = i_oldName (heap s p) \<and>
   i_renamingTo (f (heap s p)) = i_renamingTo (heap s p) \<Longrightarrow> olds (upd p f s) = olds s"
  by (auto simp: olds_def fun_eq_iff)

lemma olds_more [simp]: "olds (Ref s p) = olds s" "olds (setDir p d s) = olds s" "olds (renameCacheFile E s p q n) = olds s"
  by (auto simp: Ref_def setDir_def olds_def renameCacheFile_def Let_def fun_eq_iff split: prod.splits)

section \<open>Dropping a cache\<close>

lemma resetCache_fs:
  assumes ok: "fs_ok E s" and p: "p < nextPtr s"
  shows "\<exists>s'. resetCache E s p = Some s' \<and> fs_ok E s' \<and> tree s' = tree s \<and> metas s' = metas s \<and> states s' = (states s)(p := ST_CACHED)"
proof -
  obtain s' where s': "resetCache E s p = Some s'" "bufs_ok E s'" "tree s' = tree s" "metas s' = metas s" "states s' = (states s)(p := ST_CACHED)"
    using resetCache_ok [of E s p] ok p unfolding fs_ok_def by blast
  then show ?thesis using ok links_ok_tree [OF s'(3)] by (auto simp: fs_ok_def)
qed

lemma DeRef_fs:
  assumes ok: "fs_ok E s" and p: "p < nextPtr s"
  shows "\<exists>s' b. DeRef E s p n = Some (s', b) \<and> fs_ok E s' \<and> tree s' = tree s \<and> olds s' = olds s"
proof -
  obtain s' b where s': "DeRef E s p n = Some (s', b)" "bufs_ok E s'" "tree s' = tree s"
    "\<forall>q. meta (heap s' q) = meta ((heap s q)\<lparr>i_refcnt := (if q = p then max 0 (i_refcnt (heap s q) - n) else i_refcnt (heap s q))\<rparr>)"
    using DeRef_ok [of E s p n] ok p unfolding fs_ok_def by blast
  have "olds s' = olds s" using s'(4) by (auto simp: olds_def meta_def fun_eq_iff)
  then show ?thesis using s' ok links_ok_tree [OF s'(3)] by (auto simp: fs_ok_def)
qed

end
