(* ===== verification/Dir_Safe.thy ===== *)
theory Dir_Safe
  imports Dir_Skel
begin

text \<open>
  The operations on a directory cannot fail and keep the invariant of the file system: what each of
  them does to the map of names of the directory it works on, and that it leaves every other
  directory alone.
\<close>

section \<open>Frames\<close>

text \<open>Inodes are never freed; a directory stays a directory and an inode with a parent keeps one.\<close>

definition grow :: "('t, 'd, 'c) Goofys \<Rightarrow> ('t, 'd, 'c) Goofys \<Rightarrow> bool" where
  "grow s s' \<longleftrightarrow> nextPtr s \<le> nextPtr s' \<and>
     (\<forall>q < nextPtr s. isDir s' q = isDir s q \<and> (i_Parent (heap s q) \<noteq> None \<longrightarrow> i_Parent (heap s' q) \<noteq> None))"

lemma grow_refl [simp]: "grow s s"
  by (simp add: grow_def)

lemma grow_trans: "grow s s1 \<Longrightarrow> grow s1 s2 \<Longrightarrow> grow s s2"
  unfolding grow_def by (meson le_trans less_le_trans)

lemma grow_skel: "skel s' = skel s \<Longrightarrow> grow s s'"
  using skelD [of s' s] by (simp add: grow_def)

text \<open>The same inodes with the same names and parents.\<close>

definition same :: "('t, 'd, 'c) Goofys \<Rightarrow> ('t, 'd, 'c) Goofys \<Rightarrow> bool" where
  "same s s' \<longleftrightarrow> nextPtr s' = nextPtr s \<and>
     (\<forall>q. isDir s' q = isDir s q \<and> i_Name (heap s' q) = i_Name (heap s q) \<and> i_Parent (heap s' q) = i_Parent (heap s q))"

lemma same_grow: "same s s' \<Longrightarrow> grow s s'"
  by (auto simp: same_def grow_def)

lemma same_trans: "same s s1 \<Longrightarrow> same s1 s2 \<Longrightarrow> same s s2"
  by (simp add: same_def)

lemma same_skel: "skel s' = skel s \<Longrightarrow> same s s'"
  using skelD [of s' s] by (simp add: same_def)

text \<open>The effect on the maps of names: directory \<open>p\<close> becomes \<open>m\<close>, the others stay.\<close>

definition sets_entries :: "('t, 'd, 'c) Goofys \<Rightarrow> ptr \<Rightarrow> (string \<Rightarrow> ptr option) \<Rightarrow> ('t, 'd, 'c) Goofys \<Rightarrow> bool" where
  "sets_entries s p m s' \<longleftrightarrow> entries s' p = m \<and> (\<forall>q < nextPtr s. q \<noteq> p \<longrightarrow> entries s' q = entries s q)"

lemma sets_entries_skel:
  assumes "sets_entries s p m s1" "skel s2 = skel s1"
  shows "sets_entries s p m s2"
  using assms(1) skel_dirs(2) [OF assms(2)] by (simp add: sets_entries_def)

section \<open>Removing\<close>

lemma removeChild_step:
  assumes ok: "fs_ok E s" and p: "p < nextPtr s" "isDir s p" and c: "c < nextPtr s" and e: "entries s p (i_Name (heap s c)) = Some x"
  shows "\<exists>s'. removeChildUnlocked E s p c = Some s' \<and> fs_ok E s' \<and> same s s' \<and> sets_entries s p ((entries s p)(i_Name (heap s c) := None)) s' \<and>
    (\<forall>q. d_DeletedChildren (dirOf s' q) = d_DeletedChildren (dirOf s q)) \<and> olds s' = olds s"
proof -
  obtain s' d' i b where s': "removeChildUnlocked E s p c = Some s'" "removed_at i (dirOf s p) d'" "tree s' = tree (setDir p d' s)" "fs_ok E s'"
    "entries s' p = (entries s p)(i_Name (heap s c) := None)" "DeRef E (setDir p d' s) c 1 = Some (s', b)"
    using removeChild_fs_ok [OF ok p c e] by blast
  have "env_ok E" "bufs_ok E (setDir p d' s)" using ok bufs_ok_bufview [of "setDir p d' s" s E] by (simp_all add: fs_ok_def)
  from DeRef_ok [OF this, of c 1] s'(6) c have "olds s' = olds s"
    by (auto simp: olds_def meta_def setDir_def fun_eq_iff split: if_splits)
  moreover
have "same s s'" unfolding same_def treeD [OF s'(3)] using p(2) by auto
  moreover have "entries s' q = entries s q" if "q \<noteq> p" for q
    using that unfolding entries_tree [OF s'(3)] by (simp add: entries_def cnames_def)
  moreover have "d_DeletedChildren (dirOf s' q) = d_DeletedChildren (dirOf s q)" for q
    using s'(2) unfolding treeD [OF s'(3)] by (auto simp: removed_at_def)
  ultimately show ?thesis using s'(1,4,5) unfolding sets_entries_def by blast
qed

text \<open>What \<open>doUnlink\<close> remembers of an object that may exist in the store.\<close>

lemma doUnlink_step:
  assumes ok: "fs_ok E s" and p: "p < nextPtr s" "isDir s p" and e: "entries s p n = Some c"
  shows "\<exists>s'. doUnlink E s c = Some s' \<and> fs_ok E s' \<and> same s s' \<and> sets_entries s p ((entries s p)(n := None)) s' \<and>
    (i_oldParent (heap s c) = None \<and> (i_CacheState (heap s c) \<noteq> ST_CREATED \<or> i_IsFlushing (heap s c) > 0) \<longrightarrow>
      d_DeletedChildren (dirOf s' p) n \<noteq> None)"
proof -
  note c = fs_ok_child [OF ok p e]
  obtain s1 where s1: "resetCache E s c = Some s1" "fs_ok E s1" "tree s1 = tree s"
    using resetCache_fs [OF ok c(1)] by blast
  let ?renamed = "i_oldParent (heap s c) \<noteq> None \<and> \<not> i_renamingTo (heap s c)"
  let ?sent = "i_CacheState (heap s c) \<noteq> ST_CREATED \<or> i_IsFlushing (heap s c) > 0"
  define s2 where "s2 = (if ?renamed then SetCacheState E s1 c ST_DELETED
    else if ?sent then
      (if d_DeletedChildren (dirOf s1 p) (i_Name (heap s1 c)) = None
       then addDeleted p (i_Name (heap s1 c)) c (SetCacheState E s1 c ST_DELETED) else SetCacheState E s1 c ST_DEAD)
    else SetCacheState E s1 c ST_DEAD)"
  define s3 where "s3 = upd c (\<lambda>i. i\<lparr>i_Attributes := (i_Attributes i)\<lparr>a_Size := 0\<rparr>\<rparr>) s2"
  have sk1: "skel s1 = skel s" by (rule skel_tree [OF s1(3)])
  note n1 = skelD [OF sk1]
  have st: "fs_ok E (SetCacheState E s1 c st)" "skel (SetCacheState E s1 c st) = skel s1" for st
    using s1(2) fs_ok_skel [of "SetCacheState E s1 c st" s1 E] by simp_all
  note nst = skelD [OF st(2)]
  have "fs_ok E s2" unfolding s2_def using st(1) addDeleted_ok [OF st(1), of c] c by (simp add: nst n1)
  then have ok3: "fs_ok E s3" using fs_ok_skel [of s3 s2 E] by (simp add: s3_def)
  have same3: "same s s3" and e3: "entries s3 q = entries s q" for q
  proof -
    have "same s1 s2 \<and> entries s2 q = entries s1 q" for q
      unfolding s2_def using same_skel [OF st(2)] skel_dirs(2) [OF st(2)] by (auto simp: same_def)
    moreover have "same s2 s3" "entries s3 q = entries s2 q" for q
      using same_skel [of s3 s2] skel_dirs(2) [of s3 s2] by (simp_all add: s3_def)
    ultimately show "same s s3" "entries s3 q = entries s q" for q
      using same_skel [OF sk1] skel_dirs(2) [OF sk1] same_trans by (blast, metis)
  qed
  have del3: "d_DeletedChildren (dirOf s3 p) n \<noteq> None" if "i_oldParent (heap s c) = None \<and> ?sent"
  proof -
    have "d_DeletedChildren (dirOf s3 p) = d_DeletedChildren (dirOf s2 p)" using skelD(4) [of s3 s2] by (simp add: s3_def)
    moreover have "isDir (SetCacheState E s1 c ST_DELETED) p" using p(2) nst(5) n1(5) by simp
    ultimately show ?thesis
      using that c(3) by (auto simp: s2_def n1 nst addDeleted_def)
  qed
  have n3: "i_Name (heap s3 c) = n" "c < nextPtr s3" "p < nextPtr s3" "isDir s3 p" using same3 c p by (auto simp: same_def)
  obtain s' where s': "removeChildUnlocked E s3 p c = Some s'" "fs_ok E s'" "same s3 s'" "sets_entries s3 p ((entries s3 p)(n := None)) s'"
    "\<forall>q. d_DeletedChildren (dirOf s' q) = d_DeletedChildren (dirOf s3 q)"
    using removeChild_step [OF ok3 n3(3,4,2), of c] e3 e unfolding n3(1) by auto
  have "doUnlink E s c = Some s'"
    using s1(1) c(2) s'(1) by (simp add: doUnlink_def s2_def s3_def Let_def cong: if_cong)
  moreover have "sets_entries s p ((entries s p)(n := None)) s'"
    using s'(4) e3 same3 unfolding sets_entries_def same_def by auto
  ultimately show ?thesis using s'(2,3,5) same_trans [OF same3] del3 by auto
qed

lemma Unlink_step:
  assumes ok: "fs_ok E s" and p: "p < nextPtr s" "isDir s p"
  shows "\<exists>s'. Unlink E s p n = Some s' \<and> fs_ok E s' \<and> same s s' \<and> sets_entries s p ((entries s p)(n := None)) s'"
proof (cases "entries s p n")
  case None
  then have "sets_entries s p ((entries s p)(n := None)) s" by (auto simp: sets_entries_def fun_eq_iff)
  with None ok p show ?thesis by (simp add: Unlink_def findChildUnlocked_entries [OF fs_ok_dir [OF ok p]] same_def)
next
  case (Some c)
  obtain s' where s': "doUnlink E s c = Some s'" "fs_ok E s'" "same s s'" "sets_entries s p ((entries s p)(n := None)) s'"
    using doUnlink_step [OF ok p Some] by blast
  have sk: "skel (WakeupFlusher s') = skel s'" by simp
  have "fs_ok E (WakeupFlusher s')" using s'(2) fs_ok_skel [OF sk] by simp
  with s' Some ok p same_trans [OF s'(3) same_skel [OF sk]] sets_entries_skel [OF s'(4) sk] show ?thesis
    by (simp add: Unlink_def findChildUnlocked_entries [OF fs_ok_dir [OF ok p]])
qed

section \<open>Creating\<close>

text \<open>A state with one more inode, at the end of the heap, that is not linked yet.\<close>

definition fresh :: "('t, 'd, 'c) Goofys \<Rightarrow> ptr \<Rightarrow> string \<Rightarrow> ('t, 'd, 'c) Goofys \<Rightarrow> bool" where
  "fresh s p n s1 \<longleftrightarrow> nextPtr s1 = Suc (nextPtr s) \<and> (\<forall>q < nextPtr s. skel_of (heap s1 q) = skel_of (heap s q)) \<and>
     i_Name (heap s1 (nextPtr s)) = n \<and> i_Parent (heap s1 (nextPtr s)) = Some p"

lemma fresh_skel: "fresh s p n s1 \<Longrightarrow> skel s2 = skel s1 \<Longrightarrow> fresh s p n s2"
  unfolding fresh_def skel_def skel_of_def by (auto simp: fun_eq_iff)

lemma fresh_NewInode: "fresh s p n (snd (NewInode E now s (Some p) n))"
  by (simp add: fresh_def)

lemma fresh_ToDir: "fresh s p n s1 \<Longrightarrow> fresh s p n (ToDir E s1 (nextPtr s))"
  by (auto simp: fresh_def)

lemma freshD:
  assumes "fresh s p n s1" "q < nextPtr s"
  shows "i_Name (heap s1 q) = i_Name (heap s q)" "i_Parent (heap s1 q) = i_Parent (heap s q)" "isDir s1 q = isDir s q"
    "d_Children (dirOf s1 q) = d_Children (dirOf s q)"
proof -
  have q: "skel_of (heap s1 q) = skel_of (heap s q)" using assms by (simp add: fresh_def)
  then show "i_Name (heap s1 q) = i_Name (heap s q)" "i_Parent (heap s1 q) = i_Parent (heap s q)" by (simp_all add: skel_of_def)
  from q show "isDir s1 q = isDir s q" "d_Children (dirOf s1 q) = d_Children (dirOf s q)"
    by (cases "i_dir (heap s q)"; cases "i_dir (heap s1 q)"; simp add: skel_of_def isDir_def dirOf_def)+
qed

lemma fresh_entries:
  assumes "fresh s p n s1" "fs_ok E s" "q < nextPtr s"
  shows "entries s1 q = entries s q"
proof (cases "isDir s q")
  case True
  then have "\<forall>c \<in> set (d_Children (dirOf s q)). c < nextPtr s" using fs_ok_links [OF assms(2,3)] unfolding dir_links_def by blast
  then have "cnames s1 q = cnames s q" using freshD(1) [OF assms(1)] freshD(4) [OF assms(1,3)] by (simp add: cnames_def)
  then show ?thesis using freshD(4) [OF assms(1,3)] by (simp add: entries_def)
next
  case False
  then have "\<not> isDir s1 q" using freshD(3) [OF assms(1,3)] by simp
  with False show ?thesis by (simp add: entries_def cnames_def dirOf_def isDir_def zeroDir_def)
qed

lemma fresh_grow: "fresh s p n s1 \<Longrightarrow> grow s s1"
proof -
  assume f: "fresh s p n s1"
  then have "nextPtr s \<le> nextPtr s1" by (simp add: fresh_def)
  with freshD [OF f] show ?thesis by (simp add: grow_def)
qed

lemma insertInode_step:
  assumes ok: "fs_ok E s" and p: "p < nextPtr s" "isDir s p" and none: "entries s p n = None"
    and fr: "fresh s p n s1" and ok1: "fs_ok E s1" and i0: "i_Id (heap s1 (nextPtr s)) = 0"
  shows "\<exists>s2. insertInode s1 p (nextPtr s) = Some s2 \<and> fs_ok E s2 \<and> grow s s2 \<and> sets_entries s p ((entries s p)(n \<mapsto> nextPtr s)) s2 \<and>
    same s1 s2"
proof -
  let ?c = "nextPtr s"
  have c: "?c < nextPtr s1" "i_Parent (heap s1 ?c) = Some p" "i_Name (heap s1 ?c) = n" "p < nextPtr s1" "isDir s1 p"
    using fr p freshD(3) [OF fr p(1)] by (auto simp: fresh_def)
  obtain s2 where s2: "insertInode s1 p ?c = Some s2" "fs_ok E s2" "nextPtr s2 = nextPtr s1" "\<forall>q. isDir s2 q = isDir s1 q"
    "\<forall>q. i_Name (heap s2 q) = i_Name (heap s1 q)" "\<forall>q. i_Parent (heap s2 q) = i_Parent (heap s1 q)"
    "entries s2 p = (entries s1 p)(n \<mapsto> ?c)" "\<forall>q. q \<noteq> p \<longrightarrow> dirOf s2 q = dirOf s1 q"
    using insertInode_ok [OF ok1 c(4,5,1,2) i0] none fresh_entries [OF fr ok p(1)] unfolding c(3) by auto
  have sm: "same s1 s2" using s2 by (simp add: same_def)
  have "entries s2 q = entries s q" if "q < nextPtr s" "q \<noteq> p" for q
  proof -
    have "entries s2 q = entries s1 q" using s2(5,8) that(2) by (simp add: entries_def cnames_def)
    then show ?thesis using fresh_entries [OF fr ok that(1)] by simp
  qed
  then have "sets_entries s p ((entries s p)(n \<mapsto> ?c)) s2" using s2(7) fresh_entries [OF fr ok p(1)] by (simp add: sets_entries_def)
  with s2(1,2) sm grow_trans [OF fresh_grow [OF fr] same_grow [OF sm]] show ?thesis by blast
qed

lemma CreateOrOpen_step:
  assumes ok: "fs_ok E s" and p: "p < nextPtr s" "isDir s p"
  shows "\<exists>s' r. CreateOrOpen E now s p n opn = Some (s', r) \<and> fs_ok E s' \<and> grow s s' \<and>
    (case entries s p n of
       Some c \<Rightarrow> skel s' = skel s \<and> (if opn then \<exists>fh. r = Inr (c, fh) else r = Inl (Errno EEXIST))
     | None \<Rightarrow> (\<exists>fh. r = Inr (nextPtr s, fh)) \<and> sets_entries s p ((entries s p)(n \<mapsto> nextPtr s)) s' \<and> states s' (nextPtr s) = ST_CREATED)"
proof (cases "entries s p n")
  case (Some c)
  have "soft s (fst (OpenFile E s c))" by (rule OpenFile_soft)
  then show ?thesis
    using Some ok p soft_ok [of s "fst (OpenFile E s c)" E] grow_skel [of "fst (OpenFile E s c)" s]
    by (auto simp: CreateOrOpen_def findChildUnlocked_entries [OF fs_ok_dir [OF ok p]] soft_def OpenFile_def Let_def split: prod.splits)
next
  case None
  let ?c = "nextPtr s" and ?s0 = "snd (NewInode E now s (Some p) n)"
  define s1 where "s1 = Ref (upd ?c (\<lambda>i. i\<lparr>i_userMetadata := Some [], i_Attributes := newAttributes E now\<rparr>) ?s0) ?c"
  have sk1: "skel s1 = skel ?s0" "bufview s1 = bufview ?s0" by (simp_all add: s1_def)
  have "fs_ok E s1" using NewInode_ok [OF ok] fs_ok_skel [OF sk1] by simp
  moreover have "fresh s p n s1" by (rule fresh_skel [OF fresh_NewInode sk1(1)])
  moreover have "i_Id (heap s1 ?c) = 0" by (simp add: s1_def Ref_def)
  ultimately obtain s2 where s2: "insertInode s1 p ?c = Some s2" "fs_ok E s2" "grow s s2" "sets_entries s p ((entries s p)(n \<mapsto> ?c)) s2"
    using insertInode_step [OF ok p None] by blast
  define s3 where "s3 = touch now (addModified (upd ?c (\<lambda>i. i\<lparr>i_fileHandles := 1\<rparr>) (WakeupFlusher (SetCacheState E s2 ?c ST_CREATED))) (Some p) 1) p"
  have sk3: "skel s3 = skel s2" "bufview s3 = bufview s2" "states s3 ?c = ST_CREATED"
    by (simp_all add: s3_def) (simp add: WakeupFlusher_def)
  have "CreateOrOpen E now s p n opn = Some (s3, Inr (?c, NewFileHandle E ?c))"
    using None p s2(1) unfolding s1_def
    by (simp add: CreateOrOpen_def findChildUnlocked_entries [OF fs_ok_dir [OF ok p]] split_beta Let_def s3_def)
  moreover have "fs_ok E s3" using s2(2) fs_ok_skel [OF sk3(1,2)] by simp
  ultimately show ?thesis
    using None sk3(3) sets_entries_skel [OF s2(4) sk3(1)] grow_trans [OF s2(3) grow_skel [OF sk3(1)]] by auto
qed

lemma newDir_step:
  assumes ok: "fs_ok E s" and p: "p < nextPtr s" "isDir s p" and none: "entries s p n = None"
  shows "\<exists>s'. newDir E now s p n = Some (s', nextPtr s) \<and> fs_ok E s' \<and> grow s s' \<and> sets_entries s p ((entries s p)(n \<mapsto> nextPtr s)) s' \<and>
    isDir s' (nextPtr s)"
proof -
  let ?c = "nextPtr s" and ?s0 = "snd (NewInode E now s (Some p) n)"
  let ?sa = "upd ?c (\<lambda>i. i\<lparr>i_userMetadata := Some []\<rparr>) ?s0"
  let ?sb = "touch now (ToDir E ?sa ?c) ?c"
  define s1 where "s1 = Ref (raiseTimes p ?c (updDir ?c (\<lambda>d. d\<lparr>d_DirTime := a_Ctime (i_Attributes (heap ?sb ?c))\<rparr>) ?sb)) ?c"
  have td: "skel (ToDir E ?sa ?c) = skel (ToDir E ?s0 ?c)" "bufview (ToDir E ?sa ?c) = bufview (ToDir E ?s0 ?c)"
    by (auto simp: skel_def ToDir_def fun_eq_iff skel_of_def)
  then have sk1: "skel s1 = skel (ToDir E ?s0 ?c)" "bufview s1 = bufview (ToDir E ?s0 ?c)" by (simp_all add: s1_def)
  have ok1: "fs_ok E s1" using NewDir_ok(1) [OF ok] fs_ok_skel [OF sk1] by blast
  have fr: "fresh s p n s1" by (rule fresh_skel [OF fresh_ToDir [OF fresh_NewInode] sk1(1)])
  have m1: "metas (raiseTimes p ?c (updDir ?c (\<lambda>d. d\<lparr>d_DirTime := a_Ctime (i_Attributes (heap ?sb ?c))\<rparr>) ?sb)) = metas ?s0" by simp
  have "i_Id (heap s1 ?c) = 0" using metasD(1) [OF m1, of ?c] by (simp add: s1_def Ref_def)
  then obtain s2 where s2: "insertInode s1 p ?c = Some s2" "fs_ok E s2" "grow s s2" "sets_entries s p ((entries s p)(n \<mapsto> ?c)) s2" "same s1 s2"
    using insertInode_step [OF ok p none fr ok1] by blast
  define s3 where "s3 = SetAttrTime E (if \<not> f_NoDirObject (g_flags E) then SetCacheState E s2 ?c ST_CREATED
    else updDir ?c (\<lambda>d. d\<lparr>d_ImplicitDir := True\<rparr>) s2) ?c now"
  have sk3: "skel s3 = skel s2" "bufview s3 = bufview s2" by (simp_all add: s3_def)
  have "newDir E now s p n = Some (s3, ?c)"
    using s2(1) unfolding s1_def by (simp add: newDir_def split_beta Let_def s3_def cong: if_cong)
  moreover have "fs_ok E s3" using s2(2) fs_ok_skel [OF sk3] by simp
  moreover have "isDir s3 ?c" using skelD(5) [OF sk3(1)] s2(5) skelD(5) [OF sk1(1)] by (simp add: same_def)
  ultimately show ?thesis
    using sets_entries_skel [OF s2(4) sk3(1)] grow_trans [OF s2(3) grow_skel [OF sk3(1)]] by blast
qed

lemma insertChild_step:
  assumes ok: "fs_ok E s" and p: "p < nextPtr s" "isDir s p" and c: "c < nextPtr s" "i_Parent (heap s c) = Some p"
    and none: "entries s p (i_Name (heap s c)) = None"
  shows "\<exists>s'. insertChildUnlocked s p c = Some s' \<and> fs_ok E s' \<and> same s s' \<and> sets_entries s p ((entries s p)(i_Name (heap s c) \<mapsto> c)) s' \<and>
    states s' = states s \<and> olds s' = olds s"
proof -
  obtain d' where d': "insertChildUnlocked s p c = Some (setDir p d' (Ref s c))" "fs_ok E (setDir p d' (Ref s c))"
    "entries (setDir p d' (Ref s c)) p = (entries s p)(i_Name (heap s c) \<mapsto> c)"
    using insertChild_fs_ok [OF ok p c none] by blast
  moreover have "same s (setDir p d' (Ref s c))" using p(2) by (auto simp: same_def)
  moreover have "entries (setDir p d' (Ref s c)) q = entries s q" if "q \<noteq> p" for q using that by (simp add: entries_def cnames_def)
  ultimately show ?thesis by (auto simp: sets_entries_def)
qed

lemma resurrectDir_step:
  assumes ok: "fs_ok E s" and p: "p < nextPtr s" "isDir s p" and none: "entries s p n = None"
    and del: "d_DeletedChildren (dirOf s p) n = Some c" "isDir s c"
  shows "\<exists>s'. resurrectDir E now s p n c = Some (s', c) \<and> fs_ok E s' \<and> grow s s' \<and> sets_entries s p ((entries s p)(n \<mapsto> c)) s'"
proof -
  have c: "c < nextPtr s" "i_Name (heap s c) = n" "i_Parent (heap s c) = Some p"
    using fs_ok_links [OF ok p] del unfolding dir_links_def by blast+
  let ?s0 = "delDeleted p n s" and ?m = "nextPtr s"
  let ?sN = "ToDir E (snd (NewInode E now ?s0 (Some p) n)) ?m"
  define s5 where "s5 = reviveDir E now s p n c"
  have ok0: "fs_ok E ?s0" by (rule delDeleted_ok [OF ok])
  have sk: "skel s5 = skel ?sN" "bufview s5 = bufview ?sN"
    by (simp_all add: s5_def reviveDir_def Let_def split_beta allocateInodeId_def)
  have ok5: "fs_ok E s5" using NewDir_ok(1) [OF ok0, of now "Some p" n] fs_ok_skel [OF sk, of E] by simp
  have "fresh ?s0 p n ?sN" using fresh_ToDir [OF fresh_NewInode [of ?s0 p n E now], of E] by simp
  then have fr: "fresh ?s0 p n s5" by (rule fresh_skel [OF _ sk(1)])
  have e5: "entries s5 q = entries s q" if "q < nextPtr s" for q using fresh_entries [OF fr ok0, of q] that by simp
  have n5: "i_Name (heap s5 c) = n" "i_Parent (heap s5 c) = Some p" "isDir s5 p" "p < nextPtr s5" "c < nextPtr s5"
    using freshD [OF fr, of c] freshD [OF fr, of p] c p fr by (auto simp: fresh_def)
  obtain s' where s': "insertChildUnlocked s5 p c = Some s'" "fs_ok E s'" "same s5 s'" "sets_entries s5 p ((entries s5 p)(n \<mapsto> c)) s'"
    using insertChild_step [OF ok5 n5(4,3,5,2)] none e5 [OF p(1)] unfolding n5(1) by auto
  have "resurrectDir E now s p n c = Some (s', c)"
    using s'(1) by (simp add: resurrectDir_def s5_def)
  moreover have "grow s s'"
  proof -
    have "grow s ?s0" by (simp add: grow_def)
    then show ?thesis using fresh_grow [OF fr] same_grow [OF s'(3)] grow_trans by blast
  qed
  moreover have "sets_entries s p ((entries s p)(n \<mapsto> c)) s'"
    using s'(4) e5 p(1) fr by (auto simp: sets_entries_def fresh_def)
  ultimately show ?thesis using s'(2) by blast
qed

lemma MkDir_step:
  assumes ok: "fs_ok E s" and p: "p < nextPtr s" "isDir s p"
  shows "\<exists>s' r. MkDir E now s p n = Some (s', r) \<and> fs_ok E s' \<and> grow s s' \<and>
    (case entries s p n of Some c \<Rightarrow> s' = s \<and> r = Inl (Errno EEXIST)
     | None \<Rightarrow> \<exists>c. r = Inr c \<and> sets_entries s p ((entries s p)(n \<mapsto> c)) s')"
proof (cases "entries s p n")
  case (Some c)
  then show ?thesis using ok p by (simp add: MkDir_def findChildUnlocked_entries [OF fs_ok_dir [OF ok p]])
next
  case None
  obtain s' c where s': "doMkDir E now s p n = Some (s', c)" "fs_ok E s'" "grow s s'" "sets_entries s p ((entries s p)(n \<mapsto> c)) s'"
  proof (cases "\<exists>c. d_DeletedChildren (dirOf s p) n = Some c \<and> isDir s c")
    case True
    then obtain c where c: "d_DeletedChildren (dirOf s p) n = Some c" "isDir s c" by blast
    from resurrectDir_step [OF ok p None c, of now] show thesis using that c by (auto simp: doMkDir_def)
  next
    case False
    then have "doMkDir E now s p n = newDir E now s p n" by (auto simp: doMkDir_def split: option.splits)
    with newDir_step [OF ok p None, of now] show thesis using that by auto
  qed
  have sk: "skel (WakeupFlusher s') = skel s'" "bufview (WakeupFlusher s') = bufview s'" by simp_all
  show ?thesis
    using None s' p fs_ok_skel [OF sk, of E] sets_entries_skel [OF s'(4) sk(1)] grow_trans [OF s'(3) grow_skel [OF sk(1)]]
    by (simp add: MkDir_def findChildUnlocked_entries [OF fs_ok_dir [OF ok p]])
qed

lemma CreateSymlink_step:
  assumes ok: "fs_ok E s" and p: "p < nextPtr s" "isDir s p"
  shows "\<exists>s' r. CreateSymlink E now s p n t = Some (s', r) \<and> fs_ok E s' \<and> grow s s' \<and>
    (case entries s p n of Some c \<Rightarrow> s' = s \<and> r = Inl (Errno EEXIST)
     | None \<Rightarrow> r = Inr (nextPtr s) \<and> sets_entries s p ((entries s p)(n \<mapsto> nextPtr s)) s')"
proof (cases "entries s p n")
  case (Some c)
  then show ?thesis using ok p by (simp add: CreateSymlink_def findChildUnlocked_entries [OF fs_ok_dir [OF ok p]])
next
  case None
  let ?c = "nextPtr s" and ?s0 = "snd (NewInode E now s (Some p) n)"
  define s1 where "s1 = Ref (upd ?c (\<lambda>i. i\<lparr>i_userMetadata := Some [(f_SymlinkAttr (g_flags E), t)], i_userMetadataDirty := 2,
    i_Attributes := newAttributes E now\<rparr>) ?s0) ?c"
  have sk1: "skel s1 = skel ?s0" "bufview s1 = bufview ?s0" by (simp_all add: s1_def)
  have "fs_ok E s1" using NewInode_ok [OF ok] fs_ok_skel [OF sk1] by simp
  moreover have "fresh s p n s1" by (rule fresh_skel [OF fresh_NewInode sk1(1)])
  moreover have "i_Id (heap s1 ?c) = 0" by (simp add: s1_def Ref_def)
  ultimately obtain s2 where s2: "insertInode s1 p ?c = Some s2" "fs_ok E s2" "grow s s2" "sets_entries s p ((entries s p)(n \<mapsto> ?c)) s2"
    using insertInode_step [OF ok p None] by blast
  define s3 where "s3 = touch now (WakeupFlusher (SetCacheState E s2 ?c ST_CREATED)) p"
  have sk3: "skel s3 = skel s2" "bufview s3 = bufview s2" by (simp_all add: s3_def)
  have "CreateSymlink E now s p n t = Some (s3, Inr ?c)"
    using None p s2(1) unfolding s1_def
    by (simp add: CreateSymlink_def findChildUnlocked_entries [OF fs_ok_dir [OF ok p]] split_beta Let_def s3_def)
  moreover have "fs_ok E s3" using s2(2) fs_ok_skel [OF sk3(1,2)] by simp
  ultimately show ?thesis
    using None sets_entries_skel [OF s2(4) sk3(1)] grow_trans [OF s2(3) grow_skel [OF sk3(1)]] by auto
qed

section \<open>Renaming a file\<close>

lemma reparent_ok:
  fixes n :: string and q :: ptr
  assumes ok: "fs_ok E s" and c: "c < nextPtr s" "\<not> isDir s c"
    and nin: "\<And>r. r < nextPtr s \<Longrightarrow> isDir s r \<Longrightarrow> c \<notin> set (d_Children (dirOf s r))"
  defines "s' \<equiv> upd c (\<lambda>i. i\<lparr>i_Name := n, i_Parent := Some q\<rparr>) s"
  shows "fs_ok E s'" "r < nextPtr s \<Longrightarrow> entries s' r = entries s r" "isDir s' = isDir s"
proof -
  have h: "i_Name (heap s' x) = (if x = c then n else i_Name (heap s x))" "i_Parent (heap s' x) = (if x = c then Some q else i_Parent (heap s x))" for x
    by (simp_all add: s'_def)
  show dir: "isDir s' = isDir s" by (auto simp: s'_def isDir_def fun_eq_iff)
  have d: "dirOf s' x = dirOf s x" for x by (simp add: s'_def dirOf_def)
  have cn: "cnames s' r = cnames s r" if "r < nextPtr s" "isDir s r" for r
    using nin [OF that] by (auto simp: cnames_def d h)
  then show "entries s' r = entries s r" if "r < nextPtr s" for r
  proof (cases "isDir s r")
    case True
    with cn that show ?thesis by (simp add: entries_def d)
  next
    case False
    then have "d_Children (dirOf s r) = []" by (simp add: dirOf_def isDir_def zeroDir_def)
    then show ?thesis by (simp add: entries_def cnames_def d)
  qed
  have "dir_links s' r" if r: "r < nextPtr s" "isDir s r" for r
  proof -
    have l: "sorted_wrt (<) (cnames s r)" "\<And>x. x \<in> set (d_Children (dirOf s r)) \<Longrightarrow> x < nextPtr s \<and> i_Parent (heap s x) = Some r"
      "\<And>m x. d_DeletedChildren (dirOf s r) m = Some x \<Longrightarrow> x < nextPtr s \<and> (isDir s x \<longrightarrow> i_Name (heap s x) = m \<and> i_Parent (heap s x) = Some r)"
      using fs_ok_links [OF ok r] unfolding dir_links_def by blast+
    have "nextPtr s' = nextPtr s" by (simp add: s'_def)
    then show ?thesis unfolding dir_links_def d h cn [OF r] dir using l nin [OF r] c(2) by auto
  qed
  then have "links_ok s'" unfolding links_ok_def dir by (simp add: s'_def)
  moreover have "bufs_ok E s'" using ok bufs_ok_bufview [of s' s E] by (simp add: fs_ok_def s'_def)
  ultimately show "fs_ok E s'" using ok by (simp add: fs_ok_def)
qed

lemma noteOldName_step:
  fixes s :: "('t, 'd, 'c) Goofys" and p q :: ptr
  assumes ok: "fs_ok E s" and c: "c < nextPtr s" "\<not> isDir s c"
  defines "s' \<equiv> noteOldName s c p q"
  shows "fs_ok E s'" "same s s'" "entries s' r = entries s r" "states s' = states s" "i_refcnt (heap s' x) = i_refcnt (heap s x)"
proof -
  define keep where "keep = (\<lambda>s :: ('t, 'd, 'c) Goofys. if d_DeletedChildren (dirOf s p) (i_Name (heap s c)) = None then addDeleted p (i_Name (heap s c)) c s else s)"
  have k: "fs_ok E (keep s)" "same s (keep s)" "entries (keep s) r = entries s r" "states (keep s) = states s" "metas (keep s) = metas s" for r
    using addDeleted_ok [OF ok c(1), of "i_Name (heap s c)" p] ok c(2) by (auto simp: keep_def same_def)
  have t: "fs_ok E s3" "same s s3" "entries s3 r = entries s r" if "skel s3 = skel s2" "bufview s3 = bufview s2" "s2 = s \<or> s2 = keep s" for s2 s3 r
    using that k ok fs_ok_skel [OF that(1,2), of E] skel_dirs(2) [OF that(1)] same_trans [OF _ same_skel [OF that(1)]] same_skel [OF that(1)] by auto
  let ?R = "\<lambda>s2 s'. skel s' = skel s2 \<and> bufview s' = bufview s2 \<and> states s' = states s2 \<and> (\<forall>x. i_refcnt (heap s' x) = i_refcnt (heap s2 x))"
  have a: "?R z (addModified z w m)" for z :: "('t, 'd, 'c) Goofys" and w m
    by (simp add: metasD(2) [OF addModified_views(2)])
  have u: "?R z (upd c f z)" if "skel_of (f (heap z c)) = skel_of (heap z c)" "i_buffers (f (heap z c)) = i_buffers (heap z c)"
    "i_CacheState (f (heap z c)) = i_CacheState (heap z c)" "i_refcnt (f (heap z c)) = i_refcnt (heap z c)" for z :: "('t, 'd, 'c) Goofys" and f
    using that by (auto simp: states_def)
  have R: "?R s1 s3" if "?R s1 s2" "?R s2 s3" for s1 s2 s3 :: "('t, 'd, 'c) Goofys" using that by simp
  have "\<exists>s2. (s2 = s \<or> s2 = keep s) \<and> ?R s2 s'"
  proof (cases "i_CacheState (heap s c) = ST_CREATED \<and> i_IsFlushing (heap s c) = 0 \<and> i_mpu (heap s c) = None \<or> i_oldParent (heap s c) \<noteq> None")
    case first: True
    show ?thesis
    proof (cases "i_renamingTo (heap s c)")
      case True
      with first have "s' = upd c (\<lambda>i. i\<lparr>i_renamingTo := False\<rparr>) (keep s)" unfolding s'_def noteOldName_def keep_def Let_def by simp
      then show ?thesis using u by auto
    next
      case False
      with first have "s' = (if i_oldParent (heap s c) = Some q \<and> i_oldName (heap s c) = i_Name (heap s c)
          then upd c (\<lambda>i. i\<lparr>i_oldParent := None, i_oldName := []\<rparr>) (addModified s (Some p) (- 1)) else addModified s (Some p) (- 1))"
        unfolding s'_def noteOldName_def Let_def by simp
      then show ?thesis using a [of s "Some p" "- 1"] R [OF a u, of "\<lambda>i. i\<lparr>i_oldParent := None, i_oldName := []\<rparr>" s "Some p" "- 1"] by auto
    qed
  next
    case False
    then have "s' = upd c (\<lambda>j. j\<lparr>i_oldParent := Some p, i_oldName := i_Name (heap s c)\<rparr>)
        (if i_CacheState (heap s c) = ST_CACHED then addModified (keep s) (Some p) 1 else keep s)"
      unfolding s'_def noteOldName_def keep_def Let_def by auto
    moreover have "?R (keep s) (if i_CacheState (heap s c) = ST_CACHED then addModified (keep s) (Some p) 1 else keep s)" using a by auto
    ultimately show ?thesis using R [OF _ u] by auto
  qed
  then obtain s2 where s2: "skel s' = skel s2" "bufview s' = bufview s2" "s2 = s \<or> s2 = keep s" "states s' = states s2" "\<And>x. i_refcnt (heap s' x) = i_refcnt (heap s2 x)"
    by auto
  show "fs_ok E s'" "same s s'" "entries s' r = entries s r" using t [OF s2(1-3)] by blast+
  show "states s' = states s" "i_refcnt (heap s' x) = i_refcnt (heap s x)" using s2 k(4) metasD(2) [OF k(5)] by auto
qed

text \<open>A file removed from its directory is a child of no directory.\<close>

lemma removed_orphan:
  assumes ok: "fs_ok E s" and c: "i_Parent (heap s c) = Some p" and none: "entries s p (i_Name (heap s c)) = None"
    and r: "r < nextPtr s" "isDir s r"
  shows "c \<notin> set (d_Children (dirOf s r))"
proof
  assume in_r: "c \<in> set (d_Children (dirOf s r))"
  then have "i_Parent (heap s c) = Some r" using fs_ok_links [OF ok r] unfolding dir_links_def by blast
  then have "r = p" using c by simp
  then have "i_Name (heap s c) \<in> set (cnames s p)" using in_r by (auto simp: cnames_def)
  then show False using none by (simp add: entries_None)
qed

definition moved :: "('t, 'd, 'c) Goofys \<Rightarrow> ptr \<Rightarrow> string \<Rightarrow> ptr \<Rightarrow> string \<Rightarrow> ptr \<Rightarrow> ptr \<Rightarrow> string \<Rightarrow> ptr option" where
  "moved s p nf q nt c r =
     (let m = (if r = p then (entries s r)(nf := None) else entries s r) in if r = q then m(nt \<mapsto> c) else m)"

lemma renameInCache_step:
  assumes ok: "fs_ok E s" and p: "p < nextPtr s" "isDir s p" and q: "q < nextPtr s" "isDir s q"
    and e: "entries s p nf = Some c" and notdir: "\<not> isDir s c" and free: "entries s q nt = None"
  shows "\<exists>s'. renameInCache E s c q nt = Some s' \<and> fs_ok E s' \<and> grow s s' \<and> (\<forall>r < nextPtr s. entries s' r = moved s p nf q nt c r) \<and>
    i_Name (heap s' c) = nt \<and> i_Parent (heap s' c) = Some q \<and> olds s' = olds (noteOldName s c p q)"
proof -
  note c = fs_ok_child [OF ok p e]
  let ?s1 = "noteOldName s c p q"
  note s1 = noteOldName_step [OF ok c(1) notdir, of p q]
  define s2 where "s2 = (if d_DeletedChildren (dirOf ?s1 q) nt = Some c then delDeleted q nt ?s1 else ?s1)"
  define s4 where "s4 = Ref (renameCacheFile E s2 c q nt) c"
  have s2: "fs_ok E s2" "same s s2" "\<And>r. entries s2 r = entries s r"
    using s1 delDeleted_ok [of E ?s1 q nt] by (auto simp: s2_def same_def)
  have sk4: "skel s4 = skel s2" "bufview s4 = bufview s2" by (simp_all add: s4_def)
  have s4: "fs_ok E s4" "same s s4" "\<And>r. entries s4 r = entries s r"
    using s2 fs_ok_skel [OF sk4, of E] same_trans [OF s2(2) same_skel [OF sk4(1)]] skel_dirs(2) [OF sk4(1)] by auto
  have n4: "p < nextPtr s4" "isDir s4 p" "c < nextPtr s4" "i_Name (heap s4 c) = nf" using s4(2) p c by (auto simp: same_def)
  obtain s5 where s5: "removeChildUnlocked E s4 p c = Some s5" "fs_ok E s5" "same s4 s5" "sets_entries s4 p ((entries s4 p)(nf := None)) s5" "olds s5 = olds s4"
    using removeChild_step [OF s4(1) n4(1,2,3), of c] s4(3) e unfolding n4(4) by auto
  define s6 where "s6 = (if i_fileHandles (heap s5 c) > 0 then addModified (addModified s5 (Some p) (- 1)) (Some q) 1 else s5)"
  have sk6: "skel s6 = skel s5" "bufview s6 = bufview s5" by (simp_all add: s6_def)
  have s6: "fs_ok E s6" "same s s6" using s5(2) fs_ok_skel [OF sk6, of E] same_trans [OF same_trans [OF s4(2) s5(3)] same_skel [OF sk6(1)]] by simp_all
  have e6: "entries s6 r = (if r = p then (entries s r)(nf := None) else entries s r)" if "r < nextPtr s" for r
    using s5(4) s4(2,3) that unfolding skel_dirs(2) [OF sk6(1)] sets_entries_def same_def by auto
  define s7 where "s7 = upd c (\<lambda>i. i\<lparr>i_Name := nt, i_Parent := Some q\<rparr>) s6"
  have c6: "c < nextPtr s6" "\<not> isDir s6 c" "i_Parent (heap s6 c) = Some p" "i_Name (heap s6 c) = nf"
    using s6(2) c notdir by (auto simp: same_def)
  have orphan: "c \<notin> set (d_Children (dirOf s6 r))" if "r < nextPtr s6" "isDir s6 r" for r
    using removed_orphan [OF s6(1) c6(3) _ that] e6 [OF p(1)] c6(4) by simp
  note s7 = reparent_ok [OF s6(1) c6(1,2) orphan, where n = nt and q = q, folded s7_def]
  define s8 where "s8 = (if i_CacheState (heap s7 c) = ST_CACHED then SetCacheState E s7 c ST_MODIFIED else addModified s7 (Some q) 1)"
  have sk8: "skel s8 = skel s7" "bufview s8 = bufview s7" by (simp_all add: s8_def)
  note d8 = skelD [OF sk8(1)]
  have n8: "nextPtr s8 = nextPtr s" "c < nextPtr s8" "i_Name (heap s8 c) = nt" "i_Parent (heap s8 c) = Some q" "isDir s8 r = isDir s r"
    "i_Parent (heap s8 r) = (if r = c then Some q else i_Parent (heap s r))" for r
    using s6(2) c(1) s7(3) unfolding d8 by (simp_all add: s7_def same_def)
  have e8: "entries s8 r = (if r = p then (entries s r)(nf := None) else entries s r)" if "r < nextPtr s" for r
    using s7(2) e6 [OF that] that s6(2) unfolding skel_dirs(2) [OF sk8(1)] by (auto simp: same_def)
  have ok8: "fs_ok E s8" using s7(1) fs_ok_skel [OF sk8, of E] by simp
  have free8: "entries s8 q nt = None" using free e8 [OF q(1)] by auto
  obtain s9 where s9: "insertChildUnlocked s8 q c = Some s9" "fs_ok E s9" "same s8 s9" "sets_entries s8 q ((entries s8 q)(nt \<mapsto> c)) s9" "olds s9 = olds s8"
    using insertChild_step [OF ok8 _ _ n8(2,4)] q free8 n8 by auto
  have "c < nextPtr s9" using s9(3) n8(2) by (simp add: same_def)
  then obtain s' b where s': "DeRef E s9 c 1 = Some (s', b)" "fs_ok E s'" "tree s' = tree s9" "olds s' = olds s9" using DeRef_fs [OF s9(2)] by blast
  note t' = skel_tree [OF s'(3)]
  have "renameInCache E s c q nt = Some s'"
    using s5(1) s9(1) s'(1) unfolding s4_def s2_def by (simp add: renameInCache_def c(2) Let_def s6_def s7_def s8_def cong: if_cong)
  moreover have "grow s s'"
  proof -
    have "grow s s8" using n8(1,5,6) by (simp add: grow_def)
    then show ?thesis using same_grow [OF s9(3)] grow_skel [OF t'] grow_trans by blast
  qed
  moreover have "\<forall>r < nextPtr s. entries s' r = moved s p nf q nt c r"
    using s9(4) e8 n8(1) unfolding skel_dirs(2) [OF t'] sets_entries_def moved_def Let_def by auto
  moreover have "i_Name (heap s' c) = nt" "i_Parent (heap s' c) = Some q"
    using s9(3) n8(3,4) unfolding skelD [OF t'] by (auto simp: same_def)
  moreover have "olds s' = olds ?s1"
    using s'(4) s9(5) s5(5) by (simp add: s8_def s7_def s6_def s4_def s2_def)
  ultimately show ?thesis using s'(2) by blast
qed

lemma dropTarget_step:
  assumes ok: "fs_ok E s" and q: "q < nextPtr s" "isDir s q" and e: "entries s q nt = Some t" and notdir: "\<not> isDir s t"
  shows "\<exists>s'. dropTarget E s q t = Some s' \<and> fs_ok E s' \<and> same s s' \<and> sets_entries s q ((entries s q)(nt := None)) s' \<and> states s' t = ST_DEAD"
proof -
  note t = fs_ok_child [OF ok q e]
  obtain s1 where s1: "removeChildUnlocked E s q t = Some s1" "fs_ok E s1" "same s s1" "sets_entries s q ((entries s q)(nt := None)) s1"
    using removeChild_step [OF ok q t(1)] e unfolding t(3) by blast
  have "t < nextPtr s1" using s1(3) t(1) by (simp add: same_def)
  then obtain s2 where s2: "resetCache E s1 t = Some s2" "fs_ok E s2" "tree s2 = tree s1" using resetCache_fs [OF s1(2)] by blast
  let ?s3 = "SetCacheState E s2 t ST_DEAD"
  have sk: "skel ?s3 = skel s1" using skel_tree [OF s2(3)] by simp
  have "fs_ok E ?s3" using s2(2) fs_ok_skel [of ?s3 s2 E] by simp
  with s1 s2(1) notdir same_trans [OF s1(3) same_skel [OF sk]] sets_entries_skel [OF s1(4) sk] show ?thesis
    by (simp add: dropTarget_def)
qed

lemma Rename_file_step:
  assumes ok: "fs_ok E s" and p: "p < nextPtr s" "isDir s p" and q: "q < nextPtr s" "isDir s q" and cl: "fst (cloud E s p) = fst (cloud E s q)"
    and e: "entries s p nf = Some c" and notdir: "\<not> isDir s c" and ne: "entries s q nt \<noteq> Some c"
  shows "\<exists>s' r. Rename St E now other s p nf q nt = Some (s', r) \<and> fs_ok E s' \<and> grow s s' \<and>
    (if \<exists>t. entries s q nt = Some t \<and> isDir s t then s' = s \<and> r = Some (Errno EISDIR)
     else r = None \<and> (\<forall>x < nextPtr s. entries s' x = moved s p nf q nt c x) \<and>
       i_Name (heap s' c) = nt \<and> i_Parent (heap s' c) = Some q)"
proof -
  note find = findChildUnlocked_entries [OF fs_ok_dir [OF ok p]] findChildUnlocked_entries [OF fs_ok_dir [OF ok q]]
  show ?thesis
  proof (cases "\<exists>t. entries s q nt = Some t \<and> isDir s t")
    case True
    then obtain t where t: "entries s q nt = Some t" "isDir s t" by blast
    then have "Rename St E now other s p nf q nt = Some (s, Some (Errno EISDIR))"
      using p q cl e notdir ne by (simp add: Rename_def find renameCheck_def)
    with True ok show ?thesis by auto
  next
    case False
    obtain s1 where s1: "(case entries s q nt of None \<Rightarrow> Some s | Some t \<Rightarrow> dropTarget E s q t) = Some s1" "fs_ok E s1" "same s s1"
      "sets_entries s q ((entries s q)(nt := None)) s1"
    proof (cases "entries s q nt")
      case None
      then have "sets_entries s q ((entries s q)(nt := None)) s" by (auto simp: sets_entries_def fun_eq_iff)
      with None ok that show thesis by (simp add: same_def)
    next
      case (Some t)
      then have "\<not> isDir s t" using False by blast
      with dropTarget_step [OF ok q Some] Some that show thesis by auto
    qed
    have n1: "p < nextPtr s1" "isDir s1 p" "q < nextPtr s1" "isDir s1 q" "\<not> isDir s1 c" using s1(3) p q notdir by (auto simp: same_def)
    have e1: "entries s1 x = (if x = q then (entries s x)(nt := None) else entries s x)" if "x < nextPtr s" for x
      using s1(4) that by (auto simp: sets_entries_def)
    have "\<not> (p = q \<and> nf = nt)" using e ne by auto
    then have e1c: "entries s1 p nf = Some c" "entries s1 q nt = None" using e1 [OF p(1)] e1 [OF q(1)] e by auto
    obtain s2 where s2: "renameInCache E s1 c q nt = Some s2" "fs_ok E s2" "grow s1 s2" "\<forall>r < nextPtr s1. entries s2 r = moved s1 p nf q nt c r"
      "i_Name (heap s2 c) = nt" "i_Parent (heap s2 c) = Some q"
      using renameInCache_step [OF s1(2) n1(1-4) e1c(1) n1(5) e1c(2)] by blast
    let ?s' = "WakeupFlusher s2"
    have sk: "skel ?s' = skel s2" "bufview ?s' = bufview s2" by simp_all
    have chk: "(case entries s q nt of None \<Rightarrow> Some (s, None) | Some t \<Rightarrow> if t = c then None else renameCheck St E now other s c t) = Some (s, None)"
      using notdir ne False by (auto simp: renameCheck_def split: option.splits)
    have "Rename St E now other s p nf q nt = Some (?s', None)"
      using p q cl e s1(1) s2(1) n1(5) by (simp add: Rename_def find chk)
    moreover have "fs_ok E ?s'" "grow s ?s'"
      using s2(2) fs_ok_skel [OF sk, of E] grow_trans [OF same_grow [OF s1(3)] grow_trans [OF s2(3) grow_skel [OF sk(1)]]] by simp_all
    moreover have "entries ?s' x = moved s p nf q nt c x" if "x < nextPtr s" for x
    proof -
      have "entries ?s' x = moved s1 p nf q nt c x" using s2(4) that s1(3) unfolding skel_dirs(2) [OF sk(1)] same_def by simp
      also have "\<dots> = moved s p nf q nt c x" using e1 [OF that] by (auto simp: moved_def Let_def fun_eq_iff)
      finally show ?thesis .
    qed
    ultimately show ?thesis using False s2(5,6) skelD(1,2) [OF sk(1)] by auto
  qed
qed

end
