(* ===== verification/Readdir.thy ===== *)
theory Readdir
  imports Dir_Handles
begin

text \<open>
  Reading a directory while it changes.  POSIX asks that an entry which is neither added nor removed
  during a pass over a directory is returned exactly once.  The handle keeps an index into the slice of
  children, and a change of the slice only bumps the generation of the directory.  The interface
  \<open>dir_positions\<close> states what the handle needs of the children; it is interpreted on the
  operations of the model, and the guarantee follows.
\<close>

section \<open>Positions in a changing list\<close>

text \<open>A name is behind the position when the last name served is not smaller; \<^const>\<open>None\<close> is the
  position before the first child.\<close>

fun behind :: "string option \<Rightarrow> string \<Rightarrow> bool" where
  "behind None n = False"
| "behind (Some l) n = (n \<le> l)"

definition pos_ok :: "string set \<Rightarrow> string list \<Rightarrow> nat \<Rightarrow> int \<Rightarrow> nat \<Rightarrow> string option \<Rightarrow> bool" where
  "pos_ok P ns g0 K g l \<longleftrightarrow> g \<le> g0 \<and>
     (g = g0 \<and> 0 \<le> K \<longrightarrow> (\<forall>i < length ns. ns ! i \<in> P \<longrightarrow> (int i < K \<longleftrightarrow> behind l (ns ! i))))"

lemma pos_okI:
  "(\<And>i. i < length ns \<Longrightarrow> int i < K \<longleftrightarrow> behind l (ns ! i)) \<Longrightarrow> pos_ok P ns g K g l"
  by (simp add: pos_ok_def)

locale dir_positions =
  fixes names :: "'s \<Rightarrow> string list" and gen :: "'s \<Rightarrow> nat" and inv :: "'s \<Rightarrow> bool" and change :: "'s \<Rightarrow> 's \<Rightarrow> bool"
  assumes sorted: "inv s \<Longrightarrow> sorted_wrt (<) (names s)"
    and change_inv: "inv s \<Longrightarrow> change s s' \<Longrightarrow> inv s'"
    and change_gen: "inv s \<Longrightarrow> change s s' \<Longrightarrow> gen s < gen s' \<or> gen s' = gen s \<and> (\<exists>ys. names s' = names s @ ys)"
begin

lemma change_pos:
  assumes inv: "inv s" and ch: "change s s'" and ok: "pos_ok P (names s) (gen s) K g l" and P: "P \<subseteq> set (names s)"
  shows "pos_ok P (names s') (gen s') K g l"
proof (cases "gen s < gen s'")
  case True
  with ok show ?thesis by (auto simp: pos_ok_def)
next
  case False
  then obtain ys where ys: "gen s' = gen s" "names s' = names s @ ys" using change_gen [OF inv ch] by auto
  have d: "distinct (names s')" using sorted [OF change_inv [OF inv ch]] by (simp add: strict_sorted_iff)
  have "i < length (names s)" if "i < length (names s')" "names s' ! i \<in> P" for i
  proof (rule ccontr)
    assume "\<not> i < length (names s)"
    with that ys(2) have "names s' ! i \<in> set ys" by (auto simp: nth_append)
    moreover have "names s' ! i \<in> set (names s)" using that P by blast
    ultimately show False using d ys(2) by auto
  qed
  then have "int i < K \<longleftrightarrow> behind l (names s' ! i)"
    if "g = gen s" "0 \<le> K" "i < length (names s')" "names s' ! i \<in> P" for i
    using that ok ys(2) unfolding pos_ok_def by (metis nth_append)
  with ok ys(1) show ?thesis by (auto simp: pos_ok_def)
qed

lemma serve_pos:
  assumes inv: "inv s" and ok: "pos_ok P (names s) (gen s) K (gen s) l" and K: "0 \<le> K" "K < int (length (names s))"
  defines "m \<equiv> names s ! nat K"
  shows "pos_ok P (names s) (gen s) (K + 1) (gen s) (Some m)" "m \<in> P \<Longrightarrow> \<not> behind l m"
    "n \<in> P \<Longrightarrow> n \<in> set (names s) \<Longrightarrow> n \<le> m \<longleftrightarrow> behind l n \<or> n = m"
proof -
  have le: "names s ! i \<le> m \<longleftrightarrow> int i \<le> K" if "i < length (names s)" for i
  proof -
    have "names s ! i < m" if "i < nat K" using that K sorted [OF inv] unfolding m_def by (auto simp: sorted_wrt_nth_less)
    moreover have "m < names s ! i" if "nat K < i" using that \<open>i < length (names s)\<close> sorted [OF inv] unfolding m_def by (auto simp: sorted_wrt_nth_less)
    ultimately show ?thesis using K by (cases "i = nat K"; cases "i < nat K") (auto simp: m_def not_le [symmetric])
  qed
  show "pos_ok P (names s) (gen s) (K + 1) (gen s) (Some m)" using K le by (auto simp: pos_ok_def)
  show "m \<in> P \<Longrightarrow> \<not> behind l m" using ok K unfolding pos_ok_def m_def by (metis int_nat_eq less_irrefl zless_nat_conj nat_less_iff)
  assume n: "n \<in> P" "n \<in> set (names s)"
  then obtain i where i: "i < length (names s)" "names s ! i = n" by (auto simp: in_set_conv_nth)
  have "int i < K \<longleftrightarrow> behind l n" using ok K i n(1) by (auto simp: pos_ok_def)
  moreover have "n \<le> m \<longleftrightarrow> int i \<le> K" using le [OF i(1)] i(2) by simp
  moreover have "n = m \<longleftrightarrow> int i = K"
  proof
    assume "n = m"
    then have "names s ! i = names s ! nat K" using i(2) m_def by simp
    moreover have "distinct (names s)" using sorted [OF inv] by (simp add: strict_sorted_iff)
    ultimately show "int i = K" using i(1) K by (auto simp: nth_eq_iff_index_eq)
  qed (use i K in \<open>auto simp: m_def\<close>)
  ultimately show "n \<le> m \<longleftrightarrow> behind l n \<or> n = m" by auto
qed

lemma end_pos:
  assumes "pos_ok P (names s) (gen s) K (gen s) l" "int (length (names s)) \<le> K" "n \<in> P" "n \<in> set (names s)"
  shows "behind l n"
  using assms by (force simp: pos_ok_def in_set_conv_nth)

end

section \<open>Changes of a directory\<close>

text \<open>One step of the rest of the program as the directory \<open>p\<close> sees it: an insertion, a removal, the removal
  of all children, or a change of something else.\<close>

inductive dir_change :: "('t, 'd, 'c) gEnv \<Rightarrow> ptr \<Rightarrow> ('t, 'd, 'c) Goofys \<Rightarrow> ('t, 'd, 'c) Goofys \<Rightarrow> bool" for E p where
  insert: "insertChildUnlocked s p c = Some s' \<Longrightarrow> dir_change E p s s'"
| remove: "removeChildUnlocked E s p c = Some s' \<Longrightarrow> dir_change E p s s'"
| clear: "removeAllChildrenUnlocked n E s p = Some s' \<Longrightarrow> dir_change E p s s'"
| other: "cnames s' p = cnames s p \<Longrightarrow> isDir s' p = isDir s p \<Longrightarrow> d_generation (dirOf s' p) = d_generation (dirOf s p) \<Longrightarrow> dir_change E p s s'"

lemma withBuffers_tree: "withBuffers p f s = Some (s', r) \<Longrightarrow> tree s' = tree s"
  by (auto simp: withBuffers_def split: bind_splits)

lemma resetCache_tree: "resetCache E s p = Some s' \<Longrightarrow> tree s' = tree s"
  by (auto simp: resetCache_def Let_def dest!: withBuffers_tree split: bind_splits if_splits)

lemma DeRef_tree: "DeRef E s p n = Some (s', b) \<Longrightarrow> tree s' = tree s"
  by (auto simp: DeRef_def Let_def dest!: resetCache_tree split: bind_splits if_splits)

lemma insert_change:
  assumes ok: "dir_ok s p" and ins: "insertChildUnlocked s p c = Some s'"
  shows "dir_ok s' p" "d_generation (dirOf s p) < d_generation (dirOf s' p) \<or>
    d_generation (dirOf s' p) = d_generation (dirOf s p) \<and> (\<exists>ys. cnames s' p = cnames s p @ ys)"
proof -
  have none: "entries s p (i_Name (heap s c)) = None"
    using insertChildUnlocked_double [OF ok, of c] ins by (cases "entries s p (i_Name (heap s c))") auto
  from insertChildUnlocked_ok [OF ok none] ins obtain d' i where d': "s' = setDir p d' (Ref s c)"
    "inserted i c (dirOf s p) d'" "dir_ok s' p" by auto
  show "dir_ok s' p" by (rule d'(3))
  show "d_generation (dirOf s p) < d_generation (dirOf s' p) \<or>
    d_generation (dirOf s' p) = d_generation (dirOf s p) \<and> (\<exists>ys. cnames s' p = cnames s p @ ys)"
    using d'(2) unfolding d'(1) by (auto simp: inserted_def cnames_def)
qed

lemma remove_change:
  assumes ok: "dir_ok s p" and rem: "removeChildUnlocked E s p c = Some s'"
  shows "dir_ok s' p" "d_generation (dirOf s p) < d_generation (dirOf s' p) \<or> d_generation (dirOf s' p) = d_generation (dirOf s p) \<and> cnames s' p = cnames s p"
proof -
  have "dir_ok s' p \<and> (d_generation (dirOf s p) < d_generation (dirOf s' p) \<or> s' = s)"
  proof (cases "d_Children (dirOf s p) = []")
    case True
    with rem ok show ?thesis by (simp add: removeChildUnlocked_def)
  next
    case False
    define i where "i = sort_search (length (d_Children (dirOf s p))) (findInodeFunc s p (i_Name (heap s c)))"
    have i: "i < length (d_Children (dirOf s p))" "i_Name (heap s (d_Children (dirOf s p) ! i)) = i_Name (heap s c)"
      using rem False by (auto simp: removeChildUnlocked_def Let_def i_def [symmetric] split: if_splits)
    obtain d' b where d': "removed_at i (dirOf s p) d'" "DeRef E (setDir p d' s) c 1 = Some (s', b)"
    proof (rule that)
      let ?k = "if int i \<le> d_lastOpenDirIdx (dirOf s p) then d_lastOpenDirIdx (dirOf s p) - 1 else d_lastOpenDirIdx (dirOf s p)"
      let ?d = "(dirOf s p)\<lparr>d_generation := Suc (d_generation (dirOf s p)), d_lastOpenDirIdx := ?k,
        d_Children := take i (d_Children (dirOf s p)) @ drop (Suc i) (d_Children (dirOf s p))\<rparr>"
      show "removed_at i (dirOf s p) ?d" using i(1) unfolding removed_at_def by blast
      show "DeRef E (setDir p ?d s) c 1 = Some (s', snd (the (DeRef E (setDir p ?d s) c 1)))"
        using rem False ok i unfolding dir_ok_def
        by (auto simp: removeChildUnlocked_def Let_def i_def [symmetric] updDir_setDir simp del: setDir_simps split del: if_split)
    qed
    have t: "tree s' = tree (setDir p d' s)" by (rule DeRef_tree [OF d'(2)])
    have "dir_ok s' p" using removed_entries(1) [OF ok d'(1)] dir_ok_tree [OF t] by simp
    moreover have "d_generation (dirOf s p) < d_generation (dirOf s' p)"
      using d'(1) treeD(4) [OF t, of p] by (auto simp: removed_at_def)
    ultimately show ?thesis by simp
  qed
  then show "dir_ok s' p" "d_generation (dirOf s p) < d_generation (dirOf s' p) \<or> d_generation (dirOf s' p) = d_generation (dirOf s p) \<and> cnames s' p = cnames s p"
    by auto
qed

lemma removeAll_gen:
  "removeAllChildrenUnlocked n E s p = Some s' \<Longrightarrow>
     d_generation (dirOf s q) \<le> d_generation (dirOf s' q) \<and> isDir s' q = isDir s q"
  "removeChildren_loop n E s cs = Some s' \<Longrightarrow>
     d_generation (dirOf s q) \<le> d_generation (dirOf s' q) \<and> isDir s' q = isDir s q"
proof (induction n E s p and n E s cs arbitrary: s' and s' rule: removeAllChildrenUnlocked_removeChildren_loop.induct)
  case (2 n E s p)
  then show ?case by (fastforce split: bind_splits simp: updDir_def upd_def dirOf_def isDir_def split: if_splits)
next
  case (4 n E s c cs)
  from 4(3) obtain s1 s2 b where s1: "(if isDir s c then removeAllChildrenUnlocked n E s c else Some s) = Some s1"
    "DeRef E s1 c 1 = Some (s2, b)" "removeChildren_loop n E s2 cs = Some s'" by (auto split: bind_splits)
  have "d_generation (dirOf s q) \<le> d_generation (dirOf s1 q) \<and> isDir s1 q = isDir s q"
    using 4(1) s1(1) by (auto split: if_splits)
  moreover have "d_generation (dirOf s2 q) = d_generation (dirOf s1 q)" "isDir s2 q = isDir s1 q"
    using treeD(4,8) [OF DeRef_tree [OF s1(2)]] by auto
  moreover have "d_generation (dirOf s2 q) \<le> d_generation (dirOf s' q) \<and> isDir s' q = isDir s2 q"
    using 4(2) [OF s1(1,2) refl s1(3)] .
  ultimately show ?case by simp
qed auto

lemma clear_change:
  assumes "isDir s p" "removeAllChildrenUnlocked n E s p = Some s'"
  shows "dir_ok s' p" "d_generation (dirOf s p) < d_generation (dirOf s' p)"
proof -
  from assms(2) obtain m s1 where s1: "n = Suc m" "removeChildren_loop m E s (d_Children (dirOf s p)) = Some s1"
    "s' = updDir p (\<lambda>d. d\<lparr>d_generation := Suc (d_generation d), d_Children := []\<rparr>) s1"
    by (cases n) (auto split: bind_splits)
  have "isDir s1 p" "d_generation (dirOf s p) \<le> d_generation (dirOf s1 p)"
    using removeAll_gen(2) [OF s1(2), of p] assms(1) by auto
  then show "dir_ok s' p" "d_generation (dirOf s p) < d_generation (dirOf s' p)"
    by (auto simp: s1(3) updDir_setDir dir_ok_def cnames_def)
qed

interpretation kids: dir_positions "\<lambda>s. cnames s p" "\<lambda>s. d_generation (dirOf s p)" "\<lambda>s. dir_ok s p" "dir_change E p"
  for E :: "('t, 'd, 'c) gEnv" and p
proof
  fix s s' :: "('t, 'd, 'c) Goofys"
  show "dir_ok s p \<Longrightarrow> sorted_wrt (<) (cnames s p)" by (simp add: dir_ok_def)
  assume ok: "dir_ok s p" and ch: "dir_change E p s s'"
  show "dir_ok s' p" using ch
  proof cases
    case other
    with ok show ?thesis by (simp add: dir_ok_def)
  qed (use ok insert_change(1) remove_change(1) clear_change(1) dir_ok_def in blast)+
  show "d_generation (dirOf s p) < d_generation (dirOf s' p) \<or>
    d_generation (dirOf s' p) = d_generation (dirOf s p) \<and> (\<exists>ys. cnames s' p = cnames s p @ ys)" using ch
  proof cases
    case (insert c)
    then show ?thesis by (rule insert_change(2) [OF ok])
  next
    case (remove c)
    then show ?thesis using remove_change(2) [OF ok remove] by auto
  next
    case (clear n)
    then show ?thesis using clear_change(2) [OF _ clear] ok by (auto simp: dir_ok_def)
  qed auto
qed

section \<open>The position of a handle\<close>

definition lastOf :: "DirHandle \<Rightarrow> string option" where
  "lastOf dh = (if dh_lastName dh = ''..'' then None else Some (dh_lastName dh))"

text \<open>A handle past the two dot entries, whose position is right for the names of \<open>P\<close>.\<close>

definition handle_at :: "string set \<Rightarrow> ('t, 'd, 'c) Goofys \<Rightarrow> ptr \<Rightarrow> nat \<Rightarrow> bool" where
  "handle_at P s p h \<longleftrightarrow>
     (let dh = dirHandleHeap s h in dh_inode dh = p \<and> dh_lastExternalOffset dh \<noteq> 0 \<and> dh_lastName dh \<noteq> ''.'' \<and>
       (dh_lastInternalOffset dh < 0 \<or> 2 \<le> dh_lastInternalOffset dh) \<and>
       pos_ok P (cnames s p) (d_generation (dirOf s p)) (dh_lastInternalOffset dh - 2) (dh_generation dh) (lastOf dh))"

definition handle_fresh :: "('t, 'd, 'c) Goofys \<Rightarrow> ptr \<Rightarrow> nat \<Rightarrow> bool" where
  "handle_fresh s p h \<longleftrightarrow> dh_generation (dirHandleHeap s h) = d_generation (dirOf s p) \<and> 2 \<le> dh_lastInternalOffset (dirHandleHeap s h)"

lemma updDh_simps [simp]:
  "dirHandleHeap (updDh h f s) k = (if k = h then f (dirHandleHeap s h) else dirHandleHeap s k)" "heap (updDh h f s) = heap s"
  "dirOf (updDh h f s) = dirOf s" "isDir (updDh h f s) = isDir s" "cnames (updDh h f s) = cnames s" "dir_ok (updDh h f s) = dir_ok s"
  by (auto simp: updDh_def dirOf_def isDir_def cnames_def dir_ok_def fun_eq_iff)

text \<open>The search by name finds the number of children that are not greater than the last name.\<close>

lemma name_position:
  fixes name :: string
  assumes ok: "dir_ok s p"
  defines "i \<equiv> sort_search (length (d_Children (dirOf s p))) (findInodeFunc s p name)"
  defines "j \<equiv> if i < length (d_Children (dirOf s p)) \<and> i_Name (heap s (d_Children (dirOf s p) ! i)) = name then Suc i else i"
  assumes k: "k < length (cnames s p)"
  shows "k < j \<longleftrightarrow> cnames s p ! k \<le> name"
proof -
  note search = child_search [OF ok, where name = name, folded i_def]
  have kl: "k < length (d_Children (dirOf s p))" using k by (simp add: cnames_def)
  consider "k < i" | "k = i" | "i < k" by linarith
  then show ?thesis
  proof cases
    case 1
    then show ?thesis using search(2) [OF 1] by (auto simp: j_def)
  next
    case 2
    then show ?thesis using search(3) [of k] kl by (auto simp: j_def cnames_def)
  next
    case 3
    then have "cnames s p ! i < cnames s p ! k" using ok k by (auto simp: dir_ok_def sorted_wrt_nth_less)
    moreover have "name \<le> cnames s p ! i" using search(3) [of i] 3 kl by auto
    ultimately show ?thesis using 3 by (auto simp: j_def)
  qed
qed

lemma checkDirPosition_at:
  assumes ok: "dir_ok s p" and at: "handle_at P s p h"
  shows "handle_at P (checkDirPosition s h) p h" "handle_fresh (checkDirPosition s h) p h"
    "lastOf (dirHandleHeap (checkDirPosition s h) h) = lastOf (dirHandleHeap s h)"
    "dh_lastExternalOffset (dirHandleHeap (checkDirPosition s h) h) = dh_lastExternalOffset (dirHandleHeap s h)"
proof -
  let ?dh = "dirHandleHeap s h" and ?s = "checkDirPosition s h"
  have p: "dh_inode ?dh = p" "dh_lastExternalOffset ?dh \<noteq> 0" "dh_lastName ?dh \<noteq> ''.''" using at by (auto simp: handle_at_def Let_def)
  show "lastOf (dirHandleHeap ?s h) = lastOf ?dh" "dh_lastExternalOffset (dirHandleHeap ?s h) = dh_lastExternalOffset ?dh"
    by (auto simp: checkDirPosition_def Let_def lastOf_def)
  show "handle_fresh ?s p h" "handle_at P ?s p h"
  proof (atomize (full), cases "dh_generation ?dh = d_generation (dirOf s p) \<and> 0 \<le> dh_lastInternalOffset ?dh")
    case True
    then have "dirHandleHeap ?s h = ?dh" "cnames ?s p = cnames s p" "dirOf ?s p = dirOf s p"
      by (simp_all add: checkDirPosition_def Let_def p)
    then show "handle_fresh ?s p h \<and> handle_at P ?s p h" using at True by (auto simp: handle_fresh_def handle_at_def Let_def)
  next
    case False
    define i where "i = sort_search (length (d_Children (dirOf s p))) (findInodeFunc s p (dh_lastName ?dh))"
    define j where "j = (if i < length (d_Children (dirOf s p)) \<and> i_Name (heap s (d_Children (dirOf s p) ! i)) = dh_lastName ?dh then Suc i else i)"
    have dh: "dirHandleHeap ?s h = ?dh\<lparr>dh_lastInternalOffset := (if dh_lastName ?dh = ''..'' then 2 else int j + 2), dh_generation := d_generation (dirOf s p)\<rparr>"
      using False p by (auto simp: checkDirPosition_def Let_def i_def j_def)
    have c: "cnames ?s p = cnames s p" "dirOf ?s p = dirOf s p" by (simp_all add: checkDirPosition_def Let_def)
    have "pos_ok P (cnames s p) (d_generation (dirOf s p)) (dh_lastInternalOffset (dirHandleHeap ?s h) - 2) (d_generation (dirOf s p)) (lastOf ?dh)"
      using name_position [OF ok, where name = "dh_lastName ?dh", folded i_def, folded j_def]
      by (intro pos_okI) (auto simp: dh lastOf_def)
    then show "handle_fresh ?s p h \<and> handle_at P ?s p h" using p by (auto simp: handle_fresh_def handle_at_def Let_def c dh lastOf_def)
  qed
qed

lemma checkDirPosition_dir [simp]:
  "dirOf (checkDirPosition s h) = dirOf s" "isDir (checkDirPosition s h) = isDir s" "heap (checkDirPosition s h) = heap s"
  "cnames (checkDirPosition s h) = cnames s" "dir_ok (checkDirPosition s h) = dir_ok s"
  by (simp_all add: checkDirPosition_def Let_def)

text \<open>One call of \<open>ReadDir\<close> on a directory whose listing has not expired, followed by \<open>Next\<close>.\<close>

lemma ReadDir_cached_upd:
  assumes ok: "dir_ok s p" and at: "handle_at P s p h" and exp: "\<not> expired now (d_DirTime (dirOf s p)) (f_StatCacheTTL (g_flags E))"
  defines "K \<equiv> dh_lastInternalOffset (dirHandleHeap (checkDirPosition s h) h) - 2"
  shows "\<exists>f. ReadDir St E now other s h = Some (updDir p f (checkDirPosition s h), Inr (if K < int (length (cnames s p)) then Some (d_Children (dirOf s p) ! nat K) else None)) \<and>
    (\<forall>d. d_Children (f d) = d_Children d \<and> d_generation (f d) = d_generation d \<and> d_DeletedChildren (f d) = d_DeletedChildren d)"
proof -
  let ?s = "checkDirPosition s h"
  note chk = checkDirPosition_at [OF ok at]
  have p: "dh_inode (dirHandleHeap s h) = p" "dh_inode (dirHandleHeap ?s h) = p" "isDir s p"
    using at chk(1) ok by (auto simp: handle_at_def Let_def dir_ok_def)
  have K: "2 \<le> dh_lastInternalOffset (dirHandleHeap ?s h)" using chk(2) by (simp add: handle_fresh_def)
  have "ReadDir St E now other s h = Some (fst (serveChild ?s h), Inr (snd (serveChild ?s h)))"
    using p K exp by (simp add: ReadDir_def Let_def split_beta)
  moreover have "snd (serveChild ?s h) = (if K < int (length (cnames s p)) then Some (d_Children (dirOf s p) ! nat K) else None)"
    by (auto simp: serveChild_def Let_def p K_def cnames_def)
  moreover have "\<exists>f. fst (serveChild ?s h) = updDir p f ?s \<and>
      (\<forall>d. d_Children (f d) = d_Children d \<and> d_generation (f d) = d_generation d \<and> d_DeletedChildren (f d) = d_DeletedChildren d)"
  proof -
    have "?s = updDir p (\<lambda>d. d) ?s"
      by (cases ?s) (auto simp: updDir_def upd_def fun_eq_iff option.map_ident)
    then show ?thesis by (auto simp: serveChild_def Let_def p intro!: exI)
  qed
  ultimately show ?thesis by auto
qed

lemma ReadDir_cached:
  assumes ok: "dir_ok s p" and at: "handle_at P s p h" and exp: "\<not> expired now (d_DirTime (dirOf s p)) (f_StatCacheTTL (g_flags E))"
  defines "K \<equiv> dh_lastInternalOffset (dirHandleHeap (checkDirPosition s h) h) - 2"
  shows "\<exists>s'. ReadDir St E now other s h = Some (s', Inr (if K < int (length (cnames s p)) then Some (d_Children (dirOf s p) ! nat K) else None)) \<and>
    dirHandleHeap s' h = dirHandleHeap (checkDirPosition s h) h \<and> cnames s' p = cnames s p \<and> dir_ok s' p \<and>
    d_generation (dirOf s' p) = d_generation (dirOf s p) \<and> (\<forall>c. i_Name (heap s' c) = i_Name (heap s c))"
proof -
  let ?s = "checkDirPosition s h"
  from ReadDir_cached_upd [OF ok at exp, of St other, folded K_def]
  obtain f where f: "ReadDir St E now other s h = Some (updDir p f ?s, Inr (if K < int (length (cnames s p)) then Some (d_Children (dirOf s p) ! nat K) else None))"
    "\<And>d. d_Children (f d) = d_Children d \<and> d_generation (f d) = d_generation d" by blast
  have p: "isDir s p" using ok by (simp add: dir_ok_def)
  have nm: "i_Name (heap (updDir p f ?s) c) = i_Name (heap s c)" for c by simp
  have "cnames (updDir p f ?s) p = cnames s p" using p f(2) unfolding cnames_def nm by simp
  with f ok p nm show ?thesis by (auto simp: dir_ok_def)
qed

section \<open>A pass over a directory\<close>

text \<open>
  A pass from the state \<open>s0\<close>: the rest of the program may change the directory between any two reads,
  as long as the entries of \<open>P\<close> stay; every entry served is appended to the output.  No child is
  named like the dot entries, and the 64-bit offset does not wrap.
\<close>

inductive dir_pass :: "store \<Rightarrow> ('t, 'd, 'c) gEnv \<Rightarrow> ptr \<Rightarrow> nat \<Rightarrow> string set \<Rightarrow> ('t, 'd, 'c) Goofys \<Rightarrow> string list \<Rightarrow> ('t, 'd, 'c) Goofys \<Rightarrow> bool"
  for St E p h P s0 where
  start: "dir_pass St E p h P s0 [] s0"
| change: "dir_pass St E p h P s0 out s \<Longrightarrow> dir_change E p s s' \<Longrightarrow> dirHandleHeap s' h = dirHandleHeap s h \<Longrightarrow>
    P \<subseteq> set (cnames s' p) \<Longrightarrow> dir_pass St E p h P s0 out s'"
| serve: "dir_pass St E p h P s0 out s \<Longrightarrow> \<not> expired now (d_DirTime (dirOf s p)) (f_StatCacheTTL (g_flags E)) \<Longrightarrow>
    dh_lastExternalOffset (dirHandleHeap s h) + 1 < u64_max \<Longrightarrow> ReadDir St E now other s h = Some (s', Inr (Some c)) \<Longrightarrow>
    n = i_Name (heap s' c) \<Longrightarrow> n \<noteq> ''.'' \<Longrightarrow> n \<noteq> ''..'' \<Longrightarrow> dir_pass St E p h P s0 (out @ [n]) (Next s' h n)"

definition pass_inv :: "ptr \<Rightarrow> nat \<Rightarrow> string set \<Rightarrow> string list \<Rightarrow> ('t, 'd, 'c) Goofys \<Rightarrow> bool" where
  "pass_inv p h P out s \<longleftrightarrow> dir_ok s p \<and> handle_at P s p h \<and> P \<subseteq> set (cnames s p) \<and>
     (\<forall>n \<in> P. n \<in> set out \<longleftrightarrow> behind (lastOf (dirHandleHeap s h)) n) \<and> sorted_wrt (<) (filter (\<lambda>n. n \<in> P) out)"

lemma pass_change:
  assumes "pass_inv p h P out s" "dir_change E p s s'" "dirHandleHeap s' h = dirHandleHeap s h" "P \<subseteq> set (cnames s' p)"
  shows "pass_inv p h P out s'"
  using assms kids.change_inv [of s p E s'] kids.change_pos [of s p E s' P]
  by (auto simp: pass_inv_def handle_at_def Let_def)

lemma pass_serve:
  assumes inv: "pass_inv p h P out s" and exp: "\<not> expired now (d_DirTime (dirOf s p)) (f_StatCacheTTL (g_flags E))"
    and ext: "dh_lastExternalOffset (dirHandleHeap s h) + 1 < u64_max" and rd: "ReadDir St E now other s h = Some (s', Inr (Some c))"
    and n: "n = i_Name (heap s' c)" "n \<noteq> ''.''" "n \<noteq> ''..''"
  shows "pass_inv p h P (out @ [n]) (Next s' h n)"
proof -
  let ?s = "checkDirPosition s h"
  define K where "K = dh_lastInternalOffset (dirHandleHeap ?s h) - 2"
  have ok: "dir_ok s p" and at: "handle_at P s p h" and P: "P \<subseteq> set (cnames s p)"
    and out: "\<And>n. n \<in> P \<Longrightarrow> n \<in> set out \<longleftrightarrow> behind (lastOf (dirHandleHeap s h)) n"
    and srt: "sorted_wrt (<) (filter (\<lambda>n. n \<in> P) out)" using inv by (auto simp: pass_inv_def)
  note chk = checkDirPosition_at [OF ok at]
  from ReadDir_cached [OF ok at exp, where St = St and other = other, folded K_def] rd
  have s': "K < int (length (cnames s p))" "c = d_Children (dirOf s p) ! nat K" "dirHandleHeap s' h = dirHandleHeap ?s h"
    "cnames s' p = cnames s p" "dir_ok s' p" "d_generation (dirOf s' p) = d_generation (dirOf s p)" "i_Name (heap s' c) = i_Name (heap s c)"
    by (auto split: if_splits)
  have K: "0 \<le> K" "dh_generation (dirHandleHeap ?s h) = d_generation (dirOf s p)" using chk(2) by (auto simp: handle_fresh_def K_def)
  have m: "n = cnames s p ! nat K" using s'(1,2,7) n(1) K(1) by (simp add: cnames_def)
  have pos: "pos_ok P (cnames s p) (d_generation (dirOf s p)) K (d_generation (dirOf s p)) (lastOf (dirHandleHeap s h))"
    using chk(1,3) K(2) by (simp add: handle_at_def Let_def K_def)
  note serve = kids.serve_pos [OF ok pos K(1) s'(1), folded m]
  let ?dh = "dirHandleHeap (Next s' h n) h"
  have dh: "lastOf ?dh = Some n" "dh_lastInternalOffset ?dh = K + 3" "dh_generation ?dh = d_generation (dirOf s p)"
    "dh_lastExternalOffset ?dh \<noteq> 0" "dh_inode ?dh = p" "dh_lastName ?dh = n"
    using n K ext chk(1,2,4) by (auto simp: Next_def lastOf_def s'(3) K_def handle_fresh_def handle_at_def Let_def add64_def u64_max_def)
  have "handle_at P (Next s' h n) p h"
    unfolding handle_at_def Let_def dh using dh(4) n(2) K(1) serve(1) s'(4,6) by (simp add: Next_def add.commute)
  moreover have "n' \<in> set (out @ [n]) \<longleftrightarrow> behind (Some n) n'" if "n' \<in> P" for n'
    using out [OF that] serve(3) [OF that] that P by auto
  moreover have "sorted_wrt (<) (filter (\<lambda>n. n \<in> P) (out @ [n]))"
  proof (cases "n \<in> P")
    case True
    have "x < n" if "x \<in> P" "x \<in> set out" for x
      using out [OF that(1)] serve(2) [OF True] that(2) by (cases "lastOf (dirHandleHeap s h)") auto
    with srt True show ?thesis by (auto simp: sorted_wrt_append)
  qed (use srt in simp)
  moreover have "dir_ok (Next s' h n) p" "P \<subseteq> set (cnames (Next s' h n) p)" using s'(4,5) P by (simp_all add: Next_def)
  ultimately show ?thesis unfolding pass_inv_def dh(1) by blast
qed

lemma pass_end:
  assumes inv: "pass_inv p h P out s" and exp: "\<not> expired now (d_DirTime (dirOf s p)) (f_StatCacheTTL (g_flags E))"
    and rd: "ReadDir St E now other s h = Some (s', Inr None)"
  shows "P \<subseteq> set out"
proof
  fix n assume n: "n \<in> P"
  have ok: "dir_ok s p" and at: "handle_at P s p h" and P: "n \<in> set (cnames s p)" using inv n by (auto simp: pass_inv_def)
  note chk = checkDirPosition_at [OF ok at]
  from ReadDir_cached [OF ok at exp, of St other] rd
  have "int (length (cnames s p)) \<le> dh_lastInternalOffset (dirHandleHeap (checkDirPosition s h) h) - 2" by (auto split: if_splits)
  with kids.end_pos [OF _ _ n P] chk have "behind (lastOf (dirHandleHeap s h)) n"
    by (auto simp: handle_at_def handle_fresh_def Let_def)
  then show "n \<in> set out" using inv n by (simp add: pass_inv_def)
qed


text \<open>A handle on the root of a file system with one file, after the two dot entries.\<close>

definition demo_open :: "(FileBuffer omap, u64 omap, (nat \<times> u64) omap) Goofys" where
  "demo_open = (case Seek (snd (NewDirHandle demo_one 0)) 0 2 of Some s \<Rightarrow> s | None \<Rightarrow> demo_one)"

lemma demo_open_simps:
  "dirHandleHeap demo_open 0 = \<lparr>dh_inode = 0, dh_noSlurp = False, dh_lastExternalOffset = 2, dh_lastInternalOffset = 2, dh_generation = 0, dh_lastName = ''..''\<rparr>"
  "cnames demo_open 0 = [''a'']" "isDir demo_open 0" "d_DirTime (dirOf demo_open 0) = time_zero"
  by (simp_all add: demo_open_def Seek_def NewDirHandle_def updDh_def demo_defs i64_def cnames_def)


end
