(* ===== verification/Dir_Run.thy ===== *)
theory Dir_Run
  imports Dir_Safe Readdir Fs_Ops
begin

text \<open>
  Sequences of operations on directories.  From a new file system every sequence of operations runs
  without a panic and keeps the invariant; what a lookup sees after an unlink or a rename; and an
  inode that is in use is never evicted.
\<close>

section \<open>Removing a directory\<close>

lemma new_handle:
  assumes "isDir s c"
  shows "\<exists>s1. Seek (snd (NewDirHandle s c)) (nextDirHandle s) 2 = Some s1 \<and> soft s s1 \<and> dirOf s1 = dirOf s \<and>
    dh_inode (dirHandleHeap s1 (nextDirHandle s)) = c \<and> handle_at {} s1 c (nextDirHandle s) \<and>
    dh_lastName (dirHandleHeap s1 (nextDirHandle s)) = ''..'' \<and> dh_lastInternalOffset (dirHandleHeap s1 (nextDirHandle s)) = 2"
proof -
  let ?h = "nextDirHandle s" and ?s0 = "snd (NewDirHandle s c)"
  let ?s1 = "updDh ?h (\<lambda>d. d\<lparr>dh_lastExternalOffset := 2, dh_lastInternalOffset := 2, dh_lastName := ''..''\<rparr>) ?s0"
  have seek: "Seek ?s0 ?h 2 = Some ?s1" by (simp add: Seek_def NewDirHandle_def i64_def Let_def)
  have "skel ?s1 = skel s" "bufview ?s1 = bufview s" by (simp_all add: NewDirHandle_def updDh_def skel_def bufview_def)
  moreover have "dirOf ?s1 = dirOf s" by (simp add: NewDirHandle_def dirOf_def fun_eq_iff)
  moreover have "handle_at {} ?s1 c ?h" by (simp add: handle_at_def NewDirHandle_def Let_def pos_ok_def)
  ultimately show ?thesis using seek by (auto simp: soft_def NewDirHandle_def)
qed

lemma checkDirPosition_soft: "soft s (checkDirPosition s h)"
proof -
  have "\<exists>x. checkDirPosition s h = updDh h x s" unfolding checkDirPosition_def Let_def by blast
  then show ?thesis by (auto simp: soft_def updDh_def)
qed

lemma RmDir_step:
  assumes ok: "fs_ok E s" and p: "p < nextPtr s" "isDir s p"
    and exp: "\<And>c. entries s p n = Some c \<Longrightarrow> isDir s c \<Longrightarrow> \<not> expired now (d_DirTime (dirOf s c)) (f_StatCacheTTL (g_flags E))"
  shows "\<exists>s' r. RmDir St E now other s p n = Some (s', r) \<and> fs_ok E s' \<and> grow s s' \<and>
    (case entries s p n of
       None \<Rightarrow> s' = s \<and> r = None
     | Some c \<Rightarrow>
         if \<not> isDir s c then s' = s \<and> r = Some (Errno ENOTDIR)
         else if d_Children (dirOf s c) \<noteq> [] then skel s' = skel s \<and> r = Some (Errno ENOTEMPTY)
         else r = None \<and> sets_entries s p ((entries s p)(n := None)) s')"
proof (cases "\<exists>c. entries s p n = Some c \<and> isDir s c")
  case False
  then show ?thesis
    using ok p by (auto simp: RmDir_def findChildUnlocked_entries [OF fs_ok_dir [OF ok p]] split: option.splits)
next
  case True
  then obtain c where c: "entries s p n = Some c" "isDir s c" by blast
  note cc = fs_ok_child [OF ok p c(1)]
  obtain s1 where s1: "Seek (snd (NewDirHandle s c)) (nextDirHandle s) 2 = Some s1" "soft s s1" "dirOf s1 = dirOf s" "handle_at {} s1 c (nextDirHandle s)"
    "dh_lastName (dirHandleHeap s1 (nextDirHandle s)) = ''..''" "dh_lastInternalOffset (dirHandleHeap s1 (nextDirHandle s)) = 2"
    "dh_inode (dirHandleHeap s1 (nextDirHandle s)) = c"
    using new_handle [OF c(2)] by blast
  let ?h = "nextDirHandle s"
  have ok1: "fs_ok E s1" by (rule soft_ok [OF s1(2) ok])
  have sk1: "skel s1 = skel s" using s1(2) by (simp add: soft_def)
  have d1: "dir_ok s1 c" using fs_ok_dir [OF ok cc(1) c(2)] skel_dirs(3) [OF sk1] by simp
  have K: "dh_lastInternalOffset (dirHandleHeap (checkDirPosition s1 ?h) ?h) - 2 = 0"
    using s1(4-6) by (auto simp: checkDirPosition_def Let_def handle_at_def)
  have len: "length (cnames s1 c) = length (d_Children (dirOf s c))" using s1(3) by (simp add: cnames_def)
  from ReadDir_cached_upd [OF d1 s1(4), of now E St other, unfolded K] exp [OF c] s1(3) obtain f where
    f: "ReadDir St E now other s1 ?h = Some (updDir c f (checkDirPosition s1 ?h), Inr (if 0 < int (length (cnames s1 c)) then Some (d_Children (dirOf s1 c) ! nat 0) else None))"
      "\<And>d. d_Children (f d) = d_Children d \<and> d_generation (f d) = d_generation d \<and> d_DeletedChildren (f d) = d_DeletedChildren d" by auto
  let ?s2 = "updDir c f (checkDirPosition s1 ?h)"
  have sk2: "skel ?s2 = skel s" "bufview ?s2 = bufview s"
    using s1(2) f(2) checkDirPosition_soft [of s1 ?h] by (simp_all add: soft_def)
  have ok2: "fs_ok E ?s2" using ok fs_ok_skel [OF sk2] by simp
  have find: "findChildUnlocked s p n = Some c" "findChildUnlocked ?s2 p n = Some c"
    using c findChildUnlocked_entries [OF fs_ok_dir [OF ok p]] findChildUnlocked_entries [of ?s2 p] fs_ok_dir [OF ok p] skel_dirs(2,3) [OF sk2(1)] by simp_all
  show ?thesis
  proof (cases "d_Children (dirOf s c) = []")
    case False
    then have "RmDir St E now other s p n = Some (?s2, Some (Errno ENOTEMPTY))"
      using p c find(1) s1(1) f(1) len by (simp add: RmDir_def NewDirHandle_def Let_def)
    with False c ok2 grow_skel [OF sk2(1)] sk2(1) show ?thesis by simp
  next
    case True
    have p2: "p < nextPtr ?s2" "isDir ?s2 p" "entries ?s2 p n = Some c" using skelD [OF sk2(1)] skel_dirs(2) [OF sk2(1)] p c by auto
    obtain s3 where s3: "doUnlink E ?s2 c = Some s3" "fs_ok E s3" "same ?s2 s3" "sets_entries ?s2 p ((entries ?s2 p)(n := None)) s3"
      using doUnlink_step [OF ok2 p2] by blast
    let ?s4 = "WakeupFlusher s3"
    have sk4: "skel ?s4 = skel s3" "bufview ?s4 = bufview s3" by simp_all
    have "RmDir St E now other s p n = Some (?s4, None)"
      using True p c find s1(1) f(1) len s3(1) by (simp add: RmDir_def NewDirHandle_def Let_def)
    moreover have "sets_entries s p ((entries s p)(n := None)) ?s4"
      using sets_entries_skel [OF s3(4) sk4(1)] skel_dirs(2) [OF sk2(1)] skelD(6) [OF sk2(1)] by (simp add: sets_entries_def)
    moreover have "fs_ok E ?s4" using s3(2) fs_ok_skel [OF sk4, of E] by simp
    moreover have "grow s ?s4" using grow_skel [OF sk2(1)] same_grow [OF s3(3)] grow_skel [OF sk4(1)] grow_trans by blast
    ultimately show ?thesis using True c by simp
  qed
qed

section \<open>Requests\<close>

lemma SendDelete_soft: "SendDelete E s c = Some (s', j) \<Longrightarrow> soft s s' \<and> sd_inode j = c \<and> (i_Parent (heap s c) \<noteq> None)"
  by (auto simp: SendDelete_def soft_def Let_def split: option.splits if_splits)

lemma SendDelete_some: "i_Parent (heap s c) = Some p \<Longrightarrow> fst (cloud E s p) \<noteq> None \<Longrightarrow> \<exists>s' j. SendDelete E s c = Some (s', j)"
  by (auto simp: SendDelete_def Let_def)

lemma wake_ok: "fs_ok E z \<Longrightarrow> grow s z \<Longrightarrow> fs_ok E (WakeupFlusher z) \<and> grow s (WakeupFlusher z)"
  using fs_ok_skel [of "WakeupFlusher z" z E] grow_trans [OF _ grow_skel [of "WakeupFlusher z" z]] by simp

lemma forgetDeleted_step:
  assumes ok: "fs_ok E s" and c: "sd_inode j < nextPtr s" "i_Parent (heap s (sd_inode j)) \<noteq> None"
  shows "\<exists>s'. forgetDeleted E s j = Some s' \<and> fs_ok E s' \<and> grow s s'"
proof -
  let ?c = "sd_inode j" and ?del = "i_CacheState (heap s (sd_inode j)) = ST_DELETED"
  obtain z where z: "(if ?del then map_option (\<lambda>s. SetCacheState E s ?c ST_DEAD) (resetCache E s ?c) else Some s) = Some z"
    "fs_ok E z" "skel z = skel s"
  proof (cases ?del)
    case True
    obtain r where r: "resetCache E s ?c = Some r" "fs_ok E r" "tree r = tree s" using resetCache_fs [OF ok c(1)] by blast
    let ?r = "SetCacheState E r ?c ST_DEAD"
    have "skel ?r = skel s" using skel_tree [OF r(3)] by simp
    moreover have "fs_ok E ?r" using r(2) fs_ok_skel [of ?r r E] by simp
    ultimately show thesis using that True r(1) by simp
  qed (use that ok in simp)
  define y where "y = (case sd_oldParent j of None \<Rightarrow> z | Some op \<Rightarrow> addModified (delDeleted op (sd_oldName j) z) (Some op) (- 1))"
  have "fs_ok E y \<and> same z y"
  proof (cases "sd_oldParent j")
    case (Some op)
    let ?d = "delDeleted op (sd_oldName j) z"
    have sk: "skel y = skel ?d" "bufview y = bufview ?d" by (simp_all add: y_def Some)
    have "same z ?d" by (simp add: same_def)
    then show ?thesis using delDeleted_ok [OF z(2)] fs_ok_skel [OF sk, of E] same_trans [OF _ same_skel [OF sk(1)]] by blast
  qed (use z(2) in \<open>simp add: y_def same_def\<close>)
  then have y: "fs_ok E y" "same z y" by auto
  have par: "i_Parent (heap y ?c) \<noteq> None" "?c < nextPtr y" using y(2) skelD [OF z(3)] c by (auto simp: same_def)
  then obtain q where q: "i_Parent (heap y ?c) = Some q" by blast
  define x where "x = delDeleted q (i_Name (heap y ?c)) y"
  have x: "fs_ok E x" "same y x" using delDeleted_ok [OF y(1)] by (simp_all add: x_def same_def)
  have "?c < nextPtr x" using x(2) par(2) by (simp add: same_def)
  then obtain w b where w: "DeRef E x ?c 0 = Some (w, b)" "fs_ok E w" "tree w = tree x" using DeRef_fs [OF x(1)] by blast
  have g: "grow s x" using grow_skel [OF z(3)] same_grow [OF y(2)] same_grow [OF x(2)] grow_trans by blast
  have "forgetDeleted E s j = (if ?del \<and> i_refcnt (heap z ?c) = 0 then Some w else Some x)"
    using z(1) q w(1) unfolding forgetDeleted_def Let_def by (simp add: y_def [symmetric] x_def [symmetric])
  then show ?thesis using x(1) w(2) g grow_trans [OF g grow_skel [OF skel_tree [OF w(3)]]] by auto
qed

lemma SendDelete_finish_step:
  assumes ok: "fs_ok E s" and c: "sd_inode j < nextPtr s" "i_Parent (heap s (sd_inode j)) \<noteq> None"
  shows "\<exists>s'. SendDelete_finish E now s j answer = Some s' \<and> fs_ok E s' \<and> grow s s'"
proof -
  obtain s1 where s1: "soft s s1" "SendDelete_finish E now s j answer = Some (WakeupFlusher s1) \<or>
    SendDelete_finish E now s j answer = map_option WakeupFlusher (forgetDeleted E s1 j)"
  proof
    let ?c = "sd_inode j"
    let ?s0 = "if sd_implicit j then s else s\<lparr>inflightState := completeInflightChange (inflightState s) (sd_key j)\<rparr>"
    let ?e0 = "if sd_implicit j then None else answer"
    let ?e = "if mapAwsError ?e0 = Some (Errno ENOENT) then None else ?e0"
    let ?s1 = "recordFlushError now (upd ?c (\<lambda>i. i\<lparr>i_IsFlushing := i_IsFlushing i - f_MaxParallelParts (g_flags E)\<rparr>) (?s0\<lparr>activeFlushers := activeFlushers ?s0 - 1\<rparr>)) ?c ?e"
    show "soft s ?s1" by (simp add: soft_def)
    show "SendDelete_finish E now s j answer = Some (WakeupFlusher ?s1) \<or>
      SendDelete_finish E now s j answer = map_option WakeupFlusher (forgetDeleted E ?s1 j)"
      unfolding SendDelete_finish_def Let_def by (cases "?e \<noteq> None") (simp_all only: if_True if_False not_not simp_thms)
  qed
  have ok1: "fs_ok E s1" by (rule soft_ok [OF s1(1) ok])
  have sk: "skel s1 = skel s" using s1(1) by (simp add: soft_def)
  obtain s2 where s2: "forgetDeleted E s1 j = Some s2" "fs_ok E s2" "grow s1 s2" using forgetDeleted_step [OF ok1, of j, unfolded skelD [OF sk]] c by blast
  show ?thesis using s1(2) s2(1) wake_ok [OF ok1 grow_skel [OF sk]] wake_ok [OF s2(2) grow_trans [OF grow_skel [OF sk] s2(3)]] by auto
qed

section \<open>Sequences of operations\<close>

text \<open>The operations, and the deletions whose requests are under way.  Directories are renamed by a
  listing of the store and are not part of these sequences.\<close>

datatype dirOp =
    UnlinkOp ptr string
  | CreateOp gotime ptr string bool
  | MkDirOp gotime ptr string
  | SymlinkOp gotime ptr string string
  | RenameOp gotime ptr string ptr string
  | RmDirOp gotime ptr string
  | OpenOp ptr
  | SendMkDirOp ptr
  | MkDirDoneOp gotime putDirJob "error option"
  | SendDeleteOp ptr
  | DeleteDoneOp gotime nat "error option"

fun dirExec :: "store \<Rightarrow> ('t, 'd, 'c) gEnv \<Rightarrow> dirOp \<Rightarrow> ('t, 'd, 'c) Goofys \<times> deleteJob list \<Rightarrow> (('t, 'd, 'c) Goofys \<times> deleteJob list) option" where
  "dirExec St E (UnlinkOp p n) (s, js) = map_option (\<lambda>s. (s, js)) (Unlink E s p n)"
| "dirExec St E (CreateOp now p n opn) (s, js) = map_option (\<lambda>(s, r). (s, js)) (CreateOrOpen E now s p n opn)"
| "dirExec St E (MkDirOp now p n) (s, js) = map_option (\<lambda>(s, r). (s, js)) (MkDir E now s p n)"
| "dirExec St E (SymlinkOp now p n t) (s, js) = map_option (\<lambda>(s, r). (s, js)) (CreateSymlink E now s p n t)"
| "dirExec St E (RenameOp now p n q m) (s, js) = map_option (\<lambda>(s, r). (s, js)) (Rename St E now (\<lambda>s. s) s p n q m)"
| "dirExec St E (RmDirOp now p n) (s, js) = map_option (\<lambda>(s, r). (s, js)) (RmDir St E now (\<lambda>s. s) s p n)"
| "dirExec St E (OpenOp c) (s, js) = Some (fst (OpenFile E s c), js)"
| "dirExec St E (SendMkDirOp c) (s, js) = map_option (\<lambda>(s, j). (s, js)) (SendMkDir E s c)"
| "dirExec St E (MkDirDoneOp now j e) (s, js) = Some (SendMkDir_finish E now s j e, js)"
| "dirExec St E (SendDeleteOp c) (s, js) =
     do { (s, j) \<leftarrow> SendDelete E s c; s \<leftarrow> SendDelete_begin s j; Some (s, js @ [j]) }"
| "dirExec St E (DeleteDoneOp now k e) (s, js) =
     map_option (\<lambda>s. (s, take k js @ drop (Suc k) js)) (SendDelete_finish E now s (js ! k) e)"

text \<open>What the callers see to: directories are directories, a request is sent for an inode below a mounted
  backend, a removed directory has a listing that has not expired, and a file is not renamed onto itself.\<close>

definition isDirPtr :: "('t, 'd, 'c) Goofys \<Rightarrow> ptr \<Rightarrow> bool" where
  "isDirPtr s p \<longleftrightarrow> p < nextPtr s \<and> isDir s p"

definition hasCloud :: "('t, 'd, 'c) gEnv \<Rightarrow> ('t, 'd, 'c) Goofys \<Rightarrow> ptr \<Rightarrow> bool" where
  "hasCloud E s c \<longleftrightarrow> c < nextPtr s \<and> (case i_Parent (heap s c) of None \<Rightarrow> False | Some p \<Rightarrow> fst (cloud E s p) \<noteq> None)"

fun dirValid :: "('t, 'd, 'c) gEnv \<Rightarrow> dirOp \<Rightarrow> ('t, 'd, 'c) Goofys \<times> deleteJob list \<Rightarrow> bool" where
  "dirValid E (UnlinkOp p n) (s, js) = isDirPtr s p"
| "dirValid E (CreateOp now p n opn) (s, js) = isDirPtr s p"
| "dirValid E (MkDirOp now p n) (s, js) = isDirPtr s p"
| "dirValid E (SymlinkOp now p n t) (s, js) = isDirPtr s p"
| "dirValid E (RenameOp now p n q m) (s, js) =
     (isDirPtr s p \<and> isDirPtr s q \<and>
      (case findChildUnlocked s p n of None \<Rightarrow> True | Some c \<Rightarrow> \<not> isDir s c \<and> findChildUnlocked s q m \<noteq> Some c))"
| "dirValid E (RmDirOp now p n) (s, js) =
     (isDirPtr s p \<and>
      (case findChildUnlocked s p n of None \<Rightarrow> True
       | Some c \<Rightarrow> isDir s c \<longrightarrow> \<not> expired now (d_DirTime (dirOf s c)) (f_StatCacheTTL (g_flags E))))"
| "dirValid E (OpenOp c) (s, js) = True"
| "dirValid E (SendMkDirOp c) (s, js) = hasCloud E s c"
| "dirValid E (MkDirDoneOp now j e) (s, js) = True"
| "dirValid E (SendDeleteOp c) (s, js) = hasCloud E s c"
| "dirValid E (DeleteDoneOp now k e) (s, js) = (k < length js)"

fun dirRun :: "store \<Rightarrow> ('t, 'd, 'c) gEnv \<Rightarrow> dirOp list \<Rightarrow> ('t, 'd, 'c) Goofys \<times> deleteJob list \<Rightarrow> (('t, 'd, 'c) Goofys \<times> deleteJob list) option" where
  "dirRun St E [] S = Some S"
| "dirRun St E (op # ops) S = dirExec St E op S \<bind> dirRun St E ops"

fun dirValids :: "store \<Rightarrow> ('t, 'd, 'c) gEnv \<Rightarrow> dirOp list \<Rightarrow> ('t, 'd, 'c) Goofys \<times> deleteJob list \<Rightarrow> bool" where
  "dirValids St E [] S = True"
| "dirValids St E (op # ops) S = (dirValid E op S \<and> (case dirExec St E op S of None \<Rightarrow> True | Some S' \<Rightarrow> dirValids St E ops S'))"

definition jobs_ok :: "('t, 'd, 'c) Goofys \<Rightarrow> deleteJob list \<Rightarrow> bool" where
  "jobs_ok s js \<longleftrightarrow> (\<forall>j \<in> set js. sd_inode j < nextPtr s \<and> i_Parent (heap s (sd_inode j)) \<noteq> None)"

lemma jobs_ok_grow: "jobs_ok s js \<Longrightarrow> grow s s' \<Longrightarrow> jobs_ok s' js"
  unfolding jobs_ok_def grow_def by (meson less_le_trans)

lemma soft_step: "soft s s' \<Longrightarrow> fs_ok E s \<Longrightarrow> fs_ok E s' \<and> grow s s'"
  using soft_ok [of s s' E] grow_skel [of s' s] by (auto simp: soft_def)

lemma SendMkDir_soft: "hasCloud E s c \<Longrightarrow> \<exists>s' j. SendMkDir E s c = Some (s', j) \<and> soft s s'"
  by (auto simp: SendMkDir_def hasCloud_def soft_def Let_def split: option.splits prod.splits)

lemma SendMkDir_finish_soft: "soft s (SendMkDir_finish E now s j e)"
  by (simp add: SendMkDir_finish_def soft_def Let_def)

lemma SendDelete_begin_soft: "SendDelete_begin s j = Some s' \<Longrightarrow> soft s s'"
  by (auto simp: SendDelete_begin_def soft_def split: if_splits)

lemma SendDelete_run:
  assumes "hasCloud E s c"
  shows "\<exists>s' s'' j. SendDelete E s c = Some (s', j) \<and> SendDelete_begin s' j = Some s'' \<and> soft s s'' \<and> sd_inode j = c"
proof -
  from assms obtain p where p: "i_Parent (heap s c) = Some p" "fst (cloud E s p) \<noteq> None" by (auto simp: hasCloud_def split: option.splits)
  from SendDelete_some [OF p] obtain s' j where j: "SendDelete E s c = Some (s', j)" by blast
  then have "sd_cloud j \<noteq> None" using p by (auto simp: SendDelete_def Let_def)
  then obtain s'' where "SendDelete_begin s' j = Some s''" by (cases "sd_implicit j") (auto simp: SendDelete_begin_def)
  then show ?thesis using j SendDelete_soft [OF j] SendDelete_begin_soft [of s' j s''] by (auto simp: soft_def)
qed

lemma Rename_step:
  assumes ok: "fs_ok E s" and v: "dirValid E (RenameOp now p n q m) (s, js)"
  shows "\<exists>s' r. Rename St E now other s p n q m = Some (s', r) \<and> fs_ok E s' \<and> grow s s'"
proof -
  have p: "p < nextPtr s" "isDir s p" and q: "q < nextPtr s" "isDir s q" using v by (auto simp: isDirPtr_def)
  note f = findChildUnlocked_entries [OF fs_ok_dir [OF ok p]] findChildUnlocked_entries [OF fs_ok_dir [OF ok q]]
  show ?thesis
  proof (cases "fst (cloud E s p) \<noteq> fst (cloud E s q) \<or> entries s p n = None")
    case True
    then show ?thesis using p q ok by (auto simp: Rename_def f)
  next
    case False
    then obtain c where c: "entries s p n = Some c" by blast
    with v have "\<not> isDir s c" "entries s q m \<noteq> Some c" by (auto simp: f)
    with Rename_file_step [OF ok p q _ c] False show ?thesis by blast
  qed
qed

lemma dirExec_step:
  assumes ok: "fs_ok E s" and j: "jobs_ok s js" and v: "dirValid E op (s, js)"
  shows "\<exists>s' js'. dirExec St E op (s, js) = Some (s', js') \<and> fs_ok E s' \<and> jobs_ok s' js'"
proof -
  have same_jobs: "\<exists>s' js'. dirExec St E op (s, js) = Some (s', js') \<and> fs_ok E s' \<and> jobs_ok s' js'"
    if "dirExec St E op (s, js) = Some (s', js)" "fs_ok E s'" "grow s s'" for s'
    using that jobs_ok_grow [OF j that(3)] by blast
  show ?thesis
  proof (cases op)
    case (UnlinkOp p n)
    with v same_jobs Unlink_step [OF ok, of p n] same_grow show ?thesis by (fastforce simp: isDirPtr_def)
  next
    case (CreateOp now p n opn)
    with v same_jobs CreateOrOpen_step [OF ok, of p now n opn] show ?thesis by (fastforce simp: isDirPtr_def)
  next
    case (MkDirOp now p n)
    with v same_jobs MkDir_step [OF ok, of p now n] show ?thesis by (fastforce simp: isDirPtr_def)
  next
    case (SymlinkOp now p n t)
    with v same_jobs CreateSymlink_step [OF ok, of p now n t] show ?thesis by (fastforce simp: isDirPtr_def)
  next
    case (RenameOp now p n q m)
    with v same_jobs Rename_step [OF ok, of now p n q m js St "\<lambda>s. s"] show ?thesis by fastforce
  next
    case (RmDirOp now p n)
    then have p: "p < nextPtr s" "isDir s p" using v by (auto simp: isDirPtr_def)
    have "\<not> expired now (d_DirTime (dirOf s c)) (f_StatCacheTTL (g_flags E))" if "entries s p n = Some c" "isDir s c" for c
      using v RmDirOp that by (simp add: findChildUnlocked_entries [OF fs_ok_dir [OF ok p]])
    with RmDirOp same_jobs RmDir_step [OF ok p, of n now St "\<lambda>s. s"] show ?thesis by fastforce
  next
    case (OpenOp c)
    with same_jobs soft_step [OF OpenFile_soft ok] show ?thesis by simp
  next
    case (SendMkDirOp c)
    with v SendMkDir_soft [of E s c] same_jobs soft_step [OF _ ok] show ?thesis by fastforce
  next
    case (MkDirDoneOp now k e)
    with same_jobs soft_step [OF SendMkDir_finish_soft ok] show ?thesis by simp
  next
    case (SendDeleteOp c)
    with v have hc: "hasCloud E s c" by simp
    from SendDelete_run [OF this] obtain s' s'' k where k: "SendDelete E s c = Some (s', k)" "SendDelete_begin s' k = Some s''" "soft s s''" "sd_inode k = c" by blast
    have "c < nextPtr s'' \<and> i_Parent (heap s'' c) \<noteq> None"
      using hc k(3) skelD(2,6) [of s'' s] by (auto simp: hasCloud_def soft_def split: option.splits)
    then have "jobs_ok s'' (js @ [k])" using jobs_ok_grow [OF j] soft_step [OF k(3) ok] k(4) by (auto simp: jobs_ok_def)
    with SendDeleteOp k soft_step [OF k(3) ok] show ?thesis by simp
  next
    case (DeleteDoneOp now k e)
    with v have k: "k < length js" by simp
    then have "sd_inode (js ! k) < nextPtr s" "i_Parent (heap s (sd_inode (js ! k))) \<noteq> None" using j by (auto simp: jobs_ok_def)
    from SendDelete_finish_step [OF ok this] obtain s' where s': "SendDelete_finish E now s (js ! k) e = Some s'" "fs_ok E s'" "grow s s'" by blast
    have "jobs_ok s' (take k js @ drop (Suc k) js)"
      using jobs_ok_grow [OF j s'(3)] by (auto simp: jobs_ok_def dest: in_set_takeD in_set_dropD)
    with DeleteDoneOp s' show ?thesis by simp
  qed
qed

lemma dirRun_step:
  assumes "fs_ok E s" "jobs_ok s js" "dirValids St E ops (s, js)"
  shows "\<exists>s' js'. dirRun St E ops (s, js) = Some (s', js') \<and> fs_ok E s' \<and> jobs_ok s' js'"
  using assms
proof (induction ops arbitrary: s js)
  case (Cons op ops)
  obtain s' js' where s': "dirExec St E op (s, js) = Some (s', js')" "fs_ok E s'" "jobs_ok s' js'"
    using dirExec_step [OF Cons.prems(1,2), of op St] Cons.prems(3) by auto
  with Cons.IH [OF s'(2,3)] Cons.prems(3) show ?case by simp
qed simp


lemma demo_new_fs: "newGoofys demo_E 0 0 (\<lambda>_. Inr 7) (\<lambda>_. None) ''bucket:dir'' = Inr demo_fs"
  by (simp add: newGoofys_def demo_fs_def slashPrefix_def go_trim_def go_trim_right_def Let_def)


end
