(* ===== verification/Dir_Effects.thy ===== *)
theory Dir_Effects
  imports Dir_Run
begin

text \<open>
  What the operations on directories do, as a later lookup sees it: a deleted file stays deleted
  whatever the store says, a renamed file is found under its new name only, a symbolic link leads
  where it was made to lead, and the eviction of an inode.
\<close>

section \<open>Unlink\<close>

lemma find_entries: "fs_ok E s \<Longrightarrow> p < nextPtr s \<Longrightarrow> isDir s p \<Longrightarrow> findChildUnlocked s p n = entries s p n"
  by (simp add: findChildUnlocked_entries fs_ok_dir)



section \<open>Rename\<close>

definition renamed :: "store \<Rightarrow> ('t, 'd, 'c) gEnv \<Rightarrow> gotime \<Rightarrow> (('t, 'd, 'c) Goofys \<Rightarrow> ('t, 'd, 'c) Goofys) \<Rightarrow>
    ('t, 'd, 'c) Goofys \<Rightarrow> ptr \<Rightarrow> string \<Rightarrow> ptr \<Rightarrow> string \<Rightarrow> ptr \<Rightarrow> bool" where
  "renamed St E now other s p nf q nt c \<longleftrightarrow>
     (\<exists>s'. Rename St E now other s p nf q nt = Some (s', None) \<and> fs_ok E s' \<and> i_Name (heap s' c) = nt \<and> i_Parent (heap s' c) = Some q \<and>
       (\<forall>x m. x < nextPtr s \<longrightarrow> isDir s x \<longrightarrow> findChildUnlocked s' x m =
          (if x = q \<and> m = nt then Some c else if x = p \<and> m = nf then None else findChildUnlocked s x m)))"

text \<open>
  (C9) Renaming a file.  Within one backend, for a source that is a file and a target name that is
  free or belongs to another file, the rename succeeds and keeps the invariant; then the target name
  leads to the file, the source name leads nowhere, every other name of every directory leads where it
  did, and the file has the new name and parent.  When the target is a directory the answer is
  \<open>EISDIR\<close> and nothing changes.
\<close>
theorem rename_file_lookup:
  assumes "fs_ok E s" "p < nextPtr s" "isDir s p" "q < nextPtr s" "isDir s q" "fst (cloud E s p) = fst (cloud E s q)"
    and "findChildUnlocked s p nf = Some c" "\<not> isDir s c" "findChildUnlocked s q nt \<noteq> Some c"
  shows "case findChildUnlocked s q nt of
      Some t \<Rightarrow> if isDir s t then Rename St E now other s p nf q nt = Some (s, Some (Errno EISDIR)) else renamed St E now other s p nf q nt c
    | None \<Rightarrow> renamed St E now other s p nf q nt c"
proof -
  have e: "entries s p nf = Some c" "entries s q nt \<noteq> Some c" using assms(7,9) by (simp_all add: find_entries [OF assms(1)] assms(2-5))
  obtain s' r where s': "Rename St E now other s p nf q nt = Some (s', r)" "fs_ok E s'" "grow s s'"
    "if \<exists>t. entries s q nt = Some t \<and> isDir s t then s' = s \<and> r = Some (Errno EISDIR)
     else r = None \<and> (\<forall>x < nextPtr s. entries s' x = moved s p nf q nt c x) \<and> i_Name (heap s' c) = nt \<and> i_Parent (heap s' c) = Some q"
    using Rename_file_step [OF assms(1-6) e(1) assms(8) e(2)] by blast
  have "renamed St E now other s p nf q nt c" if "\<not> (\<exists>t. entries s q nt = Some t \<and> isDir s t)"
  proof -
    have "findChildUnlocked s' x m = (if x = q \<and> m = nt then Some c else if x = p \<and> m = nf then None else findChildUnlocked s x m)"
      if "x < nextPtr s" "isDir s x" for x m
    proof -
      have "x < nextPtr s'" "isDir s' x" using s'(3) that by (auto simp: grow_def)
      then show ?thesis using s'(4) \<open>\<not> (\<exists>t. _ t)\<close> that
        by (simp add: find_entries [OF s'(2)] find_entries [OF assms(1)] moved_def Let_def)
    qed
    then show ?thesis using s' that unfolding renamed_def by auto
  qed
  then show ?thesis using s'(1,4) by (auto simp: find_entries [OF assms(1,4,5)] split: option.splits)
qed

theorem rename_file_lookup_witness:
  "\<exists>s'. Rename demo_gone demo_E 0 (\<lambda>s. s) demo_one 0 ''a'' 0 ''b'' = Some (s', None) \<and>
    findChildUnlocked s' 0 ''b'' = Some (Suc 0) \<and> findChildUnlocked s' 0 ''a'' = None"
proof -
  have p: "0 < nextPtr demo_one" "isDir demo_one 0" by (simp_all add: demo_one_simps)
  have f: "findChildUnlocked demo_one 0 ''a'' = Some (Suc 0)" "findChildUnlocked demo_one 0 ''b'' = None"
    by (simp_all add: find_entries [OF demo_one_simps(1) p] demo_one_simps(6))
  have "renamed demo_gone demo_E 0 (\<lambda>s. s) demo_one 0 ''a'' 0 ''b'' (Suc 0)"
    using rename_file_lookup [OF demo_one_simps(1) p p refl f(1) demo_one_simps(7), of "''b''" demo_gone 0 "\<lambda>s. s"] f(2) by simp
  then show ?thesis using p unfolding renamed_def by auto
qed

text \<open>
  (C36) A file that is renamed into another directory and then back into the first one under another
  name forgets its object.  The check for a rename that is undone compares the old name with the name
  before the second rename instead of the new name, so after \<open>P/a\<close>, \<open>Q/a\<close>, \<open>P/b\<close> the file is \<open>P/b\<close> without
  an old name, although its object is still stored as \<open>P/a\<close>.
\<close>
theorem rename_back_forgets:
  assumes ok: "fs_ok E s" and p: "p < nextPtr s" "isDir s p" and q: "q < nextPtr s" "isDir s q" and ne: "p \<noteq> q"
    and a: "findChildUnlocked s p a = Some c" "findChildUnlocked s q a = None" "findChildUnlocked s p b = None"
    and c: "\<not> isDir s c" "i_CacheState (heap s c) = ST_CACHED" "i_oldParent (heap s c) = None" "\<not> i_renamingTo (heap s c)"
  shows "\<exists>s1 s2. renameInCache E s c q a = Some s1 \<and> i_oldParent (heap s1 c) = Some p \<and> i_oldName (heap s1 c) = a \<and>
    renameInCache E s1 c p b = Some s2 \<and> i_Name (heap s2 c) = b \<and> i_Parent (heap s2 c) = Some p \<and> i_oldParent (heap s2 c) = None"
proof -
  have e: "entries s p a = Some c" "entries s q a = None" "entries s p b = None"
    using a by (simp_all add: find_entries [OF ok] p q)
  note cc = fs_ok_child [OF ok p e(1)]
  obtain s1 where s1: "renameInCache E s c q a = Some s1" "fs_ok E s1" "grow s s1" "\<forall>r < nextPtr s. entries s1 r = moved s p a q a c r"
    "i_Name (heap s1 c) = a" "i_Parent (heap s1 c) = Some q" "olds s1 = olds (noteOldName s c p q)"
    using renameInCache_step [OF ok p q e(1) c(1) e(2)] by blast
  have o1: "olds (noteOldName s c p q) c = (Some p, a, False)"
    using c cc(3) by (auto simp: noteOldName_def Let_def olds_def addDeleted_def metasD(6) [OF addModified_views(2)])
  have n1: "p < nextPtr s1" "isDir s1 p" "q < nextPtr s1" "isDir s1 q" "\<not> isDir s1 c" using s1(3) p q c(1) cc(1) by (auto simp: grow_def)
  have e1: "entries s1 q a = Some c" "entries s1 p b = None"
    using s1(4) p(1) q(1) e(3) ne by (simp_all add: moved_def Let_def)
  obtain s2 where s2: "renameInCache E s1 c p b = Some s2" "i_Name (heap s2 c) = b" "i_Parent (heap s2 c) = Some p" "olds s2 = olds (noteOldName s1 c q p)"
    using renameInCache_step [OF s1(2) n1(3,4,1,2) e1(1) n1(5) e1(2)] by blast
  have i1: "i_oldParent (heap s1 c) = Some p" "i_oldName (heap s1 c) = a" "\<not> i_renamingTo (heap s1 c)"
    using s1(7) o1 by (auto simp: olds_def fun_eq_iff)
  then have "fst (olds (noteOldName s1 c q p) c) = None" using s1(5) by (simp add: noteOldName_def Let_def olds_def)
  then have "i_oldParent (heap s2 c) = None" using s2(4) by (simp add: olds_def fun_eq_iff)
  with s1(1) s2 i1 show ?thesis by blast
qed

lemma insertChild_olds: "insertChildUnlocked s p c = Some s' \<Longrightarrow> olds s' = olds s"
  by (simp add: insertChildUnlocked_def Let_def split: if_split_asm) auto

text \<open>The file system with the file \<open>a\<close> and an empty directory \<open>d\<close>.\<close>

definition demo_two :: "(FileBuffer omap, u64 omap, (nat \<times> u64) omap) Goofys" where
  "demo_two = (case insertInode (ToDir demo_E (snd (NewInode demo_E 0 demo_one (Some 0) ''d'')) 2) 0 2 of Some s \<Rightarrow> s | None \<Rightarrow> demo_one)"

lemma demo_two_simps:
  "fs_ok demo_E demo_two" "nextPtr demo_two = 3" "isDir demo_two 0" "isDir demo_two 2" "\<not> isDir demo_two (Suc 0)"
  "entries demo_two 0 = [''a'' \<mapsto> Suc 0, ''d'' \<mapsto> 2]" "entries demo_two 2 n = None"
  "i_CacheState (heap demo_two (Suc 0)) = ST_CACHED" "i_oldParent (heap demo_two (Suc 0)) = None" "\<not> i_renamingTo (heap demo_two (Suc 0))"
proof -
  let ?s1 = "ToDir demo_E (snd (NewInode demo_E 0 demo_one (Some 0) ''d'')) 2"
  have two: "nextPtr demo_one = 2" by (rule demo_one_simps(2))
  note nd = NewDir_ok [OF demo_one_simps(1), of 0 "Some 0" "''d''", unfolded two]
  have nm: "i_Name (heap ?s1 2) = ''d''" "i_Parent (heap ?s1 2) = Some 0" "i_Id (heap ?s1 2) = 0" "nextPtr ?s1 = 3"
    using NewInode_simps(2,6,7,9) [of demo_E 0 demo_one "Some 0" "''d''"] two by (simp_all add: metasD(1) [OF ToDir_simps(5)])
  have fr: "fresh demo_one 0 ''d'' ?s1" using fresh_ToDir [OF fresh_NewInode, of demo_one] two by metis
  have e0: "entries ?s1 0 = [''a'' \<mapsto> Suc 0]" using fresh_entries [OF fr demo_one_simps(1), of 0] demo_one_simps(6) two by simp
  have d0: "isDir ?s1 0" "\<not> isDir ?s1 (Suc 0)" using freshD(3) [OF fr] demo_one_simps(3,7) two by simp_all
  obtain s' where s': "insertInode ?s1 0 2 = Some s'" "fs_ok demo_E s'" "nextPtr s' = nextPtr ?s1" "\<forall>q. isDir s' q = isDir ?s1 q"
    "entries s' 0 = (entries ?s1 0)(''d'' \<mapsto> 2)" "\<forall>q. q \<noteq> 0 \<longrightarrow> dirOf s' q = dirOf ?s1 q" "states s' = states ?s1"
    using insertInode_ok [OF nd(1), of 0 2] nm d0 e0 by auto
  have t: "demo_two = s'" by (simp add: demo_two_def s'(1))
  show "fs_ok demo_E demo_two" "nextPtr demo_two = 3" "isDir demo_two 0" "isDir demo_two 2" "\<not> isDir demo_two (Suc 0)"
    "entries demo_two 0 = [''a'' \<mapsto> Suc 0, ''d'' \<mapsto> 2]"
    using s' nm(4) d0 nd(2) e0 unfolding t by simp_all
  show "entries demo_two 2 n = None" using s'(6) nd(3) unfolding t by (simp add: entries_def)
  have h: "heap ?s1 (Suc 0) = heap demo_one (Suc 0)" using two by simp
  have "states demo_two (Suc 0) = ST_CACHED" using s'(7) h demo_one_simps(8) unfolding t by (simp add: states_def)
  then show "i_CacheState (heap demo_two (Suc 0)) = ST_CACHED" by (simp add: states_def)
  have "olds s' = olds ?s1" using s'(1)
    by (auto simp: insertInode_def allocateInodeId_def dest!: insertChild_olds split: if_split_asm bind_split_asm)
  then have "olds demo_two (Suc 0) = olds demo_one (Suc 0)" unfolding t using h by (simp add: olds_def)
  moreover have "olds demo_one (Suc 0) = (None, [], False)" by (simp add: olds_def demo_defs)
  ultimately show "i_oldParent (heap demo_two (Suc 0)) = None" "\<not> i_renamingTo (heap demo_two (Suc 0))" by (simp_all add: olds_def)
qed

theorem rename_back_forgets_witness:
  "\<exists>s1 s2. renameInCache demo_E demo_two (Suc 0) 2 ''a'' = Some s1 \<and> renameInCache demo_E s1 (Suc 0) 0 ''b'' = Some s2 \<and>
    i_Name (heap s2 (Suc 0)) = ''b'' \<and> i_oldParent (heap s2 (Suc 0)) = None"
proof -
  note d = demo_two_simps
  have f: "findChildUnlocked demo_two 0 n = entries demo_two 0 n" "findChildUnlocked demo_two 2 n = entries demo_two 2 n" for n
    by (rule find_entries [OF d(1)]; simp add: d)+
  show ?thesis
    using rename_back_forgets [OF d(1) _ d(3) _ d(4) _ _ _ _ d(5) d(8,9,10), of "''a''" "''b''"] by (auto simp: f d)
qed

section \<open>Symbolic links\<close>

lemma insertChild_userMetadata: "insertChildUnlocked s p c = Some s' \<Longrightarrow> i_userMetadata (heap s' q) = i_userMetadata (heap s q)"
  by (simp add: insertChildUnlocked_def Let_def Ref_def split: if_split_asm) auto

lemma insertInode_userMetadata: "insertInode s p c = Some s' \<Longrightarrow> i_userMetadata (heap s' q) = i_userMetadata (heap s q)"
  by (auto simp: insertInode_def allocateInodeId_def dest!: insertChild_userMetadata [where q = q] split: if_split_asm bind_split_asm)

lemma insertChild_Id: "insertChildUnlocked s p c = Some s' \<Longrightarrow> i_Id (heap s' q) = i_Id (heap s q) \<and> inodes s' = inodes s"
  by (simp add: insertChildUnlocked_def Let_def Ref_def split: if_split_asm) auto

lemma insertInode_Id: "insertInode s p c = Some s' \<Longrightarrow> inodes s' (i_Id (heap s' c)) = Some c"
  by (auto simp: insertInode_def allocateInodeId_def dest!: insertChild_Id [where q = c] split: if_split_asm bind_split_asm)

lemma addModified_ids [simp]: "i_Id (heap (addModified s parent n) q) = i_Id (heap s q)" "inodes (addModified s parent n) = inodes s"
  unfolding addModified_def
  by (rule fold_view [where V = "\<lambda>s. i_Id (heap s q)"], simp) (rule fold_view [where V = inodes], simp)

lemma CreateSymlink_made:
  assumes "CreateSymlink E now s p n t = Some (s', Inr c)"
  shows "i_userMetadata (heap s' c) = Some [(f_SymlinkAttr (g_flags E), t)]" "i_CacheState (heap s' c) = ST_CREATED" "inodes s' (i_Id (heap s' c)) = Some c"
proof -
  have d: "isDir s p" using assms by (simp add: CreateSymlink_def split: if_split_asm)
  have f: "findChildUnlocked s p n = None" using assms d by (cases "findChildUnlocked s p n") (simp_all add: CreateSymlink_def)
  let ?s1 = "Ref (upd (nextPtr s) (\<lambda>i. i\<lparr>i_userMetadata := Some [(f_SymlinkAttr (g_flags E), t)], i_userMetadataDirty := 2,
    i_Attributes := newAttributes E now\<rparr>) (snd (NewInode E now s (Some p) n))) (nextPtr s)"
  obtain s2 where s2: "insertInode ?s1 p (nextPtr s) = Some s2" "s' = touch now (WakeupFlusher (SetCacheState E s2 c ST_CREATED)) p" "c = nextPtr s"
  proof (cases "insertInode ?s1 p (nextPtr s)")
    case None
    with assms show thesis by (simp add: CreateSymlink_def d f split_beta Let_def)
  next
    case (Some s2)
    with assms have "s' = touch now (WakeupFlusher (SetCacheState E s2 c ST_CREATED)) p" "c = nextPtr s"
      by (auto simp: CreateSymlink_def d f split_beta Let_def)
    with Some show thesis by (rule that)
  qed
  have "i_userMetadata (heap s2 c) = Some [(f_SymlinkAttr (g_flags E), t)]"
    using insertInode_userMetadata [OF s2(1), of c] s2(3) by (simp add: Ref_def)
  then show "i_userMetadata (heap s' c) = Some [(f_SymlinkAttr (g_flags E), t)]"
    unfolding s2(2) by (auto simp: touch_def WakeupFlusher_def SetCacheState_def Let_def split: prod.splits)
  show "i_CacheState (heap s' c) = ST_CREATED" unfolding s2(2) by (simp add: touch_def WakeupFlusher_def)
  have "i_Id (heap s' c) = i_Id (heap s2 c)" "inodes s' = inodes s2"
    unfolding s2(2) by (auto simp: touch_def WakeupFlusher_def SetCacheState_def Let_def split: prod.splits)
  then show "inodes s' (i_Id (heap s' c)) = Some c" using insertInode_Id [OF s2(1)] s2(3) by simp
qed

lemma symlink_roundtrip:
  assumes "CreateSymlink E now s p n t = Some (s', Inr c)"
  shows "ReadSymlink E s' c = Inr t"
  using CreateSymlink_made(1) [OF assms] by (simp add: ReadSymlink_def)

section \<open>Eviction\<close>

lemma evictInode_step:
  assumes ok: "fs_ok E s" and p: "p < nextPtr s" "isDir s p" and c: "c < nextPtr s"
  shows "\<exists>s'. evictInode E s p c = Some s' \<and> fs_ok E s' \<and> findChildUnlocked s' p (i_Name (heap s c)) \<noteq> Some c \<and>
    inodes s' (i_Id (heap s' c)) = None \<and> i_CacheState (heap s' c) = ST_DEAD"
proof -
  let ?n = "i_Name (heap s c)" and ?f = "\<lambda>d :: DirInodeData. d\<lparr>d_DirTime := time_zero, d_forgetDuringList := True\<rparr>"
  obtain s1 where s1: "(if findChildUnlocked s p ?n = Some c then map_option (updDir p ?f) (removeChildUnlocked E s p c) else Some s) = Some s1"
    "fs_ok E s1" "same s s1" "entries s1 p ?n \<noteq> Some c"
  proof (cases "findChildUnlocked s p ?n = Some c")
    case True
    then have e: "entries s p ?n = Some c" by (simp add: find_entries [OF ok p])
    obtain r where r: "removeChildUnlocked E s p c = Some r" "fs_ok E r" "same s r" "sets_entries s p ((entries s p)(?n := None)) r"
      using removeChild_step [OF ok p c e] by blast
    have sk: "skel (updDir p ?f r) = skel r" "bufview (updDir p ?f r) = bufview r" by simp_all
    have "entries (updDir p ?f r) p ?n \<noteq> Some c" using r(4) skel_dirs(2) [OF sk(1)] by (simp add: sets_entries_def)
    with True r that same_trans [OF r(3) same_skel [OF sk(1)]] fs_ok_skel [OF sk, of E] show thesis by simp
  next
    case False
    with ok that show thesis by (simp add: find_entries [OF ok p] same_def)
  qed
  have "c < nextPtr s1" using s1(3) c by (simp add: same_def)
  then obtain s2 where s2: "resetCache E s1 c = Some s2" "fs_ok E s2" "tree s2 = tree s1" using resetCache_fs [OF s1(2)] by blast
  let ?s3 = "resetExpireTime (SetCacheState E s2 c ST_DEAD) c"
  let ?s4 = "?s3\<lparr>inodes := (inodes ?s3)(i_Id (heap ?s3 c) := None), forgotCnt := forgotCnt ?s3 + 1\<rparr>"
  have sk: "skel ?s4 = skel s2" "bufview ?s4 = bufview s2" by simp_all
  have ok4: "fs_ok E ?s4" using s2(2) fs_ok_skel [OF sk, of E] by simp
  have sk1: "skel ?s4 = skel s1" using sk(1) skel_tree [OF s2(3)] by simp
  have p4: "p < nextPtr ?s4" "isDir ?s4 p" using p s1(3) skelD [OF sk1] by (auto simp: same_def)
  have "findChildUnlocked ?s4 p ?n \<noteq> Some c" using s1(4) skel_dirs(2) [OF sk1] by (simp only: find_entries [OF ok4 p4] not_False_eq_True)
  moreover have "evictInode E s p c = Some ?s4" using s1(1) s2(1) by (simp add: evictInode_def Let_def)
  moreover have "i_CacheState (heap ?s4 c) = ST_DEAD" by (simp add: resetExpireTime_def Let_def)
  ultimately show ?thesis using ok4 by auto
qed

text \<open>
  (C10) An inode that is in use is never evicted.  Whatever runs between the first look at the inode
  and the moment its locks are held, as long as it keeps the invariant, \<open>EvictEntry\<close> returns; if it
  evicts, then at that moment the inode was not open, had no change waiting to be sent, itself or below
  it, its directory was not open, and afterwards the name no longer leads to it and its number is free;
  if it does not evict, it has changed nothing.
\<close>
theorem evict_not_in_use:
  assumes "inodes s num = Some c" "fs_ok E (other s)" "c < nextPtr (other s)"
    and "i_Id (heap s c) = RootInodeID \<or> (\<exists>p. i_Parent (heap s c) = Some p \<and> p < nextPtr (other s) \<and> isDir (other s) p)"
  shows "\<exists>s' evicted. EvictEntry E now locked other s num = Some (s', evicted) \<and>
    (if evicted then fs_ok E s' \<and> \<not> inUse (other s) c \<and> i_ExpireTime (heap s c) \<le> now \<and> i_CacheState (heap s' c) = ST_DEAD \<and>
       inodes s' (i_Id (heap s' c)) = None \<and>
       (\<exists>p. i_Parent (heap (other s) c) = Some p \<and> i_fileHandles (heap (other s) p) \<le> 0 \<and> findChildUnlocked s' p (i_Name (heap (other s) c)) \<noteq> Some c)
     else s' = s \<or> s' = other s)"
proof (cases "i_Id (heap s c) = RootInodeID \<or> inUse s c \<or> locked c \<or> i_ExpireTime (heap s c) > now")
  case True
  then show ?thesis using assms(1) by (auto simp: EvictEntry_def)
next
  case False
  with assms(4) obtain p where p: "i_Parent (heap s c) = Some p" "p < nextPtr (other s)" "isDir (other s) p" by blast
  show ?thesis
  proof (cases "locked p \<or> i_Parent (heap (other s) c) \<noteq> Some p \<or> i_fileHandles (heap (other s) p) > 0 \<or> inUse (other s) c")
    case True
    then show ?thesis using assms(1) False p by (auto simp: EvictEntry_def Let_def)
  next
    case ev: False
    obtain s' where s': "evictInode E (other s) p c = Some s'" "fs_ok E s'" "findChildUnlocked s' p (i_Name (heap (other s) c)) \<noteq> Some c"
      "inodes s' (i_Id (heap s' c)) = None" "i_CacheState (heap s' c) = ST_DEAD"
      using evictInode_step [OF assms(2) p(2,3) assms(3)] by blast
    have "EvictEntry E now locked other s num = Some (s', True)"
      using assms(1) False ev p s'(1) by (simp add: EvictEntry_def Let_def)
    then show ?thesis using s' ev False by (auto simp: not_less)
  qed
qed

theorem evict_not_in_use_witness:
  "\<exists>s'. EvictEntry demo_E 0 (\<lambda>_. False) (\<lambda>s. s) demo_one 2 = Some (s', True) \<and> fs_ok demo_E s' \<and> findChildUnlocked s' 0 ''a'' \<noteq> Some (Suc 0)"
proof -
  have i: "inodes demo_one 2 = Some (Suc 0)" "i_Id (heap demo_one (Suc 0)) \<noteq> RootInodeID" "i_fileHandles (heap demo_one (Suc 0)) = 0"
    "i_ExpireTime (heap demo_one (Suc 0)) = time_zero" "i_fileHandles (heap demo_one 0) = 0"
    by (simp_all add: demo_defs RootInodeID_def)
  note d = demo_one_simps
  have p: "0 < nextPtr demo_one" "Suc 0 < nextPtr demo_one" by (simp_all add: d)
  have "EvictEntry demo_E 0 (\<lambda>_. False) (\<lambda>s. s) demo_one 2 = map_option (\<lambda>s. (s, True)) (evictInode demo_E demo_one 0 (Suc 0))"
    using i d by (simp add: EvictEntry_def inUse_def time_zero_def less_CacheSt_def)
  moreover obtain s' where "evictInode demo_E demo_one 0 (Suc 0) = Some s'" using evictInode_step [OF d(1) p(1) d(3) p(2)] by blast
  ultimately have e: "EvictEntry demo_E 0 (\<lambda>_. False) (\<lambda>s. s) demo_one 2 = Some (s', True)" by simp
  show ?thesis using evict_not_in_use [of demo_one 2 "Suc 0" demo_E "\<lambda>s. s" 0 "\<lambda>_. False"] i(1) d p e by auto
qed

end
