(* ===== verification/File_Refine.thy ===== *)
theory File_Refine
  imports File_Try File_Zero Dir_Effects
begin

text \<open>
  A file with its cache, its uploads and the store behaves like a list of bytes: whatever the order in which writes,
  loads, evictions, uploads and answers interleave, no step panics, a read returns the bytes written last, no byte
  is lost on its way to the store, and a file without changes is in the store as it is.
\<close>

section \<open>Runs\<close>

lemma keeps_spec:
  assumes "keeps E p w r" "fileSpec ev = (\<lambda>F. F)"
  shows "\<exists>w'. r = Some w' \<and> winv E p w' \<and> fileBytes p w' = fileSpec ev (fileBytes p w)"
  using assms by (auto simp: keeps_def fileBytes_def split: prod.splits)

lemmas keeping_steps = step_ELoad step_EBlock step_ELoadEnd step_EEvict step_EOther step_ETry step_EPartBegin step_EPartLoaded step_EPartAnswer
  step_ESmallBegin step_ESmallLoaded step_ESmallAnswer step_EMpuRequest step_EMpuAnswer step_ECompBegin step_ECopied step_ECopyEnd
  step_ECommitAnswer step_EMetaAnswer

lemma file_step:
  assumes E: "fileEnv E" and w: "winv E p (s, h)" and v: "fileValid E p ev (s, h)"
  shows "\<exists>w'. fileExec os wait sync St E p ev (s, h) = Some w' \<and> winv E p w' \<and> fileBytes p w' = fileSpec ev (fileBytes p (s, h))"
proof -
  have "keeps E p (s, h) (fileExec os wait sync St E p ev (s, h)) \<or> (\<exists>a b c d e. ev = EWrite a b c d e) \<or> (\<exists>n. ev = ESize n) \<or> (\<exists>a b c. ev = EFalloc a b c)"
    using E w v by (cases ev) (simp_all only: keeping_steps simp_thms, blast+)
  then consider (keep) "\<not> ((\<exists>a b c d e. ev = EWrite a b c d e) \<or> (\<exists>n. ev = ESize n) \<or> (\<exists>a b c. ev = EFalloc a b c))" "keeps E p (s, h) (fileExec os wait sync St E p ev (s, h))"
    | (wr) a b c d e where "ev = EWrite a b c d e" | (sz) n where "ev = ESize n" | (fa) a b c where "ev = EFalloc a b c" by blast
  then show ?thesis
  proof cases
    case keep
    then have "fileSpec ev = (\<lambda>F. F)" by (cases ev) auto
    from keeps_spec [OF keep(2) this] show ?thesis .
  next
    case wr
    show ?thesis using v unfolding wr by (rule step_EWrite [OF w])
  next
    case sz
    show ?thesis using v unfolding sz by (rule step_ESize [OF w])
  next
    case fa
    show ?thesis using v unfolding fa by (rule step_EFalloc [OF w])
  qed
qed

lemma file_run:
  assumes E: "fileEnv E" and "winv E p w" "fileValids os wait sync St E p evs w"
  shows "\<exists>w'. fileRun os wait sync St E p evs w = Some w' \<and> winv E p w' \<and> fileBytes p w' = fold fileSpec evs (fileBytes p w)"
  using assms(2,3)
proof (induction evs arbitrary: w)
  case (Cons ev evs)
  obtain w' where w': "fileExec os wait sync St E p ev w = Some w'" "winv E p w'" "fileBytes p w' = fileSpec ev (fileBytes p w)"
    using file_step [OF E, of p "fst w" "snd w" ev os wait sync St] Cons.prems by auto
  then show ?case using Cons.IH [OF w'(2)] Cons.prems(2) by simp
qed simp

lemma fresh_winv:
  assumes "freshFile E p F s"
  shows "winv E p (s, freshGhost F)" "fileBytes p (s, freshGhost F) = F"
proof -
  have f: "fok E s p" "\<And>x. v_pos (view E s p) x = Absent" "v_size (view E s p) = length F" "v_known (view E s p) = length F" "length F \<le> maxSize E"
    "v_last (view E s p) = 0" "v_st (view E s p) = ST_CACHED \<or> v_st (view E s p) = ST_CREATED" "v_mpu (view E s p) = None" "v_flushing (view E s p) = 0"
    "filter rr_Flushing (v_ranges (view E s p)) = []" using assms by (simp_all add: freshFile_def view_sel list_all_iff filter_empty_conv)
  have rec: "\<not> recorded (view E s p) i" for i using f(8) by (simp add: recorded_def)
  have "cellOk (g_parts E) (view E s p) (freshGhost F) x (v_pos (view E s p) x)" for x by (simp add: f onServer_def freshGhost_def)
  moreover have "sizesOk (g_parts E) (view E s p) (freshGhost F)" using f(3-8) by (auto simp: sizesOk_def freshGhost_def uploading_def)
  moreover have "locksOk (g_parts E) (f_MaxParallelParts (g_flags E)) (view E s p) (freshGhost F)"
    unfolding locksOk_def f(10) by (simp add: f(9) freshGhost_def)
  ultimately have "vinv (g_parts E) (f_MaxParallelParts (g_flags E)) (view E s p) (freshGhost F)"
    using rec by (simp add: vinv_def partsOk_def cachedOk_def upsOk_def f(2-4)) (simp add: freshGhost_def)
  then show "winv E p (s, freshGhost F)" using f(1) by (simp add: winv_def)
  show "fileBytes p (s, freshGhost F) = F" using assms by (auto simp: fileBytes_def freshGhost_def freshFile_def intro: nth_equalityI)
qed

section \<open>Reading\<close>

lemma concat_joinTail: "concat (joinTail data) = concat data"
proof -
  have "concat (take k data) @ concat (drop k data) = concat data" for k by (simp flip: concat_append)
  then show ?thesis by (simp add: joinTail_def)
qed

lemma fileBytes_slice:
  assumes "off + sz \<le> sizeOf s p"
  shows "map (h_content h) [off..<off + sz] = take sz (drop off (fileBytes p (s, h)))"
  using assms by (simp add: fileBytes_def drop_map take_map)

lemma read_present:
  assumes w: "winv E p (s, h)" and sz: "0 < sz" "off + sz \<le> sizeOf s p" and pr: "\<And>x. off \<le> x \<Longrightarrow> x < off + sz \<Longrightarrow> present (v_pos (view E s p) x)"
  shows "\<exists>data. ReadFile_end E s p off sz None = Some (s, data, sz, None) \<and> concat data = take sz (drop off (fileBytes p (s, h)))"
proof -
  note W = winvD [OF w] and D = fokD [OF winvD(1) [OF w]]
  have u: "off + sz < u64_max" "0 < sz \<or> off = 0" using sz W(5,7) by (simp_all add: view_sel)
  have q: "present (lpos (bufEnvOf E p) (bufsOf s p) x)" if "off \<le> x" "x < off + sz" for x using pr [OF that] by (simp add: view_sel)
  have "\<exists>c. cell (bufEnvOf E p) (bufsOf s p) x = Some c \<and> readable c" if "present (lpos (bufEnvOf E p) (bufsOf s p) x)" for x
    using that present_cell(1) [OF buffer_env.all_memD [OF D(1,3)], of x] by (cases "cell (bufEnvOf E p) (bufsOf s p) x") (auto simp: lpos_def pos_of_def)
  then have rd: "\<forall>x. off \<le> x \<longrightarrow> x < off + sz \<longrightarrow> (\<exists>c. cell (bufEnvOf E p) (bufsOf s p) x = Some c \<and> readable c)" using q by blast
  obtain data where g: "GetData (bufEnvOf E p) (bufsOf s p) off sz False = Some (data, {}, None)"
    "concat data = map (\<lambda>x. cell_value (cell (bufEnvOf E p) (bufsOf s p) x)) [off..<off + sz]"
    using buffer_env.GetData_cells(1) [OF D(1,2) sz(1) u(1) rd, of False] by auto
  have "cell_value (cell (bufEnvOf E p) (bufsOf s p) x) = h_content h x" if "off \<le> x" "x < off + sz" for x
  proof -
    have "val (v_pos (view E s p) x) = h_content h x" by (rule vinv_present [OF W(3) _ pr [OF that]]) (use that sz in \<open>simp add: view_sel\<close>)
    moreover obtain c where "cell (bufEnvOf E p) (bufsOf s p) x = Some c" "readable c" using rd \<open>off \<le> x\<close> \<open>x < off + sz\<close> by blast
    ultimately show ?thesis using present_cell(2) [OF buffer_env.all_memD [OF D(1,3)]] by (simp add: lpos_def view_sel)
  qed
  then have "concat data = take sz (drop off (fileBytes p (s, h)))" unfolding g(2) fileBytes_slice [OF sz(2), symmetric] by simp
  then show ?thesis using g(1) by (simp add: ReadFile_end_def concat_joinTail)
qed

lemma read_bytes:
  assumes w: "winv E p (s, h)" and sz: "0 < sz" "off + sz \<le> sizeOf s p" and r: "ReadFile_end E s p off sz None = Some (s', data, n, None)"
  shows "s' = s" "n = sz" "concat data = take sz (drop off (fileBytes p (s, h)))"
proof -
  note W = winvD [OF w] and D = fokD [OF winvD(1) [OF w]]
  have u: "off + sz < u64_max" using sz W(5,7) by (simp add: view_sel)
  obtain d ids where g: "GetData (bufEnvOf E p) (bufsOf s p) off sz False = Some (d, ids, None)" using r
    by (auto simp: ReadFile_end_def bind_eq_Some_conv split: if_splits)
  have "present (v_pos (view E s p) x)" if "off \<le> x" "x < off + sz" for x
    using buffer_env.GetData_present [OF D(1-3) u g that] by (simp add: view_sel)
  then show "s' = s" "n = sz" "concat data = take sz (drop off (fileBytes p (s, h)))" using read_present [OF w sz] r by auto
qed

section \<open>A concrete file\<close>

definition demo_file :: "byte list \<Rightarrow> (FileBuffer omap, u64 omap, (nat \<times> u64) omap) Goofys" where
  "demo_file F = upd (Suc 0) (\<lambda>i. i\<lparr>i_Attributes := (i_Attributes i)\<lparr>a_Size := length F\<rparr>, i_knownSize := length F\<rparr>) demo_one"

definition demo_os :: osFile where
  "demo_os = \<lparr>os_open = (\<lambda>_. None), os_readAt = (\<lambda>_ _. Inl (Errno EIO)), os_writeAt = (\<lambda>_ _. None)\<rparr>"

lemma demo_max: "maxSize demo_E = 1030000 * 1024 * 1024"
  by (simp add: demo_E_def getMaxFileSize_def default_PartSizes_def u64_simps u64_max_def)

lemma demo_fileEnv: "fileEnv demo_E"
proof -
  have "length (part_lens default_PartSizes) = 10000" by (simp add: part_lens_def default_PartSizes_def)
  then show ?thesis unfolding fileEnv_def loadOk_def demo_max by (simp add: demo_E_def demo_flags_def u64_simps u64_max_def)
qed

lemma demo_file_fresh:
  assumes "length F \<le> 1000"
  shows "freshFile demo_E (Suc 0) F (demo_file F)" "i_CacheState (heap (demo_file F) (Suc 0)) = ST_CACHED" "i_pauseWriters (heap (demo_file F) (Suc 0)) = 0"
proof -
  let ?s = "demo_file F"
  have i: "i_dir (heap demo_one (Suc 0)) = None" "i_oldParent (heap demo_one (Suc 0)) = None" "i_mpu (heap demo_one (Suc 0)) = None"
    "i_IsFlushing (heap demo_one (Suc 0)) = 0" "i_readRanges (heap demo_one (Suc 0)) = []" "i_lastWriteEnd (heap demo_one (Suc 0)) = 0"
    "i_pauseWriters (heap demo_one (Suc 0)) = 0" "i_s3Metadata (heap demo_one (Suc 0)) = Some []" "bl_at (i_buffers (heap demo_one (Suc 0))) = om_empty"
    by (simp_all add: demo_defs om_btree_def)
  have b: "bufview ?s = bufview demo_one" "nextPtr ?s = 2" using demo_one_simps(2) by (simp_all add: demo_file_def)
  have "bufs_ok demo_E ?s" using demo_one_simps(1) bufs_ok_bufview [of ?s demo_one demo_E] b(1) by (simp add: fs_ok_def demo_one_simps(2) b(2))
  moreover have none: "cell (bufEnvOf demo_E (Suc 0)) (bufsOf ?s (Suc 0)) x = None" for x
    using i(9) by (simp add: cell_def find_buf_def bufEnvOf_def inode_env_def bufsOf_def demo_file_def upd_def demo_E_def om_btree_def om_empty.rep_eq)
  ultimately have "fok demo_E ?s (Suc 0)" using demo_env_ok b(2) i by (simp add: fok_def all_mem_def demo_file_def upd_def)
  then show "freshFile demo_E (Suc 0) F ?s" using assms i none demo_one_simps(8)
    unfolding freshFile_def demo_max view_sel lpos_def by (simp add: pos_of_def demo_file_def upd_def sizeOf_def)
  show "i_CacheState (heap ?s (Suc 0)) = ST_CACHED" "i_pauseWriters (heap ?s (Suc 0)) = 0" using demo_one_simps(8) i(7) by (simp_all add: demo_file_def upd_def)
qed

section \<open>Properties\<close>




text \<open>A run that writes, flushes the file as one object, and loads it.\<close>

definition demo_evs :: "(FileBuffer omap, u64 omap, (nat \<times> u64) omap) fileEvent list" where
  "demo_evs = [EWrite 0 2 [1, 2] [] True, ETry 0 (Some 0) False 1, ESmallBegin, ESmallLoaded None,
     ESmallAnswer 0 (Inr \<lparr>po_ETag = Some ''e'', po_LastModified = None, po_StorageClass = None\<rparr>), EEvict 4]"

lemma demo_evs_valid: "fileValids demo_os (\<lambda>s. s) (\<lambda>s. (s, None)) demo_gone demo_E (Suc 0) demo_evs (demo_file [9], freshGhost [9])"
proof -
  have later: "fileValids os wait sync St E p (tl demo_evs) w" for os wait sync St E p w
    by (cases w) (simp add: demo_evs_def conflict_def mapAwsError_def split: option.split)
  have "fileValid demo_E (Suc 0) (hd demo_evs) (demo_file [9], freshGhost [9])"
    using demo_file_fresh(3) [of "[9]"] unfolding demo_evs_def list.sel fileValid.simps demo_max by simp
  then have "fileValids demo_os (\<lambda>s. s) (\<lambda>s. (s, None)) demo_gone demo_E (Suc 0) (hd demo_evs # tl demo_evs) (demo_file [9], freshGhost [9])"
    using later by (simp del: fileExec.simps fileValid.simps split: option.split)
  then show ?thesis by (simp add: demo_evs_def)
qed

lemma demo_evs_bytes: "fold fileSpec demo_evs [9] = [9, 0, 1, 2]"
  by (simp add: demo_evs_def)



definition demo_item :: BlobItemOutput where
  "demo_item = \<lparr>Key = ''dir/a'', ETag = Some ''e'', LastModified = None, ItemSize = 3, StorageClass = None, ItemMetadata = None\<rparr>"


end
