(* ===== verification/Fuse_Effects.thy ===== *)
theory Fuse_Effects
  imports File_Refine
begin

text \<open>
  What the FUSE adapter promises to the kernel: a hard link that is emulated by a symbolic link leads to
  its target, the names of the extended attributes follow the protocol of \<open>listxattr\<close>, and an open
  handle means the same file until it is released.
\<close>

section \<open>Links\<close>

lemma SetExpireTime_ids [simp]:
  "inodes (SetExpireTime s p tm) = inodes s" "i_Id (heap (SetExpireTime s p tm) q) = i_Id (heap s q)"
  "i_CacheState (heap (SetExpireTime s p tm) q) = i_CacheState (heap s q)"
  "i_userMetadata (heap (SetExpireTime s p tm) q) = i_userMetadata (heap s q)"
  by (simp_all add: SetExpireTime_def Let_def upd_def)

lemma CreateSymlink_op_made:
  assumes "CreateSymlink_op X s pid name target = Some (s', Inr entry)"
  shows "ReadSymlink_op X s' (ce_Child entry) = Some (Inr target)"
proof -
  obtain p s1 r where p: "inodes s pid = Some p" "\<not> stale s p" "CreateSymlink (fx_E X) (fx_now X) s p name target = Some (s1, r)"
    using assms by (auto simp: CreateSymlink_op_def getInodeOrDie_def split: bind_split_asm if_split_asm)
  then obtain c where c: "r = Inr c" "fillEntry X s1 c = (s', entry)"
    using assms by (cases r) (auto simp: CreateSymlink_op_def getInodeOrDie_def split: prod.splits)
  note m = CreateSymlink_made [OF p(3) [unfolded c(1)]]
  have e: "s' = SetExpireTime s1 c (fx_now X + f_StatCacheTTL (g_flags (fx_E X)))" "ce_Child entry = i_Id (heap s1 c)"
    using c(2) by (auto simp: fillEntry_def SetExpireLocked_def Let_def)
  show ?thesis using m unfolding e ReadSymlink_op_def getInodeOrDie_def by (simp add: stale_def ReadSymlink_def)
qed

text \<open>
  (C11) The emulation of hard links: when \<open>CreateLink\<close> makes a link to a file, reading the new link gives a
  relative path, and this path, resolved from the directory of the link, is the path of the target.
\<close>

theorem link_resolves:
  assumes "CreateLink X s opParent name opTarget = Some (s', Inr entry)"
    and "inodes s opParent = Some parent" "FullName s parent = join_path dir" "normal dir"
    and "inodes s opTarget = Some target" "FullName s target = join_path path" "normal path" "path \<noteq> []" "path \<noteq> dir"
  shows "\<exists>link. ReadSymlink_op X s' (ce_Child entry) = Some (Inr link) \<and> resolve dir link = join_path path"
proof -
  obtain rel where rel: "filepath_Rel (filepath_Clean (join_path dir)) (filepath_Clean (join_path path)) = Some rel" "resolve dir rel = join_path path"
    using rel_resolves [OF assms(4,7,8,9)] by blast
  have "CreateSymlink_op X s opParent name rel = Some (s', Inr entry)"
    using assms(1,2,3,5,6) rel(1) by (auto simp: CreateLink_def getInodeOrDie_def Let_def split: if_split_asm)
  then show ?thesis using CreateSymlink_op_made rel(2) by blast
qed

definition demo_X :: "(FileBuffer omap, u64 omap, (nat \<times> u64) omap) fuseEnv" where
  "demo_X = \<lparr>fx_E = demo_E, fx_flags = \<lparr>f_DisableXattr = False, f_RefreshAttr = ''.invalidate'', f_EmulateHardlinks = True,
     f_MountOptions = [], f_Setuid = 0, f_Setgid = 0\<rparr>, fx_St = demo_gone, fx_now = 0, fx_other = (\<lambda>s. s), fx_arrive = (\<lambda>ps. ps),
     fx_os = demo_os, fx_load = (\<lambda>_ s. s), fx_pause = (\<lambda>s. s), fx_sync = (\<lambda>s. (s, None)), fx_flush = (\<lambda>_ s. s),
     fx_order = (\<lambda>_. []), fx_WriteDirent = (\<lambda>room _. if 32 \<le> room then 32 else 0),
     fx_WriteDirentPlus = (\<lambda>room _ _. if 160 \<le> room then 160 else 0)\<rparr>"

lemma demo_ids:
  "inodes demo_one 1 = Some 0" "inodes demo_one 2 = Some (Suc 0)" "FullName demo_one 0 = []" "FullName demo_one (Suc 0) = ''a''"
  "\<not> stale demo_one 0" "\<not> stale demo_one (Suc 0)"
  by (simp_all add: demo_defs FullName_def ancestors_def numeral_2_eq_2 stale_def RootInodeID_def)

theorem link_resolves_witness:
  "\<exists>s' entry. CreateLink demo_X demo_one 1 ''l'' 2 = Some (s', Inr entry) \<and>
     (\<exists>link. ReadSymlink_op demo_X s' (ce_Child entry) = Some (Inr link) \<and> resolve [] link = join_path [''a''])"
proof -
  obtain rel where rel: "filepath_Rel (filepath_Clean []) (filepath_Clean ''a'') = Some rel" using rel_resolves [of "[]" "[''a'']"] by auto
  have X: "fx_E demo_X = demo_E" "fx_now demo_X = 0" "f_EmulateHardlinks (fx_flags demo_X)" by (simp_all add: demo_X_def)
  obtain s1 where s1: "CreateSymlink demo_E 0 demo_one 0 ''l'' rel = Some (s1, Inr (nextPtr demo_one))"
    using CreateSymlink_step [OF demo_one_simps(1), of 0 0 "''l''" rel] demo_one_simps(2,3,6) by auto
  obtain s' entry where e: "fillEntry demo_X s1 (nextPtr demo_one) = (s', entry)" by force
  have "CreateLink demo_X demo_one 1 ''l'' 2 = Some (s', Inr entry)"
    using s1 e rel demo_one_simps(7) demo_ids by (simp add: CreateLink_def CreateSymlink_op_def getInodeOrDie_def X)
  with link_resolves [OF this demo_ids(1) _ _ demo_ids(2), of "[]" "[''a'']"] show ?thesis using demo_ids(3,4) by auto
qed

section \<open>Extended attributes\<close>

definition nul_terminated :: "string list \<Rightarrow> string" where
  "nul_terminated names = concat (map (\<lambda>name. name @ [CHR 0x00]) names)"

lemma nul_terminated_simps [simp]:
  "nul_terminated [] = []" "nul_terminated (name # names) = name @ CHR 0x00 # nul_terminated names"
  by (simp_all add: nul_terminated_def)

lemma copy_into_fits:
  "at + length src \<le> length dst \<Longrightarrow> length (copy_into dst at src) = length dst \<and> take (at + length src) (copy_into dst at src) = take at dst @ src"
  by (cases src) (auto simp: copy_into_def min_def)

lemma listXattr_loop_size:
  assumes "listXattr_loop names dst ncopied bytesRead = (dst', ncopied', bytesRead')" "ncopied \<le> length dst"
  shows "length dst' = length dst \<and> bytesRead' = bytesRead + length (nul_terminated names) \<and> ncopied' \<le> length dst \<and>
    ncopied' \<le> ncopied + length (nul_terminated names)"
  using assms
proof (induction names dst ncopied bytesRead rule: listXattr_loop.induct)
  case (2 name names dst ncopied bytesRead)
  then show ?case using copy_into_fits [of ncopied "name @ [CHR 0x00]" dst] by (fastforce simp: Let_def split: if_split_asm)
qed simp

lemma listXattr_loop_copies:
  assumes "ncopied + length (nul_terminated names) \<le> length dst"
  shows "\<exists>dst'. listXattr_loop names dst ncopied bytesRead =
      (dst', ncopied + length (nul_terminated names), bytesRead + length (nul_terminated names)) \<and>
    take (ncopied + length (nul_terminated names)) dst' = take ncopied dst @ nul_terminated names"
  using assms
proof (induction names arbitrary: dst ncopied bytesRead)
  case (Cons name names)
  let ?d = "copy_into dst ncopied (name @ [CHR 0x00])" and ?k = "ncopied + (length name + 1)"
  have c: "length ?d = length dst" "take ?k ?d = take ncopied dst @ name @ [CHR 0x00]"
    using copy_into_fits [of ncopied "name @ [CHR 0x00]" dst] Cons.prems by simp_all
  have "?k + length (nul_terminated names) \<le> length ?d" using Cons.prems c(1) by simp
  from Cons.IH [OF this, of "bytesRead + (length name + 1)"] show ?case using c Cons.prems by (auto simp: Let_def add.assoc)
qed simp

text \<open>
  (C13) The protocol of \<open>listxattr\<close>: \<open>BytesRead\<close> is the size of all names with their terminating NUL bytes; an
  empty buffer only asks for it; a buffer that is large enough receives every name, each with its NUL; and a
  buffer that is too small gives \<open>ERANGE\<close>.
\<close>

theorem list_xattr_protocol:
  assumes "\<not> f_DisableXattr (fx_flags X)" "inodes s opInode = Some inode" "\<not> stale s inode"
    and "ListXattr (fx_St X) (fx_E X) s inode = Some (s', Inr names)"
  shows "\<exists>dst' err. ListXattr_op X s opInode dst = Some (s', dst', length (nul_terminated names), err) \<and> length dst' = length dst \<and>
    (if dst = [] then err = None
     else if length (nul_terminated names) \<le> length dst then err = None \<and> take (length (nul_terminated names)) dst' = nul_terminated names
     else err = Some (Errno ERANGE))"
proof -
  obtain dst' nc br where l: "listXattr_loop names dst 0 0 = (dst', nc, br)" using prod_cases3 by blast
  note sz = listXattr_loop_size [OF l, simplified]
  have "ListXattr_op X s opInode dst = Some (s', dst', br, if dst \<noteq> [] \<and> nc < br then Some (Errno ERANGE) else None)"
    using assms l sz iffD2 [OF length_0_conv, of dst] by (auto simp: ListXattr_op_def getInodeOrDie_def)
  moreover have "nc = br \<and> take br dst' = nul_terminated names" if "length (nul_terminated names) \<le> length dst"
    using listXattr_loop_copies [of 0 names dst 0] that l by auto
  ultimately show ?thesis using sz by auto
qed

definition demo_tagged :: "(FileBuffer omap, u64 omap, (nat \<times> u64) omap) Goofys" where
  "demo_tagged = upd (Suc 0) (\<lambda>i. i\<lparr>i_userMetadata := Some [(''k'', ''v'')]\<rparr>) demo_one"

theorem list_xattr_protocol_witness:
  "\<exists>dst' err. ListXattr_op demo_X demo_tagged 2 (replicate 8 (CHR ''x'')) = Some (demo_tagged, dst', length (nul_terminated [''user.k'']), err) \<and>
     length dst' = length (replicate 8 (CHR ''x'')) \<and>
     (if replicate 8 (CHR ''x'') = [] then err = None
      else if length (nul_terminated [''user.k'']) \<le> length (replicate 8 (CHR ''x''))
      then err = None \<and> take (length (nul_terminated [''user.k''])) dst' = nul_terminated [''user.k'']
      else err = Some (Errno ERANGE))"
proof (rule list_xattr_protocol)
  show "\<not> f_DisableXattr (fx_flags demo_X)" by (simp add: demo_X_def)
  show "inodes demo_tagged 2 = Some (Suc 0)" "\<not> stale demo_tagged (Suc 0)" using demo_ids by (simp_all add: demo_tagged_def stale_def upd_def)
  show "ListXattr (fx_St demo_X) (fx_E demo_X) demo_tagged (Suc 0) = Some (demo_tagged, Inr [''user.k''])"
  proof -
    have "fst (cloud demo_E demo_tagged (Suc 0)) = Some 7" by (simp add: demo_tagged_def demo_defs cloud_def ancestors_def numeral_2_eq_2)
    moreover have "i_s3Metadata (heap demo_tagged (Suc 0)) = Some []" "i_userMetadata (heap demo_tagged (Suc 0)) = Some [(''k'', ''v'')]"
      using demo_one_file(3) by (simp_all add: demo_tagged_def upd_def)
    ultimately show ?thesis by (simp add: ListXattr_def fillXattr_def demo_X_def)
  qed
qed

section \<open>Handles\<close>

text \<open>The requests that use the tables of handles; every other request, and every goroutine, changes the file
  system only.  Each request comes with an environment of its own.\<close>

datatype fuseLabel = Served | Released nat | ReleasedDir nat

inductive fuseStep :: "fuseLabel \<Rightarrow> ('t, 'd, 'c) GoofysFuse \<Rightarrow> ('t, 'd, 'c) GoofysFuse \<Rightarrow> bool" where
  step_OpenDir: "OpenDir_op X g i = Some (g', r) \<Longrightarrow> fuseStep Served g g'"
| step_ReadDir: "ReadDir_op X g h offset opPlus len = Some (g', r) \<Longrightarrow> fuseStep Served g g'"
| step_ReleaseDir: "ReleaseDirHandle g h = Some g' \<Longrightarrow> fuseStep (ReleasedDir h) g g'"
| step_OpenFile: "OpenFile_op X g i = Some (g', r) \<Longrightarrow> fuseStep Served g g'"
| step_ReadFile: "ReadFile_op X g h off sz = Some (g', r) \<Longrightarrow> fuseStep Served g g'"
| step_WriteFile: "WriteFile_op X g h off data slack = Some (g', r) \<Longrightarrow> fuseStep Served g g'"
| step_ReleaseFile: "ReleaseFileHandle X g h = Some (g', r) \<Longrightarrow> fuseStep (Released h) g g'"
| step_CreateFile: "CreateFile X g i name mode uid gid = Some (g', r) \<Longrightarrow> fuseStep Served g g'"
| step_fs: "fuseStep Served g (g\<lparr>gf_fs := s\<rparr>)"

inductive fuseRun :: "fuseLabel list \<Rightarrow> ('t, 'd, 'c) GoofysFuse \<Rightarrow> ('t, 'd, 'c) GoofysFuse \<Rightarrow> bool" where
  run_refl: "fuseRun [] g g"
| run_step: "fuseStep l g g1 \<Longrightarrow> fuseRun ls g1 g' \<Longrightarrow> fuseRun (l # ls) g g'"

definition handleInode :: "('t, 'd, 'c) GoofysFuse \<Rightarrow> nat \<Rightarrow> ptr option" where
  "handleInode g h = map_option fst (gf_fileHandles g h)"

definition handlesOk :: "('t, 'd, 'c) GoofysFuse \<Rightarrow> bool" where
  "handlesOk g \<longleftrightarrow> (\<forall>h. gf_dirHandles g h \<noteq> None \<or> handleInode g h \<noteq> None \<longrightarrow> h < gf_nextHandleID g)"

text \<open>What a request does to the tables: it keeps them, adds the next handle, or removes one.\<close>

definition tables :: "('t, 'd, 'c) GoofysFuse \<Rightarrow> (nat \<Rightarrow> nat option) \<times> (nat \<Rightarrow> ptr option) \<times> u64" where
  "tables g = (gf_dirHandles g, handleInode g, gf_nextHandleID g)"

lemma ReadFile_handle: "ReadFile E os wait sync s fh off sz = Some (s', fh', r) \<Longrightarrow> fst fh' = fst fh"
  by (cases fh) (auto simp: ReadFile_def Let_def split: if_split_asm bind_split_asm)

lemma CreateFile_tables:
  assumes "CreateFile X g i name mode uid gid = Some (g', r)"
  shows "tables g' = tables g \<or>
    (\<exists>p. tables g' = (gf_dirHandles g, (handleInode g)(gf_nextHandleID g \<mapsto> p), add64 (gf_nextHandleID g) 1))"
proof (cases "\<exists>s. g' = g\<lparr>gf_fs := s\<rparr>")
  case True
  then show ?thesis by (auto simp: tables_def handleInode_def fun_eq_iff)
next
  case False
  then have g: "g' \<noteq> g\<lparr>gf_fs := s\<rparr>" "g' \<noteq> g" for s by (auto, metis GoofysFuse.surjective GoofysFuse.update_convs(1))
  obtain parent s1 r1 where c: "inodes (gf_fs g) i = Some parent" "\<not> stale (gf_fs g) parent" "Create (fx_E X) (fx_now X) (gf_fs g) parent name = Some (s1, r1)"
    using assms g by (auto simp: CreateFile_def getInodeOrDie_def split: bind_split_asm if_split_asm)
  then obtain inode fh where r1: "r1 = Inr (inode, fh)" using assms g by (cases r1) (auto simp: CreateFile_def getInodeOrDie_def)
  then obtain s2 k where "AddFileHandle (g\<lparr>gf_fs := s2\<rparr>) fh = (g', k)"
    using assms c by (auto simp: CreateFile_def getInodeOrDie_def Let_def split: bind_split_asm prod.splits)
  then show ?thesis by (auto simp: AddFileHandle_def tables_def handleInode_def fun_eq_iff Let_def)
qed

lemma fuseStep_tables:
  assumes "fuseStep l g g'"
  shows "case l of
      Released h \<Rightarrow> tables g' = (gf_dirHandles g, (handleInode g)(h := None), gf_nextHandleID g)
    | ReleasedDir h \<Rightarrow> tables g' = ((gf_dirHandles g)(h := None), handleInode g, gf_nextHandleID g)
    | Served \<Rightarrow> tables g' = tables g \<or>
        (\<exists>d. tables g' = ((gf_dirHandles g)(gf_nextHandleID g \<mapsto> d), handleInode g, add64 (gf_nextHandleID g) 1)) \<or>
        (\<exists>p. tables g' = (gf_dirHandles g, (handleInode g)(gf_nextHandleID g \<mapsto> p), add64 (gf_nextHandleID g) 1))"
  using assms
proof cases
  case (step_ReadFile X h off sz r)
  then obtain fh s' fh' r' where "gf_fileHandles g h = Some fh" "fst fh' = fst fh" "g' = g\<lparr>gf_fs := s', gf_fileHandles := (gf_fileHandles g)(h \<mapsto> fh')\<rparr>"
    by (auto simp: ReadFile_op_def dest!: ReadFile_handle split: bind_split_asm)
  then show ?thesis using step_ReadFile(1) by (auto simp: tables_def handleInode_def fun_eq_iff)
next
  case (step_OpenDir X i r)
  then show ?thesis by (auto simp: OpenDir_op_def AddDirHandle_def tables_def handleInode_def fun_eq_iff Let_def split: bind_split_asm if_split_asm)
next
  case (step_ReadDir X h offset opPlus len r)
  then have "tables g' = tables g" by (auto simp: ReadDir_op_def tables_def handleInode_def fun_eq_iff split: bind_split_asm)
  then show ?thesis using step_ReadDir(1) by simp
next
  case (step_ReleaseDir h)
  then show ?thesis by (auto simp: ReleaseDirHandle_def tables_def handleInode_def fun_eq_iff split: bind_split_asm)
next
  case (step_OpenFile X i r)
  then show ?thesis
    by (auto simp: OpenFile_op_def AddFileHandle_def tables_def handleInode_def fun_eq_iff Let_def split: bind_split_asm if_split_asm prod.splits)
next
  case (step_WriteFile X h off data slack r)
  then have "tables g' = tables g" by (auto simp: WriteFile_op_def tables_def handleInode_def fun_eq_iff Let_def split: bind_split_asm)
  then show ?thesis using step_WriteFile(1) by simp
next
  case (step_ReleaseFile X h r)
  then show ?thesis
    by (auto simp: ReleaseFileHandle_def tables_def handleInode_def fun_eq_iff Let_def split: bind_split_asm if_split_asm)
next
  case (step_CreateFile X i name mode uid gid r)
  then show ?thesis using CreateFile_tables [OF step_CreateFile(2)] by auto
next
  case (step_fs s)
  then show ?thesis by (simp add: tables_def handleInode_def fun_eq_iff)
qed

text \<open>The invariant of a step, as long as the counter does not wrap around.\<close>

lemma fuseStep_handles:
  assumes st: "fuseStep l g g'" and ok: "handlesOk g" "Suc (gf_nextHandleID g) < u64_max"
  shows "handlesOk g'" "gf_nextHandleID g' \<le> Suc (gf_nextHandleID g)"
    "l \<noteq> Released h \<Longrightarrow> handleInode g h = Some p \<Longrightarrow> handleInode g' h = Some p"
    "l \<noteq> ReleasedDir h \<Longrightarrow> gf_dirHandles g h = Some d \<Longrightarrow> gf_dirHandles g' h = Some d"
proof -
  have n: "add64 (gf_nextHandleID g) (Suc 0) = Suc (gf_nextHandleID g)" using ok(2) by (simp add: u64_simps)
  note t = fuseStep_tables [OF st]
  have below: "gf_dirHandles g h \<noteq> None \<or> handleInode g h \<noteq> None \<Longrightarrow> h < gf_nextHandleID g" for h using ok(1) unfolding handlesOk_def by blast
  show "handlesOk g'" unfolding handlesOk_def using t below by (cases l) (auto simp: tables_def n less_Suc_eq split: if_split_asm)
  show "gf_nextHandleID g' \<le> Suc (gf_nextHandleID g)" using t by (cases l) (auto simp: tables_def n)
  show "handleInode g' h = Some p" if "l \<noteq> Released h" "handleInode g h = Some p"
    using t that below [of h] by (cases l) (auto simp: tables_def)
  show "gf_dirHandles g' h = Some d" if "l \<noteq> ReleasedDir h" "gf_dirHandles g h = Some d"
    using t that below [of h] by (cases l) (auto simp: tables_def)
qed

lemma fuseRun_handles:
  assumes "fuseRun ls g g'" "handlesOk g" "gf_nextHandleID g + length ls < u64_max"
  shows "handlesOk g' \<and> gf_nextHandleID g' \<le> gf_nextHandleID g + length ls \<and>
    (\<forall>h p. Released h \<notin> set ls \<longrightarrow> handleInode g h = Some p \<longrightarrow> handleInode g' h = Some p) \<and>
    (\<forall>h d. ReleasedDir h \<notin> set ls \<longrightarrow> gf_dirHandles g h = Some d \<longrightarrow> gf_dirHandles g' h = Some d)"
  using assms
proof (induction rule: fuseRun.induct)
  case (run_step l g g1 ls g')
  then have b: "Suc (gf_nextHandleID g) < u64_max" by simp
  note s = fuseStep_handles [OF run_step.hyps(1) run_step.prems(1) b]
  have "gf_nextHandleID g1 + length ls < u64_max" using s(2) run_step.prems(2) by simp
  note IH = run_step.IH [OF s(1) this]
  then show ?case using s by (auto intro: order_trans)
qed auto

text \<open>
  (C12) Handles: from a new file system and as long as fewer than \<open>2^64 - 1\<close> requests are served, the identifier of
  a new handle is not in use, and an open handle of a file or of a directory means the same file or directory
  until the kernel releases it, whatever other requests are served in between.
\<close>

theorem handles_stay:
  assumes "fuseRun ls1 (NewGoofysFuse s) g" "fuseRun ls2 g g'" "Suc (length ls1 + length ls2) < u64_max"
  shows "(handleInode g h = Some p \<longrightarrow> Released h \<notin> set ls2 \<longrightarrow> handleInode g' h = Some p) \<and>
    (gf_dirHandles g h = Some d \<longrightarrow> ReleasedDir h \<notin> set ls2 \<longrightarrow> gf_dirHandles g' h = Some d) \<and>
    handleInode g' (gf_nextHandleID g') = None \<and> gf_dirHandles g' (gf_nextHandleID g') = None"
proof -
  have n: "handlesOk (NewGoofysFuse s)" "gf_nextHandleID (NewGoofysFuse s) = 1" by (simp_all add: NewGoofysFuse_def handlesOk_def handleInode_def)
  have g: "handlesOk g" "gf_nextHandleID g \<le> Suc (length ls1)" using fuseRun_handles [OF assms(1) n(1)] n(2) assms(3) by auto
  have "gf_nextHandleID g + length ls2 < u64_max" using g(2) assms(3) by simp
  note r = fuseRun_handles [OF assms(2) g(1) this]
  then have "handleInode g' k = None \<and> gf_dirHandles g' k = None" if "gf_nextHandleID g' \<le> k" for k
    using that unfolding handlesOk_def by (meson leD)
  then show ?thesis using r by blast
qed

lemma addModified_CacheState: "i_CacheState (heap (addModified s parent n) q) = i_CacheState (heap s q)"
  using fun_cong [OF addModified_views(4), of s parent n q] by (simp add: states_def)

theorem handles_stay_witness:
  "\<exists>g1 g2. fuseRun [Served] (NewGoofysFuse demo_one) g1 \<and> fuseRun [Served] g1 g2 \<and> handleInode g1 1 = Some (Suc 0) \<and>
     handleInode g2 1 = Some (Suc 0) \<and> handleInode g2 2 = Some (Suc 0)"
proof -
  have o: "\<exists>g1. OpenFile_op demo_X g 2 = Some (g1, Inr (gf_nextHandleID g)) \<and> handleInode g1 (gf_nextHandleID g) = Some (Suc 0) \<and>
      gf_nextHandleID g1 = add64 (gf_nextHandleID g) 1 \<and> inodes (gf_fs g1) 2 = Some (Suc 0) \<and> \<not> stale (gf_fs g1) (Suc 0)"
    if "inodes (gf_fs g) 2 = Some (Suc 0)" "\<not> stale (gf_fs g) (Suc 0)" for g :: "(FileBuffer omap, u64 omap, (nat \<times> u64) omap) GoofysFuse"
    using that by (simp add: OpenFile_op_def OpenFile_def NewFileHandle_def AddFileHandle_def getInodeOrDie_def handleInode_def Let_def stale_def addModified_CacheState)
  let ?g = "NewGoofysFuse demo_one"
  have g: "inodes (gf_fs ?g) 2 = Some (Suc 0)" "\<not> stale (gf_fs ?g) (Suc 0)" "gf_nextHandleID ?g = 1" using demo_ids by (simp_all add: NewGoofysFuse_def)
  obtain g1 where g1: "OpenFile_op demo_X ?g 2 = Some (g1, Inr 1)" "handleInode g1 1 = Some (Suc 0)" "gf_nextHandleID g1 = 2"
    "inodes (gf_fs g1) 2 = Some (Suc 0)" "\<not> stale (gf_fs g1) (Suc 0)" using o [OF g(1,2)] g(3) by (auto simp: u64_simps u64_max_def)
  obtain g2 where g2: "OpenFile_op demo_X g1 2 = Some (g2, Inr 2)" "handleInode g2 2 = Some (Suc 0)" using o [OF g1(4,5)] g1(3) by auto
  have runs: "fuseRun [Served] ?g g1" "fuseRun [Served] g1 g2" using g1(1) g2(1) by (auto intro: fuseRun.intros step_OpenFile)
  from handles_stay [OF this, of 1 "Suc 0"] have "handleInode g2 1 = Some (Suc 0)" using g1(2) by (simp add: u64_max_def)
  then show ?thesis using runs g1(2) g2(2) by blast
qed

end
