(* ===== verification/Spec2Isabelle.thy ===== *)
theory Spec2Isabelle
  imports Buffer_Properties Multi_Reader Fuse_Effects
begin

text \<open>
  A verification development of AkaveFS, a file system that keeps its files in an object store.

  \<^bold>\<open>The program.\<close>  Inodes (\<^verbatim>\<open>src/core/handles.go\<close>) form a tree of directories (\<^verbatim>\<open>src/core/dir.go\<close>).  A file caches
  the bytes of its object in a list of buffers (\<^verbatim>\<open>src/core/buffer_list.go\<close>); reads load what is missing, writes
  make buffers dirty, and flushers (\<^verbatim>\<open>src/core/file.go\<close>, \<^verbatim>\<open>src/core/goofys.go\<close>) send them back as one object, as the
  parts of a multipart upload, or as patches.  Directory operations change the tree at once and send deletions,
  new directories and renames later.  Listings bring the names of the store into the tree.

  \<^bold>\<open>Conventions.\<close>  An unsigned 64-bit number is a natural number, and every operation that may wrap is written
  with \<open>add64\<close>, \<open>sub64\<close> or \<open>mul64\<close> (\<open>Go_Prelude\<close>).  A panic is \<open>None\<close>, a Go error a value of \<open>error\<close>.  The inodes are
  records in a heap of the file-system state \<open>Goofys\<close>; an operation takes the state and returns the new one.
  An operation that releases its locks to wait for the store is cut there: each piece under the lock is a function
  of its own, and the operation composes them with arguments for the answer of the store and for what the other
  threads do in between (\<open>other\<close>).  The B-tree package, the unicode tables and the store are code outside the repository:
  they are parameters of the environment \<open>gEnv\<close>, and what is relied on is stated as \<open>btree_map\<close>, \<open>env_ok\<close>
  and hypotheses of the theorems; each has a witness on concrete instances.

  \<^bold>\<open>Theories.\<close>
  \<^item> \<open>Go_Prelude\<close>, \<open>Go_Strings\<close>, \<open>Ordered_Map\<close>: machine arithmetic, strings, the interface of ordered maps and an
    instance of it.
  \<^item> \<open>Part_Sizes\<close> (\<^verbatim>\<open>config.go\<close>, \<^verbatim>\<open>flags.go\<close>, \<^verbatim>\<open>backend_s3.go\<close>): the layout of uploads as parts.  The
    arithmetic agrees with the layout written out; accepted configurations do not overflow; copies cover the object.
  \<^item> \<open>Buffer_List\<close> and \<open>Buffer_Queues\<close> (\<^verbatim>\<open>buffer_list.go\<close>, \<^verbatim>\<open>buffer_queue.go\<close>, \<^verbatim>\<open>fd_queue.go\<close>): all operations of the buffer list.
    \<open>Buffer_List_Inv\<close> defines its invariant \<open>BL_inv\<close> in the locale \<open>buffer_env\<close> (interpreted in \<open>Inode_Buffers\<close> on
    the environment that an inode gives its list) and \<open>Buffer_List_Cells\<close> what a list holds at a position (\<open>cell\<close>).
    The theories \<open>Buffer_List_*\<close> show for every operation that it does not panic, keeps the invariant and changes
    exactly the cells that it should; \<open>Buffer_Pos\<close> and \<open>Buffer_Query\<close> state this for files without a disk cache.
    \<open>Buffer_Properties\<close> holds the properties of the component.
  \<^item> \<open>Read_Ranges\<close> (\<^verbatim>\<open>file.go\<close>): merging and splitting of loads, range locks.  \<open>Multi_Reader\<close> (\<^verbatim>\<open>buffer_reader.go\<close>): the
    reader over buffers refines a reader over their concatenation.
  \<^item> \<open>Backend\<close> (\<^verbatim>\<open>backend.go\<close>, \<^verbatim>\<open>utils.go\<close>): requests, errors, retries.  \<open>Metadata\<close> (\<^verbatim>\<open>handles.go\<close>): extended
    attributes and the escaping of metadata.  \<open>Names\<close>: keys.
  \<^item> \<open>Inode_State\<close>, \<open>Inode_Ops\<close>, \<open>Inode_Reset\<close>, \<open>Inode_Frame\<close> (\<^verbatim>\<open>handles.go\<close>, \<^verbatim>\<open>goofys.go\<close>): the state, the operations on one
    inode, and which parts of the state they leave alone.
  \<^item> \<open>Dir_Children\<close>, \<open>Dir_Handles\<close>, \<open>Dir_Listing\<close>, \<open>List_Cut\<close>, \<open>Slurp_Gaps\<close>, \<open>Dir_Ops\<close>, \<open>Lookup\<close>, \<open>Inflight\<close> (\<^verbatim>\<open>dir.go\<close>, \<^verbatim>\<open>goofys.go\<close>,
    \<^verbatim>\<open>refresh_inode_cache.go\<close>): directories.  \<open>Dir_Tree\<close>, \<open>Dir_Skel\<close>, \<open>Dir_Safe\<close>, \<open>Dir_Run\<close>, \<open>Readdir\<close> and \<open>Dir_Effects\<close> show
    that a directory is a map from names to inodes, that every sequence of operations runs without a panic and keeps
    the invariant \<open>fs_ok\<close>, and what lookups and passes over a directory see.
  \<^item> \<open>File_Ops\<close>, \<open>File_Flush\<close>, \<open>File_Sync\<close> (\<^verbatim>\<open>file.go\<close>, \<^verbatim>\<open>buffer_pool.go\<close>): reads, writes, attributes, uploads and their
    scheduling.
  \<^item> \<open>File_View\<close> reduces a file to what matters for its content (\<open>fview\<close>) and \<open>File_Sections\<close> states every critical section of
    \<open>File_Ops\<close>, \<open>File_Flush\<close> and \<open>File_Sync\<close> on it.  \<open>File_World\<close> puts a file, the store and the goroutines together: an
    event is a section or an answer, \<open>fileExec\<close> runs it on the code's definitions, and a list of bytes with three
    operations (\<open>fileSpec\<close>) says what the file promises.  \<open>File_Inv\<close> is the invariant, with what the outside knows next
    to the view; \<open>File_Steps\<close>, \<open>File_Zero\<close>, \<open>File_Uploads\<close> and \<open>File_Try\<close> show that every event keeps it; \<open>File_Refine\<close> concludes that runs do
    not panic, that reads return the bytes of the list, that no byte is lost and that a clean file is stored.
    The hypotheses: no disk cache, no patching, one part per copy (\<open>fileEnv\<close>); answers follow the protocol, no other client writes
    the object, a file is not made shorter over uploaded parts, and it is completed at the size for which the
    completion was decided (\<open>fileValid\<close>).  The code does not ensure the last two, see the findings.
  \<^item> \<open>Fuse\<close> (\<^verbatim>\<open>goofys_fuse.go\<close>): the handlers of the FUSE requests, each a composition of the operations above with the
    tables of open handles.  \<open>Go_Path\<close> has the functions on paths that the emulation of hard links uses.  \<open>Fuse_Effects\<close>
    shows that an emulated hard link leads to its target, that handles keep their meaning, and the protocol of
    \<open>listxattr\<close>; \<open>Fallocate\<close> is an event of \<open>File_World\<close>.
  \<^item> \<open>Fs_New\<close>, \<open>Fs_Ops\<close> (\<^verbatim>\<open>goofys.go\<close>): construction of the file system, mounts, eviction of inodes.

  \<^bold>\<open>Bounds.\<close>  Loops that follow the data are structural recursions or \<open>function\<close>s with a measure.  The recursion into
  subdirectories takes the number of inodes as fuel, which no path in the tree exceeds.  Loops that wait for the
  store are \<open>partial_function (option)\<close> or take the list of answers.

  \<^bold>\<open>Not modelled.\<close>  The clients of the stores (Azure, Google, AWS SDK calls), request signing, gRPC cluster mode and its
  generated code, the Windows adapter, mounting, command-line declarations, logging, signals, statistics and system calls: they are
  calls into libraries outside the repository or pure input and output.
\<close>

end
